(* ===== verification/Prelude.thy ===== *)
theory Prelude
  imports Main "HOL-Library.Word" "HOL-Library.Multiset"
begin

text \<open>
  Shared vocabulary of the development: the result type of a Rust call, comparators and the
  stable sort that \<open>sort_by\<close> performs, the vector operations of the Rust standard library
  that the code uses (\<open>swap_remove\<close>, \<open>chunks\<close>, \<open>windows(2)\<close>, the \<open>HashSet\<close> duplicate
  test), and the checked arithmetic on \<open>usize\<close>.
\<close>

named_theorems outcome_simps "reducing a bind of outcomes"
named_theorems comparator_intros "comparator combinators keep the comparator laws"
named_theorems vec_simps "length and content of vector operations"

section \<open>Integers and results\<close>

text \<open>
  A \<open>usize\<close> or a \<open>u64\<close> length is a natural number, and the places where the code guards
  against overflow call \<open>checked_add\<close> and \<open>checked_mul\<close> below; the target is 64-bit.
  Identifiers (\<open>u64\<close>) are words.
\<close>

type_synonym u8 = "8 word"
type_synonym u16 = "16 word"
type_synonym u32 = "32 word"
type_synonym u64 = "64 word"

definition usize_max :: nat where
  "usize_max = 18446744073709551615"

definition u32_max :: nat where
  "u32_max = 4294967295"

definition u16_max :: nat where
  "u16_max = 65535"

definition checked_add :: "nat \<Rightarrow> nat \<Rightarrow> nat option" where
  "checked_add a b = (if a + b \<le> usize_max then Some (a + b) else None)"

definition checked_mul :: "nat \<Rightarrow> nat \<Rightarrow> nat option" where
  "checked_mul a b = (if a * b \<le> usize_max then Some (a * b) else None)"

definition saturating_mul :: "nat \<Rightarrow> nat \<Rightarrow> nat" where
  "saturating_mul a b = min (a * b) usize_max"

text \<open>\<open>n.is_multiple_of(m)\<close>: with \<open>m = 0\<close> it holds of \<open>0\<close> only.\<close>

definition is_multiple_of :: "nat \<Rightarrow> nat \<Rightarrow> bool" where
  "is_multiple_of n m = (if m = 0 then n = 0 else n mod m = 0)"

lemma is_multiple_of_dvd: "is_multiple_of n m \<longleftrightarrow> m dvd n"
  by (auto simp: is_multiple_of_def dvd_eq_mod_eq_0)

lemma checked_mul_Some [simp]: "checked_mul a b = Some c \<longleftrightarrow> c = a * b \<and> a * b \<le> usize_max"
  by (auto simp: checked_mul_def)

lemma checked_mul_None [simp]: "checked_mul a b = None \<longleftrightarrow> usize_max < a * b"
  by (auto simp: checked_mul_def)

lemma checked_add_Some [simp]: "checked_add a b = Some c \<longleftrightarrow> c = a + b \<and> a + b \<le> usize_max"
  by (auto simp: checked_add_def)

lemma checked_add_None [simp]: "checked_add a b = None \<longleftrightarrow> usize_max < a + b"
  by (auto simp: checked_add_def)

text \<open>
  The outcome of a Rust call: a value, an \<open>Err\<close>, or a panic (a failed \<open>assert!\<close>,
  \<open>expect\<close>, or index).
\<close>

datatype ('e, 'a) outcome = Ok 'a | Err 'e | Panic

fun obind :: "('e, 'a) outcome \<Rightarrow> ('a \<Rightarrow> ('e, 'b) outcome) \<Rightarrow> ('e, 'b) outcome" where
  "obind (Ok a) f = f a"
| "obind (Err e) f = Err e"
| "obind Panic f = Panic"

fun map_err :: "('e \<Rightarrow> 'f) \<Rightarrow> ('e, 'a) outcome \<Rightarrow> ('f, 'a) outcome" where
  "map_err g (Ok a) = Ok a"
| "map_err g (Err e) = Err (g e)"
| "map_err g Panic = Panic"

fun ok_or :: "'e \<Rightarrow> 'a option \<Rightarrow> ('e, 'a) outcome" where
  "ok_or e None = Err e"
| "ok_or e (Some a) = Ok a"

fun expect :: "'a option \<Rightarrow> ('e, 'a) outcome" where
  "expect None = Panic"
| "expect (Some a) = Ok a"

fun is_ok :: "('e, 'a) outcome \<Rightarrow> bool" where
  "is_ok (Ok a) = True"
| "is_ok (Err e) = False"
| "is_ok Panic = False"

declare obind.simps [outcome_simps]
declare map_err.simps [outcome_simps]
declare ok_or.simps [outcome_simps]
declare expect.simps [outcome_simps]

lemma obind_eq_Ok [outcome_simps]: "obind m f = Ok b \<longleftrightarrow> (\<exists>a. m = Ok a \<and> f a = Ok b)"
  by (cases m) auto

lemma obind_eq_Err [outcome_simps]:
  "obind m f = Err e \<longleftrightarrow> m = Err e \<or> (\<exists>a. m = Ok a \<and> f a = Err e)"
  by (cases m) auto

lemma obind_eq_Panic [outcome_simps]:
  "obind m f = Panic \<longleftrightarrow> m = Panic \<or> (\<exists>a. m = Ok a \<and> f a = Panic)"
  by (cases m) auto

lemma map_err_eq_Ok [outcome_simps]: "map_err g m = Ok a \<longleftrightarrow> m = Ok a"
  by (cases m) auto

lemma map_err_eq_Err [outcome_simps]: "map_err g m = Err f \<longleftrightarrow> (\<exists>e. m = Err e \<and> f = g e)"
  by (cases m) auto

lemma map_err_eq_Panic [outcome_simps]: "map_err g m = Panic \<longleftrightarrow> m = Panic"
  by (cases m) auto

lemma ok_or_eq_Ok [outcome_simps]: "ok_or e x = Ok a \<longleftrightarrow> x = Some a"
  by (cases x) auto

lemma ok_or_eq_Err [outcome_simps]: "ok_or e x = Err e' \<longleftrightarrow> x = None \<and> e' = e"
  by (cases x) auto

lemma ok_or_not_Panic [outcome_simps]: "ok_or e x \<noteq> Panic"
  by (cases x) auto

lemma expect_eq_Ok [outcome_simps]: "expect x = Ok a \<longleftrightarrow> x = Some a"
  by (cases x) auto

lemma obind_assoc: "obind (obind m f) g = obind m (\<lambda>x. obind (f x) g)"
  by (cases m) auto

lemma is_ok_iff: "is_ok m \<longleftrightarrow> (\<exists>a. m = Ok a)"
  by (cases m) auto

text \<open>\<open>iter().map(f).collect::<Result<Vec<_>>>()\<close>: stop at the first failure.\<close>

fun traverse :: "('a \<Rightarrow> ('e, 'b) outcome) \<Rightarrow> 'a list \<Rightarrow> ('e, 'b list) outcome" where
  "traverse f [] = Ok []"
| "traverse f (x # xs) = obind (f x) (\<lambda>y. obind (traverse f xs) (\<lambda>ys. Ok (y # ys)))"

lemma traverse_Ok: "traverse f xs = Ok ys \<longleftrightarrow> list_all2 (\<lambda>x y. f x = Ok y) xs ys"
  by (induction xs arbitrary: ys) (auto simp: outcome_simps list_all2_Cons1)

lemma traverse_Err_elem: "traverse f xs = Err e \<Longrightarrow> \<exists>x\<in>set xs. f x = Err e"
  by (induction xs) (auto simp: outcome_simps)

lemma traverse_Panic_elem: "traverse f xs = Panic \<Longrightarrow> \<exists>x\<in>set xs. f x = Panic"
  by (induction xs) (auto simp: outcome_simps)

lemma traverse_option:
  assumes "\<And>x y. x \<in> set xs \<Longrightarrow> f x = Ok y \<longleftrightarrow> g x = Some y" and "\<And>x. x \<in> set xs \<Longrightarrow> f x \<noteq> Panic"
  shows "traverse f xs = Ok ys \<longleftrightarrow> (\<forall>x\<in>set xs. g x \<noteq> None) \<and> ys = map (the \<circ> g) xs"
    and "traverse f xs \<noteq> Panic"
  subgoal
    using assms(1) unfolding traverse_Ok
    by (induction xs arbitrary: ys) (auto simp: list_all2_Cons1)
  subgoal using assms(2) traverse_Panic_elem [of f xs] by blast
  done

lemma obind_ok_or: "obind (ok_or e x) (\<lambda>a. Ok (f a)) = ok_or e (map_option f x)"
  by (cases x) simp_all

section \<open>Comparators and sorting\<close>

text \<open>\<open>std::cmp::Ordering\<close>, its \<open>reverse\<close> and \<open>then_with\<close>, and \<open>Ord::cmp\<close>.\<close>

datatype ordering = OLess | OEqual | OGreater

fun ord_reverse :: "ordering \<Rightarrow> ordering" where
  "ord_reverse OLess = OGreater"
| "ord_reverse OEqual = OEqual"
| "ord_reverse OGreater = OLess"

fun then_with :: "ordering \<Rightarrow> ordering \<Rightarrow> ordering" where
  "then_with OEqual r = r"
| "then_with OLess r = OLess"
| "then_with OGreater r = OGreater"

definition ord_cmp :: "'a::linorder \<Rightarrow> 'a \<Rightarrow> ordering" where
  "ord_cmp a b = (if a < b then OLess else if a = b then OEqual else OGreater)"

text \<open>
  \<open>slice::sort_by\<close> is stable: equal elements keep their order. A comparator's stable sorted
  permutation is unique, so the insertion sort below computes what the library's sort returns.
\<close>

fun insert_by :: "('a \<Rightarrow> 'a \<Rightarrow> ordering) \<Rightarrow> 'a \<Rightarrow> 'a list \<Rightarrow> 'a list" where
  "insert_by cmp x [] = [x]"
| "insert_by cmp x (y # ys) =
     (if cmp x y = OGreater then y # insert_by cmp x ys else x # y # ys)"

fun sort_by :: "('a \<Rightarrow> 'a \<Rightarrow> ordering) \<Rightarrow> 'a list \<Rightarrow> 'a list" where
  "sort_by cmp [] = []"
| "sort_by cmp (x # xs) = insert_by cmp x (sort_by cmp xs)"

definition sorted_by :: "('a \<Rightarrow> 'a \<Rightarrow> ordering) \<Rightarrow> 'a list \<Rightarrow> bool" where
  "sorted_by cmp = sorted_wrt (\<lambda>a b. cmp a b \<noteq> OGreater)"

lemma mset_insert_by [simp]: "mset (insert_by cmp x xs) = add_mset x (mset xs)"
  by (induction xs) auto

lemma mset_sort_by [simp]: "mset (sort_by cmp xs) = mset xs"
  by (induction xs) auto

lemma set_sort_by [simp]: "set (sort_by cmp xs) = set xs"
  by (rule mset_eq_setD) simp

lemma set_insert_by [simp]: "set (insert_by cmp x xs) = insert x (set xs)"
  using mset_insert_by [of cmp x xs] mset_eq_setD [of "insert_by cmp x xs" "x # xs"] by simp

lemma length_sort_by [simp]: "length (sort_by cmp xs) = length xs"
  by (rule mset_eq_length) simp

lemma distinct_sort_by [simp]: "distinct (sort_by cmp xs) = distinct xs"
  by (rule mset_eq_imp_distinct_iff) simp

lemma distinct_map_sort_by [simp]: "distinct (map f (sort_by cmp xs)) = distinct (map f xs)"
  by (rule mset_eq_imp_distinct_iff) simp

text \<open>
  The interface between a comparator and the sorts that use it: a total preorder, and for
  \<open>linear_comparator\<close> a total order up to a key.
\<close>

locale comparator_laws =
  fixes cmp :: "'a \<Rightarrow> 'a \<Rightarrow> ordering"
  assumes cmp_refl: "cmp x x = OEqual"
    and cmp_flip: "cmp y x = ord_reverse (cmp x y)"
    and cmp_trans: "cmp x y \<noteq> OGreater \<Longrightarrow> cmp y z \<noteq> OGreater \<Longrightarrow> cmp x z \<noteq> OGreater"
begin

lemma not_greater_total: "cmp x y = OGreater \<Longrightarrow> cmp y x \<noteq> OGreater"
  using cmp_flip [of y x] by (cases "cmp y x") auto

lemma cmp_antisym: "cmp x y \<noteq> OGreater \<Longrightarrow> cmp y x \<noteq> OGreater \<Longrightarrow> cmp x y = OEqual"
  using cmp_flip [of y x] by (cases "cmp x y") auto

lemma cmp_equal_sym: "cmp x y = OEqual \<Longrightarrow> cmp y x = OEqual"
  using cmp_flip [of y x] by simp

lemma sorted_insert_by: "sorted_by cmp xs \<Longrightarrow> sorted_by cmp (insert_by cmp x xs)"
proof (induction xs)
  case Nil
  then show ?case by (simp add: sorted_by_def)
next
  case (Cons y ys)
  then show ?case
    by (auto simp: sorted_by_def) (meson cmp_trans not_greater_total)+
qed

lemma sorted_sort_by: "sorted_by cmp (sort_by cmp xs)"
  by (induction xs) (simp_all add: sorted_by_def [of cmp] sorted_insert_by [unfolded sorted_by_def])

lemma sort_by_sorted: "sorted_by cmp xs \<Longrightarrow> sort_by cmp xs = xs"
proof (induction xs)
  case Nil
  then show ?case by simp
next
  case (Cons x xs)
  then have "sort_by cmp xs = xs" by (simp add: sorted_by_def)
  with Cons.prems show ?case by (cases xs) (auto simp: sorted_by_def)
qed

lemma sorted_by_adjacent:
  "sorted_by cmp (x # y # ys) \<longleftrightarrow> cmp x y \<noteq> OGreater \<and> sorted_by cmp (y # ys)"
  unfolding sorted_by_def by (simp, meson cmp_trans)

end

locale linear_comparator = comparator_laws cmp for cmp :: "'a \<Rightarrow> 'a \<Rightarrow> ordering" +
  fixes key :: "'a \<Rightarrow> 'k"
  assumes cmp_equal_key: "cmp x y = OEqual \<Longrightarrow> key x = key y"
begin

lemma equal_key_unique:
  assumes "inj_on key S" and "x \<in> S" and "y \<in> S" and "cmp x y \<noteq> OGreater" and "cmp y x \<noteq> OGreater"
  shows "x = y"
proof -
  have "cmp x y = OEqual" using assms(4,5) by (rule cmp_antisym)
  with assms(1-3) show ?thesis by (auto dest: cmp_equal_key inj_onD)
qed

text \<open>
  Elements with distinct keys have one sorted arrangement, whatever order they came in: the
  iteration order of a hash map does not show after a sort.
\<close>

lemma sorted_by_unique:
  assumes "sorted_by cmp xs" and "sorted_by cmp ys" and "mset xs = mset ys"
    and "inj_on key (set xs)"
  shows "xs = ys"
  using assms
proof (induction xs arbitrary: ys)
  case Nil
  then show ?case by simp
next
  case (Cons x xs)
  then obtain y zs where ys: "ys = y # zs"
    by (cases ys) auto
  have same: "set (x # xs) = set ys" using Cons.prems(3) by (rule mset_eq_setD)
  have "x = y"
  proof (cases "x = y")
    case False
    with same ys have "x \<in> set zs" and "y \<in> set xs" by auto
    with Cons.prems(1,2) ys have "cmp x y \<noteq> OGreater" and "cmp y x \<noteq> OGreater"
      by (auto simp: sorted_by_def)
    with equal_key_unique [OF Cons.prems(4), of x y] \<open>y \<in> set xs\<close> show ?thesis by simp
  qed simp
  moreover have "xs = zs"
    by (rule Cons.IH) (use Cons.prems ys \<open>x = y\<close> in \<open>auto simp: sorted_by_def inj_on_def\<close>)
  ultimately show ?case using ys by simp
qed

lemma sort_by_perm_invariant:
  "mset xs = mset ys \<Longrightarrow> inj_on key (set xs) \<Longrightarrow> sort_by cmp xs = sort_by cmp ys"
  by (rule sorted_by_unique) (auto simp: sorted_sort_by)

end

text \<open>Comparators built from keys, reversed comparison, and \<open>then_with\<close>.\<close>

definition cmp_on :: "('a \<Rightarrow> 'k::linorder) \<Rightarrow> 'a \<Rightarrow> 'a \<Rightarrow> ordering" where
  "cmp_on f a b = ord_cmp (f a) (f b)"

definition cmp_desc :: "('a \<Rightarrow> 'k::linorder) \<Rightarrow> 'a \<Rightarrow> 'a \<Rightarrow> ordering" where
  "cmp_desc f a b = ord_cmp (f b) (f a)"

definition cmp_then ::
  "('a \<Rightarrow> 'a \<Rightarrow> ordering) \<Rightarrow> ('a \<Rightarrow> 'a \<Rightarrow> ordering) \<Rightarrow> 'a \<Rightarrow> 'a \<Rightarrow> ordering" where
  "cmp_then c d a b = then_with (c a b) (d a b)"

lemma comparator_cmp_on [comparator_intros]: "comparator_laws (cmp_on f)"
  by unfold_locales (auto simp: cmp_on_def ord_cmp_def split: if_splits)

lemma comparator_cmp_desc [comparator_intros]: "comparator_laws (cmp_desc f)"
  by unfold_locales (auto simp: cmp_desc_def ord_cmp_def split: if_splits)

lemma comparator_cmp_then [comparator_intros]:
  assumes c: "comparator_laws c" and d: "comparator_laws d"
  shows "comparator_laws (cmp_then c d)"
proof
  fix x
  show "cmp_then c d x x = OEqual"
    by (simp add: cmp_then_def comparator_laws.cmp_refl [OF c] comparator_laws.cmp_refl [OF d])
next
  fix x y
  have "c y x = ord_reverse (c x y)" and "d y x = ord_reverse (d x y)"
    by (rule comparator_laws.cmp_flip [OF c], rule comparator_laws.cmp_flip [OF d])
  then show "cmp_then c d y x = ord_reverse (cmp_then c d x y)"
    unfolding cmp_then_def by (cases "c x y") simp_all
next
  fix x y z
  assume xy: "cmp_then c d x y \<noteq> OGreater" and yz: "cmp_then c d y z \<noteq> OGreater"
  have cxy: "c x y \<noteq> OGreater" and cyz: "c y z \<noteq> OGreater"
    using xy yz by (auto simp: cmp_then_def)
  then have cxz: "c x z \<noteq> OGreater" by (rule comparator_laws.cmp_trans [OF c])
  show "cmp_then c d x z \<noteq> OGreater"
  proof (cases "c x z = OEqual")
    case True
    then have "c z x = OEqual" by (rule comparator_laws.cmp_equal_sym [OF c])
    then have zx: "c z x \<noteq> OGreater" by simp
    have "c y x \<noteq> OGreater" using cyz zx by (rule comparator_laws.cmp_trans [OF c])
    moreover have "c z y \<noteq> OGreater" using zx cxy by (rule comparator_laws.cmp_trans [OF c])
    ultimately have "c x y = OEqual" and "c y z = OEqual"
      using cxy cyz by (auto intro: comparator_laws.cmp_antisym [OF c])
    with xy yz have "d x y \<noteq> OGreater" and "d y z \<noteq> OGreater"
      by (auto simp: cmp_then_def)
    then have "d x z \<noteq> OGreater" by (rule comparator_laws.cmp_trans [OF d])
    with True show ?thesis by (simp add: cmp_then_def)
  next
    case False
    with cxz show ?thesis by (cases "c x z") (auto simp: cmp_then_def)
  qed
qed

lemma cmp_on_equal [simp]: "cmp_on f a b = OEqual \<longleftrightarrow> f a = f b"
  by (auto simp: cmp_on_def ord_cmp_def)

lemma cmp_desc_equal [simp]: "cmp_desc f a b = OEqual \<longleftrightarrow> f a = f b"
  by (auto simp: cmp_desc_def ord_cmp_def)

lemma cmp_then_equal [simp]: "cmp_then c d a b = OEqual \<longleftrightarrow> c a b = OEqual \<and> d a b = OEqual"
  by (cases "c a b") (auto simp: cmp_then_def)

lemma cmp_on_not_greater [simp]: "cmp_on f a b \<noteq> OGreater \<longleftrightarrow> f a \<le> f b"
  by (auto simp: cmp_on_def ord_cmp_def)

lemma cmp_desc_not_greater [simp]: "cmp_desc f a b \<noteq> OGreater \<longleftrightarrow> f b \<le> f a"
  by (auto simp: cmp_desc_def ord_cmp_def)

section \<open>Vectors\<close>

text \<open>\<open>Vec::swap_remove\<close>: the removed element, and the vector with its last element moved
  into the hole; out of range it panics.\<close>

definition list_swap_remove :: "'a list \<Rightarrow> nat \<Rightarrow> 'a list" where
  "list_swap_remove xs i = butlast (xs[i := last xs])"

definition vec_swap_remove :: "'a list \<Rightarrow> nat \<Rightarrow> ('e, 'a list \<times> 'a) outcome" where
  "vec_swap_remove xs i =
     (if i < length xs then Ok (list_swap_remove xs i, xs ! i) else Panic)"

lemma length_list_swap_remove [vec_simps, simp]:
  "length (list_swap_remove xs i) = length xs - 1"
  by (simp add: list_swap_remove_def)

lemma nth_list_swap_remove [vec_simps]:
  assumes "i < length xs" and "j < length xs - 1"
  shows "list_swap_remove xs i ! j = (if j = i then last xs else xs ! j)"
  using assms by (auto simp: list_swap_remove_def nth_butlast nth_list_update)

lemma map_list_swap_remove [vec_simps]:
  assumes "i < length xs"
  shows "map f (list_swap_remove xs i) = list_swap_remove (map f xs) i"
proof -
  have "xs \<noteq> []" using assms by auto
  then show ?thesis by (simp add: list_swap_remove_def map_butlast map_update last_map)
qed

lemma set_list_swap_remove [vec_simps]:
  assumes "i < length xs" and "distinct xs"
  shows "set (list_swap_remove xs i) = set xs - {xs ! i}"
proof -
  have last: "last xs = xs ! (length xs - 1)"
    using assms(1) by (cases xs) (auto simp: last_conv_nth)
  show ?thesis
  proof (rule set_eqI)
    fix x
    show "x \<in> set (list_swap_remove xs i) \<longleftrightarrow> x \<in> set xs - {xs ! i}"
    proof
      assume "x \<in> set (list_swap_remove xs i)"
      then obtain j where j: "j < length xs - 1" and x: "x = list_swap_remove xs i ! j"
        by (auto simp: in_set_conv_nth)
      then show "x \<in> set xs - {xs ! i}"
        using assms last by (auto simp: nth_list_swap_remove nth_eq_iff_index_eq)
    next
      assume "x \<in> set xs - {xs ! i}"
      then obtain j where j: "j < length xs" "x = xs ! j" "j \<noteq> i"
        by (auto simp: in_set_conv_nth)
      then show "x \<in> set (list_swap_remove xs i)"
      proof (cases "j = length xs - 1")
        case True
        then have "i < length xs - 1" using j assms(1) by simp
        moreover have "list_swap_remove xs i ! i = x"
          using calculation assms j last True by (simp add: nth_list_swap_remove)
        ultimately show ?thesis by (metis length_list_swap_remove nth_mem)
      next
        case False
        then have "j < length xs - 1" using j by simp
        moreover have "list_swap_remove xs i ! j = x"
          using calculation assms j by (simp add: nth_list_swap_remove)
        ultimately show ?thesis by (metis length_list_swap_remove nth_mem)
      qed
    qed
  qed
qed

lemma distinct_list_swap_remove [vec_simps]:
  assumes "distinct xs" and "i < length xs"
  shows "distinct (list_swap_remove xs i)"
  unfolding distinct_conv_nth
proof (intro allI impI)
  fix j k
  assume jk: "j < length (list_swap_remove xs i)" "k < length (list_swap_remove xs i)" "j \<noteq> k"
  have "last xs = xs ! (length xs - 1)"
    using assms(2) by (cases xs) (auto simp: last_conv_nth)
  with jk assms show "list_swap_remove xs i ! j \<noteq> list_swap_remove xs i ! k"
    by (auto simp: nth_list_swap_remove nth_eq_iff_index_eq)
qed

text \<open>
  \<open>chunks(d)\<close> over a flat row-major buffer, whose length the callers have checked to be a
  multiple of \<open>d\<close>, and \<open>chunks\<close> of any size with a shorter last piece.
\<close>

function chunks :: "nat \<Rightarrow> 'a list \<Rightarrow> 'a list list" where
  "chunks d xs = (if xs = [] \<or> d = 0 then [] else take d xs # chunks d (drop d xs))"
  by pat_completeness auto
termination
  by (relation "measure (\<lambda>(d, xs). length xs)") auto

declare chunks.simps [simp del]

lemma chunks_Nil [simp]: "chunks d [] = []"
  by (simp add: chunks.simps)

lemma chunks_step: "xs \<noteq> [] \<Longrightarrow> 0 < d \<Longrightarrow> chunks d xs = take d xs # chunks d (drop d xs)"
  by (simp add: chunks.simps [of d xs])

lemma concat_chunks: "0 < d \<Longrightarrow> concat (chunks d xs) = xs"
proof (induction d xs rule: chunks.induct)
  case (1 d xs)
  then show ?case by (cases "xs = []") (auto simp: chunks_step)
qed

lemma length_chunks: "0 < d \<Longrightarrow> d dvd length xs \<Longrightarrow> length (chunks d xs) = length xs div d"
proof (induction d xs rule: chunks.induct)
  case (1 d xs)
  show ?case
  proof (cases "xs = []")
    case False
    with 1 have "d \<le> length xs" by (simp add: dvd_imp_le)
    moreover have "d dvd length (drop d xs)" using 1 by simp
    ultimately show ?thesis
      using 1 False by (simp add: chunks_step le_div_geq)
  qed simp
qed

lemma chunks_append:
  "0 < d \<Longrightarrow> d dvd length xs \<Longrightarrow> chunks d (xs @ ys) = chunks d xs @ chunks d ys"
proof (induction d xs rule: chunks.induct)
  case (1 d xs)
  show ?case
  proof (cases "xs = []")
    case False
    with 1 have "d \<le> length xs" by (simp add: dvd_imp_le)
    moreover have "d dvd length (drop d xs)" using 1 by simp
    ultimately show ?thesis
      using 1 False by (simp add: chunks_step)
  qed simp
qed

text \<open>\<open>windows(2)\<close>: the adjacent pairs.\<close>

definition windows2 :: "'a list \<Rightarrow> ('a \<times> 'a) list" where
  "windows2 xs = zip xs (tl xs)"

lemma windows2_Cons [simp]: "windows2 (x # y # ys) = (x, y) # windows2 (y # ys)"
  by (simp add: windows2_def)

lemma windows2_short [simp]: "windows2 [] = []" "windows2 [x] = []"
  by (simp_all add: windows2_def)

lemma windows2_sorted: "(\<forall>(a, b)\<in>set (windows2 xs). a \<le> b) \<longleftrightarrow> sorted xs" for xs :: "'a::linorder list"
proof (induction xs rule: induct_list012)
  case (3 x y zs)
  then show ?case by (auto simp del: sorted_wrt.simps simp: sorted_wrt2_simps sorted2)
qed auto

text \<open>
  The loop that inserts every element into a \<open>HashSet\<close> and stops at the first one that is
  already there (\<open>!seen.insert(x)\<close>).
\<close>

fun first_duplicate :: "'a set \<Rightarrow> 'a list \<Rightarrow> 'a option" where
  "first_duplicate seen [] = None"
| "first_duplicate seen (x # xs) =
     (if x \<in> seen then Some x else first_duplicate (insert x seen) xs)"

lemma first_duplicate_None:
  "first_duplicate seen xs = None \<longleftrightarrow> distinct xs \<and> set xs \<inter> seen = {}"
  by (induction xs arbitrary: seen) auto

text \<open>\<open>sort_unstable\<close> and \<open>dedup\<close> on a vector of integers.\<close>

definition sort_dedup :: "nat list \<Rightarrow> nat list" where
  "sort_dedup xs = remdups_adj (sort xs)"

lemma set_sort_dedup [simp]: "set (sort_dedup xs) = set xs"
  by (simp add: sort_dedup_def)

lemma distinct_remdups_adj_sorted: "sorted xs \<Longrightarrow> distinct (remdups_adj xs)"
  for xs :: "'a::linorder list"
proof (induction xs rule: remdups_adj.induct)
  case (3 x y xs)
  then show ?case by (cases "x = y") auto
qed auto

lemma sort_dedup_eq: "sort_dedup xs = sorted_list_of_set (set xs)"
  by (rule sorted_distinct_set_unique)
    (simp_all add: sort_dedup_def distinct_remdups_adj_sorted)

lemma distinct_sort_dedup [simp]: "distinct (sort_dedup xs)"
  by (simp add: sort_dedup_eq)

lemma sorted_sort_dedup [simp]: "sorted (sort_dedup xs)"
  by (simp add: sort_dedup_eq)

section \<open>Lists stored as one vector with offsets\<close>

definition csr_offsets :: "'a list list \<Rightarrow> nat list" where
  "csr_offsets L = map (\<lambda>i. length (concat (take i L))) [0..<Suc (length L)]"

lemma csr_slices:
  "map (\<lambda>(a, b). drop a (take b (concat L))) (windows2 (csr_offsets L)) = L"
proof (rule nth_equalityI)
  show "length (map (\<lambda>(a, b). drop a (take b (concat L))) (windows2 (csr_offsets L))) = length L"
    by (simp add: windows2_def csr_offsets_def)
next
  fix i
  assume "i < length (map (\<lambda>(a, b). drop a (take b (concat L))) (windows2 (csr_offsets L)))"
  then have i: "i < length L" by (simp add: windows2_def csr_offsets_def)
  have off: "csr_offsets L ! j = length (concat (take j L))" if "j \<le> length L" for j
    using that by (simp add: csr_offsets_def del: upt_Suc)
  have split: "concat L = concat (take (Suc i) L) @ concat (drop (Suc i) L)"
    by (metis append_take_drop_id concat_append)
  have "take (length (concat (take (Suc i) L))) (concat L) = concat (take (Suc i) L)"
    by (subst split) simp
  moreover have "concat (take (Suc i) L) = concat (take i L) @ L ! i"
    using i by (simp add: take_Suc_conv_app_nth)
  ultimately have "drop (csr_offsets L ! i) (take (csr_offsets L ! Suc i) (concat L)) = L ! i"
    using off [of i] off [of "Suc i"] i by simp
  moreover have "windows2 (csr_offsets L) ! i = (csr_offsets L ! i, csr_offsets L ! Suc i)"
    using i by (simp add: windows2_def nth_tl csr_offsets_def del: upt_Suc)
  ultimately show "map (\<lambda>(a, b). drop a (take b (concat L))) (windows2 (csr_offsets L)) ! i = L ! i"
    using i by (simp add: windows2_def csr_offsets_def del: upt_Suc)
qed

lemma length_csr_offsets [simp]: "length (csr_offsets L) = Suc (length L)"
  by (simp add: csr_offsets_def)

lemma csr_offsets_Nil [simp]: "csr_offsets [] = [0]"
  by (simp add: csr_offsets_def)

lemma csr_offsets_snoc: "csr_offsets (L @ [l]) = csr_offsets L @ [length (concat L @ l)]"
  by (simp add: csr_offsets_def)

lemma nth_csr_offsets: "i \<le> length L \<Longrightarrow> csr_offsets L ! i = length (concat (take i L))"
  by (simp add: csr_offsets_def del: upt_Suc)

text \<open>\<open>&v[a..b]\<close>: panics when the range is not one of the vector.\<close>

definition slice :: "'a list \<Rightarrow> nat \<Rightarrow> nat \<Rightarrow> ('e, 'a list) outcome" where
  "slice xs a b = (if a \<le> b \<and> b \<le> length xs then Ok (drop a (take b xs)) else Panic)"

text \<open>\<open>v.get(a..b)\<close>.\<close>

definition get_range :: "'a list \<Rightarrow> nat \<Rightarrow> nat \<Rightarrow> 'a list option" where
  "get_range xs a b = (if a \<le> b \<and> b \<le> length xs then Some (drop a (take b xs)) else None)"

definition get_nth :: "'a list \<Rightarrow> nat \<Rightarrow> 'a option" where
  "get_nth xs i = (if i < length xs then Some (xs ! i) else None)"

lemma csr_range:
  assumes "i < length L"
  shows "csr_offsets L ! i \<le> csr_offsets L ! Suc i" and "csr_offsets L ! Suc i \<le> length (concat L)"
    and "drop (csr_offsets L ! i) (take (csr_offsets L ! Suc i) (concat L)) = L ! i"
proof -
  have "concat L = concat (take (Suc i) L) @ concat (drop (Suc i) L)"
    by (metis append_take_drop_id concat_append)
  then show "csr_offsets L ! Suc i \<le> length (concat L)"
    using assms by (simp add: nth_csr_offsets)
  show "csr_offsets L ! i \<le> csr_offsets L ! Suc i"
    using assms by (simp add: nth_csr_offsets take_Suc_conv_app_nth)
  have "map (\<lambda>(a, b). drop a (take b (concat L))) (windows2 (csr_offsets L)) ! i = L ! i"
    by (simp only: csr_slices)
  then show "drop (csr_offsets L ! i) (take (csr_offsets L ! Suc i) (concat L)) = L ! i"
    using assms by (simp add: windows2_def nth_tl)
qed

text \<open>
  The loops that build such a vector: the part of each query is appended to the vector, and the
  length reached is pushed on the offsets.
\<close>

fun extend_csr ::
  "('q \<Rightarrow> ('e, 'a list) outcome) \<Rightarrow> 'q list \<Rightarrow> nat list \<Rightarrow> 'a list \<Rightarrow> ('e, nat list \<times> 'a list) outcome" where
  "extend_csr f [] offsets items = Ok (offsets, items)"
| "extend_csr f (q # qs) offsets items =
     obind (f q) (\<lambda>xs. extend_csr f qs (offsets @ [length (items @ xs)]) (items @ xs))"

lemma extend_csr_from:
  "extend_csr f qs (csr_offsets L0) (concat L0) =
     obind (traverse f qs) (\<lambda>L. Ok (csr_offsets (L0 @ L), concat (L0 @ L)))"
proof (induction qs arbitrary: L0)
  case (Cons q qs)
  have "extend_csr f qs (csr_offsets L0 @ [length (concat L0 @ xs)]) (concat L0 @ xs) =
      obind (traverse f qs) (\<lambda>L. Ok (csr_offsets (L0 @ xs # L), concat (L0 @ xs # L)))" for xs
    using Cons.IH [of "L0 @ [xs]"] by (simp add: csr_offsets_snoc)
  then show ?case by (simp add: obind_assoc)
qed simp

lemma extend_csr_eq:
  "extend_csr f qs [0] [] = obind (traverse f qs) (\<lambda>L. Ok (csr_offsets L, concat L))"
  using extend_csr_from [of f qs "[]"] by simp

section \<open>Ordered maps\<close>

text \<open>A \<open>BTreeMap\<close> is the list of its entries, strictly sorted by key.\<close>

fun btree_entry :: "'k::linorder \<Rightarrow> 'v \<Rightarrow> ('v \<Rightarrow> 'v) \<Rightarrow> ('k \<times> 'v) list \<Rightarrow> ('k \<times> 'v) list" where
  "btree_entry k d f [] = [(k, f d)]"
| "btree_entry k d f ((k', v) # m) =
     (if k < k' then (k, f d) # (k', v) # m
      else if k = k' then (k', f v) # m
      else (k', v) # btree_entry k d f m)"

definition btree_ok :: "('k::linorder \<times> 'v) list \<Rightarrow> bool" where
  "btree_ok m \<longleftrightarrow> sorted_wrt (<) (map fst m)"

lemma btree_entry_keys [simp]: "fst ` set (btree_entry k d f m) = insert k (fst ` set m)"
proof (induction m)
  case (Cons p m)
  then show ?case by (cases p) (auto simp: insert_commute)
qed simp

lemma btree_entry_ok [simp]: "btree_ok m \<Longrightarrow> btree_ok (btree_entry k d f m)"
proof (induction m)
  case (Cons p m)
  obtain k' v where p: "p = (k', v)" by fastforce
  have tail: "btree_ok m" "\<forall>x\<in>fst ` set m. k' < x" using Cons.prems by (auto simp: btree_ok_def p)
  have ins: "\<forall>x\<in>fst ` set (btree_entry k d f m). k' < x" if "k' < k" using tail(2) that by simp
  show ?case
    using Cons.IH [OF tail(1)] tail ins by (auto simp: btree_ok_def p)
qed (simp add: btree_ok_def)

lemma map_of_btree_entry [simp]:
  "btree_ok m \<Longrightarrow> map_of (btree_entry k d f m) x =
     (if x = k then Some (f (case map_of m k of None \<Rightarrow> d | Some v \<Rightarrow> v)) else map_of m x)"
proof (induction m)
  case (Cons p m)
  obtain k' v where p: "p = (k', v)" by fastforce
  have tail: "btree_ok m" "\<forall>x\<in>fst ` set m. k' < x" using Cons.prems by (auto simp: btree_ok_def p)
  have "map_of m k = None" if "k < k'" using tail(2) that by (force simp: map_of_eq_None_iff)
  then show ?case using Cons.IH [OF tail(1)] by (auto simp: p)
qed simp

text \<open>\<open>insert\<close>, \<open>retain\<close> and \<open>collect\<close>.\<close>

definition btree_insert :: "'k::linorder \<Rightarrow> 'v \<Rightarrow> ('k \<times> 'v) list \<Rightarrow> ('k \<times> 'v) list" where
  "btree_insert k v m = btree_entry k v (\<lambda>_. v) m"

definition btree_retain :: "('k::linorder \<Rightarrow> bool) \<Rightarrow> ('k \<times> 'v) list \<Rightarrow> ('k \<times> 'v) list" where
  "btree_retain f m = filter (f \<circ> fst) m"

fun btree_inserts :: "('k::linorder \<times> 'v) list \<Rightarrow> ('k \<times> 'v) list \<Rightarrow> ('k \<times> 'v) list" where
  "btree_inserts [] m = m"
| "btree_inserts ((k, v) # kvs) m = btree_inserts kvs (btree_insert k v m)"

lemma btree_ok_Nil [simp]: "btree_ok []"
  by (simp add: btree_ok_def)

lemma btree_ok_distinct: "btree_ok m \<Longrightarrow> distinct (map fst m)"
  by (simp add: btree_ok_def strict_sorted_iff)

lemma btree_insert_ok [simp]: "btree_ok m \<Longrightarrow> btree_ok (btree_insert k v m)"
  by (simp add: btree_insert_def)

lemma map_of_btree_insert [simp]: "btree_ok m \<Longrightarrow> map_of (btree_insert k v m) = (map_of m)(k \<mapsto> v)"
  by (rule ext) (simp add: btree_insert_def split: option.split)

lemma btree_retain_ok [simp]: "btree_ok m \<Longrightarrow> btree_ok (btree_retain f m)"
  by (induction m) (auto simp: btree_ok_def btree_retain_def)

lemma map_of_btree_retain [simp]: "map_of (btree_retain f m) k = (if f k then map_of m k else None)"
  by (induction m) (auto simp: btree_retain_def)

lemma btree_inserts_ok [simp]: "btree_ok m \<Longrightarrow> btree_ok (btree_inserts kvs m)"
  by (induction kvs m rule: btree_inserts.induct) auto

lemma map_of_btree_inserts [simp]:
  "btree_ok m \<Longrightarrow> map_of (btree_inserts kvs m) = map_of m ++ map_of (rev kvs)"
  by (induction kvs m rule: btree_inserts.induct) (auto simp: map_add_def fun_eq_iff split: option.split)

text \<open>Two ordered maps with the same entries are the same list, and the length counts the keys.\<close>

lemma btree_ext:
  assumes "btree_ok m" and "btree_ok n" and "map_of m = map_of n"
  shows "m = n"
proof -
  have "set m = set n"
    using assms(3) btree_ok_distinct [OF assms(1)] btree_ok_distinct [OF assms(2)]
    by (metis map_of_inject_set)
  then show ?thesis
    using assms(1,2) btree_ok_distinct [OF assms(1)]
    by (intro map_sorted_distinct_set_unique [where f = fst])
      (auto simp: btree_ok_def strict_sorted_iff distinct_map)
qed

lemma btree_length: "btree_ok m \<Longrightarrow> length m = card (dom (map_of m))"
  by (metis btree_ok_distinct distinct_card dom_map_of_conv_image_fst length_map list.set_map)

section \<open>Hash maps\<close>

text \<open>
  A \<open>HashMap\<close> that is iterated is an association list with distinct keys; the iteration order is
  an argument of the definitions that iterate. \<open>entry(k).or_default()\<close> with an update of the entry:
\<close>

fun entry_or_default :: "'k \<Rightarrow> 'v \<Rightarrow> ('v \<Rightarrow> 'v) \<Rightarrow> ('k \<times> 'v) list \<Rightarrow> ('k \<times> 'v) list" where
  "entry_or_default k d f [] = [(k, f d)]"
| "entry_or_default k d f ((k', v) # m) =
     (if k' = k then (k', f v) # m else (k', v) # entry_or_default k d f m)"

lemma map_of_entry [simp]:
  "map_of (entry_or_default k d f m) x =
     (if x = k then Some (f (case map_of m k of None \<Rightarrow> d | Some v \<Rightarrow> v)) else map_of m x)"
  by (induction m) auto

lemma entry_keys [simp]: "fst ` set (entry_or_default k d f m) = insert k (fst ` set m)"
proof (induction m)
  case (Cons p m)
  then show ?case by (cases p) (simp add: insert_commute)
qed simp

lemma entry_distinct [simp]: "distinct (map fst m) \<Longrightarrow> distinct (map fst (entry_or_default k d f m))"
proof (induction m)
  case (Cons p m)
  then show ?case by (cases p) (simp, blast)
qed simp

text \<open>
  Selecting the first \<open>k\<close> elements and sorting them is sorting all of them and keeping the first
  \<open>k\<close>, when the order is total on the elements. \<open>selected\<close> is what \<open>select_nth_unstable_by\<close>
  documents: a permutation in which nothing before the position is greater than anything from it on.
\<close>

definition selected :: "('a \<Rightarrow> 'a \<Rightarrow> ordering) \<Rightarrow> nat \<Rightarrow> 'a list \<Rightarrow> 'a list \<Rightarrow> bool" where
  "selected cmp n xs ys \<longleftrightarrow> mset ys = mset xs \<and>
     (\<forall>a\<in>set (take n ys). cmp a (ys ! n) \<noteq> OGreater) \<and> (\<forall>b\<in>set (drop (Suc n) ys). cmp (ys ! n) b \<noteq> OGreater)"

context linear_comparator
begin

lemma sort_selected:
  assumes sel: "selected cmp (k - 1) xs ys" and k: "0 < k" "k \<le> length xs" and inj: "inj_on key (set xs)"
  shows "sort_by cmp (take k ys) = take k (sort_by cmp xs)"
proof -
  have len: "length ys = length xs" using sel by (auto simp: selected_def dest: mset_eq_length)
  have split: "take k ys = take (k - 1) ys @ [ys ! (k - 1)]"
    using k len by (cases k) (simp_all add: take_Suc_conv_app_nth)
  have below: "cmp a b \<noteq> OGreater" if "a \<in> set (take k ys)" "b \<in> set (drop k ys)" for a b
  proof -
    have "cmp a (ys ! (k - 1)) \<noteq> OGreater" using that(1) sel by (auto simp: split selected_def cmp_refl)
    moreover have "cmp (ys ! (k - 1)) b \<noteq> OGreater" using that(2) sel k(1) by (simp add: selected_def)
    ultimately show ?thesis by (rule cmp_trans)
  qed
  let ?both = "sort_by cmp (take k ys) @ sort_by cmp (drop k ys)"
  have "sorted_by cmp ?both"
    using sorted_sort_by below by (auto simp: sorted_by_def sorted_wrt_append)
  moreover have "mset ?both = mset xs"
    using sel by (simp add: selected_def) (metis append_take_drop_id mset_append)
  moreover from this have "set ?both = set xs" by (rule mset_eq_setD)
  ultimately have "?both = sort_by cmp xs"
    using inj by (intro sorted_by_unique sorted_sort_by) (simp_all only: mset_sort_by)
  then have "take k (sort_by cmp xs) = take k ?both" by simp
  then show ?thesis using k len by simp
qed

end

end
