(* ===== verification/Float32.thy ===== *)
theory Float32
  imports Prelude
begin

text \<open>
  IEEE-754 binary32 as the Rust type \<open>f32\<close> uses it: a 32-bit pattern, its classification,
  \<open>total_cmp\<close>, the comparisons (false on NaN), and the arithmetic with round-to-nearest-even.
  Every finite value is an integral multiple of \<open>2^-149\<close>, the smallest subnormal, so a value is
  the integer \<open>f32_units\<close> of such units and an operation is exact integer arithmetic followed
  by one rounding (\<open>round_mag\<close>). The bit pattern of a NaN result is unspecified in Rust; the
  model returns one quiet NaN.
\<close>

section \<open>Bit patterns\<close>

type_synonym f32 = "32 word"

definition f32_neg :: "f32 \<Rightarrow> bool" where
  "f32_neg b \<longleftrightarrow> 2147483648 \<le> unat b"

definition f32_mag :: "f32 \<Rightarrow> nat" where
  "f32_mag b = unat b mod 2147483648"

definition mag_inf :: nat where
  "mag_inf = 2139095040"

definition f32_is_nan :: "f32 \<Rightarrow> bool" where
  "f32_is_nan b \<longleftrightarrow> mag_inf < f32_mag b"

definition f32_is_infinite :: "f32 \<Rightarrow> bool" where
  "f32_is_infinite b \<longleftrightarrow> f32_mag b = mag_inf"

definition f32_is_finite :: "f32 \<Rightarrow> bool" where
  "f32_is_finite b \<longleftrightarrow> f32_mag b < mag_inf"

definition f32_make :: "bool \<Rightarrow> nat \<Rightarrow> f32" where
  "f32_make neg m = word_of_nat (if neg then m + 2147483648 else m)"

definition f32_nan :: f32 where
  "f32_nan = 2143289344"

definition f32_abs :: "f32 \<Rightarrow> f32" where
  "f32_abs b = f32_make False (f32_mag b)"

definition f32_negate :: "f32 \<Rightarrow> f32" where
  "f32_negate b = f32_make (\<not> f32_neg b) (f32_mag b)"

lemma f32_mag_less: "f32_mag b < 2147483648"
  by (simp add: f32_mag_def)

lemma unat_f32: "unat b = (if f32_neg b then f32_mag b + 2147483648 else f32_mag b)"
proof -
  have lt: "unat b < 4294967296" using unsigned_less [where ?'a = nat, of b] by simp
  show ?thesis
  proof (cases "2147483648 \<le> unat b")
    case True
    then have "unat b mod 2147483648 = (unat b - 2147483648) mod 2147483648"
      by (rule le_mod_geq)
    also have "\<dots> = unat b - 2147483648" using lt by (intro mod_less) linarith
    finally show ?thesis using True by (simp add: f32_neg_def f32_mag_def)
  qed (simp add: f32_neg_def f32_mag_def)
qed

lemma f32_eqI: "f32_neg a = f32_neg b \<Longrightarrow> f32_mag a = f32_mag b \<Longrightarrow> a = b"
  by (simp add: word_unat_eq_iff unat_f32)

lemma f32_make_mag [simp]: "m < 2147483648 \<Longrightarrow> f32_mag (f32_make s m) = m"
  by (auto simp: f32_make_def f32_mag_def unat_of_nat)

lemma f32_make_neg [simp]: "m < 2147483648 \<Longrightarrow> f32_neg (f32_make s m) = s"
  by (auto simp: f32_make_def f32_neg_def unat_of_nat)

lemma f32_abs_mag [simp]: "f32_mag (f32_abs b) = f32_mag b"
  by (simp add: f32_abs_def f32_mag_less)

lemma f32_abs_neg [simp]: "\<not> f32_neg (f32_abs b)"
  by (simp add: f32_abs_def f32_mag_less)

section \<open>Comparisons\<close>

text \<open>
  \<open>f32::total_cmp\<close> compares the patterns as sign-magnitude integers with the negative ones
  flipped: \<open>left ^= (((left >> 31) as u32) >> 1) as i32\<close> on \<open>i32\<close>.
\<close>

definition f32_total_key :: "f32 \<Rightarrow> int" where
  "f32_total_key b = (if f32_neg b then - int (f32_mag b) - 1 else int (f32_mag b))"

definition f32_total_cmp :: "f32 \<Rightarrow> f32 \<Rightarrow> ordering" where
  "f32_total_cmp a b = ord_cmp (f32_total_key a) (f32_total_key b)"

text \<open>\<open><\<close>, \<open><=\<close> and friends: false as soon as one side is NaN, and \<open>-0 = 0\<close>.\<close>

definition f32_key :: "f32 \<Rightarrow> int" where
  "f32_key b = (if f32_neg b then - int (f32_mag b) else int (f32_mag b))"

definition f32_lt :: "f32 \<Rightarrow> f32 \<Rightarrow> bool" where
  "f32_lt a b \<longleftrightarrow> \<not> f32_is_nan a \<and> \<not> f32_is_nan b \<and> f32_key a < f32_key b"

definition f32_le :: "f32 \<Rightarrow> f32 \<Rightarrow> bool" where
  "f32_le a b \<longleftrightarrow> \<not> f32_is_nan a \<and> \<not> f32_is_nan b \<and> f32_key a \<le> f32_key b"

text \<open>\<open>f32::max\<close>: the other operand when one is NaN.\<close>

definition f32_max :: "f32 \<Rightarrow> f32 \<Rightarrow> f32" where
  "f32_max a b = (if f32_is_nan a then b else if f32_is_nan b then a
                  else if f32_key a < f32_key b then b else a)"

lemma f32_total_key_inj: "f32_total_key a = f32_total_key b \<Longrightarrow> a = b"
  by (rule f32_eqI) (auto simp: f32_total_key_def split: if_splits)

lemma inj_f32_total_key: "inj f32_total_key"
  by (rule injI) (rule f32_total_key_inj)

lemma f32_key_total_key: "f32_total_key a \<le> f32_total_key b \<Longrightarrow> f32_key a \<le> f32_key b"
  by (auto simp: f32_key_def f32_total_key_def split: if_splits)

section \<open>Values in units of the smallest subnormal, and rounding\<close>

definition mag_units :: "nat \<Rightarrow> nat" where
  "mag_units m = (if m < 8388608 then m else (8388608 + m mod 8388608) * 2 ^ (m div 8388608 - 1))"

definition f32_units :: "f32 \<Rightarrow> int" where
  "f32_units b = (if f32_neg b then - int (mag_units (f32_mag b)) else int (mag_units (f32_mag b)))"

fun bit_length :: "nat \<Rightarrow> nat" where
  "bit_length n = (if n = 0 then 0 else Suc (bit_length (n div 2)))"

declare bit_length.simps [simp del]

lemma bit_length_numeral [simp]:
  "bit_length 0 = 0"
  "bit_length (Suc 0) = Suc 0"
  "bit_length (numeral Num.One) = Suc 0"
  "bit_length (numeral (Num.Bit0 k)) = Suc (bit_length (numeral k))"
  "bit_length (numeral (Num.Bit1 k)) = Suc (bit_length (numeral k))"
  by (simp_all add: bit_length.simps [of 0] bit_length.simps [of "Suc 0"] bit_length.simps [of 1]
      bit_length.simps [of "numeral (Num.Bit0 k)"] bit_length.simps [of "numeral (Num.Bit1 k)"])

text \<open>The largest magnitude whose value is at most \<open>q\<close> units.\<close>

definition floor_mag :: "nat \<Rightarrow> nat" where
  "floor_mag q = (let s = bit_length q - 24 in s * 8388608 + q div 2 ^ s)"

text \<open>
  \<open>n / d\<close> units rounded to the nearest representable magnitude, ties to the even pattern,
  overflow to infinity.
\<close>

definition round_mag :: "nat \<Rightarrow> nat \<Rightarrow> nat" where
  "round_mag n d =
     (let lo = floor_mag (n div d); mid = d * (mag_units lo + mag_units (Suc lo));
          m = (if 2 * n < mid then lo else if mid < 2 * n then Suc lo
               else if even lo then lo else Suc lo)
      in min m mag_inf)"

definition f32_round :: "bool \<Rightarrow> nat \<Rightarrow> nat \<Rightarrow> f32" where
  "f32_round neg n d = f32_make neg (round_mag n d)"

lemma mag_units_less_Suc: "mag_units m < mag_units (Suc m)"
proof (cases "Suc m < 8388608")
  case True
  then show ?thesis by (simp add: mag_units_def)
next
  case False
  show ?thesis
  proof (cases "Suc m mod 8388608 = 0")
    case True
    define k where "k = Suc m div 8388608"
    have k: "Suc m = 8388608 * k" using True div_mult_mod_eq [of "Suc m" 8388608] by (simp add: k_def)
    with False have "1 \<le> k" by (cases k) auto
    show ?thesis
    proof (cases "k = 1")
      case True
      with k show ?thesis by (simp add: mag_units_def)
    next
      case False
      with \<open>1 \<le> k\<close> obtain j where j: "k = Suc (Suc j)" by (cases k; cases "k - 1") auto
      have m: "m = 8388608 * Suc j + 8388607" using k j by simp
      then have "m div 8388608 = Suc j" and "m mod 8388608 = 8388607" by simp_all
      then have "mag_units m = 16777215 * 2 ^ j" using m by (simp add: mag_units_def)
      moreover have "mag_units (Suc m) = 16777216 * 2 ^ j"
        using k j by (simp add: mag_units_def)
      ultimately show ?thesis by simp
    qed
  next
    case False
    then have "m mod 8388608 \<noteq> 8388607" by (auto simp: mod_Suc)
    then have "Suc m mod 8388608 = Suc (m mod 8388608)" and "Suc m div 8388608 = m div 8388608"
      by (simp_all add: mod_Suc div_Suc)
    moreover have "\<not> m < 8388608"
      using \<open>\<not> Suc m < 8388608\<close> False by (metis Suc_lessI mod_self)
    ultimately show ?thesis by (simp add: mag_units_def)
  qed
qed

lemma strict_mono_mag_units: "strict_mono mag_units"
  by (simp add: strict_mono_Suc_iff mag_units_less_Suc)

lemma mag_units_less [simp]: "mag_units a < mag_units b \<longleftrightarrow> a < b"
  using strict_mono_mag_units by (simp add: strict_mono_less)

lemma mag_units_le [simp]: "mag_units a \<le> mag_units b \<longleftrightarrow> a \<le> b"
  using strict_mono_mag_units by (simp add: strict_mono_less_eq)

lemma mag_units_0 [simp]: "mag_units 0 = 0"
  by (simp add: mag_units_def)

lemma mag_units_pos [simp]: "0 < mag_units m \<longleftrightarrow> 0 < m"
  using mag_units_less [of 0 m] by (simp del: mag_units_less)

lemma bit_length_bounds: "0 < n \<Longrightarrow> 2 ^ (bit_length n - 1) \<le> n \<and> n < 2 ^ bit_length n"
proof (induction n rule: bit_length.induct)
  case (1 n)
  show ?case
  proof (cases "n div 2 = 0")
    case True
    with 1 have "n = 1" by simp
    then show ?thesis by (simp add: bit_length.simps)
  next
    case False
    with 1 have IH: "2 ^ (bit_length (n div 2) - 1) \<le> n div 2" "n div 2 < 2 ^ bit_length (n div 2)"
      by simp_all
    obtain k where k: "bit_length (n div 2) = Suc k"
      using False by (cases "bit_length (n div 2)") (auto simp: bit_length.simps [of "n div 2"])
    have "bit_length n = Suc (Suc k)" using 1 k by (simp add: bit_length.simps [of n])
    moreover have "2 * 2 ^ k \<le> n" and "n < 2 * (2 * 2 ^ k)" using IH k by simp_all
    ultimately show ?thesis by simp
  qed
qed

lemma mag_units_small: "m \<le> 16777216 \<Longrightarrow> mag_units m = m"
proof -
  assume m: "m \<le> 16777216"
  consider "m < 8388608" | "8388608 \<le> m" "m < 16777216" | "m = 16777216" using m by linarith
  then show "mag_units m = m"
  proof cases
    case 2
    then have "m div 8388608 = 1" by simp
    with 2 show ?thesis
      using div_mult_mod_eq [of m 8388608] by (simp add: mag_units_def)
  qed (simp_all add: mag_units_def)
qed

lemma mag_units_norm:
  assumes "8388608 \<le> p" and "p \<le> 16777216"
  shows "mag_units (s * 8388608 + p) = p * 2 ^ s"
proof (cases "p = 16777216")
  case True
  then have "s * 8388608 + p = (s + 2) * 8388608" by simp
  then show ?thesis using True by (simp add: mag_units_def)
next
  case False
  define f where "f = p - 8388608"
  have p: "p = f + 8388608" and f: "f < 8388608" using assms False by (auto simp: f_def)
  have eq: "s * 8388608 + p = Suc s * 8388608 + f" using p by simp
  have "(Suc s * 8388608 + f) div 8388608 = Suc s" "(Suc s * 8388608 + f) mod 8388608 = f"
    using f by (simp_all del: mult_Suc)
  moreover have "\<not> Suc s * 8388608 + f < 8388608" by simp
  ultimately show ?thesis
    unfolding eq mag_units_def using p by (simp del: mult_Suc)
qed

lemma floor_mag_bounds: "mag_units (floor_mag q) \<le> q \<and> q < mag_units (Suc (floor_mag q))"
proof (cases "bit_length q \<le> 24")
  case True
  have "q < 16777216"
  proof (cases "q = 0")
    case False
    with bit_length_bounds have "q < 2 ^ bit_length q" by blast
    also have "\<dots> \<le> 2 ^ 24" using True by (intro power_increasing) auto
    finally show ?thesis by simp
  qed simp
  then show ?thesis using True by (simp add: floor_mag_def mag_units_small)
next
  case False
  define s where "s = bit_length q - 24"
  define p where "p = q div 2 ^ s"
  have "0 < q" using False by (cases "q = 0") (simp_all add: bit_length.simps [of 0])
  then have b: "2 ^ (bit_length q - 1) \<le> q" "q < 2 ^ bit_length q"
    using bit_length_bounds by blast+
  have e: "bit_length q = s + 24" and e1: "bit_length q - 1 = s + 23" using False by (simp_all add: s_def)
  have lo: "8388608 * 2 ^ s \<le> q" using b(1) unfolding e1 power_add by simp
  have hi: "q < 16777216 * 2 ^ s" using b(2) unfolding e power_add by simp
  have p1: "8388608 \<le> p" using lo by (simp add: p_def less_eq_div_iff_mult_less_eq)
  have p2: "p < 16777216" using hi by (simp add: p_def div_less_iff_less_mult)
  have "floor_mag q = s * 8388608 + p" by (simp add: floor_mag_def Let_def s_def p_def)
  moreover have "mag_units (s * 8388608 + p) = p * 2 ^ s"
    using p1 p2 by (intro mag_units_norm) auto
  moreover have "mag_units (Suc (s * 8388608 + p)) = Suc p * 2 ^ s"
    using mag_units_norm [of "Suc p" s] p1 p2 by simp
  moreover have "p * 2 ^ s \<le> q" by (simp add: p_def)
  moreover have "q < Suc p * 2 ^ s"
    using dividend_less_div_times [of "2 ^ s" q] by (simp add: p_def)
  ultimately show ?thesis by simp
qed

lemma floor_mag_unique: "mag_units m \<le> q \<Longrightarrow> q < mag_units (Suc m) \<Longrightarrow> floor_mag q = m"
proof -
  assume "mag_units m \<le> q" "q < mag_units (Suc m)"
  with floor_mag_bounds [of q] have "m < Suc (floor_mag q)" and "floor_mag q < Suc m"
    by (metis le_less_trans mag_units_less)+
  then show ?thesis by simp
qed

lemma floor_mag_mono: "q \<le> q' \<Longrightarrow> floor_mag q \<le> floor_mag q'"
proof -
  assume "q \<le> q'"
  then have "mag_units (floor_mag q) < mag_units (Suc (floor_mag q'))"
    using floor_mag_bounds [of q] floor_mag_bounds [of q'] by linarith
  then show ?thesis by simp
qed

lemma round_mag_le_inf: "round_mag n d \<le> mag_inf"
  by (simp add: round_mag_def Let_def)

lemma round_mag_exact:
  assumes "0 < d" and "m \<le> mag_inf"
  shows "round_mag (d * mag_units m) d = m"
proof -
  have "floor_mag (mag_units m) = m" by (rule floor_mag_unique) simp_all
  moreover have "2 * (d * mag_units m) < d * (mag_units m + mag_units (Suc m))"
    using assms(1) by (simp add: algebra_simps)
  ultimately show ?thesis using assms by (simp add: round_mag_def Let_def)
qed

lemma round_mag_0 [simp]: "round_mag 0 d = 0" if "0 < d"
  using round_mag_exact [OF that, of 0] by (simp add: mag_inf_def)

lemma round_mag_mono:
  assumes d: "0 < d" "0 < d'" and le: "n * d' \<le> n' * d"
  shows "round_mag n d \<le> round_mag n' d'"
proof -
  define lo where "lo = floor_mag (n div d)"
  define lo' where "lo' = floor_mag (n' div d')"
  have "n div d \<le> n' div d'"
  proof -
    have "(n div d) * d * d' \<le> n * d'" by (intro mult_right_mono) auto
    also have "\<dots> \<le> n' * d" by (rule le)
    finally have "((n div d) * d') * d \<le> n' * d" by (simp add: ac_simps)
    then have "(n div d) * d' \<le> n'" using d by simp
    then show ?thesis using d by (simp add: less_eq_div_iff_mult_less_eq)
  qed
  then have los: "lo \<le> lo'" unfolding lo_def lo'_def by (rule floor_mag_mono)
  show ?thesis
  proof (cases "lo = lo'")
    case False
    with los have "Suc lo \<le> lo'" by simp
    then show ?thesis
      by (auto simp: round_mag_def Let_def lo_def [symmetric] lo'_def [symmetric])
  next
    case True
    define M where "M = mag_units lo + mag_units (Suc lo)"
    have up: "2 * n' \<le> d' * M \<Longrightarrow> 2 * n \<le> d * M" and up': "2 * n' < d' * M \<Longrightarrow> 2 * n < d * M"
    proof -
      have *: "2 * n * d' \<le> 2 * n' * d" using le by simp
      { assume "2 * n' \<le> d' * M"
        then have "2 * n' * d \<le> d' * M * d" by (intro mult_right_mono) auto
        with * have "2 * n * d' \<le> d' * M * d" by (rule le_trans)
        then have "(2 * n) * d' \<le> (d * M) * d'" by (simp only: ac_simps)
        with d show "2 * n \<le> d * M" by simp }
      { assume "2 * n' < d' * M"
        then have "2 * n' * d < d' * M * d" using d by simp
        with * have "2 * n * d' < d' * M * d" by (rule le_less_trans)
        then have "(2 * n) * d' < (d * M) * d'" by (simp only: ac_simps)
        with d show "2 * n < d * M" by simp }
    qed
    have "round_mag n d = min (if 2 * n < d * M then lo else if d * M < 2 * n then Suc lo
        else if even lo then lo else Suc lo) mag_inf"
      by (simp add: round_mag_def Let_def lo_def [symmetric] M_def)
    moreover have "round_mag n' d' = min (if 2 * n' < d' * M then lo else if d' * M < 2 * n' then Suc lo
        else if even lo then lo else Suc lo) mag_inf"
      by (simp add: round_mag_def Let_def lo'_def [symmetric] True [symmetric] M_def)
    ultimately show ?thesis using up up' by (auto simp: min_def)
  qed
qed

section \<open>Arithmetic\<close>

text \<open>The finite operations; an infinite or NaN operand follows the IEEE rules.\<close>

definition f32_zero :: f32 where
  "f32_zero = 0"

definition f32_one :: f32 where
  "f32_one = 1065353216"

definition unit_scale :: nat where
  "unit_scale = 2 ^ 149"

definition f32_add :: "f32 \<Rightarrow> f32 \<Rightarrow> f32" where
  "f32_add a b =
     (if f32_is_nan a \<or> f32_is_nan b then f32_nan
      else if f32_is_infinite a then
        (if f32_is_infinite b \<and> f32_neg a \<noteq> f32_neg b then f32_nan else a)
      else if f32_is_infinite b then b
      else let u = f32_units a + f32_units b in
        if u = 0 then f32_make (f32_neg a \<and> f32_neg b) 0
        else f32_round (u < 0) (nat \<bar>u\<bar>) 1)"

definition f32_sub :: "f32 \<Rightarrow> f32 \<Rightarrow> f32" where
  "f32_sub a b = f32_add a (if f32_is_nan b then b else f32_negate b)"

definition f32_mul :: "f32 \<Rightarrow> f32 \<Rightarrow> f32" where
  "f32_mul a b =
     (if f32_is_nan a \<or> f32_is_nan b then f32_nan
      else if f32_is_infinite a \<or> f32_is_infinite b then
        (if f32_mag a = 0 \<or> f32_mag b = 0 then f32_nan
         else f32_make (f32_neg a \<noteq> f32_neg b) mag_inf)
      else f32_round (f32_neg a \<noteq> f32_neg b)
             (mag_units (f32_mag a) * mag_units (f32_mag b)) unit_scale)"

definition f32_div :: "f32 \<Rightarrow> f32 \<Rightarrow> f32" where
  "f32_div a b =
     (if f32_is_nan a \<or> f32_is_nan b then f32_nan
      else if f32_is_infinite a then
        (if f32_is_infinite b then f32_nan else f32_make (f32_neg a \<noteq> f32_neg b) mag_inf)
      else if f32_is_infinite b then f32_make (f32_neg a \<noteq> f32_neg b) 0
      else if f32_mag b = 0 then
        (if f32_mag a = 0 then f32_nan else f32_make (f32_neg a \<noteq> f32_neg b) mag_inf)
      else f32_round (f32_neg a \<noteq> f32_neg b)
             (mag_units (f32_mag a) * unit_scale) (mag_units (f32_mag b)))"

text \<open>\<open>n as f32\<close> for an unsigned integer.\<close>

definition f32_of_nat :: "nat \<Rightarrow> f32" where
  "f32_of_nat n = f32_round False (n * unit_scale) 1"

text \<open>
  The definitions to unfold when an operation is evaluated on concrete patterns; the \<open>let\<close>s
  are evaluated once each with the congruence rule \<open>let_weak_cong\<close>.
\<close>

lemmas float_eval =
  f32_add_def f32_sub_def f32_mul_def f32_div_def f32_of_nat_def f32_round_def round_mag_def
  floor_mag_def mag_units_def f32_make_def f32_units_def unit_scale_def mag_inf_def f32_mag_def
  f32_neg_def f32_is_nan_def f32_is_infinite_def f32_is_finite_def f32_zero_def f32_one_def
  f32_abs_def f32_negate_def Let_numeral Let_0 Let_1

text \<open>The finite non-negative values, on which the operations are monotone.\<close>

definition f32_nonneg :: "f32 \<Rightarrow> bool" where
  "f32_nonneg b \<longleftrightarrow> f32_is_finite b \<and> \<not> f32_neg b"

lemma mag_inf_small [simp]: "m \<le> mag_inf \<Longrightarrow> m < 2147483648"
  by (simp add: mag_inf_def)

lemma f32_round_mag [simp]: "f32_mag (f32_round s n d) = round_mag n d"
  by (simp add: f32_round_def round_mag_le_inf)

lemma f32_round_neg [simp]: "f32_neg (f32_round s n d) = s"
  by (simp add: f32_round_def round_mag_le_inf)

lemma f32_nonneg_classify:
  assumes "f32_nonneg b"
  shows "\<not> f32_is_nan b" "\<not> f32_is_infinite b" "\<not> f32_neg b" "f32_mag b < mag_inf"
    "f32_units b = int (mag_units (f32_mag b))"
  using assms
  by (auto simp: f32_nonneg_def f32_is_finite_def f32_is_nan_def f32_is_infinite_def f32_units_def)

lemma unit_scale_pos [simp]: "0 < unit_scale"
  by (simp add: unit_scale_def)

lemma f32_add_nonneg:
  assumes "f32_nonneg a" and "f32_nonneg b"
  shows "f32_mag (f32_add a b) = round_mag (mag_units (f32_mag a) + mag_units (f32_mag b)) 1"
    and "\<not> f32_neg (f32_add a b)"
proof -
  define u where "u = mag_units (f32_mag a) + mag_units (f32_mag b)"
  have un: "f32_units a + f32_units b = int u"
    using assms [THEN f32_nonneg_classify(5)] by (simp add: u_def)
  have "f32_add a b = (if u = 0 then f32_make False 0 else f32_round False u 1)"
    unfolding f32_add_def Let_def un
    using assms [THEN f32_nonneg_classify(1)] assms [THEN f32_nonneg_classify(2)]
      assms [THEN f32_nonneg_classify(3)]
    by simp
  then show "f32_mag (f32_add a b) = round_mag (mag_units (f32_mag a) + mag_units (f32_mag b)) 1"
    and "\<not> f32_neg (f32_add a b)"
    unfolding u_def [symmetric] by (auto simp: mag_inf_def)
qed

lemma f32_div_nonneg:
  assumes "f32_nonneg a" and "f32_nonneg b" and "0 < f32_mag b"
  shows "f32_mag (f32_div a b) = round_mag (mag_units (f32_mag a) * unit_scale) (mag_units (f32_mag b))"
    and "\<not> f32_neg (f32_div a b)"
  using assms(1,2) [THEN f32_nonneg_classify(1)] assms(1,2) [THEN f32_nonneg_classify(2)]
    assms(1,2) [THEN f32_nonneg_classify(3)] assms(3)
  by (auto simp: f32_div_def)

lemma f32_of_nat_mag: "f32_mag (f32_of_nat n) = round_mag (n * unit_scale) 1"
  and f32_of_nat_neg: "\<not> f32_neg (f32_of_nat n)"
  by (simp_all add: f32_of_nat_def)

lemma f32_of_nat_mono: "m \<le> n \<Longrightarrow> f32_mag (f32_of_nat m) \<le> f32_mag (f32_of_nat n)"
  by (simp add: f32_of_nat_mag round_mag_mono)

lemma f32_add_mono:
  assumes "f32_nonneg a" "f32_nonneg b" "f32_nonneg a'" "f32_nonneg b'"
    and "f32_mag a \<le> f32_mag a'" and "f32_mag b \<le> f32_mag b'"
  shows "f32_mag (f32_add a b) \<le> f32_mag (f32_add a' b')"
  using assms by (simp add: f32_add_nonneg round_mag_mono add_mono)

lemma f32_div_antimono:
  assumes "f32_nonneg a" "f32_nonneg b" "f32_nonneg b'" and "0 < f32_mag b"
    and "f32_mag b \<le> f32_mag b'"
  shows "f32_mag (f32_div a b') \<le> f32_mag (f32_div a b)"
proof -
  have "0 < f32_mag b'" using assms(4,5) by simp
  then show ?thesis
    using assms by (simp add: f32_div_nonneg round_mag_mono mult_left_mono)
qed

lemma f32_nonneg_mag_cmp:
  assumes "f32_nonneg a" "f32_nonneg b"
  shows "f32_total_key a \<le> f32_total_key b \<longleftrightarrow> f32_mag a \<le> f32_mag b"
  using assms by (simp add: f32_nonneg_def f32_total_key_def)

end
