(* ===== verification/RustStr.thy ===== *)
theory RustStr
  imports Prelude
begin

text \<open>
  The string functions of the Rust standard library that the code calls. A \<open>str\<close> is the list
  of its UTF-8 bytes, as a \<open>string\<close> of 8-bit characters: \<open>trim\<close>, \<open>str::parse\<close> for unsigned
  integers, \<open>split_once\<close>, \<open>strip_prefix\<close>, and the decimal output of \<open>{}\<close> for integers.
\<close>

section \<open>Decimal output and \<open>parse\<close>\<close>

definition digit_char :: "nat \<Rightarrow> char" where
  "digit_char d = char_of (48 + d)"

definition digit_val :: "char \<Rightarrow> nat option" where
  "digit_val c = (let n = of_char c in if 48 \<le> n \<and> n \<le> (57 :: nat) then Some (n - 48) else None)"

function show_nat :: "nat \<Rightarrow> string" where
  "show_nat n = (if n < 10 then [digit_char n] else show_nat (n div 10) @ [digit_char (n mod 10)])"
  by pat_completeness auto
termination
  by (relation "measure id") auto

declare show_nat.simps [simp del]

text \<open>
  The digits of \<open>from_str_radix(_, 10)\<close>: checked multiplication and addition at the width of the
  target type, whose largest value is \<open>limit\<close>.
\<close>

fun parse_digits :: "nat \<Rightarrow> nat \<Rightarrow> string \<Rightarrow> nat option" where
  "parse_digits limit acc [] = Some acc"
| "parse_digits limit acc (c # cs) =
     (case digit_val c of
        None \<Rightarrow> None
      | Some d \<Rightarrow> if limit < acc * 10 then None else if limit < acc * 10 + d then None
                  else parse_digits limit (acc * 10 + d) cs)"

text \<open>\<open>str::parse\<close> at an unsigned type: one leading \<open>+\<close> is accepted, \<open>-\<close> is not.\<close>

definition parse_uint :: "nat \<Rightarrow> string \<Rightarrow> nat option" where
  "parse_uint limit s =
     (case s of
        [] \<Rightarrow> None
      | c # cs \<Rightarrow> if c = CHR ''+'' then (if cs = [] then None else parse_digits limit 0 cs)
                  else parse_digits limit 0 s)"

definition parse_usize :: "string \<Rightarrow> nat option" where
  "parse_usize = parse_uint usize_max"

definition is_digit_char :: "char \<Rightarrow> bool" where
  "is_digit_char c \<longleftrightarrow> digit_val c \<noteq> None"

lemma digit_val_char [simp]: "d < 10 \<Longrightarrow> digit_val (digit_char d) = Some d"
  by (simp add: digit_val_def digit_char_def Let_def)

lemma is_digit_char_digit [simp]: "d < 10 \<Longrightarrow> is_digit_char (digit_char d)"
  by (simp add: is_digit_char_def)

lemma show_nat_digits: "list_all is_digit_char (show_nat n)"
proof (induction n rule: show_nat.induct)
  case (1 n)
  then show ?case by (subst show_nat.simps) (auto simp: list_all_append)
qed

lemma show_nat_not_Nil [simp]: "show_nat n \<noteq> []"
  by (subst show_nat.simps) auto

lemma parse_digits_append:
  "parse_digits limit acc (xs @ ys) =
     (case parse_digits limit acc xs of None \<Rightarrow> None | Some v \<Rightarrow> parse_digits limit v ys)"
  by (induction limit acc xs rule: parse_digits.induct) (auto split: option.splits)

lemma parse_digits_show_nat: "n \<le> limit \<Longrightarrow> parse_digits limit 0 (show_nat n) = Some n"
proof (induction n rule: show_nat.induct)
  case (1 n)
  show ?case
  proof (cases "n < 10")
    case True
    with 1 show ?thesis by (subst show_nat.simps) simp
  next
    case False
    have "n div 10 \<le> limit" using 1 by simp
    then have IH: "parse_digits limit 0 (show_nat (n div 10)) = Some (n div 10)"
      using 1 False by simp
    have "n div 10 * 10 \<le> limit" and "n div 10 * 10 + n mod 10 = n" using 1 by simp_all
    with False 1 IH show ?thesis
      by (subst show_nat.simps) (simp add: parse_digits_append del: div_mult_self_is_m)
  qed
qed

lemma show_nat_head: "\<exists>c cs. show_nat n = c # cs \<and> is_digit_char c"
  using show_nat_digits [of n] by (cases "show_nat n") auto

lemma parse_uint_show_nat: "n \<le> limit \<Longrightarrow> parse_uint limit (show_nat n) = Some n"
proof -
  assume n: "n \<le> limit"
  obtain c cs where eq: "show_nat n = c # cs" and d: "is_digit_char c"
    using show_nat_head by blast
  have "c \<noteq> CHR ''+''" using d by (auto simp: is_digit_char_def digit_val_def)
  then show ?thesis
    using parse_digits_show_nat [OF n] by (simp add: parse_uint_def eq)
qed

lemma parse_digits_bound: "parse_digits limit acc s = Some v \<Longrightarrow> acc \<le> limit \<Longrightarrow> v \<le> limit"
  by (induction limit acc s rule: parse_digits.induct) (auto split: option.splits if_splits)

lemma parse_uint_bound: "parse_uint limit s = Some v \<Longrightarrow> v \<le> limit"
  by (auto simp: parse_uint_def simp del: parse_digits.simps split: list.splits if_splits
      dest: parse_digits_bound)

section \<open>Trimming\<close>

text \<open>The code points with the Unicode property \<open>White_Space\<close>, as UTF-8 bytes.\<close>

definition white_space :: "nat list list" where
  "white_space =
     [[9], [10], [11], [12], [13], [32], [194, 133], [194, 160], [225, 154, 128],
      [226, 128, 128], [226, 128, 129], [226, 128, 130], [226, 128, 131], [226, 128, 132],
      [226, 128, 133], [226, 128, 134], [226, 128, 135], [226, 128, 136], [226, 128, 137],
      [226, 128, 138], [226, 128, 168], [226, 128, 169], [226, 128, 175], [226, 129, 159],
      [227, 128, 128]]"

definition bytes_of :: "string \<Rightarrow> nat list" where
  "bytes_of = map of_char"

fun strip_first :: "nat list list \<Rightarrow> string \<Rightarrow> string option" where
  "strip_first [] s = None"
| "strip_first (p # ps) s =
     (if take (length p) (bytes_of s) = p then Some (drop (length p) s) else strip_first ps s)"

lemma strip_first_shorter:
  "strip_first ps s = Some t \<Longrightarrow> \<forall>p\<in>set ps. p \<noteq> [] \<Longrightarrow> length t < length s"
proof (induction ps)
  case (Cons p ps)
  show ?case
  proof (cases "take (length p) (bytes_of s) = p")
    case True
    then have "length p \<le> length s" by (metis bytes_of_def length_map length_take min.cobounded1)
    moreover have "0 < length p" using Cons.prems by simp
    moreover have "t = drop (length p) s" using Cons.prems True by simp
    ultimately show ?thesis by (simp add: length_drop diff_less_mono2 del: length_greater_0_conv)
  qed (use Cons in auto)
qed simp

function trim_start_by :: "nat list list \<Rightarrow> string \<Rightarrow> string" where
  "trim_start_by ps s =
     (if [] \<in> set ps then s
      else case strip_first ps s of None \<Rightarrow> s | Some t \<Rightarrow> trim_start_by ps t)"
  by pat_completeness auto
termination
  by (relation "measure (length \<circ> snd)") (auto dest: strip_first_shorter)

declare trim_start_by.simps [simp del]

definition trim :: "string \<Rightarrow> string" where
  "trim s = rev (trim_start_by (map rev white_space) (rev (trim_start_by white_space s)))"

text \<open>A string that starts and ends with visible ASCII characters has nothing to trim.\<close>

lemma trim_plain:
  assumes "s \<noteq> []" and "of_char (hd s) \<in> {33..126::nat}" and "of_char (last s) \<in> {33..126::nat}"
  shows "trim s = s"
proof -
  have none: "strip_first ps t = None"
    if "t \<noteq> []" "of_char (hd t) \<in> {33..126::nat}" "\<forall>p\<in>set ps. p \<noteq> [] \<and> hd p \<notin> {33..126}" for ps t
    using that
  proof (induction ps)
    case (Cons p ps)
    then have "take (length p) (bytes_of t) \<noteq> p"
      by (cases p; cases t) (auto simp: bytes_of_def)
    then show ?case using Cons by simp
  qed simp
  have "trim_start_by white_space s = s"
    using none [OF assms(1,2), of white_space]
    by (subst trim_start_by.simps) (simp add: white_space_def)
  moreover have "trim_start_by (map rev white_space) (rev s) = rev s"
    using none [of "rev s" "map rev white_space"] assms
    by (subst trim_start_by.simps) (simp add: white_space_def hd_rev)
  ultimately show ?thesis by (simp add: trim_def)
qed

section \<open>Splitting\<close>

text \<open>\<open>str::split_once\<close> at a character, and \<open>str::strip_prefix\<close>.\<close>

fun split_once :: "char \<Rightarrow> string \<Rightarrow> (string \<times> string) option" where
  "split_once d [] = None"
| "split_once d (c # cs) =
     (if c = d then Some ([], cs)
      else case split_once d cs of None \<Rightarrow> None | Some (a, b) \<Rightarrow> Some (c # a, b))"

definition strip_prefix :: "string \<Rightarrow> string \<Rightarrow> string option" where
  "strip_prefix p s = (if take (length p) s = p then Some (drop (length p) s) else None)"

lemma split_once_append:
  "d \<notin> set a \<Longrightarrow> split_once d (a @ d # b) = Some (a, b)"
  by (induction a) auto

lemma split_once_Some:
  "split_once d s = Some (a, b) \<Longrightarrow> s = a @ d # b \<and> d \<notin> set a"
  by (induction d s arbitrary: a b rule: split_once.induct)
    (auto split: if_splits option.splits)

lemma strip_prefix_append [simp]: "strip_prefix p (p @ s) = Some s"
  by (simp add: strip_prefix_def)

lemma strip_prefix_Some: "strip_prefix p s = Some t \<longleftrightarrow> s = p @ t"
  by (auto simp: strip_prefix_def) (metis append_take_drop_id)

lemma digit_not_member: "list_all is_digit_char s \<Longrightarrow> \<not> is_digit_char c \<Longrightarrow> c \<notin> set s"
  by (auto simp: list_all_iff)

end
