(* ===== verification/Errors.thy ===== *)
theory Errors
  imports Float32 RustStr
begin

text \<open>
  The error types of the dense crate (\<open>ordinaldb/src/error.rs\<close>) with the messages their
  \<open>Display\<close> instances write, since several errors are re-wrapped as text. The decimal output of
  an \<open>f32\<close> is the argument \<open>show_f32\<close>; the error values of \<open>std::io\<close> are a kind with a message,
  and those of the crate \<open>ordvec_manifest\<close> are of an unknown type \<open>'x\<close> with their text the argument
  \<open>show_ext\<close>.
\<close>

datatype add_error =
    AddDimInvalid nat
  | AddDimMismatch nat nat
  | AddDimNotCompatibleWithBits nat nat string
  | AddVectorBufferNotMultipleOfDim nat nat
  | AddInvalidInputValue nat nat f32
  | AddIdsCountMismatch nat nat
  | AddIdAlreadyPresent u64
  | AddSignSidecarUnsupported nat nat "nat option"

datatype construct_error =
    UnsupportedBits nat
  | ConstructDimInvalid nat
  | ConstructDimNotCompatibleWithBits nat nat string
  | ConstructSignSidecarUnsupported nat nat "nat option"
  | SignSidecarUnsupportedBits nat

datatype io_kind = NotFound | AlreadyExists | InvalidInput | InvalidData | OtherKind nat

record io_error =
  io_kind :: io_kind
  io_message :: string

definition io_err :: "io_kind \<Rightarrow> string \<Rightarrow> io_error" where
  "io_err k m = \<lparr>io_kind = k, io_message = m\<rparr>"

datatype 'x dense_error =
    DenseIo io_error
  | DenseConstruct construct_error
  | DenseAdd add_error
  | ManifestVerification 'x
  | DenseManifest 'x
  | DenseAuxiliary 'x
  | InvalidQueryDim nat nat
  | InvalidQueryValue nat nat f32
  | MissingSignSidecar
  | SignSidecarForbidden
  | MetadataMismatch string
  | RowIdentity string
  | AllowlistRowIdMissing u64
  | CandidateSlotOutOfRange nat
  | SlotIndexOverflow nat
  | Limit string

section \<open>Messages\<close>

definition show_u64 :: "u64 \<Rightarrow> string" where
  "show_u64 w = show_nat (unat w)"

fun write_sign_sidecar_unsupported :: "nat \<Rightarrow> nat \<Rightarrow> nat option \<Rightarrow> string" where
  "write_sign_sidecar_unsupported dim bits (Some multiple) =
     ''sign policy Required cannot be honored: dim '' @ show_nat dim @
     '' is not a multiple of '' @ show_nat multiple @ '' (bits '' @ show_nat bits @ '')''"
| "write_sign_sidecar_unsupported dim bits None =
     ''sign policy Required cannot be honored: bits '' @ show_nat bits @
     '' never supports a sign sidecar (requires bits 2); got dim '' @ show_nat dim"

fun show_add_error :: "(f32 \<Rightarrow> string) \<Rightarrow> add_error \<Rightarrow> string" where
  "show_add_error show_f32 (AddDimInvalid dim) =
     ''dimension '' @ show_nat dim @
     '' is out of range: dim must be >= 2 and representable as u16''"
| "show_add_error show_f32 (AddDimMismatch existing got) =
     ''batch dimension '' @ show_nat got @ '' does not match the dimension '' @ show_nat existing @
     '' this index committed to''"
| "show_add_error show_f32 (AddDimNotCompatibleWithBits dim bits reason) =
     ''dim '' @ show_nat dim @ '' is not compatible with OrdVec RankQuant bits '' @ show_nat bits @
     '': '' @ reason"
| "show_add_error show_f32 (AddVectorBufferNotMultipleOfDim vectors_len dim) =
     ''a '' @ show_nat vectors_len @
     ''-element vector buffer does not split into whole rows of dim '' @ show_nat dim"
| "show_add_error show_f32 (AddInvalidInputValue vector_index coord_index value) =
     ''invalid input value at vector '' @ show_nat vector_index @ '', coord '' @
     show_nat coord_index @ '': '' @ show_f32 value"
| "show_add_error show_f32 (AddIdsCountMismatch expected got) =
     ''ids slice holds '' @ show_nat got @ '' entries for a batch of '' @ show_nat expected @ '' rows''"
| "show_add_error show_f32 (AddIdAlreadyPresent row_id) =
     ''duplicate id '' @ show_u64 row_id @
     '': already stored in the index or repeated within the batch''"
| "show_add_error show_f32 (AddSignSidecarUnsupported dim bits required_multiple) =
     write_sign_sidecar_unsupported dim bits required_multiple"

fun show_construct_error :: "construct_error \<Rightarrow> string" where
  "show_construct_error (UnsupportedBits bits) =
     ''OrdinalDB/OrdVec RankQuant supports bits 1, 2, or 4; got '' @ show_nat bits"
| "show_construct_error (ConstructDimInvalid dim) =
     ''dimension '' @ show_nat dim @
     '' is out of range: dim must be >= 2 and representable as u16''"
| "show_construct_error (ConstructDimNotCompatibleWithBits dim bits reason) =
     ''dim '' @ show_nat dim @ '' is not compatible with OrdVec RankQuant bits '' @ show_nat bits @
     '': '' @ reason"
| "show_construct_error (ConstructSignSidecarUnsupported dim bits required_multiple) =
     write_sign_sidecar_unsupported dim bits required_multiple"
| "show_construct_error (SignSidecarUnsupportedBits bits) =
     ''sign policy Required cannot be honored: bits '' @ show_nat bits @
     '' never supports a sign sidecar (requires bits 2)''"

fun show_dense_error :: "(f32 \<Rightarrow> string) \<Rightarrow> ('x \<Rightarrow> string) \<Rightarrow> 'x dense_error \<Rightarrow> string" where
  "show_dense_error show_f32 show_ext (DenseIo err) = io_message err"
| "show_dense_error show_f32 show_ext (DenseConstruct err) = show_construct_error err"
| "show_dense_error show_f32 show_ext (DenseAdd err) = show_add_error show_f32 err"
| "show_dense_error show_f32 show_ext (ManifestVerification err) = show_ext err"
| "show_dense_error show_f32 show_ext (DenseManifest err) = show_ext err"
| "show_dense_error show_f32 show_ext (DenseAuxiliary err) = show_ext err"
| "show_dense_error show_f32 show_ext (InvalidQueryDim len dim) =
     ''query buffer length '' @ show_nat len @ '' is not a multiple of dim '' @ show_nat dim"
| "show_dense_error show_f32 show_ext (InvalidQueryValue query_index coord_index value) =
     ''invalid query value at query '' @ show_nat query_index @ '', coord '' @
     show_nat coord_index @ '': '' @ show_f32 value"
| "show_dense_error show_f32 show_ext MissingSignSidecar = ''operation requires a sign sidecar''"
| "show_dense_error show_f32 show_ext SignSidecarForbidden =
     ''verified dense load forbids a sign sidecar, but the bundle declares one''"
| "show_dense_error show_f32 show_ext (MetadataMismatch message) = message"
| "show_dense_error show_f32 show_ext (RowIdentity message) = message"
| "show_dense_error show_f32 show_ext (AllowlistRowIdMissing row_id) =
     ''allowlist row_id '' @ show_u64 row_id @ '' is not present in index''"
| "show_dense_error show_f32 show_ext (CandidateSlotOutOfRange slot) =
     ''candidate slot '' @ show_nat slot @ '' is not present in index''"
| "show_dense_error show_f32 show_ext (SlotIndexOverflow slot) =
     ''slot index '' @ show_nat slot @ '' exceeds u32 range''"
| "show_dense_error show_f32 show_ext (Limit message) = message"

text \<open>\<open>Error::source\<close>: the wrapped error of the variants that carry one.\<close>

datatype 'x error_source =
    SourceIo io_error | SourceConstruct construct_error | SourceAdd add_error | SourceExternal 'x

fun dense_error_source :: "'x dense_error \<Rightarrow> 'x error_source option" where
  "dense_error_source (DenseIo err) = Some (SourceIo err)"
| "dense_error_source (DenseConstruct err) = Some (SourceConstruct err)"
| "dense_error_source (DenseAdd err) = Some (SourceAdd err)"
| "dense_error_source (ManifestVerification err) = Some (SourceExternal err)"
| "dense_error_source (DenseManifest err) = Some (SourceExternal err)"
| "dense_error_source (DenseAuxiliary err) = Some (SourceExternal err)"
| "dense_error_source _ = None"

end
