(* ===== verification/Shape.thy ===== *)
theory Shape
  imports Errors
begin

text \<open>
  The shape rules of a dense index (\<open>ordinaldb/src/ordinal.rs\<close>): which pairs of a dimension and a
  RankQuant bit width the index accepts, and which of them can carry a sign sidecar. A \<open>u8\<close> bit
  width and a \<open>usize\<close> dimension are natural numbers; no arithmetic here can overflow.
\<close>

section \<open>Validation\<close>

definition validate_bits :: "nat \<Rightarrow> (construct_error, unit) outcome" where
  "validate_bits bits =
     (if bits = 1 \<or> bits = 2 \<or> bits = 4 then Ok () else Err (UnsupportedBits bits))"

definition rankquant_moduli :: "nat \<Rightarrow> nat \<times> nat" where
  "rankquant_moduli bits = (8 div bits, 2 ^ bits)"

datatype dim_bits_violation = DimOutOfRange | NotCompatible string

definition check_dim_bits :: "nat \<Rightarrow> nat \<Rightarrow> (dim_bits_violation, unit) outcome" where
  "check_dim_bits dim bits =
     (if dim < 2 \<or> u16_max < dim then Err DimOutOfRange
      else let (codes_per_byte, buckets) = rankquant_moduli bits in
        if \<not> is_multiple_of dim codes_per_byte then
          Err (NotCompatible ''dim must be divisible by 8 / bits for packed RankQuant storage'')
        else if \<not> is_multiple_of dim buckets then
          Err (NotCompatible ''dim must be divisible by 2^bits for RankQuant bucket balance'')
        else Ok ())"

fun construct_violation :: "nat \<Rightarrow> nat \<Rightarrow> dim_bits_violation \<Rightarrow> construct_error" where
  "construct_violation dim bits DimOutOfRange = ConstructDimInvalid dim"
| "construct_violation dim bits (NotCompatible reason) =
     ConstructDimNotCompatibleWithBits dim bits reason"

definition validate_dim_bits :: "nat \<Rightarrow> nat \<Rightarrow> (construct_error, unit) outcome" where
  "validate_dim_bits dim bits = map_err (construct_violation dim bits) (check_dim_bits dim bits)"

fun add_violation :: "nat \<Rightarrow> nat \<Rightarrow> dim_bits_violation \<Rightarrow> add_error" where
  "add_violation dim bits DimOutOfRange = AddDimInvalid dim"
| "add_violation dim bits (NotCompatible reason) = AddDimNotCompatibleWithBits dim bits reason"

definition validate_add_dim_bits :: "nat \<Rightarrow> nat \<Rightarrow> (add_error, unit) outcome" where
  "validate_add_dim_bits dim bits = map_err (add_violation dim bits) (check_dim_bits dim bits)"

section \<open>Preflight helpers\<close>

definition rankquant_required_multiple :: "nat \<Rightarrow> nat option" where
  "rankquant_required_multiple bits =
     (if \<not> is_ok (validate_bits bits) then None
      else let (codes_per_byte, buckets) = rankquant_moduli bits in Some (max codes_per_byte buckets))"

definition rankquant_compatible :: "nat \<Rightarrow> nat \<Rightarrow> bool" where
  "rankquant_compatible dim bits \<longleftrightarrow> is_ok (validate_bits bits) \<and> is_ok (check_dim_bits dim bits)"

definition sign_required_multiple :: "nat \<Rightarrow> nat option" where
  "sign_required_multiple bits = (if bits = 2 then Some 64 else None)"

definition sign_compatible :: "nat \<Rightarrow> nat \<Rightarrow> bool" where
  "sign_compatible dim bits \<longleftrightarrow>
     rankquant_compatible dim bits \<and>
     (case sign_required_multiple bits of None \<Rightarrow> False | Some multiple \<Rightarrow> is_multiple_of dim multiple)"

text \<open>\<open>SignPolicy\<close>, \<open>BuildOptions\<close> with its default.\<close>

datatype sign_policy = SignDisabled | SignOptional | SignRequired

record build_options =
  build_sign :: sign_policy

definition build_options_default :: build_options where
  "build_options_default = \<lparr>build_sign = SignOptional\<rparr>"

section \<open>What the rules say\<close>

lemma validate_bits_eq: "is_ok (validate_bits bits) \<longleftrightarrow> bits = 1 \<or> bits = 2 \<or> bits = 4"
  by (simp add: validate_bits_def)

lemma validate_bits_Ok [simp]: "validate_bits bits = Ok () \<longleftrightarrow> bits = 1 \<or> bits = 2 \<or> bits = 4"
  by (simp add: validate_bits_def)

lemma validate_bits_not_Panic [simp]: "validate_bits bits \<noteq> Panic"
  by (simp add: validate_bits_def)

lemma check_dim_bits_Ok:
  "check_dim_bits dim bits = Ok () \<longleftrightarrow>
     2 \<le> dim \<and> dim \<le> u16_max \<and> (8 div bits) dvd dim \<and> 2 ^ bits dvd dim"
  by (auto simp: check_dim_bits_def rankquant_moduli_def is_multiple_of_dvd Let_def)

lemma check_dim_bits_not_Panic [simp]: "check_dim_bits dim bits \<noteq> Panic"
  by (auto simp: check_dim_bits_def rankquant_moduli_def Let_def)

lemma is_ok_unit: "is_ok m \<longleftrightarrow> m = Ok ()" for m :: "('e, unit) outcome"
  by (cases m) auto

lemma moduli_lcm:
  assumes "bits = 1 \<or> bits = 2 \<or> bits = 4"
  shows "(8 div bits) dvd dim \<and> 2 ^ bits dvd dim \<longleftrightarrow> max (8 div bits) (2 ^ bits) dvd (dim :: nat)"
proof -
  have "(2 :: nat) dvd dim" if "8 dvd dim" using that by presburger
  moreover have "(2 :: nat) dvd dim" if "16 dvd dim" using that by presburger
  ultimately show ?thesis using assms by auto
qed

lemma compatible_iff:
  "rankquant_compatible dim bits \<longleftrightarrow>
     2 \<le> dim \<and> dim \<le> 65535 \<and>
     (case rankquant_required_multiple bits of None \<Rightarrow> False | Some m \<Rightarrow> m dvd dim)"
proof (cases "bits = 1 \<or> bits = 2 \<or> bits = 4")
  case True
  then show ?thesis
    using moduli_lcm [OF True, of dim]
    by (auto simp: rankquant_compatible_def rankquant_required_multiple_def is_ok_unit
        check_dim_bits_Ok u16_max_def rankquant_moduli_def)
next
  case False
  then show ?thesis
    by (auto simp: rankquant_compatible_def rankquant_required_multiple_def validate_bits_eq)
qed

lemma compatible_bits: "rankquant_compatible dim bits \<Longrightarrow> bits = 1 \<or> bits = 2 \<or> bits = 4"
  by (simp add: rankquant_compatible_def validate_bits_eq)

lemma compatible_dim: "rankquant_compatible dim bits \<Longrightarrow> 2 \<le> dim \<and> dim \<le> u16_max"
  by (simp add: compatible_iff u16_max_def)

lemma validate_dim_bits_Ok:
  "validate_dim_bits dim bits = Ok () \<longleftrightarrow> check_dim_bits dim bits = Ok ()"
  by (simp add: validate_dim_bits_def outcome_simps)

lemma validate_add_dim_bits_Ok:
  "validate_add_dim_bits dim bits = Ok () \<longleftrightarrow> check_dim_bits dim bits = Ok ()"
  by (simp add: validate_add_dim_bits_def outcome_simps)

lemma validate_add_dim_bits_accept [simp]:
  "check_dim_bits dim bits = Ok () \<Longrightarrow> validate_add_dim_bits dim bits = Ok ()"
  by (simp add: validate_add_dim_bits_Ok)

lemma validate_dim_bits_not_Panic [simp]: "validate_dim_bits dim bits \<noteq> Panic"
  by (simp add: validate_dim_bits_def outcome_simps)

lemma validate_add_dim_bits_not_Panic [simp]: "validate_add_dim_bits dim bits \<noteq> Panic"
  by (simp add: validate_add_dim_bits_def outcome_simps)

lemma compatible_validated:
  "rankquant_compatible dim bits \<longleftrightarrow>
     (bits = 1 \<or> bits = 2 \<or> bits = 4) \<and> check_dim_bits dim bits = Ok ()"
  by (simp add: rankquant_compatible_def validate_bits_eq is_ok_unit)

lemma sign_compatible_iff:
  "sign_compatible dim bits \<longleftrightarrow> bits = 2 \<and> 64 dvd dim \<and> 2 \<le> dim \<and> dim \<le> 65535"
proof -
  have "4 dvd dim" if "64 dvd dim" for dim :: nat
    using that by (rule dvd_trans [rotated]) (simp add: dvd_def)
  then show ?thesis
    by (auto simp: sign_compatible_def sign_required_multiple_def is_multiple_of_dvd compatible_iff
        rankquant_required_multiple_def validate_bits_eq rankquant_moduli_def split: if_splits)
qed

lemma sign_compatible_rankquant: "sign_compatible dim bits \<Longrightarrow> rankquant_compatible dim bits"
  by (simp add: sign_compatible_def)

text \<open>
  The preflight helper is exact: a pair of a dimension and a bit width passes both validators
  that the constructors run if and only if the width is 1, 2 or 4, the dimension fits a
  \<open>u16\<close> and is at least 2, and it is a multiple of the one number
  \<open>rankquant_required_multiple\<close> reports, the larger of \<open>8 / bits\<close> and \<open>2^bits\<close> being their least
  common multiple.
\<close>

theorem preflight_exact:
  "((validate_bits bits = Ok () \<and> validate_dim_bits dim bits = Ok ()) = rankquant_compatible dim bits) \<and>
   (rankquant_compatible dim bits =
     (2 \<le> dim \<and> dim \<le> 65535 \<and>
      (case rankquant_required_multiple bits of None \<Rightarrow> False | Some m \<Rightarrow> m dvd dim)))"
  by (auto simp: compatible_validated validate_dim_bits_Ok compatible_iff [symmetric])

end
