(* ===== verification/OrdvecApi.thy ===== *)
theory OrdvecApi
  imports Shape
begin

text \<open>
  The operations of the crate \<open>ordvec\<close> that the dense index calls, as a record of functions: the
  crate is not part of the repository, so its codes are the unknown types \<open>'rq\<close> (\<open>RankQuant\<close>)
  and \<open>'sb\<close> (\<open>SignBitmap\<close>) and every definition of the development takes the record as an
  argument. What the code relies on is the predicate \<open>ordvec_ok\<close>: a \<open>RankQuant\<close> is a sequence
  of codes, \<open>add\<close> appends the code of each row, \<open>swap_remove\<close> is that of a vector, and the
  batched entry points work on each query by itself. A panic of the crate is \<open>None\<close>.
\<close>

section \<open>The operations\<close>

record search_results =
  sr_scores :: "f32 list"
  sr_indices :: "int list"
  sr_nq :: nat
  sr_k :: nat

record ('rq, 'sb) ordvec =
  rq_new :: "nat \<Rightarrow> nat \<Rightarrow> 'rq"
  rq_dim :: "'rq \<Rightarrow> nat"
  rq_bits :: "'rq \<Rightarrow> nat"
  rq_len :: "'rq \<Rightarrow> nat"
  rq_add :: "'rq \<Rightarrow> f32 list \<Rightarrow> 'rq option"
  rq_swap_remove :: "'rq \<Rightarrow> nat \<Rightarrow> ('rq \<times> nat) option"
  rq_search_asymmetric :: "'rq \<Rightarrow> f32 list \<Rightarrow> nat \<Rightarrow> search_results"
  rq_search_subset :: "'rq \<Rightarrow> f32 list \<Rightarrow> nat list \<Rightarrow> nat \<Rightarrow> f32 list \<times> int list"
  rq_subset_batched :: "'rq \<Rightarrow> f32 list \<Rightarrow> nat list \<Rightarrow> nat list \<Rightarrow> nat \<Rightarrow> f32 list \<times> int list"
  sb_new :: "nat \<Rightarrow> 'sb"
  sb_dim :: "'sb \<Rightarrow> nat"
  sb_len :: "'sb \<Rightarrow> nat"
  sb_add :: "'sb \<Rightarrow> f32 list \<Rightarrow> 'sb option"
  sb_swap_remove :: "'sb \<Rightarrow> nat \<Rightarrow> ('sb \<times> nat) option"
  sb_top_m :: "'sb \<Rightarrow> f32 list \<Rightarrow> nat \<Rightarrow> nat list \<times> nat list"

text \<open>The values the crate accepts: the callers have checked each of them.\<close>

definition max_input_magnitude :: f32 where
  "max_input_magnitude = 1510874058"

definition valid_coord :: "f32 \<Rightarrow> bool" where
  "valid_coord v \<longleftrightarrow> f32_is_finite v \<and> f32_lt (f32_abs v) max_input_magnitude"

definition whole_rows :: "nat \<Rightarrow> f32 list \<Rightarrow> bool" where
  "whole_rows dim vectors \<longleftrightarrow> 0 < dim \<and> dim dvd length vectors \<and> list_all valid_coord vectors"

section \<open>What the callers rely on\<close>

text \<open>
  \<open>rows\<close> and \<open>srows\<close> read the codes off a \<open>RankQuant\<close> and a \<open>SignBitmap\<close>; \<open>enc\<close> and \<open>senc\<close>
  are the code of one row, a function of that row alone.
\<close>

definition rankquant_ok ::
  "('rq, 'sb) ordvec \<Rightarrow> ('rq \<Rightarrow> 'c list) \<Rightarrow> (nat \<Rightarrow> nat \<Rightarrow> f32 list \<Rightarrow> 'c) \<Rightarrow> bool" where
  "rankquant_ok A rows enc \<longleftrightarrow>
     (\<forall>d b. rankquant_compatible d b \<longrightarrow>
        rq_dim A (rq_new A d b) = d \<and> rq_bits A (rq_new A d b) = b \<and> rows (rq_new A d b) = []) \<and>
     (\<forall>r. rq_len A r = length (rows r)) \<and>
     (\<forall>r vs. whole_rows (rq_dim A r) vs \<longrightarrow>
        (\<exists>r'. rq_add A r vs = Some r' \<and> rq_dim A r' = rq_dim A r \<and> rq_bits A r' = rq_bits A r \<and>
           rows r' = rows r @ map (enc (rq_dim A r) (rq_bits A r)) (chunks (rq_dim A r) vs))) \<and>
     (\<forall>r i. i < length (rows r) \<longrightarrow>
        (\<exists>r'. rq_swap_remove A r i = Some (r', length (rows r) - 1) \<and> rq_dim A r' = rq_dim A r \<and>
           rq_bits A r' = rq_bits A r \<and> rows r' = list_swap_remove (rows r) i)) \<and>
     (\<forall>r i. length (rows r) \<le> i \<longrightarrow> rq_swap_remove A r i = None)"

definition sign_ok ::
  "('rq, 'sb) ordvec \<Rightarrow> ('sb \<Rightarrow> 's list) \<Rightarrow> (nat \<Rightarrow> f32 list \<Rightarrow> 's) \<Rightarrow> bool" where
  "sign_ok A srows senc \<longleftrightarrow>
     (\<forall>d. 64 dvd d \<longrightarrow> sb_dim A (sb_new A d) = d \<and> srows (sb_new A d) = []) \<and>
     (\<forall>s. sb_len A s = length (srows s)) \<and>
     (\<forall>s vs. whole_rows (sb_dim A s) vs \<longrightarrow>
        (\<exists>s'. sb_add A s vs = Some s' \<and> sb_dim A s' = sb_dim A s \<and>
           srows s' = srows s @ map (senc (sb_dim A s)) (chunks (sb_dim A s) vs))) \<and>
     (\<forall>s i. i < length (srows s) \<longrightarrow>
        (\<exists>s'. sb_swap_remove A s i = Some (s', length (srows s) - 1) \<and> sb_dim A s' = sb_dim A s \<and>
           srows s' = list_swap_remove (srows s) i)) \<and>
     (\<forall>s i. length (srows s) \<le> i \<longrightarrow> sb_swap_remove A s i = None)"

lemma rankquant_new:
  "rankquant_ok A rows enc \<Longrightarrow> rankquant_compatible d b \<Longrightarrow>
     rq_dim A (rq_new A d b) = d \<and> rq_bits A (rq_new A d b) = b \<and> rows (rq_new A d b) = []"
  by (simp add: rankquant_ok_def)

lemma rankquant_len: "rankquant_ok A rows enc \<Longrightarrow> rq_len A r = length (rows r)"
  by (simp add: rankquant_ok_def)

lemma rankquant_add:
  "rankquant_ok A rows enc \<Longrightarrow> whole_rows (rq_dim A r) vs \<Longrightarrow>
     \<exists>r'. rq_add A r vs = Some r' \<and> rq_dim A r' = rq_dim A r \<and> rq_bits A r' = rq_bits A r \<and>
        rows r' = rows r @ map (enc (rq_dim A r) (rq_bits A r)) (chunks (rq_dim A r) vs)"
  by (simp add: rankquant_ok_def)

lemma rankquant_swap_remove:
  "rankquant_ok A rows enc \<Longrightarrow> i < length (rows r) \<Longrightarrow>
     \<exists>r'. rq_swap_remove A r i = Some (r', length (rows r) - 1) \<and> rq_dim A r' = rq_dim A r \<and>
        rq_bits A r' = rq_bits A r \<and> rows r' = list_swap_remove (rows r) i"
  by (simp add: rankquant_ok_def)

lemma rankquant_swap_remove_out:
  "rankquant_ok A rows enc \<Longrightarrow> length (rows r) \<le> i \<Longrightarrow> rq_swap_remove A r i = None"
  by (simp add: rankquant_ok_def)

lemma sign_new:
  "sign_ok A srows senc \<Longrightarrow> 64 dvd d \<Longrightarrow> sb_dim A (sb_new A d) = d \<and> srows (sb_new A d) = []"
  by (simp add: sign_ok_def)

lemma sign_len: "sign_ok A srows senc \<Longrightarrow> sb_len A s = length (srows s)"
  by (simp add: sign_ok_def)

lemma sign_add:
  "sign_ok A srows senc \<Longrightarrow> whole_rows (sb_dim A s) vs \<Longrightarrow>
     \<exists>s'. sb_add A s vs = Some s' \<and> sb_dim A s' = sb_dim A s \<and>
        srows s' = srows s @ map (senc (sb_dim A s)) (chunks (sb_dim A s) vs)"
  by (simp add: sign_ok_def)

lemma sign_swap_remove:
  "sign_ok A srows senc \<Longrightarrow> i < length (srows s) \<Longrightarrow>
     \<exists>s'. sb_swap_remove A s i = Some (s', length (srows s) - 1) \<and> sb_dim A s' = sb_dim A s \<and>
        srows s' = list_swap_remove (srows s) i"
  by (simp add: sign_ok_def)

text \<open>The two readings in one value, the argument of every statement about the crate.\<close>

record ('rq, 'sb, 'c, 's) reading =
  rd_rows :: "'rq \<Rightarrow> 'c list"
  rd_enc :: "nat \<Rightarrow> nat \<Rightarrow> f32 list \<Rightarrow> 'c"
  rd_srows :: "'sb \<Rightarrow> 's list"
  rd_senc :: "nat \<Rightarrow> f32 list \<Rightarrow> 's"

definition ordvec_ok :: "('rq, 'sb) ordvec \<Rightarrow> ('rq, 'sb, 'c, 's) reading \<Rightarrow> bool" where
  "ordvec_ok A R \<longleftrightarrow> rankquant_ok A (rd_rows R) (rd_enc R) \<and> sign_ok A (rd_srows R) (rd_senc R)"

section \<open>An instance\<close>

text \<open>
  Codes that keep the rows as they are: the instance on which the examples run. A row's score is
  the first coordinate of the row, and the best \<open>m\<close> candidates are the first \<open>m\<close> slots.
\<close>

type_synonym plain_rq = "nat \<times> nat \<times> f32 list list"
type_synonym plain_sb = "nat \<times> f32 list list"

definition plain_append :: "nat \<Rightarrow> 'a list list \<Rightarrow> 'a list \<Rightarrow> 'a list list option" where
  "plain_append d rows vs = (if is_multiple_of (length vs) d then Some (rows @ chunks d vs) else None)"

definition plain_remove :: "'a list \<Rightarrow> nat \<Rightarrow> ('a list \<times> nat) option" where
  "plain_remove rows i =
     (if i < length rows then Some (list_swap_remove rows i, length rows - 1) else None)"

definition plain_subset :: "plain_rq \<Rightarrow> nat list \<Rightarrow> nat \<Rightarrow> f32 list \<times> int list" where
  "plain_subset r cands k =
     (let ix = take k cands; pad = k - length ix
      in (map (\<lambda>i. hd (snd (snd r) ! i)) ix @ replicate pad 4286578688,
          map int ix @ replicate pad (- 1)))"

definition plain_batched ::
  "plain_rq \<Rightarrow> f32 list \<Rightarrow> nat list \<Rightarrow> nat list \<Rightarrow> nat \<Rightarrow> f32 list \<times> int list" where
  "plain_batched r qs offs cands k =
     (let rows = map (\<lambda>(a, b). plain_subset r (drop a (take b cands)) k) (windows2 offs)
      in (concat (map fst rows), concat (map snd rows)))"

definition plain_ordvec :: "(plain_rq, plain_sb) ordvec" where
  "plain_ordvec =
     \<lparr>rq_new = (\<lambda>d b. (d, b, [])),
      rq_dim = fst,
      rq_bits = (\<lambda>r. fst (snd r)),
      rq_len = (\<lambda>r. length (snd (snd r))),
      rq_add = (\<lambda>(d, b, rows) vs. map_option (\<lambda>rows'. (d, b, rows')) (plain_append d rows vs)),
      rq_swap_remove = (\<lambda>(d, b, rows) i. map_option (\<lambda>(rows', m). ((d, b, rows'), m)) (plain_remove rows i)),
      rq_search_asymmetric = (\<lambda>r qs k.
        let nq = length (chunks (fst r) qs);
            (sc, ix) = plain_subset r [0..<length (snd (snd r))] k
        in \<lparr>sr_scores = concat (replicate nq sc), sr_indices = concat (replicate nq ix),
            sr_nq = nq, sr_k = k\<rparr>),
      rq_search_subset = (\<lambda>r q cands k. plain_subset r cands k),
      rq_subset_batched = plain_batched,
      sb_new = (\<lambda>d. (d, [])),
      sb_dim = fst,
      sb_len = (\<lambda>s. length (snd s)),
      sb_add = (\<lambda>(d, rows) vs. map_option (\<lambda>rows'. (d, rows')) (plain_append d rows vs)),
      sb_swap_remove = (\<lambda>(d, rows) i. map_option (\<lambda>(rows', m). ((d, rows'), m)) (plain_remove rows i)),
      sb_top_m = (\<lambda>s qs m.
        let nq = length (chunks (fst s) qs); m' = min m (length (snd s))
        in (map (\<lambda>i. i * m') [0..<Suc nq], concat (replicate nq [0..<m'])))\<rparr>"

lemma plain_rankquant_ok: "rankquant_ok plain_ordvec (\<lambda>r. snd (snd r)) (\<lambda>d b v. v)"
  by (auto simp: rankquant_ok_def plain_ordvec_def plain_append_def plain_remove_def
      whole_rows_def is_multiple_of_dvd)

lemma plain_sign_ok: "sign_ok plain_ordvec snd (\<lambda>d v. v)"
  by (auto simp: sign_ok_def plain_ordvec_def plain_append_def plain_remove_def
      whole_rows_def is_multiple_of_dvd)

definition plain_reading :: "(plain_rq, plain_sb, f32 list, f32 list) reading" where
  "plain_reading =
     \<lparr>rd_rows = (\<lambda>r. snd (snd r)), rd_enc = (\<lambda>d b v. v), rd_srows = snd, rd_senc = (\<lambda>d v. v)\<rparr>"

lemma plain_ordvec_ok: "ordvec_ok plain_ordvec plain_reading"
  using plain_rankquant_ok plain_sign_ok by (simp add: ordvec_ok_def plain_reading_def)

end
