(* ===== verification/SlotStore.thy ===== *)
theory SlotStore
  imports Prelude
begin

text \<open>
  The contract between a dense index and the ID map that wraps it. A store is a sequence of row
  codes addressed by slot: an accepted batch is appended, a rejected one changes nothing, and
  removal moves the last row into the hole and reports the slot it came from. What a client
  that keeps one ID per slot gets from that contract is proved here once: the map from IDs to row
  codes is extended by a batch, and loses exactly the removed ID by a removal.
\<close>

lemma zip_list_swap_remove:
  assumes "length xs = length ys" and "i < length xs"
  shows "zip (list_swap_remove xs i) (list_swap_remove ys i) = list_swap_remove (zip xs ys) i"
proof -
  have "xs \<noteq> []" using assms by auto
  then have last: "last (zip xs ys) = (last xs, last ys)"
    using assms by (subst (1 2 3) last_conv_nth) auto
  show ?thesis
    by (rule nth_equalityI) (use assms last in \<open>auto simp: vec_simps\<close>)
qed

lemma map_of_zip_swap_remove:
  assumes len: "length ids = length cs" and i: "i < length ids" and dist: "distinct ids"
  shows "map_of (zip (list_swap_remove ids i) (list_swap_remove cs i)) =
    (map_of (zip ids cs))(ids ! i := None)"
proof (rule ext)
  fix x
  note zip = zip_list_swap_remove [OF len i]
  have dz: "distinct (zip ids cs)" by (rule distinct_zipI1 [OF dist])
  have set: "set (list_swap_remove (zip ids cs) i) = set (zip ids cs) - {(ids ! i, cs ! i)}"
    using len i by (simp add: set_list_swap_remove [OF _ dz])
  have dk: "distinct (map fst (list_swap_remove (zip ids cs) i))"
    using len i dist by (simp add: map_list_swap_remove distinct_list_swap_remove)
  have key: "map_of (zip ids cs) x = Some c \<longleftrightarrow> (x, c) \<in> set (zip ids cs)" for c
    using len dist by (simp add: map_of_eq_Some_iff)
  have at_i: "(ids ! i, c) \<in> set (zip ids cs) \<longleftrightarrow> c = cs ! i" for c
    using len i dist by (auto simp: in_set_zip nth_eq_iff_index_eq)
  show "map_of (zip (list_swap_remove ids i) (list_swap_remove cs i)) x =
    ((map_of (zip ids cs))(ids ! i := None)) x"
  proof (rule option.expand)
    have "map_of (list_swap_remove (zip ids cs) i) x = Some c \<longleftrightarrow>
        ((map_of (zip ids cs))(ids ! i := None)) x = Some c" for c
      using dk set key at_i by (auto simp: map_of_eq_Some_iff)
    then have eq: "map_of (list_swap_remove (zip ids cs) i) x = ((map_of (zip ids cs))(ids ! i := None)) x"
      by (metis not_None_eq)
    then show "(map_of (zip (list_swap_remove ids i) (list_swap_remove cs i)) x = None) =
        (((map_of (zip ids cs))(ids ! i := None)) x = None)"
      by (simp only: zip)
    show "the (map_of (zip (list_swap_remove ids i) (list_swap_remove cs i)) x) =
        the (((map_of (zip ids cs))(ids ! i := None)) x)"
      by (simp only: zip eq)
  qed
qed

locale slot_store =
  fixes ok :: "'s \<Rightarrow> bool"
    and content :: "'s \<Rightarrow> 'c list"
    and code :: "'s \<Rightarrow> 'v list \<Rightarrow> 'c"
    and add :: "'s \<Rightarrow> 'v list \<Rightarrow> nat \<Rightarrow> 's \<times> ('e, unit) outcome"
    and swap :: "'s \<Rightarrow> nat \<Rightarrow> 's \<times> ('f, nat) outcome"
  assumes add_Ok: "ok s \<Longrightarrow> add s vs d = (s', Ok ()) \<Longrightarrow>
      ok s' \<and> 0 < d \<and> d dvd length vs \<and> content s' = content s @ map (code s') (chunks d vs)"
    and add_Err: "ok s \<Longrightarrow> add s vs d = (s', Err e) \<Longrightarrow> s' = s"
    and add_no_Panic: "ok s \<Longrightarrow> add s vs d \<noteq> (s', Panic)"
    and swap_Ok: "ok s \<Longrightarrow> i < length (content s) \<Longrightarrow>
      \<exists>s'. swap s i = (s', Ok (length (content s) - 1)) \<and> ok s' \<and>
        content s' = list_swap_remove (content s) i"
begin

lemma add_length:
  assumes "ok s" and "add s vs d = (s', Ok ())"
  shows "length (content s') = length (content s) + length vs div d"
  using add_Ok [OF assms] by (auto simp: length_chunks)

lemma lookup_add:
  assumes "ok s" and "add s vs d = (s', Ok ())"
    and "length ids = length (content s)" and "length new = length vs div d"
    and "distinct (ids @ new)"
  shows "map_of (zip (ids @ new) (content s')) =
    map_of (zip ids (content s)) ++ map_of (zip new (map (code s') (chunks d vs)))"
proof -
  have c: "content s' = content s @ map (code s') (chunks d vs)"
    and l: "length new = length (map (code s') (chunks d vs))"
    using add_Ok [OF assms(1,2)] assms(4) by (auto simp: length_chunks)
  have "map_of (zip ids (content s)) ++ map_of (zip new (map (code s') (chunks d vs))) =
      map_of (zip new (map (code s') (chunks d vs))) ++ map_of (zip ids (content s))"
    by (rule map_add_comm) (use assms(3,5) l in \<open>auto simp: dom_map_of_zip\<close>)
  then show ?thesis
    using c assms(3) by (simp add: map_of_append)
qed

lemma lookup_swap:
  assumes "ok s" and "swap s i = (s', r)" and "length ids = length (content s)"
    and "i < length ids" and "distinct ids"
  shows "map_of (zip (list_swap_remove ids i) (content s')) =
    (map_of (zip ids (content s)))(ids ! i := None)"
proof -
  have "content s' = list_swap_remove (content s) i"
    using swap_Ok [OF assms(1), of i] assms by auto
  then show ?thesis
    using map_of_zip_swap_remove [OF assms(3-5)] by simp
qed

end

end
