(* ===== verification/OrdinalIndex.thy ===== *)
theory OrdinalIndex
  imports OrdvecApi SlotStore
begin

text \<open>
  The dense, slot-addressed index (\<open>OrdinalIndex\<close> in \<open>ordinaldb/src/ordinal.rs\<close>): its state, the
  constructors, the two forms of \<open>add\<close>, \<open>swap_remove\<close>, and the assembly from loaded artifacts. The
  index is lazy while \<open>dim\<close> is \<open>None\<close>. Every operation that takes \<open>&mut self\<close> returns the state
  it leaves beside its outcome, also on an error or a panic.
\<close>

section \<open>Input validation\<close>

definition parallel_threshold :: nat where
  "parallel_threshold = 1048576"

fun find_invalid :: "nat \<Rightarrow> nat \<Rightarrow> f32 list \<Rightarrow> (nat \<times> nat \<times> f32) option" where
  "find_invalid dim i [] = None"
| "find_invalid dim i (value # values) =
     (if \<not> f32_is_finite value \<or> f32_le max_input_magnitude (f32_abs value)
      then Some (i div dim, i mod dim, value)
      else find_invalid dim (i + 1) values)"

definition first_invalid_coord :: "f32 list \<Rightarrow> nat \<Rightarrow> (nat \<times> nat \<times> f32) option" where
  "first_invalid_coord values dim =
     (if parallel_threshold \<le> length values \<and>
         list_all (\<lambda>c. list_all (\<lambda>v. f32_is_finite v \<and> f32_lt (f32_abs v) max_input_magnitude) c)
           (chunks 262144 values)
      then None
      else find_invalid dim 0 values)"

definition assert_valid_values :: "f32 list \<Rightarrow> nat \<Rightarrow> ('e, unit) outcome" where
  "assert_valid_values values dim =
     (case first_invalid_coord values dim of None \<Rightarrow> Ok () | Some _ \<Rightarrow> Panic)"

lemma invalid_coord_iff:
  "\<not> f32_is_finite v \<or> f32_le max_input_magnitude (f32_abs v) \<longleftrightarrow> \<not> valid_coord v"
proof (cases "f32_is_finite v")
  case True
  then have nan: "\<not> f32_is_nan (f32_abs v)"
    by (simp add: f32_is_finite_def f32_is_nan_def)
  have "\<not> f32_is_nan max_input_magnitude"
    by (simp add: f32_is_nan_def max_input_magnitude_def f32_mag_def mag_inf_def)
  with nan show ?thesis
    using True by (auto simp: valid_coord_def f32_le_def f32_lt_def)
qed (simp add: valid_coord_def)

lemma find_invalid_step:
  "find_invalid dim i (v # vs) =
     (if valid_coord v then find_invalid dim (Suc i) vs else Some (i div dim, i mod dim, v))"
  using invalid_coord_iff [of v] by simp

declare find_invalid.simps(2) [simp del]
declare find_invalid_step [simp]

lemma find_invalid_None: "find_invalid dim i vs = None \<longleftrightarrow> list_all valid_coord vs"
  by (induction vs arbitrary: i) auto

text \<open>What is reported is the first offender, with its row and its coordinate.\<close>

lemma find_invalid_Some:
  "find_invalid dim i vs = Some (r, c, v) \<Longrightarrow>
     \<exists>j<length vs. r = (i + j) div dim \<and> c = (i + j) mod dim \<and> v = vs ! j \<and>
        \<not> valid_coord v \<and> list_all valid_coord (take j vs)"
proof (induction vs arbitrary: i)
  case (Cons u us)
  show ?case
  proof (cases "valid_coord u")
    case True
    with Cons.prems have "find_invalid dim (Suc i) us = Some (r, c, v)" by simp
    from Cons.IH [OF this] obtain j where "j < length us" "r = (Suc i + j) div dim"
      "c = (Suc i + j) mod dim" "v = us ! j" "\<not> valid_coord v" "list_all valid_coord (take j us)"
      by blast
    with True show ?thesis by (intro exI [of _ "Suc j"]) simp
  next
    case False
    with Cons.prems show ?thesis by (intro exI [of _ 0]) simp
  qed
qed simp

lemma list_all_chunks: "0 < d \<Longrightarrow> list_all (list_all P) (chunks d xs) \<longleftrightarrow> list_all P xs"
proof -
  assume "0 < d"
  then have "list_all P xs \<longleftrightarrow> list_all P (concat (chunks d xs))" by (simp add: concat_chunks)
  then show ?thesis by (auto simp: list_all_iff)
qed

text \<open>The parallel sweep is only a fast path: the answer is that of the serial scan.\<close>

lemma first_invalid_coord_serial: "first_invalid_coord values dim = find_invalid dim 0 values"
proof (cases "list_all valid_coord values")
  case True
  then have "find_invalid dim 0 values = None" by (simp add: find_invalid_None)
  then show ?thesis by (simp add: first_invalid_coord_def)
next
  case False
  then have "\<not> list_all (list_all valid_coord) (chunks 262144 values)"
    by (simp add: list_all_chunks)
  then show ?thesis
    unfolding first_invalid_coord_def valid_coord_def [abs_def] by (simp only: simp_thms if_False)
qed

lemma first_invalid_None:
  "first_invalid_coord values dim = None \<longleftrightarrow> list_all valid_coord values"
  by (simp add: first_invalid_coord_serial find_invalid_None)

lemma assert_valid_values_eq:
  "assert_valid_values values dim = (if list_all valid_coord values then Ok () else Panic)"
proof (cases "first_invalid_coord values dim")
  case None
  then show ?thesis using first_invalid_None [of "values" dim] by (simp add: assert_valid_values_def)
next
  case (Some x)
  then have "\<not> list_all valid_coord values"
    by (metis first_invalid_None option.distinct(1))
  with Some show ?thesis by (simp add: assert_valid_values_def)
qed

section \<open>State and constructors\<close>

record ('rq, 'sb) ordinal_index =
  oi_dim :: "nat option"
  oi_bits :: nat
  oi_inner :: "'rq option"
  oi_sign :: "'sb option"
  oi_sign_policy :: sign_policy

definition maybe_new_sign ::
  "('rq, 'sb) ordvec \<Rightarrow> nat \<Rightarrow> nat \<Rightarrow> sign_policy \<Rightarrow> (construct_error, 'sb option) outcome" where
  "maybe_new_sign A dim bits policy =
     (let compatible = sign_compatible dim bits in
      case policy of
        SignDisabled \<Rightarrow> Ok None
      | SignOptional \<Rightarrow> Ok (if compatible then Some (sb_new A dim) else None)
      | SignRequired \<Rightarrow>
          if compatible then Ok (Some (sb_new A dim))
          else Err (ConstructSignSidecarUnsupported dim bits (sign_required_multiple bits)))"

definition oi_new_with_build_options ::
  "('rq, 'sb) ordvec \<Rightarrow> nat \<Rightarrow> nat \<Rightarrow> build_options \<Rightarrow>
     (construct_error, ('rq, 'sb) ordinal_index) outcome" where
  "oi_new_with_build_options A dim bits options =
     obind (validate_bits bits) (\<lambda>_.
     obind (validate_dim_bits dim bits) (\<lambda>_.
     obind (maybe_new_sign A dim bits (build_sign options)) (\<lambda>sign.
     Ok \<lparr>oi_dim = Some dim, oi_bits = bits, oi_inner = Some (rq_new A dim bits),
         oi_sign = sign, oi_sign_policy = build_sign options\<rparr>)))"

definition oi_new ::
  "('rq, 'sb) ordvec \<Rightarrow> nat \<Rightarrow> nat \<Rightarrow> (construct_error, ('rq, 'sb) ordinal_index) outcome" where
  "oi_new A dim bits = oi_new_with_build_options A dim bits build_options_default"

definition oi_new_lazy_with_build_options ::
  "nat \<Rightarrow> build_options \<Rightarrow> (construct_error, ('rq, 'sb) ordinal_index) outcome" where
  "oi_new_lazy_with_build_options bits options =
     obind (validate_bits bits) (\<lambda>_.
     if build_sign options = SignRequired \<and> sign_required_multiple bits = None
     then Err (SignSidecarUnsupportedBits bits)
     else Ok \<lparr>oi_dim = None, oi_bits = bits, oi_inner = None, oi_sign = None,
              oi_sign_policy = build_sign options\<rparr>)"

definition oi_new_lazy :: "nat \<Rightarrow> (construct_error, ('rq, 'sb) ordinal_index) outcome" where
  "oi_new_lazy bits = oi_new_lazy_with_build_options bits build_options_default"

definition oi_len :: "('rq, 'sb) ordvec \<Rightarrow> ('rq, 'sb) ordinal_index \<Rightarrow> nat" where
  "oi_len A idx = (case oi_inner idx of None \<Rightarrow> 0 | Some r \<Rightarrow> rq_len A r)"

definition oi_is_empty :: "('rq, 'sb) ordvec \<Rightarrow> ('rq, 'sb) ordinal_index \<Rightarrow> bool" where
  "oi_is_empty A idx \<longleftrightarrow> oi_len A idx = 0"

definition oi_dim_or_zero :: "('rq, 'sb) ordinal_index \<Rightarrow> nat" where
  "oi_dim_or_zero idx = (case oi_dim idx of None \<Rightarrow> 0 | Some d \<Rightarrow> d)"

definition oi_has_sign_sidecar :: "('rq, 'sb) ordinal_index \<Rightarrow> bool" where
  "oi_has_sign_sidecar idx \<longleftrightarrow> oi_sign idx \<noteq> None"

section \<open>Adding and removing rows\<close>

text \<open>The common tail of both forms: \<open>inner.add(vectors)\<close>, then the sidecar's \<open>add\<close>.\<close>

definition oi_append ::
  "('rq, 'sb) ordvec \<Rightarrow> ('rq, 'sb) ordinal_index \<Rightarrow> f32 list \<Rightarrow>
     ('rq, 'sb) ordinal_index \<times> ('e, unit) outcome" where
  "oi_append A idx vectors =
     (case oi_inner idx of
        None \<Rightarrow> (idx, Panic)
      | Some r \<Rightarrow>
          (case rq_add A r vectors of
             None \<Rightarrow> (idx, Panic)
           | Some r' \<Rightarrow>
               let idx' = idx\<lparr>oi_inner := Some r'\<rparr> in
               (case oi_sign idx of
                  None \<Rightarrow> (idx', Ok ())
                | Some s \<Rightarrow>
                    (case sb_add A s vectors of
                       None \<Rightarrow> (idx', Panic)
                     | Some s' \<Rightarrow> (idx'\<lparr>oi_sign := Some s'\<rparr>, Ok ())))))"

definition oi_add ::
  "('rq, 'sb) ordvec \<Rightarrow> ('rq, 'sb) ordinal_index \<Rightarrow> f32 list \<Rightarrow>
     ('rq, 'sb) ordinal_index \<times> ('e, unit) outcome" where
  "oi_add A idx vectors =
     (case oi_dim idx of
        None \<Rightarrow> (idx, Panic)
      | Some dim \<Rightarrow>
          if dim = 0 then (idx, Panic) else
          let n = length vectors div dim in
          if length vectors \<noteq> n * dim then (idx, Panic)
          else if n = 0 then (idx, Ok ())
          else case assert_valid_values vectors dim of
                 Ok _ \<Rightarrow> oi_append A idx vectors
               | Err e \<Rightarrow> (idx, Err e)
               | Panic \<Rightarrow> (idx, Panic))"

definition oi_add_2d ::
  "('rq, 'sb) ordvec \<Rightarrow> ('rq, 'sb) ordinal_index \<Rightarrow> f32 list \<Rightarrow> nat \<Rightarrow>
     ('rq, 'sb) ordinal_index \<times> (add_error, unit) outcome" where
  "oi_add_2d A idx vectors dim =
     (case validate_add_dim_bits dim (oi_bits idx) of
        Err e \<Rightarrow> (idx, Err e)
      | Panic \<Rightarrow> (idx, Panic)
      | Ok _ \<Rightarrow>
        if \<not> is_multiple_of (length vectors) dim then
          (idx, Err (AddVectorBufferNotMultipleOfDim (length vectors) dim))
        else
          let n = length vectors div dim in
          if \<exists>existing. oi_dim idx = Some existing \<and> existing \<noteq> dim then
            (idx, Err (AddDimMismatch (the (oi_dim idx)) dim))
          else if oi_dim idx = None \<and> n = 0 then (idx, Ok ())
          else
            (case first_invalid_coord vectors dim of
               Some (vector_index, coord_index, value) \<Rightarrow>
                 (idx, Err (AddInvalidInputValue vector_index coord_index value))
             | None \<Rightarrow>
                 if n = 0 then (idx, Ok ())
                 else if oi_inner idx = None then
                   (case maybe_new_sign A dim (oi_bits idx) (oi_sign_policy idx) of
                      Ok sign \<Rightarrow>
                        oi_append A
                          (idx\<lparr>oi_inner := Some (rq_new A dim (oi_bits idx)), oi_sign := sign,
                               oi_dim := Some dim\<rparr>) vectors
                    | Err _ \<Rightarrow>
                        (idx, Err (AddSignSidecarUnsupported dim (oi_bits idx)
                                     (sign_required_multiple (oi_bits idx))))
                    | Panic \<Rightarrow> (idx, Panic))
                 else oi_append A idx vectors))"

definition oi_swap_remove ::
  "('rq, 'sb) ordvec \<Rightarrow> ('rq, 'sb) ordinal_index \<Rightarrow> nat \<Rightarrow>
     ('rq, 'sb) ordinal_index \<times> ('e, nat) outcome" where
  "oi_swap_remove A idx i =
     (if oi_dim idx = None then (idx, Panic)
      else case oi_inner idx of
        None \<Rightarrow> (idx, Panic)
      | Some r \<Rightarrow>
          (case rq_swap_remove A r i of
             None \<Rightarrow> (idx, Panic)
           | Some (r', moved_from) \<Rightarrow>
               let idx' = idx\<lparr>oi_inner := Some r'\<rparr> in
               (case oi_sign idx of
                  None \<Rightarrow> (idx', Ok moved_from)
                | Some s \<Rightarrow>
                    (case sb_swap_remove A s i of
                       None \<Rightarrow> (idx', Panic)
                     | Some (s', _) \<Rightarrow> (idx'\<lparr>oi_sign := Some s'\<rparr>, Ok moved_from)))))"

definition oi_from_loaded_parts ::
  "('rq, 'sb) ordvec \<Rightarrow> 'rq \<Rightarrow> 'sb option \<Rightarrow> (io_error, ('rq, 'sb) ordinal_index) outcome" where
  "oi_from_loaded_parts A rankquant sign =
     (let dim = rq_dim A rankquant; bits = rq_bits A rankquant in
      obind (map_err (\<lambda>err. io_err InvalidData (show_construct_error err)) (validate_dim_bits dim bits)) (\<lambda>_.
      obind
        (case sign of
           None \<Rightarrow> Ok ()
         | Some s \<Rightarrow>
             if \<not> sign_compatible dim bits then
               Err (io_err InvalidData ''sign sidecar is only valid for bits=2 and dim divisible by 64'')
             else if sb_dim A s \<noteq> dim \<or> sb_len A s \<noteq> rq_len A rankquant then
               Err (io_err InvalidData
                 (''sign sidecar shape mismatch: sign dim='' @ show_nat (sb_dim A s) @ '', len='' @
                  show_nat (sb_len A s) @ '' but RankQuant dim='' @ show_nat dim @ '', len='' @
                  show_nat (rq_len A rankquant)))
             else Ok ()) (\<lambda>_.
      Ok \<lparr>oi_dim = Some dim, oi_bits = bits, oi_inner = Some rankquant, oi_sign = sign,
          oi_sign_policy = SignOptional\<rparr>)))"

text \<open>\<open>inspect\<close> and the report of a bundle write; a path is a string.\<close>

record inspect_report =
  ir_manifest_path :: "string option"
  ir_index_path :: "string option"
  ir_dim :: nat
  ir_bits :: nat
  ir_row_count :: nat
  ir_has_sign :: bool
  ir_has_ids :: bool
  ir_row_identity_kind :: string

definition oi_inspect :: "('rq, 'sb) ordvec \<Rightarrow> ('rq, 'sb) ordinal_index \<Rightarrow> inspect_report" where
  "oi_inspect A idx =
     \<lparr>ir_manifest_path = None, ir_index_path = None, ir_dim = oi_dim_or_zero idx,
      ir_bits = oi_bits idx, ir_row_count = oi_len A idx, ir_has_sign = oi_has_sign_sidecar idx,
      ir_has_ids = False, ir_row_identity_kind = ''row_id_identity''\<rparr>"

section \<open>The invariant and the contents\<close>

text \<open>
  A committed index has a \<open>RankQuant\<close> of its dimension and width, and its sidecar, if there is
  one, has the same dimension and as many rows. A lazy one has neither, and a lazy index that must
  have a sidecar has the one bit width that allows it.
\<close>

definition oi_inv ::
  "('rq, 'sb) ordvec \<Rightarrow> ('rq, 'sb, 'c, 's) reading \<Rightarrow> ('rq, 'sb) ordinal_index \<Rightarrow> bool" where
  "oi_inv A R idx \<longleftrightarrow>
     (oi_bits idx = 1 \<or> oi_bits idx = 2 \<or> oi_bits idx = 4) \<and>
     (case oi_dim idx of
        None \<Rightarrow> oi_inner idx = None \<and> oi_sign idx = None \<and>
          (oi_sign_policy idx = SignRequired \<longrightarrow> oi_bits idx = 2)
      | Some d \<Rightarrow> rankquant_compatible d (oi_bits idx) \<and>
          (\<exists>r. oi_inner idx = Some r \<and> rq_dim A r = d \<and> rq_bits A r = oi_bits idx \<and>
             (case oi_sign idx of
                None \<Rightarrow> True
              | Some s \<Rightarrow> sign_compatible d (oi_bits idx) \<and> sb_dim A s = d \<and>
                  length (rd_srows R s) = length (rd_rows R r))))"

text \<open>The code of each slot: the RankQuant code, with the sign code where there is a sidecar.\<close>

definition oi_content ::
  "('rq, 'sb, 'c, 's) reading \<Rightarrow> ('rq, 'sb) ordinal_index \<Rightarrow> ('c \<times> 's option) list" where
  "oi_content R idx =
     (case oi_inner idx of
        None \<Rightarrow> []
      | Some r \<Rightarrow>
          (case oi_sign idx of
             None \<Rightarrow> map (\<lambda>c. (c, None)) (rd_rows R r)
           | Some s \<Rightarrow> zip (rd_rows R r) (map Some (rd_srows R s))))"

definition oi_code ::
  "('rq, 'sb, 'c, 's) reading \<Rightarrow> ('rq, 'sb) ordinal_index \<Rightarrow> f32 list \<Rightarrow> 'c \<times> 's option" where
  "oi_code R idx v =
     (let d = oi_dim_or_zero idx in
      (rd_enc R d (oi_bits idx) v, if oi_has_sign_sidecar idx then Some (rd_senc R d v) else None))"

definition oi_ok ::
  "('rq, 'sb) ordvec \<Rightarrow> ('rq, 'sb, 'c, 's) reading \<Rightarrow> ('rq, 'sb) ordinal_index \<Rightarrow> bool" where
  "oi_ok A R idx \<longleftrightarrow> ordvec_ok A R \<and> oi_inv A R idx"

lemma oi_ok_ordvec:
  assumes "oi_ok A R idx"
  shows "rankquant_ok A (rd_rows R) (rd_enc R)" and "sign_ok A (rd_srows R) (rd_senc R)"
    and "oi_inv A R idx"
  using assms by (auto simp: oi_ok_def ordvec_ok_def)

lemma oi_inv_lazy:
  "oi_inv A R idx \<Longrightarrow> oi_dim idx = None \<longleftrightarrow> oi_inner idx = None"
  by (auto simp: oi_inv_def split: option.splits)

lemma oi_inv_committed:
  assumes "oi_inv A R idx" and "oi_inner idx = Some r"
  obtains d where "oi_dim idx = Some d" "rankquant_compatible d (oi_bits idx)" "rq_dim A r = d"
    "rq_bits A r = oi_bits idx"
    "\<And>s. oi_sign idx = Some s \<Longrightarrow> sign_compatible d (oi_bits idx) \<and> sb_dim A s = d \<and>
       length (rd_srows R s) = length (rd_rows R r)"
  using assms by (auto simp: oi_inv_def split: option.splits)

lemma oi_content_simps [simp]:
  "oi_content R (idx\<lparr>oi_inner := Some r, oi_sign := None\<rparr>) = map (\<lambda>c. (c, None)) (rd_rows R r)"
  "oi_content R (idx\<lparr>oi_inner := Some r, oi_sign := Some s\<rparr>) =
     zip (rd_rows R r) (map Some (rd_srows R s))"
  by (simp_all add: oi_content_def)

lemma length_oi_content:
  assumes "oi_ok A R idx"
  shows "length (oi_content R idx) = oi_len A idx"
proof (cases "oi_inner idx")
  case (Some r)
  note len = rankquant_len [OF oi_ok_ordvec(1) [OF assms], of r]
  show ?thesis
  proof (cases "oi_sign idx")
    case (Some s)
    have "length (rd_srows R s) = length (rd_rows R r)"
      using oi_inv_committed [OF oi_ok_ordvec(3) [OF assms] \<open>oi_inner idx = Some r\<close>] Some by metis
    then show ?thesis
      using \<open>oi_inner idx = Some r\<close> Some len by (simp add: oi_content_def oi_len_def)
  qed (use Some len in \<open>simp add: oi_content_def oi_len_def\<close>)
qed (simp add: oi_content_def oi_len_def)

text \<open>The state with its codes replaced: what \<open>append\<close> and \<open>swap_remove\<close> build.\<close>

lemma oi_replace_ok:
  assumes ok: "oi_ok A R idx" and r: "oi_inner idx = Some r"
    and r': "rq_dim A r' = rq_dim A r" "rq_bits A r' = rq_bits A r"
    and none: "sg = None \<longleftrightarrow> oi_sign idx = None"
    and sg: "\<And>s s'. oi_sign idx = Some s \<Longrightarrow> sg = Some s' \<Longrightarrow>
       sb_dim A s' = sb_dim A s \<and> length (rd_srows R s') = length (rd_rows R r')"
  shows "oi_ok A R (idx\<lparr>oi_inner := Some r', oi_sign := sg\<rparr>)"
proof -
  obtain d where d: "oi_dim idx = Some d" "rankquant_compatible d (oi_bits idx)" "rq_dim A r = d"
    "rq_bits A r = oi_bits idx"
    and old: "\<And>s. oi_sign idx = Some s \<Longrightarrow> sign_compatible d (oi_bits idx) \<and> sb_dim A s = d \<and>
       length (rd_srows R s) = length (rd_rows R r)"
    using oi_inv_committed [OF oi_ok_ordvec(3) [OF ok] r] by metis
  have "case sg of None \<Rightarrow> True | Some s' \<Rightarrow> sign_compatible d (oi_bits idx) \<and> sb_dim A s' = d \<and>
      length (rd_srows R s') = length (rd_rows R r')"
  proof (cases sg)
    case (Some s')
    then obtain s where s: "oi_sign idx = Some s" using none by (cases "oi_sign idx") auto
    show ?thesis using Some old [OF s] sg [OF s Some] by simp
  qed simp
  then show ?thesis
    using ok d r' compatible_bits [OF d(2)] by (cases sg) (simp_all add: oi_ok_def oi_inv_def)
qed

lemma zip_map_Some: "zip (map f xs) (map (Some \<circ> g) xs) = map (\<lambda>v. (f v, Some (g v))) xs"
  by (induction xs) auto

lemma oi_append_ok:
  assumes ok: "oi_ok A R idx" and r: "oi_inner idx = Some r"
    and rows: "whole_rows (rq_dim A r) vs"
  shows "\<exists>idx'. oi_append A idx vs = (idx', Ok ()) \<and> oi_ok A R idx' \<and>
    oi_dim idx' = oi_dim idx \<and> oi_bits idx' = oi_bits idx \<and>
    oi_has_sign_sidecar idx' = oi_has_sign_sidecar idx \<and>
    oi_content R idx' = oi_content R idx @ map (oi_code R idx') (chunks (rq_dim A r) vs)"
proof -
  obtain d where d: "oi_dim idx = Some d" "rq_dim A r = d" "rq_bits A r = oi_bits idx"
    and old: "\<And>s. oi_sign idx = Some s \<Longrightarrow> sign_compatible d (oi_bits idx) \<and> sb_dim A s = d \<and>
       length (rd_srows R s) = length (rd_rows R r)"
    using oi_inv_committed [OF oi_ok_ordvec(3) [OF ok] r] by metis
  obtain r' where r': "rq_add A r vs = Some r'" "rq_dim A r' = rq_dim A r" "rq_bits A r' = rq_bits A r"
    "rd_rows R r' = rd_rows R r @ map (rd_enc R d (oi_bits idx)) (chunks d vs)"
    using rankquant_add [OF oi_ok_ordvec(1) [OF ok] rows] d by auto
  show ?thesis
  proof (cases "oi_sign idx")
    case None
    let ?idx = "idx\<lparr>oi_inner := Some r', oi_sign := None\<rparr>"
    have upd: "idx\<lparr>oi_inner := Some r'\<rparr> = ?idx" using None by simp
    have "oi_ok A R ?idx" by (rule oi_replace_ok [OF ok r r'(2,3)]) (use None in auto)
    moreover have "oi_append A idx vs = (?idx, Ok ())"
      using r r' None upd by (simp add: oi_append_def Let_def)
    moreover have "oi_code R ?idx = (\<lambda>v. (rd_enc R d (oi_bits idx) v, None))"
      using d by (simp add: oi_code_def oi_dim_or_zero_def oi_has_sign_sidecar_def fun_eq_iff)
    moreover have "oi_content R idx = map (\<lambda>c. (c, None)) (rd_rows R r)"
      using r None by (simp add: oi_content_def)
    ultimately show ?thesis
      using r' d None by (intro exI [of _ ?idx]) (simp add: oi_has_sign_sidecar_def)
  next
    case (Some s)
    note s = old [OF Some]
    with rows d obtain s' where s': "sb_add A s vs = Some s'" "sb_dim A s' = sb_dim A s"
      "rd_srows R s' = rd_srows R s @ map (rd_senc R d) (chunks d vs)"
      using sign_add [OF oi_ok_ordvec(2) [OF ok], of s vs] by auto
    let ?idx = "idx\<lparr>oi_inner := Some r', oi_sign := Some s'\<rparr>"
    have "oi_ok A R ?idx"
      by (rule oi_replace_ok [OF ok r r'(2,3)]) (use Some s s' r' in auto)
    moreover have "oi_append A idx vs = (?idx, Ok ())"
      using r r' Some s' by (simp add: oi_append_def Let_def)
    moreover have "oi_code R ?idx = (\<lambda>v. (rd_enc R d (oi_bits idx) v, Some (rd_senc R d v)))"
      using d by (simp add: oi_code_def oi_dim_or_zero_def oi_has_sign_sidecar_def fun_eq_iff)
    moreover have "oi_content R idx = zip (rd_rows R r) (map Some (rd_srows R s))"
      using r Some by (simp add: oi_content_def)
    moreover have "oi_content R ?idx = oi_content R idx @
        map (\<lambda>v. (rd_enc R d (oi_bits idx) v, Some (rd_senc R d v))) (chunks d vs)"
      using r' s' s r Some by (simp add: oi_content_def zip_map_Some)
    ultimately show ?thesis
      using d Some by (intro exI [of _ ?idx]) (simp add: oi_has_sign_sidecar_def)
  qed
qed

section \<open>Constructors\<close>

lemma maybe_new_sign_Ok:
  "maybe_new_sign A dim bits policy = Ok sign \<longleftrightarrow>
     (policy = SignRequired \<longrightarrow> sign_compatible dim bits) \<and>
     sign = (if policy \<noteq> SignDisabled \<and> sign_compatible dim bits then Some (sb_new A dim) else None)"
  by (cases policy) (auto simp: maybe_new_sign_def Let_def)

lemma maybe_new_sign_not_Panic [simp]: "maybe_new_sign A dim bits policy \<noteq> Panic"
  by (cases policy) (auto simp: maybe_new_sign_def Let_def)

lemma fresh_ok:
  assumes A: "ordvec_ok A R" and c: "rankquant_compatible d b"
    and s: "maybe_new_sign A d b policy = Ok sign"
  shows "oi_ok A R \<lparr>oi_dim = Some d, oi_bits = b, oi_inner = Some (rq_new A d b), oi_sign = sign,
      oi_sign_policy = p\<rparr>"
    and "oi_content R \<lparr>oi_dim = Some d, oi_bits = b, oi_inner = Some (rq_new A d b), oi_sign = sign,
      oi_sign_policy = p\<rparr> = []"
proof -
  have sg: "sign = (if policy \<noteq> SignDisabled \<and> sign_compatible d b then Some (sb_new A d) else None)"
    using s by (simp add: maybe_new_sign_Ok)
  have n: "rq_dim A (rq_new A d b) = d" "rq_bits A (rq_new A d b) = b" "rd_rows R (rq_new A d b) = []"
    using A c by (auto simp: ordvec_ok_def dest: rankquant_new)
  have m: "sb_dim A (sb_new A d) = d \<and> rd_srows R (sb_new A d) = []" if "sign_compatible d b"
    using A that sign_new [of A "rd_srows R" "rd_senc R" d]
    by (auto simp: ordvec_ok_def sign_compatible_iff)
  show "oi_ok A R \<lparr>oi_dim = Some d, oi_bits = b, oi_inner = Some (rq_new A d b), oi_sign = sign,
      oi_sign_policy = p\<rparr>"
    using A c n m compatible_bits [OF c] by (auto simp: sg oi_ok_def oi_inv_def)
  show "oi_content R \<lparr>oi_dim = Some d, oi_bits = b, oi_inner = Some (rq_new A d b), oi_sign = sign,
      oi_sign_policy = p\<rparr> = []"
    using n by (auto simp: oi_content_def split: option.splits)
qed

lemma oi_new_Ok:
  "oi_new_with_build_options A dim bits options = Ok idx \<longleftrightarrow>
     rankquant_compatible dim bits \<and>
     (\<exists>sign. maybe_new_sign A dim bits (build_sign options) = Ok sign \<and>
       idx = \<lparr>oi_dim = Some dim, oi_bits = bits, oi_inner = Some (rq_new A dim bits),
          oi_sign = sign, oi_sign_policy = build_sign options\<rparr>)"
  by (auto simp: oi_new_with_build_options_def outcome_simps compatible_validated validate_dim_bits_Ok)

lemma oi_new_ok:
  assumes "ordvec_ok A R" and "oi_new_with_build_options A dim bits options = Ok idx"
  shows "oi_ok A R idx" and "oi_content R idx = []"
  using assms fresh_ok [OF assms(1)] by (auto simp: oi_new_Ok)

lemma oi_new_lazy_ok:
  assumes "ordvec_ok A R" and "oi_new_lazy_with_build_options bits options = Ok idx"
  shows "oi_ok A R idx" and "oi_content R idx = []"
  using assms
  by (auto simp: oi_new_lazy_with_build_options_def outcome_simps oi_ok_def oi_inv_def
      oi_content_def sign_required_multiple_def split: if_splits)

section \<open>\<open>add_2d\<close>\<close>

text \<open>When a batch is accepted, and what a rejected one leaves.\<close>

definition oi_accepts :: "('rq, 'sb) ordinal_index \<Rightarrow> f32 list \<Rightarrow> nat \<Rightarrow> bool" where
  "oi_accepts idx vectors dim \<longleftrightarrow>
     check_dim_bits dim (oi_bits idx) = Ok () \<and> dim dvd length vectors \<and>
     (oi_dim idx = None \<or> oi_dim idx = Some dim) \<and>
     list_all valid_coord vectors \<and>
     (oi_dim idx = None \<and> vectors \<noteq> [] \<and> oi_sign_policy idx = SignRequired \<longrightarrow>
        sign_compatible dim (oi_bits idx))"

lemma oi_add_2d_reject:
  assumes ok: "oi_ok A R idx" and no: "\<not> oi_accepts idx vectors dim"
  shows "\<exists>e. oi_add_2d A idx vectors dim = (idx, Err e)"
proof (cases "check_dim_bits dim (oi_bits idx)")
  case (Ok u)
  then have v: "validate_add_dim_bits dim (oi_bits idx) = Ok ()" and "2 \<le> dim"
    by (auto simp: check_dim_bits_Ok)
  show ?thesis
  proof (cases "dim dvd length vectors")
    case True
    have n0: "length vectors div dim = 0 \<longleftrightarrow> vectors = []"
      using True \<open>2 \<le> dim\<close> by (auto simp: dvd_def)
    show ?thesis
    proof (cases "oi_dim idx = None \<or> oi_dim idx = Some dim")
      case dims: True
      show ?thesis
      proof (cases "first_invalid_coord vectors dim")
        case None
        then have valid: "list_all valid_coord vectors" by (simp add: first_invalid_None)
        with no Ok True dims have lazy: "oi_dim idx = None" "vectors \<noteq> []"
          "oi_sign_policy idx = SignRequired" "\<not> sign_compatible dim (oi_bits idx)"
          by (auto simp: oi_accepts_def)
        moreover have "oi_inner idx = None"
          using oi_inv_lazy [OF oi_ok_ordvec(3) [OF ok]] lazy by simp
        ultimately show ?thesis
          using v True n0 None
          by (simp add: oi_add_2d_def is_multiple_of_dvd Let_def maybe_new_sign_def)
      next
        case (Some x)
        then have "vectors \<noteq> []"
          using first_invalid_None [of vectors dim] by auto
        then show ?thesis
          using v True dims n0 Some
          by (auto simp: oi_add_2d_def is_multiple_of_dvd Let_def split: prod.splits)
      qed
    next
      case False
      then obtain existing where "oi_dim idx = Some existing" "existing \<noteq> dim"
        by (cases "oi_dim idx") auto
      then show ?thesis using v True by (simp add: oi_add_2d_def is_multiple_of_dvd Let_def)
    qed
  qed (use v in \<open>simp add: oi_add_2d_def is_multiple_of_dvd\<close>)
next
  case (Err e)
  then show ?thesis by (simp add: oi_add_2d_def validate_add_dim_bits_def)
qed simp

lemma oi_add_2d_empty:
  assumes "oi_accepts idx [] dim"
  shows "oi_add_2d A idx [] dim = (idx, Ok ())"
  using assms
  by (auto simp: oi_accepts_def oi_add_2d_def is_multiple_of_dvd Let_def first_invalid_coord_serial
      validate_add_dim_bits_Ok)

lemma oi_add_2d_accept:
  assumes ok: "oi_ok A R idx" and yes: "oi_accepts idx vectors dim" and ne: "vectors \<noteq> []"
  shows "\<exists>idx'. oi_add_2d A idx vectors dim = (idx', Ok ()) \<and> oi_ok A R idx' \<and>
    oi_dim idx' = Some dim \<and> oi_bits idx' = oi_bits idx \<and>
    oi_has_sign_sidecar idx' = (if oi_dim idx = None
       then oi_sign_policy idx \<noteq> SignDisabled \<and> sign_compatible dim (oi_bits idx)
       else oi_has_sign_sidecar idx) \<and>
    oi_content R idx' = oi_content R idx @ map (oi_code R idx') (chunks dim vectors)"
proof -
  have c: "check_dim_bits dim (oi_bits idx) = Ok ()" and dv: "dim dvd length vectors"
    and dims: "oi_dim idx = None \<or> oi_dim idx = Some dim" and valid: "list_all valid_coord vectors"
    using yes by (auto simp: oi_accepts_def)
  have compat: "rankquant_compatible dim (oi_bits idx)"
    using c oi_ok_ordvec(3) [OF ok] by (simp add: compatible_validated oi_inv_def)
  have "0 < dim" using compatible_dim [OF compat] by simp
  then have whole: "whole_rows dim vectors" using dv valid by (simp add: whole_rows_def)
  have n: "length vectors div dim \<noteq> 0"
    using dv ne \<open>0 < dim\<close> by (simp add: div_eq_0_iff dvd_imp_le not_less)
  have none: "first_invalid_coord vectors dim = None"
    using valid by (simp add: first_invalid_None)
  show ?thesis
  proof (cases "oi_inner idx")
    case None
    then have lazy: "oi_dim idx = None"
      using oi_inv_lazy [OF oi_ok_ordvec(3) [OF ok]] by simp
    have empty: "oi_content R idx = []" using None by (simp add: oi_content_def)
    obtain sign where sign: "maybe_new_sign A dim (oi_bits idx) (oi_sign_policy idx) = Ok sign"
      using yes lazy ne by (simp add: maybe_new_sign_Ok oi_accepts_def)
    let ?start = "idx\<lparr>oi_inner := Some (rq_new A dim (oi_bits idx)), oi_sign := sign, oi_dim := Some dim\<rparr>"
    have start_eq: "?start = \<lparr>oi_dim = Some dim, oi_bits = oi_bits idx,
        oi_inner = Some (rq_new A dim (oi_bits idx)), oi_sign = sign, oi_sign_policy = oi_sign_policy idx\<rparr>"
      by simp
    have "ordvec_ok A R" using ok by (simp add: oi_ok_def)
    from fresh_ok [OF this compat sign] have start: "oi_ok A R ?start" "oi_content R ?start = []"
      unfolding start_eq by blast+
    have "rq_dim A (rq_new A dim (oi_bits idx)) = dim"
      using rankquant_new [OF oi_ok_ordvec(1) [OF ok] compat] by simp
    then have new_rows: "whole_rows (rq_dim A (rq_new A dim (oi_bits idx))) vectors"
      and new_dim: "rq_dim A (rq_new A dim (oi_bits idx)) = dim" using whole by simp_all
    have "oi_inner ?start = Some (rq_new A dim (oi_bits idx))" by simp
    from oi_append_ok [OF start(1) this new_rows, where ?'e = add_error]
    obtain idx' where app: "oi_append A ?start vectors = (idx', Ok () :: (add_error, unit) outcome)"
      and idx': "oi_ok A R idx'" "oi_dim idx' = oi_dim ?start" "oi_bits idx' = oi_bits ?start"
        "oi_has_sign_sidecar idx' = oi_has_sign_sidecar ?start"
        "oi_content R idx' = oi_content R ?start @
           map (oi_code R idx') (chunks (rq_dim A (rq_new A dim (oi_bits idx))) vectors)"
      by blast
    have "oi_add_2d A idx vectors dim = oi_append A ?start vectors"
      using c dv n none None lazy sign by (simp add: oi_add_2d_def is_multiple_of_dvd Let_def)
    then have res: "oi_add_2d A idx vectors dim = (idx', Ok ())" using app by (rule trans)
    have hs: "oi_has_sign_sidecar ?start \<longleftrightarrow>
        oi_sign_policy idx \<noteq> SignDisabled \<and> sign_compatible dim (oi_bits idx)"
      using sign by (auto simp: maybe_new_sign_Ok oi_has_sign_sidecar_def)
    have ct: "oi_content R idx' = oi_content R idx @ map (oi_code R idx') (chunks dim vectors)"
      using idx'(5) unfolding new_dim start(2) empty .
    have "oi_dim idx' = Some dim" "oi_bits idx' = oi_bits idx" using idx'(2,3) by simp_all
    then show ?thesis
      using res idx'(1) idx'(4) [unfolded hs] ct lazy by (intro exI [of _ idx'] conjI) simp_all
  next
    case (Some r)
    obtain d where "oi_dim idx = Some d" "rq_dim A r = d"
      using oi_inv_committed [OF oi_ok_ordvec(3) [OF ok] Some] by metis
    with dims have d: "oi_dim idx = Some dim" "rq_dim A r = dim" by simp_all
    have res: "oi_add_2d A idx vectors dim = oi_append A idx vectors"
      using c dv n none Some d by (simp add: oi_add_2d_def is_multiple_of_dvd Let_def)
    have "whole_rows (rq_dim A r) vectors" using whole d by simp
    from oi_append_ok [OF ok Some this] show ?thesis
      unfolding res by (simp add: d)
  qed
qed

lemma oi_add_2d_cases:
  assumes ok: "oi_ok A R idx"
  obtains (reject) e where "\<not> oi_accepts idx vectors dim" "oi_add_2d A idx vectors dim = (idx, Err e)"
  | (accept) idx' where "oi_accepts idx vectors dim" "oi_add_2d A idx vectors dim = (idx', Ok ())"
      "oi_ok A R idx'" "0 < dim" "dim dvd length vectors"
      "oi_content R idx' = oi_content R idx @ map (oi_code R idx') (chunks dim vectors)"
proof (cases "oi_accepts idx vectors dim")
  case True
  then have dv: "0 < dim" "dim dvd length vectors" by (auto simp: oi_accepts_def check_dim_bits_Ok)
  show ?thesis
  proof (cases "vectors = []")
    case True
    with \<open>oi_accepts idx vectors dim\<close> ok dv show ?thesis
      using oi_add_2d_empty [of idx dim A] accept [of idx] by simp
  next
    case False
    then show ?thesis
      using oi_add_2d_accept [OF ok True False] dv True accept by blast
  qed
next
  case False
  then show ?thesis using oi_add_2d_reject [OF ok False] reject by blast
qed

section \<open>\<open>swap_remove\<close> and the loaded parts\<close>

lemma oi_swap_remove_ok:
  assumes ok: "oi_ok A R idx" and i: "i < length (oi_content R idx)"
  shows "\<exists>idx'. oi_swap_remove A idx i = (idx', Ok (length (oi_content R idx) - 1)) \<and> oi_ok A R idx' \<and>
    oi_content R idx' = list_swap_remove (oi_content R idx) i"
proof -
  obtain r where r: "oi_inner idx = Some r"
    using i by (cases "oi_inner idx") (auto simp: oi_content_def)
  obtain d where d: "oi_dim idx = Some d"
    and old: "\<And>s. oi_sign idx = Some s \<Longrightarrow> sign_compatible d (oi_bits idx) \<and> sb_dim A s = d \<and>
       length (rd_srows R s) = length (rd_rows R r)"
    using oi_inv_committed [OF oi_ok_ordvec(3) [OF ok] r] by metis
  have len: "length (oi_content R idx) = length (rd_rows R r)"
    using r old by (cases "oi_sign idx") (auto simp: oi_content_def)
  obtain r' where r': "rq_swap_remove A r i = Some (r', length (rd_rows R r) - 1)"
    "rq_dim A r' = rq_dim A r" "rq_bits A r' = rq_bits A r"
    "rd_rows R r' = list_swap_remove (rd_rows R r) i"
    using rankquant_swap_remove [OF oi_ok_ordvec(1) [OF ok], of i r] i len by auto
  show ?thesis
  proof (cases "oi_sign idx")
    case None
    let ?idx = "idx\<lparr>oi_inner := Some r', oi_sign := None\<rparr>"
    have upd: "idx\<lparr>oi_inner := Some r'\<rparr> = ?idx" using None by simp
    have "oi_ok A R ?idx" by (rule oi_replace_ok [OF ok r r'(2,3)]) (use None in auto)
    moreover have "oi_swap_remove A idx i = (?idx, Ok (length (rd_rows R r) - 1))"
      using r r' d None upd by (simp add: oi_swap_remove_def Let_def)
    moreover have "oi_content R ?idx = list_swap_remove (oi_content R idx) i"
      using r r' None i len by (simp add: oi_content_def map_list_swap_remove)
    ultimately show ?thesis using len by auto
  next
    case (Some s)
    note s = old [OF Some]
    obtain s' where s': "sb_swap_remove A s i = Some (s', length (rd_srows R s) - 1)"
      "sb_dim A s' = sb_dim A s" "rd_srows R s' = list_swap_remove (rd_srows R s) i"
      using sign_swap_remove [OF oi_ok_ordvec(2) [OF ok], of i s] i len s by auto
    let ?idx = "idx\<lparr>oi_inner := Some r', oi_sign := Some s'\<rparr>"
    have "oi_ok A R ?idx"
      by (rule oi_replace_ok [OF ok r r'(2,3)]) (use Some s s' r' in auto)
    moreover have "oi_swap_remove A idx i = (?idx, Ok (length (rd_rows R r) - 1))"
      using r r' d Some s' by (simp add: oi_swap_remove_def Let_def)
    moreover have "oi_content R ?idx = list_swap_remove (oi_content R idx) i"
      using r r' Some s s' i len
      by (simp add: oi_content_def map_list_swap_remove zip_list_swap_remove)
    ultimately show ?thesis using len by auto
  qed
qed

lemma oi_from_loaded_parts_ok:
  assumes A: "ordvec_ok A R" and bits: "rq_bits A rq = 1 \<or> rq_bits A rq = 2 \<or> rq_bits A rq = 4"
    and ld: "oi_from_loaded_parts A rq sign = Ok idx"
  shows "oi_ok A R idx" and "oi_inner idx = Some rq" and "oi_sign idx = sign"
proof -
  have len: "\<And>s. sb_len A s = length (rd_srows R s)" "\<And>r. rq_len A r = length (rd_rows R r)"
    using A sign_len rankquant_len by (auto simp: ordvec_ok_def)
  show "oi_inner idx = Some rq" "oi_sign idx = sign"
    using ld by (auto simp: oi_from_loaded_parts_def Let_def outcome_simps)
  show "oi_ok A R idx"
  proof (cases sign)
    case None
    with ld bits A show ?thesis
      by (auto simp: oi_from_loaded_parts_def Let_def outcome_simps oi_ok_def oi_inv_def compatible_validated
          validate_dim_bits_Ok)
  next
    case (Some s)
    with ld bits A show ?thesis
      by (auto simp: oi_from_loaded_parts_def Let_def outcome_simps oi_ok_def oi_inv_def
          compatible_validated validate_dim_bits_Ok len split: if_splits)
  qed
qed

section \<open>The index as a slot store\<close>

interpretation oi_store: slot_store "oi_ok A R" "oi_content R" "oi_code R" "oi_add_2d A"
    "oi_swap_remove A" for A R
proof
  fix idx vs d idx'
  assume "oi_ok A R idx" and "oi_add_2d A idx vs d = (idx', Ok ())"
  then show "oi_ok A R idx' \<and> 0 < d \<and> d dvd length vs \<and>
      oi_content R idx' = oi_content R idx @ map (oi_code R idx') (chunks d vs)"
    by (cases rule: oi_add_2d_cases [of A R idx vs d]) auto
next
  fix idx vs d idx' e
  assume "oi_ok A R idx" and "oi_add_2d A idx vs d = (idx', Err e)"
  then show "idx' = idx" by (cases rule: oi_add_2d_cases [of A R idx vs d]) auto
next
  fix idx vs d idx'
  assume "oi_ok A R idx"
  then show "oi_add_2d A idx vs d \<noteq> (idx', Panic)"
    by (cases rule: oi_add_2d_cases [of A R idx vs d]) auto
next
  fix idx i
  assume "oi_ok A R idx" and "i < length (oi_content R idx)"
  then show "\<exists>idx'. oi_swap_remove A idx i = (idx', Ok (length (oi_content R idx) - 1)) \<and>
      oi_ok A R idx' \<and> oi_content R idx' = list_swap_remove (oi_content R idx) i"
    by (rule oi_swap_remove_ok)
qed

section \<open>Runs of operations\<close>

text \<open>
  The specification of the index is a list of vectors with the dimension it has committed to. A
  run stops at a panic; a rejected batch leaves the state and the run goes on.
\<close>

datatype oi_op = AddOp "f32 list" nat | RemoveOp nat

fun oi_run ::
  "('rq, 'sb) ordvec \<Rightarrow> ('rq, 'sb) ordinal_index \<Rightarrow> oi_op list \<Rightarrow> ('rq, 'sb) ordinal_index option" where
  "oi_run A idx [] = Some idx"
| "oi_run A idx (AddOp vectors dim # ops) =
     (case oi_add_2d A idx vectors dim of
        (idx', Panic) \<Rightarrow> None
      | (idx', _) \<Rightarrow> oi_run A idx' ops)"
| "oi_run A idx (RemoveOp i # ops) =
     (case oi_swap_remove A idx i of
        (idx', Panic) \<Rightarrow> None
      | (idx', Err (e :: unit)) \<Rightarrow> oi_run A idx' ops
      | (idx', Ok _) \<Rightarrow> oi_run A idx' ops)"

fun vec_run ::
  "nat \<Rightarrow> sign_policy \<Rightarrow> nat option \<times> f32 list list \<Rightarrow> oi_op list \<Rightarrow> (nat option \<times> f32 list list) option" where
  "vec_run bits policy st [] = Some st"
| "vec_run bits policy (d, vs) (AddOp vectors dim # ops) =
     (if rankquant_compatible dim bits \<and> dim dvd length vectors \<and> (d = None \<or> d = Some dim) \<and>
         list_all valid_coord vectors \<and> vectors \<noteq> [] \<and>
         (d = None \<and> policy = SignRequired \<longrightarrow> sign_compatible dim bits)
      then vec_run bits policy (Some dim, vs @ chunks dim vectors) ops
      else vec_run bits policy (d, vs) ops)"
| "vec_run bits policy (d, vs) (RemoveOp i # ops) =
     (if i < length vs then vec_run bits policy (d, list_swap_remove vs i) ops else None)"

definition oi_reflects ::
  "('rq, 'sb) ordvec \<Rightarrow> ('rq, 'sb, 'c, 's) reading \<Rightarrow> ('rq, 'sb) ordinal_index \<Rightarrow>
     nat option \<times> f32 list list \<Rightarrow> bool" where
  "oi_reflects A R idx st \<longleftrightarrow>
     oi_ok A R idx \<and> oi_dim idx = fst st \<and> oi_content R idx = map (oi_code R idx) (snd st)"

lemma oi_code_cong:
  "oi_dim i = oi_dim j \<Longrightarrow> oi_bits i = oi_bits j \<Longrightarrow> oi_has_sign_sidecar i = oi_has_sign_sidecar j \<Longrightarrow>
     oi_code R i = oi_code R j"
  by (simp add: oi_code_def oi_dim_or_zero_def fun_eq_iff Let_def)

lemma oi_swap_remove_frame:
  "oi_swap_remove A idx i = (idx', Ok m) \<Longrightarrow>
     oi_dim idx' = oi_dim idx \<and> oi_bits idx' = oi_bits idx \<and> oi_sign_policy idx' = oi_sign_policy idx \<and>
     oi_has_sign_sidecar idx' = oi_has_sign_sidecar idx"
  by (auto simp: oi_swap_remove_def Let_def oi_has_sign_sidecar_def split: if_splits option.splits)

lemma oi_swap_remove_out:
  assumes ok: "oi_ok A R idx" and i: "length (oi_content R idx) \<le> i"
  shows "\<exists>idx'. oi_swap_remove A idx i = (idx', Panic)"
proof (cases "oi_inner idx")
  case None
  then show ?thesis by (simp add: oi_swap_remove_def)
next
  case (Some r)
  have "length (oi_content R idx) = length (rd_rows R r)"
    using length_oi_content [OF ok] rankquant_len [OF oi_ok_ordvec(1) [OF ok]] Some
    by (simp add: oi_len_def)
  then have "rq_swap_remove A r i = None"
    using rankquant_swap_remove_out [OF oi_ok_ordvec(1) [OF ok], of r i] i by simp
  with Some show ?thesis by (simp add: oi_swap_remove_def)
qed

lemma oi_append_frame:
  "oi_append A idx vs = (idx', Ok ()) \<Longrightarrow> oi_sign_policy idx' = oi_sign_policy idx"
  by (auto simp: oi_append_def Let_def split: if_splits option.splits)

lemma oi_add_2d_frame:
  "oi_add_2d A idx vs d = (idx', Ok ()) \<Longrightarrow> oi_sign_policy idx' = oi_sign_policy idx"
  by (auto simp: oi_add_2d_def Let_def dest!: oi_append_frame
      split: if_splits option.splits outcome.splits)

lemma oi_reflects_remove:
  assumes rf: "oi_reflects A R idx (d, vs)" and i: "i < length vs"
  shows "\<exists>idx'. oi_swap_remove A idx i = (idx', Ok (length vs - 1)) \<and>
    oi_reflects A R idx' (d, list_swap_remove vs i) \<and> oi_bits idx' = oi_bits idx \<and>
    oi_sign_policy idx' = oi_sign_policy idx"
proof -
  have ok: "oi_ok A R idx" and ct: "oi_content R idx = map (oi_code R idx) vs" and d: "oi_dim idx = d"
    using rf by (auto simp: oi_reflects_def)
  have len: "length (oi_content R idx) = length vs" by (simp add: ct)
  from oi_swap_remove_ok [OF ok, of i, where ?'e = 'e] len i obtain idx'
    where sw: "oi_swap_remove A idx i = (idx', (Ok (length vs - 1) :: ('e, nat) outcome))"
      and ok': "oi_ok A R idx'" and ct': "oi_content R idx' = list_swap_remove (oi_content R idx) i"
    by auto
  note fr = oi_swap_remove_frame [OF sw]
  have "oi_code R idx' = oi_code R idx" by (rule oi_code_cong) (use fr in auto)
  then have "oi_reflects A R idx' (d, list_swap_remove vs i)"
    using ok' ct' ct i fr d by (simp add: oi_reflects_def map_list_swap_remove)
  with sw fr show ?thesis by blast
qed

lemma oi_reflects_add:
  assumes rf: "oi_reflects A R idx (d, vs)"
    and yes: "oi_accepts idx vectors dim" and ne: "vectors \<noteq> []"
  shows "\<exists>idx'. oi_add_2d A idx vectors dim = (idx', Ok ()) \<and>
    oi_reflects A R idx' (Some dim, vs @ chunks dim vectors) \<and> oi_bits idx' = oi_bits idx \<and>
    oi_sign_policy idx' = oi_sign_policy idx"
proof -
  have ok: "oi_ok A R idx" and ct: "oi_content R idx = map (oi_code R idx) vs" and d: "oi_dim idx = d"
    using rf by (auto simp: oi_reflects_def)
  obtain idx' where ad: "oi_add_2d A idx vectors dim = (idx', Ok ())" and ok': "oi_ok A R idx'"
    and dim': "oi_dim idx' = Some dim" and bits': "oi_bits idx' = oi_bits idx"
    and hs: "oi_has_sign_sidecar idx' = (if oi_dim idx = None
       then oi_sign_policy idx \<noteq> SignDisabled \<and> sign_compatible dim (oi_bits idx)
       else oi_has_sign_sidecar idx)"
    and ct': "oi_content R idx' = oi_content R idx @ map (oi_code R idx') (chunks dim vectors)"
    using oi_add_2d_accept [OF ok yes ne] by blast
  have "map (oi_code R idx) vs = map (oi_code R idx') vs"
  proof (cases "oi_dim idx")
    case None
    then have "oi_inner idx = None" using oi_inv_lazy [OF oi_ok_ordvec(3) [OF ok]] by simp
    with ct have "vs = []" by (simp add: oi_content_def)
    then show ?thesis by simp
  next
    case (Some x)
    with yes have "x = dim" by (simp add: oi_accepts_def)
    have "oi_code R idx' = oi_code R idx"
      by (rule oi_code_cong) (use Some \<open>x = dim\<close> dim' bits' hs in auto)
    then show ?thesis by simp
  qed
  then have "oi_reflects A R idx' (Some dim, vs @ chunks dim vectors)"
    using ok' dim' ct ct' by (simp add: oi_reflects_def)
  with ad bits' oi_add_2d_frame [OF ad] show ?thesis by blast
qed

lemma oi_accepts_spec:
  assumes rf: "oi_reflects A R idx (d, vs)"
  shows "oi_accepts idx vectors dim \<longleftrightarrow>
    rankquant_compatible dim (oi_bits idx) \<and> dim dvd length vectors \<and> (d = None \<or> d = Some dim) \<and>
    list_all valid_coord vectors \<and>
    (d = None \<and> vectors \<noteq> [] \<and> oi_sign_policy idx = SignRequired \<longrightarrow> sign_compatible dim (oi_bits idx))"
proof -
  have "oi_bits idx = 1 \<or> oi_bits idx = 2 \<or> oi_bits idx = 4" and "oi_dim idx = d"
    using rf by (auto simp: oi_reflects_def oi_ok_def oi_inv_def)
  then show ?thesis by (auto simp: oi_accepts_def compatible_validated)
qed

lemma oi_run_reflects:
  assumes "oi_reflects A R idx st" and "oi_bits idx = bits" and "oi_sign_policy idx = policy"
  shows "(oi_run A idx ops = None \<longleftrightarrow> vec_run bits policy st ops = None) \<and>
    (\<forall>idx'. oi_run A idx ops = Some idx' \<longrightarrow>
       (\<exists>st'. vec_run bits policy st ops = Some st' \<and> oi_reflects A R idx' st'))"
  using assms
proof (induction ops arbitrary: idx st)
  case Nil
  then show ?case by auto
next
  case (Cons op ops)
  obtain d vs where st: "st = (d, vs)" by fastforce
  show ?case
  proof (cases op)
    case (RemoveOp i)
    show ?thesis
    proof (cases "i < length vs")
      case True
      from oi_reflects_remove [OF Cons.prems(1) [unfolded st] True, where ?'e = unit] Cons.IH Cons.prems
      show ?thesis by (auto simp: st RemoveOp True)
    next
      case False
      have ok: "oi_ok A R idx" and "length (oi_content R idx) = length vs"
        using Cons.prems(1) st by (auto simp: oi_reflects_def)
      with False oi_swap_remove_out [OF ok, of i, where ?'e = unit] show ?thesis
        by (auto simp: st RemoveOp)
    qed
  next
    case (AddOp vectors dim)
    note acc = oi_accepts_spec [OF Cons.prems(1) [unfolded st], of vectors dim, unfolded Cons.prems(2,3)]
    show ?thesis
    proof (cases "oi_accepts idx vectors dim")
      case True
      show ?thesis
      proof (cases "vectors = []")
        case True
        with \<open>oi_accepts idx vectors dim\<close> have "oi_add_2d A idx vectors dim = (idx, Ok ())"
          by (simp add: oi_add_2d_empty)
        then show ?thesis using Cons.IH [OF Cons.prems] True by (simp add: st AddOp)
      next
        case False
        from oi_reflects_add [OF Cons.prems(1) [unfolded st] True False] obtain idx'
          where "oi_add_2d A idx vectors dim = (idx', Ok ())"
            "oi_reflects A R idx' (Some dim, vs @ chunks dim vectors)"
            "oi_bits idx' = bits" "oi_sign_policy idx' = policy"
          using Cons.prems by auto
        moreover have "vec_run bits policy st (op # ops) =
            vec_run bits policy (Some dim, vs @ chunks dim vectors) ops"
          using acc True False by (simp add: st AddOp)
        ultimately show ?thesis using Cons.IH by (simp add: AddOp)
      qed
    next
      case False
      from oi_add_2d_reject [OF _ this] obtain e where "oi_add_2d A idx vectors dim = (idx, Err e)"
        using Cons.prems(1) by (auto simp: oi_reflects_def)
      moreover have "vec_run bits policy st (op # ops) = vec_run bits policy st ops"
        using acc False by (auto simp: st AddOp)
      ultimately show ?thesis using Cons.IH [OF Cons.prems] by (simp add: AddOp)
    qed
  qed
qed

section \<open>Properties\<close>

text \<open>An index of dimension 4 at 2 bits over the plain codes, for the examples.\<close>

definition ex_index :: "(plain_rq, plain_sb) ordinal_index" where
  "ex_index = \<lparr>oi_dim = Some 4, oi_bits = 2, oi_inner = Some (4, 2, []), oi_sign = None,
     oi_sign_policy = SignOptional\<rparr>"

definition ones :: "f32 list" where
  "ones = [f32_one, f32_one, f32_one, f32_one]"

lemma compatible_4_2: "rankquant_compatible 4 2"
  by (simp add: compatible_iff rankquant_required_multiple_def validate_bits_def rankquant_moduli_def)

lemma ex_index_new: "oi_new plain_ordvec 4 2 = Ok ex_index"
proof -
  have "\<not> sign_compatible 4 2" by (simp add: sign_compatible_iff)
  then show ?thesis
    using compatible_4_2
    by (simp add: oi_new_def oi_new_Ok maybe_new_sign_Ok build_options_default_def ex_index_def
        plain_ordvec_def)
qed

lemma ex_index_ok: "oi_ok plain_ordvec plain_reading ex_index" "oi_content plain_reading ex_index = []"
  using oi_new_ok [OF plain_ordvec_ok ex_index_new [unfolded oi_new_def]] by simp_all

lemma ones_valid: "list_all valid_coord ones"
  by (simp add: ones_def valid_coord_def f32_is_finite_def f32_lt_def f32_is_nan_def f32_abs_def
      f32_make_def f32_mag_def f32_one_def max_input_magnitude_def f32_key_def f32_neg_def mag_inf_def)

text \<open>
  Input validation of a batch: the parallel sweep over chunks is only a fast path. The
  function reports nothing exactly when every coordinate is finite and below \<open>1e16\<close> in magnitude;
  otherwise it reports the first offender of the flat buffer, by row and coordinate.
\<close>

theorem first_invalid_coord_exact:
  "(case first_invalid_coord values dim of
      None \<Rightarrow> list_all valid_coord values
    | Some (r, c, v) \<Rightarrow>
        \<exists>j<length values. r = j div dim \<and> c = j mod dim \<and> v = values ! j \<and>
          \<not> valid_coord v \<and> list_all valid_coord (take j values))"
proof (cases "find_invalid dim 0 values")
  case None
  then have "list_all valid_coord values" by (simp add: find_invalid_None)
  with None show ?thesis unfolding first_invalid_coord_serial by (simp only: option.case)
next
  case (Some x)
  obtain r c v where "x = (r, c, v)" by (cases x)
  with Some find_invalid_Some [of dim 0 "values" r c v] show ?thesis
    by (simp add: first_invalid_coord_serial)
qed

text \<open>
  The constructor: for every requested shape and build policy it returns an index exactly
  when the preflight helper accepts the shape and a required sidecar can be carried; the index it
  returns is empty, satisfies the invariant, and has a sidecar exactly when the policy allows one
  and the shape supports it. It never panics.
\<close>

theorem oi_new_exact:
  assumes "ordvec_ok A R"
  shows "case oi_new_with_build_options A dim bits options of
      Ok idx \<Rightarrow> rankquant_compatible dim bits \<and>
        (build_sign options = SignRequired \<longrightarrow> sign_compatible dim bits) \<and>
        oi_ok A R idx \<and> oi_content R idx = [] \<and> oi_dim idx = Some dim \<and> oi_bits idx = bits \<and>
        oi_has_sign_sidecar idx = (build_sign options \<noteq> SignDisabled \<and> sign_compatible dim bits)
    | Err e \<Rightarrow> \<not> (rankquant_compatible dim bits \<and>
        (build_sign options = SignRequired \<longrightarrow> sign_compatible dim bits))
    | Panic \<Rightarrow> False"
proof (cases "oi_new_with_build_options A dim bits options")
  case (Ok idx)
  then have "rankquant_compatible dim bits \<and>
      (build_sign options = SignRequired \<longrightarrow> sign_compatible dim bits) \<and>
      oi_dim idx = Some dim \<and> oi_bits idx = bits \<and>
      oi_has_sign_sidecar idx = (build_sign options \<noteq> SignDisabled \<and> sign_compatible dim bits)"
    by (auto simp: oi_new_Ok maybe_new_sign_Ok oi_has_sign_sidecar_def)
  with oi_new_ok [OF assms Ok] Ok show ?thesis by simp
next
  case (Err e)
  have "\<exists>idx. oi_new_with_build_options A dim bits options = Ok idx"
    if "rankquant_compatible dim bits \<and> (build_sign options = SignRequired \<longrightarrow> sign_compatible dim bits)"
    unfolding oi_new_Ok maybe_new_sign_Ok using that by blast
  with Err show ?thesis by auto
next
  case Panic
  then show ?thesis by (simp add: oi_new_with_build_options_def outcome_simps)
qed

theorem oi_new_exact_witness:
  "case oi_new_with_build_options plain_ordvec 64 2 \<lparr>build_sign = SignRequired\<rparr> of
      Ok idx \<Rightarrow> oi_content plain_reading idx = [] \<and> oi_has_sign_sidecar idx
    | Err e \<Rightarrow> False
    | Panic \<Rightarrow> False"
proof -
  have "sign_compatible 64 2" by (simp add: sign_compatible_iff)
  then show ?thesis
    using oi_new_exact [OF plain_ordvec_ok, of 64 2 "\<lparr>build_sign = SignRequired\<rparr>"]
    by (auto simp: sign_compatible_rankquant split: outcome.splits)
qed

text \<open>
  \<open>add_2d\<close> is all or nothing: it accepts exactly the batches whose shape fits the index,
  whose coordinates are valid, and which do not commit a lazy index that must have a sidecar to a
  shape that cannot carry one. An accepted batch appends the code of every row and keeps the
  invariant; a rejected one leaves the index unchanged. It never panics.
\<close>

theorem oi_add_2d_exact:
  assumes "oi_ok A R idx"
  shows "case oi_add_2d A idx vectors dim of
      (idx', Ok _) \<Rightarrow> oi_accepts idx vectors dim \<and> oi_ok A R idx' \<and>
        oi_content R idx' = oi_content R idx @ map (oi_code R idx') (chunks dim vectors)
    | (idx', Err e) \<Rightarrow> \<not> oi_accepts idx vectors dim \<and> idx' = idx
    | (idx', Panic) \<Rightarrow> False"
  by (cases rule: oi_add_2d_cases [OF assms, of vectors dim]) simp_all

theorem oi_add_2d_exact_witness:
  "case oi_add_2d plain_ordvec ex_index (ones @ ones) 4 of
      (idx', Ok _) \<Rightarrow> oi_ok plain_ordvec plain_reading idx' \<and> length (oi_content plain_reading idx') = 2
    | (idx', Err e) \<Rightarrow> False
    | (idx', Panic) \<Rightarrow> False"
proof -
  have len: "length (ones @ ones) = 8" by (simp add: ones_def)
  then have "oi_accepts ex_index (ones @ ones) 4"
    using compatible_4_2 ones_valid
    by (simp add: oi_accepts_def ex_index_def compatible_validated del: length_append)
  moreover have "length (chunks 4 (ones @ ones)) = 2"
    using len by (subst length_chunks) (simp_all del: length_append)
  ultimately show ?thesis
    using oi_add_2d_exact [OF ex_index_ok(1), of "ones @ ones" 4] ex_index_ok(2)
    by (auto split: outcome.splits)
qed

text \<open>
  The panicking \<open>add\<close> of a committed index is \<open>add_2d\<close> at the committed dimension with every
  error turned into a panic: same acceptance, same resulting state.
\<close>

theorem oi_add_is_add_2d:
  assumes "oi_ok A R idx" and "oi_dim idx = Some dim"
  shows "oi_add A idx vectors =
    (case oi_add_2d A idx vectors dim of
       (idx', Ok u) \<Rightarrow> (idx', Ok u)
     | (idx', Err e) \<Rightarrow> (idx, Panic)
     | (idx', Panic) \<Rightarrow> (idx', Panic :: (add_error, unit) outcome))"
proof -
  obtain r where r: "oi_inner idx = Some r"
    using oi_inv_lazy [OF oi_ok_ordvec(3) [OF assms(1)]] assms(2) by (cases "oi_inner idx") auto
  have c: "rankquant_compatible dim (oi_bits idx)"
    using oi_inv_committed [OF oi_ok_ordvec(3) [OF assms(1)] r] assms(2) by (metis option.inject)
  then have d: "0 < dim" and ch: "check_dim_bits dim (oi_bits idx) = Ok ()"
    using compatible_dim [OF c] by (auto simp: compatible_validated)
  have whole: "length vectors = length vectors div dim * dim \<longleftrightarrow> dim dvd length vectors"
    by (metis dvd_div_mult_self dvd_triv_right)
  have zero: "length vectors div dim = 0 \<Longrightarrow> dim dvd length vectors \<Longrightarrow> vectors = []"
    using d by (auto simp: dvd_def)
  show ?thesis
  proof (cases "dim dvd length vectors")
    case True
    show ?thesis
    proof (cases "vectors = []")
      case True
      then show ?thesis
        using assms(2) d ch r
        by (simp add: oi_add_def oi_add_2d_def Let_def is_multiple_of_dvd first_invalid_coord_serial)
    next
      case False
      with zero True have n: "length vectors div dim \<noteq> 0" by auto
      show ?thesis
      proof (cases "first_invalid_coord vectors dim")
        case None
        obtain idx' res where ap: "oi_append A idx vectors = (idx', res :: (add_error, unit) outcome)"
          by (cases "oi_append A idx vectors :: _ \<times> (add_error, unit) outcome")
        have "whole_rows (rq_dim A r) vectors"
          using True None d oi_inv_committed [OF oi_ok_ordvec(3) [OF assms(1)] r] assms(2)
          by (auto simp: whole_rows_def first_invalid_None)
        from oi_append_ok [OF assms(1) r this, where ?'e = add_error] ap have "res = Ok ()" by auto
        with ap show ?thesis
          using assms(2) d ch r True n None whole
          by (simp add: oi_add_def oi_add_2d_def Let_def is_multiple_of_dvd assert_valid_values_def)
      next
        case (Some x)
        obtain a b v where "x = (a, b, v)" by (cases x)
        then show ?thesis
          using assms(2) d ch r True n Some whole
          by (simp add: oi_add_def oi_add_2d_def Let_def is_multiple_of_dvd assert_valid_values_def)
      qed
    qed
  next
    case False
    then show ?thesis
      using assms(2) d ch whole
      by (simp add: oi_add_def oi_add_2d_def Let_def is_multiple_of_dvd)
  qed
qed

theorem oi_add_is_add_2d_witness:
  "oi_add plain_ordvec ex_index [f32_one] = (ex_index, Panic :: (add_error, unit) outcome)"
  using oi_add_is_add_2d [OF ex_index_ok(1), of 4 "[f32_one]"]
  by (simp add: ex_index_def oi_add_2d_def is_multiple_of_def check_dim_bits_def rankquant_moduli_def
      u16_max_def)

text \<open>
  C1. Refinement: from construction on, through any run of \<open>add_2d\<close> and \<open>swap_remove\<close> calls with
  accepted and rejected batches in any order, the index is the list of vectors that the abstract
  run keeps. It panics exactly where the abstract run does, at a removal out of range, and every
  slot holds the RankQuant code, and with a sidecar also the sign code, of that slot's vector.
\<close>

theorem oi_runs_refine_vectors:
  assumes "ordvec_ok A R" and "oi_new_lazy_with_build_options bits options = Ok idx"
  shows "case oi_run A idx ops of
      None \<Rightarrow> vec_run bits (build_sign options) (None, []) ops = None
    | Some idx' \<Rightarrow> (\<exists>st'. vec_run bits (build_sign options) (None, []) ops = Some st' \<and>
        oi_reflects A R idx' st')"
proof -
  have "oi_dim idx = None" "oi_bits idx = bits" "oi_sign_policy idx = build_sign options"
    using assms(2) by (auto simp: oi_new_lazy_with_build_options_def outcome_simps split: if_splits)
  moreover have "oi_reflects A R idx (None, [])"
    using oi_new_lazy_ok [OF assms] calculation by (simp add: oi_reflects_def)
  ultimately show ?thesis
    using oi_run_reflects [of A R idx "(None, [])" bits "build_sign options" ops]
    by (auto split: option.splits)
qed

theorem oi_runs_refine_vectors_witness:
  "case oi_run plain_ordvec
      \<lparr>oi_dim = None, oi_bits = 2, oi_inner = None, oi_sign = None, oi_sign_policy = SignOptional\<rparr>
      [AddOp [] 4, RemoveOp 0] of
    None \<Rightarrow> True | Some idx' \<Rightarrow> False"
proof -
  have "oi_new_lazy_with_build_options 2 build_options_default =
      Ok (\<lparr>oi_dim = None, oi_bits = 2, oi_inner = None, oi_sign = None,
        oi_sign_policy = SignOptional\<rparr> :: (plain_rq, plain_sb) ordinal_index)"
    by (simp add: oi_new_lazy_with_build_options_def build_options_default_def validate_bits_def)
  from oi_runs_refine_vectors [OF plain_ordvec_ok this, of "[AddOp [] 4, RemoveOp 0]"] show ?thesis
    by (simp split: option.splits)
qed

text \<open>
  C29. An empty batch is not always a no-op: on an index committed to another dimension \<open>add_2d\<close>
  answers with \<open>DimMismatch\<close>, although its documentation promises \<open>Ok(())\<close> for every empty batch.
\<close>

theorem empty_batch_dim_mismatch:
  assumes "oi_dim idx = Some existing" and "existing \<noteq> dim"
    and "rankquant_compatible dim (oi_bits idx)"
  shows "oi_add_2d A idx [] dim = (idx, Err (AddDimMismatch existing dim))"
  using assms by (simp add: oi_add_2d_def compatible_validated is_multiple_of_dvd Let_def)

theorem empty_batch_dim_mismatch_witness:
  "oi_add_2d plain_ordvec ex_index [] 8 = (ex_index, Err (AddDimMismatch 4 8))"
  by (rule empty_batch_dim_mismatch)
    (simp_all add: ex_index_def compatible_iff rankquant_required_multiple_def validate_bits_def
      rankquant_moduli_def)

end
