(* ===== verification/IdMapIndex.thy ===== *)
theory IdMapIndex
  imports OrdinalIndex
begin

text \<open>
  The dense index with external IDs (\<open>IdMapIndex\<close> in \<open>ordinaldb/src/id_map.rs\<close>): the table from
  slots to IDs and its inverse, kept beside an \<open>OrdinalIndex\<close>. The \<open>HashMap\<close> is a partial
  function; its iteration order is never used. The debug assertions of \<open>remove\<close> are modelled as
  panics, so that the proof that \<open>remove\<close> never panics covers them.
\<close>

record ('rq, 'sb) id_map_index =
  im_inner :: "('rq, 'sb) ordinal_index"
  im_slot_to_id :: "u64 list"
  im_id_to_slot :: "u64 \<Rightarrow> nat option"

section \<open>Operations\<close>

definition im_empty :: "('rq, 'sb) ordinal_index \<Rightarrow> ('rq, 'sb) id_map_index" where
  "im_empty inner = \<lparr>im_inner = inner, im_slot_to_id = [], im_id_to_slot = (\<lambda>_. None)\<rparr>"

definition im_new_with_build_options ::
  "('rq, 'sb) ordvec \<Rightarrow> nat \<Rightarrow> nat \<Rightarrow> build_options \<Rightarrow>
     (construct_error, ('rq, 'sb) id_map_index) outcome" where
  "im_new_with_build_options A dim bits options =
     obind (oi_new_with_build_options A dim bits options) (\<lambda>inner. Ok (im_empty inner))"

definition im_new ::
  "('rq, 'sb) ordvec \<Rightarrow> nat \<Rightarrow> nat \<Rightarrow> (construct_error, ('rq, 'sb) id_map_index) outcome" where
  "im_new A dim bits = im_new_with_build_options A dim bits build_options_default"

definition im_new_lazy_with_build_options ::
  "nat \<Rightarrow> build_options \<Rightarrow> (construct_error, ('rq, 'sb) id_map_index) outcome" where
  "im_new_lazy_with_build_options bits options =
     obind (oi_new_lazy_with_build_options bits options) (\<lambda>inner. Ok (im_empty inner))"

definition im_new_lazy :: "nat \<Rightarrow> (construct_error, ('rq, 'sb) id_map_index) outcome" where
  "im_new_lazy bits = im_new_lazy_with_build_options bits build_options_default"

definition im_len :: "('rq, 'sb) id_map_index \<Rightarrow> nat" where
  "im_len idx = length (im_slot_to_id idx)"

definition im_is_empty :: "('rq, 'sb) id_map_index \<Rightarrow> bool" where
  "im_is_empty idx \<longleftrightarrow> im_len idx = 0"

definition im_contains :: "('rq, 'sb) id_map_index \<Rightarrow> u64 \<Rightarrow> bool" where
  "im_contains idx row_id \<longleftrightarrow> im_id_to_slot idx row_id \<noteq> None"

text \<open>The loop over the IDs of a batch: the first one already stored or repeated.\<close>

fun first_clash :: "(u64 \<Rightarrow> nat option) \<Rightarrow> u64 set \<Rightarrow> u64 list \<Rightarrow> u64 option" where
  "first_clash id_to_slot batch_ids [] = None"
| "first_clash id_to_slot batch_ids (row_id # ids) =
     (if id_to_slot row_id \<noteq> None \<or> row_id \<in> batch_ids then Some row_id
      else first_clash id_to_slot (insert row_id batch_ids) ids)"

fun insert_slots :: "(u64 \<Rightarrow> nat option) \<Rightarrow> nat \<Rightarrow> u64 list \<Rightarrow> (u64 \<Rightarrow> nat option)" where
  "insert_slots m slot [] = m"
| "insert_slots m slot (row_id # ids) = insert_slots (m(row_id \<mapsto> slot)) (slot + 1) ids"

definition im_add_with_ids_2d ::
  "('rq, 'sb) ordvec \<Rightarrow> ('rq, 'sb) id_map_index \<Rightarrow> f32 list \<Rightarrow> nat \<Rightarrow> u64 list \<Rightarrow>
     ('rq, 'sb) id_map_index \<times> (add_error, unit) outcome" where
  "im_add_with_ids_2d A idx vectors dim ids =
     (if dim < 2 \<or> u16_max < dim then (idx, Err (AddDimInvalid dim))
      else if \<not> is_multiple_of (length vectors) dim then
        (idx, Err (AddVectorBufferNotMultipleOfDim (length vectors) dim))
      else let row_count = length vectors div dim in
        if length ids \<noteq> row_count then (idx, Err (AddIdsCountMismatch row_count (length ids)))
        else case first_clash (im_id_to_slot idx) {} ids of
          Some row_id \<Rightarrow> (idx, Err (AddIdAlreadyPresent row_id))
        | None \<Rightarrow>
            if row_count = 0 then (idx, Ok ())
            else let first_new_slot = oi_len A (im_inner idx) in
              case oi_add_2d A (im_inner idx) vectors dim of
                (inner', Err e) \<Rightarrow> (idx\<lparr>im_inner := inner'\<rparr>, Err e)
              | (inner', Panic) \<Rightarrow> (idx\<lparr>im_inner := inner'\<rparr>, Panic)
              | (inner', Ok _) \<Rightarrow>
                  (\<lparr>im_inner = inner', im_slot_to_id = im_slot_to_id idx @ ids,
                    im_id_to_slot = insert_slots (im_id_to_slot idx) first_new_slot ids\<rparr>, Ok ()))"

definition im_add_with_ids ::
  "('rq, 'sb) ordvec \<Rightarrow> ('rq, 'sb) id_map_index \<Rightarrow> f32 list \<Rightarrow> u64 list \<Rightarrow>
     ('rq, 'sb) id_map_index \<times> (add_error, unit) outcome" where
  "im_add_with_ids A idx vectors ids =
     (case oi_dim (im_inner idx) of
        None \<Rightarrow> (idx, Panic)
      | Some dim \<Rightarrow> im_add_with_ids_2d A idx vectors dim ids)"

definition im_remove ::
  "('rq, 'sb) ordvec \<Rightarrow> ('rq, 'sb) id_map_index \<Rightarrow> u64 \<Rightarrow>
     ('rq, 'sb) id_map_index \<times> (unit, bool) outcome" where
  "im_remove A idx row_id =
     (case im_id_to_slot idx row_id of
        None \<Rightarrow> (idx, Ok False)
      | Some slot \<Rightarrow>
          let m = (im_id_to_slot idx)(row_id := None) in
          case oi_swap_remove A (im_inner idx) slot of
            (inner', Panic) \<Rightarrow> (idx\<lparr>im_inner := inner', im_id_to_slot := m\<rparr>, Panic)
          | (inner', Err e) \<Rightarrow> (idx\<lparr>im_inner := inner', im_id_to_slot := m\<rparr>, Err e)
          | (inner', Ok backfilled_from) \<Rightarrow>
              let idx1 = idx\<lparr>im_inner := inner', im_id_to_slot := m\<rparr> in
              if backfilled_from \<noteq> length (im_slot_to_id idx) - 1 then (idx1, Panic)
              else case vec_swap_remove (im_slot_to_id idx) slot of
                Panic \<Rightarrow> (idx1, Panic)
              | Err e \<Rightarrow> (idx1, Err e)
              | Ok (ids', evicted) \<Rightarrow>
                  if evicted \<noteq> row_id then (idx1\<lparr>im_slot_to_id := ids'\<rparr>, Panic)
                  else (idx1\<lparr>im_slot_to_id := ids',
                             im_id_to_slot := (if slot < length ids' then m(ids' ! slot \<mapsto> slot) else m)\<rparr>,
                        Ok True))"

text \<open>\<open>HashMap::insert(..).is_some()\<close> in the loop over the loaded IDs.\<close>

fun index_ids :: "(u64 \<Rightarrow> nat option) \<Rightarrow> nat \<Rightarrow> u64 list \<Rightarrow> (io_error, u64 \<Rightarrow> nat option) outcome" where
  "index_ids m slot [] = Ok m"
| "index_ids m slot (row_id # ids) =
     (if m row_id \<noteq> None then
        Err (io_err InvalidData (''duplicate ID '' @ show_u64 row_id @ '' in persisted ID sidecar''))
      else index_ids (m(row_id \<mapsto> slot)) (slot + 1) ids)"

definition im_from_loaded_parts ::
  "('rq, 'sb) ordvec \<Rightarrow> ('rq, 'sb) ordinal_index \<Rightarrow> u64 list \<Rightarrow>
     (io_error, ('rq, 'sb) id_map_index) outcome" where
  "im_from_loaded_parts A inner slot_to_id =
     (if oi_len A inner \<noteq> length slot_to_id then
        Err (io_err InvalidData
          (''ID sidecar count '' @ show_nat (length slot_to_id) @ '' does not match index len '' @
           show_nat (oi_len A inner)))
      else obind (index_ids (\<lambda>_. None) 0 slot_to_id) (\<lambda>m.
        Ok \<lparr>im_inner = inner, im_slot_to_id = slot_to_id, im_id_to_slot = m\<rparr>))"

definition im_inspect :: "('rq, 'sb) id_map_index \<Rightarrow> inspect_report" where
  "im_inspect idx =
     \<lparr>ir_manifest_path = None, ir_index_path = None, ir_dim = oi_dim_or_zero (im_inner idx),
      ir_bits = oi_bits (im_inner idx), ir_row_count = im_len idx,
      ir_has_sign = oi_has_sign_sidecar (im_inner idx), ir_has_ids = True,
      ir_row_identity_kind = ''row_id_identity''\<rparr>"

section \<open>The invariant and the map it stands for\<close>

text \<open>The two tables are inverse to each other, and there is one ID per slot.\<close>

definition tables_inverse :: "u64 list \<Rightarrow> (u64 \<Rightarrow> nat option) \<Rightarrow> bool" where
  "tables_inverse ids m \<longleftrightarrow>
     distinct ids \<and> (\<forall>x i. m x = Some i \<longleftrightarrow> i < length ids \<and> ids ! i = x)"

definition im_ok ::
  "('rq, 'sb) ordvec \<Rightarrow> ('rq, 'sb, 'c, 's) reading \<Rightarrow> ('rq, 'sb) id_map_index \<Rightarrow> bool" where
  "im_ok A R idx \<longleftrightarrow>
     oi_ok A R (im_inner idx) \<and> length (im_slot_to_id idx) = length (oi_content R (im_inner idx)) \<and>
     tables_inverse (im_slot_to_id idx) (im_id_to_slot idx)"

definition im_map ::
  "('rq, 'sb, 'c, 's) reading \<Rightarrow> ('rq, 'sb) id_map_index \<Rightarrow> u64 \<Rightarrow> ('c \<times> 's option) option" where
  "im_map R idx = map_of (zip (im_slot_to_id idx) (oi_content R (im_inner idx)))"

lemma first_clash_None:
  "first_clash m seen ids = None \<longleftrightarrow>
     distinct ids \<and> set ids \<inter> seen = {} \<and> (\<forall>x\<in>set ids. m x = None)"
  by (induction ids arbitrary: seen) auto

lemma first_clash_Some: "first_clash m seen ids = Some x \<Longrightarrow> x \<in> set ids"
  by (induction ids arbitrary: seen) (auto split: if_splits)

lemma insert_slots_other: "x \<notin> set ids \<Longrightarrow> insert_slots m slot ids x = m x"
  by (induction ids arbitrary: m slot) auto

lemma insert_slots_nth:
  "distinct ids \<Longrightarrow> i < length ids \<Longrightarrow> insert_slots m slot ids (ids ! i) = Some (slot + i)"
proof (induction ids arbitrary: m slot i)
  case (Cons y ys)
  then show ?case by (cases i) (auto simp: insert_slots_other)
qed simp

lemma tables_inverse_append:
  assumes inv: "tables_inverse ids m" and new: "distinct new" "\<forall>x\<in>set new. m x = None"
  shows "tables_inverse (ids @ new) (insert_slots m (length ids) new)"
proof -
  have m: "\<And>x i. m x = Some i \<longleftrightarrow> i < length ids \<and> ids ! i = x" and d: "distinct ids"
    using inv by (auto simp: tables_inverse_def)
  have dom: "m x = None \<longleftrightarrow> x \<notin> set ids" for x
    by (metis m in_set_conv_nth not_None_eq)
  have dis: "distinct (ids @ new)" using d new dom by auto
  show ?thesis
    unfolding tables_inverse_def
  proof (intro conjI allI)
    fix x i
    show "insert_slots m (length ids) new x = Some i \<longleftrightarrow> i < length (ids @ new) \<and> (ids @ new) ! i = x"
    proof (cases "x \<in> set new")
      case True
      then obtain j where j: "j < length new" "x = new ! j" by (metis in_set_conv_nth)
      have "insert_slots m (length ids) new x = Some (length ids + j)"
        using new j by (simp add: insert_slots_nth)
      moreover have "(ids @ new) ! i = x \<longleftrightarrow> i = length ids + j" if "i < length (ids @ new)"
        using nth_eq_iff_index_eq [OF dis that, of "length ids + j"] j by simp
      ultimately show ?thesis using j by auto
    next
      case False
      then have "insert_slots m (length ids) new x = m x"
        using new by (simp add: insert_slots_other)
      then show ?thesis using False m by (auto simp: nth_append)
    qed
  qed (rule dis)
qed

lemma tables_inverse_swap_remove:
  assumes inv: "tables_inverse ids m" and slot: "m row_id = Some slot"
  shows "tables_inverse (list_swap_remove ids slot)
    (if slot < length ids - 1 then (m(row_id := None))(list_swap_remove ids slot ! slot \<mapsto> slot)
     else m(row_id := None))"
proof -
  have m: "\<And>x i. m x = Some i \<longleftrightarrow> i < length ids \<and> ids ! i = x" and d: "distinct ids"
    using inv by (auto simp: tables_inverse_def)
  have s: "slot < length ids" "ids ! slot = row_id" using slot m by auto
  have dn: "ids ! a = ids ! b \<longleftrightarrow> a = b" if "a < length ids" "b < length ids" for a b
    using that d by (simp add: nth_eq_iff_index_eq)
  have last: "last ids = ids ! (length ids - 1)"
    using s(1) by (metis last_conv_nth length_0_conv not_less_zero)
  have nth: "list_swap_remove ids slot ! j = (if j = slot then ids ! (length ids - 1) else ids ! j)"
    if "j < length ids - 1" for j
    using that s last by (simp add: nth_list_swap_remove)
  show ?thesis
    unfolding tables_inverse_def
  proof (intro conjI allI)
    show "distinct (list_swap_remove ids slot)"
      using d s by (simp add: distinct_list_swap_remove)
    fix x i
    show "(if slot < length ids - 1 then (m(row_id := None))(list_swap_remove ids slot ! slot \<mapsto> slot)
        else m(row_id := None)) x = Some i \<longleftrightarrow>
      i < length (list_swap_remove ids slot) \<and> list_swap_remove ids slot ! i = x"
    proof (cases "slot < length ids - 1")
      case True
      then show ?thesis
        using m s dn nth by (auto simp: nth split: if_splits)
    next
      case False
      then have "slot = length ids - 1" using s by simp
      then show ?thesis
        using m s dn nth by (auto simp: nth)
    qed
  qed
qed

lemma index_ids_Ok:
  "index_ids m slot ids = Ok m' \<longleftrightarrow>
     distinct ids \<and> (\<forall>x\<in>set ids. m x = None) \<and> m' = insert_slots m slot ids"
proof (induction ids arbitrary: m slot)
  case (Cons y ys)
  have "(\<forall>x\<in>set ys. (m(y \<mapsto> slot)) x = None) \<longleftrightarrow> y \<notin> set ys \<and> (\<forall>x\<in>set ys. m x = None)"
    by auto
  then show ?case using Cons.IH [of "m(y \<mapsto> slot)" "slot + 1"] by (auto simp del: fun_upd_apply)
qed auto

lemma index_ids_not_Panic: "index_ids m slot ids \<noteq> Panic"
  by (induction ids arbitrary: m slot) (auto simp del: fun_upd_apply)

section \<open>Adding rows\<close>

text \<open>When a batch is accepted.\<close>

definition im_accepts ::
  "('rq, 'sb) id_map_index \<Rightarrow> f32 list \<Rightarrow> nat \<Rightarrow> u64 list \<Rightarrow> bool" where
  "im_accepts idx vectors dim ids \<longleftrightarrow>
     2 \<le> dim \<and> dim \<le> u16_max \<and> dim dvd length vectors \<and> length ids = length vectors div dim \<and>
     distinct ids \<and> set ids \<inter> set (im_slot_to_id idx) = {} \<and>
     (vectors \<noteq> [] \<longrightarrow> oi_accepts (im_inner idx) vectors dim)"

lemma im_ok_parts:
  assumes "im_ok A R idx"
  shows "oi_ok A R (im_inner idx)" and "length (im_slot_to_id idx) = length (oi_content R (im_inner idx))"
    and "tables_inverse (im_slot_to_id idx) (im_id_to_slot idx)" and "distinct (im_slot_to_id idx)"
  using assms by (auto simp: im_ok_def tables_inverse_def)

lemma im_lookup_None:
  "im_ok A R idx \<Longrightarrow> im_id_to_slot idx x = None \<longleftrightarrow> x \<notin> set (im_slot_to_id idx)"
  unfolding im_ok_def tables_inverse_def by (metis in_set_conv_nth not_None_eq)

lemma div_zero_iff_Nil: "0 < d \<Longrightarrow> d dvd length xs \<Longrightarrow> length xs div d = 0 \<longleftrightarrow> xs = []"
  by (auto simp: dvd_def)

lemma im_add_reject:
  assumes ok: "im_ok A R idx" and no: "\<not> im_accepts idx vectors dim ids"
  shows "\<exists>e. im_add_with_ids_2d A idx vectors dim ids = (idx, Err e)"
proof (cases "2 \<le> dim \<and> dim \<le> u16_max \<and> dim dvd length vectors \<and> length ids = length vectors div dim")
  case shape: True
  show ?thesis
  proof (cases "first_clash (im_id_to_slot idx) {} ids")
    case None
    then have "distinct ids \<and> set ids \<inter> set (im_slot_to_id idx) = {}"
      using im_lookup_None [OF ok] by (auto simp: first_clash_None)
    with no shape have rej: "vectors \<noteq> []" "\<not> oi_accepts (im_inner idx) vectors dim"
      by (auto simp: im_accepts_def)
    from oi_add_2d_reject [OF im_ok_parts(1) [OF ok] rej(2)] obtain e
      where "oi_add_2d A (im_inner idx) vectors dim = (im_inner idx, Err e)" by auto
    moreover have "length vectors div dim \<noteq> 0"
      using shape rej(1) div_zero_iff_Nil [of dim vectors] by simp
    ultimately show ?thesis
      using shape None
      by (simp add: im_add_with_ids_2d_def is_multiple_of_dvd not_less Let_def)
  next
    case (Some x)
    then show ?thesis
      using shape by (simp add: im_add_with_ids_2d_def is_multiple_of_dvd not_less Let_def)
  qed
qed (auto simp: im_add_with_ids_2d_def is_multiple_of_dvd not_less Let_def)

lemma im_add_accept:
  assumes ok: "im_ok A R idx" and yes: "im_accepts idx vectors dim ids"
  shows "\<exists>idx'. im_add_with_ids_2d A idx vectors dim ids = (idx', Ok ()) \<and> im_ok A R idx' \<and>
    im_slot_to_id idx' = im_slot_to_id idx @ ids \<and>
    (if vectors = [] then idx' = idx
     else oi_add_2d A (im_inner idx) vectors dim = (im_inner idx', Ok ())) \<and>
    im_map R idx' = im_map R idx ++ map_of (zip ids (map (oi_code R (im_inner idx')) (chunks dim vectors)))"
proof -
  have shape: "2 \<le> dim" "dim \<le> u16_max" "dim dvd length vectors" "length ids = length vectors div dim"
    and ids: "distinct ids" "set ids \<inter> set (im_slot_to_id idx) = {}"
    using yes by (auto simp: im_accepts_def)
  have clash: "first_clash (im_id_to_slot idx) {} ids = None"
    using ids im_lookup_None [OF ok] by (auto simp: first_clash_None)
  note parts = im_ok_parts [OF ok]
  show ?thesis
  proof (cases "vectors = []")
    case True
    then have "im_add_with_ids_2d A idx vectors dim ids = (idx, Ok ())" and "ids = []"
      using shape clash by (simp_all add: im_add_with_ids_2d_def is_multiple_of_dvd not_less Let_def)
    then show ?thesis using ok True by simp
  next
    case False
    have acc: "oi_accepts (im_inner idx) vectors dim" using yes False by (simp add: im_accepts_def)
    obtain inner' where ad: "oi_add_2d A (im_inner idx) vectors dim = (inner', Ok ())"
      using oi_add_2d_accept [OF parts(1) acc False] by blast
    note st = oi_store.add_Ok [OF parts(1) ad]
    define idx' where "idx' = \<lparr>im_inner = inner', im_slot_to_id = im_slot_to_id idx @ ids,
      im_id_to_slot = insert_slots (im_id_to_slot idx) (length (im_slot_to_id idx)) ids\<rparr>"
    have first: "oi_len A (im_inner idx) = length (im_slot_to_id idx)"
      using length_oi_content [OF parts(1)] parts(2) by simp
    have "length vectors div dim \<noteq> 0"
      using shape False div_zero_iff_Nil [of dim vectors] by simp
    then have "im_add_with_ids_2d A idx vectors dim ids = (idx', Ok ())"
      using shape clash ad
      by (simp add: im_add_with_ids_2d_def is_multiple_of_dvd not_less Let_def idx'_def first)
    moreover have "im_ok A R idx'"
    proof -
      have "\<forall>x\<in>set ids. im_id_to_slot idx x = None"
        using ids im_lookup_None [OF ok] by auto
      then have "tables_inverse (im_slot_to_id idx') (im_id_to_slot idx')"
        using tables_inverse_append [OF parts(3) ids(1)] by (simp add: idx'_def)
      then show ?thesis
        using st parts(2) shape by (simp add: im_ok_def idx'_def length_chunks)
    qed
    moreover have "im_map R idx' = im_map R idx ++
        map_of (zip ids (map (oi_code R (im_inner idx')) (chunks dim vectors)))"
    proof -
      have "distinct (im_slot_to_id idx @ ids)" using parts(4) ids by auto
      from oi_store.lookup_add [OF parts(1) ad parts(2) shape(4) this] show ?thesis
        by (simp add: im_map_def idx'_def)
    qed
    ultimately show ?thesis using ad False by (intro exI [of _ idx']) (simp add: idx'_def)
  qed
qed

section \<open>Removing a row\<close>

lemma im_remove_absent:
  assumes "im_ok A R idx" and "x \<notin> set (im_slot_to_id idx)"
  shows "im_remove A idx x = (idx, Ok False)"
  using assms im_lookup_None [OF assms(1), of x] by (simp add: im_remove_def)

lemma im_remove_present:
  assumes ok: "im_ok A R idx" and x: "x \<in> set (im_slot_to_id idx)"
  shows "\<exists>idx' slot. im_remove A idx x = (idx', Ok True) \<and> im_ok A R idx' \<and>
    im_map R idx' = (im_map R idx)(x := None) \<and>
    im_slot_to_id idx' = list_swap_remove (im_slot_to_id idx) slot \<and>
    set (im_slot_to_id idx') = set (im_slot_to_id idx) - {x} \<and>
    oi_swap_remove A (im_inner idx) slot =
      (im_inner idx', Ok (length (im_slot_to_id idx) - 1) :: (unit, nat) outcome)"
proof -
  note parts = im_ok_parts [OF ok]
  obtain slot where slot: "im_id_to_slot idx x = Some slot"
    using x im_lookup_None [OF ok, of x] by auto
  then have s: "slot < length (im_slot_to_id idx)" "im_slot_to_id idx ! slot = x"
    using parts(3) by (auto simp: tables_inverse_def)
  from s(1) parts(2) have "slot < length (oi_content R (im_inner idx))" by simp
  from oi_store.swap_Ok [OF parts(1) this] obtain inner'
    where sw: "oi_swap_remove A (im_inner idx) slot =
        (inner', (Ok (length (im_slot_to_id idx) - 1) :: (unit, nat) outcome))"
      and ok': "oi_ok A R inner'"
      and ct: "oi_content R inner' = list_swap_remove (oi_content R (im_inner idx)) slot"
    using parts(2) oi_swap_remove_ok [OF parts(1), of slot, where ?'e = unit] s(1) by auto
  define ids' where "ids' = list_swap_remove (im_slot_to_id idx) slot"
  define m where "m = (im_id_to_slot idx)(x := None)"
  define idx' where "idx' = \<lparr>im_inner = inner', im_slot_to_id = ids',
    im_id_to_slot = (if slot < length ids' then m(ids' ! slot \<mapsto> slot) else m)\<rparr>"
  have "im_remove A idx x = (idx', Ok True)"
    using slot sw s by (simp add: im_remove_def Let_def vec_swap_remove_def idx'_def ids'_def m_def)
  moreover have "im_ok A R idx'"
  proof -
    have "length ids' = length (im_slot_to_id idx) - 1" by (simp add: ids'_def)
    then have "tables_inverse ids' (im_id_to_slot idx')"
      using tables_inverse_swap_remove [OF parts(3) slot]
      by (simp add: idx'_def ids'_def [symmetric] m_def [symmetric] if_distrib cong: if_cong)
    then show ?thesis
      using ok' ct parts(2) by (simp add: im_ok_def idx'_def ids'_def)
  qed
  moreover have "im_map R idx' = (im_map R idx)(x := None)"
  proof -
    from oi_store.lookup_swap [OF parts(1) _ parts(2) s(1) parts(4)] show ?thesis
      using map_of_zip_swap_remove [OF parts(2) s(1) parts(4)] s ct
      by (simp add: im_map_def idx'_def ids'_def)
  qed
  moreover have "set ids' = set (im_slot_to_id idx) - {x}"
    using s parts(4) by (simp add: ids'_def set_list_swap_remove)
  ultimately show ?thesis
    using sw by (intro exI [of _ idx'] exI [of _ slot]) (simp add: idx'_def ids'_def)
qed

section \<open>Runs refine a finite map\<close>

text \<open>
  The specification: a dimension and a partial map from IDs to vectors, whose operations answer
  whether a batch was accepted or an ID removed. A run of the index collects the same answers; a
  panic would end it with \<open>None\<close>.
\<close>

datatype im_op = IdAdd "f32 list" nat "u64 list" | IdRemove u64

fun im_run ::
  "('rq, 'sb) ordvec \<Rightarrow> ('rq, 'sb) id_map_index \<Rightarrow> im_op list \<Rightarrow>
     (('rq, 'sb) id_map_index \<times> bool list) option" where
  "im_run A idx [] = Some (idx, [])"
| "im_run A idx (IdAdd vectors dim ids # ops) =
     (case im_add_with_ids_2d A idx vectors dim ids of
        (idx', Panic) \<Rightarrow> None
      | (idx', r) \<Rightarrow> map_option (\<lambda>(i, rs). (i, is_ok r # rs)) (im_run A idx' ops))"
| "im_run A idx (IdRemove row_id # ops) =
     (case im_remove A idx row_id of
        (idx', Ok b) \<Rightarrow> map_option (\<lambda>(i, rs). (i, b # rs)) (im_run A idx' ops)
      | (idx', _) \<Rightarrow> None)"

definition map_accepts ::
  "nat \<Rightarrow> sign_policy \<Rightarrow> nat option \<times> (u64 \<Rightarrow> f32 list option) \<Rightarrow> f32 list \<Rightarrow> nat \<Rightarrow> u64 list \<Rightarrow> bool" where
  "map_accepts bits policy st vectors dim ids \<longleftrightarrow>
     2 \<le> dim \<and> dim \<le> u16_max \<and> dim dvd length vectors \<and> length ids = length vectors div dim \<and>
     distinct ids \<and> (\<forall>x\<in>set ids. snd st x = None) \<and>
     (vectors = [] \<or>
      rankquant_compatible dim bits \<and> (fst st = None \<or> fst st = Some dim) \<and>
      list_all valid_coord vectors \<and>
      (fst st = None \<and> policy = SignRequired \<longrightarrow> sign_compatible dim bits))"

fun map_run ::
  "nat \<Rightarrow> sign_policy \<Rightarrow> nat option \<times> (u64 \<Rightarrow> f32 list option) \<Rightarrow> im_op list \<Rightarrow>
     (nat option \<times> (u64 \<Rightarrow> f32 list option)) \<times> bool list" where
  "map_run bits policy st [] = (st, [])"
| "map_run bits policy (d, m) (IdAdd vectors dim ids # ops) =
     (let acc = map_accepts bits policy (d, m) vectors dim ids;
          st' = (if acc \<and> vectors \<noteq> [] then (Some dim, m ++ map_of (zip ids (chunks dim vectors)))
                 else (d, m));
          (st'', rs) = map_run bits policy st' ops
      in (st'', acc # rs))"
| "map_run bits policy (d, m) (IdRemove row_id # ops) =
     (let (st'', rs) = map_run bits policy (d, m(row_id := None)) ops
      in (st'', (m row_id \<noteq> None) # rs))"

definition im_reflects ::
  "('rq, 'sb) ordvec \<Rightarrow> ('rq, 'sb, 'c, 's) reading \<Rightarrow> ('rq, 'sb) id_map_index \<Rightarrow>
     nat option \<times> (u64 \<Rightarrow> f32 list option) \<Rightarrow> bool" where
  "im_reflects A R idx st \<longleftrightarrow>
     im_ok A R idx \<and> oi_dim (im_inner idx) = fst st \<and>
     (\<forall>x. im_map R idx x = map_option (oi_code R (im_inner idx)) (snd st x))"

lemma im_map_dom:
  "im_ok A R idx \<Longrightarrow> im_map R idx x = None \<longleftrightarrow> x \<notin> set (im_slot_to_id idx)"
  by (simp add: im_map_def im_ok_def map_of_zip_is_None)

lemma im_reflects_dom:
  assumes "im_reflects A R idx st"
  shows "snd st x = None \<longleftrightarrow> x \<notin> set (im_slot_to_id idx)"
  using assms im_map_dom [of A R idx x] by (auto simp: im_reflects_def)

lemma im_accepts_spec:
  assumes rf: "im_reflects A R idx (d, m)"
  shows "im_accepts idx vectors dim ids \<longleftrightarrow>
    map_accepts (oi_bits (im_inner idx)) (oi_sign_policy (im_inner idx)) (d, m) vectors dim ids"
proof -
  have b: "oi_bits (im_inner idx) = 1 \<or> oi_bits (im_inner idx) = 2 \<or> oi_bits (im_inner idx) = 4"
    and d: "oi_dim (im_inner idx) = d"
    using rf by (auto simp: im_reflects_def im_ok_def oi_ok_def oi_inv_def)
  have ids: "(\<forall>x\<in>set ids. m x = None) \<longleftrightarrow> set ids \<inter> set (im_slot_to_id idx) = {}"
    using im_reflects_dom [OF rf] by auto
  show ?thesis
    using b by (auto simp: im_accepts_def map_accepts_def oi_accepts_def d ids compatible_validated)
qed

lemma map_of_zip_map_snd: "map_of (zip xs (map f ys)) x = map_option f (map_of (zip xs ys) x)"
  by (simp add: zip_map2 map_of_map split_beta)

lemma im_reflects_add:
  assumes rf: "im_reflects A R idx (d, m)" and yes: "im_accepts idx vectors dim ids"
    and ne: "vectors \<noteq> []"
  shows "\<exists>idx'. im_add_with_ids_2d A idx vectors dim ids = (idx', Ok ()) \<and>
    im_reflects A R idx' (Some dim, m ++ map_of (zip ids (chunks dim vectors))) \<and>
    oi_bits (im_inner idx') = oi_bits (im_inner idx) \<and>
    oi_sign_policy (im_inner idx') = oi_sign_policy (im_inner idx)"
proof -
  have ok: "im_ok A R idx" and d: "oi_dim (im_inner idx) = d"
    and mp: "\<And>x. im_map R idx x = map_option (oi_code R (im_inner idx)) (m x)"
    using rf by (auto simp: im_reflects_def)
  obtain idx' where ad: "im_add_with_ids_2d A idx vectors dim ids = (idx', Ok ())"
    and ok': "im_ok A R idx'" and inner: "oi_add_2d A (im_inner idx) vectors dim = (im_inner idx', Ok ())"
    and mp': "im_map R idx' = im_map R idx ++ map_of (zip ids (map (oi_code R (im_inner idx')) (chunks dim vectors)))"
    using im_add_accept [OF ok yes] ne by auto
  have acc: "oi_accepts (im_inner idx) vectors dim" using yes ne by (simp add: im_accepts_def)
  from oi_add_2d_accept [OF im_ok_parts(1) [OF ok] acc ne] inner
  have st: "oi_dim (im_inner idx') = Some dim" "oi_bits (im_inner idx') = oi_bits (im_inner idx)"
    "oi_has_sign_sidecar (im_inner idx') = (if oi_dim (im_inner idx) = None
       then oi_sign_policy (im_inner idx) \<noteq> SignDisabled \<and> sign_compatible dim (oi_bits (im_inner idx))
       else oi_has_sign_sidecar (im_inner idx))"
    by auto
  have old: "map_option (oi_code R (im_inner idx)) (m x) = map_option (oi_code R (im_inner idx')) (m x)" for x
  proof (cases "oi_dim (im_inner idx)")
    case None
    then have "oi_inner (im_inner idx) = None"
      using oi_inv_lazy [OF oi_ok_ordvec(3) [OF im_ok_parts(1) [OF ok]]] by simp
    then have "im_map R idx x = None" by (simp add: im_map_def oi_content_def)
    with mp [of x] show ?thesis by simp
  next
    case (Some y)
    then have "y = dim" using acc by (simp add: oi_accepts_def)
    have "oi_code R (im_inner idx') = oi_code R (im_inner idx)"
      by (rule oi_code_cong) (use Some \<open>y = dim\<close> st in auto)
    then show ?thesis by simp
  qed
  have "im_map R idx' x =
      map_option (oi_code R (im_inner idx')) ((m ++ map_of (zip ids (chunks dim vectors))) x)" for x
    using mp [of x] old [of x]
    by (simp add: mp' map_add_def map_of_zip_map_snd split: option.splits)
  then have "im_reflects A R idx' (Some dim, m ++ map_of (zip ids (chunks dim vectors)))"
    using ok' st by (simp add: im_reflects_def)
  with ad st oi_add_2d_frame [OF inner] show ?thesis by blast
qed

lemma im_reflects_remove:
  assumes rf: "im_reflects A R idx (d, m)"
  shows "\<exists>idx'. im_remove A idx x = (idx', Ok (m x \<noteq> None)) \<and>
    im_reflects A R idx' (d, m(x := None)) \<and>
    oi_bits (im_inner idx') = oi_bits (im_inner idx) \<and>
    oi_sign_policy (im_inner idx') = oi_sign_policy (im_inner idx)"
proof -
  have ok: "im_ok A R idx" and d: "oi_dim (im_inner idx) = d"
    and mp: "\<And>x. im_map R idx x = map_option (oi_code R (im_inner idx)) (m x)"
    using rf by (auto simp: im_reflects_def)
  show ?thesis
  proof (cases "x \<in> set (im_slot_to_id idx)")
    case True
    obtain idx' slot where rm: "im_remove A idx x = (idx', Ok True)" and ok': "im_ok A R idx'"
      and mp': "im_map R idx' = (im_map R idx)(x := None)"
      and sw: "oi_swap_remove A (im_inner idx) slot =
        (im_inner idx', Ok (length (im_slot_to_id idx) - 1) :: (unit, nat) outcome)"
      using im_remove_present [OF ok True] by blast
    note fr = oi_swap_remove_frame [OF sw]
    have "oi_code R (im_inner idx') = oi_code R (im_inner idx)"
      by (rule oi_code_cong) (use fr in auto)
    then have "im_reflects A R idx' (d, m(x := None))"
      using ok' mp mp' fr d by (simp add: im_reflects_def)
    moreover have "m x \<noteq> None" using im_reflects_dom [OF rf, of x] True by simp
    ultimately show ?thesis using rm fr by auto
  next
    case False
    then have "m x = None" using im_reflects_dom [OF rf, of x] by simp
    then have "m(x := None) = m" by auto
    then show ?thesis
      using im_remove_absent [OF ok False] rf \<open>m x = None\<close> by simp
  qed
qed

lemma im_run_reflects:
  assumes "im_reflects A R idx st" and "oi_bits (im_inner idx) = bits"
    and "oi_sign_policy (im_inner idx) = policy"
  shows "\<exists>idx' st' rs. im_run A idx ops = Some (idx', rs) \<and> map_run bits policy st ops = (st', rs) \<and>
    im_reflects A R idx' st'"
  using assms
proof (induction ops arbitrary: idx st)
  case Nil
  then show ?case by auto
next
  case (Cons op ops)
  obtain d m where st: "st = (d, m)" by fastforce
  note rf = Cons.prems(1) [unfolded st]
  show ?case
  proof (cases op)
    case (IdRemove x)
    obtain idx' where rm: "im_remove A idx x = (idx', Ok (m x \<noteq> None))"
      and rf': "im_reflects A R idx' (d, m(x := None))" "oi_bits (im_inner idx') = bits"
        "oi_sign_policy (im_inner idx') = policy"
      using im_reflects_remove [OF rf, of x] Cons.prems by auto
    from Cons.IH [OF rf'] rm show ?thesis by (auto simp: st IdRemove)
  next
    case (IdAdd vectors dim ids)
    note acc = im_accepts_spec [OF rf, of vectors dim ids, unfolded Cons.prems(2,3)]
    show ?thesis
    proof (cases "im_accepts idx vectors dim ids")
      case True
      show ?thesis
      proof (cases "vectors = []")
        case True
        then have "im_add_with_ids_2d A idx vectors dim ids = (idx, Ok ())"
          using im_add_accept [of A R idx vectors dim ids] \<open>im_accepts idx vectors dim ids\<close> rf
          by (auto simp: im_reflects_def)
        then show ?thesis
          using Cons.IH [OF Cons.prems] acc \<open>im_accepts idx vectors dim ids\<close> True
          by (auto simp: st IdAdd)
      next
        case False
        obtain idx' where "im_add_with_ids_2d A idx vectors dim ids = (idx', Ok ())"
          and rf': "im_reflects A R idx' (Some dim, m ++ map_of (zip ids (chunks dim vectors)))"
            "oi_bits (im_inner idx') = bits" "oi_sign_policy (im_inner idx') = policy"
          using im_reflects_add [OF rf True False] Cons.prems by auto
        with Cons.IH [OF rf'] acc True False show ?thesis by (auto simp: st IdAdd)
      qed
    next
      case False
      obtain e where "im_add_with_ids_2d A idx vectors dim ids = (idx, Err e)"
        using im_add_reject [of A R, OF _ False] rf unfolding im_reflects_def by blast
      with Cons.IH [OF Cons.prems] acc False show ?thesis by (auto simp: st IdAdd)
    qed
  qed
qed

lemma im_new_lazy_reflects:
  assumes "ordvec_ok A R" and "im_new_lazy_with_build_options bits options = Ok idx"
  shows "im_reflects A R idx (None, \<lambda>_. None)" and "oi_bits (im_inner idx) = bits"
    and "oi_sign_policy (im_inner idx) = build_sign options"
proof -
  obtain inner where inner: "oi_new_lazy_with_build_options bits options = Ok inner"
    and idx: "idx = im_empty inner"
    using assms(2) by (auto simp: im_new_lazy_with_build_options_def outcome_simps)
  have st: "oi_dim inner = None" "oi_bits inner = bits" "oi_sign_policy inner = build_sign options"
    using inner by (auto simp: oi_new_lazy_with_build_options_def outcome_simps split: if_splits)
  show "im_reflects A R idx (None, \<lambda>_. None)"
    using oi_new_lazy_ok [OF assms(1) inner] st
    by (simp add: im_reflects_def im_ok_def idx im_empty_def im_map_def tables_inverse_def)
  show "oi_bits (im_inner idx) = bits" "oi_sign_policy (im_inner idx) = build_sign options"
    using st by (simp_all add: idx im_empty_def)
qed

section \<open>Properties\<close>

text \<open>An ID-mapped index of dimension 4 with no rows, for the examples.\<close>

definition ex_id_map :: "(plain_rq, plain_sb) id_map_index" where
  "ex_id_map = im_empty ex_index"

lemma ex_id_map_ok: "im_ok plain_ordvec plain_reading ex_id_map"
  using ex_index_ok by (simp add: im_ok_def ex_id_map_def im_empty_def tables_inverse_def)

lemma ex_id_map_accepts: "im_accepts ex_id_map ones 4 [7]"
proof -
  have len: "length ones = 4" by (simp add: ones_def)
  have "oi_accepts ex_index ones 4"
    using compatible_4_2 ones_valid len by (simp add: oi_accepts_def ex_index_def compatible_validated)
  then show ?thesis
    using len by (simp add: im_accepts_def ex_id_map_def im_empty_def u16_max_def)
qed

text \<open>
  C28. \<open>add_with_ids_2d\<close> is all or nothing: it accepts exactly the batches of whole rows of a legal
  dimension with one fresh, unrepeated ID per row that the dense index accepts. An accepted batch
  extends the map from IDs to row codes by the batch and keeps both tables inverse to each other;
  a rejected one leaves every part of the index as it was. It never panics.
\<close>

theorem im_add_exact:
  assumes "im_ok A R idx"
  shows "case im_add_with_ids_2d A idx vectors dim ids of
      (idx', Ok _) \<Rightarrow> im_accepts idx vectors dim ids \<and> im_ok A R idx' \<and>
        im_slot_to_id idx' = im_slot_to_id idx @ ids \<and>
        im_map R idx' = im_map R idx ++
          map_of (zip ids (map (oi_code R (im_inner idx')) (chunks dim vectors)))
    | (idx', Err e) \<Rightarrow> \<not> im_accepts idx vectors dim ids \<and> idx' = idx
    | (idx', Panic) \<Rightarrow> False"
proof (cases "im_accepts idx vectors dim ids")
  case True
  from im_add_accept [OF assms this] True show ?thesis by auto
next
  case False
  from im_add_reject [OF assms this] False show ?thesis by auto
qed

theorem im_add_exact_witness:
  "case im_add_with_ids_2d plain_ordvec ex_id_map ones 4 [7] of
      (idx', Ok _) \<Rightarrow> im_slot_to_id idx' = [7] \<and> im_map plain_reading idx' 7 \<noteq> None
    | (idx', Err e) \<Rightarrow> False
    | (idx', Panic) \<Rightarrow> False"
proof -
  have "chunks 4 ones = [ones]" by (simp add: chunks_step ones_def)
  then show ?thesis
    using im_add_exact [OF ex_id_map_ok, of ones 4 "[7]"] ex_id_map_accepts
    by (auto simp: ex_id_map_def im_empty_def split: outcome.splits)
qed

text \<open>
  C21. \<open>remove\<close> answers whether the ID was stored, never panics (its debug assertions hold and the
  tables stay in step), removes exactly that ID, and leaves every other ID with the row code it
  had, although the last row moves into the freed slot.
\<close>

theorem im_remove_exact:
  assumes "im_ok A R idx"
  shows "case im_remove A idx x of
      (idx', Ok removed) \<Rightarrow> removed = im_contains idx x \<and> im_ok A R idx' \<and>
        im_map R idx' = (im_map R idx)(x := None) \<and> \<not> im_contains idx' x \<and>
        (\<not> removed \<longrightarrow> idx' = idx)
    | (idx', _) \<Rightarrow> False"
proof (cases "x \<in> set (im_slot_to_id idx)")
  case True
  from im_remove_present [OF assms this] obtain idx' where "im_remove A idx x = (idx', Ok True)"
    "im_ok A R idx'" "im_map R idx' = (im_map R idx)(x := None)"
    "set (im_slot_to_id idx') = set (im_slot_to_id idx) - {x}"
    by auto
  then show ?thesis
    using True im_lookup_None [OF assms, of x] im_lookup_None [of A R idx' x]
    by (auto simp: im_contains_def)
next
  case False
  then have "(im_map R idx)(x := None) = im_map R idx"
    using im_map_dom [OF assms, of x] by auto
  then show ?thesis
    using im_remove_absent [OF assms False] False im_lookup_None [OF assms, of x] assms
    by (simp add: im_contains_def)
qed

theorem im_remove_exact_witness:
  "case im_remove plain_ordvec ex_id_map 3 of (idx', Ok removed) \<Rightarrow> \<not> removed | (idx', _) \<Rightarrow> False"
  using im_remove_exact [OF ex_id_map_ok, of 3]
  by (auto simp: im_contains_def ex_id_map_def im_empty_def split: outcome.splits)

text \<open>
  C2. Refinement: from construction on, any run of \<open>add_with_ids_2d\<close> and \<open>remove\<close> calls never
  panics and answers exactly as a finite map from IDs to vectors does, whatever the order of
  accepted batches, rejected batches and removals; at the end every stored ID resolves to the
  code of the vector the map holds for it, and no other ID resolves.
\<close>

theorem im_runs_refine_map:
  assumes "ordvec_ok A R" and "im_new_lazy_with_build_options bits options = Ok idx"
  shows "\<exists>idx' st' rs. im_run A idx ops = Some (idx', rs) \<and>
    map_run bits (build_sign options) (None, \<lambda>_. None) ops = (st', rs) \<and> im_reflects A R idx' st'"
  by (rule im_run_reflects [OF im_new_lazy_reflects [OF assms]])

theorem im_runs_refine_map_witness:
  "map_option snd (im_run plain_ordvec
     (im_empty \<lparr>oi_dim = None, oi_bits = 2, oi_inner = None, oi_sign = None,
        oi_sign_policy = SignOptional\<rparr>)
     [IdAdd ones 4 [7], IdAdd ones 4 [7], IdRemove 7, IdRemove 7]) = Some [True, False, True, False]"
proof -
  have new: "im_new_lazy_with_build_options 2 build_options_default =
      Ok (im_empty \<lparr>oi_dim = None, oi_bits = 2, oi_inner = None, oi_sign = None,
        oi_sign_policy = SignOptional\<rparr> :: (plain_rq, plain_sb) id_map_index)"
    by (simp add: im_new_lazy_with_build_options_def oi_new_lazy_with_build_options_def
        build_options_default_def validate_bits_def)
  have len: "length ones = 4" by (simp add: ones_def)
  have ch: "chunks 4 ones = [ones]" by (simp add: chunks_step ones_def)
  have a1: "map_accepts 2 SignOptional (None, \<lambda>_. None) ones 4 [7]"
    using compatible_4_2 ones_valid len by (simp add: map_accepts_def u16_max_def)
  have a2: "\<not> map_accepts 2 SignOptional (Some 4, [7 \<mapsto> ones]) ones 4 [7]"
    by (simp add: map_accepts_def)
  have "ones \<noteq> []" by (simp add: ones_def)
  with im_runs_refine_map [OF plain_ordvec_ok new,
      of "[IdAdd ones 4 [7], IdAdd ones 4 [7], IdRemove 7, IdRemove 7]"]
  show ?thesis
    using a1 a2 ch by (auto simp: build_options_default_def Let_def)
qed

text \<open>
  Loading: the index is assembled exactly when the sidecar has one ID per row and no ID twice,
  and it then satisfies the invariant, so a bundle with a forged ID table is never served.
\<close>

theorem im_from_loaded_parts_exact:
  assumes "oi_ok A R inner"
  shows "case im_from_loaded_parts A inner ids of
      Ok idx \<Rightarrow> length ids = oi_len A inner \<and> distinct ids \<and> im_ok A R idx \<and>
        im_inner idx = inner \<and> im_slot_to_id idx = ids
    | Err e \<Rightarrow> \<not> (length ids = oi_len A inner \<and> distinct ids)
    | Panic \<Rightarrow> False"
proof (cases "im_from_loaded_parts A inner ids")
  case (Ok idx)
  then have "length ids = oi_len A inner" "distinct ids"
    "idx = \<lparr>im_inner = inner, im_slot_to_id = ids, im_id_to_slot = insert_slots (\<lambda>_. None) 0 ids\<rparr>"
    by (auto simp: im_from_loaded_parts_def outcome_simps index_ids_Ok split: if_splits)
  moreover have "tables_inverse ids (insert_slots (\<lambda>_. None) 0 ids)"
    using tables_inverse_append [of "[]" "\<lambda>_. None" ids] calculation by (simp add: tables_inverse_def)
  ultimately show ?thesis
    using Ok assms length_oi_content [OF assms] by (simp add: im_ok_def)
next
  case (Err e)
  have "\<exists>idx. im_from_loaded_parts A inner ids = Ok idx" if "length ids = oi_len A inner" "distinct ids"
    using that by (simp add: im_from_loaded_parts_def outcome_simps index_ids_Ok)
  with Err show ?thesis by auto
next
  case Panic
  then show ?thesis
    by (simp add: im_from_loaded_parts_def outcome_simps index_ids_not_Panic split: if_splits)
qed

theorem im_from_loaded_parts_exact_witness:
  "case im_from_loaded_parts plain_ordvec ex_index [] of
     Ok idx \<Rightarrow> im_ok plain_ordvec plain_reading idx | Err e \<Rightarrow> False | Panic \<Rightarrow> False"
  using im_from_loaded_parts_exact [OF ex_index_ok(1), of "[]"]
  by (auto simp: oi_len_def ex_index_def plain_ordvec_def split: outcome.splits)

end
