(* ===== verification/OrdinalSearch.thy ===== *)
theory OrdinalSearch
  imports OrdinalIndex
begin

text \<open>
  Dense search (\<open>ordinaldb/src/ordinal.rs\<close>): options and plans, validation of the query buffer, the
  exact scan, the two-stage search that splits a batch of queries over the thread pool, and the
  searches restricted to candidates, a mask or an allowlist. Wall-clock timings are not modelled.
  The environment variable that sets the tile floor and the number of pool threads are the
  argument \<open>rt\<close> of the definitions that read them.
\<close>

section \<open>Options and plans\<close>

datatype dense_search_mode = Auto | ExactRankQuant | SignTwoStage

record two_stage_options =
  ts_min_candidates :: nat
  ts_k_multiplier :: nat
  ts_max_candidates :: "nat option"

definition two_stage_min_candidates :: nat where
  "two_stage_min_candidates = 256"

definition two_stage_k_multiplier :: nat where
  "two_stage_k_multiplier = 32"

definition two_stage_max_score_cells :: nat where
  "two_stage_max_score_cells = 1048576"

definition fixed_candidates :: "nat \<Rightarrow> two_stage_options" where
  "fixed_candidates candidates =
     \<lparr>ts_min_candidates = candidates, ts_k_multiplier = 0, ts_max_candidates = Some candidates\<rparr>"

definition candidate_count :: "two_stage_options \<Rightarrow> nat \<Rightarrow> nat \<Rightarrow> nat" where
  "candidate_count options k search_space =
     (if k = 0 \<or> search_space = 0 then 0
      else let count = max (ts_min_candidates options) (saturating_mul k (ts_k_multiplier options));
               count = (case ts_max_candidates options of None \<Rightarrow> count | Some m \<Rightarrow> min count m)
           in min count search_space)"

definition two_stage_default :: two_stage_options where
  "two_stage_default =
     \<lparr>ts_min_candidates = two_stage_min_candidates, ts_k_multiplier = two_stage_k_multiplier,
      ts_max_candidates = None\<rparr>"

record dense_search_options =
  so_mode :: dense_search_mode
  so_two_stage :: two_stage_options

definition search_options_default :: dense_search_options where
  "search_options_default = \<lparr>so_mode = Auto, so_two_stage = two_stage_default\<rparr>"

definition exact_rankquant :: dense_search_options where
  "exact_rankquant = search_options_default\<lparr>so_mode := ExactRankQuant\<rparr>"

definition sign_two_stage :: "two_stage_options \<Rightarrow> dense_search_options" where
  "sign_two_stage two_stage = \<lparr>so_mode = SignTwoStage, so_two_stage = two_stage\<rparr>"

datatype dense_search_execution = ExecExact | ExecTwoStage

record dense_search_plan =
  sp_execution :: dense_search_execution
  sp_dim :: nat
  sp_query_count :: nat
  sp_requested_k :: nat
  sp_effective_k :: nat
  sp_search_space :: nat
  sp_candidate_count :: "nat option"

section \<open>Validation of the queries\<close>

definition validate_query_buffer :: "f32 list \<Rightarrow> nat \<Rightarrow> ('x dense_error, nat) outcome" where
  "validate_query_buffer queries dim =
     (if dim = 0 \<or> \<not> is_multiple_of (length queries) dim then Err (InvalidQueryDim (length queries) dim)
      else case first_invalid_coord queries dim of
        Some (query_index, coord_index, value) \<Rightarrow> Err (InvalidQueryValue query_index coord_index value)
      | None \<Rightarrow> Ok (length queries div dim))"

definition validate_single_query_buffer ::
  "f32 list \<Rightarrow> nat option \<Rightarrow> ('x dense_error, unit) outcome" where
  "validate_single_query_buffer query dim =
     (case dim of
        None \<Rightarrow> if query = [] then Ok () else Err (InvalidQueryDim (length query) 0)
      | Some d \<Rightarrow>
          if length query \<noteq> d then Err (InvalidQueryDim (length query) d)
          else obind (validate_query_buffer query d) (\<lambda>_. Ok ()))"

text \<open>The two assertions the panicking entry points make: whole queries, valid coordinates.\<close>

definition assert_queries :: "f32 list \<Rightarrow> nat \<Rightarrow> ('e, nat) outcome" where
  "assert_queries queries dim =
     (if dim = 0 then Panic
      else let nq = length queries div dim in
        if length queries \<noteq> nq * dim then Panic
        else obind (assert_valid_values queries dim) (\<lambda>_. Ok nq))"

definition empty_results :: "nat \<Rightarrow> search_results" where
  "empty_results nq = \<lparr>sr_scores = [], sr_indices = [], sr_nq = nq, sr_k = 0\<rparr>"

definition result_buffer_len :: "nat \<Rightarrow> nat \<Rightarrow> ('e, nat) outcome" where
  "result_buffer_len nq k = expect (checked_mul nq k)"

definition checked_result_buffer_len :: "nat \<Rightarrow> nat \<Rightarrow> ('x dense_error, nat) outcome" where
  "checked_result_buffer_len nq k =
     ok_or (Limit ''nq * k overflow while allocating search results'') (checked_mul nq k)"

section \<open>The two-stage schedule\<close>

record runtime =
  rt_tile_floor_env :: "string option"
  rt_threads :: nat

definition parse_tile_floor :: "string option \<Rightarrow> nat" where
  "parse_tile_floor raw =
     (case raw of
        None \<Rightarrow> 128
      | Some v \<Rightarrow>
          (case parse_usize (trim v) of
             None \<Rightarrow> 128
           | Some n \<Rightarrow> if 1 \<le> n then n else 128))"

definition two_stage_tile_floor :: "runtime \<Rightarrow> nat" where
  "two_stage_tile_floor rt = parse_tile_floor (rt_tile_floor_env rt)"

definition div_ceil :: "nat \<Rightarrow> nat \<Rightarrow> nat" where
  "div_ceil a b = (if a mod b = 0 then a div b else a div b + 1)"

definition two_stage_query_chunk_rows :: "runtime \<Rightarrow> nat \<Rightarrow> nat \<Rightarrow> nat" where
  "two_stage_query_chunk_rows rt n_vectors nq =
     (if n_vectors = 0 \<or> nq = 0 then 1
      else let tile_floor = two_stage_tile_floor rt;
               max_rows_by_cells = max (two_stage_max_score_cells div n_vectors) 1;
               target_rows = max (div_ceil nq (max (rt_threads rt) 1)) tile_floor
           in min (max (min max_rows_by_cells target_rows) 1) nq)"

text \<open>
  Every chunk of queries is searched by itself and written to its own slice of the two result
  buffers; the slices follow each other in the order of the chunks.
\<close>

definition search_two_stage ::
  "('rq, 'sb) ordvec \<Rightarrow> runtime \<Rightarrow> 'rq \<Rightarrow> 'sb \<Rightarrow> f32 list \<Rightarrow> nat \<Rightarrow> nat \<Rightarrow> nat \<Rightarrow> nat \<Rightarrow>
     ('e, search_results) outcome" where
  "search_two_stage A rt rankquant sign queries effective_k pool nq dim =
     (if effective_k = 0 then Ok (empty_results nq)
      else obind (result_buffer_len nq effective_k) (\<lambda>_.
        let chunk_rows = two_stage_query_chunk_rows rt pool nq;
            outs = map (\<lambda>query_chunk.
              let (offsets, candidates) = sb_top_m A sign query_chunk pool
              in rq_subset_batched A rankquant query_chunk offsets candidates effective_k)
              (chunks (chunk_rows * dim) queries)
        in Ok \<lparr>sr_scores = concat (map fst outs), sr_indices = concat (map snd outs),
               sr_nq = nq, sr_k = effective_k\<rparr>))"

section \<open>Unrestricted search\<close>

definition oi_search_validated_with_plan ::
  "('rq, 'sb) ordvec \<Rightarrow> runtime \<Rightarrow> ('rq, 'sb) ordinal_index \<Rightarrow> f32 list \<Rightarrow> nat \<Rightarrow> nat \<Rightarrow> nat \<Rightarrow>
     dense_search_options \<Rightarrow> ('x dense_error, search_results \<times> dense_search_plan) outcome" where
  "oi_search_validated_with_plan A rt idx queries k nq dim options =
     obind (expect (oi_inner idx)) (\<lambda>inner.
     let n = rq_len A inner; exact_effective_k = min k n in
     obind (case so_mode options of
              Auto \<Rightarrow> Ok (oi_sign idx)
            | ExactRankQuant \<Rightarrow> Ok None
            | SignTwoStage \<Rightarrow> obind (ok_or MissingSignSidecar (oi_sign idx)) (\<lambda>s. Ok (Some s))) (\<lambda>use_sign.
     case use_sign of
       Some sign \<Rightarrow>
         let count = candidate_count (so_two_stage options) exact_effective_k n in
         if 0 < exact_effective_k \<and> count = 0 then
           Err (Limit ''two-stage candidate_count must be > 0 for non-empty searches'')
         else let effective_k = min exact_effective_k count in
           obind (search_two_stage A rt inner sign queries effective_k count nq dim) (\<lambda>results.
           Ok (results, \<lparr>sp_execution = ExecTwoStage, sp_dim = dim, sp_query_count = nq,
             sp_requested_k = k, sp_effective_k = effective_k, sp_search_space = n,
             sp_candidate_count = Some count\<rparr>))
     | None \<Rightarrow>
         Ok (rq_search_asymmetric A inner queries exact_effective_k,
           \<lparr>sp_execution = ExecExact, sp_dim = dim, sp_query_count = nq, sp_requested_k = k,
             sp_effective_k = exact_effective_k, sp_search_space = n, sp_candidate_count = None\<rparr>)))"

definition oi_search_validated ::
  "('rq, 'sb) ordvec \<Rightarrow> runtime \<Rightarrow> ('rq, 'sb) ordinal_index \<Rightarrow> f32 list \<Rightarrow> nat \<Rightarrow> nat \<Rightarrow> nat \<Rightarrow>
     dense_search_options \<Rightarrow> ('x dense_error, search_results) outcome" where
  "oi_search_validated A rt idx queries k nq dim options =
     (case oi_search_validated_with_plan A rt idx queries k nq dim options :: ('x dense_error, _) outcome of
        Ok (results, _) \<Rightarrow> Ok results
      | Err MissingSignSidecar \<Rightarrow>
          (case oi_search_validated_with_plan A rt idx queries k nq dim exact_rankquant :: ('x dense_error, _) outcome of
             Ok (results, _) \<Rightarrow> Ok results
           | _ \<Rightarrow> Panic)
      | Err _ \<Rightarrow> Panic
      | Panic \<Rightarrow> Panic)"

definition oi_search_with_options ::
  "('rq, 'sb) ordvec \<Rightarrow> runtime \<Rightarrow> ('rq, 'sb) ordinal_index \<Rightarrow> f32 list \<Rightarrow> nat \<Rightarrow>
     dense_search_options \<Rightarrow> ('x dense_error, search_results) outcome" where
  "oi_search_with_options A rt idx queries k options =
     (case oi_dim idx of
        None \<Rightarrow> Ok (empty_results 0)
      | Some dim \<Rightarrow>
          obind (assert_queries queries dim) (\<lambda>nq.
          oi_search_validated A rt idx queries k nq dim options))"

definition oi_search ::
  "('rq, 'sb) ordvec \<Rightarrow> runtime \<Rightarrow> ('rq, 'sb) ordinal_index \<Rightarrow> f32 list \<Rightarrow> nat \<Rightarrow>
     ('x dense_error, search_results) outcome" where
  "oi_search A rt idx queries k = oi_search_with_options A rt idx queries k search_options_default"

definition oi_search_with_report ::
  "('rq, 'sb) ordvec \<Rightarrow> runtime \<Rightarrow> ('rq, 'sb) ordinal_index \<Rightarrow> f32 list \<Rightarrow> nat \<Rightarrow>
     dense_search_options \<Rightarrow> ('x dense_error, search_results \<times> dense_search_plan) outcome" where
  "oi_search_with_report A rt idx queries k options =
     (case oi_dim idx of
        None \<Rightarrow> Ok (empty_results 0,
          \<lparr>sp_execution = ExecExact, sp_dim = 0, sp_query_count = 0, sp_requested_k = k,
            sp_effective_k = 0, sp_search_space = 0, sp_candidate_count = None\<rparr>)
      | Some dim \<Rightarrow>
          obind (validate_query_buffer queries dim) (\<lambda>nq.
          obind (checked_result_buffer_len nq (min k (oi_len A idx))) (\<lambda>_.
          oi_search_validated_with_plan A rt idx queries k nq dim options)))"

definition oi_search_checked_with_options ::
  "('rq, 'sb) ordvec \<Rightarrow> runtime \<Rightarrow> ('rq, 'sb) ordinal_index \<Rightarrow> f32 list \<Rightarrow> nat \<Rightarrow>
     dense_search_options \<Rightarrow> ('x dense_error, search_results) outcome" where
  "oi_search_checked_with_options A rt idx queries k options =
     (case oi_dim idx of
        None \<Rightarrow> Ok (empty_results 0)
      | Some dim \<Rightarrow>
          obind (validate_query_buffer queries dim) (\<lambda>nq.
          obind (checked_result_buffer_len nq (min k (oi_len A idx))) (\<lambda>_.
          obind (oi_search_validated_with_plan A rt idx queries k nq dim options) (\<lambda>(results, _).
          Ok results))))"

definition oi_search_checked ::
  "('rq, 'sb) ordvec \<Rightarrow> runtime \<Rightarrow> ('rq, 'sb) ordinal_index \<Rightarrow> f32 list \<Rightarrow> nat \<Rightarrow>
     ('x dense_error, search_results) outcome" where
  "oi_search_checked A rt idx queries k =
     oi_search_checked_with_options A rt idx queries k search_options_default"

section \<open>Search among candidates\<close>

definition search_repeated_candidates_parallel ::
  "('rq, 'sb) ordvec \<Rightarrow> 'rq \<Rightarrow> f32 list \<Rightarrow> nat list \<Rightarrow> nat \<Rightarrow> nat \<Rightarrow> nat \<Rightarrow>
     ('e, search_results) outcome" where
  "search_repeated_candidates_parallel A rankquant queries candidates effective_k nq dim =
     (if effective_k = 0 then Ok (empty_results nq)
      else obind (result_buffer_len nq effective_k) (\<lambda>_.
        let outs = map (\<lambda>query. rq_search_subset A rankquant query candidates effective_k)
              (chunks dim queries)
        in Ok \<lparr>sr_scores = concat (map fst outs), sr_indices = concat (map snd outs),
               sr_nq = nq, sr_k = effective_k\<rparr>))"

definition search_candidate_csr_serial ::
  "('rq, 'sb) ordvec \<Rightarrow> 'rq \<Rightarrow> f32 list \<Rightarrow> nat list \<Rightarrow> nat list \<Rightarrow> nat \<Rightarrow> nat \<Rightarrow>
     ('e, search_results) outcome" where
  "search_candidate_csr_serial A rankquant queries offsets candidates effective_k nq =
     (if effective_k = 0 then Ok (empty_results nq)
      else obind (result_buffer_len nq effective_k) (\<lambda>_.
        let (scores, indices) = rq_subset_batched A rankquant queries offsets candidates effective_k
        in Ok \<lparr>sr_scores = scores, sr_indices = indices, sr_nq = nq, sr_k = effective_k\<rparr>))"

definition oi_search_with_candidates ::
  "('rq, 'sb) ordvec \<Rightarrow> ('rq, 'sb) ordinal_index \<Rightarrow> f32 list \<Rightarrow> nat \<Rightarrow> nat list \<Rightarrow>
     ('e, search_results) outcome" where
  "oi_search_with_candidates A idx queries k candidates =
     (case oi_dim idx of
        None \<Rightarrow> Ok (empty_results 0)
      | Some dim \<Rightarrow>
          obind (assert_queries queries dim) (\<lambda>nq.
          if \<not> list_all (\<lambda>c. c < oi_len A idx) candidates then Panic
          else let effective_k = min k (length candidates) in
            if effective_k = 0 then Ok (empty_results nq)
            else obind (expect (oi_inner idx)) (\<lambda>inner.
              search_repeated_candidates_parallel A inner queries candidates effective_k nq dim)))"

definition oi_search_checked_with_candidates ::
  "('rq, 'sb) ordvec \<Rightarrow> ('rq, 'sb) ordinal_index \<Rightarrow> f32 list \<Rightarrow> nat \<Rightarrow> nat list \<Rightarrow>
     ('x dense_error, search_results) outcome" where
  "oi_search_checked_with_candidates A idx queries k candidates =
     (case oi_dim idx of
        None \<Rightarrow> Ok (empty_results 0)
      | Some dim \<Rightarrow>
          obind (validate_query_buffer queries dim) (\<lambda>nq.
          obind (checked_result_buffer_len nq (min k (length candidates))) (\<lambda>_.
          case find (\<lambda>c. oi_len A idx \<le> c) candidates of
            Some candidate \<Rightarrow> Err (CandidateSlotOutOfRange candidate)
          | None \<Rightarrow> oi_search_with_candidates A idx queries k candidates)))"

definition u32_try_from :: "nat \<Rightarrow> nat option" where
  "u32_try_from n = (if n \<le> u32_max then Some n else None)"

text \<open>One entry of an allowlist: the ID is the slot.\<close>

definition oi_allowlist_slot ::
  "('rq, 'sb) ordvec \<Rightarrow> ('rq, 'sb) ordinal_index \<Rightarrow> u64 \<Rightarrow> ('x dense_error, nat) outcome" where
  "oi_allowlist_slot A idx row_id =
     (let slot = unat row_id in
      if oi_len A idx \<le> slot then Err (AllowlistRowIdMissing row_id)
      else ok_or (SlotIndexOverflow slot) (u32_try_from slot))"

definition oi_search_checked_with_allowlist ::
  "('rq, 'sb) ordvec \<Rightarrow> runtime \<Rightarrow> ('rq, 'sb) ordinal_index \<Rightarrow> f32 list \<Rightarrow> nat \<Rightarrow> u64 list option \<Rightarrow>
     ('x dense_error, search_results) outcome" where
  "oi_search_checked_with_allowlist A rt idx queries k allowlist =
     (case allowlist of
        None \<Rightarrow> oi_search_checked A rt idx queries k
      | Some ids \<Rightarrow>
          obind (traverse (oi_allowlist_slot A idx) ids) (\<lambda>candidates.
          oi_search_checked_with_candidates A idx queries k (sort_dedup candidates)))"

definition mask_slots :: "bool list \<Rightarrow> nat list" where
  "mask_slots allowed = map fst (filter snd (enumerate 0 allowed))"

definition oi_search_with_mask ::
  "('rq, 'sb) ordvec \<Rightarrow> runtime \<Rightarrow> ('rq, 'sb) ordinal_index \<Rightarrow> f32 list \<Rightarrow> nat \<Rightarrow> bool list option \<Rightarrow>
     ('x dense_error, search_results) outcome" where
  "oi_search_with_mask A rt idx queries k allowed =
     (case oi_dim idx of
        None \<Rightarrow> Ok (empty_results 0)
      | Some dim \<Rightarrow>
          obind (assert_queries queries dim) (\<lambda>nq.
          obind (expect (oi_inner idx)) (\<lambda>inner.
          case allowed of
            None \<Rightarrow> oi_search_validated A rt idx queries k nq dim search_options_default
          | Some bs \<Rightarrow>
              if length bs \<noteq> rq_len A inner then Panic
              else obind (traverse (\<lambda>i. expect (u32_try_from i)) (mask_slots bs)) (\<lambda>candidates.
                oi_search_with_candidates A idx queries k candidates))))"

section \<open>What the searches rely on\<close>

text \<open>
  A batched call of the crate works on each query by itself: \<open>cand s q m\<close> is the candidate list of
  one query, the lists come as one vector with offsets (\<open>csr_offsets\<close>), and the batched rerank is
  the single-query rerank of each query on its own slice. A result row has the requested length,
  and its slots are rows of the index, among the candidates where there are any, or \<open>-1\<close>.
\<close>

definition query_rows :: "nat \<Rightarrow> f32 list list \<Rightarrow> bool" where
  "query_rows dim Q \<longleftrightarrow> 0 < dim \<and> (\<forall>q\<in>set Q. length q = dim \<and> list_all valid_coord q)"

definition slots_ok :: "nat set \<Rightarrow> int list \<Rightarrow> bool" where
  "slots_ok S indices \<longleftrightarrow> (\<forall>i\<in>set indices. i = - 1 \<or> 0 \<le> i \<and> nat i \<in> S)"

definition search_ok ::
  "('rq, 'sb) ordvec \<Rightarrow> ('rq, 'sb, 'c, 's) reading \<Rightarrow> ('sb \<Rightarrow> f32 list \<Rightarrow> nat \<Rightarrow> nat list) \<Rightarrow> bool" where
  "search_ok A R cand \<longleftrightarrow>
     (\<forall>r Q k. query_rows (rq_dim A r) Q \<longrightarrow> k \<le> length (rd_rows R r) \<longrightarrow>
        (let res = rq_search_asymmetric A r (concat Q) k in
         sr_nq res = length Q \<and> sr_k res = k \<and> length (sr_scores res) = length Q * k \<and>
         length (sr_indices res) = length Q * k \<and>
         slots_ok {..<length (rd_rows R r)} (sr_indices res))) \<and>
     (\<forall>r q cands k. query_rows (rq_dim A r) [q] \<longrightarrow> set cands \<subseteq> {..<length (rd_rows R r)} \<longrightarrow>
        length (fst (rq_search_subset A r q cands k)) = k \<and>
        length (snd (rq_search_subset A r q cands k)) = k \<and>
        slots_ok (set cands) (snd (rq_search_subset A r q cands k))) \<and>
     (\<forall>r Q L k. query_rows (rq_dim A r) Q \<longrightarrow> length L = length Q \<longrightarrow>
        set (concat L) \<subseteq> {..<length (rd_rows R r)} \<longrightarrow>
        rq_subset_batched A r (concat Q) (csr_offsets L) (concat L) k =
          (concat (map2 (\<lambda>q l. fst (rq_search_subset A r q l k)) Q L),
           concat (map2 (\<lambda>q l. snd (rq_search_subset A r q l k)) Q L))) \<and>
     (\<forall>s Q m. query_rows (sb_dim A s) Q \<longrightarrow>
        sb_top_m A s (concat Q) m =
          (csr_offsets (map (\<lambda>q. cand s q m) Q), concat (map (\<lambda>q. cand s q m) Q))) \<and>
     (\<forall>s q m. set (cand s q m) \<subseteq> {..<length (rd_srows R s)})"

lemma search_ok_asymmetric:
  assumes "search_ok A R cand" and "query_rows (rq_dim A r) Q" and "k \<le> length (rd_rows R r)"
  shows "let res = rq_search_asymmetric A r (concat Q) k in
         sr_nq res = length Q \<and> sr_k res = k \<and> length (sr_scores res) = length Q * k \<and>
         length (sr_indices res) = length Q * k \<and>
         slots_ok {..<length (rd_rows R r)} (sr_indices res)"
  using assms by (simp add: search_ok_def)

lemma search_ok_subset:
  assumes "search_ok A R cand" and "query_rows (rq_dim A r) [q]"
    and "set cands \<subseteq> {..<length (rd_rows R r)}"
  shows "length (fst (rq_search_subset A r q cands k)) = k"
    and "length (snd (rq_search_subset A r q cands k)) = k"
    and "slots_ok (set cands) (snd (rq_search_subset A r q cands k))"
  using assms by (simp_all add: search_ok_def)

lemma search_ok_batched:
  assumes "search_ok A R cand" and "query_rows (rq_dim A r) Q" and "length L = length Q"
    and "set (concat L) \<subseteq> {..<length (rd_rows R r)}"
  shows "rq_subset_batched A r (concat Q) (csr_offsets L) (concat L) k =
          (concat (map2 (\<lambda>q l. fst (rq_search_subset A r q l k)) Q L),
           concat (map2 (\<lambda>q l. snd (rq_search_subset A r q l k)) Q L))"
  using assms unfolding search_ok_def by blast

lemma search_ok_top_m:
  assumes "search_ok A R cand" and "query_rows (sb_dim A s) Q"
  shows "sb_top_m A s (concat Q) m =
          (csr_offsets (map (\<lambda>q. cand s q m) Q), concat (map (\<lambda>q. cand s q m) Q))"
  using assms unfolding search_ok_def by blast

lemma search_ok_cand:
  assumes "search_ok A R cand"
  shows "set (cand s q m) \<subseteq> {..<length (rd_srows R s)}"
  using assms by (simp add: search_ok_def)

section \<open>Chunks of queries\<close>

lemma chunks_mult:
  "0 < c \<Longrightarrow> 0 < d \<Longrightarrow> d dvd length xs \<Longrightarrow> chunks (c * d) xs = map concat (chunks c (chunks d xs))"
proof (induction "c * d" xs rule: chunks.induct)
  case (1 xs)
  show ?case
  proof (cases "xs = []")
    case False
    have rest: "d dvd length (drop (c * d) xs)" using 1 by (cases "c * d \<le> length xs") auto
    have ne: "chunks d xs \<noteq> []" using False 1 by (simp add: chunks_step)
    have tk: "concat (take c (chunks d xs)) = take (c * d) xs \<and> drop c (chunks d xs) = chunks d (drop (c * d) xs)"
      if "0 < d" "d dvd length xs" for c and xs :: "'a list"
      using that(2)
    proof (induction c arbitrary: xs)
      case (Suc c)
      show ?case
      proof (cases "xs = []")
        case False
        then have "d dvd length (drop d xs)" using Suc.prems that by (cases "d \<le> length xs") auto
        from Suc.IH [OF this] show ?thesis
          using False that by (simp add: chunks_step take_add [of d "c * d" xs] add.commute)
      qed simp
    qed simp
    show ?thesis
      using 1 False rest ne tk [of xs c]
      by (simp add: chunks_step [of xs "c * d"] chunks_step [of "chunks d xs" c])
  qed simp
qed

lemma chunks_rows: "0 < d \<Longrightarrow> d dvd length xs \<Longrightarrow> q \<in> set (chunks d xs) \<Longrightarrow> length q = d \<and> set q \<subseteq> set xs"
proof (induction d xs rule: chunks.induct)
  case (1 d xs)
  show ?case
  proof (cases "xs = []")
    case False
    then have "d \<le> length xs" using 1 by (simp add: dvd_imp_le)
    moreover have "d dvd length (drop d xs)" using 1 calculation by simp
    ultimately show ?thesis
      using 1 False by (auto simp: chunks_step dest: in_set_takeD in_set_dropD)
  qed (use 1 in simp)
qed

lemma query_rows_chunks:
  assumes "0 < d" and "d dvd length xs" and "list_all valid_coord xs"
  shows "query_rows d (chunks d xs)"
  unfolding query_rows_def using chunks_rows [OF assms(1,2)] assms by (fastforce simp: list_all_iff)

lemma query_rows_subset: "query_rows d Q \<Longrightarrow> set P \<subseteq> set Q \<Longrightarrow> query_rows d P"
  by (auto simp: query_rows_def)

lemma chunks_subset: "0 < c \<Longrightarrow> P \<in> set (chunks c Q) \<Longrightarrow> set P \<subseteq> set Q"
  by (metis concat_chunks UN_upper set_concat)

lemma concat_chunks_map: "0 < c \<Longrightarrow> concat (map (\<lambda>P. concat (map f P)) (chunks c Q)) = concat (map f Q)"
proof -
  assume "0 < c"
  have "concat (map (\<lambda>P. concat (map f P)) L) = concat (map f (concat L))" for L
    by (induction L) auto
  then show ?thesis by (simp add: concat_chunks [OF \<open>0 < c\<close>])
qed

section \<open>The two-stage search, query by query\<close>

text \<open>The specification: every query gets its own candidates and its own rerank.\<close>

definition two_stage_rows ::
  "('rq, 'sb) ordvec \<Rightarrow> ('sb \<Rightarrow> f32 list \<Rightarrow> nat \<Rightarrow> nat list) \<Rightarrow> 'rq \<Rightarrow> 'sb \<Rightarrow> f32 list \<Rightarrow> nat \<Rightarrow> nat \<Rightarrow> nat \<Rightarrow>
     (f32 list \<times> int list) list" where
  "two_stage_rows A cand rankquant sign queries effective_k pool dim =
     map (\<lambda>q. rq_search_subset A rankquant q (cand sign q pool) effective_k) (chunks dim queries)"

definition rows_results :: "(f32 list \<times> int list) list \<Rightarrow> nat \<Rightarrow> nat \<Rightarrow> search_results" where
  "rows_results rows nq k =
     \<lparr>sr_scores = concat (map fst rows), sr_indices = concat (map snd rows), sr_nq = nq, sr_k = k\<rparr>"

lemma chunk_rows_pos: "0 < two_stage_query_chunk_rows rt n nq"
  by (simp add: two_stage_query_chunk_rows_def Let_def less_max_iff_disj)

lemma map2_map_self: "map2 h xs (map u xs) = map (\<lambda>x. h x (u x)) xs"
  by (induction xs) auto

lemma search_two_stage_eq:
  assumes S: "search_ok A R cand"
    and dims: "rq_dim A rq = dim" "sb_dim A sg = dim" "length (rd_srows R sg) = length (rd_rows R rq)"
    and q: "0 < dim" "dim dvd length queries" "list_all valid_coord queries"
    and k: "0 < k" "length queries div dim * k \<le> usize_max"
  shows "search_two_stage A rt rq sg queries k pool (length queries div dim) dim =
    Ok (rows_results (two_stage_rows A cand rq sg queries k pool dim) (length queries div dim) k)"
proof -
  define c where "c = two_stage_query_chunk_rows rt pool (length queries div dim)"
  define rows where "rows = chunks dim queries"
  define g where "g = (\<lambda>q. rq_search_subset A rq q (cand sg q pool) k)"
  define f where "f = (\<lambda>query_chunk. let (offsets, candidates) = sb_top_m A sg query_chunk pool
      in rq_subset_batched A rq query_chunk offsets candidates k)"
  have c: "0 < c" by (simp add: c_def chunk_rows_pos)
  have rows: "query_rows dim rows" unfolding rows_def by (rule query_rows_chunks [OF q])
  have one: "f (concat P) = (concat (map (fst \<circ> g) P), concat (map (snd \<circ> g) P))"
    if "P \<in> set (chunks c rows)" for P
  proof -
    let ?L = "map (\<lambda>q. cand sg q pool) P"
    have P: "query_rows dim P"
      using rows by (rule query_rows_subset) (rule chunks_subset [OF c that])
    then have top: "sb_top_m A sg (concat P) pool = (csr_offsets ?L, concat ?L)"
      using search_ok_top_m [OF S] dims by simp
    have "set (concat ?L) \<subseteq> {..<length (rd_rows R rq)}"
      using search_ok_cand [OF S, of sg _ pool] dims by auto
    with search_ok_batched [OF S, of rq P ?L k] P dims
    have "rq_subset_batched A rq (concat P) (csr_offsets ?L) (concat ?L) k =
        (concat (map2 (\<lambda>q l. fst (rq_search_subset A rq q l k)) P ?L),
         concat (map2 (\<lambda>q l. snd (rq_search_subset A rq q l k)) P ?L))"
      by simp
    then show ?thesis using top by (simp add: f_def g_def comp_def map2_map_self)
  qed
  have "chunks (c * dim) queries = map concat (chunks c rows)"
    unfolding rows_def by (rule chunks_mult [OF c q(1,2)])
  then have outs: "map f (chunks (c * dim) queries) =
      map (\<lambda>P. (concat (map (fst \<circ> g) P), concat (map (snd \<circ> g) P))) (chunks c rows)"
    using one by simp
  have "concat (map fst (map f (chunks (c * dim) queries))) = concat (map (fst \<circ> g) rows)"
    "concat (map snd (map f (chunks (c * dim) queries))) = concat (map (snd \<circ> g) rows)"
    unfolding outs using concat_chunks_map [OF c] by (simp_all add: comp_def)
  then show ?thesis
    using k by (simp add: search_two_stage_def result_buffer_len_def Let_def outcome_simps
        c_def [symmetric] f_def rows_results_def two_stage_rows_def g_def rows_def comp_def)
qed

lemma length_concat_const: "(\<forall>x\<in>set xs. length x = k) \<Longrightarrow> length (concat xs) = length xs * k"
  by (induction xs) auto

lemma rows_results_ok:
  assumes S: "search_ok A R cand" and Q: "query_rows (rq_dim A rq) Q"
    and C: "\<And>q. q \<in> set Q \<Longrightarrow> set (cs q) \<subseteq> {..<length (rd_rows R rq)}"
    and rows_def: "rows = map (\<lambda>q. rq_search_subset A rq q (cs q) k) Q"
  shows "length (concat (map fst rows)) = length Q * k"
    and "length (concat (map snd rows)) = length Q * k"
    and "slots_ok (\<Union>q\<in>set Q. set (cs q)) (concat (map snd rows))"
proof -
  have one: "length (fst (rq_search_subset A rq q (cs q) k)) = k"
    "length (snd (rq_search_subset A rq q (cs q) k)) = k"
    "slots_ok (set (cs q)) (snd (rq_search_subset A rq q (cs q) k))" if "q \<in> set Q" for q
  proof -
    have "query_rows (rq_dim A rq) [q]" using Q that by (auto simp: query_rows_def)
    from search_ok_subset [OF S this C [OF that], of k]
    show "length (fst (rq_search_subset A rq q (cs q) k)) = k"
      "length (snd (rq_search_subset A rq q (cs q) k)) = k"
      "slots_ok (set (cs q)) (snd (rq_search_subset A rq q (cs q) k))" .
  qed
  show "length (concat (map fst rows)) = length Q * k"
    by (subst length_concat_const [of _ k]) (use one in \<open>auto simp: rows_def\<close>)
  show "length (concat (map snd rows)) = length Q * k"
    by (subst length_concat_const [of _ k]) (use one in \<open>auto simp: rows_def\<close>)
  show "slots_ok (\<Union>q\<in>set Q. set (cs q)) (concat (map snd rows))"
    using one(3) unfolding slots_ok_def rows_def by fastforce
qed

lemma slots_ok_mono: "slots_ok S xs \<Longrightarrow> S \<subseteq> T \<Longrightarrow> slots_ok T xs"
  by (auto simp: slots_ok_def)

section \<open>The checked searches\<close>

definition queries_ok :: "f32 list \<Rightarrow> nat \<Rightarrow> bool" where
  "queries_ok queries dim \<longleftrightarrow> 0 < dim \<and> dim dvd length queries \<and> list_all valid_coord queries"

lemma validate_query_buffer_Ok:
  "validate_query_buffer queries dim = Ok nq \<longleftrightarrow> queries_ok queries dim \<and> nq = length queries div dim"
  using first_invalid_None [of queries dim]
  by (auto simp: validate_query_buffer_def queries_ok_def is_multiple_of_dvd split: option.splits)

lemma validate_query_buffer_not_Panic: "validate_query_buffer queries dim \<noteq> Panic"
  by (auto simp: validate_query_buffer_def split: option.splits)

lemma assert_queries_eq:
  "assert_queries queries dim =
     (if queries_ok queries dim then Ok (length queries div dim) else Panic)"
proof -
  have "length queries = length queries div dim * dim \<longleftrightarrow> dim dvd length queries"
    by (metis dvd_div_mult_self dvd_triv_right)
  then show ?thesis
    by (auto simp: assert_queries_def queries_ok_def assert_valid_values_eq Let_def outcome_simps)
qed

definition results_ok :: "nat set \<Rightarrow> nat \<Rightarrow> nat \<Rightarrow> search_results \<Rightarrow> bool" where
  "results_ok S nq k res \<longleftrightarrow>
     sr_nq res = nq \<and> sr_k res = k \<and> length (sr_scores res) = nq * k \<and>
     length (sr_indices res) = nq * k \<and> slots_ok S (sr_indices res)"

lemma empty_results_ok: "results_ok S nq 0 (empty_results nq)"
  by (simp add: results_ok_def empty_results_def slots_ok_def)

text \<open>The plan a search resolves to, and when it resolves to none.\<close>

definition uses_sign :: "('rq, 'sb) ordinal_index \<Rightarrow> dense_search_options \<Rightarrow> bool" where
  "uses_sign idx options \<longleftrightarrow>
     so_mode options = SignTwoStage \<or> so_mode options = Auto \<and> oi_has_sign_sidecar idx"

definition plan_error ::
  "('rq, 'sb) ordvec \<Rightarrow> ('rq, 'sb) ordinal_index \<Rightarrow> nat \<Rightarrow> dense_search_options \<Rightarrow> 'x dense_error option" where
  "plan_error A idx k options =
     (if so_mode options = SignTwoStage \<and> \<not> oi_has_sign_sidecar idx then Some MissingSignSidecar
      else if uses_sign idx options \<and> 0 < min k (oi_len A idx) \<and>
        candidate_count (so_two_stage options) (min k (oi_len A idx)) (oi_len A idx) = 0
      then Some (Limit ''two-stage candidate_count must be > 0 for non-empty searches'')
      else None)"

definition resolved_plan ::
  "('rq, 'sb) ordvec \<Rightarrow> ('rq, 'sb) ordinal_index \<Rightarrow> nat \<Rightarrow> nat \<Rightarrow> nat \<Rightarrow> dense_search_options \<Rightarrow>
     dense_search_plan" where
  "resolved_plan A idx k nq dim options =
     (let n = oi_len A idx; ek = min k n; pool = candidate_count (so_two_stage options) ek n in
      \<lparr>sp_execution = (if uses_sign idx options then ExecTwoStage else ExecExact), sp_dim = dim,
       sp_query_count = nq, sp_requested_k = k,
       sp_effective_k = (if uses_sign idx options then min ek pool else ek), sp_search_space = n,
       sp_candidate_count = (if uses_sign idx options then Some pool else None)\<rparr>)"

lemma oi_search_validated_with_plan_eq:
  assumes ok: "oi_ok A R idx" and S: "search_ok A R cand" and d: "oi_dim idx = Some dim"
    and q: "queries_ok queries dim" and fits: "length queries div dim * min k (oi_len A idx) \<le> usize_max"
  shows "case plan_error A idx k options of
      Some e \<Rightarrow> oi_search_validated_with_plan A rt idx queries k (length queries div dim) dim options = Err e
    | None \<Rightarrow> \<exists>res. oi_search_validated_with_plan A rt idx queries k (length queries div dim) dim options =
          Ok (res, resolved_plan A idx k (length queries div dim) dim options) \<and>
        results_ok {..<oi_len A idx} (length queries div dim)
          (sp_effective_k (resolved_plan A idx k (length queries div dim) dim options)) res"
proof -
  let ?nq = "length queries div dim"
  have q': "0 < dim" "dim dvd length queries" "list_all valid_coord queries"
    using q by (auto simp: queries_ok_def)
  obtain r where r: "oi_inner idx = Some r"
    using oi_inv_lazy [OF oi_ok_ordvec(3) [OF ok]] d by (cases "oi_inner idx") auto
  have dim: "rq_dim A r = dim"
    and sg: "\<And>s. oi_sign idx = Some s \<Longrightarrow> sb_dim A s = dim \<and> length (rd_srows R s) = length (rd_rows R r)"
    using oi_inv_committed [OF oi_ok_ordvec(3) [OF ok] r] d by (metis option.inject)+
  have n: "oi_len A idx = length (rd_rows R r)" "rq_len A r = oi_len A idx"
    using r rankquant_len [OF oi_ok_ordvec(1) [OF ok]] by (simp_all add: oi_len_def)
  let ?Q = "chunks dim queries"
  have Q: "query_rows dim ?Q" by (rule query_rows_chunks [OF q'])
  have lenQ: "length ?Q = ?nq" by (rule length_chunks [OF q'(1,2)])
  have exact: "results_ok {..<oi_len A idx} ?nq (min k (oi_len A idx))
      (rq_search_asymmetric A r queries (min k (oi_len A idx)))"
    using search_ok_asymmetric [OF S, of r ?Q "min k (oi_len A idx)"] Q dim n lenQ
    by (simp add: results_ok_def concat_chunks q' Let_def)
  show ?thesis
  proof (cases "uses_sign idx options")
    case False
    then have "so_mode options = ExactRankQuant \<or> so_mode options = Auto \<and> oi_sign idx = None"
      by (cases "so_mode options") (auto simp: uses_sign_def oi_has_sign_sidecar_def)
    then show ?thesis
      using False r n exact
      by (auto simp: plan_error_def uses_sign_def resolved_plan_def oi_search_validated_with_plan_def
          Let_def oi_has_sign_sidecar_def)
  next
    case True
    show ?thesis
    proof (cases "oi_sign idx")
      case None
      then have "so_mode options = SignTwoStage"
        using True by (auto simp: uses_sign_def oi_has_sign_sidecar_def)
      then show ?thesis
        using r None
        by (simp add: plan_error_def oi_search_validated_with_plan_def oi_has_sign_sidecar_def Let_def)
    next
      case (Some s)
      define ek where "ek = min k (oi_len A idx)"
      define pool where "pool = candidate_count (so_two_stage options) ek (oi_len A idx)"
      have use: "(case so_mode options of Auto \<Rightarrow> Ok (oi_sign idx) | ExactRankQuant \<Rightarrow> Ok None
            | SignTwoStage \<Rightarrow> obind (ok_or MissingSignSidecar (oi_sign idx)) (\<lambda>s. Ok (Some s))) = Ok (Some s)"
        using True Some by (auto simp: uses_sign_def split: dense_search_mode.splits)
      show ?thesis
      proof (cases "0 < ek \<and> pool = 0")
        case zero: True
        then have err: "plan_error A idx k options =
            Some (Limit ''two-stage candidate_count must be > 0 for non-empty searches'')"
          using True Some by (simp add: plan_error_def ek_def pool_def oi_has_sign_sidecar_def)
        have "oi_search_validated_with_plan A rt idx queries k ?nq dim options =
            Err (Limit ''two-stage candidate_count must be > 0 for non-empty searches'')"
          using r zero by (simp add: oi_search_validated_with_plan_def use n ek_def pool_def Let_def)
        then show ?thesis unfolding err by simp
      next
        case False
        have none: "plan_error A idx k options = None"
          using True Some False by (auto simp: plan_error_def ek_def pool_def oi_has_sign_sidecar_def)
        have plan: "resolved_plan A idx k ?nq dim options =
            \<lparr>sp_execution = ExecTwoStage, sp_dim = dim, sp_query_count = ?nq, sp_requested_k = k,
             sp_effective_k = min ek pool, sp_search_space = oi_len A idx, sp_candidate_count = Some pool\<rparr>"
          using True by (simp add: resolved_plan_def Let_def ek_def pool_def)
        have run: "oi_search_validated_with_plan A rt idx queries k ?nq dim options =
            obind (search_two_stage A rt r s queries (min ek pool) pool ?nq dim)
              (\<lambda>results. Ok (results, resolved_plan A idx k ?nq dim options))"
          using r False unfolding plan
          by (auto simp: oi_search_validated_with_plan_def use n ek_def pool_def Let_def)
        show ?thesis
        proof (cases "min ek pool = 0")
          case True
          then show ?thesis
            unfolding run none using empty_results_ok plan
            by (simp add: search_two_stage_def)
        next
          case False
          have "?nq * min ek pool \<le> ?nq * min k (oi_len A idx)"
            unfolding ek_def by (rule mult_left_mono) (rule min.cobounded1, simp)
          then have lim: "?nq * min ek pool \<le> usize_max" using fits by linarith
          have C: "set (cand s q pool) \<subseteq> {..<length (rd_rows R r)}" for q
            using search_ok_cand [OF S, of s q pool] sg [OF Some] by simp
          have ts: "search_two_stage A rt r s queries (min ek pool) pool ?nq dim =
              Ok (rows_results (two_stage_rows A cand r s queries (min ek pool) pool dim) ?nq (min ek pool))"
            by (rule search_two_stage_eq [OF S dim _ _ q' _ lim]) (use sg [OF Some] False in simp_all)
          have "results_ok {..<oi_len A idx} ?nq (min ek pool)
              (rows_results (two_stage_rows A cand r s queries (min ek pool) pool dim) ?nq (min ek pool))"
          proof -
            have Q': "query_rows (rq_dim A r) ?Q" using Q dim by simp
            note ok3 = rows_results_ok [OF S Q' C refl, where k = "min ek pool"]
            have "slots_ok {..<oi_len A idx} (concat (map snd (map (\<lambda>q. rq_search_subset A r q
                (cand s q pool) (min ek pool)) ?Q)))"
              by (rule slots_ok_mono [OF ok3(3)]) (use C n in auto)
            then show ?thesis
              using ok3(1,2) lenQ by (simp add: results_ok_def rows_results_def two_stage_rows_def)
          qed
          then show ?thesis unfolding run none plan by (simp add: ts)
        qed
      qed
    qed
  qed
qed

lemma oi_search_checked_report:
  "oi_search_checked_with_options A rt idx queries k options =
     obind (oi_search_with_report A rt idx queries k options) (\<lambda>(results, _). Ok results)"
  by (simp add: oi_search_checked_with_options_def oi_search_with_report_def obind_assoc
      split: option.split)

lemma checked_result_buffer_len_cases:
  "checked_result_buffer_len nq k =
     (if nq * k \<le> usize_max then Ok (nq * k)
      else Err (Limit ''nq * k overflow while allocating search results''))"
  by (simp add: checked_result_buffer_len_def checked_mul_def)

definition fits_buffer :: "f32 list \<Rightarrow> nat \<Rightarrow> nat \<Rightarrow> bool" where
  "fits_buffer queries dim k \<longleftrightarrow> length queries div dim * k \<le> usize_max"

lemma oi_search_with_report_cases:
  assumes ok: "oi_ok A R idx" and S: "search_ok A R cand" and d: "oi_dim idx = Some dim"
  obtains (bad) e :: "'x dense_error" where "\<not> queries_ok queries dim \<or> \<not> fits_buffer queries dim (min k (oi_len A idx))"
      "oi_search_with_report A rt idx queries k options = Err e"
      "oi_search_checked_with_options A rt idx queries k options = Err e"
  | (err) e :: "'x dense_error" where "queries_ok queries dim" "fits_buffer queries dim (min k (oi_len A idx))"
      "plan_error A idx k options = Some e"
      "oi_search_with_report A rt idx queries k options = Err e"
      "oi_search_checked_with_options A rt idx queries k options = Err e"
  | (res) res where "queries_ok queries dim" "fits_buffer queries dim (min k (oi_len A idx))"
      "plan_error A idx k options = (None :: 'x dense_error option)"
      "oi_search_with_report A rt idx queries k options =
         (Ok (res, resolved_plan A idx k (length queries div dim) dim options)
           :: ('x dense_error, search_results \<times> dense_search_plan) outcome)"
      "oi_search_checked_with_options A rt idx queries k options =
         (Ok res :: ('x dense_error, search_results) outcome)"
      "results_ok {..<oi_len A idx} (length queries div dim)
         (sp_effective_k (resolved_plan A idx k (length queries div dim) dim options)) res"
proof (cases "queries_ok queries dim")
  case False
  then obtain e where "validate_query_buffer queries dim = (Err e :: ('x dense_error, nat) outcome)"
    using validate_query_buffer_Ok [of queries dim, where ?'a = 'x] validate_query_buffer_not_Panic
    by (cases "validate_query_buffer queries dim :: ('x dense_error, nat) outcome") auto
  then show ?thesis
    using False d bad [of e] by (simp add: oi_search_checked_report oi_search_with_report_def)
next
  case True
  then have v: "validate_query_buffer queries dim = Ok (length queries div dim)"
    by (simp add: validate_query_buffer_Ok)
  show ?thesis
  proof (cases "fits_buffer queries dim (min k (oi_len A idx))")
    case False
    then show ?thesis
      using d bad by (simp add: oi_search_checked_report oi_search_with_report_def v
          checked_result_buffer_len_cases fits_buffer_def)
  next
    case fits: True
    have run: "oi_search_with_report A rt idx queries k options =
        oi_search_validated_with_plan A rt idx queries k (length queries div dim) dim options"
      using d fits by (simp add: oi_search_with_report_def v checked_result_buffer_len_cases fits_buffer_def)
    note eq = oi_search_validated_with_plan_eq [OF ok S d True fits [unfolded fits_buffer_def],
        where options = options and rt = rt and ?'e = 'x]
    show ?thesis
    proof (cases "plan_error A idx k options :: 'x dense_error option")
      case None
      with eq obtain r where "oi_search_validated_with_plan A rt idx queries k (length queries div dim) dim options =
          (Ok (r, resolved_plan A idx k (length queries div dim) dim options) ::
            ('x dense_error, search_results \<times> dense_search_plan) outcome)"
        "results_ok {..<oi_len A idx} (length queries div dim)
         (sp_effective_k (resolved_plan A idx k (length queries div dim) dim options)) r"
        by auto
      then show ?thesis
        using res [OF True fits None] by (simp add: oi_search_checked_report run)
    next
      case (Some e)
      with eq show ?thesis
        using err [OF True fits Some] by (simp add: oi_search_checked_report run)
    qed
  qed
qed

section \<open>Restricted searches\<close>

lemma oi_search_with_candidates_eq:
  assumes ok: "oi_ok A R idx" and S: "search_ok A R cand" and d: "oi_dim idx = Some dim"
    and q: "queries_ok queries dim" and c: "set cs \<subseteq> {..<oi_len A idx}"
    and fits: "fits_buffer queries dim (min k (length cs))"
  shows "\<exists>res. oi_search_with_candidates A idx queries k cs = Ok res \<and>
    results_ok (set cs) (length queries div dim) (min k (length cs)) res"
proof (cases "min k (length cs) = 0")
  case True
  then show ?thesis
    using d q c empty_results_ok [of "set cs" "length queries div dim"]
    by (auto simp: oi_search_with_candidates_def assert_queries_eq Let_def list_all_iff)
next
  case False
  have q': "0 < dim" "dim dvd length queries" "list_all valid_coord queries"
    using q by (auto simp: queries_ok_def)
  obtain r where r: "oi_inner idx = Some r"
    using oi_inv_lazy [OF oi_ok_ordvec(3) [OF ok]] d by (cases "oi_inner idx") auto
  have dim: "rq_dim A r = dim"
    using oi_inv_committed [OF oi_ok_ordvec(3) [OF ok] r] d by (metis option.inject)
  have n: "oi_len A idx = length (rd_rows R r)"
    using r rankquant_len [OF oi_ok_ordvec(1) [OF ok]] by (simp add: oi_len_def)
  let ?Q = "chunks dim queries"
  have Q: "query_rows (rq_dim A r) ?Q" unfolding dim by (rule query_rows_chunks [OF q'])
  have lenQ: "length ?Q = length queries div dim" by (rule length_chunks [OF q'(1,2)])
  have C: "set cs \<subseteq> {..<length (rd_rows R r)}" using c n by simp
  note ok3 = rows_results_ok [OF S Q C refl, where k = "min k (length cs)"]
  define res where "res = rows_results (map (\<lambda>q. rq_search_subset A r q cs (min k (length cs))) ?Q)
    (length queries div dim) (min k (length cs))"
  have "results_ok (set cs) (length queries div dim) (min k (length cs)) res"
    using ok3(1,2) slots_ok_mono [OF ok3(3), of "set cs"] lenQ
    by (auto simp: results_ok_def rows_results_def res_def)
  moreover obtain m where m: "min k (length cs) = Suc m" using False not0_implies_Suc by blast
  have "oi_search_with_candidates A idx queries k cs = Ok res"
    using d q c r fits
    by (simp add: oi_search_with_candidates_def assert_queries_eq Let_def list_all_iff subset_eq m
        search_repeated_candidates_parallel_def result_buffer_len_def fits_buffer_def outcome_simps
        res_def rows_results_def del: mult_Suc_right)
  ultimately show ?thesis by blast
qed

lemma find_None_subset: "find (\<lambda>c. n \<le> c) cs = None \<longleftrightarrow> set cs \<subseteq> {..<n}" for n :: nat
  by (induction cs) auto

lemma oi_search_checked_with_candidates_cases:
  assumes ok: "oi_ok A R idx" and S: "search_ok A R cand" and d: "oi_dim idx = Some dim"
  shows "case oi_search_checked_with_candidates A idx queries k cs of
      Ok res \<Rightarrow> queries_ok queries dim \<and> set cs \<subseteq> {..<oi_len A idx} \<and>
        results_ok (set cs) (length queries div dim) (min k (length cs)) res
    | Err e \<Rightarrow> \<not> queries_ok queries dim \<or> \<not> fits_buffer queries dim (min k (length cs)) \<or>
        \<not> set cs \<subseteq> {..<oi_len A idx}
    | Panic \<Rightarrow> False"
proof (cases "queries_ok queries dim")
  case False
  then obtain e where "validate_query_buffer queries dim = (Err e :: ('e dense_error, nat) outcome)"
    using validate_query_buffer_Ok [of queries dim, where ?'a = 'e] validate_query_buffer_not_Panic
    by (cases "validate_query_buffer queries dim :: ('e dense_error, nat) outcome") auto
  then show ?thesis using d False by (simp add: oi_search_checked_with_candidates_def)
next
  case True
  then have v: "validate_query_buffer queries dim = Ok (length queries div dim)"
    by (simp add: validate_query_buffer_Ok)
  show ?thesis
  proof (cases "fits_buffer queries dim (min k (length cs))")
    case False
    then show ?thesis
      using d by (simp add: oi_search_checked_with_candidates_def v checked_result_buffer_len_cases
          fits_buffer_def)
  next
    case fits: True
    show ?thesis
    proof (cases "find (\<lambda>c. oi_len A idx \<le> c) cs")
      case None
      then have c: "set cs \<subseteq> {..<oi_len A idx}" by (simp add: find_None_subset)
      from oi_search_with_candidates_eq [OF ok S d True c fits] obtain res
        where "oi_search_with_candidates A idx queries k cs = (Ok res :: ('e dense_error, _) outcome)"
          "results_ok (set cs) (length queries div dim) (min k (length cs)) res"
        by blast
      then show ?thesis
        using d fits None c True
        by (simp add: oi_search_checked_with_candidates_def v checked_result_buffer_len_cases fits_buffer_def)
    next
      case (Some c)
      then have "\<not> set cs \<subseteq> {..<oi_len A idx}"
        using find_None_subset [of "oi_len A idx" cs] by simp
      then show ?thesis
        using d fits Some
        by (simp add: oi_search_checked_with_candidates_def v checked_result_buffer_len_cases fits_buffer_def)
    qed
  qed
qed

lemma oi_allowlist_slot_Ok:
  "oi_allowlist_slot A idx x = Ok slot \<longleftrightarrow>
     unat x < oi_len A idx \<and> unat x \<le> u32_max \<and> slot = unat x"
  by (auto simp: oi_allowlist_slot_def u32_try_from_def Let_def outcome_simps)

lemma oi_allowlist_slot_not_Panic: "oi_allowlist_slot A idx x \<noteq> Panic"
  by (auto simp: oi_allowlist_slot_def u32_try_from_def Let_def outcome_simps)

lemma allowlist_slots:
  "traverse (oi_allowlist_slot A idx) ids = Ok cs \<longleftrightarrow>
     (\<forall>x\<in>set ids. unat x < oi_len A idx \<and> unat x \<le> u32_max) \<and> cs = map unat ids"
  by (induction ids arbitrary: cs) (auto simp: outcome_simps oi_allowlist_slot_Ok)

section \<open>Properties\<close>

definition plain_cand :: "plain_sb \<Rightarrow> f32 list \<Rightarrow> nat \<Rightarrow> nat list" where
  "plain_cand s q m = [0..<min m (length (snd s))]"

lemma slots_ok_pad: "slots_ok S (map int (take k cs) @ replicate j (- 1))" if "set cs \<subseteq> S"
  using that by (auto simp: slots_ok_def dest: in_set_takeD)

lemma concat_replicate_length: "length (concat (replicate n xs)) = n * length xs"
  by (induction n) auto

lemma chunks_of_rows: "0 < d \<Longrightarrow> (\<forall>q\<in>set Q. length q = d) \<Longrightarrow> chunks d (concat Q) = Q"
proof (induction Q)
  case (Cons q Q)
  then have "q \<noteq> []" by auto
  then show ?case
    using Cons chunks_step [of "q @ concat Q" d] by simp
qed simp

lemma map2_snd: "length xs = length ys \<Longrightarrow> map2 (\<lambda>x y. h y) xs ys = map h ys"
  by (induction xs ys rule: list_induct2) auto

lemma plain_search_ok: "search_ok plain_ordvec plain_reading plain_cand"
proof -
  let ?A = "plain_ordvec"
  have rows: "length (chunks d (concat Q)) = length Q" if "query_rows d Q" for d Q
    using that by (simp add: query_rows_def chunks_of_rows)
  have len: "length (fst (plain_subset r cs k)) = k" "length (snd (plain_subset r cs k)) = k" for r cs k
    by (simp_all add: plain_subset_def Let_def)
  have slots: "slots_ok (set cs) (snd (plain_subset r cs k))" for r cs k
    by (simp add: plain_subset_def Let_def slots_ok_pad)
  have slots_all: "slots_ok S (concat (replicate n xs))" if "slots_ok S xs" for S n xs
    using that by (auto simp: slots_ok_def)
  have asym: "let res = rq_search_asymmetric ?A r (concat Q) k in
      sr_nq res = length Q \<and> sr_k res = k \<and> length (sr_scores res) = length Q * k \<and>
      length (sr_indices res) = length Q * k \<and> slots_ok {..<length (snd (snd r))} (sr_indices res)"
    if "query_rows (fst r) Q" for r Q k
    using rows [OF that] len [of r "[0..<length (snd (snd r))]" k]
      slots_all [OF slots [of "[0..<length (snd (snd r))]" r k], of "length Q"]
    by (simp add: plain_ordvec_def Let_def split_beta concat_replicate_length atLeast0LessThan)
  have batched: "plain_batched r (concat Q) (csr_offsets L) (concat L) k =
      (concat (map2 (\<lambda>q l. fst (plain_subset r l k)) Q L), concat (map2 (\<lambda>q l. snd (plain_subset r l k)) Q L))"
    if "length L = length Q" for r Q L k
  proof -
    have "map (\<lambda>(a, b). plain_subset r (drop a (take b (concat L))) k) (windows2 (csr_offsets L)) =
        map (\<lambda>l. plain_subset r l k) (map (\<lambda>(a, b). drop a (take b (concat L))) (windows2 (csr_offsets L)))"
      by (simp add: split_beta comp_def)
    then have eq: "map (\<lambda>(a, b). plain_subset r (drop a (take b (concat L))) k) (windows2 (csr_offsets L)) =
        map (\<lambda>l. plain_subset r l k) L"
      by (simp only: csr_slices)
    show ?thesis by (simp add: map2_snd [OF that [symmetric]] plain_batched_def eq Let_def comp_def)
  qed
  have top: "sb_top_m ?A s (concat Q) m =
      (csr_offsets (map (\<lambda>q. plain_cand s q m) Q), concat (map (\<lambda>q. plain_cand s q m) Q))"
    if "query_rows (fst s) Q" for s Q m
  proof -
    have "map (\<lambda>q. plain_cand s q m) Q = replicate (length Q) [0..<min m (length (snd s))]"
      by (simp add: plain_cand_def map_replicate_const)
    moreover have "csr_offsets (replicate (length Q) [0..<w]) = map (\<lambda>i. i * w) [0..<Suc (length Q)]" for w
      by (auto simp: csr_offsets_def take_replicate concat_replicate_length min_def simp del: upt_Suc)
    ultimately show ?thesis
      using rows [OF that] by (simp add: plain_ordvec_def Let_def)
  qed
  have sel: "rq_dim ?A r = fst r" "rq_search_subset ?A r q cs k = plain_subset r cs k"
    "rq_subset_batched ?A = plain_batched" "sb_dim ?A s = fst s" for r q cs k s
    by (simp_all add: plain_ordvec_def)
  have rd: "rd_rows plain_reading r = snd (snd r)" "rd_srows plain_reading s = snd s" for r s
    by (simp_all add: plain_reading_def)
  show ?thesis
    unfolding search_ok_def sel rd
    using asym len slots batched top by (auto simp: plain_cand_def)
qed

text \<open>An index of dimension 64 with a sidecar and no rows, for the examples.\<close>

definition ex_runtime :: runtime where
  "ex_runtime = \<lparr>rt_tile_floor_env = None, rt_threads = 4\<rparr>"

definition ex_sign_index :: "(plain_rq, plain_sb) ordinal_index" where
  "ex_sign_index = \<lparr>oi_dim = Some 64, oi_bits = 2, oi_inner = Some (64, 2, []),
     oi_sign = Some (64, []), oi_sign_policy = SignOptional\<rparr>"

lemma ex_sign_index_ok: "oi_ok plain_ordvec plain_reading ex_sign_index"
proof -
  have "sign_compatible 64 2" by (simp add: sign_compatible_iff)
  moreover have "rankquant_compatible 64 2" using calculation by (rule sign_compatible_rankquant)
  ultimately show ?thesis
    using plain_ordvec_ok
    by (simp add: oi_ok_def oi_inv_def ex_sign_index_def plain_ordvec_def plain_reading_def)
qed





text \<open>
  C27. The checked search with its report: on a committed index it never panics. It succeeds exactly
  when the query buffer is whole rows of valid coordinates, the result buffer is representable and
  the plan resolves; then the plan is the resolved one, the buffers have \<open>nq\<close> rows of the plan's
  \<open>k\<close>, every slot it returns is a row of the index (or \<open>-1\<close>), and the search without the report
  returns the same results.
\<close>

theorem oi_search_with_report_exact:
  assumes "oi_ok A R idx" and "search_ok A R cand" and "oi_dim idx = Some dim"
  shows "case oi_search_with_report A rt idx queries k options of
      Ok (res, plan) \<Rightarrow> queries_ok queries dim \<and> fits_buffer queries dim (min k (oi_len A idx)) \<and>
        plan_error A idx k options = (None :: 'x dense_error option) \<and>
        plan = resolved_plan A idx k (length queries div dim) dim options \<and>
        results_ok {..<oi_len A idx} (length queries div dim) (sp_effective_k plan) res \<and>
        oi_search_checked_with_options A rt idx queries k options = (Ok res :: ('x dense_error, _) outcome)
    | Err e \<Rightarrow> (\<not> queries_ok queries dim \<or> \<not> fits_buffer queries dim (min k (oi_len A idx)) \<or>
        plan_error A idx k options = Some e) \<and>
        oi_search_checked_with_options A rt idx queries k options = (Err e :: ('x dense_error, _) outcome)
    | Panic \<Rightarrow> False"
  by (cases rule: oi_search_with_report_cases [OF assms, of queries k rt options, where ?'x = 'x]) auto

theorem oi_search_with_report_exact_witness:
  "case oi_search_with_report plain_ordvec ex_runtime ex_sign_index [] 5 search_options_default of
     Ok (res, plan) \<Rightarrow> sp_execution plan = ExecTwoStage \<and> sr_nq res = 0
   | Err (e :: unit dense_error) \<Rightarrow> False
   | Panic \<Rightarrow> False"
proof -
  have "oi_dim ex_sign_index = Some 64" by (simp add: ex_sign_index_def)
  moreover have "oi_len plain_ordvec ex_sign_index = 0"
    by (simp add: oi_len_def ex_sign_index_def plain_ordvec_def)
  moreover have "uses_sign ex_sign_index search_options_default"
    by (simp add: uses_sign_def search_options_default_def oi_has_sign_sidecar_def ex_sign_index_def)
  ultimately show ?thesis
    using oi_search_with_report_exact [OF ex_sign_index_ok plain_search_ok, where dim = 64 and rt = ex_runtime
        and queries = "[]" and k = 5 and options = search_options_default and ?'x = unit]
    by (auto simp: plan_error_def queries_ok_def fits_buffer_def resolved_plan_def Let_def
        search_options_default_def results_ok_def split: outcome.splits)
qed

text \<open>
  With the default options the pool never limits the answer: the plan resolves on every index,
  whether it has a sidecar or not, its \<open>k\<close> is the requested one clamped to the number of rows, and
  the pool is at least that and at most the number of rows.
\<close>

theorem default_plan_keeps_k:
  assumes "k \<le> usize_max"
  shows "plan_error A idx k search_options_default = (None :: 'x dense_error option) \<and>
    sp_effective_k (resolved_plan A idx k nq dim search_options_default) = min k (oi_len A idx) \<and>
    (case sp_candidate_count (resolved_plan A idx k nq dim search_options_default) of
       None \<Rightarrow> True | Some pool \<Rightarrow> min k (oi_len A idx) \<le> pool \<and> pool \<le> oi_len A idx)"
proof -
  define n where "n = oi_len A idx"
  define ek where "ek = min k n"
  have "ek \<le> saturating_mul ek 32"
    using assms by (simp add: ek_def saturating_mul_def)
  then have pool: "ek \<le> candidate_count two_stage_default ek n" "candidate_count two_stage_default ek n \<le> n"
    by (auto simp: candidate_count_def two_stage_default_def two_stage_k_multiplier_def Let_def ek_def)
  then have "min ek (candidate_count two_stage_default ek n) = ek" by simp
  with pool show ?thesis
    by (auto simp: plan_error_def resolved_plan_def search_options_default_def Let_def
        ek_def [symmetric] n_def [symmetric])
qed

theorem default_plan_keeps_k_witness:
  "sp_effective_k (resolved_plan plain_ordvec ex_sign_index 10 1 64 search_options_default) = 0"
proof -
  have "oi_len plain_ordvec ex_sign_index = 0"
    by (simp add: oi_len_def ex_sign_index_def plain_ordvec_def)
  then show ?thesis
    using default_plan_keeps_k [of 10 plain_ordvec ex_sign_index 1 64, where ?'x = unit] by (simp add: usize_max_def)
qed

text \<open>
  The panicking search is the checked one with its errors turned into panics, except that a
  two-stage search on an index without a sidecar falls back to the exact scan.
\<close>

theorem panicking_search_is_checked:
  assumes "oi_ok A R idx" and "search_ok A R cand" and "oi_dim idx = Some dim"
    and "fits_buffer queries dim (min k (oi_len A idx))"
  shows "oi_search_with_options A rt idx queries k options =
    (case (oi_search_checked_with_options A rt idx queries k options :: ('x dense_error, _) outcome) of
       Ok res \<Rightarrow> Ok res
     | Err MissingSignSidecar \<Rightarrow> oi_search_checked_with_options A rt idx queries k exact_rankquant
     | Err _ \<Rightarrow> Panic
     | Panic \<Rightarrow> (Panic :: ('x dense_error, search_results) outcome))"
proof (cases "queries_ok queries dim")
  case False
  then obtain e where e: "validate_query_buffer queries dim = (Err e :: ('x dense_error, nat) outcome)"
    using validate_query_buffer_Ok [of queries dim, where ?'a = 'x] validate_query_buffer_not_Panic
    by (cases "validate_query_buffer queries dim :: ('x dense_error, nat) outcome") auto
  then have "e \<noteq> MissingSignSidecar"
    by (auto simp: validate_query_buffer_def split: if_splits option.splits)
  then show ?thesis
    using assms(3) False e
    by (simp add: oi_search_with_options_def oi_search_checked_with_options_def assert_queries_eq
        split: dense_error.splits)
next
  case True
  then have v: "validate_query_buffer queries dim = Ok (length queries div dim)"
    by (simp add: validate_query_buffer_Ok)
  let ?run = "\<lambda>opt. (oi_search_validated_with_plan A rt idx queries k (length queries div dim) dim opt
    :: ('x dense_error, search_results \<times> dense_search_plan) outcome)"
  have checked: "oi_search_checked_with_options A rt idx queries k opt =
      obind (?run opt) (\<lambda>(results, _). Ok results)" for opt
    using assms(3,4) by (simp add: oi_search_checked_with_options_def v checked_result_buffer_len_cases
        fits_buffer_def)
  have plain: "oi_search_with_options A rt idx queries k options =
      oi_search_validated A rt idx queries k (length queries div dim) dim options"
    using assms(3) True by (simp add: oi_search_with_options_def assert_queries_eq)
  have "plan_error A idx k exact_rankquant = (None :: 'x dense_error option)"
    by (simp add: plan_error_def uses_sign_def exact_rankquant_def)
  then obtain res where ex: "?run exact_rankquant = Ok res"
    using oi_search_validated_with_plan_eq [OF assms(1-3) True assms(4) [unfolded fits_buffer_def],
        where options = exact_rankquant and rt = rt and ?'e = 'x] by auto
  show ?thesis
    unfolding plain checked oi_search_validated_def
    by (cases "?run options") (auto simp: ex split: dense_error.splits prod.splits)
qed

theorem panicking_search_is_checked_witness:
  "oi_search_with_options plain_ordvec ex_runtime ex_index [] 3 (sign_two_stage two_stage_default) =
   (oi_search_checked_with_options plain_ordvec ex_runtime ex_index [] 3 exact_rankquant ::
     (unit dense_error, search_results) outcome)"
proof -
  have "oi_dim ex_index = Some 4" by (simp add: ex_index_def)
  moreover have "fits_buffer [] 4 (min 3 (oi_len plain_ordvec ex_index))" by (simp add: fits_buffer_def)
  moreover have "oi_search_checked_with_options plain_ordvec ex_runtime ex_index [] 3 (sign_two_stage two_stage_default)
      = (Err MissingSignSidecar :: (unit dense_error, search_results) outcome)"
    by (simp add: oi_search_checked_with_options_def ex_index_def validate_query_buffer_def
        is_multiple_of_def first_invalid_coord_serial checked_result_buffer_len_cases
        oi_search_validated_with_plan_def sign_two_stage_def Let_def)
  ultimately show ?thesis
    using panicking_search_is_checked [OF ex_index_ok(1) plain_search_ok, where dim = 4 and rt = ex_runtime
        and queries = "[]" and k = 3 and options = "sign_two_stage two_stage_default" and ?'x = unit]
    by simp
qed

text \<open>
  Allowlist search of the slot-addressed index: it never panics, it fails when an entry is not
  a slot of the index, and every row it returns is on the list.
\<close>

theorem oi_allowlist_sound:
  assumes "oi_ok A R idx" and "search_ok A R cand" and "oi_dim idx = Some dim"
  shows "case (oi_search_checked_with_allowlist A rt idx queries k (Some ids) :: ('x dense_error, _) outcome) of
      Ok res \<Rightarrow> queries_ok queries dim \<and> (\<forall>x\<in>set ids. unat x < oi_len A idx) \<and>
        results_ok (unat ` set ids) (length queries div dim) (min k (card (set ids))) res
    | Err e \<Rightarrow> \<not> queries_ok queries dim \<or>
        (\<exists>x\<in>set ids. oi_len A idx \<le> unat x \<or> u32_max < unat x) \<or>
        \<not> fits_buffer queries dim (min k (card (set ids)))
    | Panic \<Rightarrow> False"
proof (cases "traverse (oi_allowlist_slot A idx) ids :: ('x dense_error, nat list) outcome")
  case (Ok cs)
  then have cs: "cs = map unat ids" "\<forall>x\<in>set ids. unat x < oi_len A idx"
    by (simp_all add: allowlist_slots)
  have inj: "inj_on (unat :: u64 \<Rightarrow> nat) (set ids)" by (rule inj_onI) (simp add: word_unat_eq_iff)
  have "length (sort_dedup cs) = card (set ids)"
    using cs distinct_card [OF distinct_sort_dedup [of cs]] card_image [OF inj] by simp
  moreover have "set (sort_dedup cs) = unat ` set ids" using cs by simp
  moreover have "unat ` set ids \<subseteq> {..<oi_len A idx}" using cs by auto
  ultimately show ?thesis
    using oi_search_checked_with_candidates_cases [OF assms, where queries = queries and k = k and cs = "sort_dedup cs" and ?'e = 'x]
      Ok cs
    by (auto simp: oi_search_checked_with_allowlist_def split: outcome.splits)
next
  case (Err e)
  from traverse_Err_elem [OF this] obtain x where "x \<in> set ids" "oi_allowlist_slot A idx x = (Err e :: ('x dense_error, nat) outcome)"
    by blast
  then have "oi_len A idx \<le> unat x \<or> u32_max < unat x"
    by (auto simp: oi_allowlist_slot_def Let_def u32_try_from_def outcome_simps split: if_splits)
  with \<open>x \<in> set ids\<close> show ?thesis
    using Err by (auto simp: oi_search_checked_with_allowlist_def)
next
  case Panic
  from traverse_Panic_elem [OF this] show ?thesis by (simp add: oi_allowlist_slot_not_Panic)
qed

theorem oi_allowlist_sound_witness:
  "case oi_search_checked_with_allowlist plain_ordvec ex_runtime ex_index ones 3 (Some [9]) of
     Ok res \<Rightarrow> False | Err (e :: unit dense_error) \<Rightarrow> True | Panic \<Rightarrow> False"
proof -
  have "oi_len plain_ordvec ex_index = 0" by (simp add: oi_len_def ex_index_def plain_ordvec_def)
  moreover have "oi_dim ex_index = Some 4" by (simp add: ex_index_def)
  ultimately show ?thesis
    using oi_allowlist_sound [OF ex_index_ok(1) plain_search_ok, where dim = 4 and rt = ex_runtime
        and queries = ones and k = 3 and ids = "[9]" and ?'x = unit]
    by (auto split: outcome.splits)
qed

end
