(* ===== verification/IdMapSearch.thy ===== *)
theory IdMapSearch
  imports IdMapIndex OrdinalSearch
begin

text \<open>
  Search of the ID-mapped index (\<open>ordinaldb/src/id_map.rs\<close>): the dense search, with slots
  translated to external IDs and allowlists of IDs translated to slots.
\<close>

section \<open>From slots to IDs\<close>

definition validate_search_results_shape :: "search_results \<Rightarrow> ('x dense_error, unit) outcome" where
  "validate_search_results_shape results =
     obind (ok_or (Limit ''nq * k overflow in dense search results'')
             (checked_mul (sr_nq results) (sr_k results))) (\<lambda>expected.
     if length (sr_scores results) \<noteq> expected \<or> length (sr_indices results) \<noteq> expected then
       Err (MetadataMismatch
         (''dense search result shape mismatch: nq='' @ show_nat (sr_nq results) @ '', k='' @
          show_nat (sr_k results) @ '', scores='' @ show_nat (length (sr_scores results)) @
          '', indices='' @ show_nat (length (sr_indices results))))
     else Ok ())"

definition row_id_for_slot ::
  "('rq, 'sb) id_map_index \<Rightarrow> int \<Rightarrow> ('x dense_error, u64 option) outcome" where
  "row_id_for_slot idx slot =
     (if slot < 0 then Ok None
      else if nat slot < length (im_slot_to_id idx) then Ok (Some (im_slot_to_id idx ! nat slot))
      else Err (MetadataMismatch (''slot '' @ show_nat (nat slot) @ '' out of range'')))"

fun collect_scores_ids ::
  "('rq, 'sb) id_map_index \<Rightarrow> (f32 \<times> int) list \<Rightarrow> ('x dense_error, f32 list \<times> u64 list) outcome" where
  "collect_scores_ids idx [] = Ok ([], [])"
| "collect_scores_ids idx ((score, slot) # rest) =
     obind (row_id_for_slot idx slot) (\<lambda>row_id.
     obind (collect_scores_ids idx rest) (\<lambda>(scores, ids).
     case row_id of
       None \<Rightarrow> Ok (scores, ids)
     | Some x \<Rightarrow> Ok (score # scores, x # ids)))"

definition scores_ids_from_results ::
  "('rq, 'sb) id_map_index \<Rightarrow> search_results \<Rightarrow> ('x dense_error, f32 list \<times> u64 list) outcome" where
  "scores_ids_from_results idx results =
     obind (validate_search_results_shape results) (\<lambda>_.
     collect_scores_ids idx (zip (sr_scores results) (sr_indices results)))"

section \<open>Searches\<close>

definition im_allowlist_slot ::
  "('rq, 'sb) id_map_index \<Rightarrow> u64 \<Rightarrow> ('x dense_error, nat) outcome" where
  "im_allowlist_slot idx row_id =
     (case im_id_to_slot idx row_id of
        None \<Rightarrow> Err (AllowlistRowIdMissing row_id)
      | Some slot \<Rightarrow> ok_or (SlotIndexOverflow slot) (u32_try_from slot))"

definition candidate_slots_from_allowlist ::
  "('rq, 'sb) id_map_index \<Rightarrow> u64 list \<Rightarrow> ('x dense_error, nat list) outcome" where
  "candidate_slots_from_allowlist idx ids =
     obind (traverse (im_allowlist_slot idx) ids) (\<lambda>candidates. Ok (sort_dedup candidates))"

definition im_search_results_checked ::
  "('rq, 'sb) ordvec \<Rightarrow> runtime \<Rightarrow> ('rq, 'sb) id_map_index \<Rightarrow> f32 list \<Rightarrow> nat \<Rightarrow> u64 list option \<Rightarrow>
     ('x dense_error, search_results) outcome" where
  "im_search_results_checked A rt idx queries k allowlist =
     (case allowlist of
        None \<Rightarrow> oi_search_checked A rt (im_inner idx) queries k
      | Some ids \<Rightarrow>
          obind (candidate_slots_from_allowlist idx ids) (\<lambda>candidates.
          oi_search_checked_with_candidates A (im_inner idx) queries k candidates))"

definition im_search_checked_with_allowlist ::
  "('rq, 'sb) ordvec \<Rightarrow> runtime \<Rightarrow> ('rq, 'sb) id_map_index \<Rightarrow> f32 list \<Rightarrow> nat \<Rightarrow> u64 list option \<Rightarrow>
     ('x dense_error, f32 list \<times> u64 list) outcome" where
  "im_search_checked_with_allowlist A rt idx queries k allowlist =
     obind (im_search_results_checked A rt idx queries k allowlist) (scores_ids_from_results idx)"

definition im_search_checked ::
  "('rq, 'sb) ordvec \<Rightarrow> runtime \<Rightarrow> ('rq, 'sb) id_map_index \<Rightarrow> f32 list \<Rightarrow> nat \<Rightarrow>
     ('x dense_error, f32 list \<times> u64 list) outcome" where
  "im_search_checked A rt idx queries k = im_search_checked_with_allowlist A rt idx queries k None"

definition im_search_with_report ::
  "('rq, 'sb) ordvec \<Rightarrow> runtime \<Rightarrow> ('rq, 'sb) id_map_index \<Rightarrow> f32 list \<Rightarrow> nat \<Rightarrow> dense_search_options \<Rightarrow>
     ('x dense_error, f32 list \<times> u64 list \<times> dense_search_plan) outcome" where
  "im_search_with_report A rt idx queries k options =
     obind (oi_search_with_report A rt (im_inner idx) queries k options) (\<lambda>(results, plan).
     obind (scores_ids_from_results idx results) (\<lambda>(scores, ids). Ok (scores, ids, plan)))"

text \<open>
  The panicking form: an unknown ID of the allowlist panics, and so does a slot of the result that
  is not a slot of the table; \<open>-1 as usize\<close> is \<open>2^64 - 1\<close>.
\<close>

definition im_slot_lookup :: "('rq, 'sb) id_map_index \<Rightarrow> int \<Rightarrow> ('e, u64) outcome" where
  "im_slot_lookup idx slot =
     (let i = nat (slot mod 2 ^ 64) in
      if i < length (im_slot_to_id idx) then Ok (im_slot_to_id idx ! i) else Panic)"

definition im_search_with_allowlist ::
  "('rq, 'sb) ordvec \<Rightarrow> runtime \<Rightarrow> ('rq, 'sb) id_map_index \<Rightarrow> f32 list \<Rightarrow> nat \<Rightarrow> u64 list option \<Rightarrow>
     ('x dense_error, f32 list \<times> u64 list) outcome" where
  "im_search_with_allowlist A rt idx queries k allowlist =
     obind (case allowlist of
              Some ids \<Rightarrow>
                obind (traverse (\<lambda>row_id. obind (expect (im_id_to_slot idx row_id)) (\<lambda>slot.
                         expect (u32_try_from slot))) ids) (\<lambda>candidates.
                oi_search_with_candidates A (im_inner idx) queries k (sort_dedup candidates))
            | None \<Rightarrow> oi_search A rt (im_inner idx) queries k) (\<lambda>results.
     obind (traverse (im_slot_lookup idx) (sr_indices results)) (\<lambda>ids.
     Ok (sr_scores results, ids)))"

definition im_search ::
  "('rq, 'sb) ordvec \<Rightarrow> runtime \<Rightarrow> ('rq, 'sb) id_map_index \<Rightarrow> f32 list \<Rightarrow> nat \<Rightarrow>
     ('x dense_error, f32 list \<times> u64 list) outcome" where
  "im_search A rt idx queries k = im_search_with_allowlist A rt idx queries k None"

section \<open>The translation is total on checked results\<close>

lemma collect_scores_ids_ok:
  assumes "slots_ok {..<length (im_slot_to_id idx)} (map snd xs)"
  shows "collect_scores_ids idx xs =
    Ok (map fst (filter (\<lambda>(sc, i). 0 \<le> i) xs),
        map (\<lambda>(sc, i). im_slot_to_id idx ! nat i) (filter (\<lambda>(sc, i). 0 \<le> i) xs))"
  using assms
proof (induction xs)
  case (Cons x xs)
  obtain sc i where x: "x = (sc, i)" by fastforce
  have tl: "slots_ok {..<length (im_slot_to_id idx)} (map snd xs)"
    and hd: "i = - 1 \<or> 0 \<le> i \<and> nat i < length (im_slot_to_id idx)"
    using Cons.prems by (auto simp: slots_ok_def x)
  show ?case using hd by (auto simp: x row_id_for_slot_def Cons.IH [OF tl])
qed simp

definition mapped_ids :: "('rq, 'sb) id_map_index \<Rightarrow> search_results \<Rightarrow> u64 list" where
  "mapped_ids idx res = map (\<lambda>i. im_slot_to_id idx ! nat i) (filter (\<lambda>i. 0 \<le> i) (sr_indices res))"

lemma filter_zip_snd:
  "length xs = length ys \<Longrightarrow>
     map (\<lambda>(x, y). f y) (filter (\<lambda>(x, y). P y) (zip xs ys)) = map f (filter P ys)"
  by (induction xs ys rule: list_induct2) auto

lemma scores_ids_from_results_ok:
  assumes r: "results_ok S nq k res" and S: "S \<subseteq> {..<length (im_slot_to_id idx)}"
    and fits: "nq * k \<le> usize_max"
  shows "\<exists>scores. scores_ids_from_results idx res = Ok (scores, mapped_ids idx res) \<and>
    length scores = length (mapped_ids idx res)"
proof -
  have sh: "sr_nq res = nq" "sr_k res = k" "length (sr_scores res) = nq * k" "length (sr_indices res) = nq * k"
    and sl: "slots_ok S (sr_indices res)"
    using r by (auto simp: results_ok_def)
  have shape: "validate_search_results_shape res = Ok ()"
    using sh fits by (simp add: validate_search_results_shape_def outcome_simps)
  have all: "slots_ok {..<length (im_slot_to_id idx)} (map snd (zip (sr_scores res) (sr_indices res)))"
    using slots_ok_mono [OF sl S] sh by simp
  have ids: "map (\<lambda>(sc, i). im_slot_to_id idx ! nat i)
      (filter (\<lambda>(sc, i). 0 \<le> i) (zip (sr_scores res) (sr_indices res))) = mapped_ids idx res"
    unfolding mapped_ids_def by (rule filter_zip_snd) (simp add: sh)
  define scores where
    "scores = map fst (filter (\<lambda>(sc, i). 0 \<le> i) (zip (sr_scores res) (sr_indices res)))"
  have "scores_ids_from_results idx res = Ok (scores, mapped_ids idx res)"
    using collect_scores_ids_ok [OF all]
    by (simp add: scores_ids_from_results_def shape ids scores_def)
  moreover have "length scores = length (mapped_ids idx res)"
    unfolding ids [symmetric] scores_def by simp
  ultimately show ?thesis by blast
qed

lemma mapped_ids_sound:
  assumes "slots_ok S (sr_indices res)" and "S \<subseteq> {..<length (im_slot_to_id idx)}"
  shows "set (mapped_ids idx res) \<subseteq> (!) (im_slot_to_id idx) ` S"
  using assms by (force simp: mapped_ids_def slots_ok_def)

lemma length_mapped_ids: "length (mapped_ids idx res) \<le> length (sr_indices res)"
  by (simp add: mapped_ids_def)

lemma im_allowlist_slot_Ok:
  "im_allowlist_slot idx x = Ok slot \<longleftrightarrow> im_id_to_slot idx x = Some slot \<and> slot \<le> u32_max"
  by (auto simp: im_allowlist_slot_def u32_try_from_def outcome_simps split: option.splits)

lemma im_allowlist_slot_not_Panic: "im_allowlist_slot idx x \<noteq> Panic"
  by (auto simp: im_allowlist_slot_def u32_try_from_def outcome_simps split: option.splits)

lemma im_slots_of_ids:
  assumes ok: "im_ok A R idx" and tr: "traverse (im_allowlist_slot idx) ids = Ok cs"
  shows "set ids \<subseteq> set (im_slot_to_id idx)" and "set cs \<subseteq> {..<length (im_slot_to_id idx)}"
    and "(!) (im_slot_to_id idx) ` set cs = set ids" and "length cs = length ids"
proof -
  have all: "list_all2 (\<lambda>x s. im_id_to_slot idx x = Some s \<and> s \<le> u32_max) ids cs"
    using tr by (simp add: traverse_Ok im_allowlist_slot_Ok)
  have "list_all2 (\<lambda>x s. s < length (im_slot_to_id idx) \<and> im_slot_to_id idx ! s = x) ids cs"
    by (rule list_all2_mono [OF all]) (use ok in \<open>auto simp: im_ok_def tables_inverse_def\<close>)
  then have "ids = map ((!) (im_slot_to_id idx)) cs \<and> set cs \<subseteq> {..<length (im_slot_to_id idx)}"
    by (induction rule: list_all2_induct) auto
  then show "set ids \<subseteq> set (im_slot_to_id idx)" "set cs \<subseteq> {..<length (im_slot_to_id idx)}"
    "(!) (im_slot_to_id idx) ` set cs = set ids" "length cs = length ids"
    by auto
qed

section \<open>Properties\<close>

text \<open>
  Allowlist search by external IDs: it never panics; an ID that is not stored makes it fail;
  a successful search returns as many scores as IDs, at most \<open>nq * k\<close> of them, and only IDs that are
  on the list. The internal errors (a slot out of range, a result of the wrong shape) cannot occur.
\<close>

theorem im_allowlist_sound:
  assumes "im_ok A R idx" and "search_ok A R cand" and "oi_dim (im_inner idx) = Some dim"
  shows "case (im_search_checked_with_allowlist A rt idx queries k (Some ids) :: ('x dense_error, _) outcome) of
      Ok (scores, found) \<Rightarrow> queries_ok queries dim \<and> set ids \<subseteq> set (im_slot_to_id idx) \<and>
        set found \<subseteq> set ids \<and> length scores = length found \<and>
        length found \<le> length queries div dim * min k (card (set ids))
    | Err e \<Rightarrow> \<not> queries_ok queries dim \<or> \<not> set ids \<subseteq> set (im_slot_to_id idx) \<or>
        (\<exists>x\<in>set ids. \<exists>s. im_id_to_slot idx x = Some s \<and> u32_max < s) \<or>
        \<not> fits_buffer queries dim (min k (card (set ids)))
    | Panic \<Rightarrow> False"
proof (cases "traverse (im_allowlist_slot idx) ids :: ('x dense_error, nat list) outcome")
  case (Ok cs)
  note sl = im_slots_of_ids [OF assms(1) Ok]
  have len: "oi_len A (im_inner idx) = length (im_slot_to_id idx)"
    using length_oi_content [OF im_ok_parts(1) [OF assms(1)]] im_ok_parts(2) [OF assms(1)] by simp
  have "inj_on ((!) (im_slot_to_id idx)) (set cs)"
    by (rule inj_onI, rule nth_eq_iff_index_eq [OF im_ok_parts(4) [OF assms(1)], THEN iffD1])
      (use sl(2) in auto)
  then have card: "length (sort_dedup cs) = card (set ids)"
    using distinct_card [OF distinct_sort_dedup [of cs]] card_image [of "(!) (im_slot_to_id idx)" "set cs"] sl(3)
    by simp
  have run: "im_search_checked_with_allowlist A rt idx queries k (Some ids) =
      obind (oi_search_checked_with_candidates A (im_inner idx) queries k (sort_dedup cs))
        (scores_ids_from_results idx :: _ \<Rightarrow> ('x dense_error, _) outcome)"
    using Ok by (simp add: im_search_checked_with_allowlist_def im_search_results_checked_def
        candidate_slots_from_allowlist_def)
  note cases = oi_search_checked_with_candidates_cases [OF im_ok_parts(1) [OF assms(1)] assms(2,3),
      where queries = queries and k = k and cs = "sort_dedup cs" and ?'e = 'x]
  show ?thesis
  proof (cases "oi_search_checked_with_candidates A (im_inner idx) queries k (sort_dedup cs) :: ('x dense_error, _) outcome")
    case (Ok res)
    with cases have res: "queries_ok queries dim"
      "results_ok (set cs) (length queries div dim) (min k (card (set ids))) res"
      by (simp_all add: card)
    have fits: "length queries div dim * min k (card (set ids)) \<le> usize_max"
      using Ok assms(3) res(1)
      by (auto simp: oi_search_checked_with_candidates_def validate_query_buffer_Ok outcome_simps
          checked_result_buffer_len_cases card split: if_splits)
    obtain scores where sc: "scores_ids_from_results idx res = (Ok (scores, mapped_ids idx res) :: ('x dense_error, _) outcome)"
      "length scores = length (mapped_ids idx res)"
      using scores_ids_from_results_ok [OF res(2) sl(2) fits] by blast
    have "set (mapped_ids idx res) \<subseteq> set ids"
      using mapped_ids_sound [of "set cs" res idx] res(2) sl(2,3) by (simp add: results_ok_def)
    moreover have "length (mapped_ids idx res) \<le> length queries div dim * min k (card (set ids))"
      using length_mapped_ids [of idx res] res(2) by (simp add: results_ok_def)
    ultimately show ?thesis using run Ok sc sl(1) res(1) by simp
  next
    case (Err e)
    with cases show ?thesis using run sl(2) len by (auto simp: card)
  next
    case Panic
    with cases show ?thesis by simp
  qed
next
  case (Err e)
  from traverse_Err_elem [OF this] obtain x where x: "x \<in> set ids"
    "im_allowlist_slot idx x = (Err e :: ('x dense_error, nat) outcome)" by blast
  then have "im_id_to_slot idx x = None \<or> (\<exists>s. im_id_to_slot idx x = Some s \<and> u32_max < s)"
    by (auto simp: im_allowlist_slot_def u32_try_from_def outcome_simps split: option.splits if_splits)
  then show ?thesis
    using Err x(1) im_lookup_None [OF assms(1), of x]
    by (auto simp: im_search_checked_with_allowlist_def im_search_results_checked_def
        candidate_slots_from_allowlist_def)
next
  case Panic
  from traverse_Panic_elem [OF this] show ?thesis by (simp add: im_allowlist_slot_not_Panic)
qed

theorem im_allowlist_sound_witness:
  "case im_search_checked_with_allowlist plain_ordvec ex_runtime ex_id_map ones 3 (Some [9]) of
     Ok r \<Rightarrow> False | Err (e :: unit dense_error) \<Rightarrow> True | Panic \<Rightarrow> False"
  using im_allowlist_sound [OF ex_id_map_ok plain_search_ok, where dim = 4 and rt = ex_runtime
      and queries = ones and k = 3 and ids = "[9]" and ?'x = unit]
  by (auto simp: ex_id_map_def im_empty_def ex_index_def split: outcome.splits)

text \<open>
  The unrestricted search with its report: it never panics, its errors are those of the dense
  search and never internal, every ID it returns is stored in the index, and there is one score
  per ID and at most \<open>nq * k\<close> of them for the plan's \<open>k\<close>.
\<close>

theorem im_search_with_report_sound:
  assumes "im_ok A R idx" and "search_ok A R cand" and "oi_dim (im_inner idx) = Some dim"
  shows "case (im_search_with_report A rt idx queries k options :: ('x dense_error, _) outcome) of
      Ok (scores, found, plan) \<Rightarrow> set found \<subseteq> set (im_slot_to_id idx) \<and> length scores = length found \<and>
        length found \<le> length queries div dim * sp_effective_k plan \<and>
        plan = resolved_plan A (im_inner idx) k (length queries div dim) dim options
    | Err e \<Rightarrow> oi_search_with_report A rt (im_inner idx) queries k options = Err e
    | Panic \<Rightarrow> False"
proof -
  have len: "oi_len A (im_inner idx) = length (im_slot_to_id idx)"
    using length_oi_content [OF im_ok_parts(1) [OF assms(1)]] im_ok_parts(2) [OF assms(1)] by simp
  let ?plan = "resolved_plan A (im_inner idx) k (length queries div dim) dim options"
  show ?thesis
  proof (cases rule: oi_search_with_report_cases [OF im_ok_parts(1) [OF assms(1)] assms(2,3),
      of queries k rt options, where ?'x = 'x])
    case (3 res)
    have ek: "sp_effective_k ?plan \<le> min k (oi_len A (im_inner idx))"
      by (auto simp: resolved_plan_def Let_def intro: min.coboundedI1)
    have "length queries div dim * sp_effective_k ?plan \<le> length queries div dim * min k (oi_len A (im_inner idx))"
      by (rule mult_left_mono) (use ek in simp_all)
    then have fits: "length queries div dim * sp_effective_k ?plan \<le> usize_max"
      using 3(2) unfolding fits_buffer_def by (rule order.trans)
    obtain scores where sc: "scores_ids_from_results idx res = (Ok (scores, mapped_ids idx res) :: ('x dense_error, _) outcome)"
      "length scores = length (mapped_ids idx res)"
      using scores_ids_from_results_ok [OF 3(6) _ fits] len by auto
    have "set (mapped_ids idx res) \<subseteq> set (im_slot_to_id idx)"
      using mapped_ids_sound [of "{..<oi_len A (im_inner idx)}" res idx] 3(6) len
      by (auto simp: results_ok_def)
    moreover have "length (mapped_ids idx res) \<le> length queries div dim * sp_effective_k ?plan"
      using length_mapped_ids [of idx res] 3(6) by (simp add: results_ok_def)
    ultimately show ?thesis using 3(4) sc by (simp add: im_search_with_report_def)
  qed (simp_all add: im_search_with_report_def)
qed

theorem im_search_with_report_sound_witness:
  "case im_search_with_report plain_ordvec ex_runtime ex_id_map [] 3 search_options_default of
     Ok (scores, found, plan) \<Rightarrow> found = [] | Err (e :: unit dense_error) \<Rightarrow> True | Panic \<Rightarrow> False"
  using im_search_with_report_sound [OF ex_id_map_ok plain_search_ok, where dim = 4 and rt = ex_runtime
      and queries = "[]" and k = 3 and options = search_options_default and ?'x = unit]
  by (auto simp: ex_id_map_def im_empty_def ex_index_def split: outcome.splits)

end
