(* ===== verification/BundleNames.thy ===== *)
theory BundleNames
  imports Errors "HOL-Library.List_Lexorder" "HOL-Library.Char_ord"
begin

text \<open>
  The names of scratch and backup directories beside a bundle (\<open>ordinaldb/src/io.rs\<close>):
  \<open>.{name}.tmp-{pid}-{nanos}\<close> while a bundle is written, \<open>.{name}.bak-{pid}-{nanos}\<close> while the
  old one is replaced, and the key by which recovery ranks backups.
\<close>

section \<open>Names\<close>

fun split_once_str :: "string \<Rightarrow> string \<Rightarrow> (string \<times> string) option" where
  "split_once_str pat [] = (if pat = [] then Some ([], []) else None)"
| "split_once_str pat (c # cs) =
     (if take (length pat) (c # cs) = pat then Some ([], drop (length pat) (c # cs))
      else case split_once_str pat cs of None \<Rightarrow> None | Some (a, b) \<Rightarrow> Some (c # a, b))"

definition canonical_bundle_name :: "string \<Rightarrow> string" where
  "canonical_bundle_name file_name =
     (let trimmed = dropWhile (\<lambda>c. c = CHR ''.'') file_name in
      if length trimmed = length file_name then file_name
      else case split_once_str ''.tmp-'' trimmed of
        Some (canonical, suffix) \<Rightarrow>
          if canonical \<noteq> [] \<and> suffix \<noteq> [] then canonical else file_name
      | None \<Rightarrow> file_name)"

definition temp_bundle_name :: "string \<Rightarrow> nat \<Rightarrow> nat \<Rightarrow> string" where
  "temp_bundle_name file_name pid now =
     ''.'' @ canonical_bundle_name file_name @ ''.tmp-'' @ show_nat pid @ ''-'' @ show_nat now"

definition backup_prefix :: "string \<Rightarrow> string" where
  "backup_prefix file_name = ''.'' @ file_name @ ''.bak-''"

definition backup_bundle_name :: "string \<Rightarrow> nat \<Rightarrow> nat \<Rightarrow> string" where
  "backup_bundle_name file_name pid now =
     ''.'' @ file_name @ ''.bak-'' @ show_nat pid @ ''-'' @ show_nat now"

definition u128_max :: nat where
  "u128_max = 340282366920938463463374607431768211455"

definition parse_backup_suffix :: "string \<Rightarrow> (nat \<times> nat) option" where
  "parse_backup_suffix suffix =
     (case split_once CHR ''-'' suffix of
        None \<Rightarrow> None
      | Some (pid, nanos) \<Rightarrow>
          if pid = [] \<or> nanos = [] \<or> \<not> list_all is_digit_char pid \<or> \<not> list_all is_digit_char nanos
          then None
          else case parse_uint u128_max nanos of
            None \<Rightarrow> None
          | Some n \<Rightarrow> (case parse_uint u128_max pid of None \<Rightarrow> None | Some p \<Rightarrow> Some (n, p)))"

section \<open>Lemmas\<close>

definition infix_free :: "string \<Rightarrow> string \<Rightarrow> bool" where
  "infix_free pat s \<longleftrightarrow> split_once_str pat s = None"

lemma split_once_str_Some:
  "split_once_str pat s = Some (a, b) \<Longrightarrow> s = a @ pat @ b"
proof (induction pat s arbitrary: a b rule: split_once_str.induct)
  case (2 pat c cs)
  show ?case
  proof (cases "take (length pat) (c # cs) = pat")
    case True
    then have "a = []" "b = drop (length pat) (c # cs)" using 2 by auto
    with True show ?thesis by (metis append.left_neutral append_take_drop_id)
  next
    case False
    then show ?thesis using 2 by (auto split: option.splits)
  qed
qed (auto split: if_splits)

text \<open>
  The first occurrence of the marker \<open>.tmp-\<close> behind a name without it is the one appended: a
  suffix of the name and the marker cannot form another, since the dot occurs in it only once.
\<close>

lemma split_once_str_append:
  assumes "infix_free ''.tmp-'' c"
  shows "split_once_str ''.tmp-'' (c @ ''.tmp-'' @ rest) = Some (c, rest)"
  using assms
proof (induction c)
  case (Cons x c)
  have no: "take 5 (x # c) \<noteq> ''.tmp-''" and IH: "split_once_str ''.tmp-'' (c @ ''.tmp-'' @ rest) = Some (c, rest)"
    using Cons by (auto simp: infix_free_def numeral_eq_Suc split: if_splits option.splits)
  have "take 5 (x # c @ ''.tmp-'' @ rest) \<noteq> ''.tmp-''"
  proof (cases "4 \<le> length c")
    case True
    then show ?thesis using no by (simp add: numeral_eq_Suc)
  next
    case False
    then consider "c = []" | a where "c = [a]" | a b where "c = [a, b]" | a b d where "c = [a, b, d]"
      by (cases c; cases "tl c"; cases "tl (tl c)"; cases "tl (tl (tl c))") auto
    then show ?thesis by cases auto
  qed
  then show ?case using IH by (simp add: numeral_eq_Suc)
qed simp

lemma canonical_plain:
  assumes "c \<noteq> []" and "hd c \<noteq> CHR ''.''"
  shows "canonical_bundle_name c = c"
  using assms by (cases c) (simp_all add: canonical_bundle_name_def)

lemma canonical_temp:
  assumes "c \<noteq> []" and "hd c \<noteq> CHR ''.''" and "infix_free ''.tmp-'' c" and "rest \<noteq> []"
  shows "canonical_bundle_name (''.'' @ c @ ''.tmp-'' @ rest) = c"
proof -
  have "dropWhile (\<lambda>x. x = CHR ''.'') (''.'' @ c @ ''.tmp-'' @ rest) = c @ ''.tmp-'' @ rest"
    using assms(1,2) by (cases c) auto
  moreover have "length (c @ ''.tmp-'' @ rest) \<noteq> length (''.'' @ c @ ''.tmp-'' @ rest)" by simp
  ultimately show ?thesis
    using split_once_str_append [OF assms(3), of rest] assms(1,4)
    unfolding canonical_bundle_name_def Let_def by (simp only: if_False option.case prod.case simp_thms if_True)
qed

lemma backup_name_parses:
  assumes "pid \<le> u128_max" and "now \<le> u128_max"
  shows "case strip_prefix (backup_prefix name) (backup_bundle_name name pid now) of
      None \<Rightarrow> False | Some suffix \<Rightarrow> parse_backup_suffix suffix = Some (now, pid)"
proof -
  have "backup_bundle_name name pid now = backup_prefix name @ show_nat pid @ CHR ''-'' # show_nat now"
    by (simp add: backup_bundle_name_def backup_prefix_def)
  moreover have "CHR ''-'' \<notin> set (show_nat pid)"
    by (rule digit_not_member [OF show_nat_digits]) (simp add: is_digit_char_def digit_val_def)
  then have "split_once CHR ''-'' (show_nat pid @ CHR ''-'' # show_nat now) = Some (show_nat pid, show_nat now)"
    by (rule split_once_append)
  ultimately show ?thesis
    using assms by (simp add: parse_backup_suffix_def show_nat_digits parse_uint_show_nat)
qed

section \<open>Properties\<close>

text \<open>
  Scratch names do not stack: for a bundle name that is no scratch name itself, the name
  derived from a scratch path of it, of any process and time, is again that bundle's scratch name
  with one decoration, so debris of a crash is attributed to the bundle.
\<close>

theorem scratch_names_do_not_stack:
  assumes "c \<noteq> []" and "hd c \<noteq> CHR ''.''" and "infix_free ''.tmp-'' c"
  shows "canonical_bundle_name (temp_bundle_name c pid now) = c \<and>
    temp_bundle_name (temp_bundle_name c pid now) pid' now' = temp_bundle_name c pid' now'"
  using canonical_plain [OF assms(1,2)] canonical_temp [OF assms, of "show_nat pid @ ''-'' @ show_nat now"]
  by (simp add: temp_bundle_name_def)

theorem scratch_names_do_not_stack_witness:
  "canonical_bundle_name (temp_bundle_name ''docs.odb'' 7 12) = ''docs.odb''"
  using scratch_names_do_not_stack [of "''docs.odb''" 7 12 0 0] by (simp add: infix_free_def)

text \<open>
  The timestamp of a backup survives its name: for every bundle name, the suffix behind the
  prefix of its backups parses to the time and the process that made it, as numbers, so backups
  are ranked by time whatever the number of digits.
\<close>

theorem backup_name_roundtrip:
  assumes "pid \<le> u128_max" and "now \<le> u128_max"
  shows "case strip_prefix (backup_prefix name) (backup_bundle_name name pid now) of
      None \<Rightarrow> False | Some suffix \<Rightarrow> parse_backup_suffix suffix = Some (now, pid)"
  using assms by (rule backup_name_parses)

theorem backup_name_roundtrip_witness:
  "case strip_prefix (backup_prefix ''t'') (backup_bundle_name ''t'' 999 1000) of
      None \<Rightarrow> False | Some suffix \<Rightarrow> parse_backup_suffix suffix = Some (1000, 999)"
  using backup_name_roundtrip [of 999 1000 "''t''"] by (simp add: u128_max_def)

end
