(* ===== verification/BundleFs.thy ===== *)
theory BundleFs
  imports BundleNames
begin

text \<open>
  Publishing a bundle directory and recovering from an interrupted publication (\<open>replace_bundle\<close>,
  \<open>recover_bundle_if_missing\<close> in \<open>ordinaldb/src/io.rs\<close>). The state is the parent directory: names
  with nodes, in the order \<open>read_dir\<close> lists them; a bundle's content is of an unknown type \<open>'b\<close>.
  Every system call may fail: \<open>os_fail n\<close> is the error of the \<open>n\<close>-th call. The world keeps the list
  of all directory states that existed, which are the states a crash can leave; a recursive removal
  passes through a state with part of the content gone. Loss of unsynced data is not modelled.
\<close>

section \<open>The parent directory and its system calls\<close>

datatype 'b node = DirNode 'b nat | FileNode | LinkNode

type_synonym 'b dir = "(string \<times> 'b node) list"

record 'b os =
  os_fail :: "nat \<Rightarrow> io_error option"
  os_partial :: "nat \<Rightarrow> 'b"
  os_empty :: "'b \<Rightarrow> bool"

record 'b world =
  w_dir :: "'b dir"
  w_calls :: nat
  w_trace :: "'b dir list"

type_synonym ('b, 'a) io = "'b world \<Rightarrow> 'b world \<times> (io_error, 'a) outcome"

definition io_result :: "(io_error, 'a) outcome \<Rightarrow> ('b, 'a) io" where
  "io_result r w = (w, r)"

definition io_bind :: "('b, 'a) io \<Rightarrow> ('a \<Rightarrow> ('b, 'c) io) \<Rightarrow> ('b, 'c) io" where
  "io_bind m f w =
     (case m w of
        (w', Ok a) \<Rightarrow> f a w'
      | (w', Err e) \<Rightarrow> (w', Err e)
      | (w', Panic) \<Rightarrow> (w', Panic))"

text \<open>\<open>match m { Ok(..) => .., Err(..) => .. }\<close>, and \<open>let _ = m;\<close>.\<close>

definition io_match :: "('b, 'a) io \<Rightarrow> ('a \<Rightarrow> ('b, 'c) io) \<Rightarrow> (io_error \<Rightarrow> ('b, 'c) io) \<Rightarrow> ('b, 'c) io" where
  "io_match m f g w =
     (case m w of
        (w', Ok a) \<Rightarrow> f a w'
      | (w', Err e) \<Rightarrow> g e w'
      | (w', Panic) \<Rightarrow> (w', Panic))"

definition io_ignore :: "('b, 'a) io \<Rightarrow> ('b, unit) io" where
  "io_ignore m = io_match m (\<lambda>_. io_result (Ok ())) (\<lambda>_. io_result (Ok ()))"

definition syscall :: "'b os \<Rightarrow> ('b, 'a) io \<Rightarrow> ('b, 'a) io" where
  "syscall os act w =
     (let w' = w\<lparr>w_calls := Suc (w_calls w)\<rparr> in
      case os_fail os (w_calls w) of Some e \<Rightarrow> (w', Err e) | None \<Rightarrow> act w')"

definition set_dir :: "'b dir \<Rightarrow> 'b world \<Rightarrow> 'b world" where
  "set_dir d w = w\<lparr>w_dir := d, w_trace := d # w_trace w\<rparr>"

definition dir_delete :: "string \<Rightarrow> 'b dir \<Rightarrow> 'b dir" where
  "dir_delete a d = filter (\<lambda>(k, n). k \<noteq> a) d"

definition dir_put :: "string \<Rightarrow> 'b node \<Rightarrow> 'b dir \<Rightarrow> 'b dir" where
  "dir_put a n d = (a, n) # dir_delete a d"

definition symlink_metadata :: "'b os \<Rightarrow> string \<Rightarrow> ('b, 'b node) io" where
  "symlink_metadata os name = syscall os (\<lambda>w.
     case map_of (w_dir w) name of
       None \<Rightarrow> (w, Err (io_err NotFound ''No such file or directory (os error 2)''))
     | Some n \<Rightarrow> (w, Ok n))"

definition path_exists :: "'b os \<Rightarrow> string \<Rightarrow> ('b, bool) io" where
  "path_exists os name =
     io_match (symlink_metadata os name) (\<lambda>_. io_result (Ok True)) (\<lambda>_. io_result (Ok False))"

text \<open>
  \<open>rename\<close>: a directory replaces nothing but an empty directory, anything else replaces what is no
  directory.
\<close>

fun can_replace :: "'b os \<Rightarrow> 'b node \<Rightarrow> 'b node \<Rightarrow> bool" where
  "can_replace os (DirNode a m) (DirNode b n) = os_empty os b"
| "can_replace os (DirNode a m) _ = False"
| "can_replace os _ (DirNode b n) = False"
| "can_replace os _ _ = True"

definition rename_path :: "'b os \<Rightarrow> string \<Rightarrow> string \<Rightarrow> ('b, unit) io" where
  "rename_path os from_name to_name = syscall os (\<lambda>w.
     case map_of (w_dir w) from_name of
       None \<Rightarrow> (w, Err (io_err NotFound ''No such file or directory (os error 2)''))
     | Some n \<Rightarrow>
         if from_name = to_name then (w, Ok ())
         else if (case map_of (w_dir w) to_name of None \<Rightarrow> True | Some m \<Rightarrow> can_replace os n m) then
           (set_dir (dir_put to_name n (dir_delete from_name (w_dir w))) w, Ok ())
         else (w, Err (io_err (OtherKind 39) ''Directory not empty (os error 39)'')))"

definition sync_parent_directory :: "'b os \<Rightarrow> ('b, unit) io" where
  "sync_parent_directory os = syscall os (io_result (Ok ()))"

text \<open>A removal that fails leaves part of the directory, one that succeeds passes through it.\<close>

definition remove_dir_all :: "'b os \<Rightarrow> string \<Rightarrow> ('b, unit) io" where
  "remove_dir_all os name w =
     (let w' = w\<lparr>w_calls := Suc (w_calls w)\<rparr> in
      case map_of (w_dir w) name of
        Some (DirNode c m) \<Rightarrow>
          let w1 = set_dir (dir_put name (DirNode (os_partial os (w_calls w)) m) (w_dir w)) w' in
          (case os_fail os (w_calls w) of
             Some e \<Rightarrow> (w1, Err e)
           | None \<Rightarrow> (set_dir (dir_delete name (w_dir w)) w1, Ok ()))
      | Some _ \<Rightarrow> (w', Err (io_err (OtherKind 20) ''Not a directory (os error 20)''))
      | None \<Rightarrow> (w', Err (io_err NotFound ''No such file or directory (os error 2)'')))"

section \<open>Replacing a bundle\<close>

definition unique_backup_bundle_path :: "string \<Rightarrow> nat \<Rightarrow> nat option \<Rightarrow> (io_error, string) outcome" where
  "unique_backup_bundle_path path pid now =
     (case now of
        None \<Rightarrow> Err (io_err (OtherKind 0) ''second time provided was later than self'')
      | Some nanos \<Rightarrow> Ok (backup_bundle_name path pid nanos))"

definition publish_temp :: "'b os \<Rightarrow> string \<Rightarrow> string \<Rightarrow> string option \<Rightarrow> ('b, unit) io" where
  "publish_temp os path temp backup =
     io_match (rename_path os temp path)
       (\<lambda>_. io_bind (sync_parent_directory os) (\<lambda>_.
          case backup of
            None \<Rightarrow> io_result (Ok ())
          | Some backup_path \<Rightarrow>
              io_bind (io_ignore (remove_dir_all os backup_path)) (\<lambda>_.
              io_ignore (sync_parent_directory os))))
       (\<lambda>err.
          case backup of
            None \<Rightarrow> io_result (Err err)
          | Some backup_path \<Rightarrow>
              io_bind (path_exists os path) (\<lambda>present.
              if present then io_result (Err err)
              else io_bind (io_ignore (rename_path os backup_path path)) (\<lambda>_.
                io_bind (io_ignore (sync_parent_directory os)) (\<lambda>_. io_result (Err err)))))"

definition replace_existing :: "'b os \<Rightarrow> nat \<Rightarrow> nat option \<Rightarrow> string \<Rightarrow> string \<Rightarrow> ('b, unit) io" where
  "replace_existing os pid now path temp =
     io_bind (path_exists os path) (\<lambda>present.
     if present then
       io_bind (io_result (unique_backup_bundle_path path pid now)) (\<lambda>backup_path.
       io_bind (rename_path os path backup_path) (\<lambda>_.
       io_bind (sync_parent_directory os) (\<lambda>_.
       publish_temp os path temp (Some backup_path))))
     else publish_temp os path temp None)"

definition replace_bundle :: "'b os \<Rightarrow> nat \<Rightarrow> nat option \<Rightarrow> string \<Rightarrow> string \<Rightarrow> ('b, unit) io" where
  "replace_bundle os pid now path temp =
     io_match (symlink_metadata os path)
       (\<lambda>n. case n of
          LinkNode \<Rightarrow> io_bind (io_ignore (remove_dir_all os temp)) (\<lambda>_.
            io_result (Err (io_err InvalidInput
              (''cannot replace symlink path '' @ path @ '' with an OrdinalDB bundle''))))
        | FileNode \<Rightarrow> io_bind (io_ignore (remove_dir_all os temp)) (\<lambda>_.
            io_result (Err (io_err InvalidInput
              (''cannot replace non-directory path '' @ path @ '' with an OrdinalDB bundle''))))
        | DirNode c m \<Rightarrow> replace_existing os pid now path temp)
       (\<lambda>err. if io_kind err = NotFound then replace_existing os pid now path temp
              else io_result (Err err))"

section \<open>Recovery\<close>

text \<open>A candidate: time, process, name; \<open>sort_by\<close> puts the newest first.\<close>

type_synonym candidate = "nat \<times> nat \<times> string"

definition candidate_cmp :: "candidate \<Rightarrow> candidate \<Rightarrow> ordering" where
  "candidate_cmp = cmp_then (cmp_desc fst) (cmp_then (cmp_desc (fst \<circ> snd)) (cmp_desc (snd \<circ> snd)))"

definition candidate_key :: "string \<Rightarrow> nat \<Rightarrow> string \<Rightarrow> candidate" where
  "candidate_key suffix mtime name =
     (case parse_backup_suffix suffix of
        Some (nanos, pid) \<Rightarrow> (nanos, pid, name)
      | None \<Rightarrow> (mtime, 0, name))"

text \<open>\<open>entry?\<close>: reading the next entry of a listing may fail.\<close>

definition next_entry :: "'b os \<Rightarrow> ('b, unit) io" where
  "next_entry os = syscall os (io_result (Ok ()))"

fun collect_candidates :: "'b os \<Rightarrow> string \<Rightarrow> string list \<Rightarrow> ('b, candidate list) io" where
  "collect_candidates os path [] = io_result (Ok [])"
| "collect_candidates os path (name # entries) =
     io_bind (next_entry os) (\<lambda>_.
     case strip_prefix (backup_prefix path) name of
        None \<Rightarrow> collect_candidates os path entries
      | Some suffix \<Rightarrow>
          io_bind (symlink_metadata os name) (\<lambda>n.
          case n of
            LinkNode \<Rightarrow> io_result (Err (io_err InvalidData
              (''backup bundle candidate must not be a symlink: '' @ name)))
          | FileNode \<Rightarrow> collect_candidates os path entries
          | DirNode c mtime \<Rightarrow>
              io_bind (collect_candidates os path entries) (\<lambda>rest.
              io_result (Ok (candidate_key suffix mtime name # rest)))))"

definition read_dir :: "'b os \<Rightarrow> ('b, string list) io" where
  "read_dir os = syscall os (\<lambda>w. (w, Ok (map fst (w_dir w))))"

definition backup_bundle_candidates :: "'b os \<Rightarrow> string \<Rightarrow> ('b, string list) io" where
  "backup_bundle_candidates os path =
     io_bind
       (io_match (read_dir os) (collect_candidates os path)
          (\<lambda>err. if io_kind err = NotFound then io_result (Ok []) else io_result (Err err)))
       (\<lambda>candidates. io_result (Ok (map (snd \<circ> snd) (sort_by candidate_cmp candidates))))"

text \<open>
  \<open>verify_for_load\<close> on the manifest of a candidate belongs to \<open>ordvec_manifest\<close>: the argument
  \<open>verify\<close> says of a content whether it is accepted, and the call may fail like any other.
\<close>

definition verify_candidate :: "'b os \<Rightarrow> ('b \<Rightarrow> bool) \<Rightarrow> string \<Rightarrow> ('b, unit) io" where
  "verify_candidate os verify name = syscall os (\<lambda>w.
     case map_of (w_dir w) name of
       Some (DirNode c m) \<Rightarrow> if verify c then (w, Ok ())
         else (w, Err (io_err InvalidData ''manifest verification failed''))
     | _ \<Rightarrow> (w, Err (io_err NotFound ''No such file or directory (os error 2)'')))"

fun recover_first :: "'b os \<Rightarrow> ('b \<Rightarrow> bool) \<Rightarrow> string \<Rightarrow> string list \<Rightarrow> ('b, unit) io" where
  "recover_first os verify path [] = io_result (Ok ())"
| "recover_first os verify path (backup # rest) =
     io_match (verify_candidate os verify backup)
       (\<lambda>_. io_bind (rename_path os backup path) (\<lambda>_. sync_parent_directory os))
       (\<lambda>_. recover_first os verify path rest)"

definition recover_bundle_if_missing :: "'b os \<Rightarrow> ('b \<Rightarrow> bool) \<Rightarrow> string \<Rightarrow> ('b, unit) io" where
  "recover_bundle_if_missing os verify path =
     io_match (symlink_metadata os path)
       (\<lambda>n. case n of
          LinkNode \<Rightarrow> io_result (Err (io_err InvalidData
            (''OrdinalDB bundle path must not be a symlink: '' @ path)))
        | _ \<Rightarrow> io_result (Ok ()))
       (\<lambda>err. if io_kind err = NotFound then
            io_bind (backup_bundle_candidates os path) (recover_first os verify path)
          else io_result (Err err))"

section \<open>Publication is crash-safe\<close>

lemma map_of_dir_delete [simp]: "map_of (dir_delete a d) x = (if x = a then None else map_of d x)"
  by (induction d) (auto simp: dir_delete_def)

lemma map_of_dir_put [simp]: "map_of (dir_put a n d) x = (if x = a then Some n else map_of d x)"
  by (simp add: dir_put_def)

lemma distinct_dir_delete [simp]: "distinct (map fst d) \<Longrightarrow> distinct (map fst (dir_delete a d))"
  unfolding dir_delete_def by (rule distinct_map_filter)

lemma distinct_dir_put [simp]: "distinct (map fst d) \<Longrightarrow> distinct (map fst (dir_put a n d))"
  by (auto simp: dir_put_def) (auto simp: dir_delete_def)

text \<open>
  What a reader of the directory finds in a safe state: at the path the old bundle (or its absence)
  or the complete new one, or nothing while the old bundle is whole under the backup name; other
  names are untouched.
\<close>

definition bundle_safe ::
  "'b dir \<Rightarrow> 'b node \<Rightarrow> string \<Rightarrow> string \<Rightarrow> string \<Rightarrow> 'b dir \<Rightarrow> bool" where
  "bundle_safe D0 new path temp bk D \<longleftrightarrow>
     (map_of D path = map_of D0 path \<or> map_of D path = Some new \<or>
      map_of D path = None \<and> map_of D bk = map_of D0 path \<and> map_of D temp = Some new) \<and>
     (\<forall>x. x \<noteq> path \<longrightarrow> x \<noteq> temp \<longrightarrow> x \<noteq> bk \<longrightarrow> map_of D x = map_of D0 x) \<and>
     (distinct (map fst D0) \<longrightarrow> distinct (map fst D))"

text \<open>A run that keeps every state safe, and ends with the new bundle when it succeeds.\<close>

definition run_safe ::
  "('b dir \<Rightarrow> bool) \<Rightarrow> string \<Rightarrow> 'b node \<Rightarrow> 'b world \<times> (io_error, unit) outcome \<Rightarrow> bool" where
  "run_safe J path new run \<longleftrightarrow>
     (\<forall>D\<in>set (w_trace (fst run)). J D) \<and> J (w_dir (fst run)) \<and> snd run \<noteq> Panic \<and>
     (snd run = Ok () \<longrightarrow> map_of (w_dir (fst run)) path = Some new)"

lemmas io_defs = io_bind_def io_match_def io_ignore_def io_result_def syscall_def set_dir_def

lemma sync_cases:
  "sync_parent_directory os w =
     (w\<lparr>w_calls := Suc (w_calls w)\<rparr>,
      case os_fail os (w_calls w) of Some e \<Rightarrow> Err e | None \<Rightarrow> Ok ())"
  by (simp add: sync_parent_directory_def io_defs Let_def split: option.split)

lemma path_exists_cases:
  "path_exists os name w =
     (w\<lparr>w_calls := Suc (w_calls w)\<rparr>,
      Ok (os_fail os (w_calls w) = None \<and> map_of (w_dir w) name \<noteq> None))"
  by (simp add: path_exists_def symlink_metadata_def io_defs Let_def split: option.split)

lemma io_ignore_sync: "io_ignore (sync_parent_directory os) w = (w\<lparr>w_calls := Suc (w_calls w)\<rparr>, Ok ())"
  by (simp add: io_ignore_def io_match_def sync_cases io_result_def split: option.split)

lemma remove_safe:
  assumes "\<And>n. J (dir_put name n (w_dir w))" and "J (dir_delete name (w_dir w))"
    and "\<forall>D\<in>set (w_trace w). J D" and "J (w_dir w)" and "path \<noteq> name"
  obtains w' where "io_ignore (remove_dir_all os name) w = (w', Ok ())"
    "\<forall>D\<in>set (w_trace w'). J D" "J (w_dir w')" "map_of (w_dir w') path = map_of (w_dir w) path"
proof -
  have "\<exists>w'. io_ignore (remove_dir_all os name) w = (w', Ok ()) \<and>
      (\<forall>D\<in>set (w_trace w'). J D) \<and> J (w_dir w') \<and> map_of (w_dir w') path = map_of (w_dir w) path"
    using assms
    by (auto simp: io_ignore_def io_match_def io_result_def remove_dir_all_def set_dir_def Let_def
        split: option.split node.split)
  then show ?thesis using that by blast
qed

lemma rename_cases:
  assumes "map_of (w_dir w) a = Some n" and "a \<noteq> b"
  obtains (moved) "rename_path os a b w =
      (set_dir (dir_put b n (dir_delete a (w_dir w))) (w\<lparr>w_calls := Suc (w_calls w)\<rparr>), Ok ())"
  | (kept) e where "rename_path os a b w = (w\<lparr>w_calls := Suc (w_calls w)\<rparr>, Err e)"
proof -
  show ?thesis
  proof (cases "os_fail os (w_calls w)")
    case None
    define fits where
      "fits = (case map_of (w_dir w) b of None \<Rightarrow> True | Some m \<Rightarrow> can_replace os n m)"
    have run: "rename_path os a b w =
        (if fits then (set_dir (dir_put b n (dir_delete a (w_dir w))) (w\<lparr>w_calls := Suc (w_calls w)\<rparr>), Ok ())
         else (w\<lparr>w_calls := Suc (w_calls w)\<rparr>,
           Err (io_err (OtherKind 39) ''Directory not empty (os error 39)'')))"
      using assms None by (simp add: rename_path_def syscall_def Let_def fits_def)
    show ?thesis by (cases fits) (use run moved kept in simp_all)
  next
    case (Some e)
    then show ?thesis using kept by (simp add: rename_path_def syscall_def)
  qed
qed

lemma set_dir_simps [simp]:
  "w_dir (set_dir d w) = d" "w_trace (set_dir d w) = d # w_trace w" "w_calls (set_dir d w) = w_calls w"
  by (simp_all add: set_dir_def)

text \<open>With the old bundle under the backup name and the path free.\<close>

lemma publish_with_backup_safe:
  assumes J: "J = bundle_safe D0 new path temp bk"
    and names: "temp \<noteq> path" "bk \<noteq> path" "bk \<noteq> temp"
    and st: "map_of (w_dir w) path = None" "map_of (w_dir w) temp = Some new"
      "map_of (w_dir w) bk = map_of D0 path" "map_of D0 path \<noteq> None"
    and rest: "\<forall>x. x \<noteq> path \<longrightarrow> x \<noteq> temp \<longrightarrow> x \<noteq> bk \<longrightarrow> map_of (w_dir w) x = map_of D0 x"
    and dist: "distinct (map fst D0) \<longrightarrow> distinct (map fst (w_dir w))"
    and tr: "\<forall>D\<in>set (w_trace w). J D"
  shows "run_safe J path new (publish_temp os path temp (Some bk) w)"
proof -
  obtain old where old: "map_of (w_dir w) bk = Some old" using st by auto
  have Jw: "J (w_dir w)" using st rest dist by (simp add: J bundle_safe_def)
  show ?thesis
  proof (cases rule: rename_cases [OF st(2) names(1), of os])
    case 1
    let ?d = "dir_put path new (dir_delete temp (w_dir w))"
    let ?w = "set_dir ?d (w\<lparr>w_calls := Suc (w_calls w)\<rparr>)"
    have Jd: "J ?d" using rest names dist by (auto simp: J bundle_safe_def)
    let ?v = "?w\<lparr>w_calls := Suc (w_calls ?w)\<rparr>"
    have rm: "J (dir_put bk n (w_dir ?v))" "J (dir_delete bk (w_dir ?v))" for n
      using rest names dist by (auto simp: J bundle_safe_def)
    have trv: "\<forall>D\<in>set (w_trace ?v). J D" and Jv: "J (w_dir ?v)" using tr Jd by simp_all
    obtain w' where w': "io_ignore (remove_dir_all os bk) ?v = (w', Ok ())"
      "\<forall>D\<in>set (w_trace w'). J D" "J (w_dir w')" "map_of (w_dir w') path = map_of (w_dir ?v) path"
      using remove_safe [of J bk ?v path os, OF rm(1) rm(2) trv Jv names(2) [symmetric]] by blast
    show ?thesis
    proof (cases "os_fail os (w_calls ?w)")
      case None
      then have "publish_temp os path temp (Some bk) w = (w'\<lparr>w_calls := Suc (w_calls w')\<rparr>, Ok ())"
        using 1 w'(1) by (simp add: publish_temp_def io_match_def io_bind_def sync_cases io_ignore_sync)
      then show ?thesis using w' names by (simp add: run_safe_def)
    next
      case (Some e)
      then have "publish_temp os path temp (Some bk) w = (?v, Err e)"
        using 1 by (simp add: publish_temp_def io_match_def io_bind_def sync_cases)
      then show ?thesis using trv Jv by (simp add: run_safe_def)
    qed
  next
    case (2 e)
    let ?w = "w\<lparr>w_calls := Suc (Suc (w_calls w))\<rparr>"
    have bk: "map_of (w_dir ?w) bk = Some old" using old by simp
    have absent: "path_exists os path (w\<lparr>w_calls := Suc (w_calls w)\<rparr>) = (?w, Ok False)"
      using st(1) by (simp add: path_exists_cases)
    show ?thesis
    proof (cases rule: rename_cases [OF bk names(2), of os])
      case 1
      let ?d = "dir_put path old (dir_delete bk (w_dir w))"
      have "J ?d" using rest names old st dist by (auto simp: J bundle_safe_def)
      moreover have "publish_temp os path temp (Some bk) w =
          (set_dir ?d (w\<lparr>w_calls := Suc (Suc (Suc (w_calls w)))\<rparr>)\<lparr>w_calls := Suc (Suc (Suc (Suc (w_calls w))))\<rparr>, Err e)"
        using 2 absent 1
        by (simp add: publish_temp_def io_match_def io_bind_def io_ignore_def sync_cases io_result_def
            split: option.split)
      ultimately show ?thesis using tr by (simp add: run_safe_def)
    next
      case (2 e')
      then have "publish_temp os path temp (Some bk) w =
          (w\<lparr>w_calls := Suc (Suc (Suc (Suc (w_calls w))))\<rparr>, Err e)"
        using \<open>rename_path os temp path w = _\<close> absent
        by (simp add: publish_temp_def io_match_def io_bind_def io_ignore_def sync_cases io_result_def
            split: option.split)
      then show ?thesis using tr Jw by (simp add: run_safe_def)
    qed
  qed
qed

text \<open>With the path as it was: absent, or present but not seen, or replaced when it is empty.\<close>

lemma publish_without_backup_safe:
  assumes J: "J = bundle_safe D0 new path temp bk"
    and names: "temp \<noteq> path" "bk \<noteq> path" "bk \<noteq> temp"
    and st: "map_of (w_dir w) temp = Some new" "map_of (w_dir w) path = map_of D0 path"
    and rest: "\<forall>x. x \<noteq> path \<longrightarrow> x \<noteq> temp \<longrightarrow> x \<noteq> bk \<longrightarrow> map_of (w_dir w) x = map_of D0 x"
    and dist: "distinct (map fst D0) \<longrightarrow> distinct (map fst (w_dir w))"
    and tr: "\<forall>D\<in>set (w_trace w). J D"
  shows "run_safe J path new (publish_temp os path temp None w)"
proof -
  have Jw: "J (w_dir w)" using st rest dist by (simp add: J bundle_safe_def)
  show ?thesis
  proof (cases rule: rename_cases [OF st(1) names(1), of os])
    case 1
    have "J (dir_put path new (dir_delete temp (w_dir w)))"
      using rest names dist by (auto simp: J bundle_safe_def)
    then show ?thesis
      using 1 tr by (auto simp: run_safe_def publish_temp_def io_match_def io_bind_def sync_cases
          io_result_def split: option.split)
  next
    case 2
    then show ?thesis using tr Jw by (simp add: run_safe_def publish_temp_def io_match_def io_result_def)
  qed
qed

lemma replace_existing_safe:
  assumes J: "J = bundle_safe D0 new path temp bk" and bk: "bk = backup_bundle_name path pid nanos"
    and names: "temp \<noteq> path" "bk \<noteq> path" "bk \<noteq> temp"
    and st: "w_dir w = D0" "map_of D0 temp = Some new"
    and tr: "\<forall>D\<in>set (w_trace w). J D"
  shows "run_safe J path new (replace_existing os pid (Some nanos) path temp w)"
proof -
  have J0: "J D0" by (simp add: J bundle_safe_def)
  let ?w = "w\<lparr>w_calls := Suc (w_calls w)\<rparr>"
  show ?thesis
  proof (cases "os_fail os (w_calls w) = None \<and> map_of D0 path \<noteq> None")
    case True
    then obtain old where old: "map_of (w_dir ?w) path = Some old" using st by auto
    show ?thesis
    proof (cases rule: rename_cases [OF old names(2) [symmetric], of os])
      case 1
      let ?d = "dir_put bk old (dir_delete path D0)"
      let ?v = "set_dir ?d (w\<lparr>w_calls := Suc (Suc (w_calls w))\<rparr>)"
      have Jd: "J ?d" using names old st by (simp add: J bundle_safe_def)
      have run: "replace_existing os pid (Some nanos) path temp w =
          (case os_fail os (w_calls ?v) of
             Some e \<Rightarrow> (?v\<lparr>w_calls := Suc (w_calls ?v)\<rparr>, Err e)
           | None \<Rightarrow> publish_temp os path temp (Some bk) (?v\<lparr>w_calls := Suc (w_calls ?v)\<rparr>))"
        using True 1 st by (simp add: replace_existing_def io_bind_def path_exists_cases io_result_def
            unique_backup_bundle_path_def bk sync_cases split: option.split)
      have "run_safe J path new (publish_temp os path temp (Some bk) (?v\<lparr>w_calls := Suc (w_calls ?v)\<rparr>))"
        by (rule publish_with_backup_safe [OF J names]) (use names st old tr Jd in auto)
      then show ?thesis unfolding run using tr Jd by (auto simp: run_safe_def split: option.split)
    next
      case (2 e)
      then have "replace_existing os pid (Some nanos) path temp w =
          (w\<lparr>w_calls := Suc (Suc (w_calls w))\<rparr>, Err e)"
        using True st by (simp add: replace_existing_def io_bind_def path_exists_cases io_result_def
            unique_backup_bundle_path_def bk)
      then show ?thesis using tr J0 st by (simp add: run_safe_def)
    qed
  next
    case False
    then have "path_exists os path w = (?w, Ok False)"
      using st by (auto simp: path_exists_cases)
    then have "replace_existing os pid (Some nanos) path temp w = publish_temp os path temp None ?w"
      by (simp add: replace_existing_def io_bind_def)
    moreover have "run_safe J path new (publish_temp os path temp None ?w)"
      by (rule publish_without_backup_safe [OF J names]) (use st tr in auto)
    ultimately show ?thesis by simp
  qed
qed

lemma replace_bundle_safe:
  assumes J: "J = bundle_safe D0 new path temp bk" and bk: "bk = backup_bundle_name path pid nanos"
    and names: "temp \<noteq> path" "bk \<noteq> path" "bk \<noteq> temp"
    and st: "w_dir w = D0" "map_of D0 temp = Some new"
    and tr: "\<forall>D\<in>set (w_trace w). J D"
  shows "run_safe J path new (replace_bundle os pid (Some nanos) path temp w)"
proof -
  let ?w = "w\<lparr>w_calls := Suc (w_calls w)\<rparr>"
  have J0: "J D0" by (simp add: J bundle_safe_def)
  have existing: "run_safe J path new (replace_existing os pid (Some nanos) path temp ?w)"
    by (rule replace_existing_safe [OF J bk names]) (use st tr in auto)
  have refuse: "run_safe J path new
      (io_bind (io_ignore (remove_dir_all os temp)) (\<lambda>_. io_result (Err err)) ?w)"
    if "map_of D0 path \<noteq> None" for err
  proof -
    have rm: "J (dir_put temp n (w_dir ?w))" "J (dir_delete temp (w_dir ?w))" for n
      using names st by (auto simp: J bundle_safe_def)
    have trw: "\<forall>D\<in>set (w_trace ?w). J D" "J (w_dir ?w)" using tr J0 st by simp_all
    obtain w' where "io_ignore (remove_dir_all os temp) ?w = (w', Ok ())"
      "\<forall>D\<in>set (w_trace w'). J D" "J (w_dir w')"
      using remove_safe [of J temp ?w path os, OF rm trw names(1) [symmetric]] by blast
    then show ?thesis by (simp add: io_bind_def io_result_def run_safe_def)
  qed
  show ?thesis
  proof (cases "os_fail os (w_calls w)")
    case (Some e)
    then show ?thesis
      using existing tr J0 st
      by (auto simp: replace_bundle_def io_match_def symlink_metadata_def syscall_def io_result_def run_safe_def)
  next
    case None
    then have run: "replace_bundle os pid (Some nanos) path temp w =
        (case map_of D0 path of
           None \<Rightarrow> replace_existing os pid (Some nanos) path temp ?w
         | Some (DirNode c m) \<Rightarrow> replace_existing os pid (Some nanos) path temp ?w
         | Some LinkNode \<Rightarrow> io_bind (io_ignore (remove_dir_all os temp)) (\<lambda>_. io_result (Err (io_err InvalidInput
              (''cannot replace symlink path '' @ path @ '' with an OrdinalDB bundle'')))) ?w
         | Some FileNode \<Rightarrow> io_bind (io_ignore (remove_dir_all os temp)) (\<lambda>_. io_result (Err (io_err InvalidInput
              (''cannot replace non-directory path '' @ path @ '' with an OrdinalDB bundle'')))) ?w)"
      using st by (simp add: replace_bundle_def io_match_def symlink_metadata_def syscall_def Let_def
          io_err_def split: option.split node.split)
    show ?thesis unfolding run using existing refuse by (simp split: option.split node.split)
  qed
qed

section \<open>Recovery picks the newest verified backup\<close>

interpretation candidates: linear_comparator candidate_cmp "snd \<circ> snd"
proof -
  have "comparator_laws candidate_cmp"
    unfolding candidate_cmp_def by (intro comparator_intros)
  moreover have "linear_comparator_axioms candidate_cmp (snd \<circ> snd :: candidate \<Rightarrow> string)"
    by unfold_locales (simp add: candidate_cmp_def)
  ultimately show "linear_comparator candidate_cmp (snd \<circ> snd :: candidate \<Rightarrow> string)"
    by (rule linear_comparator.intro)
qed

text \<open>The candidates of a listing, without the calls that may fail.\<close>

fun candidate_list :: "string \<Rightarrow> 'b dir \<Rightarrow> candidate list" where
  "candidate_list path [] = []"
| "candidate_list path ((name, n) # d) =
     (case (strip_prefix (backup_prefix path) name, n) of
        (Some suffix, DirNode c m) \<Rightarrow> candidate_key suffix m name # candidate_list path d
      | _ \<Rightarrow> candidate_list path d)"

definition accepts :: "('b \<Rightarrow> bool) \<Rightarrow> 'b dir \<Rightarrow> string \<Rightarrow> bool" where
  "accepts verify D name \<longleftrightarrow> (case map_of D name of Some (DirNode c m) \<Rightarrow> verify c | _ \<Rightarrow> False)"

definition recovered :: "string \<Rightarrow> 'b dir \<Rightarrow> string option \<Rightarrow> 'b dir" where
  "recovered path D backup =
     (case backup of None \<Rightarrow> D | Some b \<Rightarrow> dir_put path (the (map_of D b)) (dir_delete b D))"

definition no_links :: "string \<Rightarrow> 'b dir \<Rightarrow> bool" where
  "no_links path D \<longleftrightarrow> (\<forall>(name, n)\<in>set D. strip_prefix (backup_prefix path) name \<noteq> None \<longrightarrow> n \<noteq> LinkNode)"

lemma candidate_key_name [simp]: "snd (snd (candidate_key suffix m name)) = name"
  by (simp add: candidate_key_def split: option.split)

lemma candidate_list_set:
  "key \<in> set (candidate_list path D) \<longleftrightarrow>
     (\<exists>name c m suffix. (name, DirNode c m) \<in> set D \<and>
        strip_prefix (backup_prefix path) name = Some suffix \<and> key = candidate_key suffix m name)"
proof (induction D)
  case (Cons e D)
  obtain name n where e: "e = (name, n)" by fastforce
  show ?case
    by (cases "strip_prefix (backup_prefix path) name"; cases n) (auto simp: e Cons.IH)
qed simp

lemma candidate_names_subset: "set (map (snd \<circ> snd) (candidate_list path D)) \<subseteq> set (map fst D)"
proof (induction D)
  case (Cons e D)
  obtain name n where e: "e = (name, n)" by fastforce
  show ?case
    using Cons by (cases "strip_prefix (backup_prefix path) name"; cases n) (auto simp: e)
qed simp

lemma candidate_names_distinct:
  "distinct (map fst D) \<Longrightarrow> distinct (map (snd \<circ> snd) (candidate_list path D))"
proof (induction D)
  case (Cons e D)
  obtain name n where e: "e = (name, n)" by fastforce
  have "name \<notin> set (map (snd \<circ> snd) (candidate_list path D))"
    using candidate_names_subset [of path D] Cons.prems by (auto simp: e)
  then show ?case
    using Cons by (cases "strip_prefix (backup_prefix path) name"; cases n) (auto simp: e)
qed simp

lemma collect_candidates_run:
  assumes nf: "os_fail os = (\<lambda>_. None)"
    and D: "\<forall>(name, n)\<in>set E. map_of (w_dir w) name = Some n" and nl: "no_links path E"
  shows "\<exists>w'. collect_candidates os path (map fst E) w = (w', Ok (candidate_list path E)) \<and> w_dir w' = w_dir w"
  using D nl
proof (induction E arbitrary: w)
  case Nil
  then show ?case by (auto simp: io_result_def)
next
  case (Cons e E)
  obtain name n where e: "e = (name, n)" by fastforce
  have nl: "no_links path E" using Cons.prems by (auto simp: no_links_def)
  let ?v = "w\<lparr>w_calls := Suc (w_calls w)\<rparr>"
  show ?case
  proof (cases "strip_prefix (backup_prefix path) name")
    case None
    then show ?thesis using Cons.IH [of ?v] Cons.prems nl nf
      by (simp add: e io_bind_def next_entry_def syscall_def Let_def io_result_def)
  next
    case (Some suffix)
    then have "n \<noteq> LinkNode" using Cons.prems by (auto simp: e no_links_def)
    let ?w = "?v\<lparr>w_calls := Suc (w_calls ?v)\<rparr>"
    have meta: "symlink_metadata os name ?v = (?w, Ok n)"
      using nf Cons.prems by (simp add: e symlink_metadata_def syscall_def Let_def)
    obtain w' where "collect_candidates os path (map fst E) ?w = (w', Ok (candidate_list path E))"
      "w_dir w' = w_dir w"
      using Cons.IH [of ?w] Cons.prems nl by auto
    then show ?thesis
      using Some meta \<open>n \<noteq> LinkNode\<close>
      using nf by (cases n) (simp_all add: e io_bind_def io_result_def next_entry_def syscall_def Let_def)
  qed
qed

lemma recover_first_run:
  assumes nf: "os_fail os = (\<lambda>_. None)" and absent: "map_of (w_dir w) path = None"
  shows "\<exists>w'. recover_first os verify path names w = (w', Ok ()) \<and>
    w_dir w' = recovered path (w_dir w) (find (accepts verify (w_dir w)) names)"
  using absent
proof (induction names arbitrary: w)
  case Nil
  then show ?case by (simp add: io_result_def recovered_def)
next
  case (Cons b names)
  let ?w = "w\<lparr>w_calls := Suc (w_calls w)\<rparr>"
  show ?case
  proof (cases "accepts verify (w_dir w) b")
    case True
    then obtain c m where b: "map_of (w_dir w) b = Some (DirNode c m)" "verify c"
      by (auto simp: accepts_def split: option.splits node.splits)
    then have "b \<noteq> path" using Cons.prems by auto
    have v: "verify_candidate os verify b w = (?w, Ok ())"
      using nf b by (simp add: verify_candidate_def syscall_def Let_def)
    have "rename_path os b path ?w =
        (set_dir (dir_put path (DirNode c m) (dir_delete b (w_dir w))) (w\<lparr>w_calls := Suc (Suc (w_calls w))\<rparr>), Ok ())"
      using nf b Cons.prems \<open>b \<noteq> path\<close> by (simp add: rename_path_def syscall_def Let_def)
    then show ?thesis
      using v nf b True by (simp add: io_match_def io_bind_def sync_cases recovered_def)
  next
    case False
    have "\<exists>e. verify_candidate os verify b w = (?w, Err e)"
      using nf False by (auto simp: accepts_def verify_candidate_def syscall_def Let_def split: option.split node.split)
    then obtain e where v: "verify_candidate os verify b w = (?w, Err e)" ..
    have "recover_first os verify path (b # names) w = recover_first os verify path names ?w"
      using v by (simp add: io_match_def)
    moreover have "find (accepts verify (w_dir w)) (b # names) = find (accepts verify (w_dir w)) names"
      using False by simp
    ultimately show ?thesis using Cons.IH [of ?w] Cons.prems by simp
  qed
qed

lemma find_sorted_best:
  assumes "sorted_by cmp xs" and "find P (map f xs) = Some y" and "x \<in> set xs" and "P (f x)"
    and "\<And>a. cmp a a \<noteq> OGreater"
  shows "\<exists>z\<in>set xs. y = f z \<and> P y \<and> cmp z x \<noteq> OGreater"
  using assms(1-4)
proof (induction xs)
  case (Cons z zs)
  show ?case
  proof (cases "P (f z)")
    case True
    then have "y = f z" using Cons.prems by simp
    moreover have "cmp z x \<noteq> OGreater" using Cons.prems assms(5) by (auto simp: sorted_by_def)
    ultimately show ?thesis using True by auto
  next
    case False
    then have "x \<in> set zs" "find P (map f zs) = Some y" using Cons.prems by auto
    then show ?thesis using Cons by (auto simp: sorted_by_def)
  qed
qed simp

lemma recover_missing_run:
  assumes nf: "os_fail os = (\<lambda>_. None)" and dist: "distinct (map fst (w_dir w))"
    and absent: "map_of (w_dir w) path = None" and nl: "no_links path (w_dir w)"
  shows "\<exists>w'. recover_bundle_if_missing os verify path w = (w', Ok ()) \<and>
    w_dir w' = recovered path (w_dir w) (find (accepts verify (w_dir w))
      (map (snd \<circ> snd) (sort_by candidate_cmp (candidate_list path (w_dir w)))))"
proof -
  have "\<forall>(name, n)\<in>set (w_dir w). map_of (w_dir w) name = Some n"
    using dist by auto
  then obtain w1 where w1: "collect_candidates os path (map fst (w_dir w)) (w\<lparr>w_calls := Suc (Suc (w_calls w))\<rparr>) =
      (w1, Ok (candidate_list path (w_dir w)))" "w_dir w1 = w_dir w"
    using collect_candidates_run [OF nf, of "w_dir w" "w\<lparr>w_calls := Suc (Suc (w_calls w))\<rparr>" path] nl by auto
  have "recover_bundle_if_missing os verify path w = recover_first os verify path
      (map (snd \<circ> snd) (sort_by candidate_cmp (candidate_list path (w_dir w)))) w1"
    using nf absent w1(1)
    by (simp add: recover_bundle_if_missing_def symlink_metadata_def syscall_def Let_def io_match_def
        io_bind_def io_result_def io_err_def backup_bundle_candidates_def read_dir_def)
  then show ?thesis
    using recover_first_run [OF nf, of w1 path verify] absent w1(2) by simp
qed

lemma candidate_cmp_newer:
  assumes "candidate_cmp z k \<noteq> OGreater"
  shows "fst k < fst z \<or> fst k = fst z \<and> fst (snd k) \<le> fst (snd z)"
proof (cases "cmp_desc fst z k")
  case OEqual
  then have "cmp_desc (fst \<circ> snd) z k \<noteq> OGreater"
    using assms unfolding candidate_cmp_def cmp_then_def by (metis then_with.simps(1,3))
  then show ?thesis using OEqual by simp
next
  case OLess
  then have "cmp_desc fst z k \<noteq> OGreater" "cmp_desc fst z k \<noteq> OEqual" by simp_all
  then show ?thesis by simp
qed (use assms in \<open>simp add: candidate_cmp_def cmp_then_def\<close>)

lemma newest_found:
  assumes "find P (map (snd \<circ> snd) (sort_by candidate_cmp keys)) = Some b" and "k \<in> set keys" and "P (snd (snd k))"
  shows "\<exists>key\<in>set keys. b = snd (snd key) \<and> P b \<and>
    (fst k < fst key \<or> fst k = fst key \<and> fst (snd k) \<le> fst (snd key))"
proof -
  have refl: "candidate_cmp a a \<noteq> OGreater" for a
    by (simp add: candidate_cmp_def cmp_then_def cmp_desc_def ord_cmp_def)
  have "\<exists>z\<in>set (sort_by candidate_cmp keys). b = (snd \<circ> snd) z \<and> P b \<and> candidate_cmp z k \<noteq> OGreater"
    by (rule find_sorted_best [OF candidates.sorted_sort_by assms(1) _ _ refl]) (use assms in simp_all)
  then obtain z where "z \<in> set keys" "b = snd (snd z)" "P b" "candidate_cmp z k \<noteq> OGreater" by auto
  then show ?thesis using candidate_cmp_newer by blast
qed

lemma found_member: "find P xs = Some x \<Longrightarrow> x \<in> set xs \<and> P x"
  by (induction xs) (auto split: if_splits)

text \<open>The name of the backup is never the path, and a scratch name is no candidate.\<close>

lemma backup_name_not_path: "backup_bundle_name path pid now \<noteq> path"
  by (auto simp: backup_bundle_name_def dest: arg_cong [where f = length])

lemma backup_is_candidate:
  assumes "pid \<le> u128_max" and "now \<le> u128_max"
  shows "\<exists>suffix. strip_prefix (backup_prefix path) (backup_bundle_name path pid now) = Some suffix \<and>
    candidate_key suffix m (backup_bundle_name path pid now) = (now, pid, backup_bundle_name path pid now)"
  using backup_name_parses [OF assms, of path]
  by (auto simp: candidate_key_def split: option.splits)

text \<open>The directory of recovery with the last state of an interrupted replacement.\<close>

lemma recovery_of_backup:
  assumes dist: "distinct (map fst D)" and pid: "pid \<le> u128_max" "now \<le> u128_max"
    and bk: "map_of D (backup_bundle_name path pid now) = Some (DirNode c m)" and ok: "verify c"
    and older: "\<And>k. k \<in> set (candidate_list path D) \<Longrightarrow> snd (snd k) \<noteq> backup_bundle_name path pid now \<Longrightarrow>
      fst k < now"
  shows "find (accepts verify D) (map (snd \<circ> snd) (sort_by candidate_cmp (candidate_list path D))) =
    Some (backup_bundle_name path pid now)"
    (is "?find = Some ?bk")
proof -
  obtain suffix where suffix: "strip_prefix (backup_prefix path) ?bk = Some suffix"
    "candidate_key suffix m ?bk = (now, pid, ?bk)"
    using backup_is_candidate [OF pid] by blast
  have acc: "accepts verify D ?bk" using bk ok by (simp add: accepts_def)
  have mem: "(now, pid, ?bk) \<in> set (candidate_list path D)"
    using map_of_SomeD [OF bk] suffix unfolding candidate_list_set by (intro exI conjI) auto
  then have "?find \<noteq> None" using acc unfolding find_None_iff by force
  then obtain b where b: "?find = Some b" by blast
  then obtain key where key: "key \<in> set (candidate_list path D)" "b = snd (snd key)" "now \<le> fst key"
    using newest_found [OF b mem] acc by auto
  then show ?thesis using b older [of key] by auto
qed

definition start_world :: "'b dir \<Rightarrow> 'b world" where
  "start_world D = \<lparr>w_dir = D, w_calls = 0, w_trace = [D]\<rparr>"

lemma start_world_simps [simp]:
  "w_dir (start_world D) = D" "w_calls (start_world D) = 0" "w_trace (start_world D) = [D]"
  by (simp_all add: start_world_def)

lemma replace_from_start:
  assumes "map_of D0 temp = Some new" and "temp \<noteq> path" and "temp \<noteq> backup_bundle_name path pid now"
  shows "run_safe (bundle_safe D0 new path temp (backup_bundle_name path pid now)) path new
    (replace_bundle os pid (Some now) path temp (start_world D0))"
  by (rule replace_bundle_safe [OF refl refl assms(2) backup_name_not_path])
    (use assms in \<open>auto simp: bundle_safe_def\<close>)

lemma strip_prefix_self: "strip_prefix (backup_prefix path) path = None"
  by (auto simp: strip_prefix_def backup_prefix_def dest: arg_cong [where f = length])

lemma recover_present:
  assumes "os_fail os = (\<lambda>_. None)" and "map_of (w_dir w) path = Some (DirNode c m)"
  shows "recover_bundle_if_missing os verify path w = (w\<lparr>w_calls := Suc (w_calls w)\<rparr>, Ok ())"
  using assms by (simp add: recover_bundle_if_missing_def symlink_metadata_def syscall_def Let_def
      io_match_def io_result_def)

lemma safe_state_names:
  assumes "bundle_safe D0 new path temp bk D" and "distinct (map fst D0)" and "(name, n) \<in> set D"
    and "name \<noteq> path" "name \<noteq> temp" "name \<noteq> bk"
  shows "(name, n) \<in> set D0"
proof -
  have "map_of D name = Some n" using assms by (intro map_of_is_SomeI) (simp_all add: bundle_safe_def)
  then have "map_of D0 name = Some n" using assms by (auto simp: bundle_safe_def)
  then show ?thesis by (rule map_of_SomeD)
qed

lemma safe_state_candidates:
  assumes safe: "bundle_safe D0 new path temp bk D" and dist: "distinct (map fst D0)"
    and temp: "strip_prefix (backup_prefix path) temp = None"
    and links: "no_links path D0" and bk: "map_of D bk = Some (DirNode c m)"
  shows "no_links path D"
    and "k \<in> set (candidate_list path D) \<Longrightarrow> snd (snd k) \<noteq> bk \<Longrightarrow> k \<in> set (candidate_list path D0)"
proof -
  have old: "(name, n) \<in> set D0"
    if "(name, n) \<in> set D" "strip_prefix (backup_prefix path) name \<noteq> None" "name \<noteq> bk" for name n
    using safe_state_names [OF safe dist that(1)] that temp strip_prefix_self [of path] by blast
  have "distinct (map fst D)" using safe dist by (simp add: bundle_safe_def)
  then have "n = DirNode c m" if "(bk, n) \<in> set D" for n
    using that bk by (metis map_of_is_SomeI option.inject)
  then show "no_links path D"
    using old links unfolding no_links_def by (metis (mono_tags, lifting) case_prodD case_prodI2 node.distinct(3))
  show "k \<in> set (candidate_list path D0)"
    if k: "k \<in> set (candidate_list path D)" "snd (snd k) \<noteq> bk"
  proof -
    obtain name c m suffix where "(name, DirNode c m) \<in> set D"
      "strip_prefix (backup_prefix path) name = Some suffix" "k = candidate_key suffix m name"
      using k(1) unfolding candidate_list_set by blast
    moreover from this have "(name, DirNode c m) \<in> set D0" using old k(2) by simp
    ultimately show ?thesis unfolding candidate_list_set by blast
  qed
qed

section \<open>Properties\<close>

text \<open>
  C6. Publication is crash-safe: whatever system calls fail, every directory state that exists while
  \<open>replace_bundle\<close> runs has at the path the old bundle, or the complete new one, or nothing while the
  old bundle is whole under the backup name and the new one under the scratch name; names other
  than these three are untouched; the call does not panic, and when it returns Ok the new bundle is
  at the path.
\<close>

theorem replace_bundle_crash_safe:
  assumes "map_of D0 temp = Some new" and "temp \<noteq> path" and "temp \<noteq> backup_bundle_name path pid now"
  shows "case replace_bundle os pid (Some now) path temp (start_world D0) of
      (w, r) \<Rightarrow>
        (\<forall>D\<in>set (w_trace w). bundle_safe D0 new path temp (backup_bundle_name path pid now) D) \<and>
        bundle_safe D0 new path temp (backup_bundle_name path pid now) (w_dir w) \<and> r \<noteq> Panic \<and> (r = Ok () \<longrightarrow> map_of (w_dir w) path = Some new)"
  using replace_from_start [OF assms, of os]
  by (auto simp: run_safe_def)

theorem replace_bundle_crash_safe_witness:
  "case replace_bundle \<lparr>os_fail = (\<lambda>n. if n = 4 then Some (io_err (OtherKind 5) ''Input/output error'') else None),
        os_partial = (\<lambda>_. 0), os_empty = (\<lambda>_. False)\<rparr> 3 (Some 9) ''t'' ''s''
      (start_world [(''t'', DirNode (1::nat) 0), (''s'', DirNode 2 0)]) of
      (w, r) \<Rightarrow> (r = Ok () \<longrightarrow> map_of (w_dir w) ''t'' = Some (DirNode 2 0))"
  using replace_bundle_crash_safe [of "[(''t'', DirNode (1::nat) 0), (''s'', DirNode 2 0)]" "''s''" "DirNode 2 0"
      "''t''" 3 9 "\<lparr>os_fail = (\<lambda>n. if n = 4 then Some (io_err (OtherKind 5) ''Input/output error'') else None),
        os_partial = (\<lambda>_. 0), os_empty = (\<lambda>_. False)\<rparr>"]
  by (simp add: backup_bundle_name_def split: prod.splits)

text \<open>
  C3. A crash loses no bundle: from any directory state an interrupted replacement can leave, with a
  verified bundle at the path before, a fault-free recovery at the next load puts at the path the
  old bundle or the new one, when the other backups of the bundle are older and no backup is a link.
\<close>

theorem crash_then_recovery:
  assumes "map_of D0 temp = Some (DirNode c' m')" and "temp \<noteq> path"
    and "temp \<noteq> backup_bundle_name path pid now"
    and "map_of D0 path = Some (DirNode c m)" and "verify c"
    and "strip_prefix (backup_prefix path) temp = None"
    and "distinct (map fst D0)" and "no_links path D0" and "pid \<le> u128_max" and "now \<le> u128_max"
    and "\<forall>k\<in>set (candidate_list path D0). fst k < now" and "os_fail os' = (\<lambda>_. None)"
    and "D \<in> set (w_trace (fst (replace_bundle os pid (Some now) path temp (start_world D0))))"
  shows "\<exists>w. recover_bundle_if_missing os' verify path (start_world D) = (w, Ok ()) \<and>
    (map_of (w_dir w) path = Some (DirNode c m) \<or> map_of (w_dir w) path = Some (DirNode c' m'))"
proof -
  let ?bk = "backup_bundle_name path pid now"
  have safe: "bundle_safe D0 (DirNode c' m') path temp ?bk D"
    using replace_from_start [OF assms(1-3), of os] assms(13) by (simp add: run_safe_def)
  show ?thesis
  proof (cases "map_of D path")
    case (Some n)
    then have "n = DirNode c m \<or> n = DirNode c' m'" using safe assms(4) by (auto simp: bundle_safe_def)
    then show ?thesis using recover_present [OF assms(12), of "start_world D" path] Some by auto
  next
    case None
    then have bk: "map_of D ?bk = Some (DirNode c m)" using safe assms(4) by (auto simp: bundle_safe_def)
    note cand = safe_state_candidates [OF safe assms(7,6,8) bk]
    have dist: "distinct (map fst D)" using safe assms(7) by (simp add: bundle_safe_def)
    have "find (accepts verify D) (map (snd \<circ> snd) (sort_by candidate_cmp (candidate_list path D))) = Some ?bk"
      by (rule recovery_of_backup [OF dist assms(9,10) bk, where verify = verify, OF assms(5)])
        (use cand(2) assms(11) in blast)
    moreover obtain w where "recover_bundle_if_missing os' verify path (start_world D) = (w, Ok ())"
      "w_dir w = recovered path D (find (accepts verify D)
        (map (snd \<circ> snd) (sort_by candidate_cmp (candidate_list path D))))"
      using recover_missing_run [OF assms(12), of "start_world D" path verify] dist None cand(1) by auto
    ultimately show ?thesis using bk by (simp add: recovered_def)
  qed
qed

theorem crash_then_recovery_witness:
  "\<exists>w. recover_bundle_if_missing \<lparr>os_fail = (\<lambda>_. None), os_partial = (\<lambda>_. 0), os_empty = (\<lambda>_. False)\<rparr>
      (\<lambda>c. c = 1) ''t'' (start_world [(''.t.bak-3-9'', DirNode (1::nat) 0), (''.t.tmp-3-8'', DirNode 2 0)]) = (w, Ok ()) \<and>
    (map_of (w_dir w) ''t'' = Some (DirNode 1 0) \<or> map_of (w_dir w) ''t'' = Some (DirNode 2 0))"
  by (rule crash_then_recovery [of "[(''t'', DirNode (1::nat) 0), (''.t.tmp-3-8'', DirNode 2 0)]" "''.t.tmp-3-8''" 2 0
      "''t''" 3 9 1 0 "\<lambda>c. c = 1" "\<lparr>os_fail = (\<lambda>_. None), os_partial = (\<lambda>_. 0), os_empty = (\<lambda>_. False)\<rparr>"
      "[(''.t.bak-3-9'', DirNode 1 0), (''.t.tmp-3-8'', DirNode 2 0)]"
      "\<lparr>os_fail = (\<lambda>_. None), os_partial = (\<lambda>_. 0), os_empty = (\<lambda>_. False)\<rparr>"])
    (simp_all add: backup_bundle_name_def backup_prefix_def strip_prefix_def no_links_def u128_max_def show_nat.simps digit_char_def char_of_def bit_Suc_0_iff
      replace_bundle_def replace_existing_def publish_temp_def symlink_metadata_def path_exists_cases
      unique_backup_bundle_path_def rename_path_def sync_cases io_defs remove_dir_all_def Let_def
      dir_put_def dir_delete_def)

text \<open>
  C25. Recovery picks the newest verified backup: with the path absent, no faults and no link among
  the backups, recovery either leaves the directory as it is, and then no backup is accepted, or it
  moves to the path an accepted backup of the bundle than which no accepted backup is newer (by
  time, then by process), and every other name keeps its node.
\<close>

theorem recovery_picks_newest:
  assumes "os_fail os = (\<lambda>_. None)" and "distinct (map fst D)" and "map_of D path = None"
    and "no_links path D"
  shows "\<exists>w. recover_bundle_if_missing os verify path (start_world D) = (w, Ok ()) \<and>
    (if \<exists>k\<in>set (candidate_list path D). accepts verify D (snd (snd k)) then
       \<exists>key\<in>set (candidate_list path D). accepts verify D (snd (snd key)) \<and>
         map_of (w_dir w) path = map_of D (snd (snd key)) \<and> map_of (w_dir w) (snd (snd key)) = None \<and>
         (\<forall>x. x \<noteq> path \<longrightarrow> x \<noteq> snd (snd key) \<longrightarrow> map_of (w_dir w) x = map_of D x) \<and>
         (\<forall>k\<in>set (candidate_list path D). accepts verify D (snd (snd k)) \<longrightarrow>
            fst k < fst key \<or> fst k = fst key \<and> fst (snd k) \<le> fst (snd key))
     else w_dir w = D)"
proof -
  let ?keys = "candidate_list path D"
  let ?find = "find (accepts verify D) (map (snd \<circ> snd) (sort_by candidate_cmp ?keys))"
  obtain w where w: "recover_bundle_if_missing os verify path (start_world D) = (w, Ok ())"
    "w_dir w = recovered path D ?find"
    using recover_missing_run [OF assms(1), of "start_world D" path verify] assms(2-4) by auto
  show ?thesis
  proof (cases ?find)
    case None
    then have "\<not> (\<exists>k\<in>set ?keys. accepts verify D (snd (snd k)))" unfolding find_None_iff by force
    then show ?thesis using w None by (simp add: recovered_def)
  next
    case (Some b)
    then obtain key where key: "key \<in> set ?keys" "b = snd (snd key)" "accepts verify D b"
      using found_member [OF Some] by auto
    obtain n where n: "map_of D b = Some n" using key(3) by (auto simp: accepts_def split: option.splits)
    then have "b \<noteq> path" using assms(3) by auto
    have newest: "fst k < fst key \<or> fst k = fst key \<and> fst (snd k) \<le> fst (snd key)"
      if k: "k \<in> set ?keys" "accepts verify D (snd (snd k))" for k
    proof -
      obtain z where z: "z \<in> set ?keys" "b = snd (snd z)"
        "fst k < fst z \<or> fst k = fst z \<and> fst (snd k) \<le> fst (snd z)"
        using newest_found [OF Some k] by auto
      have "inj_on (snd \<circ> snd) (set ?keys)"
        using candidate_names_distinct [OF assms(2), of path] by (simp add: distinct_map)
      then have "z = key" by (rule inj_onD) (use z(1,2) key(1,2) in simp_all)
      then show ?thesis using z(3) by simp
    qed
    have some: "\<exists>k\<in>set ?keys. accepts verify D (snd (snd k))" using key by blast
    have "w_dir w = dir_put path n (dir_delete b D)" using w(2) Some n by (simp add: recovered_def)
    then have "map_of (w_dir w) path = map_of D b" "map_of (w_dir w) b = None"
      "\<forall>x. x \<noteq> path \<longrightarrow> x \<noteq> b \<longrightarrow> map_of (w_dir w) x = map_of D x"
      using n \<open>b \<noteq> path\<close> by simp_all
    then show ?thesis
      unfolding if_P [OF some] using w(1) key newest
      by (intro exI [of _ w] conjI bexI [of _ key]) simp_all
  qed
qed

theorem recovery_picks_newest_witness:
  "\<exists>w. recover_bundle_if_missing \<lparr>os_fail = (\<lambda>_. None), os_partial = (\<lambda>_. 0), os_empty = (\<lambda>_. False)\<rparr>
      (\<lambda>c. c = 1) ''t'' (start_world [(''.t.bak-999-5'', DirNode (1::nat) 0), (''.t.bak-1000-40'', DirNode 1 7)]) = (w, Ok ()) \<and>
    map_of (w_dir w) ''t'' = Some (DirNode 1 7)"
  using recovery_picks_newest [of "\<lparr>os_fail = (\<lambda>_. None), os_partial = (\<lambda>_. 0), os_empty = (\<lambda>_. False)\<rparr>"
      "[(''.t.bak-999-5'', DirNode (1::nat) 0), (''.t.bak-1000-40'', DirNode 1 7)]" "''t''" "\<lambda>c. c = 1"]
  by (simp add: backup_prefix_def strip_prefix_def no_links_def accepts_def candidate_key_def
      parse_backup_suffix_def parse_uint_def is_digit_char_def digit_val_def u128_max_def) blast

text \<open>
  C30. The prefix test of recovery does not tell bundles apart: the backups of a bundle named
  \<open>{name}.bak-{x}\<close> count as backups of \<open>{name}\<close>; when such a backup is the only directory and is
  accepted, recovery of the missing bundle \<open>{name}\<close> installs the other bundle's data as its own.
\<close>

theorem foreign_backup_adopted:
  assumes "os_fail os = (\<lambda>_. None)" and "verify c"
  shows "\<exists>w. recover_bundle_if_missing os verify name
      (start_world [(backup_bundle_name (name @ ''.bak-'' @ x) pid now, DirNode c m)]) = (w, Ok ()) \<and>
    w_dir w = [(name, DirNode c m)]"
proof -
  let ?b = "backup_bundle_name (name @ ''.bak-'' @ x) pid now"
  have name: "?b \<noteq> name" by (auto simp: backup_bundle_name_def dest: arg_cong [where f = length])
  have cand: "strip_prefix (backup_prefix name) ?b =
      Some (x @ ''.bak-'' @ show_nat pid @ ''-'' @ show_nat now)"
    by (simp add: strip_prefix_Some backup_bundle_name_def backup_prefix_def)
  have "\<exists>w. recover_bundle_if_missing os verify name (start_world [(?b, DirNode c m)]) = (w, Ok ()) \<and>
      w_dir w = recovered name [(?b, DirNode c m)] (Some ?b)"
    using recover_missing_run [OF assms(1), of "start_world [(?b, DirNode c m)]" name verify] name cand assms(2)
    by (simp add: no_links_def accepts_def)
  then show ?thesis by (simp add: recovered_def dir_put_def dir_delete_def)
qed

theorem foreign_backup_adopted_witness:
  "\<exists>w. recover_bundle_if_missing \<lparr>os_fail = (\<lambda>_. None), os_partial = (\<lambda>_. 0), os_empty = (\<lambda>_. False)\<rparr>
      (\<lambda>c. c = 1) ''t'' (start_world [(''.t.bak-x.bak-3-9'', DirNode (1::nat) 0)]) = (w, Ok ()) \<and>
    w_dir w = [(''t'', DirNode 1 0)]"
  using foreign_backup_adopted [of "\<lparr>os_fail = (\<lambda>_. None), os_partial = (\<lambda>_. 0), os_empty = (\<lambda>_. False)\<rparr>"
      "\<lambda>c. c = 1" "1 :: nat" "''t''" "''x''" 3 9 0]
  by (simp add: backup_bundle_name_def show_nat.simps digit_char_def char_of_def bit_Suc_0_iff)

end
