(* ===== verification/HybridErrors.thy ===== *)
theory HybridErrors
  imports Errors
begin

text \<open>
  The error type of the hybrid crate (\<open>ordinaldb-hybrid/src/error.rs\<close>) and its messages. The
  errors of \<open>ordvec_manifest\<close> are of an unknown type \<open>'x\<close> with their text the argument
  \<open>show_ext\<close>.
\<close>

datatype 'x hybrid_error =
    HybridIo io_error
  | HybridManifestVerification 'x
  | HybridAuxiliary 'x
  | MalformedLayout string
  | TokenizerError string
  | RowIdError string
  | BatchError string
  | LtrError string
  | HybridLimit string

fun show_hybrid_error :: "('x \<Rightarrow> string) \<Rightarrow> 'x hybrid_error \<Rightarrow> string" where
  "show_hybrid_error show_ext (HybridIo e) = ''io error: '' @ io_message e"
| "show_hybrid_error show_ext (HybridManifestVerification e) = ''manifest verification failed: '' @ show_ext e"
| "show_hybrid_error show_ext (HybridAuxiliary e) = ''auxiliary artifact lookup failed: '' @ show_ext e"
| "show_hybrid_error show_ext (MalformedLayout m) = ''malformed sparse mmap: '' @ m"
| "show_hybrid_error show_ext (TokenizerError m) = ''tokenizer error: '' @ m"
| "show_hybrid_error show_ext (RowIdError m) = ''row-id error: '' @ m"
| "show_hybrid_error show_ext (BatchError m) = ''ranked batch error: '' @ m"
| "show_hybrid_error show_ext (LtrError m) = ''LTR model error: '' @ m"
| "show_hybrid_error show_ext (HybridLimit m) = ''limit exceeded: '' @ m"

end
