(* ===== verification/RankedBatch.thy ===== *)
theory RankedBatch
  imports HybridErrors
begin

text \<open>
  Ranked batches (\<open>ordinaldb-hybrid/src/fusion.rs\<close>): lists of scored rows for several queries, stored
  as one vector of hits with offsets. The constructors validate or normalize what they are given. A
  \<open>HashSet\<close> is a set; the decimal output of an \<open>f32\<close> in a message is the argument \<open>show_f32\<close>.
\<close>

section \<open>Ranked batches\<close>

record scored_row =
  row_id :: u64
  score :: f32

record ranked_batch =
  rb_offsets :: "nat list"
  rb_hits :: "scored_row list"

definition rank_row_order :: "scored_row \<Rightarrow> scored_row \<Rightarrow> ordering" where
  "rank_row_order a b =
     then_with (f32_total_cmp (score b) (score a)) (ord_cmp (unat (row_id a)) (unat (row_id b)))"

fun check_finite_scores :: "(f32 \<Rightarrow> string) \<Rightarrow> scored_row list \<Rightarrow> ('x hybrid_error, unit) outcome" where
  "check_finite_scores show_f32 [] = Ok ()"
| "check_finite_scores show_f32 (row # rows) =
     (if \<not> f32_is_finite (score row) then
        Err (BatchError (''row '' @ show_u64 (row_id row) @ '' has non-finite score '' @ show_f32 (score row)))
      else check_finite_scores show_f32 rows)"

definition sort_ranked_slice ::
  "(f32 \<Rightarrow> string) \<Rightarrow> scored_row list \<Rightarrow> ('x hybrid_error, scored_row list) outcome" where
  "sort_ranked_slice show_f32 rows =
     obind (check_finite_scores show_f32 rows) (\<lambda>_. Ok (sort_by rank_row_order rows))"

text \<open>The compaction of \<open>normalize_ranked_list\<close>, in place: \<open>reads\<close> are the indices left to read.\<close>

fun compact_rows :: "u64 set \<Rightarrow> nat \<Rightarrow> nat list \<Rightarrow> scored_row list \<Rightarrow> scored_row list \<times> nat" where
  "compact_rows seen wr [] rows = (rows, wr)"
| "compact_rows seen wr (rd # reads) rows =
     (if row_id (rows ! rd) \<in> seen then compact_rows seen wr reads rows
      else compact_rows (insert (row_id (rows ! rd)) seen) (wr + 1) reads (rows[wr := rows ! rd]))"

definition normalize_ranked_list ::
  "(f32 \<Rightarrow> string) \<Rightarrow> scored_row list \<Rightarrow> ('x hybrid_error, scored_row list) outcome" where
  "normalize_ranked_list show_f32 rows =
     obind (sort_ranked_slice show_f32 rows) (\<lambda>rows.
       case compact_rows {} 0 [0..<length rows] rows of (rows, wr) \<Rightarrow> Ok (take wr rows))"

definition validate_no_duplicate_rows :: "scored_row list \<Rightarrow> ('x hybrid_error, unit) outcome" where
  "validate_no_duplicate_rows rows =
     (case first_duplicate {} (map row_id rows) of
        None \<Rightarrow> Ok ()
      | Some r \<Rightarrow> Err (BatchError (''duplicate row_id '' @ show_u64 r @ '' in ranked rows'')))"

definition validate_sorted_ranked_slice ::
  "(f32 \<Rightarrow> string) \<Rightarrow> scored_row list \<Rightarrow> ('x hybrid_error, unit) outcome" where
  "validate_sorted_ranked_slice show_f32 rows =
     obind (check_finite_scores show_f32 rows) (\<lambda>_.
     if \<exists>(prev, nxt)\<in>set (windows2 rows). rank_row_order prev nxt = OGreater then
       Err (BatchError ''ranked rows must be sorted by score desc, row_id asc'')
     else validate_no_duplicate_rows rows)"

definition validate_offsets :: "nat list \<Rightarrow> nat \<Rightarrow> ('x hybrid_error, unit) outcome" where
  "validate_offsets offsets hit_len =
     (if offsets = [] then Err (BatchError ''offsets must contain at least one entry'')
      else if offsets ! 0 \<noteq> 0 then Err (BatchError ''offsets must start at zero'')
      else if \<exists>(a, b)\<in>set (windows2 offsets). a > b then
        Err (BatchError ''offsets must be monotonic'')
      else if last offsets \<noteq> hit_len then
        Err (BatchError (''final offset '' @ show_nat (last offsets) @ '' does not match hits length '' @
          show_nat hit_len))
      else Ok ())"

definition empty_batch :: "nat \<Rightarrow> ranked_batch" where
  "empty_batch query_count = \<lparr>rb_offsets = replicate (query_count + 1) 0, rb_hits = []\<rparr>"

fun extend_normalized ::
  "(f32 \<Rightarrow> string) \<Rightarrow> scored_row list list \<Rightarrow> nat list \<Rightarrow> scored_row list \<Rightarrow>
     ('x hybrid_error, ranked_batch) outcome" where
  "extend_normalized show_f32 [] offsets hits = Ok \<lparr>rb_offsets = offsets, rb_hits = hits\<rparr>"
| "extend_normalized show_f32 (l # ls) offsets hits =
     obind (normalize_ranked_list show_f32 l) (\<lambda>l'.
       extend_normalized show_f32 ls (offsets @ [length (hits @ l')]) (hits @ l'))"

definition from_ranked_lists ::
  "(f32 \<Rightarrow> string) \<Rightarrow> scored_row list list \<Rightarrow> ('x hybrid_error, ranked_batch) outcome" where
  "from_ranked_lists show_f32 ls = extend_normalized show_f32 ls [0] []"

definition single_batch ::
  "(f32 \<Rightarrow> string) \<Rightarrow> scored_row list \<Rightarrow> ('x hybrid_error, ranked_batch) outcome" where
  "single_batch show_f32 hits = from_ranked_lists show_f32 [hits]"

fun normalize_windows ::
  "(f32 \<Rightarrow> string) \<Rightarrow> scored_row list \<Rightarrow> (nat \<times> nat) list \<Rightarrow> nat list \<Rightarrow> scored_row list \<Rightarrow>
     ('x hybrid_error, ranked_batch) outcome" where
  "normalize_windows show_f32 hits [] offsets out = Ok \<lparr>rb_offsets = offsets, rb_hits = out\<rparr>"
| "normalize_windows show_f32 hits ((a, b) # ws) offsets out =
     obind (slice hits a b) (\<lambda>l.
     obind (normalize_ranked_list show_f32 l) (\<lambda>l'.
       normalize_windows show_f32 hits ws (offsets @ [length (out @ l')]) (out @ l')))"

definition from_offsets_hits ::
  "(f32 \<Rightarrow> string) \<Rightarrow> nat list \<Rightarrow> scored_row list \<Rightarrow> ('x hybrid_error, ranked_batch) outcome" where
  "from_offsets_hits show_f32 offsets hits =
     obind (validate_offsets offsets (length hits)) (\<lambda>_.
       normalize_windows show_f32 hits (windows2 offsets) [0] [])"

fun validate_windows ::
  "(f32 \<Rightarrow> string) \<Rightarrow> scored_row list \<Rightarrow> (nat \<times> nat) list \<Rightarrow> ('x hybrid_error, unit) outcome" where
  "validate_windows show_f32 hits [] = Ok ()"
| "validate_windows show_f32 hits ((a, b) # ws) =
     obind (slice hits a b) (\<lambda>l.
     obind (validate_sorted_ranked_slice show_f32 l) (\<lambda>_. validate_windows show_f32 hits ws))"

definition from_sorted_offsets_hits ::
  "(f32 \<Rightarrow> string) \<Rightarrow> nat list \<Rightarrow> scored_row list \<Rightarrow> ('x hybrid_error, ranked_batch) outcome" where
  "from_sorted_offsets_hits show_f32 offsets hits =
     obind (validate_offsets offsets (length hits)) (\<lambda>_.
     obind (validate_windows show_f32 hits (windows2 offsets)) (\<lambda>_.
       Ok \<lparr>rb_offsets = offsets, rb_hits = hits\<rparr>))"

text \<open>
  The three constructors from flat result buffers. The loop over the queries pushes the pairs of
  each query's range, without those that a negative index marks as padding.
\<close>

definition check_flat :: "nat \<Rightarrow> nat \<Rightarrow> nat \<Rightarrow> nat \<Rightarrow> string \<Rightarrow> ('x hybrid_error, unit) outcome" where
  "check_flat nq k score_count id_count what =
     (if score_count \<noteq> id_count then
        Err (BatchError (''score count '' @ show_nat score_count @ '' does not match '' @ what @ '' count '' @
          show_nat id_count))
      else case checked_mul nq k of
        None \<Rightarrow> Err (HybridLimit ''nq * k overflows usize'')
      | Some expected \<Rightarrow>
          if score_count \<noteq> expected then
            Err (BatchError (''flat result length '' @ show_nat score_count @ '' does not match nq * k '' @
              show_nat expected))
          else Ok ())"

fun flat_rows ::
  "nat \<Rightarrow> nat list \<Rightarrow> ('a \<Rightarrow> u64 option) \<Rightarrow> f32 list \<Rightarrow> 'a list \<Rightarrow> nat list \<Rightarrow> scored_row list \<Rightarrow>
     ('x hybrid_error, nat list \<times> scored_row list) outcome" where
  "flat_rows k [] id_of scores ids offsets hits = Ok (offsets, hits)"
| "flat_rows k (query_idx # qs) id_of scores ids offsets hits =
     obind (slice scores (query_idx * k) (query_idx * k + k)) (\<lambda>ss.
     obind (slice ids (query_idx * k) (query_idx * k + k)) (\<lambda>is.
       let hits' = hits @ concat (map (\<lambda>(s, i). case id_of i of
             None \<Rightarrow> [] | Some r \<Rightarrow> [\<lparr>row_id = r, score = s\<rparr>]) (zip ss is)) in
       flat_rows k qs id_of scores ids (offsets @ [length hits']) hits'))"

definition from_flat_scores_ids ::
  "(f32 \<Rightarrow> string) \<Rightarrow> nat \<Rightarrow> nat \<Rightarrow> f32 list \<Rightarrow> u64 list \<Rightarrow> ('x hybrid_error, ranked_batch) outcome" where
  "from_flat_scores_ids show_f32 nq k scores ids =
     obind (check_flat nq k (length scores) (length ids) ''id'') (\<lambda>_.
     obind (flat_rows k [0..<nq] Some scores ids [0] []) (\<lambda>(offsets, hits).
       from_offsets_hits show_f32 offsets hits))"

definition from_flat_scores_slots ::
  "(f32 \<Rightarrow> string) \<Rightarrow> nat \<Rightarrow> nat \<Rightarrow> f32 list \<Rightarrow> 32 word list \<Rightarrow> ('x hybrid_error, ranked_batch) outcome" where
  "from_flat_scores_slots show_f32 nq k scores slots =
     from_flat_scores_ids show_f32 nq k scores (map ucast slots)"

definition from_flat_scores_i64_indices ::
  "(f32 \<Rightarrow> string) \<Rightarrow> nat \<Rightarrow> nat \<Rightarrow> f32 list \<Rightarrow> 64 word list \<Rightarrow> ('x hybrid_error, ranked_batch) outcome" where
  "from_flat_scores_i64_indices show_f32 nq k scores indices =
     obind (check_flat nq k (length scores) (length indices) ''index'') (\<lambda>_.
     obind (flat_rows k [0..<nq] (\<lambda>i. if sint i < 0 then None else Some i) scores indices [0] [])
       (\<lambda>(offsets, hits). from_offsets_hits show_f32 offsets hits))"

definition rb_query_count :: "ranked_batch \<Rightarrow> nat" where
  "rb_query_count b = length (rb_offsets b) - 1"

definition rb_hits_for_query :: "ranked_batch \<Rightarrow> nat \<Rightarrow> scored_row list option" where
  "rb_hits_for_query b query_idx =
     (case get_nth (rb_offsets b) query_idx of
        None \<Rightarrow> None
      | Some start \<Rightarrow>
          (case get_nth (rb_offsets b) (query_idx + 1) of
             None \<Rightarrow> None
           | Some stop \<Rightarrow> get_range (rb_hits b) start stop))"

section \<open>Canonical lists\<close>

definition canonical_rows :: "scored_row list \<Rightarrow> bool" where
  "canonical_rows rows \<longleftrightarrow> list_all (f32_is_finite \<circ> score) rows \<and> sorted_by rank_row_order rows \<and>
     distinct (map row_id rows)"

definition rb_lists :: "ranked_batch \<Rightarrow> scored_row list list" where
  "rb_lists b = map (\<lambda>(a, c). drop a (take c (rb_hits b))) (windows2 (rb_offsets b))"

definition lists_batch :: "scored_row list list \<Rightarrow> ranked_batch" where
  "lists_batch L = \<lparr>rb_offsets = csr_offsets L, rb_hits = concat L\<rparr>"

definition batch_ok :: "ranked_batch \<Rightarrow> bool" where
  "batch_ok b \<longleftrightarrow> b = lists_batch (rb_lists b) \<and> list_all canonical_rows (rb_lists b)"

text \<open>What the normalization keeps of a sorted list: the first row of each id.\<close>

fun keep_first :: "u64 set \<Rightarrow> scored_row list \<Rightarrow> scored_row list" where
  "keep_first seen [] = []"
| "keep_first seen (r # rs) =
     (if row_id r \<in> seen then keep_first seen rs else r # keep_first (insert (row_id r) seen) rs)"

interpretation ranked: linear_comparator rank_row_order "\<lambda>r. (row_id r, score r)"
proof -
  have eq: "rank_row_order = cmp_then (cmp_desc (f32_total_key \<circ> score)) (cmp_on (unat \<circ> row_id))"
    by (intro ext) (simp add: rank_row_order_def cmp_then_def cmp_desc_def cmp_on_def f32_total_cmp_def)
  have "comparator_laws rank_row_order" unfolding eq by (intro comparator_intros)
  moreover have "linear_comparator_axioms rank_row_order (\<lambda>r. (row_id r, score r))"
    by unfold_locales (auto simp: eq word_unat_eq_iff dest: f32_total_key_inj)
  ultimately show "linear_comparator rank_row_order (\<lambda>r. (row_id r, score r))"
    by (rule linear_comparator.intro)
qed

lemma compact_rows_spec:
  assumes "wr \<le> rd" and "rd \<le> length rows"
  shows "case compact_rows seen wr [rd..<length rows] rows of (rows', n) \<Rightarrow>
    take n rows' = take wr rows @ keep_first seen (drop rd rows)"
  using assms
proof (induction "length rows - rd" arbitrary: seen wr rd rows)
  case 0
  then show ?case by simp
next
  case (Suc n)
  then have rd: "rd < length rows" by simp
  then have up: "[rd..<length rows] = rd # [Suc rd..<length rows]" and
    dr: "drop rd rows = rows ! rd # drop (Suc rd) rows"
    by (simp_all add: upt_conv_Cons Cons_nth_drop_Suc)
  show ?case
  proof (cases "row_id (rows ! rd) \<in> seen")
    case True
    then show ?thesis using Suc.hyps(1) [of rows "Suc rd" wr seen] Suc.hyps(2) Suc.prems rd by (simp add: up dr)
  next
    case False
    have "take (Suc wr) (rows[wr := rows ! rd]) = take wr rows @ [rows ! rd]"
      using Suc.prems rd by (simp add: take_Suc_conv_app_nth)
    moreover have "drop (Suc rd) (rows[wr := rows ! rd]) = drop (Suc rd) rows"
      using Suc.prems rd by simp
    ultimately show ?thesis
      using False Suc.hyps(1) [of "rows[wr := rows ! rd]" "Suc rd" "Suc wr" "insert (row_id (rows ! rd)) seen"]
        Suc.hyps(2) Suc.prems rd
      by (simp add: up dr)
  qed
qed

lemma keep_first_ids: "row_id ` set (keep_first seen rows) = row_id ` set rows - seen"
  by (induction rows arbitrary: seen) auto

lemma keep_first_subset: "set (keep_first seen rows) \<subseteq> set rows"
  by (induction rows arbitrary: seen) auto

lemma keep_first_distinct: "distinct (map row_id (keep_first seen rows))"
proof (induction rows arbitrary: seen)
  case (Cons r rows)
  have "row_id r \<notin> set (map row_id (keep_first (insert (row_id r) seen) rows))"
    using keep_first_ids [of "insert (row_id r) seen" rows] by simp
  then show ?case using Cons by simp
qed simp

lemma keep_first_sorted: "sorted_by cmp rows \<Longrightarrow> sorted_by cmp (keep_first seen rows)"
proof (induction rows arbitrary: seen)
  case (Cons r rows)
  have "\<forall>y\<in>set (keep_first (insert (row_id r) seen) rows). cmp r y \<noteq> OGreater"
    using Cons.prems keep_first_subset [of "insert (row_id r) seen" rows] by (auto simp: sorted_by_def)
  then show ?case using Cons by (simp add: sorted_by_def)
qed simp

lemma keep_first_id: "distinct (map row_id rows) \<Longrightarrow> row_id ` set rows \<inter> seen = {} \<Longrightarrow> keep_first seen rows = rows"
  by (induction rows arbitrary: seen) auto

text \<open>The row kept for an id is the best of that id.\<close>

lemma keep_first_best:
  assumes "sorted_by cmp rows" and "\<And>a. cmp a a \<noteq> OGreater" and "r \<in> set rows" and "row_id r \<notin> seen"
  shows "\<exists>z\<in>set (keep_first seen rows). row_id z = row_id r \<and> cmp z r \<noteq> OGreater"
  using assms(1,3,4)
proof (induction rows arbitrary: seen)
  case (Cons x rows)
  show ?case
  proof (cases "row_id r = row_id x")
    case True
    moreover have "cmp x r \<noteq> OGreater" using Cons.prems assms(2) by (auto simp: sorted_by_def)
    ultimately show ?thesis using Cons.prems by auto
  next
    case False
    then have r: "r \<in> set rows" "sorted_by cmp rows" using Cons.prems by (auto simp: sorted_by_def)
    show ?thesis
    proof (cases "row_id x \<in> seen")
      case True
      then show ?thesis using Cons.IH [of seen] r Cons.prems by simp
    next
      case no: False
      then show ?thesis using Cons.IH [of "insert (row_id x) seen"] r Cons.prems False by auto
    qed
  qed
qed simp

lemma check_finite_Ok: "check_finite_scores show_f32 rows = Ok () \<longleftrightarrow> list_all (f32_is_finite \<circ> score) rows"
  by (induction rows) auto

lemma check_finite_True: "list_all (f32_is_finite \<circ> score) rows \<Longrightarrow> check_finite_scores show_f32 rows = Ok ()"
  by (simp add: check_finite_Ok)

lemma check_finite_not_panic: "check_finite_scores show_f32 rows \<noteq> Panic"
  by (induction rows) auto

lemma rank_row_refl: "rank_row_order a a \<noteq> OGreater"
  by (simp add: rank_row_order_def f32_total_cmp_def ord_cmp_def)

definition normalized :: "scored_row list \<Rightarrow> scored_row list" where
  "normalized rows = keep_first {} (sort_by rank_row_order rows)"

lemma normalize_eq:
  "normalize_ranked_list show_f32 rows = obind (check_finite_scores show_f32 rows) (\<lambda>_. Ok (normalized rows))"
proof -
  define S where "S = sort_by rank_row_order rows"
  obtain rows' n where c: "compact_rows {} 0 [0..<length S] S = (rows', n)" by fastforce
  then have "take n rows' = normalized rows"
    using compact_rows_spec [of 0 0 S "{}"] by (simp add: normalized_def S_def)
  then show ?thesis
    using c by (simp add: normalize_ranked_list_def sort_ranked_slice_def obind_assoc flip: S_def)
qed

lemma normalized_canonical:
  assumes "list_all (f32_is_finite \<circ> score) rows"
  shows "canonical_rows (normalized rows)"
  unfolding canonical_rows_def normalized_def
proof (intro conjI keep_first_distinct keep_first_sorted ranked.sorted_sort_by)
  show "list_all (f32_is_finite \<circ> score) (keep_first {} (sort_by rank_row_order rows))"
    using assms keep_first_subset [of "{}" "sort_by rank_row_order rows"] by (auto simp: list_all_iff)
qed

lemma normalized_canonical_id: "canonical_rows rows \<Longrightarrow> normalized rows = rows"
  by (simp add: canonical_rows_def normalized_def ranked.sort_by_sorted keep_first_id)

lemma canonical_check: "canonical_rows rows \<Longrightarrow> check_finite_scores show_f32 rows = Ok ()"
  by (simp add: canonical_rows_def check_finite_Ok)

lemma extend_normalized_eq:
  "extend_normalized show_f32 ls (csr_offsets L0) (concat L0) =
     (obind (traverse (normalize_ranked_list show_f32) ls) (\<lambda>L. Ok (lists_batch (L0 @ L))) ::
        ('x hybrid_error, ranked_batch) outcome)"
proof (induction ls arbitrary: L0)
  case (Cons l ls)
  have "extend_normalized show_f32 ls (csr_offsets L0 @ [length (concat L0 @ l')]) (concat L0 @ l') =
      (obind (traverse (normalize_ranked_list show_f32) ls) (\<lambda>L. Ok (lists_batch (L0 @ l' # L))) ::
        ('x hybrid_error, ranked_batch) outcome)" for l'
    using Cons.IH [of "L0 @ [l']"] by (simp add: csr_offsets_snoc)
  then show ?case by (simp add: obind_assoc)
qed (simp add: lists_batch_def)

lemma from_ranked_lists_eq:
  "from_ranked_lists show_f32 ls = obind (traverse (normalize_ranked_list show_f32) ls) (Ok \<circ> lists_batch)"
  using extend_normalized_eq [of show_f32 ls "[]"] by (simp add: from_ranked_lists_def comp_def)

lemma normalize_windows_eq:
  assumes "\<forall>(a, b)\<in>set ws. a \<le> b \<and> b \<le> length hits"
  shows "normalize_windows show_f32 hits ws offsets out =
    extend_normalized show_f32 (map (\<lambda>(a, b). drop a (take b hits)) ws) offsets out"
  using assms
proof (induction ws arbitrary: offsets out)
  case (Cons w ws)
  then show ?case by (cases w) (auto simp: slice_def intro!: arg_cong [where f = "obind _"])
qed simp

lemma validate_slice_not_panic: "validate_sorted_ranked_slice show_f32 rows \<noteq> Panic"
  by (auto simp: validate_sorted_ranked_slice_def outcome_simps check_finite_not_panic
      validate_no_duplicate_rows_def split: option.splits)

lemma validate_windows_eq:
  assumes "\<forall>w\<in>set ws. fst w \<le> snd w \<and> snd w \<le> length hits"
  shows "(validate_windows show_f32 hits ws = (Ok () :: ('x hybrid_error, unit) outcome) \<longleftrightarrow>
      (\<forall>l\<in>set (map (\<lambda>(a, b). drop a (take b hits)) ws).
        validate_sorted_ranked_slice show_f32 l = (Ok () :: ('x hybrid_error, unit) outcome))) \<and>
    validate_windows show_f32 hits ws \<noteq> (Panic :: ('x hybrid_error, unit) outcome)"
  using assms
proof (induction ws)
  case (Cons w ws)
  obtain a b where w: "w = (a, b)" by fastforce
  have "validate_sorted_ranked_slice show_f32 (drop a (take b hits)) \<noteq> (Panic :: ('x hybrid_error, unit) outcome)"
    by (rule validate_slice_not_panic)
  then show ?case
    using Cons
    by (cases "validate_sorted_ranked_slice show_f32 (drop a (take b hits)) :: ('x hybrid_error, unit) outcome")
      (simp_all add: w slice_def)
qed simp

lemma valid_offsets:
  "validate_offsets offsets n = Ok () \<longleftrightarrow>
     offsets \<noteq> [] \<and> offsets ! 0 = 0 \<and> sorted offsets \<and> last offsets = n"
proof -
  have "(\<exists>(a, b)\<in>set (windows2 offsets). a > b) \<longleftrightarrow> \<not> sorted offsets"
    unfolding windows2_sorted [symmetric] by (simp add: case_prod_beta not_le)
  then show ?thesis by (simp add: validate_offsets_def)
qed

lemma windows_bounds:
  assumes "sorted offsets" and "last offsets = n" and "w \<in> set (windows2 offsets)"
  shows "fst w \<le> snd w \<and> snd w \<le> n"
proof -
  obtain i where "i < length (windows2 offsets)" "windows2 offsets ! i = w"
    using assms(3) unfolding in_set_conv_nth by blast
  then have i: "Suc i < length offsets" "w = (offsets ! i, offsets ! Suc i)"
    by (auto simp: windows2_def nth_tl)
  then have "last offsets = offsets ! (length offsets - 1)" by (intro last_conv_nth) auto
  then have "offsets ! Suc i \<le> last offsets"
    using sorted_nth_mono [OF assms(1), of "Suc i" "length offsets - 1"] i by simp
  then show ?thesis using assms i by (simp add: sorted_nth_mono)
qed

lemma valid_offsets_csr:
  assumes "offsets \<noteq> []" and "offsets ! 0 = 0" and "sorted offsets" and "last offsets = length hits"
  defines "L \<equiv> map (\<lambda>(a, b). drop a (take b hits)) (windows2 offsets)"
  shows "offsets = csr_offsets L" and "hits = concat L"
proof -
  have len: "length L = length offsets - 1" by (simp add: L_def windows2_def)
  have le: "offsets ! i \<le> length hits" if "i < length offsets" for i
    using sorted_nth_mono [OF assms(3), of i "length offsets - 1"] that assms(1,4) by (simp add: last_conv_nth)
  have pre: "concat (take i L) = take (offsets ! i) hits" if "i < length offsets" for i
    using that
  proof (induction i)
    case (Suc i)
    have "L ! i = drop (offsets ! i) (take (offsets ! Suc i) hits)"
      using Suc.prems by (simp add: L_def windows2_def nth_tl)
    moreover have "offsets ! i \<le> offsets ! Suc i" using assms(3) Suc.prems by (simp add: sorted_nth_mono)
    ultimately show ?case
      using Suc len by (simp add: take_Suc_conv_app_nth) (metis append_take_drop_id min.absorb1 take_take)
  qed (simp add: assms)
  show "offsets = csr_offsets L"
    by (rule nth_equalityI) (use pre le len assms(1) in \<open>auto simp: nth_csr_offsets\<close>)
  show "hits = concat L"
    using pre [of "length offsets - 1"] len assms(1,4) by (simp add: last_conv_nth)
qed

lemma rb_lists_batch [simp]: "rb_lists (lists_batch L) = L"
  using csr_slices [of L] by (simp add: rb_lists_def lists_batch_def)

lemma batch_ok_lists: "batch_ok (lists_batch L) \<longleftrightarrow> list_all canonical_rows L"
  by (simp add: batch_ok_def)

lemma query_count_lists [simp]: "rb_query_count (lists_batch L) = length L"
  by (simp add: rb_query_count_def lists_batch_def)

lemma hits_for_query_lists [simp]:
  "rb_hits_for_query (lists_batch L) q = (if q < length L then Some (L ! q) else None)"
  using csr_range [of q L]
  by (auto simp: rb_hits_for_query_def lists_batch_def get_nth_def get_range_def)

lemma batch_ok_cases:
  assumes "batch_ok b"
  obtains L where "b = lists_batch L" "list_all canonical_rows L"
  using assms that unfolding batch_ok_def by blast

text \<open>The other constructors, as \<open>from_ranked_lists\<close> on the lists of the queries.\<close>

lemma from_offsets_hits_eq:
  assumes "validate_offsets offsets (length hits) = (Ok () :: ('x hybrid_error, unit) outcome)"
  shows "from_offsets_hits show_f32 offsets hits =
    (from_ranked_lists show_f32 (rb_lists \<lparr>rb_offsets = offsets, rb_hits = hits\<rparr>) :: ('x hybrid_error, ranked_batch) outcome)"
proof -
  have "\<forall>(a, b)\<in>set (windows2 offsets). a \<le> b \<and> b \<le> length hits"
    using assms windows_bounds [of offsets "length hits"] by (auto simp: valid_offsets)
  then show ?thesis
    using assms by (simp add: from_offsets_hits_def normalize_windows_eq from_ranked_lists_def rb_lists_def)
qed

lemma valid_offsets_lists:
  assumes "validate_offsets offsets (length hits) = (Ok () :: ('x hybrid_error, unit) outcome)"
  shows "\<lparr>rb_offsets = offsets, rb_hits = hits\<rparr> = lists_batch (rb_lists \<lparr>rb_offsets = offsets, rb_hits = hits\<rparr>)"
  using assms valid_offsets_csr [of offsets hits] by (simp add: valid_offsets lists_batch_def rb_lists_def)

lemma valid_csr_offsets: "validate_offsets (csr_offsets L) (length (concat L)) = Ok ()"
proof -
  have "csr_offsets L ! i \<le> csr_offsets L ! j" if "i \<le> j" "j \<le> length L" for i j
    using that by (simp add: nth_csr_offsets) (metis (no_types, lifting) le_add_diff_inverse length_append
      concat_append le_add1 take_add)
  then have "sorted (csr_offsets L)" by (simp add: sorted_iff_nth_mono)
  moreover have "csr_offsets L \<noteq> []" by (metis length_csr_offsets list.size(3) nat.distinct(1))
  ultimately show ?thesis by (simp add: valid_offsets last_conv_nth nth_csr_offsets)
qed

lemma from_offsets_hits_csr:
  "from_offsets_hits show_f32 (csr_offsets L) (concat L) = from_ranked_lists show_f32 L"
  using from_offsets_hits_eq [OF valid_csr_offsets, of show_f32 L] csr_slices [of L]
  by (simp add: rb_lists_def)

definition flat_list :: "('a \<Rightarrow> u64 option) \<Rightarrow> (f32 \<times> 'a) list \<Rightarrow> scored_row list" where
  "flat_list id_of ps = concat (map (\<lambda>(s, i). case id_of i of
     None \<Rightarrow> [] | Some r \<Rightarrow> [\<lparr>row_id = r, score = s\<rparr>]) ps)"

definition query_range :: "nat \<Rightarrow> nat \<Rightarrow> 'a list \<Rightarrow> 'a list" where
  "query_range k q xs = drop (q * k) (take (q * k + k) xs)"

lemma flat_rows_eq:
  assumes "\<forall>q\<in>set qs. q * k + k \<le> length scores \<and> q * k + k \<le> length ids"
  shows "flat_rows k qs id_of scores ids (csr_offsets L0) (concat L0) =
    (let L = map (\<lambda>q. flat_list id_of (zip (query_range k q scores) (query_range k q ids))) qs in
      Ok (csr_offsets (L0 @ L), concat (L0 @ L)) :: ('x hybrid_error, nat list \<times> scored_row list) outcome)"
  using assms
proof (induction qs arbitrary: L0)
  case (Cons q qs)
  then show ?case
    using Cons.IH [of "L0 @ [flat_list id_of (zip (query_range k q scores) (query_range k q ids))]"]
    by (simp add: slice_def csr_offsets_snoc Let_def flat_list_def query_range_def)
qed simp

lemma flat_bounds:
  assumes "n = nq * k" and "q < nq"
  shows "q * k + k \<le> (n :: nat)"
proof -
  have "Suc q * k \<le> nq * k" using assms(2) by (intro mult_le_mono1) simp
  then show ?thesis using assms(1) by simp
qed

lemma flat_batch:
  assumes "length scores = nq * k" and "length ids = nq * k"
  shows "obind (flat_rows k [0..<nq] id_of scores ids [0] [])
      (\<lambda>(offsets, hits). from_offsets_hits show_f32 offsets hits) =
    (from_ranked_lists show_f32
      (map (\<lambda>q. flat_list id_of (zip (query_range k q scores) (query_range k q ids))) [0..<nq]) ::
        ('x hybrid_error, ranked_batch) outcome)"
proof -
  have "\<forall>q\<in>set [0..<nq]. q * k + k \<le> length scores \<and> q * k + k \<le> length ids"
    using flat_bounds assms by auto
  note rows = flat_rows_eq [OF this, of id_of "[]", where 'x = 'x]
  show ?thesis using rows by (simp add: Let_def from_offsets_hits_csr)
qed

lemma check_flat_Ok: "check_flat nq k m n what = Ok () \<longleftrightarrow> m = n \<and> m = nq * k \<and> m \<le> usize_max"
  by (auto simp: check_flat_def split: option.splits)

lemma check_flat_intro: "m = n \<Longrightarrow> m = nq * k \<Longrightarrow> m \<le> usize_max \<Longrightarrow> check_flat nq k m n what = Ok ()"
  by (simp add: check_flat_Ok)

lemma check_flat_not_panic: "check_flat nq k m n what \<noteq> Panic"
  by (auto simp: check_flat_def split: option.splits)

lemma traverse_normalize_Ok:
  "traverse (normalize_ranked_list show_f32) ls = Ok L \<longleftrightarrow>
     list_all (list_all (f32_is_finite \<circ> score)) ls \<and> L = map normalized ls"
  by (induction ls arbitrary: L) (auto simp: outcome_simps normalize_eq check_finite_Ok)

lemma from_ranked_lists_Ok:
  "from_ranked_lists show_f32 ls = Ok b \<longleftrightarrow>
     list_all (list_all (f32_is_finite \<circ> score)) ls \<and> b = lists_batch (map normalized ls)"
  unfolding from_ranked_lists_eq obind_eq_Ok traverse_normalize_Ok by auto

lemma from_ranked_lists_not_panic: "from_ranked_lists show_f32 ls \<noteq> Panic"
  by (auto simp: from_ranked_lists_eq outcome_simps normalize_eq check_finite_not_panic dest: traverse_Panic_elem)

lemma from_ranked_lists_canonical:
  assumes "from_ranked_lists show_f32 ls = Ok b"
  shows "batch_ok b" and "rb_query_count b = length ls"
  using assms by (auto simp: from_ranked_lists_Ok batch_ok_lists list_all_iff normalized_canonical)

lemma sorted_windows: "sorted_by rank_row_order rows \<longleftrightarrow> (\<forall>(a, b)\<in>set (windows2 rows). rank_row_order a b \<noteq> OGreater)"
proof (induction rows rule: induct_list012)
  case (3 x y zs)
  then show ?case unfolding ranked.sorted_by_adjacent by simp
qed (simp_all add: sorted_by_def)

lemma validate_slice_Ok: "validate_sorted_ranked_slice show_f32 rows = Ok () \<longleftrightarrow> canonical_rows rows"
proof -
  have "(\<exists>(prev, nxt)\<in>set (windows2 rows). rank_row_order prev nxt = OGreater) \<longleftrightarrow> \<not> sorted_by rank_row_order rows"
    unfolding sorted_windows by (simp add: case_prod_beta)
  then show ?thesis
    using first_duplicate_None [of "{}" "map row_id rows"]
    by (auto simp: validate_sorted_ranked_slice_def canonical_rows_def outcome_simps check_finite_Ok
        validate_no_duplicate_rows_def split: option.splits)
qed

lemma from_sorted_Ok:
  "from_sorted_offsets_hits show_f32 offsets hits = (Ok b :: ('x hybrid_error, ranked_batch) outcome) \<longleftrightarrow>
     b = \<lparr>rb_offsets = offsets, rb_hits = hits\<rparr> \<and>
     validate_offsets offsets (length hits) = (Ok () :: ('x hybrid_error, unit) outcome) \<and>
     list_all canonical_rows (rb_lists b)"
proof (cases "validate_offsets offsets (length hits) = (Ok () :: ('x hybrid_error, unit) outcome)")
  case True
  then have "\<forall>w\<in>set (windows2 offsets). fst w \<le> snd w \<and> snd w \<le> length hits"
    using windows_bounds [of offsets "length hits"] by (simp add: valid_offsets)
  with validate_windows_eq [of "windows2 offsets" hits show_f32, where 'x = 'x]
  show ?thesis
    using True by (auto simp: from_sorted_offsets_hits_def outcome_simps rb_lists_def list_all_iff validate_slice_Ok)
qed (auto simp: from_sorted_offsets_hits_def outcome_simps)

lemma from_offsets_canonical:
  "(from_offsets_hits show_f32 offsets hits = (Ok b :: ('x hybrid_error, ranked_batch) outcome) \<longrightarrow>
      batch_ok b \<and> rb_query_count b = length offsets - 1) \<and>
    from_offsets_hits show_f32 offsets hits \<noteq> (Panic :: ('x hybrid_error, ranked_batch) outcome)"
proof (cases "validate_offsets offsets (length hits) = (Ok () :: ('x hybrid_error, unit) outcome)")
  case True
  have "length (rb_lists \<lparr>rb_offsets = offsets, rb_hits = hits\<rparr>) = length offsets - 1"
    by (simp add: rb_lists_def windows2_def)
  then show ?thesis
    using from_ranked_lists_canonical [where ls = "rb_lists \<lparr>rb_offsets = offsets, rb_hits = hits\<rparr>" and 'a = 'x]
    by (auto simp: from_offsets_hits_eq [OF True] from_ranked_lists_not_panic)
next
  case False
  moreover have "validate_offsets offsets (length hits) \<noteq> (Panic :: ('x hybrid_error, unit) outcome)"
    by (simp add: validate_offsets_def)
  ultimately show ?thesis by (auto simp: from_offsets_hits_def outcome_simps)
qed

lemma from_sorted_canonical:
  "(from_sorted_offsets_hits show_f32 offsets hits = (Ok b :: ('x hybrid_error, ranked_batch) outcome) \<longrightarrow>
      batch_ok b \<and> rb_query_count b = length offsets - 1) \<and>
    from_sorted_offsets_hits show_f32 offsets hits \<noteq> (Panic :: ('x hybrid_error, ranked_batch) outcome)"
proof (cases "validate_offsets offsets (length hits) = (Ok () :: ('x hybrid_error, unit) outcome)")
  case True
  then have "\<forall>w\<in>set (windows2 offsets). fst w \<le> snd w \<and> snd w \<le> length hits"
    using windows_bounds [of offsets "length hits"] by (simp add: valid_offsets)
  with validate_windows_eq [of "windows2 offsets" hits show_f32, where 'x = 'x]
  have "validate_windows show_f32 hits (windows2 offsets) \<noteq> (Panic :: ('x hybrid_error, unit) outcome)" by simp
  moreover have "batch_ok \<lparr>rb_offsets = offsets, rb_hits = hits\<rparr>"
    if "list_all canonical_rows (rb_lists \<lparr>rb_offsets = offsets, rb_hits = hits\<rparr>)"
    using valid_offsets_lists [OF True] that by (simp add: batch_ok_def)
  ultimately have "from_sorted_offsets_hits show_f32 offsets hits \<noteq> (Panic :: ('x hybrid_error, ranked_batch) outcome)"
    and "from_sorted_offsets_hits show_f32 offsets hits = (Ok b :: ('x hybrid_error, ranked_batch) outcome) \<longrightarrow> batch_ok b"
    using True by (simp add: from_sorted_offsets_hits_def, auto simp: from_sorted_Ok outcome_simps)
  then show ?thesis by (auto simp: from_sorted_Ok rb_query_count_def)
next
  case False
  moreover have "validate_offsets offsets (length hits) \<noteq> (Panic :: ('x hybrid_error, unit) outcome)"
    by (simp add: validate_offsets_def)
  ultimately show ?thesis by (auto simp: from_sorted_offsets_hits_def outcome_simps)
qed

lemma flat_canonical:
  assumes "r = obind (check_flat nq k (length scores) (length ids) what) (\<lambda>_.
      obind (flat_rows k [0..<nq] id_of scores ids [0] []) (\<lambda>(offsets, hits). from_offsets_hits show_f32 offsets hits))"
  shows "(r = (Ok b :: ('x hybrid_error, ranked_batch) outcome) \<longrightarrow> batch_ok b \<and> rb_query_count b = nq) \<and>
    r \<noteq> (Panic :: ('x hybrid_error, ranked_batch) outcome)"
proof (cases "check_flat nq k (length scores) (length ids) what = (Ok () :: ('x hybrid_error, unit) outcome)")
  case True
  let ?L = "map (\<lambda>q. flat_list id_of (zip (query_range k q scores) (query_range k q ids))) [0..<nq]"
  have "r = from_ranked_lists show_f32 ?L"
    using True by (simp add: assms check_flat_intro check_flat_Ok flat_batch)
  then show ?thesis
    using from_ranked_lists_canonical [where ls = ?L and 'a = 'x] by (auto simp: from_ranked_lists_not_panic)
next
  case False
  moreover have "check_flat nq k (length scores) (length ids) what \<noteq> (Panic :: ('x hybrid_error, unit) outcome)"
    by (rule check_flat_not_panic)
  ultimately show ?thesis by (auto simp: assms outcome_simps)
qed

lemmas flat_ids_canonical = flat_canonical [OF from_flat_scores_ids_def]
lemmas flat_indices_canonical = flat_canonical [OF from_flat_scores_i64_indices_def]

section \<open>Properties\<close>

text \<open>
  Normalizing a ranked list: it fails exactly when a score is not finite and never panics;
  otherwise the result is in rank order without repeated ids, holds an entry for exactly the ids of
  the input, and the entry kept for an id is the best of that id.
\<close>

theorem normalize_exact:
  "case normalize_ranked_list show_f32 rows of
     Ok out \<Rightarrow> list_all (f32_is_finite \<circ> score) rows \<and> canonical_rows out \<and>
       set out \<subseteq> set rows \<and> row_id ` set out = row_id ` set rows \<and>
       (\<forall>r\<in>set rows. \<exists>z\<in>set out. row_id z = row_id r \<and> rank_row_order z r \<noteq> OGreater)
   | Err e \<Rightarrow> \<not> list_all (f32_is_finite \<circ> score) rows
   | Panic \<Rightarrow> False"
proof (cases "list_all (f32_is_finite \<circ> score) rows")
  case True
  have best: "\<exists>z\<in>set (normalized rows). row_id z = row_id r \<and> rank_row_order z r \<noteq> OGreater"
    if "r \<in> set rows" for r
    unfolding normalized_def
    by (rule keep_first_best [OF ranked.sorted_sort_by rank_row_refl]) (use that in simp_all)
  have "set (normalized rows) \<subseteq> set rows" "row_id ` set (normalized rows) = row_id ` set rows"
    using keep_first_subset [of "{}" "sort_by rank_row_order rows"]
      keep_first_ids [of "{}" "sort_by rank_row_order rows"]
    by (simp_all add: normalized_def)
  with True best show ?thesis
    by (simp add: normalize_eq normalized_canonical check_finite_True)
next
  case False
  then show ?thesis
    by (auto simp: normalize_eq outcome_simps check_finite_Ok check_finite_not_panic split: outcome.split)
qed

theorem normalize_exact_witness:
  "case (normalize_ranked_list (\<lambda>_. [])
      [\<lparr>row_id = 2, score = f32_zero\<rparr>, \<lparr>row_id = 2, score = f32_one\<rparr>] :: (unit hybrid_error, scored_row list) outcome) of
     Ok out \<Rightarrow> row_id ` set out = {2} | Err e \<Rightarrow> False | Panic \<Rightarrow> False"
proof -
  have "list_all (f32_is_finite \<circ> score) [\<lparr>row_id = 2, score = f32_zero\<rparr>, \<lparr>row_id = 2, score = f32_one\<rparr>]"
    by (simp add: float_eval)
  then show ?thesis
    using normalize_exact [of "[\<lparr>row_id = 2, score = f32_zero\<rparr>, \<lparr>row_id = 2, score = f32_one\<rparr>]" "\<lambda>_. []",
        where 'a = unit]
    by (simp split: outcome.splits)
qed

text \<open>
  No constructor of a batch lets an ill-formed one out: whatever offsets, hits or flat buffers
  are given, the call does not panic, and a returned batch has consistent offsets, rank order,
  finite scores and no repeated id in every query, for the number of queries asked.
\<close>

theorem batch_constructors_canonical:
  "(\<forall>b. from_ranked_lists show_f32 ls = Ok b \<longrightarrow> batch_ok b \<and> rb_query_count b = length ls) \<and>
   (\<forall>b. from_offsets_hits show_f32 offsets hits = Ok b \<longrightarrow> batch_ok b \<and> rb_query_count b = length offsets - 1) \<and>
   (\<forall>b. from_sorted_offsets_hits show_f32 offsets hits = Ok b \<longrightarrow> batch_ok b \<and> rb_query_count b = length offsets - 1) \<and>
   (\<forall>b. from_flat_scores_ids show_f32 nq k scores ids = Ok b \<longrightarrow> batch_ok b \<and> rb_query_count b = nq) \<and>
   (\<forall>b. from_flat_scores_slots show_f32 nq k scores slots = Ok b \<longrightarrow> batch_ok b \<and> rb_query_count b = nq) \<and>
   (\<forall>b. from_flat_scores_i64_indices show_f32 nq k scores indices = Ok b \<longrightarrow> batch_ok b \<and> rb_query_count b = nq) \<and>
   from_ranked_lists show_f32 ls \<noteq> Panic \<and> from_offsets_hits show_f32 offsets hits \<noteq> Panic \<and>
   from_sorted_offsets_hits show_f32 offsets hits \<noteq> Panic \<and>
   from_flat_scores_ids show_f32 nq k scores ids \<noteq> Panic \<and>
   from_flat_scores_slots show_f32 nq k scores slots \<noteq> Panic \<and>
   from_flat_scores_i64_indices show_f32 nq k scores indices \<noteq> Panic"
proof -
  show ?thesis
    by (intro conjI allI impI)
      (simp_all add: from_ranked_lists_canonical from_ranked_lists_not_panic from_offsets_canonical
        from_sorted_canonical flat_ids_canonical flat_indices_canonical from_flat_scores_slots_def)
qed

theorem batch_constructors_canonical_witness:
  "batch_ok \<lparr>rb_offsets = [0, 2], rb_hits = [\<lparr>row_id = 2, score = f32_one\<rparr>, \<lparr>row_id = 1, score = f32_zero\<rparr>]\<rparr>"
proof -
  have "from_sorted_offsets_hits (\<lambda>_. []) [0, 2] [\<lparr>row_id = 2, score = f32_one\<rparr>, \<lparr>row_id = 1, score = f32_zero\<rparr>] =
      (Ok \<lparr>rb_offsets = [0, 2], rb_hits = [\<lparr>row_id = 2, score = f32_one\<rparr>, \<lparr>row_id = 1, score = f32_zero\<rparr>]\<rparr> ::
        (unit hybrid_error, ranked_batch) outcome)"
    by (simp add: from_sorted_offsets_hits_def validate_offsets_def slice_def validate_sorted_ranked_slice_def
        validate_no_duplicate_rows_def rank_row_order_def f32_total_cmp_def ord_cmp_def f32_total_key_def float_eval)
  then show ?thesis
    using batch_constructors_canonical [of "\<lambda>_. []" "[]" "[0, 2]"
      "[\<lparr>row_id = 2, score = f32_one\<rparr>, \<lparr>row_id = 1, score = f32_zero\<rparr>]" 0 0 "[]" "[]" "[]" "[]", where 'c = unit]
    by (elim conjE) simp
qed

text \<open>
  Canonical batches are the fixed points of normalization: \<open>from_sorted_offsets_hits\<close> accepts
  offsets and hits exactly when \<open>from_offsets_hits\<close> accepts them and returns them unchanged.
\<close>

theorem sorted_is_normal_form:
  "from_sorted_offsets_hits show_f32 offsets hits = (Ok b :: ('x hybrid_error, ranked_batch) outcome) \<longleftrightarrow>
     from_offsets_hits show_f32 offsets hits = (Ok b :: ('x hybrid_error, ranked_batch) outcome) \<and>
     b = \<lparr>rb_offsets = offsets, rb_hits = hits\<rparr>"
proof (cases "validate_offsets offsets (length hits) = (Ok () :: ('x hybrid_error, unit) outcome)")
  case True
  let ?b = "\<lparr>rb_offsets = offsets, rb_hits = hits\<rparr>"
  have csr: "lists_batch (rb_lists ?b) = ?b" using valid_offsets_lists [OF True] by (rule sym)
  have "list_all canonical_rows (rb_lists ?b) \<longleftrightarrow>
      list_all (list_all (f32_is_finite \<circ> score)) (rb_lists ?b) \<and> ?b = lists_batch (map normalized (rb_lists ?b))"
  proof
    assume canon: "list_all canonical_rows (rb_lists ?b)"
    then have "map normalized (rb_lists ?b) = rb_lists ?b"
      by (intro map_idI normalized_canonical_id) (simp add: list_all_iff)
    with canon csr show "list_all (list_all (f32_is_finite \<circ> score)) (rb_lists ?b) \<and>
        ?b = lists_batch (map normalized (rb_lists ?b))"
      by (simp add: list_all_iff canonical_rows_def)
  next
    assume norm: "list_all (list_all (f32_is_finite \<circ> score)) (rb_lists ?b) \<and>
      ?b = lists_batch (map normalized (rb_lists ?b))"
    then have "rb_lists ?b = map normalized (rb_lists ?b)" by (metis rb_lists_batch)
    then show "list_all canonical_rows (rb_lists ?b)"
      using norm normalized_canonical by (metis (no_types, lifting) list.pred_map list_all_iff o_apply)
  qed
  then show ?thesis
    using True by (auto simp: from_sorted_Ok from_offsets_hits_eq from_ranked_lists_Ok)
next
  case False
  then show ?thesis by (auto simp: from_sorted_offsets_hits_def from_offsets_hits_def outcome_simps)
qed

text \<open>
  Padding is skipped before ranking: from well-sized flat buffers the constructor with signed
  indices ranks, for each query, the pairs of its range whose index is not negative; the score of a
  padding entry is never looked at, so it may be a NaN.
\<close>

theorem flat_indices_drop_sentinels:
  assumes "length scores = nq * k" and "length indices = nq * k" and "nq * k \<le> usize_max"
  shows "from_flat_scores_i64_indices show_f32 nq k scores indices =
    from_ranked_lists show_f32 (map (\<lambda>q. [\<lparr>row_id = i, score = s\<rparr>.
      (s, i) \<leftarrow> filter (\<lambda>(s, i). 0 \<le> sint i) (zip (query_range k q scores) (query_range k q indices))]) [0..<nq])"
proof -
  have "flat_list (\<lambda>i. if sint i < 0 then None else Some i) ps =
      [\<lparr>row_id = i, score = s\<rparr>. (s, i) \<leftarrow> filter (\<lambda>(s, i). 0 \<le> sint i) ps]" for ps :: "(f32 \<times> u64) list"
    by (induction ps) (auto simp: flat_list_def)
  then show ?thesis
    using assms by (simp add: from_flat_scores_i64_indices_def check_flat_intro flat_batch)
qed

theorem flat_indices_drop_sentinels_witness:
  "(from_flat_scores_i64_indices (\<lambda>_. []) 1 2 [f32_nan, f32_one] [- 1, 7] :: (unit hybrid_error, ranked_batch) outcome) =
    from_ranked_lists (\<lambda>_. []) [[\<lparr>row_id = 7, score = f32_one\<rparr>]]"
  using flat_indices_drop_sentinels [of "[f32_nan, f32_one]" 1 2 "[- 1, 7]" "\<lambda>_. []"]
  by (simp add: query_range_def usize_max_def)

end
