(* ===== verification/Fusion.thy ===== *)
theory Fusion
  imports RankedBatch
begin

text \<open>
  Reciprocal rank fusion (\<open>ordinaldb-hybrid/src/fusion.rs\<close>). The \<open>HashMap\<close> of accumulators is an
  association list in order of insertion, and the order in which \<open>into_iter\<close> yields its entries is
  the argument \<open>shuffle\<close>.
\<close>

section \<open>Reciprocal rank fusion\<close>

record rrf_config =
  rank_constant :: f32
  dense_window :: nat
  sparse_window :: nat
  top_k :: nat

text \<open>\<open>60.0_f32\<close> has the pattern \<open>0x42700000\<close>.\<close>

definition default_rrf_config :: rrf_config where
  "default_rrf_config =
     \<lparr>rank_constant = 1114636288, dense_window = usize_max, sparse_window = usize_max, top_k = usize_max\<rparr>"

definition validate_rrf_config :: "rrf_config \<Rightarrow> ('x hybrid_error, rrf_config) outcome" where
  "validate_rrf_config config =
     (if \<not> f32_is_finite (rank_constant config) \<or> f32_le (rank_constant config) f32_zero then
        Err (BatchError ''RRF rank_constant must be finite and positive'')
      else Ok config)"

record accumulator =
  acc_score :: f32
  acc_dense_rank :: "nat option"
  acc_sparse_rank :: "nat option"
  acc_dense_score :: "f32 option"
  acc_sparse_score :: "f32 option"

record fused_row =
  fused_row_id :: u64
  fused_score :: f32
  dense_rank :: "nat option"
  sparse_rank :: "nat option"
  dense_score :: "f32 option"
  sparse_score :: "f32 option"

record fused_batch =
  fb_offsets :: "nat list"
  fb_hits :: "fused_row list"

datatype source = Dense | Sparse

definition default_accumulator :: accumulator where
  "default_accumulator =
     \<lparr>acc_score = f32_zero, acc_dense_rank = None, acc_sparse_rank = None, acc_dense_score = None,
      acc_sparse_score = None\<rparr>"

fun get_or_insert :: "'a option \<Rightarrow> 'a \<Rightarrow> 'a option" where
  "get_or_insert None a = Some a"
| "get_or_insert (Some b) a = Some b"

definition contribution :: "f32 \<Rightarrow> nat \<Rightarrow> f32" where
  "contribution rank_const rank = f32_div f32_one (f32_add rank_const (f32_of_nat rank))"

fun add_to_entry :: "source \<Rightarrow> f32 \<Rightarrow> nat \<Rightarrow> f32 \<Rightarrow> accumulator \<Rightarrow> accumulator" where
  "add_to_entry Dense c rank s acc =
     acc\<lparr>acc_score := f32_add (acc_score acc) c, acc_dense_rank := get_or_insert (acc_dense_rank acc) rank,
       acc_dense_score := get_or_insert (acc_dense_score acc) s\<rparr>"
| "add_to_entry Sparse c rank s acc =
     acc\<lparr>acc_score := f32_add (acc_score acc) c, acc_sparse_rank := get_or_insert (acc_sparse_rank acc) rank,
       acc_sparse_score := get_or_insert (acc_sparse_score acc) s\<rparr>"

fun add_ranked :: "f32 \<Rightarrow> source \<Rightarrow> nat \<Rightarrow> scored_row list \<Rightarrow> (u64 \<times> accumulator) list \<Rightarrow> (u64 \<times> accumulator) list" where
  "add_ranked rank_const src rank_idx [] accum = accum"
| "add_ranked rank_const src rank_idx (row # rows) accum =
     (let rank = rank_idx + 1 in
      add_ranked rank_const src (rank_idx + 1) rows
        (entry_or_default (row_id row) default_accumulator
          (add_to_entry src (contribution rank_const rank) rank (score row)) accum))"

definition add_rrf_source ::
  "(u64 \<times> accumulator) list \<Rightarrow> scored_row list \<Rightarrow> f32 \<Rightarrow> nat \<Rightarrow> source \<Rightarrow> (u64 \<times> accumulator) list" where
  "add_rrf_source accum rows rank_const window src = add_ranked rank_const src 0 (take window rows) accum"

definition fused_order :: "fused_row \<Rightarrow> fused_row \<Rightarrow> ordering" where
  "fused_order a b =
     then_with (f32_total_cmp (fused_score b) (fused_score a))
       (ord_cmp (unat (fused_row_id a)) (unat (fused_row_id b)))"

definition to_fused :: "u64 \<times> accumulator \<Rightarrow> fused_row" where
  "to_fused = (\<lambda>(r, acc). \<lparr>fused_row_id = r, fused_score = acc_score acc, dense_rank = acc_dense_rank acc,
     sparse_rank = acc_sparse_rank acc, dense_score = acc_dense_score acc,
     sparse_score = acc_sparse_score acc\<rparr>)"

definition unwrap_or_empty :: "'a list option \<Rightarrow> 'a list" where
  "unwrap_or_empty xs = (case xs of None \<Rightarrow> [] | Some ys \<Rightarrow> ys)"

definition fuse_query ::
  "(nat \<Rightarrow> (u64 \<times> accumulator) list \<Rightarrow> (u64 \<times> accumulator) list) \<Rightarrow> ranked_batch \<Rightarrow> ranked_batch \<Rightarrow> rrf_config \<Rightarrow>
     nat \<Rightarrow> fused_row list" where
  "fuse_query shuffle dense sparse config query_idx =
     (let accum = add_rrf_source [] (unwrap_or_empty (rb_hits_for_query dense query_idx))
            (rank_constant config) (dense_window config) Dense;
          accum = add_rrf_source accum (unwrap_or_empty (rb_hits_for_query sparse query_idx))
            (rank_constant config) (sparse_window config) Sparse
      in take (top_k config) (sort_by fused_order (map to_fused (shuffle query_idx accum))))"

fun fuse_queries ::
  "(nat \<Rightarrow> fused_row list) \<Rightarrow> nat list \<Rightarrow> nat list \<Rightarrow> fused_row list \<Rightarrow> fused_batch" where
  "fuse_queries fuse [] offsets hits = \<lparr>fb_offsets = offsets, fb_hits = hits\<rparr>"
| "fuse_queries fuse (q # qs) offsets hits =
     fuse_queries fuse qs (offsets @ [length (hits @ fuse q)]) (hits @ fuse q)"

definition rrf_fuse_batch ::
  "(nat \<Rightarrow> (u64 \<times> accumulator) list \<Rightarrow> (u64 \<times> accumulator) list) \<Rightarrow> ranked_batch \<Rightarrow> ranked_batch \<Rightarrow> rrf_config \<Rightarrow>
     ('x hybrid_error, fused_batch) outcome" where
  "rrf_fuse_batch shuffle dense sparse config =
     obind (validate_rrf_config config) (\<lambda>config.
     if rb_query_count dense \<noteq> rb_query_count sparse then
       Err (BatchError (''dense query count '' @ show_nat (rb_query_count dense) @
         '' does not match sparse query count '' @ show_nat (rb_query_count sparse)))
     else Ok (fuse_queries (fuse_query shuffle dense sparse config) [0..<rb_query_count dense] [0] []))"

definition fb_query_count :: "fused_batch \<Rightarrow> nat" where
  "fb_query_count b = length (fb_offsets b) - 1"

definition fb_hits_for_query :: "fused_batch \<Rightarrow> nat \<Rightarrow> fused_row list option" where
  "fb_hits_for_query b query_idx =
     (case get_nth (fb_offsets b) query_idx of
        None \<Rightarrow> None
      | Some start \<Rightarrow>
          (case get_nth (fb_offsets b) (query_idx + 1) of
             None \<Rightarrow> None
           | Some stop \<Rightarrow> get_range (fb_hits b) start stop))"

text \<open>
  The reference: the rank of a row in a window, from 1, and the fused row as a function of the two
  ranks alone.
\<close>

fun rank_from :: "nat \<Rightarrow> scored_row list \<Rightarrow> u64 \<Rightarrow> (nat \<times> f32) option" where
  "rank_from n [] r = None"
| "rank_from n (row # rows) r = (if row_id row = r then Some (n, score row) else rank_from (n + 1) rows r)"

definition rank_score :: "f32 \<Rightarrow> (nat \<times> f32) option \<Rightarrow> (nat \<times> f32) option \<Rightarrow> f32" where
  "rank_score c d s =
     (case (d, s) of
        (None, None) \<Rightarrow> f32_zero
      | (Some (i, _), None) \<Rightarrow> contribution c i
      | (None, Some (j, _)) \<Rightarrow> contribution c j
      | (Some (i, _), Some (j, _)) \<Rightarrow> f32_add (contribution c i) (contribution c j))"

definition fused_spec :: "rrf_config \<Rightarrow> scored_row list \<Rightarrow> scored_row list \<Rightarrow> u64 \<Rightarrow> fused_row" where
  "fused_spec config dense sparse r =
     (let d = rank_from 1 (take (dense_window config) dense) r;
          s = rank_from 1 (take (sparse_window config) sparse) r
      in \<lparr>fused_row_id = r, fused_score = rank_score (rank_constant config) d s,
          dense_rank = map_option fst d, sparse_rank = map_option fst s,
          dense_score = map_option snd d, sparse_score = map_option snd s\<rparr>)"

section \<open>Fusion lemmas\<close>

interpretation fused: linear_comparator fused_order fused_row_id
proof -
  have eq: "fused_order = cmp_then (cmp_desc (f32_total_key \<circ> fused_score)) (cmp_on (unat \<circ> fused_row_id))"
    by (intro ext) (simp add: fused_order_def cmp_then_def cmp_desc_def cmp_on_def f32_total_cmp_def)
  have "comparator_laws fused_order" unfolding eq by (intro comparator_intros)
  moreover have "linear_comparator_axioms fused_order fused_row_id"
    by unfold_locales (auto simp: eq word_unat_eq_iff)
  ultimately show "linear_comparator fused_order fused_row_id"
    by (rule linear_comparator.intro)
qed

lemma add_ranked_keys [simp]:
  "fst ` set (add_ranked c src n rows m) = row_id ` set rows \<union> fst ` set m"
  by (induction c src n rows m rule: add_ranked.induct) (auto simp: Let_def)

lemma add_ranked_distinct [simp]: "distinct (map fst m) \<Longrightarrow> distinct (map fst (add_ranked c src n rows m))"
  by (induction c src n rows m rule: add_ranked.induct) (auto simp: Let_def)

lemma rank_from_None [simp]: "rank_from n rows r = None \<longleftrightarrow> r \<notin> row_id ` set rows"
  by (induction n rows r rule: rank_from.induct) auto

lemma rank_from_ge: "rank_from n rows r = Some (i, s) \<Longrightarrow> n \<le> i"
  by (induction n rows r rule: rank_from.induct) (auto split: if_splits)

definition old_entry :: "accumulator option \<Rightarrow> accumulator" where
  "old_entry v = (case v of None \<Rightarrow> default_accumulator | Some a \<Rightarrow> a)"

lemma map_of_add_ranked:
  assumes "distinct (map row_id rows)"
  shows "map_of (add_ranked c src n rows m) x =
    (case rank_from (n + 1) rows x of
       None \<Rightarrow> map_of m x
     | Some (i, s) \<Rightarrow> Some (add_to_entry src (contribution c i) i s (old_entry (map_of m x))))"
  using assms
proof (induction c src n rows m rule: add_ranked.induct)
  case (2 c src n row rows m)
  show ?case
  proof (cases "x = row_id row")
    case True
    have "rank_from (n + 1 + 1) rows (row_id row) = None" using 2 by auto
    then show ?thesis
      using 2 unfolding True by (simp add: Let_def old_entry_def del: rank_from_None)
  next
    case False
    then show ?thesis
      using 2 by (cases "rank_from (n + 1 + 1) rows x") (auto simp: Let_def simp del: rank_from_None)
  qed
qed simp

lemma fuse_queries_eq:
  "fuse_queries fuse qs (csr_offsets L0) (concat L0) =
     \<lparr>fb_offsets = csr_offsets (L0 @ map fuse qs), fb_hits = concat (L0 @ map fuse qs)\<rparr>"
proof (induction qs arbitrary: L0)
  case (Cons q qs)
  then show ?case using Cons.IH [of "L0 @ [fuse q]"] by (simp add: csr_offsets_snoc)
qed simp

lemma fuse_queries_start:
  "fuse_queries fuse qs [0] [] = \<lparr>fb_offsets = csr_offsets (map fuse qs), fb_hits = concat (map fuse qs)\<rparr>"
  using fuse_queries_eq [of fuse qs "[]"] by simp

lemma fused_lists [simp]:
  "fb_query_count \<lparr>fb_offsets = csr_offsets L, fb_hits = concat L\<rparr> = length L"
  "fb_hits_for_query \<lparr>fb_offsets = csr_offsets L, fb_hits = concat L\<rparr> q = (if q < length L then Some (L ! q) else None)"
  using csr_range [of q L]
  by (auto simp: fb_query_count_def fb_hits_for_query_def get_nth_def get_range_def)

section \<open>The scores\<close>

lemma f32_of_nat_inf: "f32_mag (f32_of_nat n) \<le> mag_inf"
  by (simp add: f32_of_nat_mag round_mag_le_inf)

lemma f32_of_nat_nonneg: "f32_mag (f32_of_nat n) \<noteq> mag_inf \<Longrightarrow> f32_nonneg (f32_of_nat n)"
  using f32_of_nat_inf [of n] f32_of_nat_neg [of n] by (simp add: f32_nonneg_def f32_is_finite_def)

lemma denominator_mag:
  assumes "f32_nonneg c"
  shows "f32_mag (f32_add c (f32_of_nat n)) =
      (if f32_mag (f32_of_nat n) = mag_inf then mag_inf
       else round_mag (mag_units (f32_mag c) + mag_units (f32_mag (f32_of_nat n))) 1)"
    and "\<not> f32_neg (f32_add c (f32_of_nat n))"
  using f32_nonneg_classify [OF assms] f32_add_nonneg [OF assms f32_of_nat_nonneg, of n] f32_of_nat_neg [of n]
    f32_of_nat_inf [of n]
  by (auto simp: f32_add_def f32_is_nan_def f32_is_infinite_def)

lemma denominator_bounds:
  assumes "f32_nonneg c"
  shows "f32_mag (f32_add c (f32_of_nat n)) \<le> mag_inf" and "f32_mag (f32_of_nat n) \<le> f32_mag (f32_add c (f32_of_nat n))"
proof -
  have "f32_mag (f32_of_nat n) = round_mag (1 * mag_units (f32_mag (f32_of_nat n))) 1"
    by (rule round_mag_exact [symmetric]) (simp_all add: f32_of_nat_inf)
  also have "\<dots> \<le> round_mag (mag_units (f32_mag c) + mag_units (f32_mag (f32_of_nat n))) 1"
    by (rule round_mag_mono) simp_all
  finally show "f32_mag (f32_of_nat n) \<le> f32_mag (f32_add c (f32_of_nat n))"
    by (simp add: denominator_mag [OF assms])
  show "f32_mag (f32_add c (f32_of_nat n)) \<le> mag_inf"
    by (simp add: denominator_mag [OF assms] round_mag_le_inf)
qed

lemma denominator_mono:
  assumes "f32_nonneg c" and "m \<le> n"
  shows "f32_mag (f32_add c (f32_of_nat m)) \<le> f32_mag (f32_add c (f32_of_nat n))"
proof (cases "f32_mag (f32_of_nat n) = mag_inf")
  case True
  then show ?thesis using denominator_bounds(1) [OF assms(1), of m] by (simp add: denominator_mag [OF assms(1)])
next
  case False
  moreover from this have "f32_mag (f32_of_nat m) \<noteq> mag_inf"
    using f32_of_nat_mono [OF assms(2)] f32_of_nat_inf [of n] by simp
  ultimately show ?thesis
    using f32_of_nat_mono [OF assms(2)] by (simp add: denominator_mag [OF assms(1)] round_mag_mono)
qed

lemma f32_one_nonneg: "f32_nonneg f32_one" "mag_units (f32_mag f32_one) = unit_scale" "0 < f32_mag f32_one"
  by (simp_all add: f32_nonneg_def float_eval cong: let_weak_cong)

lemma denominator_ge_one:
  assumes "f32_nonneg c" and "1 \<le> n"
  shows "f32_mag f32_one \<le> f32_mag (f32_add c (f32_of_nat n))"
proof -
  have "f32_mag (f32_of_nat 1) = f32_mag f32_one"
    by (simp add: float_eval cong: let_weak_cong)
  then show ?thesis using f32_of_nat_mono [OF assms(2)] denominator_bounds(2) [OF assms(1), of n] by simp
qed

lemma contribution_mag:
  assumes "f32_nonneg c" and "1 \<le> n"
  shows "f32_mag (contribution c n) =
      (if f32_mag (f32_add c (f32_of_nat n)) = mag_inf then 0
       else round_mag (unit_scale * unit_scale) (mag_units (f32_mag (f32_add c (f32_of_nat n)))))"
    and "\<not> f32_neg (contribution c n)"
proof -
  let ?d = "f32_add c (f32_of_nat n)"
  have neg: "\<not> f32_neg ?d" by (rule denominator_mag [OF assms(1)])
  have one: "\<not> f32_is_nan f32_one" "\<not> f32_is_infinite f32_one" "\<not> f32_neg f32_one"
    using f32_nonneg_classify [OF f32_one_nonneg(1)] by simp_all
  show "f32_mag (contribution c n) = (if f32_mag ?d = mag_inf then 0
       else round_mag (unit_scale * unit_scale) (mag_units (f32_mag ?d)))"
    and "\<not> f32_neg (contribution c n)"
  proof (atomize(full), cases "f32_mag ?d = mag_inf")
    case True
    then show "f32_mag (contribution c n) = (if f32_mag ?d = mag_inf then 0
       else round_mag (unit_scale * unit_scale) (mag_units (f32_mag ?d))) \<and> \<not> f32_neg (contribution c n)"
      using one neg by (simp add: contribution_def f32_div_def f32_is_nan_def f32_is_infinite_def)
  next
    case False
    then have "f32_nonneg ?d" using denominator_bounds(1) [OF assms(1), of n] neg
      by (simp add: f32_nonneg_def f32_is_finite_def)
    then show "f32_mag (contribution c n) = (if f32_mag ?d = mag_inf then 0
       else round_mag (unit_scale * unit_scale) (mag_units (f32_mag ?d))) \<and> \<not> f32_neg (contribution c n)"
      using f32_div_nonneg [OF f32_one_nonneg(1), of ?d] denominator_ge_one [OF assms] f32_one_nonneg False
      by (simp add: contribution_def)
  qed
qed

lemma contribution_le_one:
  assumes "f32_nonneg c" and "1 \<le> n"
  shows "f32_mag (contribution c n) \<le> f32_mag f32_one" and "f32_nonneg (contribution c n)"
proof -
  have one: "f32_mag f32_one < mag_inf" by (simp add: f32_mag_def f32_one_def mag_inf_def)
  have ge: "unit_scale \<le> mag_units (f32_mag (f32_add c (f32_of_nat n)))"
    using denominator_ge_one [OF assms] unfolding f32_one_nonneg(2) [symmetric] by simp
  have "round_mag (unit_scale * unit_scale) (mag_units (f32_mag (f32_add c (f32_of_nat n)))) \<le>
      round_mag (unit_scale * unit_scale) unit_scale"
    using ge less_le_trans [OF unit_scale_pos ge] by (intro round_mag_mono) simp_all
  also have "\<dots> = f32_mag f32_one"
    using round_mag_exact [of unit_scale "f32_mag f32_one"] one unfolding f32_one_nonneg(2) by simp
  finally show le: "f32_mag (contribution c n) \<le> f32_mag f32_one"
    by (simp add: contribution_mag [OF assms])
  show "f32_nonneg (contribution c n)"
    using one le contribution_mag(2) [OF assms] by (simp add: f32_nonneg_def f32_is_finite_def)
qed

lemma contribution_antimono:
  assumes "f32_nonneg c" and "1 \<le> m" and "m \<le> n"
  shows "f32_mag (contribution c n) \<le> f32_mag (contribution c m)"
proof -
  have n: "1 \<le> n" using assms by simp
  have le: "f32_mag (f32_add c (f32_of_nat m)) \<le> f32_mag (f32_add c (f32_of_nat n))"
    by (rule denominator_mono [OF assms(1,3)])
  have pos: "0 < f32_mag (f32_add c (f32_of_nat m))"
    using denominator_ge_one [OF assms(1,2)] f32_one_nonneg(3) by linarith
  have "round_mag (unit_scale * unit_scale) (mag_units (f32_mag (f32_add c (f32_of_nat n)))) \<le>
      round_mag (unit_scale * unit_scale) (mag_units (f32_mag (f32_add c (f32_of_nat m))))"
    using le pos by (intro round_mag_mono) simp_all
  then show ?thesis
    using le denominator_bounds(1) [OF assms(1), of n]
    by (auto simp: contribution_mag [OF assms(1,2)] contribution_mag [OF assms(1) n])
qed

lemma f32_add_zero_left:
  assumes "f32_nonneg x"
  shows "f32_add f32_zero x = x"
proof (rule f32_eqI)
  have zero: "f32_nonneg f32_zero" "f32_mag f32_zero = 0"
    by (simp_all add: f32_nonneg_def f32_is_finite_def float_eval)
  show "f32_neg (f32_add f32_zero x) = f32_neg x"
    using f32_add_nonneg(2) [OF zero(1) assms] assms by (simp add: f32_nonneg_def)
  have "round_mag (1 * mag_units (f32_mag x)) 1 = f32_mag x"
    using f32_nonneg_classify(4) [OF assms] by (intro round_mag_exact) simp_all
  then show "f32_mag (f32_add f32_zero x) = f32_mag x"
    by (simp add: f32_add_nonneg [OF zero(1) assms] zero(2))
qed

section \<open>The fused rows\<close>

lemma valid_constant:
  assumes "validate_rrf_config config = Ok config'"
  shows "config' = config" and "f32_nonneg (rank_constant config)"
  using assms
  by (auto simp: validate_rrf_config_def f32_nonneg_def f32_le_def f32_is_finite_def f32_is_nan_def f32_key_def
      f32_zero_def f32_mag_def f32_neg_def mag_inf_def split: if_splits)

definition query_accum :: "rrf_config \<Rightarrow> scored_row list \<Rightarrow> scored_row list \<Rightarrow> (u64 \<times> accumulator) list" where
  "query_accum config dense sparse =
     add_rrf_source (add_rrf_source [] dense (rank_constant config) (dense_window config) Dense)
       sparse (rank_constant config) (sparse_window config) Sparse"

definition window_ids :: "rrf_config \<Rightarrow> scored_row list \<Rightarrow> scored_row list \<Rightarrow> u64 set" where
  "window_ids config dense sparse =
     row_id ` set (take (dense_window config) dense) \<union> row_id ` set (take (sparse_window config) sparse)"

lemma query_accum_keys:
  "distinct (map fst (query_accum config dense sparse))"
  "fst ` set (query_accum config dense sparse) = window_ids config dense sparse"
  by (auto simp: query_accum_def add_rrf_source_def window_ids_def)

lemma query_accum_entry:
  assumes "distinct (map row_id dense)" and "distinct (map row_id sparse)"
    and c: "f32_nonneg (rank_constant config)" and "e \<in> set (query_accum config dense sparse)"
  shows "to_fused e = fused_spec config dense sparse (fst e)"
proof -
  let ?c = "rank_constant config"
  obtain r acc where e: "e = (r, acc)" by fastforce
  let ?d = "rank_from 1 (take (dense_window config) dense) r"
  let ?s = "rank_from 1 (take (sparse_window config) sparse) r"
  have dd: "distinct (map row_id (take n dense))" "distinct (map row_id (take n sparse))" for n
    using assms(1,2) by (simp_all add: take_map [symmetric])
  have "map_of (query_accum config dense sparse) r = Some acc"
    using assms(4) query_accum_keys(1) by (simp add: e)
  then have acc: "Some acc = (case ?s of
      None \<Rightarrow> map_of (add_ranked ?c Dense 0 (take (dense_window config) dense) []) r
    | Some (j, s) \<Rightarrow> Some (add_to_entry Sparse (contribution ?c j) j s
        (old_entry (map_of (add_ranked ?c Dense 0 (take (dense_window config) dense) []) r))))"
    using map_of_add_ranked [OF dd(2), of ?c Sparse 0] by (simp add: query_accum_def add_rrf_source_def)
  have dense: "map_of (add_ranked ?c Dense 0 (take (dense_window config) dense) []) r =
      (case ?d of None \<Rightarrow> None | Some (i, s) \<Rightarrow>
        Some (add_to_entry Dense (contribution ?c i) i s default_accumulator))"
    using map_of_add_ranked [OF dd(1), of ?c Dense 0 _ "[]"]
    by (cases ?d) (auto simp: old_entry_def simp del: rank_from_None)
  have zero: "f32_add f32_zero (contribution ?c i) = contribution ?c i"
    if "rank_from 1 rows r = Some (i, s)" for rows i s
    using rank_from_ge [OF that] by (simp add: f32_add_zero_left contribution_le_one(2) [OF c])
  show ?thesis
  proof (cases ?d)
    case None
    then show ?thesis
      using acc zero [of "take (sparse_window config) sparse"] unfolding dense
      by (cases ?s) (auto simp: e to_fused_def fused_spec_def rank_score_def old_entry_def default_accumulator_def
          Let_def simp del: rank_from_None)
  next
    case (Some di)
    obtain i s where di: "di = (i, s)" by fastforce
    show ?thesis
      using acc zero [of "take (dense_window config) dense" i s] Some di unfolding dense
      by (cases ?s) (auto simp: e to_fused_def fused_spec_def rank_score_def old_entry_def default_accumulator_def
          Let_def simp del: rank_from_None)
  qed
qed

lemma fuse_query_rows:
  assumes dist: "distinct (map row_id dense)" "distinct (map row_id sparse)"
    and c: "f32_nonneg (rank_constant config)"
    and perm: "\<And>m. mset (shuffle q m) = mset m"
  defines "L \<equiv> sort_by fused_order (map to_fused (shuffle q (query_accum config dense sparse)))"
  shows "sorted_by fused_order L" and "distinct (map fused_row_id L)"
    and "set L = fused_spec config dense sparse ` window_ids config dense sparse"
proof -
  let ?m = "query_accum config dense sparse"
  have ids: "fused_row_id \<circ> to_fused = fst" by (auto simp: to_fused_def)
  show "sorted_by fused_order L" unfolding L_def by (rule fused.sorted_sort_by)
  have "distinct (map fst (shuffle q ?m))"
    using perm [of ?m] query_accum_keys(1) by (metis mset_eq_imp_distinct_iff mset_map)
  then show "distinct (map fused_row_id L)" by (simp add: L_def ids)
  have "set L = to_fused ` set ?m" using mset_eq_setD [OF perm [of ?m]] by (simp add: L_def)
  also have "\<dots> = fused_spec config dense sparse ` fst ` set ?m"
    unfolding image_image by (intro image_cong refl query_accum_entry dist c)
  finally show "set L = fused_spec config dense sparse ` window_ids config dense sparse"
    by (simp add: query_accum_keys)
qed

text \<open>The order in which the hash map is walked does not show.\<close>

lemma fuse_query_order:
  assumes "\<And>m. mset (shuffle q m) = mset m" and "\<And>m. mset (shuffle' q m) = mset m"
  shows "fuse_query shuffle dense sparse config q = fuse_query shuffle' dense sparse config q"
proof -
  let ?m = "query_accum config (unwrap_or_empty (rb_hits_for_query dense q)) (unwrap_or_empty (rb_hits_for_query sparse q))"
  have ids: "fused_row_id \<circ> to_fused = fst" by (auto simp: to_fused_def)
  have "distinct (map fused_row_id (map to_fused (shuffle q ?m)))"
    unfolding map_map ids
    using assms(1) [of ?m] query_accum_keys(1) by (metis mset_eq_imp_distinct_iff mset_map)
  then have "inj_on fused_row_id (set (map to_fused (shuffle q ?m)))" by (simp only: distinct_map)
  then have "sort_by fused_order (map to_fused (shuffle q ?m)) = sort_by fused_order (map to_fused (shuffle' q ?m))"
    using assms by (intro fused.sort_by_perm_invariant) simp_all
  then show ?thesis by (simp add: fuse_query_def query_accum_def)
qed

lemma rrf_Ok:
  "rrf_fuse_batch shuffle dense sparse config = (Ok f :: ('x hybrid_error, fused_batch) outcome) \<longleftrightarrow>
     validate_rrf_config config = (Ok config :: ('x hybrid_error, rrf_config) outcome) \<and>
     rb_query_count dense = rb_query_count sparse \<and>
     f = \<lparr>fb_offsets = csr_offsets (map (fuse_query shuffle dense sparse config) [0..<rb_query_count dense]),
       fb_hits = concat (map (fuse_query shuffle dense sparse config) [0..<rb_query_count dense])\<rparr>"
  for f :: fused_batch
  by (auto simp: rrf_fuse_batch_def outcome_simps fuse_queries_start validate_rrf_config_def split: if_splits)

definition rank_at_least :: "nat option \<Rightarrow> nat option \<Rightarrow> bool" where
  "rank_at_least a b \<longleftrightarrow> (case b of None \<Rightarrow> True | Some j \<Rightarrow> (case a of None \<Rightarrow> False | Some i \<Rightarrow> i \<le> j))"

definition rank_ok :: "(nat \<times> f32) option \<Rightarrow> bool" where
  "rank_ok d \<longleftrightarrow> (case d of None \<Rightarrow> True | Some (i, _) \<Rightarrow> 1 \<le> i)"

lemma rank_ok_from: "rank_ok (rank_from 1 rows r)"
  using rank_from_ge [of 1 rows r] by (auto simp: rank_ok_def split: option.split)

definition part :: "f32 \<Rightarrow> (nat \<times> f32) option \<Rightarrow> f32" where
  "part c d = (case d of None \<Rightarrow> f32_zero | Some (i, _) \<Rightarrow> contribution c i)"

lemma f32_zero_nonneg: "f32_nonneg f32_zero" "f32_mag f32_zero = 0"
  by (simp_all add: f32_nonneg_def f32_is_finite_def f32_zero_def f32_mag_def f32_neg_def mag_inf_def)

lemma part_bounds:
  assumes "f32_nonneg c" and "rank_ok d"
  shows "f32_nonneg (part c d)" and "f32_mag (part c d) \<le> f32_mag f32_one"
  using assms
  by (auto simp: part_def rank_ok_def f32_zero_nonneg contribution_le_one split: option.splits)

lemma part_mono:
  assumes "f32_nonneg c" and "rank_ok d" and "rank_at_least (map_option fst d) (map_option fst d')"
  shows "f32_mag (part c d') \<le> f32_mag (part c d)"
  using assms
  by (auto simp: part_def rank_ok_def rank_at_least_def f32_zero_nonneg contribution_antimono split: option.splits)

lemma rank_score_parts:
  assumes "f32_nonneg c" and "rank_ok d" and "rank_ok s"
  shows "f32_mag (rank_score c d s) = f32_mag (f32_add (part c d) (part c s))"
    and "f32_nonneg (rank_score c d s)"
proof -
  note d = part_bounds [OF assms(1,2)] and s = part_bounds [OF assms(1,3)]
  have exact: "round_mag (mag_units (f32_mag x)) 1 = f32_mag x" if "f32_nonneg x" for x
    using round_mag_exact [of 1 "f32_mag x"] f32_nonneg_classify(4) [OF that] by simp
  show mag: "f32_mag (rank_score c d s) = f32_mag (f32_add (part c d) (part c s))"
    using d(1) s(1) exact [OF d(1)] exact [OF s(1)]
    by (auto simp: rank_score_def part_def f32_zero_nonneg f32_add_nonneg split: option.splits)
  have neg: "\<not> f32_neg (rank_score c d s)"
    using d(1) s(1) f32_add_nonneg(2) [OF d(1) s(1)] f32_zero_nonneg(1)
    by (auto simp: rank_score_def part_def f32_nonneg_def split: option.splits)
  have "f32_mag (f32_add (part c d) (part c s)) \<le> f32_mag (f32_add f32_one f32_one)"
    by (rule f32_add_mono [OF d(1) s(1) f32_one_nonneg(1) f32_one_nonneg(1) d(2) s(2)])
  also have "\<dots> < mag_inf" by (simp add: float_eval cong: let_weak_cong)
  finally show "f32_nonneg (rank_score c d s)"
    using mag neg by (simp add: f32_nonneg_def f32_is_finite_def)
qed

lemma rank_score_mono:
  assumes "f32_nonneg c" and "rank_ok d" "rank_ok s" "rank_ok d'" "rank_ok s'"
    and "rank_at_least (map_option fst d) (map_option fst d')" and "rank_at_least (map_option fst s) (map_option fst s')"
  shows "f32_total_key (rank_score c d' s') \<le> f32_total_key (rank_score c d s)"
proof -
  have "f32_mag (rank_score c d' s') \<le> f32_mag (rank_score c d s)"
    using part_mono [OF assms(1,2,6)] part_mono [OF assms(1,3,7)]
    by (simp add: rank_score_parts assms f32_add_mono part_bounds)
  then show ?thesis by (simp add: f32_nonneg_mag_cmp rank_score_parts(2) assms)
qed

lemma rrf_query:
  assumes "batch_ok dense" and "batch_ok sparse" and "\<And>q m. mset (shuffle q m) = mset m"
    and "rrf_fuse_batch shuffle dense sparse config = (Ok f :: ('x hybrid_error, fused_batch) outcome)"
  shows "fb_query_count f = rb_query_count dense \<and>
    (\<forall>q < rb_query_count dense. \<exists>D S L.
       rb_hits_for_query dense q = Some D \<and> rb_hits_for_query sparse q = Some S \<and>
       fb_hits_for_query f q = Some (take (top_k config) L) \<and>
       sorted_by fused_order L \<and> distinct (map fused_row_id L) \<and>
       set L = fused_spec config D S ` window_ids config D S)"
proof -
  obtain Ds where D: "dense = lists_batch Ds" "list_all canonical_rows Ds" using assms(1) by (rule batch_ok_cases)
  obtain Ss where S: "sparse = lists_batch Ss" "list_all canonical_rows Ss" using assms(2) by (rule batch_ok_cases)
  have valid: "validate_rrf_config config = (Ok config :: ('x hybrid_error, rrf_config) outcome)"
    and len: "length Ss = length Ds"
    and f: "f = \<lparr>fb_offsets = csr_offsets (map (fuse_query shuffle dense sparse config) [0..<length Ds]),
       fb_hits = concat (map (fuse_query shuffle dense sparse config) [0..<length Ds])\<rparr>"
    using assms(4) by (simp_all add: rrf_Ok D(1) S(1))
  have row: "\<exists>L. fuse_query shuffle dense sparse config q = take (top_k config) L \<and>
      sorted_by fused_order L \<and> distinct (map fused_row_id L) \<and>
      set L = fused_spec config (Ds ! q) (Ss ! q) ` window_ids config (Ds ! q) (Ss ! q)"
    if q: "q < length Ds" for q
  proof -
    have dist: "distinct (map row_id (Ds ! q))" "distinct (map row_id (Ss ! q))"
      using q D S len by (auto simp: list_all_length canonical_rows_def)
    note rows = fuse_query_rows [where shuffle = shuffle and q = q, OF dist valid_constant(2) [OF valid] assms(3)]
    show ?thesis
      using rows q len
      by (intro exI [of _ "sort_by fused_order (map to_fused (shuffle q (query_accum config (Ds ! q) (Ss ! q))))"])
        (simp add: fuse_query_def D(1) S(1) unwrap_or_empty_def query_accum_def)
  qed
  have hits: "fb_hits_for_query f q = Some (fuse_query shuffle dense sparse config q)" if "q < length Ds" for q
    using that by (simp add: f)
  have "\<exists>D S L. rb_hits_for_query dense q = Some D \<and> rb_hits_for_query sparse q = Some S \<and>
       fb_hits_for_query f q = Some (take (top_k config) L) \<and>
       sorted_by fused_order L \<and> distinct (map fused_row_id L) \<and>
       set L = fused_spec config D S ` window_ids config D S"
    if q: "q < rb_query_count dense" for q
    using row [of q] hits [of q] q len
    by (intro exI [of _ "Ds ! q"] exI [of _ "Ss ! q"]) (auto simp: D(1) S(1))
  then show ?thesis by (simp add: f D(1))
qed

section \<open>Properties\<close>

text \<open>
  C12. Reciprocal rank fusion, functionally: for well-formed batches with as many queries, a valid
  configuration and any order of walking the hash map, the call succeeds, and the hits of a query
  are the first \<open>top_k\<close> rows of one list in order of fused score and id that holds exactly one row for
  every id of the two windows; a row carries its ranks and scores in the two lists and the score
  \<open>1/(c + rank)\<close> summed over the lists that hold it, in single precision.
\<close>

theorem rrf_exact:
  assumes "batch_ok dense" and "batch_ok sparse" and "rb_query_count dense = rb_query_count sparse"
    and "validate_rrf_config config = (Ok config :: ('x hybrid_error, rrf_config) outcome)"
    and "\<And>q m. mset (shuffle q m) = mset m"
  shows "\<exists>f. rrf_fuse_batch shuffle dense sparse config = (Ok f :: ('x hybrid_error, fused_batch) outcome) \<and>
    fb_query_count f = rb_query_count dense \<and>
    (\<forall>q < rb_query_count dense. \<exists>D S L.
       rb_hits_for_query dense q = Some D \<and> rb_hits_for_query sparse q = Some S \<and>
       fb_hits_for_query f q = Some (take (top_k config) L) \<and>
       sorted_by fused_order L \<and> distinct (map fused_row_id L) \<and>
       set L = fused_spec config D S ` window_ids config D S)"
proof -
  define f where "f = \<lparr>fb_offsets = csr_offsets (map (fuse_query shuffle dense sparse config) [0..<rb_query_count dense]),
       fb_hits = concat (map (fuse_query shuffle dense sparse config) [0..<rb_query_count dense])\<rparr>"
  have ok: "rrf_fuse_batch shuffle dense sparse config = (Ok f :: ('x hybrid_error, fused_batch) outcome)"
    using assms(3,4) by (simp add: rrf_Ok f_def)
  show ?thesis using ok rrf_query [OF assms(1,2,5) ok] by blast
qed

theorem rrf_exact_witness:
  "\<exists>f. rrf_fuse_batch (\<lambda>q m. rev m) (lists_batch [[\<lparr>row_id = 7, score = f32_one\<rparr>], []])
      (lists_batch [[\<lparr>row_id = 9, score = f32_one\<rparr>], []]) default_rrf_config = (Ok f :: (unit hybrid_error, fused_batch) outcome) \<and>
    fb_query_count f = 2"
proof -
  have valid: "validate_rrf_config default_rrf_config = (Ok default_rrf_config :: (unit hybrid_error, rrf_config) outcome)"
    by (simp add: validate_rrf_config_def default_rrf_config_def f32_le_def f32_key_def float_eval)
  have canon: "canonical_rows [\<lparr>row_id = r, score = f32_one\<rparr>]" "canonical_rows []" for r
    by (simp_all add: canonical_rows_def sorted_by_def float_eval)
  show ?thesis
    using rrf_exact [of "lists_batch [[\<lparr>row_id = 7, score = f32_one\<rparr>], []]"
        "lists_batch [[\<lparr>row_id = 9, score = f32_one\<rparr>], []]" default_rrf_config "\<lambda>q m. rev m", OF _ _ _ valid]
    by (auto simp: batch_ok_lists canon)
qed

text \<open>
  Fusion is deterministic: the order in which the hash map of a query yields its entries, and
  with it the seed of the hasher, does not change the result.
\<close>

theorem rrf_order_independent:
  assumes "\<And>q m. mset (shuffle q m) = mset m" and "\<And>q m. mset (shuffle' q m) = mset m"
  shows "rrf_fuse_batch shuffle dense sparse config = rrf_fuse_batch shuffle' dense sparse config"
proof -
  have same: "fuse_query shuffle dense sparse = fuse_query shuffle' dense sparse"
    by (intro ext fuse_query_order assms)
  show ?thesis unfolding rrf_fuse_batch_def same by (rule refl)
qed

theorem rrf_order_independent_witness:
  "(rrf_fuse_batch (\<lambda>q m. m) (lists_batch [[\<lparr>row_id = 7, score = f32_one\<rparr>]])
      (lists_batch [[\<lparr>row_id = 9, score = f32_one\<rparr>]]) default_rrf_config :: (unit hybrid_error, fused_batch) outcome) =
    rrf_fuse_batch (\<lambda>q m. rev m) (lists_batch [[\<lparr>row_id = 7, score = f32_one\<rparr>]])
      (lists_batch [[\<lparr>row_id = 9, score = f32_one\<rparr>]]) default_rrf_config"
  by (rule rrf_order_independent) simp_all

text \<open>
  Fusion respects dominance: of two rows that the fusion of a query returns, the one ranked at
  least as well as the other in both lists (a missing rank being the worst) has at least its score,
  whatever the rounding of the single-precision sums.
\<close>

theorem rrf_dominance:
  assumes "batch_ok dense" and "batch_ok sparse" and "\<And>q m. mset (shuffle q m) = mset m"
    and "rrf_fuse_batch shuffle dense sparse config = (Ok f :: ('x hybrid_error, fused_batch) outcome)"
    and "fb_hits_for_query f q = Some rows" and "a \<in> set rows" and "b \<in> set rows"
    and "rank_at_least (dense_rank a) (dense_rank b)" and "rank_at_least (sparse_rank a) (sparse_rank b)"
  shows "f32_total_key (fused_score b) \<le> f32_total_key (fused_score a)"
proof -
  have "fb_query_count f = rb_query_count dense" using rrf_query [OF assms(1-4)] by blast
  moreover have "q < fb_query_count f"
    using assms(5) by (auto simp: fb_hits_for_query_def fb_query_count_def get_nth_def split: option.splits if_splits)
  ultimately obtain D S L where L: "fb_hits_for_query f q = Some (take (top_k config) L)"
    "set L = fused_spec config D S ` window_ids config D S"
    using rrf_query [OF assms(1-4)] by metis
  have in_L: "x \<in> set L" if "x \<in> set rows" for x
    using that assms(5) L(1) by (auto dest: in_set_takeD)
  obtain x where x: "a = fused_spec config D S x" using in_L [OF assms(6)] L(2) by auto
  obtain y where y: "b = fused_spec config D S y" using in_L [OF assms(7)] L(2) by auto
  have "validate_rrf_config config = (Ok config :: ('x hybrid_error, rrf_config) outcome)"
    using assms(4) by (simp add: rrf_Ok)
  from rank_score_mono [OF valid_constant(2) [OF this] rank_ok_from rank_ok_from rank_ok_from rank_ok_from]
  show ?thesis using assms(8,9) by (simp add: x y fused_spec_def Let_def)
qed

theorem rrf_dominance_witness:
  "f32_total_key (contribution f32_one 2) \<le> f32_total_key (contribution f32_one 1)"
proof -
  let ?D = "lists_batch [[\<lparr>row_id = 1, score = f32_one\<rparr>, \<lparr>row_id = 2, score = f32_zero\<rparr>]]"
  let ?S = "lists_batch [[]]"
  let ?config = "\<lparr>rank_constant = f32_one, dense_window = 2, sparse_window = 2, top_k = 2\<rparr>"
  have ok: "batch_ok ?D" "batch_ok ?S"
    by (simp_all add: batch_ok_lists canonical_rows_def sorted_by_def rank_row_order_def f32_total_cmp_def
        f32_total_key_def ord_cmp_def float_eval)
  have valid: "validate_rrf_config ?config = (Ok ?config :: (unit hybrid_error, rrf_config) outcome)"
    by (simp add: validate_rrf_config_def f32_le_def f32_key_def float_eval)
  obtain f where f: "rrf_fuse_batch (\<lambda>q m. m) ?D ?S ?config = (Ok f :: (unit hybrid_error, fused_batch) outcome)"
    using valid by (simp add: rrf_Ok)
  obtain L where L: "fb_hits_for_query f 0 = Some (take 2 L)" "distinct (map fused_row_id L)"
    "set L = fused_spec ?config [\<lparr>row_id = 1, score = f32_one\<rparr>, \<lparr>row_id = 2, score = f32_zero\<rparr>] [] ` {1, 2}"
    using rrf_query [OF ok _ f] by (auto simp: window_ids_def)
  have "card (set L) \<le> card {1 :: u64, 2}" unfolding L(3) by (rule card_image_le) simp
  moreover have "distinct L" using L(2) by (simp add: distinct_map)
  ultimately have hits: "fb_hits_for_query f 0 = Some L" using L(1) by (simp add: distinct_card)
  let ?row = "fused_spec ?config [\<lparr>row_id = 1, score = f32_one\<rparr>, \<lparr>row_id = 2, score = f32_zero\<rparr>] []"
  have mem: "?row 1 \<in> set L" "?row 2 \<in> set L" unfolding L(3) by simp_all
  have "f32_total_key (fused_score (?row 2)) \<le> f32_total_key (fused_score (?row 1))"
    by (rule rrf_dominance [OF ok _ f hits mem]) (simp_all add: fused_spec_def rank_at_least_def Let_def)
  then show ?thesis by (simp add: fused_spec_def rank_score_def Let_def numeral_2_eq_2)
qed

end
