(* ===== verification/LtrFeatures.thy ===== *)
theory LtrFeatures
  imports Fusion
begin

text \<open>
  The feature matrix of the learning-to-rank model (\<open>ordinaldb-hybrid/src/ltr_features.rs\<close>): one
  vector per fused row, in the order of the model's feature names, from the fused rows and the
  ranked batches of the retrievers. The maps of a query's source rows are partial functions; the
  debug output of a string is the argument \<open>show_debug\<close>.
\<close>

section \<open>The code\<close>

record ltr_feature_schema =
  fs_schema_version :: string
  fs_feature_names :: "string list"
  fs_forbidden_features :: "string list"
  fs_dense_features_required :: bool

record ltr_feature_inputs =
  li_fused :: fused_batch
  li_rank_cos_scores :: "ranked_batch option"
  li_dense_cos_scores :: "ranked_batch option"
  li_bm25_scores :: "ranked_batch option"
  li_doc_len_chars :: "(u64 \<Rightarrow> 32 word option) option"
  li_query_len_chars :: "32 word list option"

record ltr_candidate_features =
  lc_row_id :: u64
  lc_features :: "f32 list"

record ltr_feature_batch =
  lb_feature_names :: "string list"
  lb_offsets :: "nat list"
  lb_rows :: "ltr_candidate_features list"

fun check_names :: "(string \<Rightarrow> string) \<Rightarrow> string set \<Rightarrow> string list \<Rightarrow> ('x hybrid_error, unit) outcome" where
  "check_names show_debug seen [] = Ok ()"
| "check_names show_debug seen (name # names) =
     (if trim name = [] then Err (LtrError ''LTR feature names must not be empty'')
      else if name \<in> seen then Err (LtrError (''duplicate LTR feature name '' @ show_debug name))
      else check_names show_debug (insert name seen) names)"

definition validate_feature_names :: "(string \<Rightarrow> string) \<Rightarrow> string list \<Rightarrow> ('x hybrid_error, unit) outcome" where
  "validate_feature_names show_debug feature_names =
     (if feature_names = [] then Err (LtrError ''LTR feature name list must not be empty'')
      else check_names show_debug {} feature_names)"

fun check_features :: "u64 \<Rightarrow> nat \<Rightarrow> f32 list \<Rightarrow> ('x hybrid_error, unit) outcome" where
  "check_features r idx [] = Ok ()"
| "check_features r idx (v # vs) =
     (if \<not> f32_is_finite v then
        Err (LtrError (''candidate row_id '' @ show_u64 r @ '' feature '' @ show_nat idx @ '' is not finite''))
      else check_features r (idx + 1) vs)"

definition validate_candidate :: "ltr_candidate_features \<Rightarrow> nat \<Rightarrow> ('x hybrid_error, unit) outcome" where
  "validate_candidate cand feature_count =
     (if length (lc_features cand) \<noteq> feature_count then
        Err (LtrError (''candidate row_id '' @ show_u64 (lc_row_id cand) @ '' has '' @
          show_nat (length (lc_features cand)) @ '' features, expected '' @ show_nat feature_count))
      else check_features (lc_row_id cand) 0 (lc_features cand))"

definition lfb_from_ranked_lists ::
  "(string \<Rightarrow> string) \<Rightarrow> string list \<Rightarrow> ltr_candidate_features list list \<Rightarrow>
     ('x hybrid_error, ltr_feature_batch) outcome" where
  "lfb_from_ranked_lists show_debug feature_names ls =
     obind (validate_feature_names show_debug feature_names) (\<lambda>_.
     obind (extend_csr (traverse (\<lambda>cand.
              obind (validate_candidate cand (length feature_names)) (\<lambda>_. Ok cand))) ls [0] []) (\<lambda>(offsets, rows).
       Ok \<lparr>lb_feature_names = feature_names, lb_offsets = offsets, lb_rows = rows\<rparr>))"

record source_hit =
  sh_rank :: nat
  sh_score :: f32

text \<open>\<open>map.entry(id).or_insert(hit)\<close>.\<close>

definition or_insert :: "'k \<Rightarrow> 'v \<Rightarrow> ('k \<rightharpoonup> 'v) \<Rightarrow> ('k \<rightharpoonup> 'v)" where
  "or_insert k v m = (case m k of None \<Rightarrow> m(k \<mapsto> v) | Some _ \<Rightarrow> m)"

fun collect_source ::
  "string \<Rightarrow> nat \<Rightarrow> scored_row list \<Rightarrow> (u64 \<rightharpoonup> source_hit) \<Rightarrow> ('x hybrid_error, u64 \<rightharpoonup> source_hit) outcome" where
  "collect_source label rank_idx [] m = Ok m"
| "collect_source label rank_idx (row # rows) m =
     (if \<not> f32_is_finite (score row) then
        Err (LtrError (label @ '' row '' @ show_u64 (row_id row) @ '' has non-finite score''))
      else collect_source label (rank_idx + 1) rows
        (or_insert (row_id row) \<lparr>sh_rank = rank_idx + 1, sh_score = score row\<rparr> m))"

definition source_map ::
  "ranked_batch option \<Rightarrow> nat \<Rightarrow> string \<Rightarrow> ('x hybrid_error, u64 \<rightharpoonup> source_hit) outcome" where
  "source_map batch query_idx label =
     (case batch of
        None \<Rightarrow> Ok (\<lambda>_. None)
      | Some batch \<Rightarrow>
          obind (ok_or (LtrError (label @ '' is missing query index '' @ show_nat query_idx))
            (rb_hits_for_query batch query_idx)) (\<lambda>rows. collect_source label 0 rows (\<lambda>_. None)))"

definition required_source ::
  "(u64 \<rightharpoonup> source_hit) \<Rightarrow> u64 \<Rightarrow> string \<Rightarrow> ('x hybrid_error, source_hit) outcome" where
  "required_source m r feature_name =
     ok_or (LtrError (feature_name @ '' requires an explicit source score for row_id '' @ show_u64 r)) (m r)"

definition raw_feature_value ::
  "(string \<Rightarrow> string) \<Rightarrow> string \<Rightarrow> fused_row \<Rightarrow> nat \<Rightarrow> ltr_feature_inputs \<Rightarrow> (u64 \<rightharpoonup> source_hit) \<Rightarrow>
     (u64 \<rightharpoonup> source_hit) \<Rightarrow> (u64 \<rightharpoonup> source_hit) \<Rightarrow> ('x hybrid_error, f32) outcome" where
  "raw_feature_value show_debug name fused query_idx inputs bm25 rank_cos dense_cos =
     (let r = fused_row_id fused;
          rank = \<lambda>m. obind (required_source m r name) (\<lambda>h. Ok (f32_of_nat (sh_rank h)));
          scr = \<lambda>m. obind (required_source m r name) (\<lambda>h. Ok (sh_score h))
      in if name = ''rrf_score'' then Ok (fused_score fused)
      else if name = ''bm25_score'' then scr bm25
      else if name = ''bm25_rank'' then rank bm25
      else if name = ''rank_cos'' then scr rank_cos
      else if name = ''rank_cos_rank'' then rank rank_cos
      else if name = ''dense_cos'' then scr dense_cos
      else if name = ''dense_rank'' then rank dense_cos
      else if name = ''doc_len_chars'' then
        obind (ok_or (LtrError (''doc_len_chars is missing for row_id '' @ show_u64 r))
          (Option.bind (li_doc_len_chars inputs) (\<lambda>lookup. lookup r)))
          (\<lambda>n. Ok (f32_of_nat (unat n)))
      else if name = ''query_len_chars'' then
        obind (ok_or (LtrError (''query_len_chars is missing for query index '' @ show_nat query_idx))
          (Option.bind (li_query_len_chars inputs) (\<lambda>lengths. get_nth lengths query_idx)))
          (\<lambda>n. Ok (f32_of_nat (unat n)))
      else Err (LtrError (''unsupported LTR feature '' @ show_debug name)))"

definition feature_value ::
  "(string \<Rightarrow> string) \<Rightarrow> string \<Rightarrow> fused_row \<Rightarrow> nat \<Rightarrow> ltr_feature_inputs \<Rightarrow> (u64 \<rightharpoonup> source_hit) \<Rightarrow>
     (u64 \<rightharpoonup> source_hit) \<Rightarrow> (u64 \<rightharpoonup> source_hit) \<Rightarrow> ('x hybrid_error, f32) outcome" where
  "feature_value show_debug name fused query_idx inputs bm25 rank_cos dense_cos =
     obind (raw_feature_value show_debug name fused query_idx inputs bm25 rank_cos dense_cos) (\<lambda>v.
     if \<not> f32_is_finite v then
       Err (LtrError (''LTR feature '' @ show_debug name @ '' for row_id '' @ show_u64 (fused_row_id fused) @
         '' is not finite''))
     else Ok v)"

fun check_source_counts ::
  "nat \<Rightarrow> (string \<times> ranked_batch option) list \<Rightarrow> ('x hybrid_error, unit) outcome" where
  "check_source_counts query_count [] = Ok ()"
| "check_source_counts query_count ((label, batch) # bs) =
     (case batch of
        None \<Rightarrow> check_source_counts query_count bs
      | Some b \<Rightarrow>
          if rb_query_count b \<noteq> query_count then
            Err (LtrError (label @ '' query count '' @ show_nat (rb_query_count b) @
              '' does not match fused query count '' @ show_nat query_count))
          else check_source_counts query_count bs)"

definition validate_inputs :: "ltr_feature_inputs \<Rightarrow> ('x hybrid_error, unit) outcome" where
  "validate_inputs inputs =
     (let query_count = fb_query_count (li_fused inputs) in
      obind (check_source_counts query_count
        [(''rank_cos_scores'', li_rank_cos_scores inputs), (''dense_cos_scores'', li_dense_cos_scores inputs),
         (''bm25_scores'', li_bm25_scores inputs)]) (\<lambda>_.
      case li_query_len_chars inputs of
        None \<Rightarrow> Ok ()
      | Some lengths \<Rightarrow>
          if length lengths \<noteq> query_count then
            Err (LtrError (''query_len_chars count '' @ show_nat (length lengths) @
              '' does not match fused query count '' @ show_nat query_count))
          else Ok ()))"

definition query_features ::
  "(string \<Rightarrow> string) \<Rightarrow> ltr_feature_inputs \<Rightarrow> ltr_feature_schema \<Rightarrow> nat \<Rightarrow>
     ('x hybrid_error, ltr_candidate_features list) outcome" where
  "query_features show_debug inputs schema query_idx =
     obind (source_map (li_bm25_scores inputs) query_idx ''bm25_scores'') (\<lambda>bm25.
     obind (source_map (li_rank_cos_scores inputs) query_idx ''rank_cos_scores'') (\<lambda>rank_cos.
     obind (source_map (li_dense_cos_scores inputs) query_idx ''dense_cos_scores'') (\<lambda>dense_cos.
       traverse (\<lambda>fused.
         obind (traverse (\<lambda>name. feature_value show_debug name fused query_idx inputs bm25 rank_cos dense_cos)
           (fs_feature_names schema)) (\<lambda>features.
         Ok \<lparr>lc_row_id = fused_row_id fused, lc_features = features\<rparr>))
         (unwrap_or_empty (fb_hits_for_query (li_fused inputs) query_idx)))))"

definition lfb_from_inputs ::
  "(string \<Rightarrow> string) \<Rightarrow> ltr_feature_inputs \<Rightarrow> ltr_feature_schema \<Rightarrow> ('x hybrid_error, ltr_feature_batch) outcome" where
  "lfb_from_inputs show_debug inputs schema =
     obind (validate_feature_names show_debug (fs_feature_names schema)) (\<lambda>_.
     obind (validate_inputs inputs) (\<lambda>_.
     obind (extend_csr (query_features show_debug inputs schema) [0..<fb_query_count (li_fused inputs)] [0] [])
       (\<lambda>(offsets, rows).
       Ok \<lparr>lb_feature_names = fs_feature_names schema, lb_offsets = offsets, lb_rows = rows\<rparr>)))"

definition lfb_query_count :: "ltr_feature_batch \<Rightarrow> nat" where
  "lfb_query_count b = length (lb_offsets b) - 1"

definition lfb_rows_for_query :: "ltr_feature_batch \<Rightarrow> nat \<Rightarrow> ltr_candidate_features list option" where
  "lfb_rows_for_query b query_idx =
     (case get_nth (lb_offsets b) query_idx of
        None \<Rightarrow> None
      | Some start \<Rightarrow>
          (case get_nth (lb_offsets b) (query_idx + 1) of
             None \<Rightarrow> None
           | Some stop \<Rightarrow> get_range (lb_rows b) start stop))"

section \<open>What the feature matrix holds\<close>

text \<open>The signal of each feature name, where it is known.\<close>

definition source_rank :: "ranked_batch option \<Rightarrow> nat \<Rightarrow> u64 \<Rightarrow> (nat \<times> f32) option" where
  "source_rank batch q r =
     Option.bind batch (\<lambda>b. Option.bind (rb_hits_for_query b q) (\<lambda>rows. rank_from 1 rows r))"

definition signals :: "ltr_feature_inputs \<Rightarrow> nat \<Rightarrow> fused_row \<Rightarrow> (string \<times> f32 option) list" where
  "signals inputs q row =
     (let r = fused_row_id row;
          bm25 = source_rank (li_bm25_scores inputs) q r;
          rank_cos = source_rank (li_rank_cos_scores inputs) q r;
          dense_cos = source_rank (li_dense_cos_scores inputs) q r
      in [(''rrf_score'', Some (fused_score row)),
          (''bm25_score'', map_option snd bm25), (''bm25_rank'', map_option (f32_of_nat \<circ> fst) bm25),
          (''rank_cos'', map_option snd rank_cos), (''rank_cos_rank'', map_option (f32_of_nat \<circ> fst) rank_cos),
          (''dense_cos'', map_option snd dense_cos), (''dense_rank'', map_option (f32_of_nat \<circ> fst) dense_cos),
          (''doc_len_chars'',
            map_option (f32_of_nat \<circ> unat) (Option.bind (li_doc_len_chars inputs) (\<lambda>lookup. lookup r))),
          (''query_len_chars'',
            map_option (f32_of_nat \<circ> unat) (Option.bind (li_query_len_chars inputs) (\<lambda>ls. get_nth ls q)))])"

definition signal :: "ltr_feature_inputs \<Rightarrow> nat \<Rightarrow> fused_row \<Rightarrow> string \<Rightarrow> f32 option" where
  "signal inputs q row name =
     (case map_of (signals inputs q row) name of
        Some (Some v) \<Rightarrow> if f32_is_finite v then Some v else None
      | _ \<Rightarrow> None)"

definition fused_rows :: "ltr_feature_inputs \<Rightarrow> nat \<Rightarrow> fused_row list" where
  "fused_rows inputs q = unwrap_or_empty (fb_hits_for_query (li_fused inputs) q)"

definition candidate_of :: "ltr_feature_inputs \<Rightarrow> string list \<Rightarrow> nat \<Rightarrow> fused_row \<Rightarrow> ltr_candidate_features" where
  "candidate_of inputs names q row =
     \<lparr>lc_row_id = fused_row_id row, lc_features = map (\<lambda>name. the (signal inputs q row name)) names\<rparr>"

definition names_ok :: "string list \<Rightarrow> bool" where
  "names_ok names \<longleftrightarrow> names \<noteq> [] \<and> list_all (\<lambda>name. trim name \<noteq> []) names \<and> distinct names"

definition sources :: "ltr_feature_inputs \<Rightarrow> ranked_batch option list" where
  "sources inputs = [li_bm25_scores inputs, li_rank_cos_scores inputs, li_dense_cos_scores inputs]"

definition sources_ok :: "ltr_feature_inputs \<Rightarrow> bool" where
  "sources_ok inputs \<longleftrightarrow> list_all (\<lambda>s. case s of None \<Rightarrow> True | Some b \<Rightarrow> batch_ok b) (sources inputs)"

definition counts_ok :: "ltr_feature_inputs \<Rightarrow> bool" where
  "counts_ok inputs \<longleftrightarrow>
     list_all (\<lambda>s. case s of None \<Rightarrow> True | Some b \<Rightarrow> rb_query_count b = fb_query_count (li_fused inputs))
       (sources inputs) \<and>
     (case li_query_len_chars inputs of None \<Rightarrow> True
      | Some ls \<Rightarrow> length ls = fb_query_count (li_fused inputs))"

lemma check_names_Ok:
  "check_names show_debug seen names = Ok () \<longleftrightarrow>
     list_all (\<lambda>name. trim name \<noteq> []) names \<and> distinct names \<and> seen \<inter> set names = {}"
  by (induction show_debug seen names rule: check_names.induct) auto

lemma check_names_not_panic: "check_names show_debug seen names \<noteq> Panic"
  by (induction show_debug seen names rule: check_names.induct) auto

lemma validate_feature_names_Ok: "validate_feature_names show_debug names = Ok () \<longleftrightarrow> names_ok names"
  by (auto simp: validate_feature_names_def names_ok_def check_names_Ok)

lemma validate_feature_names_not_panic: "validate_feature_names show_debug names \<noteq> Panic"
  by (simp add: validate_feature_names_def check_names_not_panic)

lemma validate_inputs_Ok: "validate_inputs inputs = (Ok () :: ('x hybrid_error, unit) outcome) \<longleftrightarrow> counts_ok inputs"
  by (auto simp: validate_inputs_def counts_ok_def sources_def Let_def outcome_simps
      split: option.splits if_splits)

lemma validate_inputs_not_panic: "validate_inputs inputs \<noteq> Panic"
  by (auto simp: validate_inputs_def Let_def outcome_simps split: option.splits if_splits)

definition hit_of :: "nat \<times> f32 \<Rightarrow> source_hit" where
  "hit_of = (\<lambda>(i, s). \<lparr>sh_rank = i, sh_score = s\<rparr>)"

lemma collect_source_spec:
  assumes "list_all (f32_is_finite \<circ> score) rows"
  shows "collect_source label n rows m =
    Ok (\<lambda>r. case m r of Some h \<Rightarrow> Some h | None \<Rightarrow> map_option hit_of (rank_from (n + 1) rows r))"
  using assms
proof (induction rows arbitrary: n m)
  case (Cons row rows)
  then show ?case
    by (auto simp: or_insert_def hit_of_def fun_eq_iff split: option.split simp del: rank_from_None)
qed (simp add: fun_eq_iff split: option.split)

definition hit_map :: "ranked_batch option \<Rightarrow> nat \<Rightarrow> u64 \<rightharpoonup> source_hit" where
  "hit_map s q r = map_option hit_of (source_rank s q r)"

lemma source_map_spec:
  assumes "case s of None \<Rightarrow> True | Some b \<Rightarrow> batch_ok b \<and> q < rb_query_count b"
  shows "source_map s q label = Ok (hit_map s q)"
proof (cases s)
  case (Some b)
  obtain L where L: "b = lists_batch L" "list_all canonical_rows L"
    using assms Some by (auto simp: batch_ok_def)
  then have q: "q < length L" using assms Some by (simp add: rb_query_count_def lists_batch_def)
  then have "list_all (f32_is_finite \<circ> score) (L ! q)"
    using L(2) by (simp add: list_all_length canonical_rows_def)
  then show ?thesis
    using q by (simp add: source_map_def source_rank_def hit_map_def [abs_def] Some L(1) outcome_simps collect_source_spec)
qed (simp add: source_map_def source_rank_def hit_map_def [abs_def])

lemma hit_of_simps [simp]: "sh_rank (hit_of h) = fst h" "sh_score (hit_of h) = snd h"
  by (simp_all add: hit_of_def case_prod_beta)

text \<open>With the maps of the code in place of the sources, a feature is its signal.\<close>

lemma raw_feature_signal:
  "\<exists>e. raw_feature_value show_debug name row q inputs (hit_map (li_bm25_scores inputs) q)
      (hit_map (li_rank_cos_scores inputs) q) (hit_map (li_dense_cos_scores inputs) q) =
    (ok_or e (Option.bind (map_of (signals inputs q row) name) id) :: ('x hybrid_error, f32) outcome)"
proof (cases "name \<in> fst ` set (signals inputs q row)")
  case True
  then have "name = ''rrf_score'' \<or> name = ''bm25_score'' \<or> name = ''bm25_rank'' \<or> name = ''rank_cos'' \<or>
      name = ''rank_cos_rank'' \<or> name = ''dense_cos'' \<or> name = ''dense_rank'' \<or> name = ''doc_len_chars'' \<or>
      name = ''query_len_chars''"
    by (simp add: signals_def Let_def)
  moreover have "Ok v = ok_or e (Some v)" for v :: f32 and e :: "'x hybrid_error" by simp
  ultimately show ?thesis
    by (elim disjE)
      (simp_all add: raw_feature_value_def signals_def required_source_def hit_map_def Let_def obind_ok_or
        option.map_comp comp_def, blast+)
next
  case False
  then have "map_of (signals inputs q row) name = None" by (simp add: map_of_eq_None_iff)
  moreover from False have "name \<noteq> ''rrf_score'' \<and> name \<noteq> ''bm25_score'' \<and> name \<noteq> ''bm25_rank'' \<and>
      name \<noteq> ''rank_cos'' \<and> name \<noteq> ''rank_cos_rank'' \<and> name \<noteq> ''dense_cos'' \<and> name \<noteq> ''dense_rank'' \<and>
      name \<noteq> ''doc_len_chars'' \<and> name \<noteq> ''query_len_chars''"
    by (simp add: signals_def Let_def)
  ultimately show ?thesis by (simp add: raw_feature_value_def Let_def)
qed

lemma feature_value_signal:
  "feature_value show_debug name row q inputs (hit_map (li_bm25_scores inputs) q)
      (hit_map (li_rank_cos_scores inputs) q) (hit_map (li_dense_cos_scores inputs) q) = (Ok v :: ('x hybrid_error, f32) outcome) \<longleftrightarrow>
     signal inputs q row name = Some v"
  using raw_feature_signal [where 'x = 'x, of show_debug name row q inputs]
  by (auto simp: feature_value_def signal_def outcome_simps split: option.splits if_splits bind_splits)

lemma feature_value_not_panic:
  "feature_value show_debug name row q inputs (hit_map (li_bm25_scores inputs) q)
      (hit_map (li_rank_cos_scores inputs) q) (hit_map (li_dense_cos_scores inputs) q) \<noteq> (Panic :: ('x hybrid_error, f32) outcome)"
  using raw_feature_signal [where 'x = 'x, of show_debug name row q inputs]
  by (elim exE) (simp add: feature_value_def outcome_simps)

lemma query_features_spec:
  fixes schema :: ltr_feature_schema
  assumes "sources_ok inputs" and "counts_ok inputs" and "q < fb_query_count (li_fused inputs)"
  defines "names \<equiv> fs_feature_names schema"
  shows "query_features show_debug inputs schema q = (Ok cs :: ('x hybrid_error, _) outcome) \<longleftrightarrow>
      (\<forall>row\<in>set (fused_rows inputs q). \<forall>name\<in>set names. signal inputs q row name \<noteq> None) \<and>
      cs = map (candidate_of inputs names q) (fused_rows inputs q)"
    and "query_features show_debug inputs schema q \<noteq> (Panic :: ('x hybrid_error, _) outcome)"
proof -
  define feature :: "fused_row \<Rightarrow> string \<Rightarrow> ('x hybrid_error, f32) outcome" where "feature row name = feature_value show_debug name row q inputs
    (hit_map (li_bm25_scores inputs) q) (hit_map (li_rank_cos_scores inputs) q)
    (hit_map (li_dense_cos_scores inputs) q)" for row name
  define cand :: "fused_row \<Rightarrow> ('x hybrid_error, ltr_candidate_features) outcome" where "cand row =
    obind (traverse (feature row) names) (\<lambda>fs. Ok \<lparr>lc_row_id = fused_row_id row, lc_features = fs\<rparr>)" for row
  have src: "case s of None \<Rightarrow> True | Some b \<Rightarrow> batch_ok b \<and> q < rb_query_count b" if "s \<in> set (sources inputs)" for s
    using assms(1-3) that by (auto simp: sources_ok_def counts_ok_def list_all_iff split: option.splits)
  have eq: "query_features show_debug inputs schema q = traverse cand (fused_rows inputs q)"
    by (simp add: query_features_def src source_map_spec sources_def fused_rows_def cand_def [abs_def]
        feature_def [abs_def] names_def)
  have feat: "traverse (feature row) names = Ok fs \<longleftrightarrow>
      (\<forall>name\<in>set names. signal inputs q row name \<noteq> None) \<and> fs = map (the \<circ> signal inputs q row) names"
    "traverse (feature row) names \<noteq> Panic" for row fs
    by (rule traverse_option; simp add: feature_def feature_value_signal feature_value_not_panic)+
  have cand: "cand row = Ok c \<longleftrightarrow> (if \<forall>name\<in>set names. signal inputs q row name \<noteq> None
      then Some (candidate_of inputs names q row) else None) = Some c" "cand row \<noteq> Panic" for row c
    using feat [of row] by (auto simp: cand_def outcome_simps candidate_of_def comp_def)
  show "query_features show_debug inputs schema q = (Ok cs :: ('x hybrid_error, _) outcome) \<longleftrightarrow>
      (\<forall>row\<in>set (fused_rows inputs q). \<forall>name\<in>set names. signal inputs q row name \<noteq> None) \<and>
      cs = map (candidate_of inputs names q) (fused_rows inputs q)"
    unfolding eq traverse_option(1) [where f = cand, OF cand] by (auto cong: map_cong split: if_splits)
  show "query_features show_debug inputs schema q \<noteq> (Panic :: ('x hybrid_error, _) outcome)"
    unfolding eq by (rule traverse_option(2) [OF cand])
qed

definition feature_lists :: "ltr_feature_inputs \<Rightarrow> string list \<Rightarrow> ltr_candidate_features list list" where
  "feature_lists inputs names =
     map (\<lambda>q. map (candidate_of inputs names q) (fused_rows inputs q)) [0..<fb_query_count (li_fused inputs)]"

definition feature_batch_of :: "string list \<Rightarrow> ltr_candidate_features list list \<Rightarrow> ltr_feature_batch" where
  "feature_batch_of names L = \<lparr>lb_feature_names = names, lb_offsets = csr_offsets L, lb_rows = concat L\<rparr>"

definition signals_known :: "ltr_feature_inputs \<Rightarrow> string list \<Rightarrow> bool" where
  "signals_known inputs names \<longleftrightarrow>
     (\<forall>q\<in>{..<fb_query_count (li_fused inputs)}. \<forall>row\<in>set (fused_rows inputs q). \<forall>name\<in>set names.
        signal inputs q row name \<noteq> None)"

lemma query_count_feature_batch [simp]: "lfb_query_count (feature_batch_of names L) = length L"
  by (simp add: lfb_query_count_def feature_batch_of_def)

lemma rows_for_query_feature_batch [simp]:
  "lfb_rows_for_query (feature_batch_of names L) q = (if q < length L then Some (L ! q) else None)"
  using csr_range [of q L] by (auto simp: lfb_rows_for_query_def feature_batch_of_def get_nth_def get_range_def)

lemma lfb_from_inputs_exact:
  fixes schema :: ltr_feature_schema
  assumes "sources_ok inputs"
  defines "names \<equiv> fs_feature_names schema"
  shows "lfb_from_inputs show_debug inputs schema = (Ok b :: ('x hybrid_error, _) outcome) \<longleftrightarrow>
      names_ok names \<and> counts_ok inputs \<and> signals_known inputs names \<and>
      b = feature_batch_of names (feature_lists inputs names)"
    and "lfb_from_inputs show_debug inputs schema \<noteq> (Panic :: ('x hybrid_error, _) outcome)"
proof -
  define n where "n = fb_query_count (li_fused inputs)"
  define out where "out = (traverse (query_features show_debug inputs schema) [0..<n] ::
    ('x hybrid_error, ltr_candidate_features list list) outcome)"
  define g where "g q = (if \<forall>row\<in>set (fused_rows inputs q). \<forall>name\<in>set names. signal inputs q row name \<noteq> None
    then Some (map (candidate_of inputs names q) (fused_rows inputs q)) else None)" for q
  have q: "query_features show_debug inputs schema q = (Ok cs :: ('x hybrid_error, _) outcome) \<longleftrightarrow> g q = Some cs"
    "query_features show_debug inputs schema q \<noteq> (Panic :: ('x hybrid_error, _) outcome)"
    if "counts_ok inputs" "q \<in> set [0..<n]" for q cs
    using query_features_spec [where 'x = 'x, OF assms(1) that(1), of q] that(2)
    by (auto simp: g_def n_def names_def)
  have known: "(\<forall>q\<in>set [0..<n]. g q \<noteq> None) \<longleftrightarrow> signals_known inputs names"
    by (auto simp: g_def signals_known_def n_def)
  have lists: "map (the \<circ> g) [0..<n] = feature_lists inputs names" if "signals_known inputs names"
    using that by (simp add: g_def signals_known_def feature_lists_def n_def)
  have out: "out = Ok L \<longleftrightarrow> signals_known inputs names \<and> L = feature_lists inputs names" "out \<noteq> Panic"
    if "counts_ok inputs" for L
  proof -
    have "out = Ok L \<longleftrightarrow> (\<forall>q\<in>set [0..<n]. g q \<noteq> None) \<and> L = map (the \<circ> g) [0..<n]"
      unfolding out_def by (rule traverse_option(1) [OF q [OF that]])
    then show "out = Ok L \<longleftrightarrow> signals_known inputs names \<and> L = feature_lists inputs names"
      using known lists by metis
    show "out \<noteq> Panic"
      unfolding out_def by (rule traverse_option(2) [OF q [OF that]])
  qed
  have eq: "lfb_from_inputs show_debug inputs schema =
      obind (validate_feature_names show_debug names) (\<lambda>_. obind (validate_inputs inputs) (\<lambda>_.
        obind out (\<lambda>L. Ok (feature_batch_of names L))))"
    unfolding lfb_from_inputs_def extend_csr_eq obind_assoc feature_batch_of_def out_def n_def names_def
    by simp
  have ok: "obind (validate_inputs inputs) (\<lambda>_. obind out (\<lambda>L. Ok (feature_batch_of names L))) = Ok b \<longleftrightarrow>
      counts_ok inputs \<and> signals_known inputs names \<and> b = feature_batch_of names (feature_lists inputs names)"
  proof (cases "counts_ok inputs")
    case True
    then have "validate_inputs inputs = (Ok () :: ('x hybrid_error, unit) outcome)"
      by (simp add: validate_inputs_Ok)
    then show ?thesis using out(1) [OF True] True by (auto simp: obind_eq_Ok)
  next
    case False
    then have "validate_inputs inputs \<noteq> (Ok () :: ('x hybrid_error, unit) outcome)"
      by (simp add: validate_inputs_Ok)
    then show ?thesis using False by (simp add: obind_eq_Ok)
  qed
  show "lfb_from_inputs show_debug inputs schema = (Ok b :: ('x hybrid_error, _) outcome) \<longleftrightarrow>
      names_ok names \<and> counts_ok inputs \<and> signals_known inputs names \<and>
      b = feature_batch_of names (feature_lists inputs names)"
    unfolding eq obind_eq_Ok [where m = "validate_feature_names show_debug names"] ok
    by (simp add: validate_feature_names_Ok)
  show "lfb_from_inputs show_debug inputs schema \<noteq> (Panic :: ('x hybrid_error, _) outcome)"
    unfolding eq obind_eq_Panic using out(2)
    by (simp add: validate_feature_names_not_panic validate_inputs_not_panic validate_inputs_Ok)
qed

section \<open>Reranking through an interface\<close>

text \<open>
  The trait \<open>LtrReranker\<close> (\<open>ltr.rs\<close>) and its one client, which is generic over it: a reranker is its
  schema and its \<open>rerank_batch\<close>.
\<close>

record ltr_rerank_config =
  rc_top_k :: nat

definition ltr_rerank_config_default :: ltr_rerank_config where
  "ltr_rerank_config_default = \<lparr>rc_top_k = usize_max\<rparr>"

definition rerank_fused_batch ::
  "(string \<Rightarrow> string) \<Rightarrow> ltr_feature_schema \<Rightarrow>
     (ltr_feature_batch \<Rightarrow> ltr_rerank_config \<Rightarrow> ('x hybrid_error, ranked_batch) outcome) \<Rightarrow>
     ltr_feature_inputs \<Rightarrow> ltr_rerank_config \<Rightarrow> ('x hybrid_error, ranked_batch) outcome" where
  "rerank_fused_batch show_debug schema rerank inputs config =
     obind (lfb_from_inputs show_debug inputs schema) (\<lambda>features. rerank features config)"

definition rank_rows :: "ltr_rerank_config \<Rightarrow> scored_row list \<Rightarrow> scored_row list" where
  "rank_rows config rows = take (rc_top_k config) (sort_by rank_row_order rows)"

definition scored_candidate :: "(f32 list \<Rightarrow> f32 option) \<Rightarrow> ltr_candidate_features \<Rightarrow> scored_row" where
  "scored_candidate sc c = \<lparr>row_id = lc_row_id c, score = the (sc (lc_features c))\<rparr>"

definition scores_known :: "(f32 list \<Rightarrow> f32 option) \<Rightarrow> ltr_candidate_features list list \<Rightarrow> bool" where
  "scores_known sc L \<longleftrightarrow> list_all (list_all (\<lambda>c. sc (lc_features c) \<noteq> None)) L"

definition reranked :: "ltr_rerank_config \<Rightarrow> (f32 list \<Rightarrow> f32 option) \<Rightarrow> ltr_candidate_features list list \<Rightarrow> ranked_batch" where
  "reranked config sc L = lists_batch (map (\<lambda>l. rank_rows config (map (scored_candidate sc) l)) L)"

definition rows_distinct :: "ltr_feature_inputs \<Rightarrow> bool" where
  "rows_distinct inputs \<longleftrightarrow>
     list_all (\<lambda>q. distinct (map fused_row_id (fused_rows inputs q))) [0..<fb_query_count (li_fused inputs)]"

lemma rank_rows_canonical:
  assumes "list_all (f32_is_finite \<circ> score) rows" and "distinct (map row_id rows)"
  shows "canonical_rows (rank_rows config rows)"
proof -
  have "sorted_by rank_row_order (take (rc_top_k config) (sort_by rank_row_order rows))"
    using ranked.sorted_sort_by [of rows] by (simp add: sorted_by_def sorted_wrt_take)
  moreover have "list_all (f32_is_finite \<circ> score) (take (rc_top_k config) (sort_by rank_row_order rows))"
    using assms(1) by (auto simp: list_all_iff dest: in_set_takeD)
  moreover have "distinct (map row_id (take (rc_top_k config) (sort_by rank_row_order rows)))"
    using assms(2) by (metis distinct_map_sort_by distinct_take take_map)
  ultimately show ?thesis by (simp add: canonical_rows_def rank_rows_def)
qed

lemma reranked_canonical:
  assumes "\<And>fs s. sc fs = Some s \<Longrightarrow> f32_is_finite s" and "list_all (distinct \<circ> map lc_row_id) L"
    and "scores_known sc L"
  shows "batch_ok (reranked config sc L)"
proof -
  have "canonical_rows (rank_rows config (map (scored_candidate sc) l))" if "l \<in> set L" for l
  proof (rule rank_rows_canonical)
    show "list_all (f32_is_finite \<circ> score) (map (scored_candidate sc) l)"
      using that assms(1,3) by (fastforce simp: list_all_iff scores_known_def scored_candidate_def)
    show "distinct (map row_id (map (scored_candidate sc) l))"
      using that assms(2) by (simp add: list_all_iff scored_candidate_def comp_def)
  qed
  then show ?thesis by (simp add: reranked_def batch_ok_lists list_all_iff)
qed

lemma feature_rows_distinct:
  assumes "rows_distinct inputs"
  shows "list_all (distinct \<circ> map lc_row_id) (feature_lists inputs names)"
  using assms by (simp add: rows_distinct_def feature_lists_def list_all_iff candidate_of_def comp_def)

locale ltr_reranker =
  fixes ok :: "'m \<Rightarrow> bool"
    and schema :: "'m \<Rightarrow> ltr_feature_schema"
    and sc :: "'m \<Rightarrow> f32 list \<Rightarrow> f32 option"
    and rerank :: "'m \<Rightarrow> ltr_feature_batch \<Rightarrow> ltr_rerank_config \<Rightarrow> ('x hybrid_error, ranked_batch) outcome"
  assumes sc_finite: "ok m \<Longrightarrow> sc m fs = Some s \<Longrightarrow> f32_is_finite s"
    and rerank_Ok: "ok m \<Longrightarrow> list_all (distinct \<circ> map lc_row_id) L \<Longrightarrow>
      rerank m (feature_batch_of (fs_feature_names (schema m)) L) config = Ok b \<longleftrightarrow>
        scores_known (sc m) L \<and> b = reranked config (sc m) L"
    and rerank_not_panic: "ok m \<Longrightarrow> list_all (distinct \<circ> map lc_row_id) L \<Longrightarrow>
      rerank m (feature_batch_of (fs_feature_names (schema m)) L) config \<noteq> Panic"
begin

lemma rerank_fused_exact:
  assumes "ok m" and "sources_ok inputs" and "rows_distinct inputs"
  defines "names \<equiv> fs_feature_names (schema m)"
  shows "rerank_fused_batch show_debug (schema m) (rerank m) inputs config = Ok b \<longleftrightarrow>
      names_ok names \<and> counts_ok inputs \<and> signals_known inputs names \<and>
      scores_known (sc m) (feature_lists inputs names) \<and> b = reranked config (sc m) (feature_lists inputs names)"
    and "rerank_fused_batch show_debug (schema m) (rerank m) inputs config = Ok b \<Longrightarrow> batch_ok b"
    and "rerank_fused_batch show_debug (schema m) (rerank m) inputs config \<noteq> Panic"
proof -
  note from_Ok = lfb_from_inputs_exact(1) [where 'x = 'x, OF assms(2), of show_debug "schema m"]
  note dist = feature_rows_distinct [OF assms(3), of names]
  show eq: "rerank_fused_batch show_debug (schema m) (rerank m) inputs config = Ok b \<longleftrightarrow>
      names_ok names \<and> counts_ok inputs \<and> signals_known inputs names \<and>
      scores_known (sc m) (feature_lists inputs names) \<and> b = reranked config (sc m) (feature_lists inputs names)" for b
    using rerank_Ok [OF assms(1) dist, of config b]
    by (auto simp: rerank_fused_batch_def obind_eq_Ok from_Ok names_def)
  show "rerank_fused_batch show_debug (schema m) (rerank m) inputs config = Ok b \<Longrightarrow> batch_ok b"
    unfolding eq by (elim conjE) (simp add: reranked_canonical [OF sc_finite [OF assms(1)] dist])
  show "rerank_fused_batch show_debug (schema m) (rerank m) inputs config \<noteq> Panic"
    using rerank_not_panic [OF assms(1) dist, of config]
    by (auto simp: rerank_fused_batch_def obind_eq_Panic from_Ok names_def
        lfb_from_inputs_exact(2) [where 'x = 'x, OF assms(2)])
qed

end

section \<open>Properties\<close>

text \<open>
  C33. Building the feature matrix from canonical source batches never panics, and succeeds exactly when
  the feature names are non-blank and distinct, every source has as many queries as the fused batch,
  and each named signal is known and finite for every fused row; it then holds one vector per fused
  row, query by query and in the order of the fused rows, with the value of each signal in the order of
  the names.
\<close>

theorem ltr_features_exact:
  fixes schema :: ltr_feature_schema
  assumes "sources_ok inputs"
  shows "(lfb_from_inputs show_debug inputs schema = (Ok b :: ('x hybrid_error, _) outcome) \<longleftrightarrow>
      names_ok (fs_feature_names schema) \<and> counts_ok inputs \<and> signals_known inputs (fs_feature_names schema) \<and>
      b = feature_batch_of (fs_feature_names schema) (feature_lists inputs (fs_feature_names schema))) \<and>
    lfb_from_inputs show_debug inputs schema \<noteq> (Panic :: ('x hybrid_error, _) outcome)"
  by (rule conjI, rule lfb_from_inputs_exact(1) [OF assms], rule lfb_from_inputs_exact(2) [OF assms])

definition ex_inputs :: ltr_feature_inputs where
  "ex_inputs = \<lparr>li_fused = \<lparr>fb_offsets = [0, 1], fb_hits = [\<lparr>fused_row_id = 10, fused_score = f32_one,
       dense_rank = None, sparse_rank = Some 1, dense_score = None, sparse_score = Some f32_one\<rparr>]\<rparr>,
     li_rank_cos_scores = None, li_dense_cos_scores = None,
     li_bm25_scores = Some (lists_batch [[\<lparr>row_id = 10, score = f32_one\<rparr>]]),
     li_doc_len_chars = None, li_query_len_chars = Some [1]\<rparr>"

definition ex_schema :: ltr_feature_schema where
  "ex_schema = \<lparr>fs_schema_version = ''ordinaldb.ltr.features.v1'',
     fs_feature_names = [''rrf_score'', ''bm25_rank'', ''query_len_chars''], fs_forbidden_features = [],
     fs_dense_features_required = False\<rparr>"

lemma ex_signal:
  assumes "name \<in> set (fs_feature_names ex_schema)" and "row \<in> set (fb_hits (li_fused ex_inputs))"
  shows "signal ex_inputs 0 row name = Some f32_one"
proof -
  have one: "f32_of_nat (Suc 0) = f32_one" by (simp add: float_eval cong: let_weak_cong)
  have fin: "f32_is_finite f32_one" by (simp add: float_eval)
  show ?thesis
    using assms one fin
    by (auto simp: ex_schema_def ex_inputs_def signal_def signals_def source_rank_def get_nth_def)
qed

lemma ex_fused: "fused_rows ex_inputs 0 = fb_hits (li_fused ex_inputs)"
  "fb_query_count (li_fused ex_inputs) = 1" "map fused_row_id (fb_hits (li_fused ex_inputs)) = [10]"
  by (simp_all add: ex_inputs_def fused_rows_def unwrap_or_empty_def fb_hits_for_query_def get_nth_def
      get_range_def fb_query_count_def)

lemma ex_inputs_ok: "sources_ok ex_inputs" "names_ok (fs_feature_names ex_schema)" "counts_ok ex_inputs"
    "signals_known ex_inputs (fs_feature_names ex_schema)"
proof -
  show "sources_ok ex_inputs"
    by (simp add: sources_ok_def sources_def ex_inputs_def batch_ok_lists canonical_rows_def sorted_by_def
        float_eval)
  show "names_ok (fs_feature_names ex_schema)"
    by (simp add: names_ok_def ex_schema_def trim_plain)
  show "counts_ok ex_inputs"
    by (simp add: counts_ok_def sources_def ex_inputs_def fb_query_count_def)
  show "signals_known ex_inputs (fs_feature_names ex_schema)"
    by (simp add: signals_known_def ex_fused ex_signal lessThan_Suc)
qed

lemma ex_features:
  "feature_lists ex_inputs (fs_feature_names ex_schema) =
     [[\<lparr>lc_row_id = 10, lc_features = [f32_one, f32_one, f32_one]\<rparr>]]"
proof -
  obtain row where row: "fb_hits (li_fused ex_inputs) = [row]" "fused_row_id row = 10"
    using ex_fused(3) by auto
  then have "map (\<lambda>name. the (signal ex_inputs 0 row name)) (fs_feature_names ex_schema) =
      map (\<lambda>name. f32_one) (fs_feature_names ex_schema)"
    by (simp add: ex_signal)
  then show ?thesis
    using row by (simp add: feature_lists_def ex_fused candidate_of_def) (simp add: ex_schema_def)
qed

lemma ltr_features_exact_witness:
  "lfb_from_inputs id ex_inputs ex_schema =
     (Ok (feature_batch_of (fs_feature_names ex_schema) [[\<lparr>lc_row_id = 10, lc_features = [f32_one, f32_one, f32_one]\<rparr>]])
       :: (string hybrid_error, _) outcome)"
  by (subst ltr_features_exact [OF ex_inputs_ok(1), THEN conjunct1]) (simp add: ex_inputs_ok ex_features)

end
