(* ===== verification/LtrModel.thy ===== *)
theory LtrModel
  imports LtrFeatures
begin

text \<open>
  The tree-ensemble reranker (\<open>ordinaldb-hybrid/src/ltr_model.rs\<close>, \<open>ltr.rs\<close>, \<open>ltr_manifest.rs\<close>):
  loading limits, validation and compilation of the trees, scoring, and reranking of a feature batch.
  The JSON parser of \<open>serde_json\<close> is the argument \<open>parse\<close> with \<open>show_json\<close> for its errors, the values of
  the provenance map are of an unknown type \<open>'v\<close>, and \<open>show_debug\<close> is the debug output of a string. The
  call stack and the memory are not bounded.
\<close>

section \<open>Records and limits\<close>

definition LTR_MODEL_SCHEMA_V1 :: string where
  "LTR_MODEL_SCHEMA_V1 = ''ordinaldb.ltr.tree_ensemble.v1''"

definition LTR_FEATURE_SCHEMA_V1 :: string where
  "LTR_FEATURE_SCHEMA_V1 = ''ordinaldb.ltr.features.v1''"

definition DOC_CAT_MATCH :: string where
  "DOC_CAT_MATCH = ''doc_cat_match''"

record ltr_load_options =
  max_model_bytes :: nat
  max_trees :: nat
  max_nodes_per_tree :: nat
  max_depth :: nat
  max_features :: nat
  allow_leakage_features_for_research :: bool

definition ltr_load_options_default :: ltr_load_options where
  "ltr_load_options_default =
     \<lparr>max_model_bytes = 64 * 1024 * 1024, max_trees = 4096, max_nodes_per_tree = 4096, max_depth = 32,
      max_features = 256, allow_leakage_features_for_research = False\<rparr>"

record 'v ltr_model_info =
  mi_schema_version :: string
  mi_model_id :: string
  mi_model_family :: string
  mi_training_objective :: string
  mi_booster :: string
  mi_base_score :: f32
  mi_learning_rate :: f32
  mi_feature_schema :: ltr_feature_schema
  mi_training_provenance :: "(string \<times> 'v) list"

record ltr_tree_node =
  split_feature :: "16 word option"
  threshold :: "f32 option"
  default_left :: bool
  left_child :: "32 word option"
  right_child :: "32 word option"
  leaf_value :: "f32 option"

record ltr_tree =
  lt_nodes :: "ltr_tree_node list"

record 'v ltr_tree_ensemble_record =
  tr_schema_version :: string
  tr_model_id :: string
  tr_model_family :: string
  tr_training_objective :: string
  tr_booster :: string
  tr_base_score :: f32
  tr_learning_rate :: f32
  tr_feature_schema :: ltr_feature_schema
  tr_training_provenance :: "(string \<times> 'v) list"
  tr_trees :: "ltr_tree list"

datatype compiled_node = Leaf f32 | Split nat f32 nat nat

record compiled_tree =
  ct_nodes :: "compiled_node list"

record 'v tree_ensemble_reranker =
  te_info :: "'v ltr_model_info"
  te_trees :: "compiled_tree list"

section \<open>Validation\<close>

definition validate_options :: "ltr_load_options \<Rightarrow> ('x hybrid_error, unit) outcome" where
  "validate_options options =
     (if max_model_bytes options = 0 then Err (HybridLimit ''LTR max_model_bytes must be positive'')
      else if max_trees options = 0 then Err (HybridLimit ''LTR max_trees must be positive'')
      else if max_nodes_per_tree options = 0 then
        Err (HybridLimit ''LTR max_nodes_per_tree must be positive'')
      else if max_depth options = 0 then Err (HybridLimit ''LTR max_depth must be positive'')
      else if max_features options = 0 \<or> max_features options > u16_max then
        Err (HybridLimit ''LTR max_features must be in 1..=u16::MAX'')
      else Ok ())"

definition validate_model_header ::
  "(string \<Rightarrow> string) \<Rightarrow> 'v ltr_tree_ensemble_record \<Rightarrow> ('x hybrid_error, unit) outcome" where
  "validate_model_header show_debug rec =
     (if tr_schema_version rec \<noteq> LTR_MODEL_SCHEMA_V1 then
        Err (LtrError (''unsupported LTR model schema '' @ show_debug (tr_schema_version rec)))
      else if trim (tr_model_id rec) = [] then Err (LtrError ''LTR model_id must not be empty'')
      else if tr_model_family rec \<noteq> ''xgboost_gbtree'' \<and> tr_model_family rec \<noteq> ''ordinaldb_tree_ensemble'' then
        Err (LtrError (''unsupported LTR model_family '' @ show_debug (tr_model_family rec)))
      else if tr_training_objective rec \<noteq> ''rank:pairwise'' then
        Err (LtrError (''unsupported LTR training_objective '' @ show_debug (tr_training_objective rec)))
      else if tr_booster rec \<noteq> ''gbtree'' then
        Err (LtrError (''unsupported LTR booster '' @ show_debug (tr_booster rec)))
      else Ok ())"

fun check_schema_names ::
  "(string \<Rightarrow> string) \<Rightarrow> string list \<Rightarrow> bool \<Rightarrow> string set \<Rightarrow> string list \<Rightarrow> ('x hybrid_error, unit) outcome" where
  "check_schema_names show_debug forbidden allow seen [] = Ok ()"
| "check_schema_names show_debug forbidden allow seen (name # names) =
     (if trim name = [] then Err (LtrError ''LTR feature names must not be empty'')
      else if name \<in> seen then Err (LtrError (''duplicate LTR feature name '' @ show_debug name))
      else if (name = DOC_CAT_MATCH \<or> list_ex (\<lambda>item. item = name) forbidden) \<and> \<not> allow then
        Err (LtrError (''forbidden leakage feature '' @ show_debug name @ '' is present in LTR feature schema''))
      else check_schema_names show_debug forbidden allow (insert name seen) names)"

definition validate_feature_schema ::
  "(string \<Rightarrow> string) \<Rightarrow> ltr_feature_schema \<Rightarrow> ltr_load_options \<Rightarrow> ('x hybrid_error, unit) outcome" where
  "validate_feature_schema show_debug schema options =
     (if fs_schema_version schema \<noteq> LTR_FEATURE_SCHEMA_V1 then
        Err (LtrError (''unsupported LTR feature schema '' @ show_debug (fs_schema_version schema)))
      else if fs_feature_names schema = [] then Err (LtrError ''LTR feature schema must not be empty'')
      else if length (fs_feature_names schema) > max_features options then
        Err (HybridLimit (''LTR feature schema has '' @ show_nat (length (fs_feature_names schema)) @
          '' features, limit is '' @ show_nat (max_features options)))
      else check_schema_names show_debug (fs_forbidden_features schema)
        (allow_leakage_features_for_research options) {} (fs_feature_names schema))"

text \<open>\<open>usize::try_from\<close> of a \<open>u32\<close> does not fail on the 64-bit targets.\<close>

definition compile_node ::
  "nat \<Rightarrow> nat \<Rightarrow> ltr_tree_node \<Rightarrow> nat \<Rightarrow> nat \<Rightarrow> ('x hybrid_error, compiled_node) outcome" where
  "compile_node tree_idx node_idx node node_count feature_count =
     (let prefix = ''LTR tree '' @ show_nat tree_idx @ '' node '' @ show_nat node_idx in
      case (leaf_value node, split_feature node, threshold node, left_child node, right_child node) of
        (Some v, None, None, None, None) \<Rightarrow>
          if \<not> f32_is_finite v then Err (LtrError (prefix @ '' leaf value is not finite''))
          else Ok (Leaf v)
      | (None, Some feature, Some th, Some l, Some r) \<Rightarrow>
          if unat feature \<ge> feature_count then
            Err (LtrError (prefix @ '' split feature '' @ show_nat (unat feature) @ '' exceeds feature count '' @
              show_nat feature_count))
          else if \<not> f32_is_finite th then Err (LtrError (prefix @ '' threshold is not finite''))
          else if unat l \<ge> node_count \<or> unat r \<ge> node_count then
            Err (LtrError (prefix @ '' child index is out of range''))
          else Ok (Split (unat feature) th (unat l) (unat r))
      | _ \<Rightarrow> Err (LtrError (prefix @ '' must be either a leaf or a complete numerical split'')))"

fun compile_nodes ::
  "nat \<Rightarrow> nat \<Rightarrow> ltr_tree_node list \<Rightarrow> nat \<Rightarrow> nat \<Rightarrow> ('x hybrid_error, compiled_node list) outcome" where
  "compile_nodes tree_idx node_idx [] node_count feature_count = Ok []"
| "compile_nodes tree_idx node_idx (node # nodes) node_count feature_count =
     obind (compile_node tree_idx node_idx node node_count feature_count) (\<lambda>c.
     obind (compile_nodes tree_idx (node_idx + 1) nodes node_count feature_count) (\<lambda>cs. Ok (c # cs)))"

text \<open>The two flag vectors are threaded; indexing outside them or the nodes panics.\<close>

function validate_reachable_tree ::
  "nat \<Rightarrow> nat \<Rightarrow> nat \<Rightarrow> nat \<Rightarrow> compiled_node list \<Rightarrow> bool list \<Rightarrow> bool list \<Rightarrow>
     ('x hybrid_error, bool list \<times> bool list) outcome" where
  "validate_reachable_tree tree_idx node_idx depth maxd nodes visited stack =
     (if depth > maxd then
        Err (HybridLimit (''LTR tree '' @ show_nat tree_idx @ '' exceeds max depth '' @ show_nat maxd))
      else if node_idx \<ge> length stack then Panic
      else if stack ! node_idx then
        Err (LtrError (''LTR tree '' @ show_nat tree_idx @ '' contains a cycle at node '' @ show_nat node_idx))
      else if node_idx \<ge> length visited \<or> node_idx \<ge> length nodes then Panic
      else case nodes ! node_idx of
          Split _ _ l r \<Rightarrow>
            obind (validate_reachable_tree tree_idx l (depth + 1) maxd nodes (visited[node_idx := True])
              (stack[node_idx := True])) (\<lambda>(visited, stack).
            obind (validate_reachable_tree tree_idx r (depth + 1) maxd nodes visited stack) (\<lambda>(visited, stack).
              Ok (visited, stack[node_idx := False])))
        | Leaf _ \<Rightarrow> Ok (visited[node_idx := True], (stack[node_idx := True])[node_idx := False]))"
  by pat_completeness auto
termination
  by (relation "measure (\<lambda>(_, _, depth, maxd, _). Suc maxd - depth)") auto

declare validate_reachable_tree.simps [simp del]

fun first_false :: "nat \<Rightarrow> bool list \<Rightarrow> nat option" where
  "first_false i [] = None"
| "first_false i (b # bs) = (if \<not> b then Some i else first_false (i + 1) bs)"

definition compile_tree ::
  "nat \<Rightarrow> ltr_tree \<Rightarrow> nat \<Rightarrow> ltr_load_options \<Rightarrow> ('x hybrid_error, compiled_tree) outcome" where
  "compile_tree tree_idx tree feature_count options =
     (if lt_nodes tree = [] then Err (LtrError (''LTR tree '' @ show_nat tree_idx @ '' has no nodes''))
      else if length (lt_nodes tree) > max_nodes_per_tree options then
        Err (HybridLimit (''LTR tree '' @ show_nat tree_idx @ '' has '' @ show_nat (length (lt_nodes tree)) @
          '' nodes, limit is '' @ show_nat (max_nodes_per_tree options)))
      else
        obind (compile_nodes tree_idx 0 (lt_nodes tree) (length (lt_nodes tree)) feature_count) (\<lambda>compiled.
        obind (validate_reachable_tree tree_idx 0 1 (max_depth options) compiled
          (replicate (length compiled) False) (replicate (length compiled) False)) (\<lambda>(visited, stack).
        case first_false 0 visited of
          Some unreachable \<Rightarrow>
            Err (LtrError (''LTR tree '' @ show_nat tree_idx @ '' has unreachable node '' @ show_nat unreachable))
        | None \<Rightarrow> Ok \<lparr>ct_nodes = compiled\<rparr>)))"

section \<open>Loading a model\<close>

fun compile_trees ::
  "nat \<Rightarrow> ltr_tree list \<Rightarrow> nat \<Rightarrow> ltr_load_options \<Rightarrow> ('x hybrid_error, compiled_tree list) outcome" where
  "compile_trees idx [] feature_count options = Ok []"
| "compile_trees idx (tree # trees) feature_count options =
     obind (compile_tree idx tree feature_count options) (\<lambda>c.
     obind (compile_trees (idx + 1) trees feature_count options) (\<lambda>cs. Ok (c # cs)))"

definition info_of :: "'v ltr_tree_ensemble_record \<Rightarrow> 'v ltr_model_info" where
  "info_of rec =
     \<lparr>mi_schema_version = tr_schema_version rec, mi_model_id = tr_model_id rec,
      mi_model_family = tr_model_family rec, mi_training_objective = tr_training_objective rec,
      mi_booster = tr_booster rec, mi_base_score = tr_base_score rec,
      mi_learning_rate = tr_learning_rate rec, mi_feature_schema = tr_feature_schema rec,
      mi_training_provenance = tr_training_provenance rec\<rparr>"

definition from_record_with_options ::
  "(string \<Rightarrow> string) \<Rightarrow> 'v ltr_tree_ensemble_record \<Rightarrow> ltr_load_options \<Rightarrow>
     ('x hybrid_error, 'v tree_ensemble_reranker) outcome" where
  "from_record_with_options show_debug rec options =
     obind (validate_options options) (\<lambda>_.
     obind (validate_feature_schema show_debug (tr_feature_schema rec) options) (\<lambda>_.
     obind (validate_model_header show_debug rec) (\<lambda>_.
     if length (tr_trees rec) > max_trees options then
       Err (HybridLimit (''LTR model has '' @ show_nat (length (tr_trees rec)) @ '' trees, limit is '' @
         show_nat (max_trees options)))
     else if \<not> f32_is_finite (tr_base_score rec) then Err (LtrError ''LTR base_score must be finite'')
     else if \<not> f32_is_finite (tr_learning_rate rec) then Err (LtrError ''LTR learning_rate must be finite'')
     else
       obind (compile_trees 0 (tr_trees rec) (length (fs_feature_names (tr_feature_schema rec))) options) (\<lambda>trees.
       Ok \<lparr>te_info = info_of rec, te_trees = trees\<rparr>))))"

definition from_record ::
  "(string \<Rightarrow> string) \<Rightarrow> 'v ltr_tree_ensemble_record \<Rightarrow> ('x hybrid_error, 'v tree_ensemble_reranker) outcome" where
  "from_record show_debug rec = from_record_with_options show_debug rec ltr_load_options_default"

definition from_slice ::
  "(u8 list \<Rightarrow> ('j, 'v ltr_tree_ensemble_record) outcome) \<Rightarrow> ('j \<Rightarrow> string) \<Rightarrow> (string \<Rightarrow> string) \<Rightarrow> u8 list \<Rightarrow>
     ltr_load_options \<Rightarrow> ('x hybrid_error, 'v tree_ensemble_reranker) outcome" where
  "from_slice parse show_json show_debug data options =
     (if length data > max_model_bytes options then
        Err (HybridLimit (''LTR model is '' @ show_nat (length data) @ '' bytes, limit is '' @
          show_nat (max_model_bytes options)))
      else
        obind (map_err (\<lambda>e. LtrError (''invalid LTR model JSON: '' @ show_json e)) (parse data)) (\<lambda>rec.
          from_record_with_options show_debug rec options))"

text \<open>
  An opened file: what \<open>metadata\<close> and \<open>read_to_end\<close> return, in this order. \<open>file\<close> is the outcome of
  \<open>open_no_follow\<close> and \<open>path\<close> the displayed path.
\<close>

record opened_file =
  of_metadata :: "(io_error, bool \<times> nat) outcome"
  of_content :: "(io_error, u8 list) outcome"

definition checked_model_file_len :: "nat \<Rightarrow> ('x hybrid_error, nat) outcome" where
  "checked_model_file_len len =
     (if len > usize_max then
        Err (HybridLimit (''LTR model is '' @ show_nat len @
          '' bytes, which cannot fit in memory on this platform''))
      else Ok len)"

definition read_regular_file ::
  "string \<Rightarrow> (io_error, opened_file) outcome \<Rightarrow> nat \<Rightarrow> ('x hybrid_error, u8 list) outcome" where
  "read_regular_file path file_outcome max_bytes =
     obind (map_err HybridIo file_outcome) (\<lambda>f.
     obind (map_err HybridIo (of_metadata f)) (\<lambda>(is_file, len).
     if \<not> is_file then Err (LtrError (''LTR model path is not a regular file: '' @ path))
     else if len > max_bytes then
       Err (HybridLimit (''LTR model is '' @ show_nat len @ '' bytes, limit is '' @ show_nat max_bytes))
     else
       obind (checked_model_file_len len) (\<lambda>model_len.
       obind (map_err HybridIo (of_content f)) (\<lambda>content.
       if length content > max_bytes then
         Err (HybridLimit (''LTR model is '' @ show_nat (length content) @ '' bytes, limit is '' @ show_nat max_bytes))
       else Ok content))))"

definition load_unverified ::
  "(u8 list \<Rightarrow> ('j, 'v ltr_tree_ensemble_record) outcome) \<Rightarrow> ('j \<Rightarrow> string) \<Rightarrow> (string \<Rightarrow> string) \<Rightarrow> string \<Rightarrow>
     (io_error, opened_file) outcome \<Rightarrow> ltr_load_options \<Rightarrow> ('x hybrid_error, 'v tree_ensemble_reranker) outcome" where
  "load_unverified parse show_json show_debug path file_outcome options =
     obind (read_regular_file path file_outcome (max_model_bytes options)) (\<lambda>data.
       from_slice parse show_json show_debug data options)"

text \<open>\<open>aux\<close> is the outcome of \<open>plan.require_auxiliary\<close>, and \<open>open_path\<close> opens a path.\<close>

definition load_from_verified_plan_unchecked_freshness ::
  "(u8 list \<Rightarrow> ('j, 'v ltr_tree_ensemble_record) outcome) \<Rightarrow> ('j \<Rightarrow> string) \<Rightarrow> (string \<Rightarrow> string) \<Rightarrow>
     (string \<Rightarrow> (io_error, opened_file) outcome) \<Rightarrow> ('x, string) outcome \<Rightarrow> ltr_load_options \<Rightarrow>
     ('x hybrid_error, 'v tree_ensemble_reranker) outcome" where
  "load_from_verified_plan_unchecked_freshness parse show_json show_debug open_path aux options =
     obind (map_err HybridAuxiliary aux) (\<lambda>path.
       load_unverified parse show_json show_debug path (open_path path) options)"

section \<open>Scoring\<close>

text \<open>The loop of \<open>score_tree\<close>, with the iterations it has left.\<close>

fun walk_tree :: "nat \<Rightarrow> compiled_node list \<Rightarrow> f32 list \<Rightarrow> nat \<Rightarrow> ('x hybrid_error, f32) outcome" where
  "walk_tree 0 nodes features node_idx = Err (LtrError ''LTR tree traversal did not reach a leaf'')"
| "walk_tree (Suc n) nodes features node_idx =
     (if node_idx \<ge> length nodes then Panic
      else case nodes ! node_idx of
          Leaf v \<Rightarrow> Ok v
        | Split feature th l r \<Rightarrow>
            if feature \<ge> length features then Panic
            else
              let v = features ! feature in
              if \<not> f32_is_finite v then
                Err (LtrError (''feature '' @ show_nat feature @ '' is not finite during LTR scoring''))
              else walk_tree n nodes features (if f32_lt v th then l else r))"

definition score_tree :: "compiled_tree \<Rightarrow> f32 list \<Rightarrow> ('x hybrid_error, f32) outcome" where
  "score_tree tree features = walk_tree (length (ct_nodes tree) + 1) (ct_nodes tree) features 0"

fun check_feature_vector :: "nat \<Rightarrow> string list \<Rightarrow> f32 list \<Rightarrow> ('x hybrid_error, unit) outcome" where
  "check_feature_vector idx names [] = Ok ()"
| "check_feature_vector idx names (v # vs) =
     (if \<not> f32_is_finite v then
        (if idx \<ge> length names then Panic
         else Err (LtrError (''feature '' @ show_nat idx @ '' ('' @ names ! idx @ '') is not finite'')))
      else check_feature_vector (idx + 1) names vs)"

fun add_tree_scores :: "f32 \<Rightarrow> f32 list \<Rightarrow> compiled_tree list \<Rightarrow> f32 \<Rightarrow> ('x hybrid_error, f32) outcome" where
  "add_tree_scores rate features [] acc = Ok acc"
| "add_tree_scores rate features (tree # trees) acc =
     obind (score_tree tree features) (\<lambda>s.
       add_tree_scores rate features trees (f32_add acc (f32_mul rate s)))"

definition te_feature_names :: "'v tree_ensemble_reranker \<Rightarrow> string list" where
  "te_feature_names m = fs_feature_names (mi_feature_schema (te_info m))"

definition score_features :: "'v tree_ensemble_reranker \<Rightarrow> f32 list \<Rightarrow> ('x hybrid_error, f32) outcome" where
  "score_features m features =
     (if length features \<noteq> length (te_feature_names m) then
        Err (LtrError (''feature vector length '' @ show_nat (length features) @
          '' does not match model feature count '' @ show_nat (length (te_feature_names m))))
      else
        obind (check_feature_vector 0 (te_feature_names m) features) (\<lambda>_.
        obind (add_tree_scores (mi_learning_rate (te_info m)) features (te_trees m) (mi_base_score (te_info m))) (\<lambda>scr.
        if \<not> f32_is_finite scr then Err (LtrError ''LTR score is not finite'') else Ok scr)))"

section \<open>Reranking\<close>

definition rerank_query ::
  "'v tree_ensemble_reranker \<Rightarrow> ltr_feature_batch \<Rightarrow> ltr_rerank_config \<Rightarrow> nat \<Rightarrow> ('x hybrid_error, scored_row list) outcome" where
  "rerank_query m features config query_idx =
     obind (traverse (\<lambda>c. obind (score_features m (lc_features c)) (\<lambda>s. Ok \<lparr>row_id = lc_row_id c, score = s\<rparr>))
        (unwrap_or_empty (lfb_rows_for_query features query_idx))) (\<lambda>query_hits.
       Ok (take (rc_top_k config) (sort_by rank_row_order query_hits)))"

definition rerank_batch ::
  "(f32 \<Rightarrow> string) \<Rightarrow> 'v tree_ensemble_reranker \<Rightarrow> ltr_feature_batch \<Rightarrow> ltr_rerank_config \<Rightarrow>
     ('x hybrid_error, ranked_batch) outcome" where
  "rerank_batch show_f32 m features config =
     (if lb_feature_names features \<noteq> te_feature_names m then
        Err (LtrError ''feature batch schema does not match model feature schema'')
      else
        obind (extend_csr (rerank_query m features config) [0..<lfb_query_count features] [0] []) (\<lambda>(offsets, hits).
          from_sorted_offsets_hits show_f32 offsets hits))"

definition te_rerank ::
  "(f32 \<Rightarrow> string) \<Rightarrow> (string \<Rightarrow> string) \<Rightarrow> 'v tree_ensemble_reranker \<Rightarrow> ltr_feature_inputs \<Rightarrow> ltr_rerank_config \<Rightarrow>
     ('x hybrid_error, ranked_batch) outcome" where
  "te_rerank show_f32 show_debug m inputs config =
     obind (lfb_from_inputs show_debug inputs (mi_feature_schema (te_info m))) (\<lambda>features.
       rerank_batch show_f32 m features config)"

section \<open>The trees that the nodes denote\<close>

text \<open>
  The tree that the node array unfolds to from a node, if every path from it ends within \<open>d\<close> nodes,
  the nodes on these paths, and the value that a feature vector selects.
\<close>

datatype decision_tree = Value f32 | Test nat f32 decision_tree decision_tree

fun tree_of :: "nat \<Rightarrow> compiled_node list \<Rightarrow> nat \<Rightarrow> decision_tree option" where
  "tree_of 0 nodes i = None"
| "tree_of (Suc d) nodes i =
     (if i \<ge> length nodes then None
      else case nodes ! i of
          Leaf v \<Rightarrow> Some (Value v)
        | Split f th l r \<Rightarrow>
            (case (tree_of d nodes l, tree_of d nodes r) of
               (Some a, Some b) \<Rightarrow> Some (Test f th a b)
             | _ \<Rightarrow> None))"

fun within :: "nat \<Rightarrow> compiled_node list \<Rightarrow> nat \<Rightarrow> nat set" where
  "within 0 nodes i = {}"
| "within (Suc d) nodes i =
     (if i \<ge> length nodes then {}
      else case nodes ! i of
          Leaf v \<Rightarrow> {i}
        | Split f th l r \<Rightarrow> insert i (within d nodes l \<union> within d nodes r))"

fun tree_value :: "decision_tree \<Rightarrow> f32 list \<Rightarrow> f32" where
  "tree_value (Value v) features = v"
| "tree_value (Test f th l r) features =
     (if f32_lt (features ! f) th then tree_value l features else tree_value r features)"

fun tree_height :: "decision_tree \<Rightarrow> nat" where
  "tree_height (Value v) = 1"
| "tree_height (Test f th l r) = Suc (max (tree_height l) (tree_height r))"

lemma tree_of_Split:
  assumes "nodes ! i = Split f th l r"
  shows "tree_of (Suc d) nodes i = Some t \<longleftrightarrow>
    i < length nodes \<and> (\<exists>a b. tree_of d nodes l = Some a \<and> tree_of d nodes r = Some b \<and> t = Test f th a b)"
  using assms by (auto split: option.splits)

lemma tree_of_Leaf:
  "nodes ! i = Leaf v \<Longrightarrow> tree_of (Suc d) nodes i = Some t \<longleftrightarrow> i < length nodes \<and> t = Value v"
  by auto

lemma tree_of_pos: "tree_of d nodes i = Some t \<Longrightarrow> \<exists>e. d = Suc e"
  by (cases d) auto

lemma tree_of_mono: "tree_of d nodes i = Some t \<Longrightarrow> d \<le> e \<Longrightarrow> tree_of e nodes i = Some t"
proof (induction d arbitrary: e i t)
  case (Suc d)
  then obtain e' where e: "e = Suc e'" "d \<le> e'" by (cases e) auto
  show ?case
  proof (cases "nodes ! i")
    case (Split f th l r)
    then show ?thesis
      using Suc.prems(1) Suc.IH [of l _ e'] Suc.IH [of r _ e'] e
      by (auto simp: tree_of_Split simp del: tree_of.simps)
  qed (use Suc.prems e in \<open>auto simp: tree_of_Leaf simp del: tree_of.simps\<close>)
qed simp

lemma within_range: "within d nodes i \<subseteq> {..<length nodes}"
proof (induction d arbitrary: i)
  case (Suc d)
  then show ?case by (cases "nodes ! i") auto
qed simp

lemma within_stable: "tree_of d nodes i = Some t \<Longrightarrow> d \<le> e \<Longrightarrow> within e nodes i = within d nodes i"
proof (induction d arbitrary: e i t)
  case (Suc d)
  then obtain e' where e: "e = Suc e'" "d \<le> e'" by (cases e) auto
  show ?case
  proof (cases "nodes ! i")
    case (Split f th l r)
    then obtain a b where "tree_of d nodes l = Some a" "tree_of d nodes r = Some b"
      using Suc.prems(1) by (auto simp: tree_of_Split simp del: tree_of.simps)
    then show ?thesis using Suc.IH [of l a e'] Suc.IH [of r b e'] e Split by simp
  qed (use e in auto)
qed simp

lemma tree_of_within: "tree_of d nodes i = Some t \<Longrightarrow> j \<in> within d nodes i \<Longrightarrow> \<exists>u. tree_of d nodes j = Some u"
proof (induction d arbitrary: i t)
  case (Suc d)
  show ?case
  proof (cases "nodes ! i")
    case (Split f th l r)
    then obtain a b where ab: "tree_of d nodes l = Some a" "tree_of d nodes r = Some b"
      using Suc.prems(1) by (auto simp: tree_of_Split simp del: tree_of.simps)
    consider "j = i" | "j \<in> within d nodes l" | "j \<in> within d nodes r"
      using Suc.prems(2) Split by (auto split: if_splits)
    then show ?thesis
    proof cases
      case 2
      then show ?thesis using Suc.IH [OF ab(1)] tree_of_mono [of d nodes j _ "Suc d"] by auto
    next
      case 3
      then show ?thesis using Suc.IH [OF ab(2)] tree_of_mono [of d nodes j _ "Suc d"] by auto
    qed (use Suc.prems in blast)
  qed (use Suc.prems in \<open>auto split: if_splits\<close>)
qed simp

text \<open>A node that unfolds to a tree is not on a path from its children.\<close>

lemma tree_of_acyclic:
  assumes "nodes ! i = Split f th l r" and "tree_of (Suc d) nodes i = Some t"
  shows "i \<notin> within d nodes l" and "i \<notin> within d nodes r"
proof -
  have "i \<notin> within d nodes l \<union> within d nodes r"
    using assms(2)
  proof (induction d arbitrary: t rule: less_induct)
    case (less d)
    show ?case
    proof
      assume *: "i \<in> within d nodes l \<union> within d nodes r"
      obtain a b where ab: "tree_of d nodes l = Some a" "tree_of d nodes r = Some b"
        using less.prems assms(1) by (auto simp: tree_of_Split simp del: tree_of.simps)
      then obtain u where u: "tree_of d nodes i = Some u" using * tree_of_within by blast
      then obtain e where e: "d = Suc e" using tree_of_pos by blast
      then obtain a' b' where ab': "tree_of e nodes l = Some a'" "tree_of e nodes r = Some b'"
        using u assms(1) by (auto simp: tree_of_Split simp del: tree_of.simps)
      have "within d nodes l = within e nodes l" "within d nodes r = within e nodes r"
        using within_stable [OF ab'(1), of d] within_stable [OF ab'(2), of d] e by simp_all
      then show False using less.IH [of e u] u e * by simp
    qed
  qed
  then show "i \<notin> within d nodes l" and "i \<notin> within d nodes r" by simp_all
qed

text \<open>So the longest path has no more nodes than there are.\<close>

lemma tree_height_card: "tree_of d nodes i = Some t \<Longrightarrow> tree_height t \<le> card (within d nodes i)"
proof (induction d arbitrary: i t)
  case (Suc d)
  show ?case
  proof (cases "nodes ! i")
    case (Split f th l r)
    then obtain a b where ab: "tree_of d nodes l = Some a" "tree_of d nodes r = Some b" "t = Test f th a b"
        "i < length nodes"
      using Suc.prems(1) by (auto simp: tree_of_Split simp del: tree_of.simps)
    have fin: "finite (within d nodes k)" for k
      using within_range [of d nodes k] finite_subset by blast
    have "card (within (Suc d) nodes i) = Suc (card (within d nodes l \<union> within d nodes r))"
      using Split ab(4) tree_of_acyclic [OF Split Suc.prems] fin by simp
    moreover have "card (within d nodes l) \<le> card (within d nodes l \<union> within d nodes r)"
      "card (within d nodes r) \<le> card (within d nodes l \<union> within d nodes r)"
      using fin by (simp_all add: card_mono)
    ultimately show ?thesis using Suc.IH [OF ab(1)] Suc.IH [OF ab(2)] ab(3) by simp
  qed (use Suc.prems in \<open>auto split: if_splits\<close>)
qed simp

lemma tree_height_le: "tree_of d nodes i = Some t \<Longrightarrow> tree_height t \<le> length nodes"
  using tree_height_card [of d nodes i t] card_mono [OF finite_lessThan within_range, of d nodes i] by simp

section \<open>Validation accepts the arrays that denote trees\<close>

definition children_in :: "compiled_node list \<Rightarrow> bool" where
  "children_in nodes \<longleftrightarrow>
     list_all (\<lambda>n. case n of Leaf _ \<Rightarrow> True | Split _ _ l r \<Rightarrow> l < length nodes \<and> r < length nodes) nodes"

definition mark :: "nat set \<Rightarrow> bool list \<Rightarrow> bool list" where
  "mark S v = map (\<lambda>j. j \<in> S \<or> v ! j) [0..<length v]"

lemma length_mark [simp]: "length (mark S v) = length v"
  by (simp add: mark_def)

lemma nth_mark [simp]: "j < length v \<Longrightarrow> mark S v ! j = (j \<in> S \<or> v ! j)"
  by (simp add: mark_def)

lemma mark_mark: "mark A (mark B v) = mark (A \<union> B) v"
  by (rule nth_equalityI) auto

lemma mark_single: "i < length v \<Longrightarrow> mark {i} v = v[i := True]"
  by (rule nth_equalityI) (auto simp: nth_list_update)

lemma update_back: "\<not> stack ! i \<Longrightarrow> stack[i := False] = stack"
  by (metis (full_types) list_update_id)

lemma children_in_Split:
  "children_in nodes \<Longrightarrow> i < length nodes \<Longrightarrow> nodes ! i = Split f th l r \<Longrightarrow> l < length nodes \<and> r < length nodes"
  by (auto simp: children_in_def list_all_length dest!: spec [of _ i])

lemma validate_reachable_sound:
  assumes "validate_reachable_tree tree_idx i depth maxd nodes visited stack =
      (Ok (visited', stack') :: ('x hybrid_error, _) outcome)"
    and "length visited = length nodes" and "length stack = length nodes"
  shows "\<exists>t. tree_of (Suc maxd - depth) nodes i = Some t"
    and "visited' = mark (within (Suc maxd - depth) nodes i) visited" and "stack' = stack"
proof -
  have "(\<exists>t. tree_of (Suc maxd - depth) nodes i = Some t) \<and>
      visited' = mark (within (Suc maxd - depth) nodes i) visited \<and> stack' = stack"
    using assms
  proof (induction "Suc maxd - depth" arbitrary: i depth visited stack visited' stack')
    case 0
    then show ?case by (simp add: validate_reachable_tree.simps [of tree_idx i depth])
  next
    case (Suc d)
    note run = Suc.prems(1) [unfolded validate_reachable_tree.simps [of tree_idx i depth]]
    have ok: "depth \<le> maxd" "i < length nodes" "\<not> stack ! i"
      using run Suc.prems(2,3) by (auto split: if_splits)
    have eq: "Suc maxd - depth = Suc d" "d = Suc maxd - (depth + 1)" using Suc.hyps(2) by simp_all
    show ?case
    proof (cases "nodes ! i")
      case (Leaf v)
      then show ?thesis using run ok Suc.prems(2,3) by (simp add: eq(1) update_back mark_single)
    next
      case (Split f th l r)
      obtain v1 s1 v2 s2 where
        l: "validate_reachable_tree tree_idx l (depth + 1) maxd nodes (visited[i := True]) (stack[i := True]) =
          (Ok (v1, s1) :: ('x hybrid_error, _) outcome)"
        and r: "validate_reachable_tree tree_idx r (depth + 1) maxd nodes v1 s1 =
          (Ok (v2, s2) :: ('x hybrid_error, _) outcome)"
        and out: "visited' = v2" "stack' = s2[i := False]"
        using run ok Suc.prems(2,3) Split by (auto simp: outcome_simps)
      from Suc.hyps(1) [OF eq(2) l] Suc.prems(2,3)
      obtain a where a: "tree_of d nodes l = Some a" "v1 = mark (within d nodes l) (visited[i := True])" "s1 = stack[i := True]"
        by (auto simp: eq(2))
      from Suc.hyps(1) [OF eq(2) r] Suc.prems(2,3) a(2,3)
      obtain b where b: "tree_of d nodes r = Some b" "v2 = mark (within d nodes r) v1" "s2 = s1"
        by (auto simp: eq(2))
      show ?thesis
        using a b out ok Split Suc.prems(2)
        by (simp add: eq(1) update_back mark_mark flip: mark_single) (simp add: Un_ac)
    qed
  qed
  then show "\<exists>t. tree_of (Suc maxd - depth) nodes i = Some t"
    and "visited' = mark (within (Suc maxd - depth) nodes i) visited" and "stack' = stack" by simp_all
qed

lemma validate_reachable_complete:
  assumes "tree_of (Suc maxd - depth) nodes i = Some t" and "\<forall>j\<in>within (Suc maxd - depth) nodes i. \<not> stack ! j"
    and "length visited = length nodes" and "length stack = length nodes"
  shows "\<exists>v. validate_reachable_tree tree_idx i depth maxd nodes visited stack =
    (Ok (v, stack) :: ('x hybrid_error, _) outcome)"
  using assms
proof (induction "Suc maxd - depth" arbitrary: i depth visited stack t)
  case (Suc d)
  have eq: "Suc maxd - depth = Suc d" "d = Suc maxd - (depth + 1)" using Suc.hyps(2) by simp_all
  have i: "i < length nodes" "depth \<le> maxd" "\<not> stack ! i"
    using Suc.prems(1,2) eq by (auto split: if_splits compiled_node.splits)
  show ?case
  proof (cases "nodes ! i")
    case (Leaf v)
    then show ?thesis
      using i Suc.prems(3,4) by (simp add: validate_reachable_tree.simps [of tree_idx i depth] update_back)
  next
    case (Split f th l r)
    then obtain a b where ab: "tree_of d nodes l = Some a" "tree_of d nodes r = Some b"
      using Suc.prems(1) by (auto simp: eq(1) tree_of_Split simp del: tree_of.simps)
    have ac: "i \<notin> within d nodes l" "i \<notin> within d nodes r"
      using tree_of_acyclic [OF Split, of d t] Suc.prems(1) eq(1) by simp_all
    have free: "\<forall>j\<in>within d nodes l \<union> within d nodes r. \<not> stack[i := True] ! j"
    proof
      fix j
      assume j: "j \<in> within d nodes l \<union> within d nodes r"
      then have "j \<noteq> i" "\<not> stack ! j" using ac Suc.prems(2) Split i by (auto simp: eq(1))
      then show "\<not> stack[i := True] ! j" by simp
    qed
    obtain v1 where l: "validate_reachable_tree tree_idx l (depth + 1) maxd nodes (visited[i := True]) (stack[i := True]) =
        (Ok (v1, stack[i := True]) :: ('x hybrid_error, _) outcome)"
      using Suc.hyps(1) [OF eq(2), of l a "stack[i := True]" "visited[i := True]"] ab(1) free Suc.prems(3,4)
      by (auto simp: eq(2))
    then have "length v1 = length nodes"
      using validate_reachable_sound(2) [OF l] Suc.prems(3,4) by simp
    then obtain v2 where r: "validate_reachable_tree tree_idx r (depth + 1) maxd nodes v1 (stack[i := True]) =
        (Ok (v2, stack[i := True]) :: ('x hybrid_error, _) outcome)"
      using Suc.hyps(1) [OF eq(2), of r b "stack[i := True]" v1] ab(2) free Suc.prems(4)
      by (auto simp: eq(2))
    show ?thesis
      using l r i Split Suc.prems(3,4)
      by (simp add: validate_reachable_tree.simps [of tree_idx i depth] update_back)
  qed
qed simp

lemma validate_reachable_not_panic:
  assumes "i < length nodes" and "children_in nodes" and "length visited = length nodes" and "length stack = length nodes"
  shows "validate_reachable_tree tree_idx i depth maxd nodes visited stack \<noteq> (Panic :: ('x hybrid_error, _) outcome)"
  using assms
proof (induction "Suc maxd - depth" arbitrary: i depth visited stack)
  case 0
  then show ?case by (simp add: validate_reachable_tree.simps [of tree_idx i depth])
next
  case (Suc d)
  have eq: "d = Suc maxd - (depth + 1)" using Suc.hyps(2) by simp
  show ?case
  proof (cases "nodes ! i")
    case (Leaf v)
    then show ?thesis using Suc.prems by (simp add: validate_reachable_tree.simps [of tree_idx i depth])
  next
    case (Split f th l r)
    let ?run = "validate_reachable_tree tree_idx l (depth + 1) maxd nodes (visited[i := True]) (stack[i := True]) ::
      ('x hybrid_error, bool list \<times> bool list) outcome"
    have ch: "l < length nodes" "r < length nodes" using children_in_Split [OF Suc.prems(2,1) Split] by simp_all
    have l: "?run \<noteq> Panic" using Suc.hyps(1) [OF eq ch(1), of "visited[i := True]" "stack[i := True]"] Suc.prems by simp
    have r: "validate_reachable_tree tree_idx r (depth + 1) maxd nodes v1 s1 \<noteq> (Panic :: ('x hybrid_error, _) outcome)"
      if "?run = Ok (v1, s1)" for v1 s1
      using Suc.hyps(1) [OF eq ch(2), of v1 s1] validate_reachable_sound(2,3) [OF that] Suc.prems by simp
    show ?thesis
      using l r Suc.prems Split
      by (cases ?run) (auto simp: validate_reachable_tree.simps [of tree_idx i depth] obind_eq_Panic)
  qed
qed

text \<open>What the two passes over the nodes accept.\<close>

definition node_ok :: "nat \<Rightarrow> nat \<Rightarrow> ltr_tree_node \<Rightarrow> bool" where
  "node_ok node_count feature_count node =
     (case (leaf_value node, split_feature node, threshold node, left_child node, right_child node) of
        (Some v, None, None, None, None) \<Rightarrow> f32_is_finite v
      | (None, Some feature, Some th, Some l, Some r) \<Rightarrow>
          unat feature < feature_count \<and> f32_is_finite th \<and> unat l < node_count \<and> unat r < node_count
      | _ \<Rightarrow> False)"

definition node_of :: "ltr_tree_node \<Rightarrow> compiled_node" where
  "node_of node =
     (case leaf_value node of
        Some v \<Rightarrow> Leaf v
      | None \<Rightarrow> Split (unat (the (split_feature node))) (the (threshold node)) (unat (the (left_child node)))
          (unat (the (right_child node))))"

lemma compile_node_Ok:
  "compile_node tree_idx k node n fc = Ok c \<longleftrightarrow> node_ok n fc node \<and> c = node_of node"
  by (auto simp: compile_node_def node_ok_def node_of_def Let_def not_le split: option.splits)

lemma compile_node_not_panic: "compile_node tree_idx k node n fc \<noteq> Panic"
  by (auto simp: compile_node_def Let_def split: option.splits)

lemma compile_nodes_Ok:
  "compile_nodes tree_idx k nodes n fc = Ok cs \<longleftrightarrow> list_all (node_ok n fc) nodes \<and> cs = map node_of nodes"
  by (induction nodes arbitrary: k cs) (auto simp: obind_eq_Ok compile_node_Ok)

lemma compile_nodes_not_panic: "compile_nodes tree_idx k nodes n fc \<noteq> Panic"
  by (induction nodes arbitrary: k) (auto simp: obind_eq_Panic compile_node_not_panic)

lemma node_ok_cases:
  assumes "node_ok n fc node"
  obtains v where "node_of node = Leaf v" "f32_is_finite v"
  | f th l r where "node_of node = Split f th l r" "f < fc" "f32_is_finite th" "l < n" "r < n"
  using assms by (auto simp: node_ok_def node_of_def split: option.splits)

lemma nodes_ok_children:
  assumes "list_all (node_ok (length nodes) fc) nodes"
  shows "children_in (map node_of nodes)"
proof -
  have "case node_of n of Leaf _ \<Rightarrow> True | Split _ _ l r \<Rightarrow> l < length nodes \<and> r < length nodes"
    if "n \<in> set nodes" for n
  proof (rule node_ok_cases [of "length nodes" fc n])
    show "node_ok (length nodes) fc n" using that assms by (simp add: list_all_iff)
  qed simp_all
  then show ?thesis unfolding children_in_def list_all_iff length_map by simp
qed

lemma first_false_None: "first_false i bs = None \<longleftrightarrow> (\<forall>j<length bs. bs ! j)"
  by (induction i bs rule: first_false.induct) (auto simp: All_less_Suc2 nth_Cons split: nat.splits)

lemma compile_tree_Ok:
  fixes tree :: ltr_tree
  defines "nodes \<equiv> map node_of (lt_nodes tree)"
  shows "compile_tree tree_idx tree fc options = (Ok c :: ('x hybrid_error, _) outcome) \<longleftrightarrow>
      lt_nodes tree \<noteq> [] \<and> length (lt_nodes tree) \<le> max_nodes_per_tree options \<and>
      list_all (node_ok (length (lt_nodes tree)) fc) (lt_nodes tree) \<and>
      (\<exists>t. tree_of (max_depth options) nodes 0 = Some t) \<and>
      within (max_depth options) nodes 0 = {..<length nodes} \<and> c = \<lparr>ct_nodes = nodes\<rparr>"
    and "compile_tree tree_idx tree fc options \<noteq> (Panic :: ('x hybrid_error, _) outcome)"
proof -
  let ?none = "replicate (length nodes) False"
  let ?D = "max_depth options"
  define R where "R = (validate_reachable_tree tree_idx 0 1 ?D nodes ?none ?none ::
    ('x hybrid_error, bool list \<times> bool list) outcome)"
  define fits where "fits \<longleftrightarrow> lt_nodes tree \<noteq> [] \<and> length (lt_nodes tree) \<le> max_nodes_per_tree options \<and>
      list_all (node_ok (length (lt_nodes tree)) fc) (lt_nodes tree)"
  have n: "length nodes = length (lt_nodes tree)" by (simp add: nodes_def)
  have run: "R = Ok (v, s) \<longleftrightarrow> (\<exists>t. tree_of ?D nodes 0 = Some t) \<and> v = mark (within ?D nodes 0) ?none \<and> s = ?none"
    for v s
  proof
    assume "R = Ok (v, s)"
    then show "(\<exists>t. tree_of ?D nodes 0 = Some t) \<and> v = mark (within ?D nodes 0) ?none \<and> s = ?none"
      using validate_reachable_sound [where 'x = 'x, of tree_idx 0 1 ?D nodes ?none ?none v s] by (simp add: R_def)
  next
    assume rhs: "(\<exists>t. tree_of ?D nodes 0 = Some t) \<and> v = mark (within ?D nodes 0) ?none \<and> s = ?none"
    then obtain t where t: "tree_of ?D nodes 0 = Some t" by blast
    have "\<forall>j\<in>within (Suc ?D - 1) nodes 0. \<not> ?none ! j"
      using within_range [of ?D nodes 0] by auto
    then obtain v' where v': "R = Ok (v', ?none)"
      using validate_reachable_complete [where 'x = 'x, of ?D 1 nodes 0 t ?none ?none tree_idx] t
      by (auto simp: R_def)
    then have "v' = v"
      using validate_reachable_sound(2) [OF v' [unfolded R_def]] rhs by simp
    then show "R = Ok (v, s)" using v' rhs by simp
  qed
  have seen: "first_false 0 (mark (within ?D nodes 0) ?none) = None \<longleftrightarrow> within ?D nodes 0 = {..<length nodes}"
    using within_range [of ?D nodes 0] by (auto simp: first_false_None)
  have body: "compile_tree tree_idx tree fc options = obind R (\<lambda>(visited, stack).
      case first_false 0 visited of
        Some u \<Rightarrow> Err (LtrError (''LTR tree '' @ show_nat tree_idx @ '' has unreachable node '' @ show_nat u))
      | None \<Rightarrow> Ok \<lparr>ct_nodes = nodes\<rparr>)" if fits
  proof -
    have "compile_nodes tree_idx 0 (lt_nodes tree) (length (lt_nodes tree)) fc = (Ok nodes :: ('x hybrid_error, _) outcome)"
      using that by (simp add: compile_nodes_Ok fits_def nodes_def)
    then show ?thesis using that unfolding compile_tree_def R_def fits_def by simp
  qed
  have misfit: "compile_tree tree_idx tree fc options \<noteq> (Ok c :: ('x hybrid_error, _) outcome)"
    "compile_tree tree_idx tree fc options \<noteq> (Panic :: ('x hybrid_error, _) outcome)" if "\<not> fits" for c
    using that
    by (auto simp: compile_tree_def fits_def obind_eq_Ok obind_eq_Panic compile_nodes_Ok compile_nodes_not_panic)
  show "compile_tree tree_idx tree fc options = (Ok c :: ('x hybrid_error, _) outcome) \<longleftrightarrow>
      lt_nodes tree \<noteq> [] \<and> length (lt_nodes tree) \<le> max_nodes_per_tree options \<and>
      list_all (node_ok (length (lt_nodes tree)) fc) (lt_nodes tree) \<and>
      (\<exists>t. tree_of ?D nodes 0 = Some t) \<and> within ?D nodes 0 = {..<length nodes} \<and> c = \<lparr>ct_nodes = nodes\<rparr>"
  proof (cases fits)
    case True
    have "compile_tree tree_idx tree fc options = (Ok c :: ('x hybrid_error, _) outcome) \<longleftrightarrow>
        (\<exists>t. tree_of ?D nodes 0 = Some t) \<and> within ?D nodes 0 = {..<length nodes} \<and> c = \<lparr>ct_nodes = nodes\<rparr>"
      unfolding body [OF True] seen [symmetric] by (auto simp: obind_eq_Ok run split: option.splits)
    then show ?thesis using True unfolding fits_def by blast
  next
    case False
    then show ?thesis using misfit(1) unfolding fits_def by blast
  qed
  have "R \<noteq> Panic" if fits
    using that nodes_ok_children [of "lt_nodes tree" fc] n
    unfolding R_def by (intro validate_reachable_not_panic) (auto simp: nodes_def fits_def)
  then show "compile_tree tree_idx tree fc options \<noteq> (Panic :: ('x hybrid_error, _) outcome)"
    using misfit(2) body by (cases fits) (auto simp: obind_eq_Panic split: option.splits)
qed

section \<open>Scoring evaluates the trees\<close>

definition tree_at :: "compiled_tree \<Rightarrow> decision_tree option" where
  "tree_at c = tree_of (length (ct_nodes c)) (ct_nodes c) 0"

definition features_below :: "nat \<Rightarrow> compiled_node list \<Rightarrow> bool" where
  "features_below n nodes \<longleftrightarrow>
     list_all (\<lambda>node. case node of Leaf _ \<Rightarrow> True | Split f _ _ _ \<Rightarrow> f < n) nodes"

lemma tree_of_height: "tree_of d nodes i = Some t \<Longrightarrow> tree_of (tree_height t) nodes i = Some t"
proof (induction d arbitrary: i t)
  case (Suc d)
  show ?case
  proof (cases "nodes ! i")
    case (Split f th l r)
    then obtain a b where ab: "tree_of d nodes l = Some a" "tree_of d nodes r = Some b" "t = Test f th a b"
        "i < length nodes"
      using Suc.prems(1) by (auto simp: tree_of_Split simp del: tree_of.simps)
    have "tree_of (max (tree_height a) (tree_height b)) nodes l = Some a"
      "tree_of (max (tree_height a) (tree_height b)) nodes r = Some b"
      using tree_of_mono [OF Suc.IH [OF ab(1)]] tree_of_mono [OF Suc.IH [OF ab(2)]] by simp_all
    then show ?thesis using ab Split by simp
  qed (use Suc.prems in \<open>auto split: if_splits\<close>)
qed simp

lemma tree_of_at: "tree_of d (ct_nodes c) 0 = Some t \<Longrightarrow> tree_at c = Some t"
  unfolding tree_at_def by (rule tree_of_mono [OF tree_of_height tree_height_le])

lemma features_below_nth:
  "features_below n nodes \<Longrightarrow> i < length nodes \<Longrightarrow> nodes ! i = Split f th l r \<Longrightarrow> f < n"
  by (auto simp: features_below_def list_all_length dest!: spec [of _ i])

lemma walk_tree_value:
  assumes "tree_of d nodes i = Some t" and "tree_height t \<le> n" and "features_below (length fs) nodes"
    and "list_all f32_is_finite fs"
  shows "walk_tree n nodes fs i = (Ok (tree_value t fs) :: ('x hybrid_error, f32) outcome)"
  using assms(1,2)
proof (induction d arbitrary: i t n)
  case (Suc d)
  then obtain n' where n: "n = Suc n'" by (cases n; cases t) auto
  show ?case
  proof (cases "nodes ! i")
    case (Split f th l r)
    then obtain a b where ab: "tree_of d nodes l = Some a" "tree_of d nodes r = Some b" "t = Test f th a b"
        "i < length nodes"
      using Suc.prems(1) by (auto simp: tree_of_Split simp del: tree_of.simps)
    have f: "f < length fs" by (rule features_below_nth [OF assms(3) ab(4) Split])
    then have "f32_is_finite (fs ! f)" using assms(4) by (simp add: list_all_length)
    moreover have "tree_height a \<le> n'" "tree_height b \<le> n'" using Suc.prems(2) ab(3) n by simp_all
    ultimately show ?thesis
      using Suc.IH [OF ab(1)] Suc.IH [OF ab(2)] ab f n Split by (simp add: Let_def)
  qed (use Suc.prems n in \<open>auto split: if_splits\<close>)
qed simp

lemma score_tree_value:
  assumes "tree_at c = Some t" and "features_below (length fs) (ct_nodes c)" and "list_all f32_is_finite fs"
  shows "score_tree c fs = (Ok (tree_value t fs) :: ('x hybrid_error, f32) outcome)"
  using walk_tree_value [where 'x = 'x, OF assms(1) [unfolded tree_at_def] _ assms(2,3)] tree_height_le [OF assms(1) [unfolded tree_at_def]]
  by (simp add: score_tree_def del: walk_tree.simps)

text \<open>What a compiled model computes.\<close>

definition reranker_ok :: "'v tree_ensemble_reranker \<Rightarrow> bool" where
  "reranker_ok m \<longleftrightarrow>
     list_all (\<lambda>c. tree_at c \<noteq> None \<and> features_below (length (te_feature_names m)) (ct_nodes c)) (te_trees m)"

definition ensemble_value :: "'v tree_ensemble_reranker \<Rightarrow> f32 list \<Rightarrow> f32" where
  "ensemble_value m fs =
     foldl (\<lambda>acc c. f32_add acc (f32_mul (mi_learning_rate (te_info m)) (tree_value (the (tree_at c)) fs)))
       (mi_base_score (te_info m)) (te_trees m)"

definition te_score :: "'v tree_ensemble_reranker \<Rightarrow> f32 list \<Rightarrow> f32 option" where
  "te_score m fs =
     (if length fs = length (te_feature_names m) \<and> list_all f32_is_finite fs \<and> f32_is_finite (ensemble_value m fs)
      then Some (ensemble_value m fs) else None)"

lemma check_feature_vector_Ok:
  "check_feature_vector idx names fs = Ok () \<longleftrightarrow> list_all f32_is_finite fs"
  by (induction idx names fs rule: check_feature_vector.induct) auto

lemma check_feature_vector_not_panic:
  "idx + length fs \<le> length names \<Longrightarrow> check_feature_vector idx names fs \<noteq> Panic"
  by (induction idx names fs rule: check_feature_vector.induct) auto

lemma add_tree_scores_value:
  assumes "list_all (\<lambda>c. tree_at c \<noteq> None \<and> features_below (length fs) (ct_nodes c)) trees"
    and "list_all f32_is_finite fs"
  shows "add_tree_scores rate fs trees acc =
    (Ok (foldl (\<lambda>acc c. f32_add acc (f32_mul rate (tree_value (the (tree_at c)) fs))) acc trees) ::
      ('x hybrid_error, f32) outcome)"
  using assms(1)
proof (induction trees arbitrary: acc)
  case (Cons c trees)
  then obtain t where "tree_at c = Some t" by auto
  then show ?case using Cons score_tree_value [where 'x = 'x, of c t fs] assms(2) by simp
qed simp

lemma score_features_Ok:
  assumes "reranker_ok m"
  shows "score_features m fs = (Ok s :: ('x hybrid_error, f32) outcome) \<longleftrightarrow> te_score m fs = Some s"
    and "score_features m fs \<noteq> (Panic :: ('x hybrid_error, f32) outcome)"
proof -
  have "score_features m fs = (Ok s :: ('x hybrid_error, f32) outcome) \<longleftrightarrow> te_score m fs = Some s"
    if "length fs = length (te_feature_names m)" "list_all f32_is_finite fs"
    using that assms
    by (auto simp: score_features_def te_score_def check_feature_vector_Ok [THEN iffD2] reranker_ok_def
        ensemble_value_def add_tree_scores_value)
  moreover have "score_features m fs \<noteq> (Ok s :: ('x hybrid_error, f32) outcome)"
    if "\<not> (length fs = length (te_feature_names m) \<and> list_all f32_is_finite fs)"
    using that by (auto simp: score_features_def obind_eq_Ok check_feature_vector_Ok)
  ultimately show "score_features m fs = (Ok s :: ('x hybrid_error, f32) outcome) \<longleftrightarrow> te_score m fs = Some s"
    by (cases "length fs = length (te_feature_names m) \<and> list_all f32_is_finite fs") (auto simp: te_score_def)
  show "score_features m fs \<noteq> (Panic :: ('x hybrid_error, f32) outcome)"
    using assms
    by (auto simp: score_features_def obind_eq_Panic check_feature_vector_Ok check_feature_vector_not_panic
        reranker_ok_def add_tree_scores_value)
qed

section \<open>The reranker as an implementation of the interface\<close>

lemma rerank_query_Ok:
  assumes "reranker_ok m" and "lfb_rows_for_query features q = Some l"
  shows "rerank_query m features config q = (Ok rows :: ('x hybrid_error, _) outcome) \<longleftrightarrow>
      list_all (\<lambda>c. te_score m (lc_features c) \<noteq> None) l \<and>
      rows = rank_rows config (map (scored_candidate (te_score m)) l)"
    and "rerank_query m features config q \<noteq> (Panic :: ('x hybrid_error, _) outcome)"
proof -
  define f :: "ltr_candidate_features \<Rightarrow> ('x hybrid_error, scored_row) outcome" where
    "f c = obind (score_features m (lc_features c)) (\<lambda>s. Ok \<lparr>row_id = lc_row_id c, score = s\<rparr>)" for c
  define g :: "ltr_candidate_features \<Rightarrow> scored_row option" where "g c = map_option (\<lambda>s. \<lparr>row_id = lc_row_id c, score = s\<rparr>) (te_score m (lc_features c))" for c
  have fg: "f c = Ok r \<longleftrightarrow> g c = Some r" "f c \<noteq> Panic" for c r
    using score_features_Ok [where 'x = 'x, OF assms(1)] by (auto simp: f_def g_def obind_eq_Ok obind_eq_Panic)
  have eq: "rerank_query m features config q = obind (traverse f l) (\<lambda>rows. Ok (rank_rows config rows))"
    by (simp add: rerank_query_def assms(2) unwrap_or_empty_def f_def [abs_def] rank_rows_def)
  have run: "traverse f l = Ok rs \<longleftrightarrow> (\<forall>c\<in>set l. g c \<noteq> None) \<and> rs = map (the \<circ> g) l" "traverse f l \<noteq> Panic" for rs
    by (rule traverse_option [OF fg])+
  have scored: "map (the \<circ> g) l = map (scored_candidate (te_score m)) l" if "\<forall>c\<in>set l. g c \<noteq> None"
    using that by (auto simp: g_def scored_candidate_def)
  show "rerank_query m features config q = (Ok rows :: ('x hybrid_error, _) outcome) \<longleftrightarrow>
      list_all (\<lambda>c. te_score m (lc_features c) \<noteq> None) l \<and>
      rows = rank_rows config (map (scored_candidate (te_score m)) l)"
  proof -
    have known: "(\<forall>c\<in>set l. g c \<noteq> None) \<longleftrightarrow> list_all (\<lambda>c. te_score m (lc_features c) \<noteq> None) l"
      by (simp add: g_def list_all_iff)
    show ?thesis unfolding eq obind_eq_Ok run(1) known [symmetric] using scored by (metis outcome.inject(1))
  qed
  show "rerank_query m features config q \<noteq> (Panic :: ('x hybrid_error, _) outcome)"
    unfolding eq obind_eq_Panic using run(2) by simp
qed

lemma rerank_batch_lists:
  assumes "reranker_ok m" and "list_all (distinct \<circ> map lc_row_id) L"
  shows "rerank_batch show_f32 m (feature_batch_of (te_feature_names m) L) config =
        (Ok b :: ('x hybrid_error, _) outcome) \<longleftrightarrow>
      scores_known (te_score m) L \<and> b = reranked config (te_score m) L"
    and "rerank_batch show_f32 m (feature_batch_of (te_feature_names m) L) config \<noteq>
      (Panic :: ('x hybrid_error, _) outcome)"
proof -
  let ?F = "feature_batch_of (te_feature_names m) L"
  define f where "f = (rerank_query m ?F config :: nat \<Rightarrow> ('x hybrid_error, _) outcome)"
  define ranked where "ranked l = rank_rows config (map (scored_candidate (te_score m)) l)" for l
  define g where "g q = (if list_all (\<lambda>c. te_score m (lc_features c) \<noteq> None) (L ! q) then Some (ranked (L ! q)) else None)" for q
  have fg: "f q = Ok rows \<longleftrightarrow> g q = Some rows" "f q \<noteq> Panic" if "q \<in> set [0..<length L]" for q rows
    using that rerank_query_Ok [where 'x = 'x, OF assms(1), of ?F q "L ! q" config]
    by (auto simp: f_def g_def ranked_def)
  have eq: "rerank_batch show_f32 m ?F config = obind (traverse f [0..<length L]) (\<lambda>R.
      from_sorted_offsets_hits show_f32 (csr_offsets R) (concat R))"
    by (simp add: rerank_batch_def extend_csr_eq obind_assoc f_def) (simp add: feature_batch_of_def)
  have known: "(\<forall>q\<in>set [0..<length L]. g q \<noteq> None) \<longleftrightarrow> scores_known (te_score m) L"
    by (auto simp: g_def scores_known_def list_all_length)
  have lists: "map (the \<circ> g) [0..<length L] = map ranked L" if "scores_known (te_score m) L"
    using that by (intro nth_equalityI) (simp_all add: g_def scores_known_def list_all_length)
  have run: "traverse f [0..<length L] = Ok R \<longleftrightarrow> scores_known (te_score m) L \<and> R = map ranked L" for R
  proof -
    have "traverse f [0..<length L] = Ok R \<longleftrightarrow>
        (\<forall>q\<in>set [0..<length L]. g q \<noteq> None) \<and> R = map (the \<circ> g) [0..<length L]"
      by (rule traverse_option(1) [OF fg])
    then show ?thesis unfolding known using lists by auto
  qed
  have canon: "batch_ok (reranked config (te_score m) L)" if "scores_known (te_score m) L"
    using assms(2) that by (rule reranked_canonical [rotated]) (simp add: te_score_def split: if_splits)
  have batch: "from_sorted_offsets_hits show_f32 (csr_offsets (map ranked L)) (concat (map ranked L)) =
      (Ok (reranked config (te_score m) L) :: ('x hybrid_error, _) outcome)" if "scores_known (te_score m) L"
    using canon [OF that] valid_csr_offsets [of "map ranked L"]
    by (simp add: from_sorted_Ok reranked_def lists_batch_def ranked_def [abs_def] batch_ok_def)
  show "rerank_batch show_f32 m ?F config = (Ok b :: ('x hybrid_error, _) outcome) \<longleftrightarrow>
      scores_known (te_score m) L \<and> b = reranked config (te_score m) L"
    unfolding eq obind_eq_Ok run using batch by auto
  have "traverse f [0..<length L] \<noteq> Panic" by (rule traverse_option(2) [OF fg])
  then show "rerank_batch show_f32 m ?F config \<noteq> (Panic :: ('x hybrid_error, _) outcome)"
    unfolding eq obind_eq_Panic run using batch by auto
qed

interpretation tree_ensemble: ltr_reranker reranker_ok "\<lambda>m. mi_feature_schema (te_info m)" te_score "rerank_batch show_f32"
  for show_f32
proof unfold_locales
  fix m :: "'v tree_ensemble_reranker" and fs s
  assume "te_score m fs = Some s"
  then show "f32_is_finite s" by (auto simp: te_score_def split: if_splits)
qed (simp_all add: rerank_batch_lists flip: te_feature_names_def)

section \<open>Loaded models\<close>

lemma compile_tree_reranker:
  assumes "compile_tree idx tree fc options = (Ok c :: ('x hybrid_error, _) outcome)"
  shows "\<exists>t. tree_at c = Some t \<and> tree_height t \<le> max_depth options" and "features_below fc (ct_nodes c)"
proof -
  obtain t where t: "tree_of (max_depth options) (ct_nodes c) 0 = Some t"
    and nodes: "list_all (node_ok (length (lt_nodes tree)) fc) (lt_nodes tree)" "ct_nodes c = map node_of (lt_nodes tree)"
    using assms by (auto simp: compile_tree_Ok)
  have "tree_height t \<le> d" if "tree_of d ns i = Some t" for d ns i t
    using that
  proof (induction d arbitrary: i t)
    case (Suc d)
    then show ?case by (auto split: if_splits compiled_node.splits option.splits)
  qed simp
  then show "\<exists>t. tree_at c = Some t \<and> tree_height t \<le> max_depth options" using t tree_of_at by blast
  have "case node_of n of Leaf _ \<Rightarrow> True | Split f _ _ _ \<Rightarrow> f < fc" if "n \<in> set (lt_nodes tree)" for n
  proof (rule node_ok_cases [of "length (lt_nodes tree)" fc n])
    show "node_ok (length (lt_nodes tree)) fc n" using that nodes(1) by (simp add: list_all_iff)
  qed simp_all
  then show "features_below fc (ct_nodes c)" by (simp add: features_below_def nodes(2) list_all_iff)
qed

lemma compile_trees_Ok:
  "compile_trees idx trees fc options = (Ok cs :: ('x hybrid_error, _) outcome) \<Longrightarrow> c \<in> set cs \<Longrightarrow>
     \<exists>i tree. compile_tree i tree fc options = (Ok c :: ('x hybrid_error, _) outcome)"
proof (induction trees arbitrary: idx cs)
  case (Cons tree trees)
  obtain c' cs' where cs: "compile_tree idx tree fc options = (Ok c' :: ('x hybrid_error, _) outcome)"
      "compile_trees (idx + 1) trees fc options = (Ok cs' :: ('x hybrid_error, _) outcome)" "cs = c' # cs'"
    using Cons.prems(1) by (auto simp: obind_eq_Ok)
  show ?case
  proof (cases "c = c'")
    case False
    then show ?thesis using Cons.IH [OF cs(2)] Cons.prems(2) cs(3) by simp
  qed (use cs in blast)
qed simp

lemma from_record_Ok:
  assumes "from_record_with_options show_debug rec options = (Ok m :: ('x hybrid_error, _) outcome)"
  shows "te_info m = info_of rec" and "reranker_ok m"
    and "c \<in> set (te_trees m) \<Longrightarrow> \<exists>t. tree_at c = Some t \<and> tree_height t \<le> max_depth options"
proof -
  obtain cs where cs: "compile_trees 0 (tr_trees rec) (length (fs_feature_names (tr_feature_schema rec))) options =
      (Ok cs :: ('x hybrid_error, _) outcome)" and m: "m = \<lparr>te_info = info_of rec, te_trees = cs\<rparr>"
    using assms by (auto simp: from_record_with_options_def obind_eq_Ok split: if_splits)
  show "te_info m = info_of rec" by (simp add: m)
  have tree: "(\<exists>t. tree_at c = Some t \<and> tree_height t \<le> max_depth options) \<and>
      features_below (length (te_feature_names m)) (ct_nodes c)" if "c \<in> set cs" for c
    using compile_trees_Ok [OF cs that] compile_tree_reranker by (fastforce simp: te_feature_names_def m info_of_def)
  then show "reranker_ok m" by (auto simp: reranker_ok_def list_all_iff m)
  show "c \<in> set (te_trees m) \<Longrightarrow> \<exists>t. tree_at c = Some t \<and> tree_height t \<le> max_depth options"
    using tree by (simp add: m)
qed

lemma rrf_rows_distinct:
  assumes "batch_ok dense" and "batch_ok sparse" and "\<And>q m. mset (shuffle q m) = mset m"
    and "rrf_fuse_batch shuffle dense sparse config = (Ok (li_fused inputs) :: ('x hybrid_error, fused_batch) outcome)"
  shows "rows_distinct inputs"
proof -
  have "distinct (map fused_row_id (fused_rows inputs q))" if "q < fb_query_count (li_fused inputs)" for q
    using rrf_query [OF assms] that
    by (auto simp: fused_rows_def unwrap_or_empty_def take_map [symmetric] dest!: spec [of _ q])
  then show ?thesis by (simp add: rows_distinct_def list_all_iff)
qed

section \<open>Arrays that share nodes\<close>

fun tree_leaves :: "decision_tree \<Rightarrow> nat" where
  "tree_leaves (Value v) = 1"
| "tree_leaves (Test f th l r) = tree_leaves l + tree_leaves r"

definition ex_leaf :: "f32 \<Rightarrow> ltr_tree_node" where
  "ex_leaf v = \<lparr>split_feature = None, threshold = None, default_left = False, left_child = None,
     right_child = None, leaf_value = Some v\<rparr>"

definition chain_nodes :: "nat \<Rightarrow> ltr_tree_node list" where
  "chain_nodes n =
     map (\<lambda>i. \<lparr>split_feature = Some 0, threshold = Some f32_zero, default_left = False,
       left_child = Some (of_nat (Suc i)), right_child = Some (of_nat (Suc i)), leaf_value = None\<rparr>) [0..<n] @
     [ex_leaf f32_zero]"

lemma f32_finite_simps [simp]: "f32_is_finite f32_one" "f32_is_finite f32_zero"
  by (simp_all add: float_eval)

lemma unat_below: "i < 2 ^ 32 \<Longrightarrow> unat (of_nat i :: 32 word) = i"
  by (simp add: unat_of_nat)

lemma chain_node_ok:
  assumes "n < 2 ^ 32" and "0 < fc"
  shows "list_all (node_ok (Suc n) fc) (chain_nodes n)"
  using assms by (auto simp: list_all_iff chain_nodes_def node_ok_def ex_leaf_def unat_below simp del: of_nat_Suc)

lemma chain_nth:
  assumes "n < 2 ^ 32" and "i \<le> n"
  shows "map node_of (chain_nodes n) ! i = (if i = n then Leaf f32_zero else Split 0 f32_zero (Suc i) (Suc i))"
  using assms
  by (auto simp: chain_nodes_def nth_append node_of_def ex_leaf_def unat_below simp del: of_nat_Suc)

lemma chain_denotes:
  assumes "n < 2 ^ 32"
  shows "\<exists>t. tree_of (Suc n) (map node_of (chain_nodes n)) 0 = Some t \<and> tree_leaves t = 2 ^ n \<and>
    within (Suc n) (map node_of (chain_nodes n)) 0 = {..<length (map node_of (chain_nodes n))}"
proof -
  have len: "length (map node_of (chain_nodes n)) = Suc n" by (simp add: chain_nodes_def)
  have "\<exists>t. tree_of (Suc k) (map node_of (chain_nodes n)) (n - k) = Some t \<and> tree_leaves t = 2 ^ k \<and>
      within (Suc k) (map node_of (chain_nodes n)) (n - k) = {n - k..n}" if "k \<le> n" for k
    using that
  proof (induction k)
    case 0
    then show ?case using chain_nth [OF assms, of n] len by simp
  next
    case (Suc k)
    then obtain t where t: "tree_of (Suc k) (map node_of (chain_nodes n)) (n - k) = Some t" "tree_leaves t = 2 ^ k"
      "within (Suc k) (map node_of (chain_nodes n)) (n - k) = {n - k..n}" by auto
    have next_node: "Suc (n - Suc k) = n - k" using Suc.prems by simp
    have node: "map node_of (chain_nodes n) ! (n - Suc k) = Split 0 f32_zero (n - k) (n - k)"
      using chain_nth [OF assms, of "n - Suc k"] Suc.prems next_node by simp
    have "insert (n - Suc k) {n - k..n} = {n - Suc k..n}" using next_node by auto
    then show ?case using node t len Suc.prems by (simp del: length_map list.map nth_map)
  qed
  from this [of n] show ?thesis unfolding len by (simp add: lessThan_Suc_atMost atMost_atLeast0)
qed

section \<open>An example\<close>

definition ex_tree :: ltr_tree where
  "ex_tree = \<lparr>lt_nodes = [\<lparr>split_feature = Some 1, threshold = Some f32_one, default_left = True,
     left_child = Some 1, right_child = Some 2, leaf_value = None\<rparr>, ex_leaf f32_zero, ex_leaf f32_one]\<rparr>"

definition ex_record :: "unit ltr_tree_ensemble_record" where
  "ex_record = \<lparr>tr_schema_version = LTR_MODEL_SCHEMA_V1, tr_model_id = ''m'',
     tr_model_family = ''xgboost_gbtree'', tr_training_objective = ''rank:pairwise'', tr_booster = ''gbtree'',
     tr_base_score = f32_zero, tr_learning_rate = f32_one, tr_feature_schema = ex_schema,
     tr_training_provenance = [], tr_trees = [ex_tree]\<rparr>"

definition ex_compiled :: compiled_tree where
  "ex_compiled = \<lparr>ct_nodes = [Split 1 f32_one 1 2, Leaf f32_zero, Leaf f32_one]\<rparr>"

definition ex_model :: "unit tree_ensemble_reranker" where
  "ex_model = \<lparr>te_info = info_of ex_record, te_trees = [ex_compiled]\<rparr>"

lemma ex_nodes: "map node_of (lt_nodes ex_tree) = ct_nodes ex_compiled"
  by (simp add: ex_tree_def ex_compiled_def node_of_def ex_leaf_def)

lemma ex_denotes:
  "tree_of (Suc (Suc n)) (ct_nodes ex_compiled) 0 = Some (Test 1 f32_one (Value f32_zero) (Value f32_one))"
  "within (Suc (Suc n)) (ct_nodes ex_compiled) 0 = {..<length (ct_nodes ex_compiled)}"
  by (auto simp: ex_compiled_def)

lemma ex_depth: "max_depth ltr_load_options_default = Suc (Suc 30)"
  by (simp add: ltr_load_options_default_def)

lemma ex_compile:
  "compile_tree 0 ex_tree 3 ltr_load_options_default = (Ok ex_compiled :: ('x hybrid_error, _) outcome)"
  unfolding compile_tree_Ok(1) ex_nodes ex_depth ex_denotes
  by (simp add: ex_tree_def ex_leaf_def node_ok_def ltr_load_options_default_def)

lemma ex_from_record:
  "from_record_with_options id ex_record ltr_load_options_default = (Ok ex_model :: (unit hybrid_error, _) outcome)"
proof -
  have "validate_feature_schema id ex_schema ltr_load_options_default = (Ok () :: (unit hybrid_error, _) outcome)"
    by (simp add: validate_feature_schema_def ex_schema_def ltr_load_options_default_def LTR_FEATURE_SCHEMA_V1_def
        DOC_CAT_MATCH_def trim_plain)
  moreover have "validate_model_header id ex_record = (Ok () :: (unit hybrid_error, _) outcome)"
    by (simp add: validate_model_header_def ex_record_def trim_plain)
  moreover have "validate_options ltr_load_options_default = (Ok () :: (unit hybrid_error, _) outcome)"
    by (simp add: validate_options_def ltr_load_options_default_def u16_max_def)
  moreover have "tr_feature_schema ex_record = ex_schema" "tr_trees ex_record = [ex_tree]"
      "f32_is_finite (tr_base_score ex_record)" "f32_is_finite (tr_learning_rate ex_record)"
    by (simp_all add: ex_record_def)
  moreover have "length (fs_feature_names ex_schema) = 3" by (simp add: ex_schema_def)
  moreover have "\<not> max_trees ltr_load_options_default < 1" by (simp add: ltr_load_options_default_def)
  ultimately show ?thesis
    using ex_compile [where 'x = unit] by (simp add: from_record_with_options_def ex_model_def)
qed

lemma ex_names: "te_feature_names ex_model = fs_feature_names ex_schema" "te_trees ex_model = [ex_compiled]"
  by (simp_all add: te_feature_names_def ex_model_def info_of_def ex_record_def)

lemma ex_ensemble: "ensemble_value ex_model [x, f32_one, y] = f32_one"
proof -
  have "tree_at ex_compiled = Some (Test 1 f32_one (Value f32_zero) (Value f32_one))"
    by (rule tree_of_at [OF ex_denotes(1)])
  moreover have "\<not> f32_lt f32_one f32_one" by (simp add: f32_lt_def)
  moreover have "f32_mul f32_one f32_one = f32_one" "f32_add f32_zero f32_one = f32_one"
    by (simp_all add: float_eval cong: let_weak_cong)
  ultimately show ?thesis by (simp add: ensemble_value_def ex_model_def info_of_def ex_record_def)
qed

section \<open>Properties\<close>

text \<open>
  C18. Compiling a tree never panics, and accepts a node array exactly when it is not empty and not over
  the limit, every node is a finite leaf or a complete split on a feature of the schema with a finite
  threshold and children in range, and the array unfolds from node 0 to a tree on whose paths every
  node lies and none of whose paths has more than \<open>max_depth\<close> nodes.
\<close>

theorem compile_tree_exact:
  "(compile_tree tree_idx tree fc options = (Ok c :: ('x hybrid_error, _) outcome) \<longleftrightarrow>
      lt_nodes tree \<noteq> [] \<and> length (lt_nodes tree) \<le> max_nodes_per_tree options \<and>
      list_all (node_ok (length (lt_nodes tree)) fc) (lt_nodes tree) \<and>
      (\<exists>t. tree_of (max_depth options) (map node_of (lt_nodes tree)) 0 = Some t) \<and>
      within (max_depth options) (map node_of (lt_nodes tree)) 0 = {..<length (map node_of (lt_nodes tree))} \<and>
      c = \<lparr>ct_nodes = map node_of (lt_nodes tree)\<rparr>) \<and>
    compile_tree tree_idx tree fc options \<noteq> (Panic :: ('x hybrid_error, _) outcome)"
  for tree :: ltr_tree
  by (rule conjI, rule compile_tree_Ok(1), rule compile_tree_Ok(2))

theorem compile_tree_exact_witness:
  "compile_tree 0 ex_tree 3 ltr_load_options_default = (Ok ex_compiled :: (unit hybrid_error, _) outcome)"
  unfolding compile_tree_exact [THEN conjunct1] ex_nodes ex_depth ex_denotes
  by (simp add: ex_tree_def ex_leaf_def node_ok_def ltr_load_options_default_def)

text \<open>
  C34. Sharing is not rejected: for every \<open>n\<close> below the depth limit, an array of \<open>n + 1\<close> nodes in which both
  children of a node are the next one is accepted as one tree, although it unfolds to \<open>2 ^ n\<close> leaves and
  the validation walks every path.
\<close>

theorem shared_children_accepted:
  assumes "n < max_depth options" and "n < max_nodes_per_tree options" and "n < 2 ^ 32" and "0 < fc"
  shows "\<exists>c t. compile_tree tree_idx \<lparr>lt_nodes = chain_nodes n\<rparr> fc options = (Ok c :: ('x hybrid_error, _) outcome) \<and>
    tree_at c = Some t \<and> tree_leaves t = 2 ^ n"
proof -
  obtain t where t: "tree_of (max_depth options) (map node_of (chain_nodes n)) 0 = Some t" "tree_leaves t = 2 ^ n"
      "within (max_depth options) (map node_of (chain_nodes n)) 0 = {..<length (map node_of (chain_nodes n))}"
    using chain_denotes [OF assms(3)] tree_of_mono [of "Suc n" _ 0] within_stable [of "Suc n" _ 0] assms(1)
    by (metis Suc_leI)
  have "compile_tree tree_idx \<lparr>lt_nodes = chain_nodes n\<rparr> fc options =
      (Ok \<lparr>ct_nodes = map node_of (chain_nodes n)\<rparr> :: ('x hybrid_error, _) outcome)"
    unfolding compile_tree_Ok(1) using t(1,3) chain_node_ok [OF assms(3,4)] assms(2)
    by (simp add: chain_nodes_def)
  moreover have "tree_at \<lparr>ct_nodes = map node_of (chain_nodes n)\<rparr> = Some t"
    using t(1) by (intro tree_of_at) simp
  ultimately show ?thesis using t(2) by blast
qed

theorem shared_children_accepted_witness:
  "\<exists>c t. compile_tree 0 \<lparr>lt_nodes = chain_nodes 31\<rparr> 1 ltr_load_options_default = (Ok c :: (unit hybrid_error, _) outcome) \<and>
    tree_at c = Some t \<and> tree_leaves t = 2 ^ 31"
  by (rule shared_children_accepted) (simp_all add: ltr_load_options_default_def)

text \<open>
  C14. Scoring with a loaded model ends and never panics: each of its trees denotes a decision tree no
  higher than the depth limit, the bounded walk over the node array returns the leaf that the tree
  selects (never the error for running out of iterations), and \<open>score_features\<close> returns \<open>s\<close> exactly when
  the vector has one finite value per feature and \<open>s\<close> is finite and the base score plus the weighted
  leaves, summed in order in single precision.
\<close>

theorem score_features_exact:
  assumes "from_record_with_options show_debug rec options = (Ok m :: ('x hybrid_error, 'v tree_ensemble_reranker) outcome)"
  shows "(\<forall>c\<in>set (te_trees m). \<exists>t. tree_at c = Some t \<and> tree_height t \<le> max_depth options \<and>
      (length fs = length (te_feature_names m) \<and> list_all f32_is_finite fs \<longrightarrow>
        score_tree c fs = (Ok (tree_value t fs) :: ('x hybrid_error, f32) outcome))) \<and>
    (score_features m fs = (Ok s :: ('x hybrid_error, f32) outcome) \<longleftrightarrow>
      length fs = length (te_feature_names m) \<and> list_all f32_is_finite fs \<and> f32_is_finite s \<and>
      s = ensemble_value m fs) \<and>
    score_features m fs \<noteq> (Panic :: ('x hybrid_error, f32) outcome)"
proof (intro conjI)
  note ok = from_record_Ok [OF assms]
  show "\<forall>c\<in>set (te_trees m). \<exists>t. tree_at c = Some t \<and> tree_height t \<le> max_depth options \<and>
      (length fs = length (te_feature_names m) \<and> list_all f32_is_finite fs \<longrightarrow>
        score_tree c fs = (Ok (tree_value t fs) :: ('x hybrid_error, f32) outcome))"
    using ok(2,3) score_tree_value [where 'x = 'x] unfolding reranker_ok_def list_all_iff by (metis option.inject)
  show "score_features m fs = (Ok s :: ('x hybrid_error, f32) outcome) \<longleftrightarrow>
      length fs = length (te_feature_names m) \<and> list_all f32_is_finite fs \<and> f32_is_finite s \<and> s = ensemble_value m fs"
    using score_features_Ok(1) [where 'x = 'x, OF ok(2), of fs s] by (auto simp: te_score_def)
  show "score_features m fs \<noteq> (Panic :: ('x hybrid_error, f32) outcome)"
    by (rule score_features_Ok(2) [OF ok(2)])
qed

theorem score_features_exact_witness:
  "score_features ex_model [f32_one, f32_one, f32_one] = (Ok f32_one :: (unit hybrid_error, f32) outcome)"
  using score_features_exact [OF ex_from_record, of "[f32_one, f32_one, f32_one]" f32_one]
  by (simp add: ex_ensemble ex_names) (simp add: ex_schema_def)

text \<open>
  C13. Reranking a fused batch, end to end: with a loaded model, canonical source batches and the fusion
  of two canonical batches, \<open>rerank\<close> never panics and succeeds exactly when the feature names are valid,
  the query counts agree, every signal of every fused row is known and every score is finite; the
  result is canonical and holds, for each query, the first \<open>top_k\<close> of its fused rows in order of model
  score and row ID. It is the generic \<open>rerank_fused_batch\<close> at this model.
\<close>

theorem ltr_rerank_exact:
  fixes m :: "'v tree_ensemble_reranker"
  assumes "from_record_with_options show_debug rec options = (Ok m :: ('x hybrid_error, _) outcome)"
    and "batch_ok dense" and "batch_ok sparse" and "\<And>q a. mset (shuffle q a) = mset a"
    and "rrf_fuse_batch shuffle dense sparse fusion = (Ok (li_fused inputs) :: ('x hybrid_error, fused_batch) outcome)"
    and "sources_ok inputs"
  shows "(te_rerank show_f32 show_debug m inputs config = (Ok b :: ('x hybrid_error, _) outcome) \<longleftrightarrow>
      names_ok (te_feature_names m) \<and> counts_ok inputs \<and> signals_known inputs (te_feature_names m) \<and>
      scores_known (te_score m) (feature_lists inputs (te_feature_names m)) \<and>
      b = reranked config (te_score m) (feature_lists inputs (te_feature_names m))) \<and>
    (te_rerank show_f32 show_debug m inputs config = (Ok b :: ('x hybrid_error, _) outcome) \<longrightarrow> batch_ok b) \<and>
    te_rerank show_f32 show_debug m inputs config \<noteq> (Panic :: ('x hybrid_error, _) outcome)"
proof (intro conjI impI)
  have eq: "te_rerank show_f32 show_debug m inputs config =
      rerank_fused_batch show_debug (mi_feature_schema (te_info m)) (rerank_batch show_f32 m) inputs config"
    by (simp add: te_rerank_def rerank_fused_batch_def)
  note exact = tree_ensemble.rerank_fused_exact [OF from_record_Ok(2) [OF assms(1)] assms(6)
      rrf_rows_distinct [OF assms(2-5)], folded te_feature_names_def]
  show "te_rerank show_f32 show_debug m inputs config = (Ok b :: ('x hybrid_error, _) outcome) \<longleftrightarrow>
      names_ok (te_feature_names m) \<and> counts_ok inputs \<and> signals_known inputs (te_feature_names m) \<and>
      scores_known (te_score m) (feature_lists inputs (te_feature_names m)) \<and>
      b = reranked config (te_score m) (feature_lists inputs (te_feature_names m))"
    unfolding eq by (rule exact(1))
  show "batch_ok b" if "te_rerank show_f32 show_debug m inputs config = (Ok b :: ('x hybrid_error, _) outcome)"
    using that unfolding eq by (rule exact(2))
  show "te_rerank show_f32 show_debug m inputs config \<noteq> (Panic :: ('x hybrid_error, _) outcome)"
    unfolding eq by (rule exact(3))
qed

theorem ltr_rerank_exact_witness:
  "\<exists>inputs b. te_rerank (\<lambda>_. []) id ex_model inputs ltr_rerank_config_default =
     (Ok b :: (unit hybrid_error, _) outcome) \<and> batch_ok b \<and> rb_hits b = [\<lparr>row_id = 10, score = f32_one\<rparr>]"
proof -
  let ?D = "lists_batch [[]]" and ?S = "lists_batch [[\<lparr>row_id = 10, score = f32_one\<rparr>]]"
  let ?row = "\<lparr>fused_row_id = 10, fused_score = f32_add f32_zero (contribution (rank_constant default_rrf_config) (Suc 0)),
    dense_rank = None, sparse_rank = Some 1, dense_score = None, sparse_score = Some f32_one\<rparr>"
  let ?f = "\<lparr>fb_offsets = csr_offsets [[?row]], fb_hits = concat [[?row]]\<rparr>"
  define inputs where "inputs = \<lparr>li_fused = ?f, li_rank_cos_scores = None, li_dense_cos_scores = None,
    li_bm25_scores = Some ?S, li_doc_len_chars = None, li_query_len_chars = Some [1]\<rparr>"
  have ok: "batch_ok ?D" "batch_ok ?S"
    by (simp_all add: batch_ok_lists canonical_rows_def sorted_by_def)
  have valid: "validate_rrf_config default_rrf_config = (Ok default_rrf_config :: (unit hybrid_error, rrf_config) outcome)"
    by (simp add: validate_rrf_config_def default_rrf_config_def f32_le_def f32_key_def float_eval)
  have "fuse_query (\<lambda>q m. m) ?D ?S default_rrf_config 0 = [?row]"
    by (simp add: fuse_query_def add_rrf_source_def default_rrf_config_def unwrap_or_empty_def to_fused_def
        default_accumulator_def usize_max_def)
  then have f: "rrf_fuse_batch (\<lambda>q m. m) ?D ?S default_rrf_config =
      (Ok (li_fused inputs) :: (unit hybrid_error, fused_batch) outcome)"
    using valid by (simp add: rrf_Ok inputs_def)
  have rows: "fused_rows inputs 0 = [?row]" "fb_query_count (li_fused inputs) = 1"
    unfolding inputs_def by (simp_all add: fused_rows_def unwrap_or_empty_def fb_query_count_def del: concat.simps)
  have fin: "f32_is_finite (f32_add f32_zero (contribution (rank_constant default_rrf_config) (Suc 0)))"
    by (simp add: contribution_def default_rrf_config_def float_eval cong: let_weak_cong)
  have one: "f32_of_nat (Suc 0) = f32_one" by (simp add: float_eval cong: let_weak_cong)
  obtain x y where sig: "signal inputs 0 ?row ''rrf_score'' = Some x" "signal inputs 0 ?row ''bm25_rank'' = Some f32_one"
      "signal inputs 0 ?row ''query_len_chars'' = Some y" "f32_is_finite x" "f32_is_finite y"
    using fin one by (simp add: inputs_def signal_def signals_def source_rank_def get_nth_def)
  have names: "fs_feature_names ex_schema = [''rrf_score'', ''bm25_rank'', ''query_len_chars'']"
    by (simp add: ex_schema_def)
  have L: "feature_lists inputs (te_feature_names ex_model) = [[\<lparr>lc_row_id = 10, lc_features = [x, f32_one, y]\<rparr>]]"
    using sig by (simp add: feature_lists_def rows candidate_of_def ex_names names)
  have sc: "te_score ex_model [x, f32_one, y] = Some f32_one"
    using sig by (simp add: te_score_def ex_names names ex_ensemble)
  have "sources_ok inputs" using ok by (simp add: sources_ok_def sources_def inputs_def)
  moreover have "counts_ok inputs" by (simp add: counts_ok_def sources_def inputs_def fb_query_count_def)
  moreover have "signals_known inputs (te_feature_names ex_model)"
    using sig by (simp add: signals_known_def rows ex_names names lessThan_Suc)
  moreover have "names_ok (te_feature_names ex_model)" by (simp add: ex_names ex_inputs_ok)
  moreover have "scores_known (te_score ex_model) (feature_lists inputs (te_feature_names ex_model))"
    by (simp add: L scores_known_def sc)
  moreover have "rb_hits (reranked ltr_rerank_config_default (te_score ex_model)
      (feature_lists inputs (te_feature_names ex_model))) = [\<lparr>row_id = 10, score = f32_one\<rparr>]"
    by (simp add: L reranked_def lists_batch_def rank_rows_def scored_candidate_def sc ltr_rerank_config_default_def
        usize_max_def)
  ultimately show ?thesis
    using ltr_rerank_exact [where ?show_f32.0 = "\<lambda>_. []", OF ex_from_record ok _ f] by blast
qed

end
