(* ===== verification/StoreJson.thy ===== *)
theory StoreJson
  imports RustStr "HOL-Library.List_Lexorder" "HOL-Library.Char_ord" "HOL-Library.Countable"
begin

text \<open>
  JSON values as the adapter store handles them (\<open>ordinaldb-adapter-store/src/lib.rs\<close>). A value is a
  \<open>serde_json::Value\<close>, with an object a \<open>BTreeMap\<close>. The tokenizer and the printer of \<open>serde_json\<close> are the
  arguments \<open>je_scan\<close> and \<open>je_print\<close> of a record: a text is scanned to a tree in which object keys may
  repeat, and the visitor of the crate turns the tree into a value or refuses it. An error of the
  store is its message.
\<close>

section \<open>Values\<close>

type_synonym store_error = string

datatype json_number = PosInt u64 | NegInt u64 | FloatNumber u64

datatype json =
    JNull | JBool bool | JNumber json_number | JString string | JArray "json list"
  | JObject "(string \<times> json) list"

datatype raw_json =
    RNull | RBool bool | RI64 u64 | RU64 u64 | RF64 u64 | RString string | RArray "raw_json list"
  | RObject "(string \<times> raw_json) list"

record json_env =
  je_scan :: "string \<Rightarrow> (string, raw_json \<times> string option) outcome"
  je_print :: "json \<Rightarrow> string"
  je_debug :: "string \<Rightarrow> string"

text \<open>\<open>Number::from_f64\<close> refuses the patterns that are not finite.\<close>

definition f64_is_finite :: "u64 \<Rightarrow> bool" where
  "f64_is_finite b \<longleftrightarrow> unat b div 2 ^ 52 mod 2048 \<noteq> 2047"

fun visit_value :: "(string \<Rightarrow> string) \<Rightarrow> raw_json \<Rightarrow> (string, json) outcome"
and visit_seq :: "(string \<Rightarrow> string) \<Rightarrow> raw_json list \<Rightarrow> (string, json list) outcome"
and visit_map :: "(string \<Rightarrow> string) \<Rightarrow> (string \<times> raw_json) list \<Rightarrow> (string \<times> json) list \<Rightarrow> (string, json) outcome" where
  "visit_value dbg RNull = Ok JNull"
| "visit_value dbg (RBool b) = Ok (JBool b)"
| "visit_value dbg (RI64 v) = Ok (JNumber (if sint v < 0 then NegInt v else PosInt v))"
| "visit_value dbg (RU64 v) = Ok (JNumber (PosInt v))"
| "visit_value dbg (RF64 v) =
     (if f64_is_finite v then Ok (JNumber (FloatNumber v)) else Err ''non-finite JSON number'')"
| "visit_value dbg (RString s) = Ok (JString s)"
| "visit_value dbg (RArray vs) = obind (visit_seq dbg vs) (\<lambda>xs. Ok (JArray xs))"
| "visit_value dbg (RObject kvs) = visit_map dbg kvs []"
| "visit_seq dbg [] = Ok []"
| "visit_seq dbg (v # vs) = obind (visit_value dbg v) (\<lambda>x. obind (visit_seq dbg vs) (\<lambda>xs. Ok (x # xs)))"
| "visit_map dbg [] object = Ok (JObject object)"
| "visit_map dbg ((k, v) # kvs) object =
     obind (visit_value dbg v) (\<lambda>x.
     if map_of object k \<noteq> None then Err (''duplicate JSON key '' @ dbg k)
     else visit_map dbg kvs (btree_insert k x object))"

definition parse_json_object :: "json_env \<Rightarrow> string \<Rightarrow> string \<Rightarrow> (store_error, json) outcome" where
  "parse_json_object je text_in name =
     obind (map_err (\<lambda>e. ''failed to parse JSON in '' @ name @ '': '' @ e) (je_scan je text_in)) (\<lambda>(raw, rest).
     obind (map_err (\<lambda>e. ''failed to parse JSON in '' @ name @ '': '' @ e) (visit_value (je_debug je) raw)) (\<lambda>v.
     case rest of
       Some e \<Rightarrow> Err (''trailing data in '' @ name @ '': '' @ e)
     | None \<Rightarrow>
         (case v of JObject _ \<Rightarrow> Ok v | _ \<Rightarrow> Err (name @ '' must be a JSON object''))))"

definition canonical_json :: "json_env \<Rightarrow> json \<Rightarrow> (store_error, string) outcome" where
  "canonical_json je v = Ok (je_print je v)"

text \<open>\<open>json!({..})\<close>, and the values it contains.\<close>

definition jobject :: "(string \<times> json) list \<Rightarrow> json" where
  "jobject kvs = JObject (btree_inserts kvs [])"

definition jnum :: "u64 \<Rightarrow> json" where
  "jnum n = JNumber (PosInt n)"

definition jopt :: "('a \<Rightarrow> json) \<Rightarrow> 'a option \<Rightarrow> json" where
  "jopt f x = (case x of None \<Rightarrow> JNull | Some a \<Rightarrow> f a)"

text \<open>\<open>==\<close> of values compares floats as numbers, so the two zeros are equal.\<close>

definition f64_is_zero :: "u64 \<Rightarrow> bool" where
  "f64_is_zero b \<longleftrightarrow> unat b mod 2 ^ 63 = 0"

fun number_eq :: "json_number \<Rightarrow> json_number \<Rightarrow> bool" where
  "number_eq (FloatNumber a) (FloatNumber b) \<longleftrightarrow> a = b \<or> f64_is_zero a \<and> f64_is_zero b"
| "number_eq a b \<longleftrightarrow> a = b"

fun json_eq :: "json \<Rightarrow> json \<Rightarrow> bool"
and array_eq :: "json list \<Rightarrow> json list \<Rightarrow> bool"
and object_eq :: "(string \<times> json) list \<Rightarrow> (string \<times> json) list \<Rightarrow> bool" where
  "json_eq (JNumber a) (JNumber b) \<longleftrightarrow> number_eq a b"
| "json_eq (JArray a) (JArray b) \<longleftrightarrow> array_eq a b"
| "json_eq (JObject a) (JObject b) \<longleftrightarrow> object_eq a b"
| "json_eq JNull w \<longleftrightarrow> w = JNull"
| "json_eq (JBool b) w \<longleftrightarrow> w = JBool b"
| "json_eq (JString s) w \<longleftrightarrow> w = JString s"
| "json_eq (JNumber a) w \<longleftrightarrow> False"
| "json_eq (JArray a) w \<longleftrightarrow> False"
| "json_eq (JObject a) w \<longleftrightarrow> False"
| "array_eq (v # vs) (w # ws) \<longleftrightarrow> json_eq v w \<and> array_eq vs ws"
| "array_eq vs ws \<longleftrightarrow> vs = [] \<and> ws = []"
| "object_eq ((k, v) # kvs) ((l, w) # lws) \<longleftrightarrow> k = l \<and> json_eq v w \<and> object_eq kvs lws"
| "object_eq kvs lws \<longleftrightarrow> kvs = [] \<and> lws = []"

section \<open>Accessors\<close>

fun jget :: "json \<Rightarrow> string \<Rightarrow> json option" where
  "jget (JObject m) field = map_of m field"
| "jget _ field = None"

fun as_str :: "json \<Rightarrow> string option" where
  "as_str (JString s) = Some s"
| "as_str _ = None"

fun as_u64 :: "json \<Rightarrow> u64 option" where
  "as_u64 (JNumber (PosInt n)) = Some n"
| "as_u64 _ = None"

fun as_bool :: "json \<Rightarrow> bool option" where
  "as_bool (JBool b) = Some b"
| "as_bool _ = None"

fun as_object :: "json \<Rightarrow> (string \<times> json) list option" where
  "as_object (JObject m) = Some m"
| "as_object _ = None"

definition required_string :: "json \<Rightarrow> string \<Rightarrow> (store_error, string) outcome" where
  "required_string v field = ok_or (field @ '' must be a string'') (Option.bind (jget v field) as_str)"

definition optional_string :: "json \<Rightarrow> string \<Rightarrow> (store_error, string option) outcome" where
  "optional_string v field =
     (case jget v field of
        Some (JString s) \<Rightarrow> Ok (Some s)
      | Some JNull \<Rightarrow> Ok None
      | None \<Rightarrow> Ok None
      | Some _ \<Rightarrow> Err (field @ '' must be a string or null''))"

definition required_bool :: "json \<Rightarrow> string \<Rightarrow> (store_error, bool) outcome" where
  "required_bool v field = ok_or (field @ '' must be a bool'') (Option.bind (jget v field) as_bool)"

definition required_u64 :: "json \<Rightarrow> string \<Rightarrow> (store_error, u64) outcome" where
  "required_u64 v field = ok_or (field @ '' must be a u64'') (Option.bind (jget v field) as_u64)"

definition optional_u64 :: "json \<Rightarrow> string \<Rightarrow> (store_error, u64 option) outcome" where
  "optional_u64 v field =
     (case jget v field of
        Some JNull \<Rightarrow> Ok None
      | None \<Rightarrow> Ok None
      | Some x \<Rightarrow> ok_or (field @ '' must be null or a u64'') (map_option Some (as_u64 x)))"

definition required_object :: "json \<Rightarrow> string \<Rightarrow> (store_error, (string \<times> json) list) outcome" where
  "required_object v field = ok_or (field @ '' must be a JSON object'') (Option.bind (jget v field) as_object)"

definition require_str :: "json_env \<Rightarrow> json \<Rightarrow> string \<Rightarrow> string \<Rightarrow> (store_error, unit) outcome" where
  "require_str je v field expected =
     obind (required_string v field) (\<lambda>actual.
     if actual \<noteq> expected then
       Err (field @ '' must be '' @ je_debug je expected @ '', got '' @ je_debug je actual)
     else Ok ())"

definition require_schema :: "json_env \<Rightarrow> json \<Rightarrow> string \<Rightarrow> string \<Rightarrow> (store_error, unit) outcome" where
  "require_schema je v expected name =
     obind (required_string v ''schema_version'') (\<lambda>actual.
     if actual \<noteq> expected then Err (name @ '' has unsupported schema '' @ je_debug je actual) else Ok ())"

text \<open>The debug output of a vector of strings.\<close>

fun join_strings :: "string list \<Rightarrow> string" where
  "join_strings [] = []"
| "join_strings [s] = s"
| "join_strings (s # ss) = s @ '', '' @ join_strings ss"

definition show_strings :: "json_env \<Rightarrow> string list \<Rightarrow> string" where
  "show_strings je ss = ''['' @ join_strings (map (je_debug je) ss) @ '']''"

definition require_exact_keys :: "json_env \<Rightarrow> json \<Rightarrow> string \<Rightarrow> string list \<Rightarrow> (store_error, unit) outcome" where
  "require_exact_keys je v name expected =
     obind (ok_or (name @ '' must be a JSON object'') (as_object v)) (\<lambda>object.
     let actual = map fst object in
     if set actual = set expected then Ok ()
     else
       let missing = sort (filter (\<lambda>k. k \<notin> set actual) (remdups expected));
           extra = sort (filter (\<lambda>k. k \<notin> set expected) (remdups actual))
       in Err (name @ '' has invalid keys: missing='' @ show_strings je missing @ '', extra='' @ show_strings je extra))"

section \<open>Texts of values\<close>

text \<open>
  The values that exist as a \<open>Value\<close>: objects strictly sorted, negative numbers negative and floats
  finite, at every depth. The scanner returns for the printed text of such a value its tree.
\<close>

fun json_ok :: "json \<Rightarrow> bool" where
  "json_ok (JNumber (NegInt n)) \<longleftrightarrow> sint n < 0"
| "json_ok (JNumber (FloatNumber b)) \<longleftrightarrow> f64_is_finite b"
| "json_ok (JArray vs) \<longleftrightarrow> list_all json_ok vs"
| "json_ok (JObject m) \<longleftrightarrow> btree_ok m \<and> list_all (\<lambda>(_, v). json_ok v) m"
| "json_ok _ \<longleftrightarrow> True"

fun raw_of :: "json \<Rightarrow> raw_json" where
  "raw_of JNull = RNull"
| "raw_of (JBool b) = RBool b"
| "raw_of (JNumber (PosInt n)) = RU64 n"
| "raw_of (JNumber (NegInt n)) = RI64 n"
| "raw_of (JNumber (FloatNumber b)) = RF64 b"
| "raw_of (JString s) = RString s"
| "raw_of (JArray vs) = RArray (map raw_of vs)"
| "raw_of (JObject m) = RObject (map (\<lambda>(k, v). (k, raw_of v)) m)"

definition json_text :: "json_env \<Rightarrow> bool" where
  "json_text je \<longleftrightarrow> (\<forall>v. json_ok v \<longrightarrow> je_scan je (je_print je v) = Ok (raw_of v, None))"

lemma number_eq_refl [simp]: "number_eq n n"
  by (cases n) simp_all

lemma array_eq_refl: "\<forall>v\<in>set vs. json_eq v v \<Longrightarrow> array_eq vs vs"
  by (induction vs) simp_all

lemma object_eq_refl: "\<forall>(k, v)\<in>set kvs. json_eq v v \<Longrightarrow> object_eq kvs kvs"
  by (induction kvs) auto

lemma json_eq_refl [simp]: "json_eq v v"
proof (induction v)
  case (JArray vs)
  then show ?case by (simp add: array_eq_refl)
next
  case (JObject m)
  then have "\<forall>(k, v)\<in>set m. json_eq v v" by fastforce
  then show ?case by (simp add: object_eq_refl)
qed simp_all

lemma btree_insert_last:
  "btree_ok (m @ (k, x) # n) \<Longrightarrow> btree_insert k x m = m @ [(k, x)]"
proof (induction m)
  case (Cons p m)
  obtain k' v where p: "p = (k', v)" by fastforce
  have "k' < k" "btree_ok (m @ (k, x) # n)" using Cons.prems by (simp_all add: btree_ok_def p)
  then show ?case using Cons.IH by (auto simp: p btree_insert_def dest: order.asym)
qed (simp add: btree_insert_def)

lemma btree_insert_set: "set (btree_insert k x m) \<subseteq> insert (k, x) (set m)"
proof (induction m)
  case (Cons p m)
  obtain k' v where p: "p = (k', v)" by fastforce
  have "btree_insert k x (p # m) = (if k < k' then (k, x) # p # m else if k = k' then (k', x) # m
      else p # btree_insert k x m)"
    by (simp add: btree_insert_def p)
  then show ?case using Cons by auto
qed (simp add: btree_insert_def)

lemma visit_seq_raw: "\<forall>v\<in>set vs. visit_value dbg (raw_of v) = Ok v \<Longrightarrow> visit_seq dbg (map raw_of vs) = Ok vs"
  by (induction vs) simp_all

lemma visit_map_raw:
  "\<forall>(k, v)\<in>set n. visit_value dbg (raw_of v) = Ok v \<Longrightarrow> btree_ok (l @ n) \<Longrightarrow>
     visit_map dbg (map (\<lambda>(k, v). (k, raw_of v)) n) l = Ok (JObject (l @ n))"
proof (induction n arbitrary: l)
  case (Cons p n)
  obtain k v where p: "p = (k, v)" by fastforce
  have v: "visit_value dbg (raw_of v) = Ok v" using Cons.prems(1) p by simp
  have ok: "btree_ok (l @ (k, v) # n)" using Cons.prems(2) p by simp
  then have "map_of l k = None"
    by (force simp: map_of_eq_None_iff btree_ok_def sorted_wrt_append)
  moreover have "btree_insert k v l = l @ [(k, v)]" by (rule btree_insert_last [OF ok])
  ultimately show ?case using Cons.IH [of "l @ [(k, v)]"] Cons.prems v by (simp add: p)
qed simp

lemma visit_value_raw: "json_ok v \<Longrightarrow> visit_value dbg (raw_of v) = Ok v"
proof (induction v)
  case (JNumber n)
  then show ?case by (cases n) simp_all
next
  case (JArray vs)
  then have "\<forall>v\<in>set vs. visit_value dbg (raw_of v) = Ok v" by (simp add: list_all_iff)
  then show ?case by (simp add: visit_seq_raw)
next
  case (JObject m)
  then have "\<forall>(k, v)\<in>set m. visit_value dbg (raw_of v) = Ok v" by (fastforce simp: list_all_iff)
  then show ?case using visit_map_raw [of m dbg "[]"] JObject.prems by simp
qed simp_all

lemma visit_ok:
  "visit_value dbg r = Ok v \<Longrightarrow> json_ok v"
  "visit_seq dbg rs = Ok vs \<Longrightarrow> list_all json_ok vs"
  "visit_map dbg kvs object = Ok v \<Longrightarrow> json_ok (JObject object) \<Longrightarrow> json_ok v"
proof (induction dbg r and dbg rs and dbg kvs object arbitrary: v and vs and v
    rule: visit_value_visit_seq_visit_map.induct)
  case (12 dbg k w kvs object)
  then obtain x where x: "visit_value dbg w = Ok x" "map_of object k = None"
      "visit_map dbg kvs (btree_insert k x object) = Ok v"
    by (auto simp: obind_eq_Ok split: if_splits)
  have "json_ok (JObject (btree_insert k x object))"
    using "12.IH"(1) [OF x(1)] "12.prems"(2) btree_insert_set [of k x object] by (auto simp: list_all_iff)
  then show ?case using "12.IH"(2) x by simp
qed (auto simp: obind_eq_Ok split: if_splits)

lemma parse_object_ok: "parse_json_object je s name = Ok v \<Longrightarrow> \<exists>m. v = JObject m \<and> json_ok v"
  by (auto simp: parse_json_object_def obind_eq_Ok map_err_eq_Ok split: option.splits json.splits dest: visit_ok(1))

lemma parse_printed:
  "json_text je \<Longrightarrow> json_ok (JObject m) \<Longrightarrow> parse_json_object je (je_print je (JObject m)) name = Ok (JObject m)"
  using visit_value_raw [of "JObject m"] by (simp add: json_text_def parse_json_object_def del: raw_of.simps)

lemma visit_not_panic:
  "visit_value dbg r \<noteq> Panic" "visit_seq dbg rs \<noteq> Panic" "visit_map dbg kvs object \<noteq> Panic"
  by (induction dbg r and dbg rs and dbg kvs object rule: visit_value_visit_seq_visit_map.induct)
    (auto simp: obind_eq_Panic)

lemma jget_jobject [simp]: "jget (jobject kvs) k = map_of (rev kvs) k"
  by (simp add: jobject_def)

lemma btree_inserts_set: "set (btree_inserts kvs m) \<subseteq> set kvs \<union> set m"
proof (induction kvs m rule: btree_inserts.induct)
  case (2 k v kvs m)
  then show ?case using btree_insert_set [of k v m] by auto
qed simp

lemma jobject_ok: "list_all (\<lambda>(_, v). json_ok v) kvs \<Longrightarrow> json_ok (jobject kvs)"
  using btree_inserts_set [of kvs "[]"] by (auto simp: jobject_def list_all_iff)

text \<open>A printer and a scanner with this law exist: values are countable.\<close>

instance json_number :: countable by countable_datatype
instance json :: countable by countable_datatype

definition plain_json :: json_env where
  "plain_json =
     \<lparr>je_scan = (\<lambda>s. Ok (raw_of (from_nat (length s)), None)), je_print = (\<lambda>v. replicate (to_nat v) CHR ''x''),
      je_debug = id\<rparr>"

lemma plain_json_text: "json_text plain_json"
  by (simp add: json_text_def plain_json_def)

end
