(* ===== verification/StorePaths.thy ===== *)
theory StorePaths
  imports StoreJson BundleNames
begin

text \<open>
  The paths of the adapter store (\<open>ordinaldb-adapter-store/src/lib.rs\<close>): the components of a Unix
  path, the paths a generation may have, the names of generation directories and of the debris that
  a crash leaves beside them, the states in the life of a generation, and the requests to the
  garbage-collection queue.
\<close>

section \<open>Paths\<close>

text \<open>
  \<open>Path::components\<close> on Unix: empty components and interior \<open>.\<close> are skipped, a \<open>.\<close> at the
  start of a relative path is \<open>CurDir\<close>.
\<close>

datatype component = RootDir | CurDir | ParentDir | Normal string

fun split_slash :: "string \<Rightarrow> string list" where
  "split_slash [] = [[]]"
| "split_slash (c # cs) =
     (if c = CHR ''/'' then [] # split_slash cs
      else case split_slash cs of p # ps \<Rightarrow> (c # p) # ps | [] \<Rightarrow> [[c]])"

fun parse_components :: "string list \<Rightarrow> component list" where
  "parse_components [] = []"
| "parse_components (p # ps) =
     (if p = [] \<or> p = ''.'' then parse_components ps
      else (if p = ''..'' then ParentDir else Normal p) # parse_components ps)"

definition is_absolute :: "string \<Rightarrow> bool" where
  "is_absolute path \<longleftrightarrow> take 1 path = ''/''"

definition components :: "string \<Rightarrow> component list" where
  "components path =
     (let parts = split_slash path in
      if is_absolute path then RootDir # parse_components parts
      else if hd parts = ''.'' then CurDir # parse_components parts
      else parse_components parts)"

text \<open>\<open>Path::join\<close>.\<close>

definition path_join :: "string \<Rightarrow> string \<Rightarrow> string" where
  "path_join base part =
     (if is_absolute part then part
      else if base = [] \<or> last base = CHR ''/'' then base @ part
      else base @ ''/'' @ part)"

section \<open>Generation paths\<close>

definition INDEX_DIR :: string where
  "INDEX_DIR = ''index.odb''"

definition VECTORS_DIR :: string where
  "VECTORS_DIR = ''vectors''"

definition backslash :: char where
  "backslash = char_of (92 :: nat)"

definition contains_str :: "string \<Rightarrow> string \<Rightarrow> bool" where
  "contains_str pat s \<longleftrightarrow> split_once_str pat s \<noteq> None"

definition is_normal :: "component \<Rightarrow> bool" where
  "is_normal c = (case c of Normal _ \<Rightarrow> True | _ \<Rightarrow> False)"

definition validate_relative_path :: "string \<Rightarrow> (store_error, unit) outcome" where
  "validate_relative_path s =
     (if s = [] then Err ''active generation path must not be empty''
      else if backslash \<in> set s \<or> contains_str ''//'' s \<or> last s = CHR ''/'' then
        Err ''active generation path must use normalized forward-slash components''
      else if is_absolute s then Err ''active generation path must be relative''
      else if \<not> list_all is_normal (components s) then
        Err ''active generation path must not contain parent or special components''
      else Ok ())"

definition strip_suffix :: "string \<Rightarrow> string \<Rightarrow> string option" where
  "strip_suffix suffix s =
     (if length suffix \<le> length s \<and> drop (length s - length suffix) s = suffix
      then Some (take (length s - length suffix) s) else None)"

definition u64_max :: nat where
  "u64_max = 18446744073709551615"

definition parse_generation_dir :: "string \<Rightarrow> u64 option" where
  "parse_generation_dir name =
     Option.bind (Option.bind (strip_prefix ''g'' name) (strip_suffix ''.odb'')) (\<lambda>digits.
     if length digits \<noteq> 12 \<or> \<not> list_all is_digit_char digits then None
     else case parse_uint u64_max digits of
       Some n \<Rightarrow> if n > 0 then Some (of_nat n) else None
     | None \<Rightarrow> None)"

definition parse_generation_debris_name :: "string \<Rightarrow> u64 option" where
  "parse_generation_debris_name name =
     (let trimmed = dropWhile (\<lambda>c. c = CHR ''.'') name in
      if length trimmed = length name then None
      else case (case split_once_str ''.tmp-'' trimmed of
                   Some p \<Rightarrow> Some p | None \<Rightarrow> split_once_str ''.bak-'' trimmed) of
        None \<Rightarrow> None
      | Some (generation, suffix) \<Rightarrow> if suffix = [] then None else parse_generation_dir generation)"

definition invalid_index_path :: "json_env \<Rightarrow> string \<Rightarrow> store_error" where
  "invalid_index_path je s =
     ''adapter index_path must be '' @ je_debug je INDEX_DIR @
     '' or a vectors/g000000000001.odb-style 12-digit generation path, got '' @ je_debug je s"

definition validate_index_path :: "json_env \<Rightarrow> string \<Rightarrow> (store_error, unit) outcome" where
  "validate_index_path je s =
     obind (validate_relative_path s) (\<lambda>_.
     if s = INDEX_DIR then Ok ()
     else case components s of
       [Normal first, Normal second] \<Rightarrow>
         if first \<noteq> VECTORS_DIR \<or> parse_generation_dir second = None then Err (invalid_index_path je s)
         else Ok ()
     | _ \<Rightarrow> Err (invalid_index_path je s))"

definition generation_id_from_index_path :: "json_env \<Rightarrow> string \<Rightarrow> (store_error, u64) outcome" where
  "generation_id_from_index_path je s =
     obind (validate_index_path je s) (\<lambda>_.
     if s = INDEX_DIR then Ok 1
     else case components s of
       _ # Normal generation_dir # _ \<Rightarrow> ok_or (invalid_index_path je s) (parse_generation_dir generation_dir)
     | _ \<Rightarrow> Err (invalid_index_path je s))"

section \<open>The life of a generation\<close>

definition GENERATION_STATE_ACTIVE :: string where
  "GENERATION_STATE_ACTIVE = ''active''"

definition GENERATION_STATE_RETIRED :: string where
  "GENERATION_STATE_RETIRED = ''retired''"

definition is_valid_generation_record_state :: "string \<Rightarrow> bool" where
  "is_valid_generation_record_state state \<longleftrightarrow> state \<in> set [GENERATION_STATE_ACTIVE, GENERATION_STATE_RETIRED]"

definition is_valid_generation_lifecycle_state :: "string \<Rightarrow> bool" where
  "is_valid_generation_lifecycle_state state \<longleftrightarrow>
     state \<in> set [GENERATION_STATE_ACTIVE, GENERATION_STATE_RETIRED, ''reclaimable'', ''deleting'', ''deleted'']"

record generation_gc_update =
  gc_generation_id :: "u64 option"
  gc_path :: string
  gc_state :: string
  gc_reason :: string

definition validate_gc_update :: "generation_gc_update \<Rightarrow> (store_error, unit) outcome" where
  "validate_gc_update update =
     obind (validate_relative_path (gc_path update)) (\<lambda>_.
     if gc_path update = INDEX_DIR then Err ''generation GC must not target legacy index.odb''
     else if \<not> is_valid_generation_lifecycle_state (gc_state update) then
       Err ''generation GC state must be a known generation lifecycle state''
     else if trim (gc_reason update) = [] then Err ''generation GC reason must be non-empty''
     else Ok ())"

section \<open>Canonical names\<close>

definition pad12 :: "nat \<Rightarrow> string" where
  "pad12 n = replicate (12 - length (show_nat n)) CHR ''0'' @ show_nat n"

definition generation_dir :: "nat \<Rightarrow> string" where
  "generation_dir n = ''g'' @ pad12 n @ ''.odb''"

text \<open>The decimal of a number at a fixed width.\<close>

fun fixed :: "nat \<Rightarrow> nat \<Rightarrow> string" where
  "fixed 0 n = []"
| "fixed (Suc k) n = fixed k (n div 10) @ [digit_char (n mod 10)]"

lemma length_fixed [simp]: "length (fixed k n) = k"
  by (induction k arbitrary: n) simp_all

lemma fixed_zero: "fixed k 0 = replicate k CHR ''0''"
proof (induction k)
  case (Suc k)
  have "digit_char 0 = CHR ''0''" by code_simp
  then show ?case using Suc replicate_append_same [of k "CHR ''0''"] by simp
qed simp

lemma fixed_digits: "list_all is_digit_char (fixed k n)"
  by (induction k arbitrary: n) simp_all

lemma fixed_show: "0 < k \<Longrightarrow> n < 10 ^ k \<Longrightarrow> replicate (k - length (show_nat n)) CHR ''0'' @ show_nat n = fixed k n
     \<and> length (show_nat n) \<le> k"
proof (induction k arbitrary: n)
  case (Suc k)
  show ?case
  proof (cases "n < 10")
    case True
    then show ?thesis by (simp add: show_nat.simps [of n] fixed_zero)
  next
    case False
    then have "0 < k" using Suc.prems by (cases k) auto
    moreover have "n div 10 < 10 ^ k" using Suc.prems by (simp add: less_mult_imp_div_less mult.commute)
    ultimately show ?thesis using Suc.IH [of "n div 10"] False by (simp add: show_nat.simps [of n])
  qed
qed simp

lemma pad12_fixed: "n < 10 ^ 12 \<Longrightarrow> pad12 n = fixed 12 n"
  using fixed_show [of 12 n] by (simp add: pad12_def)

lemma digit_val_less: "digit_val c = Some d \<Longrightarrow> d < 10 \<and> digit_char d = c"
  by (auto simp: digit_val_def digit_char_def Let_def split: if_splits)

lemma parse_digits_fixed:
  "n < 10 ^ k \<Longrightarrow> acc * 10 ^ k + n \<le> limit \<Longrightarrow> parse_digits limit acc (fixed k n @ s) = parse_digits limit (acc * 10 ^ k + n) s"
proof (induction k arbitrary: n s)
  case (Suc k)
  have d: "n div 10 < 10 ^ k" using Suc.prems(1) by (simp add: less_mult_imp_div_less mult.commute)
  have split: "(acc * 10 ^ k + n div 10) * 10 + n mod 10 = acc * 10 ^ Suc k + n" by (simp add: algebra_simps)
  have room: "(acc * 10 ^ k + n div 10) * 10 \<le> limit" using split Suc.prems(2) by linarith
  have shrink: "x * 10 \<le> l \<Longrightarrow> x \<le> l" for x l :: nat by linarith
  have "acc * 10 ^ k + n div 10 \<le> limit" by (rule shrink [OF room])
  then have "parse_digits limit acc (fixed k (n div 10) @ digit_char (n mod 10) # s) =
      parse_digits limit (acc * 10 ^ k + n div 10) (digit_char (n mod 10) # s)"
    using Suc.IH [OF d] by simp
  then show ?case using split room Suc.prems(2) by (simp add: algebra_simps)
qed simp

lemma fixed_of_digits:
  "list_all is_digit_char ds \<Longrightarrow> \<exists>n. n < 10 ^ length ds \<and> ds = fixed (length ds) n"
proof (induction ds rule: rev_induct)
  case (snoc c ds)
  then obtain n where n: "n < 10 ^ length ds" "ds = fixed (length ds) n" by auto
  obtain d where d: "digit_val c = Some d" using snoc.prems by (auto simp: is_digit_char_def)
  have c: "d < 10" "digit_char d = c" using digit_val_less [OF d] by auto
  have "ds @ [c] = fixed (Suc (length ds)) (n * 10 + d)" using n(2) c by simp
  moreover have "n * 10 + d < 10 ^ Suc (length ds)" using n(1) c(1) by simp
  ultimately show ?case by auto
qed simp

lemma parse_uint_fixed:
  assumes "0 < k" and "n < 10 ^ k" and "n \<le> limit"
  shows "parse_uint limit (fixed k n) = Some n"
proof -
  obtain c cs where c: "fixed k n = c # cs" using assms(1) by (cases "fixed k n") (auto dest: arg_cong [of _ _ length])
  have "is_digit_char c" using fixed_digits [of k n] by (simp add: c)
  then have "c \<noteq> CHR ''+''" by (auto simp: is_digit_char_def digit_val_def)
  then show ?thesis using parse_digits_fixed [of n k 0 limit "[]"] assms by (simp add: parse_uint_def c)
qed

lemma strip_suffix_append [simp]: "strip_suffix suffix (s @ suffix) = Some s"
  by (simp add: strip_suffix_def)

lemma strip_suffix_Some: "strip_suffix suffix s = Some t \<longleftrightarrow> s = t @ suffix"
  by (auto simp: strip_suffix_def) (metis append_take_drop_id)

lemma unat_of_nat64: "n < 10 ^ 12 \<Longrightarrow> unat (of_nat n :: u64) = n"
  by (simp add: unat_of_nat take_bit_nat_eq_self)

lemma parse_generation_dir_Some:
  "parse_generation_dir name = Some i \<longleftrightarrow> 0 < unat i \<and> unat i < 10 ^ 12 \<and> name = generation_dir (unat i)"
proof
  assume "parse_generation_dir name = Some i"
  then obtain ds n where ds: "name = ''g'' @ ds @ ''.odb''" "length ds = 12" "list_all is_digit_char ds"
      and n: "parse_uint u64_max ds = Some n" "0 < n" "i = of_nat n"
    by (auto simp: parse_generation_dir_def bind_eq_Some_conv strip_prefix_Some strip_suffix_Some
        split: if_splits option.splits)
  obtain m where m: "m < 10 ^ 12" "ds = fixed 12 m" using fixed_of_digits [OF ds(3)] ds(2) by auto
  then have "n = m" using parse_uint_fixed [of 12 m u64_max] n(1) by (simp add: u64_max_def)
  then show "0 < unat i \<and> unat i < 10 ^ 12 \<and> name = generation_dir (unat i)"
    using ds(1) m n by (simp add: generation_dir_def pad12_fixed unat_of_nat64)
next
  assume a: "0 < unat i \<and> unat i < 10 ^ 12 \<and> name = generation_dir (unat i)"
  then have "name = ''g'' @ fixed 12 (unat i) @ ''.odb''" by (simp add: generation_dir_def pad12_fixed)
  moreover have "parse_uint u64_max (fixed 12 (unat i)) = Some (unat i)"
    using a by (intro parse_uint_fixed) (simp_all add: u64_max_def)
  ultimately show "parse_generation_dir name = Some i"
    using a fixed_digits [of 12 "unat i"]
    by (simp add: parse_generation_dir_def strip_prefix_append [of "''g''", simplified] strip_suffix_append)
qed

lemma debris_starts_with_dot: "parse_generation_debris_name name \<noteq> None \<Longrightarrow> \<exists>rest. name = CHR ''.'' # rest"
  by (cases name) (auto simp: parse_generation_debris_name_def Let_def split: if_splits)

lemma debris_not_generation:
  assumes "parse_generation_debris_name name \<noteq> None"
  shows "parse_generation_dir name = None"
proof -
  obtain rest where "name = CHR ''.'' # rest" using debris_starts_with_dot [OF assms] by auto
  then show ?thesis by (simp add: parse_generation_dir_def strip_prefix_def)
qed

text \<open>The scratch names of a generation, as the dense crate makes them, are read as its debris.\<close>

lemma split_skip:
  "c \<notin> set a \<Longrightarrow> split_once_str (c # p) (a @ s) =
     (case split_once_str (c # p) s of None \<Rightarrow> None | Some (x, y) \<Rightarrow> Some (a @ x, y))"
  by (induction a) (auto split: option.splits)

lemma generation_dir_no_dot: "n < 10 ^ 12 \<Longrightarrow> \<exists>a. generation_dir n = CHR ''g'' # a @ ''.odb'' \<and> CHR ''.'' \<notin> set (CHR ''g'' # a)"
  using digit_not_member [OF fixed_digits, of "CHR ''.''" 12 n]
  by (intro exI [of _ "fixed 12 n"]) (simp add: generation_dir_def pad12_fixed is_digit_char_def digit_val_def)

lemma generation_dir_infix_free:
  assumes "n < 10 ^ 12"
  shows "infix_free ''.tmp-'' (generation_dir n)" and "split_once_str ''.bak-'' (generation_dir n @ ''.bak-'' @ rest) = Some (generation_dir n, rest)"
    and "split_once_str ''.tmp-'' (generation_dir n @ ''.bak-'' @ rest) =
      (case split_once_str ''.tmp-'' rest of None \<Rightarrow> None | Some (x, y) \<Rightarrow> Some (generation_dir n @ ''.bak-'' @ x, y))"
proof -
  obtain a where a: "generation_dir n = (CHR ''g'' # a) @ ''.odb''" "CHR ''.'' \<notin> set (CHR ''g'' # a)"
    using generation_dir_no_dot [OF assms] by auto
  show "infix_free ''.tmp-'' (generation_dir n)"
    unfolding infix_free_def a(1) split_skip [OF a(2)] by simp
  show "split_once_str ''.bak-'' (generation_dir n @ ''.bak-'' @ rest) = Some (generation_dir n, rest)"
    unfolding a(1) append_assoc split_skip [OF a(2)] by simp
  show "split_once_str ''.tmp-'' (generation_dir n @ ''.bak-'' @ rest) =
      (case split_once_str ''.tmp-'' rest of None \<Rightarrow> None | Some (x, y) \<Rightarrow> Some (generation_dir n @ ''.bak-'' @ x, y))"
    unfolding a(1) append_assoc split_skip [OF a(2)] by (simp split: option.splits)
qed

lemma generation_dir_trimmed:
  assumes "n < 10 ^ 12"
  shows "dropWhile (\<lambda>c. c = CHR ''.'') (replicate (Suc k) CHR ''.'' @ generation_dir n @ rest) = generation_dir n @ rest"
  by (induction k) (simp_all add: generation_dir_def)

lemma parse_generation_dir_of:
  assumes "0 < n" and "n < 10 ^ 12"
  shows "parse_generation_dir (generation_dir n) = Some (of_nat n)"
  using assms unat_of_nat64 [of n] by (simp add: parse_generation_dir_Some)

lemma scratch_is_debris:
  assumes "0 < n" and "n < 10 ^ 12" and "rest \<noteq> []"
  shows "parse_generation_debris_name (replicate (Suc k) CHR ''.'' @ generation_dir n @ ''.tmp-'' @ rest) = Some (of_nat n)"
  unfolding parse_generation_debris_name_def Let_def generation_dir_trimmed [OF assms(2)]
    split_once_str_append [OF generation_dir_infix_free(1) [OF assms(2)]]
  using assms parse_generation_dir_of by simp

lemma backup_is_debris:
  assumes "0 < n" and "n < 10 ^ 12" and "rest \<noteq> []" and "split_once_str ''.tmp-'' rest = None"
  shows "parse_generation_debris_name (replicate (Suc k) CHR ''.'' @ generation_dir n @ ''.bak-'' @ rest) = Some (of_nat n)"
  unfolding parse_generation_debris_name_def Let_def generation_dir_trimmed [OF assms(2)]
    generation_dir_infix_free(2,3) [OF assms(2)]
  using assms parse_generation_dir_of by simp

lemma split_absent: "c \<notin> set s \<Longrightarrow> split_once_str (c # p) s = None"
  using split_skip [of c s p "[]"] by simp

section \<open>Properties\<close>

text \<open>
  The names of generation directories are exactly the numbers from 1 to 999999999999 at twelve
  digits, and no name is at once that of a generation and that of crash debris.
\<close>

theorem generation_names_exact:
  "(parse_generation_dir name = Some i \<longleftrightarrow> 0 < unat i \<and> unat i < 10 ^ 12 \<and> name = generation_dir (unat i)) \<and>
   \<not> (parse_generation_debris_name name \<noteq> None \<and> parse_generation_dir name \<noteq> None)"
proof (rule conjI)
  show "parse_generation_dir name = Some i \<longleftrightarrow> 0 < unat i \<and> unat i < 10 ^ 12 \<and> name = generation_dir (unat i)"
    by (rule parse_generation_dir_Some)
  show "\<not> (parse_generation_debris_name name \<noteq> None \<and> parse_generation_dir name \<noteq> None)"
    using debris_not_generation [of name] by iprover
qed

text \<open>
  Whatever the dense crate leaves beside a generation when it is interrupted while it replaces
  its directory, the scratch name or the name of the backup, is debris that the store attributes to
  that generation and never takes for a generation.
\<close>

theorem interrupted_replacement_is_debris:
  assumes "0 < n" and "n < 10 ^ 12"
  shows "parse_generation_debris_name (temp_bundle_name (generation_dir n) pid now) = Some (of_nat n) \<and>
    parse_generation_debris_name (backup_bundle_name (generation_dir n) pid now) = Some (of_nat n) \<and>
    parse_generation_dir (temp_bundle_name (generation_dir n) pid now) = None \<and>
    parse_generation_dir (backup_bundle_name (generation_dir n) pid now) = None"
proof -
  let ?rest = "show_nat pid @ ''-'' @ show_nat now"
  have c: "canonical_bundle_name (generation_dir n) = generation_dir n"
    by (rule canonical_plain) (simp_all add: generation_dir_def)
  have "CHR ''.'' \<notin> set ?rest"
    using digit_not_member [OF show_nat_digits, of "CHR ''.''"] by (simp add: is_digit_char_def digit_val_def)
  then have "split_once_str ''.tmp-'' ?rest = None" by (rule split_absent)
  then have "parse_generation_debris_name (temp_bundle_name (generation_dir n) pid now) = Some (of_nat n)"
      "parse_generation_debris_name (backup_bundle_name (generation_dir n) pid now) = Some (of_nat n)"
    using scratch_is_debris [OF assms, of ?rest 0] backup_is_debris [OF assms, of ?rest 0] c
    by (simp_all add: temp_bundle_name_def backup_bundle_name_def)
  then show ?thesis using debris_not_generation by simp
qed

theorem interrupted_replacement_is_debris_witness:
  "parse_generation_debris_name (temp_bundle_name (generation_dir 5) 12 34) = Some 5"
  using interrupted_replacement_is_debris [of 5 12 34] by simp

text \<open>
  The guard of the garbage-collection queue compares the text of the path: \<open>index.odb/.\<close> has the
  same components as \<open>index.odb\<close>, so it names the legacy bundle, and it is accepted.
\<close>

theorem gc_guard_is_textual:
  "validate_gc_update \<lparr>gc_generation_id = None, gc_path = ''index.odb'', gc_state = ''deleting'', gc_reason = ''old''\<rparr> =
     Err ''generation GC must not target legacy index.odb'' \<and>
   validate_gc_update \<lparr>gc_generation_id = None, gc_path = ''index.odb/.'', gc_state = ''deleting'', gc_reason = ''old''\<rparr> =
     Ok () \<and> components ''index.odb/.'' = components ''index.odb''"
proof -
  have paths: "validate_relative_path ''index.odb'' = Ok ()" "validate_relative_path ''index.odb/.'' = Ok ()"
      "components ''index.odb/.'' = components ''index.odb''"
    by (simp_all add: validate_relative_path_def backslash_def contains_str_def components_def is_absolute_def
        is_normal_def char_of_def)
  have "trim ''old'' = ''old''" by (rule trim_plain) simp_all
  then show ?thesis
    using paths by (simp add: validate_gc_update_def INDEX_DIR_def is_valid_generation_lifecycle_state_def)
qed

end
