(* ===== verification/ByteCodec.thy ===== *)
theory ByteCodec
  imports Prelude
begin

text \<open>
  Little-endian integers in byte vectors, and the contract of a fixed-width encoding: what a
  reader needs to know of \<open>to_le_bytes\<close> and \<open>from_le_bytes\<close> to undo a writer, byte for byte.
\<close>

section \<open>The contract\<close>

locale byte_codec =
  fixes width :: nat
    and encode :: "'a \<Rightarrow> u8 list"
    and decode :: "u8 list \<Rightarrow> 'a"
  assumes length_encode: "length (encode x) = width"
    and decode_encode: "decode (encode x) = x"
    and encode_decode: "length bs = width \<Longrightarrow> encode (decode bs) = bs"
begin

lemma encode_inj: "encode x = encode y \<longleftrightarrow> x = y"
  by (metis decode_encode)

lemma length_concat_encode: "length (concat (map encode xs)) = length xs * width"
  by (induction xs) (auto simp: length_encode)

lemma concat_encode_inj:
  "concat (map encode xs) = concat (map encode ys) \<Longrightarrow> length xs = length ys \<Longrightarrow> xs = ys"
proof (induction xs arbitrary: ys)
  case (Cons x xs)
  then obtain y ys' where ys: "ys = y # ys'" by (cases ys) auto
  have "encode x = encode y \<and> concat (map encode xs) = concat (map encode ys')"
    using Cons.prems ys append_eq_append_conv [of "encode x" "encode y"]
    by (simp add: length_encode)
  with Cons.IH [of ys'] Cons.prems ys show ?case by (simp add: encode_inj)
qed simp

text \<open>A prefix of the right width is the encoding of one value.\<close>

lemma take_decode:
  assumes "width \<le> length bs"
  shows "bs = encode (decode (take width bs)) @ drop width bs"
proof -
  have "encode (decode (take width bs)) = take width bs"
    using assms by (intro encode_decode) simp
  then show ?thesis by simp
qed

end

section \<open>Little-endian integers\<close>

fun le_bytes :: "nat \<Rightarrow> nat \<Rightarrow> u8 list" where
  "le_bytes 0 n = []"
| "le_bytes (Suc w) n = word_of_nat (n mod 256) # le_bytes w (n div 256)"

fun le_value :: "u8 list \<Rightarrow> nat" where
  "le_value [] = 0"
| "le_value (b # bs) = unat b + 256 * le_value bs"

lemma length_le_bytes [simp]: "length (le_bytes w n) = w"
  by (induction w n rule: le_bytes.induct) auto

lemma unat_byte: "unat (b :: u8) < 256"
  using unsigned_less [where ?'a = nat, of b] by simp

lemma le_value_bound: "le_value bs < 256 ^ length bs"
proof (induction bs)
  case (Cons b bs)
  have "unat b + 256 * le_value bs < 256 + 256 * le_value bs" using unat_byte by simp
  also have "\<dots> \<le> 256 * 256 ^ length bs" using Cons by simp
  finally show ?case by simp
qed simp

lemma le_value_bytes: "n < 256 ^ w \<Longrightarrow> le_value (le_bytes w n) = n"
proof (induction w n rule: le_bytes.induct)
  case (2 w n)
  have "n div 256 < 256 ^ w" using 2 by (simp add: div_less_iff_less_mult mult.commute)
  then show ?case using 2 by (simp add: unat_of_nat)
qed simp

lemma le_bytes_value: "le_bytes (length bs) (le_value bs) = bs"
proof (induction bs)
  case (Cons b bs)
  have "(unat b + 256 * le_value bs) mod 256 = unat b" "(unat b + 256 * le_value bs) div 256 = le_value bs"
    using unat_byte [of b] by simp_all
  then show ?case using Cons by simp
qed simp

definition u64_to_le :: "u64 \<Rightarrow> u8 list" where
  "u64_to_le x = le_bytes 8 (unat x)"

definition u64_from_le :: "u8 list \<Rightarrow> u64" where
  "u64_from_le bs = word_of_nat (le_value bs)"

definition u32_to_le :: "u32 \<Rightarrow> u8 list" where
  "u32_to_le x = le_bytes 4 (unat x)"

definition u32_from_le :: "u8 list \<Rightarrow> u32" where
  "u32_from_le bs = word_of_nat (le_value bs)"

interpretation u64_codec: byte_codec 8 u64_to_le u64_from_le
proof
  fix x :: u64 and bs :: "u8 list"
  show "length (u64_to_le x) = 8" by (simp add: u64_to_le_def)
  have "unat x < 256 ^ 8" using unsigned_less [where ?'a = nat, of x] by simp
  then show "u64_from_le (u64_to_le x) = x"
    by (simp add: u64_to_le_def u64_from_le_def le_value_bytes)
  assume len: "length bs = 8"
  have "le_value bs < 2 ^ 64" using le_value_bound [of bs] by (simp add: len)
  then have "unat (word_of_nat (le_value bs) :: u64) = le_value bs" by (simp add: unat_of_nat)
  then show "u64_to_le (u64_from_le bs) = bs"
    using le_bytes_value [of bs] by (simp add: u64_to_le_def u64_from_le_def len)
qed

interpretation u32_codec: byte_codec 4 u32_to_le u32_from_le
proof
  fix x :: u32 and bs :: "u8 list"
  show "length (u32_to_le x) = 4" by (simp add: u32_to_le_def)
  have "unat x < 256 ^ 4" using unsigned_less [where ?'a = nat, of x] by simp
  then show "u32_from_le (u32_to_le x) = x"
    by (simp add: u32_to_le_def u32_from_le_def le_value_bytes)
  assume len: "length bs = 4"
  have "le_value bs < 2 ^ 32" using le_value_bound [of bs] by (simp add: len)
  then have "unat (word_of_nat (le_value bs) :: u32) = le_value bs" by (simp add: unat_of_nat)
  then show "u32_to_le (u32_from_le bs) = bs"
    using le_bytes_value [of bs] by (simp add: u32_to_le_def u32_from_le_def len)
qed

end
