(* ===== verification/LtrCache.thy ===== *)
theory LtrCache
  imports StorePaths ByteCodec Float32
begin

text \<open>
  The cache of learning-to-rank features (\<open>ordinaldb-ltr/src/lib.rs\<close>): validation of its data, writing
  its nine files, registering them in the manifest of a bundle, and reading them back with every size
  and digest checked. The file system maps the components of a path to what is there; SHA-256, the JSON
  text of a record, the calls that fail, and \<open>ordvec-manifest\<close> are fields of \<open>cache_env\<close>. A call on a path
  gives the same answer each time it is made in one operation. The platform is Unix.
\<close>

section \<open>Errors\<close>

datatype ltr_error = LtrIo string | LtrJson string | LtrInvalid string | LtrManifest string

fun show_ltr_error :: "ltr_error \<Rightarrow> string" where
  "show_ltr_error (LtrIo e) = ''io error: '' @ e"
| "show_ltr_error (LtrJson e) = ''json error: '' @ e"
| "show_ltr_error (LtrInvalid m) = ''invalid LTR feature cache: '' @ m"
| "show_ltr_error (LtrManifest m) = ''manifest verification failed: '' @ m"

fun ltr_error_source :: "ltr_error \<Rightarrow> string option" where
  "ltr_error_source (LtrIo e) = Some e"
| "ltr_error_source (LtrJson e) = Some e"
| "ltr_error_source (LtrInvalid _) = None"
| "ltr_error_source (LtrManifest _) = None"

section \<open>Records\<close>

definition FEATURE_CACHE_SCHEMA_VERSION :: string where
  "FEATURE_CACHE_SCHEMA_VERSION = ''ordinaldb.ltr.features.v1''"

definition DEFAULT_LTR_FEATURE_CACHE_AUX_NAME :: string where
  "DEFAULT_LTR_FEATURE_CACHE_AUX_NAME = ''ordinaldb.ltr_features''"

definition DEFAULT_MAX_FEATURE_AUXILIARY_BYTES :: nat where
  "DEFAULT_MAX_FEATURE_AUXILIARY_BYTES = 2 * 1024 * 1024 * 1024"

definition FEATURE_SCHEMA_FILE :: string where "FEATURE_SCHEMA_FILE = ''feature_schema.json''"
definition GROUPS_FILE :: string where "GROUPS_FILE = ''groups.u32''"
definition ROW_IDS_FILE :: string where "ROW_IDS_FILE = ''row_ids.u64''"
definition LABELS_FILE :: string where "LABELS_FILE = ''labels.f32''"
definition FEATURES_FILE :: string where "FEATURES_FILE = ''features.f32''"
definition QUERIES_FILE :: string where "QUERIES_FILE = ''queries.jsonl''"
definition SPLIT_FILE :: string where "SPLIT_FILE = ''split.json''"
definition PROVENANCE_FILE :: string where "PROVENANCE_FILE = ''provenance.json''"
definition CACHE_MANIFEST_FILE :: string where "CACHE_MANIFEST_FILE = ''manifest.json''"

record query_cache_record =
  qc_query_id :: string
  qc_query :: string

record feature_schema_record =
  fs_schema_version :: string
  fs_feature_names :: "string list"
  fs_forbidden_features :: "string list"
  fs_dense_features_present :: bool

record artifact_descriptor =
  ad_path :: string
  ad_sha256 :: string
  ad_file_size_bytes :: nat

record feature_cache_files =
  cf_feature_schema :: artifact_descriptor
  cf_groups_u32 :: artifact_descriptor
  cf_row_ids_u64 :: artifact_descriptor
  cf_labels_f32 :: artifact_descriptor
  cf_features_f32 :: artifact_descriptor
  cf_queries_jsonl :: artifact_descriptor
  cf_split_json :: artifact_descriptor
  cf_provenance_json :: artifact_descriptor

record feature_cache_manifest =
  cm_schema_version :: string
  cm_feature_names :: "string list"
  cm_query_count :: nat
  cm_row_count :: nat
  cm_group_count :: nat
  cm_label_kind :: string
  cm_qrels_source_sha256 :: "string option"
  cm_bundle_manifest_sha256 :: "string option"
  cm_forbidden_features_present :: "string list"
  cm_dense_features_present :: bool
  cm_files :: feature_cache_files

record feature_cache_data =
  fd_feature_names :: "string list"
  fd_groups :: "u32 list"
  fd_row_ids :: "u64 list"
  fd_labels :: "f32 list"
  fd_features :: "f32 list"
  fd_queries :: "query_cache_record list"
  fd_split :: json
  fd_provenance :: json
  fd_label_kind :: string
  fd_qrels_source_sha256 :: "string option"
  fd_bundle_manifest_sha256 :: "string option"
  fd_forbidden_features_present :: "string list"
  fd_dense_features_present :: bool

record bundle_feature_cache_options =
  bo_aux_name :: string
  bo_max_auxiliary_artifact_bytes :: nat

definition bundle_feature_cache_options_default :: bundle_feature_cache_options where
  "bundle_feature_cache_options_default =
     \<lparr>bo_aux_name = DEFAULT_LTR_FEATURE_CACHE_AUX_NAME,
      bo_max_auxiliary_artifact_bytes = DEFAULT_MAX_FEATURE_AUXILIARY_BYTES\<rparr>"

section \<open>The surroundings\<close>

text \<open>A path holds a file, a directory, a symlink, or something else that can be read, such as a pipe.\<close>

datatype cache_node = CacheFile "u8 list" | CacheDir | CacheLink | CacheOther "u8 list"

type_synonym file_system = "component list \<Rightarrow> cache_node option"

text \<open>
  Writing through a \<open>BufWriter\<close>: all bytes arrive; or a write fails after some bytes and the error is
  returned (the flag tells whether a call of the JSON serializer returned it); or the flush when the
  writer is dropped fails, which loses the last bytes, and no error is returned.
\<close>

datatype write_answer = Written | WriteFault nat bool string | LostFlush nat

text \<open>A verified load plan gives the path of a named auxiliary artifact or the text of an error.\<close>

type_synonym cache_plan = "string \<Rightarrow> string + string"

record auxiliary_artifact =
  aa_name :: string
  aa_path :: string
  aa_sha256 :: string
  aa_file_size_bytes :: nat
  aa_required :: bool

record 'm bundle_document =
  bd_auxiliary :: "auxiliary_artifact list"
  bd_rest :: 'm

text \<open>
  \<open>ce_stat_fault\<close> is an error of \<open>symlink_metadata\<close> other than that nothing is there; \<open>ce_target\<close> is what
  the symlink at a path leads to.
\<close>

record 'm cache_env =
  ce_not_found :: string
  ce_file_exists :: string
  ce_is_directory :: string
  ce_stat_fault :: "string \<Rightarrow> string option"
  ce_mkdir_fault :: "component list \<Rightarrow> string option"
  ce_link_is_dir :: "component list \<Rightarrow> bool"
  ce_create_fault :: "string \<Rightarrow> string option"
  ce_write :: "string \<Rightarrow> write_answer"
  ce_open_fault :: "string \<Rightarrow> string option"
  ce_read_fault :: "string \<Rightarrow> string option"
  ce_target :: "string \<Rightarrow> cache_node option"
  ce_canonicalize :: "string \<Rightarrow> string + string"
  ce_sha256 :: "u8 list \<Rightarrow> string"
  ce_debug :: "string \<Rightarrow> string"
  ce_print_schema :: "feature_schema_record \<Rightarrow> u8 list"
  ce_print_query :: "query_cache_record \<Rightarrow> u8 list"
  ce_print_value :: "json \<Rightarrow> u8 list"
  ce_print_manifest :: "feature_cache_manifest \<Rightarrow> u8 list"
  ce_parse_manifest :: "u8 list \<Rightarrow> string + feature_cache_manifest"
  ce_load_manifest :: "string \<Rightarrow> nat \<Rightarrow> file_system \<Rightarrow> string + 'm bundle_document"
  ce_write_manifest :: "'m bundle_document \<Rightarrow> string \<Rightarrow> file_system \<Rightarrow> string option \<times> file_system"
  ce_verify_for_load :: "string \<Rightarrow> nat \<Rightarrow> file_system \<Rightarrow> string + cache_plan"

datatype 'a stat_answer = StatNotFound string | StatFault string | StatOk 'a

definition cache_metadata :: "'m cache_env \<Rightarrow> file_system \<Rightarrow> string \<Rightarrow> cache_node stat_answer" where
  "cache_metadata env fs path =
     (case ce_stat_fault env path of
        Some e \<Rightarrow> StatFault e
      | None \<Rightarrow> (case fs (components path) of None \<Rightarrow> StatNotFound (ce_not_found env) | Some n \<Rightarrow> StatOk n))"

definition metadata_of :: "'m cache_env \<Rightarrow> file_system \<Rightarrow> string \<Rightarrow> (ltr_error, cache_node) outcome" where
  "metadata_of env fs path =
     (case cache_metadata env fs path of StatOk n \<Rightarrow> Ok n | StatNotFound e \<Rightarrow> Err (LtrIo e) | StatFault e \<Rightarrow> Err (LtrIo e))"

fun node_len :: "cache_node \<Rightarrow> nat" where
  "node_len (CacheFile bs) = length bs"
| "node_len _ = 0"

definition is_file :: "cache_node \<Rightarrow> bool" where
  "is_file n \<longleftrightarrow> (case n of CacheFile _ \<Rightarrow> True | _ \<Rightarrow> False)"

text \<open>
  \<open>File::open\<close>, which follows a symlink, and reading to the end: an error of opening, or an error of
  reading, or the bytes.
\<close>

definition open_node :: "'m cache_env \<Rightarrow> file_system \<Rightarrow> string \<Rightarrow> cache_node option" where
  "open_node env fs path = (if fs (components path) = Some CacheLink then ce_target env path else fs (components path))"

definition open_and_read :: "'m cache_env \<Rightarrow> file_system \<Rightarrow> string \<Rightarrow> (ltr_error, string + u8 list) outcome" where
  "open_and_read env fs path =
     (case (ce_open_fault env path, open_node env fs path) of
        (Some e, _) \<Rightarrow> Err (LtrIo e)
      | (None, None) \<Rightarrow> Err (LtrIo (ce_not_found env))
      | (None, Some n) \<Rightarrow>
          Ok (case (ce_read_fault env path, n) of
                (Some e, _) \<Rightarrow> Inl e
              | (None, CacheFile bs) \<Rightarrow> Inr bs
              | (None, CacheOther bs) \<Rightarrow> Inr bs
              | _ \<Rightarrow> Inl (ce_is_directory env)))"

definition sha256_path :: "'m cache_env \<Rightarrow> file_system \<Rightarrow> string \<Rightarrow> (ltr_error, string) outcome" where
  "sha256_path env fs path =
     obind (open_and_read env fs path) (\<lambda>r. case r of Inl e \<Rightarrow> Err (LtrIo e) | Inr bs \<Rightarrow> Ok (ce_sha256 env bs))"

section \<open>Paths\<close>

fun normal_parts :: "string \<Rightarrow> component list \<Rightarrow> (ltr_error, string list) outcome" where
  "normal_parts path [] = Ok []"
| "normal_parts path (Normal part # cs) = obind (normal_parts path cs) (\<lambda>parts. Ok (part # parts))"
| "normal_parts path (CurDir # cs) = normal_parts path cs"
| "normal_parts path (_ # cs) = Err (LtrInvalid (''feature cache path '' @ path @ '' must stay inside the bundle''))"

definition push_parts :: "string \<Rightarrow> string list \<Rightarrow> string" where
  "push_parts base parts = fold (\<lambda>part out. path_join out part) parts base"

definition normalize_bundle_relative_dir :: "string \<Rightarrow> (ltr_error, string) outcome" where
  "normalize_bundle_relative_dir path =
     (if path = [] \<or> is_absolute path then
        Err (LtrInvalid ''feature cache path must be a non-empty bundle-relative path'')
      else
        obind (normal_parts path (components path)) (\<lambda>parts.
        let out = push_parts [] parts in
        if out = [] then Err (LtrInvalid ''feature cache path must contain at least one normal component'')
        else Ok out))"

definition reject_existing_symlink_path :: "'m cache_env \<Rightarrow> file_system \<Rightarrow> string \<Rightarrow> (ltr_error, unit) outcome" where
  "reject_existing_symlink_path env fs path =
     (case cache_metadata env fs path of
        StatOk n \<Rightarrow> if n = CacheLink then Err (LtrInvalid (''feature cache path '' @ path @ '' must not be a symlink'')) else Ok ()
      | StatNotFound _ \<Rightarrow> Ok ()
      | StatFault e \<Rightarrow> Err (LtrIo e))"

fun reject_along :: "'m cache_env \<Rightarrow> file_system \<Rightarrow> component list \<Rightarrow> string \<Rightarrow> (ltr_error, unit) outcome" where
  "reject_along env fs [] cursor = Ok ()"
| "reject_along env fs (Normal part # cs) cursor =
     obind (reject_existing_symlink_path env fs (path_join cursor part)) (\<lambda>_.
     reject_along env fs cs (path_join cursor part))"
| "reject_along env fs (_ # cs) cursor = reject_along env fs cs cursor"

definition reject_bundle_relative_symlinks :: "'m cache_env \<Rightarrow> file_system \<Rightarrow> string \<Rightarrow> string \<Rightarrow> (ltr_error, unit) outcome" where
  "reject_bundle_relative_symlinks env fs bundle relative_path =
     obind (normalize_bundle_relative_dir relative_path) (\<lambda>relative_path.
     obind (reject_existing_symlink_path env fs bundle) (\<lambda>_.
     reject_along env fs (components relative_path) bundle))"

definition validate_aux_name :: "string \<Rightarrow> (ltr_error, unit) outcome" where
  "validate_aux_name aux_name =
     (if trim aux_name = [] \<or> aux_name \<noteq> trim aux_name then Err (LtrInvalid ''LTR feature auxiliary name is empty'') else Ok ())"

definition is_feature_cache_auxiliary_name :: "string \<Rightarrow> string \<Rightarrow> bool" where
  "is_feature_cache_auxiliary_name name aux_name \<longleftrightarrow>
     name = aux_name \<or> (case strip_prefix aux_name name of Some suffix \<Rightarrow> take 1 suffix = ''.'' | None \<Rightarrow> False)"

definition feature_cache_auxiliary_paths :: "string \<Rightarrow> string \<Rightarrow> (ltr_error, (string \<times> string) list) outcome" where
  "feature_cache_auxiliary_paths cache_relative_dir aux_name =
     obind (validate_aux_name aux_name) (\<lambda>_.
     obind (normalize_bundle_relative_dir cache_relative_dir) (\<lambda>dir.
     Ok (map (\<lambda>(name, file). (name, path_join dir file))
       [(aux_name, CACHE_MANIFEST_FILE), (aux_name @ ''.feature_schema'', FEATURE_SCHEMA_FILE), (aux_name @ ''.groups'', GROUPS_FILE),
        (aux_name @ ''.row_ids'', ROW_IDS_FILE), (aux_name @ ''.labels'', LABELS_FILE), (aux_name @ ''.features'', FEATURES_FILE),
        (aux_name @ ''.queries'', QUERIES_FILE), (aux_name @ ''.split'', SPLIT_FILE),
        (aux_name @ ''.provenance'', PROVENANCE_FILE)])))"

definition manifest_relative_path_string :: "string \<Rightarrow> (ltr_error, string) outcome" where
  "manifest_relative_path_string path = Ok (map (\<lambda>c. if c = backslash then CHR ''/'' else c) path)"

section \<open>Validation\<close>

fun check_feature_names :: "(string \<Rightarrow> string) \<Rightarrow> string \<Rightarrow> string \<Rightarrow> string set \<Rightarrow> string list \<Rightarrow> (ltr_error, unit) outcome" where
  "check_feature_names dbg blank duplicate seen [] = Ok ()"
| "check_feature_names dbg blank duplicate seen (name # names) =
     (if trim name = [] then Err (LtrInvalid blank)
      else if name \<in> seen then Err (LtrInvalid (duplicate @ dbg name))
      else check_feature_names dbg blank duplicate (insert name seen) names)"

fun sum_groups :: "u32 list \<Rightarrow> nat \<Rightarrow> nat option" where
  "sum_groups [] n = Some n"
| "sum_groups (g # gs) n = Option.bind (checked_add n (unat g)) (sum_groups gs)"

fun check_finite :: "(nat \<Rightarrow> string) \<Rightarrow> nat \<Rightarrow> f32 list \<Rightarrow> (ltr_error, unit) outcome" where
  "check_finite msg idx [] = Ok ()"
| "check_finite msg idx (v # vs) = (if \<not> f32_is_finite v then Err (LtrInvalid (msg idx)) else check_finite msg (Suc idx) vs)"

definition validate_data :: "'m cache_env \<Rightarrow> feature_cache_data \<Rightarrow> (ltr_error, unit) outcome" where
  "validate_data env d =
     (if fd_feature_names d = [] then Err (LtrInvalid ''feature_names must not be empty'') else
      obind (check_feature_names (ce_debug env) ''feature names must not be empty'' ''duplicate feature name '' {} (fd_feature_names d)) (\<lambda>_.
      if length (fd_groups d) \<noteq> length (fd_queries d) then
        Err (LtrInvalid (''group count '' @ show_nat (length (fd_groups d)) @ '' does not match query count '' @
          show_nat (length (fd_queries d)))) else
      obind (ok_or (LtrInvalid ''group row count overflows usize'') (sum_groups (fd_groups d) 0)) (\<lambda>row_count.
      if row_count \<noteq> length (fd_row_ids d) \<or> row_count \<noteq> length (fd_labels d) then
        Err (LtrInvalid (''group row count '' @ show_nat row_count @ '' does not match row_ids '' @
          show_nat (length (fd_row_ids d)) @ '' and labels '' @ show_nat (length (fd_labels d)))) else
      obind (ok_or (LtrInvalid ''feature matrix length overflows usize'') (checked_mul row_count (length (fd_feature_names d)))) (\<lambda>expected.
      if length (fd_features d) \<noteq> expected then
        Err (LtrInvalid (''feature value count '' @ show_nat (length (fd_features d)) @ '' does not match rows * features '' @
          show_nat expected)) else
      obind (check_finite (\<lambda>idx. ''feature value '' @ show_nat idx @ '' is not finite'') 0 (fd_features d)) (\<lambda>_.
      check_finite (\<lambda>idx. ''label '' @ show_nat idx @ '' is not finite'') 0 (fd_labels d))))))"

definition checked_bytes :: "string \<Rightarrow> nat \<Rightarrow> nat \<Rightarrow> nat \<Rightarrow> (ltr_error, unit) outcome" where
  "checked_bytes name n width actual =
     obind (ok_or (LtrInvalid (name @ '' byte count overflows u64'')) (checked_mul n width)) (\<lambda>expected.
     if actual \<noteq> expected then
       Err (LtrInvalid (name @ '' size '' @ show_nat actual @ '' does not match expected '' @ show_nat expected))
     else Ok ())"

definition validate_feature_cache_manifest_shape :: "'m cache_env \<Rightarrow> feature_cache_manifest \<Rightarrow> (ltr_error, unit) outcome" where
  "validate_feature_cache_manifest_shape env m =
     (if cm_schema_version m \<noteq> FEATURE_CACHE_SCHEMA_VERSION then
        Err (LtrInvalid (''feature cache schema_version '' @ ce_debug env (cm_schema_version m) @ '' is not supported''))
      else if cm_feature_names m = [] then Err (LtrInvalid ''feature cache manifest feature_names must not be empty'')
      else
        obind (check_feature_names (ce_debug env) ''feature cache manifest feature names must not be empty''
          ''duplicate feature cache manifest feature name '' {} (cm_feature_names m)) (\<lambda>_.
        if cm_query_count m \<noteq> cm_group_count m then
          Err (LtrInvalid (''feature cache manifest query_count '' @ show_nat (cm_query_count m) @ '' does not match group_count '' @
            show_nat (cm_group_count m))) else
        obind (ok_or (LtrInvalid ''feature cache manifest value count overflows usize'')
          (checked_mul (cm_row_count m) (length (cm_feature_names m)))) (\<lambda>values.
        obind (checked_bytes ''groups.u32'' (cm_group_count m) 4 (ad_file_size_bytes (cf_groups_u32 (cm_files m)))) (\<lambda>_.
        obind (checked_bytes ''row_ids.u64'' (cm_row_count m) 8 (ad_file_size_bytes (cf_row_ids_u64 (cm_files m)))) (\<lambda>_.
        obind (checked_bytes ''labels.f32'' (cm_row_count m) 4 (ad_file_size_bytes (cf_labels_f32 (cm_files m)))) (\<lambda>_.
        checked_bytes ''features.f32'' values 4 (ad_file_size_bytes (cf_features_f32 (cm_files m)))))))))"

section \<open>Writing a cache\<close>

text \<open>An operation on the file system returns its outcome and the file system it leaves.\<close>

type_synonym 'a file_op = "file_system \<Rightarrow> (ltr_error, 'a) outcome \<times> file_system"

definition fbind :: "'a file_op \<Rightarrow> ('a \<Rightarrow> 'b file_op) \<Rightarrow> 'b file_op" where
  "fbind m k fs = (case m fs of (Ok a, fs') \<Rightarrow> k a fs' | (Err e, fs') \<Rightarrow> (Err e, fs') | (Panic, fs') \<Rightarrow> (Panic, fs'))"

definition fread :: "(file_system \<Rightarrow> (ltr_error, 'a) outcome) \<Rightarrow> 'a file_op" where
  "fread r fs = (r fs, fs)"

text \<open>\<open>fs::create_dir_all\<close>: each ancestor that is missing is created, from the top.\<close>

fun create_dirs :: "'m cache_env \<Rightarrow> component list list \<Rightarrow> unit file_op" where
  "create_dirs env [] fs = (Ok (), fs)"
| "create_dirs env (dir # dirs) fs =
     (case fs dir of
        None \<Rightarrow> if is_normal (last dir) then
                  (case ce_mkdir_fault env dir of
                     Some e \<Rightarrow> (Err (LtrIo e), fs)
                   | None \<Rightarrow> create_dirs env dirs (fs(dir \<mapsto> CacheDir)))
                else create_dirs env dirs fs
      | Some n \<Rightarrow> if n = CacheDir \<or> n = CacheLink \<and> ce_link_is_dir env dir then create_dirs env dirs fs
                  else (Err (LtrIo (ce_file_exists env)), fs))"

definition create_dir_all :: "'m cache_env \<Rightarrow> string \<Rightarrow> unit file_op" where
  "create_dir_all env path =
     create_dirs env (map (\<lambda>k. take (Suc k) (components path)) [0..<length (components path)])"

text \<open>
  \<open>create_new\<close> refuses a path where anything is; then the bytes go through a \<open>BufWriter\<close> that is dropped
  without \<open>flush\<close>.
\<close>

definition write_new_file :: "'m cache_env \<Rightarrow> string \<Rightarrow> bool \<Rightarrow> u8 list \<Rightarrow> unit file_op" where
  "write_new_file env path json bytes fs =
     (case ce_create_fault env path of
        Some e \<Rightarrow> (Err (LtrIo e), fs)
      | None \<Rightarrow>
          if fs (components path) \<noteq> None then
            (Err (LtrInvalid (''feature cache path '' @ path @ '' already exists; refusing to overwrite'')), fs)
          else (case ce_write env path of
                  Written \<Rightarrow> (Ok (), fs(components path \<mapsto> CacheFile bytes))
                | WriteFault n by_json e \<Rightarrow>
                    (Err (if json \<and> by_json then LtrJson e else LtrIo e), fs(components path \<mapsto> CacheFile (take n bytes)))
                | LostFlush n \<Rightarrow> (Ok (), fs(components path \<mapsto> CacheFile (take n bytes)))))"

definition newline :: "u8 list" where
  "newline = [10]"

definition write_json :: "'m cache_env \<Rightarrow> string \<Rightarrow> u8 list \<Rightarrow> unit file_op" where
  "write_json env path text = write_new_file env path True (text @ newline)"

definition queries_bytes :: "'m cache_env \<Rightarrow> query_cache_record list \<Rightarrow> u8 list" where
  "queries_bytes env queries = concat (map (\<lambda>q. ce_print_query env q @ newline) queries)"

definition write_queries :: "'m cache_env \<Rightarrow> string \<Rightarrow> query_cache_record list \<Rightarrow> unit file_op" where
  "write_queries env path queries = write_new_file env path True (queries_bytes env queries)"

definition write_u32_file :: "'m cache_env \<Rightarrow> string \<Rightarrow> u32 list \<Rightarrow> unit file_op" where
  "write_u32_file env path values = write_new_file env path False (concat (map u32_to_le values))"

definition write_u64_file :: "'m cache_env \<Rightarrow> string \<Rightarrow> u64 list \<Rightarrow> unit file_op" where
  "write_u64_file env path values = write_new_file env path False (concat (map u64_to_le values))"

definition write_f32_file :: "'m cache_env \<Rightarrow> string \<Rightarrow> f32 list \<Rightarrow> unit file_op" where
  "write_f32_file env path values = write_new_file env path False (concat (map u32_to_le values))"

definition describe :: "'m cache_env \<Rightarrow> string \<Rightarrow> string \<Rightarrow> file_system \<Rightarrow> (ltr_error, artifact_descriptor) outcome" where
  "describe env root name fs =
     (let path = path_join root name in
      obind (reject_existing_symlink_path env fs path) (\<lambda>_.
      obind (metadata_of env fs path) (\<lambda>n.
      obind (sha256_path env fs path) (\<lambda>sha.
      Ok \<lparr>ad_path = name, ad_sha256 = sha, ad_file_size_bytes = node_len n\<rparr>))))"

definition describe_files :: "'m cache_env \<Rightarrow> string \<Rightarrow> file_system \<Rightarrow> (ltr_error, feature_cache_files) outcome" where
  "describe_files env root fs =
     obind (describe env root FEATURE_SCHEMA_FILE fs) (\<lambda>schema.
     obind (describe env root GROUPS_FILE fs) (\<lambda>groups.
     obind (describe env root ROW_IDS_FILE fs) (\<lambda>row_ids.
     obind (describe env root LABELS_FILE fs) (\<lambda>labels.
     obind (describe env root FEATURES_FILE fs) (\<lambda>features.
     obind (describe env root QUERIES_FILE fs) (\<lambda>queries.
     obind (describe env root SPLIT_FILE fs) (\<lambda>split.
     obind (describe env root PROVENANCE_FILE fs) (\<lambda>provenance.
     Ok \<lparr>cf_feature_schema = schema, cf_groups_u32 = groups, cf_row_ids_u64 = row_ids, cf_labels_f32 = labels,
         cf_features_f32 = features, cf_queries_jsonl = queries, cf_split_json = split,
         cf_provenance_json = provenance\<rparr>))))))))"

definition data_schema :: "feature_cache_data \<Rightarrow> feature_schema_record" where
  "data_schema d =
     \<lparr>fs_schema_version = FEATURE_CACHE_SCHEMA_VERSION, fs_feature_names = fd_feature_names d,
      fs_forbidden_features = fd_forbidden_features_present d, fs_dense_features_present = fd_dense_features_present d\<rparr>"

definition data_manifest :: "feature_cache_data \<Rightarrow> feature_cache_files \<Rightarrow> feature_cache_manifest" where
  "data_manifest d files =
     \<lparr>cm_schema_version = FEATURE_CACHE_SCHEMA_VERSION, cm_feature_names = fd_feature_names d,
      cm_query_count = length (fd_queries d), cm_row_count = length (fd_row_ids d), cm_group_count = length (fd_groups d),
      cm_label_kind = fd_label_kind d, cm_qrels_source_sha256 = fd_qrels_source_sha256 d,
      cm_bundle_manifest_sha256 = fd_bundle_manifest_sha256 d,
      cm_forbidden_features_present = fd_forbidden_features_present d,
      cm_dense_features_present = fd_dense_features_present d, cm_files = files\<rparr>"

definition write_feature_cache :: "'m cache_env \<Rightarrow> string \<Rightarrow> feature_cache_data \<Rightarrow> feature_cache_manifest file_op" where
  "write_feature_cache env root d =
     fbind (fread (\<lambda>_. validate_data env d)) (\<lambda>_.
     fbind (create_dir_all env root) (\<lambda>_.
     fbind (fread (\<lambda>fs. reject_existing_symlink_path env fs root)) (\<lambda>_.
     fbind (write_json env (path_join root FEATURE_SCHEMA_FILE) (ce_print_schema env (data_schema d))) (\<lambda>_.
     fbind (write_u32_file env (path_join root GROUPS_FILE) (fd_groups d)) (\<lambda>_.
     fbind (write_u64_file env (path_join root ROW_IDS_FILE) (fd_row_ids d)) (\<lambda>_.
     fbind (write_f32_file env (path_join root LABELS_FILE) (fd_labels d)) (\<lambda>_.
     fbind (write_f32_file env (path_join root FEATURES_FILE) (fd_features d)) (\<lambda>_.
     fbind (write_queries env (path_join root QUERIES_FILE) (fd_queries d)) (\<lambda>_.
     fbind (write_json env (path_join root SPLIT_FILE) (ce_print_value env (fd_split d))) (\<lambda>_.
     fbind (write_json env (path_join root PROVENANCE_FILE) (ce_print_value env (fd_provenance d))) (\<lambda>_.
     fbind (fread (describe_files env root)) (\<lambda>files.
     let m = data_manifest d files in
     fbind (write_json env (path_join root CACHE_MANIFEST_FILE) (ce_print_manifest env m)) (\<lambda>_.
     fread (\<lambda>_. Ok m))))))))))))))"

section \<open>Attaching a cache to a bundle\<close>

text \<open>\<open>Path::parent\<close>, or \<open>.\<close> where that is missing or empty; paths are printed with single separators.\<close>

fun component_text :: "component \<Rightarrow> string" where
  "component_text (Normal s) = s"
| "component_text CurDir = ''.''"
| "component_text ParentDir = ''..''"
| "component_text RootDir = ''/''"

definition path_of :: "component list \<Rightarrow> string" where
  "path_of cs = push_parts [] (map component_text cs)"

definition parent_or_dot :: "string \<Rightarrow> string" where
  "parent_or_dot path =
     (let up = path_of (butlast (components path)) in
      if components path = [] \<or> last (components path) = RootDir \<or> up = [] then ''.'' else up)"

definition cache_artifact :: "'m cache_env \<Rightarrow> file_system \<Rightarrow> string \<Rightarrow> nat \<Rightarrow> string \<times> string \<Rightarrow> (ltr_error, auxiliary_artifact) outcome" where
  "cache_artifact env fs base_dir limit = (\<lambda>(name, rel_path).
     let full_path = path_join base_dir rel_path in
     obind (reject_bundle_relative_symlinks env fs base_dir rel_path) (\<lambda>_.
     obind (metadata_of env fs full_path) (\<lambda>n.
     if \<not> is_file n then Err (LtrInvalid (''LTR feature auxiliary '' @ full_path @ '' is not a regular file''))
     else if node_len n > limit then
       Err (LtrInvalid (''LTR feature auxiliary '' @ full_path @ '' is '' @ show_nat (node_len n) @
         '' bytes, exceeding max_auxiliary_artifact_bytes='' @ show_nat limit))
     else
       obind (manifest_relative_path_string rel_path) (\<lambda>path.
       obind (sha256_path env fs full_path) (\<lambda>sha.
       Ok \<lparr>aa_name = name, aa_path = path, aa_sha256 = sha, aa_file_size_bytes = node_len n, aa_required = True\<rparr>)))))"

definition attach_document :: "'m cache_env \<Rightarrow> file_system \<Rightarrow> string \<Rightarrow> string \<Rightarrow> bundle_feature_cache_options \<Rightarrow> 'm bundle_document
    \<Rightarrow> (ltr_error, 'm bundle_document) outcome" where
  "attach_document env fs base_dir dir options document =
     (let kept = filter (\<lambda>a. \<not> is_feature_cache_auxiliary_name (aa_name a) (bo_aux_name options)) (bd_auxiliary document) in
      obind (feature_cache_auxiliary_paths dir (bo_aux_name options)) (\<lambda>paths.
      obind (traverse (cache_artifact env fs base_dir (bo_max_auxiliary_artifact_bytes options)) paths) (\<lambda>added.
      Ok (document\<lparr>bd_auxiliary := kept @ added\<rparr>))))"

definition attach_feature_cache_auxiliaries :: "'m cache_env \<Rightarrow> string \<Rightarrow> string \<Rightarrow> bundle_feature_cache_options \<Rightarrow> unit file_op" where
  "attach_feature_cache_auxiliaries env manifest_path cache_relative_dir options =
     fbind (fread (\<lambda>_. validate_aux_name (bo_aux_name options))) (\<lambda>_.
     fbind (fread (\<lambda>_. normalize_bundle_relative_dir cache_relative_dir)) (\<lambda>dir.
     fbind (fread (\<lambda>fs. case ce_load_manifest env manifest_path (bo_max_auxiliary_artifact_bytes options) fs of
         Inl e \<Rightarrow> Err (LtrManifest (''failed to load bundle manifest '' @ manifest_path @ '': '' @ e))
       | Inr document \<Rightarrow> Ok document)) (\<lambda>document.
     fbind (fread (\<lambda>fs. attach_document env fs (parent_or_dot manifest_path) dir options document)) (\<lambda>document.
     (\<lambda>fs. case ce_write_manifest env document manifest_path fs of
         (Some e, fs') \<Rightarrow> (Err (LtrManifest (''failed to write bundle manifest '' @ manifest_path @ '': '' @ e)), fs')
       | (None, fs') \<Rightarrow> (Ok (), fs'))))))"

section \<open>Reading a cache back\<close>

record verified_feature_cache_paths =
  vp_feature_schema :: string
  vp_groups_u32 :: string
  vp_row_ids_u64 :: string
  vp_labels_f32 :: string
  vp_features_f32 :: string
  vp_queries_jsonl :: string
  vp_split_json :: string
  vp_provenance_json :: string

record verified_feature_cache =
  vc_manifest :: feature_cache_manifest
  vc_manifest_path :: string
  vc_paths :: verified_feature_cache_paths

definition read_feature_cache_manifest_file :: "'m cache_env \<Rightarrow> file_system \<Rightarrow> string \<Rightarrow> (ltr_error, feature_cache_manifest) outcome" where
  "read_feature_cache_manifest_file env fs path =
     obind (open_and_read env fs path) (\<lambda>r.
     case r of
       Inl e \<Rightarrow> Err (LtrJson e)
     | Inr bs \<Rightarrow> (case ce_parse_manifest env bs of Inl e \<Rightarrow> Err (LtrJson e) | Inr m \<Rightarrow> Ok m))"

definition validate_descriptor :: "'m cache_env \<Rightarrow> file_system \<Rightarrow> artifact_descriptor \<Rightarrow> string \<Rightarrow> string \<Rightarrow> (ltr_error, unit) outcome" where
  "validate_descriptor env fs descriptor expected_name verified_path =
     (if ad_path descriptor \<noteq> expected_name then
        Err (LtrInvalid (''feature cache descriptor path '' @ ce_debug env (ad_path descriptor) @ '' must be '' @
          ce_debug env expected_name))
      else
        obind (metadata_of env fs verified_path) (\<lambda>n.
        if \<not> is_file n then
          Err (LtrInvalid (''verified feature cache artifact '' @ verified_path @ '' is not a regular file''))
        else if ad_file_size_bytes descriptor \<noteq> node_len n then
          Err (LtrInvalid (''feature cache descriptor '' @ ce_debug env expected_name @ '' size '' @
            show_nat (ad_file_size_bytes descriptor) @ '' does not match verified artifact size '' @ show_nat (node_len n)))
        else
          obind (sha256_path env fs verified_path) (\<lambda>sha.
          if ad_sha256 descriptor \<noteq> sha then
            Err (LtrInvalid (''feature cache descriptor '' @ ce_debug env expected_name @
              '' sha256 does not match verified artifact''))
          else Ok ())))"

definition validate_verified_feature_descriptors :: "'m cache_env \<Rightarrow> file_system \<Rightarrow> feature_cache_manifest \<Rightarrow> verified_feature_cache_paths
    \<Rightarrow> (ltr_error, unit) outcome" where
  "validate_verified_feature_descriptors env fs m paths =
     obind (validate_descriptor env fs (cf_feature_schema (cm_files m)) FEATURE_SCHEMA_FILE (vp_feature_schema paths)) (\<lambda>_.
     obind (validate_descriptor env fs (cf_groups_u32 (cm_files m)) GROUPS_FILE (vp_groups_u32 paths)) (\<lambda>_.
     obind (validate_descriptor env fs (cf_row_ids_u64 (cm_files m)) ROW_IDS_FILE (vp_row_ids_u64 paths)) (\<lambda>_.
     obind (validate_descriptor env fs (cf_labels_f32 (cm_files m)) LABELS_FILE (vp_labels_f32 paths)) (\<lambda>_.
     obind (validate_descriptor env fs (cf_features_f32 (cm_files m)) FEATURES_FILE (vp_features_f32 paths)) (\<lambda>_.
     obind (validate_descriptor env fs (cf_queries_jsonl (cm_files m)) QUERIES_FILE (vp_queries_jsonl paths)) (\<lambda>_.
     obind (validate_descriptor env fs (cf_split_json (cm_files m)) SPLIT_FILE (vp_split_json paths)) (\<lambda>_.
     validate_descriptor env fs (cf_provenance_json (cm_files m)) PROVENANCE_FILE (vp_provenance_json paths))))))))"

definition canonical_bundle_root :: "'m cache_env \<Rightarrow> string \<Rightarrow> (ltr_error, string) outcome" where
  "canonical_bundle_root env bundle =
     (case ce_canonicalize env bundle of
        Inl e \<Rightarrow> Err (LtrManifest (''failed to canonicalize bundle root '' @ bundle @ '': '' @ e))
      | Inr root \<Rightarrow> Ok root)"

text \<open>\<open>Path::strip_prefix\<close> compares components.\<close>

definition strip_path_prefix :: "string \<Rightarrow> string \<Rightarrow> string option" where
  "strip_path_prefix base path =
     (let n = length (components base) in
      if take n (components path) = components base then
        Some (path_of (drop n (components path)))
      else None)"

definition validate_verified_bundle_path :: "'m cache_env \<Rightarrow> file_system \<Rightarrow> string \<Rightarrow> string \<Rightarrow> (ltr_error, unit) outcome" where
  "validate_verified_bundle_path env fs bundle_root path =
     (case strip_path_prefix bundle_root path of
        None \<Rightarrow> Err (LtrManifest (''verified LTR feature auxiliary '' @ path @ '' is outside bundle '' @ bundle_root))
      | Some relative_path \<Rightarrow> reject_bundle_relative_symlinks env fs bundle_root relative_path)"

definition require_feature_auxiliary :: "'m cache_env \<Rightarrow> file_system \<Rightarrow> string \<Rightarrow> cache_plan \<Rightarrow> string \<Rightarrow> string \<Rightarrow> (ltr_error, string) outcome" where
  "require_feature_auxiliary env fs bundle_root plan aux_name suffix =
     (let name = aux_name @ ''.'' @ suffix in
      case plan name of
        Inl e \<Rightarrow> Err (LtrManifest (''verified bundle is missing required LTR feature auxiliary '' @ ce_debug env name @ '': '' @ e))
      | Inr path \<Rightarrow> obind (validate_verified_bundle_path env fs bundle_root path) (\<lambda>_. Ok path))"

definition verified_plan :: "'m cache_env \<Rightarrow> file_system \<Rightarrow> string \<Rightarrow> bundle_feature_cache_options \<Rightarrow> (ltr_error, cache_plan) outcome" where
  "verified_plan env fs manifest_path options =
     (case ce_verify_for_load env manifest_path (bo_max_auxiliary_artifact_bytes options) fs of
        Inl e \<Rightarrow> Err (LtrManifest (''failed to verify bundle manifest '' @ manifest_path @ '': '' @ e))
      | Inr plan \<Rightarrow> Ok plan)"

definition require_cache_manifest :: "'m cache_env \<Rightarrow> cache_plan \<Rightarrow> string \<Rightarrow> (ltr_error, string) outcome" where
  "require_cache_manifest env plan aux_name =
     (case plan aux_name of
        Inl e \<Rightarrow> Err (LtrManifest (''verified bundle is missing required LTR feature auxiliary '' @ ce_debug env aux_name @ '': '' @ e))
      | Inr path \<Rightarrow> Ok path)"

definition require_feature_paths :: "'m cache_env \<Rightarrow> file_system \<Rightarrow> string \<Rightarrow> cache_plan \<Rightarrow> string
    \<Rightarrow> (ltr_error, verified_feature_cache_paths) outcome" where
  "require_feature_paths env fs root plan aux_name =
     obind (require_feature_auxiliary env fs root plan aux_name ''feature_schema'') (\<lambda>schema.
     obind (require_feature_auxiliary env fs root plan aux_name ''groups'') (\<lambda>groups.
     obind (require_feature_auxiliary env fs root plan aux_name ''row_ids'') (\<lambda>row_ids.
     obind (require_feature_auxiliary env fs root plan aux_name ''labels'') (\<lambda>labels.
     obind (require_feature_auxiliary env fs root plan aux_name ''features'') (\<lambda>features.
     obind (require_feature_auxiliary env fs root plan aux_name ''queries'') (\<lambda>queries.
     obind (require_feature_auxiliary env fs root plan aux_name ''split'') (\<lambda>split.
     obind (require_feature_auxiliary env fs root plan aux_name ''provenance'') (\<lambda>provenance.
     Ok \<lparr>vp_feature_schema = schema, vp_groups_u32 = groups, vp_row_ids_u64 = row_ids, vp_labels_f32 = labels,
         vp_features_f32 = features, vp_queries_jsonl = queries, vp_split_json = split,
         vp_provenance_json = provenance\<rparr>))))))))"

definition BUNDLE_MANIFEST_FILE :: string where
  "BUNDLE_MANIFEST_FILE = ''manifest.json''"

definition read_verified_feature_cache_bundle_auxiliary :: "'m cache_env \<Rightarrow> file_system \<Rightarrow> string \<Rightarrow> bundle_feature_cache_options
    \<Rightarrow> (ltr_error, verified_feature_cache) outcome" where
  "read_verified_feature_cache_bundle_auxiliary env fs bundle options =
     obind (validate_aux_name (bo_aux_name options)) (\<lambda>_.
     obind (canonical_bundle_root env bundle) (\<lambda>root.
     obind (verified_plan env fs (path_join bundle BUNDLE_MANIFEST_FILE) options) (\<lambda>plan.
     obind (require_cache_manifest env plan (bo_aux_name options)) (\<lambda>manifest_path.
     obind (validate_verified_bundle_path env fs root manifest_path) (\<lambda>_.
     obind (read_feature_cache_manifest_file env fs manifest_path) (\<lambda>m.
     obind (validate_feature_cache_manifest_shape env m) (\<lambda>_.
     obind (require_feature_paths env fs root plan (bo_aux_name options)) (\<lambda>paths.
     obind (validate_verified_feature_descriptors env fs m paths) (\<lambda>_.
     Ok \<lparr>vc_manifest = m, vc_manifest_path = manifest_path, vc_paths = paths\<rparr>)))))))))"

definition verify_feature_cache_bundle_auxiliary :: "'m cache_env \<Rightarrow> file_system \<Rightarrow> string \<Rightarrow> bundle_feature_cache_options
    \<Rightarrow> (ltr_error, string) outcome" where
  "verify_feature_cache_bundle_auxiliary env fs bundle options =
     obind (validate_aux_name (bo_aux_name options)) (\<lambda>_.
     obind (verified_plan env fs (path_join bundle BUNDLE_MANIFEST_FILE) options) (\<lambda>plan.
     obind (require_cache_manifest env plan (bo_aux_name options)) (\<lambda>path.
     obind (read_verified_feature_cache_bundle_auxiliary env fs bundle options) (\<lambda>_. Ok path))))"

record feature_cache_bundle_report =
  fr_cache_root :: string
  fr_cache_relative_dir :: string
  fr_manifest :: feature_cache_manifest
  fr_verified_manifest_path :: string
  fr_aux_name :: string

definition write_feature_cache_bundle_auxiliary :: "'m cache_env \<Rightarrow> string \<Rightarrow> string \<Rightarrow> feature_cache_data \<Rightarrow> bundle_feature_cache_options
    \<Rightarrow> feature_cache_bundle_report file_op" where
  "write_feature_cache_bundle_auxiliary env bundle cache_relative_dir d options =
     fbind (fread (\<lambda>_. normalize_bundle_relative_dir cache_relative_dir)) (\<lambda>dir.
     fbind (fread (\<lambda>fs. reject_bundle_relative_symlinks env fs bundle dir)) (\<lambda>_.
     let cache_root = path_join bundle dir in
     fbind (write_feature_cache env cache_root d) (\<lambda>m.
     fbind (attach_feature_cache_auxiliaries env (path_join bundle BUNDLE_MANIFEST_FILE) dir options) (\<lambda>_.
     fbind (fread (\<lambda>fs. verify_feature_cache_bundle_auxiliary env fs bundle options)) (\<lambda>path.
     fread (\<lambda>_. Ok \<lparr>fr_cache_root = cache_root, fr_cache_relative_dir = dir, fr_manifest = m,
       fr_verified_manifest_path = path, fr_aux_name = bo_aux_name options\<rparr>))))))"

end
