(* ===== verification/LtrCacheFacts.thy ===== *)
theory LtrCacheFacts
  imports LtrCache
begin

text \<open>
  What the feature cache guarantees (\<open>ordinaldb-ltr/src/lib.rs\<close>): the data that validation accepts, the files
  that a write leaves, that they pass the checks of the reader and hold the data, what a verified read
  guarantees, and what attaching a cache to a bundle changes.
\<close>

section \<open>Paths of a cache\<close>

lemma split_slash_not_Nil [simp]: "split_slash s \<noteq> []"
  by (induction s) (auto split: list.split)

lemma split_slash_sep: "split_slash (a @ CHR ''/'' # b) = split_slash a @ split_slash b"
  by (induction a) (auto split: list.split)

lemma parse_components_append: "parse_components (ps @ qs) = parse_components ps @ parse_components qs"
  by (induction ps) auto

text \<open>A name that stands for itself.\<close>

definition entry_name :: "string \<Rightarrow> bool" where
  "entry_name s \<longleftrightarrow> s \<noteq> [] \<and> s \<noteq> ''.'' \<and> s \<noteq> ''..'' \<and> CHR ''/'' \<notin> set s"

lemma split_slash_entry: "CHR ''/'' \<notin> set s \<Longrightarrow> split_slash s = [s]"
  by (induction s) auto

definition name_component :: "string \<Rightarrow> component" where
  "name_component s = (if s = ''..'' then ParentDir else Normal s)"

lemma components_name: "s \<noteq> [] \<Longrightarrow> s \<noteq> ''.'' \<Longrightarrow> CHR ''/'' \<notin> set s \<Longrightarrow> components s = [name_component s]"
  by (cases s) (auto simp: components_def split_slash_entry is_absolute_def name_component_def)

lemma hd_split_slash_append: "base \<noteq> [] \<Longrightarrow> hd (split_slash (base @ CHR ''/'' # rest)) = hd (split_slash base)"
  by (simp add: split_slash_sep)

lemma components_sep:
  assumes "base \<noteq> []"
  shows "components (base @ CHR ''/'' # rest) = components base @ parse_components (split_slash rest)"
proof -
  have "is_absolute (base @ CHR ''/'' # rest) = is_absolute base"
    using assms by (cases base) (simp_all add: is_absolute_def)
  then show ?thesis
    using hd_split_slash_append [OF assms, of rest]
    by (simp add: components_def Let_def split_slash_sep parse_components_append)
qed

lemma components_trailing: "base \<noteq> [] \<Longrightarrow> components (base @ ''/'') = components base"
  using components_sep [of base "[]"] by simp

lemma components_join_name:
  assumes name: "name \<noteq> []" "name \<noteq> ''.''" "CHR ''/'' \<notin> set name"
  shows "components (path_join base name) = components base @ [name_component name]"
proof -
  have rel: "\<not> is_absolute name" using name by (cases name) (auto simp: is_absolute_def)
  have parts: "parse_components (split_slash name) = [name_component name]"
    using name by (auto simp: name_component_def split_slash_entry)
  show ?thesis
  proof (cases "base = []")
    case True
    then show ?thesis using rel components_name [OF name] by (simp add: path_join_def components_def is_absolute_def)
  next
    case False
    show ?thesis
    proof (cases "last base = CHR ''/''")
      case False
      then show ?thesis using rel \<open>base \<noteq> []\<close> parts components_sep [of base name] by (simp add: path_join_def)
    next
      case True
      then obtain stem where stem: "base = stem @ ''/''" using False by (metis append_butlast_last_id)
      show ?thesis
      proof (cases "stem = []")
        case True
        then show ?thesis using rel stem parts by (simp add: path_join_def components_def is_absolute_def)
      next
        case False
        then show ?thesis
          using rel stem parts components_sep [of stem name] components_trailing [of stem] by (simp add: path_join_def)
      qed
    qed
  qed
qed

lemma components_join_plain:
  "entry_name name \<Longrightarrow> components (path_join base name) = components base @ [Normal name]"
  by (simp add: components_join_name entry_name_def name_component_def)

definition cache_file_names :: "string list" where
  "cache_file_names =
     [FEATURE_SCHEMA_FILE, GROUPS_FILE, ROW_IDS_FILE, LABELS_FILE, FEATURES_FILE, QUERIES_FILE, SPLIT_FILE, PROVENANCE_FILE,
      CACHE_MANIFEST_FILE]"

lemmas file_name_defs =
  FEATURE_SCHEMA_FILE_def GROUPS_FILE_def ROW_IDS_FILE_def LABELS_FILE_def FEATURES_FILE_def QUERIES_FILE_def
  SPLIT_FILE_def PROVENANCE_FILE_def CACHE_MANIFEST_FILE_def

lemma cache_file_names_ok: "distinct cache_file_names" "list_all entry_name cache_file_names"
  by (simp_all add: cache_file_names_def file_name_defs entry_name_def)

text \<open>The key of a cache file in the file system.\<close>

definition cache_key :: "string \<Rightarrow> string \<Rightarrow> component list" where
  "cache_key root name = components root @ [Normal name]"

lemma cache_key_eq [simp]: "cache_key root a = cache_key root b \<longleftrightarrow> a = b"
  by (simp add: cache_key_def)

lemma components_cache_file: "name \<in> set cache_file_names \<Longrightarrow> components (path_join root name) = cache_key root name"
  using cache_file_names_ok(2) by (auto simp: cache_key_def list_all_iff components_join_plain)

section \<open>What validation accepts\<close>

lemma check_feature_names_Ok:
  "check_feature_names dbg blank dup seen names = Ok () \<longleftrightarrow>
     distinct names \<and> set names \<inter> seen = {} \<and> [] \<notin> trim ` set names"
  by (induction dbg blank dup seen names rule: check_feature_names.induct) auto

lemma sum_groups_Some: "sum_groups gs n = Some r \<longleftrightarrow> r = n + sum_list (map unat gs) \<and> (r \<le> usize_max \<or> gs = [])"
proof (induction gs n rule: sum_groups.induct)
  case (2 g gs n)
  then show ?case by (cases "gs = []") (auto simp: checked_add_def)
qed auto

lemma check_finite_values_Ok: "check_finite msg i vs = Ok () \<longleftrightarrow> list_all f32_is_finite vs"
  by (induction msg i vs rule: check_finite.induct) auto

text \<open>Data whose rows, groups and columns agree.\<close>

definition cache_data_ok :: "feature_cache_data \<Rightarrow> bool" where
  "cache_data_ok d \<longleftrightarrow>
     fd_feature_names d \<noteq> [] \<and> distinct (fd_feature_names d) \<and> [] \<notin> trim ` set (fd_feature_names d) \<and>
     length (fd_queries d) = length (fd_groups d) \<and>
     length (fd_row_ids d) = sum_list (map unat (fd_groups d)) \<and> length (fd_labels d) = length (fd_row_ids d) \<and>
     length (fd_features d) = length (fd_row_ids d) * length (fd_feature_names d) \<and>
     length (fd_row_ids d) \<le> usize_max \<and> length (fd_features d) \<le> usize_max \<and>
     list_all f32_is_finite (fd_features d) \<and> list_all f32_is_finite (fd_labels d)"

lemma validate_data_Ok: "validate_data env d = Ok () \<longleftrightarrow> cache_data_ok d"
proof -
  have "sum_groups (fd_groups d) 0 = Some r \<longleftrightarrow> r = sum_list (map unat (fd_groups d)) \<and> r \<le> usize_max" for r
    by (auto simp: sum_groups_Some usize_max_def)
  then show ?thesis
    by (auto simp: validate_data_def cache_data_ok_def outcome_simps check_feature_names_Ok check_finite_values_Ok
        checked_mul_def split: if_splits option.splits)
qed

lemma checked_bytes_Ok: "checked_bytes name n width actual = Ok () \<longleftrightarrow> actual = n * width \<and> n * width \<le> usize_max"
  by (auto simp: checked_bytes_def checked_mul_def outcome_simps split: if_splits)

text \<open>A manifest whose counts fit its names and the sizes it gives for its binary files.\<close>

definition cache_shape_ok :: "feature_cache_manifest \<Rightarrow> bool" where
  "cache_shape_ok m \<longleftrightarrow>
     cm_schema_version m = FEATURE_CACHE_SCHEMA_VERSION \<and> cm_feature_names m \<noteq> [] \<and> distinct (cm_feature_names m) \<and>
     [] \<notin> trim ` set (cm_feature_names m) \<and> cm_query_count m = cm_group_count m \<and>
     ad_file_size_bytes (cf_groups_u32 (cm_files m)) = cm_group_count m * 4 \<and>
     ad_file_size_bytes (cf_row_ids_u64 (cm_files m)) = cm_row_count m * 8 \<and>
     ad_file_size_bytes (cf_labels_f32 (cm_files m)) = cm_row_count m * 4 \<and>
     ad_file_size_bytes (cf_features_f32 (cm_files m)) = cm_row_count m * length (cm_feature_names m) * 4 \<and>
     cm_group_count m * 4 \<le> usize_max \<and> cm_row_count m * 8 \<le> usize_max \<and>
     cm_row_count m * length (cm_feature_names m) * 4 \<le> usize_max"

lemma validate_shape_Ok: "validate_feature_cache_manifest_shape env m = Ok () \<longleftrightarrow> cache_shape_ok m"
  by (auto simp: validate_feature_cache_manifest_shape_def cache_shape_ok_def outcome_simps check_feature_names_Ok
      checked_bytes_Ok checked_mul_def split: if_splits)

section \<open>What a write leaves\<close>

text \<open>Calls that do not fail, except that the end of a file may be lost.\<close>

definition env_calm :: "'m cache_env \<Rightarrow> bool" where
  "env_calm env \<longleftrightarrow>
     (\<forall>path. ce_stat_fault env path = None \<and> ce_create_fault env path = None \<and> ce_open_fault env path = None \<and>
        ce_read_fault env path = None) \<and> (\<forall>dir. ce_mkdir_fault env dir = None)"

fun kept :: "write_answer \<Rightarrow> u8 list \<Rightarrow> u8 list" where
  "kept Written bytes = bytes"
| "kept (WriteFault n _ _) bytes = take n bytes"
| "kept (LostFlush n) bytes = take n bytes"

definition no_write_fault :: "'m cache_env \<Rightarrow> bool" where
  "no_write_fault env \<longleftrightarrow> (\<forall>path. case ce_write env path of WriteFault _ _ _ \<Rightarrow> False | _ \<Rightarrow> True)"

text \<open>The root can be made, and none of the nine files is there.\<close>

definition cache_dir_free :: "file_system \<Rightarrow> string \<Rightarrow> bool" where
  "cache_dir_free fs root \<longleftrightarrow>
     (\<forall>k<length (components root). fs (take (Suc k) (components root)) \<in> {None, Some CacheDir}) \<and>
     (components root = [] \<longrightarrow> fs [] \<noteq> Some CacheLink) \<and>
     (\<forall>name\<in>set cache_file_names. fs (cache_key root name) = None)"

text \<open>The eight files of a cache and what is written to them.\<close>

definition cache_files :: "'m cache_env \<Rightarrow> feature_cache_data \<Rightarrow> (string \<times> u8 list) list" where
  "cache_files env d =
     [(FEATURE_SCHEMA_FILE, ce_print_schema env (data_schema d) @ newline),
      (GROUPS_FILE, concat (map u32_to_le (fd_groups d))),
      (ROW_IDS_FILE, concat (map u64_to_le (fd_row_ids d))),
      (LABELS_FILE, concat (map u32_to_le (fd_labels d))),
      (FEATURES_FILE, concat (map u32_to_le (fd_features d))),
      (QUERIES_FILE, queries_bytes env (fd_queries d)),
      (SPLIT_FILE, ce_print_value env (fd_split d) @ newline),
      (PROVENANCE_FILE, ce_print_value env (fd_provenance d) @ newline)]"

definition cache_file_bytes :: "'m cache_env \<Rightarrow> string \<Rightarrow> feature_cache_data \<Rightarrow> string \<Rightarrow> u8 list" where
  "cache_file_bytes env root d name = kept (ce_write env (path_join root name)) (the (map_of (cache_files env d) name))"

lemma fbind_eq_Ok: "fbind m k fs = (Ok b, fs'') \<longleftrightarrow> (\<exists>a fs'. m fs = (Ok a, fs') \<and> k a fs' = (Ok b, fs''))"
  by (auto simp: fbind_def split: prod.splits outcome.splits)

lemma create_dirs_calm:
  assumes "env_calm env" and "\<And>dir. dir \<in> set dirs \<Longrightarrow> fs dir \<in> {None, Some CacheDir}"
  shows "\<exists>fs'. create_dirs env dirs fs = (Ok (), fs') \<and> (\<forall>dir. dir \<notin> set dirs \<longrightarrow> fs' dir = fs dir) \<and>
    (\<forall>dir\<in>set dirs. fs' dir \<in> {None, Some CacheDir})"
  using assms(2)
proof (induction dirs arbitrary: fs)
  case (Cons dir dirs)
  let ?fs = "if fs dir = None \<and> is_normal (last dir) then fs(dir \<mapsto> CacheDir) else fs"
  have step: "create_dirs env (dir # dirs) fs = create_dirs env dirs ?fs"
    using Cons.prems [of dir] assms(1) by (auto simp: env_calm_def)
  have "\<And>x. x \<in> set (dir # dirs) \<Longrightarrow> ?fs x \<in> {None, Some CacheDir}" using Cons.prems by auto
  moreover obtain fs' where fs': "create_dirs env dirs ?fs = (Ok (), fs')" "\<forall>x. x \<notin> set dirs \<longrightarrow> fs' x = ?fs x"
      "\<forall>x\<in>set dirs. fs' x \<in> {None, Some CacheDir}"
    using Cons.IH [of ?fs] calculation by fastforce
  ultimately have "fs' x \<in> {None, Some CacheDir}" if "x \<in> set (dir # dirs)" for x
    using that by (cases "x \<in> set dirs") (auto split: if_splits)
  moreover have "fs' x = fs x" if "x \<notin> set (dir # dirs)" for x using that fs'(2) by auto
  ultimately show ?case using step fs'(1) by auto
qed simp

lemma create_dir_all_calm:
  assumes "env_calm env" and "cache_dir_free fs root"
  shows "\<exists>fs'. create_dir_all env root fs = (Ok (), fs') \<and> (\<forall>name\<in>set cache_file_names. fs' (cache_key root name) = None) \<and>
    fs' (components root) \<noteq> Some CacheLink"
proof -
  let ?dirs = "map (\<lambda>k. take (Suc k) (components root)) [0..<length (components root)]"
  have dirs: "dir \<in> set ?dirs \<Longrightarrow> fs dir \<in> {None, Some CacheDir}" for dir
    using assms(2) by (auto simp: cache_dir_free_def)
  have short: "dir \<in> set ?dirs \<Longrightarrow> length dir \<le> length (components root)" for dir by auto
  obtain fs' where fs': "create_dirs env ?dirs fs = (Ok (), fs')" "\<And>dir. dir \<notin> set ?dirs \<Longrightarrow> fs' dir = fs dir"
      "\<And>dir. dir \<in> set ?dirs \<Longrightarrow> fs' dir \<in> {None, Some CacheDir}"
    using create_dirs_calm [OF assms(1), of ?dirs fs] dirs by blast
  have "cache_key root name \<notin> set ?dirs" for name using short [of "cache_key root name"] by (auto simp: cache_key_def)
  then have free: "\<forall>name\<in>set cache_file_names. fs' (cache_key root name) = None"
    using assms(2) fs'(2) by (simp add: cache_dir_free_def)
  have "fs' (components root) \<noteq> Some CacheLink"
  proof (cases "components root = []")
    case True
    then show ?thesis using assms(2) fs'(2) [of "[]"] by (simp add: cache_dir_free_def)
  next
    case False
    then have "components root \<in> set ?dirs"
      by (auto intro!: image_eqI [where x = "length (components root) - 1"])
    then show ?thesis using fs'(3) [of "components root"] by auto
  qed
  then show ?thesis using fs'(1) free by (auto simp: create_dir_all_def)
qed

lemma write_new_file_calm:
  assumes "env_calm env" and "no_write_fault env" and "name \<in> set cache_file_names" and "fs (cache_key root name) = None"
  shows "write_new_file env (path_join root name) json bytes fs =
    (Ok (), fs(cache_key root name \<mapsto> CacheFile (kept (ce_write env (path_join root name)) bytes)))"
proof -
  have "case ce_write env (path_join root name) of WriteFault _ _ _ \<Rightarrow> False | _ \<Rightarrow> True"
    using assms(2) by (simp add: no_write_fault_def)
  then show ?thesis using assms
    by (auto simp: write_new_file_def env_calm_def components_cache_file split: write_answer.splits)
qed

lemma describe_calm:
  assumes "env_calm env" and "name \<in> set cache_file_names" and "fs (cache_key root name) = Some (CacheFile bytes)"
  shows "describe env root name fs = Ok \<lparr>ad_path = name, ad_sha256 = ce_sha256 env bytes, ad_file_size_bytes = length bytes\<rparr>"
  using assms by (simp add: describe_def reject_existing_symlink_path_def cache_metadata_def metadata_of_def sha256_path_def
      open_and_read_def open_node_def env_calm_def components_cache_file)

lemma file_names_distinct:
  "distinct cache_file_names" "distinct (rev cache_file_names)"
  using cache_file_names_ok(1) by simp_all

lemmas file_names_neq = file_names_distinct [simplified cache_file_names_def rev.simps append.simps distinct.simps
    list.set insert_iff empty_iff de_Morgan_disj simp_thms]

text \<open>The file system after the eight files, and the manifest that describes them.\<close>

definition put_cache_file :: "'m cache_env \<Rightarrow> string \<Rightarrow> feature_cache_data \<Rightarrow> string \<Rightarrow> file_system \<Rightarrow> file_system" where
  "put_cache_file env root d name fs = fs(cache_key root name \<mapsto> CacheFile (cache_file_bytes env root d name))"

definition file_descriptor :: "'m cache_env \<Rightarrow> string \<Rightarrow> feature_cache_data \<Rightarrow> string \<Rightarrow> artifact_descriptor" where
  "file_descriptor env root d name =
     (let bytes = cache_file_bytes env root d name in
      \<lparr>ad_path = name, ad_sha256 = ce_sha256 env bytes, ad_file_size_bytes = length bytes\<rparr>)"

definition written_manifest :: "'m cache_env \<Rightarrow> string \<Rightarrow> feature_cache_data \<Rightarrow> feature_cache_manifest" where
  "written_manifest env root d =
     data_manifest d
       \<lparr>cf_feature_schema = file_descriptor env root d FEATURE_SCHEMA_FILE, cf_groups_u32 = file_descriptor env root d GROUPS_FILE,
        cf_row_ids_u64 = file_descriptor env root d ROW_IDS_FILE, cf_labels_f32 = file_descriptor env root d LABELS_FILE,
        cf_features_f32 = file_descriptor env root d FEATURES_FILE, cf_queries_jsonl = file_descriptor env root d QUERIES_FILE,
        cf_split_json = file_descriptor env root d SPLIT_FILE, cf_provenance_json = file_descriptor env root d PROVENANCE_FILE\<rparr>"

definition data_file_names :: "string list" where
  "data_file_names = butlast cache_file_names"

lemma data_file_names_simp: "data_file_names =
    [FEATURE_SCHEMA_FILE, GROUPS_FILE, ROW_IDS_FILE, LABELS_FILE, FEATURES_FILE, QUERIES_FILE, SPLIT_FILE, PROVENANCE_FILE]"
  by (simp add: data_file_names_def cache_file_names_def)

definition put_cache_files :: "'m cache_env \<Rightarrow> string \<Rightarrow> feature_cache_data \<Rightarrow> file_system \<Rightarrow> file_system" where
  "put_cache_files env root d fs = fold (put_cache_file env root d) data_file_names fs"

lemma fold_put_cache_file:
  "fold (put_cache_file env root d) names fs key =
     (if key \<in> cache_key root ` set names then Some (CacheFile (cache_file_bytes env root d (the_elem {n. cache_key root n = key})))
      else fs key)"
proof (induction names arbitrary: fs)
  case (Cons name names)
  have "{n. cache_key root n = cache_key root name} = {name}" by auto
  then show ?case using Cons by (auto simp: put_cache_file_def)
qed simp

lemma put_cache_files_at:
  assumes "name \<in> set data_file_names"
  shows "put_cache_files env root d fs (cache_key root name) = Some (CacheFile (cache_file_bytes env root d name))"
  using assms by (simp add: put_cache_files_def fold_put_cache_file)

lemma put_cache_files_elsewhere:
  "key \<notin> cache_key root ` set data_file_names \<Longrightarrow> put_cache_files env root d fs key = fs key"
  by (simp add: put_cache_files_def fold_put_cache_file)

lemma write_named_file:
  assumes "env_calm env" and "no_write_fault env" and "name \<in> set cache_file_names" and "fs (cache_key root name) = None"
    and "map_of (cache_files env d) name = Some bytes"
  shows "write_new_file env (path_join root name) json bytes fs = (Ok (), put_cache_file env root d name fs)"
  using assms by (simp add: write_new_file_calm put_cache_file_def cache_file_bytes_def)

lemma cache_files_at:
  "map_of (cache_files env d) FEATURE_SCHEMA_FILE = Some (ce_print_schema env (data_schema d) @ newline)"
  "map_of (cache_files env d) GROUPS_FILE = Some (concat (map u32_to_le (fd_groups d)))"
  "map_of (cache_files env d) ROW_IDS_FILE = Some (concat (map u64_to_le (fd_row_ids d)))"
  "map_of (cache_files env d) LABELS_FILE = Some (concat (map u32_to_le (fd_labels d)))"
  "map_of (cache_files env d) FEATURES_FILE = Some (concat (map u32_to_le (fd_features d)))"
  "map_of (cache_files env d) QUERIES_FILE = Some (queries_bytes env (fd_queries d))"
  "map_of (cache_files env d) SPLIT_FILE = Some (ce_print_value env (fd_split d) @ newline)"
  "map_of (cache_files env d) PROVENANCE_FILE = Some (ce_print_value env (fd_provenance d) @ newline)"
  by (simp_all add: cache_files_def file_names_neq)

lemma put_cache_file_other: "name \<noteq> name' \<Longrightarrow> put_cache_file env root d name fs (cache_key root name') = fs (cache_key root name')"
  by (simp add: put_cache_file_def)

lemmas cache_writers = write_json_def write_u32_file_def write_u64_file_def write_f32_file_def write_queries_def

lemma data_file_names_distinct: "distinct data_file_names"
  using cache_file_names_ok(1) by (simp add: data_file_names_def distinct_butlast)

lemma write_cache_files:
  assumes calm: "env_calm env" "no_write_fault env" and free: "\<forall>name\<in>set cache_file_names. fs (cache_key root name) = None"
  shows "fbind (write_json env (path_join root FEATURE_SCHEMA_FILE) (ce_print_schema env (data_schema d))) (\<lambda>_.
     fbind (write_u32_file env (path_join root GROUPS_FILE) (fd_groups d)) (\<lambda>_.
     fbind (write_u64_file env (path_join root ROW_IDS_FILE) (fd_row_ids d)) (\<lambda>_.
     fbind (write_f32_file env (path_join root LABELS_FILE) (fd_labels d)) (\<lambda>_.
     fbind (write_f32_file env (path_join root FEATURES_FILE) (fd_features d)) (\<lambda>_.
     fbind (write_queries env (path_join root QUERIES_FILE) (fd_queries d)) (\<lambda>_.
     fbind (write_json env (path_join root SPLIT_FILE) (ce_print_value env (fd_split d))) (\<lambda>_.
     fbind (write_json env (path_join root PROVENANCE_FILE) (ce_print_value env (fd_provenance d))) k))))))) fs =
     k () (put_cache_files env root d fs)"
proof -
  let ?names = data_file_names
  let ?fs = "\<lambda>k. fold (put_cache_file env root d) (take k ?names) fs"
  have w: "write_new_file env (path_join root (?names ! k)) json bytes (?fs k) = (Ok (), ?fs (Suc k))"
    if "k < 8" "map_of (cache_files env d) (?names ! k) = Some bytes" for k json bytes
  proof -
    have len: "k < length ?names" using that(1) by (simp add: data_file_names_simp)
    have mem: "?names ! k \<in> set cache_file_names" using nth_mem [OF len] by (simp add: data_file_names_def in_set_butlastD)
    have "?names ! k \<notin> set (take k ?names)"
      using len data_file_names_distinct by (auto simp: distinct_conv_nth in_set_conv_nth)
    then have "cache_key root (?names ! k) \<notin> cache_key root ` set (take k ?names)" by auto
    then have "?fs k (cache_key root (?names ! k)) = None" using free mem by (simp add: fold_put_cache_file)
    then have "write_new_file env (path_join root (?names ! k)) json bytes (?fs k) = (Ok (), put_cache_file env root d (?names ! k) (?fs k))"
      using that(2) mem by (intro write_named_file [OF calm]) simp_all
    then show ?thesis by (simp add: take_Suc_conv_app_nth [OF len])
  qed
  have k8: "?fs 8 = put_cache_files env root d fs" by (simp add: put_cache_files_def data_file_names_simp)
  note at = cache_files_at [of env d]
  have n: "?names ! 0 = FEATURE_SCHEMA_FILE" "?names ! 1 = GROUPS_FILE" "?names ! 2 = ROW_IDS_FILE" "?names ! 3 = LABELS_FILE"
    "?names ! 4 = FEATURES_FILE" "?names ! 5 = QUERIES_FILE" "?names ! 6 = SPLIT_FILE" "?names ! 7 = PROVENANCE_FILE"
    by (simp_all add: data_file_names_simp)
  note ws = w [of 0, unfolded n, OF _ at(1)] w [of 1, unfolded n, OF _ at(2)] w [of 2, unfolded n, OF _ at(3)]
    w [of 3, unfolded n, OF _ at(4)] w [of 4, unfolded n, OF _ at(5)] w [of 5, unfolded n, OF _ at(6)]
    w [of 6, unfolded n, OF _ at(7)] w [of 7, unfolded n, OF _ at(8)]
  have steps:
    "write_new_file env (path_join root FEATURE_SCHEMA_FILE) True (ce_print_schema env (data_schema d) @ newline) fs = (Ok (), ?fs 1)"
    "write_new_file env (path_join root GROUPS_FILE) False (concat (map u32_to_le (fd_groups d))) (?fs 1) = (Ok (), ?fs 2)"
    "write_new_file env (path_join root ROW_IDS_FILE) False (concat (map u64_to_le (fd_row_ids d))) (?fs 2) = (Ok (), ?fs 3)"
    "write_new_file env (path_join root LABELS_FILE) False (concat (map u32_to_le (fd_labels d))) (?fs 3) = (Ok (), ?fs 4)"
    "write_new_file env (path_join root FEATURES_FILE) False (concat (map u32_to_le (fd_features d))) (?fs 4) = (Ok (), ?fs 5)"
    "write_new_file env (path_join root QUERIES_FILE) True (queries_bytes env (fd_queries d)) (?fs 5) = (Ok (), ?fs 6)"
    "write_new_file env (path_join root SPLIT_FILE) True (ce_print_value env (fd_split d) @ newline) (?fs 6) = (Ok (), ?fs 7)"
    "write_new_file env (path_join root PROVENANCE_FILE) True (ce_print_value env (fd_provenance d) @ newline) (?fs 7) = (Ok (), ?fs 8)"
    using ws [of True] ws [of False] by (simp_all add: eval_nat_numeral)
  show ?thesis unfolding cache_writers k8 [symmetric]
    by (simp only: fbind_def steps prod.case outcome.case)
qed

lemma describe_files_put:
  assumes "env_calm env"
  shows "describe_files env root (put_cache_files env root d fs) = Ok (cm_files (written_manifest env root d))"
proof -
  have "describe env root name (put_cache_files env root d fs) = Ok (file_descriptor env root d name)"
    if "name \<in> set data_file_names" for name
  proof -
    have "name \<in> set cache_file_names" using that by (simp add: data_file_names_def in_set_butlastD)
    then show ?thesis
      by (simp add: describe_calm [OF assms] put_cache_files_at [OF that] file_descriptor_def Let_def)
  qed
  then show ?thesis by (simp add: describe_files_def written_manifest_def data_manifest_def data_file_names_simp)
qed

lemma write_feature_cache_calm:
  assumes calm: "env_calm env" "no_write_fault env" and d: "cache_data_ok d" and free: "cache_dir_free fs root"
  shows "\<exists>fs'. write_feature_cache env root d fs = (Ok (written_manifest env root d), fs') \<and>
    (\<forall>name\<in>set data_file_names. fs' (cache_key root name) = Some (CacheFile (cache_file_bytes env root d name))) \<and>
    fs' (cache_key root CACHE_MANIFEST_FILE) =
      Some (CacheFile (kept (ce_write env (path_join root CACHE_MANIFEST_FILE))
        (ce_print_manifest env (written_manifest env root d) @ newline))) \<and>
    (\<forall>key. key \<notin> range (cache_key root) \<longrightarrow> fs' key = snd (create_dir_all env root fs) key)"
proof -
  let ?m = "written_manifest env root d"
  obtain fs0 where fs0: "create_dir_all env root fs = (Ok (), fs0)" "\<forall>name\<in>set cache_file_names. fs0 (cache_key root name) = None"
      "fs0 (components root) \<noteq> Some CacheLink"
    using create_dir_all_calm [OF calm(1) free] by blast
  let ?fs = "put_cache_files env root d fs0"
  let ?key = "cache_key root CACHE_MANIFEST_FILE"
  let ?fs' = "?fs(?key \<mapsto> CacheFile (kept (ce_write env (path_join root CACHE_MANIFEST_FILE)) (ce_print_manifest env ?m @ newline)))"
  have new: "?key \<notin> cache_key root ` set data_file_names" by (auto simp: data_file_names_simp file_names_neq)
  have "fs0 ?key = None" using fs0(2) by (simp add: cache_file_names_def)
  then have "?fs ?key = None" by (simp only: put_cache_files_elsewhere [OF new])
  then have last: "write_json env (path_join root CACHE_MANIFEST_FILE) (ce_print_manifest env ?m) ?fs = (Ok (), ?fs')"
    by (simp add: write_json_def write_new_file_calm [OF calm] cache_file_names_def)
  have m: "data_manifest d (cm_files ?m) = ?m" by (simp add: written_manifest_def data_manifest_def)
  have link: "reject_existing_symlink_path env fs0 root = Ok ()"
    using fs0(3) calm(1) by (auto simp: reject_existing_symlink_path_def cache_metadata_def env_calm_def split: option.split)
  have reads: "fread (\<lambda>_. validate_data env d) fs = (Ok (), fs)"
    "fread (\<lambda>fs. reject_existing_symlink_path env fs root) fs0 = (Ok (), fs0)"
    "fread (describe_files env root) ?fs = (Ok (cm_files ?m), ?fs)"
    by (simp_all add: fread_def validate_data_Ok d link describe_files_put [OF calm(1)])
  have "write_feature_cache env root d fs = (Ok ?m, ?fs')"
    unfolding write_feature_cache_def
    by (simp only: fbind_def [of "fread r" for r] reads fbind_def [of "create_dir_all env root"] fs0(1) write_cache_files [OF calm fs0(2)]
        m Let_def fbind_def [of "write_json env (path_join root CACHE_MANIFEST_FILE) b" for b] last prod.case outcome.case)
      (simp only: fread_def)
  moreover have "?fs' key = snd (create_dir_all env root fs) key" if "key \<notin> range (cache_key root)" for key
    using that put_cache_files_elsewhere [of key root env d fs0] by (auto simp: fs0(1))
  ultimately show ?thesis using put_cache_files_at new by (auto simp: image_iff)
qed

section \<open>Reading the files of a cache\<close>

definition paths_under :: "string \<Rightarrow> verified_feature_cache_paths" where
  "paths_under root =
     \<lparr>vp_feature_schema = path_join root FEATURE_SCHEMA_FILE, vp_groups_u32 = path_join root GROUPS_FILE,
      vp_row_ids_u64 = path_join root ROW_IDS_FILE, vp_labels_f32 = path_join root LABELS_FILE,
      vp_features_f32 = path_join root FEATURES_FILE, vp_queries_jsonl = path_join root QUERIES_FILE,
      vp_split_json = path_join root SPLIT_FILE, vp_provenance_json = path_join root PROVENANCE_FILE\<rparr>"

text \<open>A descriptor that tells the truth about the file at a path.\<close>

definition file_matches :: "'m cache_env \<Rightarrow> file_system \<Rightarrow> artifact_descriptor \<Rightarrow> string \<Rightarrow> string \<Rightarrow> bool" where
  "file_matches env fs desc name path \<longleftrightarrow>
     ad_path desc = name \<and>
     (\<exists>bytes. fs (components path) = Some (CacheFile bytes) \<and> ad_file_size_bytes desc = length bytes \<and>
        ad_sha256 desc = ce_sha256 env bytes)"

lemma metadata_of_Ok: "metadata_of env fs path = Ok n \<longleftrightarrow> ce_stat_fault env path = None \<and> fs (components path) = Some n"
  by (auto simp: metadata_of_def cache_metadata_def split: option.splits)

lemma is_file_iff: "is_file n \<longleftrightarrow> (\<exists>bytes. n = CacheFile bytes)"
  by (cases n) (simp_all add: is_file_def)

lemma validate_descriptor_Ok:
  "validate_descriptor env fs desc name path = Ok () \<longleftrightarrow>
     file_matches env fs desc name path \<and> ce_stat_fault env path = None \<and> ce_open_fault env path = None \<and>
     ce_read_fault env path = None"
proof -
  have "sha256_path env fs path = Ok sha \<longleftrightarrow> sha = ce_sha256 env bytes \<and> ce_open_fault env path = None \<and> ce_read_fault env path = None"
    if "fs (components path) = Some (CacheFile bytes)" for bytes sha
    using that by (auto simp: sha256_path_def open_and_read_def open_node_def outcome_simps split: option.splits)
  note sha = this
  show ?thesis
  proof (cases "fs (components path)")
    case (Some n)
    then show ?thesis
      by (cases n) (auto simp: validate_descriptor_def file_matches_def outcome_simps metadata_of_Ok is_file_def sha)
  qed (auto simp: validate_descriptor_def file_matches_def outcome_simps metadata_of_Ok)
qed

text \<open>All eight descriptors of a manifest.\<close>

definition files_match :: "'m cache_env \<Rightarrow> file_system \<Rightarrow> feature_cache_manifest \<Rightarrow> verified_feature_cache_paths \<Rightarrow> bool" where
  "files_match env fs m paths \<longleftrightarrow>
     file_matches env fs (cf_feature_schema (cm_files m)) FEATURE_SCHEMA_FILE (vp_feature_schema paths) \<and>
     file_matches env fs (cf_groups_u32 (cm_files m)) GROUPS_FILE (vp_groups_u32 paths) \<and>
     file_matches env fs (cf_row_ids_u64 (cm_files m)) ROW_IDS_FILE (vp_row_ids_u64 paths) \<and>
     file_matches env fs (cf_labels_f32 (cm_files m)) LABELS_FILE (vp_labels_f32 paths) \<and>
     file_matches env fs (cf_features_f32 (cm_files m)) FEATURES_FILE (vp_features_f32 paths) \<and>
     file_matches env fs (cf_queries_jsonl (cm_files m)) QUERIES_FILE (vp_queries_jsonl paths) \<and>
     file_matches env fs (cf_split_json (cm_files m)) SPLIT_FILE (vp_split_json paths) \<and>
     file_matches env fs (cf_provenance_json (cm_files m)) PROVENANCE_FILE (vp_provenance_json paths)"

lemma validate_descriptors_match:
  "validate_verified_feature_descriptors env fs m paths = Ok () \<Longrightarrow> files_match env fs m paths"
  by (simp add: validate_verified_feature_descriptors_def files_match_def outcome_simps validate_descriptor_Ok)

lemma written_descriptors_valid:
  assumes "env_calm env"
    and "\<forall>name\<in>set data_file_names. fs (cache_key root name) = Some (CacheFile (cache_file_bytes env root d name))"
  shows "validate_verified_feature_descriptors env fs (written_manifest env root d) (paths_under root) = Ok ()"
proof -
  have "validate_descriptor env fs (file_descriptor env root d name) name (path_join root name) = Ok ()"
    if "name \<in> set data_file_names" for name
  proof -
    have "name \<in> set cache_file_names" using that by (simp add: data_file_names_def in_set_butlastD)
    then show ?thesis using assms that
      by (simp add: validate_descriptor_Ok file_matches_def components_cache_file file_descriptor_def Let_def env_calm_def)
  qed
  then show ?thesis
    by (simp add: validate_verified_feature_descriptors_def written_manifest_def data_manifest_def paths_under_def data_file_names_simp)
qed

text \<open>What Rust guarantees of vectors in memory: their sizes in bytes fit a \<open>usize\<close>.\<close>

definition cache_data_fits :: "feature_cache_data \<Rightarrow> bool" where
  "cache_data_fits d \<longleftrightarrow>
     length (fd_groups d) * 4 \<le> usize_max \<and> length (fd_row_ids d) * 8 \<le> usize_max \<and> length (fd_features d) * 4 \<le> usize_max"

lemma written_shape_valid:
  assumes "cache_data_ok d" and "cache_data_fits d"
    and "\<And>name. name \<in> {GROUPS_FILE, ROW_IDS_FILE, LABELS_FILE, FEATURES_FILE} \<Longrightarrow> ce_write env (path_join root name) = Written"
  shows "validate_feature_cache_manifest_shape env (written_manifest env root d) = Ok ()"
proof -
  have "cache_shape_ok (written_manifest env root d)"
    using assms(1,2) assms(3) [of GROUPS_FILE] assms(3) [of ROW_IDS_FILE] assms(3) [of LABELS_FILE] assms(3) [of FEATURES_FILE]
    by (simp add: cache_shape_ok_def cache_data_ok_def cache_data_fits_def written_manifest_def data_manifest_def
        file_descriptor_def Let_def cache_file_bytes_def cache_files_at u32_codec.length_concat_encode u64_codec.length_concat_encode)
  then show ?thesis by (simp add: validate_shape_Ok)
qed

context byte_codec
begin

lemma decode_chunks:
  assumes "0 < width"
  shows "map decode (chunks width (concat (map encode xs))) = xs"
proof (induction xs)
  case (Cons x xs)
  have "encode x \<noteq> []" using length_encode [of x] assms by auto
  then show ?case using Cons by (simp add: chunks_step [OF _ assms] length_encode decode_encode)
qed simp

end

text \<open>The values in a binary file.\<close>

definition file_words :: "(u8 list \<Rightarrow> 'a) \<Rightarrow> nat \<Rightarrow> file_system \<Rightarrow> string \<Rightarrow> 'a list" where
  "file_words decode width fs path =
     (case fs (components path) of Some (CacheFile bytes) \<Rightarrow> map decode (chunks width bytes) | _ \<Rightarrow> [])"

definition files_hold :: "file_system \<Rightarrow> string \<Rightarrow> feature_cache_data \<Rightarrow> bool" where
  "files_hold fs root d \<longleftrightarrow>
     file_words u32_from_le 4 fs (path_join root GROUPS_FILE) = fd_groups d \<and>
     file_words u64_from_le 8 fs (path_join root ROW_IDS_FILE) = fd_row_ids d \<and>
     file_words u32_from_le 4 fs (path_join root LABELS_FILE) = fd_labels d \<and>
     file_words u32_from_le 4 fs (path_join root FEATURES_FILE) = fd_features d"

lemma written_files_hold:
  assumes "\<forall>name\<in>set data_file_names. fs (cache_key root name) = Some (CacheFile (cache_file_bytes env root d name))"
    and "\<forall>path. ce_write env path = Written"
  shows "files_hold fs root d"
proof -
  have "fs (components (path_join root name)) = Some (CacheFile (the (map_of (cache_files env d) name)))"
    if "name \<in> set data_file_names" for name
  proof -
    have "name \<in> set cache_file_names" using that by (simp add: data_file_names_def in_set_butlastD)
    then show ?thesis using assms that by (simp add: components_cache_file cache_file_bytes_def)
  qed
  then show ?thesis
    by (simp add: files_hold_def file_words_def cache_files_at data_file_names_simp u32_codec.decode_chunks u64_codec.decode_chunks)
qed

text \<open>
  C16. A cache round-trips: from data whose rows, groups and columns agree, where the calls succeed, the
  nine files are written, the manifest that is returned describes them (its shape and all eight
  descriptors pass the checks of the reader), the binary files decode to the vectors of the data, and
  the manifest file holds the text of that manifest.
\<close>

theorem feature_cache_roundtrip:
  assumes "env_calm env" and "\<forall>path. ce_write env path = Written" and "cache_data_ok d" and "cache_data_fits d"
    and "cache_dir_free fs root"
  shows "\<exists>m fs'. write_feature_cache env root d fs = (Ok m, fs') \<and>
    validate_feature_cache_manifest_shape env m = Ok () \<and>
    validate_verified_feature_descriptors env fs' m (paths_under root) = Ok () \<and> files_hold fs' root d \<and>
    read_feature_cache_manifest_file env fs' (path_join root CACHE_MANIFEST_FILE) =
      (case ce_parse_manifest env (ce_print_manifest env m @ newline) of Inl e \<Rightarrow> Err (LtrJson e) | Inr m' \<Rightarrow> Ok m')"
proof -
  have nf: "no_write_fault env" using assms(2) by (simp add: no_write_fault_def)
  obtain fs' where fs': "write_feature_cache env root d fs = (Ok (written_manifest env root d), fs')"
      "\<forall>name\<in>set data_file_names. fs' (cache_key root name) = Some (CacheFile (cache_file_bytes env root d name))"
      "fs' (cache_key root CACHE_MANIFEST_FILE) = Some (CacheFile (ce_print_manifest env (written_manifest env root d) @ newline))"
    using write_feature_cache_calm [OF assms(1) nf assms(3,5)] assms(2) by auto
  have "components (path_join root CACHE_MANIFEST_FILE) = cache_key root CACHE_MANIFEST_FILE"
    by (simp add: components_cache_file cache_file_names_def)
  then have "read_feature_cache_manifest_file env fs' (path_join root CACHE_MANIFEST_FILE) =
      (case ce_parse_manifest env (ce_print_manifest env (written_manifest env root d) @ newline) of
         Inl e \<Rightarrow> Err (LtrJson e) | Inr m' \<Rightarrow> Ok m')"
    using fs'(3) assms(1) by (simp add: read_feature_cache_manifest_file_def open_and_read_def open_node_def env_calm_def)
  then show ?thesis
    using fs'(1) written_shape_valid [OF assms(3,4)] written_descriptors_valid [OF assms(1) fs'(2)]
      written_files_hold [OF fs'(2) assms(2)] assms(2) by blast
qed

text \<open>
  C40. No file is flushed, so that the loss of the end of a text file goes unseen: when the last write to
  \<open>feature_schema.json\<close>, \<open>queries.jsonl\<close>, \<open>split.json\<close> or \<open>provenance.json\<close> fails, and only \<open>n\<close> bytes arrive, the
  write returns a manifest whose descriptors are those of the shortened file, and which the reader accepts.
\<close>

theorem lost_flush_undetected:
  assumes "env_calm env" and "cache_data_ok d" and "cache_data_fits d" and "cache_dir_free fs root"
    and "name \<in> {FEATURE_SCHEMA_FILE, QUERIES_FILE, SPLIT_FILE, PROVENANCE_FILE}"
    and "ce_write env = (\<lambda>_. Written)(path_join root name := LostFlush n)"
  shows "\<exists>m fs'. write_feature_cache env root d fs = (Ok m, fs') \<and>
    validate_feature_cache_manifest_shape env m = Ok () \<and>
    validate_verified_feature_descriptors env fs' m (paths_under root) = Ok () \<and>
    fs' (components (path_join root name)) = Some (CacheFile (take n (the (map_of (cache_files env d) name))))"
proof -
  have nf: "no_write_fault env" using assms(6) by (simp add: no_write_fault_def)
  obtain fs' where fs': "write_feature_cache env root d fs = (Ok (written_manifest env root d), fs')"
      "\<forall>name\<in>set data_file_names. fs' (cache_key root name) = Some (CacheFile (cache_file_bytes env root d name))"
    using write_feature_cache_calm [OF assms(1) nf assms(2,4)] by blast
  have name: "name \<in> set data_file_names" "name \<in> set cache_file_names"
    using assms(5) by (auto simp: data_file_names_simp cache_file_names_def)
  have bin: "ce_write env (path_join root b) = Written" if "b \<in> {GROUPS_FILE, ROW_IDS_FILE, LABELS_FILE, FEATURES_FILE}" for b
  proof -
    have "b \<noteq> name" "b \<in> set cache_file_names" using that assms(5) by (auto simp: file_names_neq cache_file_names_def)
    then have "cache_key root b \<noteq> cache_key root name" by simp
    then have "path_join root b \<noteq> path_join root name"
      using components_cache_file [OF \<open>b \<in> set cache_file_names\<close>] components_cache_file [OF name(2)] by metis
    then show ?thesis by (simp add: assms(6))
  qed
  have "fs' (components (path_join root name)) = Some (CacheFile (take n (the (map_of (cache_files env d) name))))"
    using fs'(2) name by (simp add: components_cache_file cache_file_bytes_def assms(6))
  then show ?thesis
    using fs'(1) written_shape_valid [OF assms(2,3) bin] written_descriptors_valid [OF assms(1) fs'(2)] by blast
qed

section \<open>Paths inside a bundle\<close>

lemma components_push_parts:
  "list_all entry_name parts \<Longrightarrow> components (push_parts base parts) = components base @ map Normal parts"
  by (induction parts arbitrary: base) (simp_all add: push_parts_def components_join_plain)

lemma parse_components_plain: "Normal s \<in> set (parse_components ps) \<Longrightarrow> s \<noteq> [] \<and> s \<noteq> ''.'' \<and> s \<noteq> ''..'' \<and> s \<in> set ps"
  by (induction ps) (auto split: if_splits)

lemma split_slash_free: "p \<in> set (split_slash s) \<Longrightarrow> CHR ''/'' \<notin> set p"
proof (induction s arbitrary: p)
  case (Cons c cs)
  obtain q qs where qs: "split_slash cs = q # qs" by (cases "split_slash cs") simp_all
  show ?case using Cons.prems Cons.IH by (auto simp: qs split: if_splits)
qed simp

lemma components_Normal_plain: "Normal s \<in> set (components path) \<Longrightarrow> entry_name s"
  using parse_components_plain [of s "split_slash path"] split_slash_free [of s path]
  by (auto simp: components_def entry_name_def Let_def split: if_splits)

lemma normal_parts_Ok:
  "normal_parts path cs = Ok parts \<Longrightarrow> parts = concat (map (\<lambda>c. case c of Normal s \<Rightarrow> [s] | _ \<Rightarrow> []) cs) \<and>
     set cs \<subseteq> insert CurDir (range Normal)"
  by (induction path cs arbitrary: parts rule: normal_parts.induct) (auto simp: outcome_simps)

lemma normalize_Ok:
  assumes "normalize_bundle_relative_dir path = Ok out"
  shows "\<exists>parts. out = push_parts [] parts \<and> components out = map Normal parts \<and> list_all entry_name parts \<and> parts \<noteq> [] \<and>
    filter is_normal (components path) = map Normal parts \<and> set (components path) \<subseteq> insert CurDir (range Normal)"
proof -
  obtain parts where parts: "normal_parts path (components path) = Ok parts" "out = push_parts [] parts" "out \<noteq> []"
    using assms by (auto simp: normalize_bundle_relative_dir_def outcome_simps Let_def split: if_splits)
  have split: "parts = concat (map (\<lambda>c. case c of Normal s \<Rightarrow> [s] | _ \<Rightarrow> []) (components path))"
      "set (components path) \<subseteq> insert CurDir (range Normal)"
    using normal_parts_Ok [OF parts(1)] by auto
  have "filter is_normal cs = map Normal (concat (map (\<lambda>c. case c of Normal s \<Rightarrow> [s] | _ \<Rightarrow> []) cs))" for cs
    by (induction cs) (auto simp: is_normal_def split: component.splits)
  then have normals: "filter is_normal (components path) = map Normal parts" by (simp add: split(1))
  have plain: "list_all entry_name parts"
  proof (unfold list_all_iff, intro ballI)
    fix s assume "s \<in> set parts"
    then have "Normal s \<in> set (filter is_normal (components path))" by (simp only: normals) simp
    then show "entry_name s" by (auto intro: components_Normal_plain)
  qed
  have "components out = map Normal parts"
    using components_push_parts [OF plain, of "[]"] by (simp add: parts(2) components_def is_absolute_def)
  moreover have "parts \<noteq> []" using parts(2,3) by (auto simp: push_parts_def)
  ultimately show ?thesis using parts(2) plain normals split(2) by blast
qed

lemma reject_existing_Ok:
  "reject_existing_symlink_path env fs path = Ok () \<Longrightarrow> fs (components path) \<noteq> Some CacheLink"
  by (auto simp: reject_existing_symlink_path_def cache_metadata_def split: option.splits)

lemma reject_along_Ok:
  assumes "list_all entry_name parts" and "reject_along env fs (map Normal parts) cursor = Ok ()" and "k \<le> length parts"
    and "fs (components cursor) \<noteq> Some CacheLink"
  shows "fs (components cursor @ map Normal (take k parts)) \<noteq> Some CacheLink"
  using assms
proof (induction parts arbitrary: cursor k)
  case (Cons s parts)
  show ?case
  proof (cases k)
    case (Suc j)
    have "reject_existing_symlink_path env fs (path_join cursor s) = Ok ()" "reject_along env fs (map Normal parts) (path_join cursor s) = Ok ()"
      using Cons.prems(2) by (simp_all add: outcome_simps)
    then have "fs (components (path_join cursor s) @ map Normal (take j parts)) \<noteq> Some CacheLink"
      using Cons.prems Suc by (intro Cons.IH) (simp_all add: reject_existing_Ok)
    then show ?thesis using Cons.prems(1) Suc by (simp add: components_join_plain)
  qed (use Cons.prems in simp)
qed simp

text \<open>A path below the root none of whose prefixes is a symlink.\<close>

definition inside_bundle :: "file_system \<Rightarrow> string \<Rightarrow> string \<Rightarrow> bool" where
  "inside_bundle fs root path \<longleftrightarrow>
     (\<exists>parts. components path = components root @ map Normal parts \<and> parts \<noteq> [] \<and>
        (\<forall>k\<le>length parts. fs (components root @ map Normal (take k parts)) \<noteq> Some CacheLink))"

lemma component_text_Normal: "map component_text (map Normal parts) = parts"
  by (simp add: comp_def)

lemma components_path_of_normals:
  assumes "list_all entry_name parts"
  shows "components (path_of (map Normal parts)) = map Normal parts"
  using components_push_parts [OF assms, of "[]"] by (simp add: path_of_def comp_def components_def [of "[]"] is_absolute_def)

lemma components_path_of:
  assumes "\<And>c. c \<in> set cs \<Longrightarrow> c = ParentDir \<or> (\<exists>s. c = Normal s \<and> entry_name s)"
  shows "components (push_parts base (map component_text cs)) = components base @ cs"
  using assms
proof (induction cs arbitrary: base)
  case (Cons c cs)
  have name: "component_text c \<noteq> []" "component_text c \<noteq> ''.''" "CHR ''/'' \<notin> set (component_text c)"
      "name_component (component_text c) = c"
    using Cons.prems [of c] by (auto simp: entry_name_def name_component_def)
  show ?case using Cons.IH [of "path_join base (component_text c)"] Cons.prems
    by (simp add: push_parts_def components_join_name name)
qed (simp add: push_parts_def)

lemma set_parse_components:
  "c \<in> set (parse_components ps) \<Longrightarrow> c = ParentDir \<or> (\<exists>s. c = Normal s)"
  by (induction ps) (auto split: if_splits)

lemma components_below_absolute:
  assumes "is_absolute root" and "components path = components root @ rest" and "c \<in> set rest"
  shows "c = ParentDir \<or> (\<exists>s. c = Normal s \<and> entry_name s)"
proof -
  obtain cs where root: "components root = RootDir # cs" using assms(1) by (simp add: components_def Let_def)
  then have "is_absolute path" "tl (components path) = parse_components (split_slash path)"
    using assms(2) set_parse_components [of RootDir "split_slash path"] by (auto simp: components_def Let_def split: if_splits)
  moreover have "c \<in> set (tl (components path))" using assms(2,3) root by simp
  ultimately have "c = ParentDir \<or> (\<exists>s. c = Normal s)" using set_parse_components [of c] by simp
  moreover have "entry_name s" if "c = Normal s" for s
    using assms(2,3) that components_Normal_plain [of s path] by simp
  ultimately show ?thesis by blast
qed

lemma validate_path_inside:
  assumes "is_absolute root" and "validate_verified_bundle_path env fs root path = Ok ()"
  shows "inside_bundle fs root path"
proof -
  let ?rest = "drop (length (components root)) (components path)"
  have "take (length (components root)) (components path) = components root"
    and rej: "reject_bundle_relative_symlinks env fs root (path_of ?rest) = Ok ()"
    using assms(2) by (auto simp: validate_verified_bundle_path_def strip_path_prefix_def Let_def split: if_splits)
  then have pre: "components path = components root @ ?rest" by (metis append_take_drop_id)
  obtain out where out: "normalize_bundle_relative_dir (path_of ?rest) = Ok out" "reject_existing_symlink_path env fs root = Ok ()"
      "reject_along env fs (components out) root = Ok ()"
    using rej by (auto simp: reject_bundle_relative_symlinks_def outcome_simps)
  have rest: "components (path_of ?rest) = ?rest"
    using components_path_of [of ?rest "[]"] components_below_absolute [OF assms(1) pre]
    by (simp add: path_of_def components_def [of "[]"] is_absolute_def)
  obtain parts where parts: "components out = map Normal parts" "list_all entry_name parts" "parts \<noteq> []"
      "filter is_normal ?rest = map Normal parts" "set ?rest \<subseteq> insert CurDir (range Normal)"
    using normalize_Ok [OF out(1)] unfolding rest by blast
  have "CurDir \<notin> set ?rest" using components_below_absolute [OF assms(1) pre, of CurDir] by auto
  then have "filter is_normal ?rest = ?rest" using parts(5) by (auto simp: filter_id_conv is_normal_def)
  then have "components path = components root @ map Normal parts" using pre parts(4) by metis
  moreover have "fs (components root @ map Normal (take k parts)) \<noteq> Some CacheLink" if "k \<le> length parts" for k
    using reject_along_Ok [OF parts(2) out(3) [unfolded parts(1)] that] reject_existing_Ok [OF out(2)] by blast
  ultimately show ?thesis using parts(3) by (auto simp: inside_bundle_def)
qed

section \<open>What a verified read guarantees\<close>

definition cache_paths :: "verified_feature_cache_paths \<Rightarrow> string list" where
  "cache_paths p =
     [vp_feature_schema p, vp_groups_u32 p, vp_row_ids_u64 p, vp_labels_f32 p, vp_features_f32 p, vp_queries_jsonl p,
      vp_split_json p, vp_provenance_json p]"

definition cache_verified :: "'m cache_env \<Rightarrow> file_system \<Rightarrow> string \<Rightarrow> verified_feature_cache \<Rightarrow> bool" where
  "cache_verified env fs root v \<longleftrightarrow>
     (\<exists>bytes. open_and_read env fs (vc_manifest_path v) = Ok (Inr bytes) \<and> ce_parse_manifest env bytes = Inr (vc_manifest v)) \<and>
     cache_shape_ok (vc_manifest v) \<and> files_match env fs (vc_manifest v) (vc_paths v) \<and>
     list_all (inside_bundle fs root) (vc_manifest_path v # cache_paths (vc_paths v))"

lemma require_feature_auxiliary_Ok:
  "require_feature_auxiliary env fs root plan aux suffix = Ok path \<Longrightarrow> is_absolute root \<Longrightarrow>
     plan (aux @ ''.'' @ suffix) = Inr path \<and> inside_bundle fs root path"
  by (auto simp: require_feature_auxiliary_def outcome_simps validate_path_inside Let_def split: sum.splits)

lemma require_feature_paths_inside:
  assumes "require_feature_paths env fs root plan aux = Ok paths" and "is_absolute root"
  shows "list_all (inside_bundle fs root) (cache_paths paths)"
  using assms(1)
  by (auto simp: require_feature_paths_def outcome_simps cache_paths_def dest!: require_feature_auxiliary_Ok [OF _ assms(2)])

lemma read_manifest_Ok:
  "read_feature_cache_manifest_file env fs path = Ok m \<Longrightarrow>
     \<exists>bytes. open_and_read env fs path = Ok (Inr bytes) \<and> ce_parse_manifest env bytes = Inr m"
  by (cases "open_and_read env fs path")
    (auto simp: read_feature_cache_manifest_file_def split: sum.split_asm)

lemma read_verified_sound:
  assumes "read_verified_feature_cache_bundle_auxiliary env fs bundle options = Ok v"
    and "ce_canonicalize env bundle = Inr root" and "is_absolute root"
  shows "cache_verified env fs root v"
proof -
  obtain plan where a: "validate_verified_bundle_path env fs root (vc_manifest_path v) = Ok ()"
      "read_feature_cache_manifest_file env fs (vc_manifest_path v) = Ok (vc_manifest v)"
      "validate_feature_cache_manifest_shape env (vc_manifest v) = Ok ()"
      "require_feature_paths env fs root plan (bo_aux_name options) = Ok (vc_paths v)"
      "validate_verified_feature_descriptors env fs (vc_manifest v) (vc_paths v) = Ok ()"
    using assms(1,2)
    by (auto simp: read_verified_feature_cache_bundle_auxiliary_def canonical_bundle_root_def outcome_simps)
  show ?thesis
    unfolding cache_verified_def
    using read_manifest_Ok [OF a(2)] a(3) validate_descriptors_match [OF a(5)]
      validate_path_inside [OF assms(3) a(1)] require_feature_paths_inside [OF a(4) assms(3)]
    by (simp add: validate_shape_Ok)
qed

text \<open>
  C17. A cache that is published is verified: when \<open>write_feature_cache_bundle_auxiliary\<close> succeeds, a read
  of the bundle it leaves succeeds, at the path it reports. Whatever such a read accepts, from any
  bundle, has a manifest whose counts fit its binary files, eight regular files of the sizes and
  digests it states, and no path that leaves the bundle or passes through a symlink.
\<close>

theorem published_cache_verified:
  assumes "ce_canonicalize env bundle = Inr root" and "is_absolute root"
  shows "(\<forall>v. read_verified_feature_cache_bundle_auxiliary env fs bundle options = Ok v \<longrightarrow> cache_verified env fs root v) \<and>
    (\<forall>r fs'. write_feature_cache_bundle_auxiliary env bundle dir d options fs = (Ok r, fs') \<longrightarrow>
      (\<exists>v. read_verified_feature_cache_bundle_auxiliary env fs' bundle options = Ok v \<and>
         vc_manifest_path v = fr_verified_manifest_path r \<and> cache_verified env fs' root v))"
proof (intro conjI allI impI)
  show "cache_verified env fs root v" if "read_verified_feature_cache_bundle_auxiliary env fs bundle options = Ok v" for v
    using read_verified_sound [OF that assms] .
next
  fix r fs' assume w: "write_feature_cache_bundle_auxiliary env bundle dir d options fs = (Ok r, fs')"
  obtain path v where path: "verify_feature_cache_bundle_auxiliary env fs' bundle options = Ok path" "path = fr_verified_manifest_path r"
    using w by (auto simp: write_feature_cache_bundle_auxiliary_def fbind_eq_Ok fread_def Let_def)
  obtain plan v where v: "verified_plan env fs' (path_join bundle BUNDLE_MANIFEST_FILE) options = Ok plan"
      "require_cache_manifest env plan (bo_aux_name options) = Ok path"
      "read_verified_feature_cache_bundle_auxiliary env fs' bundle options = Ok v"
    using path(1) by (auto simp: verify_feature_cache_bundle_auxiliary_def outcome_simps)
  have "vc_manifest_path v = path"
    using v by (auto simp: read_verified_feature_cache_bundle_auxiliary_def outcome_simps)
  then show "\<exists>v. read_verified_feature_cache_bundle_auxiliary env fs' bundle options = Ok v \<and>
      vc_manifest_path v = fr_verified_manifest_path r \<and> cache_verified env fs' root v"
    using v(3) path(2) read_verified_sound [OF v(3) assms] by blast
qed

section \<open>The family of auxiliaries of a cache\<close>

definition cache_suffixes :: "string list" where
  "cache_suffixes = [''feature_schema'', ''groups'', ''row_ids'', ''labels'', ''features'', ''queries'', ''split'', ''provenance'']"

definition cache_aux_names :: "string \<Rightarrow> string list" where
  "cache_aux_names aux = aux # map (\<lambda>s. aux @ ''.'' @ s) cache_suffixes"

lemma in_family: "is_feature_cache_auxiliary_name name aux \<longleftrightarrow> name = aux \<or> (\<exists>s. name = aux @ ''.'' @ s)"
proof -
  have "strip_prefix aux name = Some suffix \<longleftrightarrow> name = aux @ suffix" for suffix by (rule strip_prefix_Some)
  moreover have "take 1 suffix = ''.'' \<longleftrightarrow> (\<exists>s. suffix = ''.'' @ s)" for suffix by (cases suffix) auto
  ultimately show ?thesis by (fastforce simp: is_feature_cache_auxiliary_name_def split: option.splits)
qed

lemma auxiliary_path_names:
  "feature_cache_auxiliary_paths dir aux = Ok paths \<Longrightarrow> map fst paths = cache_aux_names aux"
  by (auto simp: feature_cache_auxiliary_paths_def outcome_simps cache_aux_names_def cache_suffixes_def)

definition family :: "string \<Rightarrow> auxiliary_artifact \<Rightarrow> bool" where
  "family aux a \<longleftrightarrow> is_feature_cache_auxiliary_name (aa_name a) aux"

lemma cache_artifact_Ok:
  assumes "cache_artifact env fs base_dir limit (name, rel_path) = Ok a"
  shows "aa_name a = name" and "aa_required a" and
    "\<exists>bytes. fs (components (path_join base_dir rel_path)) = Some (CacheFile bytes) \<and> aa_sha256 a = ce_sha256 env bytes \<and>
      aa_file_size_bytes a = length bytes \<and> length bytes \<le> limit"
proof -
  obtain n path sha where parts: "metadata_of env fs (path_join base_dir rel_path) = Ok n" "is_file n" "node_len n \<le> limit"
      "sha256_path env fs (path_join base_dir rel_path) = Ok sha"
      "a = \<lparr>aa_name = name, aa_path = path, aa_sha256 = sha, aa_file_size_bytes = node_len n, aa_required = True\<rparr>"
    using assms by (auto simp: cache_artifact_def Let_def outcome_simps split: if_splits)
  then obtain bytes where bytes: "n = CacheFile bytes" by (auto simp: is_file_iff)
  then have "fs (components (path_join base_dir rel_path)) = Some (CacheFile bytes)" using parts(1) by (simp add: metadata_of_Ok)
  moreover from this have "sha = ce_sha256 env bytes"
    using parts(4) by (auto simp: sha256_path_def open_and_read_def open_node_def outcome_simps split: option.splits)
  ultimately show "\<exists>bytes. fs (components (path_join base_dir rel_path)) = Some (CacheFile bytes) \<and> aa_sha256 a = ce_sha256 env bytes \<and>
      aa_file_size_bytes a = length bytes \<and> length bytes \<le> limit"
    using parts(3,5) bytes by auto
qed (use assms in \<open>auto simp: cache_artifact_def Let_def outcome_simps split: if_splits\<close>)

lemma attach_document_parts:
  assumes "attach_document env fs base_dir dir options doc = Ok doc'"
  shows "\<exists>paths added. feature_cache_auxiliary_paths dir (bo_aux_name options) = Ok paths \<and>
    traverse (cache_artifact env fs base_dir (bo_max_auxiliary_artifact_bytes options)) paths = Ok added \<and>
    map aa_name added = cache_aux_names (bo_aux_name options) \<and>
    doc' = doc\<lparr>bd_auxiliary := filter (Not \<circ> family (bo_aux_name options)) (bd_auxiliary doc) @ added\<rparr>"
proof -
  obtain paths added where parts: "feature_cache_auxiliary_paths dir (bo_aux_name options) = Ok paths"
      "traverse (cache_artifact env fs base_dir (bo_max_auxiliary_artifact_bytes options)) paths = Ok added"
      "doc' = doc\<lparr>bd_auxiliary := filter (Not \<circ> family (bo_aux_name options)) (bd_auxiliary doc) @ added\<rparr>"
    using assms by (auto simp: attach_document_def Let_def outcome_simps family_def comp_def)
  have "list_all2 (\<lambda>p a. fst p = aa_name a) paths added"
    using parts(2) unfolding traverse_Ok by (rule list_all2_mono) (auto dest: cache_artifact_Ok(1))
  then have "map aa_name added = map fst paths" by (induction rule: list_all2_induct) simp_all
  then show ?thesis using parts auxiliary_path_names [OF parts(1)] by auto
qed

lemma family_names: "map aa_name added = cache_aux_names aux \<Longrightarrow> list_all (family aux) added"
proof -
  assume names: "map aa_name added = cache_aux_names aux"
  have "is_feature_cache_auxiliary_name n aux" if "n \<in> set (cache_aux_names aux)" for n
    using that by (auto simp: cache_aux_names_def in_family)
  then show ?thesis unfolding family_def list_all_iff using names by (metis (no_types) image_eqI list.set_map)
qed

lemma cache_aux_names_longer: "s \<notin> set cache_suffixes \<Longrightarrow> aux @ ''.'' @ s \<notin> set (cache_aux_names aux)"
  by (auto simp: cache_aux_names_def)

text \<open>An artifact that states the size and digest of one of the nine files in the directory.\<close>

definition artifact_registered :: "'m cache_env \<Rightarrow> file_system \<Rightarrow> string \<Rightarrow> string \<Rightarrow> nat \<Rightarrow> auxiliary_artifact \<Rightarrow> bool" where
  "artifact_registered env fs base_dir dir limit a \<longleftrightarrow>
     aa_required a \<and>
     (\<exists>file\<in>set cache_file_names. \<exists>bytes. fs (components (path_join base_dir (path_join dir file))) = Some (CacheFile bytes) \<and>
        aa_sha256 a = ce_sha256 env bytes \<and> aa_file_size_bytes a = length bytes \<and> length bytes \<le> limit)"

lemma auxiliary_path_files:
  assumes "feature_cache_auxiliary_paths dir aux = Ok paths" and "normalize_bundle_relative_dir dir = Ok dir"
    and "(name, rel_path) \<in> set paths"
  shows "\<exists>file\<in>set cache_file_names. rel_path = path_join dir file"
  using assms by (auto simp: feature_cache_auxiliary_paths_def outcome_simps cache_file_names_def)

lemma normalize_again:
  assumes "normalize_bundle_relative_dir path = Ok out"
  shows "normalize_bundle_relative_dir out = Ok out"
proof -
  obtain parts where parts: "out = push_parts [] parts" "components out = map Normal parts" "list_all entry_name parts" "parts \<noteq> []"
    using normalize_Ok [OF assms] by blast
  have "normal_parts out (map Normal ps) = Ok ps" for ps by (induction ps) simp_all
  moreover have "out \<noteq> []" using parts(2,4) by (auto simp: components_def is_absolute_def)
  moreover have "\<not> is_absolute out" using parts(2) by (cases parts) (auto simp: components_def Let_def)
  ultimately show ?thesis using parts(1,2) by (simp add: normalize_bundle_relative_dir_def)
qed

lemma attach_Ok:
  assumes "attach_feature_cache_auxiliaries env manifest_path dir options fs = (Ok (), fs')"
  obtains dir' doc doc' where "normalize_bundle_relative_dir dir = Ok dir'"
    and "ce_load_manifest env manifest_path (bo_max_auxiliary_artifact_bytes options) fs = Inr doc"
    and "attach_document env fs (parent_or_dot manifest_path) dir' options doc = Ok doc'"
    and "ce_write_manifest env doc' manifest_path fs = (None, fs')"
proof -
  obtain dir' doc doc' where parts: "normalize_bundle_relative_dir dir = Ok dir'"
      "ce_load_manifest env manifest_path (bo_max_auxiliary_artifact_bytes options) fs = Inr doc"
      "attach_document env fs (parent_or_dot manifest_path) dir' options doc = Ok doc'"
      "(case ce_write_manifest env doc' manifest_path fs of
         (Some e, fs') \<Rightarrow> (Err (LtrManifest (''failed to write bundle manifest '' @ manifest_path @ '': '' @ e)), fs')
       | (None, fs') \<Rightarrow> (Ok (), fs')) = (Ok (), fs')"
    using assms unfolding attach_feature_cache_auxiliaries_def fbind_eq_Ok fread_def by (auto split: sum.splits)
  then have "ce_write_manifest env doc' manifest_path fs = (None, fs')" by (auto split: prod.splits option.splits)
  then show thesis using parts(1-3) that by blast
qed

lemma attach_document_result:
  assumes "attach_document env fs base_dir dir options doc = Ok doc'" and "normalize_bundle_relative_dir dir = Ok dir"
  defines "aux \<equiv> bo_aux_name options"
  shows "bd_rest doc' = bd_rest doc"
    and "filter (Not \<circ> family aux) (bd_auxiliary doc') = filter (Not \<circ> family aux) (bd_auxiliary doc)"
    and "map aa_name (filter (family aux) (bd_auxiliary doc')) = cache_aux_names aux"
    and "list_all (artifact_registered env fs base_dir dir (bo_max_auxiliary_artifact_bytes options)) (filter (family aux) (bd_auxiliary doc'))"
    and "attach_document env fs base_dir dir options doc' = Ok doc'"
proof -
  obtain paths added where added: "feature_cache_auxiliary_paths dir aux = Ok paths"
      "traverse (cache_artifact env fs base_dir (bo_max_auxiliary_artifact_bytes options)) paths = Ok added"
      "map aa_name added = cache_aux_names aux"
      "doc' = doc\<lparr>bd_auxiliary := filter (Not \<circ> family aux) (bd_auxiliary doc) @ added\<rparr>"
    using attach_document_parts [OF assms(1)] unfolding aux_def by blast
  have fam: "filter (family aux) added = added" "filter (Not \<circ> family aux) added = []"
    using family_names [OF added(3)] by (simp_all add: filter_id_conv filter_empty_conv list_all_iff)
  show again: "attach_document env fs base_dir dir options doc' = Ok doc'"
    using added fam by (simp add: attach_document_def Let_def family_def comp_def aux_def)
  show "bd_rest doc' = bd_rest doc" by (simp add: added(4))
  show "filter (Not \<circ> family aux) (bd_auxiliary doc') = filter (Not \<circ> family aux) (bd_auxiliary doc)"
    using fam(2) by (simp add: added(4) comp_def)
  have own: "filter (family aux) (bd_auxiliary doc') = added"
    using fam(1) by (simp add: added(4) filter_empty_conv)
  then show "map aa_name (filter (family aux) (bd_auxiliary doc')) = cache_aux_names aux" by (simp add: added(3))
  have "artifact_registered env fs base_dir dir (bo_max_auxiliary_artifact_bytes options) a" if a: "a \<in> set added" for a
  proof -
    obtain i where i: "i < length added" "a = added ! i" using a by (auto simp: in_set_conv_nth)
    obtain name rel_path where pair: "paths ! i = (name, rel_path)" by fastforce
    have art: "(name, rel_path) \<in> set paths"
        "cache_artifact env fs base_dir (bo_max_auxiliary_artifact_bytes options) (name, rel_path) = Ok a"
      using added(2) [unfolded traverse_Ok] i pair nth_mem [of i paths] by (auto simp: list_all2_conv_all_nth)
    show ?thesis
      using auxiliary_path_files [OF added(1) assms(2) art(1)] cache_artifact_Ok [OF art(2)] by (auto simp: artifact_registered_def)
  qed
  then show "list_all (artifact_registered env fs base_dir dir (bo_max_auxiliary_artifact_bytes options)) (filter (family aux) (bd_auxiliary doc'))"
    by (simp add: own list_all_iff)
qed


text \<open>
  The family of a cache is found by a prefix of the name: attaching the cache \<open>aux\<close> also removes
  every other auxiliary whose name begins with \<open>aux.\<close>, so that another cache called \<open>aux.s\<close> is no longer
  in the document.
\<close>

lemma attach_drops_longer_names:
  assumes "attach_feature_cache_auxiliaries env manifest_path dir options fs = (Ok (), fs')" and "s \<notin> set cache_suffixes"
  shows "\<exists>doc'. ce_write_manifest env doc' manifest_path fs = (None, fs') \<and>
    bo_aux_name options @ ''.'' @ s \<notin> aa_name ` set (bd_auxiliary doc')"
proof -
  let ?aux = "bo_aux_name options"
  obtain doc' where doc': "ce_write_manifest env doc' manifest_path fs = (None, fs')"
      "map aa_name (filter (family ?aux) (bd_auxiliary doc')) = cache_aux_names ?aux"
    using assms(1) by (rule attach_Ok) (blast intro: attach_document_result normalize_again)
  have "?aux @ ''.'' @ s \<noteq> aa_name a" if "a \<in> set (bd_auxiliary doc')" for a
  proof
    assume name: "?aux @ ''.'' @ s = aa_name a"
    then have "family ?aux a" unfolding family_def in_family by (metis (no_types))
    then have "aa_name a \<in> set (map aa_name (filter (family ?aux) (bd_auxiliary doc')))" using that by simp
    then show False using cache_aux_names_longer [OF assms(2)] name unfolding doc'(2) by metis
  qed
  then show ?thesis using doc'(1) by (metis (no_types, lifting) image_iff)
qed

section \<open>Witnesses\<close>

text \<open>
  An environment that performs every call. Its file system starts with the directory \<open>/b\<close>; a digest is
  the length, as a numeral; the text of a manifest is empty, and parses to the manifest of the example.
\<close>

definition ex_cache_data :: feature_cache_data where
  "ex_cache_data =
     \<lparr>fd_feature_names = [''bm25''], fd_groups = [2], fd_row_ids = [7, 9], fd_labels = [0, 0x3F800000], fd_features = [0, 0],
      fd_queries = [\<lparr>qc_query_id = ''q'', qc_query = ''text''\<rparr>], fd_split = JNull, fd_provenance = JNull,
      fd_label_kind = ''qrels'', fd_qrels_source_sha256 = None, fd_bundle_manifest_sha256 = None,
      fd_forbidden_features_present = [], fd_dense_features_present = False\<rparr>"

definition ex_desc :: "string \<Rightarrow> nat \<Rightarrow> artifact_descriptor" where
  "ex_desc name n = \<lparr>ad_path = name, ad_sha256 = show_nat n, ad_file_size_bytes = n\<rparr>"

definition ex_cache_manifest :: feature_cache_manifest where
  "ex_cache_manifest =
     data_manifest ex_cache_data
       \<lparr>cf_feature_schema = ex_desc FEATURE_SCHEMA_FILE 1, cf_groups_u32 = ex_desc GROUPS_FILE 4,
        cf_row_ids_u64 = ex_desc ROW_IDS_FILE 16, cf_labels_f32 = ex_desc LABELS_FILE 8,
        cf_features_f32 = ex_desc FEATURES_FILE 8, cf_queries_jsonl = ex_desc QUERIES_FILE 3,
        cf_split_json = ex_desc SPLIT_FILE 1, cf_provenance_json = ex_desc PROVENANCE_FILE 1\<rparr>"

definition ex_plan :: cache_plan where
  "ex_plan name =
     (case map_of (zip (cache_aux_names ''m'') (CACHE_MANIFEST_FILE # data_file_names)) name of
        Some file \<Rightarrow> Inr (path_join ''/b/c'' file)
      | None \<Rightarrow> Inl ''missing'')"

definition ex_cache_env :: "unit cache_env" where
  "ex_cache_env =
     \<lparr>ce_not_found = ''none'', ce_file_exists = ''exists'', ce_is_directory = ''dir'', ce_stat_fault = (\<lambda>_. None),
      ce_mkdir_fault = (\<lambda>_. None), ce_link_is_dir = (\<lambda>_. False), ce_create_fault = (\<lambda>_. None), ce_write = (\<lambda>_. Written),
      ce_open_fault = (\<lambda>_. None), ce_read_fault = (\<lambda>_. None), ce_target = (\<lambda>_. None), ce_canonicalize = Inr,
      ce_sha256 = (\<lambda>bs. show_nat (length bs)), ce_debug = id, ce_print_schema = (\<lambda>_. []), ce_print_query = (\<lambda>_. [1, 2]),
      ce_print_value = (\<lambda>_. []), ce_print_manifest = (\<lambda>_. []), ce_parse_manifest = (\<lambda>_. Inr ex_cache_manifest),
      ce_load_manifest = (\<lambda>_ _ _. Inr \<lparr>bd_auxiliary = [], bd_rest = ()\<rparr>),
      ce_write_manifest = (\<lambda>_ path fs. (None, fs(components path \<mapsto> CacheFile []))),
      ce_verify_for_load = (\<lambda>_ _ _. Inr ex_plan)\<rparr>"

definition ex_cache_fs :: file_system where
  "ex_cache_fs = [components ''/b'' \<mapsto> CacheDir]"

definition ex_cache_options :: bundle_feature_cache_options where
  "ex_cache_options = \<lparr>bo_aux_name = ''m'', bo_max_auxiliary_artifact_bytes = 100\<rparr>"

lemmas ex_cache_defs = ex_cache_data_def ex_cache_env_def ex_cache_fs_def ex_cache_options_def ex_desc_def ex_cache_manifest_def

lemma ex_cache_premises:
  "env_calm ex_cache_env" "\<forall>path. ce_write ex_cache_env path = Written" "cache_data_ok ex_cache_data" "cache_data_fits ex_cache_data"
  "cache_dir_free ex_cache_fs ''/b/c''"
proof -
  show "env_calm ex_cache_env" by (simp add: env_calm_def ex_cache_env_def)
  show "\<forall>path. ce_write ex_cache_env path = Written" by (simp add: ex_cache_env_def)
  have "trim ''bm25'' = ''bm25''" by (rule trim_plain) simp_all
  moreover have "f32_is_finite 0" "f32_is_finite 0x3F800000" by (simp_all add: f32_is_finite_def f32_mag_def mag_inf_def)
  ultimately show "cache_data_ok ex_cache_data" by (simp add: ex_cache_data_def cache_data_ok_def usize_max_def)
  show "cache_data_fits ex_cache_data" by (simp add: ex_cache_data_def cache_data_fits_def usize_max_def)
  have "components ''/b/c'' = [RootDir, Normal ''b'', Normal ''c'']" "components ''/b'' = [RootDir, Normal ''b'']"
    by (simp_all add: components_def is_absolute_def)
  then show "cache_dir_free ex_cache_fs ''/b/c''"
    by (simp add: cache_dir_free_def ex_cache_fs_def cache_key_def)
qed

lemma feature_cache_roundtrip_witness:
  "\<exists>m fs'. write_feature_cache ex_cache_env ''/b/c'' ex_cache_data ex_cache_fs = (Ok m, fs') \<and> files_hold fs' ''/b/c'' ex_cache_data"
  using feature_cache_roundtrip [OF ex_cache_premises] by blast

lemma lost_flush_undetected_witness:
  "\<exists>m fs'. write_feature_cache (ex_cache_env\<lparr>ce_write := (\<lambda>_. Written)(path_join ''/b/c'' QUERIES_FILE := LostFlush 0)\<rparr>)
      ''/b/c'' ex_cache_data ex_cache_fs = (Ok m, fs') \<and> fs' (components (path_join ''/b/c'' QUERIES_FILE)) = Some (CacheFile [])"
proof -
  let ?env = "ex_cache_env\<lparr>ce_write := (\<lambda>_. Written)(path_join ''/b/c'' QUERIES_FILE := LostFlush 0)\<rparr>"
  have "env_calm ?env" using ex_cache_premises(1) by (simp add: env_calm_def)
  from lost_flush_undetected [OF this ex_cache_premises(3-5), of QUERIES_FILE 0] show ?thesis by auto
qed


lemma ex_components:
  "components ''/b'' = [RootDir, Normal ''b'']" "components ''/b/c'' = [RootDir, Normal ''b'', Normal ''c'']" "components ''c'' = [Normal ''c'']"
  "components ''/b/manifest.json'' = [RootDir, Normal ''b'', Normal ''manifest.json'']"
  by (simp_all add: components_def is_absolute_def)

lemma ex_path_eqs:
  "path_join ''/b'' ''c'' = ''/b/c''" "path_join ''/b'' BUNDLE_MANIFEST_FILE = ''/b/manifest.json''" "path_join [] ''c'' = ''c''"
  "parent_or_dot ''/b/manifest.json'' = ''/b''" "normalize_bundle_relative_dir ''c'' = Ok ''c''"
  "validate_aux_name ''m'' = Ok ()"
proof -
  have "trim ''m'' = ''m''" by (rule trim_plain) simp_all
  then show "validate_aux_name ''m'' = Ok ()" by (simp add: validate_aux_name_def)
qed (simp_all add: path_join_def is_absolute_def BUNDLE_MANIFEST_FILE_def parent_or_dot_def ex_components path_of_def push_parts_def
    normalize_bundle_relative_dir_def)

text \<open>After the nine files are written under \<open>/b/c\<close>.\<close>

definition ex_holds :: "file_system \<Rightarrow> bool" where
  "ex_holds fs \<longleftrightarrow>
     fs (components ''/b'') = Some CacheDir \<and> fs (components ''/b/c'') = Some CacheDir \<and>
     (\<forall>name\<in>set data_file_names. fs (cache_key ''/b/c'' name) =
        Some (CacheFile (cache_file_bytes ex_cache_env ''/b/c'' ex_cache_data name))) \<and>
     fs (cache_key ''/b/c'' CACHE_MANIFEST_FILE) = Some (CacheFile newline)"

lemma ex_manifest_written: "written_manifest ex_cache_env ''/b/c'' ex_cache_data = ex_cache_manifest"
proof -
  have bytes: "cache_file_bytes ex_cache_env ''/b/c'' ex_cache_data name = the (map_of (cache_files ex_cache_env ex_cache_data) name)" for name
    by (simp add: cache_file_bytes_def ex_cache_premises(2))
  have desc: "file_descriptor ex_cache_env ''/b/c'' ex_cache_data name =
      ex_desc name (length (the (map_of (cache_files ex_cache_env ex_cache_data) name)))" for name
    by (simp add: file_descriptor_def Let_def bytes ex_desc_def) (simp add: ex_cache_env_def)
  show ?thesis unfolding written_manifest_def ex_cache_manifest_def desc
    by (simp add: cache_files_at)
      (simp add: ex_cache_env_def ex_cache_data_def newline_def queries_bytes_def u32_codec.length_encode u64_codec.length_encode
        numeral_3_eq_3)
qed

lemma ex_written: "\<exists>fs. write_feature_cache ex_cache_env ''/b/c'' ex_cache_data ex_cache_fs = (Ok ex_cache_manifest, fs) \<and> ex_holds fs"
proof -
  have nf: "no_write_fault ex_cache_env" by (simp add: no_write_fault_def ex_cache_env_def)
  obtain fs where fs: "write_feature_cache ex_cache_env ''/b/c'' ex_cache_data ex_cache_fs = (Ok ex_cache_manifest, fs)"
      "\<forall>name\<in>set data_file_names. fs (cache_key ''/b/c'' name) =
        Some (CacheFile (cache_file_bytes ex_cache_env ''/b/c'' ex_cache_data name))"
      "fs (cache_key ''/b/c'' CACHE_MANIFEST_FILE) = Some (CacheFile newline)"
      "\<And>key. key \<notin> range (cache_key ''/b/c'') \<Longrightarrow> fs key = snd (create_dir_all ex_cache_env ''/b/c'' ex_cache_fs) key"
    using write_feature_cache_calm [OF ex_cache_premises(1) nf ex_cache_premises(3,5)] unfolding ex_manifest_written
    by (auto simp: ex_cache_env_def)
  have dirs: "snd (create_dir_all ex_cache_env ''/b/c'' ex_cache_fs) =
      ex_cache_fs(components ''/b/c'' \<mapsto> CacheDir)"
    by (simp add: create_dir_all_def ex_components ex_cache_fs_def ex_cache_env_def is_normal_def)
  have "fs (components ''/b'') = snd (create_dir_all ex_cache_env ''/b/c'' ex_cache_fs) (components ''/b'')"
      "fs (components ''/b/c'') = snd (create_dir_all ex_cache_env ''/b/c'' ex_cache_fs) (components ''/b/c'')"
    by (rule fs(4), auto simp: cache_key_def ex_components)+
  then have "fs (components ''/b'') = Some CacheDir" "fs (components ''/b/c'') = Some CacheDir"
    by (simp_all only: dirs) (simp_all add: ex_cache_fs_def ex_components)
  then show ?thesis using fs(1-3) by (auto simp: ex_holds_def)
qed

lemma ex_no_links:
  assumes "ex_holds fs" and "name \<in> set cache_file_names"
  shows "reject_bundle_relative_symlinks ex_cache_env fs ''/b'' (path_join ''c'' name) = Ok ()"
    and "\<exists>bytes. fs (cache_key ''/b/c'' name) = Some (CacheFile bytes)"
proof -
  have plain: "entry_name name" using assms(2) cache_file_names_ok(2) by (simp add: list_all_iff)
  have node: "\<exists>bytes. fs (cache_key ''/b/c'' name) = Some (CacheFile bytes)"
    using assms by (auto simp: ex_holds_def data_file_names_simp cache_file_names_def)
  then show "\<exists>bytes. fs (cache_key ''/b/c'' name) = Some (CacheFile bytes)" .
  have rel: "\<not> is_absolute name" "name \<noteq> []" using plain by (cases name; auto simp: entry_name_def is_absolute_def)+
  have "components (path_join ''c'' name) = [Normal ''c'', Normal name]"
    using components_join_plain [OF plain, of "''c''"] by (simp add: ex_components)
  moreover have "path_join ''c'' name \<noteq> []" "\<not> is_absolute (path_join ''c'' name)"
    using rel by (simp_all add: path_join_def is_absolute_def)
  ultimately have norm: "normalize_bundle_relative_dir (path_join ''c'' name) = Ok (path_join ''c'' name)"
    "components (path_join ''c'' name) = [Normal ''c'', Normal name]"
    by (simp_all add: normalize_bundle_relative_dir_def push_parts_def ex_path_eqs)
  have "fs (components (path_join ''/b/c'' name)) = fs (cache_key ''/b/c'' name)"
    using components_cache_file [OF assms(2)] by simp
  then have links: "fs (components (path_join ''/b/c'' name)) \<noteq> Some CacheLink" "fs (components ''/b'') \<noteq> Some CacheLink"
      "fs (components ''/b/c'') \<noteq> Some CacheLink"
    using node assms(1) by (auto simp: ex_holds_def)
  have "ce_stat_fault ex_cache_env path = None" for path by (simp add: ex_cache_env_def)
  then have ok: "reject_existing_symlink_path ex_cache_env fs path = Ok ()" if "fs (components path) \<noteq> Some CacheLink" for path
    using that by (auto simp: reject_existing_symlink_path_def cache_metadata_def split: option.split)
  show "reject_bundle_relative_symlinks ex_cache_env fs ''/b'' (path_join ''c'' name) = Ok ()"
    by (simp add: reject_bundle_relative_symlinks_def norm ex_path_eqs ok links)
qed

lemma ex_small:
  assumes "ex_holds fs" and "name \<in> set cache_file_names"
  shows "\<exists>bytes. fs (cache_key ''/b/c'' name) = Some (CacheFile bytes) \<and> length bytes \<le> 100"
proof (cases "name = CACHE_MANIFEST_FILE")
  case True
  then show ?thesis using assms(1) by (simp add: ex_holds_def newline_def)
next
  case False
  then have name: "name \<in> set data_file_names" using assms(2) by (auto simp: data_file_names_simp cache_file_names_def)
  have desc: "ad_file_size_bytes (file_descriptor ex_cache_env ''/b/c'' ex_cache_data name) =
      length (cache_file_bytes ex_cache_env ''/b/c'' ex_cache_data name)"
    by (simp add: file_descriptor_def Let_def)
  have "cm_files (written_manifest ex_cache_env ''/b/c'' ex_cache_data) = cm_files ex_cache_manifest"
    by (simp only: ex_manifest_written)
  then have "list_all (\<lambda>n. ad_file_size_bytes (file_descriptor ex_cache_env ''/b/c'' ex_cache_data n) \<le> 100) data_file_names"
    by (simp add: written_manifest_def ex_cache_manifest_def data_manifest_def data_file_names_simp ex_desc_def)
  then show ?thesis using assms(1) name by (auto simp: ex_holds_def list_all_iff file_descriptor_def Let_def)
qed

lemma ex_artifact:
  assumes "ex_holds fs" and "name \<in> set cache_file_names"
  shows "\<exists>a. cache_artifact ex_cache_env fs ''/b'' 100 (aux, path_join ''c'' name) = Ok a"
proof -
  have env: "ce_stat_fault ex_cache_env path = None" "ce_open_fault ex_cache_env path = None" "ce_read_fault ex_cache_env path = None" for path
    by (simp_all add: ex_cache_env_def)
  have "entry_name name" using assms(2) cache_file_names_ok(2) by (simp add: list_all_iff)
  then have "name \<noteq> []" "\<not> is_absolute name" by (cases name; auto simp: entry_name_def is_absolute_def)+
  then have "path_join ''/b'' (path_join ''c'' name) = path_join ''/b/c'' name" by (simp add: path_join_def is_absolute_def)
  then have key: "components (path_join ''/b'' (path_join ''c'' name)) = cache_key ''/b/c'' name"
    using components_cache_file [OF assms(2)] by simp
  obtain bytes where bytes: "fs (cache_key ''/b/c'' name) = Some (CacheFile bytes)" "length bytes \<le> 100"
    using ex_small [OF assms] by blast
  have "metadata_of ex_cache_env fs (path_join ''/b'' (path_join ''c'' name)) = Ok (CacheFile bytes)"
    by (simp add: metadata_of_Ok env key bytes)
  moreover have "sha256_path ex_cache_env fs (path_join ''/b'' (path_join ''c'' name)) = Ok (ce_sha256 ex_cache_env bytes)"
    by (simp add: sha256_path_def open_and_read_def open_node_def env key bytes)
  ultimately show ?thesis
    using bytes(2) ex_no_links(1) [OF assms] by (simp add: cache_artifact_def Let_def is_file_def manifest_relative_path_string_def)
qed

lemma ex_attached:
  assumes "ex_holds fs"
  shows "attach_feature_cache_auxiliaries ex_cache_env ''/b/manifest.json'' ''c'' ex_cache_options fs =
    (Ok (), fs(components ''/b/manifest.json'' \<mapsto> CacheFile []))"
proof -
  have env: "ce_load_manifest ex_cache_env p n fs = Inr \<lparr>bd_auxiliary = [], bd_rest = ()\<rparr>"
      "ce_write_manifest ex_cache_env doc p fs = (None, fs(components p \<mapsto> CacheFile []))" for p n doc fs
    by (simp_all add: ex_cache_env_def)
  obtain paths where paths: "feature_cache_auxiliary_paths ''c'' ''m'' = Ok paths"
    by (simp add: feature_cache_auxiliary_paths_def ex_path_eqs)
  have "\<exists>a. cache_artifact ex_cache_env fs ''/b'' 100 p = Ok a" if p: "p \<in> set paths" for p
  proof -
    obtain aux rel where pair: "p = (aux, rel)" by (cases p)
    obtain f where "f \<in> set cache_file_names" "rel = path_join ''c'' f"
      using auxiliary_path_files [OF paths ex_path_eqs(5), of aux rel] p by (auto simp: pair)
    then show ?thesis using ex_artifact [OF assms] by (simp add: pair)
  qed
  then have "\<exists>added. traverse (cache_artifact ex_cache_env fs ''/b'' 100) paths = Ok added"
    by (induction paths) (auto simp: outcome_simps)
  then obtain added where added: "traverse (cache_artifact ex_cache_env fs ''/b'' 100) paths = Ok added" by blast
  have options: "bo_aux_name ex_cache_options = ''m''" "bo_max_auxiliary_artifact_bytes ex_cache_options = 100"
    by (simp_all add: ex_cache_options_def)
  have "attach_document ex_cache_env fs ''/b'' ''c'' ex_cache_options \<lparr>bd_auxiliary = [], bd_rest = ()\<rparr> =
      Ok \<lparr>bd_auxiliary = added, bd_rest = ()\<rparr>"
    by (simp add: attach_document_def options paths added)
  then show ?thesis
    by (simp add: attach_feature_cache_auxiliaries_def fbind_def fread_def ex_path_eqs env options)
qed

lemma ex_path_verified:
  assumes "ex_holds fs" and "name \<in> set cache_file_names"
  shows "validate_verified_bundle_path ex_cache_env fs ''/b'' (path_join ''/b/c'' name) = Ok ()"
proof -
  have "strip_path_prefix ''/b'' (path_join ''/b/c'' name) = Some (path_join ''c'' name)"
    by (simp add: strip_path_prefix_def Let_def components_cache_file [OF assms(2)] cache_key_def ex_components path_of_def
        push_parts_def ex_path_eqs)
  then show ?thesis using ex_no_links(1) [OF assms] by (simp add: validate_verified_bundle_path_def)
qed

lemma ex_plan_at:
  "ex_plan ''m'' = Inr (path_join ''/b/c'' CACHE_MANIFEST_FILE)"
  "ex_plan ''m.feature_schema'' = Inr (path_join ''/b/c'' FEATURE_SCHEMA_FILE)"
  "ex_plan ''m.groups'' = Inr (path_join ''/b/c'' GROUPS_FILE)" "ex_plan ''m.row_ids'' = Inr (path_join ''/b/c'' ROW_IDS_FILE)"
  "ex_plan ''m.labels'' = Inr (path_join ''/b/c'' LABELS_FILE)" "ex_plan ''m.features'' = Inr (path_join ''/b/c'' FEATURES_FILE)"
  "ex_plan ''m.queries'' = Inr (path_join ''/b/c'' QUERIES_FILE)" "ex_plan ''m.split'' = Inr (path_join ''/b/c'' SPLIT_FILE)"
  "ex_plan ''m.provenance'' = Inr (path_join ''/b/c'' PROVENANCE_FILE)"
  by (simp_all add: ex_plan_def cache_aux_names_def cache_suffixes_def data_file_names_simp)

lemma ex_read:
  assumes "ex_holds fs"
  shows "read_verified_feature_cache_bundle_auxiliary ex_cache_env fs ''/b'' ex_cache_options =
    Ok \<lparr>vc_manifest = ex_cache_manifest, vc_manifest_path = path_join ''/b/c'' CACHE_MANIFEST_FILE, vc_paths = paths_under ''/b/c''\<rparr>"
proof -
  have env: "ce_open_fault ex_cache_env path = None" "ce_read_fault ex_cache_env path = None" "ce_canonicalize ex_cache_env path = Inr path"
      "ce_verify_for_load ex_cache_env path n fs = Inr ex_plan" "ce_parse_manifest ex_cache_env bytes = Inr ex_cache_manifest" for path n bytes
    by (simp_all add: ex_cache_env_def)
  have files: "name \<in> set cache_file_names" if "name \<in> set (CACHE_MANIFEST_FILE # data_file_names)" for name
    using that by (auto simp: data_file_names_simp cache_file_names_def)
  have verified: "validate_verified_bundle_path ex_cache_env fs ''/b'' (path_join ''/b/c'' name) = Ok ()"
    if "name \<in> set (CACHE_MANIFEST_FILE # data_file_names)" for name
    using ex_path_verified [OF assms files [OF that]] .
  have key: "components (path_join ''/b/c'' CACHE_MANIFEST_FILE) = cache_key ''/b/c'' CACHE_MANIFEST_FILE"
    by (rule components_cache_file) (simp add: cache_file_names_def)
  have manifest: "read_feature_cache_manifest_file ex_cache_env fs (path_join ''/b/c'' CACHE_MANIFEST_FILE) = Ok ex_cache_manifest"
    using assms by (simp add: read_feature_cache_manifest_file_def open_and_read_def open_node_def env key ex_holds_def)
  have shape: "validate_feature_cache_manifest_shape ex_cache_env ex_cache_manifest = Ok ()"
    using written_shape_valid [of ex_cache_data ex_cache_env "''/b/c''"] ex_cache_premises by (simp add: ex_manifest_written)
  have descriptors: "validate_verified_feature_descriptors ex_cache_env fs ex_cache_manifest (paths_under ''/b/c'') = Ok ()"
    using written_descriptors_valid [OF ex_cache_premises(1), of fs "''/b/c''" ex_cache_data] assms
    by (simp add: ex_manifest_written ex_holds_def)
  have paths: "require_feature_paths ex_cache_env fs ''/b'' ex_plan ''m'' = Ok (paths_under ''/b/c'')"
    by (simp add: require_feature_paths_def require_feature_auxiliary_def Let_def ex_plan_at verified paths_under_def data_file_names_simp)
  show ?thesis
    by (simp add: read_verified_feature_cache_bundle_auxiliary_def ex_cache_options_def ex_path_eqs canonical_bundle_root_def env
        verified_plan_def require_cache_manifest_def ex_plan_at verified manifest shape paths descriptors)
qed

lemma ex_published:
  "\<exists>r fs'. write_feature_cache_bundle_auxiliary ex_cache_env ''/b'' ''c'' ex_cache_data ex_cache_options ex_cache_fs = (Ok r, fs')"
proof -
  obtain fs where fs: "write_feature_cache ex_cache_env ''/b/c'' ex_cache_data ex_cache_fs = (Ok ex_cache_manifest, fs)" "ex_holds fs"
    using ex_written by blast
  have holds: "ex_holds (fs(components ''/b/manifest.json'' \<mapsto> CacheFile []))"
    using fs(2) by (simp add: ex_holds_def cache_key_def ex_components)
  have r: "reject_bundle_relative_symlinks ex_cache_env ex_cache_fs ''/b'' ''c'' = Ok ()"
  proof -
    have "ce_stat_fault ex_cache_env path = None" for path by (simp add: ex_cache_env_def)
    then show ?thesis
      by (simp add: reject_bundle_relative_symlinks_def ex_path_eqs ex_components reject_existing_symlink_path_def cache_metadata_def
          ex_cache_fs_def split: option.split)
  qed
  note v = ex_read [OF holds]
  then obtain path where path: "verify_feature_cache_bundle_auxiliary ex_cache_env (fs(components ''/b/manifest.json'' \<mapsto> CacheFile []))
      ''/b'' ex_cache_options = Ok path"
    by (auto simp: verify_feature_cache_bundle_auxiliary_def read_verified_feature_cache_bundle_auxiliary_def outcome_simps)
  then show ?thesis
    by (simp add: write_feature_cache_bundle_auxiliary_def fbind_def fread_def ex_path_eqs r fs(1) ex_attached [OF fs(2)] path Let_def)
qed

lemma published_cache_verified_witness:
  "\<exists>r fs' v. write_feature_cache_bundle_auxiliary ex_cache_env ''/b'' ''c'' ex_cache_data ex_cache_options ex_cache_fs = (Ok r, fs') \<and>
    read_verified_feature_cache_bundle_auxiliary ex_cache_env fs' ''/b'' ex_cache_options = Ok v \<and> cache_verified ex_cache_env fs' ''/b'' v"
proof -
  have "ce_canonicalize ex_cache_env ''/b'' = Inr ''/b''" "is_absolute ''/b''" by (simp_all add: ex_cache_env_def is_absolute_def)
  from published_cache_verified [OF this] ex_published show ?thesis by blast
qed


end
