(* ===== verification/SparseTokenizer.thy ===== *)
theory SparseTokenizer
  imports HybridErrors
begin

text \<open>
  The tokenizer of the sparse index (\<open>ordinaldb-hybrid/src/sparse.rs\<close>). A \<open>str\<close> is the list of its
  UTF-8 bytes. Every byte of a character outside ASCII is at least 128 and no alphanumeric byte, so
  the scan over \<open>char_indices\<close> splits at the same places as a scan over the bytes, and all slices
  are at boundaries of ASCII characters.
\<close>

type_synonym bytes = "u8 list"

definition is_ascii_lower :: "u8 \<Rightarrow> bool" where
  "is_ascii_lower b \<longleftrightarrow> 97 \<le> b \<and> b \<le> 122"

definition is_ascii_upper :: "u8 \<Rightarrow> bool" where
  "is_ascii_upper b \<longleftrightarrow> 65 \<le> b \<and> b \<le> 90"

definition is_ascii_digit :: "u8 \<Rightarrow> bool" where
  "is_ascii_digit b \<longleftrightarrow> 48 \<le> b \<and> b \<le> 57"

definition is_ascii_alnum :: "u8 \<Rightarrow> bool" where
  "is_ascii_alnum b \<longleftrightarrow> is_ascii_lower b \<or> is_ascii_upper b \<or> is_ascii_digit b"

definition to_ascii_lower :: "u8 \<Rightarrow> u8" where
  "to_ascii_lower b = (if is_ascii_upper b then b + 32 else b)"

definition byte_s :: u8 where
  "byte_s = 115"

section \<open>Tokenizer kinds\<close>

datatype tokenizer_kind = Simple | IdentifierSubtokens

fun tokenizer_from_u16 :: "16 word \<Rightarrow> ('x hybrid_error, tokenizer_kind) outcome" where
  "tokenizer_from_u16 v =
     (if v = 1 then Ok Simple else if v = 2 then Ok IdentifierSubtokens
      else Err (TokenizerError (''unknown tokenizer kind '' @ show_nat (unat v))))"

fun tokenizer_code :: "tokenizer_kind \<Rightarrow> 16 word" where
  "tokenizer_code Simple = 1"
| "tokenizer_code IdentifierSubtokens = 2"

section \<open>Terms\<close>

function strip_trailing_s :: "bytes \<Rightarrow> bytes" where
  "strip_trailing_s term =
     (if 4 < length term \<and> last term = byte_s then strip_trailing_s (butlast term) else term)"
  by pat_completeness auto
termination
  by (relation "measure length") auto

declare strip_trailing_s.simps [simp del]

definition normalize_term :: "bytes \<Rightarrow> bytes option" where
  "normalize_term term =
     (if \<not> list_all is_ascii_alnum term then None
      else let lowered = map to_ascii_lower term in
        if length lowered < 3 then None
        else let stripped = strip_trailing_s lowered in
          if length stripped < 3 then None else Some stripped)"

definition is_normalized_term_v1 :: "bytes \<Rightarrow> bool" where
  "is_normalized_term_v1 term \<longleftrightarrow>
     3 \<le> length term \<and> list_all (\<lambda>b. is_ascii_lower b \<or> is_ascii_digit b) term \<and>
     \<not> (4 < length term \<and> last term = byte_s)"

section \<open>Tokens\<close>

fun scan_tokens :: "bytes \<Rightarrow> nat \<Rightarrow> nat option \<Rightarrow> bytes \<Rightarrow> bytes list" where
  "scan_tokens text idx start [] = (case start of None \<Rightarrow> [] | Some token_start \<Rightarrow> [drop token_start text])"
| "scan_tokens text idx start (ch # rest) =
     (if is_ascii_alnum ch then
        scan_tokens text (idx + 1) (Some (case start of None \<Rightarrow> idx | Some s \<Rightarrow> s)) rest
      else case start of
        None \<Rightarrow> scan_tokens text (idx + 1) None rest
      | Some token_start \<Rightarrow> drop token_start (take idx text) # scan_tokens text (idx + 1) None rest)"

definition ascii_alnum_tokens :: "bytes \<Rightarrow> bytes list" where
  "ascii_alnum_tokens text = scan_tokens text 0 None text"

definition camel_split :: "u8 \<Rightarrow> u8 \<Rightarrow> u8 option \<Rightarrow> bool" where
  "camel_split prev cur next_byte \<longleftrightarrow>
     is_ascii_upper cur \<and>
     (is_ascii_lower prev \<or> is_ascii_digit prev \<or>
      is_ascii_upper prev \<and> (case next_byte of None \<Rightarrow> False | Some n \<Rightarrow> is_ascii_lower n))"

fun split_subtokens :: "bytes \<Rightarrow> nat list \<Rightarrow> nat \<Rightarrow> bytes list \<Rightarrow> nat \<times> bytes list" where
  "split_subtokens token [] start parts = (start, parts)"
| "split_subtokens token (idx # rest) start parts =
     (if camel_split (token ! (idx - 1)) (token ! idx) (get_nth token (idx + 1)) then
        split_subtokens token rest idx
          (if start < idx then parts @ [drop start (take idx token)] else parts)
      else split_subtokens token rest start parts)"

definition identifier_subtokens :: "bytes \<Rightarrow> bytes list" where
  "identifier_subtokens token =
     (if length token < 2 then []
      else case split_subtokens token [1..<length token] 0 [] of
        (start, parts) \<Rightarrow>
          let parts = (if start < length token then parts @ [drop start token] else parts) in
          if length parts \<le> 1 then [] else parts)"

fun option_list :: "'a option \<Rightarrow> 'a list" where
  "option_list None = []"
| "option_list (Some a) = [a]"

definition tokenize_text :: "tokenizer_kind \<Rightarrow> bytes \<Rightarrow> bytes list" where
  "tokenize_text tokenizer text =
     concat (map (\<lambda>token.
       option_list (normalize_term token) @
       (if tokenizer = IdentifierSubtokens
        then concat (map (option_list \<circ> normalize_term) (identifier_subtokens token))
        else []))
       (ascii_alnum_tokens text))"

fun dedupe :: "bytes set \<Rightarrow> bytes list \<Rightarrow> bytes list" where
  "dedupe seen [] = []"
| "dedupe seen (t # terms) = (if t \<in> seen then dedupe seen terms else t # dedupe (insert t seen) terms)"

definition dedupe_preserving_order :: "bytes list \<Rightarrow> bytes list" where
  "dedupe_preserving_order terms = dedupe {} terms"

section \<open>Normal forms\<close>

lemma strip_id: "\<not> (4 < length t \<and> last t = byte_s) \<Longrightarrow> strip_trailing_s t = t"
  unfolding strip_trailing_s.simps [of t] by (rule if_not_P)

lemma strip_step: "4 < length t \<and> last t = byte_s \<Longrightarrow> strip_trailing_s t = strip_trailing_s (butlast t)"
  unfolding strip_trailing_s.simps [of t] by (rule if_P)

lemma strip_length: "length (strip_trailing_s t) \<le> length t"
  and strip_ge: "3 \<le> length t \<Longrightarrow> 3 \<le> length (strip_trailing_s t)"
  and strip_subset: "set (strip_trailing_s t) \<subseteq> set t"
  and strip_fixed: "\<not> (4 < length (strip_trailing_s t) \<and> last (strip_trailing_s t) = byte_s)"
proof (atomize(full), induction t rule: strip_trailing_s.induct)
  case (1 t)
  show ?case
  proof (cases "4 < length t \<and> last t = byte_s")
    case True
    then have "strip_trailing_s t = strip_trailing_s (butlast t)" by (rule strip_step)
    then show ?thesis using 1 [OF True] True by (auto dest: in_set_butlastD)
  next
    case False
    then have "strip_trailing_s t = t" by (rule strip_id)
    then show ?thesis using False by simp
  qed
qed

lemma lower_upper: "is_ascii_upper b \<Longrightarrow> is_ascii_lower (b + 32)"
  by (auto simp: is_ascii_upper_def is_ascii_lower_def word_le_nat_alt unat_word_ariths)

lemma to_ascii_lower_alnum: "is_ascii_alnum b \<Longrightarrow> is_ascii_lower (to_ascii_lower b) \<or> is_ascii_digit (to_ascii_lower b)"
  by (auto simp: is_ascii_alnum_def to_ascii_lower_def lower_upper)

lemma to_ascii_lower_id: "is_ascii_lower b \<or> is_ascii_digit b \<Longrightarrow> to_ascii_lower b = b"
  by (auto simp: to_ascii_lower_def is_ascii_upper_def is_ascii_lower_def is_ascii_digit_def word_le_nat_alt)

lemma normalize_term_normalized: "normalize_term t = Some u \<Longrightarrow> is_normalized_term_v1 u"
  using strip_subset [of "map to_ascii_lower t"] strip_fixed [of "map to_ascii_lower t"]
  by (auto simp: normalize_term_def is_normalized_term_v1_def Let_def list_all_iff dest!: to_ascii_lower_alnum
      split: if_splits)

lemma normalize_term_fixed:
  assumes "is_normalized_term_v1 t"
  shows "normalize_term t = Some t"
proof -
  have "list_all is_ascii_alnum t" "map to_ascii_lower t = t"
    using assms by (auto simp: is_normalized_term_v1_def list_all_iff is_ascii_alnum_def to_ascii_lower_id
        intro!: map_idI)
  then show ?thesis
    using assms by (simp add: normalize_term_def is_normalized_term_v1_def strip_id)
qed

lemma tokenize_normalized: "t \<in> set (tokenize_text tokenizer text) \<Longrightarrow> is_normalized_term_v1 t"
proof -
  have norm: "is_normalized_term_v1 u" if "u \<in> set (option_list (normalize_term x))" for u x
    using that by (cases "normalize_term x") (auto simp: normalize_term_normalized)
  assume "t \<in> set (tokenize_text tokenizer text)"
  then show ?thesis by (auto simp: tokenize_text_def norm split: if_splits)
qed

lemma dedupe_set: "set (dedupe seen ts) = set ts - seen"
  by (induction ts arbitrary: seen) auto

lemma dedupe_distinct: "distinct (dedupe seen ts)"
  using dedupe_set by (induction ts arbitrary: seen) fastforce+

section \<open>Tokens and subtokens\<close>

text \<open>The reference: the maximal runs of alphanumeric bytes.\<close>

fun alnum_runs :: "bytes \<Rightarrow> bytes list" where
  "alnum_runs [] = [[]]"
| "alnum_runs (c # cs) =
     (if is_ascii_alnum c then (c # hd (alnum_runs cs)) # tl (alnum_runs cs) else [] # alnum_runs cs)"

lemma alnum_runs_ne: "alnum_runs cs \<noteq> []"
  by (induction cs) auto

lemma scan_tokens_runs:
  assumes "rest = drop idx text" and "idx \<le> length text"
    and "case start of None \<Rightarrow> True | Some s \<Rightarrow> s < idx"
  shows "scan_tokens text idx start rest =
    (case start of
       None \<Rightarrow> filter (\<lambda>t. t \<noteq> []) (alnum_runs rest)
     | Some s \<Rightarrow> (drop s (take idx text) @ hd (alnum_runs rest)) # filter (\<lambda>t. t \<noteq> []) (tl (alnum_runs rest)))"
  using assms
proof (induction rest arbitrary: idx start)
  case Nil
  then show ?case by (cases start) auto
next
  case (Cons c cs)
  have len: "idx < length text" using Cons.prems(1) by (metis drop_eq_Nil list.distinct(1) not_le)
  then have cs: "cs = drop (idx + 1) text" and c: "c = text ! idx"
    using Cons.prems(1) by (simp_all add: Cons_nth_drop_Suc [OF len, symmetric])
  have ne: "filter (\<lambda>t. t \<noteq> []) (alnum_runs cs) =
      (if hd (alnum_runs cs) = [] then [] else [hd (alnum_runs cs)]) @ filter (\<lambda>t. t \<noteq> []) (tl (alnum_runs cs))"
    using alnum_runs_ne [of cs] by (cases "alnum_runs cs") auto
  have grow: "drop s (take (idx + 1) text) = drop s (take idx text) @ [c]" if "s \<le> idx" for s
    using that len c by (simp add: take_Suc_conv_app_nth)
  show ?case
  proof (cases "is_ascii_alnum c")
    case True
    then show ?thesis
      using Cons.IH [of "idx + 1" "Some (case start of None \<Rightarrow> idx | Some s \<Rightarrow> s)"] cs len Cons.prems(3) grow
      by (auto split: option.splits)
  next
    case False
    then show ?thesis
      using Cons.IH [of "idx + 1" None] cs len Cons.prems(3) by (auto split: option.splits)
  qed
qed

lemma split_subtokens_concat:
  assumes "split_subtokens token idxs start parts = (start', parts')" and "\<forall>i\<in>set idxs. i < length token"
    and "sorted idxs" and "\<forall>i\<in>set idxs. start \<le> i" and "start \<le> length token" and "\<forall>t\<in>set parts. t \<noteq> []"
  shows "start' \<le> length token \<and> concat parts' @ drop start' token = concat parts @ drop start token \<and>
    (\<forall>t\<in>set parts'. t \<noteq> [])"
  using assms
proof (induction token idxs start parts rule: split_subtokens.induct)
  case (2 token idx rest start parts)
  show ?case
  proof (cases "camel_split (token ! (idx - 1)) (token ! idx) (get_nth token (idx + 1))")
    case True
    let ?parts = "if start < idx then parts @ [drop start (take idx token)] else parts"
    have idx: "idx < length token" "start \<le> idx" using 2 by auto
    have "concat ?parts @ drop idx token = concat parts @ drop start token"
    proof (cases "start < idx")
      case True
      have "drop start token = drop start (take idx token) @ drop idx token"
        using idx by (metis append_take_drop_id drop_append diff_is_0_eq drop0 length_take min.absorb2 order_less_imp_le)
      then show ?thesis using True by simp
    qed (use idx in simp)
    then show ?thesis using 2 True idx by (cases "start < idx") auto
  next
    case False
    then show ?thesis using 2 by auto
  qed
qed auto

section \<open>Properties\<close>

text \<open>
  Tokenizing is splitting at the bytes that are not alphanumeric: the tokens of a text are its
  maximal runs, in order.
\<close>

theorem tokens_are_maximal_runs:
  "ascii_alnum_tokens text = filter (\<lambda>t. t \<noteq> []) (alnum_runs text)"
  using scan_tokens_runs [of "text" 0 "text" None] by (simp add: ascii_alnum_tokens_def)

text \<open>
  What the builder indexes, the reader accepts: every term of a text, under either tokenizer,
  is in the normal form that opening a sidecar requires, and normalizing a term in normal form
  leaves it unchanged, so a query term matches the indexed one.
\<close>

theorem terms_are_normal_forms:
  "list_all (\<lambda>t. is_normalized_term_v1 t \<and> normalize_term t = Some t) (tokenize_text tokenizer text)"
  by (auto simp: list_all_iff tokenize_normalized normalize_term_fixed)

text \<open>
  Camel-case subtokens partition their token: put together again in order they give the token,
  none is empty, and a token without a boundary yields none.
\<close>

theorem subtokens_partition:
  "identifier_subtokens token = [] \<or>
     concat (identifier_subtokens token) = token \<and> 2 \<le> length (identifier_subtokens token) \<and>
     list_all (\<lambda>t. t \<noteq> []) (identifier_subtokens token)"
proof (cases "length token < 2")
  case False
  obtain start parts where run: "split_subtokens token [1..<length token] 0 [] = (start, parts)" by fastforce
  from split_subtokens_concat [OF run]
  have "start \<le> length token \<and> concat parts @ drop start token = token \<and> (\<forall>t\<in>set parts. t \<noteq> [])" by simp
  then show ?thesis
    using False run by (auto simp: identifier_subtokens_def Let_def list_all_iff)
qed (simp add: identifier_subtokens_def)

end
