(* ===== verification/SparseBuilder.thy ===== *)
theory SparseBuilder
  imports SparseTokenizer ByteCodec "HOL-Library.List_Lexorder"
begin

text \<open>
  Building the sparse index and laying it out as bytes (\<open>SparseIndexBuilder\<close>, \<open>BuiltSparse\<close> in
  \<open>ordinaldb-hybrid/src/sparse.rs\<close>). A \<open>BTreeMap\<close> is an association list in strictly increasing
  order of its keys, a \<open>Vec<u8>\<close> or \<open>String\<close> is compared byte by byte, and integers are natural
  numbers whose bounds the code checks; a cast to a narrower width is the truncation of
  \<open>le_bytes\<close>. Allocation is assumed to succeed.
\<close>

definition max_u32 :: nat where
  "max_u32 = 4294967295"

definition max_u16 :: nat where
  "max_u16 = 65535"

section \<open>The builder\<close>

record pending_doc =
  pd_row_id :: u64
  pd_terms :: "bytes list"

record sparse_builder =
  bd_tokenizer :: tokenizer_kind
  bd_docs :: "pending_doc list"
  bd_seen :: "u64 set"

definition builder_new :: "tokenizer_kind \<Rightarrow> sparse_builder" where
  "builder_new tokenizer = \<lparr>bd_tokenizer = tokenizer, bd_docs = [], bd_seen = {}\<rparr>"

definition add_doc ::
  "sparse_builder \<Rightarrow> u64 \<Rightarrow> bytes list \<Rightarrow> sparse_builder \<times> ('x hybrid_error, unit) outcome" where
  "add_doc b r terms =
     (if r \<in> bd_seen b then (b, Err (RowIdError (''duplicate row_id '' @ show_u64 r)))
      else (b\<lparr>bd_docs := bd_docs b @ [\<lparr>pd_row_id = r, pd_terms = terms\<rparr>], bd_seen := insert r (bd_seen b)\<rparr>, Ok ()))"

definition add_text ::
  "sparse_builder \<Rightarrow> u64 \<Rightarrow> bytes \<Rightarrow> sparse_builder \<times> ('x hybrid_error, unit) outcome" where
  "add_text b r content = add_doc b r (tokenize_text (bd_tokenizer b) content)"

definition add_normalized_terms ::
  "sparse_builder \<Rightarrow> u64 \<Rightarrow> bytes list \<Rightarrow> sparse_builder \<times> ('x hybrid_error, unit) outcome" where
  "add_normalized_terms b r terms = add_doc b r (concat (map (option_list \<circ> normalize_term) terms))"

section \<open>Postings\<close>

record built_sparse =
  bs_tokenizer :: tokenizer_kind
  bs_row_ids :: "u64 list"
  bs_doc_lens :: "nat list"
  bs_terms :: "bytes list"
  bs_postings :: "(nat \<times> nat) list list"
  bs_postings_count :: nat
  bs_avg_doc_len :: f32

fun count_terms :: "bytes list \<Rightarrow> (bytes \<times> nat) list \<Rightarrow> ('x hybrid_error, (bytes \<times> nat) list) outcome" where
  "count_terms [] counts = Ok counts"
| "count_terms (t # terms) counts =
     (if t = [] then Err (TokenizerError ''empty normalized term'')
      else count_terms terms (btree_entry t 0 Suc counts))"

type_synonym posting_map = "(bytes \<times> (nat \<times> nat) list) list"

fun push_counts ::
  "u64 \<Rightarrow> nat \<Rightarrow> (bytes \<times> nat) list \<Rightarrow> posting_map \<Rightarrow> ('x hybrid_error, posting_map) outcome" where
  "push_counts r ordinal [] postings = Ok postings"
| "push_counts r ordinal ((t, n) # counts) postings =
     (if max_u16 < n then
        Err (HybridLimit (''term frequency '' @ show_nat n @ '' for row_id '' @ show_u64 r @ '' exceeds u16::MAX''))
      else push_counts r ordinal counts (btree_entry t [] (\<lambda>l. l @ [(ordinal, n)]) postings))"

fun collect_docs ::
  "nat \<Rightarrow> pending_doc list \<Rightarrow> u64 list \<Rightarrow> nat list \<Rightarrow> nat \<Rightarrow> posting_map \<Rightarrow>
     ('x hybrid_error, u64 list \<times> nat list \<times> nat \<times> posting_map) outcome" where
  "collect_docs ordinal [] row_ids doc_lens total_len postings = Ok (row_ids, doc_lens, total_len, postings)"
| "collect_docs ordinal (doc # docs) row_ids doc_lens total_len postings =
     (if max_u32 < ordinal then Err (HybridLimit ''doc ordinal exceeds u32::MAX'')
      else if max_u32 < length (pd_terms doc) then
        Err (HybridLimit (''document '' @ show_u64 (pd_row_id doc) @ '' term count '' @
          show_nat (length (pd_terms doc)) @ '' exceeds u32::MAX''))
      else
        obind (ok_or (HybridLimit ''total sparse document length overflow'')
          (checked_add total_len (length (pd_terms doc)))) (\<lambda>total_len'.
        obind (count_terms (pd_terms doc) []) (\<lambda>counts.
        obind (push_counts (pd_row_id doc) ordinal counts postings) (\<lambda>postings'.
          collect_docs (ordinal + 1) docs (row_ids @ [pd_row_id doc]) (doc_lens @ [length (pd_terms doc)])
            total_len' postings'))))"

fun sum_postings :: "posting_map \<Rightarrow> nat \<Rightarrow> ('x hybrid_error, nat) outcome" where
  "sum_postings [] n = Ok n"
| "sum_postings ((t, l) # m) n =
     obind (ok_or (HybridLimit ''postings count overflow'') (checked_add n (length l))) (sum_postings m)"

definition average_len :: "nat \<Rightarrow> nat \<Rightarrow> f32" where
  "average_len total_len n = (if n = 0 then f32_zero else f32_div (f32_of_nat total_len) (f32_of_nat n))"

definition from_docs :: "tokenizer_kind \<Rightarrow> pending_doc list \<Rightarrow> ('x hybrid_error, built_sparse) outcome" where
  "from_docs tokenizer docs =
     obind (collect_docs 0 docs [] [] 0 []) (\<lambda>(row_ids, doc_lens, total_len, postings).
     obind (sum_postings postings 0) (\<lambda>postings_count.
       Ok \<lparr>bs_tokenizer = tokenizer, bs_row_ids = row_ids, bs_doc_lens = doc_lens,
           bs_terms = map fst postings, bs_postings = map snd postings, bs_postings_count = postings_count,
           bs_avg_doc_len = average_len total_len (length docs)\<rparr>))"

section \<open>Layout\<close>

definition sparse_magic :: bytes where
  "sparse_magic = [79, 68, 66, 83, 66, 77, 49, 0]"

definition header_len :: nat where
  "header_len = 128"

definition endian_marker :: nat where
  "endian_marker = 16909060"

text \<open>\<open>1.2_f32\<close> and \<open>0.75_f32\<close> have the patterns \<open>0x3F99999A\<close> and \<open>0x3F400000\<close>.\<close>

definition default_k1 :: f32 where
  "default_k1 = 1067030938"

definition default_b :: f32 where
  "default_b = 1061158912"

definition checked_offset :: "nat \<Rightarrow> nat \<Rightarrow> nat \<Rightarrow> ('x hybrid_error, nat) outcome" where
  "checked_offset base n elem_len =
     ok_or (HybridLimit ''sparse mmap offset overflow'')
       (case checked_mul n elem_len of None \<Rightarrow> None | Some len \<Rightarrow> checked_add base len)"

record term_entry =
  te_term_offset :: nat
  te_term_len :: nat
  te_postings_offset :: nat
  te_postings_len :: nat

fun layout_entries ::
  "(bytes \<times> (nat \<times> nat) list) list \<Rightarrow> nat \<Rightarrow> nat \<Rightarrow> ('x hybrid_error, term_entry list) outcome" where
  "layout_entries [] term_cursor posting_cursor = Ok []"
| "layout_entries ((t, l) # rest) term_cursor posting_cursor =
     obind (ok_or (HybridLimit ''term cursor overflow'') (checked_add term_cursor (length t))) (\<lambda>term_cursor'.
     obind (checked_offset posting_cursor (length l) 8) (\<lambda>posting_cursor'.
     obind (layout_entries rest term_cursor' posting_cursor') (\<lambda>es.
       Ok (\<lparr>te_term_offset = term_cursor, te_term_len = length t, te_postings_offset = posting_cursor,
            te_postings_len = length l\<rparr> # es))))"

definition encode_entry :: "term_entry \<Rightarrow> bytes" where
  "encode_entry e =
     le_bytes 8 (te_term_offset e) @ le_bytes 4 (te_term_len e) @ le_bytes 4 0 @
     le_bytes 8 (te_postings_offset e) @ le_bytes 4 (te_postings_len e) @ le_bytes 4 0"

definition encode_posting :: "nat \<times> nat \<Rightarrow> bytes" where
  "encode_posting = (\<lambda>(ordinal, tf). le_bytes 4 ordinal @ le_bytes 2 tf @ le_bytes 2 0)"

fun sum_lengths :: "bytes list \<Rightarrow> nat \<Rightarrow> ('x hybrid_error, nat) outcome" where
  "sum_lengths [] n = Ok n"
| "sum_lengths (t # ts) n =
     obind (ok_or (HybridLimit ''term bytes length overflow'') (checked_add n (length t))) (sum_lengths ts)"

text \<open>The header, field by field, at its widths.\<close>

definition header_fields ::
  "built_sparse \<Rightarrow> nat \<Rightarrow> nat \<Rightarrow> nat \<Rightarrow> nat \<Rightarrow> nat \<Rightarrow> (nat \<times> nat) list" where
  "header_fields b doc_len_offset term_table_offset term_bytes_offset postings_offset file_len =
     [(4, 1), (4, header_len), (4, endian_marker), (4, 0), (2, unat (tokenizer_code (bs_tokenizer b))), (2, 1),
      (4, 0), (8, length (bs_row_ids b)), (8, length (bs_terms b)), (8, bs_postings_count b),
      (4, unat (bs_avg_doc_len b)), (4, unat default_k1), (4, unat default_b), (4, 0),
      (8, header_len), (8, doc_len_offset), (8, term_table_offset), (8, term_bytes_offset),
      (8, postings_offset), (8, file_len), (8, 0)]"

definition encode_fields :: "(nat \<times> nat) list \<Rightarrow> bytes" where
  "encode_fields fs = concat (map (\<lambda>(w, n). le_bytes w n) fs)"

definition to_bytes :: "built_sparse \<Rightarrow> ('x hybrid_error, bytes) outcome" where
  "to_bytes b =
     obind (sum_lengths (bs_terms b) 0) (\<lambda>term_bytes_len.
     obind (checked_offset header_len (length (bs_row_ids b)) 8) (\<lambda>doc_len_offset.
     obind (checked_offset doc_len_offset (length (bs_doc_lens b)) 4) (\<lambda>term_table_offset.
     obind (checked_offset term_table_offset (length (bs_terms b)) 32) (\<lambda>term_bytes_offset.
     obind (ok_or (HybridLimit ''term bytes section overflow'') (checked_add term_bytes_offset term_bytes_len))
       (\<lambda>postings_offset.
     obind (checked_offset postings_offset (bs_postings_count b) 8) (\<lambda>file_len.
     obind (layout_entries (zip (bs_terms b) (bs_postings b)) term_bytes_offset postings_offset) (\<lambda>entries.
       let header = sparse_magic @
             encode_fields (header_fields b doc_len_offset term_table_offset term_bytes_offset postings_offset file_len);
           out = header @ concat (map u64_to_le (bs_row_ids b)) @ concat (map (le_bytes 4) (bs_doc_lens b)) @
             concat (map encode_entry entries) @ concat (bs_terms b) @
             concat (map encode_posting (concat (bs_postings b)))
       in if length header \<noteq> header_len \<or> length out \<noteq> file_len then Panic else Ok out)))))))"

record sparse_build_report =
  rep_row_count :: nat
  rep_term_count :: nat
  rep_postings_count :: nat
  rep_tokenizer :: tokenizer_kind
  rep_tokenizer_version :: nat
  rep_avg_doc_len :: f32
  rep_file_size :: nat

text \<open>
  \<open>write_mmap\<close> without its two file operations: the bytes that \<open>atomic_write\<close> puts at the path, and
  the report.
\<close>

definition build_bytes :: "sparse_builder \<Rightarrow> ('x hybrid_error, bytes \<times> sparse_build_report) outcome" where
  "build_bytes bd =
     (if max_u32 < length (bd_docs bd) then
        Err (HybridLimit (''sparse doc count '' @ show_nat (length (bd_docs bd)) @ '' exceeds u32::MAX''))
      else
        obind (from_docs (bd_tokenizer bd) (bd_docs bd)) (\<lambda>built.
        obind (to_bytes built) (\<lambda>out.
          Ok (out, \<lparr>rep_row_count = length (bd_docs bd), rep_term_count = length (bs_terms built),
            rep_postings_count = bs_postings_count built, rep_tokenizer = bd_tokenizer bd,
            rep_tokenizer_version = 1, rep_avg_doc_len = bs_avg_doc_len built, rep_file_size = length out\<rparr>))))"

section \<open>What the builder collects\<close>

text \<open>The postings of a term, from the documents alone.\<close>

definition postings_of :: "nat \<Rightarrow> pending_doc list \<Rightarrow> bytes \<Rightarrow> (nat \<times> nat) list" where
  "postings_of ordinal docs t =
     map (\<lambda>(i, d). (i, count_list (pd_terms d) t)) (filter (\<lambda>(i, d). t \<in> set (pd_terms d)) (enumerate ordinal docs))"

definition doc_terms :: "pending_doc list \<Rightarrow> bytes set" where
  "doc_terms docs = \<Union> (set ` pd_terms ` set docs)"

definition doc_fits :: "pending_doc \<Rightarrow> bool" where
  "doc_fits d \<longleftrightarrow> length (pd_terms d) \<le> max_u32 \<and>
     list_all (\<lambda>t. t \<noteq> [] \<and> count_list (pd_terms d) t \<le> max_u16) (pd_terms d)"

definition total_terms :: "pending_doc list \<Rightarrow> nat" where
  "total_terms docs = sum_list (map (length \<circ> pd_terms) docs)"

definition docs_fit :: "pending_doc list \<Rightarrow> bool" where
  "docs_fit docs \<longleftrightarrow> list_all doc_fits docs \<and> length docs \<le> Suc max_u32 \<and> total_terms docs \<le> usize_max"

definition get_postings :: "posting_map \<Rightarrow> bytes \<Rightarrow> (nat \<times> nat) list" where
  "get_postings m t = (case map_of m t of None \<Rightarrow> [] | Some l \<Rightarrow> l)"

definition get_count :: "(bytes \<times> nat) list \<Rightarrow> bytes \<Rightarrow> nat" where
  "get_count m t = (case map_of m t of None \<Rightarrow> 0 | Some n \<Rightarrow> n)"

definition postings_total :: "posting_map \<Rightarrow> nat" where
  "postings_total m = sum_list (map (length \<circ> snd) m)"

lemma count_terms_Ok:
  assumes "btree_ok counts"
  shows "if [] \<in> set ts then count_terms ts counts = Err (TokenizerError ''empty normalized term'')
    else \<exists>counts'. count_terms ts counts = Ok counts' \<and> btree_ok counts' \<and>
      fst ` set counts' = set ts \<union> fst ` set counts \<and>
      (\<forall>t. get_count counts' t = get_count counts t + count_list ts t)"
  using assms
proof (induction ts arbitrary: counts)
  case (Cons t ts)
  show ?case
  proof (cases "t = []")
    case False
    have "get_count (btree_entry t 0 Suc counts) x = get_count counts x + (if x = t then 1 else 0)" for x
      using Cons.prems by (auto simp: get_count_def split: option.splits)
    then show ?thesis
      using Cons.IH [of "btree_entry t 0 Suc counts"] Cons.prems False by auto
  qed simp
qed simp

lemma length_counts: "btree_ok counts \<Longrightarrow> length counts = card (fst ` set counts)"
proof -
  assume "btree_ok counts"
  then have "distinct (map fst counts)" by (simp add: btree_ok_def strict_sorted_iff)
  then show ?thesis by (metis distinct_card length_map set_map)
qed

lemma postings_total_entry [simp]:
  "postings_total (btree_entry t [] (\<lambda>l. l @ [p]) m) = Suc (postings_total m)"
  by (induction m) (auto simp: postings_total_def)

lemma push_counts_Ok:
  assumes "btree_ok m" and "distinct (map fst counts)"
  shows "if list_all (\<lambda>(t, n). n \<le> max_u16) counts
    then \<exists>m'. push_counts r ordinal counts m = Ok m' \<and> btree_ok m' \<and> fst ` set m' = fst ` set counts \<union> fst ` set m \<and>
      (\<forall>t. get_postings m' t = get_postings m t @ (case map_of counts t of None \<Rightarrow> [] | Some n \<Rightarrow> [(ordinal, n)])) \<and>
      postings_total m' = postings_total m + length counts
    else \<exists>e. push_counts r ordinal counts m = Err e"
  using assms
proof (induction counts arbitrary: m)
  case (Cons c counts)
  obtain t n where c: "c = (t, n)" by fastforce
  let ?m = "btree_entry t [] (\<lambda>l. l @ [(ordinal, n)]) m"
  have get: "get_postings ?m x = get_postings m x @ (if x = t then [(ordinal, n)] else [])" for x
    using Cons.prems by (auto simp: get_postings_def split: option.splits)
  have none: "map_of counts t = None" using Cons.prems by (simp add: c map_of_eq_None_iff)
  show ?case
  proof (cases "n \<le> max_u16")
    case True
    have "(case map_of (c # counts) x of None \<Rightarrow> [] | Some n \<Rightarrow> [(ordinal, n)]) =
        (if x = t then [(ordinal, n)] else []) @ (case map_of counts x of None \<Rightarrow> [] | Some n \<Rightarrow> [(ordinal, n)])" for x
      using none by (simp add: c)
    then show ?thesis
      using Cons.IH [of ?m] Cons.prems True get by (auto simp: c)
  qed (simp add: c)
qed simp

lemma get_count_pos:
  assumes "btree_ok counts" and "fst ` set counts = set ts" and "\<forall>t. get_count counts t = count_list ts t"
  shows "map_of counts t = (if t \<in> set ts then Some (count_list ts t) else None)"
    and "list_all (\<lambda>(t, n). n \<le> max_u16) counts \<longleftrightarrow> list_all (\<lambda>t. count_list ts t \<le> max_u16) ts"
proof -
  have dist: "distinct (map fst counts)" using assms(1) by (simp add: btree_ok_def strict_sorted_iff)
  have look: "map_of counts t = (if t \<in> set ts then Some (count_list ts t) else None)" for t
  proof (cases "map_of counts t")
    case None
    then show ?thesis using assms(2) by (auto simp: map_of_eq_None_iff)
  next
    case (Some n)
    then have "t \<in> set ts" using assms(2) by (metis fst_conv image_eqI map_of_SomeD)
    then show ?thesis using assms(3) [rule_format, of t] Some by (simp add: get_count_def)
  qed
  show "map_of counts t = (if t \<in> set ts then Some (count_list ts t) else None)" by (rule look)
  have "(x, n) \<in> set counts \<longleftrightarrow> x \<in> set ts \<and> n = count_list ts x" for x n
    using look [of x] map_of_eq_Some_iff [OF dist, of x n] by (cases "x \<in> set ts") auto
  then show "list_all (\<lambda>(t, n). n \<le> max_u16) counts \<longleftrightarrow> list_all (\<lambda>t. count_list ts t \<le> max_u16) ts"
    by (simp add: list_all_iff case_prod_beta) (metis fst_conv snd_conv surj_pair)
qed

lemma postings_of_Cons:
  "postings_of ordinal (d # docs) t =
     (if t \<in> set (pd_terms d) then [(ordinal, count_list (pd_terms d) t)] else []) @ postings_of (ordinal + 1) docs t"
  by (simp add: postings_of_def)

lemma doc_terms_Cons: "doc_terms (d # docs) = set (pd_terms d) \<union> doc_terms docs"
  by (simp add: doc_terms_def)

lemma ok_or_checked_add [simp]: "ok_or e (checked_add a b) = (if a + b \<le> usize_max then Ok (a + b) else Err e)"
  by (simp add: checked_add_def)

text \<open>One document.\<close>

definition doc_postings ::
  "nat \<Rightarrow> pending_doc \<Rightarrow> posting_map \<Rightarrow> ('x hybrid_error, posting_map) outcome" where
  "doc_postings ordinal d m =
     obind (count_terms (pd_terms d) []) (\<lambda>counts. push_counts (pd_row_id d) ordinal counts m)"

lemma doc_postings_Ok:
  assumes "btree_ok m" and "length (pd_terms d) \<le> max_u32"
  shows "if doc_fits d
    then \<exists>m'. doc_postings ordinal d m = (Ok m' :: ('x hybrid_error, posting_map) outcome) \<and> btree_ok m' \<and>
      fst ` set m' = set (pd_terms d) \<union> fst ` set m \<and>
      (\<forall>t. get_postings m' t = get_postings m t @
        (if t \<in> set (pd_terms d) then [(ordinal, count_list (pd_terms d) t)] else [])) \<and>
      postings_total m' \<le> postings_total m + length (pd_terms d)
    else \<exists>e. doc_postings ordinal d m = (Err e :: ('x hybrid_error, posting_map) outcome)"
proof (cases "[] \<in> set (pd_terms d)")
  case True
  then show ?thesis
    using count_terms_Ok [of "[]" "pd_terms d", where 'a = 'x]
    by (auto simp: doc_fits_def doc_postings_def btree_ok_def list_all_iff)
next
  case False
  have "\<exists>counts. count_terms (pd_terms d) [] = (Ok counts :: ('x hybrid_error, _) outcome) \<and> btree_ok counts \<and>
      fst ` set counts = set (pd_terms d) \<and> (\<forall>t. get_count counts t = count_list (pd_terms d) t)"
    using count_terms_Ok [of "[]" "pd_terms d", where 'a = 'x] False by (auto simp: btree_ok_def get_count_def)
  then obtain counts where counts: "count_terms (pd_terms d) [] = (Ok counts :: ('x hybrid_error, _) outcome)"
    "btree_ok counts" "fst ` set counts = set (pd_terms d)" "\<forall>t. get_count counts t = count_list (pd_terms d) t"
    by blast
  note look = get_count_pos [OF counts(2-4)]
  have fits: "doc_fits d \<longleftrightarrow> list_all (\<lambda>(t, n). n \<le> max_u16) counts"
    using False assms(2) unfolding look(2) by (auto simp: doc_fits_def list_all_iff)
  have len: "length counts \<le> length (pd_terms d)"
    unfolding length_counts [OF counts(2)] counts(3) by (rule card_length)
  have dist: "distinct (map fst counts)" using counts(2) by (simp add: btree_ok_def strict_sorted_iff)
  note push = push_counts_Ok [OF assms(1) dist, of "pd_row_id d" ordinal, where 'a = 'x]
  show ?thesis
  proof (cases "doc_fits d")
    case True
    then obtain m' where m': "push_counts (pd_row_id d) ordinal counts m = (Ok m' :: ('x hybrid_error, posting_map) outcome)"
      "btree_ok m'" "fst ` set m' = fst ` set counts \<union> fst ` set m"
      "\<forall>t. get_postings m' t = get_postings m t @ (case map_of counts t of None \<Rightarrow> [] | Some n \<Rightarrow> [(ordinal, n)])"
      "postings_total m' = postings_total m + length counts"
      using push fits by auto
    then show ?thesis
      using True counts(1,3) look(1) len by (auto simp: doc_postings_def)
  next
    case no: False
    then show ?thesis using push fits counts(1) by (auto simp: doc_postings_def)
  qed
qed

fun fits_from :: "nat \<Rightarrow> nat \<Rightarrow> pending_doc list \<Rightarrow> bool" where
  "fits_from ordinal n [] = True"
| "fits_from ordinal n (d # docs) \<longleftrightarrow> ordinal \<le> max_u32 \<and> n + length (pd_terms d) \<le> usize_max \<and> doc_fits d \<and>
     fits_from (ordinal + 1) (n + length (pd_terms d)) docs"

lemma collect_docs_step:
  "collect_docs ordinal (d # docs) rows lens n m =
     (if max_u32 < ordinal then Err (HybridLimit ''doc ordinal exceeds u32::MAX'')
      else if max_u32 < length (pd_terms d) then
        Err (HybridLimit (''document '' @ show_u64 (pd_row_id d) @ '' term count '' @
          show_nat (length (pd_terms d)) @ '' exceeds u32::MAX''))
      else if usize_max < n + length (pd_terms d) then Err (HybridLimit ''total sparse document length overflow'')
      else obind (doc_postings ordinal d m) (\<lambda>m'.
        collect_docs (ordinal + 1) docs (rows @ [pd_row_id d]) (lens @ [length (pd_terms d)])
          (n + length (pd_terms d)) m'))"
  by (simp add: doc_postings_def obind_assoc)

lemma collect_docs_Ok:
  assumes "btree_ok m"
  shows "if fits_from ordinal n docs
    then \<exists>m'. collect_docs ordinal docs rows lens n m =
        (Ok (rows @ map pd_row_id docs, lens @ map (length \<circ> pd_terms) docs, n + total_terms docs, m') ::
          ('x hybrid_error, _) outcome) \<and>
      btree_ok m' \<and> fst ` set m' = doc_terms docs \<union> fst ` set m \<and>
      (\<forall>t. get_postings m' t = get_postings m t @ postings_of ordinal docs t) \<and>
      postings_total m' \<le> postings_total m + total_terms docs
    else \<exists>e. collect_docs ordinal docs rows lens n m = (Err e :: ('x hybrid_error, _) outcome)"
  using assms
proof (induction docs arbitrary: ordinal rows lens n m)
  case Nil
  then show ?case by (simp add: doc_terms_def postings_of_def total_terms_def)
next
  case (Cons d docs)
  let ?ts = "pd_terms d"
  have tot: "total_terms (d # docs) = length ?ts + total_terms docs" by (simp add: total_terms_def)
  show ?case
  proof (cases "ordinal \<le> max_u32 \<and> length ?ts \<le> max_u32 \<and> n + length ?ts \<le> usize_max")
    case False
    then show ?thesis unfolding collect_docs_step by (auto simp: doc_fits_def)
  next
    case True
    note one = doc_postings_Ok [OF Cons.prems, of d ordinal, where 'x = 'x]
    show ?thesis
    proof (cases "doc_fits d")
      case fits: True
      then obtain m' where m': "doc_postings ordinal d m = (Ok m' :: ('x hybrid_error, posting_map) outcome)" "btree_ok m'"
        "fst ` set m' = set ?ts \<union> fst ` set m"
        "\<forall>t. get_postings m' t = get_postings m t @ (if t \<in> set ?ts then [(ordinal, count_list ?ts t)] else [])"
        "postings_total m' \<le> postings_total m + length ?ts"
        using one True by auto
      then show ?thesis
        using Cons.IH [OF m'(2), of "ordinal + 1" "n + length ?ts" "rows @ [pd_row_id d]" "lens @ [length ?ts]"] True fits
        unfolding collect_docs_step tot by (auto simp: postings_of_Cons doc_terms_Cons add.assoc)
    next
      case False
      then show ?thesis using one True unfolding collect_docs_step by auto
    qed
  qed
qed

lemma fits_from_iff:
  "fits_from ordinal n docs \<longleftrightarrow>
     list_all doc_fits docs \<and> (docs \<noteq> [] \<longrightarrow> ordinal + length docs \<le> Suc max_u32 \<and> n + total_terms docs \<le> usize_max)"
proof (induction docs arbitrary: ordinal n)
  case (Cons d docs)
  show ?case
    unfolding fits_from.simps Cons.IH by (cases "docs = []") (auto simp: total_terms_def)
qed simp

lemma docs_fit_iff: "docs_fit docs \<longleftrightarrow> fits_from 0 0 docs"
  by (auto simp: docs_fit_def fits_from_iff total_terms_def)

lemma sum_postings_eq:
  "sum_postings m n = (if n + postings_total m \<le> usize_max then Ok (n + postings_total m)
     else if m = [] then Ok n else Err (HybridLimit ''postings count overflow''))"
  by (induction m arbitrary: n) (auto simp: postings_total_def)

text \<open>The index the builder is meant to build.\<close>

definition built_spec :: "tokenizer_kind \<Rightarrow> pending_doc list \<Rightarrow> built_sparse" where
  "built_spec tokenizer docs =
     (let terms = sorted_list_of_set (doc_terms docs); lists = map (postings_of 0 docs) terms
      in \<lparr>bs_tokenizer = tokenizer, bs_row_ids = map pd_row_id docs,
          bs_doc_lens = map (length \<circ> pd_terms) docs, bs_terms = terms, bs_postings = lists,
          bs_postings_count = sum_list (map length lists),
          bs_avg_doc_len = average_len (total_terms docs) (length docs)\<rparr>)"

lemma btree_sorted_list: "btree_ok m \<Longrightarrow> map fst m = sorted_list_of_set (fst ` set m)"
  by (intro sorted_distinct_set_unique) (auto simp: btree_ok_def strict_sorted_iff)

lemma btree_values: "btree_ok m \<Longrightarrow> map snd m = map (get_postings m) (map fst m)"
  unfolding map_map
proof (rule map_cong [OF refl])
  fix p assume "btree_ok m" "p \<in> set m"
  then have "map_of m (fst p) = Some (snd p)"
    by (intro map_of_is_SomeI) (auto simp: btree_ok_def strict_sorted_iff)
  then show "snd p = (get_postings m \<circ> fst) p" by (simp add: get_postings_def)
qed

lemma from_docs_built:
  "if docs_fit docs then from_docs tokenizer docs = (Ok (built_spec tokenizer docs) :: ('x hybrid_error, built_sparse) outcome)
   else \<exists>e. from_docs tokenizer docs = (Err e :: ('x hybrid_error, built_sparse) outcome)"
proof -
  note run = collect_docs_Ok [of "[]" 0 0 docs "[]" "[]", where 'x = 'x]
  show ?thesis
  proof (cases "docs_fit docs")
    case True
    then obtain m where m: "collect_docs 0 docs [] [] 0 [] =
        (Ok (map pd_row_id docs, map (length \<circ> pd_terms) docs, total_terms docs, m) :: ('x hybrid_error, _) outcome)"
      "btree_ok m" "fst ` set m = doc_terms docs" "get_postings m = postings_of 0 docs"
      "postings_total m \<le> total_terms docs"
      using run by (auto simp: docs_fit_iff btree_ok_def get_postings_def postings_total_def fun_eq_iff)
    have keys: "map fst m = sorted_list_of_set (doc_terms docs)" using btree_sorted_list [OF m(2)] m(3) by simp
    have vals: "map snd m = map (postings_of 0 docs) (sorted_list_of_set (doc_terms docs))"
      using btree_values [OF m(2)] m(4) keys by simp
    have "postings_total m = sum_list (map length (map snd m))" by (simp add: postings_total_def)
    then have "postings_total m = sum_list (map length (map (postings_of 0 docs) (sorted_list_of_set (doc_terms docs))))"
      unfolding vals .
    moreover have "postings_total m \<le> usize_max" using m(5) True by (simp add: docs_fit_def)
    ultimately show ?thesis
      using True by (simp add: from_docs_def m(1) sum_postings_eq keys vals built_spec_def Let_def)
  next
    case False
    then have "\<exists>e. collect_docs 0 docs [] [] 0 [] = (Err e :: ('x hybrid_error, _) outcome)"
      using run by (simp add: docs_fit_iff btree_ok_def)
    then show ?thesis using False by (auto simp: from_docs_def)
  qed
qed

section \<open>The builder's invariant\<close>

text \<open>The builders a client can reach; a refused document leaves the builder as it was.\<close>

inductive builder_run :: "tokenizer_kind \<Rightarrow> sparse_builder \<Rightarrow> bool" where
  run_new: "builder_run k (builder_new k)"
| run_text: "builder_run k b \<Longrightarrow> (b', res :: (unit hybrid_error, unit) outcome) = add_text b r content \<Longrightarrow> builder_run k b'"
| run_terms: "builder_run k b \<Longrightarrow> (b', res :: (unit hybrid_error, unit) outcome) = add_normalized_terms b r terms \<Longrightarrow>
    builder_run k b'"

definition builder_ok :: "sparse_builder \<Rightarrow> bool" where
  "builder_ok b \<longleftrightarrow> distinct (map pd_row_id (bd_docs b)) \<and> bd_seen b = pd_row_id ` set (bd_docs b) \<and>
     list_all (\<lambda>d. list_all is_normalized_term_v1 (pd_terms d)) (bd_docs b)"

lemma add_doc_ok:
  assumes "builder_ok b" and "list_all is_normalized_term_v1 terms" and "add_doc b r terms = (b', res)"
  shows "builder_ok b' \<and> bd_tokenizer b' = bd_tokenizer b \<and>
    (if r \<in> pd_row_id ` set (bd_docs b) then b' = b \<and> (\<exists>m. res = Err (RowIdError m))
     else bd_docs b' = bd_docs b @ [\<lparr>pd_row_id = r, pd_terms = terms\<rparr>] \<and> res = Ok ())"
  using assms by (auto simp: add_doc_def builder_ok_def split: if_splits)

lemma normalized_terms: "list_all is_normalized_term_v1 (concat (map (option_list \<circ> normalize_term) terms))"
proof -
  have "is_normalized_term_v1 u" if "u \<in> set (option_list (normalize_term x))" for u x
    using that by (cases "normalize_term x") (auto simp: normalize_term_normalized)
  then show ?thesis by (auto simp: list_all_iff)
qed

lemma tokenized_terms: "list_all is_normalized_term_v1 (tokenize_text k content)"
  by (simp add: list_all_iff tokenize_normalized)

lemma builder_run_ok: "builder_run k b \<Longrightarrow> builder_ok b \<and> bd_tokenizer b = k"
proof (induction rule: builder_run.induct)
  case (run_new k)
  show ?case by (simp add: builder_ok_def builder_new_def)
next
  case (run_text k b b' res r content)
  then show ?case
    using add_doc_ok [OF _ tokenized_terms, of b r "bd_tokenizer b" content b' res] by (simp add: add_text_def)
next
  case (run_terms k b b' res r terms)
  then show ?case
    using add_doc_ok [OF _ normalized_terms, of b r terms b' res] by (simp add: add_normalized_terms_def)
qed

text \<open>Terms in normal form are not empty, which is all that \<open>from_docs\<close> asks of them.\<close>

lemma normalized_not_empty: "is_normalized_term_v1 t \<Longrightarrow> t \<noteq> []"
  by (auto simp: is_normalized_term_v1_def)

section \<open>The bytes of a built index\<close>

fun place_entries :: "(bytes \<times> (nat \<times> nat) list) list \<Rightarrow> nat \<Rightarrow> nat \<Rightarrow> term_entry list" where
  "place_entries [] tc pc = []"
| "place_entries ((t, l) # rest) tc pc =
     \<lparr>te_term_offset = tc, te_term_len = length t, te_postings_offset = pc, te_postings_len = length l\<rparr> #
       place_entries rest (tc + length t) (pc + length l * 8)"

definition terms_size :: "(bytes \<times> (nat \<times> nat) list) list \<Rightarrow> nat" where
  "terms_size ts = sum_list (map (length \<circ> fst) ts)"

definition lists_size :: "(bytes \<times> (nat \<times> nat) list) list \<Rightarrow> nat" where
  "lists_size ts = sum_list (map (length \<circ> snd) ts)"

lemma checked_offset_eq:
  "checked_offset base n w = (if base + n * w \<le> usize_max then Ok (base + n * w)
     else Err (HybridLimit ''sparse mmap offset overflow''))"
  by (cases "n * w \<le> usize_max") (auto simp: checked_offset_def checked_mul_def checked_add_def)

lemma layout_entries_place:
  "tc + terms_size ts \<le> usize_max \<Longrightarrow> pc + lists_size ts * 8 \<le> usize_max \<Longrightarrow>
     layout_entries ts tc pc = Ok (place_entries ts tc pc)"
proof (induction ts arbitrary: tc pc)
  case (Cons p ts)
  obtain t l where p: "p = (t, l)" by fastforce
  show ?case
    using Cons by (simp add: p terms_size_def lists_size_def checked_offset_eq add_mult_distrib)
qed simp

lemma sum_lengths_eq:
  "n \<le> usize_max \<Longrightarrow> sum_lengths ts n = (if n + length (concat ts) \<le> usize_max then Ok (n + length (concat ts))
     else Err (HybridLimit ''term bytes length overflow''))"
  by (induction ts arbitrary: n) (auto simp: add.assoc)

definition image_of :: "built_sparse \<Rightarrow> bytes" where
  "image_of b =
     (let n = length (bs_row_ids b); dl = header_len + n * 8; tt = dl + n * 4; tb = tt + length (bs_terms b) * 32;
          po = tb + length (concat (bs_terms b)); fl = po + length (concat (bs_postings b)) * 8
      in sparse_magic @ encode_fields (header_fields b dl tt tb po fl) @ concat (map u64_to_le (bs_row_ids b)) @
         concat (map (le_bytes 4) (bs_doc_lens b)) @
         concat (map encode_entry (place_entries (zip (bs_terms b) (bs_postings b)) tb po)) @
         concat (bs_terms b) @ concat (map encode_posting (concat (bs_postings b))))"

definition image_len :: "built_sparse \<Rightarrow> nat" where
  "image_len b = header_len + length (bs_row_ids b) * 12 + length (bs_terms b) * 32 +
     length (concat (bs_terms b)) + length (concat (bs_postings b)) * 8"

definition built_ok :: "built_sparse \<Rightarrow> bool" where
  "built_ok b \<longleftrightarrow> length (bs_doc_lens b) = length (bs_row_ids b) \<and> length (bs_postings b) = length (bs_terms b) \<and>
     bs_postings_count b = length (concat (bs_postings b))"

lemma length_encode_fields: "length (encode_fields fs) = sum_list (map fst fs)"
  by (induction fs) (auto simp: encode_fields_def)

lemma length_header: "length (encode_fields (header_fields b dl tt tb po fl)) = 120"
  by (simp add: length_encode_fields header_fields_def)

lemma length_concat_map: "(\<And>x. x \<in> set xs \<Longrightarrow> length (f x) = w) \<Longrightarrow> length (concat (map f xs)) = length xs * w"
  by (induction xs) auto

lemma length_place_entries [simp]: "length (place_entries ts tc pc) = length ts"
  by (induction ts tc pc rule: place_entries.induct) auto

lemma length_image:
  assumes "built_ok b"
  shows "length (image_of b) = image_len b"
proof -
  have "length (encode_entry e) = 32" for e by (simp add: encode_entry_def)
  then have "length (concat (map encode_entry es)) = length es * 32" for es by (simp add: length_concat_map)
  moreover have "length (encode_posting p) = 8" for p by (cases p) (simp add: encode_posting_def)
  then have "length (concat (map encode_posting ps)) = length ps * 8" for ps by (simp add: length_concat_map)
  ultimately show ?thesis
    using assms by (simp add: image_of_def Let_def length_header u64_codec.length_concat_encode length_concat_map
        built_ok_def image_len_def sparse_magic_def header_len_def)
qed

lemma zip_sizes:
  assumes "length ts = length ls"
  shows "terms_size (zip ts ls) = length (concat ts)" and "lists_size (zip ts ls) = length (concat ls)"
  using assms by (induction ts ls rule: list_induct2) (auto simp: terms_size_def lists_size_def)

lemma to_bytes_image:
  assumes "built_ok b"
  shows "if image_len b \<le> usize_max then to_bytes b = (Ok (image_of b) :: ('x hybrid_error, bytes) outcome)
    else \<exists>e. to_bytes b = (Err e :: ('x hybrid_error, bytes) outcome)"
proof (cases "image_len b \<le> usize_max")
  case True
  let ?zip = "zip (bs_terms b) (bs_postings b)"
  have len: "length (bs_doc_lens b) = length (bs_row_ids b)" "length (bs_terms b) = length (bs_postings b)"
    "bs_postings_count b = length (concat (bs_postings b))"
    using assms by (simp_all add: built_ok_def)
  note size = length_image [OF assms]
  show ?thesis
    using True size
    by (simp add: to_bytes_def sum_lengths_eq checked_offset_eq image_len_def layout_entries_place len zip_sizes
        image_of_def Let_def length_header sparse_magic_def header_len_def)
next
  case False
  have len: "length (bs_doc_lens b) = length (bs_row_ids b)" "bs_postings_count b = length (concat (bs_postings b))"
    using assms by (simp_all add: built_ok_def)
  show ?thesis
    using False by (simp add: to_bytes_def sum_lengths_eq checked_offset_eq image_len_def len usize_max_def header_len_def)
qed

lemma built_spec_ok: "built_ok (built_spec k docs)"
  by (simp add: built_ok_def built_spec_def Let_def length_concat)

lemma build_image:
  assumes "builder_run k b"
  shows "if docs_fit (bd_docs b) \<and> length (bd_docs b) \<le> max_u32 \<and> image_len (built_spec k (bd_docs b)) \<le> usize_max
    then build_bytes b = (Ok (image_of (built_spec k (bd_docs b)),
      \<lparr>rep_row_count = length (bd_docs b), rep_term_count = card (doc_terms (bd_docs b)),
       rep_postings_count = length (concat (bs_postings (built_spec k (bd_docs b)))), rep_tokenizer = k, rep_tokenizer_version = 1,
       rep_avg_doc_len = bs_avg_doc_len (built_spec k (bd_docs b)), rep_file_size = image_len (built_spec k (bd_docs b))\<rparr>) :: ('x hybrid_error, _) outcome)
    else \<exists>e. build_bytes b = (Err e :: ('x hybrid_error, _) outcome)"
proof -
  define spec where "spec = built_spec k (bd_docs b)"
  have k: "bd_tokenizer b = k" using builder_run_ok [OF assms(1)] by auto
  have ok: "built_ok spec" unfolding spec_def by (rule built_spec_ok)
  have cnt: "bs_postings_count spec = length (concat (bs_postings spec))" using ok by (simp add: built_ok_def)
  have card: "length (bs_terms spec) = card (doc_terms (bd_docs b))"
    by (simp add: spec_def built_spec_def Let_def)
  show ?thesis
  proof (cases "docs_fit (bd_docs b)")
    case True
    then have "from_docs k (bd_docs b) = (Ok spec :: ('x hybrid_error, built_sparse) outcome)"
      using from_docs_built [of "bd_docs b" k, where 'x = 'x] by (simp add: spec_def)
    then show ?thesis
      unfolding spec_def [symmetric]
      using True to_bytes_image [OF ok, where 'x = 'x] length_image [OF ok]
      by (auto simp: build_bytes_def k cnt [symmetric] card)
  next
    case False
    then show ?thesis
      unfolding spec_def [symmetric]
      using from_docs_built [of "bd_docs b" k, where 'x = 'x] by (auto simp: build_bytes_def k)
  qed
qed

section \<open>Properties\<close>

text \<open>A small builder: one document with the terms of \<open>Cats eat cats\<close> under the row ID 7.\<close>

definition ex_builder :: sparse_builder where
  "ex_builder = fst (add_doc (builder_new Simple) 7 [[99, 97, 116, 115], [101, 97, 116], [99, 97, 116, 115]]
     :: sparse_builder \<times> (unit hybrid_error, unit) outcome)"

lemma ex_docs: "bd_docs ex_builder = [\<lparr>pd_row_id = 7, pd_terms = [[99, 97, 116, 115], [101, 97, 116], [99, 97, 116, 115]]\<rparr>]"
  "bd_tokenizer ex_builder = Simple"
  by (simp_all add: ex_builder_def add_doc_def builder_new_def)

lemma ex_builder_run: "builder_run Simple ex_builder"
proof (rule run_terms [OF run_new])
  have "concat (map (option_list \<circ> normalize_term) [[99, 97, 116, 115], [101, 97, 116], [99, 97, 116, 115]]) =
      [[99, 97, 116, 115], [101, 97, 116], [99, 97, 116, 115]]"
    by (simp add: normalize_term_fixed is_normalized_term_v1_def is_ascii_lower_def)
  then show "(ex_builder, Ok ()) =
      add_normalized_terms (builder_new Simple) 7 [[99, 97, 116, 115], [101, 97, 116], [99, 97, 116, 115]]"
    by (simp only: add_normalized_terms_def) (simp add: ex_builder_def add_doc_def builder_new_def)
qed

lemma ex_spec:
  "bs_terms (built_spec Simple (bd_docs ex_builder)) = [[99, 97, 116, 115], [101, 97, 116]]"
  "bs_postings (built_spec Simple (bd_docs ex_builder)) = [[(0, 2)], [(0, 1)]]"
  "bs_row_ids (built_spec Simple (bd_docs ex_builder)) = [7]"
proof -
  have terms: "sorted_list_of_set (doc_terms (bd_docs ex_builder)) = [[99, 97, 116, 115], [101, 97, 116]]"
    by (simp add: ex_docs doc_terms_def insert_Diff_if)
  show "bs_terms (built_spec Simple (bd_docs ex_builder)) = [[99, 97, 116, 115], [101, 97, 116]]"
    by (simp add: built_spec_def Let_def terms)
  show "bs_postings (built_spec Simple (bd_docs ex_builder)) = [[(0, 2)], [(0, 1)]]"
    by (simp add: built_spec_def Let_def terms) (simp add: ex_docs postings_of_def)
  show "bs_row_ids (built_spec Simple (bd_docs ex_builder)) = [7]"
    by (simp add: built_spec_def Let_def ex_docs)
qed

lemma ex_fit:
  "docs_fit (bd_docs ex_builder) \<and> length (bd_docs ex_builder) \<le> max_u32 \<and>
   image_len (built_spec Simple (bd_docs ex_builder)) \<le> usize_max"
  by (simp add: image_len_def header_len_def ex_spec)
    (simp add: ex_docs docs_fit_def total_terms_def doc_fits_def max_u32_def max_u16_def usize_max_def)

text \<open>
  Adding a text to a builder that the operations produced: a row ID already present is refused
  and changes nothing, otherwise the document is appended; the row IDs stay distinct, the set of seen
  IDs is the set of stored IDs, and every stored term is in the normal form the reader requires.
\<close>

theorem sparse_add_exact:
  assumes "builder_run k b" and "add_text b r content = (b', res)"
  shows "builder_ok b' \<and> bd_tokenizer b' = k \<and>
    (if r \<in> pd_row_id ` set (bd_docs b) then b' = b \<and> (\<exists>m. res = Err (RowIdError m))
     else bd_docs b' = bd_docs b @ [\<lparr>pd_row_id = r, pd_terms = tokenize_text k content\<rparr>] \<and> res = Ok ())"
proof -
  have b: "builder_ok b" "bd_tokenizer b = k" using builder_run_ok [OF assms(1)] by auto
  show ?thesis
    using add_doc_ok [OF b(1) tokenized_terms, of r k content b' res] assms(2) b(2) by (simp add: add_text_def)
qed

theorem sparse_add_exact_witness:
  "builder_ok (fst (add_text ex_builder 7 [99, 97, 116] :: _ \<times> (unit hybrid_error, unit) outcome)) \<and>
   fst (add_text ex_builder 7 [99, 97, 116] :: _ \<times> (unit hybrid_error, unit) outcome) = ex_builder"
proof -
  have "7 \<in> pd_row_id ` set (bd_docs ex_builder)" by (simp add: ex_docs)
  then show ?thesis
    using sparse_add_exact [OF ex_builder_run surjective_pairing, of 7 "[99, 97, 116]", where 'a = unit] by metis
qed

text \<open>
  The sidecar of a builder: when every term frequency fits sixteen bits, the counts fit 32 bits
  and the file its size, \<open>write_mmap\<close> writes the image of the inverted index of the documents
  (\<open>built_spec\<close>: the terms in order, each with the documents that contain it and how often) and
  reports its counts; otherwise it is an error. It never panics.
\<close>

theorem build_exact:
  assumes "builder_run k b"
  defines "spec \<equiv> built_spec k (bd_docs b)"
  shows "if docs_fit (bd_docs b) \<and> length (bd_docs b) \<le> max_u32 \<and> image_len spec \<le> usize_max
    then build_bytes b = (Ok (image_of spec,
      \<lparr>rep_row_count = length (bd_docs b), rep_term_count = card (doc_terms (bd_docs b)),
       rep_postings_count = length (concat (bs_postings spec)), rep_tokenizer = k, rep_tokenizer_version = 1,
       rep_avg_doc_len = bs_avg_doc_len spec, rep_file_size = image_len spec\<rparr>) :: ('x hybrid_error, _) outcome)
    else \<exists>e. build_bytes b = (Err e :: ('x hybrid_error, _) outcome)"
  unfolding spec_def using build_image [OF assms(1), where 'x = 'x] .

theorem build_exact_witness:
  "\<exists>out rep. build_bytes ex_builder = (Ok (out, rep) :: (unit hybrid_error, _) outcome) \<and> rep_term_count rep = 2 \<and>
     rep_postings_count rep = 2"
proof -
  have card: "card (doc_terms (bd_docs ex_builder)) = 2" by (simp add: ex_docs doc_terms_def card_insert_if)
  show ?thesis
    using build_exact [OF ex_builder_run, where 'x = unit] ex_fit by (simp add: card ex_spec)
qed

end
