(* ===== verification/SparseFormat.thy ===== *)
theory SparseFormat
  imports SparseBuilder
begin

text \<open>
  Opening a sparse sidecar (\<open>Header::parse\<close>, \<open>Bm25MmapIndex::open\<close>, \<open>validate_layout\<close> and the
  accessors in \<open>ordinaldb-hybrid/src/sparse.rs\<close>). The mapped file is its list of bytes, which does
  not change. The first characters of a malformed term in a message are the argument
  \<open>show_preview\<close>; the row table, a \<open>HashMap\<close>, is a map.
\<close>

section \<open>Reading integers\<close>

definition le_at :: "string \<Rightarrow> nat \<Rightarrow> bytes \<Rightarrow> nat \<Rightarrow> ('x hybrid_error, nat) outcome" where
  "le_at label w data offset =
     (if usize_max < offset + w then Panic
      else case get_range data offset (offset + w) of
        None \<Rightarrow> Err (MalformedLayout (''unexpected EOF reading '' @ label))
      | Some s \<Rightarrow> Ok (le_value s))"

definition le_u16_at :: "bytes \<Rightarrow> nat \<Rightarrow> ('x hybrid_error, nat) outcome" where
  "le_u16_at = le_at ''u16'' 2"

definition le_u32_at :: "bytes \<Rightarrow> nat \<Rightarrow> ('x hybrid_error, nat) outcome" where
  "le_u32_at = le_at ''u32'' 4"

definition le_u64_at :: "bytes \<Rightarrow> nat \<Rightarrow> ('x hybrid_error, nat) outcome" where
  "le_u64_at = le_at ''u64'' 8"

definition le_f32_at :: "bytes \<Rightarrow> nat \<Rightarrow> ('x hybrid_error, f32) outcome" where
  "le_f32_at data offset = obind (le_u32_at data offset) (\<lambda>n. Ok (word_of_nat n))"

section \<open>The header\<close>

record header =
  hd_doc_count :: nat
  hd_term_count :: nat
  hd_postings_count :: nat
  hd_avg_doc_len :: f32
  hd_k1 :: f32
  hd_b :: f32
  hd_tokenizer :: tokenizer_kind
  hd_tokenizer_version :: nat
  hd_row_ids_offset :: nat
  hd_doc_len_offset :: nat
  hd_term_table_offset :: nat
  hd_term_bytes_offset :: nat
  hd_postings_offset :: nat
  hd_file_len :: nat

definition usize_from_u64 :: "nat \<Rightarrow> string \<Rightarrow> ('x hybrid_error, nat) outcome" where
  "usize_from_u64 v label =
     (if v \<le> usize_max then Ok v
      else Err (HybridLimit (label @ '' '' @ show_nat v @ '' exceeds usize::MAX'')))"

definition malformed :: "string \<Rightarrow> ('x hybrid_error, 'a) outcome" where
  "malformed message = Err (MalformedLayout message)"

definition u64_field :: "bytes \<Rightarrow> nat \<Rightarrow> string \<Rightarrow> ('x hybrid_error, nat) outcome" where
  "u64_field data offset label = obind (le_u64_at data offset) (\<lambda>v. usize_from_u64 v label)"

text \<open>\<open>||\<close> over fallible reads: the first that is not zero decides.\<close>

fun any_nonzero :: "('x hybrid_error, nat) outcome list \<Rightarrow> ('x hybrid_error, bool) outcome" where
  "any_nonzero [] = Ok False"
| "any_nonzero (r # rs) = obind r (\<lambda>v. if v \<noteq> 0 then Ok True else any_nonzero rs)"

definition header_parse :: "bytes \<Rightarrow> ('x hybrid_error, header) outcome" where
  "header_parse data =
     (if length data < header_len then
        malformed (''file length '' @ show_nat (length data) @ '' is smaller than header length '' @ show_nat header_len)
      else if take 8 data \<noteq> sparse_magic then malformed ''invalid sparse mmap magic''
      else
        obind (le_u32_at data 8) (\<lambda>version.
        if version \<noteq> 1 then malformed ''unsupported sparse mmap version''
        else obind (le_u32_at data 12) (\<lambda>hlen.
        if hlen \<noteq> header_len then malformed ''invalid sparse mmap header length''
        else obind (le_u32_at data 16) (\<lambda>endian.
        if endian \<noteq> endian_marker then malformed ''invalid endian marker''
        else obind (any_nonzero [le_u32_at data 20, le_u32_at data 28, le_u32_at data 68, le_u64_at data 120]) (\<lambda>reserved.
        if reserved then malformed ''reserved header bytes must be zero''
        else obind (le_u16_at data 24) (\<lambda>kind.
        obind (tokenizer_from_u16 (word_of_nat kind)) (\<lambda>tokenizer.
        obind (le_u16_at data 26) (\<lambda>tokenizer_version.
        if tokenizer_version \<noteq> 1 then
          Err (TokenizerError (''unsupported tokenizer version '' @ show_nat tokenizer_version))
        else
          obind (u64_field data 32 ''doc count'') (\<lambda>doc_count.
          obind (u64_field data 40 ''term count'') (\<lambda>term_count.
          obind (u64_field data 48 ''postings count'') (\<lambda>postings_count.
          obind (le_f32_at data 56) (\<lambda>avg_doc_len.
          obind (le_f32_at data 60) (\<lambda>k1.
          obind (le_f32_at data 64) (\<lambda>b.
          obind (u64_field data 72 ''row-id offset'') (\<lambda>row_ids_offset.
          obind (u64_field data 80 ''doc-length offset'') (\<lambda>doc_len_offset.
          obind (u64_field data 88 ''term table offset'') (\<lambda>term_table_offset.
          obind (u64_field data 96 ''term bytes offset'') (\<lambda>term_bytes_offset.
          obind (u64_field data 104 ''postings offset'') (\<lambda>postings_offset.
          obind (u64_field data 112 ''file length'') (\<lambda>file_len.
            Ok \<lparr>hd_doc_count = doc_count, hd_term_count = term_count, hd_postings_count = postings_count,
                hd_avg_doc_len = avg_doc_len, hd_k1 = k1, hd_b = b, hd_tokenizer = tokenizer,
                hd_tokenizer_version = tokenizer_version, hd_row_ids_offset = row_ids_offset,
                hd_doc_len_offset = doc_len_offset, hd_term_table_offset = term_table_offset,
                hd_term_bytes_offset = term_bytes_offset, hd_postings_offset = postings_offset,
                hd_file_len = file_len\<rparr>))))))))))))))))))))"

section \<open>Accessors\<close>

record mmap_index =
  mi_mmap :: bytes
  mi_header :: header
  mi_doc_to_row_id :: "u64 list"
  mi_row_id_to_doc :: "u64 \<Rightarrow> nat option"

definition mi_row_id :: "mmap_index \<Rightarrow> nat \<Rightarrow> ('x hybrid_error, u64) outcome" where
  "mi_row_id idx ordinal =
     (if hd_doc_count (mi_header idx) \<le> ordinal then malformed ''doc ordinal out of range''
      else obind (checked_offset (hd_row_ids_offset (mi_header idx)) ordinal 8) (\<lambda>offset.
        obind (le_u64_at (mi_mmap idx) offset) (\<lambda>v. Ok (word_of_nat v))))"

definition mi_doc_len :: "mmap_index \<Rightarrow> nat \<Rightarrow> ('x hybrid_error, nat) outcome" where
  "mi_doc_len idx ordinal =
     (if hd_doc_count (mi_header idx) \<le> ordinal then malformed ''doc ordinal out of range''
      else obind (checked_offset (hd_doc_len_offset (mi_header idx)) ordinal 4) (\<lambda>offset.
        le_u32_at (mi_mmap idx) offset))"

definition mi_term_entry :: "mmap_index \<Rightarrow> nat \<Rightarrow> ('x hybrid_error, term_entry) outcome" where
  "mi_term_entry idx i =
     (if hd_term_count (mi_header idx) \<le> i then malformed ''term index out of range''
      else obind (checked_offset (hd_term_table_offset (mi_header idx)) i 32) (\<lambda>offset.
        obind (le_u32_at (mi_mmap idx) (offset + 12)) (\<lambda>reserved0.
        obind (le_u32_at (mi_mmap idx) (offset + 28)) (\<lambda>reserved1.
        if reserved0 \<noteq> 0 \<or> reserved1 \<noteq> 0 then malformed ''term entry reserved bytes must be zero''
        else
          obind (u64_field (mi_mmap idx) offset ''term offset'') (\<lambda>term_offset.
          obind (le_u32_at (mi_mmap idx) (offset + 8)) (\<lambda>term_len.
          obind (u64_field (mi_mmap idx) (offset + 16) ''postings offset'') (\<lambda>postings_offset.
          obind (le_u32_at (mi_mmap idx) (offset + 24)) (\<lambda>postings_len.
            Ok \<lparr>te_term_offset = term_offset, te_term_len = term_len,
                te_postings_offset = postings_offset, te_postings_len = postings_len\<rparr>))))))))"

definition mi_term_bytes :: "mmap_index \<Rightarrow> term_entry \<Rightarrow> ('x hybrid_error, bytes) outcome" where
  "mi_term_bytes idx e =
     obind (ok_or (HybridLimit ''term byte range overflow'') (checked_add (te_term_offset e) (te_term_len e))) (\<lambda>stop.
     if te_term_offset e < hd_term_bytes_offset (mi_header idx) \<or> hd_postings_offset (mi_header idx) < stop then
       malformed ''term byte range is outside term section''
     else slice (mi_mmap idx) (te_term_offset e) stop)"

definition mi_posting_range :: "mmap_index \<Rightarrow> term_entry \<Rightarrow> ('x hybrid_error, nat \<times> nat) outcome" where
  "mi_posting_range idx e =
     obind (checked_offset (te_postings_offset e) (te_postings_len e) 8) (\<lambda>stop.
     if te_postings_offset e < hd_postings_offset (mi_header idx) \<or> length (mi_mmap idx) < stop then
       malformed ''posting range is outside postings section''
     else Ok (te_postings_offset e, stop))"

text \<open>\<open>range.step_by(POSTING_LEN)\<close>.\<close>

definition step_offsets :: "nat \<times> nat \<Rightarrow> nat list" where
  "step_offsets = (\<lambda>(a, b). map (\<lambda>i. a + i * 8) [0..<(b - a + 7) div 8])"

definition pinned_row_id :: "mmap_index \<Rightarrow> nat \<Rightarrow> ('x hybrid_error, u64) outcome" where
  "pinned_row_id idx ordinal =
     ok_or (MalformedLayout ''doc ordinal out of range'') (get_nth (mi_doc_to_row_id idx) ordinal)"

text \<open>The binary search over the term table.\<close>

function search_term ::
  "mmap_index \<Rightarrow> bytes \<Rightarrow> nat \<Rightarrow> nat \<Rightarrow> ('x hybrid_error, term_entry option) outcome" where
  "search_term idx target lo hi =
     (if lo < hi then
        let mid = lo + (hi - lo) div 2 in
        obind (mi_term_entry idx mid) (\<lambda>e.
        obind (mi_term_bytes idx e) (\<lambda>found.
        if found < target then search_term idx target (mid + 1) hi
        else if target < found then search_term idx target lo mid
        else Ok (Some e)))
      else Ok None)"
  by pat_completeness auto
termination
  by (relation "measure (\<lambda>(idx, target, lo, hi). hi - lo)") auto

declare search_term.simps [simp del]

definition find_term :: "mmap_index \<Rightarrow> bytes \<Rightarrow> ('x hybrid_error, term_entry option) outcome" where
  "find_term idx target = search_term idx target 0 (hd_term_count (mi_header idx))"

section \<open>UTF-8\<close>

definition utf8_tail :: "u8 \<Rightarrow> bool" where
  "utf8_tail b \<longleftrightarrow> 128 \<le> b \<and> b \<le> 191"

text \<open>\<open>std::str::from_utf8(bytes).is_ok()\<close>.\<close>

fun utf8_valid :: "bytes \<Rightarrow> bool" where
  "utf8_valid [] = True"
| "utf8_valid (a # bs) =
     (if a < 128 then utf8_valid bs
      else if 194 \<le> a \<and> a \<le> 223 then
        (case bs of b # cs \<Rightarrow> utf8_tail b \<and> utf8_valid cs | [] \<Rightarrow> False)
      else if 224 \<le> a \<and> a \<le> 239 then
        (case bs of b # c # cs \<Rightarrow> utf8_tail b \<and> (a = 224 \<longrightarrow> 160 \<le> b) \<and> (a = 237 \<longrightarrow> b \<le> 159) \<and> utf8_tail c \<and> utf8_valid cs
         | _ \<Rightarrow> False)
      else if 240 \<le> a \<and> a \<le> 244 then
        (case bs of b # c # d # cs \<Rightarrow> utf8_tail b \<and> (a = 240 \<longrightarrow> 144 \<le> b) \<and> (a = 244 \<longrightarrow> b \<le> 143) \<and> utf8_tail c \<and>
           utf8_tail d \<and> utf8_valid cs
         | _ \<Rightarrow> False)
      else False)"

section \<open>Validation\<close>

definition checked_section ::
  "nat \<Rightarrow> nat \<Rightarrow> nat \<Rightarrow> nat \<Rightarrow> string \<Rightarrow> ('x hybrid_error, unit) outcome" where
  "checked_section file_len base n elem_len label =
     obind (checked_offset base n elem_len) (\<lambda>stop.
     if file_len < base \<or> file_len < stop then malformed (label @ '' section exceeds file length'') else Ok ())"

text \<open>The section table and the parameters of the header.\<close>

definition check_offsets :: "nat \<Rightarrow> header \<Rightarrow> ('x hybrid_error, unit) outcome" where
  "check_offsets mmap_len h =
     (if hd_file_len h \<noteq> mmap_len then malformed ''header file_len does not match mapped length''
      else if hd_row_ids_offset h \<noteq> header_len then malformed ''row-id section has noncanonical offset''
      else if max_u32 < hd_doc_count h then Err (HybridLimit ''doc count exceeds u32::MAX'')
      else
        obind (checked_offset (hd_row_ids_offset h) (hd_doc_count h) 8) (\<lambda>row_ids_end.
        if row_ids_end \<noteq> hd_doc_len_offset h then malformed ''row-id section has noncanonical end offset''
        else obind (checked_offset (hd_doc_len_offset h) (hd_doc_count h) 4) (\<lambda>doc_len_end.
        if doc_len_end \<noteq> hd_term_table_offset h then malformed ''doc-length section has noncanonical end offset''
        else obind (checked_offset (hd_term_table_offset h) (hd_term_count h) 32) (\<lambda>term_table_end.
        if term_table_end \<noteq> hd_term_bytes_offset h then malformed ''term table has noncanonical end offset''
        else Ok ()))))"

definition check_bounds :: "nat \<Rightarrow> header \<Rightarrow> ('x hybrid_error, unit) outcome" where
  "check_bounds mmap_len h =
     obind (checked_section mmap_len (hd_row_ids_offset h) (hd_doc_count h) 8 ''row ids'') (\<lambda>_.
     obind (checked_section mmap_len (hd_doc_len_offset h) (hd_doc_count h) 4 ''doc lengths'') (\<lambda>_.
     obind (checked_section mmap_len (hd_term_table_offset h) (hd_term_count h) 32 ''term table'') (\<lambda>_.
     obind (checked_section mmap_len (hd_postings_offset h) (hd_postings_count h) 8 ''postings'') (\<lambda>_.
     if hd_postings_offset h < hd_term_bytes_offset h \<or> mmap_len < hd_postings_offset h then
       malformed ''invalid term/postings section offsets''
     else Ok ()))))"

definition check_parameters :: "header \<Rightarrow> ('x hybrid_error, unit) outcome" where
  "check_parameters h =
     (if \<not> f32_is_finite (hd_avg_doc_len h) \<or> f32_lt (hd_avg_doc_len h) f32_zero then
        malformed ''avg_doc_len must be finite and non-negative''
      else if 0 < hd_term_count h \<and> f32_le (hd_avg_doc_len h) f32_zero then
        malformed ''avg_doc_len must be positive when terms are present''
      else if \<not> f32_is_finite (hd_k1 h) \<or> f32_le (hd_k1 h) f32_zero then malformed ''k1 must be finite and positive''
      else if \<not> f32_is_finite (hd_b h) \<or> \<not> (f32_le f32_zero (hd_b h) \<and> f32_le (hd_b h) f32_one) then
        malformed ''b must be finite and in [0, 1]''
      else Ok ())"

text \<open>The row table and its inverse.\<close>

fun load_rows ::
  "mmap_index \<Rightarrow> nat list \<Rightarrow> u64 list \<Rightarrow> (u64 \<Rightarrow> nat option) \<Rightarrow>
     ('x hybrid_error, u64 list \<times> (u64 \<Rightarrow> nat option)) outcome" where
  "load_rows idx [] table m = Ok (table, m)"
| "load_rows idx (i # is) table m =
     obind (mi_row_id idx i) (\<lambda>row_id.
     if max_u32 < i then Err (HybridLimit ''doc ordinal exceeds u32::MAX'')
     else if m row_id \<noteq> None then Err (RowIdError (''duplicate row_id '' @ show_u64 row_id @ '' in sparse mmap''))
     else load_rows idx is (table @ [row_id]) (m(row_id \<mapsto> i)))"

text \<open>The postings of one term; the lengths they imply are accumulated per document.\<close>

fun check_postings ::
  "bytes \<Rightarrow> nat \<Rightarrow> nat list \<Rightarrow> nat option \<Rightarrow> nat list \<Rightarrow> ('x hybrid_error, nat list) outcome" where
  "check_postings data doc_count [] previous lens = Ok lens"
| "check_postings data doc_count (offset # offsets) previous lens =
     obind (le_u32_at data offset) (\<lambda>d.
     if doc_count \<le> d then
       malformed (''posting doc ordinal '' @ show_nat d @ '' exceeds doc count '' @ show_nat doc_count)
     else if (case previous of None \<Rightarrow> False | Some p \<Rightarrow> d \<le> p) then
       malformed ''postings for a term must have strictly increasing doc ordinals''
     else obind (le_u16_at data (offset + 4)) (\<lambda>tf.
     if tf = 0 then malformed ''posting term frequency must be positive''
     else obind (le_u16_at data (offset + 6)) (\<lambda>reserved.
     if reserved \<noteq> 0 then malformed ''posting reserved bytes must be zero''
     else obind (ok_or (HybridLimit ''computed document length overflow'') (checked_add (lens ! d) tf)) (\<lambda>len.
       check_postings data doc_count offsets (Some d) (lens[d := len])))))"

record term_scan =
  ts_previous :: "bytes option"
  ts_term_cursor :: nat
  ts_posting_cursor :: nat
  ts_lens :: "nat list"

definition check_term ::
  "(bytes \<Rightarrow> string) \<Rightarrow> mmap_index \<Rightarrow> nat \<Rightarrow> term_scan \<Rightarrow> ('x hybrid_error, term_scan) outcome" where
  "check_term show_preview idx i st =
     obind (mi_term_entry idx i) (\<lambda>e.
     if te_term_offset e \<noteq> ts_term_cursor st then malformed ''term bytes are not stored contiguously''
     else if te_term_len e = 0 then malformed ''term length must be positive''
     else obind (mi_term_bytes idx e) (\<lambda>t.
     if \<not> utf8_valid t then malformed ''term bytes are not valid UTF-8''
     else if \<not> is_normalized_term_v1 t then
       malformed (''term bytes are not normalized for tokenizer v1 (len='' @ show_nat (te_term_len e) @ ''): '' @ show_preview t)
     else if (case ts_previous st of None \<Rightarrow> False | Some prev \<Rightarrow> t \<le> prev) then
       malformed ''term table is not strictly sorted''
     else obind (ok_or (HybridLimit ''term cursor overflow'') (checked_add (te_term_offset e) (te_term_len e))) (\<lambda>term_cursor.
     obind (mi_posting_range idx e) (\<lambda>range.
     if fst range \<noteq> ts_posting_cursor st then malformed ''postings are not stored contiguously''
     else if te_postings_len e = 0 then malformed ''term entry has no postings''
     else obind (check_postings (mi_mmap idx) (hd_doc_count (mi_header idx)) (step_offsets range) None (ts_lens st)) (\<lambda>lens.
       Ok \<lparr>ts_previous = Some t, ts_term_cursor = term_cursor, ts_posting_cursor = snd range, ts_lens = lens\<rparr>)))))"

fun check_terms ::
  "(bytes \<Rightarrow> string) \<Rightarrow> mmap_index \<Rightarrow> nat list \<Rightarrow> term_scan \<Rightarrow> ('x hybrid_error, term_scan) outcome" where
  "check_terms show_preview idx [] st = Ok st"
| "check_terms show_preview idx (i # is) st =
     obind (check_term show_preview idx i st) (check_terms show_preview idx is)"

text \<open>The stored document lengths against the computed ones, and their sum.\<close>

fun check_lens :: "mmap_index \<Rightarrow> (nat \<times> nat) list \<Rightarrow> nat \<Rightarrow> ('x hybrid_error, nat) outcome" where
  "check_lens idx [] acc = Ok acc"
| "check_lens idx ((i, computed) # rest) acc =
     obind (mi_doc_len idx i) (\<lambda>stored.
     if stored \<noteq> computed then
       malformed (''doc_len for ordinal '' @ show_nat i @ '' is '' @ show_nat stored @
         '', but postings imply '' @ show_nat computed)
     else obind (ok_or (HybridLimit ''total document length overflow'') (checked_add acc stored)) (check_lens idx rest))"

text \<open>\<open>f32::EPSILON\<close> is two to the power of minus 23.\<close>

definition f32_epsilon :: f32 where
  "f32_epsilon = 872415232"

definition check_average :: "f32 \<Rightarrow> nat \<Rightarrow> nat \<Rightarrow> ('x hybrid_error, unit) outcome" where
  "check_average avg acc n =
     (let expected = average_len acc n in
      if f32_lt (f32_mul f32_epsilon (f32_max expected f32_one)) (f32_abs (f32_sub avg expected))
      then malformed ''avg_doc_len does not match document lengths'' else Ok ())"

definition validate_layout ::
  "(bytes \<Rightarrow> string) \<Rightarrow> mmap_index \<Rightarrow> ('x hybrid_error, u64 list \<times> (u64 \<Rightarrow> nat option)) outcome" where
  "validate_layout show_preview idx =
     (let h = mi_header idx; file_len = length (mi_mmap idx) in
      obind (check_offsets file_len h) (\<lambda>_.
      obind (check_bounds file_len h) (\<lambda>_.
      obind (check_parameters h) (\<lambda>_.
      obind (load_rows idx [0..<hd_doc_count h] [] Map.empty) (\<lambda>tables.
      obind (check_terms show_preview idx [0..<hd_term_count h]
          \<lparr>ts_previous = None, ts_term_cursor = hd_term_bytes_offset h, ts_posting_cursor = hd_postings_offset h,
            ts_lens = replicate (hd_doc_count h) 0\<rparr>) (\<lambda>st.
      if ts_term_cursor st \<noteq> hd_postings_offset h then malformed ''term bytes section has noncanonical end offset''
      else if ts_posting_cursor st \<noteq> file_len then malformed ''postings section has noncanonical end offset''
      else
        obind (check_lens idx (enumerate 0 (ts_lens st)) 0) (\<lambda>total_len.
        obind (check_average (hd_avg_doc_len h) total_len (hd_doc_count h)) (\<lambda>_. Ok tables))))))))"

definition open_index :: "(bytes \<Rightarrow> string) \<Rightarrow> bytes \<Rightarrow> ('x hybrid_error, mmap_index) outcome" where
  "open_index show_preview data =
     obind (header_parse data) (\<lambda>h.
     let idx = \<lparr>mi_mmap = data, mi_header = h, mi_doc_to_row_id = [], mi_row_id_to_doc = Map.empty\<rparr> in
     obind (validate_layout show_preview idx) (\<lambda>(table, m).
       Ok (idx\<lparr>mi_doc_to_row_id := table, mi_row_id_to_doc := m\<rparr>)))"

record sparse_inspect_report =
  ins_row_count :: nat
  ins_term_count :: nat
  ins_postings_count :: nat
  ins_tokenizer :: tokenizer_kind
  ins_tokenizer_version :: nat
  ins_avg_doc_len :: f32
  ins_k1 :: f32
  ins_b :: f32
  ins_file_size :: nat

definition inspect_index :: "mmap_index \<Rightarrow> sparse_inspect_report" where
  "inspect_index idx =
     \<lparr>ins_row_count = hd_doc_count (mi_header idx), ins_term_count = hd_term_count (mi_header idx),
      ins_postings_count = hd_postings_count (mi_header idx), ins_tokenizer = hd_tokenizer (mi_header idx),
      ins_tokenizer_version = hd_tokenizer_version (mi_header idx), ins_avg_doc_len = hd_avg_doc_len (mi_header idx),
      ins_k1 = hd_k1 (mi_header idx), ins_b = hd_b (mi_header idx), ins_file_size = length (mi_mmap idx)\<rparr>"

end
