(* ===== verification/SparseView.thy ===== *)
theory SparseView
  imports SparseFormat
begin

text \<open>
  What an opened sparse index contains. The validation of \<open>Bm25MmapIndex::open\<close> is characterised as
  the existence of a view of the bytes (the terms in order with their postings) and every accessor
  is shown to read that view, so that none fails after a successful open.
\<close>

section \<open>Reading\<close>

definition read_le :: "nat \<Rightarrow> bytes \<Rightarrow> nat \<Rightarrow> nat option" where
  "read_le w data offset = (if offset + w \<le> length data then Some (le_value (take w (drop offset data))) else None)"

lemma le_at_Ok:
  "le_at label w data offset = Ok v \<longleftrightarrow> offset + w \<le> usize_max \<and> read_le w data offset = Some v"
  by (auto simp: le_at_def read_le_def get_range_def take_drop add.commute)

lemma read_le_bound: "read_le w data offset = Some v \<Longrightarrow> offset + w \<le> length data"
  by (auto simp: read_le_def split: if_splits)

lemma read_le_value: "read_le w data offset = Some v \<Longrightarrow> v < 256 ^ w"
proof -
  assume v: "read_le w data offset = Some v"
  then have "length (take w (drop offset data)) = w" using read_le_bound [OF v] by simp
  then show ?thesis using v le_value_bound [of "take w (drop offset data)"] by (simp add: read_le_def split: if_splits)
qed

lemma le_at_iff:
  "length data \<le> usize_max \<Longrightarrow> le_at label w data offset = Ok v \<longleftrightarrow> read_le w data offset = Some v"
  by (auto simp: le_at_Ok dest: read_le_bound)

lemma le_at_no_panic: "length data \<le> usize_max \<Longrightarrow> offset + w \<le> length data \<Longrightarrow> \<exists>v. le_at label w data offset = Ok v"
  by (rule exI [of _ "le_value (take w (drop offset data))"]) (simp add: le_at_iff read_le_def)

lemmas le_reads = le_u16_at_def le_u32_at_def le_u64_at_def

lemma u64_field_iff:
  "length data \<le> usize_max \<Longrightarrow> u64_field data offset label = Ok v \<longleftrightarrow> read_le 8 data offset = Some v"
proof -
  have "v \<le> usize_max" if "read_le 8 data offset = Some v" for v
    using read_le_value [OF that] by (simp add: usize_max_def)
  moreover assume "length data \<le> usize_max"
  ultimately show ?thesis
    by (auto simp: u64_field_def le_reads obind_eq_Ok usize_from_u64_def le_at_iff)
qed

definition entry_at :: "bytes \<Rightarrow> nat \<Rightarrow> term_entry \<Rightarrow> bool" where
  "entry_at data offset e \<longleftrightarrow>
     read_le 8 data offset = Some (te_term_offset e) \<and> read_le 4 data (offset + 8) = Some (te_term_len e) \<and>
     read_le 4 data (offset + 12) = Some 0 \<and> read_le 8 data (offset + 16) = Some (te_postings_offset e) \<and>
     read_le 4 data (offset + 24) = Some (te_postings_len e) \<and> read_le 4 data (offset + 28) = Some 0"

definition posting_at :: "bytes \<Rightarrow> nat \<Rightarrow> nat \<times> nat \<Rightarrow> bool" where
  "posting_at data offset p \<longleftrightarrow>
     read_le 4 data offset = Some (fst p) \<and> read_le 2 data (offset + 4) = Some (snd p) \<and>
     read_le 2 data (offset + 6) = Some 0"

lemma mi_term_entry_iff:
  assumes "length (mi_mmap idx) \<le> usize_max"
  shows "mi_term_entry idx i = Ok e \<longleftrightarrow>
    i < hd_term_count (mi_header idx) \<and> entry_at (mi_mmap idx) (hd_term_table_offset (mi_header idx) + i * 32) e"
proof (cases e)
  case (fields a b c d)
  have bound: "hd_term_table_offset (mi_header idx) + i * 32 \<le> usize_max"
    if "read_le 8 (mi_mmap idx) (hd_term_table_offset (mi_header idx) + i * 32) = Some a"
    using read_le_bound [OF that] assms by simp
  have ifs: "(if c then malformed m else r) = Ok x \<longleftrightarrow> \<not> c \<and> r = Ok x" for c m r and x :: 'b
    by (simp add: malformed_def)
  show ?thesis
    unfolding mi_term_entry_def ifs obind_eq_Ok le_reads le_at_iff [OF assms] u64_field_iff [OF assms]
    using bound by (auto simp: checked_offset_eq entry_at_def fields)
qed

lemma mi_term_bytes_iff:
  assumes "length (mi_mmap idx) \<le> usize_max" and "hd_postings_offset (mi_header idx) \<le> length (mi_mmap idx)"
  shows "mi_term_bytes idx e = Ok t \<longleftrightarrow>
    hd_term_bytes_offset (mi_header idx) \<le> te_term_offset e \<and>
    te_term_offset e + te_term_len e \<le> hd_postings_offset (mi_header idx) \<and>
    t = take (te_term_len e) (drop (te_term_offset e) (mi_mmap idx))"
  using assms by (auto simp: mi_term_bytes_def outcome_simps malformed_def slice_def take_drop add.commute split: if_splits)

lemma mi_posting_range_iff:
  assumes "length (mi_mmap idx) \<le> usize_max"
  shows "mi_posting_range idx e = Ok r \<longleftrightarrow>
    hd_postings_offset (mi_header idx) \<le> te_postings_offset e \<and>
    te_postings_offset e + te_postings_len e * 8 \<le> length (mi_mmap idx) \<and>
    r = (te_postings_offset e, te_postings_offset e + te_postings_len e * 8)"
  using assms by (auto simp: mi_posting_range_def outcome_simps malformed_def checked_offset_eq split: if_splits)

lemma step_offsets_eq: "step_offsets (a, a + n * 8) = map (\<lambda>i. a + i * 8) [0..<n]"
  by (simp add: step_offsets_def)

section \<open>Postings\<close>

text \<open>\<open>strict_from prev xs\<close>: the list rises strictly, above \<open>prev\<close> if there is one.\<close>

definition strict_from :: "'a::linorder option \<Rightarrow> 'a list \<Rightarrow> bool" where
  "strict_from prev xs \<longleftrightarrow> sorted_wrt (<) (option_list prev @ xs)"

lemma strict_from_simps [simp]:
  "strict_from prev []"
  "strict_from prev (x # xs) \<longleftrightarrow> \<not> (case prev of None \<Rightarrow> False | Some p \<Rightarrow> x \<le> p) \<and> strict_from (Some x) xs"
proof -
  show "strict_from prev []" by (cases prev) (simp_all add: strict_from_def)
  show "strict_from prev (x # xs) \<longleftrightarrow> \<not> (case prev of None \<Rightarrow> False | Some p \<Rightarrow> x \<le> p) \<and> strict_from (Some x) xs"
    by (cases prev) (auto simp: strict_from_def)
qed

definition add_len :: "nat \<times> nat \<Rightarrow> nat list \<Rightarrow> nat list" where
  "add_len p lens = lens[fst p := lens ! fst p + snd p]"

definition add_lens :: "(nat \<times> nat) list \<Rightarrow> nat list \<Rightarrow> nat list" where
  "add_lens l lens = fold add_len l lens"

lemma add_lens_simps [simp]: "add_lens [] lens = lens" "add_lens (p # l) lens = add_lens l (add_len p lens)"
  by (simp_all add: add_lens_def)

lemma length_add_lens [simp]: "length (add_lens l lens) = length lens"
  by (induction l arbitrary: lens) (auto simp: add_len_def)

lemma add_lens_append: "add_lens (l @ l') lens = add_lens l' (add_lens l lens)"
  by (simp add: add_lens_def)

lemma nth_add_lens:
  "list_all (\<lambda>p. fst p < length lens) l \<Longrightarrow> d < length lens \<Longrightarrow>
     add_lens l lens ! d = lens ! d + sum_list (map snd (filter (\<lambda>p. fst p = d) l))"
  by (induction l arbitrary: lens) (auto simp: add_len_def nth_list_update)

definition small_lens :: "nat list \<Rightarrow> bool" where
  "small_lens lens \<longleftrightarrow> list_all (\<lambda>n. n \<le> usize_max) lens"

lemma small_add_lens:
  assumes "list_all (\<lambda>p. fst p < length lens) l" and "small_lens (add_lens l lens)"
  shows "small_lens lens"
  unfolding small_lens_def list_all_length
proof (intro allI impI)
  fix d
  assume d: "d < length lens"
  then have "add_lens l lens ! d \<le> usize_max" using assms(2) by (auto simp: small_lens_def list_all_length)
  then show "lens ! d \<le> usize_max" using nth_add_lens [OF assms(1) d] by simp
qed

definition postings_ok :: "nat \<Rightarrow> (nat \<times> nat) list \<Rightarrow> bool" where
  "postings_ok n l \<longleftrightarrow> list_all (\<lambda>p. fst p < n \<and> 0 < snd p) l"

lemma postings_ok_simps [simp]:
  "postings_ok n []" "postings_ok n (p # l) \<longleftrightarrow> fst p < n \<and> 0 < snd p \<and> postings_ok n l"
  by (simp_all add: postings_ok_def)

lemma postings_ok_less: "postings_ok n l \<Longrightarrow> list_all (\<lambda>p. fst p < n) l"
  by (auto simp: postings_ok_def list_all_iff)

lemma check_postings_iff:
  assumes "length data \<le> usize_max" and "length lens = n" and "small_lens lens"
  shows "check_postings data n offsets prev lens = (Ok lens' :: ('x hybrid_error, _) outcome) \<longleftrightarrow>
    (\<exists>l. list_all2 (posting_at data) offsets l \<and> postings_ok n l \<and> strict_from prev (map fst l) \<and>
      lens' = add_lens l lens \<and> small_lens lens')"
  using assms
proof (induction offsets arbitrary: prev lens)
  case Nil
  then show ?case by auto
next
  case (Cons offset offsets)
  show ?case (is "?lhs \<longleftrightarrow> ?rhs")
  proof
    assume ?lhs
    then obtain d tf where read: "posting_at data offset (d, tf)" "d < n" "0 < tf"
      "\<not> (case prev of None \<Rightarrow> False | Some p \<Rightarrow> d \<le> p)" "lens ! d + tf \<le> usize_max"
      and rest: "check_postings data n offsets (Some d) (add_len (d, tf) lens) = (Ok lens' :: ('x hybrid_error, _) outcome)"
      using Cons.prems(1)
      by (auto simp: outcome_simps malformed_def posting_at_def le_reads le_at_iff add_len_def split: if_splits)
    have "small_lens (add_len (d, tf) lens)" "length (add_len (d, tf) lens) = n"
      using read(5) Cons.prems(2,3) by (auto simp: small_lens_def add_len_def list_all_iff dest: set_update_subset_insert [THEN subsetD])
    from Cons.IH [OF Cons.prems(1) this(2,1)] rest obtain l where
      "list_all2 (posting_at data) offsets l" "postings_ok n l" "strict_from (Some d) (map fst l)"
      "lens' = add_lens l (add_len (d, tf) lens)" "small_lens lens'" by auto
    then show ?rhs using read by (intro exI [of _ "(d, tf) # l"]) auto
  next
    assume ?rhs
    then obtain l0 where l0: "list_all2 (posting_at data) (offset # offsets) l0" "postings_ok n l0"
      "strict_from prev (map fst l0)" "lens' = add_lens l0 lens" "small_lens lens'" by blast
    then obtain p l where "l0 = p # l" by (cases l0) auto
    with l0 have l: "posting_at data offset p" "list_all2 (posting_at data) offsets l" "fst p < n" "0 < snd p"
      "postings_ok n l" "\<not> (case prev of None \<Rightarrow> False | Some q \<Rightarrow> fst p \<le> q)" "strict_from (Some (fst p)) (map fst l)"
      "lens' = add_lens l (add_len p lens)" "small_lens lens'"
      by simp_all
    have len: "length (add_len p lens) = n" using Cons.prems(2) by (simp add: add_len_def)
    have small: "small_lens (add_len p lens)"
      by (rule small_add_lens [of _ l]) (use l postings_ok_less len in auto)
    then have "lens ! fst p + snd p \<le> usize_max"
      using l(3) Cons.prems(2) by (auto simp: small_lens_def add_len_def list_all_length dest: spec [of _ "fst p"])
    moreover have "check_postings data n offsets (Some (fst p)) (add_len p lens) = (Ok lens' :: ('x hybrid_error, _) outcome)"
      unfolding Cons.IH [OF Cons.prems(1) len small] using l by blast
    moreover have "le_u32_at data offset = (Ok (fst p) :: ('x hybrid_error, _) outcome)"
      "le_u16_at data (offset + 4) = (Ok (snd p) :: ('x hybrid_error, _) outcome)"
      "le_u16_at data (offset + 6) = (Ok 0 :: ('x hybrid_error, _) outcome)"
      using l(1) Cons.prems(1) by (simp_all add: posting_at_def le_reads le_at_iff)
    ultimately show ?lhs using l(3,4,6) by (simp add: add_len_def)
  qed
qed

section \<open>Terms\<close>

type_synonym term_item = "bytes \<times> (nat \<times> nat) list"

text \<open>A term item is stored under an entry of the term table.\<close>

definition item_at :: "mmap_index \<Rightarrow> nat \<Rightarrow> term_entry \<Rightarrow> term_item \<Rightarrow> bool" where
  "item_at idx i e = (\<lambda>(t, l).
     entry_at (mi_mmap idx) (hd_term_table_offset (mi_header idx) + i * 32) e \<and>
     hd_term_bytes_offset (mi_header idx) \<le> te_term_offset e \<and>
     te_term_offset e + length t \<le> hd_postings_offset (mi_header idx) \<and>
     take (length t) (drop (te_term_offset e) (mi_mmap idx)) = t \<and>
     hd_postings_offset (mi_header idx) \<le> te_postings_offset e \<and>
     te_postings_offset e + length l * 8 \<le> length (mi_mmap idx) \<and>
     list_all2 (posting_at (mi_mmap idx)) (map (\<lambda>j. te_postings_offset e + j * 8) [0..<length l]) l)"

definition item_ok :: "nat \<Rightarrow> term_item \<Rightarrow> bool" where
  "item_ok n = (\<lambda>(t, l). is_normalized_term_v1 t \<and> l \<noteq> [] \<and> postings_ok n l \<and> sorted_wrt (<) (map fst l))"

lemma normalized_utf8:
  assumes "is_normalized_term_v1 t"
  shows "utf8_valid t"
proof -
  have "list_all (\<lambda>b. b < 128) t"
    using assms by (auto simp: is_normalized_term_v1_def is_ascii_lower_def is_ascii_digit_def list_all_iff word_le_nat_alt word_less_nat_alt)
  then show ?thesis by (induction t) auto
qed

lemma strict_from_None: "strict_from None xs \<longleftrightarrow> sorted_wrt (<) xs"
  by (simp add: strict_from_def)

lemma check_term_iff:
  assumes "length (mi_mmap idx) \<le> usize_max" and "hd_postings_offset (mi_header idx) \<le> length (mi_mmap idx)"
    and "length (ts_lens st) = hd_doc_count (mi_header idx)" and "small_lens (ts_lens st)"
  shows "check_term show_preview idx i st = (Ok st' :: ('x hybrid_error, _) outcome) \<longleftrightarrow>
    (\<exists>t l. let e = \<lparr>te_term_offset = ts_term_cursor st, te_term_len = length t,
                    te_postings_offset = ts_posting_cursor st, te_postings_len = length l\<rparr>
      in i < hd_term_count (mi_header idx) \<and> item_at idx i e (t, l) \<and> item_ok (hd_doc_count (mi_header idx)) (t, l) \<and>
      \<not> (case ts_previous st of None \<Rightarrow> False | Some prev \<Rightarrow> t \<le> prev) \<and>
      small_lens (add_lens l (ts_lens st)) \<and>
      st' = \<lparr>ts_previous = Some t, ts_term_cursor = ts_term_cursor st + length t,
             ts_posting_cursor = ts_posting_cursor st + length l * 8, ts_lens = add_lens l (ts_lens st)\<rparr>)"
    (is "?lhs \<longleftrightarrow> ?rhs")
proof
  assume ?lhs
  then obtain e t lens where e: "mi_term_entry idx i = (Ok e :: ('x hybrid_error, _) outcome)"
    "te_term_offset e = ts_term_cursor st" "te_term_len e \<noteq> 0"
    "mi_term_bytes idx e = (Ok t :: ('x hybrid_error, _) outcome)"
    "is_normalized_term_v1 t" "\<not> (case ts_previous st of None \<Rightarrow> False | Some prev \<Rightarrow> t \<le> prev)"
    and p: "mi_posting_range idx e = (Ok (te_postings_offset e, te_postings_offset e + te_postings_len e * 8) :: ('x hybrid_error, _) outcome)"
    "te_postings_offset e = ts_posting_cursor st" "te_postings_len e \<noteq> 0"
    "check_postings (mi_mmap idx) (hd_doc_count (mi_header idx))
      (step_offsets (te_postings_offset e, te_postings_offset e + te_postings_len e * 8)) None (ts_lens st) =
        (Ok lens :: ('x hybrid_error, _) outcome)"
    and st': "st' = \<lparr>ts_previous = Some t, ts_term_cursor = te_term_offset e + te_term_len e,
             ts_posting_cursor = te_postings_offset e + te_postings_len e * 8, ts_lens = lens\<rparr>"
    by (auto simp: check_term_def outcome_simps malformed_def mi_posting_range_iff assms(1) split: if_splits)
  note pr = mi_posting_range_iff [OF assms(1), THEN iffD1, OF p(1)]
  obtain l where l: "list_all2 (posting_at (mi_mmap idx)) (map (\<lambda>j. te_postings_offset e + j * 8) [0..<te_postings_len e]) l"
    "postings_ok (hd_doc_count (mi_header idx)) l" "sorted_wrt (<) (map fst l)" "lens = add_lens l (ts_lens st)" "small_lens lens"
    using p(4) unfolding check_postings_iff [OF assms(1,3,4)] step_offsets_eq strict_from_None by blast
  have ll: "length l = te_postings_len e" using list_all2_lengthD [OF l(1)] by simp
  note tb = mi_term_bytes_iff [OF assms(1,2), THEN iffD1, OF e(4)]
  have tl: "length t = te_term_len e" using tb assms(2) by auto
  have e_eq: "\<lparr>te_term_offset = ts_term_cursor st, te_term_len = length t,
                    te_postings_offset = ts_posting_cursor st, te_postings_len = length l\<rparr> = e"
    by (rule term_entry.equality) (simp_all add: e p tl ll)
  have "item_at idx i e (t, l)"
    using mi_term_entry_iff [OF assms(1), THEN iffD1, OF e(1)] tb pr l(1) tl ll by (simp add: item_at_def)
  moreover have "item_ok (hd_doc_count (mi_header idx)) (t, l)" using e(5) l p(3) ll by (auto simp: item_ok_def)
  moreover have "st' = \<lparr>ts_previous = Some t, ts_term_cursor = ts_term_cursor st + length t,
             ts_posting_cursor = ts_posting_cursor st + length l * 8, ts_lens = add_lens l (ts_lens st)\<rparr>"
    by (simp add: st' e(2) p(2) tl ll l(4))
  ultimately show ?rhs
    using mi_term_entry_iff [OF assms(1), THEN iffD1, OF e(1)] e(6) l(5)
    by (intro exI [of _ t] exI [of _ l]) (simp add: Let_def e_eq l(4))
next
  assume ?rhs
  then obtain t l e where e: "e = \<lparr>te_term_offset = ts_term_cursor st, te_term_len = length t,
                    te_postings_offset = ts_posting_cursor st, te_postings_len = length l\<rparr>"
    and item: "i < hd_term_count (mi_header idx)" "item_at idx i e (t, l)" "item_ok (hd_doc_count (mi_header idx)) (t, l)"
    and prev: "\<not> (case ts_previous st of None \<Rightarrow> False | Some prev \<Rightarrow> t \<le> prev)"
    and small: "small_lens (add_lens l (ts_lens st))"
    and st': "st' = \<lparr>ts_previous = Some t, ts_term_cursor = ts_term_cursor st + length t,
             ts_posting_cursor = ts_posting_cursor st + length l * 8, ts_lens = add_lens l (ts_lens st)\<rparr>"
    by (auto simp: Let_def)
  have "mi_term_entry idx i = (Ok e :: ('x hybrid_error, _) outcome)"
    using item by (simp add: mi_term_entry_iff [OF assms(1)] item_at_def)
  moreover have "mi_term_bytes idx e = (Ok t :: ('x hybrid_error, _) outcome)"
    using item(2) by (simp add: mi_term_bytes_iff [OF assms(1,2)] item_at_def e)
  moreover have "mi_posting_range idx e = (Ok (ts_posting_cursor st, ts_posting_cursor st + length l * 8) :: ('x hybrid_error, _) outcome)"
    using item(2) by (simp add: mi_posting_range_iff [OF assms(1)] item_at_def e)
  moreover have "check_postings (mi_mmap idx) (hd_doc_count (mi_header idx))
      (step_offsets (ts_posting_cursor st, ts_posting_cursor st + length l * 8)) None (ts_lens st) =
        (Ok (add_lens l (ts_lens st)) :: ('x hybrid_error, _) outcome)"
    unfolding check_postings_iff [OF assms(1,3,4)] step_offsets_eq strict_from_None
    using item(2,3) small by (intro exI [of _ l]) (simp add: item_at_def item_ok_def e)
  moreover have "t \<noteq> []" "l \<noteq> []" "is_normalized_term_v1 t" using item(3) by (auto simp: item_ok_def normalized_not_empty)
  moreover have "ts_term_cursor st + length t \<le> usize_max" using item(2) assms by (simp add: item_at_def e)
  ultimately show ?lhs
    using prev by (simp add: check_term_def e st' normalized_utf8)
qed

text \<open>The state of the scan after a term item.\<close>

definition scan_step :: "term_item \<Rightarrow> term_scan \<Rightarrow> term_scan" where
  "scan_step = (\<lambda>(t, l) st.
     \<lparr>ts_previous = Some t, ts_term_cursor = ts_term_cursor st + length t,
      ts_posting_cursor = ts_posting_cursor st + length l * 8, ts_lens = add_lens l (ts_lens st)\<rparr>)"

lemma scan_step_fields [simp]:
  "ts_previous (scan_step it st) = Some (fst it)"
  "ts_term_cursor (scan_step it st) = ts_term_cursor st + length (fst it)"
  "ts_posting_cursor (scan_step it st) = ts_posting_cursor st + length (snd it) * 8"
  "ts_lens (scan_step it st) = add_lens (snd it) (ts_lens st)"
  by (cases it; simp add: scan_step_def)+

lemma scan_end_fields:
  "ts_term_cursor (fold scan_step ts st) = ts_term_cursor st + terms_size ts"
  "ts_posting_cursor (fold scan_step ts st) = ts_posting_cursor st + lists_size ts * 8"
  "ts_lens (fold scan_step ts st) = add_lens (concat (map snd ts)) (ts_lens st)"
  by (induction ts arbitrary: st) (simp_all add: terms_size_def lists_size_def add_lens_append add_mult_distrib)

definition items_at :: "mmap_index \<Rightarrow> nat list \<Rightarrow> nat \<Rightarrow> nat \<Rightarrow> term_item list \<Rightarrow> bool" where
  "items_at idx is tc pc ts \<longleftrightarrow> length ts = length is \<and>
     list_all (\<lambda>(i, e, it). i < hd_term_count (mi_header idx) \<and> item_at idx i e it)
       (zip is (zip (place_entries ts tc pc) ts))"

lemma items_at_simps [simp]:
  "items_at idx [] tc pc ts \<longleftrightarrow> ts = []"
  "items_at idx (i # is) tc pc ((t, l) # ts) \<longleftrightarrow>
     i < hd_term_count (mi_header idx) \<and>
     item_at idx i \<lparr>te_term_offset = tc, te_term_len = length t, te_postings_offset = pc, te_postings_len = length l\<rparr> (t, l) \<and>
     items_at idx is (tc + length t) (pc + length l * 8) ts"
  "\<not> items_at idx (i # is) tc pc []"
  by (auto simp: items_at_def)

lemma items_ok_less: "list_all (item_ok n) ts \<Longrightarrow> list_all (\<lambda>p. fst p < n) (concat (map snd (ts :: term_item list)))"
  by (induction ts) (auto simp: item_ok_def dest: postings_ok_less)

lemma check_terms_iff:
  assumes "length (mi_mmap idx) \<le> usize_max" and "hd_postings_offset (mi_header idx) \<le> length (mi_mmap idx)"
    and "length (ts_lens st) = hd_doc_count (mi_header idx)" and "small_lens (ts_lens st)"
  shows "check_terms show_preview idx is st = (Ok st' :: ('x hybrid_error, _) outcome) \<longleftrightarrow>
    (\<exists>ts. items_at idx is (ts_term_cursor st) (ts_posting_cursor st) ts \<and>
      list_all (item_ok (hd_doc_count (mi_header idx))) ts \<and> strict_from (ts_previous st) (map fst ts) \<and>
      small_lens (ts_lens st') \<and> st' = fold scan_step ts st)"
  using assms(3,4)
proof (induction "is" arbitrary: st)
  case Nil
  then show ?case by auto
next
  case (Cons i "is")
  note one = check_term_iff [OF assms(1,2) Cons.prems, of show_preview i, unfolded Let_def, where 'x = 'x]
  show ?case (is "?lhs \<longleftrightarrow> ?rhs")
  proof
    assume ?lhs
    then obtain st1 where st1: "check_term show_preview idx i st = (Ok st1 :: ('x hybrid_error, _) outcome)"
      "check_terms show_preview idx is st1 = (Ok st' :: ('x hybrid_error, _) outcome)" by (auto simp: obind_eq_Ok)
    obtain t l where tl: "i < hd_term_count (mi_header idx)"
      "item_at idx i \<lparr>te_term_offset = ts_term_cursor st, te_term_len = length t,
         te_postings_offset = ts_posting_cursor st, te_postings_len = length l\<rparr> (t, l)"
      "item_ok (hd_doc_count (mi_header idx)) (t, l)" "small_lens (add_lens l (ts_lens st))"
      "\<not> (case ts_previous st of None \<Rightarrow> False | Some prev \<Rightarrow> t \<le> prev)" "st1 = scan_step (t, l) st"
      using st1(1) unfolding one by (auto simp: scan_step_def)
    have "length (ts_lens st1) = hd_doc_count (mi_header idx)" "small_lens (ts_lens st1)"
      using tl Cons.prems by simp_all
    from Cons.IH [OF this] st1(2) obtain ts where ts: "items_at idx is (ts_term_cursor st1) (ts_posting_cursor st1) ts"
      "list_all (item_ok (hd_doc_count (mi_header idx))) ts" "strict_from (ts_previous st1) (map fst ts)"
      "small_lens (ts_lens st')" "st' = fold scan_step ts st1" by blast
    then show ?rhs using tl by (intro exI [of _ "(t, l) # ts"]) simp
  next
    assume ?rhs
    then obtain ts0 where ts0: "items_at idx (i # is) (ts_term_cursor st) (ts_posting_cursor st) ts0"
      "list_all (item_ok (hd_doc_count (mi_header idx))) ts0" "strict_from (ts_previous st) (map fst ts0)"
      "small_lens (ts_lens st')" "st' = fold scan_step ts0 st" by blast
    then obtain it ts where "ts0 = it # ts" by (cases ts0) auto
    moreover obtain t l where "it = (t, l)" by fastforce
    ultimately have ts0_eq: "ts0 = (t, l) # ts" by simp
    let ?st1 = "scan_step (t, l) st"
    note ts = ts0 [unfolded ts0_eq, simplified]
    have len: "length (ts_lens ?st1) = hd_doc_count (mi_header idx)" using Cons.prems by simp
    have small: "small_lens (ts_lens ?st1)"
      by (rule small_add_lens [where l = "concat (map snd ts)"])
        (use ts items_ok_less Cons.prems in \<open>auto simp: scan_end_fields\<close>)
    have "check_term show_preview idx i st = (Ok ?st1 :: ('x hybrid_error, _) outcome)"
      unfolding one using ts(1-3) small by (intro exI [of _ t] exI [of _ l]) (simp add: scan_step_def)
    moreover have "check_terms show_preview idx is ?st1 = (Ok st' :: ('x hybrid_error, _) outcome)"
      unfolding Cons.IH [OF len small] using ts by (intro exI [of _ ts]) (simp add: scan_step_def)
    ultimately show ?lhs by simp
  qed
qed

section \<open>Rows and lengths\<close>

definition read_row :: "mmap_index \<Rightarrow> nat \<Rightarrow> u64 option" where
  "read_row idx i = (if i < hd_doc_count (mi_header idx)
     then map_option word_of_nat (read_le 8 (mi_mmap idx) (hd_row_ids_offset (mi_header idx) + i * 8)) else None)"

definition read_len :: "mmap_index \<Rightarrow> nat \<Rightarrow> nat option" where
  "read_len idx i = (if i < hd_doc_count (mi_header idx)
     then read_le 4 (mi_mmap idx) (hd_doc_len_offset (mi_header idx) + i * 4) else None)"

lemma mi_row_id_iff:
  assumes "length (mi_mmap idx) \<le> usize_max"
  shows "mi_row_id idx i = Ok r \<longleftrightarrow> read_row idx i = Some r"
proof -
  have "hd_row_ids_offset (mi_header idx) + i * 8 \<le> usize_max"
    if "read_le 8 (mi_mmap idx) (hd_row_ids_offset (mi_header idx) + i * 8) = Some v" for v
    using read_le_bound [OF that] assms by simp
  then show ?thesis
    using assms by (auto simp: mi_row_id_def read_row_def malformed_def obind_eq_Ok checked_offset_eq le_reads le_at_iff)
qed

lemma mi_doc_len_iff:
  assumes "length (mi_mmap idx) \<le> usize_max"
  shows "mi_doc_len idx i = Ok n \<longleftrightarrow> read_len idx i = Some n"
  using assms read_le_bound [of 4 "mi_mmap idx" "hd_doc_len_offset (mi_header idx) + i * 4" n]
  by (auto simp: mi_doc_len_def read_len_def malformed_def obind_eq_Ok checked_offset_eq le_reads le_at_iff)

lemma load_rows_iff:
  assumes "length (mi_mmap idx) \<le> usize_max"
  shows "load_rows idx is table m = (Ok res :: ('x hybrid_error, _) outcome) \<longleftrightarrow>
    (\<exists>rows. list_all2 (\<lambda>i r. i \<le> max_u32 \<and> read_row idx i = Some r) is rows \<and> distinct rows \<and>
      set rows \<inter> dom m = {} \<and> res = (table @ rows, m ++ map_of (zip rows is)))"
proof (induction "is" arbitrary: table m)
  case Nil
  then show ?case by (cases res) auto
next
  case (Cons i "is")
  show ?case (is "?lhs \<longleftrightarrow> ?rhs")
  proof
    assume ?lhs
    then obtain r where r: "read_row idx i = Some r" "i \<le> max_u32" "m r = None"
      "load_rows idx is (table @ [r]) (m(r \<mapsto> i)) = (Ok res :: ('x hybrid_error, _) outcome)"
      by (auto simp: obind_eq_Ok mi_row_id_iff [OF assms] split: if_splits)
    then obtain rows where rows: "list_all2 (\<lambda>i r. i \<le> max_u32 \<and> read_row idx i = Some r) is rows" "distinct rows"
      "set rows \<inter> dom (m(r \<mapsto> i)) = {}" "res = (table @ [r] @ rows, m(r \<mapsto> i) ++ map_of (zip rows is))"
      unfolding Cons.IH by auto
    have "map_of (zip rows is) r = None" using rows(1,3) by (auto simp: map_of_zip_is_None dest: list_all2_lengthD)
    then have "m(r \<mapsto> i) ++ map_of (zip rows is) = m ++ map_of (zip (r # rows) (i # is))"
      by (auto simp: fun_eq_iff map_add_def split: option.splits)
    then have "res = (table @ (r # rows), m ++ map_of (zip (r # rows) (i # is)))"
      unfolding rows(4) by (simp only: append_Cons append_Nil)
    moreover have "list_all2 (\<lambda>i r. i \<le> max_u32 \<and> read_row idx i = Some r) (i # is) (r # rows)" "distinct (r # rows)"
      "set (r # rows) \<inter> dom m = {}"
      using rows(1-3) r by (auto simp: domIff)
    ultimately show ?rhs by blast
  next
    assume ?rhs
    then obtain rows0 where rows0: "list_all2 (\<lambda>i r. i \<le> max_u32 \<and> read_row idx i = Some r) (i # is) rows0" "distinct rows0"
      "set rows0 \<inter> dom m = {}" "res = (table @ rows0, m ++ map_of (zip rows0 (i # is)))" by blast
    then obtain r rows where "rows0 = r # rows" by (cases rows0) auto
    note rows = rows0 [unfolded this]
    have rows: "i \<le> max_u32" "read_row idx i = Some r"
      "list_all2 (\<lambda>i r. i \<le> max_u32 \<and> read_row idx i = Some r) is rows" "distinct (r # rows)"
      "set (r # rows) \<inter> dom m = {}" "res = (table @ r # rows, m ++ map_of (zip (r # rows) (i # is)))"
      using rows(1) rows(2-4) by simp_all
    have "map_of (zip rows is) r = None" using rows(3,4) by (auto simp: map_of_zip_is_None dest: list_all2_lengthD)
    then have "m ++ map_of (zip (r # rows) (i # is)) = m(r \<mapsto> i) ++ map_of (zip rows is)"
      by (auto simp: fun_eq_iff map_add_def split: option.splits)
    then have "res = ((table @ [r]) @ rows, m(r \<mapsto> i) ++ map_of (zip rows is))" unfolding rows(6) by simp
    moreover have "set rows \<inter> dom (m(r \<mapsto> i)) = {}" "distinct rows" using rows(4,5) by auto
    ultimately have "load_rows idx is (table @ [r]) (m(r \<mapsto> i)) = (Ok res :: ('x hybrid_error, _) outcome)"
      unfolding Cons.IH using rows(3) by blast
    moreover have "mi_row_id idx i = (Ok r :: ('x hybrid_error, _) outcome)" "m r = None"
      using rows by (auto simp: mi_row_id_iff [OF assms] domIff)
    ultimately show ?lhs using rows(1) by simp
  qed
qed

lemma check_lens_iff:
  assumes "length (mi_mmap idx) \<le> usize_max"
  shows "acc \<le> usize_max \<Longrightarrow> check_lens idx pairs acc = (Ok n :: ('x hybrid_error, _) outcome) \<longleftrightarrow>
    list_all (\<lambda>(i, c). read_len idx i = Some c) pairs \<and> n = acc + sum_list (map snd pairs) \<and> n \<le> usize_max"
proof (induction pairs arbitrary: acc)
  case (Cons p pairs)
  obtain i c where p: "p = (i, c)" by fastforce
  show ?case
  proof (cases "read_len idx i = Some c \<and> acc + c \<le> usize_max")
    case True
    then have "mi_doc_len idx i = (Ok c :: ('x hybrid_error, _) outcome)" by (simp add: mi_doc_len_iff [OF assms])
    then show ?thesis using True Cons.IH [of "acc + c"] by (auto simp: p)
  next
    case False
    then have "check_lens idx (p # pairs) acc \<noteq> (Ok n :: ('x hybrid_error, _) outcome)"
      by (auto simp: p obind_eq_Ok mi_doc_len_iff [OF assms] malformed_def split: if_splits)
    then show ?thesis using False by (auto simp: p)
  qed
qed auto

section \<open>Opening\<close>

text \<open>The section table of a header that passes, for a file of a given length.\<close>

definition sections_ok :: "header \<Rightarrow> nat \<Rightarrow> bool" where
  "sections_ok h len \<longleftrightarrow>
     len \<le> usize_max \<and> hd_file_len h = len \<and> hd_row_ids_offset h = header_len \<and> hd_doc_count h \<le> max_u32 \<and>
     hd_doc_len_offset h = hd_row_ids_offset h + hd_doc_count h * 8 \<and>
     hd_term_table_offset h = hd_doc_len_offset h + hd_doc_count h * 4 \<and>
     hd_term_bytes_offset h = hd_term_table_offset h + hd_term_count h * 32 \<and>
     hd_term_bytes_offset h \<le> hd_postings_offset h \<and> hd_postings_offset h + hd_postings_count h * 8 \<le> len"

lemma check_sections_iff:
  assumes "hd_file_len h \<le> usize_max"
  shows "check_offsets len h = (Ok () :: ('x hybrid_error, unit) outcome) \<and>
      check_bounds len h = (Ok () :: ('x hybrid_error, unit) outcome) \<longleftrightarrow> sections_ok h len"
  using assms
  by (auto simp: check_offsets_def check_bounds_def checked_section_def checked_offset_eq malformed_def sections_ok_def
      split: if_splits)

text \<open>The rows and terms that the bytes of an index hold.\<close>

definition view_of :: "mmap_index \<Rightarrow> u64 list \<Rightarrow> term_item list \<Rightarrow> bool" where
  "view_of idx rows ts \<longleftrightarrow>
     list_all2 (\<lambda>i r. read_row idx i = Some r) [0..<hd_doc_count (mi_header idx)] rows \<and> distinct rows \<and>
     items_at idx [0..<hd_term_count (mi_header idx)] (hd_term_bytes_offset (mi_header idx))
       (hd_postings_offset (mi_header idx)) ts \<and>
     list_all (item_ok (length rows)) ts \<and> sorted_wrt (<) (map fst ts) \<and>
     hd_term_bytes_offset (mi_header idx) + terms_size ts = hd_postings_offset (mi_header idx) \<and>
     hd_postings_offset (mi_header idx) + lists_size ts * 8 = length (mi_mmap idx) \<and>
     list_all (\<lambda>(i, n). read_len idx i = Some n) (enumerate 0 (add_lens (concat (map snd ts)) (replicate (length rows) 0)))"

definition view_total :: "u64 list \<Rightarrow> term_item list \<Rightarrow> nat" where
  "view_total rows ts = sum_list (add_lens (concat (map snd ts)) (replicate (length rows) 0))"

lemma small_le_sum: "sum_list xs \<le> usize_max \<Longrightarrow> small_lens xs"
  using member_le_sum_list [of _ xs] by (fastforce simp: small_lens_def list_all_iff)

lemma map_snd_enumerate [simp]: "map snd (enumerate k xs) = xs"
  by (simp add: enumerate_eq_zip)

lemma validate_iff:
  assumes "hd_file_len (mi_header idx) \<le> usize_max"
  shows "validate_layout show_preview idx = (Ok (table, m) :: ('x hybrid_error, _) outcome) \<longleftrightarrow>
    sections_ok (mi_header idx) (length (mi_mmap idx)) \<and>
    check_parameters (mi_header idx) = (Ok () :: ('x hybrid_error, unit) outcome) \<and>
    (\<exists>ts. view_of idx table ts \<and> m = map_of (zip table [0..<length table]) \<and> view_total table ts \<le> usize_max \<and>
      check_average (hd_avg_doc_len (mi_header idx)) (view_total table ts) (hd_doc_count (mi_header idx)) =
        (Ok () :: ('x hybrid_error, unit) outcome))"
    (is "?lhs \<longleftrightarrow> ?rhs")
proof -
  let ?h = "mi_header idx"
  let ?n = "hd_doc_count ?h"
  let ?st = "\<lparr>ts_previous = None, ts_term_cursor = hd_term_bytes_offset ?h, ts_posting_cursor = hd_postings_offset ?h,
    ts_lens = replicate ?n 0\<rparr>"
  have shape: "?lhs \<longleftrightarrow> sections_ok ?h (length (mi_mmap idx)) \<and>
      check_parameters ?h = (Ok () :: ('x hybrid_error, unit) outcome) \<and>
      load_rows idx [0..<?n] [] Map.empty = (Ok (table, m) :: ('x hybrid_error, _) outcome) \<and>
      (\<exists>st. check_terms show_preview idx [0..<hd_term_count ?h] ?st = (Ok st :: ('x hybrid_error, _) outcome) \<and>
        ts_term_cursor st = hd_postings_offset ?h \<and> ts_posting_cursor st = length (mi_mmap idx) \<and>
        (\<exists>total_len. check_lens idx (enumerate 0 (ts_lens st)) 0 = (Ok total_len :: ('x hybrid_error, _) outcome) \<and>
          check_average (hd_avg_doc_len ?h) total_len ?n = (Ok () :: ('x hybrid_error, unit) outcome)))"
    unfolding check_sections_iff [OF assms, where 'x = 'x, symmetric]
    by (auto simp: validate_layout_def Let_def obind_eq_Ok malformed_def split: if_splits)
  show ?thesis
  proof (cases "sections_ok ?h (length (mi_mmap idx))")
    case True
    then have len: "length (mi_mmap idx) \<le> usize_max" "hd_postings_offset ?h \<le> length (mi_mmap idx)" "?n \<le> max_u32"
      by (simp_all add: sections_ok_def)
    have st: "length (ts_lens ?st) = ?n" "small_lens (ts_lens ?st)" by (simp_all add: small_lens_def list_all_iff)
    have rows: "load_rows idx [0..<?n] [] Map.empty = (Ok (table, m) :: ('x hybrid_error, _) outcome) \<longleftrightarrow>
        list_all2 (\<lambda>i r. read_row idx i = Some r) [0..<?n] table \<and> distinct table \<and>
        m = map_of (zip table [0..<length table])"
      unfolding load_rows_iff [OF len(1)] using len(3)
      by (auto simp: list_all2_conv_all_nth)
    have terms: "(check_terms show_preview idx [0..<hd_term_count ?h] ?st = (Ok st :: ('x hybrid_error, _) outcome) \<and>
        ts_term_cursor st = hd_postings_offset ?h \<and> ts_posting_cursor st = length (mi_mmap idx) \<and>
        check_lens idx (enumerate 0 (ts_lens st)) 0 = (Ok total_len :: ('x hybrid_error, _) outcome)) \<longleftrightarrow>
        (\<exists>ts. view_of idx table ts \<and> view_total table ts \<le> usize_max \<and> total_len = view_total table ts \<and> st = fold scan_step ts ?st)"
      if "list_all2 (\<lambda>i r. read_row idx i = Some r) [0..<?n] table" "distinct table" for st total_len
    proof -
      have n: "?n = length table" using list_all2_lengthD [OF that(1)] by simp
      show ?thesis
        unfolding check_terms_iff [OF len(1,2) st] check_lens_iff [OF len(1) le0]
        using that small_le_sum
        by (auto simp: scan_end_fields view_of_def view_total_def n strict_from_None)
    qed
    have "(\<exists>st. check_terms show_preview idx [0..<hd_term_count ?h] ?st = (Ok st :: ('x hybrid_error, _) outcome) \<and>
        ts_term_cursor st = hd_postings_offset ?h \<and> ts_posting_cursor st = length (mi_mmap idx) \<and>
        (\<exists>total_len. check_lens idx (enumerate 0 (ts_lens st)) 0 = (Ok total_len :: ('x hybrid_error, _) outcome) \<and> E total_len)) \<longleftrightarrow>
      (\<exists>ts. view_of idx table ts \<and> view_total table ts \<le> usize_max \<and> E (view_total table ts))" (is "?l = ?r")
      if "list_all2 (\<lambda>i r. read_row idx i = Some r) [0..<?n] table" "distinct table" for E
    proof -
      have "?l \<longleftrightarrow> (\<exists>st total_len. (check_terms show_preview idx [0..<hd_term_count ?h] ?st = (Ok st :: ('x hybrid_error, _) outcome) \<and>
        ts_term_cursor st = hd_postings_offset ?h \<and> ts_posting_cursor st = length (mi_mmap idx) \<and>
        check_lens idx (enumerate 0 (ts_lens st)) 0 = (Ok total_len :: ('x hybrid_error, _) outcome)) \<and> E total_len)" by blast
      also have "\<dots> \<longleftrightarrow> ?r" unfolding terms [OF that] by blast
      finally show ?thesis .
    qed
    note scan = this
    show ?thesis
    proof (cases "list_all2 (\<lambda>i r. read_row idx i = Some r) [0..<?n] table \<and> distinct table")
      case table: True
      then show ?thesis
        unfolding shape rows scan [OF conjunct1 [OF table] conjunct2 [OF table]] using True by auto
    next
      case False
      then have "\<not> view_of idx table ts" for ts by (auto simp: view_of_def)
      then show ?thesis unfolding shape rows using False by blast
    qed
  qed (simp add: shape)
qed

text \<open>The header is read at fixed places below its length.\<close>

lemma header_parse_file_len:
  assumes "header_parse data = (Ok h :: ('x hybrid_error, _) outcome)"
  shows "hd_file_len h \<le> usize_max"
proof -
  have "\<exists>v. u64_field data 112 ''file length'' = (Ok v :: ('x hybrid_error, _) outcome) \<and> hd_file_len h = v"
    using assms by (auto simp: header_parse_def obind_eq_Ok malformed_def split: if_splits)
  then show ?thesis
    by (auto simp: u64_field_def obind_eq_Ok usize_from_u64_def split: if_splits)
qed

lemma le_at_header:
  "header_len \<le> length data \<Longrightarrow> offset + w \<le> 128 \<Longrightarrow> le_at label w data offset \<noteq> Panic"
  by (auto simp: le_at_def usize_max_def split: option.splits)

lemma header_parse_no_panic: "header_parse data \<noteq> (Panic :: ('x hybrid_error, _) outcome)"
proof (cases "length data < header_len")
  case False
  have u64: "u64_field data offset label \<noteq> (Panic :: ('x hybrid_error, _) outcome)" if "offset + 8 \<le> 128" for offset label
    using that False le_at_header [of data offset 8 "''u64''"]
    by (auto simp: u64_field_def le_reads obind_eq_Panic usize_from_u64_def)
  have small: "le_u16_at data offset \<noteq> (Panic :: ('x hybrid_error, _) outcome)" if "offset + 2 \<le> 128" for offset
    using that False le_at_header [of data offset 2] by (auto simp: le_reads)
  have u32: "le_u32_at data offset \<noteq> (Panic :: ('x hybrid_error, _) outcome)" if "offset + 4 \<le> 128" for offset
    using that False le_at_header [of data offset 4] by (auto simp: le_reads)
  have u64': "le_u64_at data offset \<noteq> (Panic :: ('x hybrid_error, _) outcome)" if "offset + 8 \<le> 128" for offset
    using that False le_at_header [of data offset 8] by (auto simp: le_reads)
  have f32: "le_f32_at data offset \<noteq> (Panic :: ('x hybrid_error, _) outcome)" if "offset + 4 \<le> 128" for offset
    using that u32 by (auto simp: le_f32_at_def obind_eq_Panic)
  have any: "any_nonzero [le_u32_at data 20, le_u32_at data 28, le_u32_at data 68, le_u64_at data 120] \<noteq>
      (Panic :: ('x hybrid_error, _) outcome)"
    by (auto simp: obind_eq_Panic u32 u64')
  have tok: "tokenizer_from_u16 v \<noteq> (Panic :: ('x hybrid_error, _) outcome)" for v by simp
  have mal: "(malformed m :: ('x hybrid_error, 'c) outcome) \<noteq> Panic" for m by (simp add: malformed_def)
  have ifs: "(if c then m else r) = Panic \<longleftrightarrow> (if c then m = Panic else r = Panic)" for c and m r :: "('x hybrid_error, 'c) outcome"
    by simp
  show ?thesis
    unfolding header_parse_def ifs obind_eq_Panic
    using False u64 small u32 f32 any tok by (simp add: malformed_def)
qed (simp add: header_parse_def malformed_def)

lemma view_cong:
  assumes "mi_mmap idx = mi_mmap idx'" and "mi_header idx = mi_header idx'"
  shows "view_of idx = view_of idx'"
proof -
  have "read_row idx = read_row idx'" "read_len idx = read_len idx'" "item_at idx = item_at idx'"
    using assms by (simp_all add: fun_eq_iff read_row_def read_len_def item_at_def)
  then show ?thesis using assms unfolding fun_eq_iff [of "view_of idx"] view_of_def items_at_def by metis
qed

lemma open_iff:
  "open_index show_preview data = (Ok idx :: ('x hybrid_error, _) outcome) \<longleftrightarrow>
     header_parse data = (Ok (mi_header idx) :: ('x hybrid_error, _) outcome) \<and> mi_mmap idx = data \<and>
     sections_ok (mi_header idx) (length data) \<and>
     check_parameters (mi_header idx) = (Ok () :: ('x hybrid_error, unit) outcome) \<and>
     (\<exists>ts. view_of idx (mi_doc_to_row_id idx) ts \<and>
       mi_row_id_to_doc idx = map_of (zip (mi_doc_to_row_id idx) [0..<length (mi_doc_to_row_id idx)]) \<and>
       view_total (mi_doc_to_row_id idx) ts \<le> usize_max \<and>
       check_average (hd_avg_doc_len (mi_header idx)) (view_total (mi_doc_to_row_id idx) ts) (hd_doc_count (mi_header idx)) =
         (Ok () :: ('x hybrid_error, unit) outcome))" (is "?lhs \<longleftrightarrow> ?rhs")
proof (cases idx)
  case (fields mmap h table m)
  define idx0 where "idx0 = \<lparr>mi_mmap = data, mi_header = h, mi_doc_to_row_id = [], mi_row_id_to_doc = Map.empty\<rparr>"
  have idx0: "mi_mmap idx0 = data" "mi_header idx0 = h" by (simp_all add: idx0_def)
  have open_eq: "?lhs \<longleftrightarrow> header_parse data = (Ok h :: ('x hybrid_error, _) outcome) \<and> mmap = data \<and>
      validate_layout show_preview idx0 = (Ok (table, m) :: ('x hybrid_error, _) outcome)"
    by (auto simp: open_index_def Let_def obind_eq_Ok fields idx0_def)
  show ?thesis
  proof (cases "header_parse data = (Ok h :: ('x hybrid_error, _) outcome) \<and> mmap = data")
    case True
    then have "hd_file_len (mi_header idx0) \<le> usize_max" using header_parse_file_len idx0 by blast
    note val = validate_iff [OF this, where 'x = 'x]
    have view: "view_of idx = view_of idx0" using True by (intro view_cong) (simp_all add: fields idx0)
    show ?thesis
      unfolding open_eq val view idx0 using True by (simp add: fields)
  next
    case False
    then show ?thesis unfolding open_eq by (auto simp: fields)
  qed
qed

section \<open>Validation does not panic\<close>

lemma le_at_Panic: "offset + w \<le> usize_max \<Longrightarrow> le_at label w data offset \<noteq> Panic"
  by (simp add: le_at_def split: option.splits)

lemma ifs_Panic: "(if c then malformed m else r) = Panic \<longleftrightarrow> \<not> c \<and> r = Panic"
  by (simp add: malformed_def)

lemma checked_offset_Panic [simp]: "checked_offset a n w \<noteq> Panic"
  by (simp add: checked_offset_eq)

lemma usize_from_u64_Panic [simp]: "usize_from_u64 v label \<noteq> Panic"
  by (simp add: usize_from_u64_def)

text \<open>Every place that validation reads lies in a section, and so in the file.\<close>

lemma in_section: "sections_ok (mi_header idx) (length (mi_mmap idx)) \<Longrightarrow> i < n \<Longrightarrow> base + n * w \<le> length (mi_mmap idx) \<Longrightarrow> d + v \<le> w \<Longrightarrow> base + i * w + d + v \<le> usize_max"
proof -
  assume sections: "sections_ok (mi_header idx) (length (mi_mmap idx))" and "i < n" "base + n * w \<le> length (mi_mmap idx)" "d + v \<le> w"
  moreover have "i * w + w \<le> n * w" using \<open>i < n\<close> by (metis Suc_leI add.commute mult_Suc mult_le_mono1)
  ultimately show ?thesis using sections by (simp add: sections_ok_def)
qed

lemma mi_row_id_Panic:
  assumes sections: "sections_ok (mi_header idx) (length (mi_mmap idx))"
  shows "mi_row_id idx i \<noteq> Panic"
  using in_section [OF sections, of i "hd_doc_count (mi_header idx)" "hd_row_ids_offset (mi_header idx)" 8 0 8] sections
  by (auto simp: mi_row_id_def ifs_Panic obind_eq_Panic checked_offset_eq le_reads le_at_Panic sections_ok_def split: if_splits)

lemma mi_doc_len_Panic:
  assumes sections: "sections_ok (mi_header idx) (length (mi_mmap idx))"
  shows "mi_doc_len idx i \<noteq> Panic"
  using in_section [OF sections, of i "hd_doc_count (mi_header idx)" "hd_doc_len_offset (mi_header idx)" 4 0 4] sections
  by (auto simp: mi_doc_len_def ifs_Panic obind_eq_Panic checked_offset_eq le_reads le_at_Panic sections_ok_def split: if_splits)

lemma mi_term_entry_Panic:
  assumes sections: "sections_ok (mi_header idx) (length (mi_mmap idx))"
  shows "mi_term_entry idx i \<noteq> Panic"
proof -
  have "hd_term_table_offset (mi_header idx) + hd_term_count (mi_header idx) * 32 \<le> length (mi_mmap idx)"
    using sections by (simp add: sections_ok_def)
  note sec = in_section [OF sections _ this]
  show ?thesis
    using sec [of i 0 8] sec [of i 8 4] sec [of i 12 4] sec [of i 16 8] sec [of i 24 4] sec [of i 28 4]
    by (auto simp: mi_term_entry_def ifs_Panic obind_eq_Panic checked_offset_eq le_reads le_at_Panic u64_field_def
        split: if_splits)
qed

lemma mi_term_bytes_Panic:
  assumes sections: "sections_ok (mi_header idx) (length (mi_mmap idx))"
  shows "mi_term_bytes idx e \<noteq> Panic"
  using sections
  by (auto simp: mi_term_bytes_def ifs_Panic obind_eq_Panic slice_def sections_ok_def split: if_splits)

lemma mi_posting_range_Panic: "mi_posting_range idx e \<noteq> Panic"
  by (auto simp: mi_posting_range_def ifs_Panic obind_eq_Panic)

lemma check_postings_Panic:
  "list_all (\<lambda>offset. offset + 8 \<le> usize_max) offsets \<Longrightarrow> check_postings (mi_mmap idx) n offsets prev lens \<noteq> Panic"
proof (induction offsets arbitrary: prev lens)
  case (Cons offset offsets)
  then show ?case
    by (auto simp: ifs_Panic obind_eq_Panic le_reads le_at_Panic split: if_splits simp del: not_None_eq)
qed simp

lemma check_terms_Panic:
  assumes sections: "sections_ok (mi_header idx) (length (mi_mmap idx))"
  shows "check_terms show_preview idx is st \<noteq> Panic"
proof (induction "is" arbitrary: st)
  case (Cons i "is")
  have offs: "list_all (\<lambda>offset. offset + 8 \<le> usize_max) (step_offsets r)"
    if "mi_posting_range idx e = (Ok r :: ('x hybrid_error, _) outcome)" for e r
    using that sections in_section [OF sections, of _ "te_postings_len e" "te_postings_offset e" 8 0 8]
    by (auto simp: mi_posting_range_iff sections_ok_def step_offsets_eq list_all_iff)
  have "check_term show_preview idx i st \<noteq> (Panic :: ('x hybrid_error, _) outcome)"
    by (auto simp: check_term_def ifs_Panic obind_eq_Panic mi_term_entry_Panic [OF sections] mi_term_bytes_Panic [OF sections] mi_posting_range_Panic
        dest!: offs check_postings_Panic [THEN notE, rotated])
  then show ?case using Cons.IH by (auto simp: obind_eq_Panic)
qed simp

lemma check_lens_Panic:
  assumes sections: "sections_ok (mi_header idx) (length (mi_mmap idx))"
  shows "check_lens idx pairs acc \<noteq> Panic"
  by (induction pairs arbitrary: acc) (auto simp: ifs_Panic obind_eq_Panic mi_doc_len_Panic [OF sections] split: if_splits)

lemma load_rows_Panic:
  assumes sections: "sections_ok (mi_header idx) (length (mi_mmap idx))"
  shows "load_rows idx is table m \<noteq> Panic"
  by (induction "is" arbitrary: table m) (auto simp: obind_eq_Panic mi_row_id_Panic [OF sections])

section \<open>Reading an opened index\<close>

definition opened :: "mmap_index \<Rightarrow> u64 list \<Rightarrow> term_item list \<Rightarrow> bool" where
  "opened idx rows ts \<longleftrightarrow> sections_ok (mi_header idx) (length (mi_mmap idx)) \<and> view_of idx rows ts \<and>
     mi_doc_to_row_id idx = rows \<and> mi_row_id_to_doc idx = map_of (zip rows [0..<length rows])"

lemma open_opened:
  assumes "open_index show_preview data = (Ok idx :: ('x hybrid_error, _) outcome)"
  obtains ts where "opened idx (mi_doc_to_row_id idx) ts"
  using assms unfolding open_iff opened_def by auto

definition entry_of :: "mmap_index \<Rightarrow> term_item list \<Rightarrow> nat \<Rightarrow> term_entry" where
  "entry_of idx ts j = place_entries ts (hd_term_bytes_offset (mi_header idx)) (hd_postings_offset (mi_header idx)) ! j"

lemma place_entries_lens:
  "j < length ts \<Longrightarrow> te_term_len (place_entries ts tc pc ! j) = length (fst (ts ! j)) \<and>
     te_postings_len (place_entries ts tc pc ! j) = length (snd (ts ! j))"
proof (induction ts arbitrary: tc pc j)
  case (Cons it ts)
  then show ?case by (cases it; cases j) auto
qed simp

lemma opened_rows:
  assumes "opened idx rows ts"
  shows "length rows = hd_doc_count (mi_header idx)" and "distinct rows" and "length ts = hd_term_count (mi_header idx)"
    and "sorted_wrt (<) (map fst ts)" and "list_all (item_ok (length rows)) ts" and "length rows \<le> max_u32"
    and "length (mi_mmap idx) \<le> usize_max"
  using assms by (auto simp: opened_def view_of_def items_at_def sections_ok_def dest!: list_all2_lengthD)

lemma opened_item:
  assumes "opened idx rows ts" and "j < length ts"
  shows "item_at idx j (entry_of idx ts j) (ts ! j)"
proof -
  have "items_at idx [0..<hd_term_count (mi_header idx)] (hd_term_bytes_offset (mi_header idx))
       (hd_postings_offset (mi_header idx)) ts"
    using assms(1) by (simp add: opened_def view_of_def)
  then show ?thesis
    using assms(2) by (auto simp: items_at_def list_all_length entry_of_def)
qed

lemma opened_reads:
  assumes "opened idx rows ts"
  shows "i < length rows \<Longrightarrow> mi_row_id idx i = (Ok (rows ! i) :: ('x hybrid_error, _) outcome)"
    and "i < length rows \<Longrightarrow> mi_doc_len idx i = (Ok (sum_list (map snd (filter (\<lambda>p. fst p = i) (concat (map snd ts))))) :: ('x hybrid_error, _) outcome)"
    and "i < length rows \<Longrightarrow> mi_row_id_to_doc idx (rows ! i) = Some i"
    and "j < length ts \<Longrightarrow> mi_term_entry idx j = (Ok (entry_of idx ts j) :: ('x hybrid_error, _) outcome)"
    and "j < length ts \<Longrightarrow> mi_term_bytes idx (entry_of idx ts j) = (Ok (fst (ts ! j)) :: ('x hybrid_error, _) outcome)"
    and "j < length ts \<Longrightarrow> te_postings_len (entry_of idx ts j) = length (snd (ts ! j))"
    and "j < length ts \<Longrightarrow> \<exists>r. mi_posting_range idx (entry_of idx ts j) = (Ok r :: ('x hybrid_error, _) outcome) \<and>
      list_all2 (posting_at (mi_mmap idx)) (step_offsets r) (snd (ts ! j))"
proof -
  note len = opened_rows [OF assms]
  have po: "hd_postings_offset (mi_header idx) \<le> length (mi_mmap idx)" using assms by (simp add: opened_def sections_ok_def)
  show "mi_row_id idx i = (Ok (rows ! i) :: ('x hybrid_error, _) outcome)" if "i < length rows"
    using assms that by (auto simp: mi_row_id_iff [OF len(7)] opened_def view_of_def list_all2_conv_all_nth)
  have ords: "list_all (\<lambda>p. fst p < length rows) (concat (map snd ts))" using len(5) by (rule items_ok_less)
  show "mi_doc_len idx i = (Ok (sum_list (map snd (filter (\<lambda>p. fst p = i) (concat (map snd ts))))) :: ('x hybrid_error, _) outcome)" if i: "i < length rows"
  proof -
    have "list_all (\<lambda>(i, n). read_len idx i = Some n) (enumerate 0 (add_lens (concat (map snd ts)) (replicate (length rows) 0)))"
      using assms by (simp add: opened_def view_of_def)
    then have "read_len idx i = Some (add_lens (concat (map snd ts)) (replicate (length rows) 0) ! i)"
      using i by (auto simp: list_all_length nth_enumerate_eq)
    then show ?thesis using nth_add_lens [of "replicate (length rows) 0" "concat (map snd ts)" i] i ords
      by (simp add: mi_doc_len_iff [OF len(7)])
  qed
  show "mi_row_id_to_doc idx (rows ! i) = Some i" if "i < length rows"
    using assms that len(2) by (auto simp: opened_def map_of_zip_nth)
  assume j: "j < length ts"
  note it = opened_item [OF assms j]
  have lens: "te_term_len (entry_of idx ts j) = length (fst (ts ! j))"
    "te_postings_len (entry_of idx ts j) = length (snd (ts ! j))"
    using place_entries_lens [OF j] by (simp_all add: entry_of_def)
  show "mi_term_entry idx j = (Ok (entry_of idx ts j) :: ('x hybrid_error, _) outcome)"
    using it len(3) j by (cases "ts ! j") (simp add: mi_term_entry_iff [OF len(7)] item_at_def)
  show "mi_term_bytes idx (entry_of idx ts j) = (Ok (fst (ts ! j)) :: ('x hybrid_error, _) outcome)"
    using it lens by (cases "ts ! j") (simp add: mi_term_bytes_iff [OF len(7) po] item_at_def)
  show "te_postings_len (entry_of idx ts j) = length (snd (ts ! j))" by (rule lens(2))
  show "\<exists>r. mi_posting_range idx (entry_of idx ts j) = (Ok r :: ('x hybrid_error, _) outcome) \<and>
      list_all2 (posting_at (mi_mmap idx)) (step_offsets r) (snd (ts ! j))"
    using it lens by (cases "ts ! j") (simp add: mi_posting_range_iff [OF len(7)] item_at_def step_offsets_eq)
qed

text \<open>The binary search.\<close>

lemma search_term_step:
  assumes "lo < hi"
  shows "search_term idx target lo hi =
    obind (mi_term_entry idx (lo + (hi - lo) div 2)) (\<lambda>e. obind (mi_term_bytes idx e) (\<lambda>found.
      if found < target then search_term idx target (lo + (hi - lo) div 2 + 1) hi
      else if target < found then search_term idx target lo (lo + (hi - lo) div 2) else Ok (Some e)))"
  using assms by (simp add: search_term.simps [of idx target lo hi] Let_def)

lemma search_term_done: "\<not> lo < hi \<Longrightarrow> search_term idx target lo hi = Ok None"
  by (simp add: search_term.simps [of idx target lo hi])

lemma search_term_exact:
  assumes "opened idx rows ts"
  shows "hi \<le> length ts \<Longrightarrow> \<forall>j<lo. j < length ts \<longrightarrow> fst (ts ! j) < target \<Longrightarrow>
    \<forall>j<length ts. hi \<le> j \<longrightarrow> target < fst (ts ! j) \<Longrightarrow>
    (if target \<in> fst ` set ts
     then \<exists>j<length ts. fst (ts ! j) = target \<and> search_term idx target lo hi = (Ok (Some (entry_of idx ts j)) :: ('x hybrid_error, _) outcome)
     else search_term idx target lo hi = (Ok None :: ('x hybrid_error, _) outcome))"
proof (induction "hi - lo" arbitrary: lo hi rule: less_induct)
  case less
  note sorted = opened_rows(4) [OF assms, unfolded sorted_wrt_map, THEN sorted_wrt_nth_less]
  show ?case
  proof (cases "lo < hi")
    case False
    have "fst (ts ! j) \<noteq> target" if "j < length ts" for j
      using less.prems(2,3) that False by (cases "j < lo") (auto simp: not_less)
    then have "target \<notin> fst ` set ts" by (metis imageE in_set_conv_nth)
    then show ?thesis using False by (simp add: search_term_done)
  next
    case True
    define mid where "mid = lo + (hi - lo) div 2"
    have mid: "lo \<le> mid" "mid < hi" "mid < length ts" using True less.prems(1) by (auto simp: mid_def)
    note reads = opened_reads(4,5) [OF assms mid(3), where 'x = 'x]
    have step: "search_term idx target lo hi =
      (if fst (ts ! mid) < target then search_term idx target (mid + 1) hi
       else if target < fst (ts ! mid) then search_term idx target lo mid else (Ok (Some (entry_of idx ts mid)) :: ('x hybrid_error, _) outcome))"
      by (simp add: search_term_step [OF True] mid_def [symmetric] reads)
    consider "fst (ts ! mid) < target" | "target < fst (ts ! mid)" | "fst (ts ! mid) = target" by (rule linorder_cases)
    then show ?thesis
    proof cases
      case 1
      have "fst (ts ! j) < target" if "j < mid + 1" "j < length ts" for j
        using sorted [of j mid] that mid(3) 1 by (cases "j = mid") auto
      moreover have "hi - (mid + 1) < hi - lo" using mid True by simp
      ultimately have ih: "if target \<in> fst ` set ts
        then \<exists>j<length ts. fst (ts ! j) = target \<and>
          search_term idx target (mid + 1) hi = (Ok (Some (entry_of idx ts j)) :: ('x hybrid_error, _) outcome)
        else search_term idx target (mid + 1) hi = (Ok None :: ('x hybrid_error, _) outcome)"
        using less.hyps [of hi "mid + 1"] less.prems(1,3) by blast
      have "search_term idx target lo hi = (search_term idx target (mid + 1) hi :: ('x hybrid_error, _) outcome)"
        unfolding step using 1 by (rule if_P)
      then show ?thesis using ih by (simp only:)
    next
      case 2
      have "target < fst (ts ! j)" if "mid \<le> j" "j < length ts" for j
        using sorted [of mid j] that mid(3) 2 by (cases "j = mid") auto
      moreover have "mid - lo < hi - lo" "mid \<le> length ts" using mid True by simp_all
      ultimately have ih: "if target \<in> fst ` set ts
        then \<exists>j<length ts. fst (ts ! j) = target \<and>
          search_term idx target lo mid = (Ok (Some (entry_of idx ts j)) :: ('x hybrid_error, _) outcome)
        else search_term idx target lo mid = (Ok None :: ('x hybrid_error, _) outcome)"
        using less.hyps [of mid lo] less.prems(2) by blast
      have "search_term idx target lo hi = (search_term idx target lo mid :: ('x hybrid_error, _) outcome)"
        unfolding step using 2 by auto
      then show ?thesis using ih by (simp only:)
    next
      case 3
      then have "target \<in> fst ` set ts" using mid(3) by force
      then show ?thesis using 3 step mid(3) by auto
    qed
  qed
qed

lemma find_term_opened:
  assumes "opened idx rows ts"
  shows "if target \<in> fst ` set ts
     then \<exists>j<length ts. fst (ts ! j) = target \<and> find_term idx target = (Ok (Some (entry_of idx ts j)) :: ('x hybrid_error, _) outcome)
     else find_term idx target = (Ok None :: ('x hybrid_error, _) outcome)"
  unfolding find_term_def opened_rows(3) [OF assms, symmetric]
  by (rule search_term_exact [OF assms]) auto

end
