(* ===== verification/SparseRoundtrip.thy ===== *)
theory SparseRoundtrip
  imports SparseView
begin

text \<open>
  From the writer to the reader: the bytes that the builder lays out are accepted by \<open>open\<close>, and the
  opened index holds the documents that were added. Every part of the file is a sequence of little
  endian fields, and a field is read back at the place where it was written.
\<close>

section \<open>Reading fields back\<close>

lemma le_value_le_bytes: "le_value (le_bytes w n) = n mod 256 ^ w"
proof (induction w n rule: le_bytes.induct)
  case (2 w n)
  have "n mod (256 * 256 ^ w) = 256 * (n div 256 mod 256 ^ w) + n mod 256" by (rule mod_mult2_eq)
  then show ?case using 2 by (simp add: unat_of_nat)
qed simp

lemma read_le_at: "read_le w (pre @ le_bytes w n @ post) (length pre) = Some (n mod 256 ^ w)"
  by (simp add: read_le_def le_value_le_bytes)

definition fields_len :: "(nat \<times> nat) list \<Rightarrow> nat" where
  "fields_len fs = sum_list (map fst fs)"

lemma length_fields [simp]: "length (encode_fields fs) = fields_len fs"
  by (simp add: length_encode_fields fields_len_def)

lemma encode_fields_split:
  assumes "j < length fs"
  shows "encode_fields fs = encode_fields (take j fs) @ le_bytes (fst (fs ! j)) (snd (fs ! j)) @ encode_fields (drop (Suc j) fs)"
proof -
  have fs: "fs = take j fs @ fs ! j # drop (Suc j) fs" using assms by (rule id_take_nth_drop)
  show ?thesis by (subst fs) (simp add: encode_fields_def case_prod_beta)
qed

lemma read_field:
  assumes "data = pre @ encode_fields fs @ post" and "j < length fs" and "offset = length pre + fields_len (take j fs)"
    and "fs ! j = (w, n)" and "n < 256 ^ w"
  shows "read_le w data offset = Some n"
  using read_le_at [of w "pre @ encode_fields (take j fs)" n "encode_fields (drop (Suc j) fs) @ post"] assms
  by (simp add: encode_fields_split [OF assms(2)])

text \<open>An element of a section whose elements have one width.\<close>

lemma section_split:
  assumes "\<And>x. x \<in> set xs \<Longrightarrow> length (f x) = w" and "i < length xs"
  shows "concat (map f xs) = concat (map f (take i xs)) @ f (xs ! i) @ concat (map f (drop (Suc i) xs))"
    and "length (concat (map f (take i xs))) = i * w"
proof -
  have "xs = take i xs @ xs ! i # drop (Suc i) xs" using assms(2) by (rule id_take_nth_drop)
  then show "concat (map f xs) = concat (map f (take i xs)) @ f (xs ! i) @ concat (map f (drop (Suc i) xs))"
    by (metis concat.simps(2) concat_append list.simps(9) map_append)
  show "length (concat (map f (take i xs))) = i * w"
    using assms length_concat_map [of "take i xs" f w] by (auto dest: in_set_takeD)
qed

lemma read_in_section:
  assumes "data = pre @ concat (map (\<lambda>x. encode_fields (fs x)) xs) @ post" and "\<And>x. fields_len (fs x) = width"
    and "i < length xs" and "j < length (fs (xs ! i))"
    and "offset = length pre + i * width + fields_len (take j (fs (xs ! i)))"
    and "fs (xs ! i) ! j = (w, n)" and "n < 256 ^ w"
  shows "read_le w data offset = Some n"
proof (rule read_field)
  note split = section_split [of xs "\<lambda>x. encode_fields (fs x)" width, OF _ assms(3)]
  show "data = (pre @ concat (map (\<lambda>x. encode_fields (fs x)) (take i xs))) @ encode_fields (fs (xs ! i)) @
      concat (map (\<lambda>x. encode_fields (fs x)) (drop (Suc i) xs)) @ post"
    using split(1) assms(2) by (simp add: assms(1))
  show "offset = length (pre @ concat (map (\<lambda>x. encode_fields (fs x)) (take i xs))) + fields_len (take j (fs (xs ! i)))"
    using split(2) assms(2,5) by simp
qed (use assms in auto)

definition entry_fields :: "term_entry \<Rightarrow> (nat \<times> nat) list" where
  "entry_fields e = [(8, te_term_offset e), (4, te_term_len e), (4, 0), (8, te_postings_offset e), (4, te_postings_len e), (4, 0)]"

definition posting_fields :: "nat \<times> nat \<Rightarrow> (nat \<times> nat) list" where
  "posting_fields p = [(4, fst p), (2, snd p), (2, 0)]"

lemma sections_as_fields:
  "map u64_to_le rows = map (\<lambda>r. encode_fields [(8, unat r)]) rows"
  "map (le_bytes 4) lens = map (\<lambda>n. encode_fields [(4, n)]) lens"
  "map encode_entry es = map (\<lambda>e. encode_fields (entry_fields e)) es"
  "map encode_posting ps = map (\<lambda>p. encode_fields (posting_fields p)) ps"
  by (auto simp: encode_fields_def u64_to_le_def encode_entry_def entry_fields_def encode_posting_def posting_fields_def)

section \<open>An image\<close>

definition built_items :: "built_sparse \<Rightarrow> term_item list" where
  "built_items b = zip (bs_terms b) (bs_postings b)"

text \<open>What the layout needs of an index to be written without loss.\<close>

definition built_good :: "built_sparse \<Rightarrow> bool" where
  "built_good b \<longleftrightarrow> built_ok b \<and> image_len b \<le> usize_max \<and> length (bs_row_ids b) \<le> max_u32 \<and> distinct (bs_row_ids b) \<and>
     list_all (item_ok (length (bs_row_ids b))) (built_items b) \<and> sorted_wrt (<) (bs_terms b) \<and>
     list_all (\<lambda>(t, l). length t \<le> max_u32 \<and> length l \<le> max_u32 \<and> list_all (\<lambda>p. snd p \<le> max_u16) l) (built_items b) \<and>
     bs_doc_lens b = add_lens (concat (bs_postings b)) (replicate (length (bs_row_ids b)) 0) \<and>
     list_all (\<lambda>n. n \<le> max_u32) (bs_doc_lens b) \<and> sum_list (bs_doc_lens b) \<le> usize_max \<and>
     bs_avg_doc_len b = average_len (sum_list (bs_doc_lens b)) (length (bs_row_ids b))"

definition image_header :: "built_sparse \<Rightarrow> header" where
  "image_header b =
     (let n = length (bs_row_ids b); dl = header_len + n * 8; tt = dl + n * 4; tb = tt + length (bs_terms b) * 32;
          po = tb + length (concat (bs_terms b)); fl = po + length (concat (bs_postings b)) * 8
      in \<lparr>hd_doc_count = n, hd_term_count = length (bs_terms b), hd_postings_count = length (concat (bs_postings b)),
          hd_avg_doc_len = bs_avg_doc_len b, hd_k1 = default_k1, hd_b = default_b, hd_tokenizer = bs_tokenizer b,
          hd_tokenizer_version = 1, hd_row_ids_offset = header_len, hd_doc_len_offset = dl, hd_term_table_offset = tt,
          hd_term_bytes_offset = tb, hd_postings_offset = po, hd_file_len = fl\<rparr>)"

definition image_index :: "built_sparse \<Rightarrow> mmap_index" where
  "image_index b = \<lparr>mi_mmap = image_of b, mi_header = image_header b, mi_doc_to_row_id = bs_row_ids b,
     mi_row_id_to_doc = map_of (zip (bs_row_ids b) [0..<length (bs_row_ids b)])\<rparr>"

lemma image_header_parse:
  assumes "built_good b"
  shows "header_parse (image_of b) = (Ok (image_header b) :: ('x hybrid_error, _) outcome)"
proof -
  have ok: "built_ok b" "image_len b \<le> usize_max" "bs_postings_count b = length (concat (bs_postings b))"
    using assms by (simp_all add: built_good_def built_ok_def)
  have len: "length (image_of b) \<le> usize_max" using length_image [OF ok(1)] ok(2) by simp
  define n where "n = length (bs_row_ids b)"
  define dl where "dl = header_len + n * 8"
  define tt where "tt = dl + n * 4"
  define tb where "tb = tt + length (bs_terms b) * 32"
  define po where "po = tb + length (concat (bs_terms b))"
  define fl where "fl = po + length (concat (bs_postings b)) * 8"
  define fs where "fs = header_fields b dl tt tb po fl"
  obtain post where data: "image_of b = sparse_magic @ encode_fields fs @ post"
    by (simp add: image_of_def Let_def fs_def fl_def po_def tb_def tt_def dl_def n_def)
  have big: "fl \<le> usize_max" using ok(2) by (simp add: image_len_def fl_def po_def tb_def tt_def dl_def n_def)
  have "length (image_of b) \<ge> header_len"
    using length_image [OF ok(1)] by (simp add: image_len_def)
  moreover have "take 8 (image_of b) = sparse_magic" by (simp add: data sparse_magic_def)
  note read = read_field [OF data]
  have fs_eq: "fs = [(4, 1), (4, header_len), (4, endian_marker), (4, 0), (2, unat (tokenizer_code (bs_tokenizer b))), (2, 1),
      (4, 0), (8, n), (8, length (bs_terms b)), (8, length (concat (bs_postings b))),
      (4, unat (bs_avg_doc_len b)), (4, unat default_k1), (4, unat default_b), (4, 0),
      (8, header_len), (8, dl), (8, tt), (8, tb), (8, po), (8, fl), (8, 0)]"
    by (simp add: fs_def header_fields_def n_def ok(3))
  have le: "le_at label w (image_of b) offset = (Ok m :: ('x hybrid_error, nat) outcome)"
    if "j < 21" "offset = 8 + fields_len (take j fs)" "fs ! j = (w, m)" "m < 256 ^ w" for label w offset j m
    unfolding le_at_iff [OF len] by (rule read [OF _ _ that(3,4)]) (use that in \<open>simp_all add: fs_eq sparse_magic_def\<close>)
  have bound: "n \<le> usize_max" "length (bs_terms b) \<le> usize_max" "length (concat (bs_postings b)) \<le> usize_max"
    "header_len \<le> usize_max" "dl \<le> usize_max" "tt \<le> usize_max" "tb \<le> usize_max" "po \<le> usize_max"
    using big by (simp_all add: fl_def po_def tb_def tt_def dl_def)
  have w64: "m < 18446744073709551616" if "m \<le> usize_max" for m using that by (simp add: usize_max_def)
  have w32: "unat x < 4294967296" for x :: u32 using unsigned_less [where ?'a = nat, of x] by simp
  have w16: "unat x < 65536" for x :: u16 using unsigned_less [where ?'a = nat, of x] by simp
  have h0: "le_u32_at (image_of b) 8 = (Ok (1) :: ('x hybrid_error, nat) outcome)"
    unfolding le_reads by (rule le [of 0]) (simp_all add: fs_eq fields_len_def w32 w16 w16 w64 bound big)
  have h1: "le_u32_at (image_of b) 12 = (Ok (header_len) :: ('x hybrid_error, nat) outcome)"
    unfolding le_reads by (rule le [of 1]) (simp_all add: fs_eq fields_len_def w32 w16 w16 w64 bound big header_len_def endian_marker_def)
  have h2: "le_u32_at (image_of b) 16 = (Ok (endian_marker) :: ('x hybrid_error, nat) outcome)"
    unfolding le_reads by (rule le [of 2]) (simp_all add: fs_eq fields_len_def w32 w16 w16 w64 bound big header_len_def endian_marker_def)
  have h3: "le_u32_at (image_of b) 20 = (Ok (0) :: ('x hybrid_error, nat) outcome)"
    unfolding le_reads by (rule le [of 3]) (simp_all add: fs_eq fields_len_def w32 w16 w16 w64 bound big)
  have h4: "le_u16_at (image_of b) 24 = (Ok (unat (tokenizer_code (bs_tokenizer b))) :: ('x hybrid_error, nat) outcome)"
    unfolding le_reads by (rule le [of 4]) (simp_all add: fs_eq fields_len_def w32 w16 w16 w64 bound big)
  have h5: "le_u16_at (image_of b) 26 = (Ok (1) :: ('x hybrid_error, nat) outcome)"
    unfolding le_reads by (rule le [of 5]) (simp_all add: fs_eq fields_len_def w32 w16 w16 w64 bound big)
  have h6: "le_u32_at (image_of b) 28 = (Ok (0) :: ('x hybrid_error, nat) outcome)"
    unfolding le_reads by (rule le [of 6]) (simp_all add: fs_eq fields_len_def w32 w16 w16 w64 bound big)
  have h7: "le_u64_at (image_of b) 32 = (Ok (n) :: ('x hybrid_error, nat) outcome)"
    unfolding le_reads by (rule le [of 7]) (simp_all add: fs_eq fields_len_def w32 w16 w16 w64 bound big)
  have h8: "le_u64_at (image_of b) 40 = (Ok (length (bs_terms b)) :: ('x hybrid_error, nat) outcome)"
    unfolding le_reads by (rule le [of 8]) (simp_all add: fs_eq fields_len_def w32 w16 w16 w64 bound big)
  have h9: "le_u64_at (image_of b) 48 = (Ok (length (concat (bs_postings b))) :: ('x hybrid_error, nat) outcome)"
    unfolding le_reads by (rule le [of 9]) (simp_all add: fs_eq fields_len_def w32 w16 w16 w64 bound big)
  have h10: "le_u32_at (image_of b) 56 = (Ok (unat (bs_avg_doc_len b)) :: ('x hybrid_error, nat) outcome)"
    unfolding le_reads by (rule le [of 10]) (simp_all add: fs_eq fields_len_def w32 w16 w16 w64 bound big)
  have h11: "le_u32_at (image_of b) 60 = (Ok (unat default_k1) :: ('x hybrid_error, nat) outcome)"
    unfolding le_reads by (rule le [of 11]) (simp_all add: fs_eq fields_len_def w32 w16 w16 w64 bound big)
  have h12: "le_u32_at (image_of b) 64 = (Ok (unat default_b) :: ('x hybrid_error, nat) outcome)"
    unfolding le_reads by (rule le [of 12]) (simp_all add: fs_eq fields_len_def w32 w16 w16 w64 bound big)
  have h13: "le_u32_at (image_of b) 68 = (Ok (0) :: ('x hybrid_error, nat) outcome)"
    unfolding le_reads by (rule le [of 13]) (simp_all add: fs_eq fields_len_def w32 w16 w16 w64 bound big)
  have h14: "le_u64_at (image_of b) 72 = (Ok (header_len) :: ('x hybrid_error, nat) outcome)"
    unfolding le_reads by (rule le [of 14]) (simp_all add: fs_eq fields_len_def w32 w16 w16 w64 bound big)
  have h15: "le_u64_at (image_of b) 80 = (Ok (dl) :: ('x hybrid_error, nat) outcome)"
    unfolding le_reads by (rule le [of 15]) (simp_all add: fs_eq fields_len_def w32 w16 w16 w64 bound big)
  have h16: "le_u64_at (image_of b) 88 = (Ok (tt) :: ('x hybrid_error, nat) outcome)"
    unfolding le_reads by (rule le [of 16]) (simp_all add: fs_eq fields_len_def w32 w16 w16 w64 bound big)
  have h17: "le_u64_at (image_of b) 96 = (Ok (tb) :: ('x hybrid_error, nat) outcome)"
    unfolding le_reads by (rule le [of 17]) (simp_all add: fs_eq fields_len_def w32 w16 w16 w64 bound big)
  have h18: "le_u64_at (image_of b) 104 = (Ok (po) :: ('x hybrid_error, nat) outcome)"
    unfolding le_reads by (rule le [of 18]) (simp_all add: fs_eq fields_len_def w32 w16 w16 w64 bound big)
  have h19: "le_u64_at (image_of b) 112 = (Ok (fl) :: ('x hybrid_error, nat) outcome)"
    unfolding le_reads by (rule le [of 19]) (simp_all add: fs_eq fields_len_def w32 w16 w16 w64 bound big)
  have h20: "le_u64_at (image_of b) 120 = (Ok (0) :: ('x hybrid_error, nat) outcome)"
    unfolding le_reads by (rule le [of 20]) (simp_all add: fs_eq fields_len_def w32 w16 w16 w64 bound big)
  have header: "image_header b = \<lparr>hd_doc_count = n, hd_term_count = length (bs_terms b),
      hd_postings_count = length (concat (bs_postings b)), hd_avg_doc_len = bs_avg_doc_len b, hd_k1 = default_k1,
      hd_b = default_b, hd_tokenizer = bs_tokenizer b, hd_tokenizer_version = 1, hd_row_ids_offset = header_len,
      hd_doc_len_offset = dl, hd_term_table_offset = tt, hd_term_bytes_offset = tb, hd_postings_offset = po,
      hd_file_len = fl\<rparr>"
    by (simp add: image_header_def Let_def fl_def po_def tb_def tt_def dl_def n_def)
  have u64: "u64_field (image_of b) offset label = (Ok m :: ('x hybrid_error, nat) outcome)"
    if "le_u64_at (image_of b) offset = (Ok m :: ('x hybrid_error, nat) outcome)" "m \<le> usize_max" for offset label m
    using that by (simp add: u64_field_def usize_from_u64_def)
  have f32: "le_f32_at (image_of b) offset = (Ok x :: ('x hybrid_error, f32) outcome)"
    if "le_u32_at (image_of b) offset = (Ok (unat x) :: ('x hybrid_error, nat) outcome)" for offset x
    using that by (simp add: le_f32_at_def)
  have tok: "tokenizer_from_u16 (tokenizer_code k) = (Ok k :: ('x hybrid_error, _) outcome)" for k
    by (cases k) simp_all
  show ?thesis
    unfolding header_parse_def header
    using \<open>length (image_of b) \<ge> header_len\<close> \<open>take 8 (image_of b) = sparse_magic\<close> h4
    by (simp add: h0 h1 h2 h3 h5 h6 h13 h20 tok u64 [OF h7] u64 [OF h8] u64 [OF h9] u64 [OF h14] u64 [OF h15] u64 [OF h16]
        u64 [OF h17] u64 [OF h18] u64 [OF h19] f32 [OF h10] f32 [OF h11] f32 [OF h12] bound bound(1)[unfolded n_def] big
        del: tokenizer_from_u16.simps)
qed

lemma image_sections:
  obtains H where "length H = header_len"
    "image_of b = H @ concat (map (\<lambda>r. encode_fields [(8, unat r)]) (bs_row_ids b)) @
       concat (map (\<lambda>n. encode_fields [(4, n)]) (bs_doc_lens b)) @
       concat (map (\<lambda>e. encode_fields (entry_fields e)) (place_entries (built_items b)
         (hd_term_bytes_offset (image_header b)) (hd_postings_offset (image_header b)))) @
       concat (bs_terms b) @ concat (map (\<lambda>p. encode_fields (posting_fields p)) (concat (bs_postings b)))"
proof
  let ?h = "image_header b"
  show "length (sparse_magic @ encode_fields (header_fields b (hd_doc_len_offset ?h) (hd_term_table_offset ?h)
      (hd_term_bytes_offset ?h) (hd_postings_offset ?h) (hd_file_len ?h))) = header_len"
    using length_header by (simp add: sparse_magic_def header_len_def)
  show "image_of b = (sparse_magic @ encode_fields (header_fields b (hd_doc_len_offset ?h) (hd_term_table_offset ?h)
      (hd_term_bytes_offset ?h) (hd_postings_offset ?h) (hd_file_len ?h))) @
       concat (map (\<lambda>r. encode_fields [(8, unat r)]) (bs_row_ids b)) @
       concat (map (\<lambda>n. encode_fields [(4, n)]) (bs_doc_lens b)) @
       concat (map (\<lambda>e. encode_fields (entry_fields e)) (place_entries (built_items b)
         (hd_term_bytes_offset (image_header b)) (hd_postings_offset (image_header b)))) @
       concat (bs_terms b) @ concat (map (\<lambda>p. encode_fields (posting_fields p)) (concat (bs_postings b)))"
    by (simp add: image_of_def image_header_def Let_def sections_as_fields built_items_def)
qed

lemma nth_place_entries:
  "j < length ts \<Longrightarrow> place_entries ts tc pc ! j =
     \<lparr>te_term_offset = tc + terms_size (take j ts), te_term_len = length (fst (ts ! j)),
      te_postings_offset = pc + lists_size (take j ts) * 8, te_postings_len = length (snd (ts ! j))\<rparr>"
proof (induction ts arbitrary: tc pc j)
  case (Cons it ts)
  obtain t l where it: "it = (t, l)" by fastforce
  show ?case using Cons by (cases j) (simp_all add: it terms_size_def lists_size_def add_mult_distrib)
qed simp

lemma sizes_take:
  assumes "length ts = length ls" and "j < length ts"
  shows "terms_size (take j (zip ts ls)) = length (concat (take j ts))"
    and "lists_size (take j (zip ts ls)) = length (concat (take j ls))"
  using assms zip_sizes [of "take j ts" "take j ls"] by (simp_all add: take_zip)

lemma sizes_le:
  "j < length ts \<Longrightarrow> terms_size (take j ts) + length (fst (ts ! j)) \<le> terms_size ts"
  "j < length ts \<Longrightarrow> lists_size (take j ts) + length (snd (ts ! j)) \<le> lists_size ts"
proof -
  assume j: "j < length ts"
  then have "ts = take j ts @ ts ! j # drop (Suc j) ts" by (rule id_take_nth_drop)
  then have "terms_size ts = terms_size (take j ts @ ts ! j # drop (Suc j) ts)"
    "lists_size ts = lists_size (take j ts @ ts ! j # drop (Suc j) ts)" by simp_all
  then show "terms_size (take j ts) + length (fst (ts ! j)) \<le> terms_size ts"
    "lists_size (take j ts) + length (snd (ts ! j)) \<le> lists_size ts"
    by (simp_all add: terms_size_def lists_size_def)
qed

lemma built_goodD:
  assumes "built_good b"
  shows "length (bs_doc_lens b) = length (bs_row_ids b)" "length (bs_postings b) = length (bs_terms b)"
    "length (built_items b) = length (bs_terms b)" "length (image_of b) = image_len b" "image_len b \<le> usize_max"
    "terms_size (built_items b) = length (concat (bs_terms b))" "lists_size (built_items b) = length (concat (bs_postings b))"
    "map fst (built_items b) = bs_terms b" "map snd (built_items b) = bs_postings b"
  using assms length_image [of b] by (auto simp: built_good_def built_ok_def built_items_def zip_sizes)

lemma image_sections_ok: "built_good b \<Longrightarrow> sections_ok (image_header b) (image_len b)"
  by (auto simp: sections_ok_def image_header_def Let_def image_len_def built_good_def)

lemma image_row:
  assumes "built_good b" and "i < length (bs_row_ids b)"
  shows "read_row (image_index b) i = Some (bs_row_ids b ! i)"
proof -
  obtain H where H: "length H = header_len"
    "image_of b = H @ concat (map (\<lambda>r. encode_fields [(8, unat r)]) (bs_row_ids b)) @
       concat (map (\<lambda>n. encode_fields [(4, n)]) (bs_doc_lens b)) @
       concat (map (\<lambda>e. encode_fields (entry_fields e)) (place_entries (built_items b)
         (hd_term_bytes_offset (image_header b)) (hd_postings_offset (image_header b)))) @
       concat (bs_terms b) @ concat (map (\<lambda>p. encode_fields (posting_fields p)) (concat (bs_postings b)))"
    by (rule image_sections)
  have "unat (bs_row_ids b ! i) < 256 ^ 8" using unsigned_less [where ?'a = nat, of "bs_row_ids b ! i"] by simp
  then have "read_le 8 (image_of b) (header_len + i * 8) = Some (unat (bs_row_ids b ! i))"
    by (intro read_in_section [OF H(2), of 8 i 0]) (use assms(2) in \<open>simp_all add: fields_len_def H(1)\<close>)
  then show ?thesis using assms(2) by (simp add: read_row_def image_index_def image_header_def Let_def)
qed

lemma image_doc_len:
  assumes "built_good b" and "i < length (bs_row_ids b)"
  shows "read_len (image_index b) i = Some (bs_doc_lens b ! i)"
proof -
  obtain H where H: "length H = header_len"
    "image_of b = H @ concat (map (\<lambda>r. encode_fields [(8, unat r)]) (bs_row_ids b)) @
       concat (map (\<lambda>n. encode_fields [(4, n)]) (bs_doc_lens b)) @
       concat (map (\<lambda>e. encode_fields (entry_fields e)) (place_entries (built_items b)
         (hd_term_bytes_offset (image_header b)) (hd_postings_offset (image_header b)))) @
       concat (bs_terms b) @ concat (map (\<lambda>p. encode_fields (posting_fields p)) (concat (bs_postings b)))"
    by (rule image_sections)
  have len: "length (concat (map (\<lambda>r. encode_fields [(8, unat r)]) (bs_row_ids b))) = length (bs_row_ids b) * 8"
    by (rule length_concat_map) (simp add: fields_len_def)
  have lens: "length (bs_doc_lens b) = length (bs_row_ids b)" using built_goodD [OF assms(1)] by simp
  then have "bs_doc_lens b ! i \<le> max_u32" using assms by (auto simp: built_good_def list_all_length)
  then have "read_le 4 (image_of b) (header_len + length (bs_row_ids b) * 8 + i * 4) = Some (bs_doc_lens b ! i)"
    by (intro read_in_section [of _ "H @ concat (map (\<lambda>r. encode_fields [(8, unat r)]) (bs_row_ids b))" "\<lambda>n. [(4, n)]"
          "bs_doc_lens b" _ 4 i 0])
      (use assms(2) H(2) lens in \<open>simp_all add: fields_len_def H(1) len max_u32_def\<close>)
  then show ?thesis using assms(2) by (simp add: read_len_def image_index_def image_header_def Let_def)
qed

text \<open>The parts before the term table, before the term bytes and before the postings.\<close>

lemma image_parts:
  assumes "built_good b"
  obtains A B C where
    "image_of b = A @ concat (map (\<lambda>e. encode_fields (entry_fields e)) (place_entries (built_items b)
         (hd_term_bytes_offset (image_header b)) (hd_postings_offset (image_header b)))) @ B"
    "length A = hd_term_table_offset (image_header b)"
    "image_of b = C @ concat (bs_terms b) @ concat (map (\<lambda>p. encode_fields (posting_fields p)) (concat (bs_postings b)))"
    "length C = hd_term_bytes_offset (image_header b)"
proof -
  obtain H where H: "length H = header_len"
    "image_of b = H @ concat (map (\<lambda>r. encode_fields [(8, unat r)]) (bs_row_ids b)) @
       concat (map (\<lambda>n. encode_fields [(4, n)]) (bs_doc_lens b)) @
       concat (map (\<lambda>e. encode_fields (entry_fields e)) (place_entries (built_items b)
         (hd_term_bytes_offset (image_header b)) (hd_postings_offset (image_header b)))) @
       concat (bs_terms b) @ concat (map (\<lambda>p. encode_fields (posting_fields p)) (concat (bs_postings b)))"
    by (rule image_sections)
  let ?A = "H @ concat (map (\<lambda>r. encode_fields [(8, unat r)]) (bs_row_ids b)) @ concat (map (\<lambda>n. encode_fields [(4, n)]) (bs_doc_lens b))"
  let ?E = "concat (map (\<lambda>e. encode_fields (entry_fields e)) (place_entries (built_items b)
         (hd_term_bytes_offset (image_header b)) (hd_postings_offset (image_header b))))"
  have len: "length (concat (map (\<lambda>r. encode_fields [(8, unat r)]) (bs_row_ids b))) = length (bs_row_ids b) * 8"
    "length (concat (map (\<lambda>n. encode_fields [(4, n)]) (bs_doc_lens b))) = length (bs_doc_lens b) * 4"
    "length ?E = length (bs_terms b) * 32"
    using built_goodD(3) [OF assms] by (simp_all add: length_concat_map fields_len_def entry_fields_def)
  show thesis
  proof (rule that [of ?A "concat (bs_terms b) @ concat (map (\<lambda>p. encode_fields (posting_fields p)) (concat (bs_postings b)))" "?A @ ?E"])
    show "length ?A = hd_term_table_offset (image_header b)" "length (?A @ ?E) = hd_term_bytes_offset (image_header b)"
      using len built_goodD(1) [OF assms] H(1) by (simp_all add: image_header_def Let_def)
  qed (simp_all add: H(2))
qed

lemma image_entry:
  assumes "built_good b" and "j < length (built_items b)"
  shows "entry_at (image_of b) (hd_term_table_offset (image_header b) + j * 32)
    (place_entries (built_items b) (hd_term_bytes_offset (image_header b)) (hd_postings_offset (image_header b)) ! j)"
proof -
  let ?es = "place_entries (built_items b) (hd_term_bytes_offset (image_header b)) (hd_postings_offset (image_header b))"
  obtain A B where AB: "image_of b = A @ concat (map (\<lambda>e. encode_fields (entry_fields e)) ?es) @ B"
    "length A = hd_term_table_offset (image_header b)"
    using image_parts [OF assms(1)] by metis
  define e where "e = ?es ! j"
  note good = built_goodD [OF assms(1)]
  have sec: "hd_postings_offset (image_header b) + lists_size (built_items b) * 8 \<le> usize_max"
    "hd_term_bytes_offset (image_header b) + terms_size (built_items b) \<le> usize_max"
    using good(5-7) by (simp_all add: image_header_def image_len_def Let_def)
  have small: "length (fst (built_items b ! j)) \<le> max_u32" "length (snd (built_items b ! j)) \<le> max_u32"
    using assms by (auto simp: built_good_def list_all_length case_prod_beta)
  have e: "e = \<lparr>te_term_offset = hd_term_bytes_offset (image_header b) + terms_size (take j (built_items b)),
      te_term_len = length (fst (built_items b ! j)),
      te_postings_offset = hd_postings_offset (image_header b) + lists_size (take j (built_items b)) * 8,
      te_postings_len = length (snd (built_items b ! j))\<rparr>"
    using assms(2) by (simp add: e_def nth_place_entries)
  have vals: "te_term_offset e < 18446744073709551616" "te_postings_offset e < 18446744073709551616"
    "te_term_len e < 4294967296" "te_postings_len e < 4294967296"
    using sec sizes_le [OF assms(2)] small by (simp_all add: e usize_max_def max_u32_def)
  note rd = read_in_section [OF AB(1), of 32 j]
  have fl: "fields_len (entry_fields x) = 32" for x by (simp add: fields_len_def entry_fields_def)
  have read: "read_le w (image_of b) (hd_term_table_offset (image_header b) + j * 32 + k) = Some n"
    if "m < 6" "k = fields_len (take m (entry_fields e))" "entry_fields e ! m = (w, n)" "n < 256 ^ w" for k m w n
    by (rule rd [OF fl _ _ _ _ that(4), of m])
      (use that assms(2) in \<open>simp_all add: AB(2) e_def entry_fields_def\<close>)
  show ?thesis
    unfolding entry_at_def e_def [symmetric]
    using read [of 0 0 8 "te_term_offset e"] read [of 1 8 4 "te_term_len e"] read [of 2 12 4 0]
      read [of 3 16 8 "te_postings_offset e"] read [of 4 24 4 "te_postings_len e"] read [of 5 28 4 0] vals
    by (simp add: entry_fields_def fields_len_def)
qed

lemma concat_take_nth:
  assumes "j < length xs"
  shows "concat xs = concat (take j xs) @ xs ! j @ concat (drop (Suc j) xs)"
  by (metis assms concat.simps(2) concat_append id_take_nth_drop)

lemma image_term:
  assumes "built_good b" and "j < length (bs_terms b)"
  shows "take (length (bs_terms b ! j)) (drop (hd_term_bytes_offset (image_header b) + length (concat (take j (bs_terms b)))) (image_of b)) =
    bs_terms b ! j"
proof -
  obtain C rest where C: "image_of b = C @ concat (bs_terms b) @ rest" "length C = hd_term_bytes_offset (image_header b)"
    using image_parts [OF assms(1)] by metis
  show ?thesis
    unfolding C(1) C(2) [symmetric] concat_take_nth [OF assms(2)] by simp
qed

lemma image_posting:
  assumes "built_good b" and "j < length (bs_postings b)" and "m < length (bs_postings b ! j)"
  shows "posting_at (image_of b)
    (hd_postings_offset (image_header b) + length (concat (take j (bs_postings b))) * 8 + m * 8) (bs_postings b ! j ! m)"
proof -
  obtain C where C: "image_of b = C @ concat (bs_terms b) @ concat (map (\<lambda>p. encode_fields (posting_fields p)) (concat (bs_postings b)))"
    "length C = hd_term_bytes_offset (image_header b)"
    using image_parts [OF assms(1)] by metis
  let ?k = "length (concat (take j (bs_postings b))) + m"
  define p where "p = bs_postings b ! j ! m"
  have k: "?k < length (concat (bs_postings b))" "concat (bs_postings b) ! ?k = p"
    unfolding concat_take_nth [OF assms(2)] using assms(3) by (simp_all add: nth_append p_def)
  have items: "built_items b ! j = (bs_terms b ! j, bs_postings b ! j)" "j < length (built_items b)"
    using assms(2) built_goodD(2,3) [OF assms(1)] by (simp_all add: built_items_def)
  have pin: "p \<in> set (bs_postings b ! j)" unfolding p_def using assms(3) by simp
  have "item_ok (length (bs_row_ids b)) (built_items b ! j)" "list_all (\<lambda>p. snd p \<le> max_u16) (snd (built_items b ! j))"
    "length (bs_row_ids b) \<le> max_u32"
    using assms(1) items(2) by (auto simp: built_good_def list_all_length case_prod_beta)
  then have small: "fst p < 4294967296" "snd p < 65536"
    using pin by (auto simp: items(1) item_ok_def postings_ok_def list_all_iff max_u32_def max_u16_def)
  have data: "image_of b = (C @ concat (bs_terms b)) @ concat (map (\<lambda>p. encode_fields (posting_fields p)) (concat (bs_postings b))) @ []"
    by (simp add: C(1))
  have po: "length (C @ concat (bs_terms b)) = hd_postings_offset (image_header b)"
    by (simp add: C(2) image_header_def Let_def)
  have fl: "fields_len (posting_fields x) = 8" for x by (simp add: fields_len_def posting_fields_def)
  have read: "read_le w (image_of b) (hd_postings_offset (image_header b) + ?k * 8 + d) = Some n"
    if "i < 3" "d = fields_len (take i (posting_fields p))" "posting_fields p ! i = (w, n)" "n < 256 ^ w" for d i w n
    by (rule read_in_section [OF data fl k(1) _ _ _ that(4), of i])
      (use that k(2) in \<open>simp_all add: po [symmetric] posting_fields_def\<close>)
  show ?thesis
    unfolding posting_at_def p_def [symmetric]
    using read [of 0 0 4 "fst p"] read [of 1 4 2 "snd p"] read [of 2 6 2 0] small
    by (simp add: posting_fields_def fields_len_def add_mult_distrib add.assoc)
qed

section \<open>The average length\<close>

lemma mag_units_one: "mag_units 1065353216 = unit_scale"
  and mag_units_2_64: "mag_units 1602224128 = 18446744073709551616 * unit_scale"
  by (simp_all add: mag_units_def unit_scale_def)

lemma f32_of_nat_range:
  assumes "n \<le> usize_max"
  shows "f32_nonneg (f32_of_nat n)" and "0 < n \<Longrightarrow> 1065353216 \<le> f32_mag (f32_of_nat n)"
    and "f32_mag (f32_of_nat n) \<le> 1602224128"
proof -
  have "round_mag (n * unit_scale) 1 \<le> round_mag (1 * mag_units 1602224128) 1"
    by (rule round_mag_mono) (use assms in \<open>simp_all add: mag_units_2_64 usize_max_def\<close>)
  then show le: "f32_mag (f32_of_nat n) \<le> 1602224128"
    by (simp add: f32_of_nat_mag round_mag_exact [of 1 1602224128, simplified] mag_inf_def)
  show "f32_nonneg (f32_of_nat n)"
    using le f32_of_nat_neg by (simp add: f32_nonneg_def f32_is_finite_def mag_inf_def)
  assume n: "0 < n"
  have "round_mag (1 * mag_units 1065353216) 1 \<le> round_mag (n * unit_scale) 1"
    by (rule round_mag_mono) (use n in \<open>simp_all add: mag_units_one\<close>)
  then show "1065353216 \<le> f32_mag (f32_of_nat n)"
    by (simp add: f32_of_nat_mag round_mag_exact [of 1 1065353216, simplified] mag_inf_def)
qed

lemma average_len_range:
  assumes "total_len \<le> usize_max" and "n \<le> usize_max"
  shows "f32_nonneg (average_len total_len n)" and "0 < n \<Longrightarrow> 0 < total_len \<Longrightarrow> 0 < f32_mag (average_len total_len n)"
proof -
  show "f32_nonneg (average_len total_len n)"
  proof (cases "n = 0")
    case True
    then show ?thesis by (simp add: average_len_def f32_nonneg_def f32_zero_def f32_is_finite_def f32_neg_def f32_mag_def mag_inf_def)
  next
    case False
    note a = f32_of_nat_range [OF assms(1)] and b = f32_of_nat_range [OF assms(2)]
    have pos: "0 < f32_mag (f32_of_nat n)" using b(2) False by simp
    have "unit_scale \<le> mag_units (f32_mag (f32_of_nat n))"
      unfolding mag_units_one [symmetric] using b(2) False by simp
    then have "round_mag (mag_units (f32_mag (f32_of_nat total_len)) * unit_scale) (mag_units (f32_mag (f32_of_nat n))) \<le>
        round_mag (1 * mag_units (f32_mag (f32_of_nat total_len))) 1"
      using pos by (intro round_mag_mono) (simp_all add: mult_left_mono)
    also have "\<dots> = f32_mag (f32_of_nat total_len)"
      using f32_nonneg_classify(4) [OF a(1)] by (intro round_mag_exact) simp_all
    finally have "f32_mag (f32_div (f32_of_nat total_len) (f32_of_nat n)) \<le> f32_mag (f32_of_nat total_len)"
      unfolding f32_div_nonneg(1) [OF a(1) b(1) pos] .
    moreover have "f32_mag (f32_of_nat total_len) < mag_inf" by (rule f32_nonneg_classify(4) [OF a(1)])
    ultimately show ?thesis
      using False f32_div_nonneg(2) [OF a(1) b(1) pos] by (simp add: average_len_def f32_nonneg_def f32_is_finite_def)
  qed
next
  assume n: "0 < n" and total_len: "0 < total_len"
  note a = f32_of_nat_range [OF assms(1)] and b = f32_of_nat_range [OF assms(2)]
  have pos: "0 < f32_mag (f32_of_nat n)" using b(2) n by simp
  have num: "unit_scale \<le> mag_units (f32_mag (f32_of_nat total_len))"
    unfolding mag_units_one [symmetric] using a(2) total_len by simp
  have den: "mag_units (f32_mag (f32_of_nat n)) \<le> 18446744073709551616 * unit_scale"
    unfolding mag_units_2_64 [symmetric] using b(3) by simp
  have "mag_units (f32_mag (f32_of_nat n)) \<le> mag_units (f32_mag (f32_of_nat total_len)) * unit_scale"
  proof -
    have "mag_units (f32_mag (f32_of_nat n)) \<le> 18446744073709551616 * unit_scale" by (rule den)
    also have "\<dots> \<le> unit_scale * unit_scale" by (intro mult_right_mono) (simp_all add: unit_scale_def)
    also have "\<dots> \<le> mag_units (f32_mag (f32_of_nat total_len)) * unit_scale" using num by (intro mult_right_mono) simp_all
    finally show ?thesis .
  qed
  then have "round_mag (1 * mag_units 1) 1 \<le>
      round_mag (mag_units (f32_mag (f32_of_nat total_len)) * unit_scale) (mag_units (f32_mag (f32_of_nat n)))"
    using pos by (intro round_mag_mono) (simp_all add: mag_units_small)
  moreover have "round_mag (1 * mag_units 1) 1 = 1" by (rule round_mag_exact) (simp_all add: mag_inf_def)
  ultimately show "0 < f32_mag (average_len total_len n)"
    using n by (simp add: average_len_def f32_div_nonneg(1) [OF a(1) b(1) pos])
qed

lemma f32_sub_self: "f32_nonneg x \<Longrightarrow> f32_mag (f32_sub x x) = 0 \<and> \<not> f32_is_nan (f32_sub x x)"
proof -
  assume x: "f32_nonneg x"
  note cl = f32_nonneg_classify [OF x]
  have neg: "f32_mag (f32_negate x) = f32_mag x" "f32_neg (f32_negate x)"
    using cl(3,4) by (simp_all add: f32_negate_def mag_inf_def)
  then have "f32_units x + f32_units (f32_negate x) = 0" "\<not> f32_is_nan (f32_negate x)" "\<not> f32_is_infinite (f32_negate x)"
    using cl by (simp_all add: f32_units_def f32_is_nan_def f32_is_infinite_def)
  then show ?thesis using cl(1,2) by (simp add: f32_sub_def f32_add_def f32_is_nan_def mag_inf_def)
qed

lemma check_average_self:
  assumes "total_len \<le> usize_max" and "n \<le> usize_max"
  shows "check_average (average_len total_len n) total_len n = Ok ()"
proof -
  let ?a = "average_len total_len n"
  note a = average_len_range(1) [OF assms]
  have one: "f32_nonneg f32_one" by (simp add: f32_nonneg_def f32_one_def f32_is_finite_def f32_neg_def f32_mag_def mag_inf_def)
  have max: "f32_nonneg (f32_max ?a f32_one)" using a one by (auto simp: f32_max_def)
  have eps: "f32_nonneg f32_epsilon" by (simp add: f32_nonneg_def f32_epsilon_def f32_is_finite_def f32_neg_def f32_mag_def mag_inf_def)
  have "\<not> f32_neg (f32_mul f32_epsilon (f32_max ?a f32_one))"
    using f32_nonneg_classify [OF max] f32_nonneg_classify [OF eps] by (simp add: f32_mul_def)
  then have "0 \<le> f32_key (f32_mul f32_epsilon (f32_max ?a f32_one))" by (simp add: f32_key_def)
  moreover have "f32_key (f32_abs (f32_sub ?a ?a)) = 0" using f32_sub_self [OF a] by (simp add: f32_key_def)
  ultimately show ?thesis by (simp add: check_average_def Let_def f32_lt_def)
qed

section \<open>Opening an image\<close>

lemma image_item:
  assumes "built_good b" and "j < length (built_items b)"
  shows "item_at (image_index b) j
    (place_entries (built_items b) (hd_term_bytes_offset (image_header b)) (hd_postings_offset (image_header b)) ! j)
    (built_items b ! j)"
proof -
  note good = built_goodD [OF assms(1)] and entry = image_entry [OF assms]
  have j: "j < length (bs_terms b)" "j < length (bs_postings b)" "length (bs_terms b) = length (bs_postings b)"
    using assms(2) good(2,3) by simp_all
  have it: "built_items b ! j = (bs_terms b ! j, bs_postings b ! j)" using j by (simp add: built_items_def)
  have sz: "terms_size (take j (built_items b)) = length (concat (take j (bs_terms b)))"
    "lists_size (take j (built_items b)) = length (concat (take j (bs_postings b)))"
    using sizes_take [OF j(3), of j] j by (simp_all add: built_items_def)
  note le = sizes_le [OF assms(2), unfolded sz it, simplified]
  have po: "hd_postings_offset (image_header b) = hd_term_bytes_offset (image_header b) + terms_size (built_items b)"
    "hd_postings_offset (image_header b) + lists_size (built_items b) * 8 = length (image_of b)"
    using good(4,6,7) by (simp_all add: image_header_def image_len_def Let_def)
  have post: "list_all2 (posting_at (image_of b))
      (map (\<lambda>m. hd_postings_offset (image_header b) + length (concat (take j (bs_postings b))) * 8 + m * 8)
        [0..<length (bs_postings b ! j)]) (bs_postings b ! j)"
    using image_posting [OF assms(1) j(2)] by (simp add: list_all2_conv_all_nth)
  show ?thesis
    using entry image_term [OF assms(1) j(1)] post le po
    by (simp add: item_at_def it image_index_def nth_place_entries [OF assms(2)] sz)
qed

lemma image_view:
  assumes "built_good b"
  shows "view_of (image_index b) (bs_row_ids b) (built_items b)"
proof -
  note good = built_goodD [OF assms]
  let ?h = "image_header b"
  have idx: "mi_header (image_index b) = ?h" "mi_mmap (image_index b) = image_of b" by (simp_all add: image_index_def)
  have cnt: "hd_doc_count ?h = length (bs_row_ids b)" "hd_term_count ?h = length (bs_terms b)"
    by (simp_all add: image_header_def Let_def)
  have "list_all2 (\<lambda>i r. read_row (image_index b) i = Some r) [0..<length (bs_row_ids b)] (bs_row_ids b)"
    by (simp add: list_all2_conv_all_nth image_row [OF assms])
  moreover have "items_at (image_index b) [0..<length (bs_terms b)] (hd_term_bytes_offset ?h) (hd_postings_offset ?h) (built_items b)"
    using image_item [OF assms] good(3) by (auto simp: items_at_def list_all_length idx cnt)
  moreover have "list_all (\<lambda>(i, n). read_len (image_index b) i = Some n) (enumerate 0 (bs_doc_lens b))"
    using good(1) by (auto simp: list_all_length nth_enumerate_eq image_doc_len [OF assms])
  moreover have "hd_term_bytes_offset ?h + terms_size (built_items b) = hd_postings_offset ?h"
    "hd_postings_offset ?h + lists_size (built_items b) * 8 = length (image_of b)"
    using good(4,6,7) by (simp_all add: image_header_def image_len_def Let_def)
  moreover have "distinct (bs_row_ids b)" "list_all (item_ok (length (bs_row_ids b))) (built_items b)"
    "sorted_wrt (<) (map fst (built_items b))"
    "bs_doc_lens b = add_lens (concat (map snd (built_items b))) (replicate (length (bs_row_ids b)) 0)"
    using assms good(8,9) by (simp_all add: built_good_def)
  ultimately show ?thesis unfolding view_of_def idx cnt by simp
qed

lemma image_total_pos:
  assumes "built_good b" and "bs_terms b \<noteq> []"
  shows "0 < length (bs_row_ids b)" and "0 < sum_list (bs_doc_lens b)"
proof -
  note good = built_goodD [OF assms(1)]
  have "0 < length (built_items b)" using assms(2) good(3) by simp
  then obtain it where it: "it \<in> set (built_items b)" using nth_mem by blast
  have items: "list_all (item_ok (length (bs_row_ids b))) (built_items b)" using assms(1) by (simp add: built_good_def)
  then have "snd it \<noteq> []" "postings_ok (length (bs_row_ids b)) (snd it)"
    using it by (auto simp: list_all_iff item_ok_def)
  then obtain p where p: "p \<in> set (snd it)" "fst p < length (bs_row_ids b)" "0 < snd p"
    by (cases "snd it") auto
  from p(2) show "0 < length (bs_row_ids b)" by linarith
  let ?all = "concat (map snd (built_items b))"
  have ords: "list_all (\<lambda>q. fst q < length (replicate (length (bs_row_ids b)) (0::nat))) ?all" using items_ok_less [OF items] by simp
  have "p \<in> set ?all" using p(1) it by auto
  then have "snd p \<in> set (map snd (filter (\<lambda>q. fst q = fst p) ?all))" by auto
  then have "snd p \<le> sum_list (map snd (filter (\<lambda>q. fst q = fst p) ?all))" by (rule member_le_sum_list) simp
  then have "0 < add_lens ?all (replicate (length (bs_row_ids b)) 0) ! fst p"
    using nth_add_lens [OF ords, of "fst p"] p(2,3) by simp
  then have "0 < bs_doc_lens b ! fst p" using assms(1) good(9) by (simp add: built_good_def)
  moreover have "bs_doc_lens b ! fst p \<le> sum_list (bs_doc_lens b)" using p(2) good(1) by (intro member_le_sum_list) simp_all
  ultimately show "0 < sum_list (bs_doc_lens b)" by simp
qed

lemma image_parameters:
  assumes "built_good b"
  shows "check_parameters (image_header b) = Ok ()"
proof -
  let ?a = "average_len (sum_list (bs_doc_lens b)) (length (bs_row_ids b))"
  have good: "sum_list (bs_doc_lens b) \<le> usize_max" "length (bs_row_ids b) \<le> usize_max" "bs_avg_doc_len b = ?a"
    using assms by (auto simp: built_good_def max_u32_def usize_max_def)
  note avg = average_len_range [OF good(1,2)]
  have zero: "f32_key f32_zero = 0" by (simp add: f32_key_def f32_zero_def f32_mag_def)
  have key: "f32_key ?a = int (f32_mag ?a)" using f32_nonneg_classify(3) [OF avg(1)] by (simp add: f32_key_def)
  have "\<not> f32_lt ?a f32_zero" by (simp add: f32_lt_def key zero)
  moreover have "\<not> f32_le ?a f32_zero" if "bs_terms b \<noteq> []"
    using avg(2) image_total_pos [OF assms that] by (simp add: f32_le_def key zero)
  moreover have "f32_is_finite ?a" using avg(1) by (simp add: f32_nonneg_def)
  moreover have "f32_is_finite default_k1" "\<not> f32_le default_k1 f32_zero" "f32_is_finite default_b"
    "f32_le f32_zero default_b" "f32_le default_b f32_one"
    by (simp_all add: default_k1_def default_b_def f32_is_finite_def f32_mag_def mag_inf_def f32_le_def f32_is_nan_def
        f32_key_def f32_neg_def f32_zero_def f32_one_def)
  ultimately show ?thesis by (auto simp: check_parameters_def image_header_def Let_def good(3))
qed

lemma open_image:
  assumes "built_good b"
  shows "open_index show_preview (image_of b) = (Ok (image_index b) :: ('x hybrid_error, _) outcome)"
    and "opened (image_index b) (bs_row_ids b) (built_items b)"
proof -
  note good = built_goodD [OF assms] and view = image_view [OF assms]
  have tot: "view_total (bs_row_ids b) (built_items b) = sum_list (bs_doc_lens b)"
    using assms good(9) by (simp add: view_total_def built_good_def)
  have avg: "bs_avg_doc_len b = average_len (sum_list (bs_doc_lens b)) (length (bs_row_ids b))"
    "sum_list (bs_doc_lens b) \<le> usize_max" "length (bs_row_ids b) \<le> usize_max"
    using assms by (auto simp: built_good_def max_u32_def usize_max_def)
  have hdr: "hd_avg_doc_len (image_header b) = bs_avg_doc_len b" "hd_doc_count (image_header b) = length (bs_row_ids b)"
    by (simp_all add: image_header_def Let_def)
  have sec: "sections_ok (image_header b) (length (image_of b))" using image_sections_ok [OF assms] good(4) by simp
  show "opened (image_index b) (bs_row_ids b) (built_items b)"
    using view sec by (simp add: opened_def) (simp add: image_index_def)
  have "mi_doc_to_row_id (image_index b) = bs_row_ids b" "mi_header (image_index b) = image_header b"
    "mi_mmap (image_index b) = image_of b"
    "mi_row_id_to_doc (image_index b) = map_of (zip (bs_row_ids b) [0..<length (bs_row_ids b)])"
    by (simp_all add: image_index_def)
  then show "open_index show_preview (image_of b) = (Ok (image_index b) :: ('x hybrid_error, _) outcome)"
    unfolding open_iff using view sec image_parameters [OF assms] image_header_parse [OF assms] tot avg
      check_average_self [OF avg(2,3)] by (auto simp: hdr)
qed

section \<open>What the builder writes is good\<close>

lemma postings_of_Nil [simp]: "postings_of k [] t = []"
  by (simp add: postings_of_def)

lemma postings_of_ordinals:
  "p \<in> set (postings_of k docs t) \<Longrightarrow> k \<le> fst p \<and> fst p < k + length docs \<and> 0 < snd p"
proof (induction docs arbitrary: k)
  case (Cons d docs)
  then show ?case
    using count_list_0_iff [of "pd_terms d" t] by (fastforce simp: postings_of_Cons split: if_splits)
qed simp

lemma postings_of_sorted: "sorted_wrt (<) (map fst (postings_of k docs t))"
proof (induction docs arbitrary: k)
  case (Cons d docs)
  then show ?case using postings_of_ordinals [of _ "Suc k" docs t] by (fastforce simp: postings_of_Cons)
qed simp

lemma postings_of_length: "length (postings_of k docs t) \<le> length docs"
  by (induction docs arbitrary: k) (auto simp: postings_of_Cons le_SucI)

lemma postings_of_ne: "t \<in> doc_terms docs \<Longrightarrow> postings_of k docs t \<noteq> []"
  by (induction docs arbitrary: k) (auto simp: postings_of_Cons doc_terms_Cons doc_terms_def)

lemma postings_of_tf:
  "list_all doc_fits docs \<Longrightarrow> p \<in> set (postings_of k docs t) \<Longrightarrow> snd p \<le> max_u16"
  by (induction docs arbitrary: k) (auto simp: postings_of_Cons doc_fits_def list_all_iff split: if_splits)

lemma postings_of_filter:
  "i < length docs \<Longrightarrow> map snd (filter (\<lambda>p. fst p = k + i) (postings_of k docs t)) =
     (if t \<in> set (pd_terms (docs ! i)) then [count_list (pd_terms (docs ! i)) t] else [])"
proof (induction docs arbitrary: k i)
  case (Cons d docs)
  have "filter (\<lambda>p. fst p = k) (postings_of (Suc k) docs t) = []"
    using postings_of_ordinals [of _ "Suc k" docs t] by (fastforce simp: filter_empty_conv)
  then show ?case using Cons.IH [of "i - 1" "Suc k"] Cons.prems by (cases i) (auto simp: postings_of_Cons)
qed simp

lemma count_terms_total:
  assumes "distinct terms" and "set ts \<subseteq> set terms"
  shows "sum_list (map (\<lambda>t. sum_list (if t \<in> set ts then [count_list ts t] else [])) terms) = length ts"
proof -
  have "sum_list (if t \<in> set ts then [count_list ts t] else []) = count_list ts t" for t
    using count_list_0_iff [of ts t] by simp
  then have "sum_list (map (\<lambda>t. sum_list (if t \<in> set ts then [count_list ts t] else [])) terms) = sum (count_list ts) (set terms)"
    by (simp add: sum_list_distinct_conv_sum_set [OF assms(1)])
  also have "\<dots> = length ts" by (rule sum_count_set [OF assms(2)]) simp
  finally show ?thesis .
qed

lemma sum_list_concat_map: "sum_list (concat (map f xs)) = sum_list (map (sum_list \<circ> f) xs)" for f :: "'a \<Rightarrow> nat list"
  by (induction xs) auto

lemma finite_doc_terms: "finite (doc_terms docs)"
  by (simp add: doc_terms_def)

lemma spec_lens:
  "map (length \<circ> pd_terms) docs =
     add_lens (concat (map (postings_of 0 docs) (sorted_list_of_set (doc_terms docs)))) (replicate (length docs) 0)"
proof (rule nth_equalityI)
  fix i
  assume "i < length (map (length \<circ> pd_terms) docs)"
  then have i: "i < length docs" by simp
  let ?terms = "sorted_list_of_set (doc_terms docs)"
  let ?all = "concat (map (postings_of 0 docs) ?terms)"
  have ords: "list_all (\<lambda>p. fst p < length (replicate (length docs) (0::nat))) ?all"
    using postings_of_ordinals [of _ 0 docs] by (fastforce simp: list_all_iff)
  have sub: "set (pd_terms (docs ! i)) \<subseteq> set ?terms"
    using i finite_doc_terms by (auto simp: doc_terms_def intro: bexI [OF _ nth_mem [OF i]])
  have "map snd (filter (\<lambda>p. fst p = i) ?all) =
      concat (map (\<lambda>t. if t \<in> set (pd_terms (docs ! i)) then [count_list (pd_terms (docs ! i)) t] else []) ?terms)"
    using postings_of_filter [OF i, of 0] by (simp add: filter_concat map_concat comp_def)
  then have "sum_list (map snd (filter (\<lambda>p. fst p = i) ?all)) = length (pd_terms (docs ! i))"
    using count_terms_total [OF _ sub] by (simp add: sum_list_concat_map comp_def)
  then show "map (length \<circ> pd_terms) docs ! i = add_lens ?all (replicate (length docs) 0) ! i"
    using nth_add_lens [OF ords, of i] i by simp
qed simp

lemma built_spec_good:
  assumes "builder_ok b" and "docs_fit (bd_docs b)" and "length (bd_docs b) \<le> max_u32"
    and "list_all (\<lambda>d. list_all (\<lambda>t. length t \<le> max_u32) (pd_terms d)) (bd_docs b)"
    and "image_len (built_spec k (bd_docs b)) \<le> usize_max"
  shows "built_good (built_spec k (bd_docs b))"
proof -
  let ?docs = "bd_docs b"
  let ?s = "built_spec k ?docs"
  have f: "bs_row_ids ?s = map pd_row_id ?docs" "bs_doc_lens ?s = map (length \<circ> pd_terms) ?docs"
    "bs_terms ?s = sorted_list_of_set (doc_terms ?docs)"
    "bs_postings ?s = map (postings_of 0 ?docs) (sorted_list_of_set (doc_terms ?docs))"
    "bs_avg_doc_len ?s = average_len (total_terms ?docs) (length ?docs)"
    by (simp_all add: built_spec_def Let_def)
  have items: "built_items ?s = map (\<lambda>t. (t, postings_of 0 ?docs t)) (sorted_list_of_set (doc_terms ?docs))"
    by (simp add: built_items_def f zip_map2 zip_same_conv_map)
  have norm: "is_normalized_term_v1 t \<and> length t \<le> max_u32" if "t \<in> doc_terms ?docs" for t
    using that assms(1,4) by (auto simp: doc_terms_def builder_ok_def list_all_iff)
  have fits: "list_all doc_fits ?docs" "total_terms ?docs \<le> usize_max" using assms(2) by (simp_all add: docs_fit_def)
  have "list_all (item_ok (length ?docs)) (built_items ?s)"
    using norm postings_of_ne postings_of_ordinals [of _ 0 ?docs] postings_of_sorted
    by (auto simp: items list_all_iff item_ok_def postings_ok_def finite_doc_terms)
  moreover have "list_all (\<lambda>(t, l). length t \<le> max_u32 \<and> length l \<le> max_u32 \<and> list_all (\<lambda>p. snd p \<le> max_u16) l) (built_items ?s)"
    using norm postings_of_length [of 0 ?docs] postings_of_tf [OF fits(1)] assms(3)
    by (auto simp: items list_all_iff finite_doc_terms intro: le_trans)
  moreover have "list_all (\<lambda>n. n \<le> max_u32) (bs_doc_lens ?s)" using fits(1) by (auto simp: f list_all_iff doc_fits_def)
  moreover have "distinct (map pd_row_id ?docs)" using assms(1) by (simp add: builder_ok_def)
  moreover have "sorted_wrt (<) (bs_terms ?s)" by (simp add: f)
  ultimately show ?thesis
    using assms(3,5) fits(2) built_spec_ok [of k ?docs] spec_lens [of ?docs]
    by (simp add: built_good_def f(1,2,4,5) total_terms_def)
qed

lemma postings_read:
  assumes "length data \<le> usize_max" and "list_all2 (posting_at data) offsets l"
  shows "list_all2 (\<lambda>offset (d, tf). le_u32_at data offset = (Ok d :: ('x hybrid_error, _) outcome) \<and>
         le_u16_at data (offset + 4) = (Ok tf :: ('x hybrid_error, _) outcome)) offsets l"
  using assms by (elim list_all2_mono) (auto simp: posting_at_def le_reads le_at_iff)

lemma ex_good: "built_good (built_spec Simple (bd_docs ex_builder))"
proof (rule built_spec_good)
  show "builder_ok ex_builder" using builder_run_ok [OF ex_builder_run] by simp
  show "list_all (\<lambda>d. list_all (\<lambda>t. length t \<le> max_u32) (pd_terms d)) (bd_docs ex_builder)"
    by (simp add: ex_docs max_u32_def)
qed (use ex_fit in auto)

section \<open>Properties\<close>

text \<open>
  C31. Opening a file never panics, whatever its bytes: every read of the header and of the tables
  is inside the file and no offset overflows, so a corrupt or hostile sidecar is an error.
\<close>

theorem open_never_panics:
  "open_index show_preview data \<noteq> (Panic :: ('x hybrid_error, _) outcome)"
proof
  assume panic: "open_index show_preview data = (Panic :: ('x hybrid_error, _) outcome)"
  obtain h where h: "header_parse data = (Ok h :: ('x hybrid_error, _) outcome)"
    using panic header_parse_no_panic [of data, where 'x = 'x] by (cases "header_parse data :: ('x hybrid_error, _) outcome") (auto simp: open_index_def)
  define idx where "idx = \<lparr>mi_mmap = data, mi_header = h, mi_doc_to_row_id = [], mi_row_id_to_doc = Map.empty\<rparr>"
  have fields: "mi_header idx = h" "mi_mmap idx = data" by (simp_all add: idx_def)
  have val: "validate_layout show_preview idx = (Panic :: ('x hybrid_error, _) outcome)"
    using panic h by (auto simp: open_index_def Let_def obind_eq_Panic idx_def)
  have "check_offsets (length data) h \<noteq> (Panic :: ('x hybrid_error, _) outcome)"
    by (auto simp: check_offsets_def obind_eq_Panic malformed_def split: if_splits)
  moreover have "check_bounds (length data) h \<noteq> (Panic :: ('x hybrid_error, _) outcome)"
    by (auto simp: check_bounds_def checked_section_def obind_eq_Panic malformed_def split: if_splits)
  moreover have "check_parameters h \<noteq> (Panic :: ('x hybrid_error, _) outcome)"
    by (simp add: check_parameters_def malformed_def)
  ultimately have "check_offsets (length data) h = (Ok () :: ('x hybrid_error, _) outcome) \<and>
      check_bounds (length data) h = (Ok () :: ('x hybrid_error, _) outcome)"
    using val by (auto simp: validate_layout_def Let_def obind_eq_Panic fields)
  then have sec: "sections_ok (mi_header idx) (length (mi_mmap idx))"
    using check_sections_iff [OF header_parse_file_len [OF h], where 'x = 'x] by (simp add: fields)
  have "check_average avg n m \<noteq> (Panic :: ('x hybrid_error, _) outcome)" for avg n m
    by (simp add: check_average_def Let_def malformed_def)
  then show False
    using val \<open>check_offsets (length data) h \<noteq> Panic\<close> \<open>check_bounds (length data) h \<noteq> Panic\<close> \<open>check_parameters h \<noteq> Panic\<close>
    by (auto simp: validate_layout_def Let_def obind_eq_Panic fields malformed_def load_rows_Panic [OF sec]
        check_terms_Panic [OF sec] check_lens_Panic [OF sec] split: if_splits)
qed

text \<open>
  C15. An opened index is a well-formed inverted index, and reading it cannot fail: the row IDs are
  distinct and the row tables inverse to each other; the terms are in normal form and strictly sorted;
  each has a nonempty posting list with rising document ordinals in range and positive frequencies;
  the stored length of a document is the sum of its frequencies; and every accessor returns what the
  view says.
\<close>

theorem opened_index_reads:
  assumes "open_index show_preview data = (Ok idx :: ('x hybrid_error, _) outcome)"
  shows "\<exists>ts. let rows = mi_doc_to_row_id idx in
    distinct rows \<and> length rows = hd_doc_count (mi_header idx) \<and> length ts = hd_term_count (mi_header idx) \<and>
    sorted_wrt (<) (map fst ts) \<and>
    (\<forall>(t, l)\<in>set ts. is_normalized_term_v1 t \<and> l \<noteq> [] \<and> sorted_wrt (<) (map fst l) \<and>
       (\<forall>(d, tf)\<in>set l. d < length rows \<and> 0 < tf)) \<and>
    (\<forall>i<length rows. mi_row_id idx i = (Ok (rows ! i) :: ('x hybrid_error, _) outcome) \<and>
       mi_row_id_to_doc idx (rows ! i) = Some i \<and>
       mi_doc_len idx i = (Ok (sum_list (map snd (filter (\<lambda>p. fst p = i) (concat (map snd ts))))) :: ('x hybrid_error, _) outcome)) \<and>
    (\<forall>j<length ts. \<exists>e r. mi_term_entry idx j = (Ok e :: ('x hybrid_error, _) outcome) \<and>
       mi_term_bytes idx e = (Ok (fst (ts ! j)) :: ('x hybrid_error, _) outcome) \<and>
       mi_posting_range idx e = (Ok r :: ('x hybrid_error, _) outcome) \<and>
       list_all2 (\<lambda>offset (d, tf). le_u32_at data offset = (Ok d :: ('x hybrid_error, _) outcome) \<and>
         le_u16_at data (offset + 4) = (Ok tf :: ('x hybrid_error, _) outcome)) (step_offsets r) (snd (ts ! j)))"
proof -
  obtain ts where o: "opened idx (mi_doc_to_row_id idx) ts" using open_opened [OF assms] by blast
  note rows = opened_rows [OF o] and inv = opened_reads(3) [OF o] and reads = opened_reads(1,2,4,5,7) [OF o, where 'x = 'x]
  have data: "mi_mmap idx = data" using assms unfolding open_iff by blast
  have items: "\<forall>(t, l)\<in>set ts. is_normalized_term_v1 t \<and> l \<noteq> [] \<and> sorted_wrt (<) (map fst l) \<and>
       (\<forall>(d, tf)\<in>set l. d < length (mi_doc_to_row_id idx) \<and> 0 < tf)"
    using rows(5) by (force simp: list_all_iff item_ok_def postings_ok_def)
  have post: "\<exists>r. mi_posting_range idx (entry_of idx ts j) = (Ok r :: ('x hybrid_error, _) outcome) \<and>
       list_all2 (\<lambda>offset (d, tf). le_u32_at data offset = (Ok d :: ('x hybrid_error, _) outcome) \<and>
         le_u16_at data (offset + 4) = (Ok tf :: ('x hybrid_error, _) outcome)) (step_offsets r) (snd (ts ! j))"
    if j: "j < length ts" for j
  proof -
    obtain r where r: "mi_posting_range idx (entry_of idx ts j) = (Ok r :: ('x hybrid_error, _) outcome)"
      "list_all2 (posting_at data) (step_offsets r) (snd (ts ! j))" using reads(5) [OF j] data by auto
    with postings_read [OF _ r(2), where 'x = 'x] rows(7) data show ?thesis by blast
  qed
  show ?thesis
    using rows(1-4) items reads(1-4) inv post by (intro exI [of _ ts]) (auto simp: Let_def)
qed

theorem opened_index_reads_witness:
  "\<exists>idx. open_index (\<lambda>t. '''') (image_of (built_spec Simple (bd_docs ex_builder))) = (Ok idx :: (unit hybrid_error, _) outcome) \<and>
     distinct (mi_doc_to_row_id idx) \<and> hd_doc_count (mi_header idx) = length (mi_doc_to_row_id idx)"
  using opened_index_reads [OF open_image(1) [OF ex_good], where 'x = unit] open_image(1) [OF ex_good, where 'x = unit]
  by (auto simp: Let_def)

text \<open>
  The binary search over the term table of an opened index is exact: it returns the entry of the
  term when the table has it, and nothing otherwise.
\<close>

theorem find_term_exact:
  assumes "open_index show_preview data = (Ok idx :: ('x hybrid_error, _) outcome)"
  shows "(\<exists>j<hd_term_count (mi_header idx). \<exists>e. find_term idx t = (Ok (Some e) :: ('x hybrid_error, _) outcome) \<and>
       mi_term_entry idx j = (Ok e :: ('x hybrid_error, _) outcome) \<and> mi_term_bytes idx e = (Ok t :: ('x hybrid_error, _) outcome)) \<or>
    find_term idx t = (Ok None :: ('x hybrid_error, _) outcome) \<and>
    (\<forall>j<hd_term_count (mi_header idx). \<forall>e. mi_term_entry idx j = (Ok e :: ('x hybrid_error, _) outcome) \<longrightarrow>
       mi_term_bytes idx e \<noteq> (Ok t :: ('x hybrid_error, _) outcome))"
proof -
  obtain ts where o: "opened idx (mi_doc_to_row_id idx) ts" using open_opened [OF assms] by blast
  note reads = opened_reads(4,5) [OF o, where 'x = 'x] and len = opened_rows(3) [OF o]
  note find = find_term_opened [OF o, of t, where 'x = 'x]
  show ?thesis
  proof (cases "t \<in> fst ` set ts")
    case True
    then show ?thesis using find reads len by auto
  next
    case False
    then have "fst (ts ! j) \<noteq> t" if "j < length ts" for j using that by (metis imageI nth_mem)
    then show ?thesis using find reads len False by auto
  qed
qed

theorem find_term_exact_witness:
  "let idx = image_index (built_spec Simple (bd_docs ex_builder)) in
     find_term idx [101, 97, 116] \<noteq> (Panic :: (unit hybrid_error, _) outcome)"
  using find_term_exact [OF open_image(1) [OF ex_good], of "[101, 97, 116]", where 'x = unit]
  by (auto simp: Let_def)

text \<open>
  C5. Write then open: the sidecar of a builder opens again, with its tokenizer, its row IDs in
  order, the length of every document, and for every term of a document the list of the documents
  that contain it with the frequency; a term of no document is not found. The one condition is that
  no term is longer than 4 GiB, because the writer casts its length to 32 bits unchecked.
\<close>

theorem sparse_roundtrip:
  assumes "builder_run k b" and "build_bytes b = (Ok (out, rep) :: ('x hybrid_error, _) outcome)"
    and "list_all (\<lambda>d. list_all (\<lambda>t. length t \<le> max_u32) (pd_terms d)) (bd_docs b)"
  shows "\<exists>idx. open_index show_preview out = (Ok idx :: ('x hybrid_error, _) outcome) \<and>
    hd_tokenizer (mi_header idx) = k \<and> mi_doc_to_row_id idx = map pd_row_id (bd_docs b) \<and>
    (\<forall>i<length (bd_docs b). mi_doc_len idx i = (Ok (length (pd_terms (bd_docs b ! i))) :: ('x hybrid_error, _) outcome)) \<and>
    (\<forall>t. if t \<in> doc_terms (bd_docs b)
      then \<exists>e r. find_term idx t = (Ok (Some e) :: ('x hybrid_error, _) outcome) \<and>
        mi_posting_range idx e = (Ok r :: ('x hybrid_error, _) outcome) \<and>
        list_all2 (\<lambda>offset (d, tf). le_u32_at out offset = (Ok d :: ('x hybrid_error, _) outcome) \<and>
          le_u16_at out (offset + 4) = (Ok tf :: ('x hybrid_error, _) outcome)) (step_offsets r) (postings_of 0 (bd_docs b) t)
      else find_term idx t = (Ok None :: ('x hybrid_error, _) outcome))"
proof -
  let ?docs = "bd_docs b"
  let ?s = "built_spec k ?docs"
  have b: "builder_ok b" using builder_run_ok [OF assms(1)] by simp
  have fit: "docs_fit ?docs \<and> length ?docs \<le> max_u32 \<and> image_len ?s \<le> usize_max" and out: "out = image_of ?s"
    using build_image [OF assms(1), where 'x = 'x] assms(2) by (auto split: if_splits)
  have good: "built_good ?s" using built_spec_good [OF b _ _ assms(3)] fit by blast
  note op = open_image [OF good] and reads = opened_reads(7) [OF open_image(2) [OF good], where 'x = 'x]
  let ?idx = "image_index ?s"
  have items: "built_items ?s = map (\<lambda>t. (t, postings_of 0 ?docs t)) (sorted_list_of_set (doc_terms ?docs))"
    by (simp add: built_items_def built_spec_def Let_def zip_map2 zip_same_conv_map)
  then have mem: "t \<in> fst ` set (built_items ?s) \<longleftrightarrow> t \<in> doc_terms ?docs" for t
    by (auto simp: finite_doc_terms image_iff)
  have snd: "snd (built_items ?s ! j) = postings_of 0 ?docs (fst (built_items ?s ! j))" if "j < length (built_items ?s)" for j
    using that by (simp add: items)
  have data: "mi_mmap ?idx = out" "length out \<le> usize_max"
    using opened_rows(7) [OF op(2)] by (simp_all add: image_index_def out)
  have "mi_doc_len ?idx i = (Ok (length (pd_terms (?docs ! i))) :: ('x hybrid_error, _) outcome)" if "i < length ?docs" for i
    using image_doc_len [OF good, of i] that data
    by (simp add: mi_doc_len_iff) (simp add: built_spec_def Let_def)
  moreover have "\<exists>e r. find_term ?idx t = (Ok (Some e) :: ('x hybrid_error, _) outcome) \<and>
        mi_posting_range ?idx e = (Ok r :: ('x hybrid_error, _) outcome) \<and>
        list_all2 (\<lambda>offset (d, tf). le_u32_at out offset = (Ok d :: ('x hybrid_error, _) outcome) \<and>
          le_u16_at out (offset + 4) = (Ok tf :: ('x hybrid_error, _) outcome)) (step_offsets r) (postings_of 0 ?docs t)"
    if t: "t \<in> doc_terms ?docs" for t
  proof -
    obtain j where j: "j < length (built_items ?s)" "fst (built_items ?s ! j) = t"
      "find_term ?idx t = (Ok (Some (entry_of ?idx (built_items ?s) j)) :: ('x hybrid_error, _) outcome)"
      using find_term_opened [OF op(2), of t, where 'x = 'x] t by (auto simp: mem)
    show ?thesis
      using reads [OF j(1)] postings_read [OF data(2), where 'x = 'x] j(2,3) snd [OF j(1)] data(1) by fastforce
  qed
  moreover have "find_term ?idx t = (Ok None :: ('x hybrid_error, _) outcome)" if "t \<notin> doc_terms ?docs" for t
    using find_term_opened [OF op(2), of t, where 'x = 'x] that by (simp add: mem)
  moreover have "hd_tokenizer (mi_header ?idx) = k" "mi_doc_to_row_id ?idx = map pd_row_id ?docs"
    by (simp_all add: image_index_def image_header_def Let_def built_spec_def)
  ultimately show ?thesis
    using op(1) [where 'x = 'x, of show_preview] by (intro exI [of _ ?idx]) (simp add: out)
qed

theorem sparse_roundtrip_witness:
  "\<exists>out rep idx. build_bytes ex_builder = (Ok (out, rep) :: (unit hybrid_error, _) outcome) \<and>
     open_index (\<lambda>t. '''') out = (Ok idx :: (unit hybrid_error, _) outcome) \<and> mi_doc_to_row_id idx = [7]"
proof -
  obtain out rep where out: "build_bytes ex_builder = (Ok (out, rep) :: (unit hybrid_error, _) outcome)"
    using build_image [OF ex_builder_run, where 'x = unit] ex_fit by auto
  have "list_all (\<lambda>d. list_all (\<lambda>t. length t \<le> max_u32) (pd_terms d)) (bd_docs ex_builder)"
    by (simp add: ex_docs max_u32_def)
  from sparse_roundtrip [OF ex_builder_run out this, of "\<lambda>t. ''''"] out
  show ?thesis by (auto simp: ex_docs)
qed

end
