(* ===== verification/SparseSearch.thy ===== *)
theory SparseSearch
  imports SparseRoundtrip RankedBatch
begin

text \<open>
  Searching an opened sparse index (\<open>search\<close> and its variants of \<open>Bm25MmapIndex\<close> in
  \<open>ordinaldb-hybrid/src/sparse.rs\<close>). The natural logarithm, which the standard library computes with
  unspecified precision, is the argument \<open>ln\<close>; the arrangement that \<open>select_nth_unstable_by\<close> leaves is
  the argument \<open>select\<close> and the iteration order of the hash map of scores the argument \<open>shuffle\<close>. The
  unstable sort orders rows with distinct row IDs, which have one sorted arrangement.
\<close>

section \<open>Scores\<close>

text \<open>\<open>0.5_f32\<close> has the pattern \<open>0x3F000000\<close>.\<close>

definition f32_half :: f32 where
  "f32_half = 1056964608"

definition idf_of :: "(f32 \<Rightarrow> f32) \<Rightarrow> f32 \<Rightarrow> nat \<Rightarrow> f32" where
  "idf_of ln doc_count postings_len =
     (let df = f32_of_nat postings_len in
      ln (f32_add (f32_div (f32_add (f32_sub doc_count df) f32_half) (f32_add df f32_half)) f32_one))"

definition posting_score :: "f32 \<Rightarrow> f32 \<Rightarrow> f32 \<Rightarrow> f32 \<Rightarrow> nat \<Rightarrow> nat \<Rightarrow> f32" where
  "posting_score k1 b avg_doc_len idf tf_count len =
     (let tf = f32_of_nat tf_count; doc_len = f32_of_nat len;
          denom = f32_add tf (f32_mul k1 (f32_add (f32_sub f32_one b) (f32_div (f32_mul b doc_len) avg_doc_len)))
      in f32_div (f32_mul idf (f32_mul tf (f32_add k1 f32_one))) (f32_max denom f32_epsilon))"

section \<open>Search\<close>

definition sparse_row_order :: "scored_row \<Rightarrow> scored_row \<Rightarrow> ordering" where
  "sparse_row_order a b =
     then_with (f32_total_cmp (score b) (score a)) (ord_cmp (unat (row_id a)) (unat (row_id b)))"

fun score_postings ::
  "mmap_index \<Rightarrow> nat set option \<Rightarrow> f32 \<Rightarrow> f32 \<Rightarrow> nat list \<Rightarrow> (nat \<times> f32) list \<Rightarrow>
     ('x hybrid_error, (nat \<times> f32) list) outcome" where
  "score_postings idx allowlist avg_doc_len idf [] scores = Ok scores"
| "score_postings idx allowlist avg_doc_len idf (offset # offsets) scores =
     obind (le_u32_at (mi_mmap idx) offset) (\<lambda>doc_ordinal.
     if (case allowlist of None \<Rightarrow> False | Some allowed \<Rightarrow> doc_ordinal \<notin> allowed) then
       score_postings idx allowlist avg_doc_len idf offsets scores
     else
       obind (le_u16_at (mi_mmap idx) (offset + 4)) (\<lambda>tf.
       obind (mi_doc_len idx doc_ordinal) (\<lambda>doc_len.
         score_postings idx allowlist avg_doc_len idf offsets
           (entry_or_default doc_ordinal f32_zero
             (\<lambda>s. f32_add s (posting_score (hd_k1 (mi_header idx)) (hd_b (mi_header idx)) avg_doc_len idf tf doc_len)) scores))))"

fun score_terms ::
  "(f32 \<Rightarrow> f32) \<Rightarrow> mmap_index \<Rightarrow> nat set option \<Rightarrow> bytes list \<Rightarrow> (nat \<times> f32) list \<Rightarrow>
     ('x hybrid_error, (nat \<times> f32) list) outcome" where
  "score_terms ln idx allowlist [] scores = Ok scores"
| "score_terms ln idx allowlist (term # terms) scores =
     obind (find_term idx term) (\<lambda>found. case found of
       None \<Rightarrow> score_terms ln idx allowlist terms scores
     | Some e \<Rightarrow>
         obind (mi_posting_range idx e) (\<lambda>r.
         obind (score_postings idx allowlist (f32_max (hd_avg_doc_len (mi_header idx)) f32_one)
             (idf_of ln (f32_of_nat (hd_doc_count (mi_header idx))) (te_postings_len e)) (step_offsets r) scores)
           (score_terms ln idx allowlist terms)))"

definition to_row :: "mmap_index \<Rightarrow> nat \<times> f32 \<Rightarrow> ('x hybrid_error, scored_row) outcome" where
  "to_row idx = (\<lambda>(doc_ordinal, s). obind (pinned_row_id idx doc_ordinal) (\<lambda>r. Ok \<lparr>row_id = r, score = s\<rparr>))"

text \<open>The three choices that the code leaves to its environment.\<close>

record search_env =
  env_ln :: "f32 \<Rightarrow> f32"
  env_shuffle :: "(nat \<times> f32) list \<Rightarrow> (nat \<times> f32) list"
  env_select :: "nat \<Rightarrow> scored_row list \<Rightarrow> scored_row list"

definition search_with_prepared_allowlist ::
  "search_env \<Rightarrow> mmap_index \<Rightarrow> bytes \<Rightarrow> nat \<Rightarrow> nat set option \<Rightarrow> ('x hybrid_error, scored_row list) outcome" where
  "search_with_prepared_allowlist env idx query top_k allowlist =
     (if hd_doc_count (mi_header idx) = 0 \<or> top_k = 0 then Ok []
      else let query_terms = dedupe_preserving_order (tokenize_text (hd_tokenizer (mi_header idx)) query) in
        if query_terms = [] then Ok []
        else
          obind (score_terms (env_ln env) idx allowlist query_terms []) (\<lambda>scores.
          obind (traverse (to_row idx) (env_shuffle env scores)) (\<lambda>rows.
            Ok (sort_by sparse_row_order
              (if top_k < length rows then take top_k (env_select env (top_k - 1) rows) else rows)))))"

fun insert_ordinals ::
  "mmap_index \<Rightarrow> u64 list \<Rightarrow> nat set \<Rightarrow> ('x hybrid_error, nat set) outcome" where
  "insert_ordinals idx [] ordinals = Ok ordinals"
| "insert_ordinals idx (i # ids) ordinals =
     (case mi_row_id_to_doc idx i of
        None \<Rightarrow> Err (RowIdError (''allowlist row_id '' @ show_u64 i @ '' is not present in sparse mmap''))
      | Some doc_ordinal \<Rightarrow> insert_ordinals idx ids (insert doc_ordinal ordinals))"

definition prepare_allowlist :: "mmap_index \<Rightarrow> u64 list \<Rightarrow> ('x hybrid_error, nat set) outcome" where
  "prepare_allowlist idx ids = insert_ordinals idx ids {}"

definition search_with_allowlist ::
  "search_env \<Rightarrow> mmap_index \<Rightarrow> bytes \<Rightarrow> nat \<Rightarrow> u64 list option \<Rightarrow> ('x hybrid_error, scored_row list) outcome" where
  "search_with_allowlist env idx query top_k allowlist =
     obind (case allowlist of None \<Rightarrow> Ok None | Some ids \<Rightarrow> obind (prepare_allowlist idx ids) (\<lambda>p. Ok (Some p))) (\<lambda>prepared.
       search_with_prepared_allowlist env idx query top_k prepared)"

definition sparse_search ::
  "search_env \<Rightarrow> mmap_index \<Rightarrow> bytes \<Rightarrow> nat \<Rightarrow> ('x hybrid_error, scored_row list) outcome" where
  "sparse_search env idx query top_k = search_with_allowlist env idx query top_k None"

text \<open>The two batch searches share their loop; \<open>env\<close> may choose differently for every query.\<close>

fun extend_batch ::
  "(nat \<Rightarrow> 'q \<Rightarrow> ('x hybrid_error, scored_row list) outcome) \<Rightarrow> nat \<Rightarrow> 'q list \<Rightarrow> nat list \<Rightarrow> scored_row list \<Rightarrow>
     ('x hybrid_error, nat list \<times> scored_row list) outcome" where
  "extend_batch search i [] offsets hits = Ok (offsets, hits)"
| "extend_batch search i (q # qs) offsets hits =
     obind (search i q) (\<lambda>rows.
       extend_batch search (i + 1) qs (offsets @ [length (hits @ rows)]) (hits @ rows))"

definition search_batch_with_allowlists ::
  "(f32 \<Rightarrow> string) \<Rightarrow> (nat \<Rightarrow> search_env) \<Rightarrow> mmap_index \<Rightarrow> bytes list \<Rightarrow> nat \<Rightarrow> u64 list option list \<Rightarrow>
     ('x hybrid_error, ranked_batch) outcome" where
  "search_batch_with_allowlists show_f32 env idx queries top_k allowlists =
     (if length allowlists \<noteq> length queries then
        Err (BatchError (''allowlist count '' @ show_nat (length allowlists) @ '' does not match query count '' @
          show_nat (length queries)))
      else
        obind (extend_batch (\<lambda>i (query, allowlist). search_with_allowlist (env i) idx query top_k allowlist) 0
            (zip queries allowlists) [0] [])
          (\<lambda>(offsets, hits). from_sorted_offsets_hits show_f32 offsets hits))"

definition search_batch_with_prepared_allowlists ::
  "(f32 \<Rightarrow> string) \<Rightarrow> (nat \<Rightarrow> search_env) \<Rightarrow> mmap_index \<Rightarrow> bytes list \<Rightarrow> nat \<Rightarrow> nat set option list \<Rightarrow>
     ('x hybrid_error, ranked_batch) outcome" where
  "search_batch_with_prepared_allowlists show_f32 env idx queries top_k allowlists =
     (if length allowlists \<noteq> length queries then
        Err (BatchError (''allowlist count '' @ show_nat (length allowlists) @ '' does not match query count '' @
          show_nat (length queries)))
      else
        obind (extend_batch (\<lambda>i (query, allowlist). search_with_prepared_allowlist (env i) idx query top_k allowlist) 0
            (zip queries allowlists) [0] [])
          (\<lambda>(offsets, hits). from_sorted_offsets_hits show_f32 offsets hits))"

definition sparse_search_batch ::
  "(f32 \<Rightarrow> string) \<Rightarrow> (nat \<Rightarrow> search_env) \<Rightarrow> mmap_index \<Rightarrow> bytes list \<Rightarrow> nat \<Rightarrow> ('x hybrid_error, ranked_batch) outcome" where
  "sparse_search_batch show_f32 env idx queries top_k =
     search_batch_with_allowlists show_f32 env idx queries top_k (replicate (length queries) None)"

section \<open>The ranking, from the content of the index\<close>

text \<open>
  The score of a document: the contributions of the query terms it contains, added in the order of
  the query; none when it contains none of them.
\<close>

definition postings_in :: "term_item list \<Rightarrow> bytes \<Rightarrow> (nat \<times> nat) list" where
  "postings_in ts t = (case map_of ts t of None \<Rightarrow> [] | Some l \<Rightarrow> l)"

definition doc_len_in :: "term_item list \<Rightarrow> nat \<Rightarrow> nat" where
  "doc_len_in ts d = sum_list (map snd (filter (\<lambda>p. fst p = d) (concat (map snd ts))))"

definition add_term_score ::
  "(f32 \<Rightarrow> f32) \<Rightarrow> header \<Rightarrow> term_item list \<Rightarrow> nat \<Rightarrow> f32 option \<Rightarrow> bytes \<Rightarrow> f32 option" where
  "add_term_score ln h ts d acc t =
     (case map_of (postings_in ts t) d of
        None \<Rightarrow> acc
      | Some tf \<Rightarrow>
          Some (f32_add (case acc of None \<Rightarrow> f32_zero | Some s \<Rightarrow> s)
            (posting_score (hd_k1 h) (hd_b h) (f32_max (hd_avg_doc_len h) f32_one)
              (idf_of ln (f32_of_nat (hd_doc_count h)) (length (postings_in ts t))) tf (doc_len_in ts d))))"

definition doc_score :: "(f32 \<Rightarrow> f32) \<Rightarrow> header \<Rightarrow> term_item list \<Rightarrow> bytes list \<Rightarrow> nat \<Rightarrow> f32 option" where
  "doc_score ln h ts query_terms d = foldl (add_term_score ln h ts d) None query_terms"

definition allowed_in :: "nat set option \<Rightarrow> nat \<Rightarrow> bool" where
  "allowed_in allowlist d \<longleftrightarrow> (case allowlist of None \<Rightarrow> True | Some A \<Rightarrow> d \<in> A)"

definition ranking ::
  "(f32 \<Rightarrow> f32) \<Rightarrow> header \<Rightarrow> u64 list \<Rightarrow> term_item list \<Rightarrow> bytes \<Rightarrow> nat set option \<Rightarrow> scored_row list" where
  "ranking ln h rows ts query allowlist =
     (let terms = dedupe_preserving_order (tokenize_text (hd_tokenizer h) query)
      in sort_by sparse_row_order
           (concat (map (\<lambda>d. case doc_score ln h ts terms d of
              Some s \<Rightarrow> if allowed_in allowlist d then [\<lparr>row_id = rows ! d, score = s\<rparr>] else []
            | None \<Rightarrow> []) [0..<length rows])))"

section \<open>The search computes the ranking\<close>

interpretation sparse_rows: linear_comparator sparse_row_order row_id
proof -
  have eq: "sparse_row_order = cmp_then (cmp_desc (f32_total_key \<circ> score)) (cmp_on (unat \<circ> row_id))"
    by (intro ext) (simp add: sparse_row_order_def cmp_then_def cmp_desc_def cmp_on_def f32_total_cmp_def)
  have "comparator_laws sparse_row_order" unfolding eq by (intro comparator_intros)
  moreover have "linear_comparator_axioms sparse_row_order row_id"
    by unfold_locales (auto simp: eq word_unat_eq_iff)
  ultimately show "linear_comparator sparse_row_order row_id"
    by (rule linear_comparator.intro)
qed

lemma not_allowed: "(case allowlist of None \<Rightarrow> False | Some allowed \<Rightarrow> d \<notin> allowed) \<longleftrightarrow> \<not> allowed_in allowlist d"
  by (simp add: allowed_in_def split: option.splits)

definition add_score :: "f32 \<Rightarrow> f32 option \<Rightarrow> f32" where
  "add_score c acc = f32_add (case acc of None \<Rightarrow> f32_zero | Some s \<Rightarrow> s) c"

lemma score_postings_Ok:
  assumes o: "opened idx rows ts" and "list_all2 (posting_at (mi_mmap idx)) offsets l"
    and "list_all (\<lambda>p. fst p < length rows) l" and "distinct (map fst l)" and "distinct (map fst scores)"
  shows "\<exists>scores'. score_postings idx allowlist avg idf offsets scores = (Ok scores' :: ('x hybrid_error, _) outcome) \<and>
    distinct (map fst scores') \<and>
    (\<forall>d. map_of scores' d = (case map_of l d of
       Some tf \<Rightarrow> if allowed_in allowlist d
         then Some (add_score (posting_score (hd_k1 (mi_header idx)) (hd_b (mi_header idx)) avg idf tf (doc_len_in ts d)) (map_of scores d)) else map_of scores d
     | None \<Rightarrow> map_of scores d))"
  using assms(2-5)
proof (induction offsets l arbitrary: scores rule: list_all2_induct)
  case Nil
  then show ?case by simp
next
  case (Cons offset offsets p l)
  obtain d tf where p: "p = (d, tf)" by fastforce
  have len: "length (mi_mmap idx) \<le> usize_max" using opened_rows [OF o] by simp
  have reads: "le_u32_at (mi_mmap idx) offset = (Ok d :: ('x hybrid_error, _) outcome)"
    "le_u16_at (mi_mmap idx) (offset + 4) = (Ok tf :: ('x hybrid_error, _) outcome)"
    using Cons.hyps(1) len by (simp_all add: posting_at_def le_reads le_at_iff p)
  have doc: "mi_doc_len idx d = (Ok (doc_len_in ts d) :: ('x hybrid_error, _) outcome)"
    using opened_reads(2) [OF o, of d] Cons.prems(1) by (simp add: p doc_len_in_def)
  have none: "map_of l d = None" using Cons.prems(2) by (simp add: p map_of_eq_None_iff)
  show ?case
  proof (cases "allowed_in allowlist d")
    case True
    let ?m = "entry_or_default d f32_zero (\<lambda>s. f32_add s (posting_score (hd_k1 (mi_header idx)) (hd_b (mi_header idx)) avg idf tf (doc_len_in ts d))) scores"
    have run: "score_postings idx allowlist avg idf (offset # offsets) scores =
        (score_postings idx allowlist avg idf offsets ?m :: ('x hybrid_error, _) outcome)"
      using True by (simp add: reads doc not_allowed)
    obtain scores' where s': "score_postings idx allowlist avg idf offsets ?m = (Ok scores' :: ('x hybrid_error, _) outcome)"
      "distinct (map fst scores')"
      "\<forall>d. map_of scores' d = (case map_of l d of
         Some tf \<Rightarrow> if allowed_in allowlist d
           then Some (add_score (posting_score (hd_k1 (mi_header idx)) (hd_b (mi_header idx)) avg idf tf (doc_len_in ts d)) (map_of ?m d)) else map_of ?m d
       | None \<Rightarrow> map_of ?m d)"
      using Cons.IH [of ?m] Cons.prems entry_distinct [OF Cons.prems(3)] by auto
    have "map_of scores' x = (case map_of (p # l) x of
       Some tf \<Rightarrow> if allowed_in allowlist x
         then Some (add_score (posting_score (hd_k1 (mi_header idx)) (hd_b (mi_header idx)) avg idf tf (doc_len_in ts x)) (map_of scores x)) else map_of scores x
     | None \<Rightarrow> map_of scores x)" for x
    proof (cases "x = d")
      case same: True
      show ?thesis using s'(3) [rule_format, of d] none True by (simp add: p same add_score_def)
    next
      case False
      then have "map_of ?m x = map_of scores x" by simp
      then show ?thesis using s'(3) [rule_format, of x] False by (simp only: p map_of.simps fst_conv fun_upd_apply if_False refl)
    qed
    then show ?thesis using s'(1,2) unfolding run by blast
  next
    case False
    have run: "score_postings idx allowlist avg idf (offset # offsets) scores =
        (score_postings idx allowlist avg idf offsets scores :: ('x hybrid_error, _) outcome)"
      using False by (simp add: reads not_allowed)
    obtain scores' where s': "score_postings idx allowlist avg idf offsets scores = (Ok scores' :: ('x hybrid_error, _) outcome)"
      "distinct (map fst scores')"
      "\<forall>d. map_of scores' d = (case map_of l d of
         Some tf \<Rightarrow> if allowed_in allowlist d
           then Some (add_score (posting_score (hd_k1 (mi_header idx)) (hd_b (mi_header idx)) avg idf tf (doc_len_in ts d)) (map_of scores d)) else map_of scores d
       | None \<Rightarrow> map_of scores d)"
      using Cons.IH [of scores] Cons.prems by auto
    have "map_of scores' x = (case map_of (p # l) x of
       Some tf \<Rightarrow> if allowed_in allowlist x
         then Some (add_score (posting_score (hd_k1 (mi_header idx)) (hd_b (mi_header idx)) avg idf tf (doc_len_in ts x)) (map_of scores x)) else map_of scores x
     | None \<Rightarrow> map_of scores x)" for x
      using s'(3) [rule_format, of x] none False by (cases "x = d") (simp_all add: p)
    then show ?thesis using s'(1,2) unfolding run by blast
  qed
qed

lemma opened_postings:
  assumes o: "opened idx rows ts" and j: "j < length ts"
  shows "postings_in ts (fst (ts ! j)) = snd (ts ! j)"
    and "list_all (\<lambda>p. fst p < length rows) (snd (ts ! j))" and "distinct (map fst (snd (ts ! j)))"
proof -
  have "distinct (map fst ts)" using opened_rows(4) [OF o] strict_sorted_iff by blast
  then have "map_of ts (fst (ts ! j)) = Some (snd (ts ! j))" using j by (intro map_of_is_SomeI) simp_all
  then show "postings_in ts (fst (ts ! j)) = snd (ts ! j)" by (simp add: postings_in_def)
  have "item_ok (length rows) (ts ! j)" using opened_rows(5) [OF o] j by (simp add: list_all_length)
  then show "list_all (\<lambda>p. fst p < length rows) (snd (ts ! j))" "distinct (map fst (snd (ts ! j)))"
    by (auto simp: item_ok_def case_prod_beta strict_sorted_iff dest: postings_ok_less)
qed

lemma score_terms_Ok:
  assumes o: "opened idx rows ts" and "distinct (map fst scores)"
  shows "\<exists>scores'. score_terms ln idx allowlist terms scores = (Ok scores' :: ('x hybrid_error, _) outcome) \<and>
    distinct (map fst scores') \<and>
    (\<forall>d. map_of scores' d = (if allowed_in allowlist d
       then foldl (add_term_score ln (mi_header idx) ts d) (map_of scores d) terms else map_of scores d))"
  using assms(2)
proof (induction terms arbitrary: scores)
  case Nil
  then show ?case by simp
next
  case (Cons t terms)
  show ?case
  proof (cases "t \<in> fst ` set ts")
    case True
    then obtain j where j: "j < length ts" "fst (ts ! j) = t"
      "find_term idx t = (Ok (Some (entry_of idx ts j)) :: ('x hybrid_error, _) outcome)"
      using find_term_opened [OF o, of t, where 'x = 'x] by auto
    obtain r where r: "mi_posting_range idx (entry_of idx ts j) = (Ok r :: ('x hybrid_error, _) outcome)"
      "list_all2 (posting_at (mi_mmap idx)) (step_offsets r) (snd (ts ! j))"
      using opened_reads(7) [OF o j(1), where 'x = 'x] by blast
    have n: "te_postings_len (entry_of idx ts j) = length (postings_in ts t)"
      using opened_reads(6) [OF o j(1)] opened_postings(1) [OF o j(1)] j(2) by simp
    have l: "snd (ts ! j) = postings_in ts t" using opened_postings(1) [OF o j(1)] j(2) by simp
    obtain scores1 where s1: "score_postings idx allowlist (f32_max (hd_avg_doc_len (mi_header idx)) f32_one)
        (idf_of ln (f32_of_nat (hd_doc_count (mi_header idx))) (length (postings_in ts t))) (step_offsets r) scores =
        (Ok scores1 :: ('x hybrid_error, _) outcome)" "distinct (map fst scores1)"
      "\<forall>d. map_of scores1 d = (case map_of (postings_in ts t) d of
         Some tf \<Rightarrow> if allowed_in allowlist d
           then Some (add_score (posting_score (hd_k1 (mi_header idx)) (hd_b (mi_header idx)) (f32_max (hd_avg_doc_len (mi_header idx)) f32_one)
             (idf_of ln (f32_of_nat (hd_doc_count (mi_header idx))) (length (postings_in ts t))) tf (doc_len_in ts d)) (map_of scores d))
           else map_of scores d
       | None \<Rightarrow> map_of scores d)"
      using score_postings_Ok [OF o r(2) opened_postings(2,3) [OF o j(1)] Cons.prems, where 'x = 'x] unfolding l by blast
    have step: "map_of scores1 d = (if allowed_in allowlist d
        then add_term_score ln (mi_header idx) ts d (map_of scores d) t else map_of scores d)" for d
      using s1(3) by (auto simp: add_term_score_def add_score_def split: option.splits)
    have run: "score_terms ln idx allowlist (t # terms) scores = (score_terms ln idx allowlist terms scores1 :: ('x hybrid_error, _) outcome)"
      using j(3) r(1) s1(1) n by simp
    show ?thesis using Cons.IH [OF s1(2)] unfolding run by (auto simp: step)
  next
    case False
    then have "postings_in ts t = []" by (simp add: postings_in_def map_of_eq_None_iff split: option.splits)
      (metis False image_eqI map_of_SomeD fst_conv)
    then have same: "add_term_score ln (mi_header idx) ts d acc t = acc" for d acc by (simp add: add_term_score_def)
    have "find_term idx t = (Ok None :: ('x hybrid_error, _) outcome)"
      using find_term_opened [OF o, of t, where 'x = 'x] False by simp
    then have run: "score_terms ln idx allowlist (t # terms) scores = (score_terms ln idx allowlist terms scores :: ('x hybrid_error, _) outcome)"
      by simp
    show ?thesis using Cons.IH [OF Cons.prems] unfolding run foldl_Cons same .
  qed
qed

definition scored_docs :: "(f32 \<Rightarrow> f32) \<Rightarrow> header \<Rightarrow> nat \<Rightarrow> term_item list \<Rightarrow> bytes list \<Rightarrow> nat set option \<Rightarrow> (nat \<times> f32) list" where
  "scored_docs ln h n ts terms allowlist =
     concat (map (\<lambda>d. case doc_score ln h ts terms d of
        Some s \<Rightarrow> if allowed_in allowlist d then [(d, s)] else [] | None \<Rightarrow> []) [0..<n])"

lemma scored_docs_set:
  "(d, s) \<in> set (scored_docs ln h n ts terms allowlist) \<longleftrightarrow>
     d < n \<and> doc_score ln h ts terms d = Some s \<and> allowed_in allowlist d"
  by (auto simp: scored_docs_def split: option.splits if_splits)

lemma scored_docs_distinct: "distinct (map fst (scored_docs ln h n ts terms allowlist))"
proof (induction n)
  case (Suc n)
  have "n \<notin> fst ` set (scored_docs ln h n ts terms allowlist)" by (auto simp: scored_docs_set)
  then show ?case using Suc by (auto simp: scored_docs_def split: option.splits)
qed (simp add: scored_docs_def)

lemma ranking_scored:
  "ranking ln h rows ts query allowlist =
     sort_by sparse_row_order (map (\<lambda>(d, s). \<lparr>row_id = rows ! d, score = s\<rparr>)
       (scored_docs ln h (length rows) ts (dedupe_preserving_order (tokenize_text (hd_tokenizer h) query)) allowlist))"
proof -
  have "map (\<lambda>(d, s). \<lparr>row_id = rows ! d, score = s\<rparr>) (scored_docs ln h n ts terms allowlist) =
      concat (map (\<lambda>d. case doc_score ln h ts terms d of
              Some s \<Rightarrow> if allowed_in allowlist d then [\<lparr>row_id = rows ! d, score = s\<rparr>] else []
            | None \<Rightarrow> []) [0..<n])" for n terms
    by (induction n) (auto simp: scored_docs_def split: option.splits)
  then show ?thesis by (simp only: ranking_def Let_def)
qed

lemma doc_score_range:
  assumes o: "opened idx rows ts" and "doc_score ln h ts terms d = Some s"
  shows "d < length rows"
proof (rule ccontr)
  assume out: "\<not> d < length rows"
  have "map_of (postings_in ts t) d = None" for t
  proof (cases "t \<in> fst ` set ts")
    case True
    then obtain j where j: "j < length ts" "fst (ts ! j) = t" by (metis imageE in_set_conv_nth)
    then show ?thesis
      using opened_postings(1,2) [OF o j(1)] out by (auto simp: list_all_iff map_of_eq_None_iff)
  next
    case False
    then have "map_of ts t = None" by (simp add: map_of_eq_None_iff)
    then show ?thesis by (simp add: postings_in_def)
  qed
  then have "add_term_score ln h ts d acc t = acc" for acc t by (simp add: add_term_score_def)
  then have "foldl (add_term_score ln h ts d) acc terms = acc" for acc by (induction terms) auto
  then show False using assms(2) by (simp add: doc_score_def)
qed

text \<open>What is relied on: the shuffle permutes, and the selection selects.\<close>

definition env_ok :: "search_env \<Rightarrow> bool" where
  "env_ok env \<longleftrightarrow> (\<forall>xs. mset (env_shuffle env xs) = mset xs) \<and>
     (\<forall>n xs. n < length xs \<longrightarrow> selected sparse_row_order n xs (env_select env n xs))"

lemma scored_docs_no_terms: "scored_docs ln h n ts [] allowlist = []"
  by (induction n) (simp_all add: scored_docs_def doc_score_def)

lemma ranking_empty: "dedupe_preserving_order (tokenize_text (hd_tokenizer h) query) = [] \<Longrightarrow> ranking ln h rows ts query allowlist = []"
  by (simp add: ranking_scored scored_docs_no_terms)

lemma search_prepared_exact:
  assumes o: "opened idx rows ts" and env: "env_ok env"
  shows "search_with_prepared_allowlist env idx query top_k allowlist =
    (Ok (take top_k (ranking (env_ln env) (mi_header idx) rows ts query allowlist)) :: ('x hybrid_error, _) outcome)"
proof (cases "hd_doc_count (mi_header idx) = 0 \<or> top_k = 0 \<or>
    dedupe_preserving_order (tokenize_text (hd_tokenizer (mi_header idx)) query) = []")
  case True
  then show ?thesis
    using opened_rows(1) [OF o]
    by (auto simp: search_with_prepared_allowlist_def Let_def ranking_empty) (simp add: ranking_def)
next
  case False
  let ?terms = "dedupe_preserving_order (tokenize_text (hd_tokenizer (mi_header idx)) query)"
  let ?docs = "scored_docs (env_ln env) (mi_header idx) (length rows) ts ?terms allowlist"
  let ?row = "\<lambda>(d, s). \<lparr>row_id = rows ! d, score = s\<rparr>"
  obtain scores where sc: "score_terms (env_ln env) idx allowlist ?terms [] = (Ok scores :: ('x hybrid_error, _) outcome)"
    "distinct (map fst scores)"
    "\<forall>d. map_of scores d = (if allowed_in allowlist d then doc_score (env_ln env) (mi_header idx) ts ?terms d else None)"
    using score_terms_Ok [OF o, of "[]" "env_ln env" allowlist ?terms, where 'x = 'x] by (auto simp: doc_score_def)
  have "(d, s) \<in> set scores \<longleftrightarrow> (d, s) \<in> set ?docs" for d s
    unfolding scored_docs_set map_of_eq_Some_iff [OF sc(2), symmetric] sc(3) [rule_format]
    using doc_score_range [OF o] by auto
  then have "set scores = set ?docs" by (simp add: set_eq_iff)
  moreover have "distinct scores" "distinct ?docs"
    using sc(2) scored_docs_distinct by (auto simp: distinct_map)
  ultimately have perm: "mset scores = mset ?docs" by (simp add: set_eq_iff_mset_eq_distinct)
  define shuffled where "shuffled = env_shuffle env scores"
  have shuf: "mset shuffled = mset ?docs" using env perm by (simp add: shuffled_def env_ok_def)
  have range: "fst p < length rows" if "p \<in> set shuffled" for p
  proof -
    have "(fst p, snd p) \<in> set ?docs" using that mset_eq_setD [OF shuf] by simp
    then show ?thesis unfolding scored_docs_set by simp
  qed
  have rows_eq: "mi_doc_to_row_id idx = rows" using o by (simp add: opened_def)
  have "list_all2 (\<lambda>p r. to_row idx p = (Ok r :: ('x hybrid_error, _) outcome)) shuffled (map ?row shuffled)"
    using range by (auto simp: list_all2_map2 to_row_def pinned_row_id_def get_nth_def rows_eq intro!: list_all2_same [THEN iffD2])
  then have trav: "traverse (to_row idx) shuffled = (Ok (map ?row shuffled) :: ('x hybrid_error, _) outcome)"
    by (simp add: traverse_Ok)
  let ?rows = "map ?row shuffled"
  have "inj_on fst (set shuffled)" 
    using scored_docs_distinct [of "env_ln env" "mi_header idx" "length rows" ts ?terms allowlist] mset_eq_setD [OF shuf]
    by (simp add: distinct_map)
  then have inj: "inj_on row_id (set ?rows)"
    using range opened_rows(2) [OF o]
    by (auto simp: inj_on_def case_prod_beta nth_eq_iff_index_eq)
  have all: "sort_by sparse_row_order ?rows = ranking (env_ln env) (mi_header idx) rows ts query allowlist"
    unfolding ranking_scored by (rule sparse_rows.sort_by_perm_invariant [OF _ inj]) (simp add: shuf mset_map)
  have "sort_by sparse_row_order (if top_k < length ?rows then take top_k (env_select env (top_k - 1) ?rows) else ?rows) =
      take top_k (sort_by sparse_row_order ?rows)"
  proof (cases "top_k < length ?rows")
    case True
    then have "selected sparse_row_order (top_k - 1) ?rows (env_select env (top_k - 1) ?rows)"
      using env by (simp add: env_ok_def)
    then show ?thesis using sparse_rows.sort_selected [OF _ _ _ inj, of top_k] False True by simp
  qed simp
  moreover have "search_with_prepared_allowlist env idx query top_k allowlist =
    (Ok (sort_by sparse_row_order (if top_k < length ?rows then take top_k (env_select env (top_k - 1) ?rows) else ?rows)) ::
      ('x hybrid_error, _) outcome)"
    using False sc(1) trav by (simp add: search_with_prepared_allowlist_def Let_def shuffled_def [symmetric])
  ultimately show ?thesis unfolding all by simp
qed

section \<open>Allowlists\<close>

definition ordinals_of :: "u64 list \<Rightarrow> u64 list \<Rightarrow> nat set" where
  "ordinals_of rows ids = {i. i < length rows \<and> rows ! i \<in> set ids}"

lemma insert_ordinals_exact:
  assumes o: "opened idx rows ts"
  shows "if set ids \<subseteq> set rows
    then insert_ordinals idx ids A = (Ok (A \<union> ordinals_of rows ids) :: ('x hybrid_error, nat set) outcome)
    else \<exists>m. insert_ordinals idx ids A = (Err (RowIdError m) :: ('x hybrid_error, nat set) outcome)"
proof (induction ids arbitrary: A)
  case Nil
  then show ?case by (simp add: ordinals_of_def)
next
  case (Cons i ids)
  have table: "mi_row_id_to_doc idx = map_of (zip rows [0..<length rows])" using o by (simp add: opened_def)
  show ?case
  proof (cases "i \<in> set rows")
    case True
    then obtain d where d: "d < length rows" "rows ! d = i" by (auto simp: in_set_conv_nth)
    have look: "mi_row_id_to_doc idx i = Some d" using opened_reads(3) [OF o d(1)] d(2) by simp
    have "e < length rows \<and> rows ! e = i \<longleftrightarrow> e = d" for e
      using nth_eq_iff_index_eq [OF opened_rows(2) [OF o], of e d] d by auto
    then have "e \<in> ordinals_of rows (i # ids) \<longleftrightarrow> e = d \<or> e \<in> ordinals_of rows ids" for e
      by (simp add: ordinals_of_def conj_disj_distribL)
    then have ins: "insert d A \<union> ordinals_of rows ids = A \<union> ordinals_of rows (i # ids)" by blast
    have run: "insert_ordinals idx (i # ids) A = (insert_ordinals idx ids (insert d A) :: ('x hybrid_error, nat set) outcome)"
      by (simp add: look)
    have "set (i # ids) \<subseteq> set rows \<longleftrightarrow> set ids \<subseteq> set rows" using True by simp
    then show ?thesis using Cons.IH [of "insert d A"] unfolding run ins by (simp only:)
  next
    case False
    then have "mi_row_id_to_doc idx i = None" by (simp add: table map_of_zip_is_None)
    then show ?thesis using False by simp
  qed
qed

lemma prepare_allowlist_exact:
  assumes "opened idx rows ts"
  shows "if set ids \<subseteq> set rows
    then prepare_allowlist idx ids = (Ok (ordinals_of rows ids) :: ('x hybrid_error, nat set) outcome)
    else \<exists>m. prepare_allowlist idx ids = (Err (RowIdError m) :: ('x hybrid_error, nat set) outcome)"
  using insert_ordinals_exact [OF assms, of ids "{}", where 'x = 'x] by (simp add: prepare_allowlist_def)

lemma search_allowlist_exact:
  assumes o: "opened idx rows ts" and env: "env_ok env"
  shows "case allowlist of
      None \<Rightarrow> search_with_allowlist env idx query top_k allowlist =
        (Ok (take top_k (ranking (env_ln env) (mi_header idx) rows ts query None)) :: ('x hybrid_error, _) outcome)
    | Some ids \<Rightarrow>
        if set ids \<subseteq> set rows then search_with_allowlist env idx query top_k allowlist =
          (Ok (take top_k (ranking (env_ln env) (mi_header idx) rows ts query (Some (ordinals_of rows ids)))) ::
            ('x hybrid_error, _) outcome)
        else \<exists>m. search_with_allowlist env idx query top_k allowlist = (Err (RowIdError m) :: ('x hybrid_error, _) outcome)"
proof (cases allowlist)
  case None
  then show ?thesis using search_prepared_exact [OF o env, where 'x = 'x] by (simp add: search_with_allowlist_def)
next
  case (Some ids)
  note prep = prepare_allowlist_exact [OF o, of ids, where 'x = 'x]
  show ?thesis
  proof (cases "set ids \<subseteq> set rows")
    case True
    then show ?thesis using Some prep search_prepared_exact [OF o env, where 'x = 'x] by (simp add: search_with_allowlist_def)
  next
    case False
    then obtain m where "prepare_allowlist idx ids = (Err (RowIdError m) :: ('x hybrid_error, nat set) outcome)" using prep by auto
    then show ?thesis using Some False by (simp add: search_with_allowlist_def)
  qed
qed

section \<open>Batches\<close>

lemma extend_batch_Ok:
  assumes "list_all2 (\<lambda>(i, q) l. search i q = (Ok l :: ('x hybrid_error, _) outcome)) (enumerate k qs) L"
  shows "extend_batch search k qs (csr_offsets P) (concat P) = (Ok (csr_offsets (P @ L), concat (P @ L)) :: ('x hybrid_error, _) outcome)"
  using assms
proof (induction qs arbitrary: k L P)
  case (Cons q qs)
  then obtain l L' where L: "L = l # L'" "search k q = (Ok l :: ('x hybrid_error, _) outcome)"
    "list_all2 (\<lambda>(i, q) l. search i q = (Ok l :: ('x hybrid_error, _) outcome)) (enumerate (Suc k) qs) L'"
    by (auto simp: list_all2_Cons1)
  show ?case using Cons.IH [OF L(3), of "P @ [l]"] by (simp add: L csr_offsets_snoc)
qed simp

lemma ranking_sorted:
  assumes "distinct rows"
  shows "sorted_by rank_row_order (ranking ln h rows ts query allowlist)"
    and "distinct (map row_id (ranking ln h rows ts query allowlist))"
proof -
  have order: "sparse_row_order = rank_row_order" by (intro ext) (simp add: sparse_row_order_def rank_row_order_def)
  show "sorted_by rank_row_order (ranking ln h rows ts query allowlist)"
    unfolding order [symmetric] ranking_scored by (rule sparse_rows.sorted_sort_by)
  let ?docs = "scored_docs ln h (length rows) ts (dedupe_preserving_order (tokenize_text (hd_tokenizer h) query)) allowlist"
  have "map row_id (map (\<lambda>(d, s). \<lparr>row_id = rows ! d, score = s\<rparr>) ?docs) = map (\<lambda>d. rows ! d) (map fst ?docs)"
    by (auto simp: case_prod_beta)
  moreover have "distinct (map (\<lambda>d. rows ! d) (map fst ?docs))"
    unfolding distinct_map [of "\<lambda>d. rows ! d"]
    using scored_docs_distinct assms by (auto simp: inj_on_def scored_docs_set nth_eq_iff_index_eq)
  ultimately show "distinct (map row_id (ranking ln h rows ts query allowlist))"
    unfolding ranking_scored distinct_map_sort_by by (simp only:)
qed

lemma sorted_take: "sorted_by cmp xs \<Longrightarrow> sorted_by cmp (take n xs)"
  by (simp add: sorted_by_def sorted_wrt_take)

lemma ranking_canonical:
  assumes "distinct rows"
  shows "canonical_rows (take n (ranking ln h rows ts query allowlist)) \<longleftrightarrow>
    list_all (\<lambda>r. f32_is_finite (score r)) (take n (ranking ln h rows ts query allowlist))"
  using sorted_take [OF ranking_sorted(1) [OF assms], of n ln h ts query allowlist]
    distinct_take [OF ranking_sorted(2) [OF assms], of n ln h ts query allowlist]
  by (auto simp: canonical_rows_def list_all_iff take_map)

section \<open>The ranking, from the documents\<close>

text \<open>BM25 over the documents themselves, without an index.\<close>

definition document_score :: "(f32 \<Rightarrow> f32) \<Rightarrow> pending_doc list \<Rightarrow> bytes list \<Rightarrow> pending_doc \<Rightarrow> f32 option" where
  "document_score ln docs query_terms d =
     foldl (\<lambda>acc t.
       if t \<in> set (pd_terms d) then
         Some (f32_add (case acc of None \<Rightarrow> f32_zero | Some s \<Rightarrow> s)
           (posting_score default_k1 default_b (f32_max (average_len (total_terms docs) (length docs)) f32_one)
             (idf_of ln (f32_of_nat (length docs)) (length (filter (\<lambda>e. t \<in> set (pd_terms e)) docs)))
             (count_list (pd_terms d) t) (length (pd_terms d))))
       else acc) None query_terms"

definition document_ranking ::
  "(f32 \<Rightarrow> f32) \<Rightarrow> tokenizer_kind \<Rightarrow> pending_doc list \<Rightarrow> bytes \<Rightarrow> scored_row list" where
  "document_ranking ln k docs query =
     (let terms = dedupe_preserving_order (tokenize_text k query) in
      sort_by sparse_row_order
        (concat (map (\<lambda>d. case document_score ln docs terms d of
           Some s \<Rightarrow> [\<lparr>row_id = pd_row_id d, score = s\<rparr>] | None \<Rightarrow> []) docs)))"

lemma postings_of_absent: "t \<notin> doc_terms docs \<Longrightarrow> postings_of k docs t = []"
  by (induction docs arbitrary: k) (auto simp: postings_of_Cons doc_terms_Cons)

lemma map_of_postings_of:
  "i < length docs \<Longrightarrow> map_of (postings_of k docs t) (k + i) =
     (if t \<in> set (pd_terms (docs ! i)) then Some (count_list (pd_terms (docs ! i)) t) else None)"
proof (induction docs arbitrary: k i)
  case (Cons d docs)
  have "map_of (postings_of (Suc k) docs t) k = None"
    using postings_of_ordinals [of _ "Suc k" docs t] by (fastforce simp: map_of_eq_None_iff)
  then show ?case using Cons.IH [of "i - 1" "Suc k"] Cons.prems by (cases i) (auto simp: postings_of_Cons)
qed simp

lemma length_postings_of: "length (postings_of k docs t) = length (filter (\<lambda>e. t \<in> set (pd_terms e)) docs)"
  by (induction docs arbitrary: k) (auto simp: postings_of_Cons)

lemma image_ranking:
  "ranking ln (image_header (built_spec k docs)) (map pd_row_id docs) (built_items (built_spec k docs)) query None =
    document_ranking ln k docs query"
proof -
  let ?s = "built_spec k docs"
  let ?h = "image_header ?s" and ?ts = "built_items ?s"
  have items: "?ts = map (\<lambda>t. (t, postings_of 0 docs t)) (sorted_list_of_set (doc_terms docs))"
    by (simp add: built_items_def built_spec_def Let_def zip_map2 zip_same_conv_map)
  have post: "postings_in ?ts t = postings_of 0 docs t" for t
  proof (cases "t \<in> doc_terms docs")
    case True
    then have "map_of ?ts t = Some (postings_of 0 docs t)"
      by (simp add: items map_of_map_restrict finite_doc_terms)
    then show ?thesis by (simp add: postings_in_def)
  next
    case False
    then have "map_of ?ts t = None" by (auto simp: items map_of_eq_None_iff finite_doc_terms)
    then show ?thesis using False by (simp add: postings_in_def postings_of_absent)
  qed
  have len: "doc_len_in ?ts i = length (pd_terms (docs ! i))" if "i < length docs" for i
  proof -
    let ?all = "concat (map (postings_of 0 docs) (sorted_list_of_set (doc_terms docs)))"
    have all: "concat (map snd ?ts) = ?all" by (simp add: items comp_def)
    have "list_all (\<lambda>p. fst p < length (replicate (length docs) (0::nat))) ?all"
      using postings_of_ordinals [of _ 0 docs] by (fastforce simp: list_all_iff)
    from nth_add_lens [OF this, of i] show ?thesis
      using that arg_cong [OF spec_lens [of docs], of "\<lambda>l. l ! i"] by (simp add: doc_len_in_def all)
  qed
  have hdr: "hd_doc_count ?h = length docs" "hd_avg_doc_len ?h = average_len (total_terms docs) (length docs)"
    "hd_k1 ?h = default_k1" "hd_b ?h = default_b" "hd_tokenizer ?h = k"
    by (simp_all add: image_header_def Let_def built_spec_def)
  have step: "add_term_score ln ?h ?ts i acc t =
      (if t \<in> set (pd_terms (docs ! i)) then
         Some (f32_add (case acc of None \<Rightarrow> f32_zero | Some s \<Rightarrow> s)
           (posting_score default_k1 default_b (f32_max (average_len (total_terms docs) (length docs)) f32_one)
             (idf_of ln (f32_of_nat (length docs)) (length (filter (\<lambda>e. t \<in> set (pd_terms e)) docs)))
             (count_list (pd_terms (docs ! i)) t) (length (pd_terms (docs ! i)))))
       else acc)" if "i < length docs" for i acc t
    using map_of_postings_of [OF that, of 0 t] by (simp add: add_term_score_def post hdr len [OF that] length_postings_of)
  have sc: "doc_score ln ?h ?ts terms i = document_score ln docs terms (docs ! i)" if "i < length docs" for i terms
    unfolding doc_score_def document_score_def by (rule foldl_cong) (simp_all add: step [OF that])
  have "map (\<lambda>i. case doc_score ln ?h ?ts terms i of
              Some s \<Rightarrow> if allowed_in None i then [\<lparr>row_id = map pd_row_id docs ! i, score = s\<rparr>] else []
            | None \<Rightarrow> []) [0..<length docs] =
      map (\<lambda>d. case document_score ln docs terms d of Some s \<Rightarrow> [\<lparr>row_id = pd_row_id d, score = s\<rparr>] | None \<Rightarrow> []) docs" for terms
    by (rule nth_equalityI) (simp_all add: sc allowed_in_def cong: option.case_cong)
  then show ?thesis by (simp add: ranking_def document_ranking_def Let_def hdr)
qed

section \<open>Properties\<close>

definition ex_env :: search_env where
  "ex_env = \<lparr>env_ln = (\<lambda>x. x), env_shuffle = rev, env_select = (\<lambda>n. sort_by sparse_row_order)\<rparr>"

lemma ex_env_ok: "env_ok ex_env"
proof -
  have "selected sparse_row_order n xs (sort_by sparse_row_order xs)" if n: "n < length xs" for n xs
  proof -
    have s: "sorted_wrt (\<lambda>a b. sparse_row_order a b \<noteq> OGreater) (sort_by sparse_row_order xs)"
      using sparse_rows.sorted_sort_by [of xs] by (simp add: sorted_by_def)
    have "sparse_row_order a (sort_by sparse_row_order xs ! n) \<noteq> OGreater" if "a \<in> set (take n (sort_by sparse_row_order xs))" for a
      using that n sorted_wrt_nth_less [OF s] by (auto simp: in_set_conv_nth)
    moreover have "sparse_row_order (sort_by sparse_row_order xs ! n) b \<noteq> OGreater"
      if b: "b \<in> set (drop (Suc n) (sort_by sparse_row_order xs))" for b
    proof -
      obtain i where "i < length xs - Suc n" "b = sort_by sparse_row_order xs ! (Suc n + i)"
        using b by (auto simp: in_set_conv_nth)
      then show ?thesis using sorted_wrt_nth_less [OF s, of n "Suc n + i"] by simp
    qed
    ultimately show ?thesis by (simp add: selected_def)
  qed
  then show ?thesis by (simp add: env_ok_def ex_env_def)
qed

text \<open>
  C4. Sparse search, end to end: the sidecar that a builder writes, opened and searched, answers
  every query with the first \<open>top_k\<close> documents by BM25, as computed from the documents without any
  index: the score of a document is the sum over the distinct query terms it contains, ties are broken
  by row ID, a document without a query term is not returned. The iteration order of the hash map and
  the arrangement of the partial selection do not show, and no search fails.
\<close>

theorem sparse_search_end_to_end:
  assumes "builder_run k b" and "build_bytes b = (Ok (out, rep) :: ('x hybrid_error, _) outcome)"
    and "list_all (\<lambda>d. list_all (\<lambda>t. length t \<le> max_u32) (pd_terms d)) (bd_docs b)"
    and "env_ok env"
  shows "\<exists>idx. open_index show_preview out = (Ok idx :: ('x hybrid_error, _) outcome) \<and>
    (\<forall>query top_k. sparse_search env idx query top_k =
       (Ok (take top_k (document_ranking (env_ln env) k (bd_docs b) query)) :: ('x hybrid_error, _) outcome))"
proof -
  let ?s = "built_spec k (bd_docs b)"
  have b: "builder_ok b" using builder_run_ok [OF assms(1)] by simp
  have fit: "docs_fit (bd_docs b) \<and> length (bd_docs b) \<le> max_u32 \<and> image_len ?s \<le> usize_max" and out: "out = image_of ?s"
    using build_image [OF assms(1), where 'x = 'x] assms(2) by (auto split: if_splits)
  have good: "built_good ?s" using built_spec_good [OF b _ _ assms(3)] fit by blast
  have rows: "bs_row_ids ?s = map pd_row_id (bd_docs b)" "mi_header (image_index ?s) = image_header ?s"
    by (simp_all add: built_spec_def Let_def image_index_def)
  have "sparse_search env (image_index ?s) query top_k =
       (Ok (take top_k (document_ranking (env_ln env) k (bd_docs b) query)) :: ('x hybrid_error, _) outcome)" for query top_k
    using search_allowlist_exact [OF open_image(2) [OF good] assms(4), where allowlist = None and query = query and top_k = top_k and 'x = 'x]
    by (simp add: sparse_search_def rows image_ranking)
  then show ?thesis using open_image(1) [OF good, where 'x = 'x] out by blast
qed

theorem sparse_search_end_to_end_witness:
  "\<exists>idx. open_index (\<lambda>t. '''') (image_of (built_spec Simple (bd_docs ex_builder))) = (Ok idx :: (unit hybrid_error, _) outcome) \<and>
     sparse_search ex_env idx [101, 97, 116] 5 =
       (Ok (take 5 (document_ranking (\<lambda>x. x) Simple (bd_docs ex_builder) [101, 97, 116])) :: (unit hybrid_error, _) outcome)"
proof -
  obtain rep where out: "build_bytes ex_builder = (Ok (image_of (built_spec Simple (bd_docs ex_builder)), rep) :: (unit hybrid_error, _) outcome)"
    using build_image [OF ex_builder_run, where 'x = unit] ex_fit by auto
  have "list_all (\<lambda>d. list_all (\<lambda>t. length t \<le> max_u32) (pd_terms d)) (bd_docs ex_builder)"
    by (simp add: ex_docs max_u32_def)
  from sparse_search_end_to_end [OF ex_builder_run out this ex_env_ok, of "\<lambda>t. ''''"]
  show ?thesis by (auto simp: ex_env_def)
qed

text \<open>
  C32. Searching any opened sidecar under an allowlist: a listed row ID that the index does not have
  is an error, otherwise the answer is the first \<open>top_k\<close> of the ranking of the listed documents alone,
  each of them listed, with rising order and without repetition. It never panics, and no other error
  is possible.
\<close>

theorem sparse_allowlist_exact:
  assumes "open_index show_preview data = (Ok idx :: ('x hybrid_error, _) outcome)" and "env_ok env"
  shows "if set ids \<subseteq> set (mi_doc_to_row_id idx)
    then \<exists>hits. search_with_allowlist env idx query top_k (Some ids) = (Ok hits :: ('x hybrid_error, _) outcome) \<and>
      length hits \<le> top_k \<and> row_id ` set hits \<subseteq> set ids \<and> distinct (map row_id hits) \<and> sorted_by rank_row_order hits
    else \<exists>m. search_with_allowlist env idx query top_k (Some ids) = (Err (RowIdError m) :: ('x hybrid_error, _) outcome)"
proof -
  obtain ts where o: "opened idx (mi_doc_to_row_id idx) ts" using open_opened [OF assms(1)] by blast
  let ?rows = "mi_doc_to_row_id idx"
  let ?ranking = "ranking (env_ln env) (mi_header idx) ?rows ts query (Some (ordinals_of ?rows ids))"
  note exact = search_allowlist_exact [OF o assms(2), where allowlist = "Some ids" and query = query and top_k = top_k and 'x = 'x]
  show ?thesis
  proof (cases "set ids \<subseteq> set ?rows")
    case True
    have "row_id ` set ?ranking \<subseteq> set ids"
      by (auto simp: ranking_scored scored_docs_set allowed_in_def ordinals_of_def)
    then have listed: "row_id ` set (take top_k ?ranking) \<subseteq> set ids" using set_take_subset [of top_k ?ranking] by blast
    have "distinct (map row_id (take top_k ?ranking))"
      using distinct_take [OF ranking_sorted(2) [OF opened_rows(2) [OF o]]] by (simp add: take_map)
    moreover have "sorted_by rank_row_order (take top_k ?ranking)"
      by (rule sorted_take [OF ranking_sorted(1) [OF opened_rows(2) [OF o]]])
    ultimately show ?thesis using exact True listed by (intro if_P [THEN iffD2]) auto
  next
    case False
    then show ?thesis using exact by simp
  qed
qed

theorem sparse_allowlist_exact_witness:
  "\<exists>idx hits. open_index (\<lambda>t. '''') (image_of (built_spec Simple (bd_docs ex_builder))) = (Ok idx :: (unit hybrid_error, _) outcome) \<and>
     search_with_allowlist ex_env idx [101, 97, 116] 5 (Some [7]) = (Ok hits :: (unit hybrid_error, _) outcome) \<and>
     row_id ` set hits \<subseteq> {7}"
proof -
  have "mi_doc_to_row_id (image_index (built_spec Simple (bd_docs ex_builder))) = [7]" by (simp add: image_index_def ex_spec)
  then show ?thesis
    using sparse_allowlist_exact [OF open_image(1) [OF ex_good] ex_env_ok, of "[7]" "[101, 97, 116]" 5, where 'x = unit]
      open_image(1) [OF ex_good, where 'x = unit] by auto
qed

text \<open>
  The batch search is the single search, query by query: when every score is finite the batch holds
  for each query exactly the rows of its single search; a score that is not finite makes the whole
  batch an error (a single search returns it). It never panics.
\<close>

theorem sparse_batch_exact:
  assumes "open_index show_preview data = (Ok idx :: ('x hybrid_error, _) outcome)" and "\<forall>i. env_ok (env i)"
  shows "\<exists>L. length L = length queries \<and>
    (\<forall>i<length queries. sparse_search (env i) idx (queries ! i) top_k = (Ok (L ! i) :: ('x hybrid_error, _) outcome)) \<and>
    (if list_all (list_all (\<lambda>r. f32_is_finite (score r))) L
     then \<exists>b. sparse_search_batch show_f32 env idx queries top_k = (Ok b :: ('x hybrid_error, _) outcome) \<and>
       rb_query_count b = length queries \<and> (\<forall>i<length queries. rb_hits_for_query b i = Some (L ! i))
     else \<exists>e. sparse_search_batch show_f32 env idx queries top_k = (Err e :: ('x hybrid_error, _) outcome))"
proof -
  obtain ts where o: "opened idx (mi_doc_to_row_id idx) ts" using open_opened [OF assms(1)] by blast
  define hits where "hits i = take top_k (ranking (env_ln (env i)) (mi_header idx) (mi_doc_to_row_id idx) ts (queries ! i) None)" for i
  define L where "L = map hits [0..<length queries]"
  have single: "sparse_search (env i) idx (queries ! i) top_k = (Ok (hits i) :: ('x hybrid_error, _) outcome)" for i
    using search_allowlist_exact [OF o assms(2) [rule_format], where allowlist = None and query = "queries ! i" and 'x = 'x]
    by (simp add: sparse_search_def hits_def)
  define S :: "nat \<Rightarrow> bytes \<times> u64 list option \<Rightarrow> ('x hybrid_error, scored_row list) outcome"
    where "S = (\<lambda>i (q, a). search_with_allowlist (env i) idx q top_k a)"
  have "list_all2 (\<lambda>(i, q) l. S i q = Ok l) (enumerate 0 (zip queries (replicate (length queries) None))) L"
    using single by (auto simp: list_all2_conv_all_nth L_def nth_enumerate_eq sparse_search_def S_def)
  from extend_batch_Ok [OF this, of "[]"] have run: "extend_batch S 0 (zip queries (replicate (length queries) None)) [0] [] =
      Ok (csr_offsets L, concat L)" by simp
  have batch: "sparse_search_batch show_f32 env idx queries top_k =
      (from_sorted_offsets_hits show_f32 (csr_offsets L) (concat L) :: ('x hybrid_error, _) outcome)"
    by (simp add: sparse_search_batch_def search_batch_with_allowlists_def S_def [symmetric] run)
  have canon: "list_all canonical_rows L \<longleftrightarrow> list_all (list_all (\<lambda>r. f32_is_finite (score r))) L"
    using ranking_canonical [OF opened_rows(2) [OF o]] by (auto simp: L_def hits_def list_all_iff)
  have ok: "from_sorted_offsets_hits show_f32 (csr_offsets L) (concat L) = (Ok b :: ('x hybrid_error, _) outcome) \<longleftrightarrow>
      b = lists_batch L \<and> list_all canonical_rows L" for b
    using rb_lists_batch [of L] valid_csr_offsets [of L]
    by (auto simp: from_sorted_Ok lists_batch_def)
  have np: "from_sorted_offsets_hits show_f32 (csr_offsets L) (concat L) \<noteq> (Panic :: ('x hybrid_error, _) outcome)"
    using from_sorted_canonical by blast
  show ?thesis
  proof (intro exI [of _ L] conjI)
    show "length L = length queries" by (simp add: L_def)
    show "\<forall>i<length queries. sparse_search (env i) idx (queries ! i) top_k = (Ok (L ! i) :: ('x hybrid_error, _) outcome)"
      using single by (simp add: L_def)
    show "if list_all (list_all (\<lambda>r. f32_is_finite (score r))) L
     then \<exists>b. sparse_search_batch show_f32 env idx queries top_k = (Ok b :: ('x hybrid_error, _) outcome) \<and>
       rb_query_count b = length queries \<and> (\<forall>i<length queries. rb_hits_for_query b i = Some (L ! i))
     else \<exists>e. sparse_search_batch show_f32 env idx queries top_k = (Err e :: ('x hybrid_error, _) outcome)"
    proof (cases "list_all canonical_rows L")
      case True
      then show ?thesis using ok [of "lists_batch L"] canon by (auto simp: batch L_def)
    next
      case False
      then have "\<exists>e. from_sorted_offsets_hits show_f32 (csr_offsets L) (concat L) = (Err e :: ('x hybrid_error, _) outcome)"
        using ok np by (cases "from_sorted_offsets_hits show_f32 (csr_offsets L) (concat L) :: ('x hybrid_error, _) outcome") auto
      then show ?thesis using False canon by (simp add: batch)
    qed
  qed
qed

theorem sparse_batch_exact_witness:
  "\<exists>L. length L = 2 \<and>
     (\<forall>i<2. sparse_search ex_env (image_index (built_spec Simple (bd_docs ex_builder))) ([[101, 97, 116], []] ! i) 5 =
        (Ok (L ! i) :: (unit hybrid_error, _) outcome))"
proof -
  have "\<forall>i. env_ok ((\<lambda>_::nat. ex_env) i)" by (simp add: ex_env_ok)
  from sparse_batch_exact [OF open_image(1) [OF ex_good] this, of "[[101, 97, 116], []]" 5 "\<lambda>_. ''''", where 'x = unit]
  obtain L where "length L = length ([[101, 97, 116], []] :: bytes list)"
    "\<forall>i<length ([[101, 97, 116], []] :: bytes list). sparse_search ex_env (image_index (built_spec Simple (bd_docs ex_builder)))
      ([[101, 97, 116], []] ! i) 5 = (Ok (L ! i) :: (unit hybrid_error, _) outcome)"
    by (elim exE conjE) (rule that)
  then show ?thesis by (intro exI [of _ L]) (simp add: numeral_2_eq_2)
qed

end
