(* ===== verification/IdsFile.thy ===== *)
theory IdsFile
  imports Errors ByteCodec
begin

text \<open>
  The ID sidecar of a bundle (\<open>write_ids_file\<close>, \<open>read_ids_file\<close> in \<open>ordinaldb/src/io.rs\<close>): the
  magic, the count, and the IDs, little-endian. A file is its list of bytes, which does not change
  while it is read; an open file is the list of the bytes still to be read.
\<close>

definition ids_magic :: "u8 list" where
  "ids_magic = [79, 68, 66, 73, 68, 83, 49, 0]"

lemma length_ids_magic: "length ids_magic = 8"
  by (simp add: ids_magic_def)

definition u64_max :: nat where
  "u64_max = 18446744073709551615"

definition write_ids_file :: "u64 list \<Rightarrow> u8 list" where
  "write_ids_file ids =
     ids_magic @ u64_to_le (word_of_nat (length ids)) @ concat (map u64_to_le ids)"

definition read_exact_invalid :: "nat \<Rightarrow> u8 list \<Rightarrow> (io_error, u8 list \<times> u8 list) outcome" where
  "read_exact_invalid n data =
     (if n \<le> length data then Ok (take n data, drop n data)
      else Err (io_err InvalidData ''truncated OrdinalDB ID sidecar''))"

definition read_u64 :: "u8 list \<Rightarrow> (io_error, u64 \<times> u8 list) outcome" where
  "read_u64 data =
     obind (read_exact_invalid 8 data) (\<lambda>(bytes, data'). Ok (u64_from_le bytes, data'))"

fun read_ids :: "nat \<Rightarrow> u64 set \<Rightarrow> u8 list \<Rightarrow> (io_error, u64 list \<times> u8 list) outcome" where
  "read_ids 0 seen data = Ok ([], data)"
| "read_ids (Suc n) seen data =
     obind (read_u64 data) (\<lambda>(row_id, data').
     if row_id \<in> seen then
       Err (io_err InvalidData (''duplicate ID '' @ show_u64 row_id @ '' in persisted ID sidecar''))
     else obind (read_ids n (insert row_id seen) data') (\<lambda>(ids, data''). Ok (row_id # ids, data'')))"

text \<open>What is read once the size of the file has been compared with the expected one.\<close>

definition read_ids_body :: "u8 list \<Rightarrow> nat \<Rightarrow> (io_error, u64 list) outcome" where
  "read_ids_body data expected =
     obind (read_exact_invalid 8 data) (\<lambda>(magic, data1).
     if magic \<noteq> ids_magic then Err (io_err InvalidData ''invalid OrdinalDB ID sidecar magic'')
     else obind (read_u64 data1) (\<lambda>(count, data2).
       if unat count \<noteq> expected then
         Err (io_err InvalidData
           (''ID sidecar count '' @ show_u64 count @ '' does not match index len '' @ show_nat expected))
       else obind (read_ids expected {} data2) (\<lambda>(ids, data3).
         if data3 \<noteq> [] then Err (io_err InvalidData ''trailing bytes in OrdinalDB ID sidecar'')
         else Ok ids)))"

definition read_ids_file :: "u8 list \<Rightarrow> nat \<Rightarrow> (io_error, u64 list) outcome" where
  "read_ids_file data expected_len =
     obind (ok_or (io_err InvalidData
         (''ID sidecar expected row count '' @ show_nat expected_len @ '' exceeds u64::MAX''))
       (if expected_len \<le> u64_max then Some expected_len else None)) (\<lambda>expected.
     obind (ok_or (io_err InvalidData ''ID sidecar expected file size overflow'')
       (case checked_mul expected 8 of None \<Rightarrow> None | Some b \<Rightarrow> checked_add b 16)) (\<lambda>expected_file_size.
     if length data < expected_file_size then
       Err (io_err InvalidData ''truncated OrdinalDB ID sidecar'')
     else if expected_file_size < length data then
       Err (io_err InvalidData ''trailing bytes in OrdinalDB ID sidecar'')
     else read_ids_body data expected))"

section \<open>Reading back\<close>

lemma read_u64_Ok:
  "read_u64 data = Ok (x, rest) \<longleftrightarrow> data = u64_to_le x @ rest"
proof
  assume "read_u64 data = Ok (x, rest)"
  then have "8 \<le> length data" "x = u64_from_le (take 8 data)" "rest = drop 8 data"
    by (auto simp: read_u64_def read_exact_invalid_def outcome_simps split: if_splits)
  then show "data = u64_to_le x @ rest" using u64_codec.take_decode [of data] by simp
next
  assume "data = u64_to_le x @ rest"
  then show "read_u64 data = Ok (x, rest)"
    by (simp add: read_u64_def read_exact_invalid_def u64_codec.length_encode u64_codec.decode_encode)
qed

lemma read_u64_not_Panic: "read_u64 data \<noteq> Panic"
  by (simp add: read_u64_def read_exact_invalid_def)

lemma read_ids_Ok:
  "read_ids n seen data = Ok (ids, rest) \<longleftrightarrow>
     length ids = n \<and> distinct ids \<and> set ids \<inter> seen = {} \<and> data = concat (map u64_to_le ids) @ rest"
proof (induction n arbitrary: seen data ids)
  case (Suc n)
  have "read_ids (Suc n) seen data = Ok (ids, rest) \<longleftrightarrow>
      (\<exists>x xs. ids = x # xs \<and> x \<notin> seen \<and>
        (\<exists>data'. data = u64_to_le x @ data' \<and> read_ids n (insert x seen) data' = Ok (xs, rest)))"
    by (auto simp: outcome_simps read_u64_Ok split: prod.splits if_splits)
  then show ?case by (cases ids) (auto simp: Suc.IH)
qed auto

lemma read_ids_not_Panic: "read_ids n seen data \<noteq> Panic"
  by (induction n arbitrary: seen data)
    (auto simp: outcome_simps read_u64_not_Panic split: prod.splits if_splits)

lemma length_write_ids_file: "length (write_ids_file ids) = 16 + 8 * length ids"
  by (simp add: write_ids_file_def ids_magic_def u64_codec.length_encode u64_codec.length_concat_encode)

text \<open>
  C19. The ID sidecar format, both ways: the reader accepts exactly the bytes the writer produces
  for a list of distinct IDs of the expected length, and answers with that list. Every other file,
  truncated, extended, of another version, with another count or with a repeated ID, is
  refused with an error, never a panic.
\<close>

theorem read_ids_file_exact:
  assumes "8 * n + 16 \<le> usize_max"
  shows "(read_ids_file data n = Ok ids \<longleftrightarrow>
      data = write_ids_file ids \<and> length ids = n \<and> distinct ids) \<and>
    read_ids_file data n \<noteq> Panic"
proof -
  have n: "n \<le> u64_max" "n * 8 + 16 \<le> usize_max" "unat (word_of_nat n :: u64) = n"
    using assms by (auto simp: u64_max_def usize_max_def unat_of_nat)
  have count: "unat c = n \<longleftrightarrow> c = word_of_nat n" for c :: u64
    by (simp add: word_unat_eq_iff n(3))
  have size: "(case checked_mul n 8 of None \<Rightarrow> None | Some b \<Rightarrow> checked_add b 16) = Some (n * 8 + 16)"
    using n(2) by (simp add: checked_mul_def checked_add_def)
  have run: "read_ids_file data n =
      (if length data < n * 8 + 16 then Err (io_err InvalidData ''truncated OrdinalDB ID sidecar'')
       else if n * 8 + 16 < length data then
         Err (io_err InvalidData ''trailing bytes in OrdinalDB ID sidecar'')
       else read_ids_body data n)"
    by (simp add: read_ids_file_def n(1) size)
  have head: "read_exact_invalid 8 data = Ok (take 8 data, drop 8 data)" if "length data = n * 8 + 16"
    using that by (simp add: read_exact_invalid_def)
  have body: "read_ids_body data n = Ok ids \<longleftrightarrow> take 8 data = ids_magic \<and>
      (\<exists>rest. drop 8 data = u64_to_le (word_of_nat n) @ rest \<and> read_ids n {} rest = Ok (ids, []))"
    if "length data = n * 8 + 16"
    unfolding read_ids_body_def head [OF that]
    by (auto simp: obind_eq_Ok read_u64_Ok count simp del: drop_eq_Nil split: if_splits)
  have total: "read_ids_body data n \<noteq> Panic" if "length data = n * 8 + 16"
    unfolding read_ids_body_def head [OF that]
    by (auto simp: obind_eq_Panic read_u64_not_Panic read_ids_not_Panic split: if_splits)
  have "read_ids_file data n = Ok ids \<longleftrightarrow>
      data = write_ids_file ids \<and> length ids = n \<and> distinct ids"
  proof (cases "length data = n * 8 + 16")
    case True
    then have eq: "read_ids_file data n = Ok ids \<longleftrightarrow> take 8 data = ids_magic \<and> length ids = n \<and>
        distinct ids \<and> drop 8 data = u64_to_le (word_of_nat n) @ concat (map u64_to_le ids)"
      by (auto simp: run body read_ids_Ok)
    show ?thesis
      unfolding eq write_ids_file_def
      by (metis append_eq_conv_conj append_take_drop_id length_ids_magic)
  next
    case False
    then show ?thesis by (auto simp: run length_write_ids_file)
  qed
  moreover have "read_ids_file data n \<noteq> Panic" using total by (simp add: run)
  ultimately show ?thesis by simp
qed

theorem read_ids_file_exact_witness:
  "read_ids_file (write_ids_file [5, 1, 18446744073709551615]) 3 = Ok [5, 1, 18446744073709551615]"
  using read_ids_file_exact [of 3 "write_ids_file [5, 1, 18446744073709551615]" "[5, 1, 18446744073709551615]"]
  by (simp add: usize_max_def)

end
