(* ===== verification/SparseBinding.thy ===== *)
theory SparseBinding
  imports SparseRoundtrip IdsFile
begin

text \<open>
  Binding a sparse sidecar to a verified bundle (\<open>validate_against_manifest\<close>,
  \<open>open_from_verified_plan_unchecked_freshness\<close> and \<open>read_ordinaldb_ids\<close> in
  \<open>ordinaldb-hybrid/src/sparse.rs\<close>). What the verified load plan of \<open>ordvec_manifest\<close> says is a record;
  the file at the path of its ID auxiliary is its bytes. How a kind is quoted in a message is the
  argument \<open>show_debug\<close>.
\<close>

section \<open>The ID sidecar, as the hybrid crate reads it\<close>

definition read_exact_row :: "nat \<Rightarrow> bytes \<Rightarrow> ('x hybrid_error, bytes \<times> bytes) outcome" where
  "read_exact_row n data =
     (if n \<le> length data then Ok (take n data, drop n data)
      else Err (RowIdError ''truncated verified OrdinalDB ID sidecar''))"

definition read_row_u64 :: "bytes \<Rightarrow> ('x hybrid_error, u64 \<times> bytes) outcome" where
  "read_row_u64 data = obind (read_exact_row 8 data) (\<lambda>(buf, rest). Ok (u64_from_le buf, rest))"

fun read_row_ids :: "nat \<Rightarrow> bytes \<Rightarrow> ('x hybrid_error, u64 list \<times> bytes) outcome" where
  "read_row_ids 0 data = Ok ([], data)"
| "read_row_ids (Suc n) data =
     obind (read_row_u64 data) (\<lambda>(i, rest). obind (read_row_ids n rest) (\<lambda>(ids, rest'). Ok (i # ids, rest')))"

definition read_ordinaldb_ids :: "bytes \<Rightarrow> nat \<Rightarrow> ('x hybrid_error, u64 list) outcome" where
  "read_ordinaldb_ids data expected_len =
     obind (ok_or (HybridLimit ''OrdinalDB ID sidecar row count exceeds u64::MAX'')
       (if expected_len \<le> u64_max then Some expected_len else None)) (\<lambda>expected_rows.
     obind (ok_or (HybridLimit ''OrdinalDB ID sidecar expected size overflow'')
       (case checked_mul expected_rows 8 of None \<Rightarrow> None | Some n \<Rightarrow> checked_add n 16)) (\<lambda>expected_file_size.
     if length data < expected_file_size then Err (RowIdError ''verified OrdinalDB ID sidecar is truncated'')
     else if expected_file_size < length data then
       Err (RowIdError ''verified OrdinalDB ID sidecar has trailing bytes'')
     else
       obind (read_exact_row 8 data) (\<lambda>(magic, data1).
       if magic \<noteq> ids_magic then Err (RowIdError ''verified OrdinalDB ID sidecar has invalid magic'')
       else obind (read_row_u64 data1) (\<lambda>(stored, data2).
       if unat stored \<noteq> expected_len then
         Err (RowIdError (''verified OrdinalDB ID sidecar count '' @ show_u64 stored @
           '' does not match sparse doc count '' @ show_nat expected_len))
       else obind (read_row_ids expected_len data2) (\<lambda>(ids, data3).
       if data3 \<noteq> [] then Err (RowIdError ''verified OrdinalDB ID sidecar has trailing bytes'')
       else Ok ids)))))"

section \<open>The binding\<close>

record load_plan =
  lp_vector_count :: nat
  lp_row_count :: nat
  lp_kind :: string
  lp_row_path :: "string option"
  lp_ids_auxiliary :: "bytes option option"

fun check_identity :: "nat \<Rightarrow> u64 list \<Rightarrow> ('x hybrid_error, unit) outcome" where
  "check_identity ordinal [] = Ok ()"
| "check_identity ordinal (r # rs) =
     (if r \<noteq> word_of_nat ordinal then
        Err (RowIdError (''sparse row_id '' @ show_u64 r @ '' at doc ordinal '' @ show_nat ordinal @
          '' does not match row_id_identity expected '' @ show_u64 (word_of_nat ordinal)))
      else check_identity (ordinal + 1) rs)"

definition validate_against_manifest ::
  "(string \<Rightarrow> string) \<Rightarrow> mmap_index \<Rightarrow> load_plan \<Rightarrow> ('x hybrid_error, unit) outcome" where
  "validate_against_manifest show_debug idx plan =
     (let n = hd_doc_count (mi_header idx) in
      if n \<noteq> lp_vector_count plan \<or> n \<noteq> lp_row_count plan then
        Err (RowIdError (''sparse row count '' @ show_nat n @ '' does not match verified manifest vector_count '' @
          show_nat (lp_vector_count plan) @ '' and row_identity row_count '' @ show_nat (lp_row_count plan)))
      else if lp_kind plan = ''row_id_identity'' then
        (case lp_ids_auxiliary plan of
           Some file_at \<Rightarrow>
             obind (ok_or (RowIdError (''verified '' @ show_debug ''ordinaldb.ids'' @ '' auxiliary has no loadable path''))
               file_at) (\<lambda>data.
             obind (read_ordinaldb_ids data n) (\<lambda>ids.
             if ids \<noteq> mi_doc_to_row_id idx then
               Err (RowIdError ''sparse row-id table does not match verified OrdinalDB ID sidecar'')
             else Ok ()))
         | None \<Rightarrow> check_identity 0 (mi_doc_to_row_id idx))
      else if lp_kind plan = ''jsonl'' then
        Err (RowIdError (''jsonl row identity sidecars are not supported for sparse row-id binding yet: '' @
          (case lp_row_path plan of None \<Rightarrow> ''<missing path>'' | Some path \<Rightarrow> path)))
      else Err (RowIdError (''unsupported verified row identity kind '' @ show_debug (lp_kind plan))))"

text \<open>\<open>sidecar\<close> is what \<open>require_auxiliary\<close> and opening its path yield: the bytes of the sparse file.\<close>

definition open_from_verified_plan ::
  "(bytes \<Rightarrow> string) \<Rightarrow> (string \<Rightarrow> string) \<Rightarrow> ('x hybrid_error, bytes) outcome \<Rightarrow> load_plan \<Rightarrow>
     ('x hybrid_error, mmap_index) outcome" where
  "open_from_verified_plan show_preview show_debug sidecar plan =
     obind sidecar (\<lambda>data.
     obind (open_index show_preview data) (\<lambda>idx.
     obind (validate_against_manifest show_debug idx plan) (\<lambda>_. Ok idx)))"

section \<open>What the binding accepts\<close>

lemma read_row_u64_Ok: "read_row_u64 data = Ok (x, rest) \<longleftrightarrow> data = u64_to_le x @ rest"
proof
  assume "read_row_u64 data = Ok (x, rest)"
  then have "8 \<le> length data" "x = u64_from_le (take 8 data)" "rest = drop 8 data"
    by (auto simp: read_row_u64_def read_exact_row_def outcome_simps split: if_splits)
  then show "data = u64_to_le x @ rest" using u64_codec.take_decode [of data] by simp
qed (simp add: read_row_u64_def read_exact_row_def u64_codec.length_encode u64_codec.decode_encode)

lemma read_row_ids_Ok:
  "read_row_ids n data = (Ok (ids, rest) :: ('x hybrid_error, _) outcome) \<longleftrightarrow>
     length ids = n \<and> data = concat (map u64_to_le ids) @ rest"
proof (induction n arbitrary: data ids)
  case (Suc n)
  have "read_row_ids (Suc n) data = (Ok (ids, rest) :: ('x hybrid_error, _) outcome) \<longleftrightarrow>
      (\<exists>x xs. ids = x # xs \<and> (\<exists>data'. data = u64_to_le x @ data' \<and>
        read_row_ids n data' = (Ok (xs, rest) :: ('x hybrid_error, _) outcome)))"
    by (auto simp: outcome_simps read_row_u64_Ok split: prod.splits)
  then show ?case by (cases ids) (auto simp: Suc.IH)
qed auto

lemma read_ordinaldb_ids_Ok:
  assumes "n * 8 + 16 \<le> usize_max"
  shows "read_ordinaldb_ids data n = (Ok ids :: ('x hybrid_error, _) outcome) \<longleftrightarrow>
    length ids = n \<and> data = write_ids_file ids"
proof -
  have n: "n \<le> u64_max" "unat (word_of_nat n :: u64) = n"
    using assms by (auto simp: u64_max_def usize_max_def unat_of_nat)
  have stored: "unat c = n \<longleftrightarrow> c = word_of_nat n" for c :: u64 by (simp add: word_unat_eq_iff n(2))
  have magic: "length ids_magic = 8" by (rule length_ids_magic)
  show ?thesis (is "?lhs \<longleftrightarrow> ?rhs")
  proof
    assume ?lhs
    then obtain data1 data2 where d: "length data = n * 8 + 16" "take 8 data = ids_magic"
      "read_row_u64 (drop 8 data) = (Ok (word_of_nat n, data2) :: ('x hybrid_error, _) outcome)"
      "read_row_ids n data2 = (Ok (ids, []) :: ('x hybrid_error, _) outcome)"
      using n(1) by (auto simp: read_ordinaldb_ids_def read_exact_row_def obind_eq_Ok stored split: if_splits option.splits)
    have "data = take 8 data @ drop 8 data" by simp
    then have "data = ids_magic @ u64_to_le (word_of_nat n) @ concat (map u64_to_le ids)"
      using d(2) read_row_u64_Ok [THEN iffD1, OF d(3)] read_row_ids_Ok [THEN iffD1, OF d(4)] by simp
    moreover have "length ids = n" using read_row_ids_Ok [THEN iffD1, OF d(4)] by simp
    ultimately show ?rhs by (simp add: write_ids_file_def)
  next
    assume r: ?rhs
    then have len: "length data = n * 8 + 16" by (simp add: length_write_ids_file)
    have head: "read_exact_row 8 data = (Ok (ids_magic, u64_to_le (word_of_nat n) @ concat (map u64_to_le ids)) :: ('x hybrid_error, _) outcome)"
      using r len magic by (simp add: read_exact_row_def write_ids_file_def)
    have "read_row_u64 (u64_to_le (word_of_nat n) @ concat (map u64_to_le ids)) =
        (Ok (word_of_nat n, concat (map u64_to_le ids)) :: ('x hybrid_error, _) outcome)"
      by (simp add: read_row_u64_Ok)
    moreover have "read_row_ids n (concat (map u64_to_le ids)) = (Ok (ids, []) :: ('x hybrid_error, _) outcome)"
      using r by (simp add: read_row_ids_Ok)
    ultimately show ?lhs
      using n assms len by (simp add: read_ordinaldb_ids_def head checked_mul_def checked_add_def)
  qed
qed

lemma check_identity_Ok:
  "check_identity k rs = Ok () \<longleftrightarrow> (\<forall>i<length rs. rs ! i = word_of_nat (k + i))"
proof (induction k rs rule: check_identity.induct)
  case (2 k r rs)
  have "(\<forall>i<length (r # rs). (r # rs) ! i = word_of_nat (k + i)) \<longleftrightarrow>
      r = word_of_nat k \<and> (\<forall>i<length rs. rs ! i = word_of_nat (k + 1 + i))"
    by (auto simp: All_less_Suc2 simp del: of_nat_Suc of_nat_add)
  then show ?case using 2 by (auto simp del: of_nat_Suc of_nat_add)
qed simp

text \<open>
  The binding of a sparse sidecar to a verified bundle is exact: an opened sidecar is accepted iff
  its document count is that of the primary index and of the row identity, the identity is
  \<open>row_id_identity\<close>, and either the bundle has an ID auxiliary and it is, byte for byte, the file that
  the dense crate's \<open>write_ids_file\<close> writes for the sidecar's row IDs in order, or it has none and the
  row IDs are the ordinals.
\<close>

theorem sidecar_binding_exact:
  assumes "open_index show_preview data = (Ok idx :: ('x hybrid_error, _) outcome)"
  shows "validate_against_manifest show_debug idx plan = (Ok () :: ('x hybrid_error, unit) outcome) \<longleftrightarrow>
    hd_doc_count (mi_header idx) = lp_vector_count plan \<and> hd_doc_count (mi_header idx) = lp_row_count plan \<and>
    lp_kind plan = ''row_id_identity'' \<and>
    (case lp_ids_auxiliary plan of
       Some file_at \<Rightarrow> file_at = Some (write_ids_file (mi_doc_to_row_id idx))
     | None \<Rightarrow> \<forall>i<length (mi_doc_to_row_id idx). mi_doc_to_row_id idx ! i = word_of_nat i)"
proof -
  obtain ts where o: "opened idx (mi_doc_to_row_id idx) ts" using open_opened [OF assms] by blast
  have n: "length (mi_doc_to_row_id idx) = hd_doc_count (mi_header idx)" "hd_doc_count (mi_header idx) \<le> max_u32"
    using opened_rows(1,6) [OF o] by simp_all
  then have "hd_doc_count (mi_header idx) * 8 + 16 \<le> usize_max" by (simp add: max_u32_def usize_max_def)
  note ids = read_ordinaldb_ids_Ok [OF this, where 'x = 'x]
  show ?thesis
  proof (cases "lp_vector_count plan = hd_doc_count (mi_header idx) \<and> lp_row_count plan = hd_doc_count (mi_header idx) \<and>
      lp_kind plan = ''row_id_identity''")
    case False
    then show ?thesis by (auto simp: validate_against_manifest_def Let_def)
  next
    case True
    show ?thesis
    proof (cases "lp_ids_auxiliary plan")
      case None
      then show ?thesis
        using True check_identity_Ok [of 0 "mi_doc_to_row_id idx"] by (simp add: validate_against_manifest_def Let_def)
    next
      case (Some file_at)
      have "validate_against_manifest show_debug idx plan = (Ok () :: ('x hybrid_error, unit) outcome) \<longleftrightarrow>
          (\<exists>data. file_at = Some data \<and> read_ordinaldb_ids data (hd_doc_count (mi_header idx)) =
            (Ok (mi_doc_to_row_id idx) :: ('x hybrid_error, _) outcome))"
        using True Some by (auto simp: validate_against_manifest_def Let_def obind_eq_Ok ok_or_eq_Ok split: if_splits)
      then show ?thesis using True Some n(1) by (simp add: ids)
    qed
  qed
qed

theorem sidecar_binding_exact_witness:
  "validate_against_manifest (\<lambda>s. s) (image_index (built_spec Simple (bd_docs ex_builder)))
     \<lparr>lp_vector_count = 1, lp_row_count = 1, lp_kind = ''row_id_identity'', lp_row_path = None,
      lp_ids_auxiliary = Some (Some (write_ids_file [7]))\<rparr> = (Ok () :: (unit hybrid_error, unit) outcome)"
  unfolding sidecar_binding_exact [OF open_image(1) [OF ex_good]]
  by (simp add: image_index_def image_header_def Let_def ex_spec)

end
