(* ===== verification/StorePayloads.thy ===== *)
theory StorePayloads
  imports StorePaths
begin

text \<open>
  The four JSON payloads of an adapter store (\<open>ordinaldb-adapter-store/src/lib.rs\<close>), their parsed
  form with the identifier maps, and the checks of the maps against each other and against the
  active generation. A \<open>HashMap\<close> is the list of its entries in the order in which it is iterated;
  the orders are an argument.
\<close>

section \<open>Payloads\<close>

record legacy_payloads =
  adapter_json :: string
  id_map_json :: string
  documents_json :: string
  metadata_json :: string

record parsed_payloads =
  pp_adapter_name :: string
  pp_bits :: u8
  pp_dim :: "u64 option"
  pp_empty_lazy :: bool
  pp_index_path :: string
  pp_string_to_u64 :: "(string \<times> u64) list"
  pp_u64_to_slot :: "(u64 \<times> u64) list"
  pp_documents :: "(string \<times> string) list"
  pp_metadata :: "(string \<times> json) list"
  pp_next_u64_id :: u64

record hash_orders =
  ho_ids :: "(string \<times> u64) list \<Rightarrow> (string \<times> u64) list"
  ho_slots :: "(u64 \<times> u64) list \<Rightarrow> (u64 \<times> u64) list"
  ho_documents :: "(string \<times> string) list \<Rightarrow> (string \<times> string) list"
  ho_metadata :: "(string \<times> json) list \<Rightarrow> (string \<times> json) list"

definition orders_ok :: "hash_orders \<Rightarrow> bool" where
  "orders_ok ho \<longleftrightarrow>
     (\<forall>m. mset (ho_ids ho m) = mset m) \<and> (\<forall>m. mset (ho_slots ho m) = mset m) \<and>
     (\<forall>m. mset (ho_documents ho m) = mset m) \<and> (\<forall>m. mset (ho_metadata ho m) = mset m)"

definition hash_insert :: "'k \<Rightarrow> 'v \<Rightarrow> ('k \<times> 'v) list \<Rightarrow> ('k \<times> 'v) list" where
  "hash_insert k v m = (k, v) # filter (\<lambda>(k', _). k' \<noteq> k) m"

definition ADAPTER_SCHEMA_VERSION :: string where
  "ADAPTER_SCHEMA_VERSION = ''ordinaldb.adapter.v1''"

definition ID_MAP_SCHEMA_VERSION :: string where
  "ID_MAP_SCHEMA_VERSION = ''ordinaldb.adapter.id_map.v1''"

definition DOCUMENTS_SCHEMA_VERSION :: string where
  "DOCUMENTS_SCHEMA_VERSION = ''ordinaldb.adapter.documents.v1''"

definition METADATA_SCHEMA_VERSION :: string where
  "METADATA_SCHEMA_VERSION = ''ordinaldb.adapter.metadata.v1''"

section \<open>Parsing\<close>

definition required_bits :: "json \<Rightarrow> (store_error, u8) outcome" where
  "required_bits v =
     obind (required_u64 v ''bits'') (\<lambda>bits.
     if bits \<notin> {1, 2, 4} then Err ''bits must be one of 1, 2, or 4'' else Ok (ucast bits))"

definition optional_dim :: "json \<Rightarrow> (store_error, u64 option) outcome" where
  "optional_dim v =
     (case jget v ''dim'' of
        Some JNull \<Rightarrow> Ok None
      | None \<Rightarrow> Ok None
      | Some d \<Rightarrow>
          obind (ok_or ''dim must be a positive integer or null'' (as_u64 d)) (\<lambda>dim.
          if dim = 0 then Err ''dim must be positive'' else Ok (Some dim)))"

definition require_non_empty_string_id :: "string \<Rightarrow> (store_error, unit) outcome" where
  "require_non_empty_string_id s = (if s = [] then Err ''string IDs must be non-empty'' else Ok ())"

fun parse_entries :: "(string \<Rightarrow> json \<Rightarrow> (store_error, 'k \<times> 'v) outcome) \<Rightarrow> (string \<times> json) list \<Rightarrow>
    ('k \<times> 'v) list \<Rightarrow> (store_error, ('k \<times> 'v) list) outcome" where
  "parse_entries f [] out = Ok out"
| "parse_entries f ((key, v) # m) out =
     obind (f key v) (\<lambda>(k, x). parse_entries f m (hash_insert k x out))"

definition string_to_u64_entry :: "string \<Rightarrow> json \<Rightarrow> (store_error, string \<times> u64) outcome" where
  "string_to_u64_entry key v =
     obind (require_non_empty_string_id key) (\<lambda>_.
     obind (ok_or ''string_to_u64 values must be u64'' (as_u64 v)) (\<lambda>u64_id.
     Ok (key, u64_id)))"

definition parse_string_to_u64 :: "(string \<times> json) list \<Rightarrow> (store_error, (string \<times> u64) list) outcome" where
  "parse_string_to_u64 m = parse_entries string_to_u64_entry m []"

definition u64_to_slot_entry :: "json_env \<Rightarrow> string \<Rightarrow> json \<Rightarrow> (store_error, u64 \<times> u64) outcome" where
  "u64_to_slot_entry je key v =
     obind (ok_or (''u64_to_slot key '' @ je_debug je key @ '' is not u64'') (parse_uint u64_max key)) (\<lambda>u64_id.
     obind (ok_or ''u64_to_slot values must be slots'' (as_u64 v)) (\<lambda>slot.
     Ok (of_nat u64_id, slot)))"

definition parse_u64_to_slot :: "json_env \<Rightarrow> (string \<times> json) list \<Rightarrow> (store_error, (u64 \<times> u64) list) outcome" where
  "parse_u64_to_slot je m = parse_entries (u64_to_slot_entry je) m []"

definition documents_entry :: "string \<Rightarrow> json \<Rightarrow> (store_error, string \<times> string) outcome" where
  "documents_entry key v =
     obind (require_non_empty_string_id key) (\<lambda>_.
     obind (ok_or ''document values must be strings'' (as_str v)) (\<lambda>document.
     Ok (key, document)))"

definition parse_documents :: "(string \<times> json) list \<Rightarrow> (store_error, (string \<times> string) list) outcome" where
  "parse_documents m = parse_entries documents_entry m []"

definition is_object :: "json \<Rightarrow> bool" where
  "is_object v \<longleftrightarrow> as_object v \<noteq> None"

definition metadata_entry :: "string \<Rightarrow> json \<Rightarrow> (store_error, string \<times> json) outcome" where
  "metadata_entry key v =
     obind (require_non_empty_string_id key) (\<lambda>_.
     if \<not> is_object v then Err ''metadata values must be JSON objects'' else Ok (key, v))"

definition parse_metadata :: "(string \<times> json) list \<Rightarrow> (store_error, (string \<times> json) list) outcome" where
  "parse_metadata m = parse_entries metadata_entry m []"

fun validate_ids :: "u64 \<Rightarrow> (string \<times> u64) list \<Rightarrow> u64 list \<Rightarrow> (store_error, u64 list) outcome" where
  "validate_ids next_id [] seen = Ok seen"
| "validate_ids next_id ((string_id, u64_id) # m) seen =
     obind (require_non_empty_string_id string_id) (\<lambda>_.
     if u64_id \<in> set seen then Err (''duplicate u64 id '' @ show_nat (unat u64_id))
     else if u64_id \<ge> next_id then Err ''next_u64_id must be greater than all allocated IDs''
     else validate_ids next_id m (u64_id # seen))"

fun validate_slots :: "(u64 \<times> u64) list \<Rightarrow> u64 list \<Rightarrow> (store_error, unit) outcome" where
  "validate_slots [] seen = Ok ()"
| "validate_slots ((_, slot) # m) seen =
     (if slot \<in> set seen then Err (''duplicate vector slot '' @ show_nat (unat slot))
      else validate_slots m (slot # seen))"

definition keys_of :: "('k \<times> 'v) list \<Rightarrow> 'k set" where
  "keys_of m = set (map fst m)"

definition validate_maps :: "parsed_payloads \<Rightarrow> (store_error, unit) outcome" where
  "validate_maps p =
     (if keys_of (pp_documents p) \<noteq> keys_of (pp_string_to_u64 p) then
        Err ''documents keys do not match string_to_u64 keys''
      else if keys_of (pp_metadata p) \<noteq> keys_of (pp_string_to_u64 p) then
        Err ''metadata keys do not match string_to_u64 keys''
      else
        obind (validate_ids (pp_next_u64_id p) (pp_string_to_u64 p) []) (\<lambda>seen_u64.
        if keys_of (pp_u64_to_slot p) \<noteq> set seen_u64 then
          Err ''u64_to_slot keys do not match string_to_u64 values''
        else validate_slots (pp_u64_to_slot p) []))"

definition adapter_keys :: "string list" where
  "adapter_keys = [''schema_version'', ''adapter'', ''bits'', ''dim'', ''empty_lazy'', ''index_path'', ''sidecars'']"

definition id_map_keys :: "string list" where
  "id_map_keys = [''schema_version'', ''next_u64_id'', ''string_to_u64'', ''u64_to_slot'']"

definition parse_payloads :: "json_env \<Rightarrow> hash_orders \<Rightarrow> legacy_payloads \<Rightarrow> (store_error, parsed_payloads) outcome" where
  "parse_payloads je ho payloads =
     obind (parse_json_object je (adapter_json payloads) ''adapter.json'') (\<lambda>adapter.
     obind (parse_json_object je (id_map_json payloads) ''id_map.json'') (\<lambda>id_map.
     obind (parse_json_object je (documents_json payloads) ''documents.json'') (\<lambda>documents.
     obind (parse_json_object je (metadata_json payloads) ''metadata.json'') (\<lambda>metadata.
     obind (require_exact_keys je adapter ''adapter.json'' adapter_keys) (\<lambda>_.
     obind (require_exact_keys je id_map ''id_map.json'' id_map_keys) (\<lambda>_.
     obind (require_exact_keys je documents ''documents.json'' [''schema_version'', ''documents'']) (\<lambda>_.
     obind (require_exact_keys je metadata ''metadata.json'' [''schema_version'', ''metadata'']) (\<lambda>_.
     obind (require_schema je adapter ADAPTER_SCHEMA_VERSION ''adapter.json'') (\<lambda>_.
     obind (require_schema je id_map ID_MAP_SCHEMA_VERSION ''id_map.json'') (\<lambda>_.
     obind (require_schema je documents DOCUMENTS_SCHEMA_VERSION ''documents.json'') (\<lambda>_.
     obind (require_schema je metadata METADATA_SCHEMA_VERSION ''metadata.json'') (\<lambda>_.
     obind (required_string adapter ''adapter'') (\<lambda>adapter_name.
     obind (required_bits adapter) (\<lambda>bits.
     obind (optional_dim adapter) (\<lambda>dim.
     obind (required_bool adapter ''empty_lazy'') (\<lambda>empty_lazy.
     obind (required_string adapter ''index_path'') (\<lambda>index_path.
     obind (validate_index_path je index_path) (\<lambda>_.
     obind (obind (required_object id_map ''string_to_u64'') parse_string_to_u64) (\<lambda>string_to_u64.
     obind (obind (required_object id_map ''u64_to_slot'') (parse_u64_to_slot je)) (\<lambda>u64_to_slot.
     obind (required_u64 id_map ''next_u64_id'') (\<lambda>next_u64_id.
     obind (obind (required_object documents ''documents'') parse_documents) (\<lambda>docs.
     obind (obind (required_object metadata ''metadata'') parse_metadata) (\<lambda>metas.
     let parsed =
       \<lparr>pp_adapter_name = adapter_name, pp_bits = bits, pp_dim = dim, pp_empty_lazy = empty_lazy,
        pp_index_path = index_path, pp_string_to_u64 = ho_ids ho string_to_u64,
        pp_u64_to_slot = ho_slots ho u64_to_slot, pp_documents = ho_documents ho docs,
        pp_metadata = ho_metadata ho metas, pp_next_u64_id = next_u64_id\<rparr>
     in obind (validate_maps parsed) (\<lambda>_. Ok parsed))))))))))))))))))))))))"

definition u64_for_string :: "parsed_payloads \<Rightarrow> string \<Rightarrow> (store_error, u64) outcome" where
  "u64_for_string p string_id =
     ok_or ''string ID missing from string_to_u64'' (map_of (pp_string_to_u64 p) string_id)"

section \<open>The active generation\<close>

record generation_checkpoint =
  g_id :: u64
  g_path :: string
  g_empty_lazy :: bool
  g_bits :: u8
  g_dim :: u64
  g_vector_count :: u64
  g_manifest_sha256 :: "string option"
  g_manifest_size_bytes :: "u64 option"
  g_json :: json

fun validate_stale_slots :: "u64 \<Rightarrow> (u64 \<times> u64) list \<Rightarrow> (store_error, unit) outcome" where
  "validate_stale_slots n [] = Ok ()"
| "validate_stale_slots n ((u64_id, slot) # m) =
     (if slot \<ge> n then
        Err (''u64 id '' @ show_nat (unat u64_id) @ '' points at stale slot '' @ show_nat (unat slot))
      else validate_stale_slots n m)"

definition validate_against_generation :: "parsed_payloads \<Rightarrow> generation_checkpoint \<Rightarrow> (store_error, unit) outcome" where
  "validate_against_generation p g =
     (if pp_empty_lazy p \<noteq> g_empty_lazy g then Err ''empty_lazy generation mismatch''
      else if pp_empty_lazy p then
        (if pp_dim p \<noteq> None then Err ''empty_lazy adapter store must have dim=null''
         else if pp_string_to_u64 p \<noteq> [] \<or> pp_u64_to_slot p \<noteq> [] \<or> pp_documents p \<noteq> [] \<or> pp_metadata p \<noteq> [] then
           Err ''empty_lazy adapter store must not contain records''
         else Ok ())
      else if pp_index_path p \<noteq> g_path g then Err ''adapter index path mismatch''
      else if pp_bits p \<noteq> g_bits g then Err ''adapter bits do not match generation bits''
      else if pp_dim p \<noteq> Some (g_dim g) then Err ''adapter dim does not match generation dim''
      else if length (pp_string_to_u64 p) \<noteq> unat (g_vector_count g) \<or> length (pp_u64_to_slot p) \<noteq> unat (g_vector_count g) then
        Err (''adapter id count does not match generation vector count '' @ show_nat (unat (g_vector_count g)))
      else validate_stale_slots (g_vector_count g) (pp_u64_to_slot p))"

section \<open>The invariant of parsed payloads\<close>

text \<open>
  What a parsed payload satisfies: the identifier maps are inverse to each other and below the
  watermark, documents and metadata belong to exactly the active identifiers, and slots are distinct.
\<close>

definition payloads_ok :: "parsed_payloads \<Rightarrow> bool" where
  "payloads_ok p \<longleftrightarrow>
     distinct (map fst (pp_string_to_u64 p)) \<and> distinct (map snd (pp_string_to_u64 p)) \<and>
     [] \<notin> keys_of (pp_string_to_u64 p) \<and>
     (\<forall>u64_id\<in>snd ` set (pp_string_to_u64 p). u64_id < pp_next_u64_id p) \<and>
     distinct (map fst (pp_u64_to_slot p)) \<and> distinct (map snd (pp_u64_to_slot p)) \<and>
     keys_of (pp_u64_to_slot p) = snd ` set (pp_string_to_u64 p) \<and>
     distinct (map fst (pp_documents p)) \<and> keys_of (pp_documents p) = keys_of (pp_string_to_u64 p) \<and>
     distinct (map fst (pp_metadata p)) \<and> keys_of (pp_metadata p) = keys_of (pp_string_to_u64 p) \<and>
     (\<forall>v\<in>snd ` set (pp_metadata p). is_object v \<and> json_ok v) \<and>
     pp_bits p \<in> {1, 2, 4} \<and> pp_dim p \<noteq> Some 0"

lemma keys_of_simps [simp]: "keys_of [] = {}" "keys_of ((k, v) # m) = insert k (keys_of m)"
  by (simp_all add: keys_of_def)

lemma keys_of_dom: "dom (map_of m) = keys_of m"
  by (simp add: keys_of_def dom_map_of_conv_image_fst)

lemma hash_insert_distinct: "distinct (map fst m) \<Longrightarrow> distinct (map fst (hash_insert k v m))"
  by (induction m) (auto simp: hash_insert_def)

lemma map_of_hash_insert [simp]: "map_of (hash_insert k v m) = (map_of m)(k \<mapsto> v)"
proof -
  have "map_of (filter (\<lambda>(k', _). k' \<noteq> k) m) x = (if x = k then None else map_of m x)" for x
    by (induction m) auto
  then show ?thesis by (auto simp: hash_insert_def)
qed

lemma hash_insert_set: "set (hash_insert k v m) \<subseteq> insert (k, v) (set m)"
  by (auto simp: hash_insert_def)

lemma parse_entries_distinct:
  "parse_entries f m out = Ok r \<Longrightarrow> distinct (map fst out) \<Longrightarrow> distinct (map fst r)"
  by (induction f m out rule: parse_entries.induct) (auto simp: obind_eq_Ok hash_insert_distinct)

lemma parse_entries_values:
  "parse_entries f m out = Ok r \<Longrightarrow> \<forall>(k, x)\<in>set out. P k x \<Longrightarrow>
     \<forall>(key, v)\<in>set m. \<forall>k x. f key v = Ok (k, x) \<longrightarrow> P k x \<Longrightarrow> \<forall>(k, x)\<in>set r. P k x"
proof (induction f m out rule: parse_entries.induct)
  case (2 f key v m out)
  obtain k x where k: "f key v = Ok (k, x)" "parse_entries f m (hash_insert k x out) = Ok r"
    using "2.prems"(1) by (auto simp: obind_eq_Ok)
  have "\<forall>(k, x)\<in>set (hash_insert k x out). P k x"
    using "2.prems"(2,3) k(1) hash_insert_set [of k x out] by fastforce
  then show ?case using "2.IH" [OF k(2)] "2.prems"(3) by simp
qed simp

lemma require_non_empty_Ok [simp]: "require_non_empty_string_id s = Ok u \<longleftrightarrow> s \<noteq> []"
  by (simp add: require_non_empty_string_id_def)

lemma validate_ids_Ok:
  "validate_ids next_id m seen = Ok r \<longleftrightarrow>
     [] \<notin> keys_of m \<and> distinct (map snd m) \<and> snd ` set m \<inter> set seen = {} \<and>
     (\<forall>i\<in>snd ` set m. i < next_id) \<and> r = rev (map snd m) @ seen"
  by (induction next_id m seen rule: validate_ids.induct) (auto simp: obind_eq_Ok)

lemma validate_slots_Ok:
  "validate_slots m seen = Ok u \<longleftrightarrow> distinct (map snd m) \<and> snd ` set m \<inter> set seen = {}"
  by (induction m seen rule: validate_slots.induct) auto

lemma validate_maps_Ok:
  "validate_maps p = Ok u \<longleftrightarrow>
     keys_of (pp_documents p) = keys_of (pp_string_to_u64 p) \<and> keys_of (pp_metadata p) = keys_of (pp_string_to_u64 p) \<and>
     [] \<notin> keys_of (pp_string_to_u64 p) \<and> distinct (map snd (pp_string_to_u64 p)) \<and>
     (\<forall>i\<in>snd ` set (pp_string_to_u64 p). i < pp_next_u64_id p) \<and>
     keys_of (pp_u64_to_slot p) = snd ` set (pp_string_to_u64 p) \<and> distinct (map snd (pp_u64_to_slot p))"
  by (auto simp: validate_maps_def obind_eq_Ok validate_ids_Ok validate_slots_Ok)

lemma validate_stale_slots_Ok: "validate_stale_slots n m = Ok u \<longleftrightarrow> (\<forall>s\<in>snd ` set m. s < n)"
  by (induction n m rule: validate_stale_slots.induct) auto

lemma mset_map_distinct:
  assumes "mset xs = mset ys" and "distinct (map f ys)"
  shows "distinct (map f xs)"
proof -
  have "mset (map f xs) = mset (map f ys)" using assms(1) by simp
  then show ?thesis using assms(2) by (metis mset_eq_imp_distinct_iff)
qed

lemma orders_okD:
  assumes "orders_ok ho"
  shows "mset (ho_ids ho a) = mset a" "mset (ho_slots ho b) = mset b"
    "mset (ho_documents ho c) = mset c" "mset (ho_metadata ho d) = mset d"
  using assms by (simp_all add: orders_ok_def)

lemma object_members_ok: "json_ok v \<Longrightarrow> jget v field = Some w \<Longrightarrow> json_ok w"
  by (cases v) (auto simp: list_all_iff dest: map_of_SomeD)

lemma as_object_Some [simp]: "as_object v = Some m \<longleftrightarrow> v = JObject m"
  by (cases v) simp_all

lemma as_u64_Some [simp]: "as_u64 v = Some n \<longleftrightarrow> v = JNumber (PosInt n)"
  by (induction v rule: as_u64.induct) auto

lemma as_str_Some [simp]: "as_str v = Some s \<longleftrightarrow> v = JString s"
  by (cases v) simp_all

lemma as_bool_Some [simp]: "as_bool v = Some b \<longleftrightarrow> v = JBool b"
  by (cases v) simp_all

lemma required_object_ok:
  "required_object v field = Ok m \<Longrightarrow> json_ok v \<Longrightarrow> btree_ok m \<and> (\<forall>(k, w)\<in>set m. json_ok w)"
  using object_members_ok [of v field]
  by (auto simp: required_object_def ok_or_eq_Ok bind_eq_Some_conv list_all_iff)

lemma required_bits_Ok: "required_bits v = Ok b \<Longrightarrow> b \<in> {1, 2, 4}"
  by (auto simp: required_bits_def obind_eq_Ok split: if_splits)

lemma optional_dim_Ok: "optional_dim v = Ok d \<Longrightarrow> d \<noteq> Some 0"
  by (auto simp: optional_dim_def obind_eq_Ok split: option.splits json.splits if_splits)

text \<open>The parts of a parse.\<close>

definition adapter_fields :: "json_env \<Rightarrow> json \<Rightarrow> parsed_payloads \<Rightarrow> bool" where
  "adapter_fields je v p \<longleftrightarrow>
     require_exact_keys je v ''adapter.json'' adapter_keys = Ok () \<and>
     require_schema je v ADAPTER_SCHEMA_VERSION ''adapter.json'' = Ok () \<and>
     required_string v ''adapter'' = Ok (pp_adapter_name p) \<and> required_bits v = Ok (pp_bits p) \<and>
     optional_dim v = Ok (pp_dim p) \<and> required_bool v ''empty_lazy'' = Ok (pp_empty_lazy p) \<and>
     required_string v ''index_path'' = Ok (pp_index_path p) \<and> validate_index_path je (pp_index_path p) = Ok ()"

definition id_map_fields :: "json_env \<Rightarrow> hash_orders \<Rightarrow> json \<Rightarrow> parsed_payloads \<Rightarrow> bool" where
  "id_map_fields je ho v p \<longleftrightarrow>
     require_exact_keys je v ''id_map.json'' id_map_keys = Ok () \<and>
     require_schema je v ID_MAP_SCHEMA_VERSION ''id_map.json'' = Ok () \<and>
     (\<exists>m ids. required_object v ''string_to_u64'' = Ok m \<and> parse_string_to_u64 m = Ok ids \<and>
        pp_string_to_u64 p = ho_ids ho ids) \<and>
     (\<exists>m slots. required_object v ''u64_to_slot'' = Ok m \<and> parse_u64_to_slot je m = Ok slots \<and>
        pp_u64_to_slot p = ho_slots ho slots) \<and>
     required_u64 v ''next_u64_id'' = Ok (pp_next_u64_id p)"

definition documents_fields :: "json_env \<Rightarrow> hash_orders \<Rightarrow> json \<Rightarrow> parsed_payloads \<Rightarrow> bool" where
  "documents_fields je ho v p \<longleftrightarrow>
     require_exact_keys je v ''documents.json'' [''schema_version'', ''documents''] = Ok () \<and>
     require_schema je v DOCUMENTS_SCHEMA_VERSION ''documents.json'' = Ok () \<and>
     (\<exists>m docs. required_object v ''documents'' = Ok m \<and> parse_documents m = Ok docs \<and>
        pp_documents p = ho_documents ho docs)"

definition metadata_fields :: "json_env \<Rightarrow> hash_orders \<Rightarrow> json \<Rightarrow> parsed_payloads \<Rightarrow> bool" where
  "metadata_fields je ho v p \<longleftrightarrow>
     require_exact_keys je v ''metadata.json'' [''schema_version'', ''metadata''] = Ok () \<and>
     require_schema je v METADATA_SCHEMA_VERSION ''metadata.json'' = Ok () \<and>
     (\<exists>m metas. required_object v ''metadata'' = Ok m \<and> parse_metadata m = Ok metas \<and>
        pp_metadata p = ho_metadata ho metas)"

lemma parsed_payloads_eta:
  "\<lparr>pp_adapter_name = pp_adapter_name p, pp_bits = pp_bits p, pp_dim = pp_dim p, pp_empty_lazy = pp_empty_lazy p,
    pp_index_path = pp_index_path p, pp_string_to_u64 = pp_string_to_u64 p, pp_u64_to_slot = pp_u64_to_slot p,
    pp_documents = pp_documents p, pp_metadata = pp_metadata p, pp_next_u64_id = pp_next_u64_id p\<rparr> = p"
  by (cases p) simp

lemma parse_payloads_I:
  assumes "parse_json_object je (adapter_json payloads) ''adapter.json'' = Ok adapter"
    and "parse_json_object je (id_map_json payloads) ''id_map.json'' = Ok id_map"
    and "parse_json_object je (documents_json payloads) ''documents.json'' = Ok documents"
    and "parse_json_object je (metadata_json payloads) ''metadata.json'' = Ok metadata"
    and "adapter_fields je adapter p" and "id_map_fields je ho id_map p"
    and "documents_fields je ho documents p" and "metadata_fields je ho metadata p" and "validate_maps p = Ok ()"
  shows "parse_payloads je ho payloads = Ok p"
proof -
  obtain m1 ids m2 slots where i: "required_object id_map ''string_to_u64'' = Ok m1" "parse_string_to_u64 m1 = Ok ids"
      "pp_string_to_u64 p = ho_ids ho ids" "required_object id_map ''u64_to_slot'' = Ok m2"
      "parse_u64_to_slot je m2 = Ok slots" "pp_u64_to_slot p = ho_slots ho slots"
    using assms(6) unfolding id_map_fields_def by (elim conjE exE) (rule that)
  obtain m3 docs where d: "required_object documents ''documents'' = Ok m3" "parse_documents m3 = Ok docs"
      "pp_documents p = ho_documents ho docs"
    using assms(7) unfolding documents_fields_def by (elim conjE exE) (rule that)
  obtain m4 metas where m: "required_object metadata ''metadata'' = Ok m4" "parse_metadata m4 = Ok metas"
      "pp_metadata p = ho_metadata ho metas"
    using assms(8) unfolding metadata_fields_def by (elim conjE exE) (rule that)
  have fields: "require_exact_keys je adapter ''adapter.json'' adapter_keys = Ok ()"
      "require_schema je adapter ADAPTER_SCHEMA_VERSION ''adapter.json'' = Ok ()"
      "required_string adapter ''adapter'' = Ok (pp_adapter_name p)" "required_bits adapter = Ok (pp_bits p)"
      "optional_dim adapter = Ok (pp_dim p)" "required_bool adapter ''empty_lazy'' = Ok (pp_empty_lazy p)"
      "required_string adapter ''index_path'' = Ok (pp_index_path p)" "validate_index_path je (pp_index_path p) = Ok ()"
      "require_exact_keys je id_map ''id_map.json'' id_map_keys = Ok ()"
      "require_schema je id_map ID_MAP_SCHEMA_VERSION ''id_map.json'' = Ok ()"
      "required_u64 id_map ''next_u64_id'' = Ok (pp_next_u64_id p)"
      "require_exact_keys je documents ''documents.json'' [''schema_version'', ''documents''] = Ok ()"
      "require_schema je documents DOCUMENTS_SCHEMA_VERSION ''documents.json'' = Ok ()"
      "require_exact_keys je metadata ''metadata.json'' [''schema_version'', ''metadata''] = Ok ()"
      "require_schema je metadata METADATA_SCHEMA_VERSION ''metadata.json'' = Ok ()"
    using assms(5-8)
    by (simp_all only: adapter_fields_def id_map_fields_def documents_fields_def metadata_fields_def simp_thms)
  show ?thesis
    unfolding parse_payloads_def assms(1-4) obind.simps fields i(1,2,4,5) d(1,2) m(1,2) Let_def
      i(3,6) [symmetric] d(3) [symmetric] m(3) [symmetric] parsed_payloads_eta
    by (simp add: assms(9))
qed

lemma parse_payloads_D:
  assumes "parse_payloads je ho payloads = Ok p"
  shows "\<exists>adapter id_map documents metadata.
        parse_json_object je (adapter_json payloads) ''adapter.json'' = Ok adapter \<and>
        parse_json_object je (id_map_json payloads) ''id_map.json'' = Ok id_map \<and>
        parse_json_object je (documents_json payloads) ''documents.json'' = Ok documents \<and>
        parse_json_object je (metadata_json payloads) ''metadata.json'' = Ok metadata \<and>
        adapter_fields je adapter p \<and> id_map_fields je ho id_map p \<and>
        documents_fields je ho documents p \<and> metadata_fields je ho metadata p \<and> validate_maps p = Ok ()"
  using assms unfolding parse_payloads_def obind_eq_Ok Let_def
  apply (elim exE conjE)
  apply (intro exI)
  apply (rule conjI, assumption)+
  apply (hypsubst_thin?)
  apply (simp only: adapter_fields_def id_map_fields_def documents_fields_def metadata_fields_def outcome.inject)
  apply (drule sym [where t = p])
  apply (simp only: parsed_payloads.simps)
  apply (assumption | rule conjI exI refl | (clarsimp; fail))+
  done

lemma map_mset_eq:
  assumes "mset xs = mset ys"
  shows "set xs = set ys" "keys_of xs = keys_of ys" "snd ` set xs = snd ` set ys" "length xs = length ys"
proof -
  show "set xs = set ys" by (rule mset_eq_setD [OF assms])
  then show "keys_of xs = keys_of ys" "snd ` set xs = snd ` set ys" by (simp_all add: keys_of_def)
  show "length xs = length ys" by (rule mset_eq_length [OF assms])
qed

lemma mset_map_of: "mset xs = mset ys \<Longrightarrow> distinct (map fst ys) \<Longrightarrow> map_of xs = map_of ys"
  using mset_map_distinct [of xs ys fst] mset_eq_setD [of xs ys] by (metis map_of_inject_set)

lemma parse_payloads_valid:
  assumes "parse_payloads je ho payloads = Ok p" and ho: "orders_ok ho"
  shows "payloads_ok p" and "validate_index_path je (pp_index_path p) = Ok ()"
proof -
  obtain adapter id_map documents metadata where
      m: "parse_json_object je (metadata_json payloads) ''metadata.json'' = Ok metadata" and
      fields: "adapter_fields je adapter p" "id_map_fields je ho id_map p" "documents_fields je ho documents p"
        "metadata_fields je ho metadata p" "validate_maps p = Ok ()"
    using parse_payloads_D [OF assms(1)] by blast
  obtain ids slots m1 m2 where ids: "parse_string_to_u64 m1 = Ok ids" "pp_string_to_u64 p = ho_ids ho ids"
      and slots: "parse_u64_to_slot je m2 = Ok slots" "pp_u64_to_slot p = ho_slots ho slots"
    using fields(2) by (auto simp: id_map_fields_def)
  obtain docs m3 where docs: "parse_documents m3 = Ok docs" "pp_documents p = ho_documents ho docs"
    using fields(3) by (auto simp: documents_fields_def)
  obtain metas m4 where metas: "required_object metadata ''metadata'' = Ok m4" "parse_metadata m4 = Ok metas"
      "pp_metadata p = ho_metadata ho metas"
    using fields(4) by (auto simp: metadata_fields_def)
  have "json_ok metadata" using parse_object_ok [OF m] by blast
  then have m4: "\<forall>(k, w)\<in>set m4. json_ok w" using required_object_ok [OF metas(1)] by blast
  have distinct: "distinct (map fst (pp_string_to_u64 p))" "distinct (map fst (pp_u64_to_slot p))"
      "distinct (map fst (pp_documents p))" "distinct (map fst (pp_metadata p))"
    unfolding ids(2) slots(2) docs(2) metas(3)
    using ids(1) slots(1) docs(1) metas(2)
    unfolding parse_string_to_u64_def parse_u64_to_slot_def parse_documents_def parse_metadata_def
    by (auto intro!: mset_map_distinct [OF orders_okD(1) [OF ho]] mset_map_distinct [OF orders_okD(2) [OF ho]]
        mset_map_distinct [OF orders_okD(3) [OF ho]] mset_map_distinct [OF orders_okD(4) [OF ho]]
        dest: parse_entries_distinct)
  have "\<forall>(k, v)\<in>set metas. is_object v \<and> json_ok v"
    using m4 by (intro parse_entries_values [OF metas(2) [unfolded parse_metadata_def]])
      (auto simp: metadata_entry_def obind_eq_Ok split: if_splits)
  then have "\<forall>v\<in>snd ` set (pp_metadata p). is_object v \<and> json_ok v"
    using metas(3) map_mset_eq(1) [OF orders_okD(4) [OF ho]] by auto
  moreover have "pp_bits p \<in> {1, 2, 4}" "pp_dim p \<noteq> Some 0"
    using fields(1) required_bits_Ok optional_dim_Ok by (auto simp: adapter_fields_def)
  ultimately show "payloads_ok p"
    using distinct fields(5) unfolding payloads_ok_def validate_maps_Ok by (elim conjE) (intro conjI; assumption)
  show "validate_index_path je (pp_index_path p) = Ok ()" using fields(1) by (simp add: adapter_fields_def)
qed

lemma slots_fill:
  assumes ok: "payloads_ok p" and gen: "validate_against_generation p g = Ok ()" and rows: "\<not> pp_empty_lazy p"
  shows "bij_betw (\<lambda>s. unat (the (map_of (pp_u64_to_slot p) (the (map_of (pp_string_to_u64 p) s)))))
    (keys_of (pp_string_to_u64 p)) {0..<unat (g_vector_count g)}"
proof -
  let ?ids = "pp_string_to_u64 p" and ?slots = "pp_u64_to_slot p" and ?n = "g_vector_count g"
  have d: "distinct (map fst ?ids)" "distinct (map snd ?ids)" "distinct (map fst ?slots)" "distinct (map snd ?slots)"
      "keys_of ?slots = snd ` set ?ids"
    using ok by (simp_all add: payloads_ok_def)
  have n: "length ?slots = unat ?n" "\<forall>s\<in>snd ` set ?slots. s < ?n"
    using gen rows by (auto simp: validate_against_generation_def validate_stale_slots_Ok split: if_splits)
  have value_of: "bij_betw (\<lambda>k. the (map_of m k)) (fst ` set m) (snd ` set m)"
    if fsts: "distinct (map fst m)" and snds: "distinct (map snd m)" for m :: "('k \<times> 'v) list"
  proof (rule bij_betw_imageI)
    show "inj_on (\<lambda>k. the (map_of m k)) (fst ` set m)"
    proof (rule inj_onI)
      fix x y
      assume "x \<in> fst ` set m" "y \<in> fst ` set m" "the (map_of m x) = the (map_of m y)"
      then obtain v where "(x, v) \<in> set m" "(y, v) \<in> set m"
        using fsts by auto
      moreover have "inj_on snd (set m)" using snds by (simp add: distinct_map)
      ultimately show "x = y" by (metis inj_onD prod.inject snd_conv)
    qed
    show "(\<lambda>k. the (map_of m k)) ` fst ` set m = snd ` set m"
      using fsts by (force simp: image_image)
  qed
  have ids: "bij_betw (\<lambda>s. the (map_of ?ids s)) (keys_of ?ids) (keys_of ?slots)"
    using value_of [OF d(1,2)] d(5) by (simp add: keys_of_def)
  have slots: "bij_betw (\<lambda>k. the (map_of ?slots k)) (keys_of ?slots) (snd ` set ?slots)"
    using value_of [OF d(3,4)] by (simp add: keys_of_def)
  have "unat ` snd ` set ?slots \<subseteq> {0..<unat ?n}" using n(2) by (auto simp: word_less_nat_alt)
  moreover have inj: "inj_on unat X" for X :: "u64 set" by (simp add: inj_on_def word_unat_eq_iff)
  have "card (unat ` snd ` set ?slots) = unat ?n"
    using n(1) distinct_card [OF d(4)] card_image [OF inj, of "snd ` set ?slots"] by simp
  ultimately have "unat ` snd ` set ?slots = {0..<unat ?n}" by (intro card_subset_eq) simp_all
  then have "bij_betw unat (snd ` set ?slots) {0..<unat ?n}" using inj by (simp add: bij_betw_def)
  from bij_betw_trans [OF bij_betw_trans [OF ids slots] this] show ?thesis by (simp add: o_def)
qed

section \<open>Texts of payloads\<close>

text \<open>The payloads a client writes for given contents: objects keyed by identifier, slots keyed by the decimal.\<close>

definition entries_json :: "('k \<Rightarrow> string) \<Rightarrow> ('v \<Rightarrow> json) \<Rightarrow> ('k \<times> 'v) list \<Rightarrow> json" where
  "entries_json f g m = jobject (map (\<lambda>(k, v). (f k, g v)) m)"

definition decimal :: "u64 \<Rightarrow> string" where
  "decimal n = show_nat (unat n)"

definition adapter_payload :: "json \<Rightarrow> parsed_payloads \<Rightarrow> json" where
  "adapter_payload sidecars p =
     jobject [(''schema_version'', JString ADAPTER_SCHEMA_VERSION), (''adapter'', JString (pp_adapter_name p)),
       (''bits'', jnum (ucast (pp_bits p))), (''dim'', jopt jnum (pp_dim p)), (''empty_lazy'', JBool (pp_empty_lazy p)),
       (''index_path'', JString (pp_index_path p)), (''sidecars'', sidecars)]"

definition id_map_payload :: "parsed_payloads \<Rightarrow> json" where
  "id_map_payload p =
     jobject [(''schema_version'', JString ID_MAP_SCHEMA_VERSION), (''next_u64_id'', jnum (pp_next_u64_id p)),
       (''string_to_u64'', entries_json id jnum (pp_string_to_u64 p)),
       (''u64_to_slot'', entries_json decimal jnum (pp_u64_to_slot p))]"

definition documents_payload :: "parsed_payloads \<Rightarrow> json" where
  "documents_payload p =
     jobject [(''schema_version'', JString DOCUMENTS_SCHEMA_VERSION), (''documents'', entries_json id JString (pp_documents p))]"

definition metadata_payload :: "(string \<times> json) list \<Rightarrow> json" where
  "metadata_payload m =
     jobject [(''schema_version'', JString METADATA_SCHEMA_VERSION), (''metadata'', jobject m)]"

definition payloads_text :: "json_env \<Rightarrow> json \<Rightarrow> parsed_payloads \<Rightarrow> legacy_payloads" where
  "payloads_text je sidecars p =
     \<lparr>adapter_json = je_print je (adapter_payload sidecars p), id_map_json = je_print je (id_map_payload p),
      documents_json = je_print je (documents_payload p), metadata_json = je_print je (metadata_payload (pp_metadata p))\<rparr>"

definition same_payloads :: "parsed_payloads \<Rightarrow> parsed_payloads \<Rightarrow> bool" where
  "same_payloads p q \<longleftrightarrow>
     pp_adapter_name p = pp_adapter_name q \<and> pp_bits p = pp_bits q \<and> pp_dim p = pp_dim q \<and>
     pp_empty_lazy p = pp_empty_lazy q \<and> pp_index_path p = pp_index_path q \<and> pp_next_u64_id p = pp_next_u64_id q \<and>
     mset (pp_string_to_u64 p) = mset (pp_string_to_u64 q) \<and> mset (pp_u64_to_slot p) = mset (pp_u64_to_slot q) \<and>
     mset (pp_documents p) = mset (pp_documents q) \<and> mset (pp_metadata p) = mset (pp_metadata q)"

lemma parse_entries_run:
  assumes "\<forall>(key, v)\<in>set m. f key v = Ok (g key v)" and "distinct (map (\<lambda>(key, v). fst (g key v)) m @ map fst out)"
  shows "parse_entries f m out = Ok (rev (map (\<lambda>(key, v). g key v) m) @ out)"
  using assms
proof (induction m arbitrary: out)
  case (Cons p m)
  obtain key v where p: "p = (key, v)" by fastforce
  obtain k x where g: "g key v = (k, x)" by fastforce
  have k: "k \<notin> fst ` set out" using Cons.prems(2) g by (simp add: p)
  then have "filter (\<lambda>(k', _). k' \<noteq> k) out = out" by (induction out) auto
  then have "hash_insert k x out = (k, x) # out" by (simp add: hash_insert_def)
  moreover have "f key v = Ok (k, x)" using Cons.prems(1) g by (simp add: p)
  ultimately show ?case using Cons.IH [of "(k, x) # out"] Cons.prems g k by (simp add: p)
qed simp

lemma mset_btree_inserts:
  assumes "distinct (map fst kvs)"
  shows "mset (btree_inserts kvs []) = mset kvs"
proof -
  have d: "distinct (map fst (btree_inserts kvs []))" by (rule btree_ok_distinct) simp
  have "map_of (rev kvs) = map_of kvs" by (rule mset_map_of) (simp_all add: assms)
  then have "map_of (btree_inserts kvs []) = map_of kvs" by simp
  then have "set (btree_inserts kvs []) = set kvs" using map_of_inject_set [OF d assms] by simp
  moreover have "distinct (btree_inserts kvs [])" "distinct kvs"
    using d assms by (simp_all only: distinct_map simp_thms)
  ultimately show ?thesis using set_eq_iff_mset_eq_distinct by blast
qed

lemma jobject_keys: "map fst (btree_inserts kvs []) = sort (remdups (map fst kvs))"
proof (rule sorted_distinct_set_unique)
  have ok: "btree_ok (btree_inserts kvs [])" by simp
  show "sorted (map fst (btree_inserts kvs []))" "distinct (map fst (btree_inserts kvs []))"
    using ok by (simp_all add: btree_ok_def strict_sorted_iff)
  have "dom (map_of (btree_inserts kvs [])) = dom (map_of (rev kvs))" by simp
  then have "fst ` set (btree_inserts kvs []) = fst ` set (rev kvs)" unfolding dom_map_of_conv_image_fst .
  then show "set (map fst (btree_inserts kvs [])) = set (sort (remdups (map fst kvs)))" by simp
qed simp_all

lemma require_exact_keys_jobject [simp]:
  "require_exact_keys je (jobject kvs) name expected = Ok () \<longleftrightarrow> fst ` set kvs = set expected"
proof -
  have "set (map fst (btree_inserts kvs [])) = fst ` set kvs" by (simp add: jobject_keys)
  then show ?thesis by (simp add: require_exact_keys_def jobject_def Let_def)
qed

lemma entries_run:
  assumes "distinct (map fst m)" and "inj_on f (keys_of m)" and "\<forall>(k, v)\<in>set m. h (f k) (g v) = Ok (k, v)"
  shows "\<exists>r. parse_entries h (btree_inserts (map (\<lambda>(k, v). (f k, g v)) m) []) [] = Ok r \<and> mset r = mset m"
proof -
  let ?kvs = "map (\<lambda>(k, v). (f k, g v)) m"
  define dec where "dec = (\<lambda>key v. case h key v of Ok r \<Rightarrow> r)"
  have keys: "distinct (map fst ?kvs)"
  proof -
    have "map fst ?kvs = map f (map fst m)" by (simp add: split_def)
    then show ?thesis using assms(1,2) by (simp only: distinct_map [of f] keys_of_def simp_thms)
  qed
  have ms: "mset (btree_inserts ?kvs []) = mset ?kvs" by (rule mset_btree_inserts [OF keys])
  have run: "\<forall>(key, v)\<in>set ?kvs. h key v = Ok (dec key v)" "map (\<lambda>(key, v). dec key v) ?kvs = m"
  proof -
    have dec: "dec (f k) (g v) = (k, v)" if "(k, v) \<in> set m" for k v
      using assms(3) that by (fastforce simp: dec_def)
    then show "\<forall>(key, v)\<in>set ?kvs. h key v = Ok (dec key v)" using assms(3) by fastforce
    show "map (\<lambda>(key, v). dec key v) ?kvs = m" using dec by (induction m) auto
  qed
  have image: "mset (map (\<lambda>(key, v). dec key v) (btree_inserts ?kvs [])) = mset m"
    unfolding mset_map ms unfolding mset_map [symmetric] run(2) ..
  then have d: "distinct (map fst (map (\<lambda>(key, v). dec key v) (btree_inserts ?kvs [])))"
    by (rule mset_map_distinct) (rule assms(1))
  have "parse_entries h (btree_inserts ?kvs []) [] = Ok (rev (map (\<lambda>(key, v). dec key v) (btree_inserts ?kvs [])) @ [])"
  proof (rule parse_entries_run)
    show "\<forall>(key, v)\<in>set (btree_inserts ?kvs []). h key v = Ok (dec key v)"
      unfolding mset_eq_setD [OF ms] by (rule run(1))
    show "distinct (map (\<lambda>(key, v). fst (dec key v)) (btree_inserts ?kvs []) @ map fst [])"
      using d by (simp add: o_def case_prod_unfold)
  qed
  then show ?thesis using image by (intro exI conjI) (assumption, simp)
qed

lemma require_schema_jobject:
  "require_schema je (jobject ((''schema_version'', JString s) # kvs)) s name = Ok () \<longleftrightarrow> ''schema_version'' \<notin> fst ` set kvs"
  if "''schema_version'' \<notin> fst ` set kvs"
proof -
  have "map_of (rev kvs) ''schema_version'' = None" using that by (simp add: map_of_eq_None_iff)
  then show ?thesis using that by (simp add: require_schema_def required_string_def map_add_def)
qed

lemma decimal_parses: "parse_uint u64_max (decimal n) = Some (unat n)"
proof -
  have "unat n < 2 ^ LENGTH(64)" by (rule unsigned_less)
  then have "unat n \<le> u64_max" by (simp add: u64_max_def)
  then show ?thesis unfolding decimal_def by (rule parse_uint_show_nat)
qed

lemma decimal_inj: "inj_on decimal X"
  using decimal_parses by (intro inj_onI) (metis option.inject word_unat_eq_iff)

lemma parse_printed_object:
  "json_text je \<Longrightarrow> list_all (\<lambda>(_, v). json_ok v) kvs \<Longrightarrow>
     parse_json_object je (je_print je (jobject kvs)) name = Ok (jobject kvs)"
  using parse_printed jobject_ok by (simp add: jobject_def)

lemma jopt_ok: "json_ok (jopt jnum x)"
  by (simp add: jopt_def jnum_def split: option.split)

lemma entries_json_ok: "\<forall>v\<in>snd ` set m. json_ok (g v) \<Longrightarrow> json_ok (entries_json f g m)"
  by (force simp: entries_json_def list_all_iff intro!: jobject_ok)

lemma entries_json_object:
  "entries_json f g m = JObject (btree_inserts (map (\<lambda>(k, v). (f k, g v)) m) [])"
  by (simp add: entries_json_def jobject_def)

lemma entry_runs:
  "k \<noteq> [] \<Longrightarrow> string_to_u64_entry k (jnum n) = Ok (k, n)"
  "u64_to_slot_entry je (decimal i) (jnum n) = Ok (i, n)"
  "k \<noteq> [] \<Longrightarrow> documents_entry k (JString t) = Ok (k, t)"
  "k \<noteq> [] \<Longrightarrow> is_object v \<Longrightarrow> metadata_entry k v = Ok (k, v)"
  by (simp_all add: string_to_u64_entry_def u64_to_slot_entry_def documents_entry_def metadata_entry_def
      require_non_empty_string_id_def jnum_def decimal_parses)

lemma named_entries:
  assumes "distinct (map fst m)" and "[] \<notin> keys_of m" and "\<And>k v. (k, v) \<in> set m \<Longrightarrow> k \<noteq> [] \<Longrightarrow> h k (g v) = Ok (k, v)"
  shows "\<exists>r. parse_entries h (btree_inserts (map (\<lambda>(k, v). (k, g v)) m) []) [] = Ok r \<and> mset r = mset m"
proof -
  have "h (id k) (g v) = Ok (k, v)" if "(k, v) \<in> set m" for k v
  proof -
    have "k \<noteq> []" using assms(2) that by (force simp: keys_of_def)
    then show ?thesis using assms(3) [OF that] by simp
  qed
  then have "\<forall>(k, v)\<in>set m. h (id k) (g v) = Ok (k, v)" by (intro ballI) (simp add: split_def)
  from entries_run [OF assms(1) inj_on_id this] show ?thesis by (simp only: id_apply)
qed

lemma id_entries:
  assumes "payloads_ok p"
  shows "\<exists>r. parse_string_to_u64 (btree_inserts (map (\<lambda>(k, v). (k, jnum v)) (pp_string_to_u64 p)) []) = Ok r \<and>
      mset r = mset (pp_string_to_u64 p)"
    and "\<exists>r. parse_u64_to_slot je (btree_inserts (map (\<lambda>(k, v). (decimal k, jnum v)) (pp_u64_to_slot p)) []) = Ok r \<and>
      mset r = mset (pp_u64_to_slot p)"
    and "\<exists>r. parse_documents (btree_inserts (map (\<lambda>(k, v). (k, JString v)) (pp_documents p)) []) = Ok r \<and>
      mset r = mset (pp_documents p)"
    and "\<exists>r. parse_metadata (btree_inserts (map (\<lambda>(k, v). (k, v)) (pp_metadata p)) []) = Ok r \<and>
      mset r = mset (pp_metadata p)"
proof -
  have ok: "distinct (map fst (pp_string_to_u64 p))" "distinct (map fst (pp_u64_to_slot p))"
      "distinct (map fst (pp_documents p))" "distinct (map fst (pp_metadata p))"
      "[] \<notin> keys_of (pp_string_to_u64 p)" "[] \<notin> keys_of (pp_documents p)" "[] \<notin> keys_of (pp_metadata p)"
    using assms by (simp_all add: payloads_ok_def)
  have objects: "is_object v" if "(k, v) \<in> set (pp_metadata p)" for k v
    using assms that by (force simp: payloads_ok_def)
  show "\<exists>r. parse_string_to_u64 (btree_inserts (map (\<lambda>(k, v). (k, jnum v)) (pp_string_to_u64 p)) []) = Ok r \<and>
      mset r = mset (pp_string_to_u64 p)"
    unfolding parse_string_to_u64_def by (rule named_entries [OF ok(1,5)]) (rule entry_runs(1))
  show "\<exists>r. parse_u64_to_slot je (btree_inserts (map (\<lambda>(k, v). (decimal k, jnum v)) (pp_u64_to_slot p)) []) = Ok r \<and>
      mset r = mset (pp_u64_to_slot p)"
    unfolding parse_u64_to_slot_def by (rule entries_run [OF ok(2) decimal_inj]) (simp add: entry_runs(2) split_def)
  show "\<exists>r. parse_documents (btree_inserts (map (\<lambda>(k, v). (k, JString v)) (pp_documents p)) []) = Ok r \<and>
      mset r = mset (pp_documents p)"
    unfolding parse_documents_def by (rule named_entries [OF ok(3,6)]) (rule entry_runs(3))
  show "\<exists>r. parse_metadata (btree_inserts (map (\<lambda>(k, v). (k, v)) (pp_metadata p)) []) = Ok r \<and>
      mset r = mset (pp_metadata p)"
    unfolding parse_metadata_def
    by (rule named_entries [OF ok(4,7), where g = "\<lambda>v. v"]) (rule entry_runs(4) [OF _ objects])
qed

lemma entries_values_ok: "json_ok (entries_json f jnum m)" "json_ok (entries_json f JString n)" "json_ok (jnum i)"
  by (simp_all add: entries_json_ok jnum_def)

lemma payload_texts:
  assumes je: "json_text je" and ok: "payloads_ok p" and sidecars: "json_ok sidecars"
  shows "parse_json_object je (adapter_json (payloads_text je sidecars p)) name = Ok (adapter_payload sidecars p)"
    and "parse_json_object je (id_map_json (payloads_text je sidecars p)) name = Ok (id_map_payload p)"
    and "parse_json_object je (documents_json (payloads_text je sidecars p)) name = Ok (documents_payload p)"
    and "parse_json_object je (metadata_json (payloads_text je sidecars p)) name = Ok (metadata_payload (pp_metadata p))"
proof -
  have "list_all (\<lambda>(_, v). json_ok v) (pp_metadata p)" using ok by (force simp: payloads_ok_def list_all_iff)
  then have "json_ok (jobject (pp_metadata p))" by (rule jobject_ok)
  then show "parse_json_object je (adapter_json (payloads_text je sidecars p)) name = Ok (adapter_payload sidecars p)"
    "parse_json_object je (id_map_json (payloads_text je sidecars p)) name = Ok (id_map_payload p)"
    "parse_json_object je (documents_json (payloads_text je sidecars p)) name = Ok (documents_payload p)"
    "parse_json_object je (metadata_json (payloads_text je sidecars p)) name = Ok (metadata_payload (pp_metadata p))"
    using sidecars
    by (simp_all add: payloads_text_def adapter_payload_def id_map_payload_def documents_payload_def
        metadata_payload_def parse_printed_object [OF je] jopt_ok entries_values_ok)
qed

lemma payloads_text_parses:
  assumes je: "json_text je" and ho: "orders_ok ho" and ok: "payloads_ok p"
    and path: "validate_index_path je (pp_index_path p) = Ok ()" and sidecars: "json_ok sidecars"
  shows "\<exists>q. parse_payloads je ho (payloads_text je sidecars p) = Ok q \<and> same_payloads q p"
proof -
  obtain ids where ids: "parse_string_to_u64 (btree_inserts (map (\<lambda>(k, v). (k, jnum v)) (pp_string_to_u64 p)) []) = Ok ids"
      "mset ids = mset (pp_string_to_u64 p)"
    using id_entries(1) [OF ok] by blast
  obtain slots where slots: "parse_u64_to_slot je (btree_inserts (map (\<lambda>(k, v). (decimal k, jnum v)) (pp_u64_to_slot p)) []) = Ok slots"
      "mset slots = mset (pp_u64_to_slot p)"
    using id_entries(2) [OF ok] by blast
  obtain docs where docs: "parse_documents (btree_inserts (map (\<lambda>(k, v). (k, JString v)) (pp_documents p)) []) = Ok docs"
      "mset docs = mset (pp_documents p)"
    using id_entries(3) [OF ok] by blast
  obtain metas where metas: "parse_metadata (btree_inserts (pp_metadata p) []) = Ok metas"
      "mset metas = mset (pp_metadata p)"
    using id_entries(4) [OF ok] by auto
  define q where "q = p\<lparr>pp_string_to_u64 := ho_ids ho ids, pp_u64_to_slot := ho_slots ho slots,
    pp_documents := ho_documents ho docs, pp_metadata := ho_metadata ho metas\<rparr>"
  have same: "same_payloads q p"
    using ids(2) slots(2) docs(2) metas(2) orders_okD [OF ho] by (simp add: same_payloads_def q_def)
  have q_ok: "validate_maps q = Ok ()"
  proof -
    have m: "mset (pp_string_to_u64 q) = mset (pp_string_to_u64 p)" "mset (pp_u64_to_slot q) = mset (pp_u64_to_slot p)"
        "mset (pp_documents q) = mset (pp_documents p)" "mset (pp_metadata q) = mset (pp_metadata p)"
        "pp_next_u64_id q = pp_next_u64_id p"
      using same by (simp_all add: same_payloads_def)
    have d: "distinct (map snd (pp_string_to_u64 q))" "distinct (map snd (pp_u64_to_slot q))"
      using ok by (auto intro: mset_map_distinct [OF m(1)] mset_map_distinct [OF m(2)] simp: payloads_ok_def)
    show ?thesis
      using ok d unfolding validate_maps_Ok map_mset_eq(2,3) [OF m(1)] map_mset_eq(2) [OF m(2)]
        map_mset_eq(2) [OF m(3)] map_mset_eq(2) [OF m(4)] m(5)
      by (simp add: payloads_ok_def)
  qed
  have bits: "required_bits (adapter_payload sidecars p) = Ok (pp_bits p)"
    using ok by (auto simp: payloads_ok_def required_bits_def required_u64_def adapter_payload_def jnum_def)
  have dim: "optional_dim (adapter_payload sidecars p) = Ok (pp_dim p)"
    using ok by (auto simp: payloads_ok_def optional_dim_def adapter_payload_def jnum_def jopt_def split: option.split)
  have adapter: "adapter_fields je (adapter_payload sidecars p) q"
    using bits dim path
    by (simp add: adapter_fields_def q_def)
      (simp add: adapter_payload_def adapter_keys_def required_string_def required_bool_def require_schema_jobject insert_commute)
  have id_map: "id_map_fields je ho (id_map_payload p) q"
    using ids(1) slots(1)
    by (simp add: id_map_fields_def q_def id_map_payload_def id_map_keys_def required_u64_def jnum_def
        required_object_def require_schema_jobject entries_json_object insert_commute)
  have documents: "documents_fields je ho (documents_payload p) q"
    using docs(1) by (simp add: documents_fields_def q_def documents_payload_def required_object_def
        require_schema_jobject entries_json_object)
  have metadata: "metadata_fields je ho (metadata_payload (pp_metadata p)) q"
    using metas(1) by (simp add: metadata_fields_def q_def metadata_payload_def required_object_def
        require_schema_jobject jobject_def [of "pp_metadata p"])
  have texts: "parse_json_object je (adapter_json (payloads_text je sidecars p)) name = Ok (adapter_payload sidecars p)"
      "parse_json_object je (id_map_json (payloads_text je sidecars p)) name = Ok (id_map_payload p)"
      "parse_json_object je (documents_json (payloads_text je sidecars p)) name = Ok (documents_payload p)"
      "parse_json_object je (metadata_json (payloads_text je sidecars p)) name = Ok (metadata_payload (pp_metadata p))" for name
    using payload_texts [OF je ok sidecars] by simp_all
  have "parse_payloads je ho (payloads_text je sidecars p) = Ok q"
    by (rule parse_payloads_I [OF texts adapter id_map documents metadata q_ok])
  then show ?thesis using same by blast
qed

section \<open>Properties\<close>

text \<open>
  Every payload that parses has consistent maps: identifiers are inverse to their numbers, all
  below the allocation watermark, documents and metadata belong to exactly the active identifiers,
  and, once checked against a generation with vectors, the slots of the active identifiers are the
  numbers from 0 below its vector count, each exactly once.
\<close>

theorem parsed_payloads_consistent:
  assumes "parse_payloads je ho payloads = Ok p" and "orders_ok ho"
    and "validate_against_generation p g = Ok ()" and "\<not> pp_empty_lazy p"
  shows "payloads_ok p \<and> length (pp_documents p) = unat (g_vector_count g) \<and>
    bij_betw (\<lambda>s. unat (the (map_of (pp_u64_to_slot p) (the (map_of (pp_string_to_u64 p) s)))))
      (keys_of (pp_documents p)) {0..<unat (g_vector_count g)}"
proof -
  have ok: "payloads_ok p" by (rule parse_payloads_valid [OF assms(1,2)])
  then have keys: "keys_of (pp_documents p) = keys_of (pp_string_to_u64 p)" and d: "distinct (map fst (pp_documents p))"
    by (simp_all add: payloads_ok_def)
  have bij: "bij_betw (\<lambda>s. unat (the (map_of (pp_u64_to_slot p) (the (map_of (pp_string_to_u64 p) s)))))
      (keys_of (pp_documents p)) {0..<unat (g_vector_count g)}"
    unfolding keys by (rule slots_fill [OF ok assms(3,4)])
  moreover have "length (pp_documents p) = card (keys_of (pp_documents p))"
    using distinct_card [OF d] by (simp add: keys_of_def)
  ultimately show ?thesis using ok bij_betw_same_card [OF bij] by simp
qed


section \<open>An example\<close>

definition plain_orders :: hash_orders where
  "plain_orders = \<lparr>ho_ids = rev, ho_slots = id, ho_documents = id, ho_metadata = rev\<rparr>"

definition ex_parsed :: parsed_payloads where
  "ex_parsed =
     \<lparr>pp_adapter_name = ''langchain'', pp_bits = 2, pp_dim = Some 64, pp_empty_lazy = False,
      pp_index_path = ''vectors/g000000000002.odb'', pp_string_to_u64 = [(''a'', 1), (''b'', 4)],
      pp_u64_to_slot = [(1, 1), (4, 0)], pp_documents = [(''a'', ''first''), (''b'', ''second'')],
      pp_metadata = [(''a'', jobject [(''lang'', JString ''en'')]), (''b'', jobject [])], pp_next_u64_id = 5\<rparr>"

lemma plain_orders_ok: "orders_ok plain_orders"
  by (simp add: orders_ok_def plain_orders_def)

lemma ex_parsed_ok: "payloads_ok ex_parsed"
  by (simp add: payloads_ok_def ex_parsed_def is_object_def jobject_def btree_insert_def btree_ok_def)

lemma ex_parsed_path: "validate_index_path je (pp_index_path ex_parsed) = Ok ()"
proof -
  have "parse_generation_dir ''g000000000002.odb'' = Some 2"
  proof -
    have "generation_dir 2 = ''g000000000002.odb''" by code_simp
    then show ?thesis by (simp add: parse_generation_dir_Some)
  qed
  then show ?thesis
    by (simp add: ex_parsed_def validate_index_path_def validate_relative_path_def backslash_def contains_str_def
        components_def is_absolute_def is_normal_def char_of_def INDEX_DIR_def VECTORS_DIR_def)
qed

definition ex_generation :: generation_checkpoint where
  "ex_generation =
     \<lparr>g_id = 2, g_path = ''vectors/g000000000002.odb'', g_empty_lazy = False, g_bits = 2, g_dim = 64,
      g_vector_count = 2, g_manifest_sha256 = Some ''ab'', g_manifest_size_bytes = Some 9, g_json = JNull\<rparr>"

lemma same_payloads_generation:
  assumes "same_payloads q p"
  shows "validate_against_generation q g = Ok () \<longleftrightarrow> validate_against_generation p g = Ok ()"
proof -
  have m: "mset (pp_string_to_u64 q) = mset (pp_string_to_u64 p)" "mset (pp_u64_to_slot q) = mset (pp_u64_to_slot p)"
      "mset (pp_documents q) = mset (pp_documents p)" "mset (pp_metadata q) = mset (pp_metadata p)"
    using assms by (simp_all add: same_payloads_def)
  have empty: "(pp_string_to_u64 q = []) = (pp_string_to_u64 p = [])" "(pp_u64_to_slot q = []) = (pp_u64_to_slot p = [])"
      "(pp_documents q = []) = (pp_documents p = [])" "(pp_metadata q = []) = (pp_metadata p = [])"
    using map_mset_eq(4) [OF m(1)] map_mset_eq(4) [OF m(2)] map_mset_eq(4) [OF m(3)] map_mset_eq(4) [OF m(4)]
    by auto
  show ?thesis
    using assms map_mset_eq(4) [OF m(1)] map_mset_eq(3,4) [OF m(2)] empty
    by (simp add: validate_against_generation_def same_payloads_def validate_stale_slots_Ok)
qed


theorem parsed_payloads_consistent_witness:
  "\<exists>q. parse_payloads plain_json plain_orders (payloads_text plain_json JNull ex_parsed) = Ok q \<and>
     length (pp_documents q) = 2"
proof -
  obtain q where q: "parse_payloads plain_json plain_orders (payloads_text plain_json JNull ex_parsed) = Ok q"
      "same_payloads q ex_parsed"
    using payloads_text_parses [OF plain_json_text plain_orders_ok ex_parsed_ok ex_parsed_path, of JNull] by auto
  have "validate_against_generation ex_parsed ex_generation = Ok ()"
    by (simp add: validate_against_generation_def ex_parsed_def ex_generation_def word_le_nat_alt)
  then have "validate_against_generation q ex_generation = Ok ()"
    by (simp only: same_payloads_generation [OF q(2)])
  moreover have "\<not> pp_empty_lazy q" using q(2) by (simp add: same_payloads_def ex_parsed_def)
  ultimately show ?thesis
    using parsed_payloads_consistent [OF q(1) plain_orders_ok, of ex_generation] q(1)
    by (simp add: ex_generation_def)
qed

end
