(* ===== verification/StoreDb.thy ===== *)
theory StoreDb
  imports StorePayloads
begin

text \<open>
  The database of an adapter store and its verification on open
  (\<open>ordinaldb-adapter-store/src/lib.rs\<close>). \<open>redb\<close> is an argument: a record of the calls the crate makes,
  over an abstract type of databases; \<open>redb_ok\<close> states what its documentation promises of the calls
  that succeed, through a view of a database as sorted tables, and any call may fail or panic. The
  file system around the store, the manifest verifier of \<open>ordvec-manifest\<close>, the clock and the random
  source are fields of \<open>store_env\<close>.
\<close>

section \<open>The database engine\<close>

datatype ss_table = META | JSON_PAYLOADS | PENDING_BATCHES
datatype su_table = STRING_TO_U64
datatype us_table = U64_TO_STRING | DOCUMENTS | METADATA | GENERATIONS | TOMBSTONES | GC_QUEUE | AUDIT_LOG
datatype uu_table = U64_TO_SLOT

text \<open>
  The calls on the tables with given key and value types: opening one in a write transaction (which
  creates it) and in a read transaction, \<open>insert\<close>, \<open>retain\<close> on the keys, \<open>get\<close>, \<open>len\<close> and the items of \<open>iter\<close>.
\<close>

record ('db, 't, 'k, 'v) table_api =
  ta_open :: "'t \<Rightarrow> 'db \<Rightarrow> (store_error, 'db) outcome"
  ta_insert :: "'t \<Rightarrow> 'k \<Rightarrow> 'v \<Rightarrow> 'db \<Rightarrow> (store_error, 'db) outcome"
  ta_retain :: "'t \<Rightarrow> ('k \<Rightarrow> bool) \<Rightarrow> 'db \<Rightarrow> (store_error, 'db) outcome"
  ta_read :: "'t \<Rightarrow> 'db \<Rightarrow> (store_error, unit) outcome"
  ta_get :: "'t \<Rightarrow> 'k \<Rightarrow> 'db \<Rightarrow> (store_error, 'v option) outcome"
  ta_len :: "'t \<Rightarrow> 'db \<Rightarrow> (store_error, nat) outcome"
  ta_iter :: "'t \<Rightarrow> 'db \<Rightarrow> (store_error, (store_error, 'k \<times> 'v) outcome list) outcome"

record 'db redb =
  rd_ss :: "('db, ss_table, string, string) table_api"
  rd_su :: "('db, su_table, string, u64) table_api"
  rd_us :: "('db, us_table, u64, string) table_api"
  rd_uu :: "('db, uu_table, u64, u64) table_api"
  rd_create :: "(store_error, unit) outcome \<times> 'db option"
  rd_open :: "'db \<Rightarrow> (store_error, unit) outcome"
  rd_begin_read :: "'db \<Rightarrow> (store_error, unit) outcome"
  rd_begin_write :: "'db \<Rightarrow> (store_error, 'db) outcome"
  rd_commit :: "'db \<Rightarrow> 'db \<Rightarrow> (store_error, unit) outcome \<times> 'db"

text \<open>The content of a database: the rows of the tables that exist, sorted by key.\<close>

record db_view =
  dv_ss :: "ss_table \<Rightarrow> (string \<times> string) list option"
  dv_su :: "su_table \<Rightarrow> (string \<times> u64) list option"
  dv_us :: "us_table \<Rightarrow> (u64 \<times> string) list option"
  dv_uu :: "uu_table \<Rightarrow> (u64 \<times> u64) list option"

definition no_tables :: db_view where
  "no_tables = \<lparr>dv_ss = (\<lambda>_. None), dv_su = (\<lambda>_. None), dv_us = (\<lambda>_. None), dv_uu = (\<lambda>_. None)\<rparr>"

definition set_ss :: "ss_table \<Rightarrow> (string \<times> string) list \<Rightarrow> db_view \<Rightarrow> db_view" where
  "set_ss t rows v = v\<lparr>dv_ss := (dv_ss v)(t \<mapsto> rows)\<rparr>"

definition set_su :: "su_table \<Rightarrow> (string \<times> u64) list \<Rightarrow> db_view \<Rightarrow> db_view" where
  "set_su t rows v = v\<lparr>dv_su := (dv_su v)(t \<mapsto> rows)\<rparr>"

definition set_us :: "us_table \<Rightarrow> (u64 \<times> string) list \<Rightarrow> db_view \<Rightarrow> db_view" where
  "set_us t rows v = v\<lparr>dv_us := (dv_us v)(t \<mapsto> rows)\<rparr>"

definition set_uu :: "uu_table \<Rightarrow> (u64 \<times> u64) list \<Rightarrow> db_view \<Rightarrow> db_view" where
  "set_uu t rows v = v\<lparr>dv_uu := (dv_uu v)(t \<mapsto> rows)\<rparr>"

definition rows_of :: "('k \<times> 'v) list option \<Rightarrow> ('k \<times> 'v) list" where
  "rows_of r = (case r of None \<Rightarrow> [] | Some rows \<Rightarrow> rows)"

text \<open>What a successful call on a table does, read through the view.\<close>

definition table_ok :: "('db, 't, 'k::linorder, 'v) table_api \<Rightarrow> ('db \<Rightarrow> db_view) \<Rightarrow>
    (db_view \<Rightarrow> 't \<Rightarrow> ('k \<times> 'v) list option) \<Rightarrow> ('t \<Rightarrow> ('k \<times> 'v) list \<Rightarrow> db_view \<Rightarrow> db_view) \<Rightarrow> bool" where
  "table_ok api view sel put \<longleftrightarrow>
     (\<forall>t db db'. ta_open api t db = Ok db' \<longrightarrow> view db' = put t (rows_of (sel (view db) t)) (view db)) \<and>
     (\<forall>t k x db db'. ta_insert api t k x db = Ok db' \<longrightarrow>
        view db' = put t (btree_insert k x (rows_of (sel (view db) t))) (view db)) \<and>
     (\<forall>t f db db'. ta_retain api t f db = Ok db' \<longrightarrow>
        view db' = put t (btree_retain f (rows_of (sel (view db) t))) (view db)) \<and>
     (\<forall>t db. ta_read api t db = Ok () \<longrightarrow> sel (view db) t \<noteq> None) \<and>
     (\<forall>t k db r. ta_get api t k db = Ok r \<longrightarrow> r = map_of (rows_of (sel (view db) t)) k) \<and>
     (\<forall>t db n. ta_len api t db = Ok n \<longrightarrow> n = length (rows_of (sel (view db) t))) \<and>
     (\<forall>t db rows. ta_iter api t db = Ok (map Ok rows) \<longrightarrow> rows = rows_of (sel (view db) t))"

definition redb_ok :: "'db redb \<Rightarrow> ('db \<Rightarrow> db_view) \<Rightarrow> bool" where
  "redb_ok rd view \<longleftrightarrow>
     table_ok (rd_ss rd) view dv_ss set_ss \<and> table_ok (rd_su rd) view dv_su set_su \<and>
     table_ok (rd_us rd) view dv_us set_us \<and> table_ok (rd_uu rd) view dv_uu set_uu \<and>
     (\<forall>db. snd (rd_create rd) = Some db \<longrightarrow> view db = no_tables) \<and>
     (fst (rd_create rd) = Ok () \<longrightarrow> snd (rd_create rd) \<noteq> None) \<and>
     (\<forall>db tx. rd_begin_write rd db = Ok tx \<longrightarrow> view tx = view db) \<and>
     (\<forall>db tx. fst (rd_commit rd db tx) = Ok () \<longrightarrow> view (snd (rd_commit rd db tx)) = view tx) \<and>
     (\<forall>db tx. view (snd (rd_commit rd db tx)) \<in> {view db, view tx})"

section \<open>The surroundings\<close>

datatype file_kind = KFile | KDir | KLink | KOther

datatype fault = NotFound string | Fault string

fun fault_message :: "fault \<Rightarrow> string" where
  "fault_message (NotFound s) = s"
| "fault_message (Fault s) = s"

record file_meta =
  fm_kind :: file_kind
  fm_len :: u64

record dir_entry =
  de_name :: string
  de_kind :: "string + file_kind"

text \<open>The parts of a verified load plan that the store reads; \<open>lp_bits\<close> is \<open>None\<close> for another kind of index.\<close>

record load_plan =
  lp_bits :: "u8 option"
  lp_row_identity :: string
  lp_dim :: u64
  lp_vector_count :: u64

record digest =
  dg_sha256 :: string
  dg_size_bytes :: u64

record store_env =
  se_json :: json_env
  se_orders :: hash_orders
  se_stat :: "string \<Rightarrow> fault + file_meta"
  se_exists :: "string \<Rightarrow> string + bool"
  se_read_dir :: "string \<Rightarrow> string + (string + dir_entry) list"
  se_lossy :: "string \<Rightarrow> string"
  se_verify_for_load :: "string \<Rightarrow> (store_error, load_plan) outcome"
  se_sha256 :: "string \<Rightarrow> (store_error, digest) outcome"
  se_now :: "nat \<Rightarrow> nat"
  se_random :: "string + u8 list"
  se_sync :: "string \<Rightarrow> string + unit"
  se_panic :: string

definition lift_sum :: "('e \<Rightarrow> store_error) \<Rightarrow> 'e + 'a \<Rightarrow> (store_error, 'a) outcome" where
  "lift_sum f r = (case r of Inl e \<Rightarrow> Err (f e) | Inr a \<Rightarrow> Ok a)"

definition ADAPTER_STORE_FILE :: string where
  "ADAPTER_STORE_FILE = ''adapter.redb''"

definition guard_against_storage_panics :: "store_env \<Rightarrow> string \<Rightarrow> (store_error, 'a) outcome \<Rightarrow> (store_error, 'a) outcome" where
  "guard_against_storage_panics env ctx r =
     (case r of
        Panic \<Rightarrow> Err (ADAPTER_STORE_FILE @ '' is corrupted or inconsistent ('' @ ctx @ ''): storage engine panicked: '' @ se_panic env)
      | _ \<Rightarrow> r)"

text \<open>The file \<open>adapter.redb\<close>.\<close>

datatype 'db store_file = NoStore fault | OtherStore file_kind | StoreDb 'db

definition validate_adapter_store_file :: "string \<Rightarrow> 'db store_file \<Rightarrow> (store_error, unit) outcome" where
  "validate_adapter_store_file path f =
     (case f of
        NoStore e \<Rightarrow> Err (ADAPTER_STORE_FILE @ '' cannot be statted at '' @ path @ '': '' @ fault_message e)
      | OtherStore k \<Rightarrow>
          if k = KLink then Err (ADAPTER_STORE_FILE @ '' must not be a symlink'')
          else Err (ADAPTER_STORE_FILE @ '' must be a file'')
      | StoreDb _ \<Rightarrow> Ok ())"

section \<open>The plain engine\<close>

text \<open>An engine whose databases are their contents: the calls never fail, except a read of a missing table.\<close>

definition plain_table :: "(db_view \<Rightarrow> 't \<Rightarrow> ('k::linorder \<times> 'v) list option) \<Rightarrow>
    ('t \<Rightarrow> ('k \<times> 'v) list \<Rightarrow> db_view \<Rightarrow> db_view) \<Rightarrow> (db_view, 't, 'k, 'v) table_api" where
  "plain_table sel put =
     \<lparr>ta_open = (\<lambda>t v. Ok (put t (rows_of (sel v t)) v)),
      ta_insert = (\<lambda>t k x v. Ok (put t (btree_insert k x (rows_of (sel v t))) v)),
      ta_retain = (\<lambda>t f v. Ok (put t (btree_retain f (rows_of (sel v t))) v)),
      ta_read = (\<lambda>t v. if sel v t = None then Err ''table does not exist'' else Ok ()),
      ta_get = (\<lambda>t k v. Ok (map_of (rows_of (sel v t)) k)),
      ta_len = (\<lambda>t v. Ok (length (rows_of (sel v t)))),
      ta_iter = (\<lambda>t v. Ok (map Ok (rows_of (sel v t))))\<rparr>"

definition plain_redb :: "db_view redb" where
  "plain_redb =
     \<lparr>rd_ss = plain_table dv_ss set_ss, rd_su = plain_table dv_su set_su, rd_us = plain_table dv_us set_us,
      rd_uu = plain_table dv_uu set_uu, rd_create = (Ok (), Some no_tables), rd_open = (\<lambda>_. Ok ()),
      rd_begin_read = (\<lambda>_. Ok ()), rd_begin_write = (\<lambda>v. Ok v), rd_commit = (\<lambda>_ tx. (Ok (), tx))\<rparr>"

definition sorted_view :: "db_view \<Rightarrow> bool" where
  "sorted_view v \<longleftrightarrow>
     (\<forall>t. btree_ok (rows_of (dv_ss v t))) \<and> (\<forall>t. btree_ok (rows_of (dv_su v t))) \<and>
     (\<forall>t. btree_ok (rows_of (dv_us v t))) \<and> (\<forall>t. btree_ok (rows_of (dv_uu v t)))"

lemma rows_of_simps [simp]: "rows_of None = []" "rows_of (Some rows) = rows"
  by (simp_all add: rows_of_def)

lemma map_Ok_inject: "map Ok xs = map Ok ys \<longleftrightarrow> xs = ys"
  by (rule inj_map_eq_map) (simp add: inj_def)

lemma plain_table_ok: "table_ok (plain_table sel put) id sel put"
  by (simp add: table_ok_def plain_table_def map_Ok_inject)

lemma plain_redb_ok: "redb_ok plain_redb id"
  by (simp add: redb_ok_def plain_redb_def plain_table_ok)

section \<open>Simulation\<close>

text \<open>
  \<open>sim R r r'\<close>: whenever \<open>r\<close> succeeds, \<open>r'\<close> succeeds with a related value. Every call of an engine with
  \<open>redb_ok\<close> is simulated by the plain engine on the view.
\<close>

named_theorems sim_intros "simulation of the parts of an operation"

definition sim :: "('a \<Rightarrow> 'b \<Rightarrow> bool) \<Rightarrow> ('e, 'a) outcome \<Rightarrow> ('e, 'b) outcome \<Rightarrow> bool" where
  "sim R r r' \<longleftrightarrow> (\<forall>a. r = Ok a \<longrightarrow> (\<exists>b. r' = Ok b \<and> R a b))"

lemma simD: "sim R r r' \<Longrightarrow> r = Ok a \<Longrightarrow> \<exists>b. r' = Ok b \<and> R a b"
  by (simp add: sim_def)

lemma sim_eqD: "sim (=) r r' \<Longrightarrow> r = Ok a \<Longrightarrow> r' = Ok a"
  by (simp add: sim_def)

lemma sim_refl [sim_intros]: "sim (=) r r"
  by (simp add: sim_def)

lemma sim_Ok: "R a b \<Longrightarrow> sim R (Ok a) (Ok b)"
  by (simp add: sim_def)

lemma sim_Err: "sim R (Err e) r"
  by (simp add: sim_def)

lemma sim_obind: "sim R m m' \<Longrightarrow> (\<And>a b. R a b \<Longrightarrow> sim S (f a) (f' b)) \<Longrightarrow> sim S (obind m f) (obind m' f')"
  by (fastforce simp: sim_def obind_eq_Ok)

lemma sim_bind_eq: "sim (=) m m' \<Longrightarrow> (\<And>a. sim S (f a) (f' a)) \<Longrightarrow> sim S (obind m f) (obind m' f')"
  by (auto simp: sim_def obind_eq_Ok)

lemma sim_if: "(c \<Longrightarrow> sim R a a') \<Longrightarrow> (\<not> c \<Longrightarrow> sim R b b') \<Longrightarrow> sim R (if c then a else b) (if c then a' else b')"
  by simp

lemma sim_table:
  assumes ok: "table_ok api view sel put"
  shows sim_read: "sim (=) (ta_read api t db) (ta_read (plain_table sel put) t (view db))"
    and sim_get: "sim (=) (ta_get api t k db) (ta_get (plain_table sel put) t k (view db))"
    and sim_len: "sim (=) (ta_len api t db) (ta_len (plain_table sel put) t (view db))"
    and sim_open: "sim (\<lambda>db' v. v = view db') (ta_open api t db) (ta_open (plain_table sel put) t (view db))"
    and sim_insert: "sim (\<lambda>db' v. v = view db') (ta_insert api t k x db) (ta_insert (plain_table sel put) t k x (view db))"
    and sim_retain: "sim (\<lambda>db' v. v = view db') (ta_retain api t f db) (ta_retain (plain_table sel put) t f (view db))"
proof -
  have "ta_read api t db = Ok () \<longrightarrow> sel (view db) t \<noteq> None" using ok unfolding table_ok_def by blast
  then show "sim (=) (ta_read api t db) (ta_read (plain_table sel put) t (view db))"
    by (auto simp: sim_def plain_table_def)
qed (use ok in \<open>auto simp: sim_def table_ok_def plain_table_def\<close>)

lemma sim_iter:
  assumes "table_ok api view sel put"
  shows "sim (\<lambda>items items'. \<forall>rows. items = map Ok rows \<longrightarrow> items' = items)
     (ta_iter api t db) (ta_iter (plain_table sel put) t (view db))"
  using assms by (auto simp: sim_def table_ok_def plain_table_def)

lemma redb_okD:
  assumes "redb_ok rd view"
  shows "table_ok (rd_ss rd) view dv_ss set_ss" "table_ok (rd_su rd) view dv_su set_su"
    "table_ok (rd_us rd) view dv_us set_us" "table_ok (rd_uu rd) view dv_uu set_uu"
  using assms by (simp_all add: redb_ok_def)

lemma plain_redb_simps [simp]:
  "rd_ss plain_redb = plain_table dv_ss set_ss" "rd_su plain_redb = plain_table dv_su set_su"
  "rd_us plain_redb = plain_table dv_us set_us" "rd_uu plain_redb = plain_table dv_uu set_uu"
  "rd_create plain_redb = (Ok (), Some no_tables)" "rd_open plain_redb v = Ok ()" "rd_begin_read plain_redb v = Ok ()"
  "rd_begin_write plain_redb v = Ok v" "rd_commit plain_redb v w = (Ok (), w)"
  by (simp_all add: plain_redb_def)

lemma plain_table_simps [simp]:
  "ta_open (plain_table sel put) t v = Ok (put t (rows_of (sel v t)) v)"
  "ta_insert (plain_table sel put) t k x v = Ok (put t (btree_insert k x (rows_of (sel v t))) v)"
  "ta_retain (plain_table sel put) t f v = Ok (put t (btree_retain f (rows_of (sel v t))) v)"
  "ta_read (plain_table sel put) t v = (if sel v t = None then Err ''table does not exist'' else Ok ())"
  "ta_get (plain_table sel put) t k v = Ok (map_of (rows_of (sel v t)) k)"
  "ta_len (plain_table sel put) t v = Ok (length (rows_of (sel v t)))"
  "ta_iter (plain_table sel put) t v = Ok (map Ok (rows_of (sel v t)))"
  by (simp_all add: plain_table_def)

end
