(* ===== verification/StoreVerify.thy ===== *)
theory StoreVerify
  imports StoreDb
begin

text \<open>
  The verification of an adapter store when it is opened (\<open>ordinaldb-adapter-store/src/lib.rs\<close>): the
  shape of the store manifest, its agreement with the payloads, the row counts, the row tables, the
  generation records and the active generation on disk.
\<close>

section \<open>The manifest\<close>

definition ADAPTER_STORE_SCHEMA_VERSION :: string where
  "ADAPTER_STORE_SCHEMA_VERSION = ''ordinaldb.adapter_store.v1''"

definition KEY_FORMAT :: string where
  "KEY_FORMAT = ''string_or_u64_v1''"

definition PAYLOAD_FORMAT :: string where
  "PAYLOAD_FORMAT = ''json_v1''"

definition is_hex_char :: "char \<Rightarrow> bool" where
  "is_hex_char c \<longleftrightarrow> (let n = of_char c :: nat in 48 \<le> n \<and> n \<le> 57 \<or> 97 \<le> n \<and> n \<le> 102 \<or> 65 \<le> n \<and> n \<le> 70)"

definition validate_store_uuid :: "string \<Rightarrow> (store_error, unit) outcome" where
  "validate_store_uuid s =
     (if length s = 36 \<and> s ! 8 = CHR ''-'' \<and> s ! 13 = CHR ''-'' \<and> s ! 18 = CHR ''-'' \<and> s ! 23 = CHR ''-'' \<and>
         s ! 14 = CHR ''4'' \<and> s ! 19 \<in> set ''89ab'' \<and>
         list_all (\<lambda>(i, c). i \<in> {8, 13, 18, 23} \<or> is_hex_char c) (enumerate 0 s)
      then Ok () else Err ''store_uuid must be a random UUIDv4 string'')"

definition validate_store_origin :: "string \<Rightarrow> (store_error, unit) outcome" where
  "validate_store_origin s =
     (if s \<in> set [''created'', ''imported_legacy_json'', ''upgraded_schema''] then Ok ()
      else Err ''origin must be one of created, imported_legacy_json, upgraded_schema'')"

definition verify_manifest_shape :: "json_env \<Rightarrow> json \<Rightarrow> string option \<Rightarrow> (store_error, unit) outcome" where
  "verify_manifest_shape je manifest expected_adapter =
     obind (require_str je manifest ''schema_version'' ADAPTER_STORE_SCHEMA_VERSION) (\<lambda>_.
     obind (obind (required_string manifest ''store_uuid'') validate_store_uuid) (\<lambda>_.
     obind (required_u64 manifest ''commit_sequence'') (\<lambda>_.
     obind (obind (required_string manifest ''origin'') validate_store_origin) (\<lambda>_.
     obind (required_bool manifest ''migrated_from_json_sidecars'') (\<lambda>_.
     obind (require_str je manifest ''key_format'' KEY_FORMAT) (\<lambda>_.
     obind (require_str je manifest ''payload_format'' PAYLOAD_FORMAT) (\<lambda>_.
     obind (require_str je manifest ''build_status'' ''complete'') (\<lambda>_.
     obind (required_bool manifest ''complete'') (\<lambda>complete.
     if \<not> complete then Err ''adapter store manifest is incomplete''
     else case expected_adapter of
       None \<Rightarrow> Ok ()
     | Some expected \<Rightarrow>
         obind (required_string manifest ''adapter_name'') (\<lambda>actual.
         if actual \<noteq> expected then
           Err (''adapter store was written by '' @ je_debug je actual @ '', not '' @ je_debug je expected)
         else Ok ()))))))))))"

definition verify_manifest_payloads :: "json \<Rightarrow> parsed_payloads \<Rightarrow> (store_error, unit) outcome" where
  "verify_manifest_payloads manifest p =
     obind (required_string manifest ''adapter_name'') (\<lambda>name.
     if name \<noteq> pp_adapter_name p then Err ''adapter_name manifest mismatch'' else
     obind (required_u64 manifest ''bits'') (\<lambda>bits.
     if bits \<noteq> ucast (pp_bits p) then Err ''bits manifest mismatch'' else
     obind
       (case (jget manifest ''dim'', pp_dim p) of
          (Some JNull, None) \<Rightarrow> Ok ()
        | (Some v, Some dim) \<Rightarrow>
            if as_u64 v = Some dim then Ok ()
            else if v = JNull then Err ''dim manifest mismatch'' else Err ''dim must be a u64 or null''
        | (Some _, None) \<Rightarrow> Err ''dim manifest mismatch''
        | _ \<Rightarrow> Err ''dim must be a u64 or null'') (\<lambda>_.
     obind (required_bool manifest ''empty_lazy'') (\<lambda>empty_lazy.
     if empty_lazy \<noteq> pp_empty_lazy p then Err ''empty_lazy manifest mismatch'' else
     obind (required_u64 manifest ''active_id_count'') (\<lambda>n.
     if unat n \<noteq> length (pp_string_to_u64 p) then Err ''active_id_count manifest mismatch'' else
     obind (required_u64 manifest ''next_u64_id'') (\<lambda>next_id.
     if next_id \<noteq> pp_next_u64_id p then Err ''next_u64_id manifest mismatch'' else
     obind (required_u64 manifest ''tombstone_count'') (\<lambda>t.
     if t \<noteq> 0 then Err ''tombstone_count manifest mismatch'' else Ok ())))))))"

definition verify_manifest_generation :: "json \<Rightarrow> generation_checkpoint \<Rightarrow> (store_error, unit) outcome" where
  "verify_manifest_generation manifest g =
     obind (required_u64 manifest ''active_generation_id'') (\<lambda>i.
     if i \<noteq> g_id g then Err ''active generation id mismatch'' else
     obind (required_string manifest ''active_generation_path'') (\<lambda>path.
     if path \<noteq> g_path g then Err ''active generation path mismatch'' else
     obind (required_u64 manifest ''vector_count'') (\<lambda>n.
     if n \<noteq> g_vector_count g then Err ''vector count mismatch''
     else if g_empty_lazy g then
       obind (required_bool manifest ''empty_lazy'') (\<lambda>empty_lazy.
       if \<not> empty_lazy then Err ''empty_lazy manifest mismatch'' else Ok ())
     else
       obind (ok_or ''generation digest missing'' (g_manifest_sha256 g)) (\<lambda>expected_digest.
       obind (required_string manifest ''active_generation_manifest_sha256'') (\<lambda>actual_digest.
       if actual_digest \<noteq> expected_digest then Err ''active generation manifest digest mismatch'' else
       obind (required_u64 manifest ''active_generation_manifest_size_bytes'') (\<lambda>bytes.
       if bytes \<noteq> (case g_manifest_size_bytes g of None \<Rightarrow> 0 | Some b \<Rightarrow> b) then
         Err ''active generation manifest size mismatch''
       else Ok ()))))))"

section \<open>Tables\<close>

definition table_len :: "('db, 't, 'k, 'v) table_api \<Rightarrow> 't \<Rightarrow> 'db \<Rightarrow> (store_error, nat) outcome" where
  "table_len api t db = obind (ta_read api t db) (\<lambda>_. ta_len api t db)"

fun read_counts :: "(string \<times> (store_error, nat) outcome) list \<Rightarrow> (store_error, (string \<times> nat) list) outcome" where
  "read_counts [] = Ok []"
| "read_counts ((name, r) # rs) = obind r (\<lambda>n. obind (read_counts rs) (\<lambda>ns. Ok ((name, n) # ns)))"

fun check_counts :: "(string \<times> json) list \<Rightarrow> (string \<times> nat) list \<Rightarrow> (store_error, unit) outcome" where
  "check_counts expected [] = Ok ()"
| "check_counts expected ((name, actual_count) # rest) =
     obind (ok_or (''table_counts.'' @ name @ '' missing'') (Option.bind (map_of expected name) as_u64)) (\<lambda>expected_count.
     if unat expected_count \<noteq> actual_count then
       Err (''table count mismatch for '' @ name @ '': expected='' @ show_nat (unat expected_count) @
            '' actual='' @ show_nat actual_count)
     else check_counts expected rest)"

definition verify_table_counts :: "'db redb \<Rightarrow> 'db \<Rightarrow> json \<Rightarrow> (store_error, unit) outcome" where
  "verify_table_counts rd db manifest =
     obind (ok_or ''adapter store table_counts must be an object''
       (Option.bind (jget manifest ''table_counts'') as_object)) (\<lambda>expected.
     obind (read_counts
       [(''meta'', table_len (rd_ss rd) META db), (''json_payloads'', table_len (rd_ss rd) JSON_PAYLOADS db),
        (''string_to_u64'', table_len (rd_su rd) STRING_TO_U64 db),
        (''u64_to_string'', table_len (rd_us rd) U64_TO_STRING db), (''u64_to_slot'', table_len (rd_uu rd) U64_TO_SLOT db),
        (''documents'', table_len (rd_us rd) DOCUMENTS db), (''metadata'', table_len (rd_us rd) METADATA db),
        (''generations'', table_len (rd_us rd) GENERATIONS db),
        (''pending_batches'', table_len (rd_ss rd) PENDING_BATCHES db), (''tombstones'', table_len (rd_us rd) TOMBSTONES db),
        (''gc_queue'', table_len (rd_us rd) GC_QUEUE db), (''audit_log'', table_len (rd_us rd) AUDIT_LOG db)]) (\<lambda>actual.
     check_counts expected actual))"

text \<open>A loop that collects the items of \<open>iter\<close> in a hash map, and \<open>==\<close> of hash maps.\<close>

fun collect_items :: "(store_error, 'k \<times> 'v) outcome list \<Rightarrow> ('k \<times> 'v) list \<Rightarrow> (store_error, ('k \<times> 'v) list) outcome" where
  "collect_items [] seen = Ok seen"
| "collect_items (item # items) seen = obind item (\<lambda>(k, v). collect_items items (hash_insert k v seen))"

definition read_items :: "('db, 't, 'k, 'v) table_api \<Rightarrow> 't \<Rightarrow> 'db \<Rightarrow> (store_error, ('k \<times> 'v) list) outcome" where
  "read_items api t db = obind (ta_read api t db) (\<lambda>_. obind (ta_iter api t db) (\<lambda>items. collect_items items []))"

definition hash_eq :: "('k \<times> 'v) list \<Rightarrow> ('k \<times> 'v) list \<Rightarrow> bool" where
  "hash_eq m n \<longleftrightarrow> length m = length n \<and> list_all (\<lambda>(k, v). map_of n k = Some v) m"

definition hash_collect :: "('k \<times> 'v) list \<Rightarrow> ('k \<times> 'v) list" where
  "hash_collect kvs = fold (\<lambda>(k, v). hash_insert k v) kvs []"

fun verify_documents :: "'db redb \<Rightarrow> 'db \<Rightarrow> parsed_payloads \<Rightarrow> (string \<times> string) list \<Rightarrow> (store_error, unit) outcome" where
  "verify_documents rd db p [] = Ok ()"
| "verify_documents rd db p ((string_id, expected) # docs) =
     obind (u64_for_string p string_id) (\<lambda>u64_id.
     obind (obind (ta_get (rd_us rd) DOCUMENTS u64_id db) (ok_or ''document table is missing active ID'')) (\<lambda>actual.
     if actual \<noteq> expected then Err ''document table does not match payload''
     else verify_documents rd db p docs))"

fun verify_metadata :: "json_env \<Rightarrow> 'db redb \<Rightarrow> 'db \<Rightarrow> parsed_payloads \<Rightarrow> (string \<times> json) list \<Rightarrow> (store_error, unit) outcome" where
  "verify_metadata je rd db p [] = Ok ()"
| "verify_metadata je rd db p ((string_id, expected) # metas) =
     obind (u64_for_string p string_id) (\<lambda>u64_id.
     obind (obind (ta_get (rd_us rd) METADATA u64_id db) (ok_or ''metadata table is missing active ID'')) (\<lambda>actual.
     obind (parse_json_object je actual ''metadata table row'') (\<lambda>v.
     if \<not> json_eq v expected then Err ''metadata table does not match payload''
     else verify_metadata je rd db p metas)))"

definition verify_tables_match_payloads :: "json_env \<Rightarrow> 'db redb \<Rightarrow> 'db \<Rightarrow> parsed_payloads \<Rightarrow> (store_error, unit) outcome" where
  "verify_tables_match_payloads je rd db p =
     obind (read_items (rd_su rd) STRING_TO_U64 db) (\<lambda>seen_strings.
     if \<not> hash_eq seen_strings (pp_string_to_u64 p) then Err ''string_to_u64 table does not match payload'' else
     obind (read_items (rd_us rd) U64_TO_STRING db) (\<lambda>seen_reverse.
     if \<not> hash_eq seen_reverse (hash_collect (map (\<lambda>(s, i). (i, s)) (pp_string_to_u64 p))) then
       Err ''u64_to_string table does not match payload'' else
     obind (read_items (rd_uu rd) U64_TO_SLOT db) (\<lambda>seen_slots.
     if \<not> hash_eq seen_slots (pp_u64_to_slot p) then Err ''u64_to_slot table does not match payload'' else
     obind (ta_read (rd_us rd) DOCUMENTS db) (\<lambda>_.
     obind (verify_documents rd db p (pp_documents p)) (\<lambda>_.
     obind (ta_read (rd_us rd) METADATA db) (\<lambda>_.
     verify_metadata je rd db p (pp_metadata p)))))))"

section \<open>Generation records\<close>

fun scan_generation_records :: "json_env \<Rightarrow> generation_checkpoint \<Rightarrow> (store_error, u64 \<times> string) outcome list \<Rightarrow> nat \<Rightarrow>
    (store_error, nat) outcome" where
  "scan_generation_records je g [] active_rows = Ok active_rows"
| "scan_generation_records je g (item # items) active_rows =
     obind item (\<lambda>(generation_id, raw).
     obind (parse_json_object je raw ''generation table row'') (\<lambda>r.
     obind (required_u64 r ''generation_id'') (\<lambda>i.
     if i \<noteq> generation_id then Err ''generation table key does not match generation_id'' else
     obind (required_string r ''state'') (\<lambda>state.
     if \<not> is_valid_generation_record_state state then Err (''invalid generation lifecycle state: '' @ state)
     else if state = GENERATION_STATE_ACTIVE then
       if generation_id \<noteq> g_id g then Err ''non-current generation is marked active'' else
       obind (required_string r ''path'') (\<lambda>path.
       if path \<noteq> g_path g then Err ''active generation record path mismatch''
       else scan_generation_records je g items (active_rows + 1))
     else if generation_id = g_id g then Err ''current generation is not marked active''
     else scan_generation_records je g items active_rows))))"

definition verify_generation_records :: "json_env \<Rightarrow> 'db redb \<Rightarrow> 'db \<Rightarrow> generation_checkpoint \<Rightarrow> (store_error, unit) outcome" where
  "verify_generation_records je rd db g =
     obind (ta_read (rd_us rd) GENERATIONS db) (\<lambda>_.
     obind (ta_iter (rd_us rd) GENERATIONS db) (\<lambda>items.
     obind (scan_generation_records je g items 0) (\<lambda>active_rows.
     if g_empty_lazy g then
       (if active_rows \<noteq> 0 then Err ''empty lazy store must not have active generation rows'' else Ok ())
     else if active_rows \<noteq> 1 then Err ''generation table must contain exactly one active generation''
     else Ok ())))"

section \<open>The active generation on disk\<close>

definition MANIFEST_FILE :: string where
  "MANIFEST_FILE = ''manifest.json''"

definition ROW_IDENTITY_KIND :: string where
  "ROW_IDENTITY_KIND = ''row_id_identity''"

definition MAX_GENERATION_MANIFEST_BYTES :: nat where
  "MAX_GENERATION_MANIFEST_BYTES = 1024 * 1024"

fun walk_generation_path :: "store_env \<Rightarrow> string \<Rightarrow> component list \<Rightarrow> string \<Rightarrow> (store_error, string) outcome" where
  "walk_generation_path env index_path [] current = Ok current"
| "walk_generation_path env index_path (Normal part # rest) current =
     (let path = path_join current part in
      case se_stat env path of
        Inl (NotFound _) \<Rightarrow> Err (''active generation path is missing: '' @ path)
      | Inl (Fault e) \<Rightarrow> Err (''cannot stat active generation path component '' @ path @ '': '' @ e)
      | Inr m \<Rightarrow>
          if fm_kind m = KLink then Err (''active generation path must not contain a symlink: '' @ path)
          else if fm_kind m \<noteq> KDir then Err (''active generation path component must be a directory: '' @ path)
          else walk_generation_path env index_path rest path)"
| "walk_generation_path env index_path (_ # rest) current = Err (invalid_index_path (se_json env) index_path)"

definition active_generation_manifest_path :: "store_env \<Rightarrow> string \<Rightarrow> string \<Rightarrow> (store_error, string) outcome" where
  "active_generation_manifest_path env root index_path =
     obind (validate_index_path (se_json env) index_path) (\<lambda>_.
     obind (walk_generation_path env index_path (components index_path) root) (\<lambda>current.
     Ok (path_join current MANIFEST_FILE)))"

definition validate_generation_manifest_file :: "store_env \<Rightarrow> string \<Rightarrow> (store_error, unit) outcome" where
  "validate_generation_manifest_file env path =
     obind (lift_sum fault_message (se_stat env path)) (\<lambda>m.
     if fm_kind m = KLink then Err (''generation manifest must not be a symlink: '' @ path)
     else if fm_kind m \<noteq> KFile then Err (''generation manifest must be a file: '' @ path)
     else if unat (fm_len m) > MAX_GENERATION_MANIFEST_BYTES then
       Err (''generation manifest too large: '' @ show_nat (unat (fm_len m)) @ '' bytes exceeds '' @
            show_nat MAX_GENERATION_MANIFEST_BYTES)
     else Ok ())"

text \<open>Paths are compared by their components; the two candidate paths are compared before they are probed.\<close>

fun reject_candidates :: "store_env \<Rightarrow> string \<Rightarrow> string option \<Rightarrow> component list list \<Rightarrow> string list \<Rightarrow> (store_error, unit) outcome" where
  "reject_candidates env root allowed seen [] = Ok ()"
| "reject_candidates env root allowed seen (relative # rest) =
     (let path = path_join root relative in
      if components path \<in> set seen then reject_candidates env root allowed seen rest
      else
        obind (lift_sum id (se_exists env path)) (\<lambda>e.
        if e \<and> Some relative \<noteq> allowed then Err (''empty_lazy adapter store must not contain '' @ relative)
        else reject_candidates env root allowed (components path # seen) rest))"

fun reject_entries :: "store_env \<Rightarrow> string \<Rightarrow> component list option \<Rightarrow> (string + dir_entry) list \<Rightarrow> (store_error, unit) outcome" where
  "reject_entries env vectors_root allowed_path [] = Ok ()"
| "reject_entries env vectors_root allowed_path (entry # entries) =
     obind (lift_sum id entry) (\<lambda>e.
     if Some (components (path_join vectors_root (de_name e))) = allowed_path then
       reject_entries env vectors_root allowed_path entries
     else
       obind (lift_sum id (de_kind e)) (\<lambda>k.
       if k = KLink \<or> parse_generation_dir (se_lossy env (de_name e)) \<noteq> None then
         Err (''empty_lazy adapter store must not contain '' @ VECTORS_DIR)
       else reject_entries env vectors_root allowed_path entries))"

definition starts_with_path :: "string \<Rightarrow> string \<Rightarrow> bool" where
  "starts_with_path path base \<longleftrightarrow> take (length (components base)) (components path) = components base"

definition reject_empty_lazy_vector_artifacts :: "store_env \<Rightarrow> string \<Rightarrow> string \<Rightarrow> string option \<Rightarrow> (store_error, unit) outcome" where
  "reject_empty_lazy_vector_artifacts env root index_path allowed =
     obind (reject_candidates env root allowed [] [index_path, INDEX_DIR]) (\<lambda>_.
     let vectors_root = path_join root VECTORS_DIR in
     obind (lift_sum id (se_exists env vectors_root)) (\<lambda>e.
     if \<not> e then Ok ()
     else
       let allowed_path = Option.bind allowed (\<lambda>a.
         let path = path_join root a in
         if starts_with_path path vectors_root then Some (components path) else None)
       in obind (lift_sum id (se_read_dir env vectors_root)) (\<lambda>entries.
          reject_entries env vectors_root allowed_path entries)))"

definition active_generation_checkpoint :: "store_env \<Rightarrow> string \<Rightarrow> parsed_payloads \<Rightarrow> string option \<Rightarrow>
    (store_error, generation_checkpoint) outcome" where
  "active_generation_checkpoint env root p allowed =
     (if pp_empty_lazy p then
        obind (reject_empty_lazy_vector_artifacts env root (pp_index_path p) allowed) (\<lambda>_.
        Ok \<lparr>g_id = 0, g_path = [], g_empty_lazy = True, g_bits = pp_bits p, g_dim = 0, g_vector_count = 0,
            g_manifest_sha256 = None, g_manifest_size_bytes = None,
            g_json = jobject [(''generation_id'', jnum 0), (''empty_lazy'', JBool True), (''path'', JNull),
              (''vector_count'', jnum 0), (''state'', JString GENERATION_STATE_ACTIVE)]\<rparr>)
      else
        obind (active_generation_manifest_path env root (pp_index_path p)) (\<lambda>manifest_path.
        obind (validate_generation_manifest_file env manifest_path) (\<lambda>_.
        obind (se_verify_for_load env manifest_path) (\<lambda>plan.
        obind (ok_or ''active generation must describe a RankQuant index'' (lp_bits plan)) (\<lambda>bits.
        if lp_row_identity plan \<noteq> ROW_IDENTITY_KIND then
          Err (''active generation must use '' @ ROW_IDENTITY_KIND @ '' row identity'')
        else
          obind (generation_id_from_index_path (se_json env) (pp_index_path p)) (\<lambda>generation_id.
          obind (se_sha256 env manifest_path) (\<lambda>dg.
          Ok \<lparr>g_id = generation_id, g_path = pp_index_path p, g_empty_lazy = False, g_bits = bits,
              g_dim = lp_dim plan, g_vector_count = lp_vector_count plan,
              g_manifest_sha256 = Some (dg_sha256 dg), g_manifest_size_bytes = Some (dg_size_bytes dg),
              g_json = jobject [(''generation_id'', jnum generation_id), (''path'', JString (pp_index_path p)),
                (''state'', JString GENERATION_STATE_ACTIVE), (''manifest_sha256'', JString (dg_sha256 dg)),
                (''manifest_size_bytes'', jnum (dg_size_bytes dg)), (''bits'', jnum (ucast bits)),
                (''dim'', jnum (lp_dim plan)), (''vector_count'', jnum (lp_vector_count plan)),
                (''row_identity'', JString ROW_IDENTITY_KIND)]\<rparr>)))))))"

section \<open>Opening a store\<close>

record verified_store =
  vs_manifest :: json
  vs_payloads :: legacy_payloads

definition required_payload :: "json_env \<Rightarrow> 'db redb \<Rightarrow> 'db \<Rightarrow> string \<Rightarrow> (store_error, string) outcome" where
  "required_payload je rd db key =
     obind (ta_get (rd_ss rd) JSON_PAYLOADS key db) (ok_or (''json payload '' @ je_debug je key @ '' missing''))"

definition read_manifest :: "json_env \<Rightarrow> 'db redb \<Rightarrow> 'db \<Rightarrow> (store_error, json) outcome" where
  "read_manifest je rd db =
     obind (ta_read (rd_ss rd) META db) (\<lambda>_.
     obind (obind (ta_get (rd_ss rd) META ''manifest'' db) (ok_or ''adapter store manifest missing'')) (\<lambda>s.
     parse_json_object je s ''adapter store manifest''))"

definition read_payloads :: "json_env \<Rightarrow> 'db redb \<Rightarrow> 'db \<Rightarrow> (store_error, legacy_payloads) outcome" where
  "read_payloads je rd db =
     obind (ta_read (rd_ss rd) JSON_PAYLOADS db) (\<lambda>_.
     obind (required_payload je rd db ''adapter'') (\<lambda>a.
     obind (required_payload je rd db ''id_map'') (\<lambda>i.
     obind (required_payload je rd db ''documents'') (\<lambda>d.
     obind (required_payload je rd db ''metadata'') (\<lambda>m.
     Ok \<lparr>adapter_json = a, id_map_json = i, documents_json = d, metadata_json = m\<rparr>)))))"

definition verify_database :: "store_env \<Rightarrow> 'db redb \<Rightarrow> string \<Rightarrow> string option \<Rightarrow> string option \<Rightarrow> 'db \<Rightarrow>
    (store_error, verified_store) outcome" where
  "verify_database env rd root expected_adapter allowed db =
     obind (rd_open rd db) (\<lambda>_.
     obind (rd_begin_read rd db) (\<lambda>_.
     obind (read_manifest (se_json env) rd db) (\<lambda>manifest.
     obind (verify_manifest_shape (se_json env) manifest expected_adapter) (\<lambda>_.
     obind (read_payloads (se_json env) rd db) (\<lambda>payloads.
     obind (parse_payloads (se_json env) (se_orders env) payloads) (\<lambda>parsed.
     obind (verify_manifest_payloads manifest parsed) (\<lambda>_.
     obind (verify_table_counts rd db manifest) (\<lambda>_.
     obind (active_generation_checkpoint env root parsed allowed) (\<lambda>generation.
     obind (verify_tables_match_payloads (se_json env) rd db parsed) (\<lambda>_.
     obind (verify_generation_records (se_json env) rd db generation) (\<lambda>_.
     obind (validate_against_generation parsed generation) (\<lambda>_.
     obind (verify_manifest_generation manifest generation) (\<lambda>_.
     Ok \<lparr>vs_manifest = manifest, vs_payloads = payloads\<rparr>)))))))))))))"

definition open_verified_at_store_file :: "store_env \<Rightarrow> 'db redb \<Rightarrow> string \<Rightarrow> string option \<Rightarrow> string option \<Rightarrow>
    'db store_file \<Rightarrow> (store_error, verified_store) outcome" where
  "open_verified_at_store_file env rd root expected_adapter allowed f =
     obind (validate_adapter_store_file (path_join root ADAPTER_STORE_FILE) f) (\<lambda>_.
     guard_against_storage_panics env ''opening and verifying the store''
       (case f of StoreDb db \<Rightarrow> verify_database env rd root expected_adapter allowed db | _ \<Rightarrow> Panic))"

definition open_verified :: "store_env \<Rightarrow> 'db redb \<Rightarrow> string \<Rightarrow> string option \<Rightarrow> 'db store_file \<Rightarrow>
    (store_error, verified_store) outcome" where
  "open_verified env rd root expected_adapter f =
     open_verified_at_store_file env rd root expected_adapter None f"

definition current_verified_store :: "store_env \<Rightarrow> 'db redb \<Rightarrow> string \<Rightarrow> string option \<Rightarrow> 'db store_file \<Rightarrow>
    (store_error, verified_store option) outcome" where
  "current_verified_store env rd root allowed f =
     (case f of
        NoStore (NotFound _) \<Rightarrow> Ok None
      | NoStore (Fault e) \<Rightarrow>
          Err (ADAPTER_STORE_FILE @ '' cannot be statted at '' @ path_join root ADAPTER_STORE_FILE @ '': '' @ e)
      | _ \<Rightarrow> obind (open_verified_at_store_file env rd root None allowed f) (\<lambda>v. Ok (Some v)))"

section \<open>Simulation by the plain engine\<close>

lemma sim_table_len: "table_ok api view sel put \<Longrightarrow> sim (=) (table_len api t db) (table_len (plain_table sel put) t (view db))"
  unfolding table_len_def by (intro sim_bind_eq sim_read sim_len)

lemma sim_read_counts:
  "list_all2 (\<lambda>(n, r) (n', r'). n = n' \<and> sim (=) r r') rs rs' \<Longrightarrow> sim (=) (read_counts rs) (read_counts rs')"
  by (induction rs rs' rule: list_all2_induct) (auto intro!: sim_bind_eq sim_refl)

lemma sim_table_counts:
  "redb_ok rd view \<Longrightarrow> sim (=) (verify_table_counts rd db manifest) (verify_table_counts plain_redb (view db) manifest)"
  unfolding verify_table_counts_def
  by (intro sim_bind_eq sim_refl sim_read_counts) (simp add: sim_table_len redb_okD)

lemma collect_items_Ok:
  "collect_items items seen = Ok r \<Longrightarrow> \<exists>rows. items = map Ok rows \<and> r = fold (\<lambda>(k, v). hash_insert k v) rows seen"
proof (induction items seen rule: collect_items.induct)
  case (2 item items seen)
  then obtain k v where kv: "item = Ok (k, v)" "collect_items items (hash_insert k v seen) = Ok r"
    by (auto simp: obind_eq_Ok)
  then obtain rows where "items = map Ok rows" "r = fold (\<lambda>(k, v). hash_insert k v) rows (hash_insert k v seen)"
    using "2.IH" by blast
  then show ?case using kv by (intro exI [of _ "(k, v) # rows"]) simp
qed simp

lemma sim_read_items:
  assumes ok: "table_ok api view sel put"
  shows "sim (=) (read_items api t db) (read_items (plain_table sel put) t (view db))"
  unfolding read_items_def
  by (rule sim_bind_eq [OF sim_read [OF ok]], rule sim_obind [OF sim_iter [OF ok]])
    (auto simp: sim_def dest: collect_items_Ok)

lemma sim_documents:
  "redb_ok rd view \<Longrightarrow> sim (=) (verify_documents rd db p docs) (verify_documents plain_redb (view db) p docs)"
proof (induction docs)
  case (Cons d docs)
  obtain s x where d: "d = (s, x)" by fastforce
  show ?case
    unfolding d verify_documents.simps plain_redb_simps
    by (intro sim_bind_eq sim_refl sim_get sim_if redb_okD [OF Cons.prems]) (use Cons in simp)
qed (simp add: sim_refl)

lemma sim_metadata:
  "redb_ok rd view \<Longrightarrow> sim (=) (verify_metadata je rd db p metas) (verify_metadata je plain_redb (view db) p metas)"
proof (induction metas)
  case (Cons d metas)
  obtain s x where d: "d = (s, x)" by fastforce
  show ?case
    unfolding d verify_metadata.simps plain_redb_simps
    by (intro sim_bind_eq sim_refl sim_get sim_if redb_okD [OF Cons.prems]) (use Cons in simp)
qed (simp add: sim_refl)

lemma sim_tables_match:
  assumes "redb_ok rd view"
  shows "sim (=) (verify_tables_match_payloads je rd db p) (verify_tables_match_payloads je plain_redb (view db) p)"
  unfolding verify_tables_match_payloads_def plain_redb_simps
  by (intro sim_bind_eq sim_if sim_refl sim_read sim_read_items redb_okD [OF assms])
    (use sim_documents [OF assms] sim_metadata [OF assms] in simp_all)

lemma scan_records_Ok: "scan_generation_records je g items n = Ok r \<Longrightarrow> \<exists>rows. items = map Ok rows"
proof (induction items arbitrary: n)
  case (Cons item items)
  then obtain i raw m where i: "item = Ok (i, raw)" "scan_generation_records je g items m = Ok r"
    by (auto simp: obind_eq_Ok split: if_splits)
  then obtain rows where "items = map Ok rows" using Cons.IH by blast
  then show ?case using i(1) by (intro exI [of _ "(i, raw) # rows"]) simp
qed simp

lemma sim_generation_records:
  assumes "redb_ok rd view"
  shows "sim (=) (verify_generation_records je rd db g) (verify_generation_records je plain_redb (view db) g)"
  unfolding verify_generation_records_def plain_redb_simps
proof (rule sim_bind_eq [OF sim_read [OF redb_okD(3) [OF assms]]], rule sim_obind [OF sim_iter [OF redb_okD(3) [OF assms]]],
    rule sim_bind_eq [OF _ sim_refl])
  fix a :: "(store_error, u64 \<times> string) outcome list" and b
  assume "\<forall>rows. a = map Ok rows \<longrightarrow> b = a"
  then show "sim (=) (scan_generation_records je g a 0) (scan_generation_records je g b 0)"
    by (auto simp: sim_def dest: scan_records_Ok)
qed

lemma sim_read_manifest:
  "redb_ok rd view \<Longrightarrow> sim (=) (read_manifest je rd db) (read_manifest je plain_redb (view db))"
  unfolding read_manifest_def plain_redb_simps by (intro sim_bind_eq sim_refl sim_read sim_get redb_okD)

lemma sim_read_payloads:
  "redb_ok rd view \<Longrightarrow> sim (=) (read_payloads je rd db) (read_payloads je plain_redb (view db))"
  unfolding read_payloads_def required_payload_def plain_redb_simps
  by (intro sim_bind_eq sim_refl sim_read sim_get redb_okD)

lemma sim_verify_database:
  assumes "redb_ok rd view"
  shows "sim (=) (verify_database env rd root e a db) (verify_database env plain_redb root e a (view db))"
proof -
  have "sim (=) (rd_open rd db) (rd_open plain_redb (view db))"
      "sim (=) (rd_begin_read rd db) (rd_begin_read plain_redb (view db))"
    by (simp_all add: sim_def)
  then show ?thesis
    unfolding verify_database_def
    by (intro sim_bind_eq sim_refl sim_read_manifest [OF assms] sim_read_payloads [OF assms]
        sim_table_counts [OF assms] sim_tables_match [OF assms] sim_generation_records [OF assms])
qed

section \<open>What verification establishes\<close>

lemma hash_collect_distinct:
  assumes "distinct (map fst rows)"
  shows "hash_collect rows = rev rows"
proof -
  have "fold (\<lambda>(k, v). hash_insert k v) rows m = rev rows @ m" if "distinct (map fst (rows @ m))" for m :: "('a \<times> 'b) list"
    using that
  proof (induction rows arbitrary: m)
    case (Cons p rows)
    obtain k x where p: "p = (k, x)" by fastforce
    have k: "k \<notin> fst ` set m" using Cons.prems p by auto
    then have "filter (\<lambda>(k', _). k' \<noteq> k) m = m" by (induction m) auto
    then have "hash_insert k x m = (k, x) # m" by (simp add: hash_insert_def)
    then show ?case using Cons.IH [of "(k, x) # m"] Cons.prems p by auto
  qed simp
  from this [of "[]"] show ?thesis using assms by (simp add: hash_collect_def)
qed

lemma hash_eq_mset:
  assumes "distinct (map fst m)" and "distinct (map fst n)"
  shows "hash_eq m n \<longleftrightarrow> mset m = mset n"
proof -
  have d: "distinct m" "distinct n" using assms by (simp_all only: distinct_map simp_thms)
  have sub: "list_all (\<lambda>(k, v). map_of n k = Some v) m \<longleftrightarrow> set m \<subseteq> set n"
    using assms(2) by (auto simp: list_all_iff)
  have "length m = length n \<and> set m \<subseteq> set n \<longleftrightarrow> set m = set n"
    using distinct_card [OF d(1)] distinct_card [OF d(2)] by (metis List.finite_set card_subset_eq subset_refl)
  then show ?thesis using d by (simp add: hash_eq_def sub set_eq_iff_mset_eq_distinct)
qed

text \<open>The rows of a table that holds a hash map.\<close>

definition map_rows :: "('k::linorder \<times> 'v) list \<Rightarrow> ('k \<times> 'v) list" where
  "map_rows m = btree_inserts m []"

lemma map_rows_ok [simp]: "btree_ok (map_rows m)"
  by (simp add: map_rows_def)

lemma mset_map_rows: "distinct (map fst m) \<Longrightarrow> mset (map_rows m) = mset m"
  by (simp add: map_rows_def mset_btree_inserts)

lemma map_rows_unique: "btree_ok rows \<Longrightarrow> distinct (map fst m) \<Longrightarrow> mset rows = mset m \<longleftrightarrow> rows = map_rows m"
proof
  assume a: "btree_ok rows" "distinct (map fst m)" "mset rows = mset m"
  have "map_of rows = map_of m" by (rule mset_map_of [OF a(3,2)])
  also have "\<dots> = map_of (map_rows m)" by (rule mset_map_of [symmetric]) (simp_all add: a mset_map_rows)
  finally show "rows = map_rows m" using a(1) by (intro btree_ext) simp_all
qed (simp add: mset_map_rows)

lemma read_items_match:
  assumes rows: "btree_ok (rows_of (sel v t))" and m: "distinct (map fst m)"
  shows "(\<exists>seen. read_items (plain_table sel put) t v = Ok seen \<and> hash_eq seen m) \<longleftrightarrow> sel v t = Some (map_rows m)"
proof (cases "sel v t")
  case None
  then show ?thesis by (simp add: read_items_def)
next
  case (Some rows)
  have ok: "btree_ok rows" using assms(1) Some by simp
  note d = btree_ok_distinct [OF ok]
  have run: "collect_items (map Ok rows) seen = Ok (fold (\<lambda>(k, x). hash_insert k x) rows seen)" for seen
    by (induction rows arbitrary: seen) auto
  have "read_items (plain_table sel put) t v = Ok (hash_collect rows)"
    using Some by (simp add: read_items_def run hash_collect_def)
  moreover have "hash_eq (rev rows) m \<longleftrightarrow> mset rows = mset m"
    using hash_eq_mset [of "rev rows" m] d m by (simp only: rev_map [symmetric] distinct_rev mset_rev)
  ultimately show ?thesis
    using map_rows_unique [OF ok m] Some by (simp add: hash_collect_distinct [OF d])
qed

definition swapped :: "('a \<times> 'b) list \<Rightarrow> ('b \<times> 'a) list" where
  "swapped m = map (\<lambda>(a, b). (b, a)) m"

lemma swapped_keys: "map fst (swapped m) = map snd m" "map snd (swapped m) = map fst m"
  by (induction m) (auto simp: swapped_def)

definition id_of :: "parsed_payloads \<Rightarrow> string \<Rightarrow> u64" where
  "id_of p s = the (map_of (pp_string_to_u64 p) s)"

definition tables_hold :: "json_env \<Rightarrow> db_view \<Rightarrow> parsed_payloads \<Rightarrow> bool" where
  "tables_hold je v p \<longleftrightarrow>
     dv_su v STRING_TO_U64 = Some (map_rows (pp_string_to_u64 p)) \<and>
     dv_us v U64_TO_STRING = Some (map_rows (swapped (pp_string_to_u64 p))) \<and>
     dv_uu v U64_TO_SLOT = Some (map_rows (pp_u64_to_slot p)) \<and>
     dv_us v DOCUMENTS \<noteq> None \<and>
     (\<forall>(s, d)\<in>set (pp_documents p). map_of (rows_of (dv_us v DOCUMENTS)) (id_of p s) = Some d) \<and>
     dv_us v METADATA \<noteq> None \<and>
     (\<forall>(s, m)\<in>set (pp_metadata p). \<exists>raw w. map_of (rows_of (dv_us v METADATA)) (id_of p s) = Some raw \<and>
        parse_json_object je raw ''metadata table row'' = Ok w \<and> json_eq w m)"

lemma u64_for_string_Ok: "s \<in> keys_of (pp_string_to_u64 p) \<Longrightarrow> u64_for_string p s = Ok (id_of p s)"
  using keys_of_dom [of "pp_string_to_u64 p"] by (force simp: u64_for_string_def id_of_def)

lemma verify_documents_plain:
  "keys_of docs \<subseteq> keys_of (pp_string_to_u64 p) \<Longrightarrow>
     verify_documents plain_redb v p docs = Ok () \<longleftrightarrow>
       (\<forall>(s, d)\<in>set docs. map_of (rows_of (dv_us v DOCUMENTS)) (id_of p s) = Some d)"
proof (induction docs)
  case (Cons x docs)
  obtain s d where x: "x = (s, d)" by fastforce
  have "u64_for_string p s = Ok (id_of p s)" using Cons.prems x by (intro u64_for_string_Ok) simp
  then show ?case
    using Cons x by (cases "map_of (rows_of (dv_us v DOCUMENTS)) (id_of p s)") auto
qed simp

lemma verify_metadata_plain:
  "keys_of metas \<subseteq> keys_of (pp_string_to_u64 p) \<Longrightarrow>
     verify_metadata je plain_redb v p metas = Ok () \<longleftrightarrow>
       (\<forall>(s, m)\<in>set metas. \<exists>raw w. map_of (rows_of (dv_us v METADATA)) (id_of p s) = Some raw \<and>
          parse_json_object je raw ''metadata table row'' = Ok w \<and> json_eq w m)"
proof (induction metas)
  case (Cons x metas)
  obtain s m where x: "x = (s, m)" by fastforce
  have "u64_for_string p s = Ok (id_of p s)" using Cons.prems x by (intro u64_for_string_Ok) simp
  then show ?case
    using Cons x by (cases "map_of (rows_of (dv_us v METADATA)) (id_of p s)") (auto simp: obind_eq_Ok)
qed simp

lemma verify_tables_plain:
  assumes sorted: "sorted_view v" and ok: "payloads_ok p"
  shows "verify_tables_match_payloads je plain_redb v p = Ok () \<longleftrightarrow> tables_hold je v p"
proof -
  have d: "distinct (map fst (pp_string_to_u64 p))" "distinct (map fst (swapped (pp_string_to_u64 p)))"
      "distinct (map fst (pp_u64_to_slot p))"
    using ok by (simp_all add: payloads_ok_def swapped_keys)
  have keys: "keys_of (pp_documents p) \<subseteq> keys_of (pp_string_to_u64 p)" "keys_of (pp_metadata p) \<subseteq> keys_of (pp_string_to_u64 p)"
    using ok by (simp_all add: payloads_ok_def)
  have rows: "btree_ok (rows_of (dv_su v STRING_TO_U64))" "btree_ok (rows_of (dv_us v U64_TO_STRING))"
      "btree_ok (rows_of (dv_uu v U64_TO_SLOT))"
    using sorted by (simp_all add: sorted_view_def)
  have collect: "hash_collect (map (\<lambda>(s, i). (i, s)) (pp_string_to_u64 p)) = rev (swapped (pp_string_to_u64 p))"
    using hash_collect_distinct [OF d(2)] by (simp add: swapped_def)
  have eq_rev: "hash_eq seen (rev m) \<longleftrightarrow> hash_eq seen m" if "distinct (map fst m)" for seen m :: "(u64 \<times> string) list"
  proof -
    have "map_of (rev m) = map_of m" by (rule mset_map_of) (simp_all add: that)
    then show ?thesis by (simp add: hash_eq_def)
  qed
  show ?thesis
    unfolding verify_tables_match_payloads_def tables_hold_def collect plain_redb_simps
      read_items_match [where sel = dv_su and v = v and t = STRING_TO_U64 and put = set_su, OF rows(1) d(1), symmetric]
      read_items_match [where sel = dv_us and v = v and t = U64_TO_STRING and put = set_us, OF rows(2) d(2), symmetric]
      read_items_match [where sel = dv_uu and v = v and t = U64_TO_SLOT and put = set_uu, OF rows(3) d(3), symmetric]
      verify_documents_plain [OF keys(1), symmetric] verify_metadata_plain [OF keys(2), symmetric]
    by (auto simp: obind_eq_Ok eq_rev [OF d(2)] split: if_splits)
qed

text \<open>
  The generation table of a verified store: each row is the record of its key; the row of the active
  generation, which exists unless the store is \<open>empty_lazy\<close>, is active, and every other row is retired.
\<close>

definition record_holds :: "json_env \<Rightarrow> generation_checkpoint \<Rightarrow> u64 \<Rightarrow> string \<Rightarrow> bool" where
  "record_holds je g i raw \<longleftrightarrow>
     (\<exists>r. parse_json_object je raw ''generation table row'' = Ok r \<and> required_u64 r ''generation_id'' = Ok i \<and>
        (if i = g_id g
         then required_string r ''state'' = Ok GENERATION_STATE_ACTIVE \<and> required_string r ''path'' = Ok (g_path g)
         else required_string r ''state'' = Ok GENERATION_STATE_RETIRED))"

definition records_hold :: "json_env \<Rightarrow> db_view \<Rightarrow> generation_checkpoint \<Rightarrow> bool" where
  "records_hold je v g \<longleftrightarrow>
     (\<exists>rows. dv_us v GENERATIONS = Some rows \<and> (\<forall>(i, raw)\<in>set rows. record_holds je g i raw) \<and>
        (g_id g \<in> keys_of rows \<longleftrightarrow> \<not> g_empty_lazy g))"

lemma scan_rows:
  "scan_generation_records je g (map Ok rows) n = Ok r \<longleftrightarrow>
     (\<forall>(i, raw)\<in>set rows. record_holds je g i raw) \<and> r = n + count_list (map fst rows) (g_id g)"
proof (induction rows arbitrary: n)
  case (Cons row rows)
  obtain i raw where row: "row = (i, raw)" by fastforce
  have state: "is_valid_generation_record_state s \<longleftrightarrow> s = GENERATION_STATE_ACTIVE \<or> s = GENERATION_STATE_RETIRED" for s
    by (auto simp: is_valid_generation_record_state_def)
  have diff: "GENERATION_STATE_RETIRED \<noteq> GENERATION_STATE_ACTIVE"
    by (simp add: GENERATION_STATE_RETIRED_def GENERATION_STATE_ACTIVE_def)
  have step: "scan_generation_records je g (map Ok (row # rows)) n = Ok r \<longleftrightarrow>
      record_holds je g i raw \<and> scan_generation_records je g (map Ok rows) (if i = g_id g then n + 1 else n) = Ok r"
    using diff not_sym [OF diff]
    by (cases "i = g_id g") (auto simp: row record_holds_def obind_eq_Ok state conj_disj_distribR ex_disj_distrib)
  show ?case unfolding step Cons.IH by (auto simp: row)
qed auto

lemma count_distinct: "distinct ks \<Longrightarrow> count_list ks k = (if k \<in> set ks then 1 else 0)"
  by (induction ks) auto

lemma verify_records_plain:
  assumes "sorted_view v"
  shows "verify_generation_records je plain_redb v g = Ok () \<longleftrightarrow> records_hold je v g"
proof (cases "dv_us v GENERATIONS")
  case None
  then show ?thesis by (simp add: verify_generation_records_def records_hold_def)
next
  case (Some rows)
  have "btree_ok (rows_of (dv_us v GENERATIONS))" using assms by (simp add: sorted_view_def)
  then have "distinct (map fst rows)" using btree_ok_distinct Some by force
  then have n: "count_list (map fst rows) (g_id g) = (if g_id g \<in> keys_of rows then 1 else 0)"
    unfolding keys_of_def by (rule count_distinct)
  show ?thesis
    using Some by (auto simp: verify_generation_records_def records_hold_def obind_eq_Ok scan_rows n)
qed

definition stored_counts :: "db_view \<Rightarrow> (string \<times> nat) list" where
  "stored_counts v =
     [(''meta'', length (rows_of (dv_ss v META))), (''json_payloads'', length (rows_of (dv_ss v JSON_PAYLOADS))),
      (''string_to_u64'', length (rows_of (dv_su v STRING_TO_U64))),
      (''u64_to_string'', length (rows_of (dv_us v U64_TO_STRING))),
      (''u64_to_slot'', length (rows_of (dv_uu v U64_TO_SLOT))), (''documents'', length (rows_of (dv_us v DOCUMENTS))),
      (''metadata'', length (rows_of (dv_us v METADATA))), (''generations'', length (rows_of (dv_us v GENERATIONS))),
      (''pending_batches'', length (rows_of (dv_ss v PENDING_BATCHES))),
      (''tombstones'', length (rows_of (dv_us v TOMBSTONES))), (''gc_queue'', length (rows_of (dv_us v GC_QUEUE))),
      (''audit_log'', length (rows_of (dv_us v AUDIT_LOG)))]"

definition all_tables :: "db_view \<Rightarrow> bool" where
  "all_tables v \<longleftrightarrow>
     (\<forall>t\<in>{META, JSON_PAYLOADS, PENDING_BATCHES}. dv_ss v t \<noteq> None) \<and> dv_su v STRING_TO_U64 \<noteq> None \<and>
     (\<forall>t\<in>{U64_TO_STRING, DOCUMENTS, METADATA, GENERATIONS, TOMBSTONES, GC_QUEUE, AUDIT_LOG}. dv_us v t \<noteq> None) \<and>
     dv_uu v U64_TO_SLOT \<noteq> None"

definition counts_hold :: "db_view \<Rightarrow> json \<Rightarrow> bool" where
  "counts_hold v manifest \<longleftrightarrow>
     (\<exists>expected. jget manifest ''table_counts'' = Some (JObject expected) \<and> all_tables v \<and>
        (\<forall>(name, n)\<in>set (stored_counts v). \<exists>c. map_of expected name = Some (jnum c) \<and> unat c = n))"

lemma check_counts_Ok:
  "check_counts expected rs = Ok () \<longleftrightarrow> (\<forall>(name, n)\<in>set rs. \<exists>c. map_of expected name = Some (jnum c) \<and> unat c = n)"
  by (induction expected rs rule: check_counts.induct)
    (auto simp: obind_eq_Ok ok_or_eq_Ok bind_eq_Some_conv jnum_def)

lemma table_len_plain:
  "table_len (plain_table sel put) t v = (if sel v t = None then Err ''table does not exist'' else Ok (length (rows_of (sel v t))))"
  by (simp add: table_len_def)

lemma verify_counts_plain: "verify_table_counts plain_redb v manifest = Ok () \<longleftrightarrow> counts_hold v manifest"
proof -
  let ?r = "read_counts
       [(''meta'', table_len (rd_ss plain_redb) META v), (''json_payloads'', table_len (rd_ss plain_redb) JSON_PAYLOADS v),
        (''string_to_u64'', table_len (rd_su plain_redb) STRING_TO_U64 v),
        (''u64_to_string'', table_len (rd_us plain_redb) U64_TO_STRING v), (''u64_to_slot'', table_len (rd_uu plain_redb) U64_TO_SLOT v),
        (''documents'', table_len (rd_us plain_redb) DOCUMENTS v), (''metadata'', table_len (rd_us plain_redb) METADATA v),
        (''generations'', table_len (rd_us plain_redb) GENERATIONS v),
        (''pending_batches'', table_len (rd_ss plain_redb) PENDING_BATCHES v), (''tombstones'', table_len (rd_us plain_redb) TOMBSTONES v),
        (''gc_queue'', table_len (rd_us plain_redb) GC_QUEUE v), (''audit_log'', table_len (rd_us plain_redb) AUDIT_LOG v)]"
  have r: "?r = Ok c \<longleftrightarrow> all_tables v \<and> c = stored_counts v" for c
    by (auto simp: all_tables_def stored_counts_def table_len_plain obind_eq_Ok)
  show ?thesis
    unfolding verify_table_counts_def counts_hold_def check_counts_Ok [symmetric]
    by (auto simp only: obind_eq_Ok r ok_or_eq_Ok bind_eq_Some_conv as_object_Some)
qed

definition manifest_row :: "db_view \<Rightarrow> string option" where
  "manifest_row v = map_of (rows_of (dv_ss v META)) ''manifest''"

definition payload_rows :: "db_view \<Rightarrow> legacy_payloads \<Rightarrow> bool" where
  "payload_rows v pl \<longleftrightarrow>
     (let m = map_of (rows_of (dv_ss v JSON_PAYLOADS)) in
      m ''adapter'' = Some (adapter_json pl) \<and> m ''id_map'' = Some (id_map_json pl) \<and>
      m ''documents'' = Some (documents_json pl) \<and> m ''metadata'' = Some (metadata_json pl))"

definition verified_state :: "store_env \<Rightarrow> string \<Rightarrow> string option \<Rightarrow> string option \<Rightarrow> db_view \<Rightarrow> verified_store \<Rightarrow>
    parsed_payloads \<Rightarrow> generation_checkpoint \<Rightarrow> bool" where
  "verified_state env root expected_adapter allowed v vs p g \<longleftrightarrow>
     (\<exists>s. manifest_row v = Some s \<and> parse_json_object (se_json env) s ''adapter store manifest'' = Ok (vs_manifest vs)) \<and>
     payload_rows v (vs_payloads vs) \<and>
     verify_manifest_shape (se_json env) (vs_manifest vs) expected_adapter = Ok () \<and>
     parse_payloads (se_json env) (se_orders env) (vs_payloads vs) = Ok p \<and>
     verify_manifest_payloads (vs_manifest vs) p = Ok () \<and> counts_hold v (vs_manifest vs) \<and>
     active_generation_checkpoint env root p allowed = Ok g \<and> tables_hold (se_json env) v p \<and>
     records_hold (se_json env) v g \<and> validate_against_generation p g = Ok () \<and>
     verify_manifest_generation (vs_manifest vs) g = Ok ()"

lemma verified_store_eta: "\<lparr>vs_manifest = vs_manifest vs, vs_payloads = vs_payloads vs\<rparr> = vs"
  by (cases vs) simp

lemma read_manifest_plain:
  "read_manifest je plain_redb v = Ok m \<longleftrightarrow>
     dv_ss v META \<noteq> None \<and> (\<exists>s. manifest_row v = Some s \<and> parse_json_object je s ''adapter store manifest'' = Ok m)"
  by (auto simp: read_manifest_def manifest_row_def obind_eq_Ok ok_or_eq_Ok)

lemma read_payloads_plain:
  "read_payloads je plain_redb v = Ok pl \<longleftrightarrow> dv_ss v JSON_PAYLOADS \<noteq> None \<and> payload_rows v pl"
  by (cases pl) (auto simp: read_payloads_def required_payload_def payload_rows_def Let_def obind_eq_Ok ok_or_eq_Ok)

lemma verify_database_plain:
  assumes sorted: "sorted_view v" and ho: "orders_ok (se_orders env)"
  shows "verify_database env plain_redb root e a v = Ok vs \<longleftrightarrow> (\<exists>p g. verified_state env root e a v vs p g)"
proof -
  have tables: "dv_ss v META \<noteq> None \<and> dv_ss v JSON_PAYLOADS \<noteq> None" if "counts_hold v m" for m
    using that by (auto simp: counts_hold_def all_tables_def)
  have match: "verify_tables_match_payloads (se_json env) plain_redb v p = Ok () \<longleftrightarrow> tables_hold (se_json env) v p"
    if "parse_payloads (se_json env) (se_orders env) pl = Ok p" for p pl
    using verify_tables_plain [OF sorted parse_payloads_valid(1) [OF that ho]] .
  show ?thesis
  proof
    assume "verify_database env plain_redb root e a v = Ok vs"
    then obtain manifest pl p g where
        "read_manifest (se_json env) plain_redb v = Ok manifest" "verify_manifest_shape (se_json env) manifest e = Ok ()"
        "read_payloads (se_json env) plain_redb v = Ok pl" "parse_payloads (se_json env) (se_orders env) pl = Ok p"
        "verify_manifest_payloads manifest p = Ok ()" "verify_table_counts plain_redb v manifest = Ok ()"
        "active_generation_checkpoint env root p a = Ok g"
        "verify_tables_match_payloads (se_json env) plain_redb v p = Ok ()"
        "verify_generation_records (se_json env) plain_redb v g = Ok ()" "validate_against_generation p g = Ok ()"
        "verify_manifest_generation manifest g = Ok ()" "vs = \<lparr>vs_manifest = manifest, vs_payloads = pl\<rparr>"
      unfolding verify_database_def obind_eq_Ok by auto
    then have "verified_state env root e a v vs p g"
      unfolding verified_state_def read_manifest_plain read_payloads_plain verify_counts_plain
        verify_records_plain [OF sorted]
      using match by simp
    then show "\<exists>p g. verified_state env root e a v vs p g" by blast
  next
    assume "\<exists>p g. verified_state env root e a v vs p g"
    then obtain p g where st: "verified_state env root e a v vs p g" by blast
    then have c: "counts_hold v (vs_manifest vs)" and p: "parse_payloads (se_json env) (se_orders env) (vs_payloads vs) = Ok p"
      by (simp_all add: verified_state_def)
    have "read_manifest (se_json env) plain_redb v = Ok (vs_manifest vs)" "read_payloads (se_json env) plain_redb v = Ok (vs_payloads vs)"
      using st tables [OF c] unfolding read_manifest_plain read_payloads_plain verified_state_def by simp_all
    moreover have "verify_table_counts plain_redb v (vs_manifest vs) = Ok ()"
        "verify_generation_records (se_json env) plain_redb v g = Ok ()"
        "verify_tables_match_payloads (se_json env) plain_redb v p = Ok ()"
      using st match [OF p] unfolding verified_state_def verify_counts_plain verify_records_plain [OF sorted] by blast+
    ultimately show "verify_database env plain_redb root e a v = Ok vs"
      using st unfolding verified_state_def verify_database_def by (simp add: verified_store_eta)
  qed
qed

end
