(* ===== verification/StoreOps.thy ===== *)
theory StoreOps
  imports StoreVerify
begin

text \<open>
  The mutations of an adapter store (\<open>ordinaldb-adapter-store/src/lib.rs\<close>): writing a snapshot,
  patching metadata and appending to the garbage-collection queue, each with the check of the expected
  revision, one transaction, and the verification of the result; and reading the queue. An operation
  maps the file \<open>adapter.redb\<close> to its result and the file it leaves. The clock is read once per
  index.
\<close>

section \<open>Revisions\<close>

record store_revision =
  sr_store_uuid :: string
  sr_commit_sequence :: u64
  sr_active_generation_id :: u64
  sr_active_generation_path :: string
  sr_manifest_sha256 :: "string option"
  sr_active_id_count :: u64

definition revision_from_manifest :: "json \<Rightarrow> (store_error, store_revision) outcome" where
  "revision_from_manifest manifest =
     obind (required_string manifest ''store_uuid'') (\<lambda>uuid.
     obind (required_u64 manifest ''commit_sequence'') (\<lambda>seq.
     obind (required_u64 manifest ''active_generation_id'') (\<lambda>g.
     obind (required_string manifest ''active_generation_path'') (\<lambda>path.
     obind (optional_string manifest ''active_generation_manifest_sha256'') (\<lambda>sha.
     obind (required_u64 manifest ''active_id_count'') (\<lambda>n.
     Ok \<lparr>sr_store_uuid = uuid, sr_commit_sequence = seq, sr_active_generation_id = g,
         sr_active_generation_path = path, sr_manifest_sha256 = sha, sr_active_id_count = n\<rparr>))))))"

definition show_revision :: "json_env \<Rightarrow> store_revision \<Rightarrow> string" where
  "show_revision je r =
     ''StoreRevision { store_uuid: '' @ je_debug je (sr_store_uuid r) @ '', commit_sequence: '' @
     decimal (sr_commit_sequence r) @ '', active_generation_id: '' @ decimal (sr_active_generation_id r) @
     '', active_generation_path: '' @ je_debug je (sr_active_generation_path r) @
     '', active_generation_manifest_sha256: '' @
     (case sr_manifest_sha256 r of None \<Rightarrow> ''None'' | Some s \<Rightarrow> ''Some('' @ je_debug je s @ '')'') @
     '', active_id_count: '' @ decimal (sr_active_id_count r) @ '' }''"

definition verify_expected_revision :: "json_env \<Rightarrow> verified_store option \<Rightarrow> store_revision option \<Rightarrow>
    (store_error, unit) outcome" where
  "verify_expected_revision je current expected =
     (case (current, expected) of
        (None, None) \<Rightarrow> Ok ()
      | (None, Some _) \<Rightarrow> Err ''stale adapter snapshot: expected an existing adapter store''
      | (Some _, None) \<Rightarrow> Err ''expected adapter store revision is required for overwriting an existing store''
      | (Some store, Some e) \<Rightarrow>
          obind (revision_from_manifest (vs_manifest store)) (\<lambda>actual.
          if actual = e then Ok ()
          else Err (''stale adapter snapshot: expected revision '' @ show_revision je e @ '', found '' @ show_revision je actual)))"

section \<open>The store manifest\<close>

definition now_u64 :: "store_env \<Rightarrow> nat \<Rightarrow> u64" where
  "now_u64 env k = of_nat (min (se_now env k) u64_max)"

text \<open>\<open>json!\<close> of a \<open>u128\<close> that is not a \<open>u64\<close> panics.\<close>

definition now_json :: "store_env \<Rightarrow> nat \<Rightarrow> (store_error, json) outcome" where
  "now_json env k = (if se_now env k \<le> u64_max then Ok (jnum (of_nat (se_now env k))) else Panic)"

definition checked_inc :: "u64 \<Rightarrow> u64 \<Rightarrow> u64 option" where
  "checked_inc n d = (if unat n + unat d \<le> u64_max then Some (n + d) else None)"

datatype store_origin = Created | ImportedLegacyJson | UpgradedSchema

fun origin_str :: "store_origin \<Rightarrow> string" where
  "origin_str Created = ''created''"
| "origin_str ImportedLegacyJson = ''imported_legacy_json''"
| "origin_str UpgradedSchema = ''upgraded_schema''"

definition hex_char :: "nat \<Rightarrow> char" where
  "hex_char d = (if d < 10 then char_of (48 + d) else char_of (87 + d))"

definition hex2 :: "u8 \<Rightarrow> string" where
  "hex2 b = [hex_char (unat b div 16), hex_char (unat b mod 16)]"

unbundle bit_operations_syntax

definition version_byte :: "u8 \<Rightarrow> u8" where
  "version_byte b = (b AND 0x0f) OR 0x40"

definition variant_byte :: "u8 \<Rightarrow> u8" where
  "variant_byte b = (b AND 0x3f) OR 0x80"

definition hex_bytes :: "u8 list \<Rightarrow> string" where
  "hex_bytes bs = concat (map hex2 bs)"

definition random_store_uuid :: "store_env \<Rightarrow> (store_error, string) outcome" where
  "random_store_uuid env =
     obind (lift_sum id (se_random env)) (\<lambda>bytes.
     let b = (bytes[6 := version_byte (bytes ! 6)])[8 := variant_byte (bytes ! 8)] in
     Ok (hex_bytes (take 4 b) @ ''-'' @ hex_bytes (take 2 (drop 4 b)) @ ''-'' @ hex_bytes (take 2 (drop 6 b)) @ ''-'' @
         hex_bytes (take 2 (drop 8 b)) @ ''-'' @ hex_bytes (take 6 (drop 10 b))))"

definition manifest_table_count :: "json \<Rightarrow> string \<Rightarrow> (store_error, u64) outcome" where
  "manifest_table_count manifest name =
     ok_or (''table_counts.'' @ name @ '' missing'')
       (Option.bind (Option.bind (Option.bind (jget manifest ''table_counts'') as_object) (\<lambda>counts. map_of counts name)) as_u64)"

definition WRITER_VERSION :: string where
  "WRITER_VERSION = ''0.2.0''"

record manifest_fields =
  mf_store_uuid :: string
  mf_created_at :: u64
  mf_updated_at :: u64
  mf_commit_sequence :: u64
  mf_previous_generation_id :: "u64 option"
  mf_origin :: json
  mf_migrated :: bool

definition manifest_object :: "manifest_fields \<Rightarrow> parsed_payloads \<Rightarrow> generation_checkpoint \<Rightarrow> json \<Rightarrow> json" where
  "manifest_object mf p g table_counts =
     jobject
       [(''schema_version'', JString ADAPTER_STORE_SCHEMA_VERSION), (''store_uuid'', JString (mf_store_uuid mf)),
        (''adapter_name'', JString (pp_adapter_name p)), (''created_at_unix_ms'', jnum (mf_created_at mf)),
        (''updated_at_unix_ms'', jnum (mf_updated_at mf)), (''commit_sequence'', jnum (mf_commit_sequence mf)),
        (''bits'', jnum (ucast (pp_bits p))), (''dim'', jopt jnum (pp_dim p)),
        (''empty_lazy'', JBool (pp_empty_lazy p)), (''active_generation_id'', jnum (g_id g)),
        (''active_generation_path'', JString (g_path g)),
        (''active_generation_manifest_sha256'', jopt JString (g_manifest_sha256 g)),
        (''active_generation_manifest_size_bytes'', jopt jnum (g_manifest_size_bytes g)),
        (''vector_count'', jnum (g_vector_count g)), (''active_id_count'', jnum (of_nat (length (pp_string_to_u64 p)))),
        (''tombstone_count'', jnum 0), (''next_u64_id'', jnum (pp_next_u64_id p)), (''table_counts'', table_counts),
        (''key_format'', JString KEY_FORMAT), (''payload_format'', JString PAYLOAD_FORMAT),
        (''build_status'', JString ''complete''), (''complete'', JBool True),
        (''previous_generation_id'', jopt jnum (mf_previous_generation_id mf)), (''writer_version'', JString WRITER_VERSION),
        (''origin'', mf_origin mf), (''migrated_from_json_sidecars'', JBool (mf_migrated mf))]"

definition previous_field :: "json option \<Rightarrow> (json \<Rightarrow> 'a option) \<Rightarrow> string \<Rightarrow> 'a option" where
  "previous_field previous f field = Option.bind (Option.bind previous (\<lambda>m. jget m field)) f"

definition adapter_store_manifest :: "store_env \<Rightarrow> parsed_payloads \<Rightarrow> generation_checkpoint \<Rightarrow> json \<Rightarrow> json option \<Rightarrow>
    store_origin \<Rightarrow> (store_error, json) outcome" where
  "adapter_store_manifest env p g table_counts previous origin =
     (let now = now_u64 env 0 in
      obind (case previous_field previous as_str ''store_uuid'' of
               Some s \<Rightarrow> Ok s
             | None \<Rightarrow> random_store_uuid env) (\<lambda>store_uuid.
      obind (case previous_field previous as_u64 ''commit_sequence'' of
               Some seq \<Rightarrow> ok_or ''commit_sequence overflow'' (checked_inc seq 1)
             | None \<Rightarrow> Ok 1) (\<lambda>commit_sequence.
      Ok (manifest_object
        \<lparr>mf_store_uuid = store_uuid,
         mf_created_at = (case previous_field previous as_u64 ''created_at_unix_ms'' of Some t \<Rightarrow> t | None \<Rightarrow> now),
         mf_updated_at = now, mf_commit_sequence = commit_sequence,
         mf_previous_generation_id = previous_field previous as_u64 ''active_generation_id'',
         mf_origin = (case previous_field previous Some ''origin'' of Some v \<Rightarrow> v | None \<Rightarrow> JString (origin_str origin)),
         mf_migrated =
           (case previous_field previous as_bool ''migrated_from_json_sidecars'' of Some b \<Rightarrow> b | None \<Rightarrow> False)\<rparr>
        p g table_counts))))"

section \<open>Transactions\<close>

fun each_tx :: "('a \<Rightarrow> 'db \<Rightarrow> (store_error, 'db) outcome) \<Rightarrow> 'a list \<Rightarrow> 'db \<Rightarrow> (store_error, 'db) outcome" where
  "each_tx f [] tx = Ok tx"
| "each_tx f (x # xs) tx = obind (f x tx) (each_tx f xs)"

text \<open>Opening a table, dropping the rows whose keys do not satisfy a predicate, and inserting rows.\<close>

definition rewrite_table :: "('db, 't, 'k, 'v) table_api \<Rightarrow> 't \<Rightarrow> ('k \<Rightarrow> bool) \<Rightarrow> ('k \<times> 'v) list \<Rightarrow> 'db \<Rightarrow>
    (store_error, 'db) outcome" where
  "rewrite_table api t keep rows tx =
     obind (ta_open api t tx) (\<lambda>tx.
     obind (ta_retain api t keep tx) (\<lambda>tx.
     each_tx (\<lambda>(k, v). ta_insert api t k v) rows tx))"

fun ids_for_strings :: "parsed_payloads \<Rightarrow> string list \<Rightarrow> (store_error, u64 list) outcome" where
  "ids_for_strings p [] = Ok []"
| "ids_for_strings p (s # ss) = obind (u64_for_string p s) (\<lambda>i. obind (ids_for_strings p ss) (\<lambda>is. Ok (i # is)))"

definition write_documents :: "'db redb \<Rightarrow> parsed_payloads \<Rightarrow> 'db \<Rightarrow> (store_error, 'db) outcome" where
  "write_documents rd p tx =
     obind (ta_open (rd_us rd) DOCUMENTS tx) (\<lambda>tx.
     obind (ids_for_strings p (map fst (pp_documents p))) (\<lambda>document_ids.
     obind (ta_retain (rd_us rd) DOCUMENTS (\<lambda>i. i \<in> set document_ids) tx) (\<lambda>tx.
     each_tx (\<lambda>(s, document) tx.
       obind (u64_for_string p s) (\<lambda>u64_id. ta_insert (rd_us rd) DOCUMENTS u64_id document tx)) (pp_documents p) tx)))"

definition write_metadata :: "json_env \<Rightarrow> 'db redb \<Rightarrow> parsed_payloads \<Rightarrow> 'db \<Rightarrow> (store_error, 'db) outcome" where
  "write_metadata je rd p tx =
     obind (ta_open (rd_us rd) METADATA tx) (\<lambda>tx.
     obind (ids_for_strings p (map fst (pp_metadata p))) (\<lambda>metadata_ids.
     obind (ta_retain (rd_us rd) METADATA (\<lambda>i. i \<in> set metadata_ids) tx) (\<lambda>tx.
     each_tx (\<lambda>(s, v) tx.
       obind (u64_for_string p s) (\<lambda>u64_id.
       obind (canonical_json je v) (\<lambda>text_out. ta_insert (rd_us rd) METADATA u64_id text_out tx))) (pp_metadata p) tx)))"

definition object_insert :: "string \<Rightarrow> json \<Rightarrow> json \<Rightarrow> json" where
  "object_insert k v j = (case j of JObject m \<Rightarrow> JObject (btree_insert k v m) | _ \<Rightarrow> j)"

definition retire_generation_record :: "json_env \<Rightarrow> string \<Rightarrow> u64 \<Rightarrow> (store_error, string) outcome" where
  "retire_generation_record je raw commit_sequence =
     obind (parse_json_object je raw ''generation table row'') (\<lambda>r.
     let state = (case Option.bind (jget r ''state'') as_str of Some s \<Rightarrow> s | None \<Rightarrow> GENERATION_STATE_ACTIVE) in
     if \<not> is_valid_generation_record_state state then Err (''invalid generation lifecycle state: '' @ state)
     else if state = GENERATION_STATE_RETIRED then canonical_json je r
     else if as_object r = None then Err ''generation table row must be an object''
     else canonical_json je
       (object_insert ''retired_by_commit_sequence'' (jnum commit_sequence)
         (object_insert ''state'' (JString GENERATION_STATE_RETIRED) r)))"

fun retire_others :: "json_env \<Rightarrow> u64 \<Rightarrow> u64 \<Rightarrow> (store_error, u64 \<times> string) outcome list \<Rightarrow>
    (store_error, (u64 \<times> string) list) outcome" where
  "retire_others je active commit_sequence [] = Ok []"
| "retire_others je active commit_sequence (item # items) =
     obind item (\<lambda>(generation_id, raw).
     if generation_id = active then retire_others je active commit_sequence items
     else
       obind (retire_generation_record je raw commit_sequence) (\<lambda>r.
       obind (retire_others je active commit_sequence items) (\<lambda>rs. Ok ((generation_id, r) # rs))))"

definition write_generations :: "json_env \<Rightarrow> 'db redb \<Rightarrow> bool \<Rightarrow> generation_checkpoint \<Rightarrow> u64 \<Rightarrow> 'db \<Rightarrow>
    (store_error, 'db) outcome" where
  "write_generations je rd empty_lazy g commit_sequence tx =
     obind (ta_open (rd_us rd) GENERATIONS tx) (\<lambda>tx.
     if empty_lazy then Ok tx
     else
       obind (ta_iter (rd_us rd) GENERATIONS tx) (\<lambda>items.
       obind (retire_others je (g_id g) commit_sequence items) (\<lambda>retired_records.
       obind (each_tx (\<lambda>(i, r). ta_insert (rd_us rd) GENERATIONS i r) retired_records tx) (\<lambda>tx.
       obind (canonical_json je (g_json g)) (\<lambda>active_record.
       ta_insert (rd_us rd) GENERATIONS (g_id g) active_record tx)))))"

definition append_audit :: "json_env \<Rightarrow> 'db redb \<Rightarrow> u64 \<Rightarrow> json \<Rightarrow> 'db \<Rightarrow> (store_error, 'db) outcome" where
  "append_audit je rd commit_sequence event tx =
     obind (canonical_json je event) (\<lambda>s. ta_insert (rd_us rd) AUDIT_LOG commit_sequence s tx)"

definition snapshot_rows :: "store_env \<Rightarrow> 'db redb \<Rightarrow> legacy_payloads \<Rightarrow> parsed_payloads \<Rightarrow> generation_checkpoint \<Rightarrow> string \<Rightarrow>
    u64 \<Rightarrow> 'db \<Rightarrow> (store_error, 'db) outcome" where
  "snapshot_rows env rd payloads p g manifest_json commit_sequence tx =
     obind (rewrite_table (rd_ss rd) META (\<lambda>_. False) [(''manifest'', manifest_json)] tx) (\<lambda>tx.
     obind (rewrite_table (rd_ss rd) JSON_PAYLOADS (\<lambda>_. False)
       [(''adapter'', adapter_json payloads), (''id_map'', id_map_json payloads),
        (''documents'', documents_json payloads), (''metadata'', metadata_json payloads)] tx) (\<lambda>tx.
     obind (rewrite_table (rd_su rd) STRING_TO_U64 (\<lambda>s. s \<in> keys_of (pp_string_to_u64 p)) (pp_string_to_u64 p) tx) (\<lambda>tx.
     obind (rewrite_table (rd_us rd) U64_TO_STRING (\<lambda>i. i \<in> snd ` set (pp_string_to_u64 p))
       (swapped (pp_string_to_u64 p)) tx) (\<lambda>tx.
     obind (rewrite_table (rd_uu rd) U64_TO_SLOT (\<lambda>i. i \<in> keys_of (pp_u64_to_slot p)) (pp_u64_to_slot p) tx) (\<lambda>tx.
     obind (write_documents rd p tx) (\<lambda>tx.
     obind (write_metadata (se_json env) rd p tx) (\<lambda>tx.
     obind (write_generations (se_json env) rd (pp_empty_lazy p) g commit_sequence tx) (\<lambda>tx.
     obind (ta_open (rd_ss rd) PENDING_BATCHES tx) (\<lambda>tx.
     obind (ta_open (rd_us rd) TOMBSTONES tx) (\<lambda>tx.
     obind (ta_open (rd_us rd) GC_QUEUE tx) (\<lambda>tx.
     obind (ta_open (rd_us rd) AUDIT_LOG tx) (\<lambda>tx.
     obind (now_json env 1) (\<lambda>created.
     append_audit (se_json env) rd commit_sequence
       (jobject [(''event'', JString ''legacy_snapshot_written''), (''commit_sequence'', jnum commit_sequence),
         (''generation_id'', jnum (g_id g)), (''active_generation_path'', JString (g_path g)),
         (''created_at_unix_ms'', created)]) tx)))))))))))))"

text \<open>One write transaction on an open database: it is committed when its body succeeds and dropped otherwise.\<close>

definition run_transaction :: "'db redb \<Rightarrow> ('db \<Rightarrow> (store_error, 'db) outcome) \<Rightarrow> 'db \<Rightarrow>
    (store_error, unit) outcome \<times> 'db store_file" where
  "run_transaction rd body db =
     (case obind (rd_begin_write rd db) body of
        Ok tx \<Rightarrow> (let (r, db') = rd_commit rd db tx in (r, StoreDb db'))
      | Err e \<Rightarrow> (Err e, StoreDb db)
      | Panic \<Rightarrow> (Panic, StoreDb db))"

definition with_open_database :: "'db redb \<Rightarrow> ('db \<Rightarrow> (store_error, 'db) outcome) \<Rightarrow> 'db store_file \<Rightarrow>
    (store_error, unit) outcome \<times> 'db store_file" where
  "with_open_database rd body f =
     (case f of
        StoreDb db \<Rightarrow>
          (case rd_open rd db of
             Ok _ \<Rightarrow> run_transaction rd body db
           | Err e \<Rightarrow> (Err e, f)
           | Panic \<Rightarrow> (Panic, f))
      | NoStore e \<Rightarrow> (Err (fault_message e), f)
      | OtherStore _ \<Rightarrow> (Panic, f))"

definition with_created_database :: "'db redb \<Rightarrow> ('db \<Rightarrow> (store_error, 'db) outcome) \<Rightarrow> 'db store_file \<Rightarrow>
    (store_error, unit) outcome \<times> 'db store_file" where
  "with_created_database rd body f =
     (let (r, left_behind) = rd_create rd; f' = (case left_behind of Some db \<Rightarrow> StoreDb db | None \<Rightarrow> f) in
      case (r, left_behind) of
        (Ok _, Some db) \<Rightarrow> run_transaction rd body db
      | (Err e, _) \<Rightarrow> (Err e, f')
      | _ \<Rightarrow> (Panic, f'))"

text \<open>After a commit: the file and the root directory are synced, and the store is opened again.\<close>

definition finish_commit :: "store_env \<Rightarrow> 'db redb \<Rightarrow> string \<Rightarrow> string \<Rightarrow> (store_error, unit) outcome \<times> 'db store_file \<Rightarrow>
    (store_error, verified_store) outcome \<times> 'db store_file" where
  "finish_commit env rd root ctx rf =
     (case rf of (r, f) \<Rightarrow>
       (obind (guard_against_storage_panics env ctx r) (\<lambda>_.
        obind (lift_sum id (se_sync env (path_join root ADAPTER_STORE_FILE))) (\<lambda>_.
        obind (lift_sum id (se_sync env root)) (\<lambda>_.
        open_verified env rd root None f))), f))"

section \<open>Writing a snapshot\<close>

definition snapshot_counts :: "parsed_payloads \<Rightarrow> u64 \<Rightarrow> u64 \<Rightarrow> u64 \<Rightarrow> u64 \<Rightarrow> u64 \<Rightarrow> json" where
  "snapshot_counts p generations pending tombstones gc audit =
     jobject
       [(''meta'', jnum 1), (''json_payloads'', jnum 4), (''string_to_u64'', jnum (of_nat (length (pp_string_to_u64 p)))),
        (''u64_to_string'', jnum (of_nat (length (pp_string_to_u64 p)))),
        (''u64_to_slot'', jnum (of_nat (length (pp_u64_to_slot p)))),
        (''documents'', jnum (of_nat (length (pp_documents p)))), (''metadata'', jnum (of_nat (length (pp_metadata p)))),
        (''generations'', jnum generations), (''pending_batches'', jnum pending), (''tombstones'', jnum tombstones),
        (''gc_queue'', jnum gc), (''audit_log'', jnum audit)]"

record snapshot_plan =
  sp_parsed :: parsed_payloads
  sp_generation :: generation_checkpoint
  sp_previous :: "verified_store option"
  sp_manifest :: json
  sp_manifest_json :: string

definition previous_count :: "json option \<Rightarrow> string \<Rightarrow> (store_error, u64) outcome" where
  "previous_count previous name = (case previous of None \<Rightarrow> Ok 0 | Some m \<Rightarrow> manifest_table_count m name)"

definition plan_snapshot :: "store_env \<Rightarrow> 'db redb \<Rightarrow> string \<Rightarrow> store_revision option \<Rightarrow> legacy_payloads \<Rightarrow> store_origin \<Rightarrow>
    'db store_file \<Rightarrow> (store_error, snapshot_plan) outcome" where
  "plan_snapshot env rd root expected payloads origin f =
     obind (parse_payloads (se_json env) (se_orders env) payloads) (\<lambda>p.
     obind (active_generation_checkpoint env root p None) (\<lambda>g.
     obind (validate_against_generation p g) (\<lambda>_.
     obind (current_verified_store env rd root (if pp_empty_lazy p then None else Some (pp_index_path p)) f) (\<lambda>previous_store.
     obind (verify_expected_revision (se_json env) previous_store expected) (\<lambda>_.
     let previous = map_option vs_manifest previous_store in
     obind (previous_count previous ''generations'') (\<lambda>previous_generations.
     obind (previous_count previous ''audit_log'') (\<lambda>previous_audit.
     obind (previous_count previous ''pending_batches'') (\<lambda>pending.
     obind (previous_count previous ''tombstones'') (\<lambda>tombstones.
     obind (previous_count previous ''gc_queue'') (\<lambda>gc.
     let already_recorded = previous_field previous as_u64 ''active_generation_id'' = Some (g_id g) in
     obind (if pp_empty_lazy p \<or> already_recorded then Ok previous_generations
            else ok_or ''generation table count overflow'' (checked_inc previous_generations 1)) (\<lambda>generations.
     obind (ok_or ''audit_log table count overflow'' (checked_inc previous_audit 1)) (\<lambda>audit.
     obind (adapter_store_manifest env p g (snapshot_counts p generations pending tombstones gc audit) previous origin) (\<lambda>manifest.
     obind (canonical_json (se_json env) manifest) (\<lambda>manifest_json.
     Ok \<lparr>sp_parsed = p, sp_generation = g, sp_previous = previous_store, sp_manifest = manifest,
         sp_manifest_json = manifest_json\<rparr>))))))))))))))"

definition write_snapshot :: "store_env \<Rightarrow> 'db redb \<Rightarrow> legacy_payloads \<Rightarrow> snapshot_plan \<Rightarrow> 'db store_file \<Rightarrow>
    (store_error, unit) outcome \<times> 'db store_file" where
  "write_snapshot env rd payloads plan f =
     (let body = (\<lambda>tx.
        obind (required_u64 (sp_manifest plan) ''commit_sequence'') (\<lambda>commit_sequence.
        snapshot_rows env rd payloads (sp_parsed plan) (sp_generation plan) (sp_manifest_json plan) commit_sequence tx))
      in if sp_previous plan \<noteq> None then with_open_database rd body f else with_created_database rd body f)"

definition write_legacy_snapshot_inner :: "store_env \<Rightarrow> 'db redb \<Rightarrow> string \<Rightarrow> store_revision option \<Rightarrow> legacy_payloads \<Rightarrow>
    store_origin \<Rightarrow> 'db store_file \<Rightarrow> (store_error, verified_store) outcome \<times> 'db store_file" where
  "write_legacy_snapshot_inner env rd root expected payloads origin f =
     (case plan_snapshot env rd root expected payloads origin f of
        Ok plan \<Rightarrow> finish_commit env rd root ''writing the snapshot'' (write_snapshot env rd payloads plan f)
      | Err e \<Rightarrow> (Err e, f)
      | Panic \<Rightarrow> (Panic, f))"

section \<open>Patching metadata\<close>

record metadata_patch =
  mp_id :: string
  mp_metadata :: "(string \<times> json) list"

fun apply_patches :: "metadata_patch list \<Rightarrow> parsed_payloads \<Rightarrow> (store_error, parsed_payloads) outcome" where
  "apply_patches [] p = Ok p"
| "apply_patches (patch # patches) p =
     obind (require_non_empty_string_id (mp_id patch)) (\<lambda>_.
     if mp_id patch \<notin> keys_of (pp_string_to_u64 p) then Err (''metadata patch ID is not active: '' @ mp_id patch)
     else apply_patches patches
       (p\<lparr>pp_metadata := hash_insert (mp_id patch) (JObject (mp_metadata patch)) (pp_metadata p)\<rparr>))"

text \<open>The counters of the manifest that a patch and a queue update change.\<close>

definition update_manifest :: "store_env \<Rightarrow> json \<Rightarrow> u64 \<Rightarrow> (string \<times> u64) list \<Rightarrow> (store_error, json) outcome" where
  "update_manifest env manifest commit_sequence counts =
     (case manifest of
        JObject _ \<Rightarrow>
          (let m = object_insert ''updated_at_unix_ms'' (jnum (now_u64 env 0))
                     (object_insert ''commit_sequence'' (jnum commit_sequence) manifest) in
           case jget m ''table_counts'' of
             Some (JObject tc) \<Rightarrow>
               Ok (object_insert ''table_counts'' (JObject (btree_inserts (map (\<lambda>(k, n). (k, jnum n)) counts) tc)) m)
           | _ \<Rightarrow> Err ''adapter store table_counts must be an object'')
      | _ \<Rightarrow> Err ''adapter store manifest must be an object'')"

definition update_metadata_patch_manifest :: "store_env \<Rightarrow> json \<Rightarrow> u64 \<Rightarrow> u64 \<Rightarrow> (store_error, json) outcome" where
  "update_metadata_patch_manifest env manifest commit_sequence audit_count =
     update_manifest env manifest commit_sequence [(''audit_log'', audit_count)]"

definition update_gc_manifest_counts :: "store_env \<Rightarrow> json \<Rightarrow> u64 \<Rightarrow> u64 \<Rightarrow> u64 \<Rightarrow> (store_error, json) outcome" where
  "update_gc_manifest_counts env manifest commit_sequence gc_count audit_count =
     update_manifest env manifest commit_sequence [(''gc_queue'', gc_count), (''audit_log'', audit_count)]"

fun collect_metadata :: "(string \<times> json) list \<Rightarrow> string list \<Rightarrow> (string \<times> json) list \<Rightarrow> (store_error, (string \<times> json) list) outcome" where
  "collect_metadata metas [] out = Ok out"
| "collect_metadata metas (s # ss) out =
     obind (ok_or ''metadata payload row missing'' (map_of metas s)) (\<lambda>v. collect_metadata metas ss (btree_insert s v out))"

definition metadata_payload_json :: "json_env \<Rightarrow> parsed_payloads \<Rightarrow> (store_error, string) outcome" where
  "metadata_payload_json je p =
     obind (collect_metadata (pp_metadata p) (sort (map fst (pp_metadata p))) []) (\<lambda>metas.
     canonical_json je (jobject [(''schema_version'', JString METADATA_SCHEMA_VERSION), (''metadata'', JObject metas)]))"

definition patch_rows :: "store_env \<Rightarrow> 'db redb \<Rightarrow> parsed_payloads \<Rightarrow> metadata_patch list \<Rightarrow> json \<Rightarrow> string \<Rightarrow> string \<Rightarrow> u64 \<Rightarrow>
    'db \<Rightarrow> (store_error, 'db) outcome" where
  "patch_rows env rd p patches manifest manifest_json metadata_text commit_sequence tx =
     obind (ta_open (rd_ss rd) META tx) (\<lambda>tx.
     obind (ta_insert (rd_ss rd) META ''manifest'' manifest_json tx) (\<lambda>tx.
     obind (ta_open (rd_ss rd) JSON_PAYLOADS tx) (\<lambda>tx.
     obind (ta_insert (rd_ss rd) JSON_PAYLOADS ''metadata'' metadata_text tx) (\<lambda>tx.
     obind (ta_open (rd_us rd) METADATA tx) (\<lambda>tx.
     obind (each_tx (\<lambda>patch tx.
       obind (u64_for_string p (mp_id patch)) (\<lambda>u64_id.
       obind (ok_or ''metadata patch row missing'' (map_of (pp_metadata p) (mp_id patch))) (\<lambda>v.
       obind (canonical_json (se_json env) v) (\<lambda>s. ta_insert (rd_us rd) METADATA u64_id s tx)))) patches tx) (\<lambda>tx.
     obind (ta_open (rd_us rd) AUDIT_LOG tx) (\<lambda>tx.
     obind (required_u64 manifest ''active_generation_id'') (\<lambda>g.
     obind (required_string manifest ''active_generation_path'') (\<lambda>path.
     obind (now_json env 1) (\<lambda>created.
     append_audit (se_json env) rd commit_sequence
       (jobject [(''event'', JString ''metadata_patched''), (''commit_sequence'', jnum commit_sequence),
         (''patched_id_count'', jnum (of_nat (length patches))), (''active_generation_id'', jnum g),
         (''active_generation_path'', JString path), (''created_at_unix_ms'', created)]) tx))))))))))"

record patch_plan =
  pt_parsed :: parsed_payloads
  pt_manifest :: json
  pt_manifest_json :: string
  pt_metadata_json :: string
  pt_commit_sequence :: u64

definition plan_patch :: "store_env \<Rightarrow> 'db redb \<Rightarrow> string \<Rightarrow> store_revision \<Rightarrow> metadata_patch list \<Rightarrow> 'db store_file \<Rightarrow>
    (store_error, patch_plan) outcome" where
  "plan_patch env rd root expected patches f =
     (if patches = [] then Err ''metadata patch mutation must include at least one entry'' else
     obind (obind (current_verified_store env rd root None f) (ok_or ''adapter store is required for metadata patch'')) (\<lambda>current.
     obind (verify_expected_revision (se_json env) (Some current) (Some expected)) (\<lambda>_.
     obind (parse_payloads (se_json env) (se_orders env) (vs_payloads current)) (\<lambda>p0.
     obind (apply_patches patches p0) (\<lambda>p.
     obind (validate_maps p) (\<lambda>_.
     obind (required_u64 (vs_manifest current) ''commit_sequence'') (\<lambda>previous_sequence.
     obind (ok_or ''commit_sequence overflow'' (checked_inc previous_sequence 1)) (\<lambda>commit_sequence.
     obind (manifest_table_count (vs_manifest current) ''audit_log'') (\<lambda>previous_audit.
     obind (ok_or ''audit_log table count overflow'' (checked_inc previous_audit 1)) (\<lambda>audit_count.
     obind (update_metadata_patch_manifest env (vs_manifest current) commit_sequence audit_count) (\<lambda>manifest.
     obind (canonical_json (se_json env) manifest) (\<lambda>manifest_json.
     obind (metadata_payload_json (se_json env) p) (\<lambda>metadata_json.
     Ok \<lparr>pt_parsed = p, pt_manifest = manifest, pt_manifest_json = manifest_json, pt_metadata_json = metadata_json,
         pt_commit_sequence = commit_sequence\<rparr>)))))))))))))"

definition commit_metadata_patch :: "store_env \<Rightarrow> 'db redb \<Rightarrow> string \<Rightarrow> store_revision \<Rightarrow> metadata_patch list \<Rightarrow> 'db store_file \<Rightarrow>
    (store_error, verified_store) outcome \<times> 'db store_file" where
  "commit_metadata_patch env rd root expected patches f =
     (case plan_patch env rd root expected patches f of
        Ok plan \<Rightarrow>
          finish_commit env rd root ''committing the metadata patch''
            (with_open_database rd (patch_rows env rd (pt_parsed plan) patches (pt_manifest plan) (pt_manifest_json plan)
               (pt_metadata_json plan) (pt_commit_sequence plan)) f)
      | Err e \<Rightarrow> (Err e, f)
      | Panic \<Rightarrow> (Panic, f))"

section \<open>The garbage-collection queue\<close>

definition gc_update_json :: "store_env \<Rightarrow> nat \<Rightarrow> generation_gc_update \<Rightarrow> (store_error, json) outcome" where
  "gc_update_json env k update =
     obind (now_json env k) (\<lambda>recorded.
     Ok (jobject [(''generation_id'', jopt jnum (gc_generation_id update)), (''path'', JString (gc_path update)),
       (''state'', JString (gc_state update)), (''reason'', JString (gc_reason update)), (''recorded_at_unix_ms'', recorded)]))"

fun validate_gc_updates :: "generation_gc_update list \<Rightarrow> (store_error, unit) outcome" where
  "validate_gc_updates [] = Ok ()"
| "validate_gc_updates (u # us) = obind (validate_gc_update u) (\<lambda>_. validate_gc_updates us)"

definition gc_rows :: "store_env \<Rightarrow> 'db redb \<Rightarrow> generation_gc_update list \<Rightarrow> string \<Rightarrow> u64 \<Rightarrow> u64 \<Rightarrow> 'db \<Rightarrow>
    (store_error, 'db) outcome" where
  "gc_rows env rd updates manifest_json previous_gc_count commit_sequence tx =
     obind (ta_open (rd_ss rd) META tx) (\<lambda>tx.
     obind (ta_insert (rd_ss rd) META ''manifest'' manifest_json tx) (\<lambda>tx.
     obind (ta_open (rd_us rd) GC_QUEUE tx) (\<lambda>tx.
     obind (each_tx (\<lambda>(idx, update) tx.
       obind (ok_or ''gc_queue row id overflow''
         (Option.bind (checked_inc previous_gc_count (of_nat idx)) (\<lambda>n. checked_inc n 1))) (\<lambda>row_id.
       obind (gc_update_json env (1 + idx) update) (\<lambda>v.
       obind (canonical_json (se_json env) v) (\<lambda>s. ta_insert (rd_us rd) GC_QUEUE row_id s tx))))
       (enumerate 0 updates) tx) (\<lambda>tx.
     obind (ta_open (rd_us rd) AUDIT_LOG tx) (\<lambda>tx.
     obind (now_json env (1 + length updates)) (\<lambda>created.
     append_audit (se_json env) rd commit_sequence
       (jobject [(''event'', JString ''generation_gc_recorded''), (''commit_sequence'', jnum commit_sequence),
         (''update_count'', jnum (of_nat (length updates))), (''created_at_unix_ms'', created)]) tx))))))"

record gc_plan =
  gp_manifest_json :: string
  gp_previous_gc_count :: u64
  gp_commit_sequence :: u64

definition plan_gc :: "store_env \<Rightarrow> 'db redb \<Rightarrow> string \<Rightarrow> store_revision option \<Rightarrow> generation_gc_update list \<Rightarrow> 'db store_file \<Rightarrow>
    (store_error, gc_plan) outcome" where
  "plan_gc env rd root expected updates f =
     obind (validate_gc_updates updates) (\<lambda>_.
     obind (obind (current_verified_store env rd root None f) (ok_or ''adapter store is required for generation GC'')) (\<lambda>current.
     obind (verify_expected_revision (se_json env) (Some current) expected) (\<lambda>_.
     obind (required_u64 (vs_manifest current) ''commit_sequence'') (\<lambda>previous_sequence.
     obind (ok_or ''commit_sequence overflow'' (checked_inc previous_sequence 1)) (\<lambda>commit_sequence.
     obind (manifest_table_count (vs_manifest current) ''gc_queue'') (\<lambda>previous_gc.
     obind (manifest_table_count (vs_manifest current) ''audit_log'') (\<lambda>previous_audit.
     obind (if length updates \<le> u64_max then Ok (of_nat (length updates)) else Err ''too many GC updates'') (\<lambda>update_count.
     obind (ok_or ''gc_queue table count overflow'' (checked_inc previous_gc update_count)) (\<lambda>gc_count.
     obind (ok_or ''audit_log table count overflow'' (checked_inc previous_audit 1)) (\<lambda>audit_count.
     obind (update_gc_manifest_counts env (vs_manifest current) commit_sequence gc_count audit_count) (\<lambda>manifest.
     obind (canonical_json (se_json env) manifest) (\<lambda>manifest_json.
     Ok \<lparr>gp_manifest_json = manifest_json, gp_previous_gc_count = previous_gc,
         gp_commit_sequence = commit_sequence\<rparr>))))))))))))"

definition record_generation_gc_inner :: "store_env \<Rightarrow> 'db redb \<Rightarrow> string \<Rightarrow> store_revision option \<Rightarrow> generation_gc_update list \<Rightarrow>
    'db store_file \<Rightarrow> (store_error, verified_store) outcome \<times> 'db store_file" where
  "record_generation_gc_inner env rd root expected updates f =
     (if updates = [] then
        (obind (current_verified_store env rd root None f) (ok_or ''adapter store is required for generation GC''), f)
      else
        case plan_gc env rd root expected updates f of
          Ok plan \<Rightarrow>
            finish_commit env rd root ''recording generation GC updates''
              (with_open_database rd (gc_rows env rd updates (gp_manifest_json plan) (gp_previous_gc_count plan)
                 (gp_commit_sequence plan)) f)
        | Err e \<Rightarrow> (Err e, f)
        | Panic \<Rightarrow> (Panic, f))"

record generation_gc_event =
  ge_row_id :: u64
  ge_update :: generation_gc_update
  ge_recorded_at_unix_ms :: "u64 option"

definition parse_gc_row :: "json_env \<Rightarrow> u64 \<Rightarrow> string \<Rightarrow> (store_error, generation_gc_event) outcome" where
  "parse_gc_row je row_id raw =
     obind (parse_json_object je raw ''gc_queue row'') (\<lambda>row.
     obind (optional_u64 row ''generation_id'') (\<lambda>generation_id.
     obind (required_string row ''path'') (\<lambda>path.
     obind (required_string row ''state'') (\<lambda>state.
     obind (required_string row ''reason'') (\<lambda>reason.
     let update = \<lparr>gc_generation_id = generation_id, gc_path = path, gc_state = state, gc_reason = reason\<rparr> in
     obind (validate_gc_update update) (\<lambda>_.
     obind (optional_u64 row ''recorded_at_unix_ms'') (\<lambda>recorded.
     Ok \<lparr>ge_row_id = row_id, ge_update = update, ge_recorded_at_unix_ms = recorded\<rparr>)))))))"

fun parse_gc_rows :: "json_env \<Rightarrow> (store_error, u64 \<times> string) outcome list \<Rightarrow> (store_error, generation_gc_event list) outcome" where
  "parse_gc_rows je [] = Ok []"
| "parse_gc_rows je (item # items) =
     obind item (\<lambda>(row_id, raw).
     obind (parse_gc_row je row_id raw) (\<lambda>e. obind (parse_gc_rows je items) (\<lambda>es. Ok (e # es))))"

definition generation_gc_events :: "store_env \<Rightarrow> 'db redb \<Rightarrow> string \<Rightarrow> 'db store_file \<Rightarrow>
    (store_error, generation_gc_event list) outcome" where
  "generation_gc_events env rd root f =
     obind (validate_adapter_store_file (path_join root ADAPTER_STORE_FILE) f) (\<lambda>_.
     guard_against_storage_panics env ''reading the GC queue''
       (case f of
          StoreDb db \<Rightarrow>
            obind (rd_open rd db) (\<lambda>_.
            obind (rd_begin_read rd db) (\<lambda>_.
            obind (ta_read (rd_us rd) GC_QUEUE db) (\<lambda>_.
            obind (ta_iter (rd_us rd) GC_QUEUE db) (parse_gc_rows (se_json env)))))
        | _ \<Rightarrow> Panic))"

section \<open>Commits\<close>

datatype adapter_mutation = ReplaceLegacySnapshot legacy_payloads | PatchMetadata "metadata_patch list"

record committed_revision =
  cr_revision :: store_revision
  cr_manifest :: json

definition commit_inner :: "store_env \<Rightarrow> 'db redb \<Rightarrow> string \<Rightarrow> store_revision \<Rightarrow> adapter_mutation \<Rightarrow> 'db store_file \<Rightarrow>
    (store_error, committed_revision) outcome \<times> 'db store_file" where
  "commit_inner env rd root expected mutation f =
     (let (r, f') = (case mutation of
          ReplaceLegacySnapshot payloads \<Rightarrow> write_legacy_snapshot_inner env rd root (Some expected) payloads Created f
        | PatchMetadata patches \<Rightarrow> commit_metadata_patch env rd root expected patches f)
      in (obind r (\<lambda>verified.
          obind (revision_from_manifest (vs_manifest verified)) (\<lambda>revision.
          Ok \<lparr>cr_revision = revision, cr_manifest = vs_manifest verified\<rparr>)), f'))"

end
