(* ===== verification/StoreLock.thy ===== *)
theory StoreLock
  imports StoreOps
begin

text \<open>
  The writer lock of an adapter root (\<open>WriterLockGuard\<close> in \<open>ordinaldb-adapter-store/src/lib.rs\<close>): the
  registry of a process, the acquisition and the release of a guard, and the check that the
  \<open>*_with_existing_lock\<close> calls make. An acquisition is an attempt of a process: its calls and those of
  other attempts interleave in the step relation \<open>lock_step\<close>. The lock of the operating system is
  granted to an open file description or to a process, as the platform does.
\<close>

section \<open>The registry of a process\<close>

definition WRITE_LOCK_FILE :: string where
  "WRITE_LOCK_FILE = ''.ordinaldb.write.lock''"

text \<open>The set behind the mutex; a poisoned mutex refuses every lock.\<close>

record lock_registry =
  lr_poisoned :: bool
  lr_held :: "string set"

definition lock_registry_poisoned :: store_error where
  "lock_registry_poisoned = ''adapter writer lock registry is poisoned''"

definition held_writer_locks :: "lock_registry \<Rightarrow> (store_error, string set) outcome" where
  "held_writer_locks reg = (if lr_poisoned reg then Err lock_registry_poisoned else Ok (lr_held reg))"

definition reserve_writer_lock_registration :: "string \<Rightarrow> lock_registry \<Rightarrow> (store_error, lock_registry) outcome" where
  "reserve_writer_lock_registration key reg =
     obind (held_writer_locks reg) (\<lambda>held.
     if key \<in> held then Err (''adapter writer lock already held: '' @ key)
     else Ok (reg\<lparr>lr_held := insert key held\<rparr>))"

definition release_writer_lock_registration :: "string \<Rightarrow> lock_registry \<Rightarrow> lock_registry" where
  "release_writer_lock_registration key reg =
     (case held_writer_locks reg of Ok held \<Rightarrow> reg\<lparr>lr_held := held - {key}\<rparr> | _ \<Rightarrow> reg)"

section \<open>The lock file\<close>

datatype try_lock = Granted | WouldBlock | LockFault string

text \<open>What the calls on the lock file answer; a call that truncates, stamps and syncs is one answer.\<close>

record lock_file_env =
  lf_canonicalize :: "string \<Rightarrow> string + string"
  lf_stat :: "string \<Rightarrow> fault + file_kind"
  lf_open :: "string \<Rightarrow> string + unit"
  lf_try_lock :: "string \<Rightarrow> try_lock"
  lf_stamp :: "string \<Rightarrow> string + unit"
  lf_sync_directory :: "string \<Rightarrow> string + unit"

definition check_lock_kind :: "string \<Rightarrow> file_kind \<Rightarrow> (store_error, unit) outcome" where
  "check_lock_kind path k =
     (if k = KLink then Err (''adapter writer lock must not be a symlink: '' @ path)
      else if k \<noteq> KFile then Err (''adapter writer lock must be a file: '' @ path)
      else Ok ())"

definition lock_and_stamp :: "lock_file_env \<Rightarrow> string \<Rightarrow> string \<Rightarrow> (store_error, unit) outcome" where
  "lock_and_stamp lf root path =
     obind (lift_sum id (lf_open lf path)) (\<lambda>_.
     case lf_try_lock lf path of
       WouldBlock \<Rightarrow> Err (''adapter writer lock already held: '' @ path)
     | LockFault e \<Rightarrow> Err e
     | Granted \<Rightarrow>
         obind (lift_sum id (lf_stamp lf path)) (\<lambda>_.
         lift_sum id (lf_sync_directory lf root)))"

text \<open>\<open>acquire\<close> returns the key of the guard and leaves the registry.\<close>

definition acquire_path :: "lock_file_env \<Rightarrow> string \<Rightarrow> (store_error, string \<times> string) outcome" where
  "acquire_path lf root =
     obind (lift_sum id (lf_canonicalize lf root)) (\<lambda>root.
     let path = path_join root WRITE_LOCK_FILE in
     obind (case lf_stat lf path of Inr k \<Rightarrow> check_lock_kind path k | Inl _ \<Rightarrow> Ok ()) (\<lambda>_. Ok (root, path)))"

definition acquire :: "lock_file_env \<Rightarrow> string \<Rightarrow> lock_registry \<Rightarrow> (store_error, string) outcome \<times> lock_registry" where
  "acquire lf root reg =
     (case acquire_path lf root of
        Ok (root, path) \<Rightarrow>
          (case reserve_writer_lock_registration path reg of
             Ok reg' \<Rightarrow>
               (case lock_and_stamp lf root path of
                  Ok _ \<Rightarrow> (Ok path, reg')
                | Err e \<Rightarrow> (Err e, release_writer_lock_registration path reg')
                | Panic \<Rightarrow> (Panic, reg'))
           | Err e \<Rightarrow> (Err e, reg)
           | Panic \<Rightarrow> (Panic, reg))
      | Err e \<Rightarrow> (Err e, reg)
      | Panic \<Rightarrow> (Panic, reg))"

definition require_writer_lock_held_by_current_process :: "lock_file_env \<Rightarrow> string \<Rightarrow> lock_registry \<Rightarrow>
    (store_error, unit) outcome" where
  "require_writer_lock_held_by_current_process lf root reg =
     obind (lift_sum id (lf_canonicalize lf root)) (\<lambda>root.
     let path = path_join root WRITE_LOCK_FILE in
     obind (lift_sum fault_message (lf_stat lf path)) (\<lambda>k.
     obind (check_lock_kind path k) (\<lambda>_.
     obind (held_writer_locks reg) (\<lambda>held.
     if path \<notin> held then
       Err (''adapter writer lock is not held by this process through the storage engine: '' @ path)
     else Ok ()))))"

section \<open>Attempts of processes\<close>

text \<open>
  An attempt is a process and a number. Its phases are the points between the calls of \<open>acquire\<close>, the
  life of the guard, and the points between the calls of \<open>release\<close>, which closes the file last;
  \<open>Failing\<close> is an attempt whose error is about to close the file.
\<close>

datatype attempt = Attempt (at_process: nat) (at_number: nat)

datatype phase =
    Started | Reserved string | Opened string | Locked string | Held string
  | Failing string | Rollback string | Unlocked string | Unregistered string | Finished

datatype os_locks = PerDescription | PerProcess

record lock_world =
  lw_registry :: "nat \<Rightarrow> lock_registry"
  lw_owners :: "string \<Rightarrow> attempt set"
  lw_phase :: "attempt \<Rightarrow> phase"

text \<open>A lock excludes other descriptions, or other processes; closing a file drops its lock, or every lock of the process.\<close>

fun same_owner :: "os_locks \<Rightarrow> attempt \<Rightarrow> attempt \<Rightarrow> bool" where
  "same_owner PerDescription a b \<longleftrightarrow> a = b"
| "same_owner PerProcess a b \<longleftrightarrow> at_process a = at_process b"

definition drop_lock :: "os_locks \<Rightarrow> attempt \<Rightarrow> string \<Rightarrow> lock_world \<Rightarrow> lock_world" where
  "drop_lock kind a path w = w\<lparr>lw_owners := (lw_owners w)(path := {b \<in> lw_owners w path. \<not> same_owner kind a b})\<rparr>"

definition to_phase :: "attempt \<Rightarrow> phase \<Rightarrow> lock_world \<Rightarrow> lock_world" where
  "to_phase a p w = w\<lparr>lw_phase := (lw_phase w)(a := p)\<rparr>"

definition set_registry :: "nat \<Rightarrow> lock_registry \<Rightarrow> lock_world \<Rightarrow> lock_world" where
  "set_registry pid reg w = w\<lparr>lw_registry := (lw_registry w)(pid := reg)\<rparr>"

inductive lock_step :: "os_locks \<Rightarrow> lock_world \<Rightarrow> lock_world \<Rightarrow> bool" for kind where
  reserve: "lw_phase w a = Started \<Longrightarrow>
    reserve_writer_lock_registration path (lw_registry w (at_process a)) = Ok reg \<Longrightarrow>
    lock_step kind w (to_phase a (Reserved path) (set_registry (at_process a) reg w))"
| refused: "lw_phase w a = Started \<Longrightarrow>
    reserve_writer_lock_registration path (lw_registry w (at_process a)) = Err e \<Longrightarrow>
    lock_step kind w (to_phase a Finished w)"
| open_file: "lw_phase w a = Reserved path \<Longrightarrow> lock_step kind w (to_phase a (Opened path) w)"
| open_fails: "lw_phase w a = Reserved path \<Longrightarrow> lock_step kind w (to_phase a (Rollback path) w)"
| granted: "lw_phase w a = Opened path \<Longrightarrow> \<forall>b\<in>lw_owners w path. same_owner kind a b \<Longrightarrow>
    lock_step kind w (to_phase a (Locked path) (w\<lparr>lw_owners := (lw_owners w)(path := insert a (lw_owners w path))\<rparr>))"
| would_block: "lw_phase w a = Opened path \<Longrightarrow> lock_step kind w (to_phase a (Failing path) w)"
| stamped: "lw_phase w a = Locked path \<Longrightarrow> lock_step kind w (to_phase a (Held path) w)"
| stamp_fails: "lw_phase w a = Locked path \<Longrightarrow> lock_step kind w (to_phase a (Failing path) w)"
| close_failed: "lw_phase w a = Failing path \<Longrightarrow> lock_step kind w (to_phase a (Rollback path) (drop_lock kind a path w))"
| rolled_back: "lw_phase w a = Rollback path \<Longrightarrow>
    lock_step kind w (to_phase a Finished
      (set_registry (at_process a) (release_writer_lock_registration path (lw_registry w (at_process a))) w))"
| unlock: "lw_phase w a = Held path \<Longrightarrow> lock_step kind w (to_phase a (Unlocked path) (drop_lock kind a path w))"
| unlock_fails: "lw_phase w a = Held path \<Longrightarrow> lock_step kind w (to_phase a (Unlocked path) w)"
| unregister: "lw_phase w a = Unlocked path \<Longrightarrow>
    lock_step kind w (to_phase a (Unregistered path)
      (set_registry (at_process a) (release_writer_lock_registration path (lw_registry w (at_process a))) w))"
| close_file: "lw_phase w a = Unregistered path \<Longrightarrow>
    lock_step kind w (to_phase a Finished (drop_lock kind a path w))"

definition lock_start :: lock_world where
  "lock_start = \<lparr>lw_registry = (\<lambda>_. \<lparr>lr_poisoned = False, lr_held = {}\<rparr>), lw_owners = (\<lambda>_. {}), lw_phase = (\<lambda>_. Started)\<rparr>"

definition lock_reachable :: "os_locks \<Rightarrow> lock_world \<Rightarrow> bool" where
  "lock_reachable kind w \<longleftrightarrow> (lock_step kind)\<^sup>*\<^sup>* lock_start w"

section \<open>The registry is exact\<close>

text \<open>The path that an attempt has registered.\<close>

fun registered :: "phase \<Rightarrow> string option" where
  "registered Started = None"
| "registered (Reserved p) = Some p"
| "registered (Opened p) = Some p"
| "registered (Locked p) = Some p"
| "registered (Held p) = Some p"
| "registered (Failing p) = Some p"
| "registered (Rollback p) = Some p"
| "registered (Unlocked p) = Some p"
| "registered (Unregistered p) = None"
| "registered Finished = None"

definition registry_exact :: "lock_world \<Rightarrow> bool" where
  "registry_exact w \<longleftrightarrow>
     (\<forall>pid. \<not> lr_poisoned (lw_registry w pid)) \<and>
     (\<forall>pid path. path \<in> lr_held (lw_registry w pid) \<longleftrightarrow>
        (\<exists>a. at_process a = pid \<and> registered (lw_phase w a) = Some path)) \<and>
     (\<forall>a b path. registered (lw_phase w a) = Some path \<longrightarrow> registered (lw_phase w b) = Some path \<longrightarrow>
        at_process a = at_process b \<longrightarrow> a = b)"

lemma registry_exactD:
  assumes "registry_exact w"
  shows "\<not> lr_poisoned (lw_registry w pid)"
    and "path \<in> lr_held (lw_registry w pid) \<longleftrightarrow> (\<exists>a. at_process a = pid \<and> registered (lw_phase w a) = Some path)"
    and "registered (lw_phase w a) = Some path \<Longrightarrow> registered (lw_phase w b) = Some path \<Longrightarrow> at_process a = at_process b \<Longrightarrow> a = b"
  using assms by (simp_all add: registry_exact_def)

lemma world_simps [simp]:
  "lw_phase (to_phase a p w) = (lw_phase w)(a := p)" "lw_registry (to_phase a p w) = lw_registry w"
  "lw_owners (to_phase a p w) = lw_owners w" "lw_phase (set_registry pid reg w) = lw_phase w"
  "lw_registry (set_registry pid reg w) = (lw_registry w)(pid := reg)" "lw_owners (set_registry pid reg w) = lw_owners w"
  "lw_phase (drop_lock kind a path w) = lw_phase w" "lw_registry (drop_lock kind a path w) = lw_registry w"
  "lw_owners (drop_lock kind a path w) = (lw_owners w)(path := {b \<in> lw_owners w path. \<not> same_owner kind a b})"
  by (simp_all add: to_phase_def set_registry_def drop_lock_def)

lemma same_owner_self [simp]: "same_owner kind a a"
  by (cases kind) simp_all

lemma reserve_Ok:
  "reserve_writer_lock_registration path reg = Ok reg' \<longleftrightarrow>
     \<not> lr_poisoned reg \<and> path \<notin> lr_held reg \<and> reg' = reg\<lparr>lr_held := insert path (lr_held reg)\<rparr>"
  by (auto simp: reserve_writer_lock_registration_def held_writer_locks_def)

lemma release_simps:
  "lr_poisoned (release_writer_lock_registration path reg) = lr_poisoned reg"
  "\<not> lr_poisoned reg \<Longrightarrow> lr_held (release_writer_lock_registration path reg) = lr_held reg - {path}"
  by (auto simp: release_writer_lock_registration_def held_writer_locks_def)

text \<open>A step that keeps what an attempt has registered, one that registers a path and one that forgets it.\<close>

lemma registry_kept:
  assumes "registry_exact w" and "registered p = registered (lw_phase w a)"
    and "lw_phase w' = (lw_phase w)(a := p)" and "lw_registry w' = lw_registry w"
  shows "registry_exact w'"
proof -
  have "registered (lw_phase w' b) = registered (lw_phase w b)" for b using assms(2,3) by simp
  then show ?thesis using assms(1,4) by (simp add: registry_exact_def)
qed

lemma registry_added:
  assumes inv: "registry_exact w" and a: "registered (lw_phase w a) = None" and p: "registered p = Some path"
    and reg: "reserve_writer_lock_registration path (lw_registry w (at_process a)) = Ok reg"
    and w': "lw_phase w' = (lw_phase w)(a := p)" "lw_registry w' = (lw_registry w)(at_process a := reg)"
  shows "registry_exact w'"
proof -
  note [simp] = registry_exactD(1,2) [OF inv]
  have reg': "reg = (lw_registry w (at_process a))\<lparr>lr_held := insert path (lr_held (lw_registry w (at_process a)))\<rparr>"
      "path \<notin> lr_held (lw_registry w (at_process a))"
    using reg by (simp_all add: reserve_Ok)
  have held: "path' \<in> lr_held (lw_registry w' pid) \<longleftrightarrow> (\<exists>b. at_process b = pid \<and> registered (lw_phase w' b) = Some path')" for path' pid
  proof (cases "pid = at_process a \<and> path' = path")
    case True
    then show ?thesis using p by (auto simp: w' reg'(1) intro!: exI [of _ a])
  next
    case False
    then have "path' \<in> lr_held (lw_registry w' pid) \<longleftrightarrow> path' \<in> lr_held (lw_registry w pid)" by (simp add: w' reg'(1))
    moreover have "at_process b = pid \<and> registered (lw_phase w' b) = Some path' \<longleftrightarrow>
        at_process b = pid \<and> registered (lw_phase w b) = Some path'" for b
      using False p a by (cases "b = a") (auto simp: w')
    ultimately show ?thesis by simp
  qed
  have "b = c" if "registered (lw_phase w' b) = Some path'" "registered (lw_phase w' c) = Some path'" "at_process b = at_process c"
    for b c path'
  proof (cases "b = a \<or> c = a")
    case True
    then have "path' = path" using that(1,2) p by (auto simp: w')
    moreover have "registered (lw_phase w d) \<noteq> Some path" if "at_process d = at_process a" for d
      using reg'(2) that by auto
    ultimately show ?thesis using that True by (auto simp: w' split: if_splits)
  next
    case False
    then show ?thesis using registry_exactD(3) [OF inv] that by (simp add: w')
  qed
  moreover have "\<not> lr_poisoned (lw_registry w' pid)" for pid by (simp add: w' reg'(1))
  ultimately show ?thesis using held unfolding registry_exact_def by blast
qed

lemma registry_removed:
  assumes inv: "registry_exact w" and a: "registered (lw_phase w a) = Some path" and p: "registered p = None"
    and w': "lw_phase w' = (lw_phase w)(a := p)"
      "lw_registry w' = (lw_registry w)(at_process a := release_writer_lock_registration path (lw_registry w (at_process a)))"
  shows "registry_exact w'"
proof -
  note [simp] = registry_exactD(1) [OF inv]
  have ok: "\<not> lr_poisoned (lw_registry w' pid)" for pid by (simp add: w' release_simps)
  have only: "b = a" if "registered (lw_phase w b) = Some path" "at_process b = at_process a" for b
    using registry_exactD(3) [OF inv that(1) a that(2)] .
  have held: "path' \<in> lr_held (lw_registry w' pid) \<longleftrightarrow> (\<exists>b. at_process b = pid \<and> registered (lw_phase w' b) = Some path')" for path' pid
  proof (cases "pid = at_process a \<and> path' = path")
    case True
    then show ?thesis using p only by (auto simp: w' release_simps)
  next
    case False
    then have "path' \<in> lr_held (lw_registry w' pid) \<longleftrightarrow> path' \<in> lr_held (lw_registry w pid)" by (simp add: w' release_simps)
    moreover have "at_process b = pid \<and> registered (lw_phase w' b) = Some path' \<longleftrightarrow>
        at_process b = pid \<and> registered (lw_phase w b) = Some path'" for b
      using False p a by (cases "b = a") (auto simp: w')
    ultimately show ?thesis using registry_exactD(2) [OF inv, of path' pid] by simp
  qed
  have "b = c" if "registered (lw_phase w' b) = Some path'" "registered (lw_phase w' c) = Some path'" "at_process b = at_process c"
    for b c path'
    using registry_exactD(3) [OF inv] that p by (simp add: w' split: if_splits)
  then show ?thesis using held ok unfolding registry_exact_def by blast
qed

lemma registry_step:
  assumes "lock_step kind w w'" and inv: "registry_exact w"
  shows "registry_exact w'"
  using assms(1)
proof cases
  case (reserve a path reg)
  then show ?thesis by (intro registry_added [OF inv, where a = a and p = "Reserved path" and path = path and reg = reg]) simp_all
next
  case (refused a path e)
  then show ?thesis by (intro registry_kept [OF inv, where a = a and p = Finished]) simp_all
next
  case (open_file a path)
  then show ?thesis by (intro registry_kept [OF inv, where a = a and p = "Opened path"]) simp_all
next
  case (open_fails a path)
  then show ?thesis by (intro registry_kept [OF inv, where a = a and p = "Rollback path"]) simp_all
next
  case (granted a path)
  then show ?thesis by (intro registry_kept [OF inv, where a = a and p = "Locked path"]) simp_all
next
  case (would_block a path)
  then show ?thesis by (intro registry_kept [OF inv, where a = a and p = "Failing path"]) simp_all
next
  case (stamped a path)
  then show ?thesis by (intro registry_kept [OF inv, where a = a and p = "Held path"]) simp_all
next
  case (stamp_fails a path)
  then show ?thesis by (intro registry_kept [OF inv, where a = a and p = "Failing path"]) simp_all
next
  case (close_failed a path)
  then show ?thesis by (intro registry_kept [OF inv, where a = a and p = "Rollback path"]) simp_all
next
  case (rolled_back a path)
  then show ?thesis by (intro registry_removed [OF inv, where a = a and p = Finished and path = path]) simp_all
next
  case (unlock a path)
  then show ?thesis by (intro registry_kept [OF inv, where a = a and p = "Unlocked path"]) simp_all
next
  case (unlock_fails a path)
  then show ?thesis by (intro registry_kept [OF inv, where a = a and p = "Unlocked path"]) simp_all
next
  case (unregister a path)
  then show ?thesis by (intro registry_removed [OF inv, where a = a and p = "Unregistered path" and path = path]) simp_all
next
  case (close_file a path)
  then show ?thesis by (intro registry_kept [OF inv, where a = a and p = Finished]) simp_all
qed

lemma registry_reachable:
  assumes "lock_reachable kind w"
  shows "registry_exact w"
  using assms unfolding lock_reachable_def
proof (induction rule: rtranclp_induct)
  case base
  show ?case by (simp add: registry_exact_def lock_start_def)
qed (rule registry_step)

section \<open>Exclusion\<close>

text \<open>A lock of a description belongs to an attempt that has it open, and a guard has the lock.\<close>

fun opened :: "phase \<Rightarrow> string \<Rightarrow> bool" where
  "opened (Locked p) q \<longleftrightarrow> p = q"
| "opened (Held p) q \<longleftrightarrow> p = q"
| "opened (Failing p) q \<longleftrightarrow> p = q"
| "opened (Unlocked p) q \<longleftrightarrow> p = q"
| "opened (Unregistered p) q \<longleftrightarrow> p = q"
| "opened _ q \<longleftrightarrow> False"

definition owners_exact :: "lock_world \<Rightarrow> bool" where
  "owners_exact w \<longleftrightarrow>
     (\<forall>path a. a \<in> lw_owners w path \<longrightarrow> opened (lw_phase w a) path) \<and>
     (\<forall>path a. lw_phase w a = Locked path \<or> lw_phase w a = Held path \<longrightarrow> a \<in> lw_owners w path) \<and>
     (\<forall>path a b. a \<in> lw_owners w path \<longrightarrow> b \<in> lw_owners w path \<longrightarrow> a = b)"

lemma owners_exactD:
  assumes "owners_exact w"
  shows "a \<in> lw_owners w path \<Longrightarrow> opened (lw_phase w a) path"
    and "lw_phase w a = Locked path \<or> lw_phase w a = Held path \<Longrightarrow> a \<in> lw_owners w path"
    and "a \<in> lw_owners w path \<Longrightarrow> b \<in> lw_owners w path \<Longrightarrow> a = b"
  using assms unfolding owners_exact_def by blast+

text \<open>A step that changes the phase of an attempt and the owners of its path.\<close>

lemma owners_changed:
  assumes inv: "owners_exact w" and w': "lw_phase w' = (lw_phase w)(a := p)"
    "\<And>q b. b \<in> lw_owners w' q \<Longrightarrow> b \<noteq> a \<Longrightarrow> b \<in> lw_owners w q" "\<And>q b. b \<in> lw_owners w q \<Longrightarrow> b \<noteq> a \<Longrightarrow> b \<in> lw_owners w' q"
    and own: "\<And>q. a \<in> lw_owners w' q \<Longrightarrow> opened p q" "\<And>q. p = Locked q \<or> p = Held q \<Longrightarrow> a \<in> lw_owners w' q"
    and only: "\<And>q b. a \<in> lw_owners w' q \<Longrightarrow> b \<in> lw_owners w q \<Longrightarrow> b = a"
  shows "owners_exact w'"
  unfolding owners_exact_def
proof (intro conjI allI impI)
  fix q b
  assume "b \<in> lw_owners w' q"
  then show "opened (lw_phase w' b) q" using own(1) w'(1,2) owners_exactD(1) [OF inv] by (cases "b = a") auto
next
  fix q b
  assume "lw_phase w' b = Locked q \<or> lw_phase w' b = Held q"
  then show "b \<in> lw_owners w' q" using own(2) w'(1,3) owners_exactD(2) [OF inv] by (cases "b = a") auto
next
  fix q b c
  assume "b \<in> lw_owners w' q" "c \<in> lw_owners w' q"
  then show "b = c" using only w'(2) owners_exactD(3) [OF inv] by (cases "b = a"; cases "c = a") blast+
qed

lemma owners_kept:
  assumes inv: "owners_exact w" and w': "lw_phase w' = (lw_phase w)(a := p)" "lw_owners w' = lw_owners w"
    and open_kept: "\<And>q. opened (lw_phase w a) q \<Longrightarrow> opened p q"
    and held: "\<And>q. p = Locked q \<or> p = Held q \<Longrightarrow> lw_phase w a = Locked q"
  shows "owners_exact w'"
proof (rule owners_changed [OF inv w'(1)])
  show "\<And>q. a \<in> lw_owners w' q \<Longrightarrow> opened p q" using open_kept owners_exactD(1) [OF inv] by (simp add: w'(2))
  show "\<And>q. p = Locked q \<or> p = Held q \<Longrightarrow> a \<in> lw_owners w' q" using held owners_exactD(2) [OF inv] by (simp add: w'(2))
  show "\<And>q b. a \<in> lw_owners w' q \<Longrightarrow> b \<in> lw_owners w q \<Longrightarrow> b = a" using owners_exactD(3) [OF inv] by (simp add: w'(2))
qed (simp_all add: w'(2))

lemma owners_dropped:
  assumes inv: "owners_exact w" and w': "lw_phase w' = (lw_phase w)(a := p)"
    "lw_owners w' = (lw_owners w)(path := {b \<in> lw_owners w path. \<not> same_owner PerDescription a b})"
    and only: "\<And>q. opened (lw_phase w a) q \<Longrightarrow> q = path" and p: "\<And>q. p \<noteq> Locked q \<and> p \<noteq> Held q"
  shows "owners_exact w'"
proof -
  have none: "a \<notin> lw_owners w' q" for q
    using only owners_exactD(1) [OF inv, of a q] by (cases "q = path") (auto simp: w'(2))
  show ?thesis
  proof (rule owners_changed [OF inv w'(1)])
    show "\<And>q b. b \<in> lw_owners w' q \<Longrightarrow> b \<noteq> a \<Longrightarrow> b \<in> lw_owners w q" by (simp add: w'(2) split: if_splits)
    show "\<And>q b. b \<in> lw_owners w q \<Longrightarrow> b \<noteq> a \<Longrightarrow> b \<in> lw_owners w' q" by (auto simp: w'(2))
  qed (use none p in simp_all)
qed

lemma owners_granted:
  assumes inv: "owners_exact w" and a: "lw_phase w a = Opened path" and free: "\<forall>b\<in>lw_owners w path. same_owner PerDescription a b"
    and w': "lw_phase w' = (lw_phase w)(a := Locked path)" "lw_owners w' = (lw_owners w)(path := insert a (lw_owners w path))"
  shows "owners_exact w'"
proof -
  have none: "a \<notin> lw_owners w q" for q using a owners_exactD(1) [OF inv, of a q] by auto
  then have empty_path: "lw_owners w path = {}" using free by auto
  show ?thesis
    by (rule owners_changed [OF inv w'(1)]) (use none empty_path in \<open>auto simp: w'(2) split: if_splits\<close>)
qed

lemma owners_step:
  assumes step: "lock_step PerDescription w w'" and inv: "owners_exact w"
  shows "owners_exact w'"
  using step
proof cases
  case (reserve a path reg)
  then show ?thesis by (intro owners_kept [OF inv, where a = a and p = "Reserved path"]) simp_all
next
  case (refused a path e)
  then show ?thesis by (intro owners_kept [OF inv, where a = a and p = Finished]) simp_all
next
  case (open_file a path)
  then show ?thesis by (intro owners_kept [OF inv, where a = a and p = "Opened path"]) simp_all
next
  case (open_fails a path)
  then show ?thesis by (intro owners_kept [OF inv, where a = a and p = "Rollback path"]) simp_all
next
  case (granted a path)
  then show ?thesis by (intro owners_granted [OF inv, where a = a and path = path]) simp_all
next
  case (would_block a path)
  then show ?thesis by (intro owners_kept [OF inv, where a = a and p = "Failing path"]) simp_all
next
  case (stamped a path)
  then show ?thesis by (intro owners_kept [OF inv, where a = a and p = "Held path"]) simp_all
next
  case (stamp_fails a path)
  then show ?thesis by (intro owners_kept [OF inv, where a = a and p = "Failing path"]) simp_all
next
  case (close_failed a path)
  then show ?thesis by (intro owners_dropped [OF inv, where a = a and p = "Rollback path" and path = path]) simp_all
next
  case (rolled_back a path)
  then show ?thesis by (intro owners_kept [OF inv, where a = a and p = Finished]) simp_all
next
  case (unlock a path)
  then show ?thesis by (intro owners_dropped [OF inv, where a = a and p = "Unlocked path" and path = path]) simp_all
next
  case (unlock_fails a path)
  then show ?thesis by (intro owners_kept [OF inv, where a = a and p = "Unlocked path"]) simp_all
next
  case (unregister a path)
  then show ?thesis by (intro owners_kept [OF inv, where a = a and p = "Unregistered path"]) simp_all
next
  case (close_file a path)
  then show ?thesis by (intro owners_dropped [OF inv, where a = a and p = Finished and path = path]) simp_all
qed

lemma owners_reachable:
  assumes "lock_reachable PerDescription w"
  shows "owners_exact w"
  using assms unfolding lock_reachable_def
proof (induction rule: rtranclp_induct)
  case base
  show ?case by (simp add: owners_exact_def lock_start_def)
qed (rule owners_step)

section \<open>Runs\<close>

lemma reachable_step: "lock_reachable kind w \<Longrightarrow> lock_step kind w w' \<Longrightarrow> lock_reachable kind w'"
  unfolding lock_reachable_def by (rule rtranclp.rtrancl_into_rtrancl)

definition reserved_world :: "attempt \<Rightarrow> string \<Rightarrow> lock_world \<Rightarrow> lock_world" where
  "reserved_world a path w = to_phase a (Reserved path)
     (set_registry (at_process a) ((lw_registry w (at_process a))\<lparr>lr_held := insert path (lr_held (lw_registry w (at_process a)))\<rparr>) w)"

lemma reachable_reserved:
  assumes "lock_reachable kind w" and "lw_phase w a = Started" and "path \<notin> lr_held (lw_registry w (at_process a))"
  shows "lock_reachable kind (reserved_world a path w)"
  unfolding reserved_world_def
  using registry_exactD(1) [OF registry_reachable [OF assms(1)]] assms
  by (intro reachable_step [OF assms(1)] lock_step.reserve) (simp_all add: reserve_Ok)

definition held_world :: "attempt \<Rightarrow> string \<Rightarrow> lock_world \<Rightarrow> lock_world" where
  "held_world a path w = to_phase a (Held path)
     ((reserved_world a path w)\<lparr>lw_owners := (lw_owners w)(path := insert a (lw_owners w path))\<rparr>)"

lemma world_idle: "to_phase a p (to_phase a q w) = to_phase a p w"
  by (simp add: to_phase_def)

lemma owners_to_phase: "(to_phase a p w)\<lparr>lw_owners := f\<rparr> = to_phase a p (w\<lparr>lw_owners := f\<rparr>)"
  by (simp add: to_phase_def)

lemma reserved_simps [simp]:
  "lw_phase (reserved_world a path w) = (lw_phase w)(a := Reserved path)" "lw_owners (reserved_world a path w) = lw_owners w"
  "lr_held (lw_registry (reserved_world a path w) pid) =
     (if pid = at_process a then insert path (lr_held (lw_registry w pid)) else lr_held (lw_registry w pid))"
  by (simp_all add: reserved_world_def)

lemma held_simps [simp]:
  "lw_phase (held_world a path w) = (lw_phase w)(a := Held path)"
  "lw_owners (held_world a path w) = (lw_owners w)(path := insert a (lw_owners w path))"
  "lr_held (lw_registry (held_world a path w) pid) =
     (if pid = at_process a then insert path (lr_held (lw_registry w pid)) else lr_held (lw_registry w pid))"
  by (simp_all add: held_world_def reserved_world_def)

lemma reachable_held:
  assumes "lock_reachable kind w" and "lw_phase w a = Started" and "path \<notin> lr_held (lw_registry w (at_process a))"
    and "\<forall>b\<in>lw_owners w path. same_owner kind a b"
  shows "lock_reachable kind (held_world a path w)"
proof -
  let ?r = "reserved_world a path w"
  let ?l = "?r\<lparr>lw_owners := (lw_owners w)(path := insert a (lw_owners w path))\<rparr>"
  have "lock_reachable kind (to_phase a (Opened path) ?r)"
    by (rule reachable_step [OF reachable_reserved [OF assms(1-3)] lock_step.open_file]) simp
  then have "lock_reachable kind (to_phase a (Locked path)
      ((to_phase a (Opened path) ?r)\<lparr>lw_owners := (lw_owners (to_phase a (Opened path) ?r))
        (path := insert a (lw_owners (to_phase a (Opened path) ?r) path))\<rparr>))"
    by (rule reachable_step [OF _ lock_step.granted]) (use assms(4) in simp_all)
  then have "lock_reachable kind (to_phase a (Locked path) ?l)" by (simp add: owners_to_phase world_idle)
  then have "lock_reachable kind (to_phase a (Held path) (to_phase a (Locked path) ?l))"
    by (rule reachable_step [OF _ lock_step.stamped]) simp
  then show ?thesis by (simp add: world_idle held_world_def)
qed

definition unregistered_world :: "os_locks \<Rightarrow> attempt \<Rightarrow> string \<Rightarrow> lock_world \<Rightarrow> lock_world" where
  "unregistered_world kind a path w = to_phase a (Unregistered path)
     (set_registry (at_process a) (release_writer_lock_registration path (lw_registry w (at_process a))) (drop_lock kind a path w))"

lemma reachable_unregistered:
  assumes "lock_reachable kind w" and "lw_phase w a = Held path"
  shows "lock_reachable kind (unregistered_world kind a path w)"
proof -
  have "lock_reachable kind (to_phase a (Unlocked path) (drop_lock kind a path w))"
    by (rule reachable_step [OF assms(1) lock_step.unlock]) (rule assms(2))
  then have "lock_reachable kind (to_phase a (Unregistered path) (set_registry (at_process a)
      (release_writer_lock_registration path (lw_registry (to_phase a (Unlocked path) (drop_lock kind a path w)) (at_process a)))
      (to_phase a (Unlocked path) (drop_lock kind a path w))))"
    by (rule reachable_step [OF _ lock_step.unregister]) simp
  then show ?thesis by (simp add: unregistered_world_def to_phase_def set_registry_def drop_lock_def)
qed

lemma unregistered_simps [simp]:
  "lw_phase (unregistered_world kind a path w) = (lw_phase w)(a := Unregistered path)"
  "lw_owners (unregistered_world kind a path w) = (lw_owners w)(path := {b \<in> lw_owners w path. \<not> same_owner kind a b})"
  "\<not> lr_poisoned (lw_registry w (at_process a)) \<Longrightarrow> lr_held (lw_registry (unregistered_world kind a path w) pid) =
     (if pid = at_process a then lr_held (lw_registry w pid) - {path} else lr_held (lw_registry w pid))"
  by (simp_all add: unregistered_world_def release_simps)

lemma start_simps [simp]:
  "lw_phase lock_start a = Started" "lw_owners lock_start path = {}" "lr_held (lw_registry lock_start pid) = {}"
  "lr_poisoned (lw_registry lock_start pid) = False"
  by (simp_all add: lock_start_def)

lemma reachable_start: "lock_reachable kind lock_start"
  by (simp add: lock_reachable_def)

section \<open>Properties\<close>

text \<open>
  C9. The writer lock excludes: where a lock of the operating system belongs to an open file
  description, however the attempts of any processes interleave and whichever of their calls fail, a
  path has one guard at most, the process of the guard has the path registered, and no other attempt of
  that process is past its registration.
\<close>

theorem writer_exclusion:
  assumes "lock_reachable PerDescription w" and "lw_phase w a = Held path"
  shows "(\<forall>b. lw_phase w b = Held path \<longrightarrow> b = a) \<and> path \<in> lr_held (lw_registry w (at_process a)) \<and>
    (\<forall>b. at_process b = at_process a \<longrightarrow> registered (lw_phase w b) = Some path \<longrightarrow> b = a)"
proof -
  note owners = owners_exactD [OF owners_reachable [OF assms(1)]]
  note reg = registry_exactD [OF registry_reachable [OF assms(1)]]
  have "a \<in> lw_owners w path" using owners(2) assms(2) by blast
  then have "\<forall>b. lw_phase w b = Held path \<longrightarrow> b = a" using owners(2,3) by blast
  moreover have "registered (lw_phase w a) = Some path" by (simp add: assms(2))
  ultimately show ?thesis using reg(2,3) by blast
qed


text \<open>
  C36. Where a lock of the operating system belongs to a process, exclusion fails: \<open>release\<close> unregisters
  the path before the file is closed, another attempt of the process may take the lock in between, the
  late close drops that lock, and another process acquires it while the guard lives.
\<close>

theorem late_close_breaks_exclusion:
  "\<exists>w path a b. lock_reachable PerProcess w \<and> lw_phase w a = Held path \<and> lw_phase w b = Held path \<and>
     at_process a \<noteq> at_process b"
proof -
  let ?path = "''s''" and ?a = "Attempt 1 0" and ?b = "Attempt 1 1" and ?c = "Attempt 2 0"
  let ?w1 = "held_world ?a ?path lock_start"
  let ?w2 = "unregistered_world PerProcess ?a ?path ?w1"
  let ?w3 = "held_world ?b ?path ?w2"
  let ?w4 = "to_phase ?a Finished (drop_lock PerProcess ?a ?path ?w3)"
  let ?w5 = "held_world ?c ?path ?w4"
  have r1: "lock_reachable PerProcess ?w1" by (rule reachable_held [OF reachable_start]) simp_all
  then have p1: "\<not> lr_poisoned (lw_registry ?w1 1)" using registry_exactD(1) [OF registry_reachable] by blast
  have r2: "lock_reachable PerProcess ?w2" by (rule reachable_unregistered [OF r1]) simp
  have r3: "lock_reachable PerProcess ?w3" by (rule reachable_held [OF r2]) (use p1 in simp_all)
  have r4: "lock_reachable PerProcess ?w4" by (rule reachable_step [OF r3 lock_step.close_file]) simp
  have r5: "lock_reachable PerProcess ?w5" by (rule reachable_held [OF r4]) (use p1 in auto)
  show ?thesis
    by (intro exI [of _ ?w5] exI [of _ ?path] exI [of _ ?b] exI [of _ ?c]) (use r5 in simp)
qed

theorem writer_exclusion_witness:
  "\<exists>w :: lock_world. lw_phase w (Attempt 1 0) = Held ''s'' \<and> lw_phase w (Attempt 2 0) = Reserved ''s'' \<and>
     ''s'' \<in> lr_held (lw_registry w 1) \<and> (\<forall>b. lw_phase w b = Held ''s'' \<longrightarrow> b = Attempt 1 0)"
proof -
  let ?w = "reserved_world (Attempt 2 0) ''s'' (held_world (Attempt 1 0) ''s'' lock_start)"
  have "lock_reachable PerDescription (held_world (Attempt 1 0) ''s'' lock_start)"
    by (rule reachable_held [OF reachable_start]) simp_all
  then have reach: "lock_reachable PerDescription ?w" by (rule reachable_reserved) simp_all
  have held: "lw_phase ?w (Attempt 1 0) = Held ''s''" by simp
  show ?thesis using writer_exclusion [OF reach held] by (intro exI [of _ ?w]) auto
qed

end
