(* ===== verification/StoreCommit.thy ===== *)
theory StoreCommit
  imports StoreOps
begin

text \<open>
  What the mutations of an adapter store do (\<open>ordinaldb-adapter-store/src/lib.rs\<close>): the revision check,
  the contents of the tables after a transaction, and the manifest that the verification of the result
  returns. Transactions are simulated by the plain engine, on which their effect is computed.
\<close>

section \<open>Simulation of transactions\<close>

abbreviation sim_tx :: "('db \<Rightarrow> db_view) \<Rightarrow> (store_error, 'db) outcome \<Rightarrow> (store_error, db_view) outcome \<Rightarrow> bool" where
  "sim_tx view \<equiv> sim (\<lambda>db v. v = view db)"

lemma retire_others_Ok: "retire_others je i seq items = Ok r \<Longrightarrow> \<exists>rows. items = map Ok rows"
proof (induction items arbitrary: r)
  case (Cons item items)
  then obtain k raw r' where k: "item = Ok (k, raw)" "retire_others je i seq items = Ok r'"
    by (auto simp: obind_eq_Ok split: if_splits)
  then obtain rows where "items = map Ok rows" using Cons.IH by blast
  then show ?case using k(1) by (intro exI [of _ "(k, raw) # rows"]) simp
qed simp

lemma sim_retire_others:
  "\<forall>rows. a = map Ok rows \<longrightarrow> b = a \<Longrightarrow> sim (=) (retire_others je i seq a) (retire_others je i seq b)"
  by (auto simp: sim_def dest: retire_others_Ok)

text \<open>An engine that keeps the promises of \<open>redb\<close>, with the view of its databases.\<close>

locale engine =
  fixes rd :: "'db redb" and view :: "'db \<Rightarrow> db_view"
  assumes ok: "redb_ok rd view"
begin

lemmas tables = redb_okD [OF ok]

lemmas sim_opens = sim_open [OF tables(1)] sim_open [OF tables(2)] sim_open [OF tables(3)] sim_open [OF tables(4)]
lemmas sim_inserts =
  sim_insert [OF tables(1)] sim_insert [OF tables(2)] sim_insert [OF tables(3)] sim_insert [OF tables(4)]
lemmas sim_retains =
  sim_retain [OF tables(1)] sim_retain [OF tables(2)] sim_retain [OF tables(3)] sim_retain [OF tables(4)]

lemma sim_then: "sim_tx view m m' \<Longrightarrow> (\<And>db. sim S (f db) (f' (view db))) \<Longrightarrow> sim S (obind m f) (obind m' f')"
  by (auto simp: sim_def obind_eq_Ok)

lemma sim_each: "(\<And>x db. sim_tx view (f x db) (f' x (view db))) \<Longrightarrow> sim_tx view (each_tx f xs db) (each_tx f' xs (view db))"
proof (induction xs arbitrary: db)
  case Nil
  then show ?case by (simp add: sim_def)
next
  case (Cons x xs)
  show ?case unfolding each_tx.simps by (rule sim_then [OF Cons.prems]) (rule Cons.IH [OF Cons.prems])
qed

lemma sim_insert_rows:
  assumes "table_ok api view sel put"
  shows "sim_tx view (each_tx (\<lambda>(k, v). ta_insert api t k v) rows db)
    (each_tx (\<lambda>(k, v). ta_insert (plain_table sel put) t k v) rows (view db))"
  by (rule sim_each) (simp add: split_def sim_insert [OF assms] del: plain_table_simps)

lemma sim_rewrite_table:
  assumes "table_ok api view sel put"
  shows "sim_tx view (rewrite_table api t keep rows db) (rewrite_table (plain_table sel put) t keep rows (view db))"
  unfolding rewrite_table_def
  by (intro sim_then sim_open [OF assms] sim_retain [OF assms] sim_insert_rows [OF assms])

lemma sim_write_documents: "sim_tx view (write_documents rd p db) (write_documents plain_redb p (view db))"
  unfolding write_documents_def plain_redb_simps
  by (intro sim_then sim_opens sim_bind_eq sim_refl sim_retains sim_each)
    (auto simp: split_def simp del: plain_table_simps intro!: sim_bind_eq sim_refl sim_inserts)

lemma sim_write_metadata: "sim_tx view (write_metadata je rd p db) (write_metadata je plain_redb p (view db))"
  unfolding write_metadata_def plain_redb_simps
  by (intro sim_then sim_opens sim_bind_eq sim_refl sim_retains sim_each)
    (auto simp: split_def simp del: plain_table_simps intro!: sim_bind_eq sim_refl sim_inserts)

lemma sim_write_generations:
  "sim_tx view (write_generations je rd e g seq db) (write_generations je plain_redb e g seq (view db))"
  unfolding write_generations_def plain_redb_simps
  by (intro sim_then sim_opens sim_if sim_Ok refl sim_obind [OF sim_iter [OF tables(3)]] sim_bind_eq sim_refl
      sim_retire_others sim_inserts sim_insert_rows tables)

lemma sim_append_audit: "sim_tx view (append_audit je rd seq event db) (append_audit je plain_redb seq event (view db))"
  unfolding append_audit_def plain_redb_simps by (intro sim_bind_eq sim_refl sim_inserts)

lemma sim_snapshot_rows:
  "sim_tx view (snapshot_rows env rd pl p g mj seq db) (snapshot_rows env plain_redb pl p g mj seq (view db))"
  unfolding snapshot_rows_def plain_redb_simps
  by (intro sim_then sim_rewrite_table tables sim_write_documents sim_write_metadata sim_write_generations sim_opens
      sim_bind_eq sim_refl sim_append_audit)

lemma sim_patch_rows:
  "sim_tx view (patch_rows env rd p patches m mj pj seq db) (patch_rows env plain_redb p patches m mj pj seq (view db))"
  unfolding patch_rows_def plain_redb_simps
  by (intro sim_then sim_opens sim_inserts sim_each sim_bind_eq sim_refl sim_append_audit)

lemma sim_gc_rows: "sim_tx view (gc_rows env rd us mj n seq db) (gc_rows env plain_redb us mj n seq (view db))"
  unfolding gc_rows_def plain_redb_simps
  by (intro sim_then sim_opens sim_inserts sim_each sim_bind_eq sim_refl sim_append_audit)
    (auto simp: split_def simp del: plain_table_simps intro!: sim_bind_eq sim_refl sim_inserts)

text \<open>What a successful transaction leaves in the file, and what any transaction may leave.\<close>

lemma begin_write: "rd_begin_write rd db = Ok tx \<Longrightarrow> view tx = view db"
  using ok by (simp add: redb_ok_def)

lemma run_transaction_Ok:
  assumes body: "\<And>tx. sim_tx view (body tx) (body' (view tx))" and run: "run_transaction rd body db = (Ok u, f)"
  shows "\<exists>db'. f = StoreDb db' \<and> body' (view db) = Ok (view db')"
proof -
  obtain tx tx0 where tx: "rd_begin_write rd db = Ok tx0" "body tx0 = Ok tx"
      and c: "fst (rd_commit rd db tx) = Ok ()" "f = StoreDb (snd (rd_commit rd db tx))"
    using run by (auto simp: run_transaction_def split_def Let_def obind_eq_Ok split: outcome.splits)
  have "body' (view db) = Ok (view tx)" using simD [OF body tx(2)] begin_write [OF tx(1)] by auto
  moreover have "view (snd (rd_commit rd db tx)) = view tx" using ok c(1) by (simp add: redb_ok_def)
  ultimately show ?thesis using c(2) by auto
qed

lemma run_transaction_atomic:
  assumes body: "\<And>tx. sim_tx view (body tx) (body' (view tx))" and run: "run_transaction rd body db = (r, f)"
  shows "\<exists>db'. f = StoreDb db' \<and> (view db' = view db \<or> body' (view db) = Ok (view db'))"
proof (cases "obind (rd_begin_write rd db) body")
  case (Ok tx)
  then obtain tx0 where tx: "rd_begin_write rd db = Ok tx0" "body tx0 = Ok tx" by (auto simp: obind_eq_Ok)
  have new: "body' (view db) = Ok (view tx)" using simD [OF body tx(2)] begin_write [OF tx(1)] by auto
  have "view (snd (rd_commit rd db tx)) \<in> {view db, view tx}" using ok unfolding redb_ok_def by blast
  then show ?thesis using run new Ok by (auto simp: run_transaction_def split_def Let_def)
qed (use run in \<open>auto simp: run_transaction_def\<close>)

end

interpretation plain_engine: engine plain_redb id
  by unfold_locales (rule plain_redb_ok)

section \<open>The effect of a transaction\<close>

lemma set_simps [simp]:
  "dv_ss (set_ss t r v) = (dv_ss v)(t \<mapsto> r)" "dv_su (set_ss t r v) = dv_su v" "dv_us (set_ss t r v) = dv_us v"
  "dv_uu (set_ss t r v) = dv_uu v"
  "dv_ss (set_su u r' v) = dv_ss v" "dv_su (set_su u r' v) = (dv_su v)(u \<mapsto> r')" "dv_us (set_su u r' v) = dv_us v"
  "dv_uu (set_su u r' v) = dv_uu v"
  "dv_ss (set_us w r'' v) = dv_ss v" "dv_su (set_us w r'' v) = dv_su v" "dv_us (set_us w r'' v) = (dv_us v)(w \<mapsto> r'')"
  "dv_uu (set_us w r'' v) = dv_uu v"
  "dv_ss (set_uu x q v) = dv_ss v" "dv_su (set_uu x q v) = dv_su v" "dv_us (set_uu x q v) = dv_us v"
  "dv_uu (set_uu x q v) = (dv_uu v)(x \<mapsto> q)"
  by (simp_all add: set_ss_def set_su_def set_us_def set_uu_def)

definition lens :: "(db_view \<Rightarrow> 't \<Rightarrow> ('k \<times> 'v) list option) \<Rightarrow> ('t \<Rightarrow> ('k \<times> 'v) list \<Rightarrow> db_view \<Rightarrow> db_view) \<Rightarrow> bool" where
  "lens sel put \<longleftrightarrow>
     (\<forall>t r v. sel (put t r v) t = Some r) \<and> (\<forall>t r r' v. put t r (put t r' v) = put t r v) \<and>
     (\<forall>t r v. sel v t = Some r \<longrightarrow> put t r v = v)"

lemma lenses: "lens dv_ss set_ss" "lens dv_su set_su" "lens dv_us set_us" "lens dv_uu set_uu"
  by (auto simp: lens_def set_ss_def set_su_def set_us_def set_uu_def fun_upd_idem)

lemma each_insert_plain:
  assumes "lens sel put" and "sel v t = Some r"
  shows "each_tx (\<lambda>x. ta_insert (plain_table sel put) t (key x) (val x)) xs v =
    Ok (put t (btree_inserts (map (\<lambda>x. (key x, val x)) xs) r) v)"
  using assms(2)
proof (induction xs arbitrary: v r)
  case Nil
  then show ?case using assms(1) by (simp add: lens_def)
next
  case (Cons x xs)
  let ?v = "put t (btree_insert (key x) (val x) r) v"
  have "sel ?v t = Some (btree_insert (key x) (val x) r)" using assms(1) by (simp add: lens_def)
  from Cons.IH [OF this] show ?case using Cons.prems assms(1) by (simp add: lens_def)
qed

lemma rewrite_table_plain:
  assumes "lens sel put"
  shows "rewrite_table (plain_table sel put) t keep rows v =
    Ok (put t (btree_inserts rows (btree_retain keep (rows_of (sel v t)))) v)"
proof -
  let ?r = "btree_retain keep (rows_of (sel v t))"
  have "sel (put t ?r v) t = Some ?r" using assms by (simp add: lens_def)
  from each_insert_plain [OF assms this, of fst snd rows] show ?thesis
    using assms by (simp add: rewrite_table_def lens_def split_def)
qed

lemma retained_rows:
  assumes "btree_ok rows" and "distinct (map fst m)" and "\<And>k. keep k \<Longrightarrow> k \<in> keys_of m"
  shows "btree_inserts m (btree_retain keep rows) = map_rows m"
proof (rule btree_ext)
  have "map_of (btree_retain keep rows) ++ map_of (rev m) = map_of (rev m)"
  proof
    fix k
    show "(map_of (btree_retain keep rows) ++ map_of (rev m)) k = map_of (rev m) k"
    proof (cases "map_of (rev m) k")
      case None
      then have "k \<notin> keys_of m" by (simp add: map_of_eq_None_iff keys_of_def)
      then show ?thesis using assms(3) None by (auto simp: map_add_def)
    qed (simp add: map_add_def)
  qed
  then show "map_of (btree_inserts m (btree_retain keep rows)) = map_of (map_rows m)"
    using assms(1) by (simp add: map_rows_def)
qed (simp_all add: assms(1))

definition document_rows :: "parsed_payloads \<Rightarrow> (u64 \<times> string) list" where
  "document_rows p = map (\<lambda>(s, d). (id_of p s, d)) (pp_documents p)"

definition metadata_rows :: "json_env \<Rightarrow> parsed_payloads \<Rightarrow> (u64 \<times> string) list" where
  "metadata_rows je p = map (\<lambda>(s, m). (id_of p s, je_print je m)) (pp_metadata p)"

lemma ids_for_strings_plain: "set ss \<subseteq> keys_of (pp_string_to_u64 p) \<Longrightarrow> ids_for_strings p ss = Ok (map (id_of p) ss)"
  by (induction ss) (simp_all add: u64_for_string_Ok)

lemma each_tx_cong: "(\<And>x v. x \<in> set xs \<Longrightarrow> f x v = g x v) \<Longrightarrow> each_tx f xs v = each_tx g xs v"
proof (induction xs arbitrary: v)
  case (Cons x xs)
  then show ?case by (cases "g x v") simp_all
qed simp

lemma id_of_inj:
  assumes "payloads_ok p"
  shows "inj_on (id_of p) (keys_of (pp_string_to_u64 p))"
proof (rule inj_onI)
  fix s t
  assume s: "s \<in> keys_of (pp_string_to_u64 p)" "t \<in> keys_of (pp_string_to_u64 p)" and eq: "id_of p s = id_of p t"
  have d: "distinct (map fst (pp_string_to_u64 p))" "inj_on snd (set (pp_string_to_u64 p))"
    using assms by (simp_all add: payloads_ok_def distinct_map)
  obtain i j where ij: "(s, i) \<in> set (pp_string_to_u64 p)" "(t, j) \<in> set (pp_string_to_u64 p)"
    using s by (auto simp: keys_of_def)
  then have "id_of p s = i" "id_of p t = j" using d(1) by (simp_all add: id_of_def)
  then show "s = t" using ij eq d(2) by (metis inj_onD prod.inject snd_conv)
qed

lemma id_rows_distinct:
  assumes "payloads_ok p" and "distinct (map fst m)" and "keys_of m = keys_of (pp_string_to_u64 p)"
  shows "distinct (map fst (map (\<lambda>(s, x). (id_of p s, f x)) m))"
proof -
  have "map fst (map (\<lambda>(s, x). (id_of p s, f x)) m) = map (id_of p) (map fst m)" by (simp add: split_def)
  then show ?thesis
    using assms(2,3) id_of_inj [OF assms(1)] by (simp only: distinct_map [of "id_of p"] keys_of_def simp_thms)
qed

lemma write_documents_plain:
  assumes ok: "payloads_ok p" and sorted: "btree_ok (rows_of (dv_us v DOCUMENTS))"
  shows "write_documents plain_redb p v = Ok (set_us DOCUMENTS (map_rows (document_rows p)) v)"
proof -
  have keys: "keys_of (pp_documents p) = keys_of (pp_string_to_u64 p)" "distinct (map fst (pp_documents p))"
    using ok by (simp_all add: payloads_ok_def)
  let ?ids = "map (id_of p) (map fst (pp_documents p))"
  let ?r = "btree_retain (\<lambda>i. i \<in> set ?ids) (rows_of (dv_us v DOCUMENTS))"
  have ids: "ids_for_strings p (map fst (pp_documents p)) = Ok ?ids"
    using keys by (intro ids_for_strings_plain) (simp add: keys_of_def)
  have "each_tx (\<lambda>(s, document) tx. obind (u64_for_string p s) (\<lambda>u64_id. ta_insert (plain_table dv_us set_us) DOCUMENTS u64_id document tx))
      (pp_documents p) w =
    each_tx (\<lambda>x. ta_insert (plain_table dv_us set_us) DOCUMENTS (id_of p (fst x)) (snd x)) (pp_documents p) w" for w
  proof (rule each_tx_cong)
    fix x w
    assume "x \<in> set (pp_documents p)"
    then have "fst x \<in> keys_of (pp_string_to_u64 p)" using keys(1) by (auto simp: keys_of_def)
    then show "(case x of (s, document) \<Rightarrow> \<lambda>tx. obind (u64_for_string p s)
        (\<lambda>u64_id. ta_insert (plain_table dv_us set_us) DOCUMENTS u64_id document tx)) w =
      ta_insert (plain_table dv_us set_us) DOCUMENTS (id_of p (fst x)) (snd x) w"
      by (simp add: u64_for_string_Ok split_def)
  qed
  moreover have "each_tx (\<lambda>x. ta_insert (plain_table dv_us set_us) DOCUMENTS (id_of p (fst x)) (snd x)) (pp_documents p)
      (set_us DOCUMENTS ?r v) = Ok (set_us DOCUMENTS (btree_inserts (document_rows p) ?r) v)"
    by (subst each_insert_plain [OF lenses(3), where r = ?r]) (simp_all add: set_us_def document_rows_def split_def)
  moreover have "btree_inserts (document_rows p) ?r = map_rows (document_rows p)"
  proof (rule retained_rows [OF sorted])
    show "distinct (map fst (document_rows p))"
      unfolding document_rows_def by (rule id_rows_distinct [where f = "\<lambda>x. x", OF ok keys(2,1)])
    fix i
    assume "i \<in> set ?ids"
    then show "i \<in> keys_of (document_rows p)" by (force simp: keys_of_def document_rows_def)
  qed
  ultimately show ?thesis
    unfolding write_documents_def plain_redb_simps plain_table_simps obind.simps set_simps ids
    by (simp add: set_us_def)
qed

lemma write_metadata_plain:
  assumes ok: "payloads_ok p" and sorted: "btree_ok (rows_of (dv_us v METADATA))"
  shows "write_metadata je plain_redb p v = Ok (set_us METADATA (map_rows (metadata_rows je p)) v)"
proof -
  have keys: "keys_of (pp_metadata p) = keys_of (pp_string_to_u64 p)" "distinct (map fst (pp_metadata p))"
    using ok by (simp_all add: payloads_ok_def)
  let ?ids = "map (id_of p) (map fst (pp_metadata p))"
  let ?r = "btree_retain (\<lambda>i. i \<in> set ?ids) (rows_of (dv_us v METADATA))"
  let ?f = "\<lambda>(s, m) tx. obind (u64_for_string p s) (\<lambda>u64_id.
    obind (canonical_json je m) (\<lambda>t. ta_insert (plain_table dv_us set_us) METADATA u64_id t tx))"
  let ?g = "\<lambda>x. ta_insert (plain_table dv_us set_us) METADATA (id_of p (fst x)) (je_print je (snd x))"
  have ids: "ids_for_strings p (map fst (pp_metadata p)) = Ok ?ids"
    using keys by (intro ids_for_strings_plain) (simp add: keys_of_def)
  have "each_tx ?f (pp_metadata p) w = each_tx ?g (pp_metadata p) w" for w
  proof (rule each_tx_cong)
    fix x w
    assume "x \<in> set (pp_metadata p)"
    then have "fst x \<in> keys_of (pp_string_to_u64 p)" using keys(1) by (auto simp: keys_of_def)
    then show "?f x w = ?g x w" by (simp add: u64_for_string_Ok split_def canonical_json_def)
  qed
  moreover have "each_tx ?g (pp_metadata p) (set_us METADATA ?r v) = Ok (set_us METADATA (btree_inserts (metadata_rows je p) ?r) v)"
    by (subst each_insert_plain [OF lenses(3), where r = ?r]) (simp_all add: set_us_def metadata_rows_def split_def)
  moreover have "btree_inserts (metadata_rows je p) ?r = map_rows (metadata_rows je p)"
  proof (rule retained_rows [OF sorted])
    show "distinct (map fst (metadata_rows je p))"
      unfolding metadata_rows_def by (rule id_rows_distinct [OF ok keys(2,1)])
    fix i
    assume "i \<in> set ?ids"
    then show "i \<in> keys_of (metadata_rows je p)" by (force simp: keys_of_def metadata_rows_def)
  qed
  ultimately show ?thesis
    unfolding write_metadata_def plain_redb_simps plain_table_simps obind.simps set_simps ids
    by (simp add: set_us_def)
qed

text \<open>The generation table after a snapshot.\<close>

definition generation_rows :: "json_env \<Rightarrow> bool \<Rightarrow> generation_checkpoint \<Rightarrow> u64 \<Rightarrow> (u64 \<times> string) list \<Rightarrow>
    (store_error, (u64 \<times> string) list) outcome" where
  "generation_rows je empty_lazy g seq rows =
     (if empty_lazy then Ok rows
      else obind (retire_others je (g_id g) seq (map Ok rows)) (\<lambda>retired.
        Ok (btree_insert (g_id g) (je_print je (g_json g)) (btree_inserts retired rows))))"

lemma write_generations_plain:
  "write_generations je plain_redb empty_lazy g seq v =
     obind (generation_rows je empty_lazy g seq (rows_of (dv_us v GENERATIONS))) (\<lambda>rows. Ok (set_us GENERATIONS rows v))"
proof -
  let ?r = "rows_of (dv_us v GENERATIONS)"
  have "each_tx (\<lambda>(i, r). ta_insert (plain_table dv_us set_us) GENERATIONS i r) retired (set_us GENERATIONS ?r v) =
      Ok (set_us GENERATIONS (btree_inserts retired ?r) v)" for retired
    using each_insert_plain [OF lenses(3), of "set_us GENERATIONS ?r v" GENERATIONS ?r fst snd retired]
    by (simp add: split_def set_us_def)
  then show ?thesis
    by (cases "retire_others je (g_id g) seq (map Ok ?r)")
      (simp_all add: write_generations_def generation_rows_def canonical_json_def set_us_def)
qed

definition payload_entries :: "legacy_payloads \<Rightarrow> (string \<times> string) list" where
  "payload_entries pl =
     map_rows [(''adapter'', adapter_json pl), (''id_map'', id_map_json pl), (''documents'', documents_json pl),
       (''metadata'', metadata_json pl)]"

definition snapshot_event :: "generation_checkpoint \<Rightarrow> u64 \<Rightarrow> json \<Rightarrow> json" where
  "snapshot_event g seq created =
     jobject [(''event'', JString ''legacy_snapshot_written''), (''commit_sequence'', jnum seq),
       (''generation_id'', jnum (g_id g)), (''active_generation_path'', JString (g_path g)), (''created_at_unix_ms'', created)]"

text \<open>The tables after a snapshot: the maps of the payloads, the generations, and one more audit row.\<close>

definition snapshot_view :: "json_env \<Rightarrow> legacy_payloads \<Rightarrow> parsed_payloads \<Rightarrow> string \<Rightarrow> (u64 \<times> string) list \<Rightarrow> u64 \<Rightarrow> json \<Rightarrow>
    db_view \<Rightarrow> db_view" where
  "snapshot_view je pl p mj gens seq event v =
     \<lparr>dv_ss = (dv_ss v)(META \<mapsto> [(''manifest'', mj)], JSON_PAYLOADS \<mapsto> payload_entries pl,
        PENDING_BATCHES \<mapsto> rows_of (dv_ss v PENDING_BATCHES)),
      dv_su = (dv_su v)(STRING_TO_U64 \<mapsto> map_rows (pp_string_to_u64 p)),
      dv_us = (dv_us v)(U64_TO_STRING \<mapsto> map_rows (swapped (pp_string_to_u64 p)), DOCUMENTS \<mapsto> map_rows (document_rows p),
        METADATA \<mapsto> map_rows (metadata_rows je p), GENERATIONS \<mapsto> gens, TOMBSTONES \<mapsto> rows_of (dv_us v TOMBSTONES),
        GC_QUEUE \<mapsto> rows_of (dv_us v GC_QUEUE), AUDIT_LOG \<mapsto> btree_insert seq (je_print je event) (rows_of (dv_us v AUDIT_LOG))),
      dv_uu = (dv_uu v)(U64_TO_SLOT \<mapsto> map_rows (pp_u64_to_slot p))\<rparr>"

lemma snapshot_view_eq:
  "set_us AUDIT_LOG (btree_insert seq (je_print je event) (rows_of (dv_us v AUDIT_LOG)))
     (set_us AUDIT_LOG (rows_of (dv_us v AUDIT_LOG))
     (set_us GC_QUEUE (rows_of (dv_us v GC_QUEUE)) (set_us TOMBSTONES (rows_of (dv_us v TOMBSTONES))
     (set_ss PENDING_BATCHES (rows_of (dv_ss v PENDING_BATCHES)) (set_us GENERATIONS gens
     (set_us METADATA (map_rows (metadata_rows je p)) (set_us DOCUMENTS (map_rows (document_rows p))
     (set_uu U64_TO_SLOT (map_rows (pp_u64_to_slot p)) (set_us U64_TO_STRING (map_rows (swapped (pp_string_to_u64 p)))
     (set_su STRING_TO_U64 (map_rows (pp_string_to_u64 p)) (set_ss JSON_PAYLOADS (payload_entries pl)
     (set_ss META [(''manifest'', mj)] v)))))))))))) = snapshot_view je pl p mj gens seq event v"
  by (rule db_view.equality) (auto simp: snapshot_view_def fun_eq_iff)

lemma retain_none: "btree_retain (\<lambda>_. False) rows = []"
  by (simp add: btree_retain_def)

lemma snapshot_rows_plain:
  assumes ok: "payloads_ok p" and sorted: "sorted_view v"
  shows "snapshot_rows env plain_redb pl p g mj seq v =
    obind (generation_rows (se_json env) (pp_empty_lazy p) g seq (rows_of (dv_us v GENERATIONS))) (\<lambda>gens.
    obind (now_json env 1) (\<lambda>created.
    Ok (snapshot_view (se_json env) pl p mj gens seq (snapshot_event g seq created) v)))"
proof -
  let ?p = "pp_string_to_u64 p"
  have d: "distinct (map fst ?p)" "distinct (map fst (swapped ?p))" "distinct (map fst (pp_u64_to_slot p))"
    using ok by (simp_all add: payloads_ok_def swapped_keys)
  have rows: "btree_ok (rows_of (dv_su v STRING_TO_U64))" "btree_ok (rows_of (dv_us v U64_TO_STRING))"
      "btree_ok (rows_of (dv_uu v U64_TO_SLOT))" "btree_ok (rows_of (dv_us v DOCUMENTS))" "btree_ok (rows_of (dv_us v METADATA))"
    using sorted by (simp_all add: sorted_view_def)
  have "i \<in> snd ` set ?p \<Longrightarrow> i \<in> keys_of (swapped ?p)" for i by (force simp: keys_of_def swapped_def)
  note swap = retained_rows [OF rows(2) d(2) this]
  note keep = retained_rows [OF rows(1) d(1)] swap retained_rows [OF rows(3) d(3)]
  have sorted2: "btree_ok (rows_of (dv_us w DOCUMENTS))" "btree_ok (rows_of (dv_us w METADATA))"
    if "dv_us w DOCUMENTS = dv_us v DOCUMENTS" "dv_us w METADATA = dv_us v METADATA" for w
    using rows that by simp_all
  have single: "btree_inserts [(''manifest'', mj)] [] = [(''manifest'', mj)]" by (simp add: btree_insert_def)
  show ?thesis
    unfolding snapshot_rows_def plain_redb_simps rewrite_table_plain [OF lenses(1)] rewrite_table_plain [OF lenses(2)]
      rewrite_table_plain [OF lenses(3)] rewrite_table_plain [OF lenses(4)] obind.simps retain_none
      single payload_entries_def [of pl, unfolded map_rows_def, symmetric]
    by (simp add: keep write_documents_plain [OF ok] write_metadata_plain [OF ok] rows write_generations_plain)
      (cases "generation_rows (se_json env) (pp_empty_lazy p) g seq (rows_of (dv_us v GENERATIONS))";
       simp add: append_audit_def canonical_json_def snapshot_event_def snapshot_view_eq)
qed

text \<open>Inserting rows that are computed one by one.\<close>

lemma each_computed_plain:
  assumes "lens sel put" and "sel v t = Some r"
  shows "each_tx (\<lambda>x tx. obind (f x) (\<lambda>(k, s). ta_insert (plain_table sel put) t k s tx)) xs v =
    obind (traverse f xs) (\<lambda>rows. Ok (put t (btree_inserts rows r) v))"
  using assms(2)
proof (induction xs arbitrary: v r)
  case Nil
  then show ?case using assms(1) by (simp add: lens_def)
next
  case (Cons x xs)
  show ?case
  proof (cases "f x")
    case (Ok ks)
    obtain k s where ks: "ks = (k, s)" by fastforce
    let ?v = "put t (btree_insert k s r) v"
    have "sel ?v t = Some (btree_insert k s r)" using assms(1) by (simp add: lens_def)
    from Cons.IH [OF this] show ?thesis
      using Ok ks Cons.prems assms(1) by (cases "traverse f xs") (simp_all add: lens_def)
  qed simp_all
qed

definition patch_row :: "json_env \<Rightarrow> parsed_payloads \<Rightarrow> metadata_patch \<Rightarrow> (store_error, u64 \<times> string) outcome" where
  "patch_row je p patch =
     obind (u64_for_string p (mp_id patch)) (\<lambda>u64_id.
     obind (ok_or ''metadata patch row missing'' (map_of (pp_metadata p) (mp_id patch))) (\<lambda>v. Ok (u64_id, je_print je v)))"

definition patch_event :: "metadata_patch list \<Rightarrow> u64 \<Rightarrow> string \<Rightarrow> u64 \<Rightarrow> json \<Rightarrow> json" where
  "patch_event patches g path seq created =
     jobject [(''event'', JString ''metadata_patched''), (''commit_sequence'', jnum seq),
       (''patched_id_count'', jnum (of_nat (length patches))), (''active_generation_id'', jnum g),
       (''active_generation_path'', JString path), (''created_at_unix_ms'', created)]"

definition patch_view :: "json_env \<Rightarrow> string \<Rightarrow> string \<Rightarrow> (u64 \<times> string) list \<Rightarrow> u64 \<Rightarrow> json \<Rightarrow> db_view \<Rightarrow> db_view" where
  "patch_view je mj pj rows seq event v =
     \<lparr>dv_ss = (dv_ss v)(META \<mapsto> btree_insert ''manifest'' mj (rows_of (dv_ss v META)),
        JSON_PAYLOADS \<mapsto> btree_insert ''metadata'' pj (rows_of (dv_ss v JSON_PAYLOADS))),
      dv_su = dv_su v,
      dv_us = (dv_us v)(METADATA \<mapsto> btree_inserts rows (rows_of (dv_us v METADATA)),
        AUDIT_LOG \<mapsto> btree_insert seq (je_print je event) (rows_of (dv_us v AUDIT_LOG))),
      dv_uu = dv_uu v\<rparr>"

lemma patch_rows_plain:
  "patch_rows env plain_redb p patches manifest mj pj seq v =
    obind (traverse (patch_row (se_json env) p) patches) (\<lambda>rows.
    obind (required_u64 manifest ''active_generation_id'') (\<lambda>g.
    obind (required_string manifest ''active_generation_path'') (\<lambda>path.
    obind (now_json env 1) (\<lambda>created.
    Ok (patch_view (se_json env) mj pj rows seq (patch_event patches g path seq created) v)))))"
proof -
  let ?f = "\<lambda>patch tx. obind (u64_for_string p (mp_id patch)) (\<lambda>u64_id.
       obind (ok_or ''metadata patch row missing'' (map_of (pp_metadata p) (mp_id patch))) (\<lambda>v.
       Ok (set_us METADATA (btree_insert u64_id (je_print (se_json env) v) (rows_of (dv_us tx METADATA))) tx)))"
  have "?f = (\<lambda>x tx. obind (patch_row (se_json env) p x) (\<lambda>(k, s). ta_insert (plain_table dv_us set_us) METADATA k s tx))"
    by (intro ext) (simp add: patch_row_def obind_assoc)
  then have each: "each_tx ?f patches w = obind (traverse (patch_row (se_json env) p) patches)
      (\<lambda>rows. Ok (set_us METADATA (btree_inserts rows r) w))" if "dv_us w METADATA = Some r" for w r
    using each_computed_plain [OF lenses(3), of w METADATA, OF that] by simp
  have eq: "set_us AUDIT_LOG (btree_insert seq (je_print (se_json env) event) (rows_of (dv_us v AUDIT_LOG)))
      (set_us AUDIT_LOG (rows_of (dv_us v AUDIT_LOG)) (set_us METADATA (btree_inserts rows (rows_of (dv_us v METADATA)))
      (set_us METADATA (rows_of (dv_us v METADATA))
      (set_ss JSON_PAYLOADS (btree_insert ''metadata'' pj (rows_of (dv_ss v JSON_PAYLOADS)))
      (set_ss JSON_PAYLOADS (rows_of (dv_ss v JSON_PAYLOADS))
      (set_ss META (btree_insert ''manifest'' mj (rows_of (dv_ss v META))) (set_ss META (rows_of (dv_ss v META)) v))))))) =
      patch_view (se_json env) mj pj rows seq event v" for rows event
    by (rule db_view.equality) (auto simp: patch_view_def fun_eq_iff)
  show ?thesis
    unfolding patch_rows_def plain_redb_simps
    by (simp add: each append_audit_def canonical_json_def obind_assoc eq patch_event_def)
qed

definition gc_row :: "store_env \<Rightarrow> u64 \<Rightarrow> nat \<times> generation_gc_update \<Rightarrow> (store_error, u64 \<times> string) outcome" where
  "gc_row env n iu =
     (case iu of (idx, update) \<Rightarrow>
       obind (ok_or ''gc_queue row id overflow'' (Option.bind (checked_inc n (of_nat idx)) (\<lambda>m. checked_inc m 1))) (\<lambda>row_id.
       obind (gc_update_json env (1 + idx) update) (\<lambda>v. Ok (row_id, je_print (se_json env) v))))"

definition gc_event :: "nat \<Rightarrow> u64 \<Rightarrow> json \<Rightarrow> json" where
  "gc_event n seq created =
     jobject [(''event'', JString ''generation_gc_recorded''), (''commit_sequence'', jnum seq),
       (''update_count'', jnum (of_nat n)), (''created_at_unix_ms'', created)]"

definition gc_view :: "json_env \<Rightarrow> string \<Rightarrow> (u64 \<times> string) list \<Rightarrow> u64 \<Rightarrow> json \<Rightarrow> db_view \<Rightarrow> db_view" where
  "gc_view je mj rows seq event v =
     \<lparr>dv_ss = (dv_ss v)(META \<mapsto> btree_insert ''manifest'' mj (rows_of (dv_ss v META))),
      dv_su = dv_su v,
      dv_us = (dv_us v)(GC_QUEUE \<mapsto> btree_inserts rows (rows_of (dv_us v GC_QUEUE)),
        AUDIT_LOG \<mapsto> btree_insert seq (je_print je event) (rows_of (dv_us v AUDIT_LOG))),
      dv_uu = dv_uu v\<rparr>"

lemma gc_rows_plain:
  "gc_rows env plain_redb updates mj n seq v =
    obind (traverse (gc_row env n) (enumerate 0 updates)) (\<lambda>rows.
    obind (now_json env (1 + length updates)) (\<lambda>created.
    Ok (gc_view (se_json env) mj rows seq (gc_event (length updates) seq created) v)))"
proof -
  let ?f = "\<lambda>(idx, update) tx.
       obind (ok_or ''gc_queue row id overflow'' (Option.bind (checked_inc n (of_nat idx)) (\<lambda>m. checked_inc m 1))) (\<lambda>row_id.
       obind (gc_update_json env (Suc idx) update) (\<lambda>v.
       Ok (set_us GC_QUEUE (btree_insert row_id (je_print (se_json env) v) (rows_of (dv_us tx GC_QUEUE))) tx)))"
  have "?f = (\<lambda>x tx. obind (gc_row env n x) (\<lambda>(k, s). ta_insert (plain_table dv_us set_us) GC_QUEUE k s tx))"
    by (intro ext) (simp add: gc_row_def obind_assoc split_def)
  then have each: "each_tx ?f xs w = obind (traverse (gc_row env n) xs)
      (\<lambda>rows. Ok (set_us GC_QUEUE (btree_inserts rows r) w))" if "dv_us w GC_QUEUE = Some r" for w r xs
    using each_computed_plain [OF lenses(3), of w GC_QUEUE, OF that] by simp
  have eq: "set_us AUDIT_LOG (btree_insert seq (je_print (se_json env) event) (rows_of (dv_us v AUDIT_LOG)))
      (set_us AUDIT_LOG (rows_of (dv_us v AUDIT_LOG)) (set_us GC_QUEUE (btree_inserts rows (rows_of (dv_us v GC_QUEUE)))
      (set_us GC_QUEUE (rows_of (dv_us v GC_QUEUE))
      (set_ss META (btree_insert ''manifest'' mj (rows_of (dv_ss v META))) (set_ss META (rows_of (dv_ss v META)) v))))) =
      gc_view (se_json env) mj rows seq event v" for rows event
    by (rule db_view.equality) (auto simp: gc_view_def fun_eq_iff)
  show ?thesis
    unfolding gc_rows_def plain_redb_simps
    by (simp add: each append_audit_def canonical_json_def obind_assoc eq gc_event_def)
qed

section \<open>Commits\<close>

text \<open>What the plain engine computes for a mutation: the manifest it writes and the contents it leaves.\<close>

lemma manifest_row_views:
  "manifest_row (snapshot_view je pl p mj gens seq event v) = Some mj"
  "btree_ok (rows_of (dv_ss v META)) \<Longrightarrow> manifest_row (patch_view je mj pj rows seq event v) = Some mj"
  "btree_ok (rows_of (dv_ss v META)) \<Longrightarrow> manifest_row (gc_view je mj rows seq event v) = Some mj"
  by (simp_all add: manifest_row_def snapshot_view_def patch_view_def gc_view_def)

lemma finish_commit_Ok:
  assumes "finish_commit env rd root ctx (r, f) = (Ok vs, f')"
  shows "f' = f \<and> r = Ok () \<and> open_verified env rd root None f = Ok vs"
  using assms by (cases r) (auto simp: finish_commit_def guard_against_storage_panics_def obind_eq_Ok)

lemma guard_Ok [simp]: "guard_against_storage_panics env ctx r = Ok a \<longleftrightarrow> r = Ok a"
  by (cases r) (simp_all add: guard_against_storage_panics_def)

lemma guard_not_Panic [simp]: "guard_against_storage_panics env ctx r \<noteq> Panic"
  by (cases r) (simp_all add: guard_against_storage_panics_def)

lemma open_StoreDb: "open_verified_at_store_file env rd root e a f = Ok vs \<Longrightarrow> \<exists>db. f = StoreDb db \<and> verify_database env rd root e a db = Ok vs"
  by (cases f) (auto simp: open_verified_at_store_file_def validate_adapter_store_file_def obind_eq_Ok split: if_splits)

lemma current_Some:
  "current_verified_store env rd root a f = Ok (Some vs) \<Longrightarrow> open_verified_at_store_file env rd root None a f = Ok vs"
  by (cases f) (auto simp: current_verified_store_def obind_eq_Ok split: fault.splits)

lemma current_None: "current_verified_store env rd root a f = Ok None \<Longrightarrow> \<exists>s. f = NoStore (NotFound s)"
  by (cases f) (auto simp: current_verified_store_def obind_eq_Ok split: fault.splits)

lemma with_open_Ok:
  "with_open_database rd body f = (Ok u, f') \<Longrightarrow> \<exists>db. f = StoreDb db \<and> run_transaction rd body db = (Ok u, f')"
  by (cases f) (auto simp: with_open_database_def split: outcome.splits)

lemma with_created_Ok:
  "with_created_database rd body f = (Ok u, f') \<Longrightarrow>
     \<exists>db. rd_create rd = (Ok (), Some db) \<and> run_transaction rd body db = (Ok u, f')"
  by (auto simp: with_created_database_def split_def Let_def split: outcome.splits option.splits prod.splits)
    (metis (full_types) old.unit.exhaust prod.collapse)+

text \<open>A commit that succeeds returns the manifest of the tables that it wrote.\<close>

context engine
begin

lemma committed:
  assumes je: "json_text (se_json env)"
    and body: "\<And>tx. sim_tx view (body tx) (body' (view tx))"
    and row: "\<And>w. body' (view db) = Ok w \<Longrightarrow> manifest_row w = Some (je_print (se_json env) m)"
    and m: "json_ok m" "m = JObject kvs"
    and run: "run_transaction rd body db = (Ok u, f)" and opened: "open_verified env rd root None f = Ok vs"
  shows "vs_manifest vs = m \<and> (\<exists>db'. f = StoreDb db' \<and> body' (view db) = Ok (view db'))"
proof -
  obtain db' where db': "f = StoreDb db'" "body' (view db) = Ok (view db')"
    using run_transaction_Ok [OF body run] by blast
  have "verify_database env rd root None None db' = Ok vs"
    using open_StoreDb [OF opened [unfolded open_verified_def]] db'(1) by auto
  then have "verify_database env plain_redb root None None (view db') = Ok vs"
    by (rule sim_eqD [OF sim_verify_database [OF ok]])
  then have "read_manifest (se_json env) plain_redb (view db') = Ok (vs_manifest vs)"
    unfolding verify_database_def obind_eq_Ok by auto
  then obtain s where "manifest_row (view db') = Some s"
      "parse_json_object (se_json env) s ''adapter store manifest'' = Ok (vs_manifest vs)"
    unfolding read_manifest_plain by blast
  then have "vs_manifest vs = m" using row [OF db'(2)] parse_printed [OF je m(1) [unfolded m(2)]] m(2) by simp
  then show ?thesis using db' by blast
qed

end

section \<open>Manifests\<close>

lemma jget_object_insert: "json_ok (JObject m) \<Longrightarrow> jget (object_insert k x (JObject m)) f = (if f = k then Some x else map_of m f)"
  by (simp add: object_insert_def)

lemma object_insert_ok: "json_ok (JObject m) \<Longrightarrow> json_ok x \<Longrightarrow> json_ok (JObject (btree_insert k x m))"
  using btree_insert_set [of k x m] by (auto simp: list_all_iff)

lemma btree_inserts_json_ok:
  "json_ok (JObject m) \<Longrightarrow> list_all (\<lambda>(_, v). json_ok v) kvs \<Longrightarrow> json_ok (JObject (btree_inserts kvs m))"
  using btree_inserts_set [of kvs m] by (auto simp: list_all_iff)

lemma update_manifest_Ok:
  assumes "update_manifest env manifest seq counts = Ok m'" and "json_ok manifest"
  shows "\<exists>kvs tc. m' = JObject kvs \<and> json_ok m' \<and> required_u64 m' ''commit_sequence'' = Ok seq \<and>
    jget manifest ''table_counts'' = Some (JObject tc) \<and>
    jget m' ''table_counts'' = Some (JObject (btree_inserts (map (\<lambda>(k, n). (k, jnum n)) counts) tc)) \<and>
    (\<forall>f. f \<notin> {''commit_sequence'', ''updated_at_unix_ms'', ''table_counts''} \<longrightarrow> jget m' f = jget manifest f)"
proof -
  obtain m where m: "manifest = JObject m" using assms(1) by (auto simp: update_manifest_def split: json.splits)
  let ?a = "btree_insert ''commit_sequence'' (jnum seq) m"
  let ?b = "btree_insert ''updated_at_unix_ms'' (jnum (now_u64 env 0)) ?a"
  have a: "json_ok (JObject ?a)" using assms(2) m by (intro object_insert_ok) (simp_all add: entries_values_ok)
  have b: "json_ok (JObject ?b)" by (rule object_insert_ok [OF a]) (simp add: entries_values_ok)
  have "json_ok (JObject m)" using assms(2) m by simp
  then have sorted: "btree_ok m" "btree_ok ?a" "btree_ok ?b" by simp_all
  have get_b: "map_of ?b ''table_counts'' = map_of m ''table_counts''" using sorted by simp
  obtain tc where tc: "map_of m ''table_counts'' = Some (JObject tc)"
      and m': "m' = JObject (btree_insert ''table_counts'' (JObject (btree_inserts (map (\<lambda>(k, n). (k, jnum n)) counts) tc)) ?b)"
    using assms(1) m get_b
    by (auto simp: update_manifest_def object_insert_def Let_def split: option.splits json.splits)
  have "json_ok (JObject tc)" using object_members_ok [OF assms(2), of "''table_counts''"] m tc by simp
  then have "json_ok (JObject (btree_inserts (map (\<lambda>(k, n). (k, jnum n)) counts) tc))"
    by (rule btree_inserts_json_ok) (auto simp: list_all_iff entries_values_ok)
  then have "json_ok m'" unfolding m' by (rule object_insert_ok [OF b])
  then show ?thesis
    using m m' tc sorted by (simp add: required_u64_def jnum_def)
qed

lemma manifest_object_ok:
  assumes "json_ok table_counts" and "json_ok (mf_origin mf)"
  shows "json_ok (manifest_object mf p g table_counts)"
  unfolding manifest_object_def
  by (rule jobject_ok) (simp add: assms entries_values_ok jopt_def split: option.split)

lemma manifest_object_get:
  "jget (manifest_object mf p g tc) ''schema_version'' = Some (JString ADAPTER_STORE_SCHEMA_VERSION)"
  "jget (manifest_object mf p g tc) ''store_uuid'' = Some (JString (mf_store_uuid mf))"
  "jget (manifest_object mf p g tc) ''adapter_name'' = Some (JString (pp_adapter_name p))"
  "jget (manifest_object mf p g tc) ''commit_sequence'' = Some (jnum (mf_commit_sequence mf))"
  "jget (manifest_object mf p g tc) ''bits'' = Some (jnum (ucast (pp_bits p)))"
  "jget (manifest_object mf p g tc) ''dim'' = Some (jopt jnum (pp_dim p))"
  "jget (manifest_object mf p g tc) ''empty_lazy'' = Some (JBool (pp_empty_lazy p))"
  "jget (manifest_object mf p g tc) ''active_generation_id'' = Some (jnum (g_id g))"
  "jget (manifest_object mf p g tc) ''active_generation_path'' = Some (JString (g_path g))"
  "jget (manifest_object mf p g tc) ''active_generation_manifest_sha256'' = Some (jopt JString (g_manifest_sha256 g))"
  "jget (manifest_object mf p g tc) ''active_generation_manifest_size_bytes'' = Some (jopt jnum (g_manifest_size_bytes g))"
  "jget (manifest_object mf p g tc) ''vector_count'' = Some (jnum (g_vector_count g))"
  "jget (manifest_object mf p g tc) ''active_id_count'' = Some (jnum (of_nat (length (pp_string_to_u64 p))))"
  "jget (manifest_object mf p g tc) ''tombstone_count'' = Some (jnum 0)"
  "jget (manifest_object mf p g tc) ''next_u64_id'' = Some (jnum (pp_next_u64_id p))"
  "jget (manifest_object mf p g tc) ''table_counts'' = Some tc"
  "jget (manifest_object mf p g tc) ''key_format'' = Some (JString KEY_FORMAT)"
  "jget (manifest_object mf p g tc) ''payload_format'' = Some (JString PAYLOAD_FORMAT)"
  "jget (manifest_object mf p g tc) ''build_status'' = Some (JString ''complete'')"
  "jget (manifest_object mf p g tc) ''complete'' = Some (JBool True)"
  "jget (manifest_object mf p g tc) ''origin'' = Some (mf_origin mf)"
  "jget (manifest_object mf p g tc) ''migrated_from_json_sidecars'' = Some (JBool (mf_migrated mf))"
  by (simp_all add: manifest_object_def)

lemma manifest_object_object: "\<exists>kvs. manifest_object mf p g tc = JObject kvs"
  by (simp add: manifest_object_def jobject_def)

lemma store_manifest_Ok:
  assumes "adapter_store_manifest env p g tc previous origin = Ok m"
    and prev: "\<And>pm. previous = Some pm \<Longrightarrow> json_ok pm"
  shows "\<exists>mf. m = manifest_object mf p g tc \<and> json_ok (mf_origin mf) \<and>
    (case previous_field previous as_str ''store_uuid'' of
       Some s \<Rightarrow> mf_store_uuid mf = s | None \<Rightarrow> random_store_uuid env = Ok (mf_store_uuid mf)) \<and>
    (case previous_field previous as_u64 ''commit_sequence'' of
       Some s \<Rightarrow> checked_inc s 1 = Some (mf_commit_sequence mf) | None \<Rightarrow> mf_commit_sequence mf = 1) \<and>
    mf_origin mf = (case previous_field previous Some ''origin'' of Some v \<Rightarrow> v | None \<Rightarrow> JString (origin_str origin))"
proof -
  have "json_ok (case previous_field previous Some ''origin'' of Some v \<Rightarrow> v | None \<Rightarrow> JString (origin_str origin))"
    using prev object_members_ok by (auto simp: previous_field_def bind_eq_Some_conv split: option.splits)
  then show ?thesis
    using assms(1) unfolding adapter_store_manifest_def Let_def obind_eq_Ok
    by (elim exE conjE) (intro exI conjI, erule outcome.inject [THEN iffD1, THEN sym], auto simp: ok_or_eq_Ok split: option.splits)
qed

section \<open>The revision check\<close>

text \<open>Whatever the engine does, a mutation reaches the file only behind the check of the revision.\<close>

definition at_revision :: "store_env \<Rightarrow> 'db redb \<Rightarrow> string \<Rightarrow> store_revision \<Rightarrow> 'db store_file \<Rightarrow> bool" where
  "at_revision env rd root expected f \<longleftrightarrow>
     (\<exists>allowed vs. open_verified_at_store_file env rd root None allowed f = Ok vs \<and>
        revision_from_manifest (vs_manifest vs) = Ok expected)"

lemma expected_Some:
  "verify_expected_revision je current (Some e) = Ok () \<Longrightarrow> \<exists>vs. current = Some vs \<and> revision_from_manifest (vs_manifest vs) = Ok e"
  by (auto simp: verify_expected_revision_def obind_eq_Ok split: option.splits if_splits)

lemma plan_snapshot_Ok:
  assumes "plan_snapshot env rd root expected payloads origin f = Ok plan"
  shows "parse_payloads (se_json env) (se_orders env) payloads = Ok (sp_parsed plan)"
    and "active_generation_checkpoint env root (sp_parsed plan) None = Ok (sp_generation plan)"
    and "validate_against_generation (sp_parsed plan) (sp_generation plan) = Ok ()"
    and "\<exists>a. current_verified_store env rd root a f = Ok (sp_previous plan)"
    and "verify_expected_revision (se_json env) (sp_previous plan) expected = Ok ()"
    and "\<exists>gens pending tombs gc audit previous. previous = map_option vs_manifest (sp_previous plan) \<and>
      adapter_store_manifest env (sp_parsed plan) (sp_generation plan)
        (snapshot_counts (sp_parsed plan) gens pending tombs gc audit) previous origin = Ok (sp_manifest plan) \<and>
      (if pp_empty_lazy (sp_parsed plan) \<or> previous_field previous as_u64 ''active_generation_id'' = Some (g_id (sp_generation plan))
       then previous_count previous ''generations'' = Ok gens
       else \<exists>n. previous_count previous ''generations'' = Ok n \<and> checked_inc n 1 = Some gens) \<and>
      (\<exists>n. previous_count previous ''audit_log'' = Ok n \<and> checked_inc n 1 = Some audit) \<and>
      previous_count previous ''pending_batches'' = Ok pending \<and> previous_count previous ''tombstones'' = Ok tombs \<and>
      previous_count previous ''gc_queue'' = Ok gc"
    and "sp_manifest_json plan = je_print (se_json env) (sp_manifest plan)"
proof -
  note steps = assms [unfolded plan_snapshot_def obind_eq_Ok Let_def canonical_json_def]
  show "parse_payloads (se_json env) (se_orders env) payloads = Ok (sp_parsed plan)"
      "active_generation_checkpoint env root (sp_parsed plan) None = Ok (sp_generation plan)"
      "validate_against_generation (sp_parsed plan) (sp_generation plan) = Ok ()"
      "\<exists>a. current_verified_store env rd root a f = Ok (sp_previous plan)"
      "verify_expected_revision (se_json env) (sp_previous plan) expected = Ok ()"
      "sp_manifest_json plan = je_print (se_json env) (sp_manifest plan)"
    using steps by auto
  show "\<exists>gens pending tombs gc audit previous. previous = map_option vs_manifest (sp_previous plan) \<and>
      adapter_store_manifest env (sp_parsed plan) (sp_generation plan)
        (snapshot_counts (sp_parsed plan) gens pending tombs gc audit) previous origin = Ok (sp_manifest plan) \<and>
      (if pp_empty_lazy (sp_parsed plan) \<or> previous_field previous as_u64 ''active_generation_id'' = Some (g_id (sp_generation plan))
       then previous_count previous ''generations'' = Ok gens
       else \<exists>n. previous_count previous ''generations'' = Ok n \<and> checked_inc n 1 = Some gens) \<and>
      (\<exists>n. previous_count previous ''audit_log'' = Ok n \<and> checked_inc n 1 = Some audit) \<and>
      previous_count previous ''pending_batches'' = Ok pending \<and> previous_count previous ''tombstones'' = Ok tombs \<and>
      previous_count previous ''gc_queue'' = Ok gc"
  proof -
    let ?prev = "map_option vs_manifest (sp_previous plan)" and ?p = "sp_parsed plan" and ?g = "sp_generation plan"
    let ?same = "pp_empty_lazy ?p \<or> previous_field ?prev as_u64 ''active_generation_id'' = Some (g_id ?g)"
    obtain p g prev n0 n1 gens audit pending tombs gc m mj where
        plan: "\<lparr>sp_parsed = p, sp_generation = g, sp_previous = prev, sp_manifest = m, sp_manifest_json = mj\<rparr> = plan" and
        facts: "previous_count (map_option vs_manifest prev) ''generations'' = Ok n0"
          "previous_count (map_option vs_manifest prev) ''audit_log'' = Ok n1"
          "previous_count (map_option vs_manifest prev) ''pending_batches'' = Ok pending"
          "previous_count (map_option vs_manifest prev) ''tombstones'' = Ok tombs"
          "previous_count (map_option vs_manifest prev) ''gc_queue'' = Ok gc"
          "(if pp_empty_lazy p \<or> previous_field (map_option vs_manifest prev) as_u64 ''active_generation_id'' = Some (g_id g)
            then Ok n0 else ok_or ''generation table count overflow'' (checked_inc n0 1)) = Ok gens"
          "ok_or ''audit_log table count overflow'' (checked_inc n1 1) = Ok audit"
          "adapter_store_manifest env p g (snapshot_counts p gens pending tombs gc audit) (map_option vs_manifest prev) origin = Ok m"
      using steps by (auto simp only: outcome.inject)
    have parts: "p = ?p" "g = ?g" "prev = sp_previous plan" "m = sp_manifest plan" using plan by auto
    note n = facts [unfolded parts]
    have "if ?same then previous_count ?prev ''generations'' = Ok gens
        else \<exists>n. previous_count ?prev ''generations'' = Ok n \<and> checked_inc n 1 = Some gens"
      using n(1,6) by (cases ?same) (simp_all add: ok_or_eq_Ok)
    then show ?thesis using n(2-5,7,8) by (auto simp: ok_or_eq_Ok)
  qed
qed

lemma plan_patch_Ok:
  assumes "plan_patch env rd root expected patches f = Ok plan"
  shows "\<exists>current p0 n audit k.
    current_verified_store env rd root None f = Ok (Some current) \<and>
    revision_from_manifest (vs_manifest current) = Ok expected \<and>
    parse_payloads (se_json env) (se_orders env) (vs_payloads current) = Ok p0 \<and>
    apply_patches patches p0 = Ok (pt_parsed plan) \<and> validate_maps (pt_parsed plan) = Ok () \<and>
    required_u64 (vs_manifest current) ''commit_sequence'' = Ok n \<and> checked_inc n 1 = Some (pt_commit_sequence plan) \<and>
    manifest_table_count (vs_manifest current) ''audit_log'' = Ok k \<and> checked_inc k 1 = Some audit \<and>
    update_manifest env (vs_manifest current) (pt_commit_sequence plan) [(''audit_log'', audit)] = Ok (pt_manifest plan) \<and>
    pt_manifest_json plan = je_print (se_json env) (pt_manifest plan) \<and>
    metadata_payload_json (se_json env) (pt_parsed plan) = Ok (pt_metadata_json plan)"
proof -
  have "patches \<noteq> []" using assms by (auto simp: plan_patch_def)
  then show ?thesis
    using assms unfolding plan_patch_def update_metadata_patch_manifest_def obind_eq_Ok canonical_json_def
    by (auto simp: ok_or_eq_Ok obind_eq_Ok dest!: expected_Some split: if_splits)
qed

lemma unchanged_or_planned:
  "snd (write_legacy_snapshot_inner env rd root expected payloads origin f) \<noteq> f \<or>
     is_ok (fst (write_legacy_snapshot_inner env rd root expected payloads origin f)) \<Longrightarrow>
     \<exists>plan. plan_snapshot env rd root expected payloads origin f = Ok plan"
  "snd (commit_metadata_patch env rd root e patches f) \<noteq> f \<or> is_ok (fst (commit_metadata_patch env rd root e patches f)) \<Longrightarrow>
     \<exists>plan. plan_patch env rd root e patches f = Ok plan"
  by (auto simp: write_legacy_snapshot_inner_def commit_metadata_patch_def split: outcome.splits)

lemma is_ok_obind: "is_ok (obind m f) \<Longrightarrow> is_ok m"
  by (cases m) auto

lemma commit_at_revision:
  assumes "snd (commit_inner env rd root expected mutation f) \<noteq> f \<or> is_ok (fst (commit_inner env rd root expected mutation f))"
  shows "at_revision env rd root expected f"
proof (cases mutation)
  case (ReplaceLegacySnapshot payloads)
  then have "snd (write_legacy_snapshot_inner env rd root (Some expected) payloads Created f) \<noteq> f \<or>
      is_ok (fst (write_legacy_snapshot_inner env rd root (Some expected) payloads Created f))"
    using assms by (auto simp: commit_inner_def split_def Let_def dest: is_ok_obind)
  then obtain plan where plan: "plan_snapshot env rd root (Some expected) payloads Created f = Ok plan"
    using unchanged_or_planned(1) by blast
  obtain vs where "sp_previous plan = Some vs" "revision_from_manifest (vs_manifest vs) = Ok expected"
    using expected_Some [OF plan_snapshot_Ok(5) [OF plan]] by blast
  then show ?thesis
    using plan_snapshot_Ok(4) [OF plan] current_Some unfolding at_revision_def by metis
next
  case (PatchMetadata patches)
  then have "snd (commit_metadata_patch env rd root expected patches f) \<noteq> f \<or>
      is_ok (fst (commit_metadata_patch env rd root expected patches f))"
    using assms by (auto simp: commit_inner_def split_def Let_def dest: is_ok_obind)
  then obtain plan where "plan_patch env rd root expected patches f = Ok plan"
    using unchanged_or_planned(2) by blast
  then show ?thesis
    using plan_patch_Ok current_Some unfolding at_revision_def by metis
qed

section \<open>The next revision\<close>

lemma opened_manifest_ok:
  assumes "open_verified_at_store_file env rd root e a f = Ok vs"
  shows "json_ok (vs_manifest vs)"
proof -
  obtain db where "verify_database env rd root e a db = Ok vs" using open_StoreDb [OF assms] by blast
  then have "read_manifest (se_json env) rd db = Ok (vs_manifest vs)"
    unfolding verify_database_def obind_eq_Ok by auto
  then show ?thesis by (auto simp: read_manifest_def obind_eq_Ok dest: parse_object_ok)
qed

lemma opened_origin:
  assumes "open_verified_at_store_file env rd root e a f = Ok vs"
  shows "\<exists>s. jget (vs_manifest vs) ''origin'' = Some (JString s)"
proof -
  obtain db where "verify_database env rd root e a db = Ok vs" using open_StoreDb [OF assms] by blast
  then have "\<exists>e. verify_manifest_shape (se_json env) (vs_manifest vs) e = Ok ()"
    unfolding verify_database_def obind_eq_Ok by auto
  then obtain s where "required_string (vs_manifest vs) ''origin'' = Ok s"
    unfolding verify_manifest_shape_def obind_eq_Ok by blast
  then show ?thesis by (auto simp: required_string_def ok_or_eq_Ok bind_eq_Some_conv)
qed

lemma snapshot_counts_ok: "json_ok (snapshot_counts p gens pending tombs gc audit)"
  unfolding snapshot_counts_def by (rule jobject_ok) (simp add: entries_values_ok)

lemma revision_fields:
  assumes "revision_from_manifest m = Ok r"
  shows "required_string m ''store_uuid'' = Ok (sr_store_uuid r)" "required_u64 m ''commit_sequence'' = Ok (sr_commit_sequence r)"
    "required_u64 m ''active_generation_id'' = Ok (sr_active_generation_id r)"
    "required_string m ''active_generation_path'' = Ok (sr_active_generation_path r)"
    "optional_string m ''active_generation_manifest_sha256'' = Ok (sr_manifest_sha256 r)"
    "required_u64 m ''active_id_count'' = Ok (sr_active_id_count r)"
  using assms by (auto simp: revision_from_manifest_def obind_eq_Ok)

lemma required_string_Ok [simp]: "required_string m k = Ok s \<longleftrightarrow> jget m k = Some (JString s)"
  by (auto simp: required_string_def ok_or_eq_Ok bind_eq_Some_conv)

lemma required_u64_Ok [simp]: "required_u64 m k = Ok n \<longleftrightarrow> jget m k = Some (jnum n)"
  by (auto simp: required_u64_def ok_or_eq_Ok bind_eq_Some_conv jnum_def)

lemma required_bool_Ok [simp]: "required_bool m k = Ok b \<longleftrightarrow> jget m k = Some (JBool b)"
  by (auto simp: required_bool_def ok_or_eq_Ok bind_eq_Some_conv)

lemma checked_inc_Some: "checked_inc n 1 = Some m \<longleftrightarrow> unat n < u64_max \<and> m = n + 1"
  by (auto simp: checked_inc_def)

lemma checked_inc_unat: "checked_inc n 1 = Some m \<Longrightarrow> unat m = unat n + 1"
  by (auto simp: checked_inc_Some u64_max_def unat_word_ariths)

text \<open>\<open>next_revision r m\<close>: the manifest \<open>m\<close> belongs to the commit after the revision \<open>r\<close> of the same store.\<close>

definition next_manifest :: "json \<Rightarrow> json \<Rightarrow> bool" where
  "next_manifest m m' \<longleftrightarrow>
     jget m' ''store_uuid'' = jget m ''store_uuid'' \<and> jget m' ''origin'' = jget m ''origin'' \<and>
     (\<exists>n k. jget m ''commit_sequence'' = Some (jnum n) \<and> jget m' ''commit_sequence'' = Some (jnum k) \<and> unat k = unat n + 1)"

text \<open>The file moves from the expected revision to a manifest of the next one, which the caller gets.\<close>

definition advances :: "store_env \<Rightarrow> 'db redb \<Rightarrow> ('db \<Rightarrow> db_view) \<Rightarrow> string \<Rightarrow> store_revision \<Rightarrow> 'db \<Rightarrow> verified_store \<Rightarrow>
    'db store_file \<Rightarrow> bool" where
  "advances env rd view root expected db vs f' \<longleftrightarrow>
     (\<exists>a old db'. open_verified_at_store_file env rd root None a (StoreDb db) = Ok old \<and>
        revision_from_manifest (vs_manifest old) = Ok expected \<and> next_manifest (vs_manifest old) (vs_manifest vs) \<and>
        f' = StoreDb db' \<and> manifest_row (view db') = Some (je_print (se_json env) (vs_manifest vs)) \<and>
        json_ok (vs_manifest vs))"

context engine
begin

lemma snapshot_committed:
  assumes je: "json_text (se_json env)" and ho: "orders_ok (se_orders env)" and sorted: "sorted_view (view db)"
    and run: "write_legacy_snapshot_inner env rd root (Some expected) payloads origin (StoreDb db) = (Ok vs, f')"
  shows "advances env rd view root expected db vs f'"
proof -
  obtain plan where plan: "plan_snapshot env rd root (Some expected) payloads origin (StoreDb db) = Ok plan"
    using unchanged_or_planned(1) [of env rd root "Some expected" payloads origin "StoreDb db"] run by auto
  let ?p = "sp_parsed plan" and ?g = "sp_generation plan" and ?m = "sp_manifest plan"
  have ok: "payloads_ok ?p" by (rule parse_payloads_valid(1) [OF plan_snapshot_Ok(1) [OF plan] ho])
  obtain old where old: "sp_previous plan = Some old" "revision_from_manifest (vs_manifest old) = Ok expected"
    using expected_Some [OF plan_snapshot_Ok(5) [OF plan]] by blast
  obtain a where a: "open_verified_at_store_file env rd root None a (StoreDb db) = Ok old"
    using plan_snapshot_Ok(4) [OF plan] old(1) current_Some by metis
  have old_ok: "json_ok (vs_manifest old)" by (rule opened_manifest_ok [OF a])
  obtain tc where tc: "json_ok tc" "adapter_store_manifest env ?p ?g tc (Some (vs_manifest old)) origin = Ok ?m"
    using plan_snapshot_Ok(6) [OF plan] unfolding old(1) option.map
    by (elim exE conjE) (hypsubst, rule that [OF snapshot_counts_ok], assumption)
  obtain mf where mf: "?m = manifest_object mf ?p ?g tc" "json_ok (mf_origin mf)"
      "case previous_field (Some (vs_manifest old)) as_str ''store_uuid'' of
         Some s \<Rightarrow> mf_store_uuid mf = s | None \<Rightarrow> random_store_uuid env = Ok (mf_store_uuid mf)"
      "case previous_field (Some (vs_manifest old)) as_u64 ''commit_sequence'' of
         Some s \<Rightarrow> checked_inc s 1 = Some (mf_commit_sequence mf) | None \<Rightarrow> mf_commit_sequence mf = 1"
      "mf_origin mf = (case previous_field (Some (vs_manifest old)) Some ''origin'' of
         Some v \<Rightarrow> v | None \<Rightarrow> JString (origin_str origin))"
    using store_manifest_Ok [OF tc(2)] old_ok by auto
  have m_ok: "json_ok ?m" unfolding mf(1) by (rule manifest_object_ok [OF tc(1) mf(2)])
  obtain kvs where kvs: "?m = JObject kvs" unfolding mf(1) using manifest_object_object by blast
  let ?seq = "mf_commit_sequence mf"
  let ?body = "\<lambda>rd tx. snapshot_rows env rd payloads ?p ?g (sp_manifest_json plan) ?seq tx"
  obtain f where f: "write_snapshot env rd payloads plan (StoreDb db) = (Ok (), f)"
      and opened: "f' = f" "open_verified env rd root None f = Ok vs"
    using run plan finish_commit_Ok [of env rd root _ _ _ vs f']
    by (auto simp: write_legacy_snapshot_inner_def) (metis prod.collapse)
  have "write_snapshot env rd payloads plan (StoreDb db) = with_open_database rd (?body rd) (StoreDb db)"
    using old(1) by (simp add: write_snapshot_def mf(1) manifest_object_get required_u64_def jnum_def)
  then have trans: "run_transaction rd (?body rd) db = (Ok (), f)"
    using f with_open_Ok [of rd "?body rd" "StoreDb db" "()" f] by auto
  have rows: "manifest_row w = Some (je_print (se_json env) ?m)" if "?body plain_redb (view db) = Ok w" for w
    using that unfolding snapshot_rows_plain [OF ok sorted] plan_snapshot_Ok(7) [OF plan]
    by (auto simp: obind_eq_Ok manifest_row_views)
  obtain db' where db': "vs_manifest vs = ?m" "f = StoreDb db'" "?body plain_redb (view db) = Ok (view db')"
    using committed [OF je sim_snapshot_rows rows m_ok kvs trans opened(2)] by blast
  have "next_manifest (vs_manifest old) ?m"
    using revision_fields(1,2) [OF old(2)] mf(3-5) opened_origin [OF a] checked_inc_unat
    by (auto simp: next_manifest_def mf(1) manifest_object_get previous_field_def jnum_def)
  then show ?thesis using a old(2) db' rows [OF db'(3)] opened(1) m_ok
    unfolding advances_def by (intro exI [of _ a] exI [of _ old] exI [of _ db']) simp
qed

lemma patch_committed:
  assumes je: "json_text (se_json env)" and ho: "orders_ok (se_orders env)" and sorted: "sorted_view (view db)"
    and run: "commit_metadata_patch env rd root expected patches (StoreDb db) = (Ok vs, f')"
  shows "advances env rd view root expected db vs f'"
proof -
  obtain plan where plan: "plan_patch env rd root expected patches (StoreDb db) = Ok plan"
    using unchanged_or_planned(2) [of env rd root expected patches "StoreDb db"] run by auto
  let ?m = "pt_manifest plan"
  obtain old n audit where old: "current_verified_store env rd root None (StoreDb db) = Ok (Some old)"
      "revision_from_manifest (vs_manifest old) = Ok expected"
      and n: "required_u64 (vs_manifest old) ''commit_sequence'' = Ok n" "checked_inc n 1 = Some (pt_commit_sequence plan)"
      and m: "update_manifest env (vs_manifest old) (pt_commit_sequence plan) [(''audit_log'', audit)] = Ok ?m"
        "pt_manifest_json plan = je_print (se_json env) ?m"
    using plan_patch_Ok [OF plan] by blast
  have a: "open_verified_at_store_file env rd root None None (StoreDb db) = Ok old" by (rule current_Some [OF old(1)])
  obtain kvs where kvs: "?m = JObject kvs" "json_ok ?m" "required_u64 ?m ''commit_sequence'' = Ok (pt_commit_sequence plan)"
      "\<forall>f. f \<notin> {''commit_sequence'', ''updated_at_unix_ms'', ''table_counts''} \<longrightarrow> jget ?m f = jget (vs_manifest old) f"
    using update_manifest_Ok [OF m(1) opened_manifest_ok [OF a]] by blast
  let ?body = "\<lambda>rd. patch_rows env rd (pt_parsed plan) patches ?m (pt_manifest_json plan) (pt_metadata_json plan) (pt_commit_sequence plan)"
  obtain f where f: "with_open_database rd (?body rd) (StoreDb db) = (Ok (), f)"
      and opened: "f' = f" "open_verified env rd root None f = Ok vs"
    using run plan finish_commit_Ok [of env rd root _ _ _ vs f']
    by (auto simp: commit_metadata_patch_def) (metis prod.collapse)
  then have trans: "run_transaction rd (?body rd) db = (Ok (), f)"
    using with_open_Ok [of rd "?body rd" "StoreDb db" "()" f] by auto
  have meta: "btree_ok (rows_of (dv_ss (view db) META))" using sorted by (simp add: sorted_view_def)
  have rows: "manifest_row w = Some (je_print (se_json env) ?m)" if "?body plain_redb (view db) = Ok w" for w
    using that unfolding patch_rows_plain m(2) by (auto simp: obind_eq_Ok manifest_row_views(2) [OF meta])
  obtain db' where db': "vs_manifest vs = ?m" "f = StoreDb db'" "?body plain_redb (view db) = Ok (view db')"
    using committed [OF je sim_patch_rows rows kvs(2,1) trans opened(2)] by blast
  have "next_manifest (vs_manifest old) ?m"
    using n(1) kvs(3,4) checked_inc_unat [OF n(2)] by (auto simp: next_manifest_def)
  then show ?thesis using a old(2) db' rows [OF db'(3)] opened(1) kvs(2)
    unfolding advances_def by (intro exI [of _ None] exI [of _ old] exI [of _ db']) simp
qed

end

lemma json_object: "parse_json_object je s name = Ok v \<Longrightarrow> \<exists>m. v = JObject m"
  by (auto dest: parse_object_ok)

lemma jnum_inject [simp]: "jnum a = jnum b \<longleftrightarrow> a = b"
  by (simp add: jnum_def)

text \<open>In the file a commit leaves, no open succeeds at the revision the commit started from.\<close>

lemma next_not_expected:
  "next_manifest m m' \<Longrightarrow> revision_from_manifest m = Ok r \<Longrightarrow> revision_from_manifest m' \<noteq> Ok r"
  by (auto simp: next_manifest_def dest!: revision_fields(2))

lemma advanced_not_at_revision:
  assumes rd: "redb_ok rd view" and je: "json_text (se_json env)"
    and adv: "advances env rd view root expected db vs f'"
  shows "\<not> at_revision env rd root expected f'"
proof
  obtain old :: verified_store and db' where old: "revision_from_manifest (vs_manifest old) = Ok expected"
      "next_manifest (vs_manifest old) (vs_manifest vs)" "f' = StoreDb db'"
      "manifest_row (view db') = Some (je_print (se_json env) (vs_manifest vs))" "json_ok (vs_manifest vs)"
    using adv unfolding advances_def by (elim exE conjE) (rule that; assumption)
  assume "at_revision env rd root expected f'"
  then obtain a vs2 where vs2: "open_verified_at_store_file env rd root None a f' = Ok vs2"
      "revision_from_manifest (vs_manifest vs2) = Ok expected"
    unfolding at_revision_def by blast
  have "verify_database env rd root None a db' = Ok vs2" using open_StoreDb [OF vs2(1)] old(3) by auto
  then have "verify_database env plain_redb root None a (view db') = Ok vs2"
    by (rule sim_eqD [OF sim_verify_database [OF rd]])
  then have "read_manifest (se_json env) plain_redb (view db') = Ok (vs_manifest vs2)"
    unfolding verify_database_def obind_eq_Ok by auto
  then have parsed: "parse_json_object (se_json env) (je_print (se_json env) (vs_manifest vs)) ''adapter store manifest'' = Ok (vs_manifest vs2)"
    unfolding read_manifest_plain using old(4) by auto
  obtain kvs where kvs: "vs_manifest vs = JObject kvs"
    using old(2) by (cases "vs_manifest vs") (auto simp: next_manifest_def)
  have "vs_manifest vs2 = vs_manifest vs" using parsed parse_printed [OF je old(5) [unfolded kvs]] kvs by simp
  then show False using next_not_expected [OF old(2,1)] vs2(2) by simp
qed

lemma commit_inner_advances:
  assumes rd: "redb_ok rd view" and je: "json_text (se_json env)" and ho: "orders_ok (se_orders env)"
    and sorted: "sorted_view (view db)" and run: "commit_inner env rd root expected mutation (StoreDb db) = (Ok c, f')"
  shows "\<exists>vs. advances env rd view root expected db vs f' \<and> cr_manifest c = vs_manifest vs \<and>
    revision_from_manifest (vs_manifest vs) = Ok (cr_revision c)"
proof -
  note eng = engine.intro [OF rd]
  show ?thesis
  proof (cases mutation)
    case (ReplaceLegacySnapshot payloads)
    then obtain vs where vs: "write_legacy_snapshot_inner env rd root (Some expected) payloads Created (StoreDb db) = (Ok vs, f')"
        "revision_from_manifest (vs_manifest vs) = Ok (cr_revision c)" "cr_manifest c = vs_manifest vs"
      using run by (cases "write_legacy_snapshot_inner env rd root (Some expected) payloads Created (StoreDb db)")
        (auto simp: commit_inner_def obind_eq_Ok)
    from engine.snapshot_committed [OF eng je ho sorted vs(1)] show ?thesis using vs(2,3) by blast
  next
    case (PatchMetadata patches)
    then obtain vs where vs: "commit_metadata_patch env rd root expected patches (StoreDb db) = (Ok vs, f')"
        "revision_from_manifest (vs_manifest vs) = Ok (cr_revision c)" "cr_manifest c = vs_manifest vs"
      using run by (cases "commit_metadata_patch env rd root expected patches (StoreDb db)")
        (auto simp: commit_inner_def obind_eq_Ok)
    from engine.patch_committed [OF eng je ho sorted vs(1)] show ?thesis using vs(2,3) by blast
  qed
qed

lemma commit_needs_revision:
  assumes "\<not> at_revision env rd root expected f"
  shows "snd (commit_inner env rd root expected mutation f) = f \<and> \<not> is_ok (fst (commit_inner env rd root expected mutation f))"
  using commit_at_revision [of env rd root expected mutation f] assms by blast

lemma advances_revision:
  assumes "advances env rd view root expected db vs f'" and "revision_from_manifest (vs_manifest vs) = Ok r"
  shows "at_revision env rd root expected (StoreDb db) \<and> sr_store_uuid r = sr_store_uuid expected \<and>
    unat (sr_commit_sequence r) = unat (sr_commit_sequence expected) + 1"
proof -
  obtain a old where old: "open_verified_at_store_file env rd root None a (StoreDb db) = Ok old"
      "revision_from_manifest (vs_manifest old) = Ok expected" "next_manifest (vs_manifest old) (vs_manifest vs)"
    using assms(1) unfolding advances_def by (elim exE conjE) (rule that; assumption)
  then show ?thesis
    using revision_fields(1,2) [OF old(2)] revision_fields(1,2) [OF assms(2)]
    unfolding at_revision_def next_manifest_def by auto
qed

section \<open>Properties\<close>

text \<open>
  C24. Compare and swap: whatever the storage engine does, a commit leaves the file as it is and does
  not succeed unless the store opens, at the revision the caller presented.
\<close>

theorem stale_commit_writes_nothing:
  assumes "\<not> at_revision env rd root expected f"
  shows "snd (commit_inner env rd root expected mutation f) = f \<and> \<not> is_ok (fst (commit_inner env rd root expected mutation f))"
  by (rule commit_needs_revision [OF assms])

text \<open>
  C7. A commit that succeeds moves the same store to the next commit sequence, and what it leaves
  refuses every further commit at the revision it started from: of two writers that read the same
  revision, one at most succeeds.
\<close>

theorem commit_advances_revision:
  assumes "redb_ok rd view" and "json_text (se_json env)" and "orders_ok (se_orders env)" and "sorted_view (view db)"
    and "commit_inner env rd root expected mutation (StoreDb db) = (Ok c, f')"
  shows "at_revision env rd root expected (StoreDb db) \<and>
    sr_store_uuid (cr_revision c) = sr_store_uuid expected \<and>
    unat (sr_commit_sequence (cr_revision c)) = unat (sr_commit_sequence expected) + 1 \<and>
    snd (commit_inner env rd root expected later f') = f' \<and> \<not> is_ok (fst (commit_inner env rd root expected later f'))"
proof -
  obtain vs where vs: "advances env rd view root expected db vs f'" "revision_from_manifest (vs_manifest vs) = Ok (cr_revision c)"
    using commit_inner_advances [OF assms] by blast
  show ?thesis
    using advances_revision [OF vs] commit_needs_revision [OF advanced_not_at_revision [OF assms(1,2) vs(1)]] by blast
qed

end
