(* ===== verification/StoreReopen.thy ===== *)
theory StoreReopen
  imports StoreCommit
begin

text \<open>
  What is written opens again (\<open>ordinaldb-adapter-store/src/lib.rs\<close>): the tables after a snapshot
  pass the verification of the next open, on an engine that performs every call, when the generation
  is new to the store or is the active one. When it is a retired one they do not.
\<close>

section \<open>The tables of a snapshot are verified\<close>

lemma uuid_facts: "length (hex_bytes bs) = 2 * length bs"
  by (induction bs) (simp_all add: hex_bytes_def hex2_def)

lemma checkpoint_parts:
  assumes "active_generation_checkpoint env root p a = Ok g"
  shows "g_empty_lazy g = pp_empty_lazy p"
    and "pp_empty_lazy p \<Longrightarrow> g_id g = 0 \<and> g_path g = [] \<and> g_vector_count g = 0 \<and> g_manifest_sha256 g = None \<and>
      g_manifest_size_bytes g = None"
    and "\<not> pp_empty_lazy p \<Longrightarrow> g_path g = pp_index_path p \<and> g_manifest_sha256 g \<noteq> None \<and> g_manifest_size_bytes g \<noteq> None \<and>
      generation_id_from_index_path (se_json env) (pp_index_path p) = Ok (g_id g)"
    and "json_ok (g_json g)" "\<exists>kvs. g_json g = JObject kvs" "jget (g_json g) ''generation_id'' = Some (jnum (g_id g))"
    "jget (g_json g) ''state'' = Some (JString GENERATION_STATE_ACTIVE)"
    "\<not> pp_empty_lazy p \<Longrightarrow> jget (g_json g) ''path'' = Some (JString (g_path g))"
proof -
  have obj: "\<exists>kvs. jobject l = JObject kvs" for l by (simp add: jobject_def)
  show "g_empty_lazy g = pp_empty_lazy p" "pp_empty_lazy p \<Longrightarrow> g_id g = 0 \<and> g_path g = [] \<and> g_vector_count g = 0 \<and>
      g_manifest_sha256 g = None \<and> g_manifest_size_bytes g = None"
    "\<not> pp_empty_lazy p \<Longrightarrow> g_path g = pp_index_path p \<and> g_manifest_sha256 g \<noteq> None \<and> g_manifest_size_bytes g \<noteq> None \<and>
      generation_id_from_index_path (se_json env) (pp_index_path p) = Ok (g_id g)"
    using assms unfolding active_generation_checkpoint_def
    by (auto simp: obind_eq_Ok split: if_splits)
  show "json_ok (g_json g)" "\<exists>kvs. g_json g = JObject kvs" "jget (g_json g) ''generation_id'' = Some (jnum (g_id g))"
    "jget (g_json g) ''state'' = Some (JString GENERATION_STATE_ACTIVE)"
    "\<not> pp_empty_lazy p \<Longrightarrow> jget (g_json g) ''path'' = Some (JString (g_path g))"
    using assms unfolding active_generation_checkpoint_def
    by (auto simp: obind_eq_Ok obj split: if_splits intro!: jobject_ok simp: entries_values_ok)
qed

lemma of_nat_count: "n \<le> u64_max \<Longrightarrow> unat (of_nat n :: u64) = n"
  by (simp add: u64_max_def unat_of_nat take_bit_nat_eq_self)

lemma map_rows_get: "distinct (map fst m) \<Longrightarrow> (k, x) \<in> set m \<Longrightarrow> map_of (map_rows m) k = Some x"
  using mset_map_of [OF mset_map_rows [of m]] by simp

lemma snapshot_tables_hold:
  assumes je: "json_text je" and ok: "payloads_ok p"
  shows "tables_hold je (snapshot_view je pl p mj gens seq event v) p"
proof -
  have keys: "keys_of (pp_documents p) = keys_of (pp_string_to_u64 p)" "distinct (map fst (pp_documents p))"
      "keys_of (pp_metadata p) = keys_of (pp_string_to_u64 p)" "distinct (map fst (pp_metadata p))"
      "\<forall>m\<in>snd ` set (pp_metadata p). is_object m \<and> json_ok m"
    using ok by (simp_all add: payloads_ok_def)
  have d: "distinct (map fst (document_rows p))" "distinct (map fst (metadata_rows je p))"
    unfolding document_rows_def metadata_rows_def
    using id_rows_distinct [OF ok keys(2,1), where f = "\<lambda>x. x"] id_rows_distinct [OF ok keys(4,3)] by auto
  have doc: "map_of (map_rows (document_rows p)) (id_of p s) = Some t" if "(s, t) \<in> set (pp_documents p)" for s t
    using that by (intro map_rows_get [OF d(1)]) (force simp: document_rows_def)
  have meta: "map_of (map_rows (metadata_rows je p)) (id_of p s) = Some (je_print je m) \<and>
      parse_json_object je (je_print je m) name = Ok m" if "(s, m) \<in> set (pp_metadata p)" for s m name
  proof -
    have "is_object m" "json_ok m" using keys(5) that by auto
    then obtain kvs where "m = JObject kvs" "json_ok (JObject kvs)" by (auto simp: is_object_def)
    then have "parse_json_object je (je_print je m) name = Ok m" using parse_printed [OF je] by simp
    moreover have "map_of (map_rows (metadata_rows je p)) (id_of p s) = Some (je_print je m)"
      using that by (intro map_rows_get [OF d(2)]) (force simp: metadata_rows_def)
    ultimately show ?thesis by blast
  qed
  have docs: "\<forall>(s, t)\<in>set (pp_documents p). map_of (map_rows (document_rows p)) (id_of p s) = Some t"
    using doc by (intro ballI) (simp add: split_def)
  have metas: "\<forall>(s, m)\<in>set (pp_metadata p). \<exists>raw w. map_of (map_rows (metadata_rows je p)) (id_of p s) = Some raw \<and>
      parse_json_object je raw ''metadata table row'' = Ok w \<and> json_eq w m"
  proof (intro ballI, clarify)
    fix s m
    assume "(s, m) \<in> set (pp_metadata p)"
    from meta [OF this] show "\<exists>raw w. map_of (map_rows (metadata_rows je p)) (id_of p s) = Some raw \<and>
        parse_json_object je raw ''metadata table row'' = Ok w \<and> json_eq w m"
      by (intro exI [of _ "je_print je m"] exI [of _ m]) simp
  qed
  have views: "dv_su (snapshot_view je pl p mj gens seq event v) STRING_TO_U64 = Some (map_rows (pp_string_to_u64 p))"
      "dv_us (snapshot_view je pl p mj gens seq event v) U64_TO_STRING = Some (map_rows (swapped (pp_string_to_u64 p)))"
      "dv_uu (snapshot_view je pl p mj gens seq event v) U64_TO_SLOT = Some (map_rows (pp_u64_to_slot p))"
      "dv_us (snapshot_view je pl p mj gens seq event v) DOCUMENTS = Some (map_rows (document_rows p))"
      "dv_us (snapshot_view je pl p mj gens seq event v) METADATA = Some (map_rows (metadata_rows je p))"
    by (simp_all add: snapshot_view_def)
  show ?thesis unfolding tables_hold_def views rows_of_simps using docs metas by blast
qed

lemma payload_entries_rows: "payload_rows (snapshot_view je pl p mj gens seq event v) pl"
  by (simp add: payload_rows_def snapshot_view_def payload_entries_def map_rows_def)

lemma payload_entries_length: "length (payload_entries pl) = 4"
  by (simp add: payload_entries_def map_rows_def btree_insert_def)

lemma map_rows_length: "distinct (map fst m) \<Longrightarrow> length (map_rows m) = length m"
  using mset_map_rows [of m] by (rule mset_eq_length)

lemma snapshot_counts_hold:
  assumes ok: "payloads_ok p" and small: "length (pp_string_to_u64 p) \<le> u64_max"
    and counts: "unat gens_n = length gens" "unat pending = length (rows_of (dv_ss v PENDING_BATCHES))"
      "unat tombs = length (rows_of (dv_us v TOMBSTONES))" "unat gc = length (rows_of (dv_us v GC_QUEUE))"
      "unat audit = length (btree_insert seq (je_print je event) (rows_of (dv_us v AUDIT_LOG)))"
    and m: "jget m ''table_counts'' = Some (snapshot_counts p gens_n pending tombs gc audit)"
  shows "counts_hold (snapshot_view je pl p mj gens seq event v) m"
proof -
  let ?w = "snapshot_view je pl p mj gens seq event v"
  have d: "distinct (map fst (pp_string_to_u64 p))" "distinct (map fst (pp_u64_to_slot p))"
      "distinct (map fst (pp_documents p))" "distinct (map fst (pp_metadata p))" "distinct (map snd (pp_string_to_u64 p))"
      "keys_of (pp_documents p) = keys_of (pp_string_to_u64 p)" "keys_of (pp_metadata p) = keys_of (pp_string_to_u64 p)"
      "keys_of (pp_u64_to_slot p) = snd ` set (pp_string_to_u64 p)"
    using ok by (simp_all add: payloads_ok_def)
  have size: "length l = card (keys_of l)" if "distinct (map fst l)" for l :: "('x \<times> 'y) list"
    using distinct_card [OF that] by (simp add: keys_of_def)
  have len_docs: "length (pp_documents p) = length (pp_string_to_u64 p)" using size [OF d(3)] size [OF d(1)] d(6) by simp
  have len_metas: "length (pp_metadata p) = length (pp_string_to_u64 p)" using size [OF d(4)] size [OF d(1)] d(7) by simp
  have len_slots: "length (pp_u64_to_slot p) = length (pp_string_to_u64 p)"
    using size [OF d(2)] d(8) distinct_card [OF d(5)] by simp
  have rows: "length (map_rows (pp_string_to_u64 p)) = length (pp_string_to_u64 p)"
      "length (map_rows (swapped (pp_string_to_u64 p))) = length (pp_string_to_u64 p)"
      "length (map_rows (pp_u64_to_slot p)) = length (pp_string_to_u64 p)"
      "length (map_rows (document_rows p)) = length (pp_string_to_u64 p)"
      "length (map_rows (metadata_rows je p)) = length (pp_string_to_u64 p)"
  proof -
    have "distinct (map fst (document_rows p))" "distinct (map fst (metadata_rows je p))" "distinct (map fst (swapped (pp_string_to_u64 p)))"
      using id_rows_distinct [OF ok d(3,6), where f = "\<lambda>x. x"] id_rows_distinct [OF ok d(4,7)] d(5)
      by (simp_all only: document_rows_def metadata_rows_def swapped_keys)
    from this [THEN map_rows_length] show "length (map_rows (pp_string_to_u64 p)) = length (pp_string_to_u64 p)"
        "length (map_rows (swapped (pp_string_to_u64 p))) = length (pp_string_to_u64 p)"
        "length (map_rows (pp_u64_to_slot p)) = length (pp_string_to_u64 p)"
        "length (map_rows (document_rows p)) = length (pp_string_to_u64 p)"
        "length (map_rows (metadata_rows je p)) = length (pp_string_to_u64 p)"
      using map_rows_length [OF d(1)] map_rows_length [OF d(2)] len_docs len_metas len_slots
      by (simp_all only: document_rows_def metadata_rows_def swapped_def length_map)
  qed
  have entry: "map_of (btree_inserts kvs []) name = map_of (rev kvs) name" for kvs :: "(string \<times> json) list" and name by simp
  have tables: "all_tables ?w" by (simp add: all_tables_def snapshot_view_def)
  show ?thesis
    unfolding counts_hold_def m snapshot_counts_def jobject_def
    using tables of_nat_count [OF small] counts
    by (intro exI conjI) (rule refl, assumption, simp add: stored_counts_def snapshot_view_def rows len_docs len_metas len_slots
        payload_entries_length)
qed

section \<open>The generation records of a snapshot\<close>

lemma retired_record:
  assumes je: "json_text je" and hold: "record_holds je g0 i raw"
  shows "\<exists>raw'. retire_generation_record je raw seq = Ok raw' \<and> (\<forall>g. i \<noteq> g_id g \<longrightarrow> record_holds je g i raw')"
proof -
  obtain r where r: "parse_json_object je raw ''generation table row'' = Ok r" "jget r ''generation_id'' = Some (jnum i)"
      and state: "jget r ''state'' = Some (JString GENERATION_STATE_ACTIVE) \<or> jget r ''state'' = Some (JString GENERATION_STATE_RETIRED)"
    using hold unfolding record_holds_def by (auto split: if_splits)
  obtain m where m: "r = JObject m" "json_ok r" using parse_object_ok [OF r(1)] by blast
  have diff: "GENERATION_STATE_ACTIVE \<noteq> GENERATION_STATE_RETIRED"
    by (simp add: GENERATION_STATE_RETIRED_def GENERATION_STATE_ACTIVE_def)
  have valid: "is_valid_generation_record_state GENERATION_STATE_ACTIVE" "is_valid_generation_record_state GENERATION_STATE_RETIRED"
    by (simp_all add: is_valid_generation_record_state_def)
  have holds: "record_holds je g i (je_print je (JObject n))"
    if "json_ok (JObject n)" "map_of n ''generation_id'' = Some (jnum i)" "map_of n ''state'' = Some (JString GENERATION_STATE_RETIRED)"
      "i \<noteq> g_id g" for n g
    using that parse_printed [OF je that(1)] by (simp add: record_holds_def)
  show ?thesis
  proof (cases "jget r ''state'' = Some (JString GENERATION_STATE_RETIRED)")
    case True
    then have "retire_generation_record je raw seq = Ok (je_print je r)"
      using r valid by (simp add: retire_generation_record_def canonical_json_def)
    then show ?thesis using holds [of m] m r(2) True by auto
  next
    case False
    then have active: "jget r ''state'' = Some (JString GENERATION_STATE_ACTIVE)" using state by simp
    let ?a = "btree_insert ''state'' (JString GENERATION_STATE_RETIRED) m"
    let ?b = "btree_insert ''retired_by_commit_sequence'' (jnum seq) ?a"
    have run: "retire_generation_record je raw seq = Ok (je_print je (JObject ?b))"
      using r(1) m active valid diff
      by (simp add: retire_generation_record_def canonical_json_def object_insert_def)
    have m_ok: "json_ok (JObject m)" using m by simp
    have a: "json_ok (JObject ?a)" by (rule object_insert_ok [OF m_ok]) simp
    have b: "json_ok (JObject ?b)" by (rule object_insert_ok [OF a]) (simp add: entries_values_ok)
    have sorted: "btree_ok m" "btree_ok ?a" using m_ok a by simp_all
    have "map_of ?b ''generation_id'' = Some (jnum i)" "map_of ?b ''state'' = Some (JString GENERATION_STATE_RETIRED)"
      using sorted r(2) m(1) by simp_all
    then show ?thesis using run holds [OF b] by blast
  qed
qed

lemma retire_others_run:
  assumes je: "json_text je"
  shows "\<forall>(i, raw)\<in>set rows. record_holds je g0 i raw \<Longrightarrow>
    \<exists>ret. retire_others je act seq (map Ok rows) = Ok ret \<and> map fst ret = filter (\<lambda>i. i \<noteq> act) (map fst rows) \<and>
      (\<forall>(i, raw)\<in>set ret. \<forall>g. i \<noteq> g_id g \<longrightarrow> record_holds je g i raw)"
proof (induction rows)
  case (Cons row rows)
  obtain i raw where row: "row = (i, raw)" by fastforce
  obtain ret where ret: "retire_others je act seq (map Ok rows) = Ok ret" "map fst ret = filter (\<lambda>i. i \<noteq> act) (map fst rows)"
      "\<forall>(i, raw)\<in>set ret. \<forall>g. i \<noteq> g_id g \<longrightarrow> record_holds je g i raw"
    using Cons by auto
  have "record_holds je g0 i raw" using Cons.prems row by simp
  then obtain raw' where raw': "retire_generation_record je raw seq = Ok raw'" "\<forall>g. i \<noteq> g_id g \<longrightarrow> record_holds je g i raw'"
    using retired_record [OF je] by blast
  show ?case
  proof (cases "i = act")
    case True
    then show ?thesis using ret row by (intro exI [of _ ret]) simp
  next
    case False
    then show ?thesis using ret row raw' by (intro exI [of _ "(i, raw') # ret"]) simp
  qed
qed simp

lemma active_record_holds:
  assumes je: "json_text je" and g: "active_generation_checkpoint env root p a = Ok g" "\<not> pp_empty_lazy p"
  shows "record_holds je g (g_id g) (je_print je (g_json g))"
proof -
  obtain kvs where kvs: "g_json g = JObject kvs" using checkpoint_parts(5) [OF g(1)] by blast
  have "parse_json_object je (je_print je (g_json g)) ''generation table row'' = Ok (g_json g)"
    using parse_printed [OF je, of kvs] checkpoint_parts(4) [OF g(1)] kvs by simp
  then show ?thesis using checkpoint_parts(6,7) [OF g(1)] checkpoint_parts(8) [OF g] by (simp add: record_holds_def)
qed

lemma generation_rows_hold:
  assumes je: "json_text je" and sorted: "btree_ok rows" and old: "\<forall>(i, raw)\<in>set rows. record_holds je g0 i raw"
    and g: "active_generation_checkpoint env root p a = Ok g" "\<not> pp_empty_lazy p"
  shows "\<exists>gens. generation_rows je False g seq rows = Ok gens \<and> btree_ok gens \<and>
    (\<forall>(i, raw)\<in>set gens. record_holds je g i raw) \<and> keys_of gens = insert (g_id g) (keys_of rows)"
proof -
  obtain ret where ret: "retire_others je (g_id g) seq (map Ok rows) = Ok ret"
      "map fst ret = filter (\<lambda>i. i \<noteq> g_id g) (map fst rows)"
      "\<forall>(i, raw)\<in>set ret. \<forall>g. i \<noteq> g_id g \<longrightarrow> record_holds je g i raw"
    using retire_others_run [OF je old] by blast
  let ?gens = "btree_insert (g_id g) (je_print je (g_json g)) (btree_inserts ret rows)"
  have d: "distinct (map fst ret)" unfolding ret(2) using btree_ok_distinct [OF sorted] by simp
  have keys: "fst ` set ret = keys_of rows - {g_id g}"
    using arg_cong [OF ret(2), of set] by (auto simp: keys_of_def)
  have rev: "map_of (rev ret) = map_of ret" by (rule mset_map_of) (simp_all add: d)
  have get: "map_of ?gens i = (if i = g_id g then Some (je_print je (g_json g)) else
      case map_of ret i of Some x \<Rightarrow> Some x | None \<Rightarrow> map_of rows i)" for i
    using sorted by (simp add: rev map_add_def split: option.split)
  have gens: "btree_ok ?gens" using sorted by simp
  have "record_holds je g i raw" if "(i, raw) \<in> set ?gens" for i raw
  proof (cases "i = g_id g")
    case True
    then show ?thesis
      using that get [of i] map_of_is_SomeI [OF btree_ok_distinct [OF gens] that] active_record_holds [OF je g] by simp
  next
    case False
    have "(i, raw) \<in> set ret"
    proof (cases "map_of ret i")
      case None
      then have "i \<notin> keys_of rows" using keys False by (auto simp: map_of_eq_None_iff)
      then have "map_of rows i = None" by (simp add: map_of_eq_None_iff keys_of_def)
      then show ?thesis using get [of i] False None map_of_is_SomeI [OF btree_ok_distinct [OF gens] that] by simp
    next
      case (Some x)
      then show ?thesis using get [of i] False map_of_is_SomeI [OF btree_ok_distinct [OF gens] that] map_of_SomeD [of ret i raw] by simp
    qed
    then show ?thesis using ret(3) False by blast
  qed
  moreover have "keys_of ?gens = insert (g_id g) (keys_of rows)"
  proof -
    have "keys_of ?gens = dom (map_of ?gens)" by (simp add: keys_of_dom)
    also have "\<dots> = insert (g_id g) (dom (map_of ret) \<union> dom (map_of rows))" using sorted by (simp add: rev dom_map_add Un_commute)
    also have "\<dots> = insert (g_id g) (keys_of rows)" using keys by (auto simp: dom_map_of_conv_image_fst keys_of_def)
    finally show ?thesis .
  qed
  ultimately show ?thesis using ret(1) gens
    by (intro exI [of _ ?gens]) (auto simp: generation_rows_def)
qed

section \<open>A snapshot is verified\<close>

definition good_fields :: "manifest_fields \<Rightarrow> bool" where
  "good_fields mf \<longleftrightarrow>
     validate_store_uuid (mf_store_uuid mf) = Ok () \<and>
     (\<exists>s. mf_origin mf = JString s \<and> validate_store_origin s = Ok ())"

lemma manifest_object_shape:
  "good_fields mf \<Longrightarrow> verify_manifest_shape je (manifest_object mf p g tc) None = Ok ()"
  by (auto simp: good_fields_def verify_manifest_shape_def require_str_def required_string_def required_u64_def
      required_bool_def manifest_object_get jnum_def)

lemma manifest_object_payloads:
  assumes "length (pp_string_to_u64 p) \<le> u64_max"
  shows "verify_manifest_payloads (manifest_object mf p g tc) p = Ok ()"
  using of_nat_count [OF assms]
  by (cases "pp_dim p") (simp_all add: verify_manifest_payloads_def required_string_def required_u64_def required_bool_def
      manifest_object_get jnum_def jopt_def)

lemma manifest_object_generation:
  assumes "active_generation_checkpoint env root p a = Ok g"
  shows "verify_manifest_generation (manifest_object mf p g tc) g = Ok ()"
proof (cases "pp_empty_lazy p")
  case True
  then show ?thesis using checkpoint_parts(1,2) [OF assms]
    by (simp add: verify_manifest_generation_def required_string_def required_u64_def required_bool_def
        manifest_object_get jnum_def)
next
  case False
  then obtain sha n where "g_manifest_sha256 g = Some sha" "g_manifest_size_bytes g = Some n"
    using checkpoint_parts(3) [OF assms] by auto
  then show ?thesis using False checkpoint_parts(1) [OF assms]
    by (simp add: verify_manifest_generation_def required_string_def required_u64_def required_bool_def
        manifest_object_get jnum_def jopt_def)
qed

lemma snapshot_verified:
  assumes je: "json_text (se_json env)" and ho: "orders_ok (se_orders env)"
    and p: "parse_payloads (se_json env) (se_orders env) pl = Ok p"
    and g: "active_generation_checkpoint env root p None = Ok g" "validate_against_generation p g = Ok ()"
    and small: "length (pp_string_to_u64 p) \<le> u64_max" and mf: "good_fields mf"
    and counts: "unat gens_n = length gens" "unat pending = length (rows_of (dv_ss v PENDING_BATCHES))"
      "unat tombs = length (rows_of (dv_us v TOMBSTONES))" "unat gc = length (rows_of (dv_us v GC_QUEUE))"
      "unat audit = length (btree_insert seq (je_print (se_json env) event) (rows_of (dv_us v AUDIT_LOG)))"
    and gens: "\<forall>(i, raw)\<in>set gens. record_holds (se_json env) g i raw" "g_id g \<in> keys_of gens \<longleftrightarrow> \<not> pp_empty_lazy p"
    and m: "m = manifest_object mf p g (snapshot_counts p gens_n pending tombs gc audit)"
  shows "verified_state env root None None (snapshot_view (se_json env) pl p (je_print (se_json env) m) gens seq event v)
    \<lparr>vs_manifest = m, vs_payloads = pl\<rparr> p g"
proof -
  let ?w = "snapshot_view (se_json env) pl p (je_print (se_json env) m) gens seq event v"
  have ok: "payloads_ok p" by (rule parse_payloads_valid(1) [OF p ho])
  obtain s where s: "mf_origin mf = JString s" using mf by (auto simp: good_fields_def)
  have m_ok: "json_ok m" unfolding m by (rule manifest_object_ok [OF snapshot_counts_ok]) (simp add: s)
  obtain kvs where kvs: "m = JObject kvs" using manifest_object_object m by blast
  have parsed: "parse_json_object (se_json env) (je_print (se_json env) m) ''adapter store manifest'' = Ok m"
    using parse_printed [OF je, of kvs] m_ok kvs by simp
  have counted: "counts_hold ?w m"
    by (rule snapshot_counts_hold [OF ok small counts]) (simp add: m manifest_object_get)
  have records: "records_hold (se_json env) ?w g"
    using gens checkpoint_parts(1) [OF g(1)] by (simp add: records_hold_def snapshot_view_def)
  show ?thesis
    unfolding verified_state_def verified_store.simps manifest_row_views
    using parsed payload_entries_rows [of "se_json env" pl] manifest_object_shape [OF mf] p
      manifest_object_payloads [OF small] counted g snapshot_tables_hold [OF je ok] records
      manifest_object_generation [OF g(1)]
    by (simp add: m)
qed

text \<open>
  The rows of the audit log and of the queue of a store that the crate wrote: no audit row is newer
  than the manifest, and the queue is numbered from 1.
\<close>

definition history_ok :: "json \<Rightarrow> db_view \<Rightarrow> bool" where
  "history_ok m v \<longleftrightarrow>
     (\<exists>seq. jget m ''commit_sequence'' = Some (jnum seq) \<and> (\<forall>k\<in>keys_of (rows_of (dv_us v AUDIT_LOG)). k \<le> seq)) \<and>
     (\<forall>k\<in>keys_of (rows_of (dv_us v GC_QUEUE)). 1 \<le> unat k \<and> unat k \<le> length (rows_of (dv_us v GC_QUEUE)))"

text \<open>Where a snapshot starts: no store yet, or a verified store with such a history.\<close>

fun starts_from :: "store_env \<Rightarrow> string \<Rightarrow> db_view store_file \<Rightarrow> verified_store option \<Rightarrow> db_view \<Rightarrow> bool" where
  "starts_from env root (NoStore (NotFound s)) previous v \<longleftrightarrow> previous = None \<and> v = no_tables"
| "starts_from env root (StoreDb w) previous v \<longleftrightarrow> w = v \<and> sorted_view v \<and>
     (\<exists>vs p g a. previous = Some vs \<and> verified_state env root None a v vs p g \<and> history_ok (vs_manifest vs) v)"
| "starts_from env root f previous v \<longleftrightarrow> False"

lemma count_of_view:
  assumes "counts_hold v m" and "(name, n) \<in> set (stored_counts v)"
  shows "\<exists>c. manifest_table_count m name = Ok c \<and> unat c = n"
proof -
  obtain expected where e: "jget m ''table_counts'' = Some (JObject expected)"
      "\<forall>(name, n)\<in>set (stored_counts v). \<exists>c. map_of expected name = Some (jnum c) \<and> unat c = n"
    using assms(1) unfolding counts_hold_def by blast
  obtain c where "map_of expected name = Some (jnum c)" "unat c = n" using bspec [OF e(2) assms(2)] by auto
  then show ?thesis using e(1) by (simp add: manifest_table_count_def jnum_def)
qed

lemma previous_counts:
  assumes "starts_from env root f previous v"
  shows "\<exists>c. previous_count (map_option vs_manifest previous) ''generations'' = Ok c \<and> unat c = length (rows_of (dv_us v GENERATIONS))"
    "\<exists>c. previous_count (map_option vs_manifest previous) ''audit_log'' = Ok c \<and> unat c = length (rows_of (dv_us v AUDIT_LOG))"
    "\<exists>c. previous_count (map_option vs_manifest previous) ''pending_batches'' = Ok c \<and> unat c = length (rows_of (dv_ss v PENDING_BATCHES))"
    "\<exists>c. previous_count (map_option vs_manifest previous) ''tombstones'' = Ok c \<and> unat c = length (rows_of (dv_us v TOMBSTONES))"
    "\<exists>c. previous_count (map_option vs_manifest previous) ''gc_queue'' = Ok c \<and> unat c = length (rows_of (dv_us v GC_QUEUE))"
proof -
  have "previous = None \<and> v = no_tables \<or> (\<exists>vs. previous = Some vs \<and> counts_hold v (vs_manifest vs))"
    using assms by (cases "(env, root, f, previous, v)" rule: starts_from.cases) (auto simp: verified_state_def)
  then consider "previous = None" "v = no_tables" | vs where "previous = Some vs" "counts_hold v (vs_manifest vs)" by blast
  note cases = this
  show "\<exists>c. previous_count (map_option vs_manifest previous) ''generations'' = Ok c \<and> unat c = length (rows_of (dv_us v GENERATIONS))"
    "\<exists>c. previous_count (map_option vs_manifest previous) ''audit_log'' = Ok c \<and> unat c = length (rows_of (dv_us v AUDIT_LOG))"
    "\<exists>c. previous_count (map_option vs_manifest previous) ''pending_batches'' = Ok c \<and> unat c = length (rows_of (dv_ss v PENDING_BATCHES))"
    "\<exists>c. previous_count (map_option vs_manifest previous) ''tombstones'' = Ok c \<and> unat c = length (rows_of (dv_us v TOMBSTONES))"
    "\<exists>c. previous_count (map_option vs_manifest previous) ''gc_queue'' = Ok c \<and> unat c = length (rows_of (dv_us v GC_QUEUE))"
    by (cases rule: cases; simp add: previous_count_def no_tables_def count_of_view stored_counts_def)+
qed

section \<open>Fresh identifiers\<close>

lemma hex_char_ok: "d < 16 \<Longrightarrow> is_hex_char (hex_char d)"
  by (auto simp: hex_char_def is_hex_char_def Let_def)

lemma hex2_ok: "list_all is_hex_char (hex2 b)"
proof -
  have "unat b < 2 ^ LENGTH(8)" by (rule unsigned_less)
  then have "unat b div 16 < 16" by simp
  then show ?thesis by (simp add: hex2_def hex_char_ok)
qed

unbundle bit_operations_syntax

lemma version_nibble: "unat (version_byte b) div 16 = 4"
proof -
  have "unat (version_byte b) div 16 = unat (drop_bit 4 (version_byte b))"
    by (simp add: drop_bit_eq_div unat_div)
  also have "drop_bit 4 (version_byte b) = 4" by (simp add: version_byte_def)
  finally show ?thesis by simp
qed

lemma variant_nibble: "unat (variant_byte b) div 16 \<in> {8, 9, 10, 11}"
proof -
  let ?x = "take_bit 2 (drop_bit 4 b)"
  have "unat (variant_byte b) div 16 = unat (drop_bit 4 (variant_byte b))"
    by (simp add: drop_bit_eq_div unat_div)
  also have "drop_bit 4 (variant_byte b) = ?x OR 8"
    by (simp add: variant_byte_def take_bit_eq_mask mask_eq_exp_minus_1)
  finally have eq: "unat (variant_byte b) div 16 = unat (?x OR 8)" .
  have "unat ?x = take_bit 2 (unat (drop_bit 4 b))" by (rule unsigned_take_bit_eq)
  also have "\<dots> < 2 ^ 2" by (rule take_bit_nat_less_exp)
  finally have "unat ?x < 4" by simp
  then have "unat ?x \<in> {0, 1, 2, 3}" by auto
  then have "?x \<in> {0, 1, 2, 3}" by (auto simp: word_unat_eq_iff)
  then show ?thesis unfolding eq by auto
qed

lemma random_uuid_valid:
  assumes "se_random env = Inr bytes" and "length bytes = 16" and "random_store_uuid env = Ok s"
  shows "validate_store_uuid s = Ok ()"
proof -
  obtain b0 b1 b2 b3 b4 b5 b6 b7 b8 b9 b10 b11 b12 b13 b14 b15 where
      b: "bytes = [b0, b1, b2, b3, b4, b5, b6, b7, b8, b9, b10, b11, b12, b13, b14, b15]"
    using assms(2) by (auto simp: numeral_eq_Suc length_Suc_conv)
  have s: "s = hex2 b0 @ hex2 b1 @ hex2 b2 @ hex2 b3 @ ''-'' @ hex2 b4 @ hex2 b5 @ ''-'' @ hex2 (version_byte b6) @ hex2 b7 @ ''-'' @
      hex2 (variant_byte b8) @ hex2 b9 @ ''-'' @ hex2 b10 @ hex2 b11 @ hex2 b12 @ hex2 b13 @ hex2 b14 @ hex2 b15"
    using assms(1,3) by (simp add: random_store_uuid_def lift_sum_def b hex_bytes_def)
  have hex: "is_hex_char (hex_char (unat b div 16))" "is_hex_char (hex_char (unat b mod 16))" for b :: u8
    using hex2_ok [of b] by (simp_all add: hex2_def)
  have "hex_char (unat (version_byte b6) div 16) = CHR ''4''" unfolding version_nibble by (simp add: hex_char_def) code_simp
  moreover have "hex_char (unat (variant_byte b8) div 16) \<in> set ''89ab''"
    using variant_nibble [of b8] by (auto simp: hex_char_def) (code_simp+)?
  moreover have "is_hex_char CHR ''4''" by (simp add: is_hex_char_def)
  ultimately show ?thesis
    unfolding validate_store_uuid_def s hex2_def using hex
    by (simp add: enumerate_eq_zip)
qed

section \<open>A written snapshot opens\<close>

text \<open>The generation of a snapshot is new to the store or is the active one; an empty snapshot starts a store.\<close>

definition generation_ready :: "snapshot_plan \<Rightarrow> db_view \<Rightarrow> bool" where
  "generation_ready plan v \<longleftrightarrow>
     (if pp_empty_lazy (sp_parsed plan) then sp_previous plan = None
      else g_id (sp_generation plan) \<notin> keys_of (rows_of (dv_us v GENERATIONS)) \<or>
        previous_field (map_option vs_manifest (sp_previous plan)) as_u64 ''active_generation_id'' =
          Some (g_id (sp_generation plan)))"

text \<open>The clock, the random source and the syncs do their part.\<close>

definition env_ready :: "store_env \<Rightarrow> string \<Rightarrow> bool" where
  "env_ready env root \<longleftrightarrow>
     json_text (se_json env) \<and> orders_ok (se_orders env) \<and> (\<forall>k. se_now env k \<le> u64_max) \<and>
     (\<exists>bytes. se_random env = Inr bytes \<and> length bytes = 16) \<and>
     se_sync env (path_join root ADAPTER_STORE_FILE) = Inr () \<and> se_sync env root = Inr ()"

lemma generation_id_positive:
  assumes "generation_id_from_index_path je s = Ok i"
  shows "i \<noteq> 0"
  using assms parse_generation_dir_Some
  by (auto simp: generation_id_from_index_path_def obind_eq_Ok ok_or_eq_Ok split: if_splits list.splits component.splits)

lemma sorted_length: "btree_ok rows \<Longrightarrow> length rows = card (keys_of rows)"
  using distinct_card [OF btree_ok_distinct [of rows]] by (simp add: keys_of_def)

lemma btree_insert_keys: "btree_ok m \<Longrightarrow> keys_of (btree_insert k x m) = insert k (keys_of m)"
  using keys_of_dom [of "btree_insert k x m"] keys_of_dom [of m] by simp

lemma btree_insert_length: "btree_ok m \<Longrightarrow> k \<notin> keys_of m \<Longrightarrow> length (btree_insert k x m) = Suc (length m)"
  by (simp add: sorted_length btree_insert_keys) (simp add: keys_of_def)

text \<open>What is known of the store that a snapshot starts from.\<close>

lemma starts_from_parts:
  assumes "starts_from env root f previous v"
  shows "sorted_view v"
    and "\<exists>g0. (\<forall>(i, raw)\<in>set (rows_of (dv_us v GENERATIONS)). record_holds (se_json env) g0 i raw) \<and>
      (\<forall>i. previous_field (map_option vs_manifest previous) as_u64 ''active_generation_id'' = Some i \<longrightarrow>
        i = 0 \<or> i \<in> keys_of (rows_of (dv_us v GENERATIONS)))"
    and "\<And>k seq. k \<in> keys_of (rows_of (dv_us v AUDIT_LOG)) \<Longrightarrow>
      (case previous_field (map_option vs_manifest previous) as_u64 ''commit_sequence'' of
         Some s \<Rightarrow> checked_inc s 1 = Some seq | None \<Rightarrow> seq = 1) \<Longrightarrow> k < seq"
    and "\<And>k. k \<in> keys_of (rows_of (dv_us v GC_QUEUE)) \<Longrightarrow> 1 \<le> unat k \<and> unat k \<le> length (rows_of (dv_us v GC_QUEUE))"
    and "\<And>vs. previous = Some vs \<Longrightarrow> json_ok (vs_manifest vs) \<and>
      (\<exists>s o'. jget (vs_manifest vs) ''store_uuid'' = Some (JString s) \<and> validate_store_uuid s = Ok () \<and>
        jget (vs_manifest vs) ''origin'' = Some (JString o') \<and> validate_store_origin o' = Ok ())"
    and "dv_us v GENERATIONS = None \<Longrightarrow> previous = None"
proof -
  consider "previous = None" "v = no_tables"
    | vs p g a where "previous = Some vs" "verified_state env root None a v vs p g" "history_ok (vs_manifest vs) v" "sorted_view v"
    using assms by (cases "(env, root, f, previous, v)" rule: starts_from.cases) auto
  note cases = this
  have empty: "sorted_view no_tables" by (simp add: sorted_view_def no_tables_def)
  then show "sorted_view v" by (cases rule: cases) simp_all
  show "\<exists>g0. (\<forall>(i, raw)\<in>set (rows_of (dv_us v GENERATIONS)). record_holds (se_json env) g0 i raw) \<and>
      (\<forall>i. previous_field (map_option vs_manifest previous) as_u64 ''active_generation_id'' = Some i \<longrightarrow>
        i = 0 \<or> i \<in> keys_of (rows_of (dv_us v GENERATIONS)))"
  proof (cases rule: cases)
    case 1
    then show ?thesis by (simp add: no_tables_def previous_field_def)
  next
    case (2 vs p g a)
    obtain rows where rows: "dv_us v GENERATIONS = Some rows" "\<forall>(i, raw)\<in>set rows. record_holds (se_json env) g i raw"
        "g_id g \<in> keys_of rows \<longleftrightarrow> \<not> g_empty_lazy g"
      using 2(2) unfolding verified_state_def records_hold_def by blast
    have "required_u64 (vs_manifest vs) ''active_generation_id'' = Ok (g_id g)"
      using 2(2) unfolding verified_state_def verify_manifest_generation_def by (auto simp: obind_eq_Ok split: if_splits)
    then have field: "previous_field (Some (vs_manifest vs)) as_u64 ''active_generation_id'' = Some (g_id g)"
      by (simp add: previous_field_def jnum_def)
    have ck: "active_generation_checkpoint env root p a = Ok g" using 2(2) by (simp add: verified_state_def)
    have "g_id g = 0 \<or> g_id g \<in> keys_of rows"
      using rows(3) checkpoint_parts(1,2) [OF ck] by (cases "pp_empty_lazy p") simp_all
    then show ?thesis using rows(1,2) 2(1) field by (intro exI [of _ g]) simp
  qed
  show "k < seq" if key: "k \<in> keys_of (rows_of (dv_us v AUDIT_LOG))"
      and next_seq: "case previous_field (map_option vs_manifest previous) as_u64 ''commit_sequence'' of
         Some s \<Rightarrow> checked_inc s 1 = Some seq | None \<Rightarrow> seq = 1" for k seq
  proof (cases rule: cases)
    case 1
    then show ?thesis using key by (simp add: no_tables_def)
  next
    case (2 vs p g a)
    obtain s where s: "jget (vs_manifest vs) ''commit_sequence'' = Some (jnum s)" "k \<le> s"
      using 2(3) key by (auto simp: history_ok_def)
    then have "checked_inc s 1 = Some seq" using next_seq 2(1) by (simp add: previous_field_def jnum_def)
    from checked_inc_unat [OF this] show ?thesis using s(2) by (simp add: word_less_nat_alt word_le_nat_alt)
  qed
  show "1 \<le> unat k \<and> unat k \<le> length (rows_of (dv_us v GC_QUEUE))" if "k \<in> keys_of (rows_of (dv_us v GC_QUEUE))" for k
    using that by (cases rule: cases) (simp_all add: no_tables_def history_ok_def)
  show "json_ok (vs_manifest vs) \<and>
      (\<exists>s o'. jget (vs_manifest vs) ''store_uuid'' = Some (JString s) \<and> validate_store_uuid s = Ok () \<and>
        jget (vs_manifest vs) ''origin'' = Some (JString o') \<and> validate_store_origin o' = Ok ())" if "previous = Some vs" for vs
  proof (cases rule: cases)
    case 1
    then show ?thesis using that by simp
  next
    case (2 vs' p g a)
    then have vs: "verified_state env root None a v vs p g" using that by simp
    then have "json_ok (vs_manifest vs)" by (auto simp: verified_state_def dest: parse_object_ok)
    moreover have "verify_manifest_shape (se_json env) (vs_manifest vs) None = Ok ()" using vs by (simp add: verified_state_def)
    ultimately show ?thesis unfolding verify_manifest_shape_def by (auto simp: obind_eq_Ok)
  qed
  show "previous = None" if "dv_us v GENERATIONS = None"
    using that by (cases rule: cases) (auto simp: verified_state_def records_hold_def)
qed

lemma sorted_snapshot_view:
  "sorted_view v \<Longrightarrow> btree_ok gens \<Longrightarrow> sorted_view (snapshot_view je pl p mj gens seq event v)"
  by (auto simp: sorted_view_def snapshot_view_def payload_entries_def btree_ok_def [of "[(''manifest'', mj)]"])

lemma ready_generations:
  assumes je: "json_text (se_json env)" and start: "starts_from env root f (sp_previous plan) v"
    and ready: "generation_ready plan v"
    and g: "active_generation_checkpoint env root (sp_parsed plan) None = Ok (sp_generation plan)"
    and n: "if pp_empty_lazy (sp_parsed plan) \<or>
          previous_field (map_option vs_manifest (sp_previous plan)) as_u64 ''active_generation_id'' = Some (g_id (sp_generation plan))
       then previous_count (map_option vs_manifest (sp_previous plan)) ''generations'' = Ok n
       else \<exists>k. previous_count (map_option vs_manifest (sp_previous plan)) ''generations'' = Ok k \<and> checked_inc k 1 = Some n"
  shows "\<exists>gens. generation_rows (se_json env) (pp_empty_lazy (sp_parsed plan)) (sp_generation plan) seq
      (rows_of (dv_us v GENERATIONS)) = Ok gens \<and> btree_ok gens \<and> unat n = length gens \<and>
    (\<forall>(i, raw)\<in>set gens. record_holds (se_json env) (sp_generation plan) i raw) \<and>
    (g_id (sp_generation plan) \<in> keys_of gens \<longleftrightarrow> \<not> pp_empty_lazy (sp_parsed plan))"
proof -
  let ?rows = "rows_of (dv_us v GENERATIONS)" and ?g = "sp_generation plan" and ?prev = "map_option vs_manifest (sp_previous plan)"
  have sorted: "btree_ok ?rows" using starts_from_parts(1) [OF start] by (simp add: sorted_view_def)
  obtain c where c: "previous_count ?prev ''generations'' = Ok c" "unat c = length ?rows"
    using previous_counts(1) [OF start] by blast
  show ?thesis
  proof (cases "pp_empty_lazy (sp_parsed plan)")
    case True
    then have prev: "sp_previous plan = None" using ready by (simp add: generation_ready_def)
    have "?rows = []" using start prev
      by (cases "(env, root, f, sp_previous plan, v)" rule: starts_from.cases) (auto simp: no_tables_def)
    then show ?thesis using True n c by (simp add: generation_rows_def)
  next
    case False
    obtain g0 where g0: "\<forall>(i, raw)\<in>set ?rows. record_holds (se_json env) g0 i raw"
        "\<forall>i. previous_field ?prev as_u64 ''active_generation_id'' = Some i \<longrightarrow> i = 0 \<or> i \<in> keys_of ?rows"
      using starts_from_parts(2) [OF start] by blast
    obtain gens where gens: "generation_rows (se_json env) False ?g seq ?rows = Ok gens" "btree_ok gens"
        "\<forall>(i, raw)\<in>set gens. record_holds (se_json env) ?g i raw" "keys_of gens = insert (g_id ?g) (keys_of ?rows)"
      using generation_rows_hold [OF je sorted g0(1) g False] by blast
    have len: "length gens = card (insert (g_id ?g) (keys_of ?rows))" using sorted_length [OF gens(2)] gens(4) by simp
    have "g_id ?g \<noteq> 0" using checkpoint_parts(3) [OF g False] generation_id_positive by blast
    have fin: "finite (keys_of ?rows)" by (simp add: keys_of_def)
    have "unat n = length gens"
    proof (cases "previous_field ?prev as_u64 ''active_generation_id'' = Some (g_id ?g)")
      case True
      then have "g_id ?g \<in> keys_of ?rows" using g0(2) \<open>g_id ?g \<noteq> 0\<close> by blast
      then have "length gens = length ?rows" using len sorted_length [OF sorted] by (simp add: insert_absorb)
      then show ?thesis using n c True by simp
    next
      case other: False
      then have "g_id ?g \<notin> keys_of ?rows" using ready False by (simp add: generation_ready_def)
      then have "length gens = Suc (length ?rows)" using len sorted_length [OF sorted] fin by simp
      moreover have "checked_inc c 1 = Some n" using n c(1) False other by auto
      ultimately show ?thesis using checked_inc_unat c(2) by fastforce
    qed
    then show ?thesis using gens False by auto
  qed
qed

lemma ready_fields:
  assumes start: "starts_from env root f previous v" and ready: "env_ready env root"
    and m: "adapter_store_manifest env p g tc (map_option vs_manifest previous) origin = Ok m"
  shows "\<exists>mf. m = manifest_object mf p g tc \<and> good_fields mf \<and>
    (case previous_field (map_option vs_manifest previous) as_u64 ''commit_sequence'' of
       Some s \<Rightarrow> checked_inc s 1 = Some (mf_commit_sequence mf) | None \<Rightarrow> mf_commit_sequence mf = 1)"
proof -
  have prev_ok: "json_ok pm" if pm: "map_option vs_manifest previous = Some pm" for pm
    using pm starts_from_parts(5) [OF start] by (cases previous) auto
  obtain mf where mf: "m = manifest_object mf p g tc"
      "case previous_field (map_option vs_manifest previous) as_str ''store_uuid'' of
         Some s \<Rightarrow> mf_store_uuid mf = s | None \<Rightarrow> random_store_uuid env = Ok (mf_store_uuid mf)"
      "case previous_field (map_option vs_manifest previous) as_u64 ''commit_sequence'' of
         Some s \<Rightarrow> checked_inc s 1 = Some (mf_commit_sequence mf) | None \<Rightarrow> mf_commit_sequence mf = 1"
      "mf_origin mf = (case previous_field (map_option vs_manifest previous) Some ''origin'' of
         Some v \<Rightarrow> v | None \<Rightarrow> JString (origin_str origin))"
    using store_manifest_Ok [OF m prev_ok] by blast
  have "good_fields mf"
  proof (cases previous)
    case None
    obtain bytes where "se_random env = Inr bytes" "length bytes = 16" using ready unfolding env_ready_def by blast
    then have "validate_store_uuid (mf_store_uuid mf) = Ok ()"
      using mf(2) None by (intro random_uuid_valid) (simp_all add: previous_field_def)
    moreover have "validate_store_origin (origin_str origin) = Ok ()" by (cases origin) (simp_all add: validate_store_origin_def)
    ultimately show ?thesis using mf(4) None by (simp add: good_fields_def previous_field_def)
  next
    case (Some vs)
    then show ?thesis using starts_from_parts(5) [OF start Some] mf(2,4) by (auto simp: good_fields_def previous_field_def)
  qed
  then show ?thesis using mf by blast
qed

text \<open>What a snapshot adds to the history of the store: a commit sequence, an audit row and its generation. The queue stays.\<close>

definition snapshot_grows :: "verified_store option \<Rightarrow> parsed_payloads \<Rightarrow> generation_checkpoint \<Rightarrow> db_view \<Rightarrow> json \<Rightarrow>
    db_view \<Rightarrow> bool" where
  "snapshot_grows previous p g v m w \<longleftrightarrow>
     (\<exists>seq. jget m ''commit_sequence'' = Some (jnum seq) \<and>
        (case previous_field (map_option vs_manifest previous) as_u64 ''commit_sequence'' of
           Some s \<Rightarrow> unat seq = unat s + 1 | None \<Rightarrow> seq = 1) \<and>
        keys_of (rows_of (dv_us w AUDIT_LOG)) = insert seq (keys_of (rows_of (dv_us v AUDIT_LOG))) \<and>
        length (rows_of (dv_us w AUDIT_LOG)) = Suc (length (rows_of (dv_us v AUDIT_LOG)))) \<and>
     keys_of (rows_of (dv_us w GENERATIONS)) =
       (if pp_empty_lazy p then {} else {g_id g}) \<union> keys_of (rows_of (dv_us v GENERATIONS)) \<and>
     rows_of (dv_us w GC_QUEUE) = rows_of (dv_us v GC_QUEUE)"

lemma generation_rows_keys:
  assumes "generation_rows je lz g seq rows = Ok gens" and "btree_ok rows"
  shows "keys_of gens = (if lz then {} else {g_id g}) \<union> keys_of rows"
proof (cases lz)
  case True
  then show ?thesis using assms by (simp add: generation_rows_def)
next
  case False
  obtain ret where ret: "retire_others je (g_id g) seq (map Ok rows) = Ok ret"
      "gens = btree_insert (g_id g) (je_print je (g_json g)) (btree_inserts ret rows)"
    using assms(1) False by (auto simp: generation_rows_def obind_eq_Ok)
  have keys: "keys_of ret \<subseteq> keys_of rows"
    using ret(1)
  proof (induction rows arbitrary: ret)
    case (Cons row rows)
    then show ?case by (cases row) (fastforce simp: obind_eq_Ok split: if_splits)
  qed simp
  have "keys_of gens = insert (g_id g) (keys_of (btree_inserts ret rows))"
    using assms(2) by (simp add: ret(2) btree_insert_keys)
  also have "keys_of (btree_inserts ret rows) = keys_of ret \<union> keys_of rows"
    using assms(2) by (simp add: keys_of_dom [symmetric] dom_map_add dom_map_of_conv_image_fst Un_commute)
  finally show ?thesis using keys False by auto
qed

lemma snapshot_reopens:
  assumes plan: "plan_snapshot env plain_redb root expected payloads origin f = Ok plan"
    and start: "starts_from env root f (sp_previous plan) v" and gen: "generation_ready plan v"
    and ready: "env_ready env root" and small: "length (pp_string_to_u64 (sp_parsed plan)) \<le> u64_max"
  shows "\<exists>w. write_legacy_snapshot_inner env plain_redb root expected payloads origin f =
      (Ok \<lparr>vs_manifest = sp_manifest plan, vs_payloads = payloads\<rparr>, StoreDb w) \<and>
    starts_from env root (StoreDb w) (Some \<lparr>vs_manifest = sp_manifest plan, vs_payloads = payloads\<rparr>) w \<and>
    snapshot_grows (sp_previous plan) (sp_parsed plan) (sp_generation plan) v (sp_manifest plan) w"
proof -
  let ?p = "sp_parsed plan" and ?g = "sp_generation plan" and ?m = "sp_manifest plan"
  let ?prev = "map_option vs_manifest (sp_previous plan)" and ?je = "se_json env"
  let ?vs = "\<lparr>vs_manifest = ?m, vs_payloads = payloads\<rparr>"
  note parse = plan_snapshot_Ok(1) [OF plan] and check = plan_snapshot_Ok(2) [OF plan] and valid = plan_snapshot_Ok(3) [OF plan]
  have je: "json_text ?je" and ho: "orders_ok (se_orders env)" using ready by (simp_all add: env_ready_def)
  have ok: "payloads_ok ?p" by (rule parse_payloads_valid(1) [OF parse ho])
  have sorted: "sorted_view v" by (rule starts_from_parts(1) [OF start])
  obtain n pending tombs gc audit where
      m: "adapter_store_manifest env ?p ?g (snapshot_counts ?p n pending tombs gc audit) ?prev origin = Ok ?m"
      and n: "if pp_empty_lazy ?p \<or> previous_field ?prev as_u64 ''active_generation_id'' = Some (g_id ?g)
         then previous_count ?prev ''generations'' = Ok n
         else \<exists>k. previous_count ?prev ''generations'' = Ok k \<and> checked_inc k 1 = Some n"
      and audit: "\<exists>k. previous_count ?prev ''audit_log'' = Ok k \<and> checked_inc k 1 = Some audit"
      and kept: "previous_count ?prev ''pending_batches'' = Ok pending" "previous_count ?prev ''tombstones'' = Ok tombs"
        "previous_count ?prev ''gc_queue'' = Ok gc"
    using plan_snapshot_Ok(6) [OF plan] by blast
  obtain mf where mf: "?m = manifest_object mf ?p ?g (snapshot_counts ?p n pending tombs gc audit)" "good_fields mf"
      "case previous_field ?prev as_u64 ''commit_sequence'' of
         Some s \<Rightarrow> checked_inc s 1 = Some (mf_commit_sequence mf) | None \<Rightarrow> mf_commit_sequence mf = 1"
    using ready_fields [OF start ready m] by blast
  let ?seq = "mf_commit_sequence mf" and ?created = "jnum (of_nat (se_now env 1))"
  let ?event = "snapshot_event ?g ?seq ?created"
  obtain gens where gens: "generation_rows ?je (pp_empty_lazy ?p) ?g ?seq (rows_of (dv_us v GENERATIONS)) = Ok gens" "btree_ok gens"
      "unat n = length gens" "\<forall>(i, raw)\<in>set gens. record_holds ?je ?g i raw" "g_id ?g \<in> keys_of gens \<longleftrightarrow> \<not> pp_empty_lazy ?p"
    using ready_generations [OF je start gen check n] by blast
  let ?w = "snapshot_view ?je payloads ?p (sp_manifest_json plan) gens ?seq ?event v"
  have now: "now_json env 1 = Ok ?created" using ready by (simp add: now_json_def env_ready_def)
  have rows: "snapshot_rows env plain_redb payloads ?p ?g (sp_manifest_json plan) ?seq v = Ok ?w"
    unfolding snapshot_rows_plain [OF ok sorted] gens(1) now by simp
  have audit_sorted: "btree_ok (rows_of (dv_us v AUDIT_LOG))" using sorted by (simp add: sorted_view_def)
  have older: "k < ?seq" if "k \<in> keys_of (rows_of (dv_us v AUDIT_LOG))" for k
    using starts_from_parts(3) [OF start that mf(3)] .
  then have "?seq \<notin> keys_of (rows_of (dv_us v AUDIT_LOG))" by blast
  then have audit_len: "unat audit = length (btree_insert ?seq (je_print ?je ?event) (rows_of (dv_us v AUDIT_LOG)))"
    using audit previous_counts(2) [OF start] checked_inc_unat btree_insert_length [OF audit_sorted] by fastforce
  have counts: "unat pending = length (rows_of (dv_ss v PENDING_BATCHES))" "unat tombs = length (rows_of (dv_us v TOMBSTONES))"
      "unat gc = length (rows_of (dv_us v GC_QUEUE))"
    using kept previous_counts(3-5) [OF start] by auto
  have verified: "verified_state env root None None ?w ?vs ?p ?g"
    using snapshot_verified [OF je ho parse check valid small mf(2) gens(3) counts audit_len gens(4,5) mf(1)]
    by (simp only: plan_snapshot_Ok(7) [OF plan])
  have sorted_w: "sorted_view ?w" by (rule sorted_snapshot_view [OF sorted gens(2)])
  have history: "history_ok ?m ?w"
    using older starts_from_parts(4) [OF start] less_imp_le
    by (auto simp: history_ok_def mf(1) manifest_object_get snapshot_view_def btree_insert_keys [OF audit_sorted])
  have body: "obind (required_u64 ?m ''commit_sequence'') (\<lambda>s. snapshot_rows env plain_redb payloads ?p ?g (sp_manifest_json plan) s v) = Ok ?w"
    using rows by (simp add: required_u64_def mf(1) manifest_object_get jnum_def)
  have "write_snapshot env plain_redb payloads plan f = (Ok (), StoreDb ?w)"
    using start body by (cases "(env, root, f, sp_previous plan, v)" rule: starts_from.cases)
      (auto simp: write_snapshot_def with_open_database_def with_created_database_def run_transaction_def Let_def)
  moreover have "open_verified env plain_redb root None (StoreDb ?w) = Ok ?vs"
    using verify_database_plain [OF sorted_w ho, of root None None ?vs] verified
    by (auto simp: open_verified_def open_verified_at_store_file_def validate_adapter_store_file_def)
  ultimately have "write_legacy_snapshot_inner env plain_redb root expected payloads origin f = (Ok ?vs, StoreDb ?w)"
    using plan ready by (simp add: write_legacy_snapshot_inner_def finish_commit_def env_ready_def lift_sum_def
        guard_against_storage_panics_def)
  moreover have "starts_from env root (StoreDb ?w) (Some ?vs) ?w"
    using sorted_w verified history by auto
  moreover have "snapshot_grows (sp_previous plan) ?p ?g v ?m ?w"
  proof -
    have gen_sorted: "btree_ok (rows_of (dv_us v GENERATIONS))" using sorted by (simp add: sorted_view_def)
    have "case previous_field ?prev as_u64 ''commit_sequence'' of Some s \<Rightarrow> unat ?seq = unat s + 1 | None \<Rightarrow> ?seq = 1"
      using mf(3) by (auto split: option.splits dest: checked_inc_unat)
    then show ?thesis
      using generation_rows_keys [OF gens(1) gen_sorted] btree_insert_keys [OF audit_sorted]
        btree_insert_length [OF audit_sorted \<open>?seq \<notin> keys_of (rows_of (dv_us v AUDIT_LOG))\<close>]
      by (simp add: snapshot_grows_def mf(1) manifest_object_get snapshot_view_def)
  qed
  ultimately show ?thesis by blast
qed

section \<open>A retired generation cannot be activated again\<close>

lemma snapshot_manifest_counts:
  assumes "verify_database env plain_redb root e a (snapshot_view (se_json env') pl p (je_print (se_json env') m) gens seq event v) = Ok vs"
    and "se_json env = se_json env'" and "json_text (se_json env)" and "json_ok m" and "m = JObject kvs"
    and "jget m ''table_counts'' = Some (snapshot_counts p n pending tombs gc audit)"
  shows "unat n = length gens"
proof -
  let ?w = "snapshot_view (se_json env') pl p (je_print (se_json env') m) gens seq event v"
  obtain m' where m': "read_manifest (se_json env) plain_redb ?w = Ok m'" "verify_table_counts plain_redb ?w m' = Ok ()"
    using assms(1) unfolding verify_database_def obind_eq_Ok by auto
  have "m' = m"
    using m'(1) parse_printed [OF assms(3), of kvs "''adapter store manifest''"] assms(2,4,5)
    unfolding read_manifest_plain manifest_row_views by simp
  then have "counts_hold ?w m" using m'(2) unfolding verify_counts_plain by simp
  moreover have "(''generations'', length gens) \<in> set (stored_counts ?w)"
    by (simp add: stored_counts_def snapshot_view_def)
  ultimately obtain c where "map_of (rev [(''meta'', jnum 1), (''json_payloads'', jnum 4),
        (''string_to_u64'', jnum (of_nat (length (pp_string_to_u64 p)))),
        (''u64_to_string'', jnum (of_nat (length (pp_string_to_u64 p)))),
        (''u64_to_slot'', jnum (of_nat (length (pp_u64_to_slot p)))),
        (''documents'', jnum (of_nat (length (pp_documents p)))), (''metadata'', jnum (of_nat (length (pp_metadata p)))),
        (''generations'', jnum n), (''pending_batches'', jnum pending), (''tombstones'', jnum tombs),
        (''gc_queue'', jnum gc), (''audit_log'', jnum audit)]) ''generations'' = Some (jnum c)" "unat c = length gens"
    using assms(6) unfolding counts_hold_def snapshot_counts_def jobject_def by fastforce
  then show ?thesis by simp
qed

lemma reactivation_unopenable:
  assumes plan: "plan_snapshot env plain_redb root expected payloads origin f = Ok plan"
    and start: "starts_from env root f (sp_previous plan) v" and ready: "env_ready env root"
    and rows: "\<not> pp_empty_lazy (sp_parsed plan)"
    and retired: "g_id (sp_generation plan) \<in> keys_of (rows_of (dv_us v GENERATIONS))"
      "previous_field (map_option vs_manifest (sp_previous plan)) as_u64 ''active_generation_id'' \<noteq> Some (g_id (sp_generation plan))"
  shows "\<exists>w. snd (write_legacy_snapshot_inner env plain_redb root expected payloads origin f) = StoreDb w \<and>
    \<not> is_ok (fst (write_legacy_snapshot_inner env plain_redb root expected payloads origin f)) \<and>
    (\<forall>env' root' e a. se_json env' = se_json env \<longrightarrow>
       \<not> is_ok (open_verified_at_store_file env' plain_redb root' e a (StoreDb w)))"
proof -
  let ?p = "sp_parsed plan" and ?g = "sp_generation plan" and ?m = "sp_manifest plan"
  let ?prev = "map_option vs_manifest (sp_previous plan)" and ?je = "se_json env" and ?rows = "rows_of (dv_us v GENERATIONS)"
  have je: "json_text ?je" and ho: "orders_ok (se_orders env)" using ready by (simp_all add: env_ready_def)
  have ok: "payloads_ok ?p" by (rule parse_payloads_valid(1) [OF plan_snapshot_Ok(1) [OF plan] ho])
  have sorted: "sorted_view v" "btree_ok ?rows" using starts_from_parts(1) [OF start] by (simp_all add: sorted_view_def)
  obtain n pending tombs gc audit k where
      m: "adapter_store_manifest env ?p ?g (snapshot_counts ?p n pending tombs gc audit) ?prev origin = Ok ?m"
      and n: "previous_count ?prev ''generations'' = Ok k" "checked_inc k 1 = Some n"
    using plan_snapshot_Ok(6) [OF plan] rows retired(2) by auto
  have k: "unat k = length ?rows" using previous_counts(1) [OF start] n(1) by auto
  obtain mf where mf: "?m = manifest_object mf ?p ?g (snapshot_counts ?p n pending tombs gc audit)" "good_fields mf"
    using ready_fields [OF start ready m] by blast
  obtain g0 where g0: "\<forall>(i, raw)\<in>set ?rows. record_holds ?je g0 i raw" using starts_from_parts(2) [OF start] by blast
  obtain gens where gens: "generation_rows ?je False ?g (mf_commit_sequence mf) ?rows = Ok gens" "btree_ok gens"
      "keys_of gens = insert (g_id ?g) (keys_of ?rows)"
    using generation_rows_hold [OF je sorted(2) g0 plan_snapshot_Ok(2) [OF plan] rows] by blast
  have len: "length gens = length ?rows"
    using sorted_length [OF gens(2)] sorted_length [OF sorted(2)] gens(3) retired(1) by (simp add: insert_absorb)
  let ?event = "snapshot_event ?g (mf_commit_sequence mf) (jnum (of_nat (se_now env 1)))"
  let ?w = "snapshot_view ?je payloads ?p (sp_manifest_json plan) gens (mf_commit_sequence mf) ?event v"
  have now: "now_json env 1 = Ok (jnum (of_nat (se_now env 1)))" using ready by (simp add: now_json_def env_ready_def)
  have body: "obind (required_u64 ?m ''commit_sequence'') (\<lambda>s. snapshot_rows env plain_redb payloads ?p ?g (sp_manifest_json plan) s v) = Ok ?w"
    using rows gens(1) now by (simp add: required_u64_def mf(1) manifest_object_get jnum_def snapshot_rows_plain [OF ok sorted(1)])
  have written: "write_snapshot env plain_redb payloads plan f = (Ok (), StoreDb ?w)"
    using start body by (cases "(env, root, f, sp_previous plan, v)" rule: starts_from.cases)
      (auto simp: write_snapshot_def with_open_database_def with_created_database_def run_transaction_def Let_def)
  have m_ok: "json_ok ?m" unfolding mf(1)
    by (rule manifest_object_ok [OF snapshot_counts_ok]) (use mf(2) in \<open>auto simp: good_fields_def\<close>)
  obtain kvs where kvs: "?m = JObject kvs" using manifest_object_object mf(1) by metis
  have counts: "jget ?m ''table_counts'' = Some (snapshot_counts ?p n pending tombs gc audit)"
    unfolding mf(1) by (simp add: manifest_object_get)
  have mismatch: "unat n \<noteq> length gens" using checked_inc_unat [OF n(2)] k len by simp
  have closed: "\<not> is_ok (open_verified_at_store_file env' plain_redb root' e a (StoreDb ?w))" if "se_json env' = ?je" for env' root' e a
  proof
    assume "is_ok (open_verified_at_store_file env' plain_redb root' e a (StoreDb ?w))"
    then obtain vs where "open_verified_at_store_file env' plain_redb root' e a (StoreDb ?w) = Ok vs"
      by (cases "open_verified_at_store_file env' plain_redb root' e a (StoreDb ?w)") auto
    then have "verify_database env' plain_redb root' e a ?w = Ok vs" using open_StoreDb by fastforce
    then have "unat n = length gens"
      unfolding plan_snapshot_Ok(7) [OF plan]
      by (rule snapshot_manifest_counts [OF _ that _ m_ok kvs counts]) (simp add: that je)
    then show False using mismatch by simp
  qed
  have "write_legacy_snapshot_inner env plain_redb root expected payloads origin f =
      (open_verified env plain_redb root None (StoreDb ?w), StoreDb ?w)"
    using plan ready written by (simp add: write_legacy_snapshot_inner_def finish_commit_def env_ready_def lift_sum_def
        guard_against_storage_panics_def)
  then show ?thesis using closed [OF refl, of root None None] closed unfolding open_verified_def by auto
qed

end
