(* ===== verification/StoreRuns.thy ===== *)
theory StoreRuns
  imports StoreReopen
begin

text \<open>
  Runs of an adapter store (\<open>ordinaldb-adapter-store/src/lib.rs\<close>) from an empty root: every open is
  verified, a snapshot whose generation is new or active is written and opens again, and a snapshot
  whose generation was retired is written and does not.
\<close>

section \<open>When a snapshot is planned\<close>

definition allowed_artifact :: "parsed_payloads \<Rightarrow> string option" where
  "allowed_artifact p = (if pp_empty_lazy p then None else Some (pp_index_path p))"

text \<open>The counters of the store have room for one more commit.\<close>

definition counters_fit :: "verified_store option \<Rightarrow> db_view \<Rightarrow> bool" where
  "counters_fit previous v \<longleftrightarrow>
     length (rows_of (dv_us v GENERATIONS)) < u64_max \<and> length (rows_of (dv_us v AUDIT_LOG)) < u64_max \<and>
     (\<forall>vs seq. previous = Some vs \<longrightarrow> jget (vs_manifest vs) ''commit_sequence'' = Some (jnum seq) \<longrightarrow> unat seq < u64_max)"

text \<open>
  A snapshot that a client may write: its payloads parse and describe a generation that is on disk,
  and the caller names the current revision.
\<close>

definition snapshot_offered :: "store_env \<Rightarrow> string \<Rightarrow> store_revision option \<Rightarrow> legacy_payloads \<Rightarrow> db_view store_file \<Rightarrow>
    verified_store option \<Rightarrow> parsed_payloads \<Rightarrow> generation_checkpoint \<Rightarrow> bool" where
  "snapshot_offered env root expected payloads f previous p g \<longleftrightarrow>
     parse_payloads (se_json env) (se_orders env) payloads = Ok p \<and> length (pp_string_to_u64 p) \<le> u64_max \<and>
     active_generation_checkpoint env root p None = Ok g \<and> validate_against_generation p g = Ok () \<and>
     current_verified_store env plain_redb root (allowed_artifact p) f = Ok previous \<and>
     verify_expected_revision (se_json env) previous expected = Ok ()"

definition generation_state :: "parsed_payloads \<Rightarrow> generation_checkpoint \<Rightarrow> verified_store option \<Rightarrow> db_view \<Rightarrow> string option" where
  "generation_state p g previous v =
     (if g_id g \<notin> keys_of (rows_of (dv_us v GENERATIONS)) then None
      else if previous_field (map_option vs_manifest previous) as_u64 ''active_generation_id'' = Some (g_id g)
      then Some GENERATION_STATE_ACTIVE
      else Some GENERATION_STATE_RETIRED)"

lemma checked_inc_room: "unat n < u64_max \<Longrightarrow> \<exists>m. checked_inc n 1 = Some m"
  by (simp add: checked_inc_def)

lemma snapshot_planned:
  assumes start: "starts_from env root f previous v" and ready: "env_ready env root" and fit: "counters_fit previous v"
    and offered: "snapshot_offered env root expected payloads f previous p g"
  shows "\<exists>plan. plan_snapshot env plain_redb root expected payloads origin f = Ok plan \<and>
    sp_parsed plan = p \<and> sp_generation plan = g \<and> sp_previous plan = previous"
proof -
  let ?prev = "map_option vs_manifest previous"
  obtain gens audit pending tombs gc where counts: "previous_count ?prev ''generations'' = Ok gens"
      "previous_count ?prev ''audit_log'' = Ok audit" "previous_count ?prev ''pending_batches'' = Ok pending"
      "previous_count ?prev ''tombstones'' = Ok tombs" "previous_count ?prev ''gc_queue'' = Ok gc"
      and room: "unat gens < u64_max" "unat audit < u64_max"
    using previous_counts [OF start] fit unfolding counters_fit_def by metis
  obtain gens' audit' where inc: "checked_inc gens 1 = Some gens'" "checked_inc audit 1 = Some audit'"
    using checked_inc_room [OF room(1)] checked_inc_room [OF room(2)] by blast
  have manifest: "\<exists>m. adapter_store_manifest env p g tc ?prev origin = Ok m" for tc
  proof (cases previous)
    case None
    then obtain bytes where "se_random env = Inr bytes" using ready by (auto simp: env_ready_def)
    then show ?thesis using None
      by (simp add: adapter_store_manifest_def previous_field_def random_store_uuid_def lift_sum_def Let_def)
  next
    case (Some vs)
    obtain s where s: "jget (vs_manifest vs) ''store_uuid'' = Some (JString s)"
      using starts_from_parts(5) [OF start Some] by blast
    have "\<exists>m. obind (case previous_field ?prev as_u64 ''commit_sequence'' of
               Some seq \<Rightarrow> ok_or ''commit_sequence overflow'' (checked_inc seq 1) | None \<Rightarrow> Ok 1) Ok = Ok m"
    proof (cases "previous_field ?prev as_u64 ''commit_sequence''")
      case seq: (Some seq)
      then have "jget (vs_manifest vs) ''commit_sequence'' = Some (jnum seq)"
        using Some by (simp add: previous_field_def jnum_def bind_eq_Some_conv)
      then have "unat seq < u64_max" using fit Some by (auto simp: counters_fit_def)
      then show ?thesis using seq checked_inc_room [of seq] by auto
    qed simp
    then show ?thesis using Some s
      by (auto simp: adapter_store_manifest_def previous_field_def Let_def obind_eq_Ok)
  qed
  show ?thesis
    using offered counts inc manifest
    unfolding snapshot_offered_def allowed_artifact_def plan_snapshot_def canonical_json_def Let_def
    by (fastforce simp: obind_eq_Ok ok_or_eq_Ok)
qed

section \<open>New, active and retired generations\<close>

lemma checkpoint_same:
  assumes "active_generation_checkpoint env root p a = Ok g" and "active_generation_checkpoint env root p b = Ok h"
  shows "g = h"
proof (cases "pp_empty_lazy p")
  case True
  then show ?thesis using assms by (auto simp: active_generation_checkpoint_def obind_eq_Ok)
next
  case False
  then have "active_generation_checkpoint env root p a = active_generation_checkpoint env root p b"
    by (simp add: active_generation_checkpoint_def)
  then show ?thesis using assms by simp
qed

lemma offered_snapshot_opens:
  assumes start: "starts_from env root f previous v" and ready: "env_ready env root" and fit: "counters_fit previous v"
    and offered: "snapshot_offered env root expected payloads f previous p g"
    and gen: "if pp_empty_lazy p then previous = None else generation_state p g previous v \<noteq> Some GENERATION_STATE_RETIRED"
  shows "\<exists>m w. write_legacy_snapshot_inner env plain_redb root expected payloads origin f =
      (Ok \<lparr>vs_manifest = m, vs_payloads = payloads\<rparr>, StoreDb w) \<and>
    starts_from env root (StoreDb w) (Some \<lparr>vs_manifest = m, vs_payloads = payloads\<rparr>) w \<and>
    (\<exists>a. verified_state env root None a w \<lparr>vs_manifest = m, vs_payloads = payloads\<rparr> p g) \<and>
    snapshot_grows previous p g v m w"
proof -
  obtain plan where plan: "plan_snapshot env plain_redb root expected payloads origin f = Ok plan"
      "sp_parsed plan = p" "sp_generation plan = g" "sp_previous plan = previous"
    using snapshot_planned [OF start ready fit offered] by blast
  have gr: "generation_ready plan v"
    using gen plan(2-4) by (auto simp: generation_ready_def generation_state_def split: if_splits)
  have small: "length (pp_string_to_u64 (sp_parsed plan)) \<le> u64_max"
    using offered plan(2) by (simp add: snapshot_offered_def)
  obtain w where w: "write_legacy_snapshot_inner env plain_redb root expected payloads origin f =
      (Ok \<lparr>vs_manifest = sp_manifest plan, vs_payloads = payloads\<rparr>, StoreDb w)"
      "starts_from env root (StoreDb w) (Some \<lparr>vs_manifest = sp_manifest plan, vs_payloads = payloads\<rparr>) w" "snapshot_grows previous p g v (sp_manifest plan) w"
    using snapshot_reopens [OF plan(1) _ gr ready small] start plan(2-4) by blast
  obtain p' g' a where st: "verified_state env root None a w \<lparr>vs_manifest = sp_manifest plan, vs_payloads = payloads\<rparr> p' g'"
    using w(2) by auto
  have "p' = p" using st offered by (simp add: verified_state_def snapshot_offered_def)
  moreover have "g' = g"
    using st offered \<open>p' = p\<close> checkpoint_same by (auto simp: verified_state_def snapshot_offered_def)
  ultimately show ?thesis using w st by blast
qed

lemma retired_snapshot_bricks:
  assumes start: "starts_from env root f previous v" and ready: "env_ready env root" and fit: "counters_fit previous v"
    and offered: "snapshot_offered env root expected payloads f previous p g"
    and gen: "\<not> pp_empty_lazy p" "generation_state p g previous v = Some GENERATION_STATE_RETIRED"
  shows "\<exists>w. snd (write_legacy_snapshot_inner env plain_redb root expected payloads origin f) = StoreDb w \<and>
    \<not> is_ok (fst (write_legacy_snapshot_inner env plain_redb root expected payloads origin f)) \<and>
    (\<forall>env' root' e a. se_json env' = se_json env \<longrightarrow> \<not> is_ok (open_verified_at_store_file env' plain_redb root' e a (StoreDb w)))"
proof -
  obtain plan where plan: "plan_snapshot env plain_redb root expected payloads origin f = Ok plan"
      "sp_parsed plan = p" "sp_generation plan = g" "sp_previous plan = previous"
    using snapshot_planned [OF start ready fit offered] by blast
  have "GENERATION_STATE_ACTIVE \<noteq> GENERATION_STATE_RETIRED"
    by (simp add: GENERATION_STATE_RETIRED_def GENERATION_STATE_ACTIVE_def)
  then have "g_id g \<in> keys_of (rows_of (dv_us v GENERATIONS))"
      "previous_field (map_option vs_manifest previous) as_u64 ''active_generation_id'' \<noteq> Some (g_id g)"
    using gen(2) by (auto simp: generation_state_def split: if_splits)
  then show ?thesis
    using reactivation_unopenable [OF plan(1) _ ready] start gen(1) plan(2-4) by blast
qed

lemma open_verified_state:
  assumes "redb_ok rd view" and "sorted_view (view db)" and "orders_ok (se_orders env)"
    and "open_verified env rd root e (StoreDb db) = Ok vs"
  shows "\<exists>p g. verified_state env root e None (view db) vs p g \<and> payloads_ok p"
proof -
  have "verify_database env rd root e None db = Ok vs"
    using open_StoreDb [OF assms(4) [unfolded open_verified_def]] by auto
  then have "verify_database env plain_redb root e None (view db) = Ok vs"
    by (rule sim_eqD [OF sim_verify_database [OF assms(1)]])
  then obtain p g where st: "verified_state env root e None (view db) vs p g"
    using verify_database_plain [OF assms(2,3)] by blast
  then have "payloads_ok p" using parse_payloads_valid(1) [OF _ assms(3)] by (auto simp: verified_state_def)
  then show ?thesis using st by blast
qed

section \<open>An example\<close>

text \<open>A root with the directories of two generations; the clock stands still.\<close>

definition ex_env :: store_env where
  "ex_env =
     \<lparr>se_json = plain_json, se_orders = plain_orders,
      se_stat = (\<lambda>path. Inr \<lparr>fm_kind = (if last path = CHR ''n'' then KFile else KDir), fm_len = 9\<rparr>),
      se_exists = (\<lambda>_. Inr True),
      se_read_dir = (\<lambda>_. Inr [Inr \<lparr>de_name = ''g000000000002.odb'', de_kind = Inr KDir\<rparr>]), se_lossy = id,
      se_verify_for_load = (\<lambda>_. Ok \<lparr>lp_bits = Some 2, lp_row_identity = ROW_IDENTITY_KIND, lp_dim = 64, lp_vector_count = 2\<rparr>),
      se_sha256 = (\<lambda>_. Ok \<lparr>dg_sha256 = ''ab'', dg_size_bytes = 9\<rparr>), se_now = (\<lambda>_. 5),
      se_random = Inr (replicate 16 0), se_sync = (\<lambda>_. Inr ()), se_panic = ''''\<rparr>"

lemma ex_env_ready: "env_ready ex_env root"
  by (simp add: env_ready_def ex_env_def plain_json_text plain_orders_ok u64_max_def)

definition ex_at :: "string \<Rightarrow> parsed_payloads" where
  "ex_at path = ex_parsed\<lparr>pp_index_path := path\<rparr>"

definition ex_text :: "string \<Rightarrow> legacy_payloads" where
  "ex_text path = payloads_text plain_json JNull (ex_at path)"

lemma ex_at_ok: "payloads_ok (ex_at path)"
  using ex_parsed_ok by (simp add: payloads_ok_def ex_at_def)

lemma ex_paths:
  "validate_index_path je ''index.odb'' = Ok ()" "generation_id_from_index_path je ''index.odb'' = Ok 1"
  "validate_index_path je ''vectors/g000000000002.odb'' = Ok ()"
  "generation_id_from_index_path je ''vectors/g000000000002.odb'' = Ok 2"
  "validate_index_path je ''vectors/./g000000000002.odb'' = Ok ()"
  "generation_id_from_index_path je ''vectors/./g000000000002.odb'' = Ok 2"
proof -
  have two: "parse_generation_dir ''g000000000002.odb'' = Some 2"
  proof -
    have "generation_dir 2 = ''g000000000002.odb''" by code_simp
    then show ?thesis by (simp add: parse_generation_dir_Some)
  qed
  show one: "validate_index_path je ''index.odb'' = Ok ()"
    by (simp add: validate_index_path_def validate_relative_path_def backslash_def contains_str_def
        components_def is_absolute_def is_normal_def char_of_def INDEX_DIR_def VECTORS_DIR_def)
  then show "generation_id_from_index_path je ''index.odb'' = Ok 1"
    by (simp add: generation_id_from_index_path_def INDEX_DIR_def)
  show path: "validate_index_path je ''vectors/g000000000002.odb'' = Ok ()"
    using ex_parsed_path by (simp add: ex_parsed_def)
  show "generation_id_from_index_path je ''vectors/g000000000002.odb'' = Ok 2"
    using path two by (simp add: generation_id_from_index_path_def INDEX_DIR_def components_def is_absolute_def Let_def)
  show dotted: "validate_index_path je ''vectors/./g000000000002.odb'' = Ok ()"
    using two by (simp add: validate_index_path_def validate_relative_path_def backslash_def contains_str_def
        components_def is_absolute_def is_normal_def char_of_def INDEX_DIR_def VECTORS_DIR_def Let_def)
  show "generation_id_from_index_path je ''vectors/./g000000000002.odb'' = Ok 2"
    using dotted two by (simp add: generation_id_from_index_path_def INDEX_DIR_def components_def is_absolute_def Let_def)
qed

text \<open>The generation that a path describes in the example.\<close>

definition ex_ids :: "(string \<times> u64) set" where
  "ex_ids = {(''index.odb'', 1), (''vectors/g000000000002.odb'', 2), (''vectors/./g000000000002.odb'', 2)}"

lemma ex_checkpoint:
  assumes "(path, i) \<in> ex_ids" and "pp_index_path p = path" and "\<not> pp_empty_lazy p"
  shows "\<exists>g. active_generation_checkpoint ex_env ''s'' p a = Ok g \<and> g_id g = i \<and> g_path g = path \<and> \<not> g_empty_lazy g \<and>
    g_bits g = 2 \<and> g_dim g = 64 \<and> g_vector_count g = 2"
  using assms ex_paths
  by (auto simp: ex_ids_def active_generation_checkpoint_def active_generation_manifest_path_def ex_env_def components_def Let_def
      path_join_def is_absolute_def validate_generation_manifest_file_def lift_sum_def MANIFEST_FILE_def
      MAX_GENERATION_MANIFEST_BYTES_def)


lemma ex_parses:
  assumes "(path, i) \<in> ex_ids"
  shows "\<exists>p. parse_payloads plain_json plain_orders (ex_text path) = Ok p \<and> same_payloads p (ex_at path)"
proof -
  have "validate_index_path plain_json (pp_index_path (ex_at path)) = Ok ()"
    using assms ex_paths by (auto simp: ex_ids_def ex_at_def)
  then show ?thesis
    using payloads_text_parses [OF plain_json_text plain_orders_ok ex_at_ok] by (auto simp: ex_text_def)
qed

lemma verified_revision:
  assumes st: "verified_state env root e a v vs p g" and rows: "\<not> pp_empty_lazy p"
  shows "\<exists>r. revision_from_manifest (vs_manifest vs) = Ok r"
proof -
  have lz: "\<not> g_empty_lazy g"
    using st rows by (auto simp: verified_state_def validate_against_generation_def split: if_splits)
  have shape: "verify_manifest_shape (se_json env) (vs_manifest vs) e = Ok ()" and
      payloads: "verify_manifest_payloads (vs_manifest vs) p = Ok ()" and
      generation: "verify_manifest_generation (vs_manifest vs) g = Ok ()"
    using st by (simp_all add: verified_state_def)
  have "\<exists>s. required_string (vs_manifest vs) ''store_uuid'' = Ok s" "\<exists>n. required_u64 (vs_manifest vs) ''commit_sequence'' = Ok n"
    using shape unfolding verify_manifest_shape_def by (auto simp only: obind_eq_Ok)
  moreover have "\<exists>n. required_u64 (vs_manifest vs) ''active_id_count'' = Ok n"
    using payloads unfolding verify_manifest_payloads_def by (auto simp: obind_eq_Ok split: if_splits)
  moreover have "\<exists>n. required_u64 (vs_manifest vs) ''active_generation_id'' = Ok n"
      "\<exists>s. required_string (vs_manifest vs) ''active_generation_path'' = Ok s"
      "\<exists>s. required_string (vs_manifest vs) ''active_generation_manifest_sha256'' = Ok s"
    using generation lz unfolding verify_manifest_generation_def by (auto simp: obind_eq_Ok split: if_splits)
  ultimately show ?thesis
    by (auto simp: revision_from_manifest_def obind_eq_Ok optional_string_def)
qed

lemma verified_allowed:
  assumes "verified_state env root e a v vs p g" and "\<not> pp_empty_lazy p"
  shows "verified_state env root e b v vs p g"
  using assms by (simp add: verified_state_def active_generation_checkpoint_def)

text \<open>A snapshot of the example that is offered at the revision of a store that holds another one, or at an empty root.\<close>

definition ex_store :: "db_view store_file \<Rightarrow> verified_store option \<Rightarrow> db_view \<Rightarrow> bool" where
  "ex_store f previous v \<longleftrightarrow> starts_from ex_env ''s'' f previous v \<and>
     (\<forall>vs. previous = Some vs \<longrightarrow> (\<exists>path i. (path, i) \<in> ex_ids \<and> vs_payloads vs = ex_text path))"

lemma ex_allowed:
  assumes store: "ex_store f (Some vs) v"
  shows "f = StoreDb v \<and> open_verified_at_store_file ex_env plain_redb ''s'' None a f = Ok vs \<and>
    (\<exists>r. revision_from_manifest (vs_manifest vs) = Ok r)"
proof -
  have env: "se_json ex_env = plain_json" "se_orders ex_env = plain_orders" by (simp_all add: ex_env_def)
  have start: "starts_from ex_env ''s'' f (Some vs) v" using store by (simp add: ex_store_def)
  obtain path' i' where vs: "(path', i') \<in> ex_ids" "vs_payloads vs = ex_text path'"
    using store by (auto simp: ex_store_def)
  obtain q h b where q: "f = StoreDb v" "sorted_view v" "verified_state ex_env ''s'' None b v vs q h"
    using start by (cases "(ex_env, ''s'', f, Some vs, v)" rule: starts_from.cases) auto
  have ne: "\<not> pp_empty_lazy q"
    using ex_parses [OF vs(1)] q(3) vs(2) env by (auto simp: verified_state_def same_payloads_def ex_at_def ex_parsed_def)
  have "verify_database ex_env plain_redb ''s'' None a v = Ok vs"
    using verify_database_plain [OF q(2), of ex_env "''s''" None a vs] plain_orders_ok env verified_allowed [OF q(3) ne, of a] by auto
  then show ?thesis using verified_revision [OF q(3) ne]
    by (simp add: open_verified_at_store_file_def validate_adapter_store_file_def q(1) guard_against_storage_panics_def)
qed

lemma ex_offered:
  assumes store: "ex_store f previous v" and path: "(path, i) \<in> ex_ids"
  obtains expected p g where "snapshot_offered ex_env ''s'' expected (ex_text path) f previous p g" "g_id g = i" "\<not> pp_empty_lazy p"
    "\<And>vs. previous = Some vs \<Longrightarrow> \<exists>r. expected = Some r \<and> revision_from_manifest (vs_manifest vs) = Ok r"
proof -
  have start: "starts_from ex_env ''s'' f previous v" using store by (simp add: ex_store_def)
  have env: "se_json ex_env = plain_json" "se_orders ex_env = plain_orders" by (simp_all add: ex_env_def)
  obtain p where p: "parse_payloads plain_json plain_orders (ex_text path) = Ok p" "same_payloads p (ex_at path)"
    using ex_parses [OF path] by blast
  then have parts: "pp_index_path p = path" "\<not> pp_empty_lazy p" by (simp_all add: same_payloads_def ex_at_def ex_parsed_def)
  obtain g where g: "active_generation_checkpoint ex_env ''s'' p None = Ok g" "g_id g = i" "g_path g = path" "\<not> g_empty_lazy g"
      "g_bits g = 2" "g_dim g = 64" "g_vector_count g = 2"
    using ex_checkpoint [OF path parts] by blast
  have "validate_against_generation (ex_at path) g = Ok ()"
    using g by (simp add: validate_against_generation_def ex_at_def ex_parsed_def word_le_nat_alt)
  then have valid: "validate_against_generation p g = Ok ()" by (simp only: same_payloads_generation [OF p(2)])
  have "mset (pp_string_to_u64 p) = mset (pp_string_to_u64 (ex_at path))" using p(2) by (simp add: same_payloads_def)
  then have "length (pp_string_to_u64 p) = length (pp_string_to_u64 (ex_at path))" by (rule mset_eq_length)
  then have small: "length (pp_string_to_u64 p) \<le> u64_max" by (simp add: ex_at_def ex_parsed_def u64_max_def)
  have "\<exists>expected. current_verified_store ex_env plain_redb ''s'' (allowed_artifact p) f = Ok previous \<and>
      verify_expected_revision plain_json previous expected = Ok () \<and>
      (\<forall>vs. previous = Some vs \<longrightarrow> (\<exists>r. expected = Some r \<and> revision_from_manifest (vs_manifest vs) = Ok r))"
  proof (cases previous)
    case None
    then obtain s where "f = NoStore (NotFound s)"
      using start by (cases "(ex_env, ''s'', f, previous, v)" rule: starts_from.cases) auto
    then show ?thesis using None
      by (intro exI [of _ None]) (simp add: current_verified_store_def verify_expected_revision_def)
  next
    case (Some vs)
    have opened: "f = StoreDb v" "open_verified_at_store_file ex_env plain_redb ''s'' None (allowed_artifact p) f = Ok vs"
      using ex_allowed [of f vs v "allowed_artifact p"] store Some by blast+
    then have "current_verified_store ex_env plain_redb ''s'' (allowed_artifact p) f = Ok previous"
      by (simp add: current_verified_store_def Some)
    moreover obtain r where "revision_from_manifest (vs_manifest vs) = Ok r"
      using ex_allowed [of f vs v] store Some by blast
    ultimately show ?thesis using Some
      by (intro exI [of _ "Some r"]) (simp add: verify_expected_revision_def)
  qed
  then obtain expected where expected: "current_verified_store ex_env plain_redb ''s'' (allowed_artifact p) f = Ok previous"
      "verify_expected_revision plain_json previous expected = Ok ()"
      "\<forall>vs. previous = Some vs \<longrightarrow> (\<exists>r. expected = Some r \<and> revision_from_manifest (vs_manifest vs) = Ok r)"
    by (elim exE conjE)
  have "snapshot_offered ex_env ''s'' expected (ex_text path) f previous p g"
    using p(1) g(1) valid small expected(1,2) env by (simp add: snapshot_offered_def)
  then show ?thesis using that [of expected p g] g(2) parts(2) expected(3) by blast
qed


text \<open>After \<open>n\<close> snapshots of the example.\<close>

definition ex_run :: "db_view store_file \<Rightarrow> verified_store option \<Rightarrow> db_view \<Rightarrow> nat \<Rightarrow> bool" where
  "ex_run f previous v n \<longleftrightarrow> ex_store f previous v \<and> keys_of (rows_of (dv_us v GENERATIONS)) \<subseteq> {1, 2} \<and>
     length (rows_of (dv_us v AUDIT_LOG)) = n \<and> rows_of (dv_us v GC_QUEUE) = [] \<and>
     (case previous of None \<Rightarrow> n = 0
      | Some vs \<Rightarrow> \<exists>seq. jget (vs_manifest vs) ''commit_sequence'' = Some (jnum seq) \<and> unat seq = n)"

lemma ex_run_start: "ex_run (NoStore (NotFound [])) None no_tables 0"
  by (simp add: ex_run_def ex_store_def no_tables_def)

lemma ex_run_fits:
  assumes "ex_run f previous v n" and "n < 10"
  shows "counters_fit previous v"
proof -
  have "sorted_view v" using assms(1) starts_from_parts(1) by (auto simp: ex_run_def ex_store_def)
  then have "length (rows_of (dv_us v GENERATIONS)) = card (keys_of (rows_of (dv_us v GENERATIONS)))"
    by (intro sorted_length) (simp add: sorted_view_def)
  also have "\<dots> \<le> card {1 :: u64, 2}" using assms(1) by (intro card_mono) (simp_all add: ex_run_def)
  also have "\<dots> \<le> 2" by simp
  finally show ?thesis using assms by (auto simp: counters_fit_def ex_run_def u64_max_def)
qed

lemma ex_run_step:
  assumes run: "ex_run f previous v n" and n: "n < 10"
    and offered: "snapshot_offered ex_env ''s'' expected (ex_text path) f previous p g" "(path, g_id g) \<in> ex_ids" "\<not> pp_empty_lazy p"
    and gen: "generation_state p g previous v \<noteq> Some GENERATION_STATE_RETIRED"
  obtains vs w where "write_legacy_snapshot_inner ex_env plain_redb ''s'' expected (ex_text path) origin f = (Ok vs, StoreDb w)"
    "ex_run (StoreDb w) (Some vs) w (Suc n)"
    "keys_of (rows_of (dv_us w GENERATIONS)) = insert (g_id g) (keys_of (rows_of (dv_us v GENERATIONS)))"
    "previous_field (Some (vs_manifest vs)) as_u64 ''active_generation_id'' = Some (g_id g)" "vs_payloads vs = ex_text path"
proof -
  have start: "starts_from ex_env ''s'' f previous v" using run by (simp add: ex_run_def ex_store_def)
  have "if pp_empty_lazy p then previous = None else generation_state p g previous v \<noteq> Some GENERATION_STATE_RETIRED"
    using offered(3) gen by simp
  from offered_snapshot_opens [OF start ex_env_ready ex_run_fits [OF run n] offered(1) this]
  obtain m w a where w: "write_legacy_snapshot_inner ex_env plain_redb ''s'' expected (ex_text path) origin f =
        (Ok \<lparr>vs_manifest = m, vs_payloads = ex_text path\<rparr>, StoreDb w)"
      "starts_from ex_env ''s'' (StoreDb w) (Some \<lparr>vs_manifest = m, vs_payloads = ex_text path\<rparr>) w"
      "verified_state ex_env ''s'' None a w \<lparr>vs_manifest = m, vs_payloads = ex_text path\<rparr> p g"
      "snapshot_grows previous p g v m w"
    by blast
  have keys: "keys_of (rows_of (dv_us w GENERATIONS)) = insert (g_id g) (keys_of (rows_of (dv_us v GENERATIONS)))"
    using w(4) offered(3) by (simp add: snapshot_grows_def)
  have id: "g_id g \<in> {1, 2}" using offered(2) by (auto simp: ex_ids_def)
  have active: "previous_field (Some m) as_u64 ''active_generation_id'' = Some (g_id g)"
    using w(3) unfolding verified_state_def verify_manifest_generation_def
    by (auto simp: obind_eq_Ok previous_field_def jnum_def split: if_splits)
  have seq: "\<exists>seq. jget m ''commit_sequence'' = Some (jnum seq) \<and> unat seq = Suc n"
    using w(4) run by (cases previous) (auto simp: snapshot_grows_def ex_run_def previous_field_def jnum_def)
  have "ex_run (StoreDb w) (Some \<lparr>vs_manifest = m, vs_payloads = ex_text path\<rparr>) w (Suc n)"
    using w(2,4) run keys id seq offered(2) unfolding ex_run_def ex_store_def snapshot_grows_def by auto
  then show ?thesis using that [OF w(1) _ keys] active by simp
qed

text \<open>Two snapshots: the generation in \<open>vectors/\<close>, then the one in \<open>index.odb\<close>.\<close>

lemma ex_first:
  obtains vs w where "ex_run (StoreDb w) (Some vs) w 1" "keys_of (rows_of (dv_us w GENERATIONS)) = {2}"
proof -
  have path: "(''vectors/g000000000002.odb'', 2) \<in> ex_ids" by (simp add: ex_ids_def)
  have store: "ex_store (NoStore (NotFound [])) None no_tables" using ex_run_start by (simp add: ex_run_def)
  obtain expected p g where
      o: "snapshot_offered ex_env ''s'' expected (ex_text ''vectors/g000000000002.odb'') (NoStore (NotFound [])) None p g"
      "g_id g = 2" "\<not> pp_empty_lazy p"
    by (rule ex_offered [OF store path])
  have none: "keys_of (rows_of (dv_us no_tables GENERATIONS)) = {}" by (simp add: no_tables_def)
  then have gs: "generation_state p g None no_tables \<noteq> Some GENERATION_STATE_RETIRED" by (simp add: generation_state_def)
  have id: "(''vectors/g000000000002.odb'', g_id g) \<in> ex_ids" using path o(2) by simp
  obtain vs w where "ex_run (StoreDb w) (Some vs) w (Suc 0)"
      "keys_of (rows_of (dv_us w GENERATIONS)) = insert (g_id g) (keys_of (rows_of (dv_us no_tables GENERATIONS)))"
    by (rule ex_run_step [OF ex_run_start _ o(1) id o(3) gs, of Created]) simp_all
  then show ?thesis using that o(2) none by simp
qed

lemma ex_second:
  obtains r vs w vs' w' where "ex_run (StoreDb w) (Some vs) w 1" "revision_from_manifest (vs_manifest vs) = Ok r"
    "write_legacy_snapshot_inner ex_env plain_redb ''s'' (Some r) (ex_text ''index.odb'') Created (StoreDb w) = (Ok vs', StoreDb w')"
    "ex_run (StoreDb w') (Some vs') w' 2" "keys_of (rows_of (dv_us w' GENERATIONS)) = {1, 2}"
    "previous_field (Some (vs_manifest vs')) as_u64 ''active_generation_id'' = Some 1"
proof -
  obtain vs w where first: "ex_run (StoreDb w) (Some vs) w 1" "keys_of (rows_of (dv_us w GENERATIONS)) = {2}" by (rule ex_first)
  have path: "(''index.odb'', 1) \<in> ex_ids" by (simp add: ex_ids_def)
  have store: "ex_store (StoreDb w) (Some vs) w" using first(1) by (simp add: ex_run_def)
  obtain e p g where
      o: "snapshot_offered ex_env ''s'' e (ex_text ''index.odb'') (StoreDb w) (Some vs) p g" "g_id g = 1" "\<not> pp_empty_lazy p"
      and e: "\<exists>r. e = Some r \<and> revision_from_manifest (vs_manifest vs) = Ok r"
    by (rule ex_offered [OF store path]) simp
  obtain r where r: "e = Some r" "revision_from_manifest (vs_manifest vs) = Ok r" using e by blast
  have gs: "generation_state p g (Some vs) w \<noteq> Some GENERATION_STATE_RETIRED" using o(2) first(2) by (simp add: generation_state_def)
  have id: "(''index.odb'', g_id g) \<in> ex_ids" using path o(2) by simp
  obtain vs' w' where step: "write_legacy_snapshot_inner ex_env plain_redb ''s'' e (ex_text ''index.odb'') Created (StoreDb w) =
        (Ok vs', StoreDb w')" "ex_run (StoreDb w') (Some vs') w' (Suc 1)"
      "keys_of (rows_of (dv_us w' GENERATIONS)) = insert (g_id g) (keys_of (rows_of (dv_us w GENERATIONS)))"
      "previous_field (Some (vs_manifest vs')) as_u64 ''active_generation_id'' = Some (g_id g)"
    by (rule ex_run_step [OF first(1) _ o(1) id o(3) gs, of Created]) simp_all
  have two: "Suc 1 = (2 :: nat)" by simp
  show ?thesis
    by (rule that [OF first(1) r(2) step(1) [unfolded r(1)] step(2) [unfolded two]]) (use step(3,4) first(2) o(2) in simp_all)
qed

section \<open>Properties\<close>

text \<open>
  C11. Opening a store never panics, whatever the engine does, and a store that opens is consistent:
  the manifest describes the payloads, the counts are those of the tables, the identifier tables hold
  the payloads' maps and nothing else, each document and metadata entry of the payloads has its row, and
  exactly the generation of the payloads is active.
\<close>

theorem open_verified_sound:
  assumes "redb_ok rd view" and "sorted_view (view db)" and "orders_ok (se_orders env)"
  shows "open_verified env rd root e (StoreDb db) \<noteq> Panic \<and>
    (\<forall>vs. open_verified env rd root e (StoreDb db) = Ok vs \<longrightarrow>
       (\<exists>p g. verified_state env root e None (view db) vs p g \<and> payloads_ok p))"
  using open_verified_state [OF assms]
  by (auto simp: open_verified_def open_verified_at_store_file_def validate_adapter_store_file_def)

text \<open>
  C8. A snapshot that is offered at the current revision, with the active generation or one that the
  store has not seen, is written: the call returns its payloads, the file opens to the same store, and
  the next snapshot may start from it.
\<close>

theorem written_snapshot_opens:
  assumes "starts_from env root f previous v" and "env_ready env root" and "counters_fit previous v"
    and "snapshot_offered env root expected payloads f previous p g"
    and "if pp_empty_lazy p then previous = None else generation_state p g previous v \<noteq> Some GENERATION_STATE_RETIRED"
  shows "\<exists>m w. write_legacy_snapshot_inner env plain_redb root expected payloads origin f =
      (Ok \<lparr>vs_manifest = m, vs_payloads = payloads\<rparr>, StoreDb w) \<and>
    starts_from env root (StoreDb w) (Some \<lparr>vs_manifest = m, vs_payloads = payloads\<rparr>) w \<and>
    snapshot_grows previous p g v m w"
  using offered_snapshot_opens [OF assms] by blast

text \<open>
  C22. A snapshot whose generation the store has retired is committed and then refused: the call
  reports an error, the file has changed, and no open of it succeeds again, because the manifest counts
  one generation more than the table holds.
\<close>

theorem retired_generation_bricks_store:
  assumes "starts_from env root f previous v" and "env_ready env root" and "counters_fit previous v"
    and "snapshot_offered env root expected payloads f previous p g" and "\<not> pp_empty_lazy p"
    and "generation_state p g previous v = Some GENERATION_STATE_RETIRED"
  shows "\<exists>w. snd (write_legacy_snapshot_inner env plain_redb root expected payloads origin f) = StoreDb w \<and>
    \<not> is_ok (fst (write_legacy_snapshot_inner env plain_redb root expected payloads origin f)) \<and>
    (\<forall>env' root' e. se_json env' = se_json env \<longrightarrow> \<not> is_ok (open_verified env' plain_redb root' e (StoreDb w)))"
  using retired_snapshot_bricks [OF assms] unfolding open_verified_def by blast


section \<open>Witnesses\<close>

theorem written_snapshot_opens_witness:
  "\<exists>expected m w. write_legacy_snapshot_inner ex_env plain_redb ''s'' expected (ex_text ''vectors/g000000000002.odb'') Created
     (NoStore (NotFound [])) = (Ok \<lparr>vs_manifest = m, vs_payloads = ex_text ''vectors/g000000000002.odb''\<rparr>, StoreDb w) \<and>
     keys_of (rows_of (dv_us w GENERATIONS)) = {2}"
proof -
  have path: "(''vectors/g000000000002.odb'', 2) \<in> ex_ids" by (simp add: ex_ids_def)
  have store: "ex_store (NoStore (NotFound [])) None no_tables" using ex_run_start by (simp add: ex_run_def)
  obtain expected p g where
      o: "snapshot_offered ex_env ''s'' expected (ex_text ''vectors/g000000000002.odb'') (NoStore (NotFound [])) None p g"
      "g_id g = 2" "\<not> pp_empty_lazy p"
    by (rule ex_offered [OF store path])
  have none: "keys_of (rows_of (dv_us no_tables GENERATIONS)) = {}" by (simp add: no_tables_def)
  have start: "starts_from ex_env ''s'' (NoStore (NotFound [])) None no_tables" by simp
  have fit: "counters_fit None no_tables" by (rule ex_run_fits [OF ex_run_start]) simp
  have gs: "if pp_empty_lazy p then (None :: verified_store option) = None
      else generation_state p g None no_tables \<noteq> Some GENERATION_STATE_RETIRED"
    using o(3) none by (simp add: generation_state_def)
  obtain m w where "write_legacy_snapshot_inner ex_env plain_redb ''s'' expected (ex_text ''vectors/g000000000002.odb'') Created
      (NoStore (NotFound [])) = (Ok \<lparr>vs_manifest = m, vs_payloads = ex_text ''vectors/g000000000002.odb''\<rparr>, StoreDb w)"
      "snapshot_grows None p g no_tables m w"
    using written_snapshot_opens [OF start ex_env_ready fit o(1) gs, of Created] by blast
  then show ?thesis using o(2,3) none by (intro exI conjI) (assumption, simp add: snapshot_grows_def)
qed

theorem retired_generation_bricks_store_witness:
  "\<exists>r w w'. snd (write_legacy_snapshot_inner ex_env plain_redb ''s'' r (ex_text ''vectors/g000000000002.odb'') Created (StoreDb w)) =
       StoreDb w' \<and>
     \<not> is_ok (open_verified ex_env plain_redb ''s'' None (StoreDb w'))"
proof -
  obtain vs w where second: "ex_run (StoreDb w) (Some vs) w 2" "keys_of (rows_of (dv_us w GENERATIONS)) = {1, 2}"
      "previous_field (Some (vs_manifest vs)) as_u64 ''active_generation_id'' = Some 1"
    by (rule ex_second)
  have store: "ex_store (StoreDb w) (Some vs) w" using second(1) by (simp add: ex_run_def)
  have path: "(''vectors/g000000000002.odb'', 2) \<in> ex_ids" by (simp add: ex_ids_def)
  obtain e p g where
      o: "snapshot_offered ex_env ''s'' e (ex_text ''vectors/g000000000002.odb'') (StoreDb w) (Some vs) p g" "g_id g = 2" "\<not> pp_empty_lazy p"
    by (rule ex_offered [OF store path])
  have retired: "generation_state p g (Some vs) w = Some GENERATION_STATE_RETIRED"
    using second(2,3) o(2) by (simp add: generation_state_def)
  have start: "starts_from ex_env ''s'' (StoreDb w) (Some vs) w" using store by (simp add: ex_store_def)
  have fit: "counters_fit (Some vs) w" by (rule ex_run_fits [OF second(1)]) simp
  show ?thesis
    using retired_generation_bricks_store [OF start ex_env_ready fit o(1,3) retired, of Created] by blast
qed

theorem open_verified_sound_witness:
  "\<exists>vs w p g. open_verified ex_env plain_redb ''s'' None (StoreDb w) = Ok vs \<and>
     verified_state ex_env ''s'' None None w vs p g \<and> payloads_ok p"
proof -
  obtain vs w where run: "ex_run (StoreDb w) (Some vs) w 2" by (rule ex_second)
  then have start: "starts_from ex_env ''s'' (StoreDb w) (Some vs) w" by (simp add: ex_run_def ex_store_def)
  have store: "ex_store (StoreDb w) (Some vs) w" using run by (simp add: ex_run_def)
  have sorted: "sorted_view (id w)" using start by simp
  have ho: "orders_ok (se_orders ex_env)" by (simp add: ex_env_def plain_orders_ok)
  have "open_verified ex_env plain_redb ''s'' None (StoreDb w) = Ok vs"
    using ex_allowed [OF store] by (simp add: open_verified_def)
  then show ?thesis using open_verified_sound [OF plain_redb_ok sorted ho, of "''s''" None] by auto
qed


theorem stale_commit_writes_nothing_witness:
  "\<exists>expected w. snd (commit_inner ex_env plain_redb ''s'' expected (ReplaceLegacySnapshot (ex_text ''index.odb'')) (StoreDb w)) = StoreDb w \<and>
     is_ok (open_verified ex_env plain_redb ''s'' None (StoreDb w))"
proof -
  obtain r vs w vs' w' where run: "ex_run (StoreDb w) (Some vs) w 1" "revision_from_manifest (vs_manifest vs) = Ok r"
      "ex_run (StoreDb w') (Some vs') w' 2"
    by (rule ex_second)
  have opens: "open_verified_at_store_file ex_env plain_redb ''s'' None a (StoreDb w') = Ok vs'" for a
    using ex_allowed run(3) unfolding ex_run_def by blast
  have seqs: "\<exists>seq. jget (vs_manifest vs) ''commit_sequence'' = Some (jnum seq) \<and> unat seq = 1"
      "\<exists>seq. jget (vs_manifest vs') ''commit_sequence'' = Some (jnum seq) \<and> unat seq = 2"
    using run(1,3) by (simp_all add: ex_run_def)
  have "\<not> at_revision ex_env plain_redb ''s'' r (StoreDb w')"
  proof
    assume "at_revision ex_env plain_redb ''s'' r (StoreDb w')"
    then have "revision_from_manifest (vs_manifest vs') = Ok r" using opens by (auto simp: at_revision_def)
    then show False using run(2) seqs by (auto simp: revision_from_manifest_def obind_eq_Ok)
  qed
  from stale_commit_writes_nothing [OF this] opens [of None] show ?thesis
    by (intro exI [of _ r] exI [of _ w']) (simp add: open_verified_def)
qed

theorem commit_advances_revision_witness:
  "\<exists>r c w f. commit_inner ex_env plain_redb ''s'' r (ReplaceLegacySnapshot (ex_text ''index.odb'')) (StoreDb w) = (Ok c, f) \<and>
     unat (sr_commit_sequence (cr_revision c)) = unat (sr_commit_sequence r) + 1"
proof -
  obtain r vs w vs' w' where run: "ex_run (StoreDb w) (Some vs) w 1"
      "write_legacy_snapshot_inner ex_env plain_redb ''s'' (Some r) (ex_text ''index.odb'') Created (StoreDb w) = (Ok vs', StoreDb w')"
      "ex_run (StoreDb w') (Some vs') w' 2"
    by (rule ex_second)
  obtain r' where r': "revision_from_manifest (vs_manifest vs') = Ok r'"
    using ex_allowed run(3) unfolding ex_run_def by blast
  have commit: "commit_inner ex_env plain_redb ''s'' r (ReplaceLegacySnapshot (ex_text ''index.odb'')) (StoreDb w) =
      (Ok \<lparr>cr_revision = r', cr_manifest = vs_manifest vs'\<rparr>, StoreDb w')"
    using run(2) r' by (simp add: commit_inner_def)
  have sorted: "sorted_view (id w)" using run(1) by (simp add: ex_run_def ex_store_def)
  have env: "json_text (se_json ex_env)" "orders_ok (se_orders ex_env)"
    by (simp_all add: ex_env_def plain_json_text plain_orders_ok)
  show ?thesis
    using commit_advances_revision [OF plain_redb_ok env sorted commit] commit by (intro exI conjI) (assumption | blast)+
qed

end
