(* ===== verification/StoreDirs.thy ===== *)
theory StoreDirs
  imports StoreLock StoreRuns
begin

text \<open>
  The directories of an adapter root (\<open>ordinaldb-adapter-store/src/lib.rs\<close>): making sure the root is a
  chain of directories, scanning \<open>vectors/\<close>, removing debris, and the entry points, which check the
  root, take or demand the writer lock, and run a mutation.
\<close>

section \<open>The adapter root\<close>

text \<open>
  The file system by path: what is there. A call that creates a directory may find that another process
  has created an entry meanwhile. Where the platform is not macOS every symlink is refused.
\<close>

type_synonym file_tree = "string \<Rightarrow> file_kind option"

datatype create_answer = CreateDone | CreateExists file_kind | CreateFault string

record root_env =
  re_stat_fault :: "string \<Rightarrow> string option"
  re_create :: "string \<Rightarrow> create_answer"

function ensure_adapter_root_component :: "root_env \<Rightarrow> string \<Rightarrow> file_tree \<Rightarrow> (store_error, string) outcome \<times> file_tree" where
  "ensure_adapter_root_component re path t =
     (case re_stat_fault re path of
        Some e \<Rightarrow> (Err (''adapter root cannot be statted at '' @ path @ '': '' @ e), t)
      | None \<Rightarrow>
          (case t path of
             Some k \<Rightarrow>
               if k = KLink then (Err (''adapter root must not be a symlink: '' @ path), t)
               else if k \<noteq> KDir then (Err (''adapter root must be a directory: '' @ path), t)
               else (Ok path, t)
           | None \<Rightarrow>
               (case re_create re path of
                  CreateFault e \<Rightarrow> (Err (''adapter root directory cannot be created at '' @ path @ '': '' @ e), t)
                | CreateDone \<Rightarrow> ensure_adapter_root_component re path (t(path \<mapsto> KDir))
                | CreateExists k \<Rightarrow> ensure_adapter_root_component re path (t(path \<mapsto> k)))))"
  by pat_completeness auto

termination
  by (relation "measure (\<lambda>(re, path, t). if t path = None then 1 else 0)") auto

fun ensure_components :: "root_env \<Rightarrow> component list \<Rightarrow> string \<Rightarrow> file_tree \<Rightarrow> (store_error, unit) outcome \<times> file_tree" where
  "ensure_components re [] current t = (Ok (), t)"
| "ensure_components re (RootDir # cs) current t = ensure_components re cs (path_join current ''/'') t"
| "ensure_components re (CurDir # cs) current t = ensure_components re cs current t"
| "ensure_components re (c # cs) current t =
     (case ensure_adapter_root_component re (path_join current (case c of Normal part \<Rightarrow> part | _ \<Rightarrow> ''..'')) t of
        (Ok path, t') \<Rightarrow> ensure_components re cs path t'
      | (Err e, t') \<Rightarrow> (Err e, t')
      | (Panic, t') \<Rightarrow> (Panic, t'))"

definition ensure_adapter_root_directory :: "root_env \<Rightarrow> string \<Rightarrow> file_tree \<Rightarrow> (store_error, unit) outcome \<times> file_tree" where
  "ensure_adapter_root_directory re root t =
     ensure_components re (components root) (if is_absolute root then [] else ''.'') t"

section \<open>The entries of \<open>vectors/\<close>\<close>

record generation_debris_entry =
  gd_path :: string
  gd_generation_id :: "u64 option"
  gd_warning :: string

record generation_directory_scan =
  gs_generation_paths :: "string list"
  gs_debris :: "generation_debris_entry list"

definition debris_warning :: "json_env \<Rightarrow> string \<Rightarrow> u64 option \<Rightarrow> string" where
  "debris_warning je name generation_id =
     (case generation_id of
        Some i \<Rightarrow> ''reclaimable debris in '' @ VECTORS_DIR @ ''/: '' @ je_debug je name @
          '' is a scratch directory left by an interrupted replacement of generation '' @ decimal i @ ''; delete it via gc''
      | None \<Rightarrow> ''reclaimable debris in '' @ VECTORS_DIR @ ''/: '' @ je_debug je name @
          '' is not a generation bundle; delete it via gc'')"

definition vectors_entry :: "string \<Rightarrow> string" where
  "vectors_entry name = VECTORS_DIR @ ''/'' @ name"

fun scan_entries :: "store_env \<Rightarrow> string \<Rightarrow> (string + dir_entry) list \<Rightarrow> string list \<Rightarrow> generation_debris_entry list \<Rightarrow>
    (store_error, string list \<times> generation_debris_entry list) outcome" where
  "scan_entries env vectors_root [] gens debris = Ok (gens, debris)"
| "scan_entries env vectors_root (entry # entries) gens debris =
     obind (lift_sum id entry) (\<lambda>e.
     let name = se_lossy env (de_name e); path = path_join vectors_root (de_name e) in
     obind (lift_sum id (de_kind e)) (\<lambda>k.
     if k = KLink then Err (''generation entry must not be a symlink: '' @ path)
     else case parse_generation_dir name of
       Some i \<Rightarrow>
         if k \<noteq> KDir then Err (''generation bundle must be a directory: '' @ path @ '' (generation '' @ decimal i @ '')'')
         else scan_entries env vectors_root entries (gens @ [vectors_entry name]) debris
     | None \<Rightarrow>
         let i = parse_generation_debris_name name in
         scan_entries env vectors_root entries gens
           (debris @ [\<lparr>gd_path = vectors_entry name, gd_generation_id = i, gd_warning = debris_warning (se_json env) name i\<rparr>])))"

definition scan_generation_directory :: "store_env \<Rightarrow> string \<Rightarrow> (store_error, generation_directory_scan) outcome" where
  "scan_generation_directory env root =
     (let vectors_root = path_join root VECTORS_DIR in
      case se_stat env vectors_root of
        Inl (NotFound _) \<Rightarrow> Ok \<lparr>gs_generation_paths = [], gs_debris = []\<rparr>
      | Inl (Fault e) \<Rightarrow> Err (''cannot stat '' @ vectors_root @ '': '' @ e)
      | Inr m \<Rightarrow>
          if fm_kind m = KLink then Err (vectors_root @ '' must not be a symlink'')
          else if fm_kind m \<noteq> KDir then Err (vectors_root @ '' must be a directory'')
          else
            obind (lift_sum id (se_read_dir env vectors_root)) (\<lambda>entries.
            obind (scan_entries env vectors_root entries [] []) (\<lambda>(gens, debris).
            Ok \<lparr>gs_generation_paths = sort gens, gs_debris = sort_key gd_path debris\<rparr>)))"

text \<open>
  The entries of \<open>vectors/\<close> by name, and the calls that remove one; a removal that fails keeps the entry.
\<close>

record removal_env =
  rm_stat_fault :: "string \<Rightarrow> string option"
  rm_remove :: "string \<Rightarrow> string + unit"
  rm_sync :: "string \<Rightarrow> string + unit"

definition remove_entry :: "removal_env \<Rightarrow> string \<Rightarrow> string \<Rightarrow> file_tree \<Rightarrow> (store_error, unit) outcome \<times> file_tree" where
  "remove_entry rm root name t =
     (let path = path_join (path_join root VECTORS_DIR) name in
      case rm_stat_fault rm path of
        Some e \<Rightarrow> (Err (''cannot stat debris entry '' @ path @ '': '' @ e), t)
      | None \<Rightarrow>
          (case t name of
             None \<Rightarrow> (Ok (), t)
           | Some k \<Rightarrow>
               if k = KLink then (Err (''refusing to delete symlinked debris entry: '' @ path), t)
               else case rm_remove rm path of
                 Inl e \<Rightarrow> (Err e, t)
               | Inr _ \<Rightarrow> (lift_sum id (rm_sync rm (path_join root VECTORS_DIR)), t(name := None))))"

definition debris_name :: "json_env \<Rightarrow> string \<Rightarrow> (store_error, string) outcome" where
  "debris_name je debris_path =
     obind (map_err (\<lambda>e. ''invalid debris path: '' @ e) (validate_relative_path debris_path)) (\<lambda>_.
     case components debris_path of
       [Normal first, Normal name] \<Rightarrow>
         if first \<noteq> VECTORS_DIR then
           Err (''debris path must be directly under '' @ VECTORS_DIR @ ''/, got '' @ je_debug je debris_path)
         else if parse_generation_dir name \<noteq> None then
           Err (''refusing to delete committed generation '' @ je_debug je debris_path @
                '': only non-generation debris is reclaimable through this API'')
         else Ok name
     | _ \<Rightarrow> Err (''debris path must be directly under '' @ VECTORS_DIR @ ''/, got '' @ je_debug je debris_path))"

definition remove_generation_debris :: "json_env \<Rightarrow> lock_file_env \<Rightarrow> removal_env \<Rightarrow> string \<Rightarrow> lock_registry \<Rightarrow> string \<Rightarrow> file_tree \<Rightarrow>
    (store_error, unit) outcome \<times> file_tree" where
  "remove_generation_debris je lf rm root reg debris_path t =
     (case obind (require_writer_lock_held_by_current_process lf root reg) (\<lambda>_. debris_name je debris_path) of
        Ok name \<Rightarrow> remove_entry rm root name t
      | Err e \<Rightarrow> (Err e, t)
      | Panic \<Rightarrow> (Panic, t))"

section \<open>Entry points\<close>

text \<open>The parts of the world that an entry point changes.\<close>

record 'db store_world =
  sw_tree :: file_tree
  sw_registry :: lock_registry
  sw_file :: "'db store_file"

record entry_env =
  ee_store :: store_env
  ee_root :: root_env
  ee_lock :: lock_file_env

type_synonym ('db, 'a) mutation = "'db store_file \<Rightarrow> (store_error, 'a) outcome \<times> 'db store_file"

text \<open>The guard is dropped after the mutation, whatever its result.\<close>

definition with_writer_lock :: "entry_env \<Rightarrow> string \<Rightarrow> ('db, 'a) mutation \<Rightarrow> 'db store_world \<Rightarrow>
    (store_error, 'a) outcome \<times> 'db store_world" where
  "with_writer_lock ee root op w =
     (case ensure_adapter_root_directory (ee_root ee) root (sw_tree w) of
        (Err e, t) \<Rightarrow> (Err e, w\<lparr>sw_tree := t\<rparr>)
      | (Panic, t) \<Rightarrow> (Panic, w\<lparr>sw_tree := t\<rparr>)
      | (Ok _, t) \<Rightarrow>
          (case acquire (ee_lock ee) root (sw_registry w) of
             (Err e, reg) \<Rightarrow> (Err e, w\<lparr>sw_tree := t, sw_registry := reg\<rparr>)
           | (Panic, reg) \<Rightarrow> (Panic, w\<lparr>sw_tree := t, sw_registry := reg\<rparr>)
           | (Ok key, reg) \<Rightarrow>
               (case op (sw_file w) of
                  (r, f) \<Rightarrow> (r, w\<lparr>sw_tree := t, sw_registry := release_writer_lock_registration key reg, sw_file := f\<rparr>))))"

definition with_existing_lock :: "entry_env \<Rightarrow> string \<Rightarrow> ('db, 'a) mutation \<Rightarrow> 'db store_world \<Rightarrow>
    (store_error, 'a) outcome \<times> 'db store_world" where
  "with_existing_lock ee root op w =
     (case ensure_adapter_root_directory (ee_root ee) root (sw_tree w) of
        (Err e, t) \<Rightarrow> (Err e, w\<lparr>sw_tree := t\<rparr>)
      | (Panic, t) \<Rightarrow> (Panic, w\<lparr>sw_tree := t\<rparr>)
      | (Ok _, t) \<Rightarrow>
          (case require_writer_lock_held_by_current_process (ee_lock ee) root (sw_registry w) of
             Err e \<Rightarrow> (Err e, w\<lparr>sw_tree := t\<rparr>)
           | Panic \<Rightarrow> (Panic, w\<lparr>sw_tree := t\<rparr>)
           | Ok _ \<Rightarrow> (case op (sw_file w) of (r, f) \<Rightarrow> (r, w\<lparr>sw_tree := t, sw_file := f\<rparr>))))"

definition acquire_writer_lock :: "entry_env \<Rightarrow> string \<Rightarrow> 'db store_world \<Rightarrow> (store_error, string) outcome \<times> 'db store_world" where
  "acquire_writer_lock ee root w =
     (case ensure_adapter_root_directory (ee_root ee) root (sw_tree w) of
        (Err e, t) \<Rightarrow> (Err e, w\<lparr>sw_tree := t\<rparr>)
      | (Panic, t) \<Rightarrow> (Panic, w\<lparr>sw_tree := t\<rparr>)
      | (Ok _, t) \<Rightarrow> (case acquire (ee_lock ee) root (sw_registry w) of (r, reg) \<Rightarrow> (r, w\<lparr>sw_tree := t, sw_registry := reg\<rparr>)))"

definition commit :: "entry_env \<Rightarrow> 'db redb \<Rightarrow> string \<Rightarrow> store_revision \<Rightarrow> adapter_mutation \<Rightarrow> 'db store_world \<Rightarrow>
    (store_error, committed_revision) outcome \<times> 'db store_world" where
  "commit ee rd root expected mutation = with_writer_lock ee root (commit_inner (ee_store ee) rd root expected mutation)"

definition commit_with_existing_lock :: "entry_env \<Rightarrow> 'db redb \<Rightarrow> string \<Rightarrow> store_revision \<Rightarrow> adapter_mutation \<Rightarrow> 'db store_world \<Rightarrow>
    (store_error, committed_revision) outcome \<times> 'db store_world" where
  "commit_with_existing_lock ee rd root expected mutation =
     with_existing_lock ee root (commit_inner (ee_store ee) rd root expected mutation)"

definition write_legacy_snapshot_with_origin :: "entry_env \<Rightarrow> 'db redb \<Rightarrow> string \<Rightarrow> store_revision option \<Rightarrow> legacy_payloads \<Rightarrow>
    store_origin \<Rightarrow> 'db store_world \<Rightarrow> (store_error, verified_store) outcome \<times> 'db store_world" where
  "write_legacy_snapshot_with_origin ee rd root expected payloads origin =
     with_writer_lock ee root (write_legacy_snapshot_inner (ee_store ee) rd root expected payloads origin)"

definition write_legacy_snapshot :: "entry_env \<Rightarrow> 'db redb \<Rightarrow> string \<Rightarrow> store_revision option \<Rightarrow> legacy_payloads \<Rightarrow>
    'db store_world \<Rightarrow> (store_error, verified_store) outcome \<times> 'db store_world" where
  "write_legacy_snapshot ee rd root expected payloads =
     write_legacy_snapshot_with_origin ee rd root expected payloads Created"

definition write_legacy_snapshot_with_existing_lock :: "entry_env \<Rightarrow> 'db redb \<Rightarrow> string \<Rightarrow> store_revision option \<Rightarrow> legacy_payloads \<Rightarrow>
    'db store_world \<Rightarrow> (store_error, verified_store) outcome \<times> 'db store_world" where
  "write_legacy_snapshot_with_existing_lock ee rd root expected payloads =
     with_existing_lock ee root (write_legacy_snapshot_inner (ee_store ee) rd root expected payloads Created)"

definition record_generation_gc :: "entry_env \<Rightarrow> 'db redb \<Rightarrow> string \<Rightarrow> store_revision option \<Rightarrow> generation_gc_update list \<Rightarrow>
    'db store_world \<Rightarrow> (store_error, verified_store) outcome \<times> 'db store_world" where
  "record_generation_gc ee rd root expected updates =
     with_writer_lock ee root (record_generation_gc_inner (ee_store ee) rd root expected updates)"

definition record_generation_gc_with_existing_lock :: "entry_env \<Rightarrow> 'db redb \<Rightarrow> string \<Rightarrow> store_revision option \<Rightarrow>
    generation_gc_update list \<Rightarrow> 'db store_world \<Rightarrow> (store_error, verified_store) outcome \<times> 'db store_world" where
  "record_generation_gc_with_existing_lock ee rd root expected updates =
     with_existing_lock ee root (record_generation_gc_inner (ee_store ee) rd root expected updates)"

section \<open>The root is a chain of directories\<close>

declare ensure_adapter_root_component.simps [simp del]

text \<open>The paths that the check of a root visits.\<close>

fun visited :: "component list \<Rightarrow> string \<Rightarrow> string list" where
  "visited [] current = []"
| "visited (RootDir # cs) current = visited cs (path_join current ''/'')"
| "visited (CurDir # cs) current = visited cs current"
| "visited (ParentDir # cs) current = path_join current ''..'' # visited cs (path_join current ''..'')"
| "visited (Normal part # cs) current = path_join current part # visited cs (path_join current part)"

definition root_paths :: "string \<Rightarrow> string list" where
  "root_paths root = visited (components root) (if is_absolute root then [] else ''.'')"

lemma ensure_present:
  "t path = Some k \<Longrightarrow> ensure_adapter_root_component re path t = (r, t') \<Longrightarrow>
     t' = t \<and> r \<noteq> Panic \<and> (\<forall>p. r = Ok p \<longrightarrow> p = path \<and> k = KDir)"
  by (auto simp: ensure_adapter_root_component.simps [of re path t] split: if_splits option.splits)

lemma ensure_component:
  assumes "ensure_adapter_root_component re path t = (r, t')"
  shows "t \<subseteq>\<^sub>m t' \<and> dom t' \<subseteq> insert path (dom t) \<and> r \<noteq> Panic \<and> (\<forall>p. r = Ok p \<longrightarrow> p = path \<and> t' path = Some KDir)"
proof (cases "t path")
  case (Some k)
  then show ?thesis using ensure_present [OF Some assms] by (auto simp: insert_absorb domIff)
next
  case None
  have sub: "t \<subseteq>\<^sub>m t(path \<mapsto> k)" for k using None by (auto simp: map_le_def)
  have found: ?thesis if "ensure_adapter_root_component re path (t(path \<mapsto> k)) = (r, t')" for k
    using ensure_present [OF _ that, of k] sub [of k] by auto
  show ?thesis
  proof (cases "re_create re path")
    case CreateDone
    then show ?thesis using assms None found [of KDir]
      by (auto simp: ensure_adapter_root_component.simps [of re path t] split: option.splits)
  next
    case (CreateExists k)
    then show ?thesis using assms None found [of k]
      by (auto simp: ensure_adapter_root_component.simps [of re path t] split: option.splits)
  next
    case (CreateFault e)
    then show ?thesis using assms None
      by (auto simp: ensure_adapter_root_component.simps [of re path t] split: option.splits)
  qed
qed

lemma ensure_components_sound:
  "ensure_components re cs current t = (r, t') \<Longrightarrow>
     t \<subseteq>\<^sub>m t' \<and> dom t' \<subseteq> dom t \<union> set (visited cs current) \<and> r \<noteq> Panic \<and>
     (r = Ok () \<longrightarrow> (\<forall>p\<in>set (visited cs current). t' p = Some KDir))"
proof (induction cs arbitrary: current t)
  case Nil
  then show ?case by auto
next
  case (Cons c cs)
  have entry: ?case
    if run: "ensure_components re (c # cs) current t = (case ensure_adapter_root_component re path t of
         (Ok path, t') \<Rightarrow> ensure_components re cs path t' | (Err e, t') \<Rightarrow> (Err e, t') | (Panic, t') \<Rightarrow> (Panic, t'))"
      and paths: "visited (c # cs) current = path # visited cs path" for path
  proof -
    obtain r1 t1 where c: "ensure_adapter_root_component re path t = (r1, t1)" by fastforce
    note here = ensure_component [OF c]
    show ?thesis
    proof (cases r1)
      case (Ok p)
      then have p: "p = path" "t1 path = Some KDir" using here by auto
      have "ensure_components re cs path t1 = (r, t')" using Cons.prems run c Ok p by simp
      note rest = Cons.IH [OF this]
      have "t' path = Some KDir" using rest p(2) by (force simp: map_le_def)
      moreover have "t \<subseteq>\<^sub>m t'" using here rest map_le_trans by blast
      moreover have "dom t' \<subseteq> dom t \<union> set (path # visited cs path)"
        using here rest by (simp only: list.set) blast
      ultimately show ?thesis using rest unfolding paths by simp
    next
      case (Err e)
      then show ?thesis using Cons.prems run c here unfolding paths by auto
    next
      case Panic
      then show ?thesis using here by simp
    qed
  qed
  show ?case
  proof (cases c)
    case RootDir
    then show ?thesis using Cons.IH [of "path_join current ''/''" t] Cons.prems by simp
  next
    case CurDir
    then show ?thesis using Cons.IH [of current t] Cons.prems by simp
  next
    case ParentDir
    then show ?thesis by (intro entry [of "path_join current ''..''"]) simp_all
  next
    case (Normal part)
    then show ?thesis by (intro entry [of "path_join current part"]) simp_all
  qed
qed

section \<open>Debris\<close>

text \<open>A name that a path of the store may carry: any entry of a directory whose name has no backslash.\<close>

definition plain_name :: "string \<Rightarrow> bool" where
  "plain_name name \<longleftrightarrow> name \<noteq> [] \<and> name \<noteq> ''.'' \<and> name \<noteq> ''..'' \<and> CHR ''/'' \<notin> set name \<and> backslash \<notin> set name"

lemma split_slash_plain: "CHR ''/'' \<notin> set name \<Longrightarrow> split_slash name = [name]"
  by (induction name) auto

lemma vectors_entry_components:
  assumes "plain_name name"
  shows "components (vectors_entry name) = [Normal VECTORS_DIR, Normal name]"
proof -
  have "split_slash (vectors_entry name) = [VECTORS_DIR, name]"
    using assms split_slash_plain [of name] by (simp add: plain_name_def vectors_entry_def VECTORS_DIR_def)
  then show ?thesis using assms
    by (simp add: components_def Let_def is_absolute_def vectors_entry_def VECTORS_DIR_def plain_name_def)
qed

lemma vectors_entry_relative:
  assumes "plain_name name"
  shows "validate_relative_path (vectors_entry name) = Ok ()"
proof -
  have slash: "CHR ''/'' \<notin> set name" "name \<noteq> []" using assms by (simp_all add: plain_name_def)
  have "\<not> contains_str ''//'' (vectors_entry name)"
    using split_absent [OF slash(1), of "''/''"] slash
    by (cases name) (auto simp: contains_str_def vectors_entry_def VECTORS_DIR_def)
  moreover have "last (vectors_entry name) \<noteq> CHR ''/''"
    using slash by (auto simp: vectors_entry_def dest: last_in_set)
  ultimately show ?thesis using assms vectors_entry_components [OF assms]
    by (auto simp: validate_relative_path_def is_normal_def is_absolute_def plain_name_def vectors_entry_def VECTORS_DIR_def
        backslash_def char_of_def)
qed

lemma vectors_entry_inj: "vectors_entry a = vectors_entry b \<longleftrightarrow> a = b"
  by (simp add: vectors_entry_def)

text \<open>A readable \<open>vectors/\<close>: its entries, in the order the file system gives them.\<close>

definition listing :: "store_env \<Rightarrow> string \<Rightarrow> file_tree \<Rightarrow> string list \<Rightarrow> bool" where
  "listing env root t names \<longleftrightarrow>
     (\<exists>m. se_stat env (path_join root VECTORS_DIR) = Inr m \<and> fm_kind m = KDir) \<and>
     distinct names \<and> set names = dom t \<and> (\<forall>name\<in>set names. se_lossy env name = name) \<and>
     se_read_dir env (path_join root VECTORS_DIR) = Inr (map (\<lambda>name. Inr \<lparr>de_name = name, de_kind = Inr (the (t name))\<rparr>) names)"

definition is_generation_name :: "string \<Rightarrow> bool" where
  "is_generation_name name \<longleftrightarrow> parse_generation_dir name \<noteq> None"

definition debris_of :: "store_env \<Rightarrow> string \<Rightarrow> generation_debris_entry" where
  "debris_of env name = \<lparr>gd_path = vectors_entry name, gd_generation_id = parse_generation_debris_name name,
     gd_warning = debris_warning (se_json env) name (parse_generation_debris_name name)\<rparr>"

lemma scan_entries_exact:
  "\<forall>name\<in>set names. se_lossy env name = name \<Longrightarrow>
     scan_entries env vroot (map (\<lambda>name. Inr \<lparr>de_name = name, de_kind = Inr (kind name)\<rparr>) names) gens debris = Ok r \<longleftrightarrow>
       (\<forall>name\<in>set names. kind name \<noteq> KLink \<and> (is_generation_name name \<longrightarrow> kind name = KDir)) \<and>
       r = (gens @ map vectors_entry (filter is_generation_name names),
            debris @ map (debris_of env) (filter (\<lambda>name. \<not> is_generation_name name) names))"
proof (induction names arbitrary: gens debris)
  case (Cons name names)
  then have "se_lossy env name = name" by simp
  then show ?case using Cons.IH Cons.prems
    by (auto simp: lift_sum_def Let_def is_generation_name_def debris_of_def split: option.split)
qed auto

lemma scan_exact:
  assumes "listing env root t names"
  shows "scan_generation_directory env root = Ok s \<longleftrightarrow>
    (\<forall>name\<in>dom t. t name \<noteq> Some KLink \<and> (is_generation_name name \<longrightarrow> t name = Some KDir)) \<and>
    s = \<lparr>gs_generation_paths = sort (map vectors_entry (filter is_generation_name names)),
         gs_debris = sort_key gd_path (map (debris_of env) (filter (\<lambda>name. \<not> is_generation_name name) names))\<rparr>"
proof -
  obtain m where m: "se_stat env (path_join root VECTORS_DIR) = Inr m" "fm_kind m = KDir"
    using assms by (auto simp: listing_def)
  have names: "\<forall>name\<in>set names. se_lossy env name = name" "set names = dom t"
    using assms by (simp_all add: listing_def)
  have kinds: "(\<forall>name\<in>set names. the (t name) \<noteq> KLink \<and> (is_generation_name name \<longrightarrow> the (t name) = KDir)) \<longleftrightarrow>
      (\<forall>name\<in>dom t. t name \<noteq> Some KLink \<and> (is_generation_name name \<longrightarrow> t name = Some KDir))"
    unfolding names(2) by (intro ball_cong refl) auto
  have read: "se_read_dir env (path_join root VECTORS_DIR) = Inr (map (\<lambda>name. Inr \<lparr>de_name = name, de_kind = Inr (the (t name))\<rparr>) names)"
    using assms by (simp add: listing_def)
  show ?thesis
    unfolding kinds [symmetric]
    by (auto simp: scan_generation_directory_def Let_def m read lift_sum_def obind_eq_Ok scan_entries_exact [OF names(1)])
qed

lemma remove_effect:
  assumes "remove_generation_debris je lf rm root reg path t = (r, t')"
  shows "t' = t \<or> (\<exists>name. components path = [Normal VECTORS_DIR, Normal name] \<and> \<not> is_generation_name name \<and>
    t name \<noteq> Some KLink \<and> t' = t(name := None) \<and> require_writer_lock_held_by_current_process lf root reg = Ok ())"
proof (cases "t' = t")
  case False
  then obtain name where name: "require_writer_lock_held_by_current_process lf root reg = Ok ()" "debris_name je path = Ok name"
      "remove_entry rm root name t = (r, t')"
    using assms by (auto simp: remove_generation_debris_def obind_eq_Ok split: outcome.splits)
  have "components path = [Normal VECTORS_DIR, Normal name] \<and> \<not> is_generation_name name"
    using name(2) by (auto simp: debris_name_def obind_eq_Ok is_generation_name_def split: list.splits component.splits if_splits)
  then show ?thesis using name(1,3) False
    by (auto simp: remove_entry_def Let_def split: option.splits if_splits sum.splits)
qed simp

lemma remove_plain:
  assumes "plain_name name" and "\<not> is_generation_name name" and "t name \<noteq> Some KLink"
    and "require_writer_lock_held_by_current_process lf root reg = Ok ()"
    and "\<forall>path. rm_stat_fault rm path = None \<and> rm_remove rm path = Inr () \<and> rm_sync rm path = Inr ()"
  shows "remove_generation_debris je lf rm root reg (vectors_entry name) t = (Ok (), t(name := None))"
proof -
  have "debris_name je (vectors_entry name) = Ok name"
    using assms(1,2) vectors_entry_relative [OF assms(1)] vectors_entry_components [OF assms(1)]
    by (simp add: debris_name_def is_generation_name_def)
  then show ?thesis using assms(3-5)
    by (auto simp: remove_generation_debris_def remove_entry_def Let_def lift_sum_def split: option.split)
qed

lemma scan_names:
  assumes "listing env root t names" and "scan_generation_directory env root = Ok s"
  shows "set (gs_generation_paths s) = vectors_entry ` {name \<in> dom t. is_generation_name name}"
    and "gd_path ` set (gs_debris s) = vectors_entry ` {name \<in> dom t. \<not> is_generation_name name}"
    and "t name \<noteq> Some KLink"
    and "vectors_entry name \<in> gd_path ` set (gs_debris s) \<Longrightarrow> \<not> is_generation_name name"
proof -
  note scan = assms(2) [unfolded scan_exact [OF assms(1)]]
  have names: "set names = dom t" using assms(1) unfolding listing_def by blast
  show "t name \<noteq> Some KLink"
  proof
    assume "t name = Some KLink"
    then show False using bspec [OF conjunct1 [OF scan], of name] by (simp add: domI)
  qed
  show "set (gs_generation_paths s) = vectors_entry ` {name \<in> dom t. is_generation_name name}"
    unfolding conjunct2 [OF scan] by (simp add: names)
  show debris: "gd_path ` set (gs_debris s) = vectors_entry ` {name \<in> dom t. \<not> is_generation_name name}"
    unfolding conjunct2 [OF scan] by (simp add: names image_image debris_of_def)
  show "\<not> is_generation_name name" if "vectors_entry name \<in> gd_path ` set (gs_debris s)"
    using that unfolding debris by (auto simp: vectors_entry_inj)
qed

lemma remove_spares:
  assumes "is_generation_name name"
  shows "snd (remove_generation_debris je lf rm root reg path t) name = t name"
proof -
  obtain r t' where r: "remove_generation_debris je lf rm root reg path t = (r, t')" by fastforce
  show ?thesis using remove_effect [OF r] assms r by auto
qed

section \<open>Entry points\<close>

lemma acquire_registry:
  assumes "acquire lf root reg = (r, reg')"
  shows "(\<forall>key. r = Ok key \<longrightarrow> key \<notin> lr_held reg \<and> lf_try_lock lf key = Granted \<and> \<not> lr_poisoned reg \<and>
      release_writer_lock_registration key reg' = reg) \<and> (\<not> is_ok r \<longrightarrow> reg' = reg) \<and> r \<noteq> Panic"
proof -
  have undo: "release_writer_lock_registration path reg1 = reg" if "reserve_writer_lock_registration path reg = Ok reg1" for path reg1
    using that by (auto simp: reserve_Ok release_writer_lock_registration_def held_writer_locks_def)
  have quiet: "lock_and_stamp lf a b \<noteq> Panic" "acquire_path lf a \<noteq> Panic" "reserve_writer_lock_registration b reg \<noteq> Panic" for a b
    by (auto simp: lock_and_stamp_def acquire_path_def lift_sum_def check_lock_kind_def obind_eq_Panic Let_def
        reserve_writer_lock_registration_def held_writer_locks_def split: try_lock.splits sum.splits if_splits)
  have granted: "lf_try_lock lf path = Granted" if "lock_and_stamp lf a path = Ok u" for a path u
    using that by (auto simp: lock_and_stamp_def obind_eq_Ok split: try_lock.splits)
  show ?thesis
    using assms quiet undo granted by (auto simp: acquire_def reserve_Ok split: outcome.splits prod.splits)
qed

lemma with_writer_lock_sound:
  assumes "with_writer_lock ee root op w = (r, w')"
  shows "sw_registry w' = sw_registry w \<and> sw_tree w \<subseteq>\<^sub>m sw_tree w' \<and>
    (sw_file w' \<noteq> sw_file w \<or> is_ok r \<longrightarrow>
       op (sw_file w) = (r, sw_file w') \<and> (\<forall>p\<in>set (root_paths root). sw_tree w' p = Some KDir) \<and>
       (\<exists>key. key \<notin> lr_held (sw_registry w) \<and> lf_try_lock (ee_lock ee) key = Granted))"
proof -
  obtain r1 t where t: "ensure_adapter_root_directory (ee_root ee) root (sw_tree w) = (r1, t)" by fastforce
  note tree = ensure_components_sound [OF t [unfolded ensure_adapter_root_directory_def], folded root_paths_def]
  obtain r2 reg where reg: "acquire (ee_lock ee) root (sw_registry w) = (r2, reg)" by fastforce
  obtain r3 f where f: "op (sw_file w) = (r3, f)" by fastforce
  show ?thesis
    using assms tree acquire_registry [OF reg] f t reg
    by (cases r1; cases r2) (auto simp: with_writer_lock_def)
qed

lemma with_existing_lock_sound:
  assumes "with_existing_lock ee root op w = (r, w')"
  shows "sw_registry w' = sw_registry w \<and> sw_tree w \<subseteq>\<^sub>m sw_tree w' \<and>
    (sw_file w' \<noteq> sw_file w \<or> is_ok r \<longrightarrow>
       op (sw_file w) = (r, sw_file w') \<and> (\<forall>p\<in>set (root_paths root). sw_tree w' p = Some KDir) \<and>
       (\<exists>key. key \<in> lr_held (sw_registry w)))"
proof -
  obtain r1 t where t: "ensure_adapter_root_directory (ee_root ee) root (sw_tree w) = (r1, t)" by fastforce
  note tree = ensure_components_sound [OF t [unfolded ensure_adapter_root_directory_def], folded root_paths_def]
  obtain r3 f where f: "op (sw_file w) = (r3, f)" by fastforce
  have held: "\<exists>key. key \<in> lr_held (sw_registry w)"
    if "require_writer_lock_held_by_current_process (ee_lock ee) root (sw_registry w) = Ok u" for u
    using that by (auto simp: require_writer_lock_held_by_current_process_def held_writer_locks_def obind_eq_Ok Let_def split: if_splits)
  show ?thesis
    using assms tree f t held
    by (cases r1; cases "require_writer_lock_held_by_current_process (ee_lock ee) root (sw_registry w)")
      (auto simp: with_existing_lock_def)
qed

section \<open>Properties\<close>

text \<open>
  C37. The check of an adapter root changes nothing that exists and creates only along the path of the
  root; when it succeeds, every step of the path is a directory and none a symlink.
\<close>

theorem root_is_directories:
  assumes "ensure_adapter_root_directory re root t = (r, t')"
  shows "t \<subseteq>\<^sub>m t' \<and> dom t' \<subseteq> dom t \<union> set (root_paths root) \<and> r \<noteq> Panic \<and>
    (r = Ok () \<longrightarrow> (\<forall>p\<in>set (root_paths root). t' p = Some KDir))"
  using ensure_components_sound [OF assms [unfolded ensure_adapter_root_directory_def]] by (simp add: root_paths_def)

theorem root_is_directories_witness:
  "\<exists>t. ensure_adapter_root_directory \<lparr>re_stat_fault = (\<lambda>_. None), re_create = (\<lambda>_. CreateDone)\<rparr> ''/a/b'' [''/a'' \<mapsto> KDir] = (Ok (), t) \<and>
     t ''/a/b'' = Some KDir"
proof -
  let ?re = "\<lparr>re_stat_fault = (\<lambda>_. None), re_create = (\<lambda>_. CreateDone)\<rparr>"
  have run: "ensure_adapter_root_directory ?re ''/a/b'' [''/a'' \<mapsto> KDir] = (Ok (), [''/a'' \<mapsto> KDir, ''/a/b'' \<mapsto> KDir])"
    by (simp add: ensure_adapter_root_directory_def components_def is_absolute_def Let_def path_join_def
        ensure_adapter_root_component.simps)
  have "''/a/b'' \<in> set (root_paths ''/a/b'')"
    by (simp add: root_paths_def components_def is_absolute_def Let_def path_join_def)
  then show ?thesis using root_is_directories [OF run] run by blast
qed

text \<open>
  C38. A scan of \<open>vectors/\<close> sorts every entry into generations or debris, by name; removing debris never
  touches an entry with the name of a generation, and it removes exactly the debris entry it is given,
  if its name has no backslash.
\<close>

theorem debris_reclaimed:
  assumes "listing env root t names" and "scan_generation_directory env root = Ok s"
    and "require_writer_lock_held_by_current_process lf root reg = Ok ()"
    and "\<forall>path. rm_stat_fault rm path = None \<and> rm_remove rm path = Inr () \<and> rm_sync rm path = Inr ()"
  shows "set (gs_generation_paths s) = vectors_entry ` {name \<in> dom t. is_generation_name name} \<and>
    gd_path ` set (gs_debris s) = vectors_entry ` {name \<in> dom t. \<not> is_generation_name name} \<and>
    (\<forall>path name. is_generation_name name \<longrightarrow> snd (remove_generation_debris je lf rm root reg path t) name = t name) \<and>
    (\<forall>name. vectors_entry name \<in> gd_path ` set (gs_debris s) \<longrightarrow> plain_name name \<longrightarrow>
       remove_generation_debris je lf rm root reg (vectors_entry name) t = (Ok (), t(name := None)))"
proof (intro conjI allI impI)
  show "set (gs_generation_paths s) = vectors_entry ` {name \<in> dom t. is_generation_name name}"
    by (rule scan_names(1) [OF assms(1,2)])
  show "gd_path ` set (gs_debris s) = vectors_entry ` {name \<in> dom t. \<not> is_generation_name name}"
    by (rule scan_names(2) [OF assms(1,2)])
  show "snd (remove_generation_debris je lf rm root reg path t) name = t name" if "is_generation_name name" for path name
    by (rule remove_spares [OF that])
  show "remove_generation_debris je lf rm root reg (vectors_entry name) t = (Ok (), t(name := None))"
    if "vectors_entry name \<in> gd_path ` set (gs_debris s)" "plain_name name" for name
    by (rule remove_plain [OF that(2) scan_names(4) [OF assms(1,2) that(1)] scan_names(3) [OF assms(1,2)] assms(3,4)])
qed

section \<open>Witnesses\<close>

definition ex_lock :: lock_file_env where
  "ex_lock = \<lparr>lf_canonicalize = Inr, lf_stat = (\<lambda>_. Inr KFile), lf_open = (\<lambda>_. Inr ()), lf_try_lock = (\<lambda>_. Granted),
     lf_stamp = (\<lambda>_. Inr ()), lf_sync_directory = (\<lambda>_. Inr ())\<rparr>"

definition ex_vectors :: file_tree where
  "ex_vectors = [''g000000000002.odb'' \<mapsto> KDir, ''.old'' \<mapsto> KFile]"

definition ex_vectors_env :: store_env where
  "ex_vectors_env = ex_env\<lparr>se_stat := (\<lambda>_. Inr \<lparr>fm_kind = KDir, fm_len = 0\<rparr>),
     se_read_dir := (\<lambda>_. Inr [Inr \<lparr>de_name = ''.old'', de_kind = Inr KFile\<rparr>, Inr \<lparr>de_name = ''g000000000002.odb'', de_kind = Inr KDir\<rparr>])\<rparr>"

theorem debris_reclaimed_witness:
  "\<exists>s. scan_generation_directory ex_vectors_env ''s'' = Ok s \<and> set (gs_generation_paths s) = {''vectors/g000000000002.odb''} \<and>
     remove_generation_debris plain_json ex_lock \<lparr>rm_stat_fault = (\<lambda>_. None), rm_remove = (\<lambda>_. Inr ()), rm_sync = (\<lambda>_. Inr ())\<rparr> ''s''
       \<lparr>lr_poisoned = False, lr_held = {''s/.ordinaldb.write.lock''}\<rparr> ''vectors/.old'' ex_vectors = (Ok (), ex_vectors(''.old'' := None))"
proof -
  let ?rm = "\<lparr>rm_stat_fault = (\<lambda>_. None), rm_remove = (\<lambda>_. Inr ()), rm_sync = (\<lambda>_. Inr ())\<rparr> :: removal_env"
  let ?reg = "\<lparr>lr_poisoned = False, lr_held = {''s/.ordinaldb.write.lock''}\<rparr>"
  have names: "is_generation_name ''g000000000002.odb''" "\<not> is_generation_name ''.old''"
  proof -
    have "generation_dir 2 = ''g000000000002.odb''" by code_simp
    then have "parse_generation_dir ''g000000000002.odb'' = Some 2" by (simp add: parse_generation_dir_Some)
    then show "is_generation_name ''g000000000002.odb''" by (simp add: is_generation_name_def)
    show "\<not> is_generation_name ''.old''" by (simp add: is_generation_name_def parse_generation_dir_def strip_prefix_def)
  qed
  have list: "listing ex_vectors_env ''s'' ex_vectors [''.old'', ''g000000000002.odb'']"
    by (auto simp: listing_def ex_vectors_env_def ex_env_def ex_vectors_def)
  have kinds: "\<forall>name\<in>dom ex_vectors. ex_vectors name \<noteq> Some KLink \<and> (is_generation_name name \<longrightarrow> ex_vectors name = Some KDir)"
    using names by (simp add: ex_vectors_def)
  obtain s where s: "scan_generation_directory ex_vectors_env ''s'' = Ok s"
    using scan_exact [OF list] kinds by blast
  have held: "require_writer_lock_held_by_current_process ex_lock ''s'' ?reg = Ok ()"
    by (simp add: require_writer_lock_held_by_current_process_def ex_lock_def lift_sum_def check_lock_kind_def held_writer_locks_def
        path_join_def is_absolute_def WRITE_LOCK_FILE_def)
  have calls: "\<forall>path. rm_stat_fault ?rm path = None \<and> rm_remove ?rm path = Inr () \<and> rm_sync ?rm path = Inr ()" by simp
  note all = debris_reclaimed [OF list s held calls, of plain_json]
  have dom: "{name \<in> dom ex_vectors. is_generation_name name} = {''g000000000002.odb''}"
      "{name \<in> dom ex_vectors. \<not> is_generation_name name} = {''.old''}"
    using names by (auto simp: ex_vectors_def)
  have gens: "set (gs_generation_paths s) = {''vectors/g000000000002.odb''}"
    using conjunct1 [OF all] unfolding dom by (simp add: vectors_entry_def VECTORS_DIR_def)
  have old: "vectors_entry ''.old'' \<in> gd_path ` set (gs_debris s)"
    using conjunct1 [OF conjunct2 [OF all]] unfolding dom by simp
  have plain: "plain_name ''.old''" by (simp add: plain_name_def backslash_def char_of_def)
  have "remove_generation_debris plain_json ex_lock ?rm ''s'' ?reg (vectors_entry ''.old'') ex_vectors = (Ok (), ex_vectors(''.old'' := None))"
    using conjunct2 [OF conjunct2 [OF conjunct2 [OF all]]] old plain by blast
  then show ?thesis using s gens by (intro exI [of _ s]) (simp add: vectors_entry_def VECTORS_DIR_def)
qed


end
