(* ===== verification/StoreAccess.thy ===== *)
theory StoreAccess
  imports StoreRuns
begin

text \<open>
  The accessors of an open store (\<open>VerifiedAdapterStore\<close> in \<open>ordinaldb-adapter-store/src/lib.rs\<close>): each reads a
  field of the manifest, and is absent when the field is absent or of another type. For a store that an
  open accepted they agree with its payloads and with its active generation.
\<close>

section \<open>Accessors\<close>

definition vs_string :: "verified_store \<Rightarrow> string \<Rightarrow> string option" where
  "vs_string vs field = Option.bind (jget (vs_manifest vs) field) as_str"

definition vs_number :: "verified_store \<Rightarrow> string \<Rightarrow> u64 option" where
  "vs_number vs field = Option.bind (jget (vs_manifest vs) field) as_u64"

definition vs_adapter_name :: "verified_store \<Rightarrow> string option" where
  "vs_adapter_name vs = vs_string vs ''adapter_name''"

text \<open>\<open>u8::try_from\<close> of a \<open>u64\<close>; \<open>usize::try_from\<close> does not fail on the 64-bit targets.\<close>

definition vs_bits :: "verified_store \<Rightarrow> u8 option" where
  "vs_bits vs = Option.bind (vs_number vs ''bits'') (\<lambda>n. if unat n < 256 then Some (ucast n) else None)"

definition vs_dim :: "verified_store \<Rightarrow> nat option" where
  "vs_dim vs = map_option unat (vs_number vs ''dim'')"

definition vs_vector_count :: "verified_store \<Rightarrow> nat option" where
  "vs_vector_count vs = map_option unat (vs_number vs ''vector_count'')"

definition vs_empty_lazy :: "verified_store \<Rightarrow> bool" where
  "vs_empty_lazy vs = (case Option.bind (jget (vs_manifest vs) ''empty_lazy'') as_bool of Some b \<Rightarrow> b | None \<Rightarrow> False)"

definition vs_active_generation_id :: "verified_store \<Rightarrow> u64 option" where
  "vs_active_generation_id vs = vs_number vs ''active_generation_id''"

definition vs_active_generation_path :: "verified_store \<Rightarrow> string option" where
  "vs_active_generation_path vs = vs_string vs ''active_generation_path''"

definition vs_active_generation_manifest_sha256 :: "verified_store \<Rightarrow> string option" where
  "vs_active_generation_manifest_sha256 vs = vs_string vs ''active_generation_manifest_sha256''"

definition vs_active_generation_manifest_size_bytes :: "verified_store \<Rightarrow> u64 option" where
  "vs_active_generation_manifest_size_bytes vs = vs_number vs ''active_generation_manifest_size_bytes''"

lemmas vs_accessor_defs =
  vs_string_def vs_number_def vs_adapter_name_def vs_bits_def vs_dim_def vs_vector_count_def vs_empty_lazy_def
  vs_active_generation_id_def vs_active_generation_path_def vs_active_generation_manifest_sha256_def
  vs_active_generation_manifest_size_bytes_def

section \<open>Agreement with the payloads\<close>

lemma small_bits: "unat (ucast (b :: u8) :: u64) = unat b" "ucast (ucast (b :: u8) :: u64) = b"
proof -
  have "unat b < 2 ^ 64" using unsigned_less [where ?'a = nat, of b] by simp
  then show "unat (ucast b :: u64) = unat b" by (simp add: unsigned_ucast_eq take_bit_nat_eq_self)
  then have "unat (ucast (ucast b :: u64) :: u8) = unat b"
    using unsigned_less [where ?'a = nat, of b] by (simp add: unsigned_ucast_eq [of "ucast b :: u64"] take_bit_nat_eq_self)
  then show "ucast (ucast b :: u64) = b" by (rule unsigned_word_eqI)
qed

lemma payload_accessors:
  assumes "verify_manifest_payloads (vs_manifest vs) p = Ok ()"
  shows "vs_adapter_name vs = Some (pp_adapter_name p)" and "vs_bits vs = Some (pp_bits p)"
    and "vs_dim vs = map_option unat (pp_dim p)" and "vs_empty_lazy vs = pp_empty_lazy p"
proof -
  have byte: "unat (pp_bits p) < 256" using unsigned_less [where ?'a = nat, of "pp_bits p"] by simp
  show "vs_adapter_name vs = Some (pp_adapter_name p)" "vs_empty_lazy vs = pp_empty_lazy p"
    using assms by (auto simp: verify_manifest_payloads_def outcome_simps vs_accessor_defs required_string_def required_bool_def
        split: if_splits)
  have "vs_number vs ''bits'' = Some (ucast (pp_bits p))"
    using assms by (auto simp: verify_manifest_payloads_def outcome_simps vs_number_def required_u64_def split: if_splits)
  then show "vs_bits vs = Some (pp_bits p)" using byte by (simp add: vs_bits_def small_bits)
  show "vs_dim vs = map_option unat (pp_dim p)"
  proof -
    have "\<exists>v. jget (vs_manifest vs) ''dim'' = Some v \<and> (v = JNull \<and> pp_dim p = None \<or> as_u64 v = pp_dim p \<and> pp_dim p \<noteq> None)"
    proof (cases "jget (vs_manifest vs) ''dim''")
      case (Some v)
      then show ?thesis using assms
        by (cases v; cases "pp_dim p") (auto simp: verify_manifest_payloads_def outcome_simps split: if_splits)
    qed (use assms in \<open>auto simp: verify_manifest_payloads_def outcome_simps split: if_splits\<close>)
    then show ?thesis by (auto simp: vs_accessor_defs)
  qed
qed

lemma generation_accessors:
  assumes "verify_manifest_generation (vs_manifest vs) g = Ok ()"
  shows "vs_active_generation_id vs = Some (g_id g)" and "vs_active_generation_path vs = Some (g_path g)"
    and "vs_vector_count vs = Some (unat (g_vector_count g))"
    and "\<not> g_empty_lazy g \<Longrightarrow> vs_active_generation_manifest_sha256 vs = g_manifest_sha256 g \<and>
      vs_active_generation_manifest_size_bytes vs = Some (case g_manifest_size_bytes g of None \<Rightarrow> 0 | Some b \<Rightarrow> b)"
  using assms
  by (auto simp: verify_manifest_generation_def outcome_simps vs_accessor_defs required_string_def required_u64_def split: if_splits)

lemma open_active_path:
  assumes "redb_ok rd view" and "sorted_view (view db)" and "orders_ok (se_orders env)"
    and "open_verified env rd root e (StoreDb db) = Ok vs"
    and "parse_payloads (se_json env) (se_orders env) (vs_payloads vs) = Ok p" and "\<not> pp_empty_lazy p"
  shows "vs_active_generation_path vs = Some (pp_index_path p)"
proof -
  obtain q g where st: "verified_state env root e None (view db) vs q g" using open_verified_state [OF assms(1-4)] by blast
  then have "q = p" using assms(5) by (simp add: verified_state_def)
  then have "g_path g = pp_index_path p" using st assms(6) by (auto simp: verified_state_def validate_against_generation_def split: if_splits)
  moreover have "vs_active_generation_path vs = Some (g_path g)" using st generation_accessors(2) by (simp add: verified_state_def)
  ultimately show ?thesis by simp
qed

text \<open>
  C0. The accessors of a store that opened: name, width, dimension and \<open>empty_lazy\<close> are those of the
  payloads and none is missing, the width is 1, 2 or 4, the number of vectors is the number of active
  identifiers, and an \<open>empty_lazy\<close> store has no dimension, no vectors, and generation 0 with an empty path.
\<close>

theorem accessors_describe_store:
  assumes "redb_ok rd view" and "sorted_view (view db)" and "orders_ok (se_orders env)"
    and "open_verified env rd root e (StoreDb db) = Ok vs"
  shows "\<exists>p. parse_payloads (se_json env) (se_orders env) (vs_payloads vs) = Ok p \<and>
    vs_adapter_name vs = Some (pp_adapter_name p) \<and> vs_bits vs = Some (pp_bits p) \<and> pp_bits p \<in> {1, 2, 4} \<and>
    vs_dim vs = map_option unat (pp_dim p) \<and> vs_empty_lazy vs = pp_empty_lazy p \<and>
    vs_vector_count vs = Some (length (pp_string_to_u64 p)) \<and>
    (if vs_empty_lazy vs then vs_dim vs = None \<and> vs_vector_count vs = Some 0 \<and> vs_active_generation_id vs = Some 0 \<and>
       vs_active_generation_path vs = Some []
     else vs_active_generation_path vs = Some (pp_index_path p) \<and> vs_active_generation_manifest_sha256 vs \<noteq> None \<and>
       vs_active_generation_manifest_size_bytes vs \<noteq> None)"
proof -
  obtain p g where st: "verified_state env root e None (view db) vs p g" and ok: "payloads_ok p"
    using open_verified_state [OF assms] by blast
  have payload: "verify_manifest_payloads (vs_manifest vs) p = Ok ()" and gen: "verify_manifest_generation (vs_manifest vs) g = Ok ()"
    and agree: "validate_against_generation p g = Ok ()" and ck: "active_generation_checkpoint env root p None = Ok g"
    using st by (simp_all add: verified_state_def)
  note a = payload_accessors [OF payload] generation_accessors [OF gen]
  show ?thesis
  proof (cases "pp_empty_lazy p")
    case True
    then have "g_id g = 0" "g_path g = []" "g_vector_count g = 0" using ck by (auto simp: active_generation_checkpoint_def outcome_simps)
    moreover have "pp_dim p = None" "pp_string_to_u64 p = []"
      using agree True by (auto simp: validate_against_generation_def split: if_splits)
    ultimately show ?thesis using st a(1-7) ok True by (simp add: verified_state_def payloads_ok_def)
  next
    case False
    then have "\<not> g_empty_lazy g" "g_path g = pp_index_path p" "length (pp_string_to_u64 p) = unat (g_vector_count g)"
      using agree by (auto simp: validate_against_generation_def split: if_splits)
    moreover have "g_manifest_sha256 g \<noteq> None"
      using ck False by (auto simp: active_generation_checkpoint_def outcome_simps split: if_splits)
    ultimately show ?thesis using st a ok False by (simp add: verified_state_def payloads_ok_def)
  qed
qed

text \<open>The store of the example, after a second snapshot.\<close>

lemma ex_open:
  obtains vs w where "open_verified ex_env plain_redb ''s'' None (StoreDb w) = Ok vs" and "sorted_view w" and "orders_ok (se_orders ex_env)"
    and "ex_run (StoreDb w) (Some vs) w 2"
proof -
  obtain vs w where run: "ex_run (StoreDb w) (Some vs) w 2" by (rule ex_second)
  then have store: "ex_store (StoreDb w) (Some vs) w" by (simp add: ex_run_def)
  have "open_verified ex_env plain_redb ''s'' None (StoreDb w) = Ok vs"
    using ex_allowed [OF store] by (simp add: open_verified_def)
  moreover have "sorted_view w" using store by (simp add: ex_store_def)
  moreover have "orders_ok (se_orders ex_env)" by (simp add: ex_env_def plain_orders_ok)
  ultimately show thesis using that run by blast
qed

theorem accessors_describe_store_witness:
  "\<exists>vs w (p :: parsed_payloads). open_verified ex_env plain_redb ''s'' None (StoreDb w) = Ok vs \<and> vs_bits vs = Some (pp_bits p) \<and>
     vs_vector_count vs = Some (length (pp_string_to_u64 p))"
proof -
  obtain vs w where ex: "open_verified ex_env plain_redb ''s'' None (StoreDb w) = Ok vs" "sorted_view (id w)" "orders_ok (se_orders ex_env)"
    by (rule ex_open) simp
  obtain p :: parsed_payloads where "vs_bits vs = Some (pp_bits p)" "vs_vector_count vs = Some (length (pp_string_to_u64 p))"
    using accessors_describe_store [OF plain_redb_ok ex(2,3,1)] by blast
  then show ?thesis using ex(1) by (intro exI conjI)
qed

end
