(* ===== verification/GcQueue.thy ===== *)
theory GcQueue
  imports StoreAccess
begin

text \<open>
  The garbage-collection queue of an adapter store (\<open>record_generation_gc\<close> and \<open>generation_gc_events\<close> in
  \<open>ordinaldb-adapter-store/src/lib.rs\<close>): what recording updates does to the queue, and what reading it
  returns.
\<close>

section \<open>The queue\<close>

definition queue_rows :: "db_view \<Rightarrow> (u64 \<times> string) list" where
  "queue_rows v = rows_of (dv_us v GC_QUEUE)"

text \<open>Row numbers do not exceed the number of rows, as in a queue that only this crate has written.\<close>

definition queue_fits :: "db_view \<Rightarrow> bool" where
  "queue_fits v \<longleftrightarrow> btree_ok (queue_rows v) \<and> (\<forall>k\<in>keys_of (queue_rows v). unat k \<le> length (queue_rows v))"

definition queue_events :: "json_env \<Rightarrow> db_view \<Rightarrow> (store_error, generation_gc_event list) outcome" where
  "queue_events je v = parse_gc_rows je (map Ok (queue_rows v))"

lemma parse_gc_rows_append:
  "parse_gc_rows je (map Ok (xs @ ys)) =
     obind (parse_gc_rows je (map Ok xs)) (\<lambda>es. obind (parse_gc_rows je (map Ok ys)) (\<lambda>es'. Ok (es @ es')))"
proof (induction xs)
  case Nil
  then show ?case by (cases "parse_gc_rows je (map Ok ys)") simp_all
qed (auto simp: obind_assoc outcome_simps split: prod.splits)

text \<open>Rows with keys above those of a table come after them.\<close>

lemma btree_entry_last: "\<forall>x\<in>fst ` set m. x < k \<Longrightarrow> btree_entry k d f m = m @ [(k, f d)]"
  by (induction m) auto

lemma btree_inserts_last:
  "btree_ok rows \<Longrightarrow> \<forall>x\<in>keys_of m. \<forall>k\<in>keys_of rows. x < k \<Longrightarrow> btree_inserts rows m = m @ rows"
proof (induction rows arbitrary: m)
  case (Cons r rows)
  obtain k v where r: "r = (k, v)" by fastforce
  have "btree_insert k v m = m @ [(k, v)]"
    using Cons.prems(2) btree_entry_last [of m k v "\<lambda>_. v"] by (simp add: r btree_insert_def keys_of_def)
  moreover have "btree_inserts rows (m @ [(k, v)]) = (m @ [(k, v)]) @ rows"
    using Cons.prems by (intro Cons.IH) (auto simp: r btree_ok_def keys_of_def)
  ultimately show ?case by (simp add: r)
qed simp

section \<open>The rows of an update\<close>

lemma gc_row_key:
  assumes "gc_row env n (idx, update) = Ok (k, s)" and "idx \<le> u64_max"
  shows "unat k = unat n + idx + 1"
proof -
  obtain m where m: "checked_inc n (of_nat idx) = Some m" "checked_inc m 1 = Some k"
    using assms(1) by (auto simp: gc_row_def outcome_simps bind_eq_Some_conv)
  have "unat (of_nat idx :: u64) = idx" using assms(2) by (simp add: unat_of_nat u64_max_def)
  moreover have "unat (n + of_nat idx) = unat n + unat (of_nat idx :: u64)"
    using m(1) by (auto simp: checked_inc_def u64_max_def unat_word_ariths split: if_splits)
  ultimately have "unat m = unat n + idx" using m(1) by (auto simp: checked_inc_def split: if_splits)
  then show ?thesis using checked_inc_unat [OF m(2)] by simp
qed

text \<open>A row that is written is read back.\<close>

lemma parse_written_row:
  assumes je: "json_text (se_json env)" and row: "gc_row env n (idx, update) = Ok (k, s)" and valid: "validate_gc_update update = Ok ()"
  shows "\<exists>e. parse_gc_row (se_json env) k s = Ok e \<and> ge_update e = update \<and> ge_row_id e = k"
proof -
  obtain recorded where at: "now_json env (1 + idx) = Ok recorded"
      and s: "s = je_print (se_json env) (jobject [(''generation_id'', jopt jnum (gc_generation_id update)), (''path'', JString (gc_path update)),
         (''state'', JString (gc_state update)), (''reason'', JString (gc_reason update)), (''recorded_at_unix_ms'', recorded)])"
    using row by (auto simp: gc_row_def gc_update_json_def outcome_simps)
  let ?v = "jobject [(''generation_id'', jopt jnum (gc_generation_id update)), (''path'', JString (gc_path update)),
         (''state'', JString (gc_state update)), (''reason'', JString (gc_reason update)), (''recorded_at_unix_ms'', recorded)]"
  obtain t where t: "recorded = jnum t" using at by (auto simp: now_json_def split: if_splits)
  define v where "v = ?v"
  have "json_ok ?v"
    by (rule jobject_ok) (simp add: t entries_values_ok jopt_def split: option.split)
  then have parsed: "parse_json_object (se_json env) s name = Ok v" for name
    using parse_printed [OF je] unfolding s v_def jobject_def by blast
  have get: "jget v ''generation_id'' = Some (jopt jnum (gc_generation_id update))" "jget v ''path'' = Some (JString (gc_path update))"
      "jget v ''state'' = Some (JString (gc_state update))" "jget v ''reason'' = Some (JString (gc_reason update))"
      "jget v ''recorded_at_unix_ms'' = Some (jnum t)"
    by (simp_all add: v_def t)
  have fields: "optional_u64 v ''generation_id'' = Ok (gc_generation_id update)" "optional_u64 v ''recorded_at_unix_ms'' = Ok (Some t)"
      "required_string v ''path'' = Ok (gc_path update)" "required_string v ''state'' = Ok (gc_state update)"
      "required_string v ''reason'' = Ok (gc_reason update)"
    by (simp_all add: get optional_u64_def jopt_def jnum_def split: option.split)
  have eta: "\<lparr>gc_generation_id = gc_generation_id update, gc_path = gc_path update, gc_state = gc_state update,
      gc_reason = gc_reason update\<rparr> = update" by simp
  show ?thesis unfolding parse_gc_row_def parsed obind.simps fields Let_def eta using valid by simp
qed

lemma validate_gc_updates_Ok: "validate_gc_updates us = Ok () \<longleftrightarrow> (\<forall>u\<in>set us. validate_gc_update u = Ok ())"
  by (induction us) (auto simp: outcome_simps)

lemma written_rows:
  assumes je: "json_text (se_json env)" and rows: "traverse (gc_row env n) (enumerate i updates) = Ok rows"
    and valid: "\<forall>u\<in>set updates. validate_gc_update u = Ok ()" and small: "i + length updates \<le> u64_max"
  shows "(\<exists>es. parse_gc_rows (se_json env) (map Ok rows) = Ok es \<and> map ge_update es = updates) \<and>
    map (unat \<circ> fst) rows = [unat n + i + 1..<unat n + i + 1 + length updates]"
  using rows valid small
proof (induction updates arbitrary: i rows)
  case (Cons u updates)
  obtain k s rest where r: "gc_row env n (i, u) = Ok (k, s)" "traverse (gc_row env n) (enumerate (Suc i) updates) = Ok rest"
      "rows = (k, s) # rest"
    using Cons.prems(1) by (auto simp: outcome_simps)
  have "(\<exists>es. parse_gc_rows (se_json env) (map Ok rest) = Ok es \<and> map ge_update es = updates) \<and>
      map (unat \<circ> fst) rest = [unat n + Suc i + 1..<unat n + Suc i + 1 + length updates]"
    using Cons.prems(2,3) by (intro Cons.IH [OF r(2)]) simp_all
  moreover have "unat k = unat n + i + 1" using Cons.prems(3) by (intro gc_row_key [OF r(1)]) simp
  moreover have "validate_gc_update u = Ok ()" using Cons.prems(2) by simp
  then obtain e where "parse_gc_row (se_json env) k s = Ok e" "ge_update e = u"
    using parse_written_row [OF je r(1)] by blast
  moreover have "[unat n + i + 1..<unat n + i + 1 + length (u # updates)] =
      (unat n + i + 1) # [unat n + Suc i + 1..<unat n + Suc i + 1 + length updates]" by (simp add: upt_conv_Cons del: upt_Suc)
  ultimately show ?case by (auto simp: r(3) comp_def simp del: upt_Suc)
qed simp

lemma queue_extended:
  assumes je: "json_text (se_json env)" and rows: "traverse (gc_row env n) (enumerate 0 updates) = Ok rows"
    and valid: "validate_gc_updates updates = Ok ()" and small: "length updates \<le> u64_max"
    and fits: "queue_fits v" and n: "unat n = length (queue_rows v)"
  shows "\<exists>es. parse_gc_rows (se_json env) (map Ok rows) = Ok es \<and> map ge_update es = updates \<and> length rows = length updates \<and>
    btree_inserts rows (queue_rows v) = queue_rows v @ rows \<and> btree_ok (queue_rows v @ rows) \<and>
    (\<forall>k\<in>keys_of rows. length (queue_rows v) < unat k \<and> unat k \<le> length (queue_rows v) + length updates)"
proof -
  obtain es where es: "parse_gc_rows (se_json env) (map Ok rows) = Ok es" "map ge_update es = updates"
      and keys: "map (unat \<circ> fst) rows = [unat n + 1..<unat n + 1 + length updates]"
    using written_rows [OF je rows] valid small by (auto simp: validate_gc_updates_Ok)
  have asc: "btree_ok rows"
  proof -
    have "sorted_wrt (<) (map (unat \<circ> fst) rows)" unfolding keys by (simp del: upt_Suc)
    then show ?thesis by (simp add: btree_ok_def sorted_wrt_map word_less_nat_alt comp_def)
  qed
  have bounds: "length (queue_rows v) < unat k \<and> unat k \<le> length (queue_rows v) + length updates" if "k \<in> keys_of rows" for k
  proof -
    have "unat k \<in> set (map (unat \<circ> fst) rows)" using that by (auto simp: keys_of_def)
    then show ?thesis unfolding keys using n by auto
  qed
  have above: "\<forall>x\<in>keys_of (queue_rows v). \<forall>k\<in>keys_of rows. x < k"
    using fits bounds by (fastforce simp: queue_fits_def word_less_nat_alt)
  have "length rows = length updates" using arg_cong [OF keys, of length] by (simp del: upt_Suc)
  moreover have "btree_ok (queue_rows v @ rows)"
    using fits asc above by (auto simp: queue_fits_def btree_ok_def sorted_wrt_append keys_of_def)
  ultimately show ?thesis using es bounds btree_inserts_last [OF asc above] by blast
qed

section \<open>Recording updates\<close>

lemma plan_gc_Ok:
  assumes "plan_gc env rd root expected updates f = Ok plan"
  shows "\<exists>current. open_verified_at_store_file env rd root None None f = Ok current \<and> validate_gc_updates updates = Ok () \<and>
    verify_expected_revision (se_json env) (Some current) expected = Ok () \<and> length updates \<le> u64_max \<and>
    manifest_table_count (vs_manifest current) ''gc_queue'' = Ok (gp_previous_gc_count plan)"
  using assms by (auto simp: plan_gc_def outcome_simps dest!: current_Some split: if_splits)

context engine
begin

lemma queue_count:
  assumes opened: "open_verified_at_store_file env rd root None a (StoreDb db) = Ok vs"
    and sorted: "sorted_view (view db)" and ho: "orders_ok (se_orders env)"
    and n: "manifest_table_count (vs_manifest vs) ''gc_queue'' = Ok n"
  shows "unat n = length (queue_rows (view db))"
proof -
  have "verify_database env rd root None a db = Ok vs" using open_StoreDb [OF opened] by auto
  then have "verify_database env plain_redb root None a (view db) = Ok vs" by (rule sim_eqD [OF sim_verify_database [OF ok]])
  then obtain p g where "verified_state env root None a (view db) vs p g" using verify_database_plain [OF sorted ho] by blast
  then have "counts_hold (view db) (vs_manifest vs)" by (simp add: verified_state_def)
  then show ?thesis using n
    by (auto simp: counts_hold_def stored_counts_def manifest_table_count_def outcome_simps queue_rows_def jnum_def)
qed

lemma record_appends:
  assumes je: "json_text (se_json env)" and ho: "orders_ok (se_orders env)" and sorted: "sorted_view (view db)"
    and fits: "queue_fits (view db)" and updates: "updates \<noteq> []"
    and run: "record_generation_gc_inner env rd root expected updates (StoreDb db) = (Ok vs, f')"
  shows "\<exists>db' rows es. f' = StoreDb db' \<and> queue_rows (view db') = queue_rows (view db) @ rows \<and>
    parse_gc_rows (se_json env) (map Ok rows) = Ok es \<and> map ge_update es = updates \<and>
    queue_fits (view db') \<and> sorted_view (view db') \<and> open_verified env rd root None f' = Ok vs"
proof -
  obtain plan where plan: "plan_gc env rd root expected updates (StoreDb db) = Ok plan"
      and fin: "finish_commit env rd root ''recording generation GC updates''
            (with_open_database rd (gc_rows env rd updates (gp_manifest_json plan) (gp_previous_gc_count plan)
               (gp_commit_sequence plan)) (StoreDb db)) = (Ok vs, f')"
    using run updates by (auto simp: record_generation_gc_inner_def split: outcome.splits)
  obtain r f1 where r1: "with_open_database rd (gc_rows env rd updates (gp_manifest_json plan) (gp_previous_gc_count plan)
      (gp_commit_sequence plan)) (StoreDb db) = (r, f1)" by fastforce
  have f1: "f' = f1" "r = Ok ()" "open_verified env rd root None f1 = Ok vs" using finish_commit_Ok fin r1 by metis+
  obtain db0 where "StoreDb db = StoreDb db0" "run_transaction rd (gc_rows env rd updates (gp_manifest_json plan)
      (gp_previous_gc_count plan) (gp_commit_sequence plan)) db0 = (Ok (), f1)"
    using with_open_Ok r1 f1(2) by metis
  then have "run_transaction rd (gc_rows env rd updates (gp_manifest_json plan)
      (gp_previous_gc_count plan) (gp_commit_sequence plan)) db = (Ok (), f1)" by simp
  then obtain db' where db': "f1 = StoreDb db'" "gc_rows env plain_redb updates (gp_manifest_json plan) (gp_previous_gc_count plan)
      (gp_commit_sequence plan) (view db) = Ok (view db')"
    using run_transaction_Ok [of "gc_rows env rd updates (gp_manifest_json plan) (gp_previous_gc_count plan) (gp_commit_sequence plan)"
        "gc_rows env plain_redb updates (gp_manifest_json plan) (gp_previous_gc_count plan) (gp_commit_sequence plan)", OF sim_gc_rows]
    by blast
  obtain current where current: "open_verified_at_store_file env rd root None None (StoreDb db) = Ok current"
      "validate_gc_updates updates = Ok ()" "length updates \<le> u64_max"
      "manifest_table_count (vs_manifest current) ''gc_queue'' = Ok (gp_previous_gc_count plan)"
    using plan_gc_Ok [OF plan] by blast
  have n: "unat (gp_previous_gc_count plan) = length (queue_rows (view db))"
    by (rule queue_count [OF current(1) sorted ho current(4)])
  obtain rows created where rows: "traverse (gc_row env (gp_previous_gc_count plan)) (enumerate 0 updates) = Ok rows"
      and "gc_view (se_json env) (gp_manifest_json plan) rows (gp_commit_sequence plan)
        (gc_event (length updates) (gp_commit_sequence plan) created) (view db) = view db'"
    using db'(2) by (auto simp: gc_rows_plain outcome_simps)
  note v' = this(2) [symmetric]
  obtain es where es: "parse_gc_rows (se_json env) (map Ok rows) = Ok es" "map ge_update es = updates" "length rows = length updates"
      and q: "btree_inserts rows (queue_rows (view db)) = queue_rows (view db) @ rows" "btree_ok (queue_rows (view db) @ rows)"
        "\<forall>k\<in>keys_of rows. length (queue_rows (view db)) < unat k \<and> unat k \<le> length (queue_rows (view db)) + length updates"
    using queue_extended [OF je rows current(2,3) fits n] by blast
  have new: "queue_rows (view db') = queue_rows (view db) @ rows"
    using q(1) by (simp add: v' gc_view_def queue_rows_def)
  have "unat k \<le> length (queue_rows (view db'))" if "k \<in> keys_of (queue_rows (view db'))" for k
    using that q(3) fits es(3) unfolding new by (fastforce simp: keys_of_def queue_fits_def)
  then have "queue_fits (view db')" using q(2) by (simp add: queue_fits_def new)
  moreover have "sorted_view (view db')" using sorted by (simp add: v' sorted_view_def gc_view_def)
  ultimately show ?thesis using db'(1) f1 new es by blast
qed

end

section \<open>An update that is recorded opens\<close>

text \<open>The fields that an update keeps.\<close>

definition keeps_fields :: "json \<Rightarrow> json \<Rightarrow> bool" where
  "keeps_fields m m' \<longleftrightarrow>
     (\<forall>f. f \<notin> {''commit_sequence'', ''updated_at_unix_ms'', ''table_counts''} \<longrightarrow> jget m' f = jget m f)"

lemma kept_fields:
  assumes "keeps_fields m m'"
  shows "required_string m' ''schema_version'' = required_string m ''schema_version''"
    "required_string m' ''store_uuid'' = required_string m ''store_uuid''" "required_string m' ''origin'' = required_string m ''origin''"
    "required_bool m' ''migrated_from_json_sidecars'' = required_bool m ''migrated_from_json_sidecars''"
    "required_string m' ''key_format'' = required_string m ''key_format''"
    "required_string m' ''payload_format'' = required_string m ''payload_format''"
    "required_string m' ''build_status'' = required_string m ''build_status''" "required_bool m' ''complete'' = required_bool m ''complete''"
    "required_string m' ''adapter_name'' = required_string m ''adapter_name''" "required_u64 m' ''bits'' = required_u64 m ''bits''"
    "jget m' ''dim'' = jget m ''dim''" "required_bool m' ''empty_lazy'' = required_bool m ''empty_lazy''"
    "required_u64 m' ''active_id_count'' = required_u64 m ''active_id_count''" "required_u64 m' ''next_u64_id'' = required_u64 m ''next_u64_id''"
    "required_u64 m' ''tombstone_count'' = required_u64 m ''tombstone_count''"
    "required_u64 m' ''active_generation_id'' = required_u64 m ''active_generation_id''"
    "required_string m' ''active_generation_path'' = required_string m ''active_generation_path''"
    "required_u64 m' ''vector_count'' = required_u64 m ''vector_count''"
    "required_string m' ''active_generation_manifest_sha256'' = required_string m ''active_generation_manifest_sha256''"
    "required_u64 m' ''active_generation_manifest_size_bytes'' = required_u64 m ''active_generation_manifest_size_bytes''"
  using assms by (simp_all add: keeps_fields_def required_string_def required_bool_def required_u64_def)

lemma shape_kept:
  assumes "verify_manifest_shape je m e = Ok ()" and "required_u64 m' ''commit_sequence'' = Ok seq" and keeps: "keeps_fields m m'"
  shows "verify_manifest_shape je m' e = Ok ()"
  using assms(1,2) unfolding verify_manifest_shape_def require_str_def kept_fields [OF keeps]
  by (simp only: obind_eq_Ok) blast

lemma contents_kept:
  assumes keeps: "keeps_fields m m'"
  shows "verify_manifest_payloads m' p = verify_manifest_payloads m p" "verify_manifest_generation m' g = verify_manifest_generation m g"
  unfolding verify_manifest_payloads_def verify_manifest_generation_def kept_fields [OF keeps] by (rule refl)+

lemma counts_advance:
  assumes old: "counts_hold v m" and sorted: "json_ok m"
    and tc: "jget m ''table_counts'' = Some (JObject tc)"
    and tc': "jget m' ''table_counts'' = Some (JObject (btree_inserts [(''gc_queue'', jnum gc), (''audit_log'', jnum audit)] tc))"
    and meta: "map_of (rows_of (dv_ss v META)) ''manifest'' \<noteq> None" "btree_ok (rows_of (dv_ss v META))"
    and n: "unat gc = length (btree_inserts rows (rows_of (dv_us v GC_QUEUE)))"
      "unat audit = length (btree_insert seq (je_print je event) (rows_of (dv_us v AUDIT_LOG)))"
  shows "counts_hold (gc_view je mj rows seq event v) m'"
proof -
  let ?w = "gc_view je mj rows seq event v"
  have ok: "btree_ok tc" using object_members_ok [OF _ , of m "''table_counts''"] sorted tc by (cases m) fastforce+
  have key: "''manifest'' \<in> keys_of (rows_of (dv_ss v META))" using meta(1) by (force simp: keys_of_def dest: map_of_SomeD)
  have len: "length (btree_insert ''manifest'' mj (rows_of (dv_ss v META))) = length (rows_of (dv_ss v META))"
    using key meta(2) by (simp add: sorted_length btree_insert_keys insert_absorb)
  have all: "\<forall>(name, n)\<in>set (stored_counts v). \<exists>c. map_of tc name = Some (jnum c) \<and> unat c = n" and tables: "all_tables v"
    using old tc by (auto simp: counts_hold_def)
  have "\<forall>(name, n)\<in>set (stored_counts ?w). \<exists>c. map_of (btree_inserts [(''gc_queue'', jnum gc), (''audit_log'', jnum audit)] tc) name =
      Some (jnum c) \<and> unat c = n"
    using all n len ok by (simp add: stored_counts_def gc_view_def)
  moreover have "all_tables ?w" using tables by (simp add: all_tables_def gc_view_def)
  ultimately show ?thesis using tc' by (auto simp: counts_hold_def)
qed

lemma gc_view_verified:
  assumes je: "json_text (se_json env)" and st: "verified_state env root None None v vs p g" and sorted: "sorted_view v"
    and up: "update_gc_manifest_counts env (vs_manifest vs) seq gc audit = Ok m'"
    and n: "unat gc = length (btree_inserts rows (rows_of (dv_us v GC_QUEUE)))"
      "unat audit = length (btree_insert seq (je_print (se_json env) event) (rows_of (dv_us v AUDIT_LOG)))"
  shows "verified_state env root None None (gc_view (se_json env) (je_print (se_json env) m') rows seq event v)
    (vs\<lparr>vs_manifest := m'\<rparr>) p g"
proof -
  let ?w = "gc_view (se_json env) (je_print (se_json env) m') rows seq event v"
  obtain s where s: "manifest_row v = Some s" "parse_json_object (se_json env) s ''adapter store manifest'' = Ok (vs_manifest vs)"
    using st by (auto simp: verified_state_def)
  have ok: "json_ok (vs_manifest vs)" using parse_object_ok [OF s(2)] by auto
  obtain kvs tc where m': "m' = JObject kvs" "json_ok m'" "required_u64 m' ''commit_sequence'' = Ok seq"
      "jget (vs_manifest vs) ''table_counts'' = Some (JObject tc)"
      "jget m' ''table_counts'' = Some (JObject (btree_inserts (map (\<lambda>(k, n). (k, jnum n)) [(''gc_queue'', gc), (''audit_log'', audit)]) tc))"
      "keeps_fields (vs_manifest vs) m'"
    using update_manifest_Ok [OF up [unfolded update_gc_manifest_counts_def] ok] unfolding keeps_fields_def by blast
  have meta: "btree_ok (rows_of (dv_ss v META))" using sorted by (simp add: sorted_view_def)
  have row: "manifest_row ?w = Some (je_print (se_json env) m')" by (rule manifest_row_views(3) [OF meta])
  have parsed: "parse_json_object (se_json env) (je_print (se_json env) m') ''adapter store manifest'' = Ok m'"
    using parse_printed [OF je, of kvs] m'(1,2) by simp
  have counts: "counts_hold ?w m'"
  proof (rule counts_advance [OF _ ok m'(4)])
    show "counts_hold v (vs_manifest vs)" using st by (simp add: verified_state_def)
    show "map_of (rows_of (dv_ss v META)) ''manifest'' \<noteq> None" using s(1) by (simp add: manifest_row_def)
  qed (use m'(5) meta n in simp_all)
  have "payload_rows ?w = payload_rows v" by (simp add: fun_eq_iff payload_rows_def gc_view_def)
  moreover have "tables_hold (se_json env) ?w p = tables_hold (se_json env) v p" "records_hold (se_json env) ?w g = records_hold (se_json env) v g"
    by (simp_all add: tables_hold_def records_hold_def gc_view_def)
  moreover have "verify_manifest_shape (se_json env) m' None = Ok ()"
    using st by (intro shape_kept [OF _ m'(3,6)]) (simp add: verified_state_def)
  ultimately show ?thesis using st row parsed counts contents_kept [OF m'(6)] by (simp add: verified_state_def)
qed


lemma gc_rows_room:
  assumes "\<forall>k. se_now env k \<le> u64_max" and "unat n + i + length updates \<le> u64_max"
  shows "\<exists>rows. traverse (gc_row env n) (enumerate i updates) = Ok rows"
  using assms(2)
proof (induction updates arbitrary: i)
  case (Cons u updates)
  have i: "unat (of_nat i :: u64) = i" using Cons.prems by (intro of_nat_count) simp
  have "unat n + i \<le> u64_max" "unat n + i + 1 \<le> u64_max" using Cons.prems by simp_all
  then have "checked_inc n (of_nat i) = Some (n + of_nat i)" "unat (n + of_nat i) = unat n + i"
    using i by (auto simp: checked_inc_def u64_max_def unat_word_ariths)
  then have "\<exists>k. Option.bind (checked_inc n (of_nat i)) (\<lambda>m. checked_inc m 1) = Some k"
    using \<open>unat n + i + 1 \<le> u64_max\<close> by (simp add: checked_inc_def)
  then have "\<exists>r. gc_row env n (i, u) = Ok r"
    using assms(1) by (auto simp: gc_row_def gc_update_json_def now_json_def)
  moreover have "\<exists>rows. traverse (gc_row env n) (enumerate (Suc i) updates) = Ok rows"
    using Cons.prems by (intro Cons.IH) simp
  ultimately show ?case by auto
qed simp

text \<open>
  A store that opens at revision \<open>r\<close>, whose rows the crate wrote, and whose counters have room for the
  updates.
\<close>

definition ready_for_updates :: "store_env \<Rightarrow> string \<Rightarrow> store_revision \<Rightarrow> nat \<Rightarrow> verified_store \<Rightarrow> db_view \<Rightarrow> bool" where
  "ready_for_updates env root r n vs v \<longleftrightarrow>
     env_ready env root \<and> sorted_view v \<and> open_verified env plain_redb root None (StoreDb v) = Ok vs \<and>
     revision_from_manifest (vs_manifest vs) = Ok r \<and> history_ok (vs_manifest vs) v \<and> counters_fit (Some vs) v \<and>
     length (queue_rows v) + n \<le> u64_max"

lemma history_fits: "history_ok m v \<Longrightarrow> sorted_view v \<Longrightarrow> queue_fits v"
  by (auto simp: history_ok_def queue_fits_def queue_rows_def sorted_view_def)

lemma update_manifest_succeeds:
  assumes "manifest = JObject m" and "jget manifest ''table_counts'' = Some (JObject tc)" and "json_ok manifest"
  shows "\<exists>m'. update_manifest env manifest seq counts = Ok m'"
proof -
  let ?a = "btree_insert ''commit_sequence'' (jnum seq) m"
  have "json_ok (JObject ?a)" using assms(1,3) by (intro object_insert_ok) (simp_all add: entries_values_ok)
  moreover have "json_ok (JObject m)" using assms(1,3) by simp
  ultimately have sorted: "btree_ok m" "btree_ok ?a" by simp_all
  then show ?thesis using assms(1,2) by (auto simp: update_manifest_def object_insert_def)
qed

lemma updates_planned:
  assumes ready: "ready_for_updates env root r (length updates) vs v"
    and updates: "validate_gc_updates updates = Ok ()"
  shows "\<exists>plan m seq previous audit. plan_gc env plain_redb root (Some r) updates (StoreDb v) = Ok plan \<and>
    required_u64 (vs_manifest vs) ''commit_sequence'' = Ok previous \<and> checked_inc previous 1 = Some seq \<and>
    unat (gp_previous_gc_count plan) = length (queue_rows v) \<and> unat audit = length (rows_of (dv_us v AUDIT_LOG)) + 1 \<and>
    update_gc_manifest_counts env (vs_manifest vs) seq (of_nat (length (queue_rows v) + length updates)) audit = Ok m \<and>
    gp_manifest_json plan = je_print (se_json env) m \<and> gp_commit_sequence plan = seq"
proof -
  have ho: "orders_ok (se_orders env)" and sorted: "sorted_view v" and opened: "open_verified env plain_redb root None (StoreDb v) = Ok vs"
      and rev: "revision_from_manifest (vs_manifest vs) = Ok r" and fit: "counters_fit (Some vs) v"
      and room: "length (queue_rows v) + length updates \<le> u64_max"
    using ready by (simp_all add: ready_for_updates_def env_ready_def)
  obtain p g where st: "verified_state env root None None v vs p g"
    using open_verified_state [OF plain_redb_ok _ ho opened] sorted by auto
  then have counts: "counts_hold v (vs_manifest vs)" by (simp add: verified_state_def)
  obtain gc where gc: "manifest_table_count (vs_manifest vs) ''gc_queue'' = Ok gc" "unat gc = length (queue_rows v)"
    using count_of_view [OF counts, of "''gc_queue''"] by (auto simp: stored_counts_def queue_rows_def)
  obtain audit where audit: "manifest_table_count (vs_manifest vs) ''audit_log'' = Ok audit" "unat audit = length (rows_of (dv_us v AUDIT_LOG))"
    using count_of_view [OF counts, of "''audit_log''"] by (auto simp: stored_counts_def)
  obtain previous where seq: "required_u64 (vs_manifest vs) ''commit_sequence'' = Ok previous"
    using rev by (auto simp: revision_from_manifest_def outcome_simps)
  then have "jget (vs_manifest vs) ''commit_sequence'' = Some (jnum previous)"
    by (auto simp: required_u64_def ok_or_eq_Ok bind_eq_Some_conv jnum_def)
  then have "unat previous < u64_max" using fit by (simp add: counters_fit_def)
  then obtain next_seq where next_seq: "checked_inc previous 1 = Some next_seq" using checked_inc_room by blast
  have "unat audit < u64_max" using fit audit(2) by (simp add: counters_fit_def)
  then obtain audit' where audit': "checked_inc audit 1 = Some audit'" using checked_inc_room by blast
  have n: "unat (of_nat (length updates) :: u64) = length updates" "length updates \<le> u64_max"
    using room by (simp_all add: of_nat_count)
  have gc': "checked_inc gc (of_nat (length updates)) = Some (of_nat (length (queue_rows v) + length updates))"
  proof -
    have "gc + of_nat (length updates) = of_nat (length (queue_rows v) + length updates)"
      unfolding gc(2) [symmetric] by (simp)
    then show ?thesis using n room gc(2) by (simp add: checked_inc_def)
  qed
  obtain s where s: "parse_json_object (se_json env) s ''adapter store manifest'' = Ok (vs_manifest vs)"
    using st by (auto simp: verified_state_def)
  obtain m0 tc where m0: "vs_manifest vs = JObject m0" "json_ok (vs_manifest vs)" "jget (vs_manifest vs) ''table_counts'' = Some (JObject tc)"
    using parse_object_ok [OF s] counts by (auto simp: counts_hold_def)
  obtain m where m: "update_gc_manifest_counts env (vs_manifest vs) next_seq (of_nat (length (queue_rows v) + length updates)) audit' = Ok m"
    using update_manifest_succeeds [OF m0(1,3,2)] unfolding update_gc_manifest_counts_def by blast
  have "current_verified_store env plain_redb root None (StoreDb v) = Ok (Some vs)"
    using opened by (simp add: current_verified_store_def open_verified_def)
  then have "plan_gc env plain_redb root (Some r) updates (StoreDb v) =
      Ok \<lparr>gp_manifest_json = je_print (se_json env) m, gp_previous_gc_count = gc, gp_commit_sequence = next_seq\<rparr>"
    using updates rev seq next_seq gc(1) audit(1) n(2) gc' audit' m
    by (simp add: plan_gc_def verify_expected_revision_def canonical_json_def required_u64_def jnum_def)
  then show ?thesis using seq next_seq gc(2) audit(2) checked_inc_unat [OF audit'] m by auto
qed


lemma gc_record_written:
  assumes ready: "ready_for_updates env root r (length updates) vs v"
    and updates: "validate_gc_updates updates = Ok ()" "updates \<noteq> []"
  shows "\<exists>vs' w. record_generation_gc_inner env plain_redb root (Some r) updates (StoreDb v) = (Ok vs', StoreDb w) \<and>
    vs_payloads vs' = vs_payloads vs \<and> keeps_fields (vs_manifest vs) (vs_manifest vs') \<and> history_ok (vs_manifest vs') w \<and>
    (\<exists>seq seq'. required_u64 (vs_manifest vs) ''commit_sequence'' = Ok seq \<and>
       required_u64 (vs_manifest vs') ''commit_sequence'' = Ok seq' \<and> unat seq' = unat seq + 1)"
proof -
  have je: "json_text (se_json env)" and ho: "orders_ok (se_orders env)" and env: "env_ready env root" and sorted: "sorted_view v"
      and opened: "open_verified env plain_redb root None (StoreDb v) = Ok vs"
      and history: "history_ok (vs_manifest vs) v" and room: "length (queue_rows v) + length updates \<le> u64_max"
    using ready by (simp_all add: ready_for_updates_def env_ready_def)
  obtain p g where st: "verified_state env root None None v vs p g"
    using open_verified_state [OF plain_redb_ok _ ho opened] sorted by auto
  obtain plan m seq previous audit where plan: "plan_gc env plain_redb root (Some r) updates (StoreDb v) = Ok plan"
      and seq: "required_u64 (vs_manifest vs) ''commit_sequence'' = Ok previous" "checked_inc previous 1 = Some seq"
      and n: "unat (gp_previous_gc_count plan) = length (queue_rows v)" and audit: "unat audit = length (rows_of (dv_us v AUDIT_LOG)) + 1"
      and m: "update_gc_manifest_counts env (vs_manifest vs) seq (of_nat (length (queue_rows v) + length updates)) audit = Ok m"
      and out: "gp_manifest_json plan = je_print (se_json env) m" "gp_commit_sequence plan = seq"
    using updates_planned [OF ready updates(1)] by blast
  have now: "\<forall>k. se_now env k \<le> u64_max" using env by (simp add: env_ready_def)
  obtain rows where rows: "traverse (gc_row env (gp_previous_gc_count plan)) (enumerate 0 updates) = Ok rows"
    using gc_rows_room [OF now, of "gp_previous_gc_count plan" 0 updates] n room by auto
  obtain es where len: "length rows = length updates"
      and q: "btree_inserts rows (queue_rows v) = queue_rows v @ rows" "btree_ok (queue_rows v @ rows)"
        "\<forall>k\<in>keys_of rows. length (queue_rows v) < unat k \<and> unat k \<le> length (queue_rows v) + length updates"
    using queue_extended [OF je rows updates(1) _ history_fits [OF history sorted] n] room by auto
  obtain created where created: "now_json env (1 + length updates) = Ok created" using now by (auto simp: now_json_def)
  let ?event = "gc_event (length updates) seq created"
  let ?w = "gc_view (se_json env) (je_print (se_json env) m) rows seq ?event v" and ?vs = "vs\<lparr>vs_manifest := m\<rparr>"
  have body: "gc_rows env plain_redb updates (gp_manifest_json plan) (gp_previous_gc_count plan) (gp_commit_sequence plan) v = Ok ?w"
    using rows created out by (simp add: gc_rows_plain)
  have audit_sorted: "btree_ok (rows_of (dv_us v AUDIT_LOG))" using sorted by (simp add: sorted_view_def)
  have older: "\<forall>k\<in>keys_of (rows_of (dv_us v AUDIT_LOG)). k \<le> previous" using history seq(1) by (auto simp: history_ok_def)
  have inc: "unat seq = unat previous + 1" by (rule checked_inc_unat [OF seq(2)])
  then have older': "\<forall>k\<in>keys_of (rows_of (dv_us v AUDIT_LOG)). k < seq" using older by (fastforce simp: word_less_nat_alt word_le_nat_alt)
  then have fresh: "seq \<notin> keys_of (rows_of (dv_us v AUDIT_LOG))" by blast
  have verified: "verified_state env root None None ?w ?vs p g"
  proof (rule gc_view_verified [OF je st sorted m])
    show "unat (of_nat (length (queue_rows v) + length updates) :: u64) = length (btree_inserts rows (rows_of (dv_us v GC_QUEUE)))"
      using q(1) len of_nat_count [OF room] by (simp add: queue_rows_def)
    show "unat audit = length (btree_insert seq (je_print (se_json env) ?event) (rows_of (dv_us v AUDIT_LOG)))"
      using audit btree_insert_length [OF audit_sorted fresh] by simp
  qed
  have sorted_w: "sorted_view ?w" using sorted by (simp add: sorted_view_def gc_view_def)
  have "open_verified env plain_redb root None (StoreDb ?w) = Ok ?vs"
    using verify_database_plain [OF sorted_w ho, of root None None ?vs] verified
    by (auto simp: open_verified_def open_verified_at_store_file_def validate_adapter_store_file_def guard_against_storage_panics_def)
  then have "record_generation_gc_inner env plain_redb root (Some r) updates (StoreDb v) = (Ok ?vs, StoreDb ?w)"
    using plan body updates(2) env
    by (simp add: record_generation_gc_inner_def finish_commit_def with_open_database_def run_transaction_def env_ready_def
        lift_sum_def guard_against_storage_panics_def)
  moreover obtain s where "parse_json_object (se_json env) s ''adapter store manifest'' = Ok (vs_manifest vs)"
    using st by (auto simp: verified_state_def)
  then have "json_ok (vs_manifest vs)" by (auto dest: parse_object_ok)
  then have kept: "keeps_fields (vs_manifest vs) m" "required_u64 m ''commit_sequence'' = Ok seq"
    using update_manifest_Ok [OF m [unfolded update_gc_manifest_counts_def]] unfolding keeps_fields_def by blast+
  moreover have "history_ok m ?w"
  proof -
    have "\<forall>k\<in>keys_of (rows_of (dv_us ?w AUDIT_LOG)). k \<le> seq"
      using older' less_imp_le by (auto simp: gc_view_def btree_insert_keys [OF audit_sorted])
    moreover have rows_w: "rows_of (dv_us ?w GC_QUEUE) = queue_rows v @ rows"
      using q(1) by (simp add: gc_view_def queue_rows_def)
    have "1 \<le> unat k \<and> unat k \<le> length (queue_rows v @ rows)" if "k \<in> keys_of (queue_rows v @ rows)" for k
      using that history q(3) len by (fastforce simp: keys_of_def history_ok_def queue_rows_def)
    then have "\<forall>k\<in>keys_of (rows_of (dv_us ?w GC_QUEUE)). 1 \<le> unat k \<and> unat k \<le> length (rows_of (dv_us ?w GC_QUEUE))"
      unfolding rows_w by blast
    ultimately show ?thesis using kept(2) by (auto simp: history_ok_def)
  qed
  ultimately show ?thesis using seq(1) inc by (intro exI [of _ ?vs] exI [of _ ?w]) auto
qed


section \<open>Reading the queue\<close>

lemma parse_gc_rows_items: "parse_gc_rows je items = Ok es \<Longrightarrow> \<exists>rows. items = map Ok rows"
proof (induction items arbitrary: es)
  case (Cons item items)
  then obtain row es' where row: "item = Ok row" "parse_gc_rows je items = Ok es'" by (auto simp: outcome_simps split: prod.splits)
  then obtain rows where "items = map Ok rows" using Cons.IH by blast
  then show ?case using row(1) by (intro exI [of _ "row # rows"]) simp
qed simp

context engine
begin

lemma events_of_queue:
  assumes "generation_gc_events env rd root (StoreDb db) = Ok es"
  shows "queue_events (se_json env) (view db) = Ok es"
proof -
  obtain items where items: "ta_iter (rd_us rd) GC_QUEUE db = Ok items" "parse_gc_rows (se_json env) items = Ok es"
    using assms by (auto simp: generation_gc_events_def outcome_simps)
  obtain rows where rows: "items = map Ok rows" using parse_gc_rows_items [OF items(2)] by blast
  have "table_ok (rd_us rd) view dv_us set_us" using ok by (simp add: redb_ok_def)
  from sim_iter [OF this, of GC_QUEUE db] have "ta_iter (plain_table dv_us set_us) GC_QUEUE (view db) = Ok items"
    using items(1) rows by (auto simp: sim_def)
  then show ?thesis using items(2) by (auto simp: queue_events_def queue_rows_def plain_table_def)
qed

end

lemma plain_events:
  "generation_gc_events env plain_redb root (StoreDb v) = Ok es \<longleftrightarrow>
     dv_us v GC_QUEUE \<noteq> None \<and> queue_events (se_json env) v = Ok es"
  by (auto simp: generation_gc_events_def validate_adapter_store_file_def outcome_simps queue_events_def queue_rows_def)

lemma queue_exists:
  assumes "open_verified env plain_redb root e (StoreDb v) = Ok vs" and "sorted_view v" and "orders_ok (se_orders env)"
  shows "dv_us v GC_QUEUE \<noteq> None"
  using open_verified_state [OF plain_redb_ok _ assms(3,1)] assms(2)
  by (auto simp: verified_state_def counts_hold_def all_tables_def)


section \<open>Properties\<close>

text \<open>
  C0. Recording updates appends them to the queue: a recording that succeeds on a store whose queue reads
  \<open>before\<close> leaves a store whose queue reads \<open>before\<close> and then the updates, in order, with nothing overwritten,
  and every later read of the queue returns that.
\<close>

theorem gc_record_appends:
  assumes "redb_ok rd view" and "json_text (se_json env)" and "orders_ok (se_orders env)" and "sorted_view (view db)"
    and "queue_fits (view db)" and "updates \<noteq> []" and "queue_events (se_json env) (view db) = Ok before"
    and "record_generation_gc_inner env rd root expected updates (StoreDb db) = (Ok vs, f')"
  shows "\<exists>db' es. f' = StoreDb db' \<and> open_verified env rd root None f' = Ok vs \<and> sorted_view (view db') \<and> queue_fits (view db') \<and>
    queue_events (se_json env) (view db') = Ok (before @ es) \<and> map ge_update es = updates \<and>
    (\<forall>read. generation_gc_events env rd root f' = Ok read \<longrightarrow> read = before @ es)"
proof -
  note engine = engine.intro [OF assms(1)]
  obtain db' rows es where new: "f' = StoreDb db'" "queue_rows (view db') = queue_rows (view db) @ rows"
      "parse_gc_rows (se_json env) (map Ok rows) = Ok es" "map ge_update es = updates" "queue_fits (view db')"
      "sorted_view (view db')" "open_verified env rd root None f' = Ok vs"
    using engine.record_appends [OF engine assms(2-6,8)] by blast
  have q: "queue_events (se_json env) (view db') = Ok (before @ es)"
    using assms(7) new(3) unfolding queue_events_def new(2) parse_gc_rows_append by simp
  have "read = before @ es" if "generation_gc_events env rd root f' = Ok read" for read
    using engine.events_of_queue [OF engine that [unfolded new(1)]] q by simp
  then show ?thesis using new q by blast
qed

text \<open>
  C0. An update can be recorded: on a store that opens, written by the crate and with room in its counters, a
  non-empty list of valid updates at the current revision is committed; the payloads stay, the commit
  sequence grows by one, the store opens again and its queue reads as before and then the updates.
\<close>

theorem gc_update_recorded:
  assumes "ready_for_updates env root r (length updates) vs v" and "validate_gc_updates updates = Ok ()" and "updates \<noteq> []"
    and "generation_gc_events env plain_redb root (StoreDb v) = Ok before"
  shows "\<exists>vs' w es seq seq'. record_generation_gc_inner env plain_redb root (Some r) updates (StoreDb v) = (Ok vs', StoreDb w) \<and>
    open_verified env plain_redb root None (StoreDb w) = Ok vs' \<and> vs_payloads vs' = vs_payloads vs \<and>
    required_u64 (vs_manifest vs) ''commit_sequence'' = Ok seq \<and>
    required_u64 (vs_manifest vs') ''commit_sequence'' = Ok seq' \<and> unat seq' = unat seq + 1 \<and>
    generation_gc_events env plain_redb root (StoreDb w) = Ok (before @ es) \<and> map ge_update es = updates"
proof -
  have env: "json_text (se_json env)" "orders_ok (se_orders env)" and v: "sorted_view v" "history_ok (vs_manifest vs) v"
    using assms(1) by (simp_all add: ready_for_updates_def env_ready_def)
  obtain vs' w where w: "record_generation_gc_inner env plain_redb root (Some r) updates (StoreDb v) = (Ok vs', StoreDb w)"
      "vs_payloads vs' = vs_payloads vs"
      and seq: "\<exists>seq seq'. required_u64 (vs_manifest vs) ''commit_sequence'' = Ok seq \<and>
        required_u64 (vs_manifest vs') ''commit_sequence'' = Ok seq' \<and> unat seq' = unat seq + 1"
    using gc_record_written [OF assms(1-3)] by blast
  have before: "queue_events (se_json env) (id v) = Ok before" using assms(4) by (simp add: plain_events)
  obtain rows es where new: "queue_rows w = queue_rows v @ rows" "parse_gc_rows (se_json env) (map Ok rows) = Ok es"
      "map ge_update es = updates" "sorted_view w" "open_verified env plain_redb root None (StoreDb w) = Ok vs'"
    using plain_engine.record_appends [OF env _ _ assms(3) w(1)] v(1) history_fits [OF v(2,1)] by auto
  have "queue_events (se_json env) w = Ok (before @ es)"
    using before new(2) unfolding queue_events_def new(1) parse_gc_rows_append id_apply by simp
  then have "generation_gc_events env plain_redb root (StoreDb w) = Ok (before @ es)"
    using queue_exists [OF new(5,4) env(2)] by (simp add: plain_events)
  then show ?thesis using w seq new(3,5) by blast
qed


text \<open>The store of the example after two snapshots, and an update of its retired generation.\<close>

definition ex_update :: "string \<Rightarrow> generation_gc_update" where
  "ex_update state = \<lparr>gc_generation_id = Some 2, gc_path = ''vectors/g000000000002.odb'', gc_state = state, gc_reason = ''adapter_gc''\<rparr>"

lemma ex_update_valid:
  assumes "is_valid_generation_lifecycle_state state"
  shows "validate_gc_updates [ex_update state] = Ok ()"
proof -
  have "validate_relative_path ''vectors/g000000000002.odb'' = Ok ()"
    by (simp add: validate_relative_path_def backslash_def contains_str_def components_def is_absolute_def is_normal_def char_of_def)
  moreover have "trim ''adapter_gc'' \<noteq> []" by code_simp
  ultimately show ?thesis using assms by (simp add: validate_gc_update_def ex_update_def INDEX_DIR_def)
qed

lemma ex_ready:
  obtains vs w r where "ready_for_updates ex_env ''s'' r 1 vs w" and "generation_gc_events ex_env plain_redb ''s'' (StoreDb w) = Ok []"
    and "ex_run (StoreDb w) (Some vs) w 2"
proof -
  obtain vs w where ex: "open_verified ex_env plain_redb ''s'' None (StoreDb w) = Ok vs" "sorted_view w" "orders_ok (se_orders ex_env)"
    "ex_run (StoreDb w) (Some vs) w 2" by (rule ex_open)
  have store: "ex_store (StoreDb w) (Some vs) w" and empty: "rows_of (dv_us w GC_QUEUE) = []" using ex(4) by (simp_all add: ex_run_def)
  obtain r where r: "revision_from_manifest (vs_manifest vs) = Ok r" using ex_allowed [OF store] by blast
  have "history_ok (vs_manifest vs) w" using store by (auto simp: ex_store_def)
  moreover have "counters_fit (Some vs) w" by (rule ex_run_fits [OF ex(4)]) simp
  ultimately have "ready_for_updates ex_env ''s'' r 1 vs w"
    using ex(1,2) r empty ex_env_ready by (simp add: ready_for_updates_def queue_rows_def u64_max_def)
  moreover have "generation_gc_events ex_env plain_redb ''s'' (StoreDb w) = Ok []"
    using queue_exists [OF ex(1-3)] empty by (simp add: plain_events queue_events_def queue_rows_def)
  ultimately show ?thesis using that ex(4) by blast
qed

theorem gc_update_recorded_witness:
  "\<exists>r w vs' w' es. record_generation_gc_inner ex_env plain_redb ''s'' (Some r) [ex_update ''deleting''] (StoreDb w) = (Ok vs', StoreDb w') \<and>
     generation_gc_events ex_env plain_redb ''s'' (StoreDb w') = Ok es \<and> map ge_update es = [ex_update ''deleting'']"
proof -
  obtain vs w r where ex: "ready_for_updates ex_env ''s'' r 1 vs w" "generation_gc_events ex_env plain_redb ''s'' (StoreDb w) = Ok []"
    by (rule ex_ready)
  have "is_valid_generation_lifecycle_state ''deleting''" by code_simp
  from gc_update_recorded [OF _ ex_update_valid [OF this] _ ex(2), of r vs] ex(1)
  obtain vs' w' es where "record_generation_gc_inner ex_env plain_redb ''s'' (Some r) [ex_update ''deleting''] (StoreDb w) = (Ok vs', StoreDb w')"
      "generation_gc_events ex_env plain_redb ''s'' (StoreDb w') = Ok ([] @ es)" "map ge_update es = [ex_update ''deleting'']"
    by auto
  then show ?thesis unfolding append_Nil by (intro exI conjI)
qed

lemma ex_recorded:
  assumes "is_valid_generation_lifecycle_state state"
  obtains vs w r vs' w' where "ready_for_updates ex_env ''s'' r 1 vs w"
    and "record_generation_gc_inner ex_env plain_redb ''s'' (Some r) [ex_update state] (StoreDb w) = (Ok vs', StoreDb w')"
    and "queue_events plain_json w = Ok []" and "vs_payloads vs' = vs_payloads vs" and "keeps_fields (vs_manifest vs) (vs_manifest vs')"
    and "ex_run (StoreDb w) (Some vs) w 2"
proof -
  obtain vs w r where ex: "ready_for_updates ex_env ''s'' r 1 vs w" "generation_gc_events ex_env plain_redb ''s'' (StoreDb w) = Ok []"
    "ex_run (StoreDb w) (Some vs) w 2" by (rule ex_ready)
  moreover have "queue_events plain_json w = Ok []" using ex(2) by (simp add: plain_events ex_env_def)
  moreover obtain vs' w' where "record_generation_gc_inner ex_env plain_redb ''s'' (Some r) [ex_update state] (StoreDb w) = (Ok vs', StoreDb w')"
      "vs_payloads vs' = vs_payloads vs" "keeps_fields (vs_manifest vs) (vs_manifest vs')"
    using gc_record_written [of ex_env "''s''" r "[ex_update state]" vs w] ex(1) ex_update_valid [OF assms] by auto
  ultimately show ?thesis using that by blast
qed

theorem gc_record_appends_witness:
  "\<exists>r w vs' w' es. record_generation_gc_inner ex_env plain_redb ''s'' (Some r) [ex_update ''deleted''] (StoreDb w) = (Ok vs', StoreDb w') \<and>
     queue_events plain_json w' = Ok es \<and> map ge_update es = [ex_update ''deleted'']"
proof -
  have "is_valid_generation_lifecycle_state ''deleted''" by code_simp
  then obtain vs w r vs' w' where ex: "ready_for_updates ex_env ''s'' r 1 vs w" "queue_events plain_json w = Ok []"
      "record_generation_gc_inner ex_env plain_redb ''s'' (Some r) [ex_update ''deleted''] (StoreDb w) = (Ok vs', StoreDb w')"
    by (rule ex_recorded)
  have env: "json_text (se_json ex_env)" "orders_ok (se_orders ex_env)" by (simp_all add: ex_env_def plain_json_text plain_orders_ok)
  have v: "sorted_view (id w)" "queue_fits (id w)" using ex(1) history_fits by (auto simp: ready_for_updates_def)
  have q: "queue_events (se_json ex_env) (id w) = Ok []" using ex(2) by (simp add: ex_env_def)
  have "\<exists>es. queue_events (se_json ex_env) w' = Ok es \<and> map ge_update es = [ex_update ''deleted'']"
    using gc_record_appends [OF plain_redb_ok env v _ q ex(3)] by auto
  then obtain es where "queue_events plain_json w' = Ok es" "map ge_update es = [ex_update ''deleted'']" by (auto simp: ex_env_def)
  then show ?thesis using ex(3) by (intro exI conjI)
qed

end
