(* ===== verification/Spec2Isabelle.thy ===== *)
theory Spec2Isabelle
  imports IdMapSearch BundleFs LtrModel LtrCacheFacts SparseSearch SparseBinding StoreDirs GcQueue
begin

text \<open>
  OrdinalDB: a model of its dense index, its ID map, its bundle publication, its ranked batches and
  rank fusion, its sparse (BM25) sidecar, its learning-to-rank features, model and cache, and its
  adapter store, with the theorems that make them correct.

  \<^bold>\<open>The program.\<close> The crate \<open>ordinaldb\<close> (\<open>src/ordinaldb/src\<close>) holds \<open>OrdinalIndex\<close>, a slot-addressed
  index of quantized vectors (\<open>ordinal.rs\<close>), \<open>IdMapIndex\<close>, the same index addressed by 64-bit
  external IDs (\<open>id_map.rs\<close>), the error types (\<open>error.rs\<close>) and the bundle directory on disk with its
  crash recovery (\<open>io.rs\<close>). The crate \<open>ordinaldb-hybrid\<close> (\<open>src/ordinaldb-hybrid/src\<close>) holds the
  canonical ranked batches that the retrievers exchange and their reciprocal rank fusion
  (\<open>fusion.rs\<close>), the BM25 sidecar: tokenizer, builder, file format, search and binding to a bundle
  (\<open>sparse.rs\<close>), and the learning-to-rank features and tree model that rerank fused rows
  (\<open>ltr_features.rs\<close>, \<open>ltr_model.rs\<close>, \<open>ltr.rs\<close>). The crate \<open>ordinaldb-ltr\<close> (\<open>src/ordinaldb-ltr/src/lib.rs\<close>)
  keeps the training data of that model in a bundle. The crate \<open>ordinaldb-adapter-store\<close>
  (\<open>src/ordinaldb-adapter-store/src/lib.rs\<close>) keeps, beside the bundles of an adapter, their documents,
  metadata, ID maps and history in one transactional database, under a writer lock. The dense index stores its codes with the external crate \<open>ordvec\<close>; the ID map calls the
  dense index; fusion consumes the ranked rows of both retrievers; the sparse sidecar is accepted only
  with a bundle whose ID sidecar names the same rows.

  \<^bold>\<open>Theories.\<close>
  \<^item> \<open>Prelude\<close>: the result of a Rust call (\<open>Ok\<close>, \<open>Err\<close>, \<open>Panic\<close>) with its bind, the comparators and the
    stable sort of \<open>sort_by\<close> (locales \<open>comparator_laws\<close>, \<open>linear_comparator\<close>), the vector operations
    and the entry interface of maps, with the lemmas that the other theories share.
  \<^item> \<open>Float32\<close>: \<open>f32\<close> as its 32-bit pattern: classification, \<open>total_cmp\<close>, the partial comparisons, and
    addition, multiplication and division rounded to nearest even by exact rational arithmetic.
  \<^item> \<open>RustStr\<close>: the functions of the standard library on strings and numerals that the code calls.
  \<^item> \<open>Errors\<close>, \<open>HybridErrors\<close>: the error enums of \<open>error.rs\<close> of the two crates and their messages.
  \<^item> \<open>Shape\<close>: dimensions, bit widths and sign policies (\<open>ordinal.rs\<close>).
  \<^item> \<open>OrdvecApi\<close>: the operations of \<open>ordvec\<close> that are called, as a record of functions, and what the
    callers rely on (\<open>ordvec_ok\<close>), with an instance that keeps the rows themselves.
  \<^item> \<open>SlotStore\<close>: the contract between a dense index and its ID map (locale \<open>slot_store\<close>), interpreted
    in \<open>OrdinalIndex\<close> on \<open>add_2d\<close> and \<open>swap_remove\<close>.
  \<^item> \<open>OrdinalIndex\<close>, \<open>OrdinalSearch\<close>: state, mutation and search of \<open>OrdinalIndex\<close> (\<open>ordinal.rs\<close>).
  \<^item> \<open>IdMapIndex\<close>, \<open>IdMapSearch\<close>: state, mutation and search of \<open>IdMapIndex\<close> (\<open>id_map.rs\<close>).
  \<^item> \<open>ByteCodec\<close>, \<open>IdsFile\<close>: little-endian integers (locale \<open>byte_codec\<close>, interpreted at two widths)
    and the row-ID sidecar file (\<open>write_ids_file\<close>, \<open>read_ids_file\<close> of \<open>io.rs\<close>).
  \<^item> \<open>BundleNames\<close>, \<open>BundleFs\<close>: names of scratch and backup directories, and publication and recovery
    of a bundle (\<open>replace_bundle\<close>, \<open>recover_bundle_if_missing\<close> of \<open>io.rs\<close>) over a model of the parent
    directory with numbered system calls.
  \<^item> \<open>RankedBatch\<close>, \<open>Fusion\<close>: \<open>RankedRows\<close>, \<open>RankedBatch\<close> and \<open>rrf_fuse_batch\<close> (\<open>fusion.rs\<close>).
  \<^item> \<open>SparseTokenizer\<close>, \<open>SparseBuilder\<close>, \<open>SparseFormat\<close>, \<open>SparseView\<close>, \<open>SparseRoundtrip\<close>,
    \<open>SparseSearch\<close>, \<open>SparseBinding\<close>: the sidecar (\<open>sparse.rs\<close>), from text to terms, from documents to
    bytes, from bytes to an opened index, what that index contains, that it contains what was written,
    BM25 search, and the check against the manifest of a bundle.
  \<^item> \<open>LtrFeatures\<close>: the feature matrix of the fused rows (\<open>ltr_features.rs\<close>). \<open>LtrModel\<close>: parsing,
    compiling and evaluating the tree ensemble, and reranking (\<open>ltr_model.rs\<close>, \<open>ltr.rs\<close>).
  \<^item> \<open>LtrCache\<close>: the cache of training data in a bundle (\<open>ordinaldb-ltr/src/lib.rs\<close>): validation, writing,
    registration, verified reading, over a file system keyed by the components of a path.
    \<open>LtrCacheFacts\<close>: what these guarantee.
  \<^item> \<open>StoreJson\<close>, \<open>StorePaths\<close>, \<open>StorePayloads\<close>: the adapter store's JSON values, generation paths and
    lifecycle states, and its four payloads with their cross checks.
  \<^item> \<open>StoreDb\<close>, \<open>StoreVerify\<close>, \<open>StoreOps\<close>: the database behind the store, the verification of an opened
    store, and the transactions that write a snapshot, patch metadata and queue generations for removal.
    \<open>StoreCommit\<close> computes their effect on the tables, \<open>StoreReopen\<close> shows that written tables pass the
    verification (locale \<open>engine\<close>, interpreted on a database kept as sorted tables), and \<open>StoreRuns\<close>
    composes runs of them.
  \<^item> \<open>StoreLock\<close>: the writer lock and its interleavings; \<open>StoreDirs\<close>: the adapter root, removal of
    debris, and the public entry points that check the root, take the lock and run a mutation.

  \<^bold>\<open>State and operations.\<close> A struct is a record with the source's fields, an enum a datatype with its
  constructors, a function a definition of the same name (with a prefix such as \<open>oi_\<close>, \<open>im_\<close>, \<open>fb_\<close>
  or \<open>sparse_\<close> where two types share a method name). An operation on \<open>&mut self\<close> returns the state
  beside its outcome, also when it fails. Operations on the file system are functions on a \<open>world\<close> (the
  entries of the parent directory, the trace of the directories it went through, the number of system
  calls so far); the environment decides for each call whether it fails, so that every theorem covers
  every pattern of failures, and a crash is a prefix of the trace. \<open>HashMap\<close> and \<open>BTreeMap\<close> values are
  maps or association lists; where the iteration order of a hash map could matter it is an argument.
  Row IDs and the integers of the file format have their width (\<open>64 word\<close>, \<open>u32\<close>, \<open>u16\<close>); \<open>usize\<close> is
  a \<open>nat\<close> with the checked operations of the source written out at the bounds of the 64-bit targets,
  on which the crates are built. All loops are structural or have a \<open>termination\<close> proof; no fuel is used.
  A transaction of the store is a function from the database file to a result and the file it leaves;
  the attempts to lock an adapter root are a step relation, \<open>lock_step\<close>, in which the steps of
  different processes and threads interleave.

  \<^bold>\<open>Parameters.\<close> Code outside the repository is an argument: the record of \<open>ordvec\<close> operations; the
  environment variable and pool size of the tile scheduler (\<open>runtime\<close>); the file system (\<open>os\<close>), the
  clock of the backup names and the manifest verifier (a predicate on bundles); the natural logarithm
  and \<open>select_nth_unstable_by\<close> of the sparse search (\<open>search_env\<close>); the rendering of external error
  values in messages (the \<open>show_\<close> arguments); the tokenizer and printer of \<open>serde_json\<close> (\<open>json_env\<close>); the
  database \<open>redb\<close> (a record of its calls); the clock, the random source, the verifier of
  \<open>ordvec-manifest\<close> and the file system around a store (\<open>store_env\<close>); the file lock of the operating
  system (a step of \<open>lock_step\<close>); the calls of the feature cache that may fail, SHA-256 and the texts of
  its records (\<open>cache_env\<close>). What the theorems assume of them is \<open>ordvec_ok\<close>, \<open>env_ok\<close>, \<open>redb_ok\<close>
  and, of JSON, that printing then scanning a value gives it back; the witnesses discharge these on
  concrete instances. Calls of \<open>redb\<close> and of the file system may fail at any point.

  \<^bold>\<open>What is shown.\<close>
  \<^item> Dense index: runs of \<open>add_2d\<close> and \<open>swap_remove\<close> refine a list of vectors; each operation is all or
    nothing, keeps the invariant and never panics; the constructor accepts exactly the documented
    shapes; the parallel validity sweep agrees with the serial one.
  \<^item> Dense search: the checked search succeeds exactly on valid input and follows its plan; the result
    does not depend on the chunking; every slot returned is stored and, with an allowlist, listed; the
    panicking variant is the checked one where it does not panic.
  \<^item> ID map: the two tables stay inverse, runs refine a finite map from IDs to vectors, loading refuses
    inconsistent tables, and searches return stored (or listed) IDs.
  \<^item> Bundles: every state of the directory during a replacement holds the old or the new bundle under a
    name that recovery finds, whatever calls fail, and recovery after a crash at any point installs one
    of them; the backup names and the ID sidecar round-trip; recovery of \<open>name\<close> also takes the backups
    of a bundle named \<open>name.bak-x\<close>, and can install one of them (a finding).
  \<^item> Ranked batches and fusion: constructors establish the canonical order, the validating constructor
    accepts exactly the normal forms, and the fused rows and scores are those of the definition,
    whatever the order of the hash map.
  \<^item> Sparse sidecar: terms are normal forms; the builder writes the image of the inverted index of its
    documents or fails; validation is characterised as an equivalence, never panics, and what it accepts
    is a well-formed inverted index whose accessors never fail; the image opens again, binary search
    finds exactly its terms, and the search returns the BM25 ranking of the documents that were added;
    the binding check accepts exactly the row IDs of the bundle.
  \<^item> Learning to rank: the matrix has the value of each named feature for each fused row; compiling a
    tree succeeds exactly on trees that evaluation cannot leave or loop in, and the compiled tree scores
    as the source tree; reranking is the stable sort by score; a child shared by two nodes is accepted
    (a finding).
  \<^item> Feature cache: what is written passes every check of the reader and holds the data; what the reader
    accepts lies inside the bundle and has the stated sizes and digests; attaching a cache replaces its
    nine entries; the end of a text file can be lost without an error (a finding).
  \<^item> Adapter store: payloads round-trip and what parses is consistent; a store that opens satisfies the
    checks on every table; a commit advances the revision and one with a stale revision writes nothing;
    a snapshot of a new or of the active generation opens again, one of a retired generation is written
    and does not (a finding).
  \<^item> Lock and directories: at most one writer per adapter root between correct closes, and the two ways
    in which that is lost (findings); every mutation ran with the lock held; the root is a chain of
    directories; collection removes exactly the debris and never a generation.

  \<^bold>\<open>Not modelled.\<close> The writing and loading of whole bundles and manifests (hashing and JSON of external
  crates), the atomic file operations of the sparse writer, the hybrid facade (re-exports), the command
  line, the Python bindings, benchmarks and examples. In the store, the branch for the symlinks that
  macOS puts above a temporary directory, and the accessors of an open store. Threads are not modelled
  outside the writer lock: a parallel iterator is the function on the list it collects, in
  order, which is what rayon documents for indexed iterators. Fast float kernels belong to \<open>ordvec\<close>.
\<close>

end
